(* ===== verification/Prelude.thy ===== *)
theory Prelude
  imports Main "HOL-Library.Word" "HOL-Library.Monad_Syntax"
begin

text \<open>
  Shared vocabulary of the development: byte strings, the error type of the
  modelled Go code, slices, bit strings read most significant bit first, and the
  interface of a fixed-width byte encoding.

  A Go function that can fail returns a value of \<open>'a res\<close>: \<open>Inl\<close> carries
  the error value or \<open>Panic\<close> for a run-time panic (an index or slice bound out of
  range, an explicit \<open>panic\<close>), \<open>Inr\<close> the result.  Where the only failure is
  \<open>io.EOF\<close>, the type \<open>option\<close> is used and \<open>None\<close> is that error.
\<close>

unbundle bit_operations_syntax

type_synonym byte = "8 word"
type_synonym bytes = "8 word list"

datatype err =
    Panic
  | EOF
  | UnexpectedEOF
  | Error string

type_synonym 'a res = "err + 'a"

named_theorems slice_simps "slices of byte strings"
named_theorems bits_simps "bit strings of words"
named_theorems codec_simps "encoders and decoders"

fun ebind :: "'a res \<Rightarrow> ('a \<Rightarrow> 'b res) \<Rightarrow> 'b res" where
  "ebind (Inl e) f = Inl e"
| "ebind (Inr x) f = f x"

lemma ebind_Inr_iff: "ebind m f = Inr y \<longleftrightarrow> (\<exists>x. m = Inr x \<and> f x = Inr y)"
  by (cases m) auto

lemma ebind_Inl_iff: "ebind m f = Inl e \<longleftrightarrow> m = Inl e \<or> (\<exists>x. m = Inr x \<and> f x = Inl e)"
  by (cases m) auto

lemma ebind_assoc: "ebind (ebind m f) g = ebind m (\<lambda>x. ebind (f x) g)"
  by (cases m) auto

subsection \<open>Slices\<close>

text \<open>\<open>sub b i j\<close> is the Go slice \<open>b[i:j]\<close> for bounds that are in range.\<close>

definition sub :: "'a list \<Rightarrow> nat \<Rightarrow> nat \<Rightarrow> 'a list" where
  "sub b i j = take (j - i) (drop i b)"

lemma length_sub [simp]: "length (sub b i j) = min (j - i) (length b - i)"
  by (simp add: sub_def)

lemma sub_full [slice_simps]: "sub b 0 (length b) = b"
  by (simp add: sub_def)

lemma sub_append_left [slice_simps]: "j \<le> length xs \<Longrightarrow> sub (xs @ ys) i j = sub xs i j"
  by (cases "i \<le> length xs") (auto simp: sub_def)

lemma sub_append_right [slice_simps]:
  "length xs \<le> i \<Longrightarrow> sub (xs @ ys) i j = sub ys (i - length xs) (j - length xs)"
  by (simp add: sub_def)

lemma take_sub_append: "i \<le> j \<Longrightarrow> take i b @ sub b i j = take j b"
  by (simp add: sub_def) (metis le_add_diff_inverse take_add)

lemma nth_sub: "i + k < j \<Longrightarrow> j \<le> length b \<Longrightarrow> sub b i j ! k = b ! (i + k)"
  by (simp add: sub_def)

text \<open>Writing a run of elements into a buffer at an offset, the buffer long enough.\<close>

definition put_at :: "'a list \<Rightarrow> nat \<Rightarrow> 'a list \<Rightarrow> 'a list" where
  "put_at b n xs = take n b @ xs @ drop (n + length xs) b"

lemma length_put_at [simp]: "n + length xs \<le> length b \<Longrightarrow> length (put_at b n xs) = length b"
  by (simp add: put_at_def)

lemma take_put_at [slice_simps]: "n + length xs \<le> length b \<Longrightarrow> m \<le> n \<Longrightarrow> take m (put_at b n xs) = take m b"
  by (simp add: put_at_def min_def)

lemma drop_put_at [slice_simps]:
  "n + length xs \<le> length b \<Longrightarrow> n + length xs \<le> m \<Longrightarrow> drop m (put_at b n xs) = drop m b"
  by (simp add: put_at_def)

lemma take_put_at_end [slice_simps]:
  "n + length xs \<le> length b \<Longrightarrow> take (n + length xs) (put_at b n xs) = take n b @ xs"
  by (simp add: put_at_def)

subsection \<open>Bit strings\<close>

text \<open>
  \<open>wbits n w\<close> lists the low \<open>n\<close> bits of a word, most significant first: the order in
  which the bit readers and writers of \<open>utils/bits\<close> consume and emit them.
\<close>

definition wbits :: "nat \<Rightarrow> 'a::len word \<Rightarrow> bool list" where
  "wbits n w = map (\<lambda>i. bit w (n - 1 - i)) [0..<n]"

lemma length_wbits [simp]: "length (wbits n w) = n"
  by (simp add: wbits_def)

lemma nth_wbits [simp]: "i < n \<Longrightarrow> wbits n w ! i = bit w (n - 1 - i)"
  by (simp add: wbits_def)

lemma wbits_0 [simp]: "wbits 0 w = []"
  by (simp add: wbits_def)

lemma wbits_Nil_iff [simp]: "wbits n w = [] \<longleftrightarrow> n = 0"
  by (simp add: wbits_def)

lemma wbits_Suc: "wbits (Suc n) w = bit w n # wbits n w"
  by (rule nth_equalityI) (auto simp: nth_Cons split: nat.splits)

lemma wbits_eqI:
  "(\<And>i. i < n \<Longrightarrow> bit v i = bit w i) \<Longrightarrow> wbits n v = wbits n w"
  by (rule nth_equalityI) auto

lemma wbits_eq_iff: "wbits n v = wbits n w \<longleftrightarrow> (\<forall>i<n. bit v i = bit w i)"
proof
  assume eq: "wbits n v = wbits n w"
  show "\<forall>i<n. bit v i = bit w i"
  proof (intro allI impI)
    fix i assume "i < n"
    then have "wbits n v ! (n - 1 - i) = wbits n w ! (n - 1 - i)" by (simp add: eq)
    with \<open>i < n\<close> show "bit v i = bit w i" by simp
  qed
qed (auto intro: wbits_eqI)

lemma take_wbits [bits_simps]: "n \<le> m \<Longrightarrow> take n (wbits m w) = wbits n (drop_bit (m - n) w)"
  by (rule nth_equalityI) (auto simp: bit_simps)

lemma drop_wbits [bits_simps]: "n \<le> m \<Longrightarrow> drop n (wbits m w) = wbits (m - n) w"
  by (rule nth_equalityI) auto

lemma bit_byte_high [bits_simps]: "8 \<le> i \<Longrightarrow> \<not> bit (x :: byte) i"
  by (auto dest: bit_imp_le_length)

lemma bit_unat_ge: "bit v n \<Longrightarrow> 2 ^ n \<le> unat (v :: 'a::len word)"
proof (rule ccontr)
  assume b: "bit v n" and "\<not> 2 ^ n \<le> unat v"
  then have "unat v div 2 ^ n = 0" by simp
  moreover have "bit (unat v) n" using b by (simp add: bit_unsigned_iff)
  ultimately show False by (simp add: bit_iff_odd)
qed

lemma byte_nonzero_bit: "(x :: byte) \<noteq> 0 \<Longrightarrow> \<exists>i<8. bit x i"
proof (rule ccontr)
  assume "\<not> (\<exists>i<8. bit x i)" and "x \<noteq> 0"
  moreover have "x = 0" if "\<forall>i<8. \<not> bit x i" using that by (intro bit_word_eqI) simp
  ultimately show False by blast
qed

lemma byte_eqI:
  fixes v w :: byte
  assumes "bit v 0 = bit w 0" "bit v 1 = bit w 1" "bit v 2 = bit w 2" "bit v 3 = bit w 3"
    "bit v 4 = bit w 4" "bit v 5 = bit w 5" "bit v 6 = bit w 6" "bit v 7 = bit w 7"
  shows "v = w"
proof (rule bit_word_eqI)
  fix n :: nat assume "n < LENGTH(8)"
  then have "n = 0 \<or> n = 1 \<or> n = 2 \<or> n = 3 \<or> n = 4 \<or> n = 5 \<or> n = 6 \<or> n = 7" by auto
  with assms show "bit v n = bit w n" by blast
qed

definition byte_bits :: "bytes \<Rightarrow> bool list" where
  "byte_bits bs = concat (map (wbits 8) bs)"

lemma byte_bits_simps [simp]:
  "byte_bits [] = []" "byte_bits (b # bs) = wbits 8 b @ byte_bits bs"
  "byte_bits (xs @ ys) = byte_bits xs @ byte_bits ys"
  by (simp_all add: byte_bits_def)

lemma length_byte_bits [simp]: "length (byte_bits bs) = 8 * length bs"
  by (induction bs) auto

lemma nth_byte_bits:
  "i < 8 * length bs \<Longrightarrow> byte_bits bs ! i = bit (bs ! (i div 8)) (7 - i mod 8)"
proof (induction bs arbitrary: i)
  case (Cons b bs)
  show ?case
  proof (cases "i < 8")
    case True
    then show ?thesis by (simp add: nth_append)
  next
    case False
    then have "i div 8 = Suc ((i - 8) div 8)" and "i mod 8 = (i - 8) mod 8"
      by (simp_all add: le_div_geq le_mod_geq)
    with False Cons show ?thesis by (simp add: nth_append)
  qed
qed simp

lemma byte_bits_split_word [bits_simps]:
  fixes x :: "'a::len word"
  shows "byte_bits (map (\<lambda>i. ucast (drop_bit ((want - i - 1) * 8) x)) [0..<want]) = wbits (8 * want) x"
proof (rule nth_equalityI)
  fix i assume "i < length (byte_bits (map (\<lambda>i. ucast (drop_bit ((want - i - 1) * 8) x) :: byte) [0..<want]))"
  then have i: "i < 8 * want" by simp
  define q where "q = i div 8"
  define m where "m = i mod 8"
  have i_eq: "i = 8 * q + m" and m: "m < 8" by (simp_all add: q_def m_def)
  with i have q: "q < want" by simp
  have "8 * want - 1 - i = (want - q - 1) * 8 + (7 - m)" using i_eq m q by simp
  with i q m show "byte_bits (map (\<lambda>i. ucast (drop_bit ((want - i - 1) * 8) x) :: byte) [0..<want]) ! i
      = wbits (8 * want) x ! i"
    by (simp add: nth_byte_bits q_def [symmetric] m_def [symmetric] bit_simps less_diff_conv2)
qed simp

text \<open>Appending the low \<open>k\<close> bits of \<open>v\<close> to \<open>n\<close> bits held right-aligned in \<open>w\<close>.\<close>

lemma wbits_shift_or [bits_simps]:
  fixes w v :: "'a::len word"
  assumes "n + k \<le> LENGTH('a)" and "\<And>i. k \<le> i \<Longrightarrow> \<not> bit v i"
  shows "wbits (n + k) (push_bit k w OR v) = wbits n w @ wbits k v"
proof (rule nth_equalityI)
  fix i assume i: "i < length (wbits (n + k) (push_bit k w OR v))"
  show "wbits (n + k) (push_bit k w OR v) ! i = (wbits n w @ wbits k v) ! i"
  proof (cases "i < n")
    case True
    define j where "j = n - 1 - i"
    with True have "n + k - 1 - i = k + j" and "k + j < LENGTH('a)" using assms(1) by simp_all
    with True i assms(2) show ?thesis by (simp add: nth_append bit_simps) (simp add: j_def)
  next
    case False
    define j where "j = k - 1 - (i - n)"
    with False i have "n + k - 1 - i = j" and "j < k" by simp_all
    with False i show ?thesis by (simp add: nth_append bit_simps del: diff_diff_left) (simp add: j_def)
  qed
qed simp

text \<open>The word whose bits, most significant first, are a given bit string.\<close>

definition of_bits :: "bool list \<Rightarrow> 'a::len word" where
  "of_bits bs = horner_sum of_bool 2 (rev bs)"

lemma bit_of_bits [bits_simps]:
  "bit (of_bits bs :: 'a::len word) i \<longleftrightarrow>
     i < min LENGTH('a) (length bs) \<and> bs ! (length bs - 1 - i)"
  by (auto simp: of_bits_def bit_horner_sum_bit_word_iff rev_nth)

lemma of_bits_Nil [simp]: "of_bits [] = 0"
  by (simp add: of_bits_def)

lemma of_bits_snoc: "of_bits (bs @ [b]) = push_bit 1 (of_bits bs) OR (of_bool b :: 'a::len word)"
proof (rule bit_word_eqI)
  fix n assume "n < LENGTH('a)"
  then show "bit (of_bits (bs @ [b]) :: 'a word) n = bit (push_bit 1 (of_bits bs) OR of_bool b :: 'a word) n"
    by (cases n) (auto simp: bits_simps bit_simps bit_double_iff mult.commute [of _ 2] nth_append
        dest: bit_imp_le_length)
qed

lemma of_bits_Cons:
  "length bs < LENGTH('a) \<Longrightarrow>
     of_bits (b # bs) = push_bit (length bs) (of_bool b) OR (of_bits bs :: 'a::len word)"
proof (rule bit_word_eqI)
  fix n assume len: "length bs < LENGTH('a)" and n: "n < LENGTH('a)"
  show "bit (of_bits (b # bs) :: 'a word) n = bit (push_bit (length bs) (of_bool b) OR (of_bits bs :: 'a word)) n"
  proof (cases "n < length bs")
    case True
    then have "length bs - n = Suc (length bs - Suc n)" by simp
    with True n show ?thesis by (simp add: bits_simps bit_simps)
  next
    case False
    with len n show ?thesis by (auto simp: bits_simps bit_simps)
  qed
qed

lemma of_bits_wbits [simp]: "of_bits (wbits n w) = take_bit n w"
  by (rule bit_word_eqI) (auto simp: bits_simps bit_simps)

lemma wbits_of_bits:
  "length bs \<le> LENGTH('a::len) \<Longrightarrow> wbits (length bs) (of_bits bs :: 'a word) = bs"
  by (rule nth_equalityI) (auto simp: bits_simps)

lemma of_bits_less: "length bs < LENGTH('a) \<Longrightarrow> unat (of_bits bs :: 'a::len word) < 2 ^ length bs"
proof -
  assume "length bs < LENGTH('a)"
  have "take_bit (length bs) (of_bits bs :: 'a word) = of_bits bs"
    by (rule bit_word_eqI) (auto simp: bits_simps bit_simps)
  then show ?thesis
    by (metis take_bit_nat_less_exp unsigned_take_bit_eq)
qed

subsection \<open>Stateful operations that can fail\<close>

text \<open>
  A method of a reader with state \<open>'s\<close>: it returns a result or an error, and the state
  it leaves behind in either case.
\<close>

type_synonym ('s, 'a) op = "'s \<Rightarrow> 'a res \<times> 's"

definition sret :: "'a \<Rightarrow> ('s, 'a) op" where
  "sret x s = (Inr x, s)"

definition sfail :: "err \<Rightarrow> ('s, 'a) op" where
  "sfail e s = (Inl e, s)"

definition sbind :: "('s, 'a) op \<Rightarrow> ('a \<Rightarrow> ('s, 'b) op) \<Rightarrow> ('s, 'b) op" where
  "sbind m f s = (case m s of (Inl e, s') \<Rightarrow> (Inl e, s') | (Inr x, s') \<Rightarrow> f x s')"

lemma sret_apply [simp]: "sret x s = (Inr x, s)"
  by (simp add: sret_def)

lemma sfail_apply [simp]: "sfail e s = (Inl e, s)"
  by (simp add: sfail_def)

lemma sbind_Inr [simp]: "m s = (Inr x, s') \<Longrightarrow> sbind m f s = f x s'"
  by (simp add: sbind_def)

lemma sbind_Inl [simp]: "m s = (Inl e, s') \<Longrightarrow> sbind m f s = (Inl e, s')"
  by (simp add: sbind_def)

lemma sbind_assoc: "sbind (sbind m f) g = sbind m (\<lambda>x. sbind (f x) g)"
  by (rule ext) (auto simp: sbind_def split: prod.splits sum.splits)

lemma sbind_sret [simp]: "sbind (sret x) f = f x" "sbind m (\<lambda>_. sret ()) = m"
  by (rule ext, auto simp: sbind_def split: prod.splits sum.splits)+

lemma sbind_sret_right [simp]: "sbind m sret = m"
  by (rule ext) (auto simp: sbind_def split: prod.splits sum.splits)

lemma sbind_InrE:
  assumes "sbind m f s = (Inr y, t)"
  obtains x s' where "m s = (Inr x, s')" and "f x s' = (Inr y, t)"
  using assms by (auto simp: sbind_def split: prod.splits sum.splits)

subsection \<open>Fixed-width encodings\<close>

text \<open>
  The interface between the byte-level accessors and the formats built from them: an
  encoder that always produces \<open>width\<close> bytes and a decoder that reads a value back from
  the front of a slice.  \<open>get_table\<close> is the loop that fills a slice of entries, each
  read at the running offset.
\<close>

fun get_table :: "(bytes \<Rightarrow> 'a res) \<Rightarrow> nat \<Rightarrow> nat \<Rightarrow> bytes \<Rightarrow> 'a list res" where
  "get_table dec width 0 b = Inr []"
| "get_table dec width (Suc k) b =
     ebind (dec b) (\<lambda>x. ebind (get_table dec width k (drop width b)) (\<lambda>xs. Inr (x # xs)))"

definition put_table :: "('a \<Rightarrow> bytes) \<Rightarrow> 'a list \<Rightarrow> bytes" where
  "put_table enc xs = concat (map enc xs)"

lemma put_table_simps [simp]:
  "put_table enc [] = []" "put_table enc (x # xs) = enc x @ put_table enc xs"
  by (simp_all add: put_table_def)

locale fixed_codec =
  fixes enc :: "'a \<Rightarrow> bytes" and dec :: "bytes \<Rightarrow> 'a res" and width :: nat
  assumes length_enc: "length (enc x) = width"
    and dec_enc: "dec (enc x @ r) = Inr x"
begin

lemma length_put_table: "length (put_table enc xs) = width * length xs"
  by (induction xs) (auto simp: length_enc)

lemma get_put_table: "get_table dec width (length xs) (put_table enc xs @ r) = Inr xs"
  by (induction xs) (auto simp: dec_enc length_enc)

lemma enc_inj: "enc x = enc y \<Longrightarrow> x = y"
  using dec_enc [of x "[]"] dec_enc [of y "[]"] by simp

end

end
