(* ===== verification/Pio.thy ===== *)
theory Pio
  imports Prelude
begin

text \<open>
  \<open>utils/bits/pio\<close>: fixed-width integers read from and written into byte slices
  (\<open>reader.go\<close>, \<open>writer.go\<close>) and slicing of a vector of byte slices (\<open>vec.go\<close>).
  A read or a write past the end of the slice panics in Go; it is \<open>Inl Panic\<close> here.
  Signed integers are words of the same width: \<open>sint\<close> reads them.
\<close>

section \<open>reader.go\<close>

fun U8 :: "bytes \<Rightarrow> 8 word res" where
  "U8 (b0 # _) = Inr b0"
| "U8 _ = Inl Panic"

fun U16BE :: "bytes \<Rightarrow> 16 word res" where
  "U16BE (b0 # b1 # _) = Inr (push_bit 8 (ucast b0) OR ucast b1)"
| "U16BE _ = Inl Panic"

fun I16BE :: "bytes \<Rightarrow> 16 word res" where
  "I16BE (b0 # b1 # _) = Inr (push_bit 8 (ucast b0) OR ucast b1)"
| "I16BE _ = Inl Panic"

fun I24BE :: "bytes \<Rightarrow> 32 word res" where
  "I24BE (b0 # b1 # b2 # _) =
     Inr (push_bit 8 (push_bit 8 (scast b0) OR ucast b1) OR ucast b2)"
| "I24BE _ = Inl Panic"

fun U24BE :: "bytes \<Rightarrow> 32 word res" where
  "U24BE (b0 # b1 # b2 # _) =
     Inr (push_bit 8 (push_bit 8 (ucast b0) OR ucast b1) OR ucast b2)"
| "U24BE _ = Inl Panic"

fun I32BE :: "bytes \<Rightarrow> 32 word res" where
  "I32BE (b0 # b1 # b2 # b3 # _) =
     Inr (push_bit 8 (push_bit 8 (push_bit 8 (scast b0) OR ucast b1) OR ucast b2) OR ucast b3)"
| "I32BE _ = Inl Panic"

fun U32LE :: "bytes \<Rightarrow> 32 word res" where
  "U32LE (b0 # b1 # b2 # b3 # _) =
     Inr (push_bit 8 (push_bit 8 (push_bit 8 (ucast b3) OR ucast b2) OR ucast b1) OR ucast b0)"
| "U32LE _ = Inl Panic"

fun U32BE :: "bytes \<Rightarrow> 32 word res" where
  "U32BE (b0 # b1 # b2 # b3 # _) =
     Inr (push_bit 8 (push_bit 8 (push_bit 8 (ucast b0) OR ucast b1) OR ucast b2) OR ucast b3)"
| "U32BE _ = Inl Panic"

fun U40BE :: "bytes \<Rightarrow> 64 word res" where
  "U40BE (b0 # b1 # b2 # b3 # b4 # _) =
     Inr (push_bit 8 (push_bit 8 (push_bit 8 (push_bit 8 (ucast b0) OR ucast b1)
            OR ucast b2) OR ucast b3) OR ucast b4)"
| "U40BE _ = Inl Panic"

fun U64BE :: "bytes \<Rightarrow> 64 word res" where
  "U64BE (b0 # b1 # b2 # b3 # b4 # b5 # b6 # b7 # _) =
     Inr (push_bit 8 (push_bit 8 (push_bit 8 (push_bit 8 (push_bit 8 (push_bit 8
            (push_bit 8 (ucast b0) OR ucast b1) OR ucast b2) OR ucast b3) OR ucast b4)
            OR ucast b5) OR ucast b6) OR ucast b7)"
| "U64BE _ = Inl Panic"

fun I64BE :: "bytes \<Rightarrow> 64 word res" where
  "I64BE (b0 # b1 # b2 # b3 # b4 # b5 # b6 # b7 # _) =
     Inr (push_bit 8 (push_bit 8 (push_bit 8 (push_bit 8 (push_bit 8 (push_bit 8
            (push_bit 8 (scast b0) OR ucast b1) OR ucast b2) OR ucast b3) OR ucast b4)
            OR ucast b5) OR ucast b6) OR ucast b7)"
| "I64BE _ = Inl Panic"

section \<open>writer.go\<close>

text \<open>The bytes each writer stores, then the store itself into the front of a slice.\<close>

definition put_front :: "bytes \<Rightarrow> bytes \<Rightarrow> bytes res" where
  "put_front b xs = (if length b < length xs then Inl Panic else Inr (xs @ drop (length xs) b))"

definition be16 :: "16 word \<Rightarrow> bytes" where
  "be16 v = [ucast (drop_bit 8 v), ucast v]"

definition be24 :: "32 word \<Rightarrow> bytes" where
  "be24 v = [ucast (drop_bit 16 v), ucast (drop_bit 8 v), ucast v]"

definition be32 :: "32 word \<Rightarrow> bytes" where
  "be32 v = [ucast (drop_bit 24 v), ucast (drop_bit 16 v), ucast (drop_bit 8 v), ucast v]"

definition le32 :: "32 word \<Rightarrow> bytes" where
  "le32 v = [ucast v, ucast (drop_bit 8 v), ucast (drop_bit 16 v), ucast (drop_bit 24 v)]"

definition be40 :: "64 word \<Rightarrow> bytes" where
  "be40 v = [ucast (drop_bit 32 v), ucast (drop_bit 24 v), ucast (drop_bit 16 v),
     ucast (drop_bit 8 v), ucast v]"

definition be48 :: "64 word \<Rightarrow> bytes" where
  "be48 v = [ucast (drop_bit 40 v), ucast (drop_bit 32 v), ucast (drop_bit 24 v),
     ucast (drop_bit 16 v), ucast (drop_bit 8 v), ucast v]"

definition be64 :: "64 word \<Rightarrow> bytes" where
  "be64 v = [ucast (drop_bit 56 v), ucast (drop_bit 48 v), ucast (drop_bit 40 v),
     ucast (drop_bit 32 v), ucast (drop_bit 24 v), ucast (drop_bit 16 v),
     ucast (drop_bit 8 v), ucast v]"

definition PutU8 :: "bytes \<Rightarrow> 8 word \<Rightarrow> bytes res" where
  "PutU8 b v = put_front b [v]"

definition PutU16BE :: "bytes \<Rightarrow> 16 word \<Rightarrow> bytes res" where
  "PutU16BE b v = put_front b (be16 v)"

definition PutI16BE :: "bytes \<Rightarrow> 16 word \<Rightarrow> bytes res" where
  "PutI16BE b v = put_front b (be16 v)"

definition PutU24BE :: "bytes \<Rightarrow> 32 word \<Rightarrow> bytes res" where
  "PutU24BE b v = put_front b (be24 v)"

definition PutI24BE :: "bytes \<Rightarrow> 32 word \<Rightarrow> bytes res" where
  "PutI24BE b v = put_front b (be24 v)"

definition PutU32BE :: "bytes \<Rightarrow> 32 word \<Rightarrow> bytes res" where
  "PutU32BE b v = put_front b (be32 v)"

definition PutI32BE :: "bytes \<Rightarrow> 32 word \<Rightarrow> bytes res" where
  "PutI32BE b v = put_front b (be32 v)"

definition PutU32LE :: "bytes \<Rightarrow> 32 word \<Rightarrow> bytes res" where
  "PutU32LE b v = put_front b (le32 v)"

definition PutU40BE :: "bytes \<Rightarrow> 64 word \<Rightarrow> bytes res" where
  "PutU40BE b v = put_front b (be40 v)"

definition PutU48BE :: "bytes \<Rightarrow> 64 word \<Rightarrow> bytes res" where
  "PutU48BE b v = put_front b (be48 v)"

definition PutU64BE :: "bytes \<Rightarrow> 64 word \<Rightarrow> bytes res" where
  "PutU64BE b v = put_front b (be64 v)"

definition PutI64BE :: "bytes \<Rightarrow> 64 word \<Rightarrow> bytes res" where
  "PutI64BE b v = put_front b (be64 v)"

lemma length_be [simp]:
  "length (be16 v) = 2" "length (be24 w) = 3" "length (be32 w) = 4" "length (le32 w) = 4"
  "length (be40 x) = 5" "length (be48 x) = 6" "length (be64 x) = 8"
  by (simp_all add: be16_def be24_def be32_def le32_def be40_def be48_def be64_def)

section \<open>Round trips\<close>

text \<open>One step of a big-endian read: shift a byte in at the low end.\<close>

lemma bit_shift_in [bits_simps]:
  fixes x :: "'a::len word" and b :: "8 word"
  assumes "n < LENGTH('a)"
  shows "bit (push_bit 8 x OR ucast b) n \<longleftrightarrow> (if n < 8 then bit b n else bit x (n - 8))"
  using assms by (auto simp: bit_simps dest: bit_imp_le_length)

lemma bit_byte_of [bits_simps]:
  fixes v :: "'a::len word"
  shows "bit (ucast (drop_bit k v) :: 8 word) n \<longleftrightarrow> n < 8 \<and> bit v (k + n)"
  by (auto simp: bit_simps)

lemma bit_byte_of0 [bits_simps]:
  fixes v :: "'a::len word"
  shows "bit (ucast v :: 8 word) n \<longleftrightarrow> n < 8 \<and> bit v n"
  by (auto simp: bit_simps)

lemma join16 [codec_simps]:
  "push_bit 8 (ucast (ucast (drop_bit 8 v) :: 8 word)) OR ucast (ucast v :: 8 word) = (v :: 16 word)"
  by (rule bit_word_eqI) (auto simp: bit_simps)

lemma join24 [codec_simps]:
  "(push_bit 16 (ucast (ucast (drop_bit 16 v) :: 8 word))
      OR push_bit 8 (ucast (ucast (drop_bit 8 v) :: 8 word)))
      OR ucast (ucast v :: 8 word) = (v :: 32 word) AND mask 24" (is "?l = _")
proof (rule bit_word_eqI)
  fix n :: nat assume "n < LENGTH(32)"
  then consider "n < 8" | "8 \<le> n" "n < 16" | "16 \<le> n" "n < 24" | "24 \<le> n" "n < 32" by fastforce
  then show "bit ?l n = bit (v AND mask 24) n"
    by cases (simp_all add: bit_simps less_diff_conv2)
qed

lemma join32 [codec_simps]:
  "((push_bit 24 (ucast (ucast (drop_bit 24 v) :: 8 word))
      OR push_bit 16 (ucast (ucast (drop_bit 16 v) :: 8 word)))
      OR push_bit 8 (ucast (ucast (drop_bit 8 v) :: 8 word)))
      OR ucast (ucast v :: 8 word) = (v :: 32 word)" (is "?l = _")
proof (rule bit_word_eqI)
  fix n :: nat assume "n < LENGTH(32)"
  then consider "n < 8" | "8 \<le> n" "n < 16" | "16 \<le> n" "n < 24" | "24 \<le> n" "n < 32" by fastforce
  then show "bit ?l n = bit (v) n"
    by cases (simp_all add: bit_simps less_diff_conv2)
qed

lemma join64 [codec_simps]:
  "((((((push_bit 56 (ucast (ucast (drop_bit 56 v) :: 8 word))
      OR push_bit 48 (ucast (ucast (drop_bit 48 v) :: 8 word)))
      OR push_bit 40 (ucast (ucast (drop_bit 40 v) :: 8 word)))
      OR push_bit 32 (ucast (ucast (drop_bit 32 v) :: 8 word)))
      OR push_bit 24 (ucast (ucast (drop_bit 24 v) :: 8 word)))
      OR push_bit 16 (ucast (ucast (drop_bit 16 v) :: 8 word)))
      OR push_bit 8 (ucast (ucast (drop_bit 8 v) :: 8 word)))
      OR ucast (ucast v :: 8 word) = (v :: 64 word)" (is "?l = _")
proof (rule bit_word_eqI)
  fix n :: nat assume "n < LENGTH(64)"
  then consider "n < 8" | "8 \<le> n" "n < 16" | "16 \<le> n" "n < 24" | "24 \<le> n" "n < 32" | "32 \<le> n" "n < 40" | "40 \<le> n" "n < 48" | "48 \<le> n" "n < 56" | "56 \<le> n" "n < 64" by fastforce
  then show "bit ?l n = bit (v) n"
    by cases (simp_all add: bit_simps less_diff_conv2)
qed

lemma U_be [simp]:
  "U16BE (be16 v @ r) = Inr v" "I16BE (be16 v @ r) = Inr v"
  "U24BE (be24 w @ r) = Inr (w AND mask 24)"
  "U32BE (be32 w @ r) = Inr w" "U32LE (le32 w @ r) = Inr w"
  "U64BE (be64 x @ r) = Inr x"
  by (simp_all add: be16_def be24_def be32_def le32_def be64_def codec_simps)

text \<open>Reading then writing gives the bytes back.\<close>

lemma split_be:
  "U16BE (b0 # b1 # r) = Inr v \<Longrightarrow> be16 v = [b0, b1]"
  "U24BE (b0 # b1 # b2 # r) = Inr w \<Longrightarrow> be24 w = [b0, b1, b2]"
  "U32BE (b0 # b1 # b2 # b3 # r) = Inr w \<Longrightarrow> be32 w = [b0, b1, b2, b3]"
  by (auto simp: be16_def be24_def be32_def intro!: bit_word_eqI simp: bit_simps bit_byte_high)

text \<open>The sign extension of the first byte is shifted out of a 32-bit or 64-bit result.\<close>

lemma I32BE_eq_U32BE: "I32BE b = U32BE b"
proof (cases b rule: I32BE.cases)
  case (1 b0 b1 b2 b3 r)
  have "push_bit 24 (scast b0) = (push_bit 24 (ucast b0) :: 32 word)"
    by (rule bit_word_eqI) (auto simp: bit_simps)
  then show ?thesis
    by (simp add: 1 push_bit_or)
qed simp_all

lemma I64BE_eq_U64BE: "I64BE b = U64BE b"
proof (cases b rule: I64BE.cases)
  case (1 b0 b1 b2 b3 b4 b5 b6 b7 r)
  have "push_bit 56 (scast b0) = (push_bit 56 (ucast b0) :: 64 word)"
    by (rule bit_word_eqI) (auto simp: bit_simps)
  then show ?thesis
    by (simp add: 1 push_bit_or)
qed simp_all

lemma I_be [simp]: "I32BE (be32 w @ r) = Inr w" "I64BE (be64 x @ r) = Inr x"
  by (simp_all add: I32BE_eq_U32BE I64BE_eq_U64BE)

text \<open>The accessors as instances of the fixed-width interface.\<close>

interpretation u16: fixed_codec be16 U16BE 2
  by unfold_locales simp_all

interpretation u32: fixed_codec be32 U32BE 4
  by unfold_locales simp_all

interpretation u32le: fixed_codec le32 U32LE 4
  by unfold_locales simp_all

interpretation u64: fixed_codec be64 U64BE 8
  by unfold_locales simp_all

interpretation i32: fixed_codec be32 I32BE 4
  by unfold_locales simp_all

lemma put_front_Inr [simp]:
  "put_front b xs = Inr b' \<longleftrightarrow> length xs \<le> length b \<and> b' = xs @ drop (length xs) b"
  by (auto simp: put_front_def)

end
