(* ===== verification/Vec.thy ===== *)
theory Vec
  imports Pio
begin

text \<open>
  \<open>utils/bits/pio/vec.go\<close>: part of a vector of byte slices, cut out without copying.  A negative end
  stands for the end of the vector.
\<close>

definition VecLen :: "bytes list \<Rightarrow> nat" where
  "VecLen vec = sum_list (map length vec)"

text \<open>The loop that looks for the start: the slices left, the offset in the first, and what is left of \<open>s\<close> and \<open>e\<close>.\<close>

fun vec_start :: "bytes list \<Rightarrow> int \<Rightarrow> int \<Rightarrow> bytes list \<times> nat \<times> int \<times> int" where
  "vec_start [] s e = ([], 0, s, e)"
| "vec_start (b # bs) s e = (if s \<le> 0 then (b # bs, 0, s, e)
     else if int (length b) \<le> s then vec_start bs (s - int (length b)) (e - int (length b))
     else (b # bs, nat s, 0, e - s))"

text \<open>The loop that collects: the parts and what is left of \<open>e\<close>.\<close>

primrec vec_parts :: "bytes list \<Rightarrow> nat \<Rightarrow> int \<Rightarrow> bytes list \<times> int" where
  "vec_parts [] off e = ([], e)"
| "vec_parts (b # bs) off e = (if e = 0 then ([], 0)
     else let left = length b - off; n = (if 0 < e \<and> e < int left then nat e else left) in
       if n = left then (case vec_parts bs 0 (e - int n) of (out, e') \<Rightarrow> (sub b off (off + n) # out, e'))
       else ([sub b off (off + n)], e - int n))"

definition VecSliceTo :: "bytes list \<Rightarrow> nat \<Rightarrow> int \<Rightarrow> int \<Rightarrow> bytes list res" where
  "VecSliceTo xs cap s e = (let s = max s 0 in
     if 0 \<le> e \<and> e < s then Inl Panic
     else case vec_start xs s e of (ys, off, s', e') \<Rightarrow>
       if 0 < s' then Inl Panic
       else case vec_parts ys off e' of (out, e'') \<Rightarrow>
         if 0 < e'' \<or> cap < length out then Inl Panic else Inr out)"

definition VecSlice :: "bytes list \<Rightarrow> int \<Rightarrow> int \<Rightarrow> bytes list res" where
  "VecSlice xs s e = VecSliceTo xs (length xs) s e"

lemma VecLen_concat: "VecLen xs = length (concat xs)"
  by (simp add: VecLen_def length_concat)

lemma vec_start_drop:
  assumes "0 \<le> s" "s \<le> int (VecLen xs)"
  obtains ys off where "vec_start xs s e = (ys, off, 0, e - s)" "drop off (concat ys) = drop (nat s) (concat xs)"
    "length ys \<le> length xs" "case ys of [] \<Rightarrow> off = 0 | b # _ \<Rightarrow> off \<le> length b"
proof -
  have "\<exists>ys off. vec_start xs s e = (ys, off, 0, e - s) \<and> drop off (concat ys) = drop (nat s) (concat xs) \<and>
    length ys \<le> length xs \<and> (case ys of [] \<Rightarrow> off = 0 | b # _ \<Rightarrow> off \<le> length b)"
    using assms
  proof (induction xs arbitrary: s e)
    case (Cons b bs)
    consider "s = 0" | "0 < s" "int (length b) \<le> s" | "0 < s" "s < int (length b)" using Cons.prems by linarith
    then show ?case
    proof cases
      case 2
      with Cons.IH [of "s - int (length b)" "e - int (length b)"] Cons.prems obtain ys off where
        "vec_start bs (s - int (length b)) (e - int (length b)) = (ys, off, 0, e - s)"
        "drop off (concat ys) = drop (nat (s - int (length b))) (concat bs)"
        "length ys \<le> length bs" "case ys of [] \<Rightarrow> off = 0 | b # _ \<Rightarrow> off \<le> length b"
        by (auto simp: VecLen_def algebra_simps)
      with 2 show ?thesis by (auto simp: nat_diff_distrib)
    qed auto
  qed (simp add: VecLen_def)
  then show ?thesis using that by blast
qed

lemma vec_parts_take:
  assumes "0 \<le> e" "e \<le> int (length (concat ys)) - int off" "case ys of [] \<Rightarrow> off = 0 | b # _ \<Rightarrow> off \<le> length b"
  shows "\<exists>out. vec_parts ys off e = (out, 0) \<and> concat out = take (nat e) (drop off (concat ys)) \<and> length out \<le> length ys"
  using assms
proof (induction ys arbitrary: off e)
  case (Cons b bs)
  consider "e = 0" | "0 < e" "e < int (length b - off)" | "0 < e" "int (length b - off) \<le> e" using Cons.prems by linarith
  then show ?case
  proof cases
    case 2
    then have "nat e + off \<le> length b" "nat e \<noteq> length b - off" by linarith+
    with 2 show ?thesis by (simp add: Let_def sub_def add.commute take_drop)
  next
    case 3
    with Cons.prems have "0 \<le> e - int (length b - off)" "e - int (length b - off) \<le> int (length (concat bs)) - int 0"
      by auto
    from Cons.IH [OF this] obtain out where out: "vec_parts bs 0 (e - int (length b - off)) = (out, 0)"
      "concat out = take (nat (e - int (length b - off))) (concat bs)" "length out \<le> length bs"
      by (cases bs) auto
    have "nat (e - int (length b - off)) = nat e - (length b - off)" using 3 by linarith
    moreover have "length b - off \<le> nat e" using 3 by linarith
    ultimately show ?thesis using 3 out Cons.prems(3) by (auto simp: Let_def sub_def)
  qed simp
qed simp

text \<open>What is cut out is the part of the concatenation.\<close>

lemma VecSlice_concat:
  assumes "0 \<le> s" "s \<le> e" "e \<le> int (VecLen xs)"
  shows "\<exists>out. VecSlice xs s e = Inr out \<and> concat out = sub (concat xs) (nat s) (nat e)"
proof -
  obtain ys off where y: "vec_start xs s e = (ys, off, 0, e - s)" "drop off (concat ys) = drop (nat s) (concat xs)"
    "length ys \<le> length xs" "case ys of [] \<Rightarrow> off = 0 | b # _ \<Rightarrow> off \<le> length b"
    by (rule vec_start_drop [of s xs e]) (use assms in auto)
  have "length (concat ys) - off = VecLen xs - nat s" using arg_cong [OF y(2), of length] by (simp add: VecLen_concat)
  moreover have "off \<le> length (concat ys)" using y(4) by (cases ys) auto
  ultimately have "e - s \<le> int (length (concat ys)) - int off" using assms by linarith
  from vec_parts_take [OF _ this y(4)] assms(2) obtain out where
    "vec_parts ys off (e - s) = (out, 0)" "concat out = take (nat (e - s)) (drop off (concat ys))" "length out \<le> length ys"
    by auto
  with y assms show ?thesis
    by (auto simp: VecSlice_def VecSliceTo_def Let_def sub_def max_def nat_diff_distrib)
qed

end
