(* ===== verification/GoText.thy ===== *)
theory GoText
  imports Prelude
begin

text \<open>
  What the text protocols use of Go's \<open>strings\<close>, \<open>strconv\<close>, \<open>encoding/hex\<close> and \<open>encoding/base64\<close>.  A Go
  string is a list of characters, one for each byte.
\<close>

section \<open>Strings and bytes\<close>

abbreviation code_of :: "char \<Rightarrow> nat" where
  "code_of c \<equiv> of_char c"

definition text_of :: "bytes \<Rightarrow> string" where
  "text_of = map (\<lambda>b. char_of (unat b))"

definition bytes_of :: "string \<Rightarrow> bytes" where
  "bytes_of = map (\<lambda>c. word_of_nat (code_of c))"

section \<open>strings\<close>

text \<open>\<open>Split\<close> at a character, and \<open>SplitN\<close> into two.\<close>

fun Split :: "char \<Rightarrow> string \<Rightarrow> string list" where
  "Split c [] = [[]]"
| "Split c (x # xs) = (if x = c then [] # Split c xs else case Split c xs of [] \<Rightarrow> [[x]] | y # ys \<Rightarrow> (x # y) # ys)"

definition Split2 :: "char \<Rightarrow> string \<Rightarrow> string list" where
  "Split2 c s = (if c \<in> set s then [takeWhile (\<lambda>x. x \<noteq> c) s, drop 1 (dropWhile (\<lambda>x. x \<noteq> c) s)] else [s])"

definition HasPrefix :: "string \<Rightarrow> string \<Rightarrow> bool" where
  "HasPrefix s t \<longleftrightarrow> take (length t) s = t"

definition HasSuffix :: "string \<Rightarrow> string \<Rightarrow> bool" where
  "HasSuffix s t \<longleftrightarrow> HasPrefix (rev s) (rev t)"

fun Index :: "string \<Rightarrow> string \<Rightarrow> nat option" where
  "Index s t = (if HasPrefix s t then Some 0 else case s of [] \<Rightarrow> None | _ # r \<Rightarrow> map_option Suc (Index r t))"

declare Index.simps [simp del]

definition Contains :: "string \<Rightarrow> string \<Rightarrow> bool" where
  "Contains s t \<longleftrightarrow> Index s t \<noteq> None"

text \<open>The white space of Unicode in UTF-8.\<close>

definition white_space :: "string list" where
  "white_space = [[CHR 0x09], [CHR 0x0A], [CHR 0x0B], [CHR 0x0C], [CHR 0x0D], [CHR 0x20], [CHR 0xC2, CHR 0x85],
     [CHR 0xC2, CHR 0xA0], [CHR 0xE1, CHR 0x9A, CHR 0x80], [CHR 0xE2, CHR 0x80, CHR 0x80],
     [CHR 0xE2, CHR 0x80, CHR 0x81], [CHR 0xE2, CHR 0x80, CHR 0x82], [CHR 0xE2, CHR 0x80, CHR 0x83],
     [CHR 0xE2, CHR 0x80, CHR 0x84], [CHR 0xE2, CHR 0x80, CHR 0x85], [CHR 0xE2, CHR 0x80, CHR 0x86],
     [CHR 0xE2, CHR 0x80, CHR 0x87], [CHR 0xE2, CHR 0x80, CHR 0x88], [CHR 0xE2, CHR 0x80, CHR 0x89],
     [CHR 0xE2, CHR 0x80, CHR 0x8A], [CHR 0xE2, CHR 0x80, CHR 0xA8], [CHR 0xE2, CHR 0x80, CHR 0xA9],
     [CHR 0xE2, CHR 0x80, CHR 0xAF], [CHR 0xE2, CHR 0x81, CHR 0x9F], [CHR 0xE3, CHR 0x80, CHR 0x80]]"

function trim_words :: "string list \<Rightarrow> string \<Rightarrow> string" where
  "trim_words ws s = (case find (\<lambda>w. w \<noteq> [] \<and> HasPrefix s w) ws of None \<Rightarrow> s | Some w \<Rightarrow> trim_words ws (drop (length w) s))"
  by pat_completeness auto
termination
proof (relation "measure (\<lambda>(ws, s). length s)")
  fix ws s w assume "find (\<lambda>w. w \<noteq> [] \<and> HasPrefix s w) ws = Some w"
  then have "w \<noteq> []" "take (length w) s = w" by (auto simp: find_Some_iff HasPrefix_def)
  then show "((ws, drop (length w) s), ws, s) \<in> measure (\<lambda>(ws, s). length s)" by (cases s) auto
qed simp

declare trim_words.simps [simp del]

definition TrimSpace :: "string \<Rightarrow> string" where
  "TrimSpace s = rev (trim_words (map rev white_space) (rev (trim_words white_space s)))"

text \<open>\<open>Trim(s, " ")\<close>\<close>

definition TrimBlanks :: "string \<Rightarrow> string" where
  "TrimBlanks s = rev (dropWhile (\<lambda>c. c = CHR '' '') (rev (dropWhile (\<lambda>c. c = CHR '' '') s)))"

text \<open>
  \<open>ToUpper\<close>: of the characters beyond ASCII only the dotless i and the long s have an upper case in
  ASCII; the others, which no keyword contains, are left as they are.
\<close>

definition upper_char :: "char \<Rightarrow> char" where
  "upper_char c = (if 97 \<le> code_of c \<and> code_of c \<le> 122 then char_of (code_of c - 32) else c)"

fun ToUpper :: "string \<Rightarrow> string" where
  "ToUpper [] = []"
| "ToUpper [c] = [upper_char c]"
| "ToUpper (c # d # s) = (if c = CHR 0xC4 \<and> d = CHR 0xB1 then CHR ''I'' # ToUpper s
     else if c = CHR 0xC5 \<and> d = CHR 0xBF then CHR ''S'' # ToUpper s
     else upper_char c # ToUpper (d # s))"

section \<open>strconv\<close>

definition digit_of :: "char \<Rightarrow> nat option" where
  "digit_of c = (if 48 \<le> code_of c \<and> code_of c \<le> 57 then Some (code_of c - 48) else None)"

text \<open>
  \<open>Atoi\<close>: the number and whether there was no error.  A character that is no digit gives 0, a number out
  of range the nearest in range, whatever follows the digit that made it too large.
\<close>

datatype digits = NoNumber | TooLarge | Number nat

fun read_digits :: "nat \<Rightarrow> string \<Rightarrow> digits" where
  "read_digits n [] = Number n"
| "read_digits n (c # s) = (case digit_of c of None \<Rightarrow> NoNumber | Some d \<Rightarrow>
     if (2 ^ 64 - 1) div 10 + 1 \<le> n \<or> 2 ^ 64 \<le> n * 10 + d then TooLarge else read_digits (n * 10 + d) s)"

definition Atoi :: "string \<Rightarrow> int \<times> bool" where
  "Atoi s = (let neg = (s \<noteq> [] \<and> hd s = CHR ''-''); u = (if s \<noteq> [] \<and> hd s \<in> {CHR ''-'', CHR ''+''} then tl s else s) in
     if u = [] then (0, False)
     else case read_digits 0 u of NoNumber \<Rightarrow> (0, False)
       | TooLarge \<Rightarrow> (if neg then - (2 ^ 63) else 2 ^ 63 - 1, False)
       | Number n \<Rightarrow> if neg then (if 2 ^ 63 < n then (- (2 ^ 63), False) else (- int n, True))
           else (if 2 ^ 63 \<le> n then (2 ^ 63 - 1, False) else (int n, True)))"

definition digit_char :: "nat \<Rightarrow> char" where
  "digit_char d = char_of (48 + d)"

fun decimal :: "nat \<Rightarrow> string" where
  "decimal n = (if n < 10 then [digit_char n] else decimal (n div 10) @ [digit_char (n mod 10)])"

declare decimal.simps [simp del]

definition Itoa :: "int \<Rightarrow> string" where
  "Itoa i = (if i < 0 then CHR ''-'' # decimal (nat (- i)) else decimal (nat i))"

section \<open>encoding/hex\<close>

definition hex_digit :: "nat \<Rightarrow> char" where
  "hex_digit d = (if d < 10 then char_of (48 + d) else char_of (87 + d))"

definition hex_EncodeToString :: "bytes \<Rightarrow> string" where
  "hex_EncodeToString b = concat (map (\<lambda>x. [hex_digit (unat x div 16), hex_digit (unat x mod 16)]) b)"

definition hex_value :: "char \<Rightarrow> nat option" where
  "hex_value c = (if 48 \<le> code_of c \<and> code_of c \<le> 57 then Some (code_of c - 48)
     else if 97 \<le> code_of c \<and> code_of c \<le> 102 then Some (code_of c - 87)
     else if 65 \<le> code_of c \<and> code_of c \<le> 70 then Some (code_of c - 55) else None)"

text \<open>The bytes decoded before the first error are the result.\<close>

fun hex_DecodeString :: "string \<Rightarrow> bytes" where
  "hex_DecodeString (c # d # s) = (case (hex_value c, hex_value d) of
     (Some x, Some y) \<Rightarrow> word_of_nat (16 * x + y) # hex_DecodeString s | _ \<Rightarrow> [])"
| "hex_DecodeString _ = []"

section \<open>encoding/base64\<close>

definition b64_alphabet :: string where
  "b64_alphabet = ''ABCDEFGHIJKLMNOPQRSTUVWXYZabcdefghijklmnopqrstuvwxyz0123456789+/''"

definition b64_char :: "nat \<Rightarrow> char" where
  "b64_char i = b64_alphabet ! i"

definition b64_value :: "char \<Rightarrow> nat option" where
  "b64_value c = map_of (zip b64_alphabet [0..<64]) c"

fun b64_EncodeToString :: "bytes \<Rightarrow> string" where
  "b64_EncodeToString [] = []"
| "b64_EncodeToString [x] = (let n = unat x * 65536 in [b64_char (n div 262144), b64_char (n div 4096 mod 64)] @ ''=='')"
| "b64_EncodeToString [x, y] = (let n = unat x * 65536 + unat y * 256 in
     [b64_char (n div 262144), b64_char (n div 4096 mod 64), b64_char (n div 64 mod 64)] @ ''='')"
| "b64_EncodeToString (x # y # z # b) = (let n = unat x * 65536 + unat y * 256 + unat z in
     [b64_char (n div 262144), b64_char (n div 4096 mod 64), b64_char (n div 64 mod 64), b64_char (n mod 64)] @
     b64_EncodeToString b)"

definition new_line :: "char \<Rightarrow> bool" where
  "new_line c \<longleftrightarrow> c = CHR 10 \<or> c = CHR 13"

text \<open>The bytes of the sextets of one quantum, of which there are two to four.\<close>

definition b64_bytes :: "nat list \<Rightarrow> bytes" where
  "b64_bytes q = (let n = foldl (\<lambda>n v. n * 64 + v) 0 (q @ replicate (4 - length q) 0) in
     take (length q - 1) [word_of_nat (n div 65536), word_of_nat (n div 256 mod 256), word_of_nat (n mod 256)])"

text \<open>
  \<open>DecodeString\<close>, with the sextets of the current quantum: the bytes decoded, and whether there was no
  error.  Line ends are skipped; padding ends the text.
\<close>

definition b64_padding :: "nat list \<Rightarrow> string \<Rightarrow> bytes \<times> bool" where
  "b64_padding q s = (let s = dropWhile new_line s in
     if length q < 2 then ([], False)
     else if length q = 2 \<and> (s = [] \<or> hd s \<noteq> CHR ''='') then ([], False)
     else (b64_bytes q, dropWhile new_line (if length q = 2 then tl s else s) = []))"

fun b64_decode :: "nat list \<Rightarrow> string \<Rightarrow> bytes \<times> bool" where
  "b64_decode q [] = ([], q = [])"
| "b64_decode q (c # s) = (case b64_value c of
       Some v \<Rightarrow> if length q = 3 then (case b64_decode [] s of (b, ok) \<Rightarrow> (b64_bytes (q @ [v]) @ b, ok))
         else b64_decode (q @ [v]) s
     | None \<Rightarrow> if new_line c then b64_decode q s else if c = CHR ''='' then b64_padding q s else ([], False))"

definition b64_DecodeString :: "string \<Rightarrow> bytes \<times> bool" where
  "b64_DecodeString s = b64_decode [] s"

section \<open>Facts\<close>

named_theorems text_simps "splitting, searching and reading text"

text \<open>Graphic characters of ASCII, and digits.\<close>

definition graphic :: "char \<Rightarrow> bool" where
  "graphic c \<longleftrightarrow> 33 \<le> code_of c \<and> code_of c \<le> 126"

definition digit :: "char \<Rightarrow> bool" where
  "digit c \<longleftrightarrow> 48 \<le> code_of c \<and> code_of c \<le> 57"

lemma digit_graphic: "digit c \<Longrightarrow> graphic c"
  by (simp add: digit_def graphic_def)

lemma Split_append [text_simps]: "c \<notin> set x \<Longrightarrow> Split c (x @ c # y) = x # Split c y"
  by (induction x) (auto split: list.splits)

lemma Split_none [text_simps]: "c \<notin> set s \<Longrightarrow> Split c s = [s]"
  by (induction s) auto

lemma Split_last: "c \<notin> set x \<Longrightarrow> Split c (x @ [c]) = [x, []]"
  using Split_append [of c x "[]"] by simp

lemma Split2_append [text_simps]: "c \<notin> set p \<Longrightarrow> Split2 c (p @ c # q) = [p, q]"
proof -
  assume c: "c \<notin> set p"
  then have "takeWhile (\<lambda>x. x \<noteq> c) (p @ c # q) = p" "dropWhile (\<lambda>x. x \<noteq> c) (p @ c # q) = c # q"
    by (induction p) auto
  then show ?thesis by (simp add: Split2_def)
qed

lemma Split2_none [text_simps]: "c \<notin> set s \<Longrightarrow> Split2 c s = [s]"
  by (simp add: Split2_def)

lemma code_of_char_of [simp]: "code_of (char_of n) = n mod 256"
  by simp

lemma decimal_digits: "c \<in> set (decimal n) \<Longrightarrow> digit c"
proof (induction n rule: decimal.induct)
  case (1 n)
  show ?case
  proof (cases "n < 10")
    case True
    then show ?thesis using 1(2) by (simp add: decimal.simps [of n] digit_char_def digit_def)
  next
    case False
    then have "c = digit_char (n mod 10) \<or> c \<in> set (decimal (n div 10))" using 1(2) by (simp add: decimal.simps [of n])
    then show ?thesis
    proof
      assume "c = digit_char (n mod 10)"
      moreover have "n mod 10 < 10" by simp
      ultimately show ?thesis by (simp add: digit_char_def digit_def)
    qed (rule 1(1) [OF False])
  qed
qed

lemma decimal_not_Nil [simp]: "decimal n \<noteq> []"
  by (subst decimal.simps) simp

lemma digit_of_char: "d < 10 \<Longrightarrow> digit_of (digit_char d) = Some d"
  by (simp add: digit_char_def digit_of_def)

lemma read_digits_append:
  "read_digits m (s @ t) = (case read_digits m s of Number k \<Rightarrow> read_digits k t | r \<Rightarrow> r)"
  by (induction s arbitrary: m) (auto split: option.splits)

lemma read_decimal: "n < 2 ^ 63 \<Longrightarrow> read_digits 0 (decimal n) = Number n"
proof (induction n rule: decimal.induct)
  case (1 n)
  show ?case
  proof (cases "n < 10")
    case True
    then show ?thesis by (simp add: decimal.simps [of n] digit_of_char)
  next
    case False
    then have ih: "read_digits 0 (decimal (n div 10)) = Number (n div 10)" using 1 by simp
    have "n div 10 * 10 + n mod 10 = n" by simp
    moreover have "digit_of (digit_char (n mod 10)) = Some (n mod 10)" by (rule digit_of_char) simp
    ultimately show ?thesis using False ih 1(2) by (simp add: decimal.simps [of n] read_digits_append)
  qed
qed

lemma digit_not_sign: "digit c \<Longrightarrow> c \<noteq> CHR ''-''" "digit c \<Longrightarrow> c \<noteq> CHR ''+''"
  by (auto simp: digit_def)

lemma Atoi_Itoa [text_simps]: "0 \<le> i \<Longrightarrow> i < 2 ^ 63 \<Longrightarrow> Atoi (Itoa i) = (i, True)"
proof -
  assume i: "0 \<le> i" "i < 2 ^ 63"
  have "digit (hd (decimal (nat i)))" by (rule decimal_digits) (rule hd_in_set, simp)
  from digit_not_sign [OF this] have "hd (decimal (nat i)) \<noteq> CHR ''-''" "hd (decimal (nat i)) \<noteq> CHR ''+''" .
  moreover have "read_digits 0 (decimal (nat i)) = Number (nat i)" using i by (intro read_decimal) simp
  ultimately show ?thesis using i by (simp add: Atoi_def Itoa_def)
qed

lemma Itoa_digits: "0 \<le> i \<Longrightarrow> c \<in> set (Itoa i) \<Longrightarrow> digit c"
  by (auto simp: Itoa_def intro: decimal_digits)

lemma Itoa_not_Nil [simp]: "Itoa i \<noteq> []"
  by (simp add: Itoa_def)

lemma byte_less: "unat (x :: byte) < 256"
  using unsigned_less [of x] by simp

text \<open>Hexadecimal text is read back, in upper case too.\<close>

lemma ToUpper_ascii: "\<forall>c\<in>set s. code_of c < 128 \<Longrightarrow> ToUpper s = map upper_char s"
  by (induction s rule: ToUpper.induct) auto

lemma hex_digit_code: "d < 16 \<Longrightarrow> code_of (hex_digit d) = (if d < 10 then 48 + d else 87 + d)"
  by (simp add: hex_digit_def)

lemma hex_digit_upper: "d < 16 \<Longrightarrow> hex_value (upper_char (hex_digit d)) = Some d"
  by (simp add: upper_char_def hex_digit_code hex_value_def split: if_splits)

lemma hex_text: "c \<in> set (hex_EncodeToString b) \<Longrightarrow> \<exists>d<16. c = hex_digit d"
proof -
  assume "c \<in> set (hex_EncodeToString b)"
  then have "\<exists>x :: byte. c = hex_digit (unat x div 16) \<or> c = hex_digit (unat x mod 16)"
    by (simp add: hex_EncodeToString_def) blast
  then obtain x :: byte where "c = hex_digit (unat x div 16) \<or> c = hex_digit (unat x mod 16)" ..
  moreover have "unat x div 16 < 16" "unat x mod 16 < 16" using byte_less [of x] by (simp_all add: less_mult_imp_div_less)
  ultimately show ?thesis by blast
qed

lemma upper_hex_text: "ToUpper (hex_EncodeToString b) = map upper_char (hex_EncodeToString b)"
  by (rule ToUpper_ascii) (auto dest!: hex_text simp: hex_digit_code)

lemma hex_roundtrip [text_simps]: "hex_DecodeString (ToUpper (hex_EncodeToString b)) = b"
  unfolding upper_hex_text
proof (induction b)
  case (Cons x b)
  have "unat x div 16 < 16" "unat x mod 16 < 16" by (simp_all add: less_mult_imp_div_less byte_less)
  moreover have "word_of_nat (16 * (unat x div 16) + unat x mod 16) = x" by simp
  ultimately show ?case using Cons by (simp add: hex_EncodeToString_def hex_digit_upper)
qed (simp add: hex_EncodeToString_def)

lemma upper_hex_chars:
  "c \<in> set (ToUpper (hex_EncodeToString b)) \<Longrightarrow> digit c \<or> 65 \<le> code_of c \<and> code_of c \<le> 70"
  by (auto simp: upper_hex_text upper_char_def digit_def hex_digit_code dest!: hex_text split: if_splits)

text \<open>Base64 text is read back.\<close>

lemma b64_value_char: "i < 64 \<Longrightarrow> b64_value (b64_char i) = Some i"
proof -
  have "\<forall>i\<in>set [0..<64]. b64_value (b64_char i) = Some i" by code_simp
  then show "i < 64 \<Longrightarrow> b64_value (b64_char i) = Some i" by simp
qed

lemma b64_value_pad: "b64_value (CHR ''='') = None"
  by code_simp

lemma b64_alphabet_char: "c \<in> set b64_alphabet \<Longrightarrow> graphic c \<and> c \<notin> set '',;=-:'' \<and> \<not> new_line c"
proof -
  have "\<forall>c\<in>set b64_alphabet. graphic c \<and> c \<notin> set '',;=-:'' \<and> \<not> new_line c" by code_simp
  then show "c \<in> set b64_alphabet \<Longrightarrow> graphic c \<and> c \<notin> set '',;=-:'' \<and> \<not> new_line c" by blast
qed

lemma b64_char_set: "i < 64 \<Longrightarrow> b64_char i \<in> set b64_alphabet"
  unfolding b64_char_def by (rule nth_mem) (simp add: b64_alphabet_def)

lemma three_bytes: "unat (x :: byte) * 65536 + unat (y :: byte) * 256 + unat (z :: byte) < 64 * 262144"
  using byte_less [of x] byte_less [of y] byte_less [of z] by linarith

lemma two_bytes: "unat (x :: byte) * 65536 + unat (y :: byte) * 256 < 64 * 262144"
  using three_bytes [of x y 0] by simp

lemma one_byte: "unat (x :: byte) * 65536 < 64 * 262144"
  using two_bytes [of x 0] by simp

lemma sextet_chars:
  fixes n :: nat assumes "n < 64 * 262144"
  shows "b64_char (n div 262144) \<in> set b64_alphabet" "b64_char (n div 4096 mod 64) \<in> set b64_alphabet"
    "b64_char (n div 64 mod 64) \<in> set b64_alphabet" "b64_char (n mod 64) \<in> set b64_alphabet"
    "b64_value (b64_char (n div 262144)) = Some (n div 262144)"
    "b64_value (b64_char (n div 4096 mod 64)) = Some (n div 4096 mod 64)"
    "b64_value (b64_char (n div 64 mod 64)) = Some (n div 64 mod 64)" "b64_value (b64_char (n mod 64)) = Some (n mod 64)"
  using assms by (auto intro!: b64_char_set b64_value_char less_mult_imp_div_less)

lemma b64_encode_chars: "c \<in> set (b64_EncodeToString b) \<Longrightarrow> c \<in> set b64_alphabet \<or> c = CHR ''=''"
proof (induction b rule: b64_EncodeToString.induct)
  case (2 x)
  then show ?case using sextet_chars(1,2) [OF one_byte [of x]] by (auto simp: Let_def)
next
  case (3 x y)
  then show ?case using sextet_chars(1-3) [OF two_bytes [of x y]] by (auto simp: Let_def)
next
  case (4 x y z b)
  then show ?case using sextet_chars(1-4) [OF three_bytes [of x y z]] by (auto simp: Let_def)
qed simp

lemma sextets: "((n div 262144 * 64 + n div 4096 mod 64) * 64 + n div 64 mod 64) * 64 + n mod 64 = (n :: nat)"
proof -
  have "n div 4096 = n div 64 div 64" "n div 262144 = n div 64 div 64 div 64" by (simp_all flip: div_mult2_eq)
  then show ?thesis by (simp only: div_mult_mod_eq)
qed

lemma base_256:
  fixes a b c :: nat
  assumes "b < 256" "c < 256"
  shows "(a * 65536 + b * 256 + c) div 65536 = a" "(a * 65536 + b * 256 + c) div 256 mod 256 = b"
    "(a * 65536 + b * 256 + c) mod 256 = c"
proof -
  have "a * 65536 + b * 256 + c = c + (a * 256 + b) * 256" by simp
  then show "(a * 65536 + b * 256 + c) div 256 mod 256 = b" "(a * 65536 + b * 256 + c) mod 256 = c"
    using assms by (simp_all only: div_mult_self1 mod_mult_self1) simp_all
qed (use assms in simp)

lemma b64_bytes_sextets:
  "b64_bytes [n div 262144, n div 4096 mod 64, n div 64 mod 64, n mod 64] =
     [word_of_nat (n div 65536), word_of_nat (n div 256 mod 256), word_of_nat (n mod 256)]"
  "n mod 64 = 0 \<Longrightarrow> b64_bytes [n div 262144, n div 4096 mod 64, n div 64 mod 64] = [word_of_nat (n div 65536), word_of_nat (n div 256 mod 256)]"
  "n mod 64 = 0 \<Longrightarrow> n div 64 mod 64 = 0 \<Longrightarrow> b64_bytes [n div 262144, n div 4096 mod 64] = [word_of_nat (n div 65536)]"
  using sextets [of n] by (simp_all add: b64_bytes_def Let_def numeral_2_eq_2)

lemma b64_roundtrip [text_simps]: "b64_DecodeString (b64_EncodeToString b) = (b, True)"
  unfolding b64_DecodeString_def
proof (induction b rule: b64_EncodeToString.induct)
  case (2 x)
  define n where "n = unat x * 65536"
  have "n mod 64 = 0" "n div 64 mod 64 = 0" "n div 65536 = unat x" by (simp_all add: n_def)
  moreover note sextet_chars(5,6) [OF one_byte [of x, folded n_def]]
  ultimately show ?case
    by (simp add: n_def [symmetric] b64_padding_def new_line_def b64_bytes_sextets Let_def b64_value_pad)
next
  case (3 x y)
  define n where "n = unat x * 65536 + unat y * 256"
  have "n mod 64 = 0" "n div 65536 = unat x" "n div 256 mod 256 = unat y" using byte_less [of y] by (simp_all add: n_def mod_simps)
  moreover note sextet_chars(5-7) [OF two_bytes [of x y, folded n_def]]
  ultimately show ?case
    by (simp add: n_def [symmetric] b64_padding_def new_line_def b64_bytes_sextets Let_def b64_value_pad)
next
  case (4 x y z b)
  define n where "n = unat x * 65536 + unat y * 256 + unat z"
  have "n div 65536 = unat x" "n div 256 mod 256 = unat y" "n mod 256 = unat z"
    using base_256 [OF byte_less [of y] byte_less [of z], of "unat x"] by (simp_all add: n_def)
  moreover note sextet_chars(5-8) [OF three_bytes [of x y z, folded n_def]]
  ultimately show ?case
    using 4 by (simp add: n_def [symmetric] b64_bytes_sextets Let_def)
qed simp

text \<open>Trimming.\<close>

lemma found: "find P xs = Some x \<Longrightarrow> x \<in> set xs \<and> P x"
  by (induction xs) (auto split: if_splits)

lemma trim_words_id: "\<forall>w\<in>set ws. HasPrefix s w \<longrightarrow> w = [] \<Longrightarrow> trim_words ws s = s"
  by (subst trim_words.simps) (auto dest!: found split: option.splits)

lemma white_space_ends: "w \<in> set white_space \<Longrightarrow> w \<noteq> [] \<and> \<not> graphic (hd w) \<and> \<not> graphic (last w)"
proof -
  have "\<forall>w\<in>set white_space. w \<noteq> [] \<and> \<not> graphic (hd w) \<and> \<not> graphic (last w)" by code_simp
  then show "w \<in> set white_space \<Longrightarrow> w \<noteq> [] \<and> \<not> graphic (hd w) \<and> \<not> graphic (last w)" by blast
qed

lemma prefix_hd: "HasPrefix s w \<Longrightarrow> w \<noteq> [] \<Longrightarrow> s \<noteq> [] \<and> hd s = hd w"
  by (cases s; cases w) (auto simp: HasPrefix_def)

lemma trim_front: "s = [] \<or> graphic (hd s) \<Longrightarrow> trim_words white_space s = s"
  by (intro trim_words_id) (metis white_space_ends prefix_hd)

lemma trim_back: "s = [] \<or> graphic (hd s) \<Longrightarrow> trim_words (map rev white_space) s = s"
  by (intro trim_words_id) (use white_space_ends in \<open>fastforce dest: prefix_hd simp: hd_rev\<close>)

lemma cr_word: "w \<in> set white_space \<Longrightarrow> last w = CHR 13 \<Longrightarrow> w = [CHR 13]"
proof -
  have "\<forall>w\<in>set white_space. last w = CHR 13 \<longrightarrow> w = [CHR 13]" by code_simp
  then show "w \<in> set white_space \<Longrightarrow> last w = CHR 13 \<Longrightarrow> w = [CHR 13]" by blast
qed

lemma cr_white: "[CHR 13] \<in> set white_space"
  by code_simp

lemma trim_cr: "s = [] \<or> graphic (hd s) \<Longrightarrow> trim_words (map rev white_space) (CHR 13 # s) = s"
proof -
  assume s: "s = [] \<or> graphic (hd s)"
  let ?P = "\<lambda>w. w \<noteq> [] \<and> HasPrefix (CHR 13 # s) w"
  have "\<forall>w\<in>set (map rev white_space). ?P w \<longrightarrow> w = [CHR 13]"
    using cr_word by (auto dest!: prefix_hd simp: hd_rev)
  moreover have "\<exists>w\<in>set (map rev white_space). ?P w" using cr_white by (force simp: HasPrefix_def)
  ultimately have "find ?P (map rev white_space) = Some [CHR 13]"
    by (cases "find ?P (map rev white_space)") (blast dest: found iffD1 [OF find_None_iff])+
  with trim_back [OF s] show ?thesis by (subst trim_words.simps) simp
qed

text \<open>A line between graphic characters, with and without a carriage return.\<close>

lemma TrimSpace_graphic: "s \<noteq> [] \<Longrightarrow> graphic (hd s) \<Longrightarrow> graphic (last s) \<Longrightarrow> TrimSpace s = s"
  by (simp add: TrimSpace_def trim_front trim_back hd_rev)

lemma TrimSpace_cr: "s \<noteq> [] \<Longrightarrow> graphic (hd s) \<Longrightarrow> graphic (last s) \<Longrightarrow> TrimSpace (s @ [CHR 13]) = s"
  by (simp add: TrimSpace_def trim_front trim_cr hd_rev)

text \<open>What is found is there, and what is there is found.\<close>

lemma Index_Some: "Index s t = Some i \<Longrightarrow> \<exists>q. s = take i s @ t @ q"
proof (induction s t arbitrary: i rule: Index.induct)
  case (1 s t)
  show ?case
  proof (cases "HasPrefix s t")
    case True
    then have "s = t @ drop (length t) s" by (metis HasPrefix_def append_take_drop_id)
    then show ?thesis using 1(2) True by (auto simp: Index.simps [of s])
  next
    case False
    with 1(2) obtain c r j where "s = c # r" "Index r t = Some j" "i = Suc j"
      by (auto simp: Index.simps [of s] split: list.splits)
    with 1(1) False show ?thesis by simp
  qed
qed

lemma Index_prefix: "Index (p @ t @ q) t \<noteq> None"
  by (induction p) (simp_all add: Index.simps [of "t @ q"] Index.simps [of "c # r" for c r] HasPrefix_def)

lemma Index_append: "Index s t \<noteq> None \<longleftrightarrow> (\<exists>p q. s = p @ t @ q)"
  by (metis Index_Some Index_prefix option.exhaust)

lemma Contains_iff: "Contains s t \<longleftrightarrow> (\<exists>p q. s = p @ t @ q)"
  by (simp only: Contains_def Index_append)

end
