(* ===== verification/RingAlloc.thy ===== *)
theory RingAlloc
  imports Prelude
begin

text \<open>
  \<open>utils/buffer/ring_alloc.go\<close>: the ring allocator that holds packet payloads.  A slab of
  \<open>bcap\<close> bytes, a write cursor, and a table of 4096 slots indexed modulo the table size by
  the monotone counters \<open>head\<close> and \<open>tail\<close>.  Positions are integers, stored in a slot
  through the conversion to \<open>int32\<close>; the counters, 64 bits wide in the code, are naturals.
  A slice of the slab is its bounds, a handle is the slot's counter value.

  The consumers release concurrently: \<open>Release\<close> is an atomic decrement followed by a loop
  of compare-and-swap steps on \<open>head\<close>, and the step relation of the last part interleaves
  the decrements and the single advances of any number of releases with the producer's
  calls.
\<close>

section \<open>State and operations\<close>

definition ringSlotCount :: nat where
  "ringSlotCount = 4096"

record slot =
  s_start :: int
  s_end :: int
  s_refs :: int

record ring =
  r_bcap :: int
  r_write :: int
  r_slots :: "nat \<Rightarrow> slot"
  r_head :: nat
  r_tail :: nat

definition i32 :: "int \<Rightarrow> int" where
  "i32 x = signed_take_bit 31 x"

definition slot_at :: "ring \<Rightarrow> nat \<Rightarrow> slot" where
  "slot_at r i = r_slots r (i mod ringSlotCount)"

definition set_slot :: "nat \<Rightarrow> slot \<Rightarrow> ring \<Rightarrow> ring" where
  "set_slot i s r = r\<lparr>r_slots := (r_slots r)(i mod ringSlotCount := s)\<rparr>"

definition NewRingAlloc :: "int \<Rightarrow> ring" where
  "NewRingAlloc sz = \<lparr>r_bcap = sz, r_write = 0,
     r_slots = (\<lambda>_. \<lparr>s_start = 0, s_end = 0, s_refs = 0\<rparr>), r_head = 0, r_tail = 0\<rparr>"

definition slotsExhausted :: "ring \<Rightarrow> bool" where
  "slotsExhausted r \<longleftrightarrow> ringSlotCount \<le> r_tail r - r_head r"

definition readCursor :: "ring \<Rightarrow> int" where
  "readCursor r = (if r_head r = r_tail r then r_write r else s_start (slot_at r (r_head r)))"

definition regionFree :: "ring \<Rightarrow> int \<Rightarrow> int \<Rightarrow> int \<Rightarrow> bool" where
  "regionFree r lo hi rd \<longleftrightarrow>
     (if rd \<le> r_write r then hi \<le> rd \<or> r_write r \<le> lo else r_write r \<le> lo \<and> hi \<le> rd)"

text \<open>The two halves of \<open>Alloc\<close>: the waste slot at the wrap, and the placement.\<close>

definition push_slot :: "int \<Rightarrow> int \<Rightarrow> int \<Rightarrow> int \<Rightarrow> ring \<Rightarrow> ring" where
  "push_slot lo hi refs w r = (set_slot (r_tail r) \<lparr>s_start = i32 lo, s_end = i32 hi, s_refs = refs\<rparr> r)
     \<lparr>r_write := w, r_tail := r_tail r + 1\<rparr>"

definition place :: "int \<Rightarrow> int \<Rightarrow> ring \<Rightarrow> (int \<times> int \<times> nat) option \<times> ring" where
  "place n start r =
     (let rd = readCursor r in
      if start = rd \<and> r_head r < r_tail r then (None, r)
      else if \<not> regionFree r start (start + n) rd then (None, r)
      else if ringSlotCount \<le> r_tail r - r_head r then (None, r)
      else (Some (start, start + n, r_tail r), push_slot start (start + n) 1 (start + n) r))"

definition Alloc :: "int \<Rightarrow> ring \<Rightarrow> (int \<times> int \<times> nat) option \<times> ring" where
  "Alloc n r =
     (if n \<le> 0 \<or> r_bcap r < n then (None, r)
      else if r_bcap r < r_write r + n then
        (if ringSlotCount - 1 \<le> r_tail r - r_head r then (None, r)
         else place n 0 (push_slot (r_write r) (r_bcap r) 0 0 r))
      else place n (r_write r) r)"

definition Extend :: "nat option \<Rightarrow> int \<Rightarrow> ring \<Rightarrow> (int \<times> int) option \<times> ring" where
  "Extend h n r =
     (case h of None \<Rightarrow> (None, r)
      | Some idx \<Rightarrow>
        (if n \<le> 0 then (None, r)
         else (let slot = slot_at r idx; curEnd = s_end slot; rd = readCursor r
           in if r_write r \<noteq> curEnd \<or> r_bcap r < curEnd + n then (None, r)
              else if curEnd = rd \<and> r_head r < r_tail r then (None, r)
              else if \<not> regionFree r curEnd (curEnd + n) rd then (None, r)
              else (Some (s_start slot, curEnd + n),
                    (set_slot idx (slot\<lparr>s_end := i32 (curEnd + n)\<rparr>) r)\<lparr>r_write := curEnd + n\<rparr>))))"

definition add_refs :: "int \<Rightarrow> nat \<Rightarrow> ring \<Rightarrow> ring" where
  "add_refs d idx r = set_slot idx (slot_at r idx\<lparr>s_refs := s_refs (slot_at r idx) + d\<rparr>) r"

definition Retain :: "nat option \<Rightarrow> ring \<Rightarrow> ring" where
  "Retain h r = (case h of None \<Rightarrow> r | Some idx \<Rightarrow> add_refs 1 idx r)"

text \<open>One successful compare-and-swap of \<open>Release\<close>, and the loop of them.\<close>

definition can_advance :: "ring \<Rightarrow> bool" where
  "can_advance r \<longleftrightarrow> r_head r < r_tail r \<and> s_refs (slot_at r (r_head r)) = 0"

definition advance :: "ring \<Rightarrow> ring" where
  "advance r = r\<lparr>r_head := r_head r + 1\<rparr>"

function advance_all :: "ring \<Rightarrow> ring" where
  "advance_all r = (if can_advance r then advance_all (advance r) else r)"
  by pat_completeness auto
termination
  by (relation "measure (\<lambda>r. r_tail r - r_head r)") (auto simp: can_advance_def advance_def)

declare advance_all.simps [simp del]

definition Release :: "nat option \<Rightarrow> ring \<Rightarrow> ring res" where
  "Release h r =
     (case h of None \<Rightarrow> Inr r
      | Some idx \<Rightarrow>
        (let r1 = add_refs (- 1) idx r
         in if s_refs (slot_at r1 idx) < 0 then Inl Panic else Inr (advance_all r1)))"

section \<open>Layout of the live slots\<close>

definition live :: "ring \<Rightarrow> (int \<times> int) list" where
  "live r = map (\<lambda>i. (s_start (slot_at r i), s_end (slot_at r i))) [r_head r..<r_tail r]"

fun path :: "int \<Rightarrow> (int \<times> int) list \<Rightarrow> int \<Rightarrow> bool" where
  "path lo [] hi \<longleftrightarrow> lo = hi"
| "path lo ((s, e) # L) hi \<longleftrightarrow> s = lo \<and> s \<le> e \<and> path e L hi"

definition positive :: "(int \<times> int) list \<Rightarrow> bool" where
  "positive L \<longleftrightarrow> (\<forall>(s, e)\<in>set L. s < e)"

definition unwrapped :: "ring \<Rightarrow> bool" where
  "unwrapped r \<longleftrightarrow> positive (live r) \<and> path (readCursor r) (live r) (r_write r) \<and> 0 \<le> readCursor r"

definition wrapped :: "ring \<Rightarrow> bool" where
  "wrapped r \<longleftrightarrow> (\<exists>A B. live r = A @ B \<and> A \<noteq> [] \<and> path (readCursor r) A (r_bcap r) \<and>
     path 0 B (r_write r) \<and> positive (butlast A) \<and> positive B \<and> r_write r \<le> readCursor r)"

definition bounds_ok :: "ring \<Rightarrow> bool" where
  "bounds_ok r \<longleftrightarrow> r_head r \<le> r_tail r \<and> r_tail r - r_head r \<le> ringSlotCount \<and>
     0 \<le> r_bcap r \<and> r_bcap r < 2 ^ 31 \<and> 0 \<le> r_write r \<and> r_write r \<le> r_bcap r"

definition ring_ok :: "ring \<Rightarrow> bool" where
  "ring_ok r \<longleftrightarrow> r_head r \<le> r_tail r \<and> r_tail r - r_head r \<le> ringSlotCount \<and>
     0 \<le> r_bcap r \<and> r_bcap r < 2 ^ 31 \<and> 0 \<le> r_write r \<and> r_write r \<le> r_bcap r \<and>
     (unwrapped r \<or> wrapped r)"

lemma ring_ok_bounds: "ring_ok r \<Longrightarrow> bounds_ok r"
  by (simp add: ring_ok_def bounds_ok_def)

lemma i32_id: "0 \<le> x \<Longrightarrow> x < 2 ^ 31 \<Longrightarrow> i32 x = x"
  by (simp add: i32_def signed_take_bit_int_eq_self)

lemma path_append: "path lo (A @ B) hi \<longleftrightarrow> (\<exists>m. path lo A m \<and> path m B hi)"
  by (induction A arbitrary: lo) auto

lemma path_le: "path lo L hi \<Longrightarrow> lo \<le> hi"
  by (induction L arbitrary: lo) (auto simp: order_trans)

lemma path_mem: "path lo L hi \<Longrightarrow> (s, e) \<in> set L \<Longrightarrow> lo \<le> s \<and> s \<le> e \<and> e \<le> hi"
proof (induction L arbitrary: lo)
  case (Cons x L)
  then show ?case using path_le [of "snd x" L hi] by (cases x) force
qed simp

lemma path_order: "path lo L hi \<Longrightarrow> i < j \<Longrightarrow> j < length L \<Longrightarrow> snd (L ! i) \<le> fst (L ! j)"
proof (induction L arbitrary: lo i j)
  case (Cons x L)
  obtain s e where x: "x = (s, e)" by force
  from Cons.prems x have p: "path e L hi" by simp
  from Cons.prems obtain j' where j: "j = Suc j'" and j': "j' < length L" by (cases j) auto
  show ?case
  proof (cases i)
    case 0
    have "L ! j' \<in> set L" using j' by simp
    with path_mem [OF p, of "fst (L ! j')" "snd (L ! j')"] 0 x j show ?thesis by simp
  next
    case (Suc i')
    with Cons.IH [OF p, of i' j'] Cons.prems j show ?thesis by simp
  qed
qed simp

lemma mod_slot_neq:
  assumes "i < j" and "j - i < ringSlotCount"
  shows "i mod ringSlotCount \<noteq> j mod ringSlotCount"
proof
  assume "i mod ringSlotCount = j mod ringSlotCount"
  then have "ringSlotCount dvd j - i" using assms(1) by (metis less_imp_le mod_eq_dvd_iff_nat)
  with assms show False using nat_dvd_not_less [of "j - i" ringSlotCount] by simp
qed

lemma slot_at_set_slot:
  "slot_at (set_slot j s r) i = (if i mod ringSlotCount = j mod ringSlotCount then s else slot_at r i)"
  by (simp add: slot_at_def set_slot_def)

lemma set_slot_simps [simp]:
  "r_bcap (set_slot j s r) = r_bcap r" "r_write (set_slot j s r) = r_write r"
  "r_head (set_slot j s r) = r_head r" "r_tail (set_slot j s r) = r_tail r"
  by (simp_all add: set_slot_def)

lemma slot_at_upd [simp]:
  "slot_at (r\<lparr>r_write := w\<rparr>) i = slot_at r i" "slot_at (r\<lparr>r_tail := t\<rparr>) i = slot_at r i"
  "slot_at (r\<lparr>r_head := h\<rparr>) i = slot_at r i"
  by (simp_all add: slot_at_def)

lemma push_slot_simps [simp]:
  "r_bcap (push_slot lo hi k w r) = r_bcap r" "r_write (push_slot lo hi k w r) = w"
  "r_head (push_slot lo hi k w r) = r_head r" "r_tail (push_slot lo hi k w r) = r_tail r + 1"
  by (simp_all add: push_slot_def)

lemma slot_at_push:
  assumes "r_head r \<le> i" and "i \<le> r_tail r" and "r_tail r - r_head r < ringSlotCount"
  shows "slot_at (push_slot lo hi k w r) i =
    (if i = r_tail r then \<lparr>s_start = i32 lo, s_end = i32 hi, s_refs = k\<rparr> else slot_at r i)"
  using assms mod_slot_neq [of i "r_tail r"] by (auto simp: push_slot_def slot_at_set_slot)

lemma live_push:
  assumes "r_head r \<le> r_tail r" and "r_tail r - r_head r < ringSlotCount"
  shows "live (push_slot lo hi k w r) = live r @ [(i32 lo, i32 hi)]"
  using assms by (auto simp: live_def slot_at_push)

lemma live_advance: "r_head r < r_tail r \<Longrightarrow> live (advance r) = tl (live r)"
  by (simp add: live_def advance_def upt_conv_Cons)

lemma live_Nil_iff: "live r = [] \<longleftrightarrow> r_tail r \<le> r_head r"
  by (auto simp: live_def)

lemma length_live [simp]: "length (live r) = r_tail r - r_head r"
  by (simp add: live_def)

lemma nth_live:
  "r_head r \<le> i \<Longrightarrow> i < r_tail r \<Longrightarrow> live r ! (i - r_head r) = (s_start (slot_at r i), s_end (slot_at r i))"
  using nth_upt [of "r_head r" "i - r_head r" "r_tail r"] by (simp add: live_def)

lemma readCursor_live:
  "r_head r \<le> r_tail r \<Longrightarrow> readCursor r = (if live r = [] then r_write r else fst (hd (live r)))"
  by (auto simp: readCursor_def live_def upt_conv_Cons)

text \<open>\<open>wrapped\<close> is what the code can see of the layout.\<close>

lemma wrapped_iff:
  assumes "ring_ok r"
  shows "wrapped r \<longleftrightarrow> r_head r < r_tail r \<and> r_write r \<le> readCursor r"
proof
  assume "wrapped r"
  then show "r_head r < r_tail r \<and> r_write r \<le> readCursor r"
    by (auto simp: wrapped_def) (metis append_is_Nil_conv live_Nil_iff not_le)
next
  assume h: "r_head r < r_tail r \<and> r_write r \<le> readCursor r"
  show "wrapped r"
  proof (rule ccontr)
    assume "\<not> wrapped r"
    with assms have u: "positive (live r)" "path (readCursor r) (live r) (r_write r)"
      by (auto simp: ring_ok_def unwrapped_def)
    obtain s e L where L: "live r = (s, e) # L" using h by (cases "live r") (auto simp: live_Nil_iff)
    with u h show False using path_le [of e L "r_write r"] by (auto simp: positive_def)
  qed
qed

lemma positive_simps [simp]:
  "positive []" "positive ((s, e) # L) \<longleftrightarrow> s < e \<and> positive L"
  "positive (A @ B) \<longleftrightarrow> positive A \<and> positive B"
  by (auto simp: positive_def)

lemma readCursor_push:
  assumes "ring_ok r" and "r_tail r - r_head r < ringSlotCount"
  shows "readCursor (push_slot (r_write r) hi k w r) = readCursor r"
  using assms by (auto simp: readCursor_def slot_at_push i32_id ring_ok_def)

lemma place_ok:
  assumes ok: "ring_ok r" and "0 < n" and "r_write r + n \<le> r_bcap r"
  shows "ring_ok (snd (place n (r_write r) r))"
proof -
  let ?w = "r_write r" and ?rd = "readCursor r"
  let ?r' = "push_slot ?w (?w + n) 1 (?w + n) r"
  show ?thesis
  proof (cases "(?w = ?rd \<and> r_head r < r_tail r) \<or> \<not> regionFree r ?w (?w + n) ?rd \<or>
      ringSlotCount \<le> r_tail r - r_head r")
    case True
    with ok show ?thesis by (auto simp: place_def Let_def)
  next
    case False
    then have r': "snd (place n ?w r) = ?r'" by (auto simp: place_def Let_def)
    have lv: "live ?r' = live r @ [(?w, ?w + n)]"
      using ok False assms by (subst live_push) (auto simp: ring_ok_def i32_id)
    have rd: "readCursor ?r' = ?rd" using False by (intro readCursor_push ok) simp
    have "unwrapped ?r' \<or> wrapped ?r'"
    proof (cases "wrapped r")
      case False
      with ok assms(2) show ?thesis
        by (auto simp: ring_ok_def unwrapped_def lv rd path_append)
    next
      case True
      then obtain A B where AB: "live r = A @ B" "A \<noteq> []" "path ?rd A (r_bcap r)" "path 0 B ?w"
        "positive (butlast A)" "positive B" "?w \<le> ?rd" by (auto simp: wrapped_def)
      have "?w < ?rd" using True wrapped_iff [OF ok] False AB(7) by auto
      with False have "?w + n \<le> ?rd" by (auto simp: regionFree_def)
      with AB assms(2) have "wrapped ?r'"
        unfolding wrapped_def lv rd
        by (intro exI [of _ A] exI [of _ "B @ [(?w, ?w + n)]"]) (auto simp: path_append)
      then show ?thesis ..
    qed
    with ok assms False show ?thesis unfolding r' by (auto simp: ring_ok_def)
  qed
qed

lemma waste_ok:
  assumes ok: "ring_ok r" and "\<not> wrapped r" and "\<not> ringSlotCount - 1 \<le> r_tail r - r_head r"
  shows "ring_ok (push_slot (r_write r) (r_bcap r) 0 0 r)" (is "ring_ok ?r'")
proof -
  from assms have u: "positive (live r)" "path (readCursor r) (live r) (r_write r)" "0 \<le> readCursor r"
    by (auto simp: ring_ok_def unwrapped_def)
  have lv: "live ?r' = live r @ [(r_write r, r_bcap r)]"
    using ok assms(3) by (subst live_push) (auto simp: ring_ok_def i32_id)
  have rd: "readCursor ?r' = readCursor r" using assms(3) by (intro readCursor_push ok) simp
  have "wrapped ?r'"
    unfolding wrapped_def lv rd using u ok
    by (intro exI [of _ "live r @ [(r_write r, r_bcap r)]"] exI [of _ "[]"])
      (auto simp: path_append ring_ok_def)
  with ok assms(3) show ?thesis by (auto simp: ring_ok_def)
qed

text \<open>
  The producer's call that breaks the layout: the slab has wrapped already and the request
  reaches past its end.  \<open>Alloc\<close> then inserts a second waste slot and resets the write
  cursor below the live slots at the front of the slab.
\<close>

definition overrun :: "int \<Rightarrow> ring \<Rightarrow> bool" where
  "overrun n r \<longleftrightarrow> r_bcap r < r_write r + n \<and> r_head r < r_tail r \<and> r_write r \<le> readCursor r"

lemma Alloc_ok:
  assumes "ring_ok r" and "\<not> overrun n r"
  shows "ring_ok (snd (Alloc n r))"
proof (cases "n \<le> 0 \<or> r_bcap r < n")
  case True
  with assms show ?thesis by (simp add: Alloc_def)
next
  case n: False
  show ?thesis
  proof (cases "r_bcap r < r_write r + n")
    case False
    with n assms place_ok [of r n] show ?thesis by (simp add: Alloc_def)
  next
    case True
    let ?r1 = "push_slot (r_write r) (r_bcap r) 0 0 r"
    have "\<not> wrapped r" using assms True by (auto simp: wrapped_iff overrun_def)
    with waste_ok [OF assms(1)] place_ok [of ?r1 n] n True assms(1) show ?thesis
      by (simp add: Alloc_def)
  qed
qed

lemma advance_ok:
  assumes ok: "ring_ok r" and "r_head r < r_tail r"
  shows "ring_ok (advance r)"
proof -
  have lv: "live (advance r) = tl (live r)" by (rule live_advance [OF assms(2)])
  obtain s e L where L: "live r = (s, e) # L" using assms(2) by (cases "live r") (auto simp: live_Nil_iff)
  have w: "r_write (advance r) = r_write r" "r_bcap (advance r) = r_bcap r"
    "r_head (advance r) = r_head r + 1" "r_tail (advance r) = r_tail r" by (simp_all add: advance_def)
  have rd': "readCursor (advance r) = (if L = [] then r_write r else fst (hd L))"
    using readCursor_live [of "advance r"] assms(2) lv L w by simp
  have rd: "readCursor r = s" using readCursor_live [of r] assms(2) L by simp
  have "unwrapped (advance r) \<or> wrapped (advance r)"
  proof (cases "wrapped r")
    case False
    with ok have u: "positive (live r)" "path s (live r) (r_write r)" "0 \<le> s"
      by (auto simp: ring_ok_def unwrapped_def rd)
    then have p: "path e L (r_write r)" "s \<le> e" "positive L" using L by auto
    moreover have "readCursor (advance r) = e" using p(1) by (cases L) (auto simp: rd')
    ultimately show ?thesis using u by (simp add: unwrapped_def lv L w)
  next
    case True
    then obtain A B where AB: "live r = A @ B" "A \<noteq> []" "path s A (r_bcap r)" "path 0 B (r_write r)"
      "positive (butlast A)" "positive B" "r_write r \<le> s" by (auto simp: wrapped_def rd)
    then obtain A' where A: "A = (s, e) # A'" "L = A' @ B" using L by (cases A) auto
    show ?thesis
    proof (cases "A' = []")
      case True
      then have "readCursor (advance r) = 0" using AB(4) A by (cases B) (auto simp: rd')
      with True AB A have "unwrapped (advance r)" by (simp add: unwrapped_def lv L w)
      then show ?thesis ..
    next
      case False
      then have "readCursor (advance r) = e" using AB(3) A by (cases A') (auto simp: rd')
      with False AB A have "wrapped (advance r)"
        unfolding wrapped_def lv L w by (intro exI [of _ A'] exI [of _ B]) auto
      then show ?thesis ..
    qed
  qed
  with ok assms(2) show ?thesis by (auto simp: ring_ok_def w)
qed

lemma add_refs_simps [simp]:
  "r_bcap (add_refs d i r) = r_bcap r" "r_write (add_refs d i r) = r_write r"
  "r_head (add_refs d i r) = r_head r" "r_tail (add_refs d i r) = r_tail r"
  by (simp_all add: add_refs_def)

lemma slot_at_add_refs:
  "slot_at (add_refs d j r) i = (if i mod ringSlotCount = j mod ringSlotCount
     then slot_at r j\<lparr>s_refs := s_refs (slot_at r j) + d\<rparr> else slot_at r i)"
  by (simp add: add_refs_def slot_at_set_slot)

lemma same_slot: "i mod ringSlotCount = j mod ringSlotCount \<Longrightarrow> slot_at r i = slot_at r j"
  by (simp add: slot_at_def)

lemma live_add_refs [simp]: "live (add_refs d j r) = live r"
  by (auto simp: live_def slot_at_add_refs intro: same_slot [THEN arg_cong])

lemma readCursor_add_refs [simp]: "readCursor (add_refs d j r) = readCursor r"
  by (auto simp: readCursor_def slot_at_add_refs intro: same_slot [THEN arg_cong])

lemma add_refs_ok [simp]: "ring_ok (add_refs d j r) = ring_ok r"
  by (simp add: ring_ok_def unwrapped_def wrapped_def)

lemma advance_all_ok: "ring_ok r \<Longrightarrow> ring_ok (advance_all r)"
proof (induction r rule: advance_all.induct)
  case (1 r)
  then show ?case
    by (subst advance_all.simps) (auto simp: can_advance_def intro: advance_ok)
qed

text \<open>Two live slots are disjoint, and every one is inside the slab.\<close>

lemma live_in_slab:
  assumes "ring_ok r" and "x \<in> set (live r)"
  shows "0 \<le> fst x \<and> fst x \<le> snd x \<and> snd x \<le> r_bcap r"
proof (cases "wrapped r")
  case False
  with assms have "path (readCursor r) (live r) (r_write r)" "0 \<le> readCursor r" "r_write r \<le> r_bcap r"
    by (auto simp: ring_ok_def unwrapped_def)
  with path_mem [of "readCursor r" "live r" "r_write r" "fst x" "snd x"] assms(2) show ?thesis by simp
next
  case True
  then obtain A B where AB: "live r = A @ B" "path (readCursor r) A (r_bcap r)" "path 0 B (r_write r)"
    "r_write r \<le> readCursor r" by (auto simp: wrapped_def)
  have "0 \<le> r_write r" "r_write r \<le> r_bcap r" using assms(1) by (simp_all add: ring_ok_def)
  with AB path_mem [OF AB(2), of "fst x" "snd x"] path_mem [OF AB(3), of "fst x" "snd x"] assms(2)
  show ?thesis by auto
qed

lemma live_disjoint_nth:
  assumes "ring_ok r" and "i < j" and "j < length (live r)"
  shows "snd (live r ! i) \<le> fst (live r ! j) \<or> snd (live r ! j) \<le> fst (live r ! i)"
proof (cases "wrapped r")
  case False
  with assms(1) have "path (readCursor r) (live r) (r_write r)" by (auto simp: ring_ok_def unwrapped_def)
  from path_order [OF this assms(2,3)] show ?thesis ..
next
  case True
  then obtain A B where AB: "live r = A @ B" "path (readCursor r) A (r_bcap r)" "path 0 B (r_write r)"
    "r_write r \<le> readCursor r" by (auto simp: wrapped_def)
  consider "j < length A" | "length A \<le> i" | "i < length A" "length A \<le> j" by linarith
  then show ?thesis
  proof cases
    case 1
    with path_order [OF AB(2) assms(2)] assms(2) show ?thesis by (simp add: AB(1) nth_append)
  next
    case 2
    have "j - length A < length B" using assms(3) unfolding AB(1) using 2 assms(2) by simp
    with 2 path_order [OF AB(3), of "i - length A" "j - length A"] assms(2) show ?thesis
      by (simp add: AB(1) nth_append)
  next
    case 3
    have "j - length A < length B" using assms(3) 3 unfolding AB(1) by simp
    then have "B ! (j - length A) \<in> set B" and "A ! i \<in> set A" using 3 by simp_all
    with path_mem [OF AB(2), of "fst (A ! i)" "snd (A ! i)"] AB(4)
      path_mem [OF AB(3), of "fst (B ! (j - length A))" "snd (B ! (j - length A))"]
    have "snd (B ! (j - length A)) \<le> fst (A ! i)" by simp
    with 3 show ?thesis by (simp add: AB(1) nth_append)
  qed
qed

definition in_use :: "ring \<Rightarrow> nat \<Rightarrow> bool" where
  "in_use r i \<longleftrightarrow> r_head r \<le> i \<and> i < r_tail r"

lemma in_use_slot:
  assumes "r_tail r - r_head r \<le> ringSlotCount" and "in_use r i" and "in_use r j"
  shows "i mod ringSlotCount = j mod ringSlotCount \<Longrightarrow> i = j"
proof (rule ccontr)
  assume eq: "i mod ringSlotCount = j mod ringSlotCount" and "i \<noteq> j"
  then consider "i < j" | "j < i" by linarith
  then show False
  proof cases
    case 1
    then have "j - i < ringSlotCount" using assms unfolding in_use_def by linarith
    with mod_slot_neq [OF 1] eq show False by simp
  next
    case 2
    then have "i - j < ringSlotCount" using assms unfolding in_use_def by linarith
    with mod_slot_neq [OF 2] eq show False by simp
  qed
qed

definition disjoint_slots :: "ring \<Rightarrow> nat \<Rightarrow> nat \<Rightarrow> bool" where
  "disjoint_slots r i j \<longleftrightarrow>
     s_end (slot_at r i) \<le> s_start (slot_at r j) \<or> s_end (slot_at r j) \<le> s_start (slot_at r i)"

lemma live_disjoint:
  assumes "ring_ok r" and "in_use r i" and "in_use r j" and "i \<noteq> j"
  shows "disjoint_slots r i j"
proof -
  have "disjoint_slots r i j" if "in_use r i" "in_use r j" "i < j" for i j
    using live_disjoint_nth [OF assms(1), of "i - r_head r" "j - r_head r"] that
      nth_live [of r i] nth_live [of r j] by (auto simp: in_use_def disjoint_slots_def)
  from this [of i j] this [of j i] assms show ?thesis
    by (cases i j rule: linorder_cases) (auto simp: disjoint_slots_def)
qed

text \<open>The handle that \<open>Extend\<close> accepts is the one of the last slot.\<close>

lemma write_end_last:
  assumes ok: "ring_ok r" and "in_use r i" and "s_start (slot_at r i) < s_end (slot_at r i)"
    and "s_end (slot_at r i) = r_write r"
  shows "Suc i = r_tail r"
proof (rule ccontr)
  assume "Suc i \<noteq> r_tail r"
  then have iu: "in_use r (Suc i)" using assms(2) by (auto simp: in_use_def)
  let ?k = "i - r_head r"
  have k: "Suc ?k < length (live r)" using iu assms(2) by (auto simp: in_use_def)
  have e: "snd (live r ! ?k) = r_write r" "fst (live r ! ?k) < r_write r"
    using nth_live [of r i] assms by (auto simp: in_use_def)
  show False
  proof (cases "wrapped r")
    case False
    with ok have u: "positive (live r)" "path (readCursor r) (live r) (r_write r)"
      by (auto simp: ring_ok_def unwrapped_def)
    have m: "live r ! Suc ?k \<in> set (live r)" using k by simp
    with u(1) have "fst (live r ! Suc ?k) < snd (live r ! Suc ?k)" by (auto simp: positive_def)
    with path_order [OF u(2), of ?k "Suc ?k"] path_mem [OF u(2), of "fst (live r ! Suc ?k)" "snd (live r ! Suc ?k)"] e k m
    show False by simp
  next
    case True
    then obtain A B where AB: "live r = A @ B" "path (readCursor r) A (r_bcap r)" "path 0 B (r_write r)"
      "r_write r \<le> readCursor r" "positive B" by (auto simp: wrapped_def)
    show False
    proof (cases "?k < length A")
      case True
      then have "A ! ?k \<in> set A" by simp
      with path_mem [OF AB(2), of "fst (A ! ?k)" "snd (A ! ?k)"] e True AB(4) show False
        by (simp add: AB(1) nth_append)
    next
      case False
      let ?l = "?k - length A"
      have l: "Suc ?l < length B" using k False unfolding AB(1) by simp
      then have m: "B ! Suc ?l \<in> set B" by simp
      with AB(5) have "fst (B ! Suc ?l) < snd (B ! Suc ?l)" by (auto simp: positive_def)
      moreover have "live r ! ?k = B ! ?l" using False by (simp add: AB(1) nth_append)
      ultimately show False
        using path_order [OF AB(3), of ?l "Suc ?l"] m e l
          path_mem [OF AB(3), of "fst (B ! Suc ?l)" "snd (B ! Suc ?l)"] by simp
    qed
  qed
qed

lemma live_set_end:
  assumes "in_use r i" and "Suc i = r_tail r" and "r_tail r - r_head r \<le> ringSlotCount"
  shows "live ((set_slot i (slot_at r i\<lparr>s_end := e\<rparr>) r)\<lparr>r_write := w\<rparr>) =
    butlast (live r) @ [(s_start (slot_at r i), e)]"
proof -
  have up: "[r_head r..<r_tail r] = [r_head r..<i] @ [i]"
    using assms(1,2) by (metis in_use_def upt_Suc_append)
  have "j mod ringSlotCount \<noteq> i mod ringSlotCount" if "r_head r \<le> j" "j < i" for j
    using mod_slot_neq [of j i] that assms by (auto simp: in_use_def)
  then show ?thesis by (simp add: live_def up slot_at_set_slot)
qed

lemma Extend_shape:
  assumes ok: "ring_ok r" and iu: "in_use r i" and pos: "s_start (slot_at r i) < s_end (slot_at r i)"
    and x: "Extend (Some i) n r = (Some x, r')"
  shows "Suc i = r_tail r" and "s_end (slot_at r i) = r_write r" and "0 < n" and "r_write r + n \<le> r_bcap r"
    and "x = (s_start (slot_at r i), r_write r + n)"
    and "r' = (set_slot i (slot_at r i\<lparr>s_end := r_write r + n\<rparr>) r)\<lparr>r_write := r_write r + n\<rparr>"
    and "r_write r \<noteq> readCursor r" and "regionFree r (r_write r) (r_write r + n) (readCursor r)"
proof -
  have e: "s_end (slot_at r i) = r_write r" and n: "0 < n" "r_write r + n \<le> r_bcap r"
    using x by (auto simp: Extend_def Let_def split: if_splits)
  have w: "0 \<le> r_write r" "r_bcap r < 2 ^ 31" using ok by (simp_all add: ring_ok_def)
  have "i32 (r_write r + n) = r_write r + n" using w n by (intro i32_id) simp_all
  then show "s_end (slot_at r i) = r_write r" "0 < n" "r_write r + n \<le> r_bcap r"
    "x = (s_start (slot_at r i), r_write r + n)"
    "r' = (set_slot i (slot_at r i\<lparr>s_end := r_write r + n\<rparr>) r)\<lparr>r_write := r_write r + n\<rparr>"
    "r_write r \<noteq> readCursor r" "regionFree r (r_write r) (r_write r + n) (readCursor r)"
    using x e n iu by (auto simp: Extend_def Let_def in_use_def split: if_splits)
  show "Suc i = r_tail r" by (rule write_end_last [OF ok iu pos e])
qed

lemma Extend_None: "Extend h n r = (None, r') \<Longrightarrow> r' = r"
  by (auto simp: Extend_def Let_def split: option.splits if_splits)

lemma Extend_ok:
  assumes ok: "ring_ok r" and iu: "in_use r i" and pos: "s_start (slot_at r i) < s_end (slot_at r i)"
    and x: "Extend (Some i) n r = (Some x, r')"
  shows "ring_ok r'"
proof -
  note sh = Extend_shape [OF assms]
  let ?s = "s_start (slot_at r i)" and ?w = "r_write r" and ?L = "butlast (live r)"
  have cnt: "r_tail r - r_head r \<le> ringSlotCount" using ok by (simp add: ring_ok_def)
  have ne: "live r \<noteq> []" using iu by (auto simp: live_Nil_iff in_use_def)
  have lst: "last (live r) = (?s, ?w)"
  proof -
    have "length (live r) - 1 = i - r_head r" using sh(1) iu by (auto simp: in_use_def)
    with nth_live [of r i] iu sh(2) ne show ?thesis by (simp add: in_use_def last_conv_nth)
  qed
  then have L: "live r = ?L @ [(?s, ?w)]" using ne by (metis append_butlast_last_id)
  have L': "live r' = ?L @ [(?s, ?w + n)]"
    unfolding sh(6) by (rule live_set_end [OF iu sh(1) cnt])
  have b: "r_write r' = ?w + n" "r_bcap r' = r_bcap r" "r_head r' = r_head r" "r_tail r' = r_tail r"
    by (simp_all add: sh(6))
  have rd: "readCursor r' = readCursor r"
  proof (cases "butlast (live r)")
    case Nil
    with L L' show ?thesis using readCursor_live [of r] readCursor_live [of r'] iu
      by (auto simp: in_use_def b)
  next
    case (Cons y ys)
    then have "hd (live r) = y" "hd (live r') = y" using L L' by (metis append_Cons list.sel(1))+
    then show ?thesis using readCursor_live [of r] readCursor_live [of r'] iu ne L'
      by (simp add: in_use_def b)
  qed
  have "unwrapped r' \<or> wrapped r'"
  proof (cases "wrapped r")
    case False
    with ok have u: "positive (live r)" "path (readCursor r) (live r) ?w" "0 \<le> readCursor r"
      by (auto simp: ring_ok_def unwrapped_def)
    have "positive (?L @ [(?s, ?w + n)])" "path (readCursor r) (?L @ [(?s, ?w + n)]) (?w + n)"
      using u(1,2) sh(3) by (subst (asm) (2) L, simp add: path_append)+
    with u(3) show ?thesis by (simp add: unwrapped_def L' rd b)
  next
    case True
    then obtain A B where AB: "live r = A @ B" "A \<noteq> []" "path (readCursor r) A (r_bcap r)" "path 0 B ?w"
      "positive (butlast A)" "positive B" "?w \<le> readCursor r" by (auto simp: wrapped_def)
    have "B \<noteq> []"
    proof
      assume "B = []"
      with AB(1,4) lst have "?w = 0" "last A = (?s, ?w)" by auto
      moreover have "(?s, ?w) \<in> set A" using \<open>last A = (?s, ?w)\<close> AB(2) by (metis last_in_set)
      ultimately show False using pos sh(2) live_in_slab [OF ok, of "(?s, ?w)"] AB(1) by simp
    qed
    then obtain B0 where B0: "B = B0 @ [(?s, ?w)]" "?L = A @ B0"
      using AB(1) L by (cases B rule: rev_cases) auto
    have "?w + n \<le> readCursor r" using sh(7,8) AB(7) by (auto simp: regionFree_def)
    with AB B0 sh(3) have "wrapped r'"
      unfolding wrapped_def L' rd b B0(2)
      by (intro exI [of _ A] exI [of _ "B0 @ [(?s, ?w + n)]"]) (auto simp: path_append)
    then show ?thesis ..
  qed
  with ok sh(3,4) show ?thesis by (auto simp: ring_ok_def b)
qed

section \<open>The concurrent system\<close>

text \<open>
  The ring together with the number of owners of each handle: \<open>Alloc\<close> gives a handle its
  first owner, \<open>Retain\<close> adds one, \<open>Release\<close> drops one.  The operations are called by an owner.
  A careful producer makes no request that overruns a slab that has wrapped; any other may.
\<close>

type_synonym ring_sys = "ring \<times> (nat \<Rightarrow> nat)"

inductive ring_step :: "bool \<Rightarrow> ring_sys \<Rightarrow> ring_sys \<Rightarrow> bool" for careful :: bool where
  alloc: "careful \<longrightarrow> \<not> overrun n r \<Longrightarrow> Alloc n r = (Some (lo, hi, idx), r') \<Longrightarrow>
    ring_step careful (r, own) (r', own(idx := 1))"
| alloc_fail: "careful \<longrightarrow> \<not> overrun n r \<Longrightarrow> Alloc n r = (None, r') \<Longrightarrow> ring_step careful (r, own) (r', own)"
| extend: "0 < own idx \<Longrightarrow> Extend (Some idx) n r = (x, r') \<Longrightarrow> ring_step careful (r, own) (r', own)"
| retain: "0 < own idx \<Longrightarrow> ring_step careful (r, own) (Retain (Some idx) r, own(idx := own idx + 1))"
| drop_ref: "0 < own idx \<Longrightarrow> ring_step careful (r, own) (add_refs (- 1) idx r, own(idx := own idx - 1))"
| advance: "can_advance r \<Longrightarrow> ring_step careful (r, own) (advance r, own)"

inductive ring_reach :: "bool \<Rightarrow> int \<Rightarrow> ring_sys \<Rightarrow> bool" for careful :: bool and sz :: int where
  start: "0 \<le> sz \<Longrightarrow> sz < 2 ^ 31 \<Longrightarrow> ring_reach careful sz (NewRingAlloc sz, \<lambda>_. 0)"
| step: "ring_reach careful sz s \<Longrightarrow> ring_step careful s s' \<Longrightarrow> ring_reach careful sz s'"

inductive_cases ring_stepE: "ring_step careful (r, own) (r', own')"

definition counts_ok :: "ring_sys \<Rightarrow> bool" where
  "counts_ok s \<longleftrightarrow> (\<forall>i. in_use (fst s) i \<longrightarrow> s_refs (slot_at (fst s) i) = int (snd s i) \<and>
       (0 < snd s i \<longrightarrow> 0 \<le> s_start (slot_at (fst s) i) \<and> s_start (slot_at (fst s) i) < s_end (slot_at (fst s) i) \<and>
          s_end (slot_at (fst s) i) \<le> r_bcap (fst s))) \<and>
     (\<forall>i. \<not> in_use (fst s) i \<longrightarrow> snd s i = 0)"

definition sys_ok :: "ring_sys \<Rightarrow> bool" where
  "sys_ok s \<longleftrightarrow> bounds_ok (fst s) \<and> counts_ok s"

lemma counts_okD:
  assumes "counts_ok (r, own)" and "0 < own i"
  shows "in_use r i" and "0 \<le> s_start (slot_at r i)" and "s_start (slot_at r i) < s_end (slot_at r i)"
    and "s_end (slot_at r i) \<le> r_bcap r" and "s_refs (slot_at r i) = int (own i)"
proof -
  show "in_use r i" using assms by (auto simp: counts_ok_def)
  with assms show "0 \<le> s_start (slot_at r i)" "s_start (slot_at r i) < s_end (slot_at r i)"
    "s_end (slot_at r i) \<le> r_bcap r" "s_refs (slot_at r i) = int (own i)"
    by (simp_all add: counts_ok_def)
qed

lemma counts_push:
  assumes "counts_ok (r, own)" and "r_head r \<le> r_tail r" and "r_tail r - r_head r < ringSlotCount"
    and "k = 0 \<or> 0 \<le> i32 lo \<and> i32 lo < i32 hi \<and> i32 hi \<le> r_bcap r"
  shows "counts_ok (push_slot lo hi (int k) w r, own(r_tail r := k))"
proof -
  have "own (r_tail r) = 0" using assms(1) by (simp add: counts_ok_def in_use_def)
  have "slot_at (push_slot lo hi (int k) w r) i =
      (if i = r_tail r then \<lparr>s_start = i32 lo, s_end = i32 hi, s_refs = int k\<rparr> else slot_at r i)"
    if "in_use (push_slot lo hi (int k) w r) i" for i
    using that assms(3) by (intro slot_at_push) (auto simp: in_use_def)
  moreover have "in_use (push_slot lo hi (int k) w r) i \<longleftrightarrow> i = r_tail r \<or> in_use r i" for i
    using assms(2) by (auto simp: in_use_def)
  ultimately show ?thesis using assms(1,4) by (auto simp: counts_ok_def)
qed

lemma place_result:
  assumes "place n start r = (Some (lo, hi, idx), r')"
  shows "lo = start \<and> hi = start + n \<and> idx = r_tail r \<and> r' = push_slot start (start + n) 1 (start + n) r \<and>
    r_tail r - r_head r < ringSlotCount"
  using assms by (auto simp: place_def Let_def split: if_splits)

lemma place_none: "place n start r = (None, r') \<Longrightarrow> r' = r"
  by (auto simp: place_def Let_def split: if_splits)

text \<open>Both outcomes of \<open>Alloc\<close>: what is placed, on the ring with or without a waste slot.\<close>

lemma Alloc_cases:
  assumes "Alloc n r = (x, r')"
  obtains "x = None" "r' = r"
  | "0 < n" "r_write r + n \<le> r_bcap r" "place n (r_write r) r = (x, r')"
  | "0 < n" "n \<le> r_bcap r" "r_bcap r < r_write r + n" "r_tail r - r_head r < ringSlotCount - 1"
    "place n 0 (push_slot (r_write r) (r_bcap r) 0 0 r) = (x, r')"
  using assms that by (auto simp: Alloc_def split: if_splits)

lemma bounds_push:
  assumes "bounds_ok r" "r_tail r - r_head r < ringSlotCount" "0 \<le> w" "w \<le> r_bcap r"
  shows "bounds_ok (push_slot lo hi k w r)"
  using assms by (auto simp: bounds_ok_def)

lemma place_sys:
  assumes "sys_ok (r, own)" and "0 < n" and "0 \<le> start" and "start + n \<le> r_bcap r" and "place n start r = (x, r')"
  shows "sys_ok (r', case x of None \<Rightarrow> own | Some (_, _, idx) \<Rightarrow> own(idx := 1))"
proof (cases x)
  case None
  with assms(5) place_none [of n start r r'] show ?thesis using assms(1) by simp
next
  case (Some y)
  have r: "bounds_ok r" "counts_ok (r, own)" "r_head r \<le> r_tail r" "r_bcap r < 2 ^ 31"
    using assms(1) by (simp_all add: sys_ok_def bounds_ok_def)
  obtain lo hi idx where y: "y = (lo, hi, idx)" by (cases y) auto
  from place_result [of n start r lo hi idx r'] assms(5) Some y
  have p: "idx = r_tail r" "r' = push_slot start (start + n) (int 1) (start + n) r"
    "r_tail r - r_head r < ringSlotCount" by auto
  have "i32 start = start" "i32 (start + n) = start + n" using assms(2-4) r(4) by (simp_all add: i32_id)
  then have "counts_ok (push_slot start (start + n) (int 1) (start + n) r, own(r_tail r := 1))"
    using assms(2-4) by (intro counts_push r p) simp
  moreover have "bounds_ok r'" unfolding p(2) using assms(2-4) by (intro bounds_push r p) simp_all
  ultimately show ?thesis using Some y p by (simp add: sys_ok_def)
qed

lemma Alloc_sys:
  assumes "sys_ok (r, own)" and "Alloc n r = (x, r')"
  shows "sys_ok (r', case x of None \<Rightarrow> own | Some (_, _, idx) \<Rightarrow> own(idx := 1))"
  using assms(2)
proof (cases rule: Alloc_cases)
  case 1
  with assms(1) show ?thesis by simp
next
  case 2
  have "0 \<le> r_write r" using assms(1) by (simp add: sys_ok_def bounds_ok_def)
  with place_sys [OF assms(1)] 2 show ?thesis by simp
next
  case 3
  have c: "counts_ok (r, own)" "bounds_ok r" "r_head r \<le> r_tail r" using assms(1) by (simp_all add: sys_ok_def bounds_ok_def)
  let ?r1 = "push_slot (r_write r) (r_bcap r) 0 0 r"
  have "own(r_tail r := 0) = own" using c(1) by (auto simp: counts_ok_def in_use_def)
  with counts_push [OF c(1,3), of 0 "r_write r" "r_bcap r" 0] 3 have "counts_ok (?r1, own)" by simp
  moreover have "bounds_ok ?r1" using c(2) 3 by (intro bounds_push) (simp_all add: bounds_ok_def)
  ultimately have "sys_ok (?r1, own)" by (simp add: sys_ok_def)
  with place_sys [of ?r1 own n 0 x r'] 3 show ?thesis by simp
qed

lemma add_refs_sys:
  assumes "sys_ok (r, own)" and "0 < own idx" and "int k = int (own idx) + d"
  shows "sys_ok (add_refs d idx r, own(idx := k))"
proof -
  have c: "counts_ok (r, own)" and n: "r_tail r - r_head r \<le> ringSlotCount" using assms(1)
    by (simp_all add: sys_ok_def bounds_ok_def)
  have iu: "in_use r idx" using c assms(2) by (auto simp: counts_ok_def)
  have "i = idx" if "in_use r i" "i mod ringSlotCount = idx mod ringSlotCount" for i
    using in_use_slot [OF n that(1) iu] that(2) by blast
  moreover have "in_use (add_refs d idx r) i = in_use r i" for i by (simp add: in_use_def)
  ultimately have "counts_ok (add_refs d idx r, own(idx := k))"
    using c assms(2,3) iu by (auto simp: counts_ok_def slot_at_add_refs)
  then show ?thesis using assms(1) by (simp add: sys_ok_def bounds_ok_def)
qed

lemma advance_sys:
  assumes "sys_ok (r, own)" and "can_advance r"
  shows "sys_ok (advance r, own)"
proof -
  have c: "counts_ok (r, own)" using assms(1) by (simp add: sys_ok_def)
  have h: "in_use r (r_head r)" "s_refs (slot_at r (r_head r)) = 0"
    using assms(2) by (simp_all add: can_advance_def in_use_def)
  with c have "own (r_head r) = 0" by (auto simp: counts_ok_def)
  moreover have "in_use (advance r) i \<longleftrightarrow> in_use r i \<and> i \<noteq> r_head r" for i
    by (auto simp: in_use_def advance_def)
  moreover have "slot_at (advance r) i = slot_at r i" for i by (simp add: advance_def)
  moreover have "r_bcap (advance r) = r_bcap r" by (simp add: advance_def)
  ultimately have "counts_ok (advance r, own)" using c by (auto simp: counts_ok_def)
  then show ?thesis using assms by (auto simp: sys_ok_def bounds_ok_def can_advance_def advance_def)
qed

lemma extend_sys:
  assumes "sys_ok (r, own)" and "0 < own idx" and "Extend (Some idx) n r = (Some x, r')"
  shows "sys_ok (r', own)"
proof -
  have b: "bounds_ok r" and c: "counts_ok (r, own)" using assms(1) by (simp_all add: sys_ok_def)
  then have n: "r_tail r - r_head r \<le> ringSlotCount" "0 \<le> r_write r" "r_bcap r < 2 ^ 31" by (simp_all add: bounds_ok_def)
  note iu = counts_okD [OF c assms(2)]
  have e: "s_end (slot_at r idx) = r_write r" "0 < n" "r_write r + n \<le> r_bcap r"
    using assms(3) by (auto simp: Extend_def Let_def split: if_splits)
  have "i32 (r_write r + n) = r_write r + n" using e n by (intro i32_id) simp_all
  then have r': "r' = (set_slot idx (slot_at r idx\<lparr>s_end := r_write r + n\<rparr>) r)\<lparr>r_write := r_write r + n\<rparr>"
    using assms(3) e by (auto simp: Extend_def Let_def split: if_splits)
  have "in_use r' i = in_use r i" for i by (simp add: in_use_def r')
  moreover have "slot_at r' i = (if i = idx then slot_at r idx\<lparr>s_end := r_write r + n\<rparr> else slot_at r i)"
    if "in_use r i" for i
    using in_use_slot [OF n(1) that iu(1)] by (auto simp: r' slot_at_set_slot)
  moreover have "r_bcap r' = r_bcap r" by (simp add: r')
  ultimately have "counts_ok (r', own)" using c iu e by (auto simp: counts_ok_def)
  moreover have "bounds_ok r'" using b e by (simp add: bounds_ok_def r')
  ultimately show ?thesis by (simp add: sys_ok_def)
qed

lemma ring_step_sys: "ring_step careful s s' \<Longrightarrow> sys_ok s \<Longrightarrow> sys_ok s'"
proof (induction rule: ring_step.induct)
  case (alloc n r lo hi idx r' own)
  with Alloc_sys [OF alloc(3,2)] show ?case by simp
next
  case (alloc_fail n r r' own)
  with Alloc_sys [OF alloc_fail(3,2)] show ?case by simp
next
  case (extend own idx n r x r')
  then show ?case using Extend_None [of "Some idx" n r r'] extend_sys [of r own idx n _ r'] by (cases x) auto
next
  case (retain own idx r)
  with add_refs_sys [of r own idx "own idx + 1" 1] show ?case by (simp add: Retain_def)
next
  case (drop_ref own idx r)
  with add_refs_sys [of r own idx "own idx - 1" "- 1"] show ?case by simp
next
  case (advance r own)
  then show ?case by (intro advance_sys)
qed

text \<open>The layout is kept by a careful producer.\<close>

lemma ring_step_ok: "ring_step True s s' \<Longrightarrow> sys_ok s \<Longrightarrow> ring_ok (fst s) \<Longrightarrow> ring_ok (fst s')"
proof (induction rule: ring_step.induct)
  case (alloc n r lo hi idx r' own)
  with Alloc_ok [of r n] show ?case by simp
next
  case (alloc_fail n r r' own)
  with Alloc_ok [of r n] show ?case by simp
next
  case (extend own idx n r x r')
  show ?case
  proof (cases x)
    case None
    with extend Extend_None [of "Some idx" n r r'] show ?thesis by simp
  next
    case (Some y)
    have "in_use r idx" "s_start (slot_at r idx) < s_end (slot_at r idx)"
      using extend counts_okD [of r own idx] by (simp_all add: sys_ok_def)
    with Some extend Extend_ok [of r idx n y r'] show ?thesis by simp
  qed
next
  case (advance r own)
  with advance_ok [of r] show ?case by (simp add: can_advance_def)
qed (simp_all add: Retain_def)

lemma NewRingAlloc_ok:
  "0 \<le> sz \<Longrightarrow> sz < 2 ^ 31 \<Longrightarrow> sys_ok (NewRingAlloc sz, \<lambda>_. 0) \<and> ring_ok (NewRingAlloc sz)"
  by (simp add: sys_ok_def bounds_ok_def ring_ok_def counts_ok_def in_use_def NewRingAlloc_def unwrapped_def live_def
      readCursor_def)

lemma ring_reach_sys: "ring_reach careful sz s \<Longrightarrow> sys_ok s"
  by (induction rule: ring_reach.induct) (auto simp: NewRingAlloc_ok intro: ring_step_sys)

lemma ring_reach_ok: "ring_reach True sz s \<Longrightarrow> ring_ok (fst s)"
proof (induction rule: ring_reach.induct)
  case (step s s')
  then show ?case using ring_step_ok ring_reach_sys by blast
qed (simp add: NewRingAlloc_ok)

lemma Release_owned:
  assumes "sys_ok (r, own)" and "0 < own idx"
  shows "Release (Some idx) r = Inr (advance_all (add_refs (- 1) idx r))"
proof -
  have "s_refs (slot_at r idx) = int (own idx)" using assms counts_okD(5) by (simp add: sys_ok_def)
  with assms(2) show ?thesis by (simp add: Release_def Let_def slot_at_add_refs)
qed

lemma advance_all_reach: "ring_reach careful sz (r, own) \<Longrightarrow> ring_reach careful sz (advance_all r, own)"
proof (induction r rule: advance_all.induct)
  case (1 r)
  then show ?case
    by (subst advance_all.simps) (auto intro: ring_reach.step ring_step.advance)
qed

lemma ring_step_bcap: "ring_step careful s s' \<Longrightarrow> r_bcap (fst s') = r_bcap (fst s)"
proof (induction rule: ring_step.induct)
  case (alloc n r lo hi idx r' own)
  from alloc(2) show ?case by (cases rule: Alloc_cases) (auto dest: place_result)
next
  case (alloc_fail n r r' own)
  from alloc_fail(2) show ?case by (cases rule: Alloc_cases) (auto dest: place_none)
qed (auto simp: Extend_def Let_def Retain_def advance_def split: if_splits)

lemma ring_reach_bcap: "ring_reach careful sz s \<Longrightarrow> r_bcap (fst s) = sz"
  by (induction rule: ring_reach.induct) (auto simp: NewRingAlloc_def dest: ring_step_bcap)

section \<open>The growing allocator\<close>

text \<open>
  The rings created so far, the current one last; the older ones live on through their
  handles.  A handle names its ring by its position.
\<close>

record gring =
  g_rings :: "ring list"
  g_maxCap :: int

type_synonym handle = "nat \<times> nat"

definition defaultMaxRingSize :: int where
  "defaultMaxRingSize = 32 * 1024 * 1024"

definition DefaultMaxRingSize :: int where
  "DefaultMaxRingSize = defaultMaxRingSize"

definition NewGrowingRingAlloc :: "int \<Rightarrow> gring" where
  "NewGrowingRingAlloc sz = \<lparr>g_rings = [NewRingAlloc sz], g_maxCap = 0\<rparr>"

definition SetMaxRingBytes :: "int \<Rightarrow> gring \<Rightarrow> gring" where
  "SetMaxRingBytes n g = (if 0 < n then g\<lparr>g_maxCap := n\<rparr> else g)"

definition maxRingCap :: "gring \<Rightarrow> int" where
  "maxRingCap g = (if 0 < g_maxCap g then g_maxCap g else defaultMaxRingSize)"

definition calcGrowth :: "gring \<Rightarrow> int \<Rightarrow> int \<Rightarrow> int" where
  "calcGrowth g currentCap allocSize =
     (let grov = (if 1024 * 1024 * 8 < currentCap then 11
                  else if 1024 * 1024 * 4 < currentCap then 13
                  else if 1024 * 1024 < currentCap then 14 else 16)
      in min (max (currentCap * grov div 10) (allocSize * 2)) (maxRingCap g))"

definition current :: "gring \<Rightarrow> ring" where
  "current g = last (g_rings g)"

definition set_current :: "ring \<Rightarrow> gring \<Rightarrow> gring" where
  "set_current r g = g\<lparr>g_rings := butlast (g_rings g) @ [r]\<rparr>"

definition grow :: "int \<Rightarrow> gring \<Rightarrow> gring" where
  "grow allocSize g = g\<lparr>g_rings := g_rings g @
     [NewRingAlloc (calcGrowth g (r_bcap (current g)) allocSize)]\<rparr>"

definition on_current :: "int \<Rightarrow> gring \<Rightarrow> (int \<times> int \<times> handle) option \<times> gring" where
  "on_current n g = (case Alloc n (current g) of (x, r) \<Rightarrow>
     (map_option (\<lambda>(lo, hi, idx). (lo, hi, length (g_rings g) - 1, idx)) x, set_current r g))"

definition G_Alloc :: "int \<Rightarrow> gring \<Rightarrow> ((int \<times> int \<times> handle) option \<times> gring) res" where
  "G_Alloc n g = (case on_current n g of
       (Some x, g1) \<Rightarrow> Inr (Some x, g1)
     | (None, g1) \<Rightarrow>
         if slotsExhausted (current g1) then Inl Panic
         else if maxRingCap g1 \<le> r_bcap (current g1) then Inr (None, g1)
         else Inr (on_current n (grow n g1)))"

definition G_Extend :: "handle option \<Rightarrow> int \<Rightarrow> gring \<Rightarrow> (int \<times> int) option \<times> gring" where
  "G_Extend h n g = (case h of None \<Rightarrow> (None, g)
     | Some (k, idx) \<Rightarrow>
         if k \<noteq> length (g_rings g) - 1 then (None, g)
         else (case Extend (Some idx) n (current g) of (x, r) \<Rightarrow> (x, set_current r g)))"

lemma Alloc_fresh:
  assumes "0 < n" and "n \<le> sz"
  shows "\<exists>r. Alloc n (NewRingAlloc sz) = (Some (0, n, 0), r)"
  using assms
  by (simp add: Alloc_def place_def NewRingAlloc_def readCursor_def regionFree_def ringSlotCount_def)

lemma Alloc_bcap: "r_bcap (snd (Alloc n r)) = r_bcap r"
proof -
  obtain x r' where "Alloc n r = (x, r')" by force
  then show ?thesis
    by (cases rule: Alloc_cases; cases x) (auto dest: place_none place_result)
qed

text \<open>The slots after a successful \<open>Alloc\<close>.\<close>

lemma Alloc_slots:
  assumes ok: "ring_ok r" and "Alloc n r = (Some (lo, hi, idx), r')"
  shows "hi = lo + n" and "r_tail r \<le> idx" and "in_use r' idx"
    and "s_start (slot_at r' idx) = lo" and "s_end (slot_at r' idx) = hi"
    and "in_use r j \<Longrightarrow> slot_at r' j = slot_at r j"
proof -
  have b: "r_head r \<le> r_tail r" "r_bcap r < 2 ^ 31" "0 \<le> r_write r" using ok by (simp_all add: ring_ok_def)
  have "hi = lo + n \<and> r_tail r \<le> idx \<and> in_use r' idx \<and> s_start (slot_at r' idx) = lo \<and>
    s_end (slot_at r' idx) = hi \<and> (in_use r j \<longrightarrow> slot_at r' j = slot_at r j)"
    using assms(2)
  proof (cases rule: Alloc_cases)
    case 2
    from place_result [OF 2(3)] 2(1,2) b show ?thesis
      by (auto simp: slot_at_push in_use_def i32_id)
  next
    case 3
    let ?r1 = "push_slot (r_write r) (r_bcap r) 0 0 r"
    from place_result [OF 3(5)] 3(1,2,4) b show ?thesis
      by (auto simp: slot_at_push in_use_def i32_id)
  qed simp
  then show "hi = lo + n" "r_tail r \<le> idx" "in_use r' idx" "s_start (slot_at r' idx) = lo"
    "s_end (slot_at r' idx) = hi" "in_use r j \<Longrightarrow> slot_at r' j = slot_at r j" by blast+
qed

text \<open>Owned handles have disjoint regions.\<close>

lemma ring_reach_disjoint:
  assumes "ring_reach True sz (r, own)" and "0 < own i" and "0 < own j" and "i \<noteq> j"
  shows "disjoint_slots r i j"
proof -
  have ok: "ring_ok r" and c: "counts_ok (r, own)"
    using ring_reach_ok [OF assms(1)] ring_reach_sys [OF assms(1)] by (simp_all add: sys_ok_def)
  from live_disjoint [OF ok counts_okD(1) [OF c assms(2)] counts_okD(1) [OF c assms(3)] assms(4)]
  show ?thesis .
qed

section \<open>Properties\<close>

text \<open>C25: In every state reached by interleaving the producer's calls with any number of
  concurrent retains and releases, the slab region of a handle that still has an owner is not empty and lies inside the
  slab, whatever the producer requests; and as long as no request overruns a slab that has wrapped (\<open>overrun\<close>: the
  slab has wrapped already and the request reaches past its end), the regions of two such handles never overlap.
  With such a request they may: \<open>Alloc_overrun\<close>.\<close>

theorem ring_safe:
  assumes "ring_reach careful sz (r, own)" and "0 < own i"
  shows "0 \<le> s_start (slot_at r i) \<and> s_start (slot_at r i) < s_end (slot_at r i) \<and> s_end (slot_at r i) \<le> sz \<and>
    (\<forall>j. careful \<and> 0 < own j \<and> i \<noteq> j \<longrightarrow> disjoint_slots r i j)"
proof -
  have c: "counts_ok (r, own)" using ring_reach_sys [OF assms(1)] by (simp add: sys_ok_def)
  have "disjoint_slots r i j" if "careful \<and> 0 < own j \<and> i \<noteq> j" for j
    using that ring_reach_disjoint [of sz r own i j] assms by simp
  with counts_okD [OF c assms(2)] ring_reach_bcap [OF assms(1)] show ?thesis by simp
qed

definition two_slots :: ring where
  "two_slots = snd (Alloc 20 (snd (Alloc 10 (NewRingAlloc 100))))"

lemmas ring_eval = Alloc_def place_def readCursor_def regionFree_def push_slot_def set_slot_def slot_at_def
  ringSlotCount_def NewRingAlloc_def i32_id

lemma two_slots_reach: "ring_reach careful 100 (two_slots, (\<lambda>_. 0)(0 := 1, 1 := 1))"
proof -
  let ?r1 = "snd (Alloc 10 (NewRingAlloc 100))"
  have a: "Alloc 10 (NewRingAlloc 100) = (Some (0, 10, 0), ?r1)" by (simp add: ring_eval)
  have b: "Alloc 20 ?r1 = (Some (10, 30, 1), two_slots)" by (simp add: two_slots_def ring_eval)
  have "ring_reach careful 100 (?r1, (\<lambda>_. 0)(0 := 1))"
    by (rule ring_reach.step [OF ring_reach.start ring_step.alloc [OF _ a]])
      (simp_all add: overrun_def NewRingAlloc_def)
  from ring_reach.step [OF this ring_step.alloc [OF _ b]] show ?thesis
    by (simp add: overrun_def ring_eval)
qed

theorem ring_safe_witness:
  "disjoint_slots two_slots 0 1 \<and> s_start (slot_at two_slots 0) = 0 \<and> s_end (slot_at two_slots 1) = 30"
  using ring_safe [OF two_slots_reach [of True], of 0] by (simp add: two_slots_def ring_eval)

text \<open>C26: Whatever the producer requests, overruns of a wrapped slab included, an owner's \<open>Release\<close> never panics: it
  returns a reachable ring in which the handle has one owner less and the oldest slot, if there is one, is still
  referenced.\<close>

theorem Release_safe:
  assumes "ring_reach careful sz (r, own)" and "0 < own idx"
  shows "\<exists>r'. Release (Some idx) r = Inr r' \<and> ring_reach careful sz (r', own(idx := own idx - 1)) \<and> \<not> can_advance r'"
proof -
  have stop: "\<not> can_advance (advance_all q)" for q
    by (induction q rule: advance_all.induct) (subst advance_all.simps, simp)
  have "ring_reach careful sz (add_refs (- 1) idx r, own(idx := own idx - 1))"
    by (rule ring_reach.step [OF assms(1) ring_step.drop_ref [of own idx careful r, OF assms(2)]])
  from advance_all_reach [OF this] Release_owned [OF ring_reach_sys [OF assms(1)] assms(2)] stop
  show ?thesis by blast
qed

theorem Release_safe_witness:
  "\<exists>r'. Release (Some 0) two_slots = Inr r' \<and> ring_reach False 100 (r', (\<lambda>_. 0)(0 := 0, 1 := 1)) \<and> \<not> can_advance r'"
  using Release_safe [OF two_slots_reach [of False], of 0] by (simp add: fun_upd_twist)

text \<open>The region \<open>Alloc\<close> returns is \<open>n\<close> bytes of the slab, disjoint from the region of
  every handle that has an owner.\<close>

theorem Alloc_region:
  assumes "ring_reach True sz (r, own)" and "\<not> overrun n r" and "Alloc n r = (Some (lo, hi, idx), r')"
  shows "hi = lo + n \<and> 0 \<le> lo \<and> hi \<le> sz \<and>
    (\<forall>j. 0 < own j \<longrightarrow> s_end (slot_at r j) \<le> lo \<or> hi \<le> s_start (slot_at r j))"
proof -
  have ok: "ring_ok r" and c: "counts_ok (r, own)"
    using ring_reach_ok [OF assms(1)] ring_reach_sys [OF assms(1)] by (simp_all add: sys_ok_def)
  have reach: "ring_reach True sz (r', own(idx := 1))"
    using assms(2) by (intro ring_reach.step [OF assms(1) ring_step.alloc [OF _ assms(3)]]) simp
  note sl = Alloc_slots [OF ok assms(3)]
  have ok': "ring_ok r'" using ring_reach_ok [OF reach] by simp
  have "live r' ! (idx - r_head r') \<in> set (live r')" using sl(3) by (auto simp: in_use_def intro: nth_mem)
  from live_in_slab [OF ok' this] have slab: "0 \<le> lo \<and> hi \<le> sz"
    using nth_live [of r' idx] sl ring_reach_bcap [OF reach] by (auto simp: in_use_def)
  have "s_end (slot_at r j) \<le> lo \<or> hi \<le> s_start (slot_at r j)" if "0 < own j" for j
  proof -
    note j = counts_okD [OF c that]
    then have ne: "j \<noteq> idx" using sl(2) by (auto simp: in_use_def)
    have "disjoint_slots r' j idx"
      using ring_reach_disjoint [OF reach, of j idx] that ne by simp
    then show ?thesis using sl(4,5) sl(6) [OF j(1)] by (simp add: disjoint_slots_def)
  qed
  with slab sl(1) show ?thesis by blast
qed

theorem Alloc_region_witness:
  "fst (Alloc 5 two_slots) = Some (30, 35, 2) \<and>
   (s_end (slot_at two_slots 1) \<le> 30 \<or> 35 \<le> s_start (slot_at two_slots 1))"
proof -
  have "Alloc 5 two_slots = (Some (30, 35, 2), snd (Alloc 5 two_slots))"
    by (simp add: two_slots_def ring_eval)
  moreover have "\<not> overrun 5 two_slots" by (simp add: overrun_def two_slots_def ring_eval)
  ultimately show ?thesis using Alloc_region [OF two_slots_reach, of 5 30 35 2] by (metis fst_conv fun_upd_same zero_less_one)
qed

text \<open>A request that overruns a wrapped slab is granted at its start if it fits below the
  read cursor, although the slots there are in use: the region returned overlaps a slot that
  has not been recycled.\<close>

theorem Alloc_overrun:
  assumes "ring_ok r" and "overrun n r" and "0 < n" and "n \<le> readCursor r" and "0 < r_write r"
    and "r_tail r - r_head r < ringSlotCount - 1"
  shows "\<exists>i r'. Alloc n r = (Some (0, n, r_tail r + 1), r') \<and> in_use r i \<and>
           s_start (slot_at r i) = 0 \<and> 0 < s_end (slot_at r i)"
proof -
  have w: "wrapped r" using assms(1,2) by (simp add: wrapped_iff overrun_def)
  then obtain A B where AB: "live r = A @ B" "path (readCursor r) A (r_bcap r)" "path 0 B (r_write r)" "positive B"
    by (auto simp: wrapped_def)
  have "B \<noteq> []" using AB(3) assms(5) by auto
  then obtain e B' where B: "B = (0, e) # B'" using AB(3) by (cases B) auto
  let ?k = "length A"
  have k: "?k < length (live r)" "live r ! ?k = (0, e)" by (simp_all add: AB(1) B)
  let ?i = "r_head r + ?k"
  have i: "in_use r ?i" using k(1) by (simp add: in_use_def)
  with nth_live [of r ?i] k(2) AB(4) B have "s_start (slot_at r ?i) = 0" "0 < s_end (slot_at r ?i)"
    by (auto simp: in_use_def)
  moreover have "readCursor (push_slot (r_write r) (r_bcap r) 0 0 r) = readCursor r"
    using assms(6) by (intro readCursor_push assms(1)) simp
  then have "fst (Alloc n r) = Some (0, n, r_tail r + 1)"
    using assms path_le [OF AB(2)] by (auto simp: Alloc_def place_def overrun_def Let_def regionFree_def ring_ok_def)
  then have "Alloc n r = (Some (0, n, r_tail r + 1), snd (Alloc n r))" by (metis prod.collapse)
  ultimately show ?thesis using i by blast
qed

definition lapped :: ring where
  "lapped = snd (Alloc 60 (advance (add_refs (- 1) 0 (snd (Alloc 10 (snd (Alloc 80 (NewRingAlloc 100))))))))"

lemmas lapped_eval = lapped_def ring_eval add_refs_def advance_def

lemma lapped_fields:
  "r_bcap lapped = 100" "r_write lapped = 60" "r_head lapped = 1" "r_tail lapped = 4"
  "slot_at lapped (Suc 0) = \<lparr>s_start = 80, s_end = 90, s_refs = 1\<rparr>"
  "slot_at lapped 2 = \<lparr>s_start = 90, s_end = 100, s_refs = 0\<rparr>"
  "slot_at lapped 3 = \<lparr>s_start = 0, s_end = 60, s_refs = 1\<rparr>"
  by (simp_all add: lapped_eval)

lemma lapped_ok: "ring_ok lapped"
proof -
  have "live lapped = [(80, 90), (90, 100)] @ [(0, 60)]"
    by (simp add: live_def lapped_fields upt_rec numeral_2_eq_2 [symmetric] numeral_3_eq_3 [symmetric])
  then have "wrapped lapped"
    unfolding wrapped_def
    by (intro exI [of _ "[(80, 90), (90, 100)]"] exI [of _ "[(0, 60)]"])
      (simp add: lapped_fields readCursor_def)
  then show ?thesis by (simp add: ring_ok_def lapped_fields ringSlotCount_def)
qed

text \<open>The witness: of the slots 1 and 3 of \<open>lapped\<close>, both held, slot 3 is \<open>[0, 60)\<close>; the request
  for 50 bytes is granted at \<open>[0, 50)\<close>.\<close>

theorem Alloc_overrun_witness:
  "fst (Alloc 50 lapped) = Some (0, 50, 5) \<and> s_refs (slot_at lapped 3) = 1 \<and>
     s_start (slot_at lapped 3) = 0 \<and> s_end (slot_at lapped 3) = 60"
proof -
  have "overrun 50 lapped" "readCursor lapped = 80"
    by (simp_all add: overrun_def readCursor_def lapped_fields)
  then have "\<exists>i r'. Alloc 50 lapped = (Some (0, 50, r_tail lapped + 1), r') \<and> in_use lapped i \<and>
      s_start (slot_at lapped i) = 0 \<and> 0 < s_end (slot_at lapped i)"
    by (intro Alloc_overrun lapped_ok) (simp_all add: lapped_fields ringSlotCount_def)
  then show ?thesis by (auto simp: lapped_fields)
qed

text \<open>On a ring without live slots, \<open>Alloc\<close> grants a request exactly when it is positive,
  not larger than the slab and fits either behind the write cursor or in front of it: a
  fully free slab may still refuse a request that is smaller than it.\<close>

theorem Alloc_empty:
  assumes "ring_ok r" and "r_head r = r_tail r"
  shows "(fst (Alloc n r) \<noteq> None) \<longleftrightarrow> 0 < n \<and> n \<le> r_bcap r \<and> (r_write r + n \<le> r_bcap r \<or> n \<le> r_write r)"
proof -
  let ?r1 = "push_slot (r_write r) (r_bcap r) 0 0 r"
  have w: "0 \<le> r_write r" using assms(1) by (simp add: ring_ok_def)
  have "readCursor ?r1 = readCursor r"
    using assms(2) by (intro readCursor_push assms(1)) (simp add: ringSlotCount_def)
  also have rd: "readCursor r = r_write r" using assms(2) by (simp add: readCursor_def)
  finally have "fst (place n 0 ?r1) \<noteq> None \<longleftrightarrow> n \<le> r_write r" if "0 < n"
    using that w assms(2) by (auto simp: place_def Let_def regionFree_def ringSlotCount_def)
  moreover have "fst (place n (r_write r) r) \<noteq> None"
    using assms(2) rd by (auto simp: place_def Let_def regionFree_def ringSlotCount_def)
  ultimately show ?thesis using assms(2) w by (auto simp: Alloc_def ringSlotCount_def)
qed

theorem Alloc_empty_witness:
  "fst (Alloc 60 ((NewRingAlloc 100)\<lparr>r_write := 50\<rparr>)) = None"
proof -
  have "ring_ok ((NewRingAlloc 100)\<lparr>r_write := 50\<rparr>)"
    by (simp add: ring_ok_def unwrapped_def live_def readCursor_def NewRingAlloc_def)
  from Alloc_empty [OF this, of 60] have "\<not> fst (Alloc 60 ((NewRingAlloc 100)\<lparr>r_write := 50\<rparr>)) \<noteq> None"
    by (simp add: NewRingAlloc_def del: not_None_eq)
  then show ?thesis by blast
qed

text \<open>For a positive request the growing allocator returns no memory only when the ring
  has reached the growth cap or the request is larger than the cap; it panics only when
  4096 slots are in flight.\<close>

theorem G_Alloc_result:
  assumes "0 < n"
  shows "case G_Alloc n g of
      Inl e \<Rightarrow> e = Panic \<and> slotsExhausted (snd (Alloc n (current g)))
    | Inr (x, g') \<Rightarrow> (case x of Some (lo, hi, k, idx) \<Rightarrow> k = length (g_rings g') - 1
        | None \<Rightarrow> maxRingCap g \<le> r_bcap (current g) \<or> maxRingCap g < n)"
proof -
  obtain x r where A: "Alloc n (current g) = (x, r)" by force
  let ?g1 = "set_current r g"
  have len: "length (g_rings (set_current q h)) = length (butlast (g_rings h)) + 1" for q h
    by (simp add: set_current_def)
  have cur: "current ?g1 = r" "maxRingCap ?g1 = maxRingCap g" "r_bcap r = r_bcap (current g)"
    using Alloc_bcap [of n "current g"] A by (simp_all add: current_def set_current_def maxRingCap_def)
  have fresh: "current (grow n ?g1) = NewRingAlloc (calcGrowth ?g1 (r_bcap r) n)"
    by (simp add: grow_def current_def [of "_\<lparr>g_rings := _\<rparr>"] cur(1))
  have cap: "n \<le> calcGrowth ?g1 (r_bcap r) n \<or> maxRingCap g < n"
    using assms by (auto simp: calcGrowth_def Let_def cur(2))
  show ?thesis
  proof (cases x)
    case (Some y)
    with A show ?thesis by (auto simp: G_Alloc_def on_current_def len split: prod.splits)
  next
    case None
    show ?thesis
    proof (cases "n \<le> calcGrowth ?g1 (r_bcap r) n")
      case True
      from Alloc_fresh [OF assms True] obtain q where
        "Alloc n (current (grow n ?g1)) = (Some (0, n, 0), q)" by (auto simp: fresh)
      with A None cur show ?thesis by (simp add: G_Alloc_def on_current_def len grow_def)
    next
      case False
      with cap A None cur show ?thesis
        by (auto simp: G_Alloc_def on_current_def len split: prod.splits option.splits)
    qed
  qed
qed

theorem G_Alloc_result_witness:
  "case G_Alloc 60 (NewGrowingRingAlloc 50) of
      Inl e \<Rightarrow> e = Panic \<and> slotsExhausted (snd (Alloc 60 (current (NewGrowingRingAlloc 50))))
    | Inr (x, g') \<Rightarrow> (case x of Some (lo, hi, k, idx) \<Rightarrow> k = length (g_rings g') - 1
        | None \<Rightarrow> maxRingCap (NewGrowingRingAlloc 50) \<le> r_bcap (current (NewGrowingRingAlloc 50)) \<or>
                  maxRingCap (NewGrowingRingAlloc 50) < 60)"
  by (rule G_Alloc_result) simp

end
