(* ===== verification/Codec.thy ===== *)
theory Codec
  imports RingAlloc
begin

text \<open>
  The data model shared by the formats: codec identifiers, channel layouts and sample formats
  of the root package, the duration of an Opus packet (\<open>codec/opus/duration.go\<close>), and the
  reference-counted packet of \<open>codec/packet.go\<close> on top of the ring allocator.
\<close>

section \<open>codec\_type.go\<close>

type_synonym codec_type = "32 word"

definition codecTypeAudioBit :: "32 word" where
  "codecTypeAudioBit = 1"

definition codecTypeOtherBits :: nat where
  "codecTypeOtherBits = 1"

definition avCodecTypeMagic :: "32 word" where
  "avCodecTypeMagic = 233333"

definition makeAudioCodecType :: "32 word \<Rightarrow> codec_type" where
  "makeAudioCodecType base = push_bit codecTypeOtherBits base OR codecTypeAudioBit"

definition makeVideoCodecType :: "32 word \<Rightarrow> codec_type" where
  "makeVideoCodecType base = push_bit codecTypeOtherBits base"

text \<open>The declared codecs: the name \<open>String\<close> prints, and the value.\<close>

definition videoCodecs :: "(string \<times> codec_type) list" where
  "videoCodecs = map (\<lambda>(s, k). (s, makeVideoCodecType (avCodecTypeMagic + k)))
     [(''H264'', 1), (''H265'', 2), (''MJPEG'', 3), (''VP8'', 4), (''VP9'', 5), (''AV1'', 6)]"

definition audioCodecs :: "(string \<times> codec_type) list" where
  "audioCodecs = map (\<lambda>(s, k). (s, makeAudioCodecType (avCodecTypeMagic + k)))
     [(''AAC'', 1), (''PCM_MULAW'', 2), (''PCM_ALAW'', 3), (''SPEEX'', 4), (''NELLYMOSER'', 5),
      (''PCM'', 6), (''OPUS'', 7)]"

definition CodecType_String :: "codec_type \<Rightarrow> string" where
  "CodecType_String ct = (case find (\<lambda>(s, v). v = ct) (videoCodecs @ audioCodecs) of
     Some (s, _) \<Rightarrow> s | None \<Rightarrow> ''UNKNOWN'')"

definition IsAudio :: "codec_type \<Rightarrow> bool" where
  "IsAudio ct \<longleftrightarrow> ct AND codecTypeAudioBit \<noteq> 0"

definition IsVideo :: "codec_type \<Rightarrow> bool" where
  "IsVideo ct \<longleftrightarrow> ct AND codecTypeAudioBit = 0"

section \<open>channel\_layout.go\<close>

type_synonym channel_layout = "16 word"

definition ChFrontCenter :: channel_layout where "ChFrontCenter = push_bit 0 1"
definition ChFrontLeft :: channel_layout where "ChFrontLeft = push_bit 1 1"
definition ChFrontRight :: channel_layout where "ChFrontRight = push_bit 2 1"
definition ChBackCenter :: channel_layout where "ChBackCenter = push_bit 3 1"
definition ChBackLeft :: channel_layout where "ChBackLeft = push_bit 4 1"
definition ChBackRight :: channel_layout where "ChBackRight = push_bit 5 1"
definition ChSideLeft :: channel_layout where "ChSideLeft = push_bit 6 1"
definition ChSightRight :: channel_layout where "ChSightRight = push_bit 7 1"
definition ChLowFreq :: channel_layout where "ChLowFreq = push_bit 8 1"

definition ChMono :: channel_layout where "ChMono = ChFrontCenter"
definition ChStereo :: channel_layout where "ChStereo = ChFrontLeft OR ChFrontRight"

lemma clear_low_less: "w \<noteq> 0 \<Longrightarrow> unat ((w - 1) AND w) < unat (w :: 'a::len word)"
  by (metis and.commute le_less_trans unat_gt_0 unat_minus_one word_and_le1 word_le_nat_alt
      diff_less zero_less_one)

function Count :: "channel_layout \<Rightarrow> nat" where
  "Count ch = (if ch = 0 then 0 else Suc (Count ((ch - 1) AND ch)))"
  by pat_completeness auto
termination
  by (relation "measure unat") (auto intro: clear_low_less)

declare Count.simps [simp del]

section \<open>sample\_format.go\<close>

datatype sample_format = U8_fmt | S16 | S32 | FLT | DBL | U8P | S16P | S32P | FLTP | DBLP | U32_fmt | OtherFormat

fun BytesPerSample :: "sample_format \<Rightarrow> nat" where
  "BytesPerSample U8_fmt = 1"
| "BytesPerSample U8P = 1"
| "BytesPerSample S16 = 2"
| "BytesPerSample S16P = 2"
| "BytesPerSample FLT = 4"
| "BytesPerSample FLTP = 4"
| "BytesPerSample S32 = 4"
| "BytesPerSample S32P = 4"
| "BytesPerSample U32_fmt = 4"
| "BytesPerSample DBL = 8"
| "BytesPerSample DBLP = 8"
| "BytesPerSample OtherFormat = 0"

fun SampleFormat_String :: "sample_format \<Rightarrow> string" where
  "SampleFormat_String U8_fmt = ''U8''"
| "SampleFormat_String S16 = ''S16''"
| "SampleFormat_String S32 = ''S32''"
| "SampleFormat_String FLT = ''FLT''"
| "SampleFormat_String DBL = ''DBL''"
| "SampleFormat_String U8P = ''U8P''"
| "SampleFormat_String S16P = ''S16P''"
| "SampleFormat_String FLTP = ''FLTP''"
| "SampleFormat_String DBLP = ''DBLP''"
| "SampleFormat_String U32_fmt = ''U32''"
| "SampleFormat_String S32P = ''S32P''"
| "SampleFormat_String OtherFormat = ''?''"

definition IsPlanar :: "sample_format \<Rightarrow> bool" where
  "IsPlanar sf \<longleftrightarrow> sf = S16P \<or> sf = S32P \<or> sf = FLTP \<or> sf = DBLP"

section \<open>opus/duration.go\<close>

text \<open>Durations are nanoseconds.\<close>

definition Millisecond :: int where "Millisecond = 1000000"
definition Microsecond :: int where "Microsecond = 1000"

definition opusFrameTimes :: "int list" where
  "opusFrameTimes =
     concat (replicate 3 [10 * Millisecond, 20 * Millisecond, 40 * Millisecond, 60 * Millisecond]) @
     concat (replicate 2 [10 * Millisecond, 20 * Millisecond]) @
     concat (replicate 4 [2500 * Microsecond, 5 * Millisecond, 10 * Millisecond, 20 * Millisecond])"

definition frame_count :: "bytes \<Rightarrow> nat res" where
  "frame_count pkt =
     (let code = pkt ! 0 AND 0x3
      in if code = 0 then Inr 1
         else if code = 1 \<or> code = 2 then Inr 2
         else if length pkt < 2 then Inl (Error ''invalid opus packet'')
         else (let m = unat (pkt ! 1 AND 0x3F)
           in if m < 1 \<or> 48 < m then Inl (Error ''invalid opus frame count'') else Inr m))"

definition PacketDuration :: "bytes \<Rightarrow> int res" where
  "PacketDuration pkt =
     (if length pkt < 1 then Inl (Error ''empty opus packet'')
      else ebind (frame_count pkt) (\<lambda>numFr.
        Inr (int numFr * opusFrameTimes ! unat (drop_bit 3 (pkt ! 0)))))"

section \<open>packet.go\<close>

text \<open>
  The bytes of a packet are on the heap or in a region of the slab, whose contents \<open>mem\<close>
  change as regions are reused; \<open>Slot\<close> is the handle of the region.
\<close>

datatype pbuf = Heap bytes | Region int int

record 'c packet =
  Idx :: byte
  RelativeTime :: int
  Dur :: int
  InpSourceID :: string
  Buf :: pbuf
  AbsoluteTime :: int
  CodecPar :: 'c
  Slot :: "nat option"

record 'c video_packet = "'c packet" +
  IsKeyFrm :: bool

fun Data :: "(int \<Rightarrow> byte) \<Rightarrow> pbuf \<Rightarrow> bytes" where
  "Data mem (Heap b) = b"
| "Data mem (Region lo hi) = map (\<lambda>i. mem (lo + int i)) [0..<nat (hi - lo)]"

definition NewBasePacket :: "byte \<Rightarrow> int \<Rightarrow> int \<Rightarrow> string \<Rightarrow> bytes \<Rightarrow> int \<Rightarrow> 'c \<Rightarrow> 'c packet" where
  "NewBasePacket idx rel dur src b absT par = \<lparr>Idx = idx, RelativeTime = rel, Dur = dur, InpSourceID = src,
     Buf = Heap b, AbsoluteTime = absT, CodecPar = par, Slot = None\<rparr>"

definition Clone :: "(int \<Rightarrow> byte) \<Rightarrow> bool \<Rightarrow> 'c packet \<Rightarrow> ring \<Rightarrow> 'c packet \<times> ring" where
  "Clone mem copyData pkt r =
     (if copyData then (pkt\<lparr>Buf := Heap (Data mem (Buf pkt)), Slot := None\<rparr>, r)
      else (pkt, Retain (Slot pkt) r))"

definition Packet_Release :: "'c packet \<Rightarrow> ring \<Rightarrow> ring res" where
  "Packet_Release pkt r = Release (Slot pkt) r"

definition Packet_Len :: "(int \<Rightarrow> byte) \<Rightarrow> 'c packet \<Rightarrow> nat" where
  "Packet_Len mem pkt = length (Data mem (Buf pkt))"

section \<open>Shared packets\<close>

text \<open>A run of retains and releases: \<open>True\<close> adds an owner of the handle, \<open>False\<close> drops one.\<close>

fun run_owners :: "('h \<Rightarrow> 's \<Rightarrow> 's) \<Rightarrow> ('h \<Rightarrow> 's \<Rightarrow> 's res) \<Rightarrow> ('h \<times> bool) list \<Rightarrow> 's \<Rightarrow> 's res" where
  "run_owners retain release [] s = Inr s"
| "run_owners retain release ((h, up) # os) s =
     ebind (if up then Inr (retain h s) else release h s) (run_owners retain release os)"

fun balance :: "('h \<times> bool) list \<Rightarrow> ('h \<Rightarrow> nat) \<Rightarrow> ('h \<Rightarrow> nat) option" where
  "balance [] own = Some own"
| "balance ((h, up) # os) own =
     (if own h = 0 then None else balance os (own(h := if up then own h + 1 else own h - 1)))"

text \<open>
  What packets rely on of the memory that backs them: a count of owners per handle, and two
  operations that add and drop an owner.  Dropping an owner that exists never fails.
\<close>

locale refcounted =
  fixes good :: "'s \<Rightarrow> bool" and owners :: "'s \<Rightarrow> 'h \<Rightarrow> nat"
    and retain :: "'h \<Rightarrow> 's \<Rightarrow> 's" and release :: "'h \<Rightarrow> 's \<Rightarrow> 's res"
  assumes retain_law: "good s \<Longrightarrow> 0 < owners s h \<Longrightarrow>
      good (retain h s) \<and> owners (retain h s) = (owners s)(h := owners s h + 1)"
    and release_law: "good s \<Longrightarrow> 0 < owners s h \<Longrightarrow>
      \<exists>s'. release h s = Inr s' \<and> good s' \<and> owners s' = (owners s)(h := owners s h - 1)"
begin

lemma run_balance:
  assumes "good s" and "balance os (owners s) = Some own"
  shows "\<exists>s'. run_owners retain release os s = Inr s' \<and> good s' \<and> owners s' = own"
  using assms
proof (induction os arbitrary: s)
  case (Cons a os)
  obtain h up where a: "a = (h, up)" by force
  from Cons.prems a have pos: "0 < owners s h" by (auto split: if_splits)
  show ?case
  proof (cases up)
    case True
    note law = retain_law [OF Cons.prems(1) pos]
    have "balance os (owners (retain h s)) = Some own"
      using Cons.prems(2) a True pos law by (simp split: if_splits)
    from Cons.IH [OF conjunct1 [OF law] this] show ?thesis using a True by simp
  next
    case False
    from release_law [OF Cons.prems(1) pos] obtain t where
      t: "release h s = Inr t" "good t" "owners t = (owners s)(h := owners s h - 1)" by blast
    have "balance os (owners t) = Some own"
      using Cons.prems(2) a False pos t(3) by (simp split: if_splits)
    from Cons.IH [OF t(2) this] show ?thesis using a False t(1) by simp
  qed
qed simp

end

definition sys_retain :: "nat \<Rightarrow> ring_sys \<Rightarrow> ring_sys" where
  "sys_retain h s = (Retain (Some h) (fst s), (snd s)(h := snd s h + 1))"

definition sys_release :: "nat \<Rightarrow> ring_sys \<Rightarrow> ring_sys res" where
  "sys_release h s = ebind (Release (Some h) (fst s)) (\<lambda>r. Inr (r, (snd s)(h := snd s h - 1)))"

lemma sys_ok_advance_all: "sys_ok (r, own) \<Longrightarrow> sys_ok (advance_all r, own)"
proof (induction r rule: advance_all.induct)
  case (1 r)
  then show ?case
    using ring_step_sys [OF ring_step.advance [where careful = False and r = r and own = own]] by (subst advance_all.simps) simp
qed

lemma sys_release_law:
  assumes "sys_ok s" and "0 < snd s h"
  shows "\<exists>s'. sys_release h s = Inr s' \<and> sys_ok s' \<and> snd s' = (snd s)(h := snd s h - 1)"
proof -
  obtain r own where s: "s = (r, own)" by force
  let ?r1 = "add_refs (- 1) h r" and ?o = "own(h := own h - 1)"
  have "sys_ok (?r1, ?o)"
    using ring_step_sys [OF ring_step.drop_ref [where careful = False and own = own and idx = h and r = r]] assms by (simp add: s)
  then have "sys_ok (advance_all ?r1, ?o)" by (rule sys_ok_advance_all)
  then show ?thesis using Release_owned [of r own h] assms by (simp add: sys_release_def s)
qed

interpretation ring_rc: refcounted sys_ok snd sys_retain sys_release
proof unfold_locales
  fix s :: ring_sys and h
  assume "sys_ok s" and "0 < snd s h"
  then show "sys_ok (sys_retain h s) \<and> snd (sys_retain h s) = (snd s)(h := snd s h + 1)"
    using ring_step_sys [OF ring_step.retain [where careful = False and own = "snd s" and idx = h and r = "fst s"]] by (simp add: sys_retain_def)
  show "\<exists>s'. sys_release h s = Inr s' \<and> sys_ok s' \<and> snd s' = (snd s)(h := snd s h - 1)"
    by (rule sys_release_law) fact+
qed

text \<open>Clearing the lowest set bit, on naturals.\<close>

lemma nat_and_pred_even: "(2 * k - Suc 0) AND 2 * k = 2 * ((k - 1) AND k)" for k :: nat
proof (cases k)
  case (Suc j)
  have "(2 * j + 1) AND (2 * (j + 1)) = 2 * (j AND (j + 1))"
    by (subst and_rec) simp
  with Suc show ?thesis by simp
qed simp

lemma card_bits_Suc:
  fixes n :: nat
  shows "card {i. bit n i} = of_bool (odd n) + card {i. bit (n div 2) i}"
proof -
  have "{i. bit n i} = (if odd n then {0} else {}) \<union> Suc ` {i. bit (n div 2) i}"
  proof (rule set_eqI)
    fix i show "i \<in> {i. bit n i} \<longleftrightarrow> i \<in> (if odd n then {0} else {}) \<union> Suc ` {i. bit (n div 2) i}"
      by (cases i) (auto simp: bit_0 bit_Suc)
  qed
  moreover have "finite {i. bit (n div 2) i}"
  proof (rule finite_subset)
    show "{i. bit (n div 2) i} \<subseteq> {..n}"
    proof
      fix i assume "i \<in> {i. bit (n div 2) i}"
      then have "n div 2 div 2 ^ i \<noteq> 0" by (auto simp: bit_iff_odd dest: odd_pos)
      then have "2 ^ i \<le> n" by (metis div_less div_le_dividend le_trans not_le)
      then show "i \<in> {..n}" using less_le_trans [OF less_exp [of i]] by (simp add: less_imp_le)
    qed
  qed simp
  ultimately show ?thesis by (auto simp: card_image card_Un_disjoint)
qed

lemma card_clear_low:
  fixes n :: nat
  shows "0 < n \<Longrightarrow> Suc (card {i. bit ((n - 1) AND n) i}) = card {i. bit n i}"
proof (induction n rule: less_induct)
  case (less n)
  show ?case
  proof (cases "even n")
    case True
    then obtain k where n: "n = 2 * k" by blast
    with less.prems have k: "0 < k" "k < n" by simp_all
    have "(n - 1) AND n = 2 * ((k - 1) AND k)" using nat_and_pred_even [of k] n by simp
    with less.IH [OF k(2,1)] n show ?thesis
      using card_bits_Suc [of n] card_bits_Suc [of "2 * ((k - 1) AND k)"] by simp
  next
    case False
    then obtain k where n: "n = 2 * k + 1" by (metis oddE)
    have "2 * k AND (2 * k + 1) = 2 * k" by (subst and_rec) simp
    with n show ?thesis
      using card_bits_Suc [of n] card_bits_Suc [of "2 * k"] by simp
  qed
qed

lemma Count_card: "Count ch = card {i. bit ch i}"
proof (induction ch rule: Count.induct)
  case (1 ch)
  show ?case
  proof (cases "ch = 0")
    case True
    then show ?thesis by (simp add: Count.simps)
  next
    case False
    have bits: "{i. bit (unat w) i} = {i. bit w i}" for w :: channel_layout
      by (auto simp: bit_unsigned_iff)
    have "unat ((ch - 1) AND ch) = (unat ch - 1) AND unat ch"
      using False by (simp add: unsigned_and_eq unat_minus_one)
    then have "Suc (card {i. bit ((ch - 1) AND ch) i}) = card {i. bit ch i}"
      using card_clear_low [of "unat ch"] False bits [of ch] bits [of "(ch - 1) AND ch"]
      by (simp add: unat_gt_0)
    with 1 False show ?thesis by (subst Count.simps) simp
  qed
qed

lemma opusFrameTimes_list:
  "opusFrameTimes = [10000000, 20000000, 40000000, 60000000, 10000000, 20000000, 40000000, 60000000,
     10000000, 20000000, 40000000, 60000000, 10000000, 20000000, 10000000, 20000000,
     2500000, 5000000, 10000000, 20000000, 2500000, 5000000, 10000000, 20000000,
     2500000, 5000000, 10000000, 20000000, 2500000, 5000000, 10000000, 20000000]"
  by (simp add: opusFrameTimes_def Millisecond_def Microsecond_def eval_nat_numeral)

lemma opusFrameTimes_range: "length opusFrameTimes = 32" "\<forall>t\<in>set opusFrameTimes. 2500000 \<le> t \<and> t \<le> 60000000"
  by (simp_all add: opusFrameTimes_list)

section \<open>Properties\<close>

text \<open>Packets that share slots: any sequence of \<open>Clone(false)\<close> and \<open>Release\<close> calls in which
  each release is by an existing owner runs without a panic, and the slots end up with
  exactly the owners that are left.\<close>

theorem clones_and_releases:
  assumes "sys_ok s" and "balance os (snd s) = Some own"
  shows "\<exists>s'. run_owners sys_retain sys_release os s = Inr s' \<and> sys_ok s' \<and> snd s' = own"
  by (rule ring_rc.run_balance [OF assms])

text \<open>A clone with copied data keeps its bytes whatever is written to the slab afterwards
  and holds no slot; a clone without holds the same slot and the same bytes.\<close>

theorem Clone_data:
  "Data mem' (Buf (fst (Clone mem True pkt r))) = Data mem (Buf pkt) \<and>
   Slot (fst (Clone mem True pkt r)) = None \<and> snd (Clone mem True pkt r) = r \<and>
   Data mem (Buf (fst (Clone mem False pkt r))) = Data mem (Buf pkt) \<and>
   Slot (fst (Clone mem False pkt r)) = Slot pkt \<and> Packet_Len mem (fst (Clone mem b pkt r)) = Packet_Len mem pkt"
  by (simp add: Clone_def Packet_Len_def)

text \<open>\<open>Count\<close> is the number of channels of the layout: the bits that are set.\<close>

theorem Count_bits: "Count ch = card {i. bit ch i}"
  by (rule Count_card)

text \<open>The duration of an Opus packet is between 2.5 ms and 48 times 60 ms whenever it is
  not an error, and the frame time table covers every configuration.\<close>

theorem PacketDuration_bounds:
  assumes "PacketDuration pkt = Inr d"
  shows "2500000 \<le> d \<and> d \<le> 48 * 60000000"
proof -
  obtain n where fc: "frame_count pkt = Inr n" and d: "d = int n * opusFrameTimes ! unat (drop_bit 3 (pkt ! 0))"
    using assms by (auto simp: PacketDuration_def ebind_Inr_iff split: if_splits)
  have n: "1 \<le> n" "n \<le> 48"
    using fc by (auto simp: frame_count_def Let_def split: if_splits)
  have "unat (drop_bit 3 (pkt ! 0)) = unat (pkt ! 0) div 8"
    by (simp add: drop_bit_eq_div unat_div)
  also have "\<dots> < 32" using unsigned_less [of "pkt ! 0", where ?'a = nat] by simp
  finally have "opusFrameTimes ! unat (drop_bit 3 (pkt ! 0)) \<in> set opusFrameTimes"
    by (simp add: opusFrameTimes_range)
  with opusFrameTimes_range(2) have t: "2500000 \<le> opusFrameTimes ! unat (drop_bit 3 (pkt ! 0))"
    "opusFrameTimes ! unat (drop_bit 3 (pkt ! 0)) \<le> 60000000" by blast+
  have "1 * 2500000 \<le> d" unfolding d using n t by (intro mult_mono) simp_all
  moreover have "d \<le> 48 * 60000000" unfolding d using n t by (intro mult_mono) simp_all
  ultimately show ?thesis by simp
qed

text \<open>Every declared codec is of its kind, and no two share a value.\<close>

lemma codec_values: "distinct (map snd (videoCodecs @ audioCodecs))"
  "\<forall>(s, ct)\<in>set videoCodecs. IsVideo ct \<and> \<not> IsAudio ct"
  "\<forall>(s, ct)\<in>set audioCodecs. IsAudio ct \<and> \<not> IsVideo ct"
  by (simp_all add: videoCodecs_def audioCodecs_def IsVideo_def IsAudio_def makeVideoCodecType_def
      makeAudioCodecType_def avCodecTypeMagic_def codecTypeOtherBits_def codecTypeAudioBit_def)

theorem clones_and_releases_witness:
  "\<exists>s'. run_owners sys_retain sys_release [(0, True), (0, False), (1, True), (0, False), (1, False), (1, False)]
      (two_slots, (\<lambda>_. 0)(0 := 1, 1 := 1)) = Inr s' \<and> sys_ok s' \<and> snd s' = (\<lambda>_. 0)"
proof -
  have "sys_ok (two_slots, (\<lambda>_. 0)(0 := 1, 1 := 1))" by (rule ring_reach_sys [OF two_slots_reach])
  moreover have "balance [(0, True), (0, False), (1, True), (0, False), (1, False), (1, False)]
      (snd (two_slots, (\<lambda>_. 0)(0 := 1, 1 := 1))) = Some (\<lambda>_ :: nat. 0)"
    by (simp add: fun_eq_iff)
  ultimately show ?thesis by (rule clones_and_releases)
qed

theorem PacketDuration_bounds_witness: "2500000 \<le> (60000000 :: int) \<and> (60000000 :: int) \<le> 48 * 60000000"
  by (rule PacketDuration_bounds [of "[0x1b, 1]"])
    (simp add: PacketDuration_def frame_count_def Let_def opusFrameTimes_list)

end
