(* ===== verification/Sdp.thy ===== *)
theory Sdp
  imports GoText Codec "HOL-Library.Product_Lexorder"
begin

text \<open>
  \<open>utils/sdp\<close>: session descriptions, parsed (\<open>parser.go\<close>) and generated (\<open>generator.go\<close>).  A nil slice is an
  empty list.
\<close>

definition sdp_H264 :: codec_type where "sdp_H264 = makeVideoCodecType (avCodecTypeMagic + 1)"
definition sdp_H265 :: codec_type where "sdp_H265 = makeVideoCodecType (avCodecTypeMagic + 2)"
definition sdp_MJPEG :: codec_type where "sdp_MJPEG = makeVideoCodecType (avCodecTypeMagic + 3)"
definition sdp_AAC :: codec_type where "sdp_AAC = makeAudioCodecType (avCodecTypeMagic + 1)"
definition sdp_PCMUlaw :: codec_type where "sdp_PCMUlaw = makeAudioCodecType (avCodecTypeMagic + 2)"
definition sdp_PCMAlaw :: codec_type where "sdp_PCMAlaw = makeAudioCodecType (avCodecTypeMagic + 3)"
definition sdp_PCM :: codec_type where "sdp_PCM = makeAudioCodecType (avCodecTypeMagic + 6)"
definition sdp_OPUS :: codec_type where "sdp_OPUS = makeAudioCodecType (avCodecTypeMagic + 7)"

section \<open>parser.go\<close>

record sdp_media =
  AVType :: string
  Type :: codec_type
  FPS :: int
  TimeScale :: int
  Control :: string
  Rtpmap :: int
  ChannelCount :: int
  Config :: bytes
  SpropParameterSets :: "bytes list"
  SpropVPS :: bytes
  SpropSPS :: bytes
  SpropPPS :: bytes
  PayloadType :: int
  SizeLength :: int
  IndexLength :: int
  Width :: int
  Height :: int

definition new_media :: "string \<Rightarrow> sdp_media" where
  "new_media av = \<lparr>AVType = av, Type = 0, FPS = 0, TimeScale = 0, Control = [], Rtpmap = 0, ChannelCount = 0,
     Config = [], SpropParameterSets = [], SpropVPS = [], SpropSPS = [], SpropPPS = [], PayloadType = 0,
     SizeLength = 0, IndexLength = 0, Width = 0, Height = 0\<rparr>"

text \<open>The static payload types of RFC 3551.  A media line without a port has no \<open>fields[1]\<close>.\<close>

definition static_type :: "sdp_media \<Rightarrow> sdp_media" where
  "static_type m = (if PayloadType m = 0 then m\<lparr>Type := sdp_PCMUlaw\<rparr>
     else if PayloadType m = 8 then m\<lparr>Type := sdp_PCMAlaw\<rparr> else m)"

definition parseMediaDescription :: "string list \<Rightarrow> sdp_media option res" where
  "parseMediaDescription fs = (case fs of [] \<Rightarrow> Inr None | av # r \<Rightarrow>
     if av \<noteq> ''audio'' \<and> av \<noteq> ''video'' then Inr None
     else case r of [] \<Rightarrow> Inl Panic | f # _ \<Rightarrow>
       let mfields = Split (CHR '' '') f; m = new_media av in
       Inr (Some (static_type (if 3 \<le> length mfields then m\<lparr>PayloadType := fst (Atoi (mfields ! 2))\<rparr> else m))))"

definition codec_name :: "string \<Rightarrow> string list \<Rightarrow> sdp_media \<Rightarrow> sdp_media" where
  "codec_name key keyval m = (let k = ToUpper key in
     if k = ''MPEG4-GENERIC'' then m\<lparr>Type := sdp_AAC\<rparr>
     else if k = ''L16'' then m\<lparr>Type := sdp_PCM\<rparr>
     else if k = ''OPUS'' then (let m = m\<lparr>Type := sdp_OPUS\<rparr> in
       if 2 < length keyval \<and> snd (Atoi (keyval ! 2)) then m\<lparr>ChannelCount := fst (Atoi (keyval ! 2))\<rparr> else m)
     else if k = ''H264'' then m\<lparr>Type := sdp_H264\<rparr>
     else if k = ''JPEG'' then m\<lparr>Type := sdp_MJPEG\<rparr>
     else if k = ''H265'' \<or> k = ''HEVC'' then m\<lparr>Type := sdp_H265\<rparr>
     else if k = ''PCMA'' then m\<lparr>Type := sdp_PCMAlaw, ChannelCount := 1\<rparr>
     else if k = ''PCMU'' then m\<lparr>Type := sdp_PCMUlaw, ChannelCount := 1\<rparr>
     else if k = ''MJPEG'' then m\<lparr>Type := sdp_MJPEG\<rparr>
     else m)"

definition parseCodecType :: "string \<Rightarrow> string list \<Rightarrow> sdp_media \<Rightarrow> sdp_media" where
  "parseCodecType key keyval m = (let m = codec_name key keyval m in
     if 1 < length keyval \<and> snd (Atoi (keyval ! 1)) then m\<lparr>TimeScale := fst (Atoi (keyval ! 1))\<rparr> else m)"

definition parameter_sets :: "string \<Rightarrow> bytes list" where
  "parameter_sets val = map (\<lambda>f. fst (b64_DecodeString f)) (filter (\<lambda>f. f \<noteq> []) (Split (CHR '','') val))"

definition parseAttributeKeyValue :: "string \<Rightarrow> string \<Rightarrow> sdp_media \<Rightarrow> sdp_media" where
  "parseAttributeKeyValue key val m =
     (if key = ''config'' then m\<lparr>Config := hex_DecodeString val\<rparr>
      else if key = ''sizelength'' then m\<lparr>SizeLength := fst (Atoi val)\<rparr>
      else if key = ''indexlength'' then m\<lparr>IndexLength := fst (Atoi val)\<rparr>
      else if key = ''sprop-vps'' then (case b64_DecodeString val of (b, ok) \<Rightarrow> if ok then m\<lparr>SpropVPS := b\<rparr> else m)
      else if key = ''sprop-sps'' then (case b64_DecodeString val of (b, ok) \<Rightarrow> if ok then m\<lparr>SpropSPS := b\<rparr> else m)
      else if key = ''sprop-pps'' then (case b64_DecodeString val of (b, ok) \<Rightarrow> if ok then m\<lparr>SpropPPS := b\<rparr> else m)
      else if key = ''sprop-parameter-sets'' then m\<lparr>SpropParameterSets := SpropParameterSets m @ parameter_sets val\<rparr>
      else m)"

text \<open>The three parts of the loop over the fields of an attribute.\<close>

definition colon_part :: "string \<Rightarrow> sdp_media \<Rightarrow> sdp_media" where
  "colon_part field m = (case Split2 (CHR '':'') field of [key, val] \<Rightarrow>
       if key = ''control'' then m\<lparr>Control := val\<rparr>
       else if key = ''rtpmap'' then m\<lparr>Rtpmap := fst (Atoi val)\<rparr>
       else if key = ''x-framerate'' then m\<lparr>FPS := fst (Atoi val)\<rparr>
       else if key = ''x-dimensions'' then (case Split (CHR '','') val of
           [w, h] \<Rightarrow> m\<lparr>Width := fst (Atoi w), Height := fst (Atoi h)\<rparr> | _ \<Rightarrow> m)
       else m
     | _ \<Rightarrow> m)"

definition slash_part :: "string \<Rightarrow> sdp_media \<Rightarrow> sdp_media" where
  "slash_part field m = (let keyval = Split (CHR ''/'') field in
     if 2 \<le> length keyval then parseCodecType (keyval ! 0) keyval m else m)"

definition key_value :: "string \<Rightarrow> sdp_media \<Rightarrow> sdp_media" where
  "key_value subfield m = (case Split2 (CHR ''='') subfield of
     [key, val] \<Rightarrow> parseAttributeKeyValue (TrimSpace key) val m | _ \<Rightarrow> m)"

definition semicolon_part :: "string \<Rightarrow> sdp_media \<Rightarrow> sdp_media" where
  "semicolon_part field m = (let keyval = Split (CHR '';'') field in
     if 1 < length keyval then fold key_value keyval m else m)"

definition parseAttribute :: "string list \<Rightarrow> sdp_media \<Rightarrow> sdp_media" where
  "parseAttribute fs m = fold (\<lambda>field m. semicolon_part field (slash_part field (colon_part field m))) fs m"

text \<open>
  \<open>Parse\<close>: the address of the session, the media so far, and whether \<open>media\<close> points to the last of
  them.
\<close>

record sdp_state =
  URI :: string
  medias :: "sdp_media list"
  in_media :: bool

definition clean_line :: "string \<Rightarrow> string" where
  "clean_line line = (let line = TrimSpace line in
     if Contains line ''x-framerate'' then filter (\<lambda>c. c \<noteq> CHR '' '') line else line)"

definition update_last :: "('a \<Rightarrow> 'a) \<Rightarrow> 'a list \<Rightarrow> 'a list" where
  "update_last f xs = (if xs = [] then [] else butlast xs @ [f (last xs)])"

definition parse_line :: "string \<Rightarrow> sdp_state \<Rightarrow> sdp_state res" where
  "parse_line line s = (case Split2 (CHR ''='') (clean_line line) of
     [typ, val] \<Rightarrow> let fs = Split2 (CHR '' '') val in
       if typ = ''m'' then ebind (parseMediaDescription fs) (\<lambda>m. Inr (case m of
           Some m \<Rightarrow> s\<lparr>medias := medias s @ [m], in_media := True\<rparr> | None \<Rightarrow> s\<lparr>in_media := False\<rparr>))
       else if typ = ''u'' then Inr (s\<lparr>URI := val\<rparr>)
       else if typ = ''a'' \<and> in_media s then Inr (s\<lparr>medias := update_last (parseAttribute fs) (medias s)\<rparr>)
       else Inr s
     | _ \<Rightarrow> Inr s)"

fun parse_lines :: "string list \<Rightarrow> sdp_state \<Rightarrow> sdp_state res" where
  "parse_lines [] s = Inr s"
| "parse_lines (l # ls) s = ebind (parse_line l s) (parse_lines ls)"

definition Parse :: "string \<Rightarrow> (string \<times> sdp_media list) res" where
  "Parse content = ebind (parse_lines (Split (CHR 10) content) \<lparr>URI = [], medias = [], in_media = False\<rparr>)
     (\<lambda>s. Inr (URI s, medias s))"

section \<open>generator.go\<close>

definition sdp_isAudio :: "codec_type \<Rightarrow> bool" where
  "sdp_isAudio ct \<longleftrightarrow> ct \<in> {sdp_AAC, sdp_OPUS, sdp_PCM, sdp_PCMAlaw, sdp_PCMUlaw}"

definition sdp_isVideo :: "codec_type \<Rightarrow> bool" where
  "sdp_isVideo ct \<longleftrightarrow> ct \<in> {sdp_H264, sdp_H265, sdp_MJPEG}"

definition defaultAVType :: "codec_type \<Rightarrow> string" where
  "defaultAVType ct = (if sdp_isAudio ct then ''audio'' else if sdp_isVideo ct then ''video'' else [])"

definition rtpmapEncoding :: "codec_type \<Rightarrow> string" where
  "rtpmapEncoding ct =
     (if ct = sdp_AAC then ''MPEG4-GENERIC'' else if ct = sdp_OPUS then ''OPUS'' else if ct = sdp_PCM then ''L16''
      else if ct = sdp_PCMAlaw then ''PCMA'' else if ct = sdp_PCMUlaw then ''PCMU'' else if ct = sdp_H264 then ''H264''
      else if ct = sdp_H265 then ''H265'' else if ct = sdp_MJPEG then ''JPEG'' else [])"

definition defaultTimeScale :: "codec_type \<Rightarrow> int" where
  "defaultTimeScale ct =
     (if ct \<in> {sdp_H264, sdp_H265, sdp_MJPEG} then 90000 else if ct = sdp_OPUS then 48000 else if ct = sdp_AAC then 48000
      else if ct \<in> {sdp_PCM, sdp_PCMAlaw, sdp_PCMUlaw} then 8000 else 90000)"

definition defaultChannels :: "codec_type \<Rightarrow> int" where
  "defaultChannels ct = (if ct \<in> {sdp_OPUS, sdp_AAC, sdp_PCM} then 2 else 1)"

definition defaultPayloadType :: "codec_type \<Rightarrow> int" where
  "defaultPayloadType ct = (if ct = sdp_PCMUlaw then 0 else if ct = sdp_PCMAlaw then 8 else 96)"

definition or_default :: "int \<Rightarrow> int \<Rightarrow> int" where
  "or_default x d = (if x = 0 then d else x)"

text \<open>The parameter sets of an H.264 stream: those of their own fields, otherwise the first two of the list.\<close>

definition h264_sets :: "sdp_media \<Rightarrow> bytes \<times> bytes" where
  "h264_sets m = (if SpropSPS m = [] \<and> SpropPPS m = [] \<and> 2 \<le> length (SpropParameterSets m)
     then (SpropParameterSets m ! 0, SpropParameterSets m ! 1) else (SpropSPS m, SpropPPS m))"

definition fmtpLine :: "sdp_media \<Rightarrow> int \<Rightarrow> string" where
  "fmtpLine m pt =
     (if Type m = sdp_H264 then (case h264_sets m of (sps, pps) \<Rightarrow>
        if sps = [] \<or> pps = [] then []
        else Itoa pt @ '' sprop-parameter-sets='' @ b64_EncodeToString sps @ '','' @ b64_EncodeToString pps @ '';packetization-mode=1'')
      else if Type m = sdp_H265 then
        (if SpropVPS m = [] \<or> SpropSPS m = [] \<or> SpropPPS m = [] then []
         else Itoa pt @ '' sprop-vps='' @ b64_EncodeToString (SpropVPS m) @ '';sprop-sps='' @ b64_EncodeToString (SpropSPS m) @
           '';sprop-pps='' @ b64_EncodeToString (SpropPPS m))
      else if Type m = sdp_AAC then
        (if Config m = [] then []
         else Itoa pt @ '' config='' @ ToUpper (hex_EncodeToString (Config m)) @ '';sizelength='' @ Itoa (or_default (SizeLength m) 13) @
           '';indexlength='' @ Itoa (or_default (IndexLength m) 3))
      else [])"

definition media_av :: "sdp_media \<Rightarrow> string" where
  "media_av m = (let av = (if AVType m = [] then defaultAVType (Type m) else AVType m) in if av = [] then ''video'' else av)"

definition rtpmap_line :: "sdp_media \<Rightarrow> int \<Rightarrow> int \<Rightarrow> string list" where
  "rtpmap_line m pt ts = (let enc = rtpmapEncoding (Type m) in
     if enc = [] then []
     else if sdp_isAudio (Type m)
     then [''a=rtpmap:'' @ Itoa pt @ '' '' @ enc @ ''/'' @ Itoa ts @ ''/'' @ Itoa (or_default (ChannelCount m) (defaultChannels (Type m)))]
     else [''a=rtpmap:'' @ Itoa pt @ '' '' @ enc @ ''/'' @ Itoa ts])"

definition marshalMedia :: "sdp_media \<Rightarrow> string list" where
  "marshalMedia m = (let pt = or_default (PayloadType m) (defaultPayloadType (Type m)); ts = or_default (TimeScale m) (defaultTimeScale (Type m)) in
     [''m='' @ media_av m @ '' 0 RTP/AVP '' @ Itoa pt] @ rtpmap_line m pt ts @
     (if fmtpLine m pt \<noteq> [] then [''a=fmtp:'' @ fmtpLine m pt] else []) @
     (if 0 < FPS m then [''a=x-framerate:'' @ Itoa (FPS m)] else []) @
     (if 0 < Width m \<and> 0 < Height m then [''a=x-dimensions:'' @ Itoa (Width m) @ '','' @ Itoa (Height m)] else []) @
     (if Control m \<noteq> [] then [''a=control:'' @ Control m] else []))"

definition av_priority :: "string \<Rightarrow> nat" where
  "av_priority av = (if av = ''video'' then 0 else if av = ''audio'' then 1 else 2)"

definition sorted_medias :: "sdp_media list \<Rightarrow> sdp_media list" where
  "sorted_medias ms = sort_key (\<lambda>m. (av_priority (AVType m), PayloadType m)) ms"

definition crlf :: string where "crlf = [CHR 13, CHR 10]"

definition sdp_lines :: "string \<Rightarrow> sdp_media list \<Rightarrow> string list" where
  "sdp_lines uri ms = [''v=0'', ''o=- 0 0 IN IP4 127.0.0.1'', ''s=gomedia'', ''t=0 0''] @ (if uri \<noteq> [] then [''u='' @ uri] else []) @
     [''a=control:*''] @ concat (map marshalMedia (sorted_medias ms))"

definition Generate :: "string \<Rightarrow> sdp_media list \<Rightarrow> string" where
  "Generate uri ms = concat (map (\<lambda>l. l @ crlf) (sdp_lines uri ms))"

end
