(* ===== verification/SdpRound.thy ===== *)
theory SdpRound
  imports Sdp
begin

text \<open>
  What \<open>Parse\<close> makes of a description that \<open>Generate\<close> wrote.
\<close>

section \<open>Lines\<close>

lemma not_graphic: "\<not> graphic (CHR '' '')" "\<not> graphic (CHR 10)"
  by (simp_all add: graphic_def)

lemma Itoa_no_char [text_simps]: "0 \<le> i \<Longrightarrow> \<not> digit c \<Longrightarrow> c \<notin> set (Itoa i)"
  using Itoa_digits by blast

lemma Itoa_separators [simp]:
  assumes "0 \<le> i"
  shows "CHR '' '' \<notin> set (Itoa i)" "CHR '':'' \<notin> set (Itoa i)" "CHR ''/'' \<notin> set (Itoa i)" "CHR '';'' \<notin> set (Itoa i)"
    "CHR '','' \<notin> set (Itoa i)" "CHR ''-'' \<notin> set (Itoa i)" "CHR ''x'' \<notin> set (Itoa i)" "CHR ''='' \<notin> set (Itoa i)" "CHR 10 \<notin> set (Itoa i)"
  using assms by (auto dest!: Itoa_digits simp: digit_def)

lemma b64_no_char: "c \<in> set '',;-:'' \<union> {CHR '' ''} \<or> new_line c \<Longrightarrow> c \<notin> set (b64_EncodeToString b)"
  using b64_encode_chars [of c b] b64_alphabet_char [of c] by (auto simp: new_line_def graphic_def)

lemma b64_separators [simp]:
  "CHR '' '' \<notin> set (b64_EncodeToString b)" "CHR '':'' \<notin> set (b64_EncodeToString b)" "CHR '';'' \<notin> set (b64_EncodeToString b)"
  "CHR '','' \<notin> set (b64_EncodeToString b)" "CHR ''-'' \<notin> set (b64_EncodeToString b)" "CHR 10 \<notin> set (b64_EncodeToString b)"
  by (rule b64_no_char, simp add: new_line_def)+

text \<open>Whether an x stands before a dash, as in \<open>x-framerate\<close>.\<close>

fun x_dash :: "string \<Rightarrow> bool" where
  "x_dash (c # d # s) \<longleftrightarrow> c = CHR ''x'' \<and> d = CHR ''-'' \<or> x_dash (d # s)"
| "x_dash s \<longleftrightarrow> False"

lemma x_dash_Cons [simp]: "c \<noteq> CHR ''x'' \<Longrightarrow> x_dash (c # s) \<longleftrightarrow> x_dash s"
  by (cases s) auto

lemma x_dash_suffix: "x_dash s \<Longrightarrow> x_dash (p @ s)"
proof (induction p)
  case (Cons c p)
  then show ?case by (cases "p @ s") auto
qed simp

lemma framerate_x_dash: "Contains l ''x-framerate'' \<Longrightarrow> x_dash l"
  by (auto simp: Contains_iff intro!: x_dash_suffix)

lemma x_dash_append [text_simps]: "CHR ''-'' \<notin> set p \<Longrightarrow> q \<noteq> [] \<Longrightarrow> hd q \<noteq> CHR ''-'' \<Longrightarrow> x_dash (p @ q) \<longleftrightarrow> x_dash q"
proof (induction p)
  case (Cons c p)
  then show ?case by (cases p; cases q) auto
qed simp

lemma x_dash_set: "x_dash s \<Longrightarrow> CHR ''x'' \<in> set s \<and> CHR ''-'' \<in> set s"
  by (induction s rule: x_dash.induct) auto

lemma clean_cr:
  assumes "l \<noteq> []" "graphic (hd l)" "graphic (last l)" "CHR '' '' \<notin> set l \<or> \<not> x_dash l"
  shows "clean_line (l @ [CHR 13]) = l"
proof -
  have "Contains l ''x-framerate'' \<Longrightarrow> CHR '' '' \<notin> set l" using assms(4) framerate_x_dash by blast
  then have "Contains l ''x-framerate'' \<Longrightarrow> filter (\<lambda>c. c \<noteq> CHR '' '') l = l" by (auto simp: filter_id_conv)
  with TrimSpace_cr [OF assms(1-3)] show ?thesis by (simp add: clean_line_def)
qed

text \<open>What an attribute line does to the last media.\<close>

definition attribute :: "string \<Rightarrow> sdp_media \<Rightarrow> sdp_media" where
  "attribute line = parseAttribute (Split2 (CHR '' '') (drop 2 line))"

definition attribute_line :: "string \<Rightarrow> bool" where
  "attribute_line l \<longleftrightarrow> take 2 l = ''a='' \<and> graphic (last l) \<and> (CHR '' '' \<notin> set l \<or> \<not> x_dash l)"

lemma parse_attribute:
  assumes "attribute_line l" "in_media s" "medias s = ms @ [m]"
  shows "parse_line (l @ [CHR 13]) s = Inr (s\<lparr>medias := ms @ [attribute l m]\<rparr>)"
proof -
  obtain val where l: "l = ''a='' @ val" using assms(1) unfolding attribute_line_def by (metis append_take_drop_id)
  have "clean_line (l @ [CHR 13]) = l"
    using assms(1) l by (intro clean_cr) (auto simp: attribute_line_def graphic_def)
  moreover have "Split2 (CHR ''='') l = [''a'', val]" unfolding l using Split2_append [of "CHR ''=''" "''a''" val] by simp
  ultimately show ?thesis using assms(2,3) by (simp add: parse_line_def attribute_def l update_last_def)
qed

lemma parse_attributes:
  assumes "\<forall>l\<in>set ls. attribute_line l" "in_media s" "medias s = ms @ [m]"
  shows "parse_lines (map (\<lambda>l. l @ [CHR 13]) ls @ rest) s = parse_lines rest (s\<lparr>medias := ms @ [fold attribute ls m]\<rparr>)"
  using assms
proof (induction ls arbitrary: s m)
  case Nil
  then have "s\<lparr>medias := ms @ [m]\<rparr> = s" by simp
  then show ?case by simp
next
  case (Cons l ls)
  then show ?case using parse_attribute [of l s ms m] by simp
qed

section \<open>Fields\<close>

text \<open>The second of the parts between slashes is not a number, which would be taken as a clock rate.\<close>

definition no_rate :: "string \<Rightarrow> bool" where
  "no_rate field = (case Split (CHR ''/'') field of _ # y # _ \<Rightarrow> \<not> snd (Atoi y) | _ \<Rightarrow> True)"

lemma codec_name_other:
  assumes "upper_char c \<notin> set ''MLOHJP''" "c \<noteq> CHR 0xC4" "c \<noteq> CHR 0xC5"
  shows "codec_name (c # r) kv m = m"
proof -
  have "\<exists>t. ToUpper (c # r) = upper_char c # t" using assms by (cases r) auto
  with assms(1) show ?thesis by (auto simp: codec_name_def Let_def)
qed

lemma slash_part_other:
  assumes "no_rate (c # r)" "upper_char c \<notin> set ''MLOHJP''" "c \<noteq> CHR 0xC4" "c \<noteq> CHR 0xC5" "c \<noteq> CHR ''/''"
  shows "slash_part (c # r) m = m"
proof -
  obtain k ks where k: "Split (CHR ''/'') (c # r) = (c # k) # ks" using assms(5) that
    by (cases "Split (CHR ''/'') r") auto
  show ?thesis
  proof (cases ks)
    case (Cons y ys)
    with assms(1) have "\<not> snd (Atoi y)" unfolding no_rate_def k by simp
    then show ?thesis using codec_name_other [OF assms(2-4)] by (simp add: slash_part_def k Cons parseCodecType_def Let_def del: Split.simps)
  qed (simp add: slash_part_def k del: Split.simps)
qed

lemma slash_part_none: "CHR ''/'' \<notin> set field \<Longrightarrow> slash_part field m = m"
  by (simp add: slash_part_def Split_none)

lemma colon_part_none: "CHR '':'' \<notin> set field \<Longrightarrow> colon_part field m = m"
  by (simp add: colon_part_def Split2_none)

lemma semicolon_part_none: "CHR '';'' \<notin> set field \<Longrightarrow> semicolon_part field m = m"
  by (simp add: semicolon_part_def Split_none)

lemmas no_parts = slash_part_none colon_part_none semicolon_part_none

lemma colon_part_key: "CHR '':'' \<notin> set key \<Longrightarrow> colon_part (key @ CHR '':'' # val) m =
   (if key = ''control'' then m\<lparr>Control := val\<rparr>
    else if key = ''rtpmap'' then m\<lparr>Rtpmap := fst (Atoi val)\<rparr>
    else if key = ''x-framerate'' then m\<lparr>FPS := fst (Atoi val)\<rparr>
    else if key = ''x-dimensions'' then (case Split (CHR '','') val of
        [w, h] \<Rightarrow> m\<lparr>Width := fst (Atoi w), Height := fst (Atoi h)\<rparr> | _ \<Rightarrow> m)
    else m)"
  by (simp add: colon_part_def Split2_append)

section \<open>The lines of a media\<close>

lemma attribute_two: "CHR '' '' \<notin> set x \<Longrightarrow> attribute (''a='' @ x @ CHR '' '' # y) m =
    semicolon_part y (slash_part y (colon_part y (semicolon_part x (slash_part x (colon_part x m)))))"
  by (simp add: attribute_def Split2_append parseAttribute_def)

lemma attribute_one: "CHR '' '' \<notin> set x \<Longrightarrow> attribute (''a='' @ x) m = semicolon_part x (slash_part x (colon_part x m))"
  by (simp add: attribute_def Split2_none parseAttribute_def)

lemma upper_cs: "upper_char (CHR ''c'') = CHR ''C''" "upper_char (CHR ''s'') = CHR ''S''"
  by code_simp+

lemma control_line:
  assumes "\<forall>c\<in>set v. graphic c \<and> c \<noteq> CHR '';''" "no_rate (''control:'' @ v)"
  shows "attribute (''a=control:'' @ v) m = m\<lparr>Control := v\<rparr>"
proof -
  have "CHR '' '' \<notin> set v" using assms(1) not_graphic(1) by blast
  then have sp: "CHR '' '' \<notin> set (''control:'' @ v)" by simp
  have "colon_part (''control:'' @ v) m = m\<lparr>Control := v\<rparr>" using colon_part_key [of "''control''" v m] by simp
  moreover have "slash_part (''control:'' @ v) m = m" for m
    using assms(2) slash_part_other [of "CHR ''c''" "''ontrol:'' @ v" m] by (simp add: upper_cs)
  moreover have "semicolon_part (''control:'' @ v) m = m" for m using assms(1) by (intro semicolon_part_none) auto
  ultimately show ?thesis using attribute_one [OF sp, of m] by simp
qed

lemma framerate_line:
  assumes "0 \<le> n" "n < 2 ^ 63"
  shows "attribute (''a=x-framerate:'' @ Itoa n) m = m\<lparr>FPS := n\<rparr>"
proof -
  have "colon_part (''x-framerate:'' @ Itoa n) m = m\<lparr>FPS := n\<rparr>"
    using colon_part_key [of "''x-framerate''" "Itoa n" m] assms by (simp add: Atoi_Itoa)
  moreover have "slash_part (''x-framerate:'' @ Itoa n) m = m" "semicolon_part (''x-framerate:'' @ Itoa n) m = m" for m
    using assms by (auto intro!: no_parts)
  ultimately show ?thesis using attribute_one [of "''x-framerate:'' @ Itoa n" m] assms by simp
qed

lemma dimensions_line:
  assumes "0 \<le> w" "w < 2 ^ 63" "0 \<le> h" "h < 2 ^ 63"
  shows "attribute (''a=x-dimensions:'' @ Itoa w @ '','' @ Itoa h) m = m\<lparr>Width := w, Height := h\<rparr>"
proof -
  let ?x = "''x-dimensions:'' @ Itoa w @ '','' @ Itoa h"
  have "Split (CHR '','') (Itoa w @ '','' @ Itoa h) = [Itoa w, Itoa h]"
    using assms by (simp add: Split_append Split_none)
  then have "colon_part ?x m = m\<lparr>Width := w, Height := h\<rparr>"
    using colon_part_key [of "''x-dimensions''" "Itoa w @ '','' @ Itoa h" m] assms by (simp add: Atoi_Itoa)
  moreover have "slash_part ?x m = m" "semicolon_part ?x m = m" for m
    using assms by (auto intro!: no_parts)
  ultimately show ?thesis using attribute_one [of ?x m] assms by simp
qed

definition sdp_codecs :: "codec_type set" where
  "sdp_codecs = {sdp_H264, sdp_H265, sdp_MJPEG, sdp_AAC, sdp_OPUS, sdp_PCM, sdp_PCMAlaw, sdp_PCMUlaw}"

lemma codecs_differ:
  "distinct [sdp_H264, sdp_H265, sdp_MJPEG, sdp_AAC, sdp_OPUS, sdp_PCM, sdp_PCMAlaw, sdp_PCMUlaw]"
  by code_simp

lemma codecs_differ_rev:
  "distinct [sdp_PCMUlaw, sdp_PCMAlaw, sdp_PCM, sdp_OPUS, sdp_AAC, sdp_MJPEG, sdp_H265, sdp_H264]"
  by code_simp

lemma upper_names:
  "ToUpper ''MPEG4-GENERIC'' = ''MPEG4-GENERIC''" "ToUpper ''OPUS'' = ''OPUS''" "ToUpper ''L16'' = ''L16''" "ToUpper ''PCMA'' = ''PCMA''"
  "ToUpper ''PCMU'' = ''PCMU''" "ToUpper ''H264'' = ''H264''" "ToUpper ''H265'' = ''H265''" "ToUpper ''JPEG'' = ''JPEG''"
  by code_simp+

lemma encodings:
  "rtpmapEncoding sdp_H264 = ''H264''" "rtpmapEncoding sdp_H265 = ''H265''" "rtpmapEncoding sdp_MJPEG = ''JPEG''"
  "rtpmapEncoding sdp_AAC = ''MPEG4-GENERIC''" "rtpmapEncoding sdp_OPUS = ''OPUS''" "rtpmapEncoding sdp_PCM = ''L16''"
  "rtpmapEncoding sdp_PCMAlaw = ''PCMA''" "rtpmapEncoding sdp_PCMUlaw = ''PCMU''"
  using codecs_differ codecs_differ_rev by (simp_all add: rtpmapEncoding_def)

lemma encoding_chars: "CHR ''/'' \<notin> set (rtpmapEncoding ct) \<and> CHR '':'' \<notin> set (rtpmapEncoding ct) \<and>
    CHR '';'' \<notin> set (rtpmapEncoding ct) \<and> CHR '' '' \<notin> set (rtpmapEncoding ct) \<and> CHR ''x'' \<notin> set (rtpmapEncoding ct) \<and>
    CHR 10 \<notin> set (rtpmapEncoding ct)"
  by (simp add: rtpmapEncoding_def)

text \<open>The type and the channels an encoding name stands for.\<close>

definition named_channels :: "codec_type \<Rightarrow> int \<Rightarrow> int \<Rightarrow> int" where
  "named_channels ct ch old = (if ct = sdp_OPUS then ch else if ct \<in> {sdp_PCMAlaw, sdp_PCMUlaw} then 1 else old)"

lemma codec_names:
  "codec_name ''H264'' kv m = m\<lparr>Type := sdp_H264\<rparr>" "codec_name ''H265'' kv m = m\<lparr>Type := sdp_H265\<rparr>"
  "codec_name ''JPEG'' kv m = m\<lparr>Type := sdp_MJPEG\<rparr>" "codec_name ''MPEG4-GENERIC'' kv m = m\<lparr>Type := sdp_AAC\<rparr>"
  "codec_name ''L16'' kv m = m\<lparr>Type := sdp_PCM\<rparr>" "codec_name ''PCMA'' kv m = m\<lparr>Type := sdp_PCMAlaw, ChannelCount := 1\<rparr>"
  "codec_name ''PCMU'' kv m = m\<lparr>Type := sdp_PCMUlaw, ChannelCount := 1\<rparr>"
  "2 < length kv \<Longrightarrow> Atoi (kv ! 2) = (ch, True) \<Longrightarrow> codec_name ''OPUS'' kv m = m\<lparr>Type := sdp_OPUS, ChannelCount := ch\<rparr>"
  by (simp_all add: codec_name_def upper_names Let_def del: ToUpper.simps)

lemma named_channels_simps:
  "named_channels sdp_H264 ch old = old" "named_channels sdp_H265 ch old = old" "named_channels sdp_MJPEG ch old = old"
  "named_channels sdp_AAC ch old = old" "named_channels sdp_OPUS ch old = ch" "named_channels sdp_PCM ch old = old"
  "named_channels sdp_PCMAlaw ch old = 1" "named_channels sdp_PCMUlaw ch old = 1"
  using codecs_differ codecs_differ_rev by (simp_all add: named_channels_def)

lemma codec_name_known:
  assumes "ct \<in> sdp_codecs" "2 < length kv" "Atoi (kv ! 2) = (ch, True)"
  shows "codec_name (rtpmapEncoding ct) kv m = m\<lparr>Type := ct, ChannelCount := named_channels ct ch (ChannelCount m)\<rparr>"
  using assms(1) codec_names(8) [OF assms(2,3), of m] unfolding sdp_codecs_def
  by (elim insertE emptyE) (simp_all add: encodings codec_names named_channels_simps)

lemma codec_name_video:
  assumes "ct \<in> {sdp_H264, sdp_H265, sdp_MJPEG}"
  shows "codec_name (rtpmapEncoding ct) kv m = m\<lparr>Type := ct\<rparr>"
  using assms by (elim insertE emptyE) (simp_all add: encodings codec_names)

lemma rtpmap_audio:
  assumes "ct \<in> sdp_codecs" "0 \<le> pt" "pt < 2 ^ 63" "0 \<le> ts" "ts < 2 ^ 63" "0 \<le> ch" "ch < 2 ^ 63"
  shows "attribute (''a=rtpmap:'' @ Itoa pt @ '' '' @ rtpmapEncoding ct @ ''/'' @ Itoa ts @ ''/'' @ Itoa ch) m =
    m\<lparr>Rtpmap := pt, Type := ct, ChannelCount := named_channels ct ch (ChannelCount m), TimeScale := ts\<rparr>"
proof -
  let ?x = "''rtpmap:'' @ Itoa pt" and ?y = "rtpmapEncoding ct @ ''/'' @ Itoa ts @ ''/'' @ Itoa ch"
  have "colon_part ?x m = m\<lparr>Rtpmap := pt\<rparr>" using colon_part_key [of "''rtpmap''" "Itoa pt" m] assms by (simp add: Atoi_Itoa)
  moreover have "slash_part ?x m = m" "semicolon_part ?x m = m" for m using assms by (auto intro!: no_parts)
  moreover have "colon_part ?y m = m" "semicolon_part ?y m = m" for m using assms encoding_chars [of ct] by (auto intro!: no_parts)
  moreover have "Split (CHR ''/'') ?y = [rtpmapEncoding ct, Itoa ts, Itoa ch]"
    using assms encoding_chars [of ct] by (simp add: Split_append Split_none)
  then have "slash_part ?y m = m\<lparr>Type := ct, ChannelCount := named_channels ct ch (ChannelCount m), TimeScale := ts\<rparr>" for m
    using codec_name_known [OF assms(1), of "[rtpmapEncoding ct, Itoa ts, Itoa ch]" ch m] assms
    by (simp add: slash_part_def parseCodecType_def Atoi_Itoa Let_def)
  ultimately show ?thesis using attribute_two [of ?x ?y m] assms by simp
qed

lemma rtpmap_video:
  assumes "ct \<in> {sdp_H264, sdp_H265, sdp_MJPEG}" "0 \<le> pt" "pt < 2 ^ 63" "0 \<le> ts" "ts < 2 ^ 63"
  shows "attribute (''a=rtpmap:'' @ Itoa pt @ '' '' @ rtpmapEncoding ct @ ''/'' @ Itoa ts) m = m\<lparr>Rtpmap := pt, Type := ct, TimeScale := ts\<rparr>"
proof -
  let ?x = "''rtpmap:'' @ Itoa pt" and ?y = "rtpmapEncoding ct @ ''/'' @ Itoa ts"
  have "colon_part ?x m = m\<lparr>Rtpmap := pt\<rparr>" using colon_part_key [of "''rtpmap''" "Itoa pt" m] assms by (simp add: Atoi_Itoa)
  moreover have "slash_part ?x m = m" "semicolon_part ?x m = m" for m using assms by (auto intro!: no_parts)
  moreover have "colon_part ?y m = m" "semicolon_part ?y m = m" for m using assms encoding_chars [of ct] by (auto intro!: no_parts)
  moreover have "Split (CHR ''/'') ?y = [rtpmapEncoding ct, Itoa ts]"
    using assms encoding_chars [of ct] by (simp add: Split_append Split_none)
  then have "slash_part ?y m = m\<lparr>Type := ct, TimeScale := ts\<rparr>" for m
    using codec_name_video [OF assms(1), of "[rtpmapEncoding ct, Itoa ts]" m] assms
    by (simp add: slash_part_def parseCodecType_def Atoi_Itoa Let_def)
  ultimately show ?thesis using attribute_two [of ?x ?y m] assms by simp
qed

text \<open>Format parameters.\<close>

lemma key_value_eq:
  assumes "CHR ''='' \<notin> set key" "key \<noteq> []" "graphic (hd key)" "graphic (last key)"
  shows "key_value (key @ CHR ''='' # val) m = parseAttributeKeyValue key val m"
  using assms by (simp add: key_value_def Split2_append TrimSpace_graphic)

lemma key_values:
  "key_value (''sprop-parameter-sets='' @ v) m = m\<lparr>SpropParameterSets := SpropParameterSets m @ parameter_sets v\<rparr>"
  "key_value (''packetization-mode=1'') m = m"
  "b64_DecodeString v = (b, True) \<Longrightarrow> key_value (''sprop-vps='' @ v) m = m\<lparr>SpropVPS := b\<rparr>"
  "b64_DecodeString v = (b, True) \<Longrightarrow> key_value (''sprop-sps='' @ v) m = m\<lparr>SpropSPS := b\<rparr>"
  "b64_DecodeString v = (b, True) \<Longrightarrow> key_value (''sprop-pps='' @ v) m = m\<lparr>SpropPPS := b\<rparr>"
  "key_value (''config='' @ v) m = m\<lparr>Config := hex_DecodeString v\<rparr>"
  "key_value (''sizelength='' @ v) m = m\<lparr>SizeLength := fst (Atoi v)\<rparr>"
  "key_value (''indexlength='' @ v) m = m\<lparr>IndexLength := fst (Atoi v)\<rparr>"
  using key_value_eq [of "''sprop-parameter-sets''" v m] key_value_eq [of "''packetization-mode''" "''1''" m]
    key_value_eq [of "''sprop-vps''" v m] key_value_eq [of "''sprop-sps''" v m] key_value_eq [of "''sprop-pps''" v m]
    key_value_eq [of "''config''" v m] key_value_eq [of "''sizelength''" v m] key_value_eq [of "''indexlength''" v m]
  by (simp_all add: graphic_def parseAttributeKeyValue_def)

lemma b64_nonempty: "b \<noteq> [] \<Longrightarrow> b64_EncodeToString b \<noteq> []"
  by (cases b rule: b64_EncodeToString.cases) (simp_all add: Let_def)

lemma parameter_sets_pair:
  "a \<noteq> [] \<Longrightarrow> b \<noteq> [] \<Longrightarrow> parameter_sets (b64_EncodeToString a @ '','' @ b64_EncodeToString b) = [a, b]"
  by (simp add: parameter_sets_def Split_append Split_none b64_nonempty b64_roundtrip)

text \<open>The fields of a format line: the payload type, which says nothing, and the parameters.\<close>

lemma fmtp_line:
  assumes "0 \<le> pt" "y = c # r" "no_rate y" "c \<in> {CHR ''c'', CHR ''s''}" "CHR '':'' \<notin> set y"
  shows "attribute (''a=fmtp:'' @ Itoa pt @ CHR '' '' # y) m = semicolon_part y m"
proof -
  let ?x = "''fmtp:'' @ Itoa pt"
  have "colon_part ?x m = m" using colon_part_key [of "''fmtp''" "Itoa pt" m] by simp
  moreover have "slash_part ?x m = m" "semicolon_part ?x m = m" for m using assms by (auto intro!: no_parts)
  moreover have "slash_part y m = m" for m
    unfolding assms(2) by (rule slash_part_other) (use assms(2-4) upper_cs in auto)
  ultimately show ?thesis using attribute_two [of ?x y m] assms(1) colon_part_none [OF assms(5)] by simp
qed

lemma fmtp_h264:
  assumes "0 \<le> pt" "sps \<noteq> []" "pps \<noteq> []"
    and y: "y = ''sprop-parameter-sets='' @ b64_EncodeToString sps @ '','' @ b64_EncodeToString pps @ '';packetization-mode=1''" "no_rate y"
  shows "attribute (''a=fmtp:'' @ Itoa pt @ CHR '' '' # y) m = m\<lparr>SpropParameterSets := SpropParameterSets m @ [sps, pps]\<rparr>"
proof -
  let ?p = "''sprop-parameter-sets='' @ b64_EncodeToString sps @ '','' @ b64_EncodeToString pps"
  have s: "Split (CHR '';'') y = [?p, ''packetization-mode=1'']"
    using Split_append [of "CHR '';''" ?p "''packetization-mode=1''"] by (simp add: y Split_none)
  have "semicolon_part y m = m\<lparr>SpropParameterSets := SpropParameterSets m @ [sps, pps]\<rparr>"
    using key_values(1) [of "b64_EncodeToString sps @ '','' @ b64_EncodeToString pps" m] parameter_sets_pair [OF assms(2,3)] key_values(2)
    by (simp add: semicolon_part_def s)
  then show ?thesis using fmtp_line [of pt y "CHR ''s''" _ m] assms(1) y by simp
qed

lemma fmtp_h265:
  assumes "0 \<le> pt"
    and y: "y = ''sprop-vps='' @ b64_EncodeToString vps @ '';sprop-sps='' @ b64_EncodeToString sps @ '';sprop-pps='' @ b64_EncodeToString pps" "no_rate y"
  shows "attribute (''a=fmtp:'' @ Itoa pt @ CHR '' '' # y) m = m\<lparr>SpropVPS := vps, SpropSPS := sps, SpropPPS := pps\<rparr>"
proof -
  let ?v = "''sprop-vps='' @ b64_EncodeToString vps" and ?s = "''sprop-sps='' @ b64_EncodeToString sps" and ?p = "''sprop-pps='' @ b64_EncodeToString pps"
  have s: "Split (CHR '';'') y = [?v, ?s, ?p]"
    using Split_append [of "CHR '';''" ?v "?s @ CHR '';'' # ?p"] Split_append [of "CHR '';''" ?s ?p] Split_none [of "CHR '';''" ?p] by (simp add: y)
  have "semicolon_part y m = m\<lparr>SpropVPS := vps, SpropSPS := sps, SpropPPS := pps\<rparr>"
    using key_values(3-5) [OF b64_roundtrip] by (simp add: semicolon_part_def s)
  then show ?thesis using fmtp_line [of pt y "CHR ''s''" _ m] assms(1) y by simp
qed

lemma hex_separators [simp]:
  "CHR '' '' \<notin> set (ToUpper (hex_EncodeToString b))" "CHR '':'' \<notin> set (ToUpper (hex_EncodeToString b))"
  "CHR '';'' \<notin> set (ToUpper (hex_EncodeToString b))" "CHR ''-'' \<notin> set (ToUpper (hex_EncodeToString b))"
  "CHR ''/'' \<notin> set (ToUpper (hex_EncodeToString b))" "CHR 10 \<notin> set (ToUpper (hex_EncodeToString b))"
  by (auto dest!: upper_hex_chars simp: digit_def)

lemma fmtp_aac:
  assumes "0 \<le> pt" "0 \<le> n" "n < 2 ^ 63" "0 \<le> k" "k < 2 ^ 63"
    and y: "y = ''config='' @ ToUpper (hex_EncodeToString cfg) @ '';sizelength='' @ Itoa n @ '';indexlength='' @ Itoa k"
  shows "attribute (''a=fmtp:'' @ Itoa pt @ CHR '' '' # y) m = m\<lparr>Config := cfg, SizeLength := n, IndexLength := k\<rparr>"
proof -
  let ?c = "''config='' @ ToUpper (hex_EncodeToString cfg)" and ?s = "''sizelength='' @ Itoa n" and ?i = "''indexlength='' @ Itoa k"
  have s: "Split (CHR '';'') y = [?c, ?s, ?i]"
    using Split_append [of "CHR '';''" ?c "?s @ CHR '';'' # ?i"] Split_append [of "CHR '';''" ?s ?i] Split_none [of "CHR '';''" ?i] assms(2,4)
    by (simp add: y)
  have "semicolon_part y m = m\<lparr>Config := cfg, SizeLength := n, IndexLength := k\<rparr>"
    using key_values(6) [of "ToUpper (hex_EncodeToString cfg)"] key_values(7) [of "Itoa n"] key_values(8) [of "Itoa k"] assms(2-5)
    by (simp add: semicolon_part_def s Atoi_Itoa hex_roundtrip)
  moreover have "CHR ''/'' \<notin> set y" using assms by (simp add: y)
  then have "no_rate y" by (simp add: no_rate_def Split_none)
  ultimately show ?thesis using fmtp_line [of pt y "CHR ''c''" _ m] assms by (simp add: y)
qed

section \<open>Announced media\<close>

text \<open>
  What \<open>Generate\<close> can say of a media.  The control address and the parameters may hold slashes, as base64
  does, but no number between the first two.
\<close>

definition announced_type :: "sdp_media \<Rightarrow> int" where
  "announced_type m = or_default (PayloadType m) (defaultPayloadType (Type m))"

definition announced_scale :: "sdp_media \<Rightarrow> int" where
  "announced_scale m = or_default (TimeScale m) (defaultTimeScale (Type m))"

definition announced_channels :: "sdp_media \<Rightarrow> int" where
  "announced_channels m = or_default (ChannelCount m) (defaultChannels (Type m))"

definition announceable :: "sdp_media \<Rightarrow> bool" where
  "announceable m \<longleftrightarrow> AVType m \<in> {''audio'', ''video''} \<and> Type m \<in> sdp_codecs \<and>
     0 \<le> PayloadType m \<and> PayloadType m < 2 ^ 63 \<and> 0 \<le> TimeScale m \<and> TimeScale m < 2 ^ 63 \<and>
     0 \<le> ChannelCount m \<and> ChannelCount m < 2 ^ 63 \<and> 0 \<le> SizeLength m \<and> SizeLength m < 2 ^ 63 \<and>
     0 \<le> IndexLength m \<and> IndexLength m < 2 ^ 63 \<and> FPS m < 2 ^ 63 \<and> Width m < 2 ^ 63 \<and> Height m < 2 ^ 63 \<and>
     (\<forall>c\<in>set (Control m). graphic c \<and> c \<noteq> CHR '';'') \<and> no_rate (''control:'' @ Control m) \<and> no_rate (fmtpLine m (announced_type m))"

definition h265_sets :: "sdp_media \<Rightarrow> bool" where
  "h265_sets m \<longleftrightarrow> Type m = sdp_H265 \<and> SpropVPS m \<noteq> [] \<and> SpropSPS m \<noteq> [] \<and> SpropPPS m \<noteq> []"

text \<open>The media that is read again.\<close>

definition announced :: "sdp_media \<Rightarrow> sdp_media" where
  "announced m = (new_media (AVType m))\<lparr>Type := Type m, PayloadType := announced_type m, Rtpmap := announced_type m,
     TimeScale := announced_scale m, ChannelCount := named_channels (Type m) (announced_channels m) 0,
     SpropParameterSets := (case h264_sets m of (sps, pps) \<Rightarrow> if Type m = sdp_H264 \<and> sps \<noteq> [] \<and> pps \<noteq> [] then [sps, pps] else []),
     SpropVPS := (if h265_sets m then SpropVPS m else []), SpropSPS := (if h265_sets m then SpropSPS m else []),
     SpropPPS := (if h265_sets m then SpropPPS m else []), Config := (if Type m = sdp_AAC then Config m else []),
     SizeLength := (if Type m = sdp_AAC \<and> Config m \<noteq> [] then or_default (SizeLength m) 13 else 0),
     IndexLength := (if Type m = sdp_AAC \<and> Config m \<noteq> [] then or_default (IndexLength m) 3 else 0),
     FPS := (if 0 < FPS m then FPS m else 0), Width := (if 0 < Width m \<and> 0 < Height m then Width m else 0),
     Height := (if 0 < Width m \<and> 0 < Height m then Height m else 0), Control := Control m\<rparr>"

lemma announced_bounds:
  assumes "announceable m"
  shows "0 \<le> announced_type m" "announced_type m < 2 ^ 63" "0 \<le> announced_scale m" "announced_scale m < 2 ^ 63"
    "0 \<le> announced_channels m" "announced_channels m < 2 ^ 63"
  using assms by (auto simp: announceable_def announced_type_def announced_scale_def announced_channels_def or_default_def
    defaultPayloadType_def defaultTimeScale_def defaultChannels_def)

lemma last_Itoa: "0 \<le> i \<Longrightarrow> graphic (last (Itoa i))"
  using Itoa_digits [of i "last (Itoa i)"] by (auto intro: digit_graphic)

lemma last_b64: "b \<noteq> [] \<Longrightarrow> graphic (last (b64_EncodeToString b))"
  using b64_encode_chars [of "last (b64_EncodeToString b)" b] b64_nonempty [of b] b64_alphabet_char by (auto simp: graphic_def)

lemma media_line:
  assumes "announceable m"
  shows "parse_line ((''m='' @ media_av m @ '' 0 RTP/AVP '' @ Itoa (announced_type m)) @ [CHR 13]) s =
    Inr (s\<lparr>medias := medias s @ [static_type ((new_media (AVType m))\<lparr>PayloadType := announced_type m\<rparr>)], in_media := True\<rparr>)"
proof -
  let ?pt = "announced_type m" and ?av = "AVType m"
  let ?l = "''m='' @ ?av @ '' 0 RTP/AVP '' @ Itoa ?pt"
  note b = announced_bounds [OF assms]
  have av: "?av = ''audio'' \<or> ?av = ''video''" using assms by (simp add: announceable_def)
  have "x_dash ?l \<Longrightarrow> False" using x_dash_set [of ?l] av b(1) by auto
  then have clean: "clean_line (?l @ [CHR 13]) = ?l" using last_Itoa [OF b(1)] by (intro clean_cr) (auto simp: graphic_def)
  have "CHR '' '' \<notin> set ?av" using av by auto
  then have sp: "Split2 (CHR '' '') (?av @ '' 0 RTP/AVP '' @ Itoa ?pt) = [?av, ''0 RTP/AVP '' @ Itoa ?pt]"
    using Split2_append [of "CHR '' ''" ?av "''0 RTP/AVP '' @ Itoa ?pt"] by simp
  have "Split (CHR '' '') (''0 RTP/AVP '' @ Itoa ?pt) = [''0'', ''RTP/AVP'', Itoa ?pt]"
    using Split_append [of "CHR '' ''" "''0''" "''RTP/AVP '' @ Itoa ?pt"] Split_append [of "CHR '' ''" "''RTP/AVP''" "Itoa ?pt"] b(1)
    by (simp add: Split_none)
  then have "parseMediaDescription [?av, ''0 RTP/AVP '' @ Itoa ?pt] = Inr (Some (static_type ((new_media ?av)\<lparr>PayloadType := ?pt\<rparr>)))"
    using av Atoi_Itoa [OF b(1,2)] by (auto simp: parseMediaDescription_def Let_def)
  moreover have "Split2 (CHR ''='') ?l = [''m'', ?av @ '' 0 RTP/AVP '' @ Itoa ?pt]"
    using Split2_append [of "CHR ''=''" "''m''" "?av @ '' 0 RTP/AVP '' @ Itoa ?pt"] by simp
  moreover have "media_av m = ?av" using av by (auto simp: media_av_def)
  ultimately show ?thesis using clean sp by (simp add: parse_line_def)
qed

lemma audio_codec: "ct \<in> sdp_codecs \<Longrightarrow> sdp_isAudio ct \<or> ct \<in> {sdp_H264, sdp_H265, sdp_MJPEG} \<and> \<not> sdp_isAudio ct"
  using codecs_differ codecs_differ_rev by (auto simp: sdp_codecs_def sdp_isAudio_def)

lemma encoding_not_Nil: "ct \<in> sdp_codecs \<Longrightarrow> rtpmapEncoding ct \<noteq> []"
  unfolding sdp_codecs_def by (elim insertE emptyE) (simp_all add: encodings)

lemma attribute_lineI:
  "graphic (last x) \<Longrightarrow> x \<noteq> [] \<Longrightarrow> CHR '' '' \<notin> set x \<or> \<not> x_dash (''a='' @ x) \<Longrightarrow> attribute_line (''a='' @ x)"
  by (auto simp: attribute_line_def)

lemma no_x: "CHR ''x'' \<notin> set s \<Longrightarrow> \<not> x_dash s"
  and no_dash: "CHR ''-'' \<notin> set s \<Longrightarrow> \<not> x_dash s"
  using x_dash_set by blast+

lemma rtpmap_group:
  assumes "announceable m"
  obtains l where "rtpmap_line m (announced_type m) (announced_scale m) = [l]" "attribute_line l"
    "\<And>x. attribute l x = x\<lparr>Rtpmap := announced_type m, Type := Type m,
       ChannelCount := named_channels (Type m) (announced_channels m) (ChannelCount x), TimeScale := announced_scale m\<rparr>"
proof -
  note b = announced_bounds [OF assms]
  have ct: "Type m \<in> sdp_codecs" using assms by (simp add: announceable_def)
  let ?v = "''rtpmap:'' @ Itoa (announced_type m) @ '' '' @ rtpmapEncoding (Type m) @ ''/'' @ Itoa (announced_scale m)"
  from audio_codec [OF ct] show ?thesis
  proof
    assume a: "sdp_isAudio (Type m)"
    let ?x = "?v @ ''/'' @ Itoa (announced_channels m)"
    have "attribute_line (''a='' @ ?x)"
      using b encoding_chars [of "Type m"] by (intro attribute_lineI disjI2 no_x) (auto simp: last_Itoa)
    moreover have "rtpmap_line m (announced_type m) (announced_scale m) = [''a='' @ ?x]"
      using a encoding_not_Nil [OF ct] by (simp add: rtpmap_line_def announced_channels_def)
    ultimately show ?thesis using rtpmap_audio [OF ct b] by (intro that [of "''a='' @ ?x"]) simp_all
  next
    assume v: "Type m \<in> {sdp_H264, sdp_H265, sdp_MJPEG} \<and> \<not> sdp_isAudio (Type m)"
    have "attribute_line (''a='' @ ?v)"
      using b encoding_chars [of "Type m"] by (intro attribute_lineI disjI2 no_x) (auto simp: last_Itoa)
    moreover have "rtpmap_line m (announced_type m) (announced_scale m) = [''a='' @ ?v]"
      using v encoding_not_Nil [OF ct] by (simp add: rtpmap_line_def)
    moreover have "named_channels (Type m) ch old = old" for ch old using v named_channels_simps by auto
    ultimately show ?thesis using rtpmap_video [OF conjunct1 [OF v] b(1-4)] by (intro that [of "''a='' @ ?v"]) simp_all
  qed
qed

definition with_sets :: "sdp_media \<Rightarrow> sdp_media \<Rightarrow> sdp_media" where
  "with_sets m x = x\<lparr>SpropParameterSets := SpropParameterSets (announced m), SpropVPS := SpropVPS (announced m), SpropSPS := SpropSPS (announced m),
     SpropPPS := SpropPPS (announced m), Config := Config (announced m), SizeLength := SizeLength (announced m), IndexLength := IndexLength (announced m)\<rparr>"

definition no_sets :: "sdp_media \<Rightarrow> bool" where
  "no_sets x \<longleftrightarrow> SpropParameterSets x = [] \<and> SpropVPS x = [] \<and> SpropSPS x = [] \<and> SpropPPS x = [] \<and> Config x = [] \<and> SizeLength x = 0 \<and> IndexLength x = 0"

lemma no_rate_append: "CHR ''/'' \<notin> set p \<Longrightarrow> no_rate (p @ y) = no_rate y"
proof -
  assume p: "CHR ''/'' \<notin> set p"
  obtain k ks where k: "Split (CHR ''/'') y = k # ks" by (cases "Split (CHR ''/'') y"; cases y) (auto split: if_splits list.splits)
  have "Split (CHR ''/'') (p @ y) = (p @ k) # ks" using p k by (induction p) auto
  with k show ?thesis by (simp add: no_rate_def split: list.split)
qed

text \<open>The format line, where there is one.\<close>

definition fmtp_group :: "sdp_media \<Rightarrow> string list" where
  "fmtp_group m = (if fmtpLine m (announced_type m) \<noteq> [] then [''a=fmtp:'' @ fmtpLine m (announced_type m)] else [])"

lemma fmtp_group_one:
  assumes "announceable m" "fmtpLine m (announced_type m) = Itoa (announced_type m) @ CHR '' '' # y"
    and "no_rate y \<Longrightarrow> attribute (''a=fmtp:'' @ Itoa (announced_type m) @ CHR '' '' # y) x = with_sets m x"
    and "y \<noteq> []" "graphic (last y)" "\<not> x_dash (CHR '' '' # y)"
  shows "(\<forall>l\<in>set (fmtp_group m). attribute_line l) \<and> fold attribute (fmtp_group m) x = with_sets m x"
proof -
  let ?l = "''a=fmtp:'' @ Itoa (announced_type m) @ CHR '' '' # y"
  note pt = announced_bounds(1) [OF assms(1)]
  have "no_rate ((Itoa (announced_type m) @ '' '') @ y)" using assms(1,2) by (simp add: announceable_def)
  then have "no_rate y" using no_rate_append [of "Itoa (announced_type m) @ '' ''" y] pt by simp
  then have "attribute ?l x = with_sets m x" by (rule assms(3))
  moreover have "attribute_line (''a='' @ ''fmtp:'' @ Itoa (announced_type m) @ CHR '' '' # y)"
    using assms(4-6) pt x_dash_append [of "''a=fmtp:'' @ Itoa (announced_type m)" "CHR '' '' # y"]
    by (intro attribute_lineI disjI2) simp_all
  moreover have "fmtp_group m = [?l]" by (simp add: fmtp_group_def assms(2))
  ultimately show ?thesis by simp
qed

lemma fmtp_group_h264:
  assumes "announceable m" "Type m = sdp_H264" "fmtpLine m (announced_type m) \<noteq> []" "no_sets x"
  shows "(\<forall>l\<in>set (fmtp_group m). attribute_line l) \<and> fold attribute (fmtp_group m) x = with_sets m x"
proof -
  obtain sps pps where h: "h264_sets m = (sps, pps)" by force
  have ne: "sps \<noteq> []" "pps \<noteq> []" using assms(2,3) by (auto simp: fmtpLine_def h)
  let ?y = "''sprop-parameter-sets='' @ b64_EncodeToString sps @ '','' @ b64_EncodeToString pps @ '';packetization-mode=1''"
  show ?thesis
  proof (rule fmtp_group_one [OF assms(1), of ?y])
    show "fmtpLine m (announced_type m) = Itoa (announced_type m) @ CHR '' '' # ?y" using assms(2) ne by (simp add: fmtpLine_def h)
    show "attribute (''a=fmtp:'' @ Itoa (announced_type m) @ CHR '' '' # ?y) x = with_sets m x" if "no_rate ?y"
      using fmtp_h264 [OF announced_bounds(1) [OF assms(1)] ne refl that, of x] assms(2,4) ne codecs_differ codecs_differ_rev
      by (simp add: with_sets_def announced_def h no_sets_def h265_sets_def new_media_def)
  next
    have "\<not> x_dash (b64_EncodeToString sps @ CHR '','' # b64_EncodeToString pps @ '';packetization-mode=1'')"
      by (simp add: x_dash_append)
    then show "\<not> x_dash (CHR '' '' # ?y)" by simp
  qed (simp_all add: graphic_def)
qed

lemma fmtp_group_h265:
  assumes "announceable m" "Type m = sdp_H265" "fmtpLine m (announced_type m) \<noteq> []" "no_sets x"
  shows "(\<forall>l\<in>set (fmtp_group m). attribute_line l) \<and> fold attribute (fmtp_group m) x = with_sets m x"
proof -
  have ne: "SpropVPS m \<noteq> []" "SpropSPS m \<noteq> []" "SpropPPS m \<noteq> []" and t: "Type m \<noteq> sdp_H264" "Type m \<noteq> sdp_AAC"
    using assms(2,3) codecs_differ codecs_differ_rev by (auto simp: fmtpLine_def split: if_splits)
  let ?y = "''sprop-vps='' @ b64_EncodeToString (SpropVPS m) @ '';sprop-sps='' @ b64_EncodeToString (SpropSPS m) @
    '';sprop-pps='' @ b64_EncodeToString (SpropPPS m)"
  show ?thesis
  proof (rule fmtp_group_one [OF assms(1), of ?y])
    show "fmtpLine m (announced_type m) = Itoa (announced_type m) @ CHR '' '' # ?y" using assms(2) ne t by (simp add: fmtpLine_def)
    show "attribute (''a=fmtp:'' @ Itoa (announced_type m) @ CHR '' '' # ?y) x = with_sets m x" if "no_rate ?y"
      using fmtp_h265 [OF announced_bounds(1) [OF assms(1)] refl that, of x] assms(4) ne t
      by (simp add: with_sets_def announced_def no_sets_def h265_sets_def new_media_def assms(2) split: prod.splits)
  next
    show "\<not> x_dash (CHR '' '' # ?y)"
      using no_dash [of "b64_EncodeToString (SpropPPS m)"] by (simp add: x_dash_append)
  qed (use last_b64 [OF ne(3)] b64_nonempty [OF ne(3)] in simp_all)
qed

lemma fmtp_group_aac:
  assumes "announceable m" "Type m = sdp_AAC" "fmtpLine m (announced_type m) \<noteq> []" "no_sets x"
  shows "(\<forall>l\<in>set (fmtp_group m). attribute_line l) \<and> fold attribute (fmtp_group m) x = with_sets m x"
proof -
  have ne: "Config m \<noteq> []" and t: "Type m \<noteq> sdp_H264" "Type m \<noteq> sdp_H265"
    using assms(2,3) codecs_differ codecs_differ_rev by (auto simp: fmtpLine_def split: if_splits)
  let ?n = "or_default (SizeLength m) 13" and ?k = "or_default (IndexLength m) 3"
  have b: "0 \<le> ?n" "?n < 2 ^ 63" "0 \<le> ?k" "?k < 2 ^ 63" using assms(1) by (simp_all add: announceable_def or_default_def)
  let ?y = "''config='' @ ToUpper (hex_EncodeToString (Config m)) @ '';sizelength='' @ Itoa ?n @ '';indexlength='' @ Itoa ?k"
  show ?thesis
  proof (rule fmtp_group_one [OF assms(1), of ?y])
    show "fmtpLine m (announced_type m) = Itoa (announced_type m) @ CHR '' '' # ?y" using assms(2) ne t by (simp add: fmtpLine_def)
    show "attribute (''a=fmtp:'' @ Itoa (announced_type m) @ CHR '' '' # ?y) x = with_sets m x"
      using fmtp_aac [OF announced_bounds(1) [OF assms(1)] b refl, of "Config m" x] assms(4) ne t
      by (simp add: with_sets_def announced_def no_sets_def h265_sets_def new_media_def assms(2) split: prod.splits)
  next
    show "\<not> x_dash (CHR '' '' # ?y)" using b by (intro no_dash) simp
  qed (use last_Itoa [OF b(3)] in simp_all)
qed

lemma fmtp_group_none:
  assumes "fmtpLine m pt = []" "no_sets x"
  shows "with_sets m x = x"
proof -
  obtain sps pps where h: "h264_sets m = (sps, pps)" by force
  have p: "\<not> (Type m = sdp_H264 \<and> sps \<noteq> [] \<and> pps \<noteq> [])" using assms(1) by (auto simp: fmtpLine_def h split: if_splits)
  have q: "\<not> h265_sets m" using assms(1) codecs_differ codecs_differ_rev by (auto simp: fmtpLine_def h265_sets_def split: if_splits)
  have r: "Config m = []" if t: "Type m = sdp_AAC"
  proof (rule ccontr)
    have n: "sdp_AAC \<noteq> sdp_H264" "sdp_AAC \<noteq> sdp_H265" using codecs_differ codecs_differ_rev by simp_all
    assume "Config m \<noteq> []"
    with assms(1) show False by (simp add: fmtpLine_def t n)
  qed
  have "SpropParameterSets (announced m) = []" using p by (auto simp: announced_def h)
  moreover have "SpropVPS (announced m) = []" "SpropSPS (announced m) = []" "SpropPPS (announced m) = []"
    using q by (simp_all add: announced_def)
  moreover have "Config (announced m) = []" using r by (simp add: announced_def)
  moreover have "\<not> (Type m = sdp_AAC \<and> Config m \<noteq> [])" using r by blast
  then have "SizeLength (announced m) = 0" "IndexLength (announced m) = 0" by (auto simp: announced_def)
  ultimately show ?thesis using assms(2) by (cases x) (simp add: with_sets_def no_sets_def)
qed

lemma fmtp_group_lines:
  assumes "announceable m" "no_sets x"
  shows "(\<forall>l\<in>set (fmtp_group m). attribute_line l) \<and> fold attribute (fmtp_group m) x = with_sets m x"
proof (cases "fmtpLine m (announced_type m) = []")
  case True
  then show ?thesis using fmtp_group_none [OF True assms(2)] by (simp add: fmtp_group_def)
next
  case False
  then consider "Type m = sdp_H264" | "Type m = sdp_H265" | "Type m = sdp_AAC" by (auto simp: fmtpLine_def split: if_splits)
  then show ?thesis using fmtp_group_h264 fmtp_group_h265 fmtp_group_aac assms False by cases blast+
qed

text \<open>The lines behind it.\<close>

definition last_group :: "sdp_media \<Rightarrow> string list" where
  "last_group m = (if 0 < FPS m then [''a=x-framerate:'' @ Itoa (FPS m)] else []) @
     (if 0 < Width m \<and> 0 < Height m then [''a=x-dimensions:'' @ Itoa (Width m) @ '','' @ Itoa (Height m)] else []) @
     (if Control m \<noteq> [] then [''a=control:'' @ Control m] else [])"

lemma graphic_no_blank: "\<forall>c\<in>set v. graphic c \<and> P c \<Longrightarrow> CHR '' '' \<notin> set v"
  using not_graphic by blast

lemma last_group_lines:
  assumes "announceable m"
  shows "\<forall>l\<in>set (last_group m). attribute_line l"
    and "FPS x = 0 \<Longrightarrow> Width x = 0 \<Longrightarrow> Height x = 0 \<Longrightarrow> Control x = [] \<Longrightarrow>
      fold attribute (last_group m) x = x\<lparr>FPS := FPS (announced m), Width := Width (announced m), Height := Height (announced m), Control := Control m\<rparr>"
proof -
  have c: "\<forall>c\<in>set (Control m). graphic c \<and> c \<noteq> CHR '';''" "no_rate (''control:'' @ Control m)"
    and n: "FPS m < 2 ^ 63" "Width m < 2 ^ 63" "Height m < 2 ^ 63"
    using assms by (simp_all add: announceable_def)
  have "attribute_line (''a='' @ ''x-framerate:'' @ Itoa (FPS m))" if "0 < FPS m"
    using that last_Itoa [of "FPS m"] by (intro attribute_lineI disjI1) simp_all
  moreover have "attribute_line (''a='' @ ''x-dimensions:'' @ Itoa (Width m) @ '','' @ Itoa (Height m))" if "0 < Width m" "0 < Height m"
    using that last_Itoa [of "Height m"] by (intro attribute_lineI disjI1) simp_all
  moreover have "attribute_line (''a='' @ ''control:'' @ Control m)" if "Control m \<noteq> []"
    using that c(1) graphic_no_blank [OF c(1)] by (intro attribute_lineI disjI1) simp_all
  ultimately show "\<forall>l\<in>set (last_group m). attribute_line l" by (auto simp: last_group_def split: if_splits)
  assume x: "FPS x = 0" "Width x = 0" "Height x = 0" "Control x = []"
  show "fold attribute (last_group m) x = x\<lparr>FPS := FPS (announced m), Width := Width (announced m), Height := Height (announced m), Control := Control m\<rparr>"
    using x n framerate_line [of "FPS m"] dimensions_line [of "Width m" "Height m"] control_line [OF c]
    by (simp add: last_group_def announced_def new_media_def)
qed

lemma marshalMedia_groups:
  "marshalMedia m = (''m='' @ media_av m @ '' 0 RTP/AVP '' @ Itoa (announced_type m)) #
     rtpmap_line m (announced_type m) (announced_scale m) @ fmtp_group m @ last_group m"
  by (simp add: marshalMedia_def fmtp_group_def last_group_def announced_type_def announced_scale_def Let_def)

text \<open>A media is read back.\<close>

lemma parse_media:
  assumes "announceable m"
  shows "parse_lines (map (\<lambda>l. l @ [CHR 13]) (marshalMedia m) @ rest) s =
    parse_lines rest (s\<lparr>in_media := True, medias := medias s @ [announced m]\<rparr>)"
proof -
  obtain l where l: "rtpmap_line m (announced_type m) (announced_scale m) = [l]" "attribute_line l"
    "\<And>x. attribute l x = x\<lparr>Rtpmap := announced_type m, Type := Type m,
       ChannelCount := named_channels (Type m) (announced_channels m) (ChannelCount x), TimeScale := announced_scale m\<rparr>"
    using rtpmap_group [OF assms] by blast
  define x where "x = static_type ((new_media (AVType m))\<lparr>PayloadType := announced_type m\<rparr>)"
  have "\<exists>t. static_type y = y\<lparr>Type := t\<rparr>" for y :: sdp_media by (cases y) (auto simp: static_type_def)
  then obtain t where t: "x = (new_media (AVType m))\<lparr>PayloadType := announced_type m, Type := t\<rparr>" unfolding x_def by blast
  let ?y = "attribute l x"
  have "no_sets ?y" by (simp add: l(3) no_sets_def t new_media_def)
  note f = fmtp_group_lines [OF assms this]
  have lines: "\<forall>k\<in>set (l # fmtp_group m @ last_group m). attribute_line k"
    using l(2) f last_group_lines(1) [OF assms] by auto
  have "fold attribute (last_group m) (with_sets m ?y) = announced m"
    using last_group_lines(2) [OF assms, of "with_sets m ?y"]
    by (simp add: with_sets_def l(3) t new_media_def) (simp add: announced_def new_media_def)
  then have "fold attribute (l # fmtp_group m @ last_group m) x = announced m" using f by simp
  with parse_attributes [OF lines, of "s\<lparr>medias := medias s @ [x], in_media := True\<rparr>" "medias s" x rest]
    media_line [OF assms, of s, folded x_def]
  show ?thesis by (simp add: marshalMedia_groups l(1))
qed

lemma parse_medias:
  "\<forall>m\<in>set ms. announceable m \<Longrightarrow> parse_lines (map (\<lambda>l. l @ [CHR 13]) (concat (map marshalMedia ms)) @ rest) s =
    parse_lines rest (s\<lparr>in_media := in_media s \<or> ms \<noteq> [], medias := medias s @ map announced ms\<rparr>)"
proof (induction ms arbitrary: s)
  case (Cons m ms)
  then show ?case using parse_media [of m "map (\<lambda>l. l @ [CHR 13]) (concat (map marshalMedia ms)) @ rest" s] by simp
qed simp

section \<open>The session\<close>

lemma Split_lines: "\<forall>l\<in>set ls. CHR 10 \<notin> set l \<Longrightarrow> Split (CHR 10) (concat (map (\<lambda>l. l @ crlf) ls)) = map (\<lambda>l. l @ [CHR 13]) ls @ [[]]"
proof (induction ls)
  case (Cons l ls)
  then show ?case using Split_append [of "CHR 10" "l @ [CHR 13]" "concat (map (\<lambda>l. l @ crlf) ls)"] by (simp add: crlf_def)
qed simp

lemma session_line:
  assumes "l = t # CHR ''='' # r" "graphic t" "graphic (last l)" "\<not> x_dash l" "t \<notin> set ''mu''" "t \<noteq> CHR ''=''" "\<not> in_media s"
  shows "parse_line (l @ [CHR 13]) s = Inr s"
proof -
  have "clean_line (l @ [CHR 13]) = l" using assms(1-4) by (intro clean_cr) auto
  moreover have "Split2 (CHR ''='') l = [[t], r]" using Split2_append [of "CHR ''=''" "[t]" r] assms(1,6) by simp
  ultimately show ?thesis using assms(5,7) by (simp add: parse_line_def)
qed

lemma session_lines:
  assumes "\<not> in_media s"
  shows "parse_line (''v=0'' @ [CHR 13]) s = Inr s" "parse_line (''o=- 0 0 IN IP4 127.0.0.1'' @ [CHR 13]) s = Inr s"
    "parse_line (''s=gomedia'' @ [CHR 13]) s = Inr s" "parse_line (''t=0 0'' @ [CHR 13]) s = Inr s"
    "parse_line (''a=control:*'' @ [CHR 13]) s = Inr s"
  by (rule session_line [OF refl]; use assms in \<open>simp add: graphic_def\<close>)+

lemma address_line:
  assumes "uri \<noteq> []" "\<forall>c\<in>set uri. graphic c"
  shows "parse_line ((''u='' @ uri) @ [CHR 13]) s = Inr (s\<lparr>URI := uri\<rparr>)"
proof -
  have "CHR '' '' \<notin> set uri" using assms(2) not_graphic by blast
  then have "clean_line ((''u='' @ uri) @ [CHR 13]) = ''u='' @ uri" using assms by (intro clean_cr) (simp_all add: graphic_def)
  moreover have "Split2 (CHR ''='') (''u='' @ uri) = [''u'', uri]" using Split2_append [of "CHR ''=''" "''u''" uri] by simp
  ultimately show ?thesis by (simp add: parse_line_def)
qed

lemma no_line_end:
  assumes "announceable m" "l \<in> set (marshalMedia m)"
  shows "CHR 10 \<notin> set l"
proof -
  note b = announced_bounds [OF assms(1)]
  have "\<forall>c\<in>set (Control m). graphic c" using assms(1) by (simp add: announceable_def)
  then have c: "CHR 10 \<notin> set (Control m)" using not_graphic(2) by blast
  have "AVType m = ''audio'' \<or> AVType m = ''video''" using assms(1) by (simp add: announceable_def)
  then have "CHR 10 \<notin> set (media_av m)" by (auto simp: media_av_def)
  moreover have "CHR 10 \<notin> set k" if "k \<in> set (rtpmap_line m (announced_type m) (announced_scale m))" for k
    using that b encoding_chars [of "Type m"] by (auto simp: rtpmap_line_def announced_channels_def Let_def split: if_splits)
  moreover have "0 \<le> or_default (SizeLength m) 13" "0 \<le> or_default (IndexLength m) 3"
    using assms(1) by (simp_all add: announceable_def or_default_def)
  then have "CHR 10 \<notin> set (fmtpLine m (announced_type m))" 
    using b(1) by (simp add: fmtpLine_def split: prod.split)
  then have "CHR 10 \<notin> set k" if "k \<in> set (fmtp_group m)" for k using that by (auto simp: fmtp_group_def split: if_splits)
  moreover have "CHR 10 \<notin> set k" if "k \<in> set (last_group m)" for k using that c by (auto simp: last_group_def split: if_splits)
  ultimately show ?thesis using assms(2) b(1) by (auto simp: marshalMedia_groups)
qed

text \<open>C2: A description is read back.  What \<open>Generate\<close> writes for a session and media that can be announced, \<open>Parse\<close>
  reads as the address of the session and the media, sorted by kind and payload type, with the type, the payload
  type, the clock rate, the parameter sets or the configuration, the frame rate, the size and the control address
  they were announced with, defaults filled in.  Channels come back for Opus and G.711 only, and the parameter sets of an H.264
  stream as the list, wherever they came from.\<close>

theorem sdp_roundtrip:
  assumes "\<forall>c\<in>set uri. graphic c" "\<forall>m\<in>set ms. announceable m"
  shows "Parse (Generate uri ms) = Inr (uri, map announced (sorted_medias ms))"
proof -
  have ms: "\<forall>m\<in>set (sorted_medias ms). announceable m" using assms(2) by (simp add: sorted_medias_def)
  have "CHR 10 \<notin> set uri" using assms(1) not_graphic by blast
  then have "\<forall>l\<in>set (sdp_lines uri ms). CHR 10 \<notin> set l" using no_line_end ms by (auto simp: sdp_lines_def)
  note s = Split_lines [OF this]
  let ?s = "\<lparr>URI = [], medias = [], in_media = False\<rparr>"
  let ?m = "map (\<lambda>l. l @ [CHR 13]) (concat (map marshalMedia (sorted_medias ms))) @ [[]]"
  have "parse_lines (map (\<lambda>l. l @ [CHR 13]) (sdp_lines uri ms) @ [[]]) ?s = parse_lines ?m (?s\<lparr>URI := uri\<rparr>)"
    using session_lines address_line [of uri] assms(1) by (cases "uri = []") (simp_all add: sdp_lines_def)
  also have "\<dots> = parse_lines [[]] (?s\<lparr>URI := uri, in_media := (sorted_medias ms \<noteq> []), medias := map announced (sorted_medias ms)\<rparr>)"
    using parse_medias [OF ms, of "[[]]" "?s\<lparr>URI := uri\<rparr>"] by simp
  also have "parse_line [] s = Inr s" for s
    by (simp add: parse_line_def clean_line_def TrimSpace_def trim_front trim_back Contains_def Index.simps HasPrefix_def Split2_def)
  then have "parse_lines [[]] (?s\<lparr>URI := uri, in_media := (sorted_medias ms \<noteq> []), medias := map announced (sorted_medias ms)\<rparr>) =
    Inr (?s\<lparr>URI := uri, in_media := (sorted_medias ms \<noteq> []), medias := map announced (sorted_medias ms)\<rparr>)" by simp
  finally show ?thesis by (simp add: Parse_def Generate_def s)
qed

text \<open>A camera with sound.\<close>

definition sdp_sound :: sdp_media where
  "sdp_sound = (new_media ''audio'')\<lparr>Type := sdp_AAC, TimeScale := 44100, PayloadType := 97, Config := [0x12, 0x10], Control := ''trackID=1''\<rparr>"

definition sdp_camera :: sdp_media where
  "sdp_camera = (new_media ''video'')\<lparr>Type := sdp_H264, FPS := 25, Width := 1920, Height := 1080, Control := ''trackID=0'',
     SpropParameterSets := [[0x67, 0x64, 0, 0x1f], [0x68, 0xee, 0x3c, 0x80]]\<rparr>"

lemma no_slash_rate: "CHR ''/'' \<notin> set s \<Longrightarrow> no_rate s"
  by (simp add: no_rate_def Split_none)

lemma sound_announceable: "announceable sdp_sound"
proof -
  have n: "sdp_AAC \<noteq> sdp_H264" "sdp_AAC \<noteq> sdp_H265" using codecs_differ codecs_differ_rev by simp_all
  have "no_rate (fmtpLine sdp_sound (announced_type sdp_sound))" "no_rate (''control:'' @ Control sdp_sound)"
    by (rule no_slash_rate, simp add: sdp_sound_def new_media_def fmtpLine_def announced_type_def or_default_def n)+
  then show ?thesis by (simp add: announceable_def sdp_sound_def sdp_codecs_def new_media_def graphic_def)
qed

lemma camera_announceable: "announceable sdp_camera"
proof -
  have "defaultPayloadType sdp_H264 = 96" using codecs_differ codecs_differ_rev by (simp add: defaultPayloadType_def)
  then have "no_rate (fmtpLine sdp_camera (announced_type sdp_camera))" "no_rate (''control:'' @ Control sdp_camera)"
    by (rule_tac [!] no_slash_rate)
      (simp_all add: sdp_camera_def new_media_def fmtpLine_def announced_type_def or_default_def h264_sets_def b64_char_def b64_alphabet_def)
  then show ?thesis by (simp add: announceable_def sdp_camera_def sdp_codecs_def new_media_def graphic_def)
qed

lemma sdp_roundtrip_witness:
  "Parse (Generate ''rtsp://a/b'' [sdp_sound, sdp_camera]) = Inr (''rtsp://a/b'', [announced sdp_camera, announced sdp_sound]) \<and>
    TimeScale (announced sdp_camera) = 90000 \<and> SpropParameterSets (announced sdp_camera) = SpropParameterSets sdp_camera"
  using sdp_roundtrip [of "''rtsp://a/b''" "[sdp_sound, sdp_camera]"] sound_announceable camera_announceable
  by (simp add: graphic_def sorted_medias_def sdp_sound_def sdp_camera_def new_media_def av_priority_def)
    (simp add: announced_def announced_scale_def or_default_def defaultTimeScale_def h264_sets_def new_media_def)

end
