(* ===== verification/Bits.thy ===== *)
theory Bits
  imports Pio
begin

text \<open>
  \<open>utils/bits\<close>: the buffered bit \<open>Reader\<close> and \<open>Writer\<close> of \<open>bits.go\<close> and the
  exp-Golomb reader of \<open>golomb_reader.go\<close>.  The \<open>io.Reader\<close> they read from is a
  \<open>bytes.Reader\<close> in all of the code: the bytes that are left.  The \<open>io.Writer\<close> is a
  \<open>bytes.Buffer\<close>: the bytes written so far; its writes never fail.
\<close>

section \<open>Reader\<close>

record breader =
  rd_R :: bytes
  rd_n :: nat
  rd_bits :: "64 word"

definition take_bits :: "nat \<Rightarrow> (breader, 64 word) op" where
  "take_bits k r =
     (let v = drop_bit (rd_n r - k) (rd_bits r)
      in (Inr v, r\<lparr>rd_bits := rd_bits r XOR push_bit (rd_n r - k) v, rd_n := rd_n r - k\<rparr>))"

definition ReadBits64 :: "nat \<Rightarrow> (breader, 64 word) op" where
  "ReadBits64 k r =
     (if rd_n r < k then
        (let want = (k - rd_n r + 7) div 8; got = min want (length (rd_R r));
             b = take got (rd_R r); r1 = r\<lparr>rd_R := drop got (rd_R r)\<rparr>
         in if 8 < want then (Inl Panic, r)
            else if rd_R r = [] then (Inl EOF, r)
            else if got < want then (Inl EOF, r1)
            else take_bits k
              (r1\<lparr>rd_bits := foldl (\<lambda>w x. push_bit 8 w OR ucast x) (rd_bits r) b,
                  rd_n := rd_n r + got * 8\<rparr>))
      else take_bits k r)"

definition ReadBits :: "nat \<Rightarrow> (breader, 64 word) op" where
  "ReadBits k = ReadBits64 k"

text \<open>
  \<open>Read\<close> fills a slice of the given length, eight bytes at a time; it returns the bytes
  stored before the first error and that error, if any.
\<close>

function Read_loop :: "nat \<Rightarrow> breader \<Rightarrow> bytes \<times> err option \<times> breader" where
  "Read_loop m r =
     (if m = 0 then ([], None, r)
      else (let want = min 8 m in
        case ReadBits64 (want * 8) r of
          (Inl e, r') \<Rightarrow> ([], Some e, r')
        | (Inr v, r') \<Rightarrow>
            (case Read_loop (m - want) r' of
               (bs, e, r'') \<Rightarrow>
                 (map (\<lambda>i. ucast (drop_bit ((want - i - 1) * 8) v)) [0..<want] @ bs, e, r''))))"
  by pat_completeness auto
termination
  by (relation "measure fst") auto

declare Read_loop.simps [simp del]

section \<open>Writer\<close>

record bwriter =
  wr_W :: bytes
  wr_n :: nat
  wr_bits :: "64 word"

definition FlushBits :: "(bwriter, unit) op" where
  "FlushBits w =
     (if 0 < wr_n w then
        (let bits = (if wr_n w mod 8 \<noteq> 0 then push_bit (8 - wr_n w mod 8) (wr_bits w) else wr_bits w);
             want = (wr_n w + 7) div 8
         in if 8 < want then (Inl Panic, w)
            else (Inr (), w\<lparr>wr_W := wr_W w @
                    map (\<lambda>i. ucast (drop_bit ((want - i - 1) * 8) bits)) [0..<want], wr_n := 0\<rparr>))
      else (Inr (), w))"

definition append_bits :: "64 word \<Rightarrow> nat \<Rightarrow> (bwriter, unit) op" where
  "append_bits bits k w =
     (Inr (), w\<lparr>wr_bits := push_bit k (wr_bits w) OR bits, wr_n := wr_n w + k\<rparr>)"

definition WriteBits64 :: "64 word \<Rightarrow> nat \<Rightarrow> (bwriter, unit) op" where
  "WriteBits64 bits k w =
     (if 64 < wr_n w + k then
        (let move = 64 - wr_n w; msk = drop_bit move bits
         in sbind FlushBits (\<lambda>_. append_bits (bits XOR push_bit move msk) (k - move))
              (w\<lparr>wr_bits := push_bit move (wr_bits w) OR msk, wr_n := 64\<rparr>))
      else append_bits bits k w)"

definition WriteBits :: "64 word \<Rightarrow> nat \<Rightarrow> (bwriter, unit) op" where
  "WriteBits bits k = WriteBits64 bits k"

fun Write :: "bytes \<Rightarrow> (bwriter, nat) op" where
  "Write [] w = (Inr 0, w)"
| "Write (x # xs) w = sbind (WriteBits64 (ucast x) 8) (\<lambda>_. sbind (Write xs) (\<lambda>n. sret (Suc n))) w"

section \<open>Golomb reader\<close>

record gbr =
  g_R :: bytes
  g_buf :: byte
  g_left :: nat

definition ReadBit :: "(gbr, 64 word) op" where
  "ReadBit r =
     (let out = (\<lambda>r. let l = g_left r - 1 in
            (Inr (ucast (drop_bit l (g_buf r)) AND 1), r\<lparr>g_left := l\<rparr>))
      in if g_left r = 0
         then (case g_R r of [] \<Rightarrow> (Inl EOF, r)
               | b # bs \<Rightarrow> out (r\<lparr>g_R := bs, g_buf := b, g_left := 8\<rparr>))
         else out r)"

text \<open>
  The three bit loops, over any bit source: \<open>or_bits\<close> places bit \<open>i\<close> of \<open>n\<close> at
  position \<open>n - i - 1\<close>, \<open>shl_bits\<close> shifts the bits in, \<open>zero_run\<close> counts the zeros
  of an exp-Golomb prefix up to 32.
\<close>

fun or_bits :: "('s, 64 word) op \<Rightarrow> nat \<Rightarrow> 64 word \<Rightarrow> ('s, 64 word) op" where
  "or_bits rb 0 res = sret res"
| "or_bits rb (Suc k) res = sbind rb (\<lambda>b. or_bits rb k (res OR push_bit k b))"

fun shl_bits :: "('s, 64 word) op \<Rightarrow> nat \<Rightarrow> 'a::len word \<Rightarrow> ('s, 'a word) op" where
  "shl_bits rb 0 res = sret res"
| "shl_bits rb (Suc k) res = sbind rb (\<lambda>t. shl_bits rb k (push_bit 1 res OR ucast t))"

function zero_run :: "('s, 64 word) op \<Rightarrow> nat \<Rightarrow> ('s, nat) op" where
  "zero_run rb i = sbind rb (\<lambda>b. if b = 0 \<and> i < 32 then zero_run rb (Suc i) else sret i)"
  by pat_completeness auto
termination
  by (relation "measure (\<lambda>(rb, i). 32 - i)") auto

declare zero_run.simps [simp del]

definition exp_golomb :: "('s, 64 word) op \<Rightarrow> ('s, 64 word) op" where
  "exp_golomb rb = sbind (zero_run rb 0) (\<lambda>i. sbind (or_bits rb i 0) (\<lambda>res.
     sret (res + (push_bit i 1 - 1))))"

definition G_ReadBits :: "nat \<Rightarrow> (gbr, 64 word) op" where
  "G_ReadBits n = or_bits ReadBit n 0"

definition G_ReadBits32 :: "nat \<Rightarrow> (gbr, 32 word) op" where
  "G_ReadBits32 n = shl_bits ReadBit n 0"

definition G_ReadBits64 :: "nat \<Rightarrow> (gbr, 64 word) op" where
  "G_ReadBits64 n = shl_bits ReadBit n 0"

definition ReadExponentialGolombCode :: "(gbr, 64 word) op" where
  "ReadExponentialGolombCode = exp_golomb ReadBit"

definition ReadSE :: "(gbr, 64 word) op" where
  "ReadSE = sbind ReadExponentialGolombCode (\<lambda>res.
     sret (if res AND 1 \<noteq> 0 then (res + 1) div 2 else (- res) div 2))"

section \<open>The bit stream of each component\<close>

definition rstream :: "breader \<Rightarrow> bool list" where
  "rstream r = wbits (rd_n r) (rd_bits r) @ byte_bits (rd_R r)"

definition rok :: "breader \<Rightarrow> bool" where
  "rok r \<longleftrightarrow> rd_n r \<le> 64 \<and> (\<forall>i<64. rd_n r \<le> i \<longrightarrow> \<not> bit (rd_bits r) i)"

definition wstream :: "bwriter \<Rightarrow> bool list" where
  "wstream w = byte_bits (wr_W w) @ wbits (wr_n w) (wr_bits w)"

definition gstream :: "gbr \<Rightarrow> bool list" where
  "gstream r = wbits (g_left r) (g_buf r) @ byte_bits (g_R r)"

definition gok :: "gbr \<Rightarrow> bool" where
  "gok r \<longleftrightarrow> g_left r \<le> 8"

text \<open>The readers as the code creates them, over a byte slice.\<close>

definition new_breader :: "bytes \<Rightarrow> breader" where
  "new_breader b = \<lparr>rd_R = b, rd_n = 0, rd_bits = 0\<rparr>"

definition new_bwriter :: bwriter where
  "new_bwriter = \<lparr>wr_W = [], wr_n = 0, wr_bits = 0\<rparr>"

definition new_gbr :: "bytes \<Rightarrow> gbr" where
  "new_gbr b = \<lparr>g_R = b, g_buf = 0, g_left = 0\<rparr>"

lemma new_streams [simp]:
  "rstream (new_breader b) = byte_bits b" "rok (new_breader b)"
  "gstream (new_gbr b) = byte_bits b" "gok (new_gbr b)"
  "wstream new_bwriter = []" "wr_n new_bwriter = 0"
  by (simp_all add: rstream_def new_breader_def rok_def gstream_def new_gbr_def gok_def
      wstream_def new_bwriter_def)

subsection \<open>The buffered reader\<close>

lemma shift_in_bytes:
  fixes w :: "64 word" and b :: bytes
  assumes "n + 8 * length b \<le> 64"
  shows "wbits (n + 8 * length b) (foldl (\<lambda>w x. push_bit 8 w OR ucast x) w b) = wbits n w @ byte_bits b"
  using assms
proof (induction b arbitrary: n w)
  case (Cons x b)
  have "wbits (n + 8) (push_bit 8 w OR ucast x) = wbits n w @ wbits 8 (ucast x :: 64 word)"
    using Cons.prems by (intro wbits_shift_or) (auto simp: bit_simps bits_simps)
  moreover have "wbits 8 (ucast x :: 64 word) = wbits 8 x"
    by (rule nth_equalityI) (auto simp: bit_simps)
  moreover have "n + 8 * length (x # b) = (n + 8) + 8 * length b" by simp
  ultimately show ?case using Cons by (simp only: foldl_Cons) simp
qed simp

lemma shift_in_high:
  fixes w :: "64 word" and b :: bytes
  assumes "\<forall>i<64. n \<le> i \<longrightarrow> \<not> bit w i"
  shows "\<forall>i<64. n + 8 * length b \<le> i \<longrightarrow> \<not> bit (foldl (\<lambda>w x. push_bit 8 w OR ucast x) w b) i"
  using assms
proof (induction b arbitrary: n w)
  case (Cons x b)
  have "\<forall>i<64. n + 8 \<le> i \<longrightarrow> \<not> bit (push_bit 8 w OR ucast x :: 64 word) i"
    using Cons.prems by (auto simp: bit_simps bit_byte_high)
  from Cons.IH [OF this] show ?case by (simp add: add.assoc)
qed simp

lemma rok_bitD: "rok r \<Longrightarrow> bit (rd_bits r) i \<Longrightarrow> i < rd_n r"
  using bit_imp_le_length [of "rd_bits r" i] by (force simp: rok_def not_less)

lemma take_bits_correct:
  assumes "rok r" and "k \<le> rd_n r"
  shows "\<exists>r'. take_bits k r = (Inr (of_bits (take k (rstream r))), r') \<and> rok r' \<and>
           rstream r' = drop k (rstream r)"
proof -
  let ?d = "rd_n r - k"
  let ?v = "drop_bit ?d (rd_bits r)"
  let ?b = "rd_bits r XOR push_bit ?d ?v"
  have bit_b: "bit ?b i \<longleftrightarrow> i < ?d \<and> bit (rd_bits r) i" for i
    by (auto simp: bit_simps dest: bit_imp_le_length)
  have "take k (rstream r) = wbits k ?v"
    using assms(2) by (simp add: rstream_def take_wbits)
  moreover have "take_bit k ?v = ?v"
    using assms by (intro bit_word_eqI) (auto simp: bit_simps dest: rok_bitD)
  ultimately have v: "of_bits (take k (rstream r)) = ?v" by simp
  have "wbits ?d ?b = wbits ?d (rd_bits r)"
    by (rule wbits_eqI) (simp add: bit_b)
  moreover have "drop k (rstream r) = wbits ?d (rd_bits r) @ byte_bits (rd_R r)"
    using assms(2) by (simp add: rstream_def drop_wbits)
  ultimately have "rstream (r\<lparr>rd_bits := ?b, rd_n := ?d\<rparr>) = drop k (rstream r)"
    by (simp add: rstream_def)
  moreover have "rok (r\<lparr>rd_bits := ?b, rd_n := ?d\<rparr>)"
    using assms(1) by (auto simp: rok_def bit_b)
  ultimately show ?thesis
    by (simp add: take_bits_def Let_def v)
qed

text \<open>The fill of the buffer that \<open>ReadBits64\<close> does when it holds too few bits.\<close>

lemma ReadBits64_correct:
  assumes "rok r" and "k \<le> length (rstream r)"
    and fits: "rd_n r < k \<Longrightarrow> rd_n r + 8 * ((k - rd_n r + 7) div 8) \<le> 64"
  shows "\<exists>r'. ReadBits64 k r = (Inr (of_bits (take k (rstream r))), r') \<and> rok r' \<and>
           rstream r' = drop k (rstream r)"
proof (cases "rd_n r < k")
  case False
  with assms show ?thesis by (simp add: ReadBits64_def take_bits_correct)
next
  case True
  define want where "want = (k - rd_n r + 7) div 8"
  have want8: "want \<le> 8" using fits True by (simp add: want_def)
  have len: "want \<le> length (rd_R r)"
    using assms(2) True by (simp add: rstream_def want_def)
  have "0 < want" using True by (simp add: want_def)
  with len have ne: "rd_R r \<noteq> []" by auto
  define b where "b = take want (rd_R r)"
  have lb: "length b = want" using len by (simp add: b_def)
  define r1 where "r1 = r\<lparr>rd_R := drop want (rd_R r),
     rd_bits := foldl (\<lambda>w x. push_bit 8 w OR ucast x) (rd_bits r) b, rd_n := rd_n r + want * 8\<rparr>"
  have fit: "rd_n r + 8 * length b \<le> 64" using fits True by (simp add: lb want_def)
  have "byte_bits (rd_R r) = byte_bits b @ byte_bits (drop want (rd_R r))"
    by (simp add: b_def flip: byte_bits_simps(3))
  moreover have "rstream r1 = wbits (rd_n r) (rd_bits r) @ byte_bits b @ byte_bits (drop want (rd_R r))"
    using shift_in_bytes [OF fit, of "rd_bits r"]
    by (simp add: rstream_def r1_def lb mult.commute)
  ultimately have st: "rstream r1 = rstream r" by (simp add: rstream_def)
  have "\<forall>i<64. rd_n r + 8 * length b \<le> i \<longrightarrow>
      \<not> bit (foldl (\<lambda>w x. push_bit 8 w OR ucast x) (rd_bits r) b) i"
    using assms(1) by (intro shift_in_high) (simp add: rok_def)
  then have ok: "rok r1" using fit by (simp add: rok_def r1_def lb mult.commute)
  have "k \<le> rd_n r1" using True by (simp add: r1_def want_def)
  from take_bits_correct [OF ok this] have "\<exists>r'. take_bits k r1 =
      (Inr (of_bits (take k (rstream r))), r') \<and> rok r' \<and> rstream r' = drop k (rstream r)"
    by (simp add: st)
  moreover have "ReadBits64 k r = take_bits k r1"
    unfolding ReadBits64_def Let_def want_def [symmetric]
    using True want8 len ne by (simp add: r1_def b_def min_absorb1)
  ultimately show ?thesis by simp
qed

subsection \<open>The writer\<close>

lemma WriteBits64_fits:
  assumes "wr_n w + k \<le> 64" and "\<And>i. k \<le> i \<Longrightarrow> \<not> bit v i"
  shows "\<exists>w'. WriteBits64 v k w = (Inr (), w') \<and> wr_n w' = wr_n w + k \<and>
           wstream w' = wstream w @ wbits k v"
  using assms by (simp add: WriteBits64_def append_bits_def wstream_def wbits_shift_or)

lemma FlushBits_stream:
  assumes "wr_n w \<le> 64"
  shows "\<exists>w'. FlushBits w = (Inr (), w') \<and> wr_n w' = 0 \<and>
           byte_bits (wr_W w') = wstream w @ replicate ((8 - wr_n w mod 8) mod 8) False"
proof (cases "wr_n w = 0")
  case True
  then show ?thesis by (simp add: FlushBits_def wstream_def)
next
  case False
  let ?n = "wr_n w" and ?W = "wr_bits w"
  define pad where "pad = (8 - ?n mod 8) mod 8"
  define want where "want = (?n + 7) div 8"
  define v where "v = push_bit pad ?W"
  have len: "8 * want = ?n + pad"
  proof (cases "?n mod 8 = 0")
    case True
    then obtain q where "?n = 8 * q" by auto
    then show ?thesis by (simp add: want_def pad_def)
  next
    case False
    define q and m where "q = ?n div 8" and "m = ?n mod 8"
    have n: "?n = 8 * q + m" and m: "0 < m" "m < 8" using False by (simp_all add: q_def m_def)
    then have "want = q + 1" by (simp add: want_def)
    moreover have "pad = 8 - m" using m by (simp add: pad_def m_def)
    ultimately show ?thesis using n m by simp
  qed
  have "want \<le> 8" using assms unfolding want_def by simp
  have "wbits (?n + pad) (push_bit pad ?W OR 0) = wbits ?n ?W @ wbits pad (0 :: 64 word)"
    using len \<open>want \<le> 8\<close> by (intro wbits_shift_or) simp_all
  moreover have "wbits pad (0 :: 64 word) = replicate pad False"
    by (rule nth_equalityI) simp_all
  ultimately have v: "wbits (8 * want) v = wbits ?n ?W @ replicate pad False"
    by (simp add: v_def len)
  have "(if ?n mod 8 \<noteq> 0 then push_bit (8 - ?n mod 8) ?W else ?W) = v"
    by (simp add: v_def pad_def)
  then have "FlushBits w = (Inr (), w\<lparr>wr_W := wr_W w @
      map (\<lambda>i. ucast (drop_bit ((want - i - 1) * 8) v)) [0..<want], wr_n := 0\<rparr>)"
    using False \<open>want \<le> 8\<close> unfolding FlushBits_def want_def [symmetric] Let_def by simp
  then show ?thesis
    using byte_bits_split_word [of want v]
    by (simp add: v wstream_def pad_def [symmetric] del: diff_diff_left)
qed

subsection \<open>Bit sources\<close>

text \<open>
  What the bit loops rely on: each read returns the next bit of the stream, or
  \<open>io.EOF\<close> when nothing is left.
\<close>

locale bit_source =
  fixes rb :: "('s, 64 word) op" and stream :: "'s \<Rightarrow> bool list" and ok :: "'s \<Rightarrow> bool"
  assumes next_bit: "ok s \<Longrightarrow> stream s = b # bs \<Longrightarrow>
      \<exists>s'. rb s = (Inr (of_bool b), s') \<and> ok s' \<and> stream s' = bs"
    and at_end: "ok s \<Longrightarrow> stream s = [] \<Longrightarrow> \<exists>s'. rb s = (Inl EOF, s')"
begin

lemma or_bits_read:
  assumes "ok s" and "stream s = bs @ rest" and "length bs \<le> 64"
  shows "\<exists>s'. or_bits rb (length bs) res s = (Inr (res OR of_bits bs), s') \<and> ok s' \<and> stream s' = rest"
  using assms
proof (induction bs arbitrary: s res)
  case (Cons b bs)
  from Cons.prems obtain t where t: "rb s = (Inr (of_bool b), t)" "ok t" "stream t = bs @ rest"
    using next_bit [of s b "bs @ rest"] by auto
  from Cons.IH [OF t(2,3), of "res OR push_bit (length bs) (of_bool b)"] Cons.prems(3)
  show ?case by (simp add: t(1) of_bits_Cons or.assoc)
qed simp

lemma shl_bits_read:
  fixes res :: "'a::len word"
  assumes "ok s" and "stream s = bs @ rest" and "length bs \<le> LENGTH('a)"
  shows "\<exists>s'. shl_bits rb (length bs) res s = (Inr (push_bit (length bs) res OR of_bits bs), s') \<and>
           ok s' \<and> stream s' = rest"
  using assms
proof (induction bs arbitrary: s res)
  case (Cons b bs)
  from Cons.prems obtain t where t: "rb s = (Inr (of_bool b), t)" "ok t" "stream t = bs @ rest"
    using next_bit [of s b "bs @ rest"] by auto
  have "ucast (of_bool b :: 64 word) = (of_bool b :: 'a word)" by (cases b) simp_all
  moreover have "push_bit (length bs) (push_bit 1 res OR of_bool b)
      = push_bit (Suc (length bs)) res OR push_bit (length bs) (of_bool b)"
    by (simp add: push_bit_or)
  ultimately show ?case
    using Cons.IH [OF t(2,3), of "push_bit 1 res OR of_bool b"] Cons.prems(3)
    by (simp add: t(1) of_bits_Cons or.assoc del: push_bit_or)
qed simp

lemma or_bits_short:
  assumes "ok s" and "length (stream s) < n"
  shows "\<exists>s'. or_bits rb n res s = (Inl EOF, s')"
  using assms
proof (induction n arbitrary: s res)
  case (Suc n)
  show ?case
  proof (cases "stream s")
    case Nil
    with at_end [OF Suc.prems(1)] show ?thesis by auto
  next
    case (Cons b bs)
    from next_bit [OF Suc.prems(1) Cons] obtain t where
      t: "rb s = (Inr (of_bool b), t)" "ok t" "stream t = bs" by blast
    with Suc Cons show ?thesis by simp
  qed
qed simp

lemma zero_run_read:
  assumes "ok s" and "stream s = replicate k False @ True # rest" and "i + k \<le> 32"
  shows "\<exists>s'. zero_run rb i s = (Inr (i + k), s') \<and> ok s' \<and> stream s' = rest"
  using assms
proof (induction k arbitrary: s i)
  case 0
  with next_bit [of s True rest] obtain t where
    "rb s = (Inr 1, t)" "ok t" "stream t = rest" by auto
  then show ?case by (subst zero_run.simps) simp
next
  case (Suc k)
  with next_bit [of s False "replicate k False @ True # rest"] obtain t where
    t: "rb s = (Inr 0, t)" "ok t" "stream t = replicate k False @ True # rest" by auto
  from Suc.IH [OF t(2,3), of "Suc i"] Suc.prems(3) t(1) show ?case
    by (subst zero_run.simps) simp
qed

lemma exp_golomb_read:
  assumes "ok s" and "stream s = replicate (length bs) False @ True # bs @ rest" and "length bs \<le> 32"
  shows "\<exists>s'. exp_golomb rb s = (Inr (of_bits bs + (push_bit (length bs) 1 - 1)), s') \<and>
           ok s' \<and> stream s' = rest"
proof -
  from zero_run_read [OF assms(1,2), of 0] assms(3) obtain t where
    t: "zero_run rb 0 s = (Inr (length bs), t)" "ok t" "stream t = bs @ rest" by auto
  from or_bits_read [OF t(2,3), of 0] assms(3) obtain u where
    "or_bits rb (length bs) 0 t = (Inr (of_bits bs), u)" "ok u" "stream u = rest" by auto
  with t(1) show ?thesis by (simp add: exp_golomb_def)
qed

end

lemma ReadBit_next:
  assumes "gok s" and "gstream s = b # bs"
  shows "\<exists>s'. ReadBit s = (Inr (of_bool b), s') \<and> gok s' \<and> gstream s' = bs"
proof -
  have out: "ucast (drop_bit l c) AND 1 = (of_bool (bit c l) :: 64 word)" for l and c :: byte
    by (rule bit_word_eqI) (auto simp: bit_simps bit_1_iff)
  show ?thesis
  proof (cases "g_left s")
    case 0
    with assms(2) obtain c cs where R: "g_R s = c # cs"
      by (cases "g_R s") (auto simp: gstream_def)
    have "wbits 8 c = bit c 7 # wbits 7 c" by (simp add: numeral_eq_Suc wbits_Suc)
    with 0 R assms show ?thesis
      by (simp add: ReadBit_def Let_def out gok_def gstream_def)
  next
    case (Suc l)
    with assms show ?thesis
      by (simp add: ReadBit_def Let_def out gok_def gstream_def wbits_Suc)
  qed
qed

lemma ReadBit_end: "gok s \<Longrightarrow> gstream s = [] \<Longrightarrow> \<exists>s'. ReadBit s = (Inl EOF, s')"
  by (cases "g_R s") (auto simp: ReadBit_def gstream_def)

interpretation golomb: bit_source ReadBit gstream gok
  using ReadBit_next ReadBit_end by unfold_locales blast+

subsection \<open>Sequences of fields\<close>

text \<open>Fields written one after another, and read one after another.\<close>

fun write_fields :: "(64 word \<times> nat) list \<Rightarrow> (bwriter, unit) op" where
  "write_fields [] = sret ()"
| "write_fields ((v, k) # fs) = sbind (WriteBits64 v k) (\<lambda>_. write_fields fs)"

fun read_fields :: "nat list \<Rightarrow> (breader, 64 word list) op" where
  "read_fields [] = sret []"
| "read_fields (k # ks) = sbind (ReadBits64 k) (\<lambda>v. sbind (read_fields ks) (\<lambda>vs. sret (v # vs)))"

definition field_bits :: "(64 word \<times> nat) list \<Rightarrow> bool list" where
  "field_bits fs = concat (map (\<lambda>(v, k). wbits k v) fs)"

lemma field_bits_simps [simp]:
  "field_bits [] = []" "field_bits ((v, k) # fs) = wbits k v @ field_bits fs"
  by (simp_all add: field_bits_def)

lemma length_field_bits: "length (field_bits fs) = sum_list (map snd fs)"
  by (induction fs) auto

definition small_field :: "64 word \<times> nat \<Rightarrow> bool" where
  "small_field f \<longleftrightarrow> snd f \<le> 57 \<and> take_bit (snd f) (fst f) = fst f"

lemma small_field_high: "small_field (v, k) \<Longrightarrow> k \<le> i \<Longrightarrow> \<not> bit v i"
  by (metis bit_take_bit_iff fst_conv leD small_field_def snd_conv)

lemma write_fields_stream:
  assumes "wr_n w + sum_list (map snd fs) \<le> 64" and "\<forall>f\<in>set fs. small_field f"
  shows "\<exists>w'. write_fields fs w = (Inr (), w') \<and> wr_n w' \<le> 64 \<and>
           wr_n w' = wr_n w + sum_list (map snd fs) \<and> wstream w' = wstream w @ field_bits fs"
  using assms
proof (induction fs arbitrary: w)
  case (Cons f fs)
  obtain v k where f: "f = (v, k)" by force
  from Cons.prems f WriteBits64_fits [of w k v] obtain u where
    u: "WriteBits64 v k w = (Inr (), u)" "wr_n u = wr_n w + k" "wstream u = wstream w @ wbits k v"
    by (auto simp: small_field_high)
  with Cons.IH [of u] Cons.prems f show ?case by (auto simp: add.assoc)
qed simp

lemma ReadBits64_left:
  assumes "ReadBits64 k r = (Inr v, r')" and "rd_n r < k"
  shows "rd_n r' = rd_n r + (k - rd_n r + 7) div 8 * 8 - k"
proof -
  define want where "want = (k - rd_n r + 7) div 8"
  from assms show ?thesis
    unfolding ReadBits64_def Let_def want_def [symmetric]
    by (cases "want \<le> length (rd_R r)") (auto simp: take_bits_def Let_def min_def split: if_splits)
qed

lemma ReadBits64_small:
  assumes "rok r" and "rd_n r < 8" and "k \<le> 57" and "rstream r = bs @ rest" and "length bs = k"
  shows "\<exists>r'. ReadBits64 k r = (Inr (of_bits bs), r') \<and> rok r' \<and> rd_n r' < 8 \<and> rstream r' = rest"
proof -
  have fits: "rd_n r + 8 * ((k - rd_n r + 7) div 8) \<le> 64" if "rd_n r < k"
  proof -
    have "8 * ((k - rd_n r + 7) div 8) \<le> k - rd_n r + 7" by simp
    with that assms(3) show ?thesis by linarith
  qed
  have "k \<le> length (rstream r)" using assms by simp
  from ReadBits64_correct [OF assms(1) this fits] assms(4,5) obtain r' where
    r': "ReadBits64 k r = (Inr (of_bits bs), r')" "rok r'" "rstream r' = rest" by auto
  have "rd_n r' < 8"
  proof (cases "rd_n r < k")
    case False
    with r'(1) assms(2) show ?thesis by (auto simp: ReadBits64_def take_bits_def Let_def)
  next
    case True
    have "8 * ((k - rd_n r + 7) div 8) \<le> k - rd_n r + 7" by simp
    with True have "rd_n r + (k - rd_n r + 7) div 8 * 8 - k < 8" by linarith
    with ReadBits64_left [OF r'(1) True] show ?thesis by simp
  qed
  with r' show ?thesis by blast
qed

lemma read_fields_stream:
  assumes "rok r" and "rd_n r < 8" and "rstream r = field_bits fs @ rest" and "\<forall>f\<in>set fs. small_field f"
  shows "\<exists>r'. read_fields (map snd fs) r = (Inr (map fst fs), r') \<and> rok r' \<and> rd_n r' < 8 \<and> rstream r' = rest"
  using assms
proof (induction fs arbitrary: r)
  case (Cons f fs)
  obtain v k where f: "f = (v, k)" by force
  with Cons.prems have v: "take_bit k v = v" "k \<le> 57" by (auto simp: small_field_def)
  from Cons.prems f v ReadBits64_small [of r k "wbits k v" "field_bits fs @ rest"] obtain t where
    t: "ReadBits64 k r = (Inr v, t)" "rok t" "rd_n t < 8" "rstream t = field_bits fs @ rest"
    by auto
  from Cons.IH [OF t(2-4)] Cons.prems(4) obtain u where
    "read_fields (map snd fs) t = (Inr (map fst fs), u)" "rok u" "rd_n u < 8" "rstream u = rest" by auto
  with t(1) f show ?case by simp
qed simp

subsection \<open>Exp-Golomb codes\<close>

text \<open>The code word of a number: the reference the reader is checked against.\<close>

fun bit_len :: "nat \<Rightarrow> nat" where
  "bit_len n = (if n < 2 then 0 else Suc (bit_len (n div 2)))"

declare bit_len.simps [simp del]

definition ue_bits :: "nat \<Rightarrow> bool list" where
  "ue_bits v = (let m = bit_len (v + 1)
     in replicate m False @ True # wbits m (word_of_nat (v + 1 - 2 ^ m) :: 64 word))"

lemma bit_len_bounds: "0 < n \<Longrightarrow> 2 ^ bit_len n \<le> n \<and> n < 2 ^ Suc (bit_len n)"
proof (induction n rule: bit_len.induct)
  case (1 n)
  show ?case
  proof (cases "n < 2")
    case True
    then have "bit_len n = 0" by (subst bit_len.simps) simp
    with True 1(2) show ?thesis by simp
  next
    case False
    then have "0 < n div 2" by auto
    from 1(1) [OF False this] have "2 ^ bit_len (n div 2) \<le> n div 2" "n div 2 < 2 * 2 ^ bit_len (n div 2)"
      by simp_all
    then have "2 * 2 ^ bit_len (n div 2) \<le> n" "n < 2 * (2 * 2 ^ bit_len (n div 2))" by linarith+
    moreover have "bit_len n = Suc (bit_len (n div 2))" using False by (subst bit_len.simps) simp
    ultimately show ?thesis by simp
  qed
qed

lemma word_of_nat_div2:
  "n < 2 ^ 64 \<Longrightarrow> (word_of_nat n :: 64 word) div 2 = word_of_nat (n div 2)"
  by (rule word_unat_eq_iff [THEN iffD2]) (simp add: unat_div unat_of_nat take_bit_nat_eq_self)

lemma word_mod_2_nat: "(word_of_nat v :: 64 word) mod 2 = 1 \<longleftrightarrow> odd v"
proof -
  have "unat ((word_of_nat v :: 64 word) mod 2) = v mod 2"
    by (simp add: unat_mod unat_of_nat mod_mod_cancel)
  then show ?thesis by (auto simp: word_unat_eq_iff odd_iff_mod_2_eq_one)
qed

context bit_source
begin

lemma exp_golomb_ue:
  assumes "ok s" and "stream s = ue_bits v @ rest" and "v < 2 ^ 33 - 1"
  shows "\<exists>s'. exp_golomb rb s = (Inr (word_of_nat v), s') \<and> ok s' \<and> stream s' = rest"
proof -
  define m where "m = bit_len (v + 1)"
  have b: "2 ^ m \<le> v + 1" "v + 1 < 2 ^ Suc m" using bit_len_bounds [of "v + 1"] by (simp_all add: m_def)
  have "(2::nat) ^ m < 2 ^ 33" using b(1) assms(3) by simp
  then have m: "m \<le> 32" using power_less_imp_less_exp [of "2::nat" m 33] by simp
  define bs where "bs = wbits m (word_of_nat (v + 1 - 2 ^ m) :: 64 word)"
  have "stream s = replicate (length bs) False @ True # bs @ rest"
    using assms(2) unfolding ue_bits_def m_def [symmetric] Let_def by (simp add: bs_def)
  from exp_golomb_read [OF assms(1) this] m obtain s' where
    s': "exp_golomb rb s = (Inr (of_bits bs + (push_bit m 1 - 1)), s')" "ok s'" "stream s' = rest"
    by (auto simp: bs_def)
  have "v + 1 - 2 ^ m < 2 ^ m" using b by simp
  then have "take_bit m (word_of_nat (v + 1 - 2 ^ m) :: 64 word) = word_of_nat (v + 1 - 2 ^ m)"
    by (simp add: take_bit_of_nat take_bit_nat_eq_self)
  then have "of_bits bs + (push_bit m 1 - 1) = (word_of_nat (v + 1 - 2 ^ m) + (2 ^ m - 1) :: 64 word)"
    by (simp add: bs_def push_bit_eq_mult)
  also have "\<dots> = word_of_nat v"
    using b(1) by (simp add: of_nat_diff)
  finally show ?thesis using s' by auto
qed

end

text \<open>
  A reader operation that consumes exactly the bits \<open>xs\<close> and returns \<open>v\<close>: syntax elements
  compose along \<open>sbind\<close>.
\<close>

definition g_reads :: "(gbr, 'a) op \<Rightarrow> bool list \<Rightarrow> 'a \<Rightarrow> bool" where
  "g_reads m xs v \<longleftrightarrow> (\<forall>s rest. gok s \<longrightarrow> gstream s = xs @ rest \<longrightarrow>
     (\<exists>s'. m s = (Inr v, s') \<and> gok s' \<and> gstream s' = rest))"

lemma g_readsD:
  "g_reads m xs v \<Longrightarrow> gok s \<Longrightarrow> gstream s = xs @ rest \<Longrightarrow> \<exists>s'. m s = (Inr v, s') \<and> gok s' \<and> gstream s' = rest"
  by (simp add: g_reads_def)

lemma g_reads_bind:
  assumes "g_reads m xs v" and "g_reads (f v) ys w"
  shows "g_reads (sbind m f) (xs @ ys) w"
  unfolding g_reads_def
proof (intro allI impI)
  fix s rest assume "gok s" and "gstream s = (xs @ ys) @ rest"
  with g_readsD [OF assms(1), of s "ys @ rest"] obtain t where
    t: "m s = (Inr v, t)" "gok t" "gstream t = ys @ rest" by auto
  from g_readsD [OF assms(2) t(2,3)] obtain u where
    "f v t = (Inr w, u)" "gok u" "gstream u = rest" by blast
  with t(1) show "\<exists>s'. sbind m f s = (Inr w, s') \<and> gok s' \<and> gstream s' = rest" by simp
qed

lemma g_reads_sret: "g_reads (sret v) [] v"
  by (simp add: g_reads_def)

lemma g_reads_bit: "g_reads ReadBit [b] (of_bool b)"
  by (auto simp: g_reads_def dest: ReadBit_next)

lemma g_reads_ue: "n < 2 ^ 33 - 1 \<Longrightarrow> g_reads ReadExponentialGolombCode (ue_bits n) (word_of_nat n)"
  by (auto simp: g_reads_def ReadExponentialGolombCode_def dest: golomb.exp_golomb_ue)

lemma g_reads_byte: "g_reads (G_ReadBits 8) (wbits 8 (x :: byte)) (ucast x)"
proof -
  have "of_bits (wbits 8 x) = (ucast x :: 64 word)"
  proof (rule bit_word_eqI)
    fix n assume "n < LENGTH(64)"
    then show "bit (of_bits (wbits 8 x) :: 64 word) n = bit (ucast x :: 64 word) n"
      by (cases "n < 8") (auto simp: bits_simps bit_simps)
  qed
  then show ?thesis
    using golomb.or_bits_read [where bs = "wbits 8 x" and res = 0] by (auto simp: g_reads_def G_ReadBits_def)
qed

section \<open>Properties\<close>

text \<open>Fields of at most 57 bits written by \<open>WriteBits64\<close>, 64 bits in all, and then
  flushed by \<open>FlushBits\<close> are read back by the same sequence of \<open>ReadBits64\<close> calls on
  the bytes written; what is left is the zero padding of the last byte.\<close>

theorem write_read_fields:
  assumes "sum_list (map snd fs) \<le> 64" and "\<forall>f\<in>set fs. small_field f"
  shows "\<exists>w r pad. sbind (write_fields fs) (\<lambda>_. FlushBits) new_bwriter = (Inr (), w) \<and>
           read_fields (map snd fs) (new_breader (wr_W w)) = (Inr (map fst fs), r) \<and>
           rstream r = replicate pad False \<and> pad < 8"
proof -
  from write_fields_stream [of new_bwriter fs] assms obtain u where
    u: "write_fields fs new_bwriter = (Inr (), u)" "wr_n u \<le> 64" "wstream u = field_bits fs" by auto
  define pad where "pad = (8 - wr_n u mod 8) mod 8"
  have pad: "pad < 8" by (simp add: pad_def)
  from FlushBits_stream [OF u(2)] obtain w where
    w: "FlushBits u = (Inr (), w)" "byte_bits (wr_W w) = field_bits fs @ replicate pad False"
    unfolding u(3) pad_def [symmetric] by blast
  have "rok (new_breader (wr_W w))" "rd_n (new_breader (wr_W w)) < 8"
    and "rstream (new_breader (wr_W w)) = field_bits fs @ replicate pad False"
    using w(2) by (simp_all add: new_breader_def rok_def rstream_def)
  from read_fields_stream [OF this assms(2)] obtain r where
    "read_fields (map snd fs) (new_breader (wr_W w)) = (Inr (map fst fs), r)"
    "rstream r = replicate pad False" by auto
  moreover have "sbind (write_fields fs) (\<lambda>_. FlushBits) new_bwriter = (Inr (), w)"
    using u(1) w(1) by simp
  ultimately show ?thesis using pad by blast
qed

theorem write_read_fields_witness:
  "\<exists>w r pad. sbind (write_fields [(2, 5), (4, 4), (2, 4), (0, 3)]) (\<lambda>_. FlushBits) new_bwriter = (Inr (), w) \<and>
     read_fields [5, 4, 4, 3] (new_breader (wr_W w)) = (Inr [2, 4, 2, 0], r) \<and>
     rstream r = replicate pad False \<and> pad < 8"
proof -
  have "sum_list (map snd [(2 :: 64 word, 5 :: nat), (4, 4), (2, 4), (0, 3)]) \<le> 64"
    and "\<forall>f\<in>set [(2, 5), (4, 4), (2, 4), (0, 3)]. small_field f"
    by (simp_all add: small_field_def)
  from write_read_fields [OF this] show ?thesis by (simp only: list.map fst_conv snd_conv)
qed

text \<open>\<open>ReadExponentialGolombCode\<close> reads back the exp-Golomb code word of every number
  below \<open>2^33 - 1\<close> (the prefix loop stops at 32 zeros) and leaves the reader at the bit
  after it.\<close>

theorem ReadExponentialGolombCode_ue:
  assumes "gok s" and "gstream s = ue_bits v @ rest" and "v < 2 ^ 33 - 1"
  shows "\<exists>s'. ReadExponentialGolombCode s = (Inr (word_of_nat v), s') \<and> gok s' \<and> gstream s' = rest"
  unfolding ReadExponentialGolombCode_def by (rule golomb.exp_golomb_ue [OF assms])

theorem ReadExponentialGolombCode_ue_witness:
  "\<exists>s'. ReadExponentialGolombCode (new_gbr [0x28]) = (Inr 4, s') \<and> gok s' \<and> gstream s' = [False, False, False]"
proof -
  have "ue_bits 4 = [False, False, True, False, True]"
    by (simp add: ue_bits_def bit_len.simps wbits_def upt_rec)
  moreover have "gstream (new_gbr [0x28]) = [False, False, True, False, True, False, False, False]"
    by (simp add: wbits_def upt_rec)
  ultimately show ?thesis
    using ReadExponentialGolombCode_ue [of "new_gbr [0x28]" 4 "[False, False, False]"] by simp
qed

text \<open>On the code word of \<open>v\<close>, \<open>ReadSE\<close> returns the positive value \<open>(v + 1) / 2\<close> when
  \<open>v\<close> is odd; for an even \<open>v > 0\<close> it returns \<open>2^63 - v / 2\<close>, which agrees with the value
  \<open>-v / 2\<close> of the H.264 syntax only in its low 63 bits: the division is done on the negated
  unsigned word.\<close>

theorem ReadSE_value:
  assumes "gok s" and "gstream s = ue_bits v @ rest" and "v < 2 ^ 33 - 1"
  shows "\<exists>s'. ReadSE s = (Inr (if odd v then word_of_nat ((v + 1) div 2)
           else if v = 0 then 0 else word_of_nat (2 ^ 63 - v div 2)), s') \<and> gstream s' = rest"
proof -
  from golomb.exp_golomb_ue [OF assms] obtain s' where
    s': "ReadExponentialGolombCode s = (Inr (word_of_nat v), s')" "gstream s' = rest"
    by (auto simp: ReadExponentialGolombCode_def)
  have "(word_of_nat v + 1 :: 64 word) div 2 = word_of_nat ((v + 1) div 2)"
    using word_of_nat_div2 [of "v + 1"] assms(3) by (simp add: add.commute)
  moreover have "(- word_of_nat v :: 64 word) div 2 = word_of_nat (2 ^ 63 - v div 2)" if "v \<noteq> 0" "even v"
  proof -
    have "(- word_of_nat v :: 64 word) = word_of_nat (2 ^ 64 - v)"
      using assms(3) by (simp add: of_nat_diff)
    moreover have "(2 ^ 64 - v) div 2 = 2 ^ 63 - v div 2" using that assms(3) by auto
    ultimately show ?thesis using word_of_nat_div2 [of "2 ^ 64 - v"] that by simp
  qed
  moreover have "((word_of_nat v :: 64 word) AND 1 \<noteq> 0) = odd v"
    by (simp add: and_one_eq word_mod_2_nat)
  ultimately show ?thesis
    using s' by (auto simp: ReadSE_def)
qed

theorem ReadSE_value_witness:
  "\<exists>s'. ReadSE (new_gbr [0x28]) = (Inr (word_of_nat (2 ^ 63 - 2)), s') \<and> gstream s' = [False, False, False]"
proof -
  have "ue_bits 4 = [False, False, True, False, True]"
    by (simp add: ue_bits_def bit_len.simps wbits_def upt_rec)
  moreover have "gstream (new_gbr [0x28]) = [False, False, True, False, True, False, False, False]"
    by (simp add: wbits_def upt_rec)
  ultimately show ?thesis
    using ReadSE_value [of "new_gbr [0x28]" 4 "[False, False, False]"] by simp
qed

end
