(* ===== verification/Nal.thy ===== *)
theory Nal
  imports Bits
begin

text \<open>
  \<open>utils/nal/nal.go\<close>: splitting a buffer into NAL units.  The buffer is a raw unit, a
  sequence of units each behind a 32-bit length (AVCC), or a sequence separated by start
  codes (Annex B); \<open>SplitNALUs\<close> decides which, and never panics.
\<close>

datatype nal_type = naluRaw | naluAVCC | naluANNEXB

definition MinNaluSize :: nat where
  "MinNaluSize = 4"

text \<open>\<open>uint32(len(b))\<close>\<close>

definition len32 :: "bytes \<Rightarrow> 32 word" where
  "len32 b = word_of_nat (length b)"

lemma len32_le: "v \<le> len32 b \<Longrightarrow> unat v \<le> length b"
  by (simp add: len32_def word_le_nat_alt unat_of_nat)

lemma unat_len32: "length b < 2 ^ 32 \<Longrightarrow> unat (len32 b) = length b"
  by (simp add: len32_def unat_of_nat)

section \<open>Start codes\<close>

definition isStartCode :: "bytes \<Rightarrow> nat \<Rightarrow> nat option res" where
  "isStartCode b pos =
     (if length b \<le> pos + 2 \<or> b ! pos \<noteq> 0 then Inr None
      else ebind (U24BE (drop pos b)) (\<lambda>val3.
        if val3 = 1 then Inr (Some 3)
        else if val3 = 0 \<and> pos + 3 < length b \<and> b ! (pos + 3) = 1 then Inr (Some 4)
        else Inr None))"

text \<open>The inner loop of \<open>parseANNEXB\<close>: the first position from \<open>pos\<close> on with a start code.\<close>

function scan_code :: "bytes \<Rightarrow> nat \<Rightarrow> (nat \<times> nat option) res" where
  "scan_code b pos =
     (if length b \<le> pos then Inr (pos, None)
      else case isStartCode b pos of
        Inl e \<Rightarrow> Inl e
      | Inr (Some l) \<Rightarrow> Inr (pos, Some l)
      | Inr None \<Rightarrow> scan_code b (Suc pos))"
  by pat_completeness auto
termination
  by (relation "measure (\<lambda>(b, pos). length b - pos)") auto

declare scan_code.simps [simp del]

lemma isStartCode_total: "\<exists>c. isStartCode b pos = Inr c"
proof (cases "length b \<le> pos + 2 \<or> b ! pos \<noteq> 0")
  case False
  then obtain b0 b1 b2 r where "drop pos b = b0 # b1 # b2 # r"
    by (metis (no_types, lifting) Cons_nth_drop_Suc Suc_lessD add_2_eq_Suc' not_le)
  then show ?thesis by (simp add: isStartCode_def)
qed (auto simp: isStartCode_def)

lemma isStartCode_len: "isStartCode b pos = Inr (Some l) \<Longrightarrow> 0 < l \<and> pos + l \<le> length b"
  by (auto simp: isStartCode_def ebind_Inr_iff split: if_splits)

lemma scan_code_total: "\<exists>p c. scan_code b pos = Inr (p, c)"
proof (induction b pos rule: scan_code.induct)
  case (1 b pos)
  with isStartCode_total [of b pos] show ?case
    by (subst scan_code.simps) (auto split: option.splits)
qed

lemma scan_code_bounds:
  "scan_code b pos = Inr (p, c) \<Longrightarrow> pos \<le> length b \<Longrightarrow>
     pos \<le> p \<and> p \<le> length b \<and> (case c of None \<Rightarrow> p = length b | Some l \<Rightarrow> 0 < l \<and> p + l \<le> length b)"
proof (induction b pos rule: scan_code.induct)
  case (1 b pos)
  show ?case
  proof (cases "length b \<le> pos")
    case True
    with 1 show ?thesis by (auto simp: scan_code.simps)
  next
    case False
    from isStartCode_total [of b pos] obtain c' where c': "isStartCode b pos = Inr c'" by blast
    show ?thesis
    proof (cases c')
      case None
      with 1 False c' show ?thesis by (auto simp: scan_code.simps [of b pos])
    next
      case (Some l)
      with 1(2) False c' isStartCode_len [of b pos l] show ?thesis
        by (auto simp: scan_code.simps [of b pos])
    qed
  qed
qed

section \<open>Annex B\<close>

text \<open>
  One turn of the outer loop starts at \<open>start\<close> with the scan at \<open>pos\<close> having found the
  start code of length \<open>skip\<close> there (none at the end of the buffer).
\<close>

function annexb_loop :: "bytes \<Rightarrow> bytes list \<Rightarrow> nat \<Rightarrow> nat \<Rightarrow> nat option \<Rightarrow> bytes list res" where
  "annexb_loop b nalus start pos skip =
     (let nalus = (if start \<noteq> pos then nalus @ [sub b start pos] else nalus);
          start = pos + (case skip of None \<Rightarrow> 0 | Some l \<Rightarrow> l)
      in if length b \<le> start then Inr nalus
         else case scan_code b start of
           Inl e \<Rightarrow> Inl e
         | Inr (pos', skip') \<Rightarrow> annexb_loop b nalus start pos' skip')"
  by pat_completeness auto
termination
proof (relation "measure (\<lambda>(b, nalus, start, pos, skip).
    length b - (pos + (case skip of None \<Rightarrow> 0 | Some l \<Rightarrow> l)))")
  fix b start pos skip nalus s p' c y
  assume "s = pos + (case skip of None \<Rightarrow> 0 | Some l \<Rightarrow> l)" "\<not> length b \<le> s"
    "scan_code b s = Inr y" "(p', c) = y"
  with scan_code_bounds [of b s p' c]
  show "((b, nalus, s, p', c), (b, nalus', start, pos, skip)) \<in> measure (\<lambda>(b, nalus, start, pos, skip).
    length b - (pos + (case skip of None \<Rightarrow> 0 | Some l \<Rightarrow> l)))" for nalus'
    by (auto split: option.splits)
qed auto

declare annexb_loop.simps [simp del]

definition parseANNEXB :: "bytes \<Rightarrow> 32 word \<Rightarrow> 32 word \<Rightarrow> bytes list \<Rightarrow> bytes list res" where
  "parseANNEXB b val3 val4 dst =
     annexb_loop b dst 0 0 (if val3 = 1 then Some 3 else if val4 = 1 then Some 4 else None)"

lemma annexb_loop_total: "\<exists>ns. annexb_loop b nalus start pos skip = Inr ns"
proof (induction b nalus start pos skip rule: annexb_loop.induct)
  case (1 b nalus start pos skip)
  from scan_code_total [of b "pos + (case skip of None \<Rightarrow> 0 | Some l \<Rightarrow> l)"] obtain p c where
    "scan_code b (pos + (case skip of None \<Rightarrow> 0 | Some l \<Rightarrow> l)) = Inr (p, c)" by blast
  with 1 show ?case by (subst annexb_loop.simps) (auto simp: Let_def)
qed

section \<open>AVCC\<close>

text \<open>
  The length-prefixed loop: \<open>v\<close> is the length last read, \<open>b\<close> what follows it.  A length
  past the end of the buffer salvages what is left as a last unit; the result is the units
  and the bytes left over.
\<close>

function avcc_loop :: "32 word \<Rightarrow> bytes \<Rightarrow> bytes list \<Rightarrow> (bytes list \<times> bytes) res" where
  "avcc_loop v b nalus =
     (if len32 b < v then Inr (if b \<noteq> [] then nalus @ [b] else nalus, b)
      else (let nalus = (if 0 < v then nalus @ [take (unat v) b] else nalus); b1 = drop (unat v) b
        in if length b1 < MinNaluSize then Inr (nalus, b1)
           else case U32BE b1 of
             Inl e \<Rightarrow> Inl e
           | Inr v' \<Rightarrow> avcc_loop v' (drop MinNaluSize b1) nalus))"
  by pat_completeness auto
termination
  by (relation "measure (\<lambda>(v, b, nalus). length b)") (auto simp: MinNaluSize_def)

declare avcc_loop.simps [simp del]

lemma U32BE_total: "4 \<le> length b \<Longrightarrow> \<exists>v. U32BE b = Inr v"
  by (cases b rule: U32BE.cases) auto

lemma avcc_loop_total: "\<exists>r. avcc_loop v b nalus = Inr r"
proof (induction v b nalus rule: avcc_loop.induct)
  case (1 v b nalus)
  with U32BE_total [of "drop (unat v) b"] show ?case
    by (subst avcc_loop.simps) (auto simp: Let_def MinNaluSize_def)
qed

section \<open>SplitNALUs\<close>

definition SplitNALUs :: "bytes \<Rightarrow> (bytes list \<times> nal_type) res" where
  "SplitNALUs b =
     (if length b < MinNaluSize then Inr ([b], naluRaw)
      else ebind (U32BE b) (\<lambda>val4.
        ebind (if val4 \<le> len32 b then avcc_loop val4 (drop MinNaluSize b) [] else Inr ([], b)) (\<lambda>(nalus, b').
          if val4 \<le> len32 b \<and> (b' = [] \<or> nalus \<noteq> []) then Inr (nalus, naluAVCC)
          else ebind (U24BE b) (\<lambda>val3.
            if val3 = 1 \<or> val4 = 1
            then ebind (parseANNEXB b val3 val4 nalus) (\<lambda>nalus. Inr (nalus, naluANNEXB))
            else Inr (nalus @ [b], naluRaw)))))"

section \<open>The three formats\<close>

lemma U24BE_total: "3 \<le> length b \<Longrightarrow> \<exists>v. U24BE b = Inr v"
  by (cases b rule: U24BE.cases) auto

lemma U32BE_first:
  assumes "U32BE (b0 # b1 # b2 # b3 # r) = Inr v"
  shows "b0 \<noteq> 0 \<Longrightarrow> 2 ^ 24 \<le> unat v" and "b2 \<noteq> 0 \<Longrightarrow> 2 ^ 8 \<le> unat v"
    and "b1 \<noteq> 0 \<Longrightarrow> 2 ^ 16 \<le> unat v"
proof -
  have v: "v = push_bit 8 (push_bit 8 (push_bit 8 (ucast b0) OR ucast b1) OR ucast b2) OR ucast b3"
    using assms by simp
  have ge: "2 ^ k \<le> unat v" if "bit v (k + i)" for k i
    using bit_unat_ge [OF that] by (metis le_add1 le_trans one_le_numeral power_increasing)
  show "2 ^ 24 \<le> unat v" if "b0 \<noteq> 0"
  proof -
    from byte_nonzero_bit [OF that] obtain i where "i < 8" "bit b0 i" by blast
    then have "bit v (24 + i)" unfolding v by (simp add: bit_simps)
    then show ?thesis by (rule ge)
  qed
  show "2 ^ 8 \<le> unat v" if "b2 \<noteq> 0"
  proof -
    from byte_nonzero_bit [OF that] obtain i where "i < 8" "bit b2 i" by blast
    then have "bit v (8 + i)" unfolding v by (simp add: bit_simps)
    then show ?thesis by (rule ge)
  qed
  show "2 ^ 16 \<le> unat v" if "b1 \<noteq> 0"
  proof -
    from byte_nonzero_bit [OF that] obtain i where "i < 8" "bit b1 i" by blast
    then have "bit v (16 + i)" unfolding v by (simp add: bit_simps)
    then show ?thesis by (rule ge)
  qed
qed

text \<open>A length-prefixed buffer.\<close>

definition avcc_frame :: "bytes \<Rightarrow> bytes" where
  "avcc_frame n = be32 (len32 n) @ n"

lemma avcc_loop_frames:
  assumes "\<forall>n\<in>set (n # ns). n \<noteq> []" and "length (n @ put_table avcc_frame ns) < 2 ^ 32"
  shows "avcc_loop (len32 n) (n @ put_table avcc_frame ns) acc = Inr (acc @ n # ns, [])"
  using assms
proof (induction ns arbitrary: n acc)
  case Nil
  then have "unat (len32 n) = length n" by (simp add: unat_len32)
  moreover from this Nil have "0 < len32 n" by (auto simp: word_less_nat_alt)
  ultimately show ?case
    by (simp add: avcc_loop.simps MinNaluSize_def)
next
  case (Cons m ms)
  let ?b = "n @ put_table avcc_frame (m # ms)"
  have len: "unat (len32 n) = length n" using Cons.prems(2) by (simp add: unat_len32)
  with Cons.prems(1) have pos: "0 < len32 n" by (auto simp: word_less_nat_alt)
  have le: "\<not> len32 ?b < len32 n"
    using Cons.prems(2) by (simp add: word_less_nat_alt len unat_len32)
  have d: "drop (length n) ?b = be32 (len32 m) @ m @ put_table avcc_frame ms"
    by (simp add: avcc_frame_def)
  have "avcc_loop (len32 m) (m @ put_table avcc_frame ms) (acc @ [n]) = Inr ((acc @ [n]) @ m # ms, [])"
    using Cons.prems by (intro Cons.IH) (auto simp: avcc_frame_def)
  then show ?case
    using le pos by (subst avcc_loop.simps) (simp add: len d Let_def MinNaluSize_def avcc_frame_def)
qed

text \<open>
  A unit that a start code cannot be found in: it is not empty, does not end in a zero
  byte and never has two zero bytes followed by a zero or a one, which the emulation
  prevention of the standard guarantees.
\<close>

definition unit_ok :: "bytes \<Rightarrow> bool" where
  "unit_ok n \<longleftrightarrow> n \<noteq> [] \<and> last n \<noteq> 0 \<and>
     (\<forall>i<length n - 2. n ! i = 0 \<longrightarrow> n ! (i + 1) = 0 \<longrightarrow> n ! (i + 2) \<noteq> 0 \<and> n ! (i + 2) \<noteq> 1)"

lemma U24BE_01:
  "U24BE (b0 # b1 # b2 # r) = Inr 1 \<Longrightarrow> b0 = 0 \<and> b1 = 0 \<and> b2 = 1"
  "U24BE (b0 # b1 # b2 # r) = Inr 0 \<Longrightarrow> b0 = 0 \<and> b1 = 0 \<and> b2 = 0"
  using split_be(2) [of b0 b1 b2 r 1] split_be(2) [of b0 b1 b2 r 0]
  by (simp_all add: be24_def del: U24BE.simps)

lemma isStartCode_inside:
  assumes "unit_ok n" and "i < length n"
  shows "isStartCode (pre @ n @ r) (length pre + i) = Inr None"
proof (cases "length n + length r \<le> i + 2 \<or> n ! i \<noteq> 0")
  case True
  with assms(2) show ?thesis by (auto simp: isStartCode_def nth_append)
next
  case False
  let ?b = "pre @ n @ r"
  have ni: "n ! i = 0" using False by simp
  with assms have i1: "i + 1 < length n"
    by (metis Suc_eq_plus1 Suc_lessI diff_Suc_1 last_conv_nth unit_ok_def)
  obtain b2 r' where d: "drop (length pre + i) ?b = n ! i # n ! (i + 1) # b2 # r'"
    and b2: "i + 2 < length n \<Longrightarrow> b2 = n ! (i + 2)"
  proof -
    have "drop (length pre + i) ?b = n ! i # n ! (i + 1) # drop (i + 2) n @ r"
      using i1 by (simp add: Cons_nth_drop_Suc)
    moreover obtain x xs where "drop (i + 2) n @ r = x # xs"
      using False by (cases "drop (i + 2) n @ r") auto
    moreover from this have "x = n ! (i + 2)" if "i + 2 < length n"
      using that by (metis Cons_nth_drop_Suc append_Cons list.inject)
    ultimately show thesis using that by metis
  qed
  have "\<not> (n ! (i + 1) = 0 \<and> (b2 = 0 \<or> b2 = 1))"
  proof
    assume z: "n ! (i + 1) = 0 \<and> (b2 = 0 \<or> b2 = 1)"
    then have "i + 2 < length n"
      using i1 assms(1) by (metis Suc_eq_plus1 Suc_lessI add_2_eq_Suc' diff_Suc_1 last_conv_nth unit_ok_def)
    with b2 z ni assms(1) show False by (auto simp: unit_ok_def)
  qed
  then have "U24BE (drop (length pre + i) ?b) \<noteq> Inr 1" "U24BE (drop (length pre + i) ?b) \<noteq> Inr 0"
    unfolding d using U24BE_01 by blast+
  moreover obtain v where "U24BE (drop (length pre + i) ?b) = Inr v" unfolding d by simp
  ultimately show ?thesis by (simp add: isStartCode_def del: drop_append)
qed

lemma scan_code_skip:
  assumes "\<And>i. i < k \<Longrightarrow> isStartCode b (pos + i) = Inr None" and "pos + k \<le> length b"
  shows "scan_code b pos = scan_code b (pos + k)"
  using assms
proof (induction k)
  case (Suc k)
  then have "scan_code b pos = scan_code b (pos + k)" by simp
  also have "\<dots> = scan_code b (Suc (pos + k))"
    using Suc.prems by (subst scan_code.simps) simp
  finally show ?case by simp
qed simp

definition start_code :: "bytes \<Rightarrow> bool" where
  "start_code c \<longleftrightarrow> c = [0, 0, 1] \<or> c = [0, 0, 0, 1]"

lemma isStartCode_at:
  assumes "start_code c"
  shows "isStartCode (pre @ c @ r) (length pre) = Inr (Some (length c))"
  using assms by (auto simp: start_code_def isStartCode_def nth_append)

definition annexb_frame :: "bytes \<times> bytes \<Rightarrow> bytes" where
  "annexb_frame u = fst u @ snd u"

lemma annexb_loop_frames:
  assumes "unit_ok n" and "\<forall>(c, n)\<in>set us. start_code c \<and> unit_ok n"
  shows "annexb_loop (pre @ c @ n @ put_table annexb_frame us) acc (length pre) (length pre) (Some (length c))
           = Inr (acc @ n # map snd us)"
  using assms
proof (induction us arbitrary: pre c n acc)
  case Nil
  let ?b = "pre @ c @ n" and ?s = "length pre + length c"
  have ne: "n \<noteq> []" using Nil by (simp add: unit_ok_def)
  have "scan_code ?b ?s = scan_code ?b (?s + length n)"
    using isStartCode_inside [OF Nil(1), of _ "pre @ c" "[]"] by (intro scan_code_skip) simp_all
  also have "\<dots> = Inr (?s + length n, None)" by (simp add: scan_code.simps)
  finally have scan: "scan_code ?b ?s = Inr (?s + length n, None)" .
  have "sub ?b ?s (?s + length n) = n" by (simp add: sub_def)
  with ne scan show ?case
    by (subst annexb_loop.simps) (simp add: annexb_loop.simps [of _ _ _ "_ + _"])
next
  case (Cons u us)
  obtain c' n' where u: "u = (c', n')" by force
  with Cons.prems have c': "start_code c'" and n': "unit_ok n'" by auto
  let ?r = "c' @ n' @ put_table annexb_frame us"
  let ?b = "pre @ c @ n @ ?r" and ?s = "length pre + length c"
  have ne: "n \<noteq> []" using Cons.prems(1) by (simp add: unit_ok_def)
  have "scan_code ?b ?s = scan_code ?b (?s + length n)"
    using isStartCode_inside [OF Cons.prems(1), of _ "pre @ c" ?r] by (intro scan_code_skip) simp_all
  also have "\<dots> = Inr (?s + length n, Some (length c'))"
    using isStartCode_at [OF c', of "pre @ c @ n" "n' @ put_table annexb_frame us"] c'
    by (subst scan_code.simps) (auto simp add: add.assoc start_code_def)
  finally have scan: "scan_code ?b ?s = Inr (?s + length n, Some (length c'))" .
  have "sub ?b ?s (?s + length n) = n" by (simp add: sub_def)
  with ne have "annexb_loop ?b acc ?s (?s + length n) (Some (length c')) =
      annexb_loop ?b (acc @ [n]) (?s + length n) (?s + length n) (Some (length c'))"
    by (subst (1 2) annexb_loop.simps) simp
  also have "\<dots> = Inr ((acc @ [n]) @ n' # map snd us)"
    using Cons.IH [OF n', of "pre @ c @ n" c' "acc @ [n]"] Cons.prems(2) by (simp add: add.assoc)
  finally show ?case
    using scan ne u by (subst annexb_loop.simps) (simp add: annexb_frame_def)
qed

lemma avcc_loop_keeps: "avcc_loop v b acc = Inr (ns, r) \<Longrightarrow> \<exists>t. ns = acc @ t"
proof (induction v b acc arbitrary: ns r rule: avcc_loop.induct)
  case (1 v b acc)
  from 1(2) show ?case
    by (subst (asm) avcc_loop.simps)
      (auto simp: Let_def split: if_splits sum.splits dest!: 1(1) [OF _ refl refl])
qed

text \<open>A list of units behind their lengths.\<close>

lemma split_avcc:
  assumes "ns \<noteq> []" and "\<forall>n\<in>set ns. n \<noteq> []" and "length (put_table avcc_frame ns) < 2 ^ 32"
  shows "SplitNALUs (put_table avcc_frame ns) = Inr (ns, naluAVCC)"
proof (cases ns)
  case (Cons n ms)
  have "avcc_loop (len32 n) (n @ put_table avcc_frame ms) [] = Inr ([] @ n # ms, [])"
    using assms Cons by (intro avcc_loop_frames) (auto simp: avcc_frame_def)
  moreover have "len32 n \<le> len32 (put_table avcc_frame ns)"
    using assms(3) Cons by (simp add: word_le_nat_alt unat_len32 avcc_frame_def)
  ultimately show ?thesis
    by (simp add: SplitNALUs_def Cons avcc_frame_def MinNaluSize_def)
qed (use assms in simp)

text \<open>Payloads that are taken as one raw unit.\<close>

lemma split_short: "length b < 4 \<Longrightarrow> SplitNALUs b = Inr ([b], naluRaw)"
  by (simp add: SplitNALUs_def MinNaluSize_def)

lemma split_raw:
  assumes v: "U32BE b = Inr v" and len: "length b < unat v" and "U24BE b \<noteq> Inr 1"
  shows "SplitNALUs b = Inr ([b], naluRaw)"
proof -
  have four: "4 \<le> length b" using v by (cases b rule: U32BE.cases) auto
  have "unat v < 2 ^ 32" using unsigned_less [of v, where ?'a = nat] by simp
  with len four have "\<not> v \<le> len32 b" "v \<noteq> 1" by (auto simp: word_le_nat_alt unat_len32)
  moreover obtain w where "U24BE b = Inr w" using U24BE_total [of b] four by auto
  ultimately show ?thesis using assms(3) four v by (simp add: SplitNALUs_def MinNaluSize_def)
qed

lemma split_payload:
  assumes "x \<noteq> 0 \<or> y \<noteq> 0" and len: "length (x # y # b) < 2 ^ 16"
  shows "SplitNALUs (x # y # b) = Inr ([x # y # b], naluRaw)"
proof (cases "length (x # y # b) < 4")
  case False
  then obtain b2 b3 r where b: "b = b2 # b3 # r"
    by (cases "x # y # b" rule: U32BE.cases) auto
  obtain v where v: "U32BE (x # y # b2 # b3 # r) = Inr v" by simp
  have "2 ^ 16 \<le> unat v" using U32BE_first(1,3) [OF v] assms(1) by fastforce
  moreover have "U24BE (x # y # b) \<noteq> Inr 1" using assms(1) U24BE_01(1) [of x y b2 "b3 # r"] b by blast
  ultimately show ?thesis using len v by (intro split_raw [of _ v]) (simp_all add: b)
qed (rule split_short)

lemma U32BE_third:
  assumes "U32BE (0 # 0 # 1 # x # r) = Inr v"
  shows "unat v = 256 + unat x"
proof -
  have x: "unat x < 256" using unsigned_less [of x, where ?'a = nat] by simp
  then have u: "unat (ucast x :: 32 word) = unat x" by (simp add: unsigned_ucast_eq take_bit_nat_eq_self)
  have "v = 256 OR ucast x" using assms by simp
  also have "\<dots> = 256 + ucast x"
  proof (rule disjunctive_add [symmetric])
    fix k
    have "(256 :: 32 word) = push_bit 8 1" by simp
    then have "\<not> bit (256 :: 32 word) k" if "k < 8" using that by (simp only: bit_push_bit_iff) simp
    moreover have "\<not> bit (ucast x :: 32 word) k" if "\<not> k < 8"
      using that bit_imp_le_length [of x k] by (auto simp: bit_ucast_iff)
    ultimately show "\<not> bit (256 :: 32 word) k \<or> \<not> bit (ucast x :: 32 word) k" by blast
  qed
  finally show ?thesis using u x by (simp add: unat_word_ariths)
qed

text \<open>Whenever the first four bytes are a positive number not above the length of the
  buffer, \<open>SplitNALUs\<close> reports AVCC.\<close>

lemma SplitNALUs_avcc_first:
  assumes "U32BE b = Inr v" and "0 < v" and "v \<le> len32 b"
  shows "\<exists>ns. SplitNALUs b = Inr (ns, naluAVCC)"
proof -
  have four: "\<not> length b < 4" using assms(1) by (cases b rule: U32BE.cases) auto
  obtain ns r where loop: "avcc_loop v (drop 4 b) [] = Inr (ns, r)"
    using avcc_loop_total [of v "drop 4 b" "[]"] by auto
  have "r = [] \<or> ns \<noteq> []"
  proof (cases "len32 (drop 4 b) < v")
    case True
    with loop show ?thesis by (subst (asm) avcc_loop.simps) (auto split: if_splits)
  next
    case False
    with loop assms(2) show ?thesis
      by (subst (asm) avcc_loop.simps)
        (auto simp: Let_def MinNaluSize_def split: if_splits sum.splits dest!: avcc_loop_keeps)
  qed
  with loop four assms show ?thesis by (auto simp: SplitNALUs_def MinNaluSize_def)
qed

section \<open>Properties\<close>

text \<open>\<open>SplitNALUs\<close> never panics: on every buffer each slice it takes is in bounds and
  both loops end, so it returns units and a format.\<close>

theorem SplitNALUs_total: "\<exists>ns t. SplitNALUs b = Inr (ns, t)"
proof (cases "length b < 4")
  case False
  then obtain v w where v: "U32BE b = Inr v" and w: "U24BE b = Inr w"
    using U32BE_total [of b] U24BE_total [of b] by auto
  obtain r where r: "(if v \<le> len32 b then avcc_loop v (drop MinNaluSize b) [] else Inr ([], b)) = Inr r"
    using avcc_loop_total [of v "drop MinNaluSize b" "[]"] by (cases "v \<le> len32 b") auto
  have "\<exists>m. parseANNEXB b w v ns = Inr m" for ns
    using annexb_loop_total by (simp add: parseANNEXB_def)
  then obtain m where "parseANNEXB b w v (fst r) = Inr m" by blast
  with False v w r show ?thesis by (auto simp: SplitNALUs_def MinNaluSize_def split_beta)
qed (simp add: SplitNALUs_def MinNaluSize_def)

text \<open>C33: A buffer of non-empty units, each behind its 32-bit length, is split back into
  exactly those units and reported as AVCC.\<close>

theorem SplitNALUs_avcc:
  assumes "ns \<noteq> []" and "\<forall>n\<in>set ns. n \<noteq> []" and "length (put_table avcc_frame ns) < 2 ^ 32"
  shows "SplitNALUs (put_table avcc_frame ns) = Inr (ns, naluAVCC)"
  using assms by (rule split_avcc)

theorem SplitNALUs_avcc_witness:
  "SplitNALUs (put_table avcc_frame [[0x67, 1], [0x68, 2, 3]]) = Inr ([[0x67, 1], [0x68, 2, 3]], naluAVCC)"
  by (rule SplitNALUs_avcc) (simp_all add: avcc_frame_def)

text \<open>C34: A buffer of Annex B units, each behind a start code of three or four bytes, none of which contains a start
  code or could make one with what follows: if the first start code has three bytes and the buffer is shorter than 256 bytes
  plus the value of the first byte of its first unit, it is split into exactly those units and reported as Annex B; in every other case
  (a first start code of four bytes, or a longer buffer) the first four bytes are taken for a length and the
  buffer is reported as AVCC.\<close>

theorem SplitNALUs_annexb:
  assumes "start_code c" and "unit_ok n" and "\<forall>(c, n)\<in>set us. start_code c \<and> unit_ok n"
    and "length (c @ n @ put_table annexb_frame us) < 2 ^ 32"
  shows "if c = [0, 0, 1] \<and> length (c @ n @ put_table annexb_frame us) < 256 + unat (n ! 0)
    then SplitNALUs (c @ n @ put_table annexb_frame us) = Inr (n # map snd us, naluANNEXB)
    else \<exists>ns. SplitNALUs (c @ n @ put_table annexb_frame us) = Inr (ns, naluAVCC)"
proof -
  let ?b = "c @ n @ put_table annexb_frame us"
  obtain x xs where n: "n = x # xs" using assms(2) by (cases n) (auto simp: unit_ok_def)
  have len: "v \<le> len32 ?b \<longleftrightarrow> unat v \<le> length ?b" for v
    using assms(4) by (simp add: word_le_nat_alt unat_len32)
  show ?thesis
  proof (cases "c = [0, 0, 1]")
    case False
    then have "c = [0, 0, 0, 1]" using assms(1) by (simp add: start_code_def)
    then have "U32BE ?b = Inr 1" by simp
    then have "\<exists>ns. SplitNALUs ?b = Inr (ns, naluAVCC)"
      by (rule SplitNALUs_avcc_first) (use assms(1) in \<open>auto simp: len start_code_def\<close>)
    with False show ?thesis by simp
  next
    case True
    then have b: "?b = 0 # 0 # 1 # x # xs @ put_table annexb_frame us" by (simp add: n)
    obtain v where v: "U32BE ?b = Inr v" unfolding b by simp
    have vx: "unat v = 256 + unat x" using U32BE_third [OF v [unfolded b]] .
    show ?thesis
    proof (cases "length ?b < 256 + unat x")
      case short: True
      then have "\<not> v \<le> len32 ?b" by (simp add: len vx)
      moreover have "U24BE ?b = Inr 1" unfolding b by simp
      moreover have "annexb_loop ?b [] 0 0 (Some 3) = Inr (n # map snd us)"
        using annexb_loop_frames [OF assms(2,3), of "[]" "[0, 0, 1]" "[]"] True by (simp add: eval_nat_numeral)
      ultimately have "SplitNALUs ?b = Inr (n # map snd us, naluANNEXB)"
        using v unfolding SplitNALUs_def b by (simp add: MinNaluSize_def parseANNEXB_def)
      with True short show ?thesis by (simp add: n)
    next
      case False
      then have "v \<le> len32 ?b" by (simp add: len vx)
      moreover have "0 < v" using vx by (simp add: word_less_nat_alt)
      ultimately have "\<exists>ns. SplitNALUs ?b = Inr (ns, naluAVCC)" using SplitNALUs_avcc_first [OF v] by blast
      with True False show ?thesis by (simp add: n)
    qed
  qed
qed

theorem SplitNALUs_annexb_witness:
  "SplitNALUs ([0, 0, 1] @ [0x67, 1] @ put_table annexb_frame [([0, 0, 0, 1], [0x68, 2])]) =
     Inr ([[0x67, 1], [0x68, 2]], naluANNEXB) \<and>
   (\<exists>ns. SplitNALUs ([0, 0, 0, 1] @ [0x67, 1] @ put_table annexb_frame [([0, 0, 0, 1], [0x68, 2])]) = Inr (ns, naluAVCC))"
  using SplitNALUs_annexb [of "[0, 0, 1]" "[0x67, 1]" "[([0, 0, 0, 1], [0x68, 2])]"]
    SplitNALUs_annexb [of "[0, 0, 0, 1]" "[0x67, 1]" "[([0, 0, 0, 1], [0x68, 2])]"]
  by (simp add: unit_ok_def start_code_def annexb_frame_def)

text \<open>A buffer of fewer than \<open>2^24\<close> bytes whose first byte is not zero is one raw unit:
  this is what makes \<open>SplitNALUs\<close> the identity on the payload of an RTP packet.\<close>

theorem SplitNALUs_raw:
  assumes "x \<noteq> 0" and "length (x # b) < 2 ^ 24"
  shows "SplitNALUs (x # b) = Inr ([x # b], naluRaw)"
proof (cases "length (x # b) < 4")
  case False
  then obtain b1 b2 b3 r where b: "b = b1 # b2 # b3 # r"
    by (cases "x # b" rule: U32BE.cases) auto
  obtain v where v: "U32BE (x # b1 # b2 # b3 # r) = Inr v" by simp
  from U32BE_first(1) [OF v assms(1)] have ge: "2 ^ 24 \<le> unat v" .
  then have "\<not> v \<le> len32 (x # b)" "v \<noteq> 1"
    using assms(2) by (auto simp: word_le_nat_alt unat_len32)
  moreover obtain w where w: "U24BE (x # b1 # b2 # r) = Inr w" "U24BE (x # b) = Inr w" by (simp add: b)
  moreover have "w \<noteq> 1" using U24BE_01(1) [of x b1 b2 r] w(1) assms(1) by blast
  ultimately show ?thesis
    using False v by (simp add: SplitNALUs_def MinNaluSize_def b del: U32BE.simps U24BE.simps)
qed (simp add: SplitNALUs_def MinNaluSize_def)

theorem SplitNALUs_raw_witness: "SplitNALUs [0x65, 0, 0, 1, 9] = Inr ([[0x65, 0, 0, 1, 9]], naluRaw)"
  by (rule SplitNALUs_raw) simp_all

end
