(* ===== verification/Lifecycle.thy ===== *)
theory Lifecycle
  imports Prelude
begin

text \<open>
  \<open>utils/lifecycle\<close>: the managers that start an instance once, run its \<open>Step\<close> in a
  goroutine, and release it once on \<open>Close\<close>.  A channel that is only ever closed is a
  boolean, a \<open>sync.Once\<close> a boolean set by its first caller, and the work of \<open>Close\<close> is
  split at its blocking receive from \<open>doneChan\<close>.  \<open>running\<close> says that the goroutine of
  \<open>process\<close> is alive, \<open>releases\<close> counts the calls of the instance's \<open>Release\<close>, \<open>crashed\<close>
  records the panic of closing a closed channel.  What the instance's own functions do is
  an outcome chosen by the environment.
\<close>

section \<open>State\<close>

datatype close_phase = Opened | Waiting | Closed

record mgr =
  stopChan :: bool
  doneChan :: bool
  startOnce :: bool
  closing :: close_phase
  running :: bool
  releases :: nat
  crashed :: bool

datatype start_outcome = StartOk | StartErr err | StartPanic

datatype step_outcome = StepNil | StepBreak | StepErr err | StepPanic

datatype start_error = StartedAlreadyError | StartedAfterCloseError | StartFailed err

datatype start_result = Returned "start_error option" | Panicked

definition new_mgr :: mgr where
  "new_mgr = \<lparr>stopChan = False, doneChan = False, startOnce = False, closing = Opened,
     running = False, releases = 0, crashed = False\<rparr>"

definition close_done :: "mgr \<Rightarrow> mgr" where
  "close_done m = (if doneChan m then m\<lparr>crashed := True\<rparr> else m\<lparr>doneChan := True\<rparr>)"

section \<open>async.go\<close>

definition A_start_once :: "start_outcome \<Rightarrow> mgr \<Rightarrow> start_result \<times> mgr" where
  "A_start_once o1 m =
     (if startOnce m then (Returned (Some StartedAlreadyError), m)
      else (let m1 = m\<lparr>startOnce := True\<rparr> in
        case o1 of
          StartErr e \<Rightarrow> (Returned (Some (StartFailed e)), close_done m1)
        | StartOk \<Rightarrow> (Returned None, m1\<lparr>running := True\<rparr>)
        | StartPanic \<Rightarrow> (Panicked, m1)))"

definition A_Start :: "start_outcome \<Rightarrow> mgr \<Rightarrow> start_result \<times> mgr" where
  "A_Start o1 m = (if stopChan m then (Returned (Some StartedAfterCloseError), m) else A_start_once o1 m)"

text \<open>One turn of the loop of \<open>process\<close>, and the deferred close when the loop ends.\<close>

definition A_process :: "step_outcome \<Rightarrow> mgr \<Rightarrow> mgr" where
  "A_process o1 m = (case o1 of StepNil \<Rightarrow> m | _ \<Rightarrow> close_done (m\<lparr>running := False\<rparr>))"

definition Close_begin :: "mgr \<Rightarrow> mgr" where
  "Close_begin m =
     (if closing m = Opened
      then (let m1 = m\<lparr>stopChan := True, closing := Waiting\<rparr>
            in if startOnce m1 then m1 else close_done (m1\<lparr>startOnce := True\<rparr>))
      else m)"

definition Close_end :: "mgr \<Rightarrow> mgr" where
  "Close_end m =
     (if closing m = Waiting \<and> doneChan m
      then m\<lparr>releases := releases m + 1, closing := Closed\<rparr> else m)"

section \<open>async_failsafe.go\<close>

definition F_Start :: "start_outcome \<Rightarrow> mgr \<Rightarrow> start_result \<times> mgr" where
  "F_Start o1 m =
     (if startOnce m then (Returned None, m)
      else (let m1 = m\<lparr>startOnce := True\<rparr> in
        case o1 of StartPanic \<Rightarrow> (Returned None, m1) | _ \<Rightarrow> (Returned None, m1\<lparr>running := True\<rparr>)))"

definition F_process :: "step_outcome \<Rightarrow> mgr \<Rightarrow> mgr" where
  "F_process o1 m = (case o1 of StepBreak \<Rightarrow> close_done (m\<lparr>running := False\<rparr>) | _ \<Rightarrow> m)"

section \<open>default.go\<close>

record dmgr =
  d_startOnce :: bool
  d_closeOnce :: bool
  d_closeChan :: bool
  d_releases :: nat

definition new_dmgr :: dmgr where
  "new_dmgr = \<lparr>d_startOnce = False, d_closeOnce = False, d_closeChan = False, d_releases = 0\<rparr>"

definition D_Start :: "start_outcome \<Rightarrow> dmgr \<Rightarrow> start_result \<times> dmgr" where
  "D_Start o1 m =
     (if d_closeChan m then (Returned (Some StartedAfterCloseError), m)
      else if d_startOnce m then (Returned (Some StartedAlreadyError), m)
      else (case o1 of
          StartErr e \<Rightarrow> Returned (Some (StartFailed e))
        | StartOk \<Rightarrow> Returned None
        | StartPanic \<Rightarrow> Panicked, m\<lparr>d_startOnce := True\<rparr>))"

definition D_Close :: "dmgr \<Rightarrow> dmgr" where
  "D_Close m = (if d_closeOnce m then m
     else m\<lparr>d_closeOnce := True, d_releases := d_releases m + 1, d_closeChan := True\<rparr>)"

section \<open>Interleaving\<close>

text \<open>
  Any number of goroutines call \<open>Start\<close> and \<open>Close\<close>.  \<open>start\<close> is the part of \<open>Start\<close> inside
  the \<open>Once\<close>: in \<open>async.go\<close> the check of \<open>stopChan\<close> happens earlier and a \<open>Close\<close> may come
  between the two.  \<open>may\<close> limits the outcomes of the start function.
\<close>

inductive mgr_step ::
  "(start_outcome \<Rightarrow> mgr \<Rightarrow> start_result \<times> mgr) \<Rightarrow> (step_outcome \<Rightarrow> mgr \<Rightarrow> mgr) \<Rightarrow>
   (start_outcome \<Rightarrow> bool) \<Rightarrow> mgr \<Rightarrow> mgr \<Rightarrow> bool" for start iter may where
  start: "may o1 \<Longrightarrow> mgr_step start iter may m (snd (start o1 m))"
| iter: "running m \<Longrightarrow> mgr_step start iter may m (iter o2 m)"
| close_begin: "mgr_step start iter may m (Close_begin m)"
| close_end: "mgr_step start iter may m (Close_end m)"

inductive mgr_reach ::
  "(start_outcome \<Rightarrow> mgr \<Rightarrow> start_result \<times> mgr) \<Rightarrow> (step_outcome \<Rightarrow> mgr \<Rightarrow> mgr) \<Rightarrow>
   (start_outcome \<Rightarrow> bool) \<Rightarrow> mgr \<Rightarrow> bool" for start iter may where
  init: "mgr_reach start iter may new_mgr"
| step: "mgr_reach start iter may m \<Longrightarrow> mgr_step start iter may m m' \<Longrightarrow> mgr_reach start iter may m'"

definition mgr_ok :: "mgr \<Rightarrow> bool" where
  "mgr_ok m \<longleftrightarrow> \<not> crashed m \<and> (running m \<longrightarrow> startOnce m \<and> \<not> doneChan m) \<and>
     (doneChan m \<longrightarrow> startOnce m) \<and> releases m = (if closing m = Closed then 1 else 0) \<and>
     (closing m = Closed \<longrightarrow> doneChan m) \<and> (closing m \<noteq> Opened \<longrightarrow> stopChan m \<and> startOnce m)"

definition settled :: "mgr \<Rightarrow> bool" where
  "settled m \<longleftrightarrow> (startOnce m \<longrightarrow> running m \<or> doneChan m)"

text \<open>What the two asynchronous managers have in common.\<close>

locale async_manager =
  fixes start :: "start_outcome \<Rightarrow> mgr \<Rightarrow> start_result \<times> mgr" and iter :: "step_outcome \<Rightarrow> mgr \<Rightarrow> mgr"
  assumes start_again: "startOnce m \<Longrightarrow> snd (start o1 m) = m"
    and start_first: "\<not> startOnce m \<Longrightarrow> \<not> doneChan m \<Longrightarrow>
      snd (start o1 m) = m\<lparr>startOnce := True, running := True\<rparr> \<or>
      snd (start o1 m) = m\<lparr>startOnce := True, doneChan := True\<rparr> \<or>
      o1 = StartPanic \<and> snd (start o1 m) = m\<lparr>startOnce := True\<rparr>"
    and iter_run: "running m \<Longrightarrow> \<not> doneChan m \<Longrightarrow>
      iter o2 m = m \<or> iter o2 m = m\<lparr>running := False, doneChan := True\<rparr>"
    and iter_break: "\<not> doneChan m \<Longrightarrow> iter StepBreak m = m\<lparr>running := False, doneChan := True\<rparr>"
begin

lemma start_ok:
  assumes "mgr_ok m"
  shows "mgr_ok (snd (start o1 m))"
proof (cases "startOnce m")
  case True
  with assms show ?thesis by (simp add: start_again)
next
  case False
  with assms have "\<not> doneChan m" "\<not> running m" by (auto simp: mgr_ok_def)
  with start_first [OF False, of o1] assms False show ?thesis by (auto simp: mgr_ok_def)
qed

lemma step_ok: "mgr_step start iter may m m' \<Longrightarrow> mgr_ok m \<Longrightarrow> mgr_ok m'"
proof (induction rule: mgr_step.induct)
  case (start o1 m)
  then show ?case by (simp add: start_ok)
next
  case (iter m o2)
  with iter_run [of m o2] show ?case by (auto simp: mgr_ok_def)
next
  case (close_begin m)
  then show ?case by (auto simp: Close_begin_def close_done_def mgr_ok_def Let_def)
next
  case (close_end m)
  then show ?case by (auto simp: Close_end_def mgr_ok_def)
qed

lemma reach_ok: "mgr_reach start iter may m \<Longrightarrow> mgr_ok m"
proof (induction rule: mgr_reach.induct)
  case init
  show ?case by (simp add: new_mgr_def mgr_ok_def)
qed (rule step_ok)

lemma step_settled:
  assumes "mgr_step start iter may m m'" and "\<not> may StartPanic" and "mgr_ok m" and "settled m"
  shows "settled m'"
  using assms
proof (induction rule: mgr_step.induct)
  case (start o1 m)
  show ?case
  proof (cases "startOnce m")
    case True
    with start show ?thesis by (simp add: start_again)
  next
    case False
    with start have "\<not> doneChan m" by (auto simp: mgr_ok_def)
    moreover have "o1 \<noteq> StartPanic" using start(1,2) by auto
    ultimately show ?thesis using start_first [OF False, of o1] by (auto simp: settled_def)
  qed
next
  case (iter m o2)
  with iter_run [of m o2] show ?case by (auto simp: mgr_ok_def settled_def)
next
  case (close_begin m)
  then show ?case by (auto simp: Close_begin_def close_done_def settled_def Let_def)
next
  case (close_end m)
  then show ?case by (auto simp: Close_end_def settled_def)
qed

lemma reach_settled: "mgr_reach start iter may m \<Longrightarrow> \<not> may StartPanic \<Longrightarrow> settled m"
proof (induction rule: mgr_reach.induct)
  case init
  show ?case by (simp add: settled_def new_mgr_def)
next
  case (step m m')
  then show ?case using step_settled reach_ok by blast
qed

text \<open>A \<open>Close\<close> that waits ends once the running step, if there is one, returns a break.\<close>

lemma close_completes:
  assumes "mgr_reach start iter may m" and "\<not> may StartPanic" and "closing m = Waiting"
  shows "\<exists>m'. (m' = m \<or> running m \<and> m' = iter StepBreak m) \<and> closing (Close_end m') = Closed \<and>
           releases (Close_end m') = 1"
proof -
  have ok: "mgr_ok m" and st: "settled m" using reach_ok reach_settled assms by blast+
  show ?thesis
  proof (cases "doneChan m")
    case True
    with ok assms(3) show ?thesis by (auto simp: Close_end_def mgr_ok_def)
  next
    case False
    with ok st assms(3) have "running m" by (auto simp: mgr_ok_def settled_def)
    moreover have "closing (Close_end (iter StepBreak m)) = Closed \<and> releases (Close_end (iter StepBreak m)) = 1"
      using ok assms(3) by (simp add: iter_break [OF False] Close_end_def mgr_ok_def)
    ultimately show ?thesis by blast
  qed
qed

end

interpretation async: async_manager A_start_once A_process
  by unfold_locales
    (auto simp: A_start_once_def A_process_def close_done_def Let_def split: start_outcome.splits step_outcome.splits)

interpretation failsafe: async_manager F_Start F_process
  by unfold_locales
    (auto simp: F_Start_def F_process_def close_done_def Let_def split: start_outcome.splits step_outcome.splits)

section \<open>Properties\<close>

text \<open>C28: Whatever the interleaving of \<open>Start\<close>, \<open>Close\<close> and the steps of the instance, and
  whatever these return or panic with, the asynchronous manager never closes a channel twice,
  calls \<open>Release\<close> at most once, only when \<open>process\<close> has ended, and never starts it again.\<close>

theorem async_release_once:
  assumes "mgr_reach A_start_once A_process may m"
  shows "\<not> crashed m \<and> releases m \<le> 1 \<and> (releases m = 1 \<longrightarrow> doneChan m \<and> \<not> running m \<and> snd (A_Start o1 m) = m)"
  using async.reach_ok [OF assms] by (auto simp: mgr_ok_def A_Start_def split: if_splits)

theorem async_release_once_witness:
  "let m = Close_end (Close_begin (snd (A_start_once (StartErr EOF) new_mgr)))
   in \<not> crashed m \<and> releases m = 1 \<and> doneChan m \<and> \<not> running m \<and> snd (A_Start StartOk m) = m"
proof -
  let ?m = "Close_end (Close_begin (snd (A_start_once (StartErr EOF) new_mgr)))"
  have r: "mgr_reach A_start_once A_process (\<lambda>_. True) ?m"
    by (rule mgr_reach.step [OF mgr_reach.step [OF mgr_reach.step [OF mgr_reach.init mgr_step.start]
        mgr_step.close_begin] mgr_step.close_end]) simp
  have "releases ?m = 1"
    by (simp add: Close_end_def Close_begin_def A_start_once_def new_mgr_def close_done_def)
  with async_release_once [OF r, of StartOk] show ?thesis by (simp add: Let_def)
qed

text \<open>C29: The same for the failsafe manager, which goes on after errors and panics of a step.\<close>

theorem failsafe_release_once:
  assumes "mgr_reach F_Start F_process may m"
  shows "\<not> crashed m \<and> releases m \<le> 1 \<and> (releases m = 1 \<longrightarrow> doneChan m \<and> \<not> running m \<and> snd (F_Start o1 m) = m)"
  using failsafe.reach_ok [OF assms] by (auto simp: mgr_ok_def F_Start_def split: if_splits)

theorem failsafe_release_once_witness:
  "let m = Close_end (Close_begin (F_process StepBreak (snd (F_Start (StartErr EOF) new_mgr))))
   in \<not> crashed m \<and> releases m = 1 \<and> doneChan m \<and> \<not> running m \<and> snd (F_Start StartOk m) = m"
proof -
  let ?m = "Close_end (Close_begin (F_process StepBreak (snd (F_Start (StartErr EOF) new_mgr))))"
  have "running (snd (F_Start (StartErr EOF) new_mgr))" by (simp add: F_Start_def new_mgr_def)
  then have r: "mgr_reach F_Start F_process (\<lambda>_. True) ?m"
    by (intro mgr_reach.step [OF mgr_reach.step [OF mgr_reach.step [OF mgr_reach.step [OF mgr_reach.init
        mgr_step.start] mgr_step.iter] mgr_step.close_begin] mgr_step.close_end]) simp_all
  have "releases ?m = 1"
    by (simp add: Close_end_def Close_begin_def F_Start_def F_process_def new_mgr_def close_done_def)
  with failsafe_release_once [OF r, of StartOk] show ?thesis by (simp add: Let_def)
qed

text \<open>C30: If no start function panics, a \<open>Close\<close> that waits can always finish: the loop has
  ended already, or it is running and ends with the break that closing \<open>stopChan\<close> asks of it;
  then \<open>Close\<close> releases the instance.\<close>

theorem failsafe_close_completes:
  assumes "mgr_reach F_Start F_process may m" and "\<not> may StartPanic" and "closing m = Waiting"
  shows "\<exists>m'. (m' = m \<or> running m \<and> m' = F_process StepBreak m) \<and> closing (Close_end m') = Closed \<and>
           releases (Close_end m') = 1"
  by (rule failsafe.close_completes [OF assms])

theorem failsafe_close_completes_witness:
  "let m = Close_begin new_mgr in \<exists>m'. (m' = m \<or> running m \<and> m' = F_process StepBreak m) \<and>
     closing (Close_end m') = Closed \<and> releases (Close_end m') = 1"
  unfolding Let_def
proof (rule failsafe_close_completes [where may = "\<lambda>o1. o1 \<noteq> StartPanic"])
  show "mgr_reach F_Start F_process (\<lambda>o1. o1 \<noteq> StartPanic) (Close_begin new_mgr)"
    by (intro mgr_reach.step [OF mgr_reach.init] mgr_step.close_begin)
qed (simp_all add: Close_begin_def new_mgr_def close_done_def)

text \<open>After a start function that panics, which the failsafe manager recovers from and
  reports as success, \<open>Close\<close> blocks for ever: no step of any goroutine closes \<open>doneChan\<close>.\<close>

theorem failsafe_start_panic_blocks:
  "fst (F_Start StartPanic new_mgr) = Returned None \<and>
   (let m = Close_begin (snd (F_Start StartPanic new_mgr))
    in closing m = Waiting \<and> \<not> doneChan m \<and>
       (\<forall>m'. mgr_step F_Start F_process (\<lambda>_. True) m m' \<longleftrightarrow> m' = m))"
proof -
  let ?m = "Close_begin (snd (F_Start StartPanic new_mgr))"
  have m: "?m = new_mgr\<lparr>startOnce := True, stopChan := True, closing := Waiting\<rparr>"
    by (simp add: Close_begin_def F_Start_def new_mgr_def)
  have "m' = ?m" if "mgr_step F_Start F_process (\<lambda>_. True) ?m m'" for m'
    using that by (cases rule: mgr_step.cases)
      (simp_all add: m F_Start_def new_mgr_def Close_begin_def Close_end_def)
  moreover have "mgr_step F_Start F_process (\<lambda>_. True) ?m (Close_begin ?m)" by (rule mgr_step.close_begin)
  ultimately show ?thesis by (auto simp: m F_Start_def new_mgr_def Close_begin_def Let_def)
qed

end
