(* ===== verification/Aac.thy ===== *)
theory Aac
  imports Bits Codec
begin

text \<open>
  \<open>codec/aac/parser.go\<close> and \<open>parameters.go\<close>: the MPEG-4 AudioSpecificConfig, written and
  parsed with the bit writer and reader, and the ADTS header.
\<close>

section \<open>Configuration\<close>

record aac_config =
  SampleRate :: int
  ChannelLayout :: channel_layout
  ObjectType :: "64 word"
  SampleRateIndex :: "64 word"
  ChannelConfig :: "64 word"

definition empty_config :: aac_config where
  "empty_config = \<lparr>SampleRate = 0, ChannelLayout = 0, ObjectType = 0, SampleRateIndex = 0, ChannelConfig = 0\<rparr>"

definition IsValid :: "aac_config \<Rightarrow> bool" where
  "IsValid c \<longleftrightarrow> 0 < ObjectType c"

definition sampleRateTable :: "int list" where
  "sampleRateTable = [96000, 88200, 64000, 48000, 44100, 32000, 24000, 22050, 16000, 12000, 11025, 8000, 7350]"

definition chanConfigTable :: "channel_layout list" where
  "chanConfigTable =
    [0,
     ChFrontCenter,
     ChFrontLeft OR ChFrontRight,
     ChFrontCenter OR ChFrontLeft OR ChFrontRight,
     ChFrontCenter OR ChFrontLeft OR ChFrontRight OR ChBackCenter,
     ChFrontCenter OR ChFrontLeft OR ChFrontRight OR ChBackLeft OR ChBackRight,
     ChFrontCenter OR ChFrontLeft OR ChFrontRight OR ChBackLeft OR ChBackRight OR ChLowFreq,
     ChFrontCenter OR ChFrontLeft OR ChFrontRight OR ChSideLeft OR ChSightRight OR ChBackLeft
       OR ChBackRight OR ChLowFreq]"

definition Complete :: "aac_config \<Rightarrow> aac_config" where
  "Complete c =
     (let c1 = (if unat (SampleRateIndex c) < length sampleRateTable
                then c\<lparr>SampleRate := sampleRateTable ! unat (SampleRateIndex c)\<rparr> else c)
      in if unat (ChannelConfig c1) < length chanConfigTable
         then c1\<lparr>ChannelLayout := chanConfigTable ! unat (ChannelConfig c1)\<rparr> else c1)"

text \<open>The first, respectively the last, index of a value in a table.\<close>

fun index_first :: "'a \<Rightarrow> 'a list \<Rightarrow> nat option" where
  "index_first x [] = None"
| "index_first x (y # ys) = (if x = y then Some 0 else map_option Suc (index_first x ys))"

fun index_last :: "'a \<Rightarrow> 'a list \<Rightarrow> nat option" where
  "index_last x [] = None"
| "index_last x (y # ys) = (case index_last x ys of Some i \<Rightarrow> Some (Suc i) | None \<Rightarrow> if x = y then Some 0 else None)"

definition SampleRateIndex_of :: "int \<Rightarrow> 64 word" where
  "SampleRateIndex_of rate = (case index_first rate sampleRateTable of Some i \<Rightarrow> word_of_nat i | None \<Rightarrow> 0xf)"

definition ChannelLayoutForConfig :: "64 word \<Rightarrow> channel_layout" where
  "ChannelLayoutForConfig k = (if unat k < length chanConfigTable then chanConfigTable ! unat k else 0)"

section \<open>AudioSpecificConfig\<close>

definition readObjectType :: "(breader, 64 word) op" where
  "readObjectType = sbind (ReadBits 5) (\<lambda>t.
     if t = 31 then sbind (ReadBits 6) (\<lambda>i. sret (32 + i)) else sret t)"

definition writeObjectType :: "64 word \<Rightarrow> (bwriter, unit) op" where
  "writeObjectType t =
     (if 32 \<le> t then sbind (WriteBits 31 5) (\<lambda>_. WriteBits (t - 32) 6) else WriteBits t 5)"

definition readSampleRateIndex :: "(breader, 64 word \<times> int) op" where
  "readSampleRateIndex = sbind (ReadBits 4) (\<lambda>i.
     if i = 0xf then sbind (ReadBits 24) (\<lambda>hz. sret (i, sint hz)) else sret (i, 0))"

definition writeSampleRateIndex :: "64 word \<Rightarrow> int \<Rightarrow> (bwriter, unit) op" where
  "writeSampleRateIndex i rate =
     (if 0xf \<le> i then sbind (WriteBits 0xf 4) (\<lambda>_. WriteBits (word_of_int rate) 24) else WriteBits i 4)"

text \<open>An error of a read, wrapped with the part that was being read when it is \<open>io.EOF\<close>.\<close>

definition eof_as :: "string \<Rightarrow> ('s, 'a) op \<Rightarrow> ('s, 'a) op" where
  "eof_as msg m s = (case m s of (Inl EOF, s') \<Rightarrow> (Inl (Error msg), s') | r \<Rightarrow> r)"

definition ParseMPEG4AudioConfigBytes :: "bytes \<Rightarrow> aac_config res" where
  "ParseMPEG4AudioConfigBytes b =
     (if b = [] then Inl (Error ''aacparser: empty MPEG4 audio config data'')
      else fst (sbind (eof_as ''aacparser: insufficient data for object type'' readObjectType) (\<lambda>t.
        sbind (eof_as ''aacparser: insufficient data for sample rate index'' readSampleRateIndex) (\<lambda>(i, hz).
        sbind (eof_as ''aacparser: insufficient data for channel config'' (ReadBits 4)) (\<lambda>ch.
        sret (Complete \<lparr>SampleRate = (if hz \<noteq> 0 then hz else 0), ChannelLayout = 0, ObjectType = t,
                        SampleRateIndex = i, ChannelConfig = ch\<rparr>)))) (new_breader b)))"

definition asc_suffix :: bytes where
  "asc_suffix = [0x06, 0x80, 0x80, 0x80, 0x01, 0x02, 0x06, 0x80, 0x80, 0x80, 0x01]"

text \<open>The indices that are written: a zero index is looked up from the value.\<close>

definition resolve_rate :: "aac_config \<Rightarrow> 64 word" where
  "resolve_rate c = (if SampleRateIndex c = 0
     then (case index_last (SampleRate c) sampleRateTable of Some i \<Rightarrow> word_of_nat i | None \<Rightarrow> 0)
     else SampleRateIndex c)"

definition resolve_channels :: "aac_config \<Rightarrow> 64 word" where
  "resolve_channels c = (if ChannelConfig c = 0
     then (case index_last (ChannelLayout c) chanConfigTable of Some i \<Rightarrow> word_of_nat i | None \<Rightarrow> 0)
     else ChannelConfig c)"

definition WriteMPEG4AudioConfig :: "aac_config \<Rightarrow> bytes res" where
  "WriteMPEG4AudioConfig c =
     ebind (fst (sbind (writeObjectType (ObjectType c)) (\<lambda>_.
        sbind (writeSampleRateIndex (resolve_rate c) (SampleRate c)) (\<lambda>_.
        sbind (WriteBits (resolve_channels c) 4) (\<lambda>_.
        sbind FlushBits (\<lambda>_ w. (Inr (wr_W w), w))))) new_bwriter))
     (\<lambda>w. Inr (w @ asc_suffix))"

section \<open>ADTS\<close>

definition ADTSHeaderLength :: nat where
  "ADTSHeaderLength = 7"

definition ParseADTSHeader :: "bytes \<Rightarrow> (aac_config \<times> nat \<times> nat \<times> nat) res" where
  "ParseADTSHeader f =
     (if length f < 7 then Inl (Error ''aacparser: insufficient data for ADTS header'')
      else if f ! 0 \<noteq> 0xff \<or> f ! 1 AND 0xf6 \<noteq> 0xf0 then Inl (Error ''aacparser: invalid ADTS sync word'')
      else (let c = empty_config\<lparr>
              ObjectType := ucast (drop_bit 6 (f ! 2)) + 1,
              SampleRateIndex := ucast (drop_bit 2 (f ! 2) AND 0xf),
              ChannelConfig := ucast (push_bit 2 (f ! 2) AND 0x4 OR drop_bit 6 (f ! 3) AND 0x3)\<rparr>;
            framelen = unat (push_bit 11 (ucast (f ! 3 AND 0x3)) OR push_bit 3 (ucast (f ! 4))
              OR ucast (drop_bit 5 (f ! 5)) :: 64 word);
            samples = (unat (f ! 6 AND 0x3) + 1) * 1024;
            hdrlen = (if f ! 1 AND 0x1 = 0 then 9 else 7)
        in if length sampleRateTable \<le> unat (SampleRateIndex c)
           then Inl (Error ''aacparser: invalid sample rate index'')
           else if length chanConfigTable \<le> unat (ChannelConfig c)
           then Inl (Error ''aacparser: invalid channel configuration'')
           else if hdrlen = 9 \<and> length f < 9
           then Inl (Error ''aacparser: insufficient data for protected ADTS header'')
           else if framelen < hdrlen then Inl (Error ''aacparser: invalid ADTS frame length'')
           else Inr (Complete c, hdrlen, framelen, samples)))"

definition FillADTSHeader :: "bytes \<Rightarrow> aac_config \<Rightarrow> int \<Rightarrow> int \<Rightarrow> bytes res" where
  "FillADTSHeader h c samples payloadLength =
     (if length h < ADTSHeaderLength then Inl (Error ''aacparser: header buffer too small'')
      else if \<not> IsValid c then Inl (Error ''aacparser: invalid MPEG4 audio configuration'')
      else if length sampleRateTable \<le> unat (SampleRateIndex c)
        then Inl (Error ''aacparser: invalid sample rate index'')
      else if length chanConfigTable \<le> unat (ChannelConfig c)
        then Inl (Error ''aacparser: invalid channel configuration'')
      else if samples \<le> 0 \<or> samples mod 1024 \<noteq> 0 then Inl (Error ''aacparser: invalid samples count'')
      else if payloadLength < 0 then Inl (Error ''aacparser: invalid payload length'')
      else (let n = payloadLength + int ADTSHeaderLength
        in if 2 ^ 13 \<le> n then Inl (Error ''aacparser: payload length too large'')
           else (let len = (word_of_int n :: 64 word);
                h2 = push_bit 6 (ucast (ObjectType c - 1) AND 0x3) OR
                     push_bit 2 (ucast (SampleRateIndex c) AND 0xf) OR ucast (drop_bit 2 (ChannelConfig c)) AND 0x1;
                h3 = h ! 3 AND 0x3f OR push_bit 6 (ucast (ChannelConfig c AND 0x3));
                h3' = h3 AND 0xfc OR ucast (drop_bit 11 len) AND 0x3;
                h4 = ucast (drop_bit 3 len);
                h5 = 0xff AND 0x1f OR push_bit 5 (ucast len AND 0x7);
                h6 = 0xff AND 0xfc OR word_of_int (samples div 1024 - 1)
              in Inr ([0xff, 0xf1, h2, h3', h4, h5, h6] @ drop 7 h))))"

section \<open>parameters.go\<close>

record aac_params =
  ap_ConfigBytes :: bytes
  ap_Config :: aac_config
  ap_BRate :: "64 word"
  ap_CodecType :: codec_type

definition NewCodecDataFromMPEG4AudioConfigBytes :: "bytes \<Rightarrow> aac_params res" where
  "NewCodecDataFromMPEG4AudioConfigBytes b =
     (case ParseMPEG4AudioConfigBytes b of
        Inl Panic \<Rightarrow> Inl Panic
      | Inl _ \<Rightarrow> Inl (Error ''aacparser: parse MPEG4AudioConfig failed'')
      | Inr c \<Rightarrow> Inr \<lparr>ap_ConfigBytes = b, ap_Config = c,
          ap_BRate = word_of_int (Aac.SampleRate c) * word_of_nat (Count (ChannelLayout c))
            * word_of_nat (BytesPerSample FLTP * 8),
          ap_CodecType = makeAudioCodecType (avCodecTypeMagic + 1)\<rparr>)"

definition NewCodecDataFromMPEG4AudioConfig :: "aac_config \<Rightarrow> aac_params res" where
  "NewCodecDataFromMPEG4AudioConfig c = ebind (WriteMPEG4AudioConfig c) NewCodecDataFromMPEG4AudioConfigBytes"

definition aac_Channels :: "aac_params \<Rightarrow> byte" where
  "aac_Channels p = word_of_nat (Count (ChannelLayout (ap_Config p)))"

section \<open>The configuration as bit fields\<close>

definition ot_fields :: "64 word \<Rightarrow> (64 word \<times> nat) list" where
  "ot_fields t = (if 32 \<le> t then [(31, 5), (t - 32, 6)] else [(t, 5)])"

definition sr_fields :: "64 word \<Rightarrow> int \<Rightarrow> (64 word \<times> nat) list" where
  "sr_fields i rate = (if 0xf \<le> i then [(0xf, 4), (word_of_int rate, 24)] else [(i, 4)])"

text \<open>The configurations the encoding can represent, with the values \<open>Complete\<close> derives.\<close>

definition canonical :: "aac_config \<Rightarrow> bool" where
  "canonical c \<longleftrightarrow> unat (ObjectType c) < 96 \<and> ObjectType c \<noteq> 31 \<and>
     unat (SampleRateIndex c) \<le> 15 \<and> unat (ChannelConfig c) \<le> 15 \<and>
     (if unat (SampleRateIndex c) < 13 then SampleRate c = sampleRateTable ! unat (SampleRateIndex c)
      else if SampleRateIndex c = 15 then 0 \<le> SampleRate c \<and> SampleRate c < 2 ^ 24
      else SampleRate c = 0) \<and>
     ChannelLayout c = (if unat (ChannelConfig c) < 8 then chanConfigTable ! unat (ChannelConfig c) else 0)"

lemma take_bit_small: "unat w < 2 ^ n \<Longrightarrow> take_bit n w = (w :: 64 word)"
  by (rule word_unat_eq_iff [THEN iffD2]) (simp add: unsigned_take_bit_eq take_bit_nat_eq_self)

lemma write_ot_sr:
  "sbind (writeObjectType t) (\<lambda>_. sbind (writeSampleRateIndex i rate) (\<lambda>_. sbind (WriteBits ch 4) f)) =
     sbind (write_fields (ot_fields t @ sr_fields i rate @ [(ch, 4)])) f"
  by (simp add: writeObjectType_def writeSampleRateIndex_def ot_fields_def sr_fields_def WriteBits_def sbind_assoc)

lemma readObjectType_read:
  assumes "rok r" and "rd_n r < 8" and "rstream r = field_bits (ot_fields t) @ rest"
    and "unat t < 96" and "t \<noteq> 31"
  shows "\<exists>r'. readObjectType r = (Inr t, r') \<and> rok r' \<and> rd_n r' < 8 \<and> rstream r' = rest"
proof (cases "32 \<le> t")
  case True
  have t: "unat (t - 32) < 2 ^ 6" "32 + (t - 32) = t"
    using True assms(4) by (simp_all add: unat_sub word_le_nat_alt)
  have "take_bit 5 (31 :: 64 word) = 31" by simp
  with ReadBits64_small [OF assms(1,2), of 5 "wbits 5 (31 :: 64 word)" "wbits 6 (t - 32) @ rest"] assms(3) True
  obtain u where u: "ReadBits64 5 r = (Inr 31, u)" "rok u" "rd_n u < 8" "rstream u = wbits 6 (t - 32) @ rest"
    by (auto simp: ot_fields_def)
  from ReadBits64_small [OF u(2,3), of 6 "wbits 6 (t - 32)" rest] u(4) obtain r' where
    "ReadBits64 6 u = (Inr (t - 32), r')" "rok r'" "rd_n r' < 8" "rstream r' = rest"
    using take_bit_small [OF t(1)] by auto
  with u(1) t(2) show ?thesis by (simp add: readObjectType_def ReadBits_def)
next
  case False
  then have "unat t < 2 ^ 5" by (simp add: word_le_nat_alt)
  from ReadBits64_small [OF assms(1,2), of 5 "wbits 5 t" rest] assms(3) False obtain r' where
    "ReadBits64 5 r = (Inr t, r')" "rok r'" "rd_n r' < 8" "rstream r' = rest"
    using take_bit_small [OF \<open>unat t < 2 ^ 5\<close>] by (auto simp: ot_fields_def)
  with assms(5) show ?thesis by (simp add: readObjectType_def ReadBits_def)
qed

lemma readSampleRateIndex_read:
  assumes "rok r" and "rd_n r < 8" and "rstream r = field_bits (sr_fields i rate) @ rest"
    and "unat i \<le> 15" and "0 \<le> rate" and "rate < 2 ^ 24"
  shows "\<exists>r'. readSampleRateIndex r = (Inr (i, if i = 15 then rate else 0), r') \<and> rok r' \<and>
           rd_n r' < 8 \<and> rstream r' = rest"
proof (cases "i = 15")
  case True
  let ?v = "word_of_int rate :: 64 word"
  have v: "unat ?v < 2 ^ 24" "sint ?v = rate"
    using assms(5,6) by (simp_all add: unsigned_of_int signed_of_int nat_less_iff take_bit_int_eq_self
        signed_take_bit_int_eq_self)
  have "take_bit 4 (15 :: 64 word) = 15" by simp
  with ReadBits64_small [OF assms(1,2), of 4 "wbits 4 (15 :: 64 word)" "wbits 24 ?v @ rest"] assms(3) True
  obtain u where u: "ReadBits64 4 r = (Inr 15, u)" "rok u" "rd_n u < 8" "rstream u = wbits 24 ?v @ rest"
    by (auto simp: sr_fields_def)
  from ReadBits64_small [OF u(2,3), of 24 "wbits 24 ?v" rest] u(4) obtain r' where
    "ReadBits64 24 u = (Inr ?v, r')" "rok r'" "rd_n r' < 8" "rstream r' = rest"
    using take_bit_small [OF v(1)] by auto
  with u(1) v(2) True show ?thesis by (simp add: readSampleRateIndex_def ReadBits_def)
next
  case False
  then have "\<not> 15 \<le> i" using assms(4) by (auto simp: word_le_nat_alt word_unat_eq_iff)
  moreover have "unat i < 2 ^ 4" using assms(4) by simp
  ultimately obtain r' where
    "ReadBits64 4 r = (Inr i, r')" "rok r'" "rd_n r' < 8" "rstream r' = rest"
    using ReadBits64_small [OF assms(1,2), of 4 "wbits 4 i" rest] assms(3) take_bit_small [of i 4]
    by (auto simp: sr_fields_def)
  with False show ?thesis by (simp add: readSampleRateIndex_def ReadBits_def)
qed

lemma resolve_canonical:
  assumes "canonical c"
  shows "resolve_rate c = SampleRateIndex c" and "resolve_channels c = ChannelConfig c"
proof -
  show "resolve_rate c = SampleRateIndex c"
    using assms by (auto simp: canonical_def resolve_rate_def sampleRateTable_def)
  have "index_last 0 chanConfigTable = Some 0"
    by (simp add: chanConfigTable_def ChFrontCenter_def ChFrontLeft_def ChFrontRight_def ChBackCenter_def
        ChBackLeft_def ChBackRight_def ChSideLeft_def ChSightRight_def ChLowFreq_def)
  moreover have "chanConfigTable ! 0 = 0" by (simp add: chanConfigTable_def)
  ultimately show "resolve_channels c = ChannelConfig c"
    using assms by (auto simp: canonical_def resolve_channels_def)
qed

lemma eof_as_Inr [simp]: "m s = (Inr x, s') \<Longrightarrow> eof_as msg m s = (Inr x, s')"
  by (simp add: eof_as_def)

lemma canonical_Complete:
  assumes "canonical c"
  shows "Complete \<lparr>SampleRate = (if SampleRateIndex c = 15 then SampleRate c else 0), ChannelLayout = 0,
    ObjectType = ObjectType c, SampleRateIndex = SampleRateIndex c, ChannelConfig = ChannelConfig c\<rparr> = c"
proof -
  have "length sampleRateTable = 13" "length chanConfigTable = 8"
    by (simp_all add: sampleRateTable_def chanConfigTable_def)
  with assms show ?thesis by (cases c) (auto simp: canonical_def Complete_def Let_def)
qed

section \<open>The bytes of an ADTS header\<close>

lemma adts_byte2:
  fixes ot sr ch :: byte
  shows "drop_bit 6 (push_bit 6 (ot AND 0x3) OR push_bit 2 (sr AND 0xf) OR ch AND 0x1) = ot AND 0x3"
    "drop_bit 2 (push_bit 6 (ot AND 0x3) OR push_bit 2 (sr AND 0xf) OR ch AND 0x1) AND 0xf = sr AND 0xf"
    "push_bit 2 (push_bit 6 (ot AND 0x3) OR push_bit 2 (sr AND 0xf) OR ch AND 0x1) AND 0x4 = push_bit 2 (ch AND 1)"
  by (rule byte_eqI; simp add: bit_simps bit_1_iff)+

lemma adts_byte3:
  fixes x c l :: byte
  shows "drop_bit 6 ((x AND 0x3f OR push_bit 6 c) AND 0xfc OR l AND 0x3) AND 0x3 = c AND 0x3"
    "((x AND 0x3f OR push_bit 6 c) AND 0xfc OR l AND 0x3) AND 0x3 = l AND 0x3"
  by (rule byte_eqI; simp add: bit_simps)+

lemma adts_byte56:
  fixes l s :: byte
  shows "drop_bit 5 (0xff AND 0x1f OR push_bit 5 (l AND 0x7)) = l AND 0x7"
   "(0xff AND 0xfc OR s) AND 0x3 = s AND 0x3"
  by (rule byte_eqI; simp add: bit_simps)+

lemma masks: "x AND 0x3 = take_bit 2 x" "x AND 0x7 = take_bit 3 x" "x AND 0xf = take_bit 4 x" "x AND 1 = take_bit 1 x" for x :: "'a::len word"
  by (simp_all add: take_bit_eq_mask mask_eq_exp_minus_1)

lemma adts_len:
  fixes l :: "64 word"
  shows "push_bit 11 (ucast (ucast (drop_bit 11 l) AND 0x3 :: byte)) OR push_bit 3 (ucast (ucast (drop_bit 3 l) :: byte))
     OR ucast (ucast l AND 0x7 :: byte) = take_bit 13 l" (is "?v = _")
proof (rule bit_word_eqI)
  fix n :: nat assume "n < LENGTH(64)"
  then consider "n < 3" | "3 \<le> n" "n < 11" | "11 \<le> n" "n < 13" | "13 \<le> n" "n < 64" by fastforce
  then show "bit ?v n = bit (take_bit 13 l) n"
    by cases (auto simp: masks bit_simps less_diff_conv2 le_diff_conv2)
qed
lemma ucast_take_bit_ucast:
  fixes x :: "64 word"
  shows "k \<le> 8 \<Longrightarrow> ucast (take_bit k (ucast x :: byte)) = take_bit k x"
  by (rule bit_word_eqI) (auto simp: bit_simps)

lemma adts_channels:
  fixes ch :: "64 word"
  assumes "unat ch < 8"
  shows "ucast (push_bit 2 (ucast (drop_bit 2 ch) AND 0x1) OR ucast (ch AND 0x3) AND 0x3 :: byte) = ch"
proof -
  have "take_bit 3 ch = ch" using assms by (intro take_bit_small) simp
  then have b: "bit ch n \<longleftrightarrow> n < 3 \<and> bit ch n" for n by (metis bit_take_bit_iff)
  show ?thesis
  proof (rule bit_word_eqI)
    fix n :: nat assume "n < LENGTH(64)"
    then consider "n = 0" | "n = 1" | "n = 2" | "3 \<le> n" "n < 64" by fastforce
    moreover have "odd (ucast (drop_bit 2 ch) :: byte) \<longleftrightarrow> bit ch 2" by (simp add: bit_simps flip: bit_0)
    ultimately show "bit (ucast (push_bit 2 (ucast (drop_bit 2 ch) AND 0x1) OR ucast (ch AND 0x3) AND 0x3 :: byte) :: 64 word) n = bit ch n"
      using b [of n] by cases (auto simp: masks bit_simps)
  qed
qed

lemma adts_samples:
  fixes k :: int
  assumes "0 \<le> k" "k < 4"
  shows "unat (word_of_int k AND 0x3 :: byte) = nat k"
proof -
  have "k = 0 \<or> k = 1 \<or> k = 2 \<or> k = 3" using assms by auto
  then show ?thesis by (elim disjE) simp_all
qed

section \<open>Properties\<close>

text \<open>C35: The AudioSpecificConfig that \<open>WriteMPEG4AudioConfig\<close> writes is parsed back to the
  same configuration by \<open>ParseMPEG4AudioConfigBytes\<close>, escapes for the object type and the
  sample rate included, for every configuration the encoding can represent.\<close>

theorem mpeg4_config_roundtrip:
  assumes "canonical c"
  shows "\<exists>b. WriteMPEG4AudioConfig c = Inr b \<and> ParseMPEG4AudioConfigBytes b = Inr c"
proof -
  let ?t = "ObjectType c" and ?i = "SampleRateIndex c" and ?ch = "ChannelConfig c"
  let ?fs = "ot_fields ?t @ sr_fields ?i (SampleRate c) @ [(?ch, 4)]"
  have can: "unat ?t < 96" "?t \<noteq> 31" "unat ?i \<le> 15" "unat ?ch \<le> 15" using assms by (simp_all add: canonical_def)
  have rate: "0 \<le> (if ?i = 15 then SampleRate c else 0)" "(if ?i = 15 then SampleRate c else 0) < 2 ^ 24"
    using assms by (auto simp: canonical_def)
  have sr: "sr_fields ?i (SampleRate c) = sr_fields ?i (if ?i = 15 then SampleRate c else 0)"
    using can(3) by (auto simp: sr_fields_def word_le_nat_alt word_unat_eq_iff)
  have "unat (word_of_int (SampleRate c) :: 64 word) < 2 ^ 24" if "15 \<le> ?i"
    using rate that can(3)
    by (auto simp: unsigned_of_int nat_less_iff take_bit_int_eq_self word_le_nat_alt word_unat_eq_iff)
  then have "\<forall>f\<in>set ?fs. small_field f"
    using can by (auto simp: small_field_def ot_fields_def sr_fields_def word_le_nat_alt unat_sub
        intro!: take_bit_small)
  moreover have "sum_list (map snd ?fs) \<le> 64" by (simp add: ot_fields_def sr_fields_def)
  ultimately obtain u where
    u: "write_fields ?fs new_bwriter = (Inr (), u)" "wr_n u \<le> 64" "wstream u = field_bits ?fs"
    using write_fields_stream [of new_bwriter ?fs] by auto
  from FlushBits_stream [OF u(2)] u(3) obtain w pad where
    w: "FlushBits u = (Inr (), w)" "byte_bits (wr_W w) = field_bits ?fs @ replicate pad False" by metis
  let ?b = "wr_W w @ asc_suffix"
  have "WriteMPEG4AudioConfig c = Inr ?b"
    using u(1) w(1) by (simp add: WriteMPEG4AudioConfig_def resolve_canonical [OF assms] write_ot_sr)
  moreover have "ParseMPEG4AudioConfigBytes ?b = Inr c"
  proof -
    let ?rest = "replicate pad False @ byte_bits asc_suffix"
    have fb: "field_bits (xs @ ys) = field_bits xs @ field_bits ys" for xs ys by (simp add: field_bits_def)
    have "rstream (new_breader ?b) = field_bits (ot_fields ?t) @ field_bits (sr_fields ?i (SampleRate c)) @ wbits 4 ?ch @ ?rest"
      by (simp add: w(2) fb)
    from readObjectType_read [OF _ _ this can(1,2)] obtain r1 where
      r1: "readObjectType (new_breader ?b) = (Inr ?t, r1)" "rok r1" "rd_n r1 < 8"
        "rstream r1 = field_bits (sr_fields ?i (SampleRate c)) @ wbits 4 ?ch @ ?rest"
      by (auto simp: new_breader_def rok_def)
    from readSampleRateIndex_read [OF r1(2,3) r1(4) [unfolded sr] can(3) rate] obtain r2 where
      r2: "readSampleRateIndex r1 = (Inr (?i, if ?i = 15 then SampleRate c else 0), r2)" "rok r2" "rd_n r2 < 8"
        "rstream r2 = wbits 4 ?ch @ ?rest" by auto
    have "take_bit 4 ?ch = ?ch" using can(4) by (intro take_bit_small) simp
    with ReadBits64_small [OF r2(2,3), of 4 "wbits 4 ?ch" ?rest] r2(4) obtain r3 where
      "ReadBits64 4 r2 = (Inr ?ch, r3)" by auto
    moreover define hz where "hz = (if ?i = 15 then SampleRate c else 0)"
    moreover have "?b \<noteq> []" by (simp add: asc_suffix_def)
    moreover have "(if hz \<noteq> 0 then hz else 0) = hz" by simp
    ultimately show ?thesis
      using r1(1) r2(1) canonical_Complete [OF assms]
      unfolding ParseMPEG4AudioConfigBytes_def ReadBits_def hz_def [symmetric] by simp
  qed
  ultimately show ?thesis by blast
qed

theorem mpeg4_config_roundtrip_witness:
  "let c = \<lparr>SampleRate = 44100, ChannelLayout = ChFrontLeft OR ChFrontRight, ObjectType = 2,
      SampleRateIndex = 4, ChannelConfig = 2\<rparr>
   in \<exists>b. WriteMPEG4AudioConfig c = Inr b \<and> ParseMPEG4AudioConfigBytes b = Inr c"
  unfolding Let_def
  by (rule mpeg4_config_roundtrip) (simp add: canonical_def sampleRateTable_def chanConfigTable_def)

text \<open>C36: The ADTS header that \<open>FillADTSHeader\<close> builds for a profile of two bits and at most four
  blocks of 1024 samples is parsed back by \<open>ParseADTSHeader\<close> to the same profile, rate and
  channel indices, header and frame lengths and sample count, whatever bytes the buffer held.\<close>

theorem adts_roundtrip:
  assumes "FillADTSHeader h c samples n = Inr b" and "unat (ObjectType c) \<le> 4" and "samples \<le> 4096"
  shows "ParseADTSHeader b = Inr (Complete (empty_config\<lparr>ObjectType := ObjectType c,
           SampleRateIndex := SampleRateIndex c, ChannelConfig := ChannelConfig c\<rparr>), 7, nat n + 7, nat samples)"
proof -
  let ?len = "word_of_int (n + 7) :: 64 word"
  have tabs: "length sampleRateTable = 13" "length chanConfigTable = 8"
    by (simp_all add: sampleRateTable_def chanConfigTable_def)
  from assms(1) have h: "7 \<le> length h" and v: "0 < ObjectType c" and i: "unat (SampleRateIndex c) < 13"
    and ch: "unat (ChannelConfig c) < 8" and s: "0 < samples" "samples mod 1024 = 0" and n: "0 \<le> n" "n + 7 < 2 ^ 13"
    by (auto simp: FillADTSHeader_def IsValid_def ADTSHeaderLength_def tabs Let_def split: if_splits)
  obtain q where q: "samples = 1024 * q" using s(2) by (auto simp: mod_eq_0_iff_dvd)
  let ?h2 = "push_bit 6 (ucast (ObjectType c - 1) AND 0x3) OR push_bit 2 (ucast (SampleRateIndex c) AND 0xf)
      OR ucast (drop_bit 2 (ChannelConfig c)) AND 0x1 :: byte"
  let ?h3 = "(h ! 3 AND 0x3f OR push_bit 6 (ucast (ChannelConfig c AND 0x3))) AND 0xfc OR ucast (drop_bit 11 ?len) AND 0x3"
  let ?h6 = "0xff AND 0xfc OR word_of_int (samples div 1024 - 1) :: byte"
  have b: "b = [0xff, 0xf1, ?h2, ?h3, ucast (drop_bit 3 ?len), 0xff AND 0x1f OR push_bit 5 (ucast ?len AND 0x7), ?h6] @ drop 7 h"
    using assms(1) by (auto simp: FillADTSHeader_def ADTSHeaderLength_def Let_def split: if_splits)
  have f: "b ! 0 = 0xff" "b ! 1 = 0xf1" "b ! 2 = ?h2" "b ! 3 = ?h3" "b ! 4 = ucast (drop_bit 3 ?len)"
    "b ! 5 = 0xff AND 0x1f OR push_bit 5 (ucast ?len AND 0x7)" "b ! 6 = ?h6" "7 \<le> length b"
    unfolding b using h by (simp_all only: nth_append length_Cons list.size nth_Cons_numeral nth_Cons_0, simp_all)
  have ot: "ucast (drop_bit 6 (b ! 2)) + 1 = ObjectType c"
  proof -
    have "unat (ObjectType c - 1) < 2 ^ 2" using assms(2) v by (simp add: unat_minus_one word_gt_0)
    then show ?thesis
      unfolding f(3) adts_byte2(1) unfolding masks(1) by (simp add: ucast_take_bit_ucast take_bit_small)
  qed
  have sr: "ucast (drop_bit 2 (b ! 2) AND 0xf) = SampleRateIndex c"
    unfolding f(3) adts_byte2(2) unfolding masks(3) using i by (simp add: ucast_take_bit_ucast take_bit_small)
  have cc: "ucast (push_bit 2 (b ! 2) AND 0x4 OR drop_bit 6 (b ! 3) AND 0x3) = ChannelConfig c"
    unfolding f(3,4) adts_byte2(3) adts_byte3(1) by (rule adts_channels [OF ch])
  have "push_bit 11 (ucast (b ! 3 AND 0x3)) OR push_bit 3 (ucast (b ! 4)) OR ucast (drop_bit 5 (b ! 5)) = take_bit 13 ?len"
    unfolding f(4,5,6) adts_byte3(2) adts_byte56(1) by (rule adts_len)
  moreover have "unat (take_bit 13 ?len) = nat n + 7"
  proof -
    obtain m where m: "n + 7 = int m" using n by (metis add_nonneg_nonneg nonneg_int_cases zero_le_numeral)
    then have m13: "m < 2 ^ 13" using n by simp
    then have "unat (word_of_nat m :: 64 word) = m" by (simp add: unat_of_nat)
    moreover have "?len = word_of_nat m" by (simp only: m of_int_of_nat_eq)
    moreover have nm: "nat n + 7 = m" using n(1) m by simp
    ultimately have u: "unat ?len = nat n + 7" by simp
    have "nat n + 7 < 2 ^ 13" using m13 unfolding nm .
    then show ?thesis unfolding unsigned_take_bit_eq u by (rule take_bit_nat_eq_self)
  qed
  ultimately have len: "unat (push_bit 11 (ucast (b ! 3 AND 0x3)) OR push_bit 3 (ucast (b ! 4))
      OR ucast (drop_bit 5 (b ! 5)) :: 64 word) = nat n + 7" by simp
  have sm: "(unat (b ! 6 AND 0x3) + 1) * 1024 = nat samples"
  proof -
    have q': "0 \<le> q - 1" "q - 1 < 4" using s(1) assms(3) q by simp_all
    have dq: "samples div 1024 - 1 = q - 1" using q by simp
    show ?thesis unfolding f(7) adts_byte56(2) dq adts_samples [OF q'] using q' by (simp add: q nat_mult_distrib nat_diff_distrib)
  qed
  show ?thesis
    unfolding ParseADTSHeader_def Let_def ot sr cc len sm
    using f(1,2,8) i ch by (simp add: tabs)
qed

theorem adts_roundtrip_witness:
  "let c = \<lparr>SampleRate = 44100, ChannelLayout = ChFrontLeft OR ChFrontRight, ObjectType = 2,
      SampleRateIndex = 4, ChannelConfig = 2\<rparr>
   in \<exists>b. FillADTSHeader (replicate 7 0) c 1024 100 = Inr b \<and> ParseADTSHeader b = Inr (c, 7, 107, 1024)"
proof -
  let ?c = "\<lparr>SampleRate = 44100, ChannelLayout = ChFrontLeft OR ChFrontRight, ObjectType = 2,
      SampleRateIndex = 4, ChannelConfig = 2\<rparr>"
  have tabs: "length sampleRateTable = 13" "length chanConfigTable = 8"
    by (simp_all add: sampleRateTable_def chanConfigTable_def)
  obtain b where b: "FillADTSHeader (replicate 7 0) ?c 1024 100 = Inr b"
    by (auto simp: FillADTSHeader_def ADTSHeaderLength_def IsValid_def tabs Let_def)
  from adts_roundtrip [OF this] have "ParseADTSHeader b = Inr (?c, 7, 107, 1024)"
    by (simp add: Complete_def empty_config_def tabs) (simp add: sampleRateTable_def chanConfigTable_def)
  with b show ?thesis unfolding Let_def by blast
qed

end
