(* ===== verification/Wbuf.thy ===== *)
theory Wbuf
  imports Pio
begin

text \<open>
  Serialisation into a byte slice at a running offset, the way every \<open>Marshal\<close> method of the
  code works: \<open>pio.Put...(b[n:], v); n += k\<close>, \<open>copy(b[n:], xs); n += len(xs)\<close> and a bare
  \<open>n += k\<close> that leaves the bytes as they are.  The slice comes from \<open>make\<close>, so bytes never
  written are zero.
\<close>

type_synonym wr = "bytes \<times> nat \<Rightarrow> (bytes \<times> nat) res"

definition wr_put :: "bytes \<Rightarrow> wr" where
  "wr_put xs = (\<lambda>(b, n). if length b < n + length xs then Inl Panic else Inr (put_at b n xs, n + length xs))"

definition wr_copy :: "bytes \<Rightarrow> wr" where
  "wr_copy xs = (\<lambda>(b, n). if length b < n then Inl Panic
     else Inr (put_at b n (take (length b - n) xs), n + length xs))"

definition wr_skip :: "nat \<Rightarrow> wr" where
  "wr_skip k = (\<lambda>(b, n). Inr (b, n + k))"

definition wr_none :: wr where
  "wr_none = (\<lambda>s. Inr s)"

definition wr_then :: "wr \<Rightarrow> wr \<Rightarrow> wr" where
  "wr_then f g = (\<lambda>s. ebind (f s) g)"

fun wr_all :: "wr list \<Rightarrow> wr" where
  "wr_all [] = wr_none"
| "wr_all (w # ws) = wr_then w (wr_all ws)"

definition wr_each :: "('a \<Rightarrow> wr) \<Rightarrow> 'a list \<Rightarrow> wr" where
  "wr_each f xs = wr_all (map f xs)"

text \<open>A fresh slice of the given size, and what is in it afterwards.\<close>

definition marshal_fresh :: "nat \<Rightarrow> wr \<Rightarrow> bytes res" where
  "marshal_fresh len w = ebind (w (replicate len 0, 0)) (\<lambda>(b, n). Inr b)"

definition zero_from :: "nat \<Rightarrow> bytes \<Rightarrow> bool" where
  "zero_from n b \<longleftrightarrow> (\<forall>i<length b. n \<le> i \<longrightarrow> b ! i = 0)"

definition zero_on :: "nat \<Rightarrow> nat \<Rightarrow> bytes \<Rightarrow> bool" where
  "zero_on n k b \<longleftrightarrow> (\<forall>i. n \<le> i \<longrightarrow> i < n + k \<longrightarrow> b ! i = 0)"

text \<open>
  \<open>w\<close> writes exactly \<open>xs\<close> when there is room for it and the bytes it is written over are still
  zero; what is behind them does not matter.
\<close>

definition writes :: "wr \<Rightarrow> bytes \<Rightarrow> bool" where
  "writes w xs \<longleftrightarrow> (\<forall>b n. n + length xs \<le> length b \<longrightarrow> zero_on n (length xs) b \<longrightarrow>
     w (b, n) = Inr (put_at b n xs, n + length xs))"

named_theorems writes_intros "what a writer writes"

lemma put_at_put_at:
  "n + length xs + length ys \<le> length b \<Longrightarrow> put_at (put_at b n xs) (n + length xs) ys = put_at b n (xs @ ys)"
  by (simp add: put_at_def ac_simps)

lemma zero_from_put_at:
  assumes "zero_from n b" and "n + length xs \<le> length b"
  shows "zero_from (n + length xs) (put_at b n xs)"
  using assms by (auto simp: zero_from_def put_at_def nth_append)

lemma zero_on_put_at:
  assumes "zero_on n (length xs + k) b" and "n + length xs + k \<le> length b"
  shows "zero_on (n + length xs) k (put_at b n xs)"
  using assms by (auto simp: zero_on_def put_at_def nth_append)

lemma zero_from_on: "zero_from n b \<Longrightarrow> n + k \<le> length b \<Longrightarrow> zero_on n k b"
  by (simp add: zero_from_def zero_on_def)

lemma writes_onD: "writes w xs \<Longrightarrow> n + length xs \<le> length b \<Longrightarrow> zero_on n (length xs) b \<Longrightarrow>
    w (b, n) = Inr (put_at b n xs, n + length xs)"
  by (simp add: writes_def)

lemma writesD: "writes w xs \<Longrightarrow> n + length xs \<le> length b \<Longrightarrow> zero_from n b \<Longrightarrow>
    w (b, n) = Inr (put_at b n xs, n + length xs)"
  by (simp add: writes_def zero_from_on)

lemma writes_put [writes_intros]: "writes (wr_put xs) xs"
  by (simp add: writes_def wr_put_def)

lemma writes_copy [writes_intros]: "writes (wr_copy xs) xs"
  by (simp add: writes_def wr_copy_def)

lemma writes_skip [writes_intros]: "writes (wr_skip k) (replicate k 0)"
proof -
  have "put_at b n (replicate k 0) = b" if "n + k \<le> length b" "zero_on n k b" for b n
    using that by (intro nth_equalityI) (auto simp: put_at_def nth_append zero_on_def)
  then show ?thesis by (simp add: writes_def wr_skip_def)
qed

lemma writes_none [writes_intros]: "writes wr_none []"
  by (simp add: writes_def wr_none_def put_at_def)

lemma writes_then [writes_intros]: "writes v xs \<Longrightarrow> writes w ys \<Longrightarrow> writes (wr_then v w) (xs @ ys)"
  unfolding writes_def [of "wr_then v w"]
proof (intro allI impI)
  fix b n
  assume v: "writes v xs" and w: "writes w ys" and len: "n + length (xs @ ys) \<le> length b" and z: "zero_on n (length (xs @ ys)) b"
  from z have "zero_on n (length xs) b" by (simp add: zero_on_def)
  then have "v (b, n) = Inr (put_at b n xs, n + length xs)" using len by (intro writes_onD [OF v]) simp_all
  moreover have "w (put_at b n xs, n + length xs) =
      Inr (put_at (put_at b n xs) (n + length xs) ys, n + length xs + length ys)"
    using len z by (intro writes_onD [OF w] zero_on_put_at) simp_all
  ultimately show "wr_then v w (b, n) = Inr (put_at b n (xs @ ys), n + length (xs @ ys))"
    using len by (simp add: wr_then_def put_at_put_at add.assoc)
qed

lemma writes_all_Nil [writes_intros]: "writes (wr_all []) []"
  by (simp add: writes_none)

lemma writes_all_Cons [writes_intros]:
  "writes w xs \<Longrightarrow> writes (wr_all ws) ys \<Longrightarrow> writes (wr_all (w # ws)) (xs @ ys)"
  by (simp add: writes_then)

lemma writes_each [writes_intros]:
  "(\<And>x. x \<in> set xs \<Longrightarrow> writes (f x) (g x)) \<Longrightarrow> writes (wr_each f xs) (concat (map g xs))"
  by (induction xs) (auto simp: wr_each_def intro!: writes_intros)

lemma marshal_fresh_writes:
  assumes "writes w xs" and "length xs \<le> len"
  shows "marshal_fresh len w = Inr (xs @ replicate (len - length xs) 0)"
proof -
  have "w (replicate len 0, 0) = Inr (put_at (replicate len 0) 0 xs, 0 + length xs)"
    using assms(2) by (intro writesD [OF assms(1)]) (simp_all add: zero_from_def)
  then show ?thesis by (simp add: marshal_fresh_def put_at_def)
qed

section \<open>Parameter sets behind a 16-bit length\<close>

text \<open>
  The loops of the decoder configuration records of H.264 and H.265: \<open>read_sets\<close> takes the
  slice from the current offset on and returns the sets and the rest of it.
\<close>

fun read_sets :: "string \<Rightarrow> nat \<Rightarrow> bytes \<Rightarrow> (bytes list \<times> bytes) res" where
  "read_sets e 0 b = Inr ([], b)"
| "read_sets e (Suc k) b =
     (if length b < 2 then Inl (Error e)
      else ebind (U16BE b) (\<lambda>v. let n = unat v; b1 = drop 2 b
        in if length b1 < n then Inl (Error e)
           else ebind (read_sets e k (drop n b1)) (\<lambda>(sets, rest). Inr (take n b1 # sets, rest))))"

definition len16 :: "bytes \<Rightarrow> 16 word" where
  "len16 b = word_of_nat (length b)"

definition set_bytes :: "bytes \<Rightarrow> bytes" where
  "set_bytes s = be16 (len16 s) @ s"

lemma read_sets_put:
  assumes "\<forall>s\<in>set ss. length s < 2 ^ 16"
  shows "read_sets e (length ss) (put_table set_bytes ss @ rest) = Inr (ss, rest)"
  using assms
proof (induction ss)
  case (Cons s ss)
  have "unat (len16 s) = length s" using Cons.prems by (simp add: len16_def unat_of_nat)
  with Cons show ?case by (simp add: set_bytes_def be16_def [symmetric])
qed simp

end
