(* ===== verification/H264.thy ===== *)
theory H264
  imports Wbuf Bits Nal Codec
begin

text \<open>
  \<open>codec/h264\<close>: the decoder configuration record (\<open>avc\_conf\_record.go\<close>), the sequence
  parameter set parser with its removal of emulation prevention bytes (\<open>parser.go\<close>), and the
  codec parameters built from both (\<open>parameters.go\<close>).
\<close>

section \<open>AVCDecoderConfRecord\<close>

record avc_record =
  AVCProfileIndication :: byte
  ProfileCompatibility :: byte
  AVCLevelIndication :: byte
  LengthSizeMinusOne :: byte
  SPS :: "bytes list"
  PPS :: "bytes list"

definition avc_invalid :: string where
  "avc_invalid = ''h264parser: AVCDecoderConfRecord invalid''"

text \<open>The record and the number of bytes consumed.\<close>

definition AVC_Unmarshal :: "bytes \<Rightarrow> (avc_record \<times> nat) res" where
  "AVC_Unmarshal b =
     (if length b < 7 then Inl (Error avc_invalid)
      else ebind (read_sets avc_invalid (unat (b ! 5 AND 0x1f)) (drop 6 b)) (\<lambda>(sps, b1).
        if length b1 < 1 then Inl (Error avc_invalid)
        else ebind (read_sets avc_invalid (unat (b1 ! 0)) (drop 1 b1)) (\<lambda>(pps, b2).
          Inr (\<lparr>AVCProfileIndication = b ! 1, ProfileCompatibility = b ! 2, AVCLevelIndication = b ! 3,
                LengthSizeMinusOne = b ! 4 AND 0x03, SPS = sps, PPS = pps\<rparr>, length b - length b2))))"

definition AVC_Len :: "avc_record \<Rightarrow> nat" where
  "AVC_Len avc = 7 + (\<Sum>s\<leftarrow>SPS avc. 2 + length s) + (\<Sum>s\<leftarrow>PPS avc. 2 + length s)"

definition len8 :: "'a list \<Rightarrow> byte" where
  "len8 xs = word_of_nat (length xs)"

definition wr_set :: "bytes \<Rightarrow> wr" where
  "wr_set s = wr_then (wr_put (be16 (len16 s))) (wr_copy s)"

definition AVC_Marshal :: "avc_record \<Rightarrow> wr" where
  "AVC_Marshal avc = wr_all
     [wr_put [1, AVCProfileIndication avc, ProfileCompatibility avc, AVCLevelIndication avc,
        LengthSizeMinusOne avc OR 0xfc, len8 (SPS avc) OR 0xe0],
      wr_each wr_set (SPS avc),
      wr_put [len8 (PPS avc)],
      wr_each wr_set (PPS avc)]"

section \<open>Emulation prevention\<close>

fun removeH264EmulationBytes :: "bytes \<Rightarrow> bytes" where
  "removeH264EmulationBytes (x # y # z # r) =
     (if x = 0 \<and> y = 0 \<and> z = 3 then 0 # 0 # removeH264EmulationBytes r
      else x # removeH264EmulationBytes (y # z # r))"
| "removeH264EmulationBytes [x, y] = [x, y]"
| "removeH264EmulationBytes [x] = [x]"
| "removeH264EmulationBytes [] = []"

text \<open>
  The encoder's side, as the standard has it: after two zero bytes, a byte of at most 3 is
  preceded by a 3.  \<open>z\<close> is the number of zero bytes just written.
\<close>

fun insert_emulation :: "nat \<Rightarrow> bytes \<Rightarrow> bytes" where
  "insert_emulation z [] = []"
| "insert_emulation z (x # xs) =
     (if z = 2 \<and> x \<le> 3 then 3 # x # insert_emulation (if x = 0 then 1 else 0) xs
      else x # insert_emulation (if x = 0 then z + 1 else 0) xs)"

section \<open>parseSPS\<close>

record sps_info =
  ID :: "64 word"
  ProfileIDC :: "64 word"
  LevelIDC :: "64 word"
  ConstraintSetFlag :: "64 word"
  MbWidth :: "64 word"
  MbHeight :: "64 word"
  CropLeft :: "64 word"
  CropRight :: "64 word"
  CropTop :: "64 word"
  CropBottom :: "64 word"
  Width :: "64 word"
  Height :: "64 word"
  FPS :: "64 word"

abbreviation ue :: "(gbr, 64 word) op" where
  "ue \<equiv> ReadExponentialGolombCode"

definition ignore :: "(gbr, 'a) op \<Rightarrow> (gbr, unit) op" where
  "ignore m = sbind m (\<lambda>_. sret ())"

fun scaling_list :: "nat \<Rightarrow> 64 word \<Rightarrow> 64 word \<Rightarrow> (gbr, unit) op" where
  "scaling_list 0 lastScale nextScale = sret ()"
| "scaling_list (Suc k) lastScale nextScale =
     sbind (if nextScale \<noteq> 0
            then sbind ReadSE (\<lambda>deltaScale. sret ((lastScale + deltaScale + 256) mod 256))
            else sret nextScale)
       (\<lambda>n. scaling_list k (if n \<noteq> 0 then n else lastScale) n)"

fun scaling_lists :: "nat list \<Rightarrow> (gbr, unit) op" where
  "scaling_lists [] = sret ()"
| "scaling_lists (i # is) = sbind ReadBit (\<lambda>present.
     sbind (if present \<noteq> 0 then scaling_list (if i < 6 then 16 else 64) 8 8 else sret ())
       (\<lambda>_. scaling_lists is))"

definition high_profiles :: "64 word list" where
  "high_profiles = [100, 110, 122, 244, 44, 83, 86, 118]"

definition sps_high_profile :: "64 word \<Rightarrow> (gbr, unit) op" where
  "sps_high_profile profile =
     (if profile \<notin> set high_profiles then sret ()
      else sbind ue (\<lambda>chromaFormatIDC.
        sbind (if chromaFormatIDC = 3 then ignore ReadBit else sret ()) (\<lambda>_.
        sbind ue (\<lambda>_. sbind ue (\<lambda>_. sbind ReadBit (\<lambda>_. sbind ReadBit (\<lambda>present.
        if present \<noteq> 0 then scaling_lists [0..<8] else sret ())))))))"

fun read_se_times :: "nat \<Rightarrow> (gbr, unit) op" where
  "read_se_times 0 = sret ()"
| "read_se_times (Suc k) = sbind ReadSE (\<lambda>_. read_se_times k)"

definition sps_pic_order :: "(gbr, unit) op" where
  "sps_pic_order = sbind ue (\<lambda>picOrderCntType.
     if picOrderCntType = 0 then ignore ue
     else if picOrderCntType = 1 then
       sbind ReadBit (\<lambda>_. sbind ReadSE (\<lambda>_. sbind ReadSE (\<lambda>_. sbind ue (\<lambda>n. read_se_times (unat n)))))
     else sret ())"

definition sps_crop :: "sps_info \<Rightarrow> (gbr, sps_info) op" where
  "sps_crop s = sbind ReadBit (\<lambda>frameCroppingFlag.
     if frameCroppingFlag \<noteq> 0 then
       sbind ue (\<lambda>l. sbind ue (\<lambda>r. sbind ue (\<lambda>t. sbind ue (\<lambda>b.
         sret (s\<lparr>CropLeft := l, CropRight := r, CropTop := t, CropBottom := b\<rparr>)))))
     else sret s)"

definition sps_size :: "sps_info \<Rightarrow> 64 word \<Rightarrow> sps_info" where
  "sps_size s frameMbsOnlyFlag =
     s\<lparr>Width := MbWidth s * 16 - CropLeft s * 2 - CropRight s * 2,
       Height := (2 - frameMbsOnlyFlag) * MbHeight s * 16 - (CropTop s * 2 + CropBottom s * 2)\<rparr>"

definition sps_frame :: "sps_info \<Rightarrow> (gbr, sps_info) op" where
  "sps_frame s = sbind ue (\<lambda>w. sbind ue (\<lambda>h. sbind ReadBit (\<lambda>frameMbsOnlyFlag.
     sbind (if frameMbsOnlyFlag = 0 then ignore ReadBit else sret ()) (\<lambda>_.
     sbind ReadBit (\<lambda>_.
     sbind (sps_crop (s\<lparr>MbWidth := w + 1, MbHeight := h + 1\<rparr>)) (\<lambda>s.
     sret (sps_size s frameMbsOnlyFlag)))))))"

text \<open>
  The VUI part.  \<open>math.Floor(float64(t) / float64(n) / 2)\<close> is the integer quotient: for
  32-bit \<open>t\<close> and \<open>n\<close> the distance of \<open>t / n\<close> from an even integer above it is at least
  \<open>2^-32\<close> of its value, more than the rounding error of a double.
\<close>

definition vui_aspect_ratio :: "(gbr, unit) op" where
  "vui_aspect_ratio = sbind ReadBit (\<lambda>present. if present = 0 then sret ()
     else sbind (G_ReadBits 8) (\<lambda>aspectRatioIDC. if aspectRatioIDC = 255
       then sbind (G_ReadBits 16) (\<lambda>_. ignore (G_ReadBits 16)) else sret ()))"

definition vui_signal_type :: "(gbr, unit) op" where
  "vui_signal_type = sbind ReadBit (\<lambda>present. if present = 0 then sret ()
     else sbind (G_ReadBits 3) (\<lambda>_. sbind ReadBit (\<lambda>_. sbind ReadBit (\<lambda>colour.
       if colour = 0 then sret ()
       else sbind (G_ReadBits 8) (\<lambda>_. sbind (G_ReadBits 8) (\<lambda>_. ignore (G_ReadBits 8)))))))"

definition vui_timing :: "sps_info \<Rightarrow> (gbr, sps_info) op" where
  "vui_timing s = sbind ReadBit (\<lambda>present. if present = 0 then sret s
     else sbind (G_ReadBits 32) (\<lambda>numUnitsInTick. sbind (G_ReadBits 32) (\<lambda>timeScale.
       sbind ReadBit (\<lambda>fixedFrameRateFlag.
         (let s1 = (if 0 < numUnitsInTick
                    then s\<lparr>FPS := word_of_nat (unat timeScale div (2 * unat numUnitsInTick))\<rparr> else s)
          in sret (if fixedFrameRateFlag \<noteq> 0 then s1\<lparr>FPS := FPS s1 div 2\<rparr> else s1))))))"

definition sps_vui :: "sps_info \<Rightarrow> (gbr, sps_info) op" where
  "sps_vui s = sbind ReadBit (\<lambda>present. if present = 0 then sret s
     else sbind vui_aspect_ratio (\<lambda>_.
       sbind (sbind ReadBit (\<lambda>overscan. if overscan \<noteq> 0 then ignore ReadBit else sret ())) (\<lambda>_.
       sbind vui_signal_type (\<lambda>_.
       sbind (sbind ReadBit (\<lambda>loc. if loc \<noteq> 0 then sbind ReadSE (\<lambda>_. ignore ReadSE) else sret ())) (\<lambda>_.
       vui_timing s)))))"

definition empty_sps_info :: sps_info where
  "empty_sps_info = \<lparr>ID = 0, ProfileIDC = 0, LevelIDC = 0, ConstraintSetFlag = 0, MbWidth = 0, MbHeight = 0,
     CropLeft = 0, CropRight = 0, CropTop = 0, CropBottom = 0, Width = 0, Height = 0, FPS = 0\<rparr>"

definition sps_body :: "(gbr, sps_info) op" where
  "sps_body = sbind (G_ReadBits 8) (\<lambda>_. sbind (G_ReadBits 8) (\<lambda>profile. sbind (G_ReadBits 8) (\<lambda>constraints.
     sbind (G_ReadBits 8) (\<lambda>level. sbind ue (\<lambda>i.
     sbind (sps_high_profile profile) (\<lambda>_.
     sbind ue (\<lambda>_. sbind sps_pic_order (\<lambda>_. sbind ue (\<lambda>_. sbind ReadBit (\<lambda>_.
     sbind (sps_frame (empty_sps_info\<lparr>ProfileIDC := profile, ConstraintSetFlag := drop_bit 2 constraints,
         LevelIDC := level, ID := i\<rparr>)) sps_vui))))))))))"

definition parseSPS :: "bytes \<Rightarrow> sps_info res" where
  "parseSPS b = fst (sps_body (new_gbr (removeH264EmulationBytes b)))"

section \<open>parameters.go\<close>

text \<open>The bit rate estimate, a floating-point product, is left out.\<close>

record h264_params =
  hp_Record :: bytes
  hp_RecordInfo :: avc_record
  hp_SPSInfo :: sps_info
  hp_CodecType :: codec_type

definition H264_type :: codec_type where
  "H264_type = makeVideoCodecType (avCodecTypeMagic + 1)"

definition NewCodecDataFromSPSAndPPS :: "bytes \<Rightarrow> bytes \<Rightarrow> h264_params res" where
  "NewCodecDataFromSPSAndPPS sps pps =
     (if length sps < 4 then Inl (Error ''h264parser: SPS too short (need at least 4 bytes)'')
      else (let info = \<lparr>AVCProfileIndication = sps ! 1, ProfileCompatibility = sps ! 2,
                AVCLevelIndication = sps ! 3, LengthSizeMinusOne = word_of_nat (MinNaluSize - 1),
                SPS = [sps], PPS = [pps]\<rparr>
        in ebind (marshal_fresh (AVC_Len info) (AVC_Marshal info)) (\<lambda>buf.
           ebind (parseSPS sps) (\<lambda>s.
             Inr \<lparr>hp_Record = buf, hp_RecordInfo = info, hp_SPSInfo = s, hp_CodecType = H264_type\<rparr>))))"

definition NewCodecDataFromAVCDecoderConfRecord :: "bytes \<Rightarrow> h264_params res" where
  "NewCodecDataFromAVCDecoderConfRecord rec =
     ebind (AVC_Unmarshal rec) (\<lambda>(info, n).
       if SPS info = [] then Inl (Error ''h264parser: no SPS found in AVCDecoderConfRecord'')
       else if PPS info = [] then Inl (Error ''h264parser: no PPS found in AVCDecoderConfRecord'')
       else case parseSPS (hd (SPS info)) of
           Inl Panic \<Rightarrow> Inl Panic
         | Inl _ \<Rightarrow> Inl (Error ''h264parser: parse SPS failed'')
         | Inr s \<Rightarrow> Inr \<lparr>hp_Record = rec, hp_RecordInfo = info, hp_SPSInfo = s, hp_CodecType = H264_type\<rparr>)"

section \<open>Emulation bytes\<close>

lemma remove_nonzero: "x \<noteq> 0 \<Longrightarrow> removeH264EmulationBytes (x # l) = x # removeH264EmulationBytes l"
  by (cases "x # l" rule: removeH264EmulationBytes.cases) auto

lemma remove_zero_nonzero: "x \<noteq> 0 \<Longrightarrow> removeH264EmulationBytes (0 # x # l) = 0 # x # removeH264EmulationBytes l"
  by (cases l) (simp_all add: remove_nonzero)

lemma remove_two_zeros:
  "x \<noteq> 0 \<Longrightarrow> x \<noteq> 3 \<Longrightarrow> removeH264EmulationBytes (0 # 0 # x # l) = 0 # 0 # x # removeH264EmulationBytes l"
  by (simp add: remove_zero_nonzero)

text \<open>What a function that strips emulation prevention bytes has to do on escaped bytes.\<close>

locale emulation_stripper =
  fixes strip :: "bytes \<Rightarrow> bytes"
  assumes strip_short: "z \<le> 2 \<Longrightarrow> strip (replicate z 0) = replicate z 0"
    and strip_nonzero: "x \<noteq> 0 \<Longrightarrow> strip (x # l) = x # strip l"
    and strip_zero: "x \<noteq> 0 \<Longrightarrow> strip (0 # x # l) = 0 # x # strip l"
    and strip_zeros: "x \<noteq> 0 \<Longrightarrow> x \<noteq> 3 \<Longrightarrow> strip (0 # 0 # x # l) = 0 # 0 # x # strip l"
    and strip_escape: "x \<le> 3 \<Longrightarrow> strip (0 # 0 # 3 # x # l) = 0 # 0 # strip (x # l)"
begin

lemma strip_insert_zeros: "z \<le> 2 \<Longrightarrow> strip (replicate z 0 @ insert_emulation z b) = replicate z 0 @ b"
proof (induction b arbitrary: z)
  case Nil
  then show ?case by (simp add: strip_short)
next
  case (Cons x xs)
  have ih0: "strip (insert_emulation 0 xs) = xs" using Cons.IH [of 0] by simp
  have ih1: "strip (0 # insert_emulation 1 xs) = 0 # xs" using Cons.IH [of 1] by simp
  have ih2: "strip (0 # 0 # insert_emulation 2 xs) = 0 # 0 # xs"
    using Cons.IH [of 2] by (simp add: numeral_2_eq_2)
  consider "z = 0" | "z = 1" | "z = 2" using Cons.prems by linarith
  then show ?case
  proof cases
    case 1
    with ih0 ih1 show ?thesis by (cases "x = 0") (simp_all add: strip_nonzero)
  next
    case 2
    with ih0 ih2 show ?thesis by (cases "x = 0") (simp_all add: strip_zero numeral_2_eq_2)
  next
    case 3
    have "x \<noteq> 3 \<and> x \<noteq> 0" if "\<not> x \<le> 3" using that by auto
    with 3 ih0 ih1 show ?thesis
      by (cases "x \<le> 3"; cases "x = 0") (simp_all add: strip_escape strip_nonzero strip_zeros numeral_2_eq_2)
  qed
qed

lemma strip_insert: "strip (insert_emulation 0 b) = b"
  using strip_insert_zeros [of 0 b] by simp

end

interpretation strip264: emulation_stripper removeH264EmulationBytes
proof
  fix z :: nat assume "z \<le> 2"
  then have "z = 0 \<or> z = 1 \<or> z = 2" by auto
  then show "removeH264EmulationBytes (replicate z 0) = replicate z 0"
    by (elim disjE) (simp_all add: numeral_2_eq_2)
qed (auto simp: remove_nonzero remove_zero_nonzero remove_two_zeros)

section \<open>The record\<close>

definition avc_ok :: "avc_record \<Rightarrow> bool" where
  "avc_ok avc \<longleftrightarrow> unat (LengthSizeMinusOne avc) \<le> 3 \<and> length (SPS avc) < 32 \<and> length (PPS avc) < 256 \<and>
     (\<forall>s\<in>set (SPS avc) \<union> set (PPS avc). length s < 2 ^ 16)"

definition avc_bytes :: "avc_record \<Rightarrow> bytes" where
  "avc_bytes avc = [1, AVCProfileIndication avc, ProfileCompatibility avc, AVCLevelIndication avc,
        LengthSizeMinusOne avc OR 0xfc, len8 (SPS avc) OR 0xe0] @ put_table set_bytes (SPS avc) @
     len8 (PPS avc) # put_table set_bytes (PPS avc)"

lemma writes_set: "writes (wr_set s) (set_bytes s)"
  unfolding wr_set_def set_bytes_def by (intro writes_intros)

lemma AVC_Marshal_writes: "writes (AVC_Marshal avc) (avc_bytes avc)"
proof -
  have "writes (AVC_Marshal avc)
    ([1, AVCProfileIndication avc, ProfileCompatibility avc, AVCLevelIndication avc,
        LengthSizeMinusOne avc OR 0xfc, len8 (SPS avc) OR 0xe0] @
     concat (map set_bytes (SPS avc)) @ [len8 (PPS avc)] @ concat (map set_bytes (PPS avc)) @ [])"
    unfolding AVC_Marshal_def by (intro writes_intros writes_set)
  then show ?thesis by (simp add: avc_bytes_def put_table_def)
qed

lemma length_set_table: "length (put_table set_bytes ss) = (\<Sum>s\<leftarrow>ss. 2 + length s)"
  by (induction ss) (auto simp: set_bytes_def)

lemma length_avc_bytes: "length (avc_bytes avc) = AVC_Len avc"
  by (simp add: avc_bytes_def AVC_Len_def length_set_table)

lemma len8_mask:
  assumes "length xs < 32"
  shows "unat ((len8 xs OR 0xe0) AND 0x1f) = length xs"
proof -
  have "(len8 xs OR 0xe0) AND 0x1f = len8 xs AND 0x1f"
    by (rule byte_eqI) (simp_all add: bit_simps)
  also have "\<dots> = take_bit 5 (len8 xs)"
    by (simp add: take_bit_eq_mask mask_eq_exp_minus_1)
  also have "unat \<dots> = length xs"
    using assms by (simp add: len8_def unsigned_take_bit_eq unat_of_nat take_bit_nat_eq_self)
  finally show ?thesis .
qed

lemma low2_or: "unat (x :: byte) \<le> 3 \<Longrightarrow> (x OR 0xfc) AND 0x03 = x"
proof -
  assume "unat x \<le> 3"
  then have "take_bit 2 x = x"
    by (intro word_unat_eq_iff [THEN iffD2]) (simp add: unsigned_take_bit_eq take_bit_nat_eq_self)
  moreover have "(x OR 0xfc) AND 0x03 = x AND 0x03"
    by (rule byte_eqI) (simp_all add: bit_simps)
  ultimately show ?thesis by (simp add: take_bit_eq_mask mask_eq_exp_minus_1)
qed

section \<open>A sequence parameter set as bits\<close>

text \<open>
  The syntax of the standard (ISO/IEC 14496-10, 7.3.2.1.1 and E.1.1) for pictures in 4:2:0: the
  reference for the parser.  A field that the syntax has only under a flag is an option; a scaling
  list is the list of its deltas.  The video usability information is given up to the timing
  fields; what follows them is not read.
\<close>

datatype poc_syntax =
  PocLsb nat
| PocCycle bool int int "int list"
| PocOutput

record vui_syntax =
  v_aspect :: "(byte \<times> 16 word \<times> 16 word) option"
  v_overscan :: "bool option"
  v_signal :: "(byte \<times> bool \<times> (byte \<times> byte \<times> byte) option) option"
  v_chroma_loc :: "(int \<times> int) option"
  v_timing :: "(32 word \<times> 32 word \<times> bool) option"

record high_syntax =
  h_luma_depth :: nat
  h_chroma_depth :: nat
  h_bypass :: bool
  h_scaling :: "int list option list option"

record sps_syntax =
  y_nal :: byte
  y_profile :: byte
  y_constraints :: byte
  y_level :: byte
  y_id :: nat
  y_high :: "high_syntax option"
  y_log2_frame_num :: nat
  y_poc :: poc_syntax
  y_ref_frames :: nat
  y_gaps :: bool
  y_width :: nat
  y_height :: nat
  y_frame_mbs_only :: bool
  y_mbaff :: bool
  y_direct8x8 :: bool
  y_crop :: "(nat \<times> nat \<times> nat \<times> nat) option"
  y_vui :: "vui_syntax option"

definition se_bits :: "int \<Rightarrow> bool list" where
  "se_bits d = ue_bits (nat (if 0 < d then 2 * d - 1 else - 2 * d))"

definition opt_bits :: "('a \<Rightarrow> bool list) \<Rightarrow> 'a option \<Rightarrow> bool list" where
  "opt_bits f x = (case x of None \<Rightarrow> [False] | Some y \<Rightarrow> True # f y)"

lemma opt_bits_simps [simp]: "opt_bits f None = [False]" "opt_bits f (Some y) = True # f y"
  by (simp_all add: opt_bits_def)

definition deltas_bits :: "int list \<Rightarrow> bool list" where
  "deltas_bits ds = concat (map se_bits ds)"

definition high_bits :: "high_syntax \<Rightarrow> bool list" where
  "high_bits y = ue_bits 1 @ ue_bits (h_luma_depth y) @ ue_bits (h_chroma_depth y) @ [h_bypass y] @
     opt_bits (\<lambda>ls. concat (map (opt_bits deltas_bits) ls)) (h_scaling y)"

fun poc_bits :: "poc_syntax \<Rightarrow> bool list" where
  "poc_bits (PocLsb n) = ue_bits 0 @ ue_bits n"
| "poc_bits (PocCycle z nr tb offs) =
     ue_bits 1 @ [z] @ se_bits nr @ se_bits tb @ ue_bits (length offs) @ deltas_bits offs"
| "poc_bits PocOutput = ue_bits 2"

definition crop_bits :: "nat \<times> nat \<times> nat \<times> nat \<Rightarrow> bool list" where
  "crop_bits = (\<lambda>(l, r, t, b). ue_bits l @ ue_bits r @ ue_bits t @ ue_bits b)"

definition vui_bits :: "vui_syntax \<Rightarrow> bool list" where
  "vui_bits v =
     opt_bits (\<lambda>(idc, w, h). wbits 8 idc @ (if idc = 255 then wbits 16 w @ wbits 16 h else [])) (v_aspect v) @
     opt_bits (\<lambda>f. [f]) (v_overscan v) @
     opt_bits (\<lambda>(fmt, full, colour). wbits 3 fmt @ [full] @
       opt_bits (\<lambda>(p, t, m). wbits 8 p @ wbits 8 t @ wbits 8 m) colour) (v_signal v) @
     opt_bits (\<lambda>(t, b). se_bits t @ se_bits b) (v_chroma_loc v) @
     opt_bits (\<lambda>(n, t, f). wbits 32 n @ wbits 32 t @ [f]) (v_timing v)"

definition sps_bits :: "sps_syntax \<Rightarrow> bool list" where
  "sps_bits y = wbits 8 (y_nal y) @ wbits 8 (y_profile y) @ wbits 8 (y_constraints y) @
     wbits 8 (y_level y) @ ue_bits (y_id y) @ (case y_high y of None \<Rightarrow> [] | Some h \<Rightarrow> high_bits h) @
     ue_bits (y_log2_frame_num y) @ poc_bits (y_poc y) @ ue_bits (y_ref_frames y) @ [y_gaps y] @
     (ue_bits (y_width y) @ ue_bits (y_height y) @ [y_frame_mbs_only y] @
       (if y_frame_mbs_only y then [] else [y_mbaff y]) @ [y_direct8x8 y] @ opt_bits crop_bits (y_crop y)) @
     opt_bits vui_bits (y_vui y)"

text \<open>
  The deltas that a scaling list of \<open>k\<close> entries holds: none after the one that makes the next
  scale 0.
\<close>

fun deltas_ok :: "nat \<Rightarrow> int \<Rightarrow> int \<Rightarrow> int list \<Rightarrow> bool" where
  "deltas_ok 0 lastScale nextScale ds \<longleftrightarrow> ds = []"
| "deltas_ok (Suc k) lastScale nextScale ds \<longleftrightarrow>
     (if nextScale = 0 then deltas_ok k lastScale 0 ds
      else case ds of [] \<Rightarrow> False
        | d # ds' \<Rightarrow> \<bar>d\<bar> \<le> 128 \<and>
            (let n = (lastScale + d + 256) mod 256
             in deltas_ok k (if n \<noteq> 0 then n else lastScale) n ds'))"

definition scaling_ok :: "int list option list \<Rightarrow> bool" where
  "scaling_ok ls \<longleftrightarrow> length ls = 8 \<and>
     (\<forall>i<8. case ls ! i of None \<Rightarrow> True | Some ds \<Rightarrow> deltas_ok (if i < 6 then 16 else 64) 8 8 ds)"

definition high_ok :: "high_syntax \<Rightarrow> bool" where
  "high_ok h \<longleftrightarrow> h_luma_depth h < 2 ^ 32 \<and> h_chroma_depth h < 2 ^ 32 \<and>
     (case h_scaling h of None \<Rightarrow> True | Some ls \<Rightarrow> scaling_ok ls)"

fun poc_ok :: "poc_syntax \<Rightarrow> bool" where
  "poc_ok (PocLsb n) \<longleftrightarrow> n < 2 ^ 32"
| "poc_ok (PocCycle z nr tb offs) \<longleftrightarrow> \<bar>nr\<bar> < 2 ^ 32 \<and> \<bar>tb\<bar> < 2 ^ 32 \<and> length offs < 2 ^ 32 \<and> (\<forall>d\<in>set offs. \<bar>d\<bar> < 2 ^ 32)"
| "poc_ok PocOutput \<longleftrightarrow> True"

definition vui_ok :: "vui_syntax \<Rightarrow> bool" where
  "vui_ok v \<longleftrightarrow> (case v_chroma_loc v of None \<Rightarrow> True | Some (t, b) \<Rightarrow> \<bar>t\<bar> < 2 ^ 32 \<and> \<bar>b\<bar> < 2 ^ 32)"

definition crop_of :: "sps_syntax \<Rightarrow> nat \<times> nat \<times> nat \<times> nat" where
  "crop_of y = (case y_crop y of None \<Rightarrow> (0, 0, 0, 0) | Some c \<Rightarrow> c)"

definition sps_ok :: "sps_syntax \<Rightarrow> bool" where
  "sps_ok y \<longleftrightarrow>
     (case y_high y of None \<Rightarrow> ucast (y_profile y) \<notin> set high_profiles
        | Some h \<Rightarrow> ucast (y_profile y) \<in> set high_profiles \<and> high_ok h) \<and>
     (\<forall>n\<in>{y_id y, y_log2_frame_num y, y_ref_frames y}. n < 2 ^ 32) \<and>
     poc_ok (y_poc y) \<and> y_width y < 2 ^ 20 \<and> y_height y < 2 ^ 20 \<and>
     (case crop_of y of (l, r, t, b) \<Rightarrow>
        2 * (l + r) \<le> 16 * (y_width y + 1) \<and> 2 * (t + b) \<le> 16 * (y_height y + 1)) \<and>
     (case y_vui y of None \<Rightarrow> True | Some v \<Rightarrow> vui_ok v)"

text \<open>
  What the standard makes of the syntax for 4:2:0: a frame of an interlaced sequence has two map
  units in height, and its vertical crop unit is four lines (\<open>CropUnitX = 2\<close>,
  \<open>CropUnitY = 2 * (2 - frame_mbs_only_flag)\<close>); the frame rate is
  \<open>time_scale / (2 * num_units_in_tick)\<close>.
\<close>

definition fields_of_frame :: "sps_syntax \<Rightarrow> nat" where
  "fields_of_frame y = (if y_frame_mbs_only y then 1 else 2)"

definition picture_width :: "sps_syntax \<Rightarrow> nat" where
  "picture_width y = (case crop_of y of (l, r, t, b) \<Rightarrow> 16 * (y_width y + 1) - 2 * (l + r))"

definition picture_height :: "sps_syntax \<Rightarrow> nat" where
  "picture_height y = (case crop_of y of (l, r, t, b) \<Rightarrow>
     16 * (fields_of_frame y * (y_height y + 1)) - 2 * fields_of_frame y * (t + b))"

definition timing_of :: "sps_syntax \<Rightarrow> (32 word \<times> 32 word \<times> bool) option" where
  "timing_of y = Option.bind (y_vui y) v_timing"

definition frame_rate :: "sps_syntax \<Rightarrow> nat" where
  "frame_rate y = (case timing_of y of None \<Rightarrow> 0 | Some (n, t, fixed) \<Rightarrow> unat t div (2 * unat n))"

definition fixed_rate :: "sps_syntax \<Rightarrow> bool" where
  "fixed_rate y = (case timing_of y of None \<Rightarrow> False | Some (n, t, fixed) \<Rightarrow> fixed)"

text \<open>The lines that the parser leaves uncropped in an interlaced frame: half of the crop.\<close>

definition uncropped :: "sps_syntax \<Rightarrow> nat" where
  "uncropped y = (case crop_of y of (l, r, t, b) \<Rightarrow> if y_frame_mbs_only y then 0 else 2 * (t + b))"

definition sps_result :: "sps_syntax \<Rightarrow> sps_info" where
  "sps_result y = (case crop_of y of (l, r, t, b) \<Rightarrow>
     \<lparr>ID = word_of_nat (y_id y), ProfileIDC = ucast (y_profile y), LevelIDC = ucast (y_level y),
      ConstraintSetFlag = drop_bit 2 (ucast (y_constraints y)),
      MbWidth = word_of_nat (y_width y + 1), MbHeight = word_of_nat (y_height y + 1),
      CropLeft = word_of_nat l, CropRight = word_of_nat r, CropTop = word_of_nat t, CropBottom = word_of_nat b,
      Width = word_of_nat (picture_width y),
      Height = word_of_nat (picture_height y + uncropped y),
      FPS = word_of_nat (if fixed_rate y then frame_rate y div 2 else frame_rate y)\<rparr>)"

subsection \<open>Signed codes, optional fields and words\<close>

lemma reads_ignore: "g_reads m xs v \<Longrightarrow> g_reads (ignore m) xs ()"
  unfolding ignore_def using g_reads_bind [of m xs v "\<lambda>_. sret ()" "[]" "()"] by (simp add: g_reads_sret)

lemma g_reads_done: "g_reads (Pair (Inr v)) [] v"
  by (simp add: g_reads_def)

lemma g_reads_wbits:
  fixes x :: "'a::len word"
  assumes "k \<le> LENGTH('a)" and "LENGTH('a) \<le> 64"
  shows "g_reads (G_ReadBits k) (wbits k x) (take_bit k (ucast x))"
proof -
  have "of_bits (wbits k x) = (take_bit k (ucast x) :: 64 word)"
  proof (rule bit_word_eqI)
    fix n assume "n < LENGTH(64)"
    then show "bit (of_bits (wbits k x) :: 64 word) n = bit (take_bit k (ucast x) :: 64 word) n"
      using assms by (cases "n < k") (auto simp: bits_simps bit_simps)
  qed
  then show ?thesis
    using golomb.or_bits_read [where bs = "wbits k x" and res = 0] assms
    by (auto simp: g_reads_def G_ReadBits_def)
qed

lemma g_reads_flag:
  "(\<And>b. x = b \<Longrightarrow> g_reads (f (of_bool b)) ys w) \<Longrightarrow> g_reads (sbind ReadBit f) (x # ys) w"
  using g_reads_bind [OF g_reads_bit, of f x ys w] by simp

lemma g_reads_se:
  assumes "\<bar>d\<bar> < 2 ^ 32"
  shows "g_reads ReadSE (se_bits d) (word_of_int (if 0 \<le> d then d else 2 ^ 63 + d))"
proof -
  define n where "n = nat (if 0 < d then 2 * d - 1 else - 2 * d)"
  have n: "n < 2 ^ 33 - 1" "n < 2 ^ 63" using assms by (auto simp: n_def)
  let ?f = "\<lambda>res :: 64 word. if res AND 1 \<noteq> 0 then (res + 1) div 2 else (- res) div 2"
  have "?f (word_of_nat n) = word_of_int (if 0 \<le> d then d else 2 ^ 63 + d)"
  proof (cases "0 < d")
    case True
    then have "odd n" "(n + 1) div 2 = nat d" by (auto simp: n_def even_nat_iff)
    moreover have "(word_of_nat n + 1 :: 64 word) div 2 = word_of_nat ((n + 1) div 2)"
      using word_of_nat_div2 [of "n + 1"] n by (simp add: add.commute)
    ultimately show ?thesis using True by (simp add: and_one_eq word_mod_2_nat)
  next
    case False
    then have "even n" "n div 2 = nat (- d)" by (auto simp: n_def even_nat_iff)
    moreover have "(- word_of_nat n :: 64 word) div 2 = word_of_nat (2 ^ 63 - n div 2)" if "n \<noteq> 0"
    proof -
      have "(- word_of_nat n :: 64 word) = word_of_nat (2 ^ 64 - n)" using n by (simp add: of_nat_diff)
      moreover have "(2 ^ 64 - n) div 2 = 2 ^ 63 - n div 2" using \<open>even n\<close> that n by auto
      ultimately show ?thesis using word_of_nat_div2 [of "2 ^ 64 - n"] that by simp
    qed
    moreover have "int (2 ^ 63 - n div 2) = 2 ^ 63 + d" using False n \<open>n div 2 = nat (- d)\<close> by auto
    then have "(word_of_nat (2 ^ 63 - n div 2) :: 64 word) = word_of_int (2 ^ 63 + d)"
      by (metis of_int_of_nat_eq)
    moreover have "n = 0 \<longleftrightarrow> d = 0" using False by (auto simp: n_def)
    ultimately show ?thesis using False by (cases "d = 0") (simp_all add: and_one_eq word_mod_2_nat)
  qed
  moreover have "g_reads ReadSE (ue_bits n @ []) (?f (word_of_nat n))"
    unfolding ReadSE_def by (intro g_reads_bind [OF g_reads_ue [OF n(1)]] g_reads_sret)
  ultimately show ?thesis unfolding se_bits_def n_def [symmetric] by simp
qed

lemma g_reads_opt:
  assumes "\<And>y. x = Some y \<Longrightarrow> g_reads m (f y) (h y)"
  shows "g_reads (sbind ReadBit (\<lambda>p. if p \<noteq> 0 then m else sret v)) (opt_bits f x)
           (case x of None \<Rightarrow> v | Some y \<Rightarrow> h y)"
    and "g_reads (sbind ReadBit (\<lambda>p. if p = 0 then sret v else m)) (opt_bits f x)
           (case x of None \<Rightarrow> v | Some y \<Rightarrow> h y)"
  using assms by (cases x; auto intro!: g_reads_flag g_reads_sret)+

lemma g_reads_opt_unit:
  assumes "\<And>y. x = Some y \<Longrightarrow> g_reads m (f y) ()"
  shows "g_reads (sbind ReadBit (\<lambda>p. if p \<noteq> 0 then m else sret ())) (opt_bits f x) ()"
    and "g_reads (sbind ReadBit (\<lambda>p. if p = 0 then sret () else m)) (opt_bits f x) ()"
  using assms by (cases x; auto intro!: g_reads_flag g_reads_sret)+

subsection \<open>The parts of the set\<close>

lemma word_mod_256: "(word_of_int a :: 64 word) mod 256 = word_of_int (a mod 256)"
proof -
  have "uint ((word_of_int a :: 64 word) mod 256) = a mod 256"
    by (simp add: uint_mod uint_word_of_int mod_mod_cancel)
  then show ?thesis by (metis word_of_int_uint)
qed

lemma scale_zero: "0 \<le> n \<Longrightarrow> n < 256 \<Longrightarrow> (word_of_int n :: 64 word) = 0 \<longleftrightarrow> n = 0"
  by (auto dest: arg_cong [of _ _ uint] simp: uint_word_of_int)

lemma reads_scaling_list:
  "deltas_ok k l n ds \<Longrightarrow> 0 \<le> n \<Longrightarrow> n < 256 \<Longrightarrow>
   g_reads (scaling_list k (word_of_int l) (word_of_int n)) (deltas_bits ds) ()"
proof (induction k arbitrary: l n ds)
  case 0
  then show ?case by (simp add: deltas_bits_def g_reads_done)
next
  case (Suc k)
  have n0: "(word_of_int n :: 64 word) = 0 \<longleftrightarrow> n = 0"
    using Suc.prems(2,3) by (rule scale_zero)
  show ?case
  proof (cases "n = 0")
    case True
    with Suc.IH [of l 0 ds] Suc.prems show ?thesis
      using g_reads_bind [OF g_reads_sret [of "0 :: 64 word"], of
        "\<lambda>n. scaling_list k (if n \<noteq> 0 then n else word_of_int l) n" "deltas_bits ds" "()"] by simp
  next
    case False
    with Suc.prems obtain d ds' where ds: "ds = d # ds'" "\<bar>d\<bar> \<le> 128" by (cases ds) auto
    define m where "m = (l + d + 256) mod 256"
    have m: "0 \<le> m" "m < 256" "deltas_ok k (if m \<noteq> 0 then m else l) m ds'"
      using Suc.prems False ds by (auto simp: m_def Let_def split: if_splits)
    have m0: "(word_of_int m :: 64 word) = 0 \<longleftrightarrow> m = 0"
      using m(1,2) by (rule scale_zero)
    let ?v = "word_of_int (if 0 \<le> d then d else 2 ^ 63 + d) :: 64 word"
    have "(word_of_int l + ?v + 256) mod 256 = word_of_int m"
    proof -
      have "word_of_int l + ?v + 256 = word_of_int (l + (if 0 \<le> d then d else 2 ^ 63 + d) + 256)" by simp
      also have "\<dots> mod 256 = word_of_int ((l + (if 0 \<le> d then d else 2 ^ 63 + d) + 256) mod 256)"
        by (rule word_mod_256)
      also have "(l + (if 0 \<le> d then d else 2 ^ 63 + d) + 256) mod 256 = m"
      proof (cases "0 \<le> d")
        case False
        then have "l + (if 0 \<le> d then d else 2 ^ 63 + d) + 256 = (l + d + 256) + 2 ^ 55 * 256" by simp
        then show ?thesis unfolding m_def by (simp only: mod_mult_self1)
      qed (simp add: m_def)
      finally show ?thesis .
    qed
    moreover have "g_reads (sbind ReadSE (\<lambda>v. sret ((word_of_int l + v + 256) mod 256))) (se_bits d @ [])
        ((word_of_int l + ?v + 256) mod 256)"
      using ds(2) by (intro g_reads_bind [OF g_reads_se] g_reads_sret) simp
    ultimately have delta: "g_reads (sbind ReadSE (\<lambda>v. sret ((word_of_int l + v + 256) mod 256))) (se_bits d) (word_of_int m)"
      by (simp only: append_Nil2)
    have "g_reads (scaling_list k (if word_of_int m \<noteq> (0 :: 64 word) then word_of_int m else word_of_int l) (word_of_int m))
        (deltas_bits ds') ()"
      using Suc.IH [OF m(3,1,2)] by (simp only: m0 if_distrib [of word_of_int])
    from g_reads_bind [where f = "\<lambda>n. scaling_list k (if n \<noteq> 0 then n else word_of_int l) n", OF delta this] False show ?thesis by (simp add: n0 ds deltas_bits_def)
  qed
qed

lemma reads_scaling_lists:
  "list_all2 (\<lambda>i x. case x of None \<Rightarrow> True | Some ds \<Rightarrow> deltas_ok (if i < 6 then 16 else 64) 8 8 ds) is ls \<Longrightarrow>
   g_reads (scaling_lists is) (concat (map (opt_bits deltas_bits) ls)) ()"
proof (induction rule: list_all2_induct)
  case Nil
  show ?case by (simp add: g_reads_done)
next
  case (Cons i "is" x ls)
  show ?case
  proof (cases x)
    case None
    with Cons.IH show ?thesis by (auto intro!: g_reads_flag)
  next
    case (Some ds)
    with Cons.hyps(1) reads_scaling_list [of "if i < 6 then 16 else 64" 8 8 ds]
    have "g_reads (scaling_list (if i < 6 then 16 else 64) 8 8) (deltas_bits ds) ()" by simp
    from g_reads_bind [OF this, of "\<lambda>_. scaling_lists is", OF Cons.IH] Some show ?thesis
      by (auto intro!: g_reads_flag split del: if_split)
  qed
qed

lemma reads_high:
  assumes "case h of None \<Rightarrow> p \<notin> set high_profiles | Some h \<Rightarrow> p \<in> set high_profiles \<and> high_ok h"
  shows "g_reads (sps_high_profile p) (case h of None \<Rightarrow> [] | Some h \<Rightarrow> high_bits h) ()"
proof (cases h)
  case None
  with assms show ?thesis by (simp add: sps_high_profile_def g_reads_sret)
next
  case (Some y)
  have lists: "g_reads (scaling_lists [0..<8]) (concat (map (opt_bits deltas_bits) ls)) ()" if "h_scaling y = Some ls" for ls
  proof (rule reads_scaling_lists)
    have "scaling_ok ls" using assms Some that by (simp add: high_ok_def)
    then show "list_all2 (\<lambda>i x. case x of None \<Rightarrow> True | Some ds \<Rightarrow> deltas_ok (if i < 6 then 16 else 64) 8 8 ds) [0..<8] ls"
      unfolding list_all2_conv_all_nth scaling_ok_def
      by (auto simp del: upt_rec_numeral split: option.splits split del: if_split)
  qed
  have "g_reads (sbind ue (\<lambda>chromaFormatIDC.
        sbind (if chromaFormatIDC = 3 then ignore ReadBit else sret ()) (\<lambda>_.
        sbind ue (\<lambda>_. sbind ue (\<lambda>_. sbind ReadBit (\<lambda>_. sbind ReadBit (\<lambda>present.
        if present \<noteq> 0 then scaling_lists [0..<8] else sret ())))))))
     (ue_bits 1 @ [] @ ue_bits (h_luma_depth y) @ ue_bits (h_chroma_depth y) @ [h_bypass y] @
       opt_bits (\<lambda>ls. concat (map (opt_bits deltas_bits) ls)) (h_scaling y)) ()"
    using assms Some
    by (intro g_reads_bind [OF g_reads_ue] g_reads_bind [OF g_reads_bit] g_reads_bind [where xs = "[]" and v = "()"]
        g_reads_opt_unit lists) (simp_all add: high_ok_def g_reads_sret)
  with assms Some show ?thesis by (simp add: sps_high_profile_def high_bits_def)
qed

lemma reads_se_times: "\<forall>d\<in>set ds. \<bar>d\<bar> < 2 ^ 32 \<Longrightarrow> g_reads (read_se_times (length ds)) (deltas_bits ds) ()"
  by (induction ds) (auto simp: deltas_bits_def intro!: g_reads_sret g_reads_bind [OF g_reads_se])

lemma reads_pic_order: "poc_ok p \<Longrightarrow> g_reads sps_pic_order (poc_bits p) ()"
proof (cases p)
  case (PocLsb n)
  moreover assume "poc_ok p"
  ultimately show ?thesis unfolding sps_pic_order_def
    by (auto intro!: g_reads_bind [OF g_reads_ue] reads_ignore [OF g_reads_ue])
next
  case (PocCycle z nr tb offs)
  moreover assume "poc_ok p"
  moreover have "unat (word_of_nat (length offs) :: 64 word) = length offs"
    using calculation by (simp add: unat_of_nat)
  ultimately show ?thesis unfolding sps_pic_order_def
    by (auto intro!: g_reads_bind [OF g_reads_ue] g_reads_flag g_reads_bind [OF g_reads_se] reads_se_times)
next
  case PocOutput
  have "g_reads sps_pic_order (ue_bits 2 @ []) ()" unfolding sps_pic_order_def
    by (rule g_reads_bind [OF g_reads_ue]) (simp_all add: g_reads_sret)
  with PocOutput show ?thesis by simp
qed

lemma reads_crop:
  assumes "\<forall>l r t b. c = Some (l, r, t, b) \<longrightarrow> l < 2 ^ 32 \<and> r < 2 ^ 32 \<and> t < 2 ^ 32 \<and> b < 2 ^ 32"
    and "CropLeft s = 0" "CropRight s = 0" "CropTop s = 0" "CropBottom s = 0"
  shows "g_reads (sps_crop s) (opt_bits crop_bits c)
    (case (case c of None \<Rightarrow> (0, 0, 0, 0) | Some c \<Rightarrow> c) of (l, r, t, b) \<Rightarrow>
     s\<lparr>CropLeft := word_of_nat l, CropRight := word_of_nat r, CropTop := word_of_nat t, CropBottom := word_of_nat b\<rparr>)"
proof (cases c)
  case None
  have "s\<lparr>CropLeft := 0, CropRight := 0, CropTop := 0, CropBottom := 0\<rparr> = s"
    using assms(2-5) by (cases s) simp
  with None show ?thesis by (auto simp: sps_crop_def intro!: g_reads_flag g_reads_done g_reads_sret)
next
  case (Some c)
  obtain l r t b where c: "c = (l, r, t, b)" by (cases c) auto
  have "g_reads (sbind ue (\<lambda>l. sbind ue (\<lambda>r. sbind ue (\<lambda>t. sbind ue (\<lambda>b.
         sret (s\<lparr>CropLeft := l, CropRight := r, CropTop := t, CropBottom := b\<rparr>))))))
      (ue_bits l @ ue_bits r @ ue_bits t @ ue_bits b @ [])
      (s\<lparr>CropLeft := word_of_nat l, CropRight := word_of_nat r, CropTop := word_of_nat t, CropBottom := word_of_nat b\<rparr>)"
    using assms(1) Some c by (intro g_reads_bind [OF g_reads_ue] g_reads_sret) simp_all
  with Some c show ?thesis by (auto simp: sps_crop_def crop_bits_def intro!: g_reads_flag)
qed

lemma sps_size_nat:
  fixes l r t b w h :: nat
  assumes "2 * (l + r) \<le> 16 * (w + 1)" and "2 * (t + b) \<le> 16 * (h + 1)"
  shows "(word_of_nat (w + 1) :: 64 word) * 16 - word_of_nat l * 2 - word_of_nat r * 2 = word_of_nat (16 * (w + 1) - 2 * (l + r))"
    and "(2 - of_bool f) * (word_of_nat (h + 1) :: 64 word) * 16 - (word_of_nat t * 2 + word_of_nat b * 2) =
      word_of_nat ((if f then 1 else 2) * 16 * (h + 1) - 2 * (t + b))"
proof -
  show "(word_of_nat (w + 1) :: 64 word) * 16 - word_of_nat l * 2 - word_of_nat r * 2 = word_of_nat (16 * (w + 1) - 2 * (l + r))"
    unfolding of_nat_diff [OF assms(1)] by (simp add: algebra_simps)
  have "2 * (t + b) \<le> (if f then 1 else 2) * 16 * (h + 1)" using assms(2) by auto
  then show "(2 - of_bool f) * (word_of_nat (h + 1) :: 64 word) * 16 - (word_of_nat t * 2 + word_of_nat b * 2) =
      word_of_nat ((if f then 1 else 2) * 16 * (h + 1) - 2 * (t + b))"
    by (subst of_nat_diff) (simp_all add: algebra_simps)
qed

text \<open>The height that the parser computes: cropped by two lines per unit, whatever the frame.\<close>

lemma height_uncropped:
  assumes "case crop_of y of (l, r, t, b) \<Rightarrow> 2 * (t + b) \<le> 16 * (y_height y + 1)"
  shows "picture_height y + uncropped y = (case crop_of y of (l, r, t, b) \<Rightarrow>
     (if y_frame_mbs_only y then 1 else 2) * 16 * (y_height y + 1) - 2 * (t + b))"
proof -
  obtain l r t b where c: "crop_of y = (l, r, t, b)" by (cases "crop_of y") auto
  have "2 * (t + b) \<le> 16 * (y_height y + 1)" using assms c by simp
  then show ?thesis by (cases "y_frame_mbs_only y") (simp_all add: picture_height_def uncropped_def c fields_of_frame_def)
qed

text \<open>The result before the timing fields are read.\<close>

definition sps_untimed :: "sps_syntax \<Rightarrow> sps_info" where
  "sps_untimed y = (sps_result y)\<lparr>FPS := 0\<rparr>"

lemma reads_frame:
  assumes "sps_ok y"
    and s: "s = empty_sps_info\<lparr>ProfileIDC := ucast (y_profile y), ConstraintSetFlag := drop_bit 2 (ucast (y_constraints y)),
         LevelIDC := ucast (y_level y), ID := word_of_nat (y_id y)\<rparr>"
  shows "g_reads (sps_frame s) (ue_bits (y_width y) @ ue_bits (y_height y) @ [y_frame_mbs_only y] @
       (if y_frame_mbs_only y then [] else [y_mbaff y]) @ [y_direct8x8 y] @ opt_bits crop_bits (y_crop y) @ []) (sps_untimed y)"
  unfolding sps_frame_def
proof (rule g_reads_bind [OF g_reads_ue])
  let ?s1 = "s\<lparr>MbWidth := word_of_nat (y_width y) + 1, MbHeight := word_of_nat (y_height y) + 1\<rparr>"
  let ?f = "of_bool (y_frame_mbs_only y) :: 64 word"
  have flag: "g_reads (if ?f = 0 then ignore ReadBit else sret ()) (if y_frame_mbs_only y then [] else [y_mbaff y]) ()"
    by (auto intro: g_reads_sret reads_ignore [OF g_reads_bit])
  obtain l r t b where c: "crop_of y = (l, r, t, b)" by (cases "crop_of y") auto
  have small: "2 * (l + r) \<le> 16 * (y_width y + 1)" "2 * (t + b) \<le> 16 * (y_height y + 1)"
    "y_width y < 2 ^ 20" "y_height y < 2 ^ 20"
    using assms(1) c by (simp_all add: sps_ok_def)
  have crop: "g_reads (sbind (sps_crop ?s1) (\<lambda>s. sret (sps_size s ?f))) (opt_bits crop_bits (y_crop y) @ []) (sps_untimed y)"
  proof (rule g_reads_bind [OF reads_crop])
    show "\<forall>l r t b. y_crop y = Some (l, r, t, b) \<longrightarrow> l < 2 ^ 32 \<and> r < 2 ^ 32 \<and> t < 2 ^ 32 \<and> b < 2 ^ 32"
      using small c by (auto simp: crop_of_def)
    have "sps_size (?s1\<lparr>CropLeft := word_of_nat l, CropRight := word_of_nat r, CropTop := word_of_nat t,
        CropBottom := word_of_nat b\<rparr>) ?f = sps_untimed y"
      using sps_size_nat(1) [OF small(1,2)] sps_size_nat(2) [OF small(1,2), of "y_frame_mbs_only y"]
        height_uncropped [of y] small(2)
      by (simp add: sps_size_def sps_untimed_def sps_result_def picture_width_def c s empty_sps_info_def add.commute)
    then show "g_reads (sret (sps_size (case (case y_crop y of None \<Rightarrow> (0, 0, 0, 0) | Some c \<Rightarrow> c) of (l, r, t, b) \<Rightarrow>
        ?s1\<lparr>CropLeft := word_of_nat l, CropRight := word_of_nat r, CropTop := word_of_nat t, CropBottom := word_of_nat b\<rparr>) ?f))
        [] (sps_untimed y)"
      using c by (simp add: g_reads_sret flip: crop_of_def)
  qed (simp_all add: s empty_sps_info_def)
  show "g_reads (sbind ue (\<lambda>h. sbind ReadBit (\<lambda>frameMbsOnlyFlag.
     sbind (if frameMbsOnlyFlag = 0 then ignore ReadBit else sret ()) (\<lambda>_.
     sbind ReadBit (\<lambda>_.
     sbind (sps_crop (s\<lparr>MbWidth := word_of_nat (y_width y) + 1, MbHeight := h + 1\<rparr>)) (\<lambda>s.
     sret (sps_size s frameMbsOnlyFlag)))))))
    (ue_bits (y_height y) @ [y_frame_mbs_only y] @ (if y_frame_mbs_only y then [] else [y_mbaff y]) @
       [y_direct8x8 y] @ opt_bits crop_bits (y_crop y) @ []) (sps_untimed y)"
    using small(4)
    by (intro g_reads_bind [OF g_reads_ue] g_reads_bind [OF g_reads_bit] g_reads_bind [OF flag] crop) simp
qed (use assms(1) in \<open>simp add: sps_ok_def\<close>)

subsection \<open>Video usability information\<close>

lemma ucast_byte_255: "(ucast (x :: byte) :: 64 word) = 255 \<longleftrightarrow> x = 255"
proof
  assume "(ucast x :: 64 word) = 255"
  then have "unat (ucast x :: 64 word) = 255" by simp
  moreover have "unat x < 2 ^ LENGTH(8)" by (rule unsigned_less)
  ultimately show "x = 255" by (simp add: word_unat_eq_iff unsigned_ucast_eq take_bit_nat_eq_self)
qed simp

lemma reads_aspect:
  "g_reads vui_aspect_ratio (opt_bits (\<lambda>(idc, w, h). wbits 8 (idc :: byte) @
     (if idc = 255 then wbits 16 (w :: 16 word) @ wbits 16 (h :: 16 word) else [])) x) ()"
  unfolding vui_aspect_ratio_def
  by (intro g_reads_opt_unit(2))
    (auto simp: ucast_byte_255 intro!: g_reads_bind [OF g_reads_byte] g_reads_bind [OF g_reads_wbits]
      reads_ignore [OF g_reads_wbits] g_reads_bind [OF g_reads_byte, where ys = "[]", simplified] g_reads_done g_reads_sret)

lemma reads_signal:
  "g_reads vui_signal_type (opt_bits (\<lambda>(fmt, full, colour). wbits 3 (fmt :: byte) @ [full] @
       opt_bits (\<lambda>(p, t, m). wbits 8 (p :: byte) @ wbits 8 (t :: byte) @ wbits 8 (m :: byte)) colour) x) ()"
  unfolding vui_signal_type_def
  by (intro g_reads_opt_unit(2))
    (auto intro!: g_reads_bind [OF g_reads_wbits] g_reads_flag g_reads_opt_unit(2) g_reads_bind [OF g_reads_byte]
      reads_ignore [OF g_reads_byte])

lemma unat_read32: "unat (take_bit 32 (ucast (x :: 32 word) :: 64 word)) = unat x"
proof -
  have "unat x < 2 ^ LENGTH(32)" by (rule unsigned_less)
  then show ?thesis by (simp add: unsigned_take_bit_eq unsigned_ucast_eq take_bit_nat_eq_self)
qed

lemma reads_timing:
  assumes "FPS s = 0"
  shows "g_reads (vui_timing s) (opt_bits (\<lambda>(n, t, f). wbits 32 (n :: 32 word) @ wbits 32 (t :: 32 word) @ [f]) x)
    (case x of None \<Rightarrow> s | Some (n, t, f) \<Rightarrow>
       s\<lparr>FPS := word_of_nat (if f then unat t div (2 * unat n) div 2 else unat t div (2 * unat n))\<rparr>)"
proof (cases x)
  case None
  then show ?thesis by (auto simp: vui_timing_def intro!: g_reads_flag g_reads_done g_reads_sret)
next
  case (Some y)
  obtain n t f where y: "y = (n, t, f)" by (cases y) auto
  let ?n = "take_bit 32 (ucast n) :: 64 word" and ?t = "take_bit 32 (ucast t) :: 64 word"
  let ?q = "unat t div (2 * unat n)"
  define s1 where "s1 = (if 0 < ?n then s\<lparr>FPS := word_of_nat (unat ?t div (2 * unat ?n))\<rparr> else s)"
  have "s\<lparr>FPS := 0\<rparr> = s" using assms by (cases s) simp
  moreover have "0 < ?n \<longleftrightarrow> n \<noteq> 0"
    using unat_read32 [of n] by (auto simp: word_neq_0_conv [symmetric] word_unat_eq_iff)
  ultimately have s1: "s1 = s\<lparr>FPS := word_of_nat ?q\<rparr>" by (auto simp: s1_def unat_read32)
  have "unat t < 2 ^ LENGTH(32)" by (rule unsigned_less)
  then have "?q < 2 ^ 64" using div_le_dividend [of "unat t" "2 * unat n"] by (simp del: div_le_dividend)
  then have "(if of_bool f \<noteq> (0 :: 64 word) then s1\<lparr>FPS := FPS s1 div 2\<rparr> else s1) =
      s\<lparr>FPS := word_of_nat (if f then ?q div 2 else ?q)\<rparr>"
    by (simp add: s1 word_of_nat_div2)
  moreover have "g_reads (vui_timing s) (True # wbits 32 n @ wbits 32 t @ [f] @ [])
      (if of_bool f \<noteq> (0 :: 64 word) then s1\<lparr>FPS := FPS s1 div 2\<rparr> else s1)"
    unfolding vui_timing_def
  proof (rule g_reads_flag)
    fix p assume "True = p"
    have "g_reads (sbind (G_ReadBits 32) (\<lambda>n. sbind (G_ReadBits 32) (\<lambda>t. sbind ReadBit (\<lambda>f.
         (let s1 = (if 0 < n then s\<lparr>FPS := word_of_nat (unat t div (2 * unat n))\<rparr> else s)
          in sret (if f \<noteq> 0 then s1\<lparr>FPS := FPS s1 div 2\<rparr> else s1))))))
       (wbits 32 n @ wbits 32 t @ [f] @ []) (if of_bool f \<noteq> (0 :: 64 word) then s1\<lparr>FPS := FPS s1 div 2\<rparr> else s1)"
      unfolding Let_def s1_def
      by (intro g_reads_bind [OF g_reads_wbits] g_reads_bind [OF g_reads_bit] g_reads_sret) simp_all
    with \<open>True = p\<close> show "g_reads (if of_bool p = (0 :: 64 word) then sret s
        else sbind (G_ReadBits 32) (\<lambda>numUnitsInTick. sbind (G_ReadBits 32) (\<lambda>timeScale. sbind ReadBit (\<lambda>fixedFrameRateFlag.
         (let s1 = (if 0 < numUnitsInTick
                    then s\<lparr>FPS := word_of_nat (unat timeScale div (2 * unat numUnitsInTick))\<rparr> else s)
          in sret (if fixedFrameRateFlag \<noteq> 0 then s1\<lparr>FPS := FPS s1 div 2\<rparr> else s1))))))
       (wbits 32 n @ wbits 32 t @ [f] @ []) (if of_bool f \<noteq> (0 :: 64 word) then s1\<lparr>FPS := FPS s1 div 2\<rparr> else s1)"
      by auto
  qed
  ultimately show ?thesis using Some y by simp
qed

lemma reads_vui:
  assumes "vui_ok v" and "FPS s = 0"
  shows "g_reads (sbind vui_aspect_ratio (\<lambda>_.
       sbind (sbind ReadBit (\<lambda>overscan. if overscan \<noteq> 0 then ignore ReadBit else sret ())) (\<lambda>_.
       sbind vui_signal_type (\<lambda>_.
       sbind (sbind ReadBit (\<lambda>loc. if loc \<noteq> 0 then sbind ReadSE (\<lambda>_. ignore ReadSE) else sret ())) (\<lambda>_.
       vui_timing s))))) (vui_bits v)
    (case v_timing v of None \<Rightarrow> s | Some (n, t, f) \<Rightarrow>
       s\<lparr>FPS := word_of_nat (if f then unat t div (2 * unat n) div 2 else unat t div (2 * unat n))\<rparr>)"
proof -
  have over: "g_reads (sbind ReadBit (\<lambda>overscan. if overscan \<noteq> 0 then ignore ReadBit else sret ()))
      (opt_bits (\<lambda>f. [f]) x) ()" for x
    by (intro g_reads_opt_unit(1) reads_ignore [OF g_reads_bit])
  have loc: "g_reads (sbind ReadBit (\<lambda>loc. if loc \<noteq> 0 then sbind ReadSE (\<lambda>_. ignore ReadSE) else sret ()))
      (opt_bits (\<lambda>(t, b). se_bits t @ se_bits b) (v_chroma_loc v)) ()"
    using assms(1) by (intro g_reads_opt_unit(1))
      (auto simp: vui_ok_def intro!: g_reads_bind [OF g_reads_se] reads_ignore [OF g_reads_se])
  show ?thesis unfolding vui_bits_def
    by (intro g_reads_bind [OF reads_aspect] g_reads_bind [OF over] g_reads_bind [OF reads_signal]
        g_reads_bind [OF loc] reads_timing assms(2))
qed

lemma reads_sps_vui:
  assumes "case y_vui y of None \<Rightarrow> True | Some v \<Rightarrow> vui_ok v"
  shows "g_reads (sps_vui (sps_untimed y)) (opt_bits vui_bits (y_vui y)) (sps_result y)"
proof (cases "y_vui y")
  case None
  then have "sps_untimed y = sps_result y"
    by (simp add: sps_untimed_def sps_result_def frame_rate_def timing_of_def split: prod.split)
  with None show ?thesis by (auto simp: sps_vui_def intro!: g_reads_flag g_reads_done g_reads_sret)
next
  case (Some v)
  have "(case v_timing v of None \<Rightarrow> sps_untimed y | Some (n, t, f) \<Rightarrow> (sps_untimed y)
       \<lparr>FPS := word_of_nat (if f then unat t div (2 * unat n) div 2 else unat t div (2 * unat n))\<rparr>) = sps_result y"
    using Some by (auto simp: sps_untimed_def sps_result_def frame_rate_def fixed_rate_def timing_of_def
        split: prod.split option.split)
  with reads_vui [of v "sps_untimed y"] Some assms show ?thesis
    unfolding sps_vui_def by (auto simp: sps_untimed_def intro!: g_reads_flag)
qed

section \<open>Properties\<close>

text \<open>C37: \<open>parseSPS\<close> decodes every sequence parameter set for 4:2:0 pictures: of a profile with
  or without the high-profile fields (bit depths, scaling lists), of every picture order count type,
  with or without cropping and video usability information, whatever follows the timing fields.
  The identifiers, the macroblock and cropping counts are those of the syntax, and the width is
  that of the standard.  So is the height of a progressive sequence; an interlaced one, whose
  vertical crop unit is four lines, is cropped by half of what it should be.  The frame rate is
  that of the standard, halved once more when it is fixed.  Other chroma formats are not covered.\<close>

theorem parseSPS_baseline:
  assumes "sps_ok y" and "byte_bits (removeH264EmulationBytes b) = sps_bits y @ rest"
  shows "parseSPS b = Inr (sps_result y)"
proof -
  have b: "y_id y < 2 ^ 33 - 1" "y_log2_frame_num y < 2 ^ 33 - 1" "y_ref_frames y < 2 ^ 33 - 1" "poc_ok (y_poc y)"
    "case y_high y of None \<Rightarrow> ucast (y_profile y) \<notin> set high_profiles
        | Some h \<Rightarrow> ucast (y_profile y) \<in> set high_profiles \<and> high_ok h"
    "case y_vui y of None \<Rightarrow> True | Some v \<Rightarrow> vui_ok v"
    using assms(1) by (simp_all add: sps_ok_def)
  have "g_reads sps_body (wbits 8 (y_nal y) @ wbits 8 (y_profile y) @ wbits 8 (y_constraints y) @
     wbits 8 (y_level y) @ ue_bits (y_id y) @ (case y_high y of None \<Rightarrow> [] | Some h \<Rightarrow> high_bits h) @
     ue_bits (y_log2_frame_num y) @ poc_bits (y_poc y) @ ue_bits (y_ref_frames y) @ [y_gaps y] @
     (ue_bits (y_width y) @ ue_bits (y_height y) @ [y_frame_mbs_only y] @
       (if y_frame_mbs_only y then [] else [y_mbaff y]) @ [y_direct8x8 y] @ opt_bits crop_bits (y_crop y) @ []) @
     opt_bits vui_bits (y_vui y)) (sps_result y)"
    unfolding sps_body_def using b(1-3)
    by (intro g_reads_bind [OF g_reads_byte] g_reads_bind [OF g_reads_ue] g_reads_bind [OF g_reads_bit]
        g_reads_bind [OF reads_high] g_reads_bind [OF reads_pic_order] g_reads_bind [OF reads_frame]
        reads_sps_vui b(4-6) assms(1) refl)
  then have "g_reads sps_body (sps_bits y) (sps_result y)" by (simp add: sps_bits_def)
  with g_readsD [OF this, of "new_gbr (removeH264EmulationBytes b)" rest] assms(2) show ?thesis
    by (auto simp: parseSPS_def)
qed

text \<open>A high-profile set of an interlaced 1080i sequence at fixed 25 frames a second: the height is
  1084 and the rate 12.\<close>

theorem parseSPS_baseline_witness:
  "\<exists>s. parseSPS [0x67, 100, 0, 40, 172, 217, 64, 120, 4, 79, 220, 32, 0, 0, 3, 0, 32, 0, 0, 6, 88] = Inr s \<and>
     Width s = 1920 \<and> Height s = 1084 \<and> FPS s = 12"
proof -
  let ?v = "\<lparr>v_aspect = None, v_overscan = None, v_signal = None, v_chroma_loc = None, v_timing = Some (1, 50, True)\<rparr>"
  let ?h = "\<lparr>h_luma_depth = 0, h_chroma_depth = 0, h_bypass = False, h_scaling = None\<rparr>"
  let ?y = "\<lparr>y_nal = 0x67, y_profile = 100, y_constraints = 0, y_level = 40, y_id = 0, y_high = Some ?h,
    y_log2_frame_num = 0, y_poc = PocLsb 2, y_ref_frames = 4, y_gaps = False, y_width = 119, y_height = 33,
    y_frame_mbs_only = False, y_mbaff = True, y_direct8x8 = True, y_crop = Some (0, 0, 0, 2), y_vui = Some ?v\<rparr>"
  let ?b = "[0x67, 100, 0, 40, 172, 217, 64, 120, 4, 79, 220, 32, 0, 0, 3, 0, 32, 0, 0, 6, 88] :: bytes"
  have "removeH264EmulationBytes ?b =
      [0x67, 100, 0, 40, 172, 217, 64, 120, 4, 79, 220, 32, 0, 0, 0, 32, 0, 0, 6, 88]" by simp
  moreover have ue: "ue_bits 0 = [True]" "ue_bits 1 = [False, True, False]" "ue_bits 2 = [False, True, True]"
    "ue_bits 4 = [False, False, True, False, True]"
    "ue_bits 119 = [False, False, False, False, False, False, True, True, True, True, False, False, False]"
    "ue_bits 33 = [False, False, False, False, False, True, False, False, False, True, False]"
    by (simp_all add: ue_bits_def bit_len.simps wbits_def upt_rec)
  ultimately have "byte_bits (removeH264EmulationBytes ?b) = sps_bits ?y @ [True, False, False, False]"
    by (simp add: sps_bits_def high_bits_def vui_bits_def crop_bits_def ue [unfolded One_nat_def] wbits_def upt_rec)
  moreover have "sps_ok ?y" by (simp add: sps_ok_def high_ok_def vui_ok_def high_profiles_def crop_of_def)
  ultimately have "parseSPS ?b = Inr (sps_result ?y)" by (intro parseSPS_baseline)
  then show ?thesis
    by (simp add: sps_result_def crop_of_def picture_width_def picture_height_def uncropped_def fields_of_frame_def
        frame_rate_def fixed_rate_def timing_of_def)
qed

text \<open>C38: Removing the emulation prevention bytes undoes their insertion.\<close>

theorem emulation_roundtrip: "removeH264EmulationBytes (insert_emulation 0 b) = b"
  by (rule strip264.strip_insert)

text \<open>C39: A decoder configuration record that fits its fields (at most 31 SPS, 255 PPS, each
  shorter than 64 KiB) is written by \<open>Marshal\<close> into exactly \<open>Len\<close> bytes, and \<open>Unmarshal\<close> reads
  the same record back, consuming exactly those bytes whatever follows them.\<close>

theorem avc_record_roundtrip:
  assumes "avc_ok avc"
  shows "\<exists>b. marshal_fresh (AVC_Len avc) (AVC_Marshal avc) = Inr b \<and> length b = AVC_Len avc \<and>
           AVC_Unmarshal (b @ rest) = Inr (avc, AVC_Len avc)"
proof -
  let ?b = "avc_bytes avc"
  have m: "marshal_fresh (AVC_Len avc) (AVC_Marshal avc) = Inr ?b"
    using marshal_fresh_writes [OF AVC_Marshal_writes, of avc "AVC_Len avc"] by (simp add: length_avc_bytes)
  have sps: "read_sets e (length (SPS avc)) (put_table set_bytes (SPS avc) @ r) = Inr (SPS avc, r)"
    and pps: "read_sets e (length (PPS avc)) (put_table set_bytes (PPS avc) @ r) = Inr (PPS avc, r)" for e r
    using assms by (auto simp: avc_ok_def intro!: read_sets_put)
  have "unat (len8 (PPS avc)) = length (PPS avc)"
    using assms by (simp add: avc_ok_def len8_def unat_of_nat)
  then have "AVC_Unmarshal (?b @ rest) = Inr (avc, AVC_Len avc)"
    using assms length_avc_bytes [of avc]
    by (simp add: AVC_Unmarshal_def avc_bytes_def len8_mask sps pps avc_ok_def low2_or length_set_table)
  with m show ?thesis by (simp add: length_avc_bytes)
qed

theorem avc_record_roundtrip_witness:
  "let avc = \<lparr>AVCProfileIndication = 0x64, ProfileCompatibility = 0, AVCLevelIndication = 0x1f,
      LengthSizeMinusOne = 3, SPS = [[0x67, 0x64]], PPS = [[0x68]]\<rparr>
   in \<exists>b. marshal_fresh (AVC_Len avc) (AVC_Marshal avc) = Inr b \<and> length b = AVC_Len avc \<and>
           AVC_Unmarshal (b @ [7]) = Inr (avc, AVC_Len avc)"
  unfolding Let_def by (rule avc_record_roundtrip) (simp add: avc_ok_def)

end
