(* ===== verification/H265.thy ===== *)
theory H265
  imports H264
begin

text \<open>
  \<open>codec/h265\<close>: the decoder configuration record (\<open>hevc\_conf\_record.go\<close>), the sequence
  parameter set parser (\<open>parser.go\<close>), the slice header and the PPS validator (\<open>utils.go\<close>), and
  the codec parameters (\<open>parameters.go\<close>).
\<close>

section \<open>HEVCDecoderConfRecord\<close>

definition h265_nal_type :: "byte \<Rightarrow> byte" where
  "h265_nal_type x = drop_bit 1 x AND 0x3f"

definition IsDataNALU :: "bytes \<Rightarrow> bool" where
  "IsDataNALU b \<longleftrightarrow> \<not> length b < 2 \<and> h265_nal_type (b ! 0) < 32"

record hevc_record =
  hv_ProfileIndication :: byte
  hv_ProfileCompatibility :: byte
  hv_LevelIndication :: byte
  hv_LengthSizeMinusOne :: byte
  hv_VPS :: "bytes list"
  hv_SPS :: "bytes list"
  hv_PPS :: "bytes list"

definition hevc_invalid :: string where
  "hevc_invalid = ''h265parser: HEVCDecoderConfRecord invalid''"

text \<open>The array behind the type byte and the 16-bit count, from the slice at its start.\<close>

definition read_array :: "bytes \<Rightarrow> (bytes list \<times> bytes) res" where
  "read_array b =
     (if length b < 3 then Inl (Error hevc_invalid)
      else ebind (U16BE (drop 1 b)) (\<lambda>k. read_sets hevc_invalid (unat k) (drop 3 b)))"

definition HEVC_Unmarshal :: "bytes \<Rightarrow> (hevc_record \<times> nat) res" where
  "HEVC_Unmarshal b =
     (if length b < 30 then Inl (Error hevc_invalid)
      else ebind (read_sets hevc_invalid (unat (b ! 25 AND 0x1f)) (drop 26 b)) (\<lambda>(vps, b1).
        ebind (read_array b1) (\<lambda>(sps, b2).
        ebind (read_array b2) (\<lambda>(pps, b3).
          Inr (\<lparr>hv_ProfileIndication = b ! 1, hv_ProfileCompatibility = b ! 2, hv_LevelIndication = b ! 3,
                hv_LengthSizeMinusOne = b ! 4 AND 0x03, hv_VPS = vps, hv_SPS = sps, hv_PPS = pps\<rparr>,
               length b - length b3)))))"

definition HEVC_Len :: "hevc_record \<Rightarrow> nat" where
  "HEVC_Len r = 23 + (\<Sum>s\<leftarrow>hv_SPS r. 5 + length s) + (\<Sum>s\<leftarrow>hv_PPS r. 5 + length s) + (\<Sum>s\<leftarrow>hv_VPS r. 5 + length s)"

definition count_bytes :: "'a list \<Rightarrow> bytes" where
  "count_bytes ss = [word_of_nat (length ss div 256), word_of_nat (length ss)]"

definition wr_hset :: "bytes \<Rightarrow> wr" where
  "wr_hset s = wr_then (wr_put (be16 (word_of_nat (min (length s) 65535)))) (wr_copy s)"

definition has_first :: "bytes list \<Rightarrow> bool" where
  "has_first ss \<longleftrightarrow> 0 < length ss \<and> 0 < length (ss ! 0)"

definition wr_array :: "bytes list \<Rightarrow> wr" where
  "wr_array ss = wr_all
     [if has_first ss then wr_put [h265_nal_type (ss ! 0 ! 0)] else wr_skip 1,
      wr_put (count_bytes ss),
      wr_each wr_hset ss]"

definition HEVC_Marshal :: "hevc_record \<Rightarrow> wr" where
  "HEVC_Marshal r = wr_all
     [wr_put [1, hv_ProfileIndication r, hv_ProfileCompatibility r, hv_LevelIndication r],
      wr_skip 17,
      wr_put [3, 3],
      if has_first (hv_VPS r) then wr_array (hv_VPS r) else wr_none,
      wr_array (hv_SPS r),
      wr_array (hv_PPS r)]"

section \<open>ParseSPS\<close>

record hevc_sps =
  hs_Width :: "64 word"
  hs_Height :: "64 word"
  hs_NumTemporalLayers :: "64 word"
  hs_TemporalIDNested :: "64 word"
  hs_ChromaFormat :: "64 word"
  hs_PicWidthInLumaSamples :: "64 word"
  hs_PicHeightInLumaSamples :: "64 word"
  hs_bitDepthChromaMinus8 :: "64 word"
  hs_GeneralProfileSpace :: "64 word"
  hs_GeneralTierFlag :: "64 word"
  hs_GeneralProfileIDC :: "64 word"
  hs_GeneralProfileCompatibilityFlags :: "32 word"
  hs_GeneralConstraintIndicatorFlags :: "64 word"
  hs_GeneralLevelIDC :: "64 word"

definition empty_hevc_sps :: hevc_sps where
  "empty_hevc_sps = \<lparr>hs_Width = 0, hs_Height = 0, hs_NumTemporalLayers = 0, hs_TemporalIDNested = 0,
     hs_ChromaFormat = 0, hs_PicWidthInLumaSamples = 0, hs_PicHeightInLumaSamples = 0, hs_bitDepthChromaMinus8 = 0,
     hs_GeneralProfileSpace = 0, hs_GeneralTierFlag = 0, hs_GeneralProfileIDC = 0,
     hs_GeneralProfileCompatibilityFlags = 0, hs_GeneralConstraintIndicatorFlags = 0, hs_GeneralLevelIDC = 0\<rparr>"

fun nal2rbsp :: "bytes \<Rightarrow> bytes" where
  "nal2rbsp (x # y # z # w # r) =
     (if x = 0 \<and> y = 0 \<and> z = 3 \<and> w \<le> 3 then 0 # 0 # nal2rbsp (w # r)
      else x # nal2rbsp (y # z # w # r))"
| "nal2rbsp (x # r) = x # nal2rbsp r"
| "nal2rbsp [] = []"

definition updatePTL :: "hevc_sps \<Rightarrow> hevc_sps \<Rightarrow> hevc_sps" where
  "updatePTL ctx ptl =
     (let c1 = ctx\<lparr>hs_GeneralProfileSpace := hs_GeneralProfileSpace ptl\<rparr>;
          c2 = (if hs_GeneralTierFlag c1 < hs_GeneralTierFlag ptl
                then c1\<lparr>hs_GeneralLevelIDC := hs_GeneralLevelIDC ptl, hs_GeneralTierFlag := hs_GeneralTierFlag ptl\<rparr>
                else if hs_GeneralLevelIDC c1 < hs_GeneralLevelIDC ptl
                then c1\<lparr>hs_GeneralLevelIDC := hs_GeneralLevelIDC ptl\<rparr> else c1);
          c3 = (if hs_GeneralProfileIDC c2 < hs_GeneralProfileIDC ptl
                then c2\<lparr>hs_GeneralProfileIDC := hs_GeneralProfileIDC ptl\<rparr> else c2)
      in c3\<lparr>hs_GeneralProfileCompatibilityFlags :=
              hs_GeneralProfileCompatibilityFlags c3 AND hs_GeneralProfileCompatibilityFlags ptl,
            hs_GeneralConstraintIndicatorFlags :=
              hs_GeneralConstraintIndicatorFlags c3 AND hs_GeneralConstraintIndicatorFlags ptl\<rparr>)"

definition readPTL :: "(gbr, hevc_sps) op" where
  "readPTL = sbind (G_ReadBits 2) (\<lambda>space. sbind ReadBit (\<lambda>tier. sbind (G_ReadBits 5) (\<lambda>idc.
     sbind (G_ReadBits32 32) (\<lambda>compat. sbind (G_ReadBits64 48) (\<lambda>constraints. sbind (G_ReadBits 8) (\<lambda>level.
       sret (empty_hevc_sps\<lparr>hs_GeneralProfileSpace := space, hs_GeneralTierFlag := tier,
         hs_GeneralProfileIDC := idc, hs_GeneralProfileCompatibilityFlags := compat,
         hs_GeneralConstraintIndicatorFlags := constraints, hs_GeneralLevelIDC := level\<rparr>)))))))"

fun read_flags :: "nat \<Rightarrow> (gbr, (64 word \<times> 64 word) list) op" where
  "read_flags 0 = sret []"
| "read_flags (Suc k) = sbind ReadBit (\<lambda>p. sbind ReadBit (\<lambda>l. sbind (read_flags k) (\<lambda>fs. sret ((p, l) # fs))))"

fun skip_times :: "(gbr, 'a) op \<Rightarrow> nat \<Rightarrow> (gbr, unit) op" where
  "skip_times m 0 = sret ()"
| "skip_times m (Suc k) = sbind m (\<lambda>_. skip_times m k)"

fun skip_sublayers :: "(64 word \<times> 64 word) list \<Rightarrow> (gbr, unit) op" where
  "skip_sublayers [] = sret ()"
| "skip_sublayers ((p, l) # fs) =
     sbind (if p \<noteq> 0 then sbind (G_ReadBits32 32) (\<lambda>_. sbind (G_ReadBits32 32) (\<lambda>_. ignore (G_ReadBits32 24)))
            else sret ()) (\<lambda>_.
     sbind (if l \<noteq> 0 then ignore (G_ReadBits 8) else sret ()) (\<lambda>_. skip_sublayers fs))"

definition parsePTL :: "hevc_sps \<Rightarrow> 64 word \<Rightarrow> (gbr, hevc_sps) op" where
  "parsePTL ctx maxSubLayersMinus1 = sbind readPTL (\<lambda>ptl.
     let ctx = updatePTL ctx ptl; k = unat maxSubLayersMinus1 in
     if k = 0 then sret ctx
     else sbind (read_flags k) (\<lambda>fs. sbind (skip_times (G_ReadBits 2) (8 - k)) (\<lambda>_.
       sbind (skip_sublayers fs) (\<lambda>_. sret ctx))))"

definition hevc_picture :: "hevc_sps \<Rightarrow> (gbr, hevc_sps) op" where
  "hevc_picture ctx = sbind ue (\<lambda>_. sbind ue (\<lambda>cf.
     sbind (if cf = 3 then ignore ReadBit else sret ()) (\<lambda>_.
     sbind ue (\<lambda>w. sbind ue (\<lambda>h. sbind ReadBit (\<lambda>window.
     sbind (if window \<noteq> 0 then skip_times ue 4 else sret ()) (\<lambda>_.
     sbind ue (\<lambda>_. sbind ue (\<lambda>bdcm8.
       sret (ctx\<lparr>hs_ChromaFormat := cf, hs_PicWidthInLumaSamples := w, hs_Width := w,
         hs_PicHeightInLumaSamples := h, hs_Height := h, hs_bitDepthChromaMinus8 := bdcm8\<rparr>))))))))))"

definition hevc_tail :: "64 word \<Rightarrow> (gbr, unit) op" where
  "hevc_tail maxSubLayersMinus1 = sbind ue (\<lambda>_. sbind ReadBit (\<lambda>ordering.
     sbind (skip_times ue (3 * (if ordering \<noteq> 0 then unat maxSubLayersMinus1 + 1 else 1))) (\<lambda>_.
     skip_times ue 6)))"

definition hevc_sps_body :: "(gbr, hevc_sps) op" where
  "hevc_sps_body = sbind (G_ReadBits 4) (\<lambda>_. sbind (G_ReadBits 3) (\<lambda>maxSub. sbind ReadBit (\<lambda>nested.
     sbind (parsePTL (empty_hevc_sps\<lparr>hs_NumTemporalLayers := maxSub + 1, hs_TemporalIDNested := nested\<rparr>) maxSub) (\<lambda>ctx.
     sbind (hevc_picture ctx) (\<lambda>ctx. sbind (hevc_tail maxSub) (\<lambda>_. sret ctx))))))"

definition ParseSPS :: "bytes \<Rightarrow> hevc_sps res" where
  "ParseSPS sps =
     (if length sps < 2 then Inl (Error ''incorrect unit size'')
      else fst (hevc_sps_body (new_gbr (nal2rbsp (drop 2 sps)))))"

section \<open>Slice header and PPS validator\<close>

datatype slice_type = SliceP | SliceB | SliceI

record slice_header =
  SliceType :: slice_type
  PPSID :: "64 word"
  SliceAddress :: "64 word"

definition ParseSliceHeaderComplete :: "bytes \<Rightarrow> slice_header res" where
  "ParseSliceHeaderComplete packet =
     (if length packet < 3 then Inl (Error ''h265parser: packet too short to parse slice header'')
      else if 32 \<le> h265_nal_type (packet ! 0) then Inl (Error ''h265parser: nal_unit_type has no slice header'')
      else fst (sbind ue (\<lambda>adr. sbind ue (\<lambda>u.
        sbind (if u = 0 then sret SliceB else if u = 1 then sret SliceP else if u = 2 then sret SliceI
               else sfail (Error ''h265parser: slice_type invalid'')) (\<lambda>st.
        sbind ue (\<lambda>pps. sret \<lparr>SliceType = st, PPSID = pps, SliceAddress = adr\<rparr>))))
       (new_gbr (drop 2 packet))))"

definition ParseSliceHeaderFromNALU :: "bytes \<Rightarrow> slice_type res" where
  "ParseSliceHeaderFromNALU packet = ebind (ParseSliceHeaderComplete packet) (\<lambda>h. Inr (SliceType h))"

record pps_validator =
  currentFramePPSID :: "64 word option"
  isNewFrame :: bool

definition NewPPSValidator :: pps_validator where
  "NewPPSValidator = \<lparr>currentFramePPSID = None, isNewFrame = True\<rparr>"

definition ValidateSlice :: "slice_header \<Rightarrow> bool \<Rightarrow> (pps_validator, unit) op" where
  "ValidateSlice sh isFirst v =
     (if isFirst \<or> isNewFrame v then (Inr (), v\<lparr>currentFramePPSID := Some (PPSID sh), isNewFrame := False\<rparr>)
      else case currentFramePPSID v of
        None \<Rightarrow> (Inl (Error ''h265parser: PPS validator not properly initialized''), v)
      | Some p \<Rightarrow> if PPSID sh \<noteq> p then (Inl (Error ''h265parser: PPS changed between slices''), v) else (Inr (), v))"

definition MarkNewFrame :: "pps_validator \<Rightarrow> pps_validator" where
  "MarkNewFrame v = v\<lparr>isNewFrame := True, currentFramePPSID := None\<rparr>"

definition IsKey :: "byte \<Rightarrow> bool" where
  "IsKey t \<longleftrightarrow> 16 \<le> t \<and> t \<le> 21"

section \<open>parameters.go\<close>

text \<open>The bit rate estimate, a floating-point product, is left out.\<close>

record h265_params =
  vp_Record :: bytes
  vp_RecordInfo :: hevc_record
  vp_SPSInfo :: hevc_sps
  vp_CodecType :: codec_type

definition H265_type :: codec_type where
  "H265_type = makeVideoCodecType (avCodecTypeMagic + 2)"

definition empty_hevc_record :: hevc_record where
  "empty_hevc_record = \<lparr>hv_ProfileIndication = 0, hv_ProfileCompatibility = 0, hv_LevelIndication = 0,
     hv_LengthSizeMinusOne = 0, hv_VPS = [], hv_SPS = [], hv_PPS = []\<rparr>"

definition empty_h265_params :: h265_params where
  "empty_h265_params = \<lparr>vp_Record = [], vp_RecordInfo = empty_hevc_record, vp_SPSInfo = empty_hevc_sps, vp_CodecType = 0\<rparr>"

definition NewCodecDataFromHEVCDecoderConfRecord :: "bytes \<Rightarrow> h265_params res" where
  "NewCodecDataFromHEVCDecoderConfRecord rec =
     ebind (HEVC_Unmarshal rec) (\<lambda>(info, n).
       if hv_SPS info = [] then Inl (Error ''h265parser: no SPS found in HEVCDecoderConfRecord'')
       else if hv_PPS info = [] then Inl (Error ''h265parser: no PPS found in HEVCDecoderConfRecord'')
       else if hv_VPS info = [] then Inl (Error ''h265parser: no VPS found in HEVCDecoderConfRecord'')
       else case ParseSPS (hd (hv_SPS info)) of
           Inl Panic \<Rightarrow> Inl Panic
         | Inl _ \<Rightarrow> Inl (Error ''h265parser: parse SPS failed'')
         | Inr s \<Rightarrow> Inr \<lparr>vp_Record = rec, vp_RecordInfo = info, vp_SPSInfo = s, vp_CodecType = H265_type\<rparr>)"

definition NewCodecDataFromVPSAndSPSAndPPS :: "bytes \<Rightarrow> bytes \<Rightarrow> bytes \<Rightarrow> h265_params res" where
  "NewCodecDataFromVPSAndSPSAndPPS vps sps pps =
     (if sps = [] \<or> pps = [] \<or> vps = [] then Inr empty_h265_params
      else if length sps < 6 then Inl (Error ''h265parser: SPS too short (need at least 6 bytes)'')
      else (let info = \<lparr>hv_ProfileIndication = sps ! 3, hv_ProfileCompatibility = sps ! 4,
              hv_LevelIndication = sps ! 5, hv_LengthSizeMinusOne = 3,
              hv_VPS = [vps], hv_SPS = [sps], hv_PPS = [pps]\<rparr>
        in ebind (ParseSPS sps) (\<lambda>s.
           ebind (marshal_fresh (HEVC_Len info) (HEVC_Marshal info)) (\<lambda>buf.
             Inr \<lparr>vp_Record = buf, vp_RecordInfo = info, vp_SPSInfo = s, vp_CodecType = H265_type\<rparr>))))"

section \<open>The record\<close>

definition array_bytes :: "bytes list \<Rightarrow> bytes" where
  "array_bytes ss = (if has_first ss then h265_nal_type (ss ! 0 ! 0) else 0) # count_bytes ss @ put_table set_bytes ss"

definition hevc_bytes :: "hevc_record \<Rightarrow> bytes" where
  "hevc_bytes r = [1, hv_ProfileIndication r, hv_ProfileCompatibility r, hv_LevelIndication r] @ replicate 17 0 @
     [3, 3] @ array_bytes (hv_VPS r) @ array_bytes (hv_SPS r) @ array_bytes (hv_PPS r)"

definition hevc_ok :: "hevc_record \<Rightarrow> bool" where
  "hevc_ok r \<longleftrightarrow> has_first (hv_VPS r) \<and> length (hv_VPS r) < 32 \<and>
     hv_SPS r \<noteq> [] \<and> length (hv_SPS r) < 2 ^ 16 \<and> hv_PPS r \<noteq> [] \<and> length (hv_PPS r) < 2 ^ 16 \<and>
     (\<forall>s\<in>set (hv_VPS r) \<union> set (hv_SPS r) \<union> set (hv_PPS r). length s < 2 ^ 16)"

lemma writes_hset: "length s < 2 ^ 16 \<Longrightarrow> writes (wr_hset s) (set_bytes s)"
  unfolding wr_hset_def set_bytes_def by (intro writes_intros) (simp add: len16_def min_def writes_put)

lemma wr_array_writes:
  assumes "\<forall>s\<in>set ss. length s < 2 ^ 16"
  shows "writes (wr_array ss) (array_bytes ss)"
proof -
  have first: "writes (if has_first ss then wr_put [h265_nal_type (ss ! 0 ! 0)] else wr_skip 1)
    [if has_first ss then h265_nal_type (ss ! 0 ! 0) else 0]"
    using writes_put [of "[h265_nal_type (ss ! 0 ! 0)]"] writes_skip [of 1] by simp
  have "writes (wr_array ss) ([if has_first ss then h265_nal_type (ss ! 0 ! 0) else 0] @ count_bytes ss @
      concat (map set_bytes ss) @ [])"
    unfolding wr_array_def using assms by (intro writes_intros first writes_hset) simp
  then show ?thesis by (simp add: array_bytes_def put_table_def)
qed

lemma HEVC_Marshal_writes:
  assumes "hevc_ok r"
  shows "writes (HEVC_Marshal r) (hevc_bytes r)"
proof -
  have vps: "writes (if has_first (hv_VPS r) then wr_array (hv_VPS r) else wr_none) (array_bytes (hv_VPS r))"
    using assms by (simp add: hevc_ok_def wr_array_writes)
  have "writes (HEVC_Marshal r) ([1, hv_ProfileIndication r, hv_ProfileCompatibility r, hv_LevelIndication r] @
     replicate 17 0 @ [3, 3] @ array_bytes (hv_VPS r) @ array_bytes (hv_SPS r) @ array_bytes (hv_PPS r) @ [])"
    unfolding HEVC_Marshal_def using assms
    by (intro writes_intros vps wr_array_writes) (auto simp: hevc_ok_def)
  then show ?thesis by (simp add: hevc_bytes_def)
qed

lemma count_be16: "length ss < 2 ^ 16 \<Longrightarrow> count_bytes ss = be16 (word_of_nat (length ss))"
proof -
  have low: "(ucast (word_of_nat n :: 16 word) :: byte) = word_of_nat n" for n
    by (simp add: word_unat_eq_iff unsigned_ucast_eq unsigned_of_nat)
  have high: "n < 2 ^ 16 \<Longrightarrow> (ucast (drop_bit 8 (word_of_nat n :: 16 word)) :: byte) = word_of_nat (n div 256)" for n
    by (simp add: word_unat_eq_iff unsigned_ucast_eq unsigned_of_nat unsigned_drop_bit_eq take_bit_nat_eq_self
        drop_bit_eq_div unat_div unat_of_nat)
  assume "length ss < 2 ^ 16"
  with low high show ?thesis by (simp add: count_bytes_def be16_def)
qed

lemma read_array_put:
  assumes "length ss < 2 ^ 16" and "\<forall>s\<in>set ss. length s < 2 ^ 16"
  shows "read_array (array_bytes ss @ rest) = Inr (ss, rest)"
proof -
  have "unat (word_of_nat (length ss) :: 16 word) = length ss" using assms(1) by (simp add: unat_of_nat)
  then show ?thesis
    using read_sets_put [OF assms(2)] assms(1)
    by (simp add: read_array_def array_bytes_def count_be16)
qed

lemma length_array_bytes: "length (array_bytes ss) = 3 + (\<Sum>s\<leftarrow>ss. 2 + length s)"
  by (simp add: array_bytes_def count_bytes_def length_set_table)

lemma array_len_le: "ss \<noteq> [] \<Longrightarrow> length (array_bytes ss) \<le> (\<Sum>s\<leftarrow>ss. 5 + length s)"
proof (induction ss)
  case (Cons s ss)
  then show ?case by (cases "ss = []") (auto simp: length_array_bytes)
qed simp

section \<open>Emulation bytes\<close>

lemma nal2rbsp_nonzero: "x \<noteq> 0 \<Longrightarrow> nal2rbsp (x # l) = x # nal2rbsp l"
  by (cases "x # l" rule: nal2rbsp.cases) auto

lemma nal2rbsp_zero: "x \<noteq> 0 \<Longrightarrow> nal2rbsp (0 # x # l) = 0 # x # nal2rbsp l"
  by (cases l rule: nal2rbsp.cases) (simp_all add: nal2rbsp_nonzero)

lemma nal2rbsp_zeros: "x \<noteq> 0 \<Longrightarrow> x \<noteq> 3 \<Longrightarrow> nal2rbsp (0 # 0 # x # l) = 0 # 0 # x # nal2rbsp l"
  by (cases l) (simp_all add: nal2rbsp_zero)

interpretation strip265: emulation_stripper nal2rbsp
proof
  fix z :: nat assume "z \<le> 2"
  then have "z = 0 \<or> z = 1 \<or> z = 2" by auto
  then show "nal2rbsp (replicate z 0) = replicate z 0"
    by (elim disjE) (simp_all add: numeral_2_eq_2)
qed (auto simp: nal2rbsp_nonzero nal2rbsp_zero nal2rbsp_zeros)

text \<open>Read from the left, each 0, 0, 3 is followed by a byte of at most 3.\<close>

fun followed :: "bytes \<Rightarrow> bool" where
  "followed (x # y # z # r) =
     (if x = 0 \<and> y = 0 \<and> z = 3 then (case r of [] \<Rightarrow> False | w # _ \<Rightarrow> w \<le> 3 \<and> followed r) else followed (y # z # r))"
| "followed [x, y] = True"
| "followed [x] = True"
| "followed [] = True"

lemma nal2rbsp_kept: "r = [] \<or> \<not> hd r \<le> 3 \<Longrightarrow> nal2rbsp (0 # 0 # 3 # r) = 0 # 0 # 3 # nal2rbsp r"
  by (cases r) (simp_all add: nal2rbsp_zero nal2rbsp_nonzero)

lemma nal2rbsp_other: "\<not> (x = 0 \<and> y = 0 \<and> z = 3) \<Longrightarrow> nal2rbsp (x # y # z # r) = x # nal2rbsp (y # z # r)"
  by (cases r) auto

lemma remove_shorter: "length (removeH264EmulationBytes b) \<le> length (nal2rbsp b)"
proof (induction b rule: removeH264EmulationBytes.induct)
  case (1 x y z r)
  show ?case
  proof (cases "x = 0 \<and> y = 0 \<and> z = 3")
    case True
    with 1 show ?thesis by (cases r) (auto simp: nal2rbsp_zero nal2rbsp_nonzero)
  next
    case False
    from 1(2) [OF False] show ?thesis
      unfolding nal2rbsp_other [OF False] removeH264EmulationBytes.simps followed.simps if_not_P [OF False] by simp
  qed
qed simp_all

lemma same_iff_followed: "nal2rbsp b = removeH264EmulationBytes b \<longleftrightarrow> followed b"
proof (induction b rule: removeH264EmulationBytes.induct)
  case (1 x y z r)
  show ?case
  proof (cases "x = 0 \<and> y = 0 \<and> z = 3")
    case True
    show ?thesis
    proof (cases "r = [] \<or> \<not> hd r \<le> 3")
      case bad: True
      have "3 # nal2rbsp r \<noteq> removeH264EmulationBytes r" using remove_shorter [of r] by (metis impossible_Cons)
      then have "nal2rbsp (x # y # z # r) \<noteq> removeH264EmulationBytes (x # y # z # r)"
        using True nal2rbsp_kept [OF bad] by simp
      moreover have "\<not> followed (x # y # z # r)" using True bad by (cases r) auto
      ultimately show ?thesis by blast
    next
      case False
      then obtain w r' where "r = w # r'" "w \<le> 3" by (cases r) auto
      with True 1 show ?thesis by simp
    qed
  next
    case False
    from 1(2) [OF False] show ?thesis
      unfolding nal2rbsp_other [OF False] removeH264EmulationBytes.simps followed.simps if_not_P [OF False] by simp
  qed
qed simp_all

section \<open>Properties\<close>

text \<open>C27: The two functions that strip emulation prevention bytes, the one of the H.264 parser
  and the stricter one of the H.265 parser, give the same result exactly on the byte strings in which each 0, 0, 3
  (read from the left) is followed by a byte of at most 3.  Every string escaped without a trailing 3
  (\<open>insert_emulation\<close>) is such a string, and both recover what was escaped.  A unit that ends in 0, 0, 3,
  the form the standards give to a payload with trailing zero bytes, is not: the parser of H.264 drops
  the last 3, the one of H.265 keeps it.\<close>

theorem strippers_agree:
  "(nal2rbsp b = removeH264EmulationBytes b \<longleftrightarrow> followed b) \<and>
   followed (insert_emulation 0 b) \<and> nal2rbsp (insert_emulation 0 b) = b \<and> removeH264EmulationBytes (insert_emulation 0 b) = b \<and>
   removeH264EmulationBytes (b @ [0, 0, 3]) \<noteq> nal2rbsp (b @ [0, 0, 3])"
proof -
  have "\<not> followed (b @ [0, 0, 3])"
  proof (induction b rule: followed.induct)
    case (1 x y z r)
    then show ?case by (cases r) auto
  qed simp_all
  then show ?thesis
    using strip264.strip_insert [of b] strip265.strip_insert [of b] same_iff_followed by metis
qed


text \<open>C40: A decoder configuration record with at least one of each parameter set, at most 31 VPS
  and sets shorter than 64 KiB is written by \<open>Marshal\<close> into a slice of \<open>Len\<close> bytes, and
  \<open>Unmarshal\<close> reads the same profile, level and parameter sets back.  The length size is the one
  field that is lost: \<open>Marshal\<close> never writes it where \<open>Unmarshal\<close> reads it.\<close>

theorem hevc_record_roundtrip:
  assumes "hevc_ok r"
  shows "\<exists>b. marshal_fresh (HEVC_Len r) (HEVC_Marshal r) = Inr b \<and> length b = HEVC_Len r \<and>
           (\<exists>n. HEVC_Unmarshal b = Inr (r\<lparr>hv_LengthSizeMinusOne := 0\<rparr>, n))"
proof -
  have ne: "hv_VPS r \<noteq> []" "hv_SPS r \<noteq> []" "hv_PPS r \<noteq> []" "length (hv_VPS r) < 32"
    using assms by (auto simp: hevc_ok_def has_first_def)
  have small: "\<forall>s\<in>set (hv_VPS r). length s < 2 ^ 16" using assms by (simp add: hevc_ok_def)
  let ?z = "replicate (HEVC_Len r - length (hevc_bytes r)) (0 :: byte)"
  let ?b = "hevc_bytes r @ ?z"
  have len: "length (hevc_bytes r) \<le> HEVC_Len r"
    using array_len_le [OF ne(1)] array_len_le [OF ne(2)] array_len_le [OF ne(3)]
    by (simp add: hevc_bytes_def HEVC_Len_def)
  have m: "marshal_fresh (HEVC_Len r) (HEVC_Marshal r) = Inr ?b"
    by (rule marshal_fresh_writes [OF HEVC_Marshal_writes [OF assms] len])
  have cb: "count_bytes (hv_VPS r) = [0, len8 (hv_VPS r)]"
    using ne(4) by (simp add: count_bytes_def len8_def)
  have "unat (len8 (hv_VPS r) AND 0x1f) = length (hv_VPS r)"
  proof -
    have "len8 (hv_VPS r) AND 0x1f = take_bit 5 (len8 (hv_VPS r))" by (simp add: take_bit_eq_mask mask_eq_exp_minus_1)
    then show ?thesis
      using ne(4) by (simp add: len8_def unsigned_take_bit_eq unat_of_nat take_bit_nat_eq_self)
  qed
  moreover have "30 \<le> length ?b"
    by (simp add: hevc_bytes_def length_array_bytes)
  moreover have "?b ! 25 = len8 (hv_VPS r)" "?b ! 1 = hv_ProfileIndication r" "?b ! 2 = hv_ProfileCompatibility r"
    "?b ! 3 = hv_LevelIndication r" "?b ! 4 = 0"
    "drop 26 ?b = put_table set_bytes (hv_VPS r) @ array_bytes (hv_SPS r) @ array_bytes (hv_PPS r) @ ?z"
    by (simp_all add: hevc_bytes_def array_bytes_def cb nth_append nth_Cons')
  moreover have "read_array (array_bytes (hv_SPS r) @ q) = Inr (hv_SPS r, q)"
    "read_array (array_bytes (hv_PPS r) @ q) = Inr (hv_PPS r, q)" for q
    using assms by (auto simp: hevc_ok_def intro!: read_array_put)
  ultimately have "\<exists>n. HEVC_Unmarshal ?b = Inr (r\<lparr>hv_LengthSizeMinusOne := 0\<rparr>, n)"
    using read_sets_put [OF small] by (simp add: HEVC_Unmarshal_def del: nth_append drop_append)
  with m len show ?thesis by auto
qed

theorem hevc_record_roundtrip_witness:
  "let r = \<lparr>hv_ProfileIndication = 1, hv_ProfileCompatibility = 0x60, hv_LevelIndication = 93,
      hv_LengthSizeMinusOne = 3, hv_VPS = [[0x40, 1]], hv_SPS = [[0x42, 1]], hv_PPS = [[0x44, 1]]\<rparr>
   in \<exists>b. marshal_fresh (HEVC_Len r) (HEVC_Marshal r) = Inr b \<and> length b = HEVC_Len r \<and>
           (\<exists>n. HEVC_Unmarshal b = Inr (r\<lparr>hv_LengthSizeMinusOne := 0\<rparr>, n))"
  unfolding Let_def by (rule hevc_record_roundtrip) (simp add: hevc_ok_def has_first_def)

end
