(* ===== verification/Rtp.thy ===== *)
theory Rtp
  imports Nal Codec
begin

text \<open>
  The transport layer of \<open>format/rtp\<close>: reading one RTP packet from an RTSP interleaved
  stream (\<open>base\_demuxer.go\<close>) and framing one (\<open>base\_muxer.go\<close>), with the records the codec
  demuxers and muxers extend as the Go structs embed them.

  The \<open>io.Reader\<close> is the list of bytes still to come and the \<open>io.Writer\<close> the bytes written,
  with an error it may fail with.  The memory of a packet comes from the ring when there is
  one (\<open>RingAlloc\<close>); the packet holds its bytes and the handle of its region.  Wall clock
  stamps and log lines are left out.
\<close>

section \<open>base_demuxer.go\<close>

record rtp_base =
  rdr :: bytes
  payload :: bytes
  offset :: nat
  fin :: nat
  timestamp :: "32 word"
  ring_of :: "gring option"

record 'c demuxed =
  pk_key :: bool
  pk_ts :: int
  pk_dur :: int
  pk_data :: bytes
  pk_codec :: 'c
  pk_slot :: "handle option"

text \<open>\<open>io.ReadFull\<close> of \<open>n\<close> bytes: the result and what is left to read.\<close>

definition read_full :: "nat \<Rightarrow> bytes \<Rightarrow> bytes res \<times> bytes" where
  "read_full n s = (if n \<le> length s then (Inr (take n s), drop n s)
     else (Inl (if s = [] then EOF else UnexpectedEOF), []))"

definition rtspHeaderSize :: nat where "rtspHeaderSize = 4"
definition rtpHeaderSize :: nat where "rtpHeaderSize = 12"

definition isRTCPPacket :: "bytes \<Rightarrow> bool" where
  "isRTCPPacket p \<longleftrightarrow> p ! 5 = 200 \<or> p ! 5 = 201"

text \<open>
  The bounds \<open>d.offset\<close> and \<open>d.end\<close> of the payload in the packet \<open>p\<close> with its interleaved
  header, as the code computes them: \<open>d.offset\<close> lacks the four bytes of that header until the
  last line, which a packet with a cut extension header never reaches.
\<close>

definition csrc_offset :: "bytes \<Rightarrow> nat" where
  "csrc_offset p = (let n = 4 * unat (p ! 4 AND 0x0f)
     in if n \<le> length p - rtpHeaderSize then rtpHeaderSize + n else rtpHeaderSize)"

definition skip_extension :: "bytes \<Rightarrow> nat \<Rightarrow> nat res" where
  "skip_extension p off =
     (if bit (p ! 4) 4 \<and> 4 \<le> length p - off
      then ebind (U16BE (drop (4 + off + 2) p)) (\<lambda>v. let extLen = 4 * unat v in
        Inr (if extLen \<le> length p - (off + 4) then off + 4 + extLen else off + 4))
      else Inr off)"

definition strip_padding :: "bytes \<Rightarrow> nat \<Rightarrow> nat" where
  "strip_padding p off =
     (if bit (p ! 4) 5 \<and> 0 < length p - off
      then (let n = unat (p ! (length p - 1)) in if n \<le> length p - off then length p - n else length p)
      else length p)"

definition payload_bounds :: "bytes \<Rightarrow> (nat \<times> nat) res" where
  "payload_bounds p = (let off = csrc_offset p in
     if bit (p ! 4) 4 \<and> length p < 4 + off + 2 + 2 then Inr (off, length p)
     else ebind (skip_extension p off) (\<lambda>off. Inr (off + 4, strip_padding p off)))"

definition Base_ReadPacket :: "('a rtp_base_scheme, unit) op" where
  "Base_ReadPacket d =
     (case read_full rtspHeaderSize (rdr d) of
        (Inl e, r) \<Rightarrow> (Inl e, d\<lparr>rdr := r\<rparr>)
      | (Inr h, r) \<Rightarrow>
          (case U16BE (drop 2 h) of Inl e \<Rightarrow> (Inl e, d\<lparr>rdr := r\<rparr>) | Inr v \<Rightarrow>
           if unat v < rtpHeaderSize
           then (Inl (Error ''RTP incorrect packet size''), d\<lparr>rdr := r, payload := h\<rparr>)
           else (case read_full (unat v) r of
               (Inl e, r) \<Rightarrow> (Inl e, d\<lparr>rdr := r, payload := h\<rparr>)
             | (Inr body, r) \<Rightarrow>
                 let p = h @ body; d = d\<lparr>rdr := r, payload := p\<rparr> in
                 if isRTCPPacket p then (Inl EOF, d)
                 else case U32BE (drop 8 p) of Inl e \<Rightarrow> (Inl e, d) | Inr ts \<Rightarrow>
                   case payload_bounds p of Inl e \<Rightarrow> (Inl e, d\<lparr>timestamp := ts\<rparr>)
                   | Inr (off, e) \<Rightarrow> (Inr (), d\<lparr>timestamp := ts, offset := off, fin := e\<rparr>))))"

text \<open>The slice \<open>d.payload.Data()[d.offset:d.end]\<close> every codec demuxer takes.\<close>

definition rtp_payload :: "('a rtp_base_scheme, bytes) op" where
  "rtp_payload d = (if offset d \<le> fin d \<and> fin d \<le> length (payload d)
     then Inr (sub (payload d) (offset d) (fin d)) else Inl Panic, d)"

text \<open>
  Memory for \<open>n\<close> bytes: a region of the ring or, when there is no ring or it is full, the
  heap (no handle).
\<close>

definition alloc_buf :: "nat \<Rightarrow> ('a rtp_base_scheme, handle option) op" where
  "alloc_buf n d = (case ring_of d of None \<Rightarrow> (Inr None, d)
     | Some g \<Rightarrow> (case G_Alloc (int n) g of Inl e \<Rightarrow> (Inl e, d)
         | Inr (x, g') \<Rightarrow> (Inr (map_option (\<lambda>(lo, hi, h). h) x), d\<lparr>ring_of := Some g'\<rparr>)))"

definition G_Release :: "handle option \<Rightarrow> gring \<Rightarrow> gring res" where
  "G_Release h g = (case h of None \<Rightarrow> Inr g
     | Some (k, idx) \<Rightarrow> ebind (Release (Some idx) (g_rings g ! k)) (\<lambda>r. Inr (g\<lparr>g_rings := (g_rings g)[k := r]\<rparr>)))"

definition release_slot :: "handle option \<Rightarrow> ('a rtp_base_scheme, unit) op" where
  "release_slot h d = (case ring_of d of None \<Rightarrow> (Inr (), d)
     | Some g \<Rightarrow> (case G_Release h g of Inl e \<Rightarrow> (Inl e, d) | Inr g' \<Rightarrow> (Inr (), d\<lparr>ring_of := Some g'\<rparr>)))"

fun release_slots :: "handle option list \<Rightarrow> ('a rtp_base_scheme, unit) op" where
  "release_slots [] = sret ()"
| "release_slots (h # hs) = sbind (release_slot h) (\<lambda>_. release_slots hs)"

text \<open>\<open>time.Duration(ts) * unit / rate\<close>, in nanoseconds.\<close>

definition Second :: int where "Second = 1000000000"

definition video_time :: "32 word \<Rightarrow> int" where
  "video_time ts = uint ts * Millisecond div 90"

section \<open>base_muxer.go\<close>

record rtp_muxer =
  sink :: bytes
  sink_err :: "string option"
  payloadType :: byte
  clockRate :: "32 word"
  ssrc :: "32 word"
  sequence :: "16 word"
  channel :: byte

text \<open>The random SSRC and first sequence number are arguments.\<close>

definition newBaseMuxer :: "byte \<Rightarrow> 32 word \<Rightarrow> byte \<Rightarrow> 32 word \<Rightarrow> 16 word \<Rightarrow> rtp_muxer" where
  "newBaseMuxer pt rate ch src sq = \<lparr>sink = [], sink_err = None, payloadType = pt,
     clockRate = (if rate = 0 then 90000 else rate), ssrc = src, sequence = sq, channel = ch\<rparr>"

definition rtpTimestamp :: "32 word \<Rightarrow> int \<Rightarrow> 32 word" where
  "rtpTimestamp rate ts = ucast ((word_of_int ts * ucast rate :: 64 word) div word_of_int Second)"

definition rtp_frame :: "'a rtp_muxer_scheme \<Rightarrow> bytes \<Rightarrow> int \<Rightarrow> bool \<Rightarrow> bytes" where
  "rtp_frame m b ts marker =
     [0x24, channel m] @ be16 (word_of_nat (rtpHeaderSize + length b)) @
     [0x80, if marker then 0x80 OR payloadType m else payloadType m] @ be16 (sequence m) @
     be32 (rtpTimestamp (clockRate m) ts) @ be32 (ssrc m) @ b"

definition writeRTP :: "bytes \<Rightarrow> int \<Rightarrow> bool \<Rightarrow> ('a rtp_muxer_scheme, unit) op" where
  "writeRTP b ts marker m = (case sink_err m of Some e \<Rightarrow> (Inl (Error e), m)
     | None \<Rightarrow> (Inr (), m\<lparr>sink := sink m @ rtp_frame m b ts marker, sequence := sequence m + 1\<rparr>))"

section \<open>hxxx_demuxer.go and hxxx_muxer.go\<close>

text \<open>The units of one packet, never empty and the first of them not empty.\<close>

definition Hxxx_ReadPacket :: "('a rtp_base_scheme, bytes list) op" where
  "Hxxx_ReadPacket = sbind Base_ReadPacket (\<lambda>_. sbind rtp_payload (\<lambda>b.
     case SplitNALUs b of Inl e \<Rightarrow> sfail e
     | Inr (nals, _) \<Rightarrow> if nals = [] \<or> length (nals ! 0) = 0 then sfail (Error ''empty nal unit'') else sret nals))"

definition DefaultMTU :: nat where "DefaultMTU = 1200"

definition hxxx_mtu :: "int \<Rightarrow> nat" where
  "hxxx_mtu mtu = (if mtu \<le> 0 then DefaultMTU else nat mtu)"

text \<open>
  The fragmentation loop of both muxers: fragments of at most \<open>sz\<close> bytes behind the payload
  header \<open>pre\<close> and the FU header, whose S and E bits mark the first and the last one; the RTP
  marker is set on the last fragment of the last unit.
\<close>

function write_fragments ::
    "nat \<Rightarrow> bytes \<Rightarrow> byte \<Rightarrow> int \<Rightarrow> bool \<Rightarrow> bool \<Rightarrow> bytes \<Rightarrow> ('a rtp_muxer_scheme, unit) op" where
  "write_fragments sz pre ty ts isLast start b =
     (if b = [] \<or> sz = 0 then sret ()
      else let end = length b \<le> sz;
             fuHeader = ty OR (if start then 0x80 else 0) OR (if end then 0x40 else 0)
        in sbind (writeRTP (pre @ [fuHeader] @ take sz b) ts (isLast \<and> end)) (\<lambda>_.
             write_fragments sz pre ty ts isLast False (drop sz b)))"
  by pat_completeness auto
termination
  by (relation "measure (\<lambda>(sz, pre, ty, ts, isLast, start, b). length b)") auto

declare write_fragments.simps [simp del]

section \<open>Reading back a frame\<close>

lemma read_full_append [simp]: "length xs = n \<Longrightarrow> read_full n (xs @ ys) = (Inr xs, ys)"
  by (simp add: read_full_def)

text \<open>The second byte of a frame is not mistaken for an RTCP packet type.\<close>

definition pt_ok :: "'a rtp_muxer_scheme \<Rightarrow> bool" where
  "pt_ok m \<longleftrightarrow> (\<forall>k\<in>{payloadType m, 0x80 OR payloadType m}. k \<noteq> 200 \<and> k \<noteq> 201)"

text \<open>The state after reading the frame \<open>f\<close> with timestamp \<open>ts\<close>.\<close>

definition after_frame :: "bytes \<Rightarrow> 32 word \<Rightarrow> bytes \<Rightarrow> 'a rtp_base_scheme \<Rightarrow> 'a rtp_base_scheme" where
  "after_frame f ts rest d = d\<lparr>rdr := rest, payload := f, timestamp := ts, offset := 16, fin := length f\<rparr>"

lemma frame_parts:
  "rtp_frame m b ts mk = ([0x24, channel m] @ be16 (word_of_nat (12 + length b))) @
     ([0x80, if mk then 0x80 OR payloadType m else payloadType m] @ be16 (sequence m) @
      be32 (rtpTimestamp (clockRate m) ts) @ be32 (ssrc m) @ b)"
  by (simp add: rtp_frame_def rtpHeaderSize_def)

lemma length_rtp_frame [simp]: "length (rtp_frame m b ts mk) = 16 + length b"
  by (simp add: rtp_frame_def)

lemma drop_rtp_frame: "drop 16 (rtp_frame m b ts mk) = b"
  by (simp add: rtp_frame_def be16_def be32_def)

lemma bounds_plain: "p ! 4 = 0x80 \<Longrightarrow> 16 \<le> length p \<Longrightarrow> payload_bounds p = Inr (16, length p)"
  by (simp add: payload_bounds_def csrc_offset_def skip_extension_def strip_padding_def rtpHeaderSize_def)

lemma read_frame:
  assumes "pt_ok m" and "length b < 2 ^ 16 - 12" and "rdr d = rtp_frame m b ts mk @ rest"
  shows "Base_ReadPacket d =
    (Inr (), after_frame (rtp_frame m b ts mk) (rtpTimestamp (clockRate m) ts) rest d)"
proof -
  let ?h = "[0x24, channel m] @ be16 (word_of_nat (12 + length b))"
  let ?b = "[0x80, if mk then 0x80 OR payloadType m else payloadType m] @ be16 (sequence m) @
      be32 (rtpTimestamp (clockRate m) ts) @ be32 (ssrc m) @ b"
  have v: "unat (word_of_nat (12 + length b) :: 16 word) = 12 + length b"
    using assms(2) by (simp only: unat_of_nat) simp
  have f: "rtp_frame m b ts mk = ?h @ ?b" by (rule frame_parts)
  have r: "read_full 4 (rdr d) = (Inr ?h, ?b @ rest)"
    unfolding assms(3) f append_assoc [of ?h ?b] by (rule read_full_append) simp
  have u: "U16BE (drop 2 ?h) = Inr (word_of_nat (12 + length b))"
    using U_be(1) [of _ "[]"] by simp
  have r2: "read_full (12 + length b) (?b @ rest) = (Inr ?b, rest)"
    by (rule read_full_append) simp
  have rtcp: "\<not> isRTCPPacket (?h @ ?b)"
    using assms(1) by (simp add: isRTCPPacket_def pt_ok_def be16_def)
  have ts: "U32BE (drop 8 (?h @ ?b)) = Inr (rtpTimestamp (clockRate m) ts)"
    by (simp add: be16_def)
  have h: "(?h @ ?b) ! 4 = 0x80" by (simp add: be16_def)
  have bd: "payload_bounds (?h @ ?b) = Inr (16, 16 + length b)"
    using bounds_plain [OF h] by simp
  have lv: "length (?h @ ?b) = 16 + length b" by simp
  obtain h t where ht: "?h = h" "?b = t" by blast
  obtain w :: "16 word" where w: "word_of_nat (12 + length b) = w" by blast
  note f = f [unfolded ht] and r = r [unfolded ht] and u = u [unfolded ht, unfolded w] and v = v [unfolded w] and r2 = r2 [unfolded ht]
    and rtcp = rtcp [unfolded ht] and ts = ts [unfolded ht] and bd = bd [unfolded ht] and lv = lv [unfolded ht]
  show ?thesis
    by (simp add: Base_ReadPacket_def rtspHeaderSize_def r u v r2 rtcp ts bd
        f Let_def after_frame_def rtpHeaderSize_def lv [simplified] del: drop_append)
qed

lemma payload_after_frame [simp]:
  "rtp_payload (after_frame (rtp_frame m b ts mk) w rest d) = (Inr b, after_frame (rtp_frame m b ts mk) w rest d)"
  by (simp add: rtp_payload_def after_frame_def sub_def drop_rtp_frame)

section \<open>Runs of packets\<close>

text \<open>
  A muxer's operation \<open>sends\<close> a list of payloads with their marker bits; reading \<open>receives\<close>
  packets from such a run.  Both compose, so the codec theories only look at one unit.
\<close>

fun frames :: "rtp_muxer \<Rightarrow> int \<Rightarrow> (bytes \<times> bool) list \<Rightarrow> bytes" where
  "frames m ts [] = []"
| "frames m ts ((b, mk) # ps) = rtp_frame m b ts mk @ frames (m\<lparr>sequence := sequence m + 1\<rparr>) ts ps"

lemma frames_append:
  "frames m ts (ps @ qs) = frames m ts ps @ frames (m\<lparr>sequence := sequence m + word_of_nat (length ps)\<rparr>) ts qs"
  by (induction ps arbitrary: m) (auto simp: algebra_simps)

lemma frames_cong:
  "payloadType m = payloadType n \<Longrightarrow> clockRate m = clockRate n \<Longrightarrow> ssrc m = ssrc n \<Longrightarrow> sequence m = sequence n \<Longrightarrow>
     channel m = channel n \<Longrightarrow> frames m ts ps = frames n ts ps"
  by (induction ps arbitrary: m n) (auto simp: rtp_frame_def)

definition advanced :: "'a rtp_muxer_scheme \<Rightarrow> int \<Rightarrow> (bytes \<times> bool) list \<Rightarrow> 'a rtp_muxer_scheme" where
  "advanced m ts ps = m\<lparr>sink := sink m @ frames (rtp_muxer.truncate m) ts ps,
     sequence := sequence m + word_of_nat (length ps)\<rparr>"

definition sends :: "'a \<Rightarrow> ('a rtp_muxer_scheme, unit) op \<Rightarrow> int \<Rightarrow> (bytes \<times> bool) list \<Rightarrow> bool" where
  "sends x w ts ps \<longleftrightarrow>
     (\<forall>m. sink_err m = None \<longrightarrow> rtp_muxer.more m = x \<longrightarrow> w m = (Inr (), advanced m ts ps))"

named_theorems sends_intros "what the muxers send"

lemma sends_ret [sends_intros]: "sends x (sret ()) ts []"
  by (auto simp: sends_def advanced_def)

lemma sends_write [sends_intros]: "sends x (writeRTP b ts mk) ts [(b, mk)]"
  by (auto simp: sends_def advanced_def writeRTP_def rtp_frame_def rtp_muxer.truncate_def)

lemma sends_bind:
  assumes "sends x v ts ps" and "sends x w ts qs"
  shows "sends x (sbind v (\<lambda>_. w)) ts (ps @ qs)"
  unfolding sends_def
proof (intro allI impI)
  fix m :: "'a rtp_muxer_scheme" assume m: "sink_err m = None" "rtp_muxer.more m = x"
  have "frames (rtp_muxer.truncate (advanced m ts ps)) ts qs =
    frames (rtp_muxer.truncate m\<lparr>sequence := sequence m + word_of_nat (length ps)\<rparr>) ts qs"
    by (rule frames_cong) (simp_all add: advanced_def rtp_muxer.truncate_def)
  then have "advanced (advanced m ts ps) ts qs = advanced m ts (ps @ qs)"
    by (simp add: advanced_def rtp_muxer.truncate_def frames_append)
  moreover have "sink_err (advanced m ts ps) = None" "rtp_muxer.more (advanced m ts ps) = x"
    using m by (simp_all add: advanced_def)
  ultimately show "sbind v (\<lambda>_. w) m = (Inr (), advanced m ts (ps @ qs))"
    using assms m by (simp add: sends_def)
qed

text \<open>The payloads of the fragments of a unit.\<close>

function fragments :: "nat \<Rightarrow> bytes \<Rightarrow> byte \<Rightarrow> bool \<Rightarrow> bool \<Rightarrow> bytes \<Rightarrow> (bytes \<times> bool) list" where
  "fragments sz pre ty isLast start b =
     (if b = [] \<or> sz = 0 then []
      else let end = length b \<le> sz
        in (pre @ [ty OR (if start then 0x80 else 0) OR (if end then 0x40 else 0)] @ take sz b, isLast \<and> end) #
           fragments sz pre ty isLast False (drop sz b))"
  by pat_completeness auto
termination
  by (relation "measure (\<lambda>(sz, pre, ty, isLast, start, b). length b)") auto

declare fragments.simps [simp del]

lemma sends_fragments [sends_intros]:
  "sends x (write_fragments sz pre ty ts isLast start b) ts (fragments sz pre ty isLast start b)"
proof (induction sz pre ty isLast start b rule: fragments.induct)
  case (1 sz pre ty isLast start b)
  show ?case
  proof (cases "b = [] \<or> sz = 0")
    case False
    from 1 [OF False refl] sends_bind [OF sends_write] show ?thesis
      by (subst write_fragments.simps, subst fragments.simps) (fastforce simp: False Let_def)
  next
    case True
    then show ?thesis
      by (subst write_fragments.simps, subst fragments.simps) (simp only: if_True sends_ret)
  qed
qed

fun read_times :: "nat \<Rightarrow> ('s, 'p option) op \<Rightarrow> ('s, 'p list) op" where
  "read_times 0 r = sret []"
| "read_times (Suc k) r = sbind r (\<lambda>x. sbind (read_times k r) (\<lambda>xs.
     sret (case x of None \<Rightarrow> xs | Some p \<Rightarrow> p # xs)))"

text \<open>
  From every state in \<open>P\<close>, reading the payloads \<open>ps\<close>, one packet each, returns the packets
  \<open>pks\<close> and ends in a state in \<open>Q\<close> with exactly those packets consumed.
\<close>

definition receives :: "32 word \<Rightarrow> ('a rtp_base_scheme, 'p option) op \<Rightarrow> int \<Rightarrow> ('a rtp_base_scheme \<Rightarrow> bool) \<Rightarrow>
    (bytes \<times> bool) list \<Rightarrow> 'p list \<Rightarrow> ('a rtp_base_scheme \<Rightarrow> bool) \<Rightarrow> bool" where
  "receives rate r ts P ps pks Q \<longleftrightarrow> (\<forall>m d rest. pt_ok m \<longrightarrow> clockRate m = rate \<longrightarrow> P d \<longrightarrow> rdr d = frames m ts ps @ rest \<longrightarrow>
     (\<exists>d'. read_times (length ps) r d = (Inr pks, d') \<and> rdr d' = rest \<and> Q d'))"

lemma receives_Nil: "receives rate r ts P [] [] P"
  by (auto simp: receives_def)

lemma read_times_add:
  assumes "read_times j r d = (Inr xs, d')" and "read_times k r d' = (Inr ys, d'')"
  shows "read_times (j + k) r d = (Inr (xs @ ys), d'')"
  using assms
proof (induction j arbitrary: d xs)
  case (Suc j)
  from Suc.prems(1) obtain x d1 zs where x: "r d = (Inr x, d1)" "read_times j r d1 = (Inr zs, d')"
    "xs = (case x of None \<Rightarrow> zs | Some p \<Rightarrow> p # zs)"
    by (auto elim!: sbind_InrE)
  from Suc.IH [OF x(2) Suc.prems(2)] x show ?case by (simp split: option.splits)
qed simp

lemma receives_append:
  assumes "receives rate r ts P ps xs Q" and "receives rate r ts Q qs ys R"
  shows "receives rate r ts P (ps @ qs) (xs @ ys) R"
  unfolding receives_def
proof (intro allI impI)
  fix m d rest assume m: "pt_ok m" "clockRate m = rate" "P d" "rdr d = frames m ts (ps @ qs) @ rest"
  let ?n = "m\<lparr>sequence := sequence m + word_of_nat (length ps)\<rparr>"
  from assms(1) m obtain d1 where d1: "read_times (length ps) r d = (Inr xs, d1)" "rdr d1 = frames ?n ts qs @ rest" "Q d1"
    unfolding receives_def frames_append append_assoc by blast
  have "pt_ok ?n" "clockRate ?n = rate" using m by (simp_all add: pt_ok_def)
  with assms(2) d1 obtain d2 where d2: "read_times (length qs) r d1 = (Inr ys, d2)" "rdr d2 = rest" "R d2"
    unfolding receives_def by blast
  with read_times_add [OF d1(1) d2(1)]
  show "\<exists>d'. read_times (length (ps @ qs)) r d = (Inr (xs @ ys), d') \<and> rdr d' = rest \<and> R d'" by auto
qed

text \<open>One packet, from what the reader does with the state the transport layer leaves.\<close>

lemma receives_one:
  assumes "length b < 2 ^ 16 - 12"
    and "\<And>(m :: rtp_muxer) d rest. P d \<Longrightarrow> pt_ok m \<Longrightarrow> clockRate m = rate \<Longrightarrow> rdr d = rtp_frame m b ts mk @ rest \<Longrightarrow>
      \<exists>x d'. r d = (Inr x, d') \<and> rdr d' = rest \<and> Q d' \<and> pks = (case x of None \<Rightarrow> [] | Some p \<Rightarrow> [p])"
  shows "receives rate r ts P [(b, mk)] pks Q"
  unfolding receives_def
proof (intro allI impI)
  fix m d rest assume m: "pt_ok m" "clockRate m = rate" "P d" "rdr d = frames m ts [(b, mk)] @ rest"
  then obtain x d' where "r d = (Inr x, d')" "rdr d' = rest" "Q d'" "pks = (case x of None \<Rightarrow> [] | Some p \<Rightarrow> [p])"
    using assms(2) [OF m(3,1,2), of rest] by auto
  then show "\<exists>d'. read_times (length [(b, mk)]) r d = (Inr pks, d') \<and> rdr d' = rest \<and> Q d'" by simp
qed

lemma Hxxx_read_frame:
  assumes "pt_ok m" and "length b < 2 ^ 16 - 12" and "rdr d = rtp_frame m b ts mk @ rest"
    and "SplitNALUs b = Inr ([b], t)" and "b \<noteq> []"
  shows "Hxxx_ReadPacket d = (Inr [b], after_frame (rtp_frame m b ts mk) (rtpTimestamp (clockRate m) ts) rest d)"
  using assms(4,5) by (simp add: Hxxx_ReadPacket_def read_frame [OF assms(1-3)])

section \<open>Payload bounds\<close>

text \<open>The parts of an RTP packet after the 16 bytes of the two fixed headers.\<close>

definition extension_ok :: "bytes \<Rightarrow> bytes \<Rightarrow> bool" where
  "extension_ok h ext \<longleftrightarrow> (if bit (h ! 4) 4
     then \<exists>a c n xs. ext = [a, c] @ be16 n @ xs \<and> length xs = 4 * unat n else ext = [])"

definition padding_ok :: "bytes \<Rightarrow> bytes \<Rightarrow> bool" where
  "padding_ok h pad \<longleftrightarrow> (if bit (h ! 4) 5 then pad \<noteq> [] \<and> length pad = unat (last pad) else pad = [])"

lemma csrc_offset_parts:
  assumes "length h = 16" and "length cs = 4 * unat (h ! 4 AND 0x0f)"
  shows "csrc_offset (h @ cs @ r) = 12 + length cs"
  using assms by (simp add: csrc_offset_def rtpHeaderSize_def nth_append)

lemma skip_extension_parts:
  assumes "length h = 16" and "extension_ok h ext"
  shows "skip_extension (h @ cs @ ext @ r) (12 + length cs) = Inr (12 + length cs + length ext)"
proof (cases "bit (h ! 4) 4")
  case True
  then obtain a c n xs where ext: "ext = [a, c] @ be16 n @ xs" "length xs = 4 * unat n"
    using assms(2) by (auto simp: extension_ok_def)
  have "drop (18 + length cs) (h @ cs @ ext @ r) = be16 n @ xs @ r"
    using assms(1) by (simp add: ext)
  with True assms(1) ext(2) show ?thesis
    by (simp add: skip_extension_def nth_append ext(1) add.assoc)
next
  case False
  with assms show ?thesis by (simp add: skip_extension_def extension_ok_def nth_append)
qed

lemma strip_padding_parts:
  assumes "length h = 16" and "padding_ok h pad" and "off \<le> length h + length r"
  shows "strip_padding (h @ r @ pad) off = length h + length r"
proof (cases "bit (h ! 4) 5")
  case True
  then have pad: "pad \<noteq> []" "length pad = unat (last pad)" using assms(2) by (simp_all add: padding_ok_def)
  obtain p where p: "h @ r @ pad = p" by blast
  have "p ! (length p - 1) = last pad" using pad(1) p last_conv_nth [of p] by auto
  moreover have "length p = length h + length r + length pad" "p ! 4 = h ! 4"
    using assms(1) by (simp_all add: p [symmetric] nth_append)
  ultimately show ?thesis using True assms(1,3) pad
    unfolding p by (auto simp add: strip_padding_def Let_def)
next
  case False
  with assms show ?thesis by (simp add: strip_padding_def padding_ok_def nth_append)
qed

section \<open>Properties\<close>

text \<open>C5: What \<open>writeRTP\<close> writes, \<open>ReadPacket\<close> of the base demuxer reads back: the payload, the
  timestamp, and nothing of the bytes that follow.\<close>

theorem writeRTP_ReadPacket:
  assumes "pt_ok m" and "length b < 2 ^ 16 - 12"
    and "writeRTP b ts mk m = (Inr (), m')" and "sink m' = sink m @ f" and "rdr d = f @ rest"
  shows "\<exists>d'. Base_ReadPacket d = (Inr (), d') \<and> rtp_payload d' = (Inr b, d') \<and>
    timestamp d' = rtpTimestamp (clockRate m) ts \<and> rdr d' = rest \<and> ring_of d' = ring_of d"
proof -
  have "f = rtp_frame m b ts mk" using assms(3,4) by (auto simp: writeRTP_def split: option.splits)
  with read_frame [OF assms(1,2), of d ts mk rest] assms(5) payload_after_frame show ?thesis
    by (auto simp: after_frame_def)
qed

definition muxer0 :: rtp_muxer where "muxer0 = newBaseMuxer 96 0 0 7 1"

definition reader0 :: "bytes \<Rightarrow> rtp_base" where
  "reader0 b = \<lparr>rdr = b, payload = [], offset = 0, fin = 0, timestamp = 0, ring_of = None\<rparr>"

theorem writeRTP_ReadPacket_witness:
  "\<exists>d'. Base_ReadPacket (reader0 (rtp_frame muxer0 [0x65, 1, 2] Second True @ [0x24])) = (Inr (), d') \<and>
     rtp_payload d' = (Inr [0x65, 1, 2], d') \<and> timestamp d' = 90000 \<and> rdr d' = [0x24]"
proof -
  have "rtpTimestamp 90000 Second = 90000" by (simp add: rtpTimestamp_def Second_def)
  with writeRTP_ReadPacket [of muxer0 "[0x65, 1, 2]" Second True _ "rtp_frame muxer0 [0x65, 1, 2] Second True"
    "reader0 (rtp_frame muxer0 [0x65, 1, 2] Second True @ [0x24])" "[0x24]"]
  show ?thesis by (auto simp: muxer0_def newBaseMuxer_def pt_ok_def writeRTP_def reader0_def)
qed

text \<open>The payload of a packet with CSRC identifiers, a header extension and padding is what
  lies between them.\<close>

theorem payload_bounds_parts:
  assumes "length h = 16" and "length cs = 4 * unat (h ! 4 AND 0x0f)"
    and "extension_ok h ext" and "padding_ok h pad"
  shows "\<exists>i j. payload_bounds (h @ cs @ ext @ b @ pad) = Inr (i, j) \<and> sub (h @ cs @ ext @ b @ pad) i j = b"
proof -
  let ?p = "h @ cs @ ext @ b @ pad" and ?o = "12 + length cs + length ext"
  have p4: "?p ! 4 = h ! 4" using assms(1) by (simp add: nth_append)
  have long: "\<not> (bit (h ! 4) 4 \<and> length ?p < 4 + (12 + length cs) + 2 + 2)"
    using assms(1,3) by (auto simp: extension_ok_def)
  have "payload_bounds ?p = Inr (?o + 4, strip_padding ?p ?o)"
    unfolding payload_bounds_def Let_def csrc_offset_parts [OF assms(1,2)] p4
      skip_extension_parts [OF assms(1,3)] using long by simp
  moreover have "strip_padding ?p ?o = 16 + length cs + length ext + length b"
    using strip_padding_parts [OF assms(1,4), of ?o "cs @ ext @ b"] assms(1) by simp
  moreover have "sub ?p (16 + length cs + length ext) (16 + length cs + length ext + length b) = b"
    using assms(1) by (simp add: sub_def)
  ultimately show ?thesis by (simp add: add.commute [of _ 4] add.assoc [symmetric])
qed

theorem payload_bounds_parts_witness:
  "\<exists>i j. payload_bounds ([0x24, 0, 0, 30, 0xb1, 96, 0, 1, 0, 0, 0, 0, 0, 0, 0, 7] @ [1, 2, 3, 4] @
      [0, 9, 0, 1, 5, 6, 7, 8] @ [0x65, 1, 2] @ [0, 0, 3]) = Inr (i, j) \<and>
    sub ([0x24, 0, 0, 30, 0xb1, 96, 0, 1, 0, 0, 0, 0, 0, 0, 0, 7] @ [1, 2, 3, 4] @
      [0, 9, 0, 1, 5, 6, 7, 8] @ [0x65, 1, 2] @ [0, 0, 3]) i j = [0x65, 1, 2 :: byte]"
proof (rule payload_bounds_parts)
  show "extension_ok [0x24, 0, 0, 30, 0xb1, 96, 0, 1, 0, 0, 0, 0, 0, 0, 0, 7] [0, 9, 0, 1, 5, 6, 7, 8]"
    unfolding extension_ok_def
    by (simp, rule exI [of _ 1], rule exI [of _ "[5, 6, 7, 8]"]) (simp add: be16_def)
qed (simp_all add: padding_ok_def)

text \<open>The bounds are not checked against each other: a packet that ends with its list of
  CSRC identifiers four bytes early passes \<open>ReadPacket\<close> and makes the slice of its payload
  panic.\<close>

theorem short_csrc_panics:
  assumes "rdr d = h @ body @ rest" and "length h = 4" and "U16BE (drop 2 h) = Inr (word_of_nat (length body))"
    and "length body = 8 + 4 * unat (body ! 0 AND 0x0f)" and "12 \<le> length body"
    and "\<not> bit (body ! 0) 4" and "\<not> bit (body ! 0) 5" and "\<not> isRTCPPacket (h @ body)"
  shows "\<exists>d'. Base_ReadPacket d = (Inr (), d') \<and> rtp_payload d' = (Inl Panic, d')"
proof -
  let ?p = "h @ body"
  have "unat (body ! 0 AND 0x0f) \<le> 15" using word_and_le1 [of "body ! 0" "0x0f"] by (simp add: word_le_nat_alt)
  then have "length body < 2 ^ 16" using assms(4) by simp
  then have v: "unat (word_of_nat (length body) :: 16 word) = length body" by (simp only: unat_of_nat) simp
  have p4: "?p ! 4 = body ! 0" using assms(2) by (simp add: nth_append)
  have r: "read_full 4 (rdr d) = (Inr h, body @ rest)" unfolding assms(1) by (rule read_full_append) fact
  have r2: "read_full (length body) (body @ rest) = (Inr body, rest)" by simp
  obtain ts where ts: "U32BE (drop 8 ?p) = Inr ts"
    using U32BE_total [of "drop 8 ?p"] assms(2,5) by (fastforce simp del: drop_append)
  have bd: "payload_bounds ?p = Inr (4 + length ?p, length ?p)"
    using assms(2,4,6,7) by (simp add: payload_bounds_def csrc_offset_def skip_extension_def strip_padding_def p4
        rtpHeaderSize_def)
  show ?thesis
    using assms(5) by (simp add: Base_ReadPacket_def rtspHeaderSize_def r assms(3) v r2 assms(8) ts bd
        rtpHeaderSize_def Let_def rtp_payload_def del: drop_append)
qed

theorem short_csrc_panics_witness:
  "\<exists>d'. Base_ReadPacket (reader0 [0x24, 0, 0, 12, 0x81, 96, 0, 1, 0, 0, 0, 0, 0, 0, 0, 7]) = (Inr (), d') \<and>
    rtp_payload d' = (Inl Panic, d')"
  by (rule short_csrc_panics [of _ "[0x24, 0, 0, 12]" "[0x81, 96, 0, 1, 0, 0, 0, 0, 0, 0, 0, 7]" "[]"])
    (simp_all add: reader0_def isRTCPPacket_def)

text \<open>A presentation time below \<open>2^32\<close> ticks survives the trip through the 90 kHz RTP clock
  with an error of less than a tick: it comes back at most 11112 ns too early, never late.\<close>

theorem rtp_time_error:
  assumes "0 \<le> ts" and "ts < 2 ^ 32 * 100000 div 9"
  shows "video_time (rtpTimestamp 90000 ts) \<le> ts \<and> ts \<le> video_time (rtpTimestamp 90000 ts) + 11112"
proof -
  define q where "q = ts * 9 div 100000"
  have q: "0 \<le> q" "q < 2 ^ 32" "100000 * q \<le> 9 * ts" "9 * ts < 100000 * q + 100000"
    using assms by (auto simp: q_def)
  have "uint (word_of_int ts * ucast (90000 :: 32 word) :: 64 word) = ts * 90000"
    using assms by (simp add: uint_word_of_int uint_word_ariths unsigned_ucast_eq take_bit_int_eq_self)
  then have "uint ((word_of_int ts * ucast (90000 :: 32 word) :: 64 word) div word_of_int Second) = q"
    by (simp add: uint_div Second_def q_def zdiv_zmult2_eq [symmetric])
  then have "uint (rtpTimestamp 90000 ts) = q"
    unfolding rtpTimestamp_def using q(1,2) by (simp add: unsigned_ucast_eq take_bit_int_eq_self)
  then have "video_time (rtpTimestamp 90000 ts) = q * 1000000 div 90"
    by (simp add: video_time_def Millisecond_def)
  with q show ?thesis by linarith
qed

theorem rtp_time_error_witness:
  "video_time (rtpTimestamp 90000 20000000) \<le> 20000000 \<and>
     20000000 \<le> video_time (rtpTimestamp 90000 20000000) + 11112"
  by (rule rtp_time_error) simp_all

end
