(* ===== verification/RtpH264.thy ===== *)
theory RtpH264
  imports Rtp H264
begin

text \<open>
  \<open>format/rtp/h264.go\<close> and \<open>h264\_muxer.go\<close>: the H.264 payload format (RFC 6184) with single
  units, STAP-A aggregation and FU-A fragmentation.
\<close>

section \<open>h264.go\<close>

record h264_demuxer = rtp_base +
  d4_sps :: bytes
  d4_pps :: bytes
  d4_codec :: "h264_params option"
  d4_packets :: "h264_params demuxed list"
  d4_fuStarted :: bool
  d4_buf :: bytes

definition NewH264Demuxer :: "bytes \<Rightarrow> gring option \<Rightarrow> h264_demuxer" where
  "NewH264Demuxer r g = \<lparr>rdr = r, payload = replicate rtspHeaderSize 0, offset = 0, fin = 0, timestamp = 0,
     ring_of = g, d4_sps = [], d4_pps = [], d4_codec = None, d4_packets = [], d4_fuStarted = False, d4_buf = []\<rparr>"

text \<open>The parameter sets of the SDP are an argument.\<close>

definition H264_Demux :: "bytes list \<Rightarrow> (h264_demuxer, h264_params) op" where
  "H264_Demux sprop d =
     (if length sprop \<le> 1 then (Inl (Error ''no valid h264 params found''), d)
      else case NewCodecDataFromSPSAndPPS (sprop ! 0) (sprop ! 1) of Inl e \<Rightarrow> (Inl e, d)
      | Inr c \<Rightarrow> (Inr c, d\<lparr>d4_sps := sprop ! 0, d4_pps := sprop ! 1, d4_codec := Some c\<rparr>))"

text \<open>
  The stream index of the packet is read from the codec parameters through a nil pointer
  before the first parameter sets are known, which panics.
\<close>

definition H264_addPacket :: "bytes \<Rightarrow> bool \<Rightarrow> (h264_demuxer, unit) op" where
  "H264_addPacket nalU isKeyFrame = sbind (alloc_buf (4 + length nalU)) (\<lambda>h d.
     case d4_codec d of None \<Rightarrow> (Inl Panic, d)
     | Some c \<Rightarrow> (Inr (), d\<lparr>d4_packets := d4_packets d @ [\<lparr>pk_key = isKeyFrame, pk_ts = video_time (timestamp d),
        pk_dur = 0, pk_data = be32 (len32 nalU) @ nalU, pk_codec = c, pk_slot = h\<rparr>]\<rparr>))"

definition H264_codec_update :: "(h264_demuxer, unit) op" where
  "H264_codec_update d = (case NewCodecDataFromSPSAndPPS (d4_sps d) (d4_pps d) of Inl e \<Rightarrow> (Inl e, d)
     | Inr c \<Rightarrow> (Inr (), d\<lparr>d4_codec := Some c\<rparr>))"

definition H264_CodecUpdateSPS :: "bytes \<Rightarrow> (h264_demuxer, unit) op" where
  "H264_CodecUpdateSPS val d = (if val = d4_sps d then (Inr (), d) else H264_codec_update (d\<lparr>d4_sps := val\<rparr>))"

definition H264_CodecUpdatePPS :: "bytes \<Rightarrow> (h264_demuxer, unit) op" where
  "H264_CodecUpdatePPS val d = (if val = d4_pps d then (Inr (), d) else H264_codec_update (d\<lparr>d4_pps := val\<rparr>))"

definition nal_kind :: "byte \<Rightarrow> byte" where
  "nal_kind x = x AND 0x1f"

text \<open>STAP-A: units behind 16-bit sizes; a zero or a size past the end stops the loop.\<close>

fun H264_stapa :: "bytes \<Rightarrow> (h264_demuxer, unit) op" where
  "H264_stapa (x # y # r) =
     (let sz = unat x * 256 + unat y; n = take sz r; t = nal_kind (r ! 0)
      in if sz = 0 \<or> length r < sz then sret ()
         else sbind (if 1 \<le> t \<and> t \<le> 5 then H264_addPacket n (t = 5)
                     else if t = 7 then H264_CodecUpdateSPS n
                     else if t = 8 then H264_CodecUpdatePPS n
                     else sret ()) (\<lambda>_. H264_stapa (drop sz r)))"
| "H264_stapa _ = sret ()"

definition H264_processSTAPA :: "bytes \<Rightarrow> (h264_demuxer, unit) op" where
  "H264_processSTAPA nalU = H264_stapa (drop 1 nalU)"

text \<open>The parameter sets found in a reassembled unit; the result is the unit type.\<close>

fun H264_split_units :: "byte \<Rightarrow> bytes list \<Rightarrow> (h264_demuxer, byte) op" where
  "H264_split_units t [] = sret t"
| "H264_split_units t (v # vs) =
     (if v = [] then sfail Panic
      else let k = nal_kind (v ! 0)
        in if k = 5 then (\<lambda>d. H264_split_units 5 vs (d\<lparr>d4_buf := v\<rparr>))
           else sbind (if k = 7 then H264_CodecUpdateSPS v else if k = 8 then H264_CodecUpdatePPS v else sret ())
             (\<lambda>_. H264_split_units t vs))"

definition H264_finalizeFUAPacket :: "(h264_demuxer, unit) op" where
  "H264_finalizeFUAPacket d =
     (let d = d\<lparr>d4_fuStarted := False\<rparr> in
      if d4_buf d = [] then (Inl Panic, d)
      else let t = nal_kind (d4_buf d ! 0) in
        sbind (if t = 7 \<or> t = 9 then (case SplitNALUs ([0, 0, 0, 1] @ d4_buf d) of Inl e \<Rightarrow> sfail e
                 | Inr (units, _) \<Rightarrow> H264_split_units t units)
               else sret t)
          (\<lambda>t d. H264_addPacket (d4_buf d) (t = 5) d) d)"

definition H264_processLFUA :: "(h264_demuxer, unit) op" where
  "H264_processLFUA d =
     (if fin d - offset d < 2 then (Inl (Error ''H.264 FU-A packet too short''), d)
      else let fuIndicator = payload d ! offset d; fuHeader = payload d ! (offset d + 1);
        d = (if bit fuHeader 7 then d\<lparr>d4_fuStarted := True, d4_buf := [fuIndicator AND 0xe0 OR fuHeader AND 0x1f]\<rparr>
             else d)
      in if \<not> d4_fuStarted d then (Inr (), d)
         else let d = d\<lparr>d4_buf := d4_buf d @ sub (payload d) (offset d + 2) (fin d)\<rparr>
           in if bit fuHeader 6 then H264_finalizeFUAPacket d else (Inr (), d))"

definition H264_processNALUnit :: "bytes \<Rightarrow> (h264_demuxer, unit) op" where
  "H264_processNALUnit nalU =
     (if nalU = [] then sfail Panic
      else let t = nal_kind (nalU ! 0)
        in if 1 \<le> t \<and> t \<le> 5 then H264_addPacket nalU (t = 5)
           else if t = 7 then H264_CodecUpdateSPS nalU
           else if t = 8 then H264_CodecUpdatePPS nalU
           else if t \<le> 23 then sret ()
           else if t = 24 then H264_processSTAPA nalU
           else if t = 28 then H264_processLFUA
           else sret ())"

fun each :: "('a \<Rightarrow> ('s, unit) op) \<Rightarrow> 'a list \<Rightarrow> ('s, unit) op" where
  "each f [] = sret ()"
| "each f (x # xs) = sbind (f x) (\<lambda>_. each f xs)"

definition H264_pop :: "(h264_demuxer, h264_params demuxed option) op" where
  "H264_pop d = (case d4_packets d of [] \<Rightarrow> (Inr None, d) | p # ps \<Rightarrow> (Inr (Some p), d\<lparr>d4_packets := ps\<rparr>))"

definition H264_ReadPacket :: "(h264_demuxer, h264_params demuxed option) op" where
  "H264_ReadPacket d =
     (if d4_packets d \<noteq> [] then H264_pop d
      else sbind Hxxx_ReadPacket (\<lambda>nals. sbind (each H264_processNALUnit nals) (\<lambda>_. H264_pop)) d)"

definition H264_Close :: "(h264_demuxer, unit) op" where
  "H264_Close d = sbind (release_slots (map pk_slot (d4_packets d))) (\<lambda>_ d. (Inr (), d\<lparr>d4_packets := []\<rparr>)) d"

section \<open>h264_muxer.go\<close>

record h264_muxer = rtp_muxer +
  m4_sps :: bytes
  m4_pps :: bytes
  m4_mtu :: nat

definition H264_write_nal :: "int \<Rightarrow> bool \<Rightarrow> bytes \<Rightarrow> (h264_muxer, unit) op" where
  "H264_write_nal ts isLast nalu m =
     (if length nalu \<le> m4_mtu m then writeRTP nalu ts isLast m
      else if length nalu < 2 then (Inr (), m)
      else if m4_mtu m \<le> 2 then writeRTP nalu ts isLast m
      else write_fragments (m4_mtu m - 2) [nalu ! 0 AND 0xe0 OR 28] (nalu ! 0 AND 0x1f) ts isLast True (drop 1 nalu) m)"

fun H264_write_nals :: "int \<Rightarrow> bytes list \<Rightarrow> (h264_muxer, unit) op" where
  "H264_write_nals ts [] = sret ()"
| "H264_write_nals ts (n # ns) = sbind (H264_write_nal ts (ns = []) n) (\<lambda>_. H264_write_nals ts ns)"

definition H264_WritePacket :: "'c demuxed \<Rightarrow> (h264_muxer, unit) op" where
  "H264_WritePacket pkt m =
     (if pk_data pkt = [] then (Inr (), m)
      else case SplitNALUs (pk_data pkt) of Inl e \<Rightarrow> (Inl e, m)
      | Inr (nals, _) \<Rightarrow>
          if nals = [] then (Inr (), m)
          else H264_write_nals (pk_ts pkt)
            (if pk_key pkt \<and> m4_sps m \<noteq> [] \<and> m4_pps m \<noteq> [] then m4_sps m # m4_pps m # nals else nals) m)"

section \<open>What the muxer sends\<close>

definition h264_payloads :: "nat \<Rightarrow> bool \<Rightarrow> bytes \<Rightarrow> (bytes \<times> bool) list" where
  "h264_payloads mtu isLast n =
     (if length n \<le> mtu then [(n, isLast)]
      else fragments (mtu - 2) [n ! 0 AND 0xe0 OR 28] (n ! 0 AND 0x1f) isLast True (drop 1 n))"

fun h264_run :: "nat \<Rightarrow> bytes list \<Rightarrow> (bytes \<times> bool) list" where
  "h264_run mtu [] = []"
| "h264_run mtu (n # ns) = h264_payloads mtu (ns = []) n @ h264_run mtu ns"

lemma same_mtu: "rtp_muxer.more m = rtp_muxer.more k \<Longrightarrow> m4_mtu m = m4_mtu k"
  by (cases m; cases k) simp

lemma sends_write_nal:
  assumes "3 \<le> m4_mtu k"
  shows "sends (rtp_muxer.more k) (H264_write_nal ts isLast n) ts (h264_payloads (m4_mtu k) isLast n)"
  unfolding sends_def
proof (intro allI impI)
  fix m assume m: "sink_err m = None" "rtp_muxer.more m = rtp_muxer.more (k :: h264_muxer)"
  with same_mtu have mtu: "m4_mtu m = m4_mtu k" by blast
  show "H264_write_nal ts isLast n m = (Inr (), advanced m ts (h264_payloads (m4_mtu k) isLast n))"
  proof (cases "length n \<le> m4_mtu k")
    case True
    with m sends_write [of "rtp_muxer.more k" n ts isLast] show ?thesis
      by (simp add: H264_write_nal_def mtu h264_payloads_def sends_def)
  next
    case False
    with m assms sends_fragments [of "rtp_muxer.more k"] show ?thesis
      by (simp add: H264_write_nal_def mtu h264_payloads_def sends_def)
  qed
qed

lemma sends_write_nals:
  "3 \<le> m4_mtu k \<Longrightarrow> sends (rtp_muxer.more k) (H264_write_nals ts ns) ts (h264_run (m4_mtu k) ns)"
proof (induction ns)
  case (Cons n ns)
  then show ?case by (simp add: sends_bind sends_write_nal)
qed (simp add: sends_ret del: sret_apply)

section \<open>What the demuxer makes of it\<close>

text \<open>Between two units: nothing queued, no ring, the parameter sets and parameters known.\<close>

definition h264_idle :: "bytes \<Rightarrow> bytes \<Rightarrow> h264_params \<Rightarrow> h264_demuxer \<Rightarrow> bool" where
  "h264_idle sps pps c d \<longleftrightarrow> d4_packets d = [] \<and> ring_of d = None \<and> d4_sps d = sps \<and> d4_pps d = pps \<and> d4_codec d = Some c"

text \<open>Within a fragmented unit of which \<open>x\<close> has arrived.\<close>

definition h264_partial :: "bytes \<Rightarrow> bytes \<Rightarrow> h264_params \<Rightarrow> bytes \<Rightarrow> h264_demuxer \<Rightarrow> bool" where
  "h264_partial sps pps c x d \<longleftrightarrow> h264_idle sps pps c d \<and> d4_fuStarted d \<and> d4_buf d = x"

definition h264_packet :: "h264_params \<Rightarrow> 32 word \<Rightarrow> int \<Rightarrow> bytes \<Rightarrow> h264_params demuxed" where
  "h264_packet c rate ts n = \<lparr>pk_key = (nal_kind (n ! 0) = 5), pk_ts = video_time (rtpTimestamp rate ts), pk_dur = 0,
     pk_data = avcc_frame n, pk_codec = c, pk_slot = None\<rparr>"

definition slice_unit :: "bytes \<Rightarrow> bool" where
  "slice_unit n \<longleftrightarrow> n \<noteq> [] \<and> 1 \<le> nal_kind (n ! 0) \<and> nal_kind (n ! 0) \<le> 5"

text \<open>
  The units an access unit may hold.  A unit that fits one packet is neither an aggregate nor a fragment
  itself, and a parameter set among them is the one already known; a unit to be fragmented is no
  sequence parameter set and no access unit delimiter, which \<open>finalizeFUAPacket\<close> splits again.
\<close>

definition sendable :: "nat \<Rightarrow> bytes \<Rightarrow> bytes \<Rightarrow> bytes \<Rightarrow> bool" where
  "sendable mtu sps pps n \<longleftrightarrow> n \<noteq> [] \<and>
     (if length n \<le> mtu then n ! 0 \<noteq> 0 \<and> nal_kind (n ! 0) \<noteq> 24 \<and> nal_kind (n ! 0) \<noteq> 28 \<and>
        (nal_kind (n ! 0) = 7 \<longrightarrow> n = sps) \<and> (nal_kind (n ! 0) = 8 \<longrightarrow> n = pps)
      else nal_kind (n ! 0) \<noteq> 7 \<and> nal_kind (n ! 0) \<noteq> 9)"

text \<open>Those that become a packet: the slices, and every unit that is fragmented.\<close>

definition delivered :: "nat \<Rightarrow> bytes \<Rightarrow> bool" where
  "delivered mtu n \<longleftrightarrow> slice_unit n \<or> mtu < length n"

lemma slice_sendable: "slice_unit n \<Longrightarrow> sendable mtu sps pps n"
  by (auto simp: slice_unit_def sendable_def nal_kind_def)

lemma raw_unit:
  assumes "n \<noteq> []" and "n ! 0 \<noteq> 0" and "length n < 2 ^ 16"
  shows "SplitNALUs n = Inr ([n], naluRaw)"
proof (cases n)
  case (Cons x r)
  show ?thesis
  proof (cases r)
    case Nil
    with Cons show ?thesis by (simp add: split_short)
  next
    case (Cons y s)
    with \<open>n = x # r\<close> assms show ?thesis by (simp add: split_payload)
  qed
qed (use assms in simp)

lemma H264_read:
  assumes "h264_idle sps pps c d" and "pt_ok m" and "length b < 2 ^ 16 - 12"
    and "rdr d = rtp_frame m b ts mk @ rest" and "b \<noteq> []" and "b ! 0 \<noteq> 0"
  shows "H264_ReadPacket d = sbind (H264_processNALUnit b) (\<lambda>_. H264_pop)
    (after_frame (rtp_frame m b ts mk) (rtpTimestamp (clockRate m) ts) rest d)"
proof -
  have "SplitNALUs b = Inr ([b], naluRaw)" using assms by (intro raw_unit) simp_all
  from Hxxx_read_frame [OF assms(2-4) this assms(5)] assms(1) show ?thesis
    by (simp add: H264_ReadPacket_def h264_idle_def)
qed

lemma receives_slice:
  assumes "slice_unit n" and "length n < 2 ^ 16 - 12"
  shows "receives rate H264_ReadPacket ts (h264_idle sps pps c) [(n, mk)] [h264_packet c rate ts n] (h264_idle sps pps c)"
proof (rule receives_one [OF assms(2)])
  fix m :: rtp_muxer and d :: h264_demuxer and rest
  assume d: "h264_idle sps pps c d" "pt_ok m" "clockRate m = rate" "rdr d = rtp_frame m n ts mk @ rest"
  have n: "n \<noteq> []" "n ! 0 \<noteq> 0" using assms(1) by (auto simp: slice_unit_def nal_kind_def)
  let ?d = "after_frame (rtp_frame m n ts mk) (rtpTimestamp (clockRate m) ts) rest d"
  have "H264_ReadPacket d = (Inr (Some (h264_packet c rate ts n)), ?d)"
    using assms(1) n(1) d(1,3) unfolding H264_read [OF d(1,2) assms(2) d(4) n]
    by (simp add: H264_processNALUnit_def slice_unit_def H264_addPacket_def h264_idle_def after_frame_def
        alloc_buf_def sbind_def H264_pop_def h264_packet_def avcc_frame_def)
  with d(1) show "\<exists>x d'. H264_ReadPacket d = (Inr x, d') \<and> rdr d' = rest \<and> h264_idle sps pps c d' \<and>
      [h264_packet c rate ts n] = (case x of None \<Rightarrow> [] | Some p \<Rightarrow> [p])"
    by (auto simp: after_frame_def h264_idle_def)
qed

text \<open>A unit that is no slice leaves no packet: known parameter sets and units of the other types.\<close>

lemma receives_quiet:
  assumes "sendable mtu sps pps n" "length n \<le> mtu" "\<not> slice_unit n" and "length n < 2 ^ 16 - 12"
  shows "receives rate H264_ReadPacket ts (h264_idle sps pps c) [(n, mk)] [] (h264_idle sps pps c)"
proof (rule receives_one [OF assms(4)])
  fix m :: rtp_muxer and d :: h264_demuxer and rest
  assume d: "h264_idle sps pps c d" "pt_ok m" "clockRate m = rate" "rdr d = rtp_frame m n ts mk @ rest"
  have n: "n \<noteq> []" "n ! 0 \<noteq> 0" "nal_kind (n ! 0) \<noteq> 24" "nal_kind (n ! 0) \<noteq> 28"
      "\<not> (1 \<le> nal_kind (n ! 0) \<and> nal_kind (n ! 0) \<le> 5)"
      "nal_kind (n ! 0) = 7 \<Longrightarrow> n = sps" "nal_kind (n ! 0) = 8 \<Longrightarrow> n = pps"
    using assms(1-3) by (simp_all add: sendable_def slice_unit_def)
  let ?d = "after_frame (rtp_frame m n ts mk) (rtpTimestamp (clockRate m) ts) rest d"
  have "H264_processNALUnit n ?d = (Inr (), ?d)"
    using n d(1) unfolding H264_processNALUnit_def
    by (auto simp: H264_CodecUpdateSPS_def H264_CodecUpdatePPS_def h264_idle_def after_frame_def Let_def)
  then have "H264_ReadPacket d = (Inr None, ?d)"
    using d(1) unfolding H264_read [OF d(1,2) assms(4) d(4) n(1,2)]
    by (simp add: sbind_def H264_pop_def h264_idle_def after_frame_def)
  with d(1) show "\<exists>x d'. H264_ReadPacket d = (Inr x, d') \<and> rdr d' = rest \<and> h264_idle sps pps c d' \<and>
      [] = (case x of None \<Rightarrow> [] | Some p \<Rightarrow> [p])"
    by (auto simp: after_frame_def h264_idle_def)
qed

section \<open>Fragmented units\<close>

lemma fu_payload:
  "rtp_frame m (x # y # r) ts mk ! 16 = x" "rtp_frame m (x # y # r) ts mk ! 17 = y"
  "sub (rtp_frame m (x # y # r) ts mk) 18 (18 + length r) = r"
proof -
  let ?f = "rtp_frame m (x # y # r) ts mk"
  have "?f ! (16 + i) = drop 16 ?f ! i" if "i < 2" for i using that by simp
  from this [of 0] this [of 1] show "?f ! 16 = x" "?f ! 17 = y" by (simp_all add: drop_rtp_frame)
  have "drop 18 ?f = drop 2 (drop 16 ?f)" by simp
  then show "sub ?f 18 (18 + length r) = r" by (simp add: sub_def drop_rtp_frame)
qed

lemma fu_header:
  "nal_kind (x AND 0xe0 OR 28) = 28" "(x AND 0xe0 OR 28) AND 0xe0 OR ((x AND 0x1f OR e) OR e') AND 0x1f = x"
  if "e \<in> {0, 0x80}" "e' \<in> {0, 0x40}" for x :: byte
  using that by (auto simp: nal_kind_def intro!: byte_eqI simp: bit_simps)

lemma fu_indicator_nonzero: "x AND 0xe0 OR 28 \<noteq> (0 :: byte)"
proof
  assume "x AND 0xe0 OR 28 = 0"
  then have "bit (x AND 0xe0 OR 28) 3 = bit (0 :: byte) 3" by simp
  then show False by (simp add: bit_simps)
qed

text \<open>What one fragment does to the state the transport layer leaves.\<close>

lemma process_fragment:
  assumes "h264_idle sps pps c d"
    and e: "e = (if s then 0x80 else 0)" and e': "e' = (if l then 0x40 else (0 :: byte))"
    and ind: "ind = x AND 0xe0 OR 28" and hdr: "hdr = (x AND 0x1f OR e) OR e'"
    and x: "nal_kind x \<noteq> 7" "nal_kind x \<noteq> 9"
    and buf: "acc = (if s then [x] else d4_buf d)" and st: "s \<or> d4_fuStarted d" and first: "acc ! 0 = x" "acc \<noteq> []"
    and dd: "dd = after_frame (rtp_frame m (ind # hdr # b) ts mk) w rest d"
  shows "H264_processNALUnit (ind # hdr # b) dd =
    (let d1 = dd\<lparr>d4_fuStarted := \<not> l, d4_buf := acc @ b\<rparr> in
     (Inr (), if l then d1\<lparr>d4_packets := [\<lparr>pk_key = (nal_kind x = 5), pk_ts = video_time w, pk_dur = 0,
        pk_data = avcc_frame (acc @ b), pk_codec = c, pk_slot = None\<rparr>]\<rparr> else d1))"
proof -
  have hs: "bit hdr 7 = s" "bit hdr 6 = l" unfolding hdr e e' by (auto simp: bit_simps)
  have kinds: "nal_kind ind = 28" "ind AND 0xe0 OR hdr AND 0x1f = x"
    unfolding ind hdr using fu_header [of e e' x] by (auto simp: e e')
  have d: "payload dd = rtp_frame m (ind # hdr # b) ts mk" "offset dd = 16" "fin dd = 18 + length b"
    "d4_packets dd = []" "ring_of dd = None" "d4_codec dd = Some c" "timestamp dd = w"
    "d4_fuStarted dd = d4_fuStarted d" "d4_buf dd = d4_buf d"
    using assms(1) by (simp_all add: dd after_frame_def h264_idle_def)
  have t: "\<not> (nal_kind x = 7 \<or> nal_kind x = 9)" using x by blast
  have fuu: "H264_processNALUnit (ind # hdr # b) dd = H264_processLFUA dd"
    by (simp add: H264_processNALUnit_def kinds)
  show ?thesis
  proof (cases l)
    case True
    with first t st show ?thesis unfolding fuu
      by (cases s) (simp_all add: H264_processLFUA_def d fu_payload hs kinds buf H264_finalizeFUAPacket_def
          H264_addPacket_def alloc_buf_def sbind_def avcc_frame_def nth_append)
  next
    case False
    with st show ?thesis unfolding fuu
      by (cases s) (simp_all add: H264_processLFUA_def d fu_payload hs kinds buf)
  qed
qed

lemma receives_fragment:
  assumes e: "e = (if s then 0x80 else 0)" and e': "e' = (if l then 0x40 else (0 :: byte))"
    and x: "nal_kind x \<noteq> 7" "nal_kind x \<noteq> 9" and acc: "acc \<noteq> []" "acc ! 0 = x" "s \<Longrightarrow> acc = [x]"
    and len: "length b < 2 ^ 16 - 14"
  shows "receives rate H264_ReadPacket ts (if s then h264_idle sps pps c else h264_partial sps pps c acc)
    [([x AND 0xe0 OR 28] @ [(x AND 0x1f OR e) OR e'] @ b, mk)] (if l then [h264_packet c rate ts (acc @ b)] else [])
    (if l then h264_idle sps pps c else h264_partial sps pps c (acc @ b))"
proof (rule receives_one)
  let ?p = "[x AND 0xe0 OR 28] @ [(x AND 0x1f OR e) OR e'] @ b"
  show l: "length ?p < 2 ^ 16 - 12" using len by simp
  fix m :: rtp_muxer and d :: h264_demuxer and rest
  assume d: "(if s then h264_idle sps pps c else h264_partial sps pps c acc) d"
    and m: "pt_ok m" "clockRate m = rate" "rdr d = rtp_frame m ?p ts mk @ rest"
  have idle: "h264_idle sps pps c d" using d by (simp add: h264_partial_def split: if_splits)
  have a: "acc = (if s then [x] else d4_buf d)" "s \<or> d4_fuStarted d"
    using d acc(3) by (auto simp: h264_partial_def split: if_splits)
  let ?d = "after_frame (rtp_frame m ?p ts mk) (rtpTimestamp (clockRate m) ts) rest d"
  let ?d1 = "?d\<lparr>d4_fuStarted := \<not> l, d4_buf := acc @ b\<rparr>"
  have nz: "?p \<noteq> []" "?p ! 0 \<noteq> 0" by (simp_all add: fu_indicator_nonzero)
  have "H264_ReadPacket d = (Inr (if l then Some (h264_packet c rate ts (acc @ b)) else None), ?d1\<lparr>d4_packets := []\<rparr>)"
    unfolding H264_read [OF idle m(1) l m(3) nz]
    using process_fragment [OF idle e e' refl refl x a acc(2,1) refl, where b = b and m = m and ts = ts
      and mk = mk and rest = rest and w = "rtpTimestamp (clockRate m) ts"]
      acc(1,2) idle m(2)
    by (auto simp: sbind_def H264_pop_def h264_packet_def nth_append after_frame_def h264_idle_def)
  with idle show "\<exists>y d'. H264_ReadPacket d = (Inr y, d') \<and> rdr d' = rest \<and>
      (if l then h264_idle sps pps c else h264_partial sps pps c (acc @ b)) d' \<and>
      (if l then [h264_packet c rate ts (acc @ b)] else []) = (case y of None \<Rightarrow> [] | Some p \<Rightarrow> [p])"
    by (auto simp: after_frame_def h264_idle_def h264_partial_def)
qed

lemma receives_rest:
  assumes "0 < sz" and "sz < 2 ^ 16 - 14" and x: "nal_kind x \<noteq> 7" "nal_kind x \<noteq> 9"
    and "acc \<noteq> []" and "acc ! 0 = x" and "b \<noteq> []"
  shows "receives rate H264_ReadPacket ts (h264_partial sps pps c acc)
    (fragments sz [x AND 0xe0 OR 28] (x AND 0x1f) lst False b) [h264_packet c rate ts (acc @ b)] (h264_idle sps pps c)"
  using assms(5-)
proof (induction "length b" arbitrary: b acc rule: less_induct)
  case less
  have len: "length (take sz b) < 2 ^ 16 - 14" using assms(2) by simp
  show ?case
  proof (cases "length b \<le> sz")
    case True
    have "receives rate H264_ReadPacket ts (h264_partial sps pps c acc)
      [([x AND 0xe0 OR 28] @ [(x AND 0x1f OR 0) OR 0x40] @ b, lst)] [h264_packet c rate ts (acc @ b)] (h264_idle sps pps c)"
      using receives_fragment [of 0 False "0x40" True x acc b] x less.prems True assms(2) by simp
    with True less.prems assms(1) show ?thesis by (simp add: fragments.simps)
  next
    case False
    have a: "receives rate H264_ReadPacket ts (h264_partial sps pps c acc)
      [([x AND 0xe0 OR 28] @ [(x AND 0x1f OR 0) OR 0] @ take sz b, False)] [] (h264_partial sps pps c (acc @ take sz b))"
      using receives_fragment [of 0 False 0 False x acc "take sz b"] x less.prems len by simp
    have "receives rate H264_ReadPacket ts (h264_partial sps pps c (acc @ take sz b))
      (fragments sz [x AND 0xe0 OR 28] (x AND 0x1f) lst False (drop sz b))
      [h264_packet c rate ts ((acc @ take sz b) @ drop sz b)] (h264_idle sps pps c)"
      using False assms(1) less.prems by (intro less.hyps) (simp_all add: nth_append)
    from receives_append [OF a this] False less.prems(3) assms(1) show ?thesis
      by (subst fragments.simps) simp
  qed
qed

lemma receives_unit:
  assumes n0: "sendable mtu sps pps n" and "3 \<le> mtu" and "mtu < 2 ^ 16 - 12"
  shows "receives rate H264_ReadPacket ts (h264_idle sps pps c) (h264_payloads mtu lst n)
    (if delivered mtu n then [h264_packet c rate ts n] else []) (h264_idle sps pps c)"
proof (cases "length n \<le> mtu")
  case True
  then have p: "h264_payloads mtu lst n = [(n, lst)]" "length n < 2 ^ 16 - 12"
    using assms(3) by (simp_all add: h264_payloads_def)
  show ?thesis
  proof (cases "slice_unit n")
    case s: True
    with p receives_slice [OF s, of rate ts sps pps c lst] show ?thesis by (simp add: delivered_def)
  next
    case ns: False
    with p True receives_quiet [OF n0 True ns, of rate ts c lst] show ?thesis by (simp add: delivered_def)
  qed
next
  case False
  let ?sz = "mtu - 2"
  obtain x b where n: "n = x # b" using n0 by (cases n) (auto simp: sendable_def)
  then have x: "nal_kind x \<noteq> 7" "nal_kind x \<noteq> 9" using n0 False by (simp_all add: sendable_def)
  have b: "?sz < length b" "0 < ?sz" "?sz < 2 ^ 16 - 14" using False assms(2,3) n by auto
  have "receives rate H264_ReadPacket ts (h264_idle sps pps c)
    [([x AND 0xe0 OR 28] @ [(x AND 0x1f OR 0x80) OR 0] @ take ?sz b, False)] [] (h264_partial sps pps c ([x] @ take ?sz b))"
    using receives_fragment [of "0x80" True 0 False x "[x]" "take ?sz b"] x b by simp
  moreover have "receives rate H264_ReadPacket ts (h264_partial sps pps c ([x] @ take ?sz b))
    (fragments ?sz [x AND 0xe0 OR 28] (x AND 0x1f) lst False (drop ?sz b))
    [h264_packet c rate ts (([x] @ take ?sz b) @ drop ?sz b)] (h264_idle sps pps c)"
    using b x by (intro receives_rest) simp_all
  ultimately have "receives rate H264_ReadPacket ts (h264_idle sps pps c)
    ([([x AND 0xe0 OR 28] @ [(x AND 0x1f OR 0x80) OR 0] @ take ?sz b, False)] @
      fragments ?sz [x AND 0xe0 OR 28] (x AND 0x1f) lst False (drop ?sz b))
    ([] @ [h264_packet c rate ts (([x] @ take ?sz b) @ drop ?sz b)]) (h264_idle sps pps c)"
    by (rule receives_append)
  moreover have "delivered mtu n" using False by (simp add: delivered_def)
  ultimately show ?thesis using False n b
    unfolding h264_payloads_def by (subst fragments.simps) auto
qed

lemma receives_units:
  assumes "\<forall>n\<in>set ns. sendable mtu sps pps n" and "3 \<le> mtu" and "mtu < 2 ^ 16 - 12"
  shows "receives rate H264_ReadPacket ts (h264_idle sps pps c) (h264_run mtu ns)
    (map (h264_packet c rate ts) (filter (delivered mtu) ns)) (h264_idle sps pps c)"
  using assms(1)
proof (induction ns)
  case (Cons n ns)
  have "receives rate H264_ReadPacket ts (h264_idle sps pps c) (h264_payloads mtu (ns = []) n)
    (if delivered mtu n then [h264_packet c rate ts n] else []) (h264_idle sps pps c)"
    using Cons.prems assms(2,3) by (intro receives_unit) simp_all
  from receives_append [OF this Cons.IH] Cons.prems show ?case by (simp split: if_splits)
qed (simp add: receives_Nil)

text \<open>The parameter sets in front of a key frame change nothing when they are already known.\<close>

definition sets_ok :: "nat \<Rightarrow> bytes \<Rightarrow> bytes \<Rightarrow> bool" where
  "sets_ok mtu sps pps \<longleftrightarrow> sps \<noteq> [] \<and> nal_kind (sps ! 0) = 7 \<and> length sps \<le> mtu \<and>
     pps \<noteq> [] \<and> nal_kind (pps ! 0) = 8 \<and> length pps \<le> mtu"

lemma sets_quiet:
  assumes "sets_ok mtu sps pps" and "n = sps \<or> n = pps"
  shows "sendable mtu sps pps n" "\<not> delivered mtu n"
  using assms by (auto simp: sets_ok_def sendable_def delivered_def slice_unit_def nal_kind_def)

lemma receives_access_unit:
  assumes "\<forall>n\<in>set ns. sendable mtu sps pps n" and "3 \<le> mtu" and "mtu < 2 ^ 16 - 12" and "sets_ok mtu sps pps"
  shows "receives rate H264_ReadPacket ts (h264_idle sps pps c) (h264_run mtu (sps # pps # ns))
    (map (h264_packet c rate ts) (filter (delivered mtu) ns)) (h264_idle sps pps c)"
  using receives_units [of "sps # pps # ns" mtu sps pps rate ts c] sets_quiet [OF assms(4)] assms(1-3) by simp

section \<open>Aggregated units\<close>

lemma be16_value: "be16 w = [x, y] \<Longrightarrow> unat x * 256 + unat y = unat w"
proof -
  assume "be16 w = [x, y]"
  then have "x = ucast (drop_bit 8 w)" "y = ucast w" by (simp_all add: be16_def)
  moreover have "unat w < 65536" using unsigned_less [of w, where ?'a = nat] by simp
  ultimately have "unat x = unat w div 256" "unat y = unat w mod 256"
    by (simp_all add: unsigned_ucast_eq drop_bit_eq_div take_bit_eq_mod unat_div)
  then show ?thesis by simp
qed

definition queued :: "h264_params \<Rightarrow> h264_demuxer \<Rightarrow> bytes \<Rightarrow> h264_params demuxed" where
  "queued c d n = \<lparr>pk_key = (nal_kind (n ! 0) = 5), pk_ts = video_time (timestamp d), pk_dur = 0,
     pk_data = avcc_frame n, pk_codec = c, pk_slot = None\<rparr>"

text \<open>The units of an aggregate: the parameter sets among them are the known ones.\<close>

definition aggregate_unit :: "h264_demuxer \<Rightarrow> bytes \<Rightarrow> bool" where
  "aggregate_unit d n \<longleftrightarrow> n \<noteq> [] \<and> length n < 2 ^ 16 \<and>
     (nal_kind (n ! 0) = 7 \<longrightarrow> n = d4_sps d) \<and> (nal_kind (n ! 0) = 8 \<longrightarrow> n = d4_pps d)"

lemma stapa_units:
  assumes "\<forall>n\<in>set ns. aggregate_unit d n" and "ring_of d = None" and "d4_codec d = Some c"
  shows "H264_stapa (put_table set_bytes ns) d =
    (Inr (), d\<lparr>d4_packets := d4_packets d @ map (queued c d) (filter slice_unit ns)\<rparr>)"
  using assms
proof (induction ns arbitrary: d)
  case (Cons n ns)
  obtain x y where xy: "be16 (len16 n) = [x, y]" by (simp add: be16_def)
  have sz: "unat x * 256 + unat y = length n"
    using be16_value [OF xy] Cons.prems(1) by (simp add: aggregate_unit_def len16_def unat_of_nat)
  let ?t = "nal_kind (n ! 0)"
  let ?d = "d\<lparr>d4_packets := d4_packets d @ map (queued c d) (filter slice_unit [n])\<rparr>"
  have n: "n \<noteq> []" "?t = 7 \<Longrightarrow> n = d4_sps d" "?t = 8 \<Longrightarrow> n = d4_pps d"
    using Cons.prems(1) by (simp_all add: aggregate_unit_def)
  let ?f = "if 1 \<le> ?t \<and> ?t \<le> 5 then H264_addPacket n (?t = 5) else if ?t = 7 then H264_CodecUpdateSPS n
      else if ?t = 8 then H264_CodecUpdatePPS n else sret ()"
  have one: "?f d = (Inr (), ?d)"
    using n Cons.prems(2,3) by (auto simp: slice_unit_def H264_addPacket_def H264_CodecUpdateSPS_def H264_CodecUpdatePPS_def
        alloc_buf_def sbind_def queued_def avcc_frame_def)
  have "H264_stapa (put_table set_bytes (n # ns)) d = sbind ?f (\<lambda>_. H264_stapa (put_table set_bytes ns)) d"
    using n(1) by (simp add: set_bytes_def [of n] xy sz nth_append Let_def)
  also have "\<dots> = H264_stapa (put_table set_bytes ns) ?d" unfolding sbind_def one by simp
  also have "\<dots> = (Inr (), ?d\<lparr>d4_packets := d4_packets ?d @ map (queued c ?d) (filter slice_unit ns)\<rparr>)"
    using Cons.prems by (intro Cons.IH) (simp_all add: aggregate_unit_def)
  also have "queued c ?d = queued c d" by (simp add: queued_def fun_eq_iff)
  finally show ?case by simp
qed simp

section \<open>Properties\<close>

text \<open>C1: An access unit given to the muxer as length-prefixed units comes out of the demuxer on the other side
  of the connection unit by unit: every slice (types 1 to 5), whatever its size and the MTU, comes out as one packet with
  exactly its bytes, in order, fragmented slices put together again, the key frame flag that of the type, and a
  unit of another type that is longer than the MTU comes out in the same way.  The other units that fit the MTU
  (SEI, delimiters, the parameter sets, also those in front of a key frame) are taken in without a packet,
  and the stream is consumed exactly.  Assumed: the demuxer has no ring and knows the muxer's parameter sets, which fit the
  MTU; a parameter set in the access unit is one of these; no unit that fits the MTU is itself of an RTP type
  (STAP-A, FU-A) or begins with a zero byte; no sequence parameter set and no delimiter has to be
  fragmented (\<open>fragmented_sps_fails\<close>); the MTU is at least 3 and leaves room in a frame of 16-bit length.\<close>

theorem h264_transport:
  assumes "ns \<noteq> []" and "\<forall>n\<in>set ns. sendable (m4_mtu m) (m4_sps m) (m4_pps m) n"
    and "length (put_table avcc_frame ns) < 2 ^ 32" and "pk_data pkt = put_table avcc_frame ns"
    and "3 \<le> m4_mtu m" and "m4_mtu m < 2 ^ 16 - 12" and "pt_ok m" and "sink_err m = None"
    and "sets_ok (m4_mtu m) (m4_sps m) (m4_pps m)" and "h264_idle (m4_sps m) (m4_pps m) c d"
    and "H264_WritePacket pkt m = (res, m')" and "sink m' = sink m @ out" and "rdr d = out @ rest"
  shows "\<exists>k d'. res = Inr () \<and>
    read_times k H264_ReadPacket d =
      (Inr (map (h264_packet c (clockRate m) (pk_ts pkt)) (filter (delivered (m4_mtu m)) ns)), d') \<and>
    rdr d' = rest \<and> h264_idle (m4_sps m) (m4_pps m) c d'"
proof -
  let ?P = "h264_idle (m4_sps m) (m4_pps m) c" and ?r = "clockRate m"
  define us where "us = (if pk_key pkt then m4_sps m # m4_pps m # ns else ns)"
  let ?ps = "h264_run (m4_mtu m) us"
  have split: "SplitNALUs (put_table avcc_frame ns) = Inr (ns, naluAVCC)"
    using assms(1-3) by (intro split_avcc) (auto simp: sendable_def)
  have "put_table avcc_frame ns \<noteq> []" using assms(1) by (cases ns) (auto simp: avcc_frame_def be32_def)
  then have "H264_WritePacket pkt m = H264_write_nals (pk_ts pkt) us m"
    using assms(1,9) by (simp add: H264_WritePacket_def assms(4) split us_def sets_ok_def)
  also have "\<dots> = (Inr (), advanced m (pk_ts pkt) ?ps)"
    using sends_write_nals [OF assms(5), of "pk_ts pkt" us] assms(8) by (simp add: sends_def)
  finally have w: "res = Inr ()" "m' = advanced m (pk_ts pkt) ?ps" using assms(11) by simp_all
  have "receives ?r H264_ReadPacket (pk_ts pkt) ?P ?ps
      (map (h264_packet c ?r (pk_ts pkt)) (filter (delivered (m4_mtu m)) ns)) ?P"
    using receives_units [OF assms(2,5,6)] receives_access_unit [OF assms(2,5,6,9)] by (simp add: us_def)
  moreover have "pt_ok (rtp_muxer.truncate m)" "clockRate (rtp_muxer.truncate m) = ?r"
    using assms(7) by (simp_all add: pt_ok_def rtp_muxer.truncate_def)
  moreover have "rdr d = frames (rtp_muxer.truncate m) (pk_ts pkt) ?ps @ rest"
    using assms(12,13) w(2) by (simp add: advanced_def)
  ultimately show ?thesis using assms(10) w(1) unfolding receives_def by blast
qed

definition units0 :: "bytes list" where "units0 = [[9, 16], [0x65, 1, 2, 3], [0x41, 9]]"

definition packet0 :: "unit demuxed" where
  "packet0 = \<lparr>pk_key = True, pk_ts = Second, pk_dur = 0, pk_data = put_table avcc_frame units0, pk_codec = (), pk_slot = None\<rparr>"

definition mux0 :: h264_muxer where
  "mux0 = rtp_muxer.extend muxer0 \<lparr>m4_sps = [0x67, 1], m4_pps = [0x68], m4_mtu = 3\<rparr>"

definition params0 :: h264_params where
  "params0 = \<lparr>hp_Record = [], hp_RecordInfo = \<lparr>AVCProfileIndication = 66, ProfileCompatibility = 0,
     AVCLevelIndication = 30, LengthSizeMinusOne = 3, SPS = [], PPS = []\<rparr>, hp_SPSInfo = empty_sps_info, hp_CodecType = H264_type\<rparr>"

definition demux0 :: "bytes \<Rightarrow> h264_demuxer" where
  "demux0 b = (NewH264Demuxer b None)\<lparr>d4_sps := [0x67, 1], d4_pps := [0x68], d4_codec := Some params0\<rparr>"

theorem h264_transport_witness:
  "\<exists>k d'. fst (H264_WritePacket packet0 mux0) = Inr () \<and>
    read_times k H264_ReadPacket (demux0 (sink (snd (H264_WritePacket packet0 mux0)) @ [7])) =
      (Inr [h264_packet params0 90000 Second [0x65, 1, 2, 3], h264_packet params0 90000 Second [0x41, 9]], d') \<and>
    rdr d' = [7]"
  using h264_transport [of units0 mux0 packet0 params0 "demux0 (sink (snd (H264_WritePacket packet0 mux0)) @ [7])"
      "fst (H264_WritePacket packet0 mux0)" "snd (H264_WritePacket packet0 mux0)"
      "sink (snd (H264_WritePacket packet0 mux0))" "[7]"]
  by (simp add: units0_def packet0_def mux0_def demux0_def rtp_muxer.extend_def muxer0_def newBaseMuxer_def pt_ok_def
      slice_unit_def sendable_def delivered_def nal_kind_def avcc_frame_def sets_ok_def h264_idle_def NewH264Demuxer_def) blast

text \<open>C31: A STAP-A packet is unpacked unit by unit: every coded slice in it (types 1 to 5) is queued as one packet,
  in order and with exactly its bytes; the parameter sets in it, when they are those the demuxer knows, and the
  units of the other types leave the state unchanged.  Assumed: the demuxer has no ring.\<close>

theorem stapa_unpacked:
  assumes "\<forall>n\<in>set ns. aggregate_unit d n" and "ring_of d = None" and "d4_codec d = Some c" and "nal_kind x = 24"
  shows "H264_processNALUnit (x # put_table set_bytes ns) d =
    (Inr (), d\<lparr>d4_packets := d4_packets d @ map (queued c d) (filter slice_unit ns)\<rparr>)"
  using stapa_units [OF assms(1-3)] assms(4) by (simp add: H264_processNALUnit_def H264_processSTAPA_def)

theorem stapa_unpacked_witness:
  "H264_processNALUnit (0x78 # put_table set_bytes ([0x67, 1] # [0x68] # units0)) (demux0 []) =
    (Inr (), (demux0 [])\<lparr>d4_packets := map (queued params0 (demux0 [])) [[0x65, 1, 2, 3], [0x41, 9]]\<rparr>)"
  using stapa_unpacked [of "[0x67, 1] # [0x68] # units0" "demux0 []" params0 "0x78"]
  by (simp add: units0_def demux0_def NewH264Demuxer_def aggregate_unit_def slice_unit_def nal_kind_def)

text \<open>A sequence parameter set that arrives in fragments is never accepted: the reassembled
  unit is split again behind a four-byte start code, which \<open>SplitNALUs\<close> takes for the length 1,
  so its first byte alone replaces the stored SPS and the call fails.\<close>

theorem fragmented_sps_fails:
  assumes "d4_buf d = x # b" and "nal_kind x = 7" and "length b < 2 ^ 16" and "d4_sps d \<noteq> [x]"
  shows "\<exists>d'. H264_finalizeFUAPacket d =
      (Inl (Error ''h264parser: SPS too short (need at least 4 bytes)''), d') \<and> d4_sps d' = [x]"
proof -
  have v: "U32BE ([0, 0, 0, 1] @ x # b) = Inr 1" by simp
  have l: "1 \<le> len32 ([0, 0, 0, 1] @ x # b)" "\<not> len32 (x # b) < 1"
    using assms(3) by (simp_all add: word_le_nat_alt word_less_nat_alt unat_len32)
  obtain ns r where loop: "avcc_loop 1 (x # b) [] = Inr (ns, r)" using avcc_loop_total [of 1 "x # b" "[]"] by auto
  have "\<exists>t. ns = [x] # t"
    using loop l(2) by (subst (asm) avcc_loop.simps)
      (auto simp: Let_def MinNaluSize_def split: if_splits sum.splits dest!: avcc_loop_keeps)
  then obtain t where "ns = [x] # t" by blast
  with v l loop have "SplitNALUs ([0, 0, 0, 1] @ x # b) = Inr ([x] # t, naluAVCC)"
    by (simp add: SplitNALUs_def MinNaluSize_def)
  then show ?thesis using assms
    by (auto simp: H264_finalizeFUAPacket_def Let_def sbind_def H264_CodecUpdateSPS_def H264_codec_update_def
        NewCodecDataFromSPSAndPPS_def nal_kind_def)
qed

theorem fragmented_sps_fails_witness:
  "\<exists>d'. H264_finalizeFUAPacket ((demux0 [])\<lparr>d4_buf := [0x67, 66, 0, 30, 1]\<rparr>) =
      (Inl (Error ''h264parser: SPS too short (need at least 4 bytes)''), d') \<and> d4_sps d' = [0x67]"
  by (rule fragmented_sps_fails [of _ "0x67" "[66, 0, 30, 1]"]) (simp_all add: demux0_def NewH264Demuxer_def nal_kind_def)

end
