(* ===== verification/RtpH265.thy ===== *)
theory RtpH265
  imports RtpH264 H265
begin

text \<open>
  \<open>format/rtp/h265.go\<close> and \<open>h265\_muxer.go\<close>: the H.265 payload format (RFC 7798).  The demuxer
  collects the units of one picture in a packet it holds back until the next picture starts.
\<close>

section \<open>h265.go\<close>

record h265_demuxer = rtp_base +
  d5_vps :: bytes
  d5_sps :: bytes
  d5_pps :: bytes
  d5_codec :: "h265_params option"
  d5_packets :: "h265_params demuxed list"
  d5_buf :: bytes
  d5_hasKey :: bool
  d5_sliced :: "h265_params demuxed option"
  d5_handle :: "handle option"


text \<open>The parameter sets of the SDP are arguments.\<close>

definition H265_Demux :: "bytes \<Rightarrow> bytes \<Rightarrow> bytes \<Rightarrow> (h265_demuxer, h265_params) op" where
  "H265_Demux vps sps pps d = (case NewCodecDataFromVPSAndSPSAndPPS vps sps pps of Inl e \<Rightarrow> (Inl e, d)
     | Inr c \<Rightarrow> (Inr c, d\<lparr>d5_vps := vps, d5_sps := sps, d5_pps := pps, d5_codec := Some c\<rparr>))"

definition H265_addPacket :: "bytes \<Rightarrow> bool \<Rightarrow> (h265_demuxer, unit) op" where
  "H265_addPacket nalU isKeyFrame = sbind (alloc_buf (4 + length nalU)) (\<lambda>h d.
     let d = (case d5_sliced d of None \<Rightarrow> d | Some p \<Rightarrow> d\<lparr>d5_packets := d5_packets d @ [p]\<rparr>)
     in case d5_codec d of None \<Rightarrow> (Inl Panic, d)
       | Some c \<Rightarrow> (Inr (), d\<lparr>d5_sliced := Some \<lparr>pk_key = isKeyFrame, pk_ts = video_time (timestamp d), pk_dur = 0,
            pk_data = be32 (len32 nalU) @ nalU, pk_codec = c, pk_slot = h\<rparr>, d5_handle := h\<rparr>))"

text \<open>
  Appending to the packet held back.  In the ring its region is extended in place; when that
  fails the data move to a new region and the old one is released.
\<close>

definition H265_appendToPacket :: "bytes \<Rightarrow> bool \<Rightarrow> (h265_demuxer, unit) op" where
  "H265_appendToPacket nalU isKeyFrame d =
     (case d5_sliced d of None \<Rightarrow> (Inr (), d)
      | Some p \<Rightarrow>
         let needed = 4 + length nalU;
             p' = p\<lparr>pk_data := pk_data p @ be32 (len32 nalU) @ nalU, pk_key := pk_key p \<or> isKeyFrame\<rparr>
         in case (ring_of d, d5_handle d) of
              (Some g, Some h) \<Rightarrow>
                (case G_Extend (Some h) (int needed) g of
                   (Some _, g') \<Rightarrow> (Inr (), d\<lparr>ring_of := Some g', d5_sliced := Some p'\<rparr>)
                 | (None, g') \<Rightarrow>
                     sbind (alloc_buf (length (pk_data p) + needed)) (\<lambda>h'. sbind (release_slot (Some h)) (\<lambda>_ d.
                       (Inr (), d\<lparr>d5_sliced := Some (p'\<lparr>pk_slot := h'\<rparr>), d5_handle := h'\<rparr>)))
                       (d\<lparr>ring_of := Some g'\<rparr>))
            | _ \<Rightarrow> (Inr (), d\<lparr>d5_sliced := Some p'\<rparr>))"

definition H265_codec_update :: "(h265_demuxer, unit) op" where
  "H265_codec_update d = (case NewCodecDataFromVPSAndSPSAndPPS (d5_vps d) (d5_sps d) (d5_pps d) of Inl e \<Rightarrow> (Inl e, d)
     | Inr c \<Rightarrow> (Inr (), d\<lparr>d5_codec := Some c\<rparr>))"

definition H265_CodecUpdateVPS :: "bytes \<Rightarrow> (h265_demuxer, unit) op" where
  "H265_CodecUpdateVPS val d = (if val = d5_vps d then (Inr (), d) else H265_codec_update (d\<lparr>d5_vps := val\<rparr>))"

definition H265_CodecUpdateSPS :: "bytes \<Rightarrow> (h265_demuxer, unit) op" where
  "H265_CodecUpdateSPS val d = (if val = d5_sps d then (Inr (), d) else H265_codec_update (d\<lparr>d5_sps := val\<rparr>))"

definition H265_CodecUpdatePPS :: "bytes \<Rightarrow> (h265_demuxer, unit) op" where
  "H265_CodecUpdatePPS val d = (if val = d5_pps d then (Inr (), d) else H265_codec_update (d\<lparr>d5_pps := val\<rparr>))"

text \<open>The bit \<open>first\_slice\_segment\_in\_pic\_flag\<close>.\<close>

definition first_slice :: "bytes \<Rightarrow> bool" where
  "first_slice n \<longleftrightarrow> 2 < length n \<and> bit (n ! 2) 7"

definition H265_put :: "bytes \<Rightarrow> bool \<Rightarrow> bool \<Rightarrow> (h265_demuxer, unit) op" where
  "H265_put n keyFirst keyOther = (if first_slice n then H265_addPacket n keyFirst else H265_appendToPacket n keyOther)"

definition H265_processFU :: "bytes \<Rightarrow> (h265_demuxer, unit) op" where
  "H265_processFU nal d =
     (if length nal < 3 then (Inr (), d)
      else let hdr = nal ! 2; fuNaluType = hdr AND 0x3f; fuNal = drop 3 nal;
             d = d\<lparr>d5_hasKey := d5_hasKey d \<or> IsKey fuNaluType\<rparr>
        in if bit hdr 7
           then (Inr (), d\<lparr>d5_buf := [nal ! 0 AND 0x81 OR push_bit 1 fuNaluType, nal ! 1] @ fuNal\<rparr>)
           else if bit hdr 6
           then let d = d\<lparr>d5_buf := d5_buf d @ fuNal\<rparr> in
             sbind (H265_put (d5_buf d) (d5_hasKey d) (d5_hasKey d)) (\<lambda>_ d. (Inr (), d\<lparr>d5_hasKey := False\<rparr>)) d
           else (Inr (), d\<lparr>d5_buf := d5_buf d @ fuNal\<rparr>))"

text \<open>
  The loop over the units does not stop at an error: the error of a later parameter set
  replaces an earlier one, and a packet may be returned together with the error.
\<close>

definition kept_error :: "('s, unit) op \<Rightarrow> ('s, err option) op" where
  "kept_error m s = (case m s of (Inl Panic, s') \<Rightarrow> (Inl Panic, s')
     | (Inl e, s') \<Rightarrow> (Inr (Some e), s') | (Inr _, s') \<Rightarrow> (Inr None, s'))"

definition H265_processNAL :: "bytes \<Rightarrow> err option \<Rightarrow> (h265_demuxer, err option) op" where
  "H265_processNAL nal e =
     (if nal = [] then sfail Panic
      else let t = h265_nal_type (nal ! 0)
        in if t = 32 then kept_error (H265_CodecUpdateVPS nal)
           else if t = 33 then kept_error (H265_CodecUpdateSPS nal)
           else if t = 34 then kept_error (H265_CodecUpdatePPS nal)
           else if t = 39 \<or> t = 48 then sret e
           else if t = 49 then sbind (H265_processFU nal) (\<lambda>_. sret e)
           else sbind (H265_put nal (IsKey t) False) (\<lambda>_. sret e))"

fun H265_processNALs :: "bytes list \<Rightarrow> err option \<Rightarrow> (h265_demuxer, err option) op" where
  "H265_processNALs [] e = sret e"
| "H265_processNALs (n # ns) e = sbind (H265_processNAL n e) (H265_processNALs ns)"



definition H265_Close :: "(h265_demuxer, unit) op" where
  "H265_Close d =
     sbind (case d5_handle d of None \<Rightarrow> sret ()
            | Some h \<Rightarrow> sbind (release_slot (Some h)) (\<lambda>_ d. (Inr (), d\<lparr>d5_handle := None, d5_sliced := None\<rparr>)))
       (\<lambda>_. sbind (release_slots (map pk_slot (d5_packets d))) (\<lambda>_ d. (Inr (), d\<lparr>d5_packets := []\<rparr>))) d"

section \<open>h265_muxer.go\<close>





section \<open>What the muxer sends\<close>






section \<open>What the demuxer makes of it\<close>










lemma processNALs_Nil [simp]: "H265_processNALs [] = sret"
  by (rule ext) simp




section \<open>Fragmented units\<close>

















section \<open>Properties\<close>







end
