(* ===== verification/RtpAudio.thy ===== *)
theory RtpAudio
  imports RtpH264 Aac "HOL-Library.Signed_Division"
begin

text \<open>
  \<open>format/rtp/aac.go\<close>, \<open>opus.go\<close> and \<open>pcm.go\<close>: the audio payload formats.  AAC packets carry
  access units behind a table of AU headers (RFC 3640) or one ADTS frame; Opus and PCM packets
  are one frame each.  Times are integers: with a 32-bit timestamp no product overflows.
\<close>

section \<open>aac.go\<close>

record aac_demuxer = rtp_base +
  da_scale :: int
  da_par :: "aac_params res"
  da_packets :: "aac_params res demuxed list"

text \<open>
  The configuration and the clock rate come from the SDP.  After a rejected configuration the
  fields parsed so far are not modelled: the parameters are the error.
\<close>

definition NewAACDemuxer :: "bytes \<Rightarrow> bytes \<Rightarrow> int \<Rightarrow> gring option \<Rightarrow> aac_demuxer" where
  "NewAACDemuxer r config scale g = \<lparr>rdr = r, payload = replicate rtspHeaderSize 0, offset = 0, fin = 0,
     timestamp = 0, ring_of = g, da_scale = scale, da_par = NewCodecDataFromMPEG4AudioConfigBytes config, da_packets = []\<rparr>"

definition AAC_Demux :: "(aac_demuxer, aac_params) op" where
  "AAC_Demux d = (case da_par d of Inl Panic \<Rightarrow> (Inl Panic, d) | Inl _ \<Rightarrow> (Inl (Error ''invalid AAC config''), d)
     | Inr p \<Rightarrow> (Inr p, d))"

definition AAC_emit :: "bytes \<Rightarrow> int \<Rightarrow> int \<Rightarrow> (aac_demuxer, unit) op" where
  "AAC_emit b ts dur = sbind (alloc_buf (length b)) (\<lambda>h d. (Inr (), d\<lparr>da_packets := da_packets d @
     [\<lparr>pk_key = False, pk_ts = ts, pk_dur = dur, pk_data = b, pk_codec = da_par d, pk_slot = h\<rparr>]\<rparr>))"

text \<open>Division by a zero clock rate panics.\<close>

definition rescale :: "int \<Rightarrow> int \<Rightarrow> int res" where
  "rescale n rate = (if rate = 0 then Inl Panic else Inr ((n * Second) sdiv rate))"

text \<open>The loop over the AU headers: 13 bits of size and 3 bits of index each.\<close>

fun AAC_units :: "nat \<Rightarrow> bytes \<Rightarrow> bytes \<Rightarrow> int \<Rightarrow> int \<Rightarrow> (aac_demuxer, unit) op" where
  "AAC_units 0 hs b ts dur = sret ()"
| "AAC_units (Suc k) (x # y # hs) b ts dur =
     (let frameSize = unat (drop_bit 3 (push_bit 8 (ucast x) OR ucast y :: 16 word))
      in if length b < frameSize then sret ()
         else sbind (AAC_emit (take frameSize b) ts dur) (\<lambda>_. AAC_units k hs (drop frameSize b) (ts + dur) dur))"
| "AAC_units (Suc k) hs b ts dur = sret ()"

definition AAC_au_packet :: "bytes \<Rightarrow> int \<Rightarrow> int \<Rightarrow> (aac_demuxer, unit) op" where
  "AAC_au_packet b ts dur =
     (if length b < 2 then sfail (Error ''AAC RTP payload too short for AU-header section'')
      else let auHeadersCount = unat (drop_bit 4 (push_bit 8 (ucast (b ! 0)) OR ucast (b ! 1) :: 16 word));
               off = 2 + 2 * auHeadersCount
        in if length b < off then sfail (Error ''AAC AU-header count exceeds payload size'')
           else AAC_units auHeadersCount (sub b 2 off) (drop off b) ts dur)"

definition AAC_adts_packet :: "aac_config \<Rightarrow> nat \<Rightarrow> bytes \<Rightarrow> int \<Rightarrow> int \<Rightarrow> (aac_demuxer, unit) op" where
  "AAC_adts_packet c hdrlen b ts dur d =
     (case da_par d of
        Inr p \<Rightarrow> if ap_Config p = c then AAC_emit (drop hdrlen b) ts dur d
          else (case NewCodecDataFromMPEG4AudioConfig c of Inl e \<Rightarrow> (Inl e, d\<lparr>da_par := Inl e\<rparr>)
            | Inr q \<Rightarrow> AAC_emit (drop hdrlen b) ts dur (d\<lparr>da_par := Inr q\<rparr>))
      | Inl _ \<Rightarrow> (case NewCodecDataFromMPEG4AudioConfig c of Inl e \<Rightarrow> (Inl e, d\<lparr>da_par := Inl e\<rparr>)
            | Inr q \<Rightarrow> AAC_emit (drop hdrlen b) ts dur (d\<lparr>da_par := Inr q\<rparr>)))"

definition AAC_pop :: "(aac_demuxer, aac_params res demuxed option) op" where
  "AAC_pop d = (case da_packets d of [] \<Rightarrow> (Inr None, d) | p # ps \<Rightarrow> (Inr (Some p), d\<lparr>da_packets := ps\<rparr>))"

definition AAC_payload :: "bytes \<Rightarrow> (aac_demuxer, unit) op" where
  "AAC_payload b d =
     (case rescale (uint (timestamp d)) (da_scale d) of Inl e \<Rightarrow> (Inl e, d) | Inr ts \<Rightarrow>
      case rescale 1024 (da_scale d) of Inl e \<Rightarrow> (Inl e, d) | Inr dur \<Rightarrow>
        (case ParseADTSHeader b of
           Inr (c, hdrlen, _, _) \<Rightarrow> AAC_adts_packet c hdrlen b ts dur d
         | Inl _ \<Rightarrow> AAC_au_packet b ts dur d))"

definition AAC_ReadPacket :: "(aac_demuxer, aac_params res demuxed option) op" where
  "AAC_ReadPacket d =
     (if da_packets d \<noteq> [] then AAC_pop d
      else sbind Base_ReadPacket (\<lambda>_. sbind rtp_payload (\<lambda>b. sbind (AAC_payload b) (\<lambda>_. AAC_pop))) d)"

definition AAC_Close :: "(aac_demuxer, unit) op" where
  "AAC_Close d = sbind (release_slots (map pk_slot (da_packets d))) (\<lambda>_ d. (Inr (), d\<lparr>da_packets := []\<rparr>)) d"

section \<open>opus.go and pcm.go\<close>

record opus_params =
  op_BRate :: "64 word"
  op_ChannelLayout :: channel_layout
  op_sampleRate :: "64 word"

definition opus_NewCodecParameters :: "channel_layout \<Rightarrow> 64 word \<Rightarrow> opus_params" where
  "opus_NewCodecParameters cl sr = \<lparr>op_BRate = 16 * word_of_nat (Count cl) * sr div 8, op_ChannelLayout = cl,
     op_sampleRate = sr\<rparr>"

record opus_demuxer = rtp_base +
  do_scale :: int
  do_par :: opus_params

definition NewOPUSDemuxer :: "bytes \<Rightarrow> int \<Rightarrow> int \<Rightarrow> gring option \<Rightarrow> opus_demuxer" where
  "NewOPUSDemuxer r channels scale g = \<lparr>rdr = r, payload = replicate rtspHeaderSize 0, offset = 0, fin = 0,
     timestamp = 0, ring_of = g, do_scale = scale,
     do_par = opus_NewCodecParameters (if channels = 2 then ChStereo else ChMono) (word_of_int scale)\<rparr>"

definition OPUS_ReadPacket :: "(opus_demuxer, opus_params demuxed) op" where
  "OPUS_ReadPacket = sbind Base_ReadPacket (\<lambda>_. sbind rtp_payload (\<lambda>b. sbind (alloc_buf (length b)) (\<lambda>h d.
     let dur = (case PacketDuration b of Inr t \<Rightarrow> t | Inl _ \<Rightarrow> 20 * Millisecond) in
     case rescale (uint (timestamp d)) (do_scale d) of Inl e \<Rightarrow> (Inl e, d)
     | Inr ts \<Rightarrow> (Inr \<lparr>pk_key = False, pk_ts = ts, pk_dur = dur, pk_data = b, pk_codec = do_par d, pk_slot = h\<rparr>, d))))"

record pcm_params =
  pp_BRate :: "64 word"
  pp_CodecType :: codec_type
  pp_chCount :: byte
  pp_sampleRate :: "64 word"

definition pcm_NewCodecParameters :: "codec_type \<Rightarrow> byte \<Rightarrow> 64 word \<Rightarrow> pcm_params" where
  "pcm_NewCodecParameters ct ch sr = \<lparr>pp_BRate = sr * 16 * ucast ch, pp_CodecType = ct, pp_chCount = ch, pp_sampleRate = sr\<rparr>"

record pcm_demuxer = rtp_base +
  dp_scale :: int
  dp_par :: pcm_params

definition NewPCMDemuxer :: "bytes \<Rightarrow> codec_type \<Rightarrow> int \<Rightarrow> int \<Rightarrow> gring option \<Rightarrow> pcm_demuxer" where
  "NewPCMDemuxer r ct channels scale g = \<lparr>rdr = r, payload = replicate rtspHeaderSize 0, offset = 0, fin = 0,
     timestamp = 0, ring_of = g, dp_scale = scale, dp_par = pcm_NewCodecParameters ct (word_of_int channels) (word_of_int scale)\<rparr>"

definition PCM_ReadPacket :: "(pcm_demuxer, pcm_params demuxed) op" where
  "PCM_ReadPacket = sbind Base_ReadPacket (\<lambda>_. sbind rtp_payload (\<lambda>b. sbind (alloc_buf (length b)) (\<lambda>h d.
     case rescale (uint (timestamp d)) (dp_scale d) of Inl e \<Rightarrow> (Inl e, d) | Inr ts \<Rightarrow>
     case rescale (int (length b)) (dp_scale d) of Inl e \<Rightarrow> (Inl e, d) | Inr dur \<Rightarrow>
       (Inr \<lparr>pk_key = False, pk_ts = ts, pk_dur = dur, pk_data = b, pk_codec = dp_par d, pk_slot = h\<rparr>, d))))"

section \<open>Access units\<close>

text \<open>The payload a sender builds (RFC 3640): the bits of the AU headers, the headers, the units.\<close>

definition au_header :: "bytes \<Rightarrow> bytes" where
  "au_header n = be16 (push_bit 3 (len16 n))"

definition au_payload :: "bytes list \<Rightarrow> bytes" where
  "au_payload ns = be16 (word_of_nat (16 * length ns)) @ put_table au_header ns @ concat ns"

text \<open>The packets of units of duration \<open>dur\<close>, the first at \<open>ts\<close>.\<close>

fun au_packets :: "aac_params res \<Rightarrow> int \<Rightarrow> int \<Rightarrow> bytes list \<Rightarrow> aac_params res demuxed list" where
  "au_packets par dur ts [] = []"
| "au_packets par dur ts (n # ns) =
     \<lparr>pk_key = False, pk_ts = ts, pk_dur = dur, pk_data = n, pk_codec = par, pk_slot = None\<rparr> #
     au_packets par dur (ts + dur) ns"

lemma be16_join: "be16 w = [x, y] \<Longrightarrow> push_bit 8 (ucast x) OR ucast y = w"
  by (auto simp: be16_def join16)

lemma au_size:
  "length n < 2 ^ 13 \<Longrightarrow> unat (drop_bit 3 (push_bit 3 (len16 n))) = length n"
proof -
  assume l: "length n < 2 ^ 13"
  have "unat (push_bit 3 (len16 n)) = 8 * length n"
    using l by (simp add: push_bit_eq_mult len16_def unat_word_ariths unat_of_nat)
  then show ?thesis by (simp add: drop_bit_eq_div unat_div)
qed

lemma AAC_emit_heap:
  "ring_of d = None \<Longrightarrow> AAC_emit b ts dur d = (Inr (), d\<lparr>da_packets := da_packets d @ au_packets (da_par d) dur ts [b]\<rparr>)"
  by (simp add: AAC_emit_def alloc_buf_def sbind_def)

lemma AAC_units_table:
  assumes "\<forall>n\<in>set ns. length n < 2 ^ 13" and "ring_of d = None"
  shows "AAC_units (length ns) (put_table au_header ns) (concat ns) ts dur d =
    (Inr (), d\<lparr>da_packets := da_packets d @ au_packets (da_par d) dur ts ns\<rparr>)"
  using assms
proof (induction ns arbitrary: ts d)
  case (Cons n ns)
  obtain x y where xy: "be16 (push_bit 3 (len16 n)) = [x, y]" by (simp add: be16_def)
  have sz: "unat (drop_bit 3 (push_bit 8 (ucast x) OR ucast y :: 16 word)) = length n"
    using au_size [of n] Cons.prems(1) by (simp only: be16_join [OF xy]) simp
  let ?d = "d\<lparr>da_packets := da_packets d @ au_packets (da_par d) dur ts [n]\<rparr>"
  have "AAC_emit n ts dur d = (Inr (), ?d)" using Cons.prems(2) by (rule AAC_emit_heap)
  moreover have "AAC_units (length ns) (put_table au_header ns) (concat ns) (ts + dur) dur ?d =
    (Inr (), ?d\<lparr>da_packets := da_packets ?d @ au_packets (da_par ?d) dur (ts + dur) ns\<rparr>)"
    using Cons.prems by (intro Cons.IH) simp_all
  ultimately show ?case
    by (simp add: au_header_def [of n] xy sz [simplified] sbind_def)
qed simp

lemma length_au_table: "length (put_table au_header ns) = 2 * length ns"
  by (induction ns) (simp_all add: au_header_def)

lemma no_sync_no_adts: "0 < length f \<Longrightarrow> f ! 0 \<noteq> 0xff \<Longrightarrow> \<exists>e. ParseADTSHeader f = Inl e"
  by (simp add: ParseADTSHeader_def)

section \<open>Properties\<close>

text \<open>C32: An AAC payload with up to 4079 access units of less than 8 KiB behind their AU headers
  becomes one packet per unit, in order and byte for byte, each 1024 samples after the one
  before it.\<close>

theorem aac_units_unpacked:
  assumes "length ns < 4080" and "\<forall>n\<in>set ns. length n < 2 ^ 13" and "ring_of d = None"
    and "da_packets d = []" and "0 < da_scale d"
  shows "AAC_payload (au_payload ns) d =
    (Inr (), d\<lparr>da_packets := au_packets (da_par d) (1024 * Second div da_scale d)
       (uint (timestamp d) * Second div da_scale d) ns\<rparr>)"
proof -
  let ?b = "au_payload ns"
  obtain w :: "16 word" where w: "word_of_nat (16 * length ns) = w" by blast
  obtain x y where xy: "be16 w = [x, y]" by (simp add: be16_def)
  have uw: "unat w = 16 * length ns" unfolding w [symmetric] using assms(1) by (simp only: unat_of_nat) simp
  have "x \<noteq> 0xff"
  proof
    assume "x = 0xff"
    with be16_value [OF xy] uw assms(1) show False by simp
  qed
  moreover have b: "?b = x # y # put_table au_header ns @ concat ns"
    by (simp only: au_payload_def w xy append.simps)
  ultimately obtain e where adts: "ParseADTSHeader ?b = Inl e" using no_sync_no_adts [of ?b] by auto
  have n: "unat (drop_bit 4 (push_bit 8 (ucast x) OR ucast y :: 16 word)) = length ns"
    by (simp only: be16_join [OF xy]) (simp add: drop_bit_eq_div unat_div uw)
  have au: "AAC_au_packet ?b ts dur d = (Inr (), d\<lparr>da_packets := au_packets (da_par d) dur ts ns\<rparr>)" for ts dur
    using AAC_units_table [OF assms(2,3), of ts dur] assms(4)
    by (simp add: AAC_au_packet_def b n [simplified] Let_def sub_def length_au_table)
  have r: "rescale k (da_scale d) = Inr (k * Second div da_scale d)" if "0 \<le> k" for k
    using that assms(5) by (cases "k = 0") (simp_all add: rescale_def signed_divide_int_def Second_def sgn_if)
  show ?thesis by (simp add: AAC_payload_def r adts au)
qed

theorem aac_units_unpacked_witness:
  "AAC_payload (au_payload [[1, 2, 3], [4]]) ((NewAACDemuxer [] [0x12, 0x10] 44100 None)\<lparr>timestamp := 44100\<rparr>) =
    (Inr (), (NewAACDemuxer [] [0x12, 0x10] 44100 None)\<lparr>timestamp := 44100,
       da_packets := au_packets (NewCodecDataFromMPEG4AudioConfigBytes [0x12, 0x10]) 23219954 Second [[1, 2, 3], [4]]\<rparr>)"
  using aac_units_unpacked [of "[[1, 2, 3], [4]]" "(NewAACDemuxer [] [0x12, 0x10] 44100 None)\<lparr>timestamp := 44100\<rparr>"]
  by (simp add: NewAACDemuxer_def Second_def)

end
