(* ===== verification/RtpMjpeg.thy ===== *)
theory RtpMjpeg
  imports Rtp Wbuf "HOL-Library.Multiset"
begin

text \<open>
  \<open>format/rtp/mjpeg.go\<close>: the RTP payload format of JPEG (RFC 2435).  A frame comes in fragments
  that carry their byte offset; the JPEG headers are rebuilt from the parameters of the first
  one.  The field \<open>timestamp\<close> of the Go struct shadows the one of the base demuxer and is
  \<open>dj_timestamp\<close> here.
\<close>

section \<open>JPEG headers\<close>

definition createAPP0Segment :: bytes where
  "createAPP0Segment = [0xFF, 0xE0, 0, 0x10, 0x4A, 0x46, 0x49, 0x46, 0, 1, 1, 1, 0, 0x48, 0, 0x48, 0, 0]"

definition jpegLumaQuantizer :: "nat list" where
  "jpegLumaQuantizer =
    [16, 11, 10, 16, 24, 40, 51, 61,
     12, 12, 14, 19, 26, 58, 60, 55,
     14, 13, 16, 24, 40, 57, 69, 56,
     14, 17, 22, 29, 51, 87, 80, 62,
     18, 22, 37, 56, 68, 109, 103, 77,
     24, 35, 55, 64, 81, 104, 113, 92,
     49, 64, 78, 87, 103, 121, 120, 101,
     72, 92, 95, 98, 112, 100, 103, 99]"

definition jpegChromaQuantizer :: "nat list" where
  "jpegChromaQuantizer =
    [17, 18, 24, 47, 99, 99, 99, 99,
     18, 21, 26, 66, 99, 99, 99, 99,
     24, 26, 56, 99, 99, 99, 99, 99,
     47, 66, 99, 99, 99, 99, 99, 99,
     99, 99, 99, 99, 99, 99, 99, 99,
     99, 99, 99, 99, 99, 99, 99, 99,
     99, 99, 99, 99, 99, 99, 99, 99,
     99, 99, 99, 99, 99, 99, 99, 99]"

definition scaleFactor :: "byte \<Rightarrow> nat" where
  "scaleFactor q = (if q < 1 then 5000 else if q > 99 then 1 else if q < 50 then 5000 div unat q
     else 200 - 2 * unat q)"

definition scaled :: "nat \<Rightarrow> nat \<Rightarrow> byte" where
  "scaled f v = (let lq = (v * f + 50) div 100 in word_of_nat (if lq < 1 then 1 else if lq > 255 then 255 else lq))"

definition generateQuantizationTables :: "byte \<Rightarrow> bytes \<times> bytes" where
  "generateQuantizationTables q =
     (map (scaled (scaleFactor q)) jpegLumaQuantizer, map (scaled (scaleFactor q)) jpegChromaQuantizer)"

text \<open>\<open>copy(segment[5:], table)\<close> into the 64 bytes left of the segment.\<close>

definition createDQTSegment :: "bytes \<Rightarrow> byte \<Rightarrow> bytes" where
  "createDQTSegment table tableID = [0xFF, 0xDB, 0, 0x43, tableID] @ take 64 table @ replicate (64 - length table) 0"

function raw_tables :: "byte \<Rightarrow> nat \<Rightarrow> bytes \<Rightarrow> bytes" where
  "raw_tables precision tableID b =
     (if b = [] \<or> 4 \<le> tableID then []
      else let is16bit = bit precision (7 - tableID); coeffSize = (if is16bit then 128 else 64)
        in if length b < coeffSize then []
           else [0xFF, 0xDB] @ be16 (word_of_nat (3 + coeffSize)) @
             [if is16bit then word_of_nat tableID OR 0x10 else word_of_nat tableID] @ take coeffSize b @
             raw_tables precision (tableID + 1) (drop coeffSize b))"
  by pat_completeness auto
termination by (relation "measure (\<lambda>(p, i, b). 4 - i)") auto

declare raw_tables.simps [simp del]

definition createDQTFromRawTables :: "byte \<Rightarrow> bytes \<Rightarrow> bytes" where
  "createDQTFromRawTables precision b = raw_tables precision 0 b"

definition createDRISegment :: "16 word \<Rightarrow> bytes" where
  "createDRISegment ri = [0xFF, 0xDD, 0, 4] @ be16 ri"

definition createSOFSegment :: "byte \<Rightarrow> byte \<Rightarrow> byte \<Rightarrow> bytes" where
  "createSOFSegment ty w h =
     [0xFF, 0xC0, 0, 0x11, 8] @ be16 (ucast h * 8) @ be16 (ucast w * 8) @
     [3, 1, if ty AND 0x3F = 0 then 0x21 else if ty AND 0x3F = 1 then 0x22 else if ty AND 0x3F = 2 then 0x11 else 0x22, 0,
      2, 0x11, 1, 3, 0x11, 1]"

definition createDHTSegment :: "bytes \<Rightarrow> bytes \<Rightarrow> byte \<Rightarrow> byte \<Rightarrow> bytes" where
  "createDHTSegment codeLens symbols tableID tableClass =
     [0xFF, 0xC4] @ be16 (word_of_nat (3 + length codeLens + length symbols)) @
     [push_bit 4 tableClass OR tableID] @ codeLens @ symbols"

definition lumACSymbols :: bytes where
  "lumACSymbols =
    [0x01, 0x02, 0x03, 0x00, 0x04, 0x11, 0x05, 0x12,
     0x21, 0x31, 0x41, 0x06, 0x13, 0x51, 0x61, 0x07,
     0x22, 0x71, 0x14, 0x32, 0x81, 0x91, 0xa1, 0x08,
     0x23, 0x42, 0xb1, 0xc1, 0x15, 0x52, 0xd1, 0xf0,
     0x24, 0x33, 0x62, 0x72, 0x82, 0x09, 0x0a, 0x16,
     0x17, 0x18, 0x19, 0x1a, 0x25, 0x26, 0x27, 0x28,
     0x29, 0x2a, 0x34, 0x35, 0x36, 0x37, 0x38, 0x39,
     0x3a, 0x43, 0x44, 0x45, 0x46, 0x47, 0x48, 0x49,
     0x4a, 0x53, 0x54, 0x55, 0x56, 0x57, 0x58, 0x59,
     0x5a, 0x63, 0x64, 0x65, 0x66, 0x67, 0x68, 0x69,
     0x6a, 0x73, 0x74, 0x75, 0x76, 0x77, 0x78, 0x79,
     0x7a, 0x83, 0x84, 0x85, 0x86, 0x87, 0x88, 0x89,
     0x8a, 0x92, 0x93, 0x94, 0x95, 0x96, 0x97, 0x98,
     0x99, 0x9a, 0xa2, 0xa3, 0xa4, 0xa5, 0xa6, 0xa7,
     0xa8, 0xa9, 0xaa, 0xb2, 0xb3, 0xb4, 0xb5, 0xb6,
     0xb7, 0xb8, 0xb9, 0xba, 0xc2, 0xc3, 0xc4, 0xc5,
     0xc6, 0xc7, 0xc8, 0xc9, 0xca, 0xd2, 0xd3, 0xd4,
     0xd5, 0xd6, 0xd7, 0xd8, 0xd9, 0xda, 0xe1, 0xe2,
     0xe3, 0xe4, 0xe5, 0xe6, 0xe7, 0xe8, 0xe9, 0xea,
     0xf1, 0xf2, 0xf3, 0xf4, 0xf5, 0xf6, 0xf7, 0xf8,
     0xf9, 0xfa]"

definition chrACSymbols :: bytes where
  "chrACSymbols =
    [0x00, 0x01, 0x02, 0x03, 0x11, 0x04, 0x05, 0x21,
     0x31, 0x06, 0x12, 0x41, 0x51, 0x07, 0x61, 0x71,
     0x13, 0x22, 0x32, 0x81, 0x08, 0x14, 0x42, 0x91,
     0xa1, 0xb1, 0xc1, 0x09, 0x23, 0x33, 0x52, 0xf0,
     0x15, 0x62, 0x72, 0xd1, 0x0a, 0x16, 0x24, 0x34,
     0xe1, 0x25, 0xf1, 0x17, 0x18, 0x19, 0x1a, 0x26,
     0x27, 0x28, 0x29, 0x2a, 0x35, 0x36, 0x37, 0x38,
     0x39, 0x3a, 0x43, 0x44, 0x45, 0x46, 0x47, 0x48,
     0x49, 0x4a, 0x53, 0x54, 0x55, 0x56, 0x57, 0x58,
     0x59, 0x5a, 0x63, 0x64, 0x65, 0x66, 0x67, 0x68,
     0x69, 0x6a, 0x73, 0x74, 0x75, 0x76, 0x77, 0x78,
     0x79, 0x7a, 0x82, 0x83, 0x84, 0x85, 0x86, 0x87,
     0x88, 0x89, 0x8a, 0x92, 0x93, 0x94, 0x95, 0x96,
     0x97, 0x98, 0x99, 0x9a, 0xa2, 0xa3, 0xa4, 0xa5,
     0xa6, 0xa7, 0xa8, 0xa9, 0xaa, 0xb2, 0xb3, 0xb4,
     0xb5, 0xb6, 0xb7, 0xb8, 0xb9, 0xba, 0xc2, 0xc3,
     0xc4, 0xc5, 0xc6, 0xc7, 0xc8, 0xc9, 0xca, 0xd2,
     0xd3, 0xd4, 0xd5, 0xd6, 0xd7, 0xd8, 0xd9, 0xda,
     0xe2, 0xe3, 0xe4, 0xe5, 0xe6, 0xe7, 0xe8, 0xe9,
     0xea, 0xf2, 0xf3, 0xf4, 0xf5, 0xf6, 0xf7, 0xf8,
     0xf9, 0xfa]"

definition createHuffmanTables :: bytes where
  "createHuffmanTables =
     createDHTSegment [0, 1, 5, 1, 1, 1, 1, 1, 1, 0, 0, 0, 0, 0, 0, 0] [0, 1, 2, 3, 4, 5, 6, 7, 8, 9, 10, 11] 0 0 @
     createDHTSegment [0, 2, 1, 3, 3, 2, 4, 3, 5, 5, 4, 4, 0, 0, 1, 0x7d] lumACSymbols 0 1 @
     createDHTSegment [0, 3, 1, 1, 1, 1, 1, 1, 1, 1, 1, 0, 0, 0, 0, 0] [0, 1, 2, 3, 4, 5, 6, 7, 8, 9, 10, 11] 1 0 @
     createDHTSegment [0, 2, 1, 2, 4, 4, 3, 4, 7, 5, 4, 4, 0, 1, 2, 0x77] chrACSymbols 1 1"

definition createSOSSegment :: bytes where
  "createSOSSegment = [0xFF, 0xDA, 0, 0x0C, 3, 1, 0, 2, 0x11, 3, 0x11, 0, 0x3F, 0]"

definition reconstructJPEGHeaders :: "byte \<Rightarrow> byte \<Rightarrow> byte \<Rightarrow> byte \<Rightarrow> 16 word \<Rightarrow> byte \<Rightarrow> bytes \<Rightarrow> bytes" where
  "reconstructJPEGHeaders ty w h q ri precision tables =
     [0xFF, 0xD8] @ createAPP0Segment @
     (if q \<ge> 128 \<and> 0 < length tables then createDQTFromRawTables precision tables
      else (case generateQuantizationTables q of (lqt, cqt) \<Rightarrow> createDQTSegment lqt 0 @ createDQTSegment cqt 1)) @
     (if ri > 0 then createDRISegment ri else []) @
     createSOFSegment ty w h @ createHuffmanTables @ createSOSSegment"

section \<open>The demuxer\<close>

text \<open>The bit rate is a product of floats, exact below \<open>2^53\<close>.\<close>

record mjpeg_params =
  mj_width :: nat
  mj_height :: nat
  mj_fps :: nat
  mj_BRate :: nat

definition mjpeg_NewCodecParameters :: "nat \<Rightarrow> nat \<Rightarrow> nat \<Rightarrow> mjpeg_params" where
  "mjpeg_NewCodecParameters w h fps = \<lparr>mj_width = w, mj_height = h, mj_fps = fps, mj_BRate = w * h * fps div 2\<rparr>"

text \<open>A fragment is its offset and its data; a cached table its precision and its data.\<close>

record mjpeg_demuxer = rtp_base +
  dj_codec :: "mjpeg_params option"
  dj_packets :: "mjpeg_params demuxed list"
  dj_fragments :: "(32 word \<times> bytes) list"
  dj_timestamp :: "32 word"
  dj_width :: byte
  dj_height :: byte
  dj_frameType :: byte
  dj_quality :: byte
  dj_markerBit :: bool
  dj_lastTimestamp :: "32 word"
  dj_frameHeaders :: bytes
  dj_restartInterval :: "16 word"
  dj_qtablePrecision :: byte
  dj_cachedQTables :: "byte \<rightharpoonup> byte \<times> bytes"

definition NewMJPEGDemuxer :: "bytes \<Rightarrow> gring option \<Rightarrow> mjpeg_demuxer" where
  "NewMJPEGDemuxer r g = \<lparr>rdr = r, payload = replicate rtspHeaderSize 0, offset = 0, fin = 0, timestamp = 0, ring_of = g,
     dj_codec = None, dj_packets = [], dj_fragments = [], dj_timestamp = 0, dj_width = 0, dj_height = 0, dj_frameType = 0,
     dj_quality = 0, dj_markerBit = False, dj_lastTimestamp = 0, dj_frameHeaders = [], dj_restartInterval = 0,
     dj_qtablePrecision = 0, dj_cachedQTables = (\<lambda>_. None)\<rparr>"

definition MJPEG_Demux :: "int \<Rightarrow> (mjpeg_demuxer, mjpeg_params) op" where
  "MJPEG_Demux sdp_fps d = (let c = mjpeg_NewCodecParameters 320 240 (if 0 < sdp_fps then nat sdp_fps else 30)
     in (Inr c, d\<lparr>dj_codec := Some c\<rparr>))"

definition MJPEG_Close :: "(mjpeg_demuxer, unit) op" where
  "MJPEG_Close d = sbind (release_slots (map pk_slot (dj_packets d))) (\<lambda>_ d. (Inr (), d\<lparr>dj_packets := []\<rparr>)) d"

text \<open>The next \<open>n\<close> bytes of the payload, which ends at \<open>d.end\<close>.\<close>

definition take_payload :: "nat \<Rightarrow> string \<Rightarrow> ('a rtp_base_scheme, bytes) op" where
  "take_payload n msg d = (if fin d < offset d + n then (Inl (Error msg), d)
     else (Inr (sub (payload d) (offset d) (offset d + n)), d\<lparr>offset := offset d + n\<rparr>))"

definition fragment_offset :: "bytes \<Rightarrow> 32 word" where
  "fragment_offset h = push_bit 16 (ucast (h ! 1)) OR push_bit 8 (ucast (h ! 2)) OR ucast (h ! 3)"

definition word16 :: "bytes \<Rightarrow> nat \<Rightarrow> 16 word" where
  "word16 h i = push_bit 8 (ucast (h ! i)) OR ucast (h ! (i + 1))"

definition MJPEG_restart :: "byte \<Rightarrow> (mjpeg_demuxer, unit) op" where
  "MJPEG_restart ty = (if 64 \<le> ty \<and> ty \<le> 127
     then sbind (take_payload 4 ''incomplete restart marker header'') (\<lambda>h d. (Inr (), d\<lparr>dj_restartInterval := word16 h 0\<rparr>))
     else sret ())"

text \<open>Precision and data of the quantisation tables; no data when there are none.\<close>

definition MJPEG_qtables :: "byte \<Rightarrow> 32 word \<Rightarrow> (mjpeg_demuxer, byte \<times> bytes) op" where
  "MJPEG_qtables q fragOffset =
     (if q \<ge> 128 \<and> fragOffset = 0
      then sbind (take_payload 4 ''incomplete quantization table header'') (\<lambda>h.
        let precision = h ! 1; len = unat (word16 h 2) in
        if 0 < len then sbind (take_payload len ''incomplete quantization table data'') (\<lambda>b d.
          (Inr (precision, b), if q < 255 then d\<lparr>dj_cachedQTables := (dj_cachedQTables d)(q \<mapsto> (precision, b))\<rparr> else d))
        else if q < 255 then (\<lambda>d. case dj_cachedQTables d q of Some (p, b) \<Rightarrow> (Inr (p, b), d) | None \<Rightarrow> (Inr (precision, []), d))
        else sret (precision, []))
      else sret (0, []))"

definition MJPEG_start :: "byte \<Rightarrow> byte \<Rightarrow> byte \<Rightarrow> byte \<Rightarrow> byte \<times> bytes \<Rightarrow> mjpeg_demuxer \<Rightarrow> mjpeg_demuxer" where
  "MJPEG_start ty q w h tables d = d\<lparr>dj_fragments := [], dj_timestamp := timestamp d, dj_lastTimestamp := timestamp d,
     dj_width := w, dj_height := h, dj_frameType := ty, dj_quality := q, dj_qtablePrecision := fst tables,
     dj_codec := (case dj_codec d of None \<Rightarrow> None | Some c \<Rightarrow>
       Some (if unat w * 8 \<noteq> mj_width c \<or> unat h * 8 \<noteq> mj_height c
         then mjpeg_NewCodecParameters (unat w * 8) (unat h * 8) (mj_fps c) else c)),
     dj_frameHeaders := reconstructJPEGHeaders ty w h q (dj_restartInterval d) (fst tables) (snd tables)\<rparr>"

fun contiguous :: "32 word \<Rightarrow> (32 word \<times> bytes) list \<Rightarrow> bool" where
  "contiguous k [] = True"
| "contiguous k ((o', b) # fs) \<longleftrightarrow> o' = k \<and> contiguous (k + word_of_nat (length b)) fs"

definition close_image :: "bytes \<Rightarrow> bytes" where
  "close_image b = (if length b < 2 \<or> b ! (length b - 2) \<noteq> 0xFF \<or> b ! (length b - 1) \<noteq> 0xD9 then b @ [0xFF, 0xD9] else b)"

text \<open>
  \<open>sort.Slice\<close> promises no order among equal offsets; the stable order is used here.  A packet
  for a demuxer without codec parameters is a nil dereference.
\<close>

definition MJPEG_assembleFrame :: "(mjpeg_demuxer, unit) op" where
  "MJPEG_assembleFrame d =
     (if dj_fragments d = [] then (Inl (Error ''no fragments to assemble''), d)
      else let fs = sort_key fst (dj_fragments d); d = d\<lparr>dj_fragments := fs\<rparr> in
        if fst (fs ! 0) \<noteq> 0 then (Inr (), d\<lparr>dj_fragments := []\<rparr>)
        else sbind (alloc_buf (length (dj_frameHeaders d) + length (concat (map snd fs)) + 2)) (\<lambda>h d.
          if \<not> contiguous 0 fs then release_slot h (d\<lparr>dj_fragments := []\<rparr>)
          else case dj_codec d of None \<Rightarrow> (Inl Panic, d) | Some c \<Rightarrow>
            (Inr (), d\<lparr>dj_packets := dj_packets d @ [\<lparr>pk_key = True, pk_ts = uint (dj_timestamp d) * Second div 90000,
               pk_dur = 0, pk_data = close_image (dj_frameHeaders d @ concat (map snd fs)), pk_codec = c, pk_slot = h\<rparr>],
               dj_fragments := [], dj_restartInterval := 0\<rparr>)) d)"

definition MJPEG_addFragment :: "32 word \<Rightarrow> (mjpeg_demuxer, unit) op" where
  "MJPEG_addFragment k = sbind rtp_payload (\<lambda>b. sbind (\<lambda>d. (Inr (), d\<lparr>dj_fragments := dj_fragments d @ [(k, b)]\<rparr>)) (\<lambda>_ d.
     if dj_markerBit d then MJPEG_assembleFrame d else (Inr (), d)))"

definition parseMJPEGPacket :: "(mjpeg_demuxer, unit) op" where
  "parseMJPEGPacket = sbind (take_payload 8 ''incomplete MJPEG header'') (\<lambda>m.
     sbind (MJPEG_restart (m ! 4)) (\<lambda>_. sbind (MJPEG_qtables (m ! 5) (fragment_offset m)) (\<lambda>tables d.
       if fragment_offset m = 0 then MJPEG_addFragment 0 (MJPEG_start (m ! 4) (m ! 5) (m ! 6) (m ! 7) tables d)
       else if dj_lastTimestamp d \<noteq> timestamp d then (Inr (), d\<lparr>dj_fragments := []\<rparr>)
       else MJPEG_addFragment (fragment_offset m) d)))"

definition MJPEG_pop :: "(mjpeg_demuxer, mjpeg_params demuxed option) op" where
  "MJPEG_pop d = (case dj_packets d of [] \<Rightarrow> (Inr None, d) | p # ps \<Rightarrow> (Inr (Some p), d\<lparr>dj_packets := ps\<rparr>))"

definition MJPEG_ReadPacket :: "(mjpeg_demuxer, mjpeg_params demuxed option) op" where
  "MJPEG_ReadPacket d =
     (if dj_packets d \<noteq> [] then MJPEG_pop d
      else sbind Base_ReadPacket (\<lambda>_. sbind (\<lambda>d. (Inr (), d\<lparr>dj_markerBit := bit (payload d ! 5) 7\<rparr>)) (\<lambda>_.
        sbind parseMJPEGPacket (\<lambda>_. MJPEG_pop))) d)"

section \<open>A frame and its fragments\<close>

text \<open>What a sender chooses for a frame, and the payload of the fragment of it at offset \<open>k\<close>.\<close>

record jpeg =
  j_type :: byte
  j_quality :: byte
  j_width :: byte
  j_height :: byte
  j_restart :: "16 word"
  j_precision :: byte
  j_tables :: bytes

definition restart_type :: "jpeg \<Rightarrow> bool" where
  "restart_type j \<longleftrightarrow> 64 \<le> j_type j \<and> j_type j \<le> 127"

definition jpeg_payload :: "jpeg \<Rightarrow> 32 word \<Rightarrow> bytes \<Rightarrow> bytes" where
  "jpeg_payload j k b = ([0] @ be24 k @ [j_type j, j_quality j, j_width j, j_height j]) @
     (if restart_type j then be16 (j_restart j) @ [0xFF, 0xFF] else []) @
     (if j_quality j \<ge> 128 \<and> k = 0 then ([0, j_precision j] @ be16 (len16 (j_tables j))) @ j_tables j else []) @ b"

definition jpeg_headers :: "jpeg \<Rightarrow> bytes" where
  "jpeg_headers j = reconstructJPEGHeaders (j_type j) (j_width j) (j_height j) (j_quality j)
     (if restart_type j then j_restart j else 0)
     (if j_quality j \<ge> 128 then j_precision j else 0) (if j_quality j \<ge> 128 then j_tables j else [])"

fun numbered :: "32 word \<Rightarrow> bytes list \<Rightarrow> (32 word \<times> bytes) list" where
  "numbered k [] = []"
| "numbered k (b # bs) = (k, b) # numbered (k + word_of_nat (length b)) bs"

lemma contiguous_numbered: "contiguous k (numbered k bs)"
  by (induction bs arbitrary: k) auto

lemma snd_numbered [simp]: "map snd (numbered k bs) = bs"
  by (induction bs arbitrary: k) auto

lemma length_numbered [simp]: "length (numbered k bs) = length bs"
  by (induction bs arbitrary: k) auto

lemma numbered_above:
  assumes "unat k + length (concat bs) < 2 ^ 24" and "[] \<notin> set bs" and "(o', b) \<in> set (numbered k bs)"
  shows "k \<le> o' \<and> o' < 2 ^ 24 \<and> b \<in> set bs"
  using assms
proof (induction bs arbitrary: k)
  case (Cons c bs)
  let ?k = "k + word_of_nat (length c)"
  have u: "unat ?k = unat k + length c"
    using Cons.prems(1) by (simp add: unat_word_ariths unat_of_nat)
  have "k < 2 ^ 24" using Cons.prems(1) by (simp add: word_less_nat_alt)
  moreover have "k \<le> ?k" unfolding word_le_nat_alt u by simp
  ultimately show ?case using Cons.IH [of ?k] Cons.prems u by auto
qed simp

lemma sorted_numbered:
  assumes "unat k + length (concat bs) < 2 ^ 24" and "[] \<notin> set bs"
  shows "sorted (map fst (numbered k bs)) \<and> distinct (map fst (numbered k bs))"
  using assms
proof (induction bs arbitrary: k)
  case (Cons c bs)
  let ?k = "k + word_of_nat (length c)"
  have u: "unat ?k = unat k + length c"
    using Cons.prems(1) by (simp add: unat_word_ariths unat_of_nat)
  have "k < ?k" using Cons.prems(2) unfolding word_less_nat_alt u by auto
  moreover have "?k \<le> o'" if "(o', b) \<in> set (numbered ?k bs)" for o' b
    using numbered_above [of ?k bs o' b] that Cons.prems u by simp
  ultimately have "k < o'" if "(o', b) \<in> set (numbered ?k bs)" for o' b using that by fastforce
  then show ?case using Cons.IH [of ?k] Cons.prems u by fastforce
qed simp

lemma sort_fragments:
  assumes "length (concat bs) < 2 ^ 24" and "[] \<notin> set bs" and "mset fs = mset (numbered 0 bs)"
  shows "sort_key fst fs = numbered 0 bs"
proof (rule sort_key_inj_key_eq)
  have s: "sorted (map fst (numbered (0 :: 32 word) bs)) \<and> distinct (map fst (numbered (0 :: 32 word) bs))"
    using assms(1,2) by (intro sorted_numbered) simp_all
  then show "sorted (map fst (numbered 0 bs))" ..
  show "inj_on fst (set fs)"
    using s unfolding mset_eq_setD [OF assms(3)] by (simp add: distinct_map)
qed (rule assms(3))

section \<open>Reading one fragment\<close>

definition unread :: "'a rtp_base_scheme \<Rightarrow> bytes \<Rightarrow> bool" where
  "unread d b \<longleftrightarrow> fin d = length (payload d) \<and> offset d \<le> fin d \<and> drop (offset d) (payload d) = b"

lemma take_unread:
  assumes "unread d (xs @ ys)" and "length xs = n"
  shows "take_payload n msg d = (Inr xs, d\<lparr>offset := offset d + n\<rparr>)"
    and "unread (d\<lparr>offset := offset d + n\<rparr>) ys"
proof -
  have "drop (offset d) (payload d) = xs @ ys" using assms(1) by (simp add: unread_def)
  moreover from this have "length (payload d) = offset d + n + length ys"
    using assms by (metis unread_def diff_add_inverse le_add_diff_inverse length_append length_drop add.assoc)
  moreover have "drop (offset d + n) (payload d) = ys"
    using calculation(1) assms(2) by (metis add.commute append_eq_conv_conj drop_drop)
  ultimately show "take_payload n msg d = (Inr xs, d\<lparr>offset := offset d + n\<rparr>)"
    "unread (d\<lparr>offset := offset d + n\<rparr>) ys"
    using assms by (simp_all add: take_payload_def sub_def unread_def)
qed

lemma payload_unread: "unread d b \<Longrightarrow> rtp_payload d = (Inr b, d)"
  by (auto simp: unread_def rtp_payload_def sub_def)

lemma unread_update [simp]:
  "unread (d\<lparr>dj_restartInterval := r\<rparr>) b = unread d b" "unread (d\<lparr>dj_cachedQTables := t\<rparr>) b = unread d b"
  "unread (d\<lparr>dj_markerBit := k\<rparr>) b = unread d b" "unread (MJPEG_start ty q w h x d) b = unread d b"
  by (simp_all add: unread_def MJPEG_start_def)

lemma fragment_offset_be24: "k < 2 ^ 24 \<Longrightarrow> fragment_offset ([0] @ be24 k @ r) = k"
  using less_mask_eq [of k 24] by (simp add: fragment_offset_def be24_def join24 [unfolded or.assoc])

text \<open>Between frames, and within a frame with headers \<open>hs\<close> and fragments \<open>fs\<close>.\<close>

definition mj_idle :: "mjpeg_params \<Rightarrow> mjpeg_demuxer \<Rightarrow> bool" where
  "mj_idle c d \<longleftrightarrow> dj_packets d = [] \<and> ring_of d = None \<and> dj_codec d = Some c \<and> dj_restartInterval d = 0"

definition mj_within :: "32 word \<Rightarrow> bytes \<Rightarrow> mjpeg_params \<Rightarrow> (32 word \<times> bytes) list \<Rightarrow> mjpeg_demuxer \<Rightarrow> bool" where
  "mj_within w hs c fs d \<longleftrightarrow> dj_packets d = [] \<and> ring_of d = None \<and> dj_codec d = Some c \<and> dj_fragments d = fs \<and>
     dj_timestamp d = w \<and> dj_lastTimestamp d = w \<and> timestamp d = w \<and> dj_frameHeaders d = hs"

definition jpeg_packet :: "mjpeg_params \<Rightarrow> 32 word \<Rightarrow> bytes \<Rightarrow> bytes \<Rightarrow> mjpeg_params demuxed" where
  "jpeg_packet c w hs b = \<lparr>pk_key = True, pk_ts = uint w * Second div 90000, pk_dur = 0,
     pk_data = close_image (hs @ b), pk_codec = c, pk_slot = None\<rparr>"

text \<open>What \<open>addFragment\<close> does with a fragment, and what the packet is when it is the last one.\<close>

definition mj_added :: "bytes \<Rightarrow> 32 word \<Rightarrow> bytes \<Rightarrow> mjpeg_params \<Rightarrow> (32 word \<times> bytes) list \<Rightarrow> bool \<Rightarrow> bytes \<Rightarrow> mjpeg_params demuxed option \<Rightarrow>
    mjpeg_demuxer \<Rightarrow> bool" where
  "mj_added rest w hs c fs mk img x d \<longleftrightarrow> rdr d = rest \<and> (if mk then x = Some (jpeg_packet c w hs img) \<and> mj_idle c d
     else x = None \<and> mj_within w hs c fs d)"

lemma addFragment:
  assumes "unread d b" and "mj_within w hs c fs d"
    and "dj_markerBit d \<Longrightarrow> sort_key fst (fs @ [(k, b)]) = (0, b0) # gs \<and> contiguous 0 ((0, b0) # gs)"
    and "img = b0 @ concat (map snd gs)"
  shows "\<exists>x d'. sbind (MJPEG_addFragment k) (\<lambda>_. MJPEG_pop) d = (Inr x, d') \<and>
    mj_added (rdr d) w hs c (fs @ [(k, b)]) (dj_markerBit d) img x d'"
proof (cases "dj_markerBit d")
  case True
  with assms(3) have s: "sort_key fst (fs @ [(k, b)]) = (0, b0) # gs" "contiguous 0 ((0, b0) # gs)" by simp_all
  have "MJPEG_assembleFrame (d\<lparr>dj_fragments := fs @ [(k, b)]\<rparr>) =
    (Inr (), d\<lparr>dj_fragments := [], dj_packets := [jpeg_packet c w hs img], dj_restartInterval := 0\<rparr>)"
    using assms(2,4) s by (simp add: MJPEG_assembleFrame_def mj_within_def Let_def alloc_buf_def sbind_def jpeg_packet_def)
  with assms(2) payload_unread [OF assms(1)] True show ?thesis
    by (simp add: MJPEG_addFragment_def sbind_def MJPEG_pop_def mj_within_def mj_added_def mj_idle_def)
next
  case False
  with assms(2) payload_unread [OF assms(1)] show ?thesis
    by (simp add: MJPEG_addFragment_def sbind_def MJPEG_pop_def mj_within_def mj_added_def)
qed

text \<open>The headers in front of the data.\<close>

lemma word16_be16: "be16 w = [x, y] \<Longrightarrow> word16 (x # y # r) 0 = w" "be16 w = [x, y] \<Longrightarrow> word16 (a # b # x # y # r) 2 = w"
  by (auto simp: word16_def be16_def join16)

lemma parse_restart:
  assumes "unread d ((if restart_type j then be16 (j_restart j) @ [0xFF, 0xFF] else []) @ ys)"
  shows "\<exists>k. MJPEG_restart (j_type j) d = (Inr (), d\<lparr>offset := k,
      dj_restartInterval := (if restart_type j then j_restart j else dj_restartInterval d)\<rparr>) \<and> unread (d\<lparr>offset := k\<rparr>) ys"
proof (cases "restart_type j")
  case True
  obtain x y where xy: "be16 (j_restart j) = [x, y]" by (simp add: be16_def)
  from True assms have "unread d ([x, y, 0xFF, 0xFF] @ ys)" by (simp add: xy)
  from take_unread [OF this, of 4] True word16_be16(1) [OF xy] show ?thesis
    by (auto simp: MJPEG_restart_def restart_type_def sbind_def)
next
  case False
  then have "MJPEG_restart (j_type j) = sret ()" by (auto simp: MJPEG_restart_def restart_type_def)
  with False assms show ?thesis by (intro exI [of _ "offset d"]) simp
qed

lemma parse_qtables:
  assumes "unread d ((if q \<ge> 128 \<and> k = 0 then ([0, p] @ be16 (len16 t)) @ t else []) @ ys)"
    and "q \<ge> 128 \<Longrightarrow> t \<noteq> [] \<and> length t < 2 ^ 16"
  shows "\<exists>i c. MJPEG_qtables q k d = (Inr (if q \<ge> 128 \<and> k = 0 then (p, t) else (0, [])), d\<lparr>offset := i, dj_cachedQTables := c\<rparr>) \<and>
    unread (d\<lparr>offset := i\<rparr>) ys"
proof (cases "q \<ge> 128 \<and> k = 0")
  case True
  obtain x y where xy: "be16 (len16 t) = [x, y]" by (simp add: be16_def)
  have len: "unat (len16 t) = length t" using True assms(2) by (simp add: len16_def unat_of_nat)
  from True assms(1) have u: "unread d ([0, p, x, y] @ t @ ys)" by (simp add: xy)
  note a = take_unread [OF u, of 4]
  note b = take_unread [OF a(2), of "length t"]
  show ?thesis
  proof (intro exI conjI)
    show "unread (d\<lparr>offset := offset d + 4 + length t\<rparr>) ys" using b(2) by simp
    show "MJPEG_qtables q k d = (Inr (if q \<ge> 128 \<and> k = 0 then (p, t) else (0, [])), d\<lparr>offset := offset d + 4 + length t,
        dj_cachedQTables := if q < 255 then (dj_cachedQTables d)(q \<mapsto> (p, t)) else dj_cachedQTables d\<rparr>)"
      using True a(1) b(1) assms(2) len by (simp add: MJPEG_qtables_def sbind_def word16_be16(2) [OF xy])
  qed
next
  case False
  then have "MJPEG_qtables q k = sret (0, [])" by (auto simp: MJPEG_qtables_def)
  with False assms(1) show ?thesis
    by (intro exI [of _ "offset d"] exI [of _ "dj_cachedQTables d"]) auto
qed

definition jpeg_ok :: "jpeg \<Rightarrow> bool" where
  "jpeg_ok j \<longleftrightarrow> (j_quality j \<ge> 128 \<longrightarrow> j_tables j \<noteq> [] \<and> length (j_tables j) < 2 ^ 16)"

lemma parse_headers:
  assumes "unread d (jpeg_payload j k b)" and "k < 2 ^ 24" and "jpeg_ok j"
  shows "\<exists>i c r t. unread (d\<lparr>offset := i\<rparr>) b \<and> r = (if restart_type j then j_restart j else dj_restartInterval d) \<and>
    t = (if j_quality j \<ge> 128 \<and> k = 0 then (j_precision j, j_tables j) else (0, [])) \<and>
    parseMJPEGPacket d = (let e = d\<lparr>dj_restartInterval := r, offset := i, dj_cachedQTables := c\<rparr> in
      if k = 0 then MJPEG_addFragment 0 (MJPEG_start (j_type j) (j_quality j) (j_width j) (j_height j) t e)
      else if dj_lastTimestamp d \<noteq> timestamp d then (Inr (), e\<lparr>dj_fragments := []\<rparr>) else MJPEG_addFragment k e)"
proof -
  define h where "h = [0] @ be24 k @ [j_type j, j_quality j, j_width j, j_height j]"
  have n: "h ! 4 = j_type j" "h ! 5 = j_quality j" "h ! 6 = j_width j" "h ! 7 = j_height j" by (simp_all add: h_def be24_def)
  have h: "length h = 8" "fragment_offset h = k" using fragment_offset_be24 [OF assms(2)] by (simp_all add: h_def)
  note a = take_unread [OF assms(1) [unfolded jpeg_payload_def, folded h_def] h(1)]
  let ?q = "(if j_quality j \<ge> 128 \<and> k = 0 then ([0, j_precision j] @ be16 (len16 (j_tables j))) @ j_tables j else []) @ b"
  have "\<exists>i. MJPEG_restart (j_type j) (d\<lparr>offset := offset d + 8\<rparr>) = (Inr (), d\<lparr>offset := i,
      dj_restartInterval := (if restart_type j then j_restart j else dj_restartInterval d)\<rparr>) \<and> unread (d\<lparr>offset := i\<rparr>) ?q"
    using parse_restart [OF a(2)] by (simp cong: if_cong split del: if_split)
  then obtain i where i: "MJPEG_restart (j_type j) (d\<lparr>offset := offset d + 8\<rparr>) = (Inr (), d\<lparr>offset := i,
      dj_restartInterval := (if restart_type j then j_restart j else dj_restartInterval d)\<rparr>)" "unread (d\<lparr>offset := i\<rparr>) ?q"
    by blast
  let ?e = "d\<lparr>offset := i, dj_restartInterval := (if restart_type j then j_restart j else dj_restartInterval d)\<rparr>"
  have "unread ?e ?q" using i(2) by (simp add: unread_def)
  from parse_qtables [OF this] assms(3) obtain i' c where
    q: "MJPEG_qtables (j_quality j) k ?e = (Inr (if j_quality j \<ge> 128 \<and> k = 0 then (j_precision j, j_tables j) else (0, [])),
        ?e\<lparr>offset := i', dj_cachedQTables := c\<rparr>)" "unread (?e\<lparr>offset := i'\<rparr>) b"
    unfolding jpeg_ok_def by blast
  show ?thesis
    by (rule exI [of _ i'], rule exI [of _ c])
      (use q(2) in \<open>simp add: parseMJPEGPacket_def a(1) n h(2)
      i(1) q(1) Let_def unread_def split del: if_split cong: if_cong\<close>)
qed

section \<open>Reading a frame\<close>

definition jpeg_codec :: "jpeg \<Rightarrow> mjpeg_params \<Rightarrow> mjpeg_params" where
  "jpeg_codec j c = (if unat (j_width j) * 8 \<noteq> mj_width c \<or> unat (j_height j) * 8 \<noteq> mj_height c
     then mjpeg_NewCodecParameters (unat (j_width j) * 8) (unat (j_height j) * 8) (mj_fps c) else c)"

definition pt7 :: "'a rtp_muxer_scheme \<Rightarrow> bool" where
  "pt7 m \<longleftrightarrow> pt_ok m \<and> \<not> bit (payloadType m) 7"

lemma MJPEG_read_frame:
  assumes "pt7 m" and "length b < 2 ^ 16 - 12" and "rdr d = rtp_frame m b ts mk @ rest" and "dj_packets d = []"
  shows "\<exists>e. MJPEG_ReadPacket d = sbind parseMJPEGPacket (\<lambda>_. MJPEG_pop) e \<and> unread e b \<and> rdr e = rest \<and>
    e = d\<lparr>rdr := rdr e, payload := payload e, timestamp := rtpTimestamp (clockRate m) ts, offset := offset e,
      fin := fin e, dj_markerBit := mk\<rparr>"
proof -
  let ?f = "rtp_frame m b ts mk"
  have mk: "bit (?f ! 5) 7 = mk" using assms(1) by (simp add: rtp_frame_def be16_def pt7_def bit_simps)
  let ?e = "(after_frame ?f (rtpTimestamp (clockRate m) ts) rest d)\<lparr>dj_markerBit := mk\<rparr>"
  have "MJPEG_ReadPacket d = sbind parseMJPEGPacket (\<lambda>_. MJPEG_pop) ?e"
    using read_frame [OF _ assms(2,3)] assms(1,4) mk by (simp add: MJPEG_ReadPacket_def pt7_def after_frame_def)
  moreover have "unread ?e b" using drop_rtp_frame [of m b ts mk] by (simp add: unread_def after_frame_def)
  ultimately show ?thesis by (intro exI [of _ ?e]) (simp add: after_frame_def)
qed

lemma read_first:
  assumes "pt7 m" and "length (jpeg_payload j 0 b) < 2 ^ 16 - 12" and "rdr d = rtp_frame m (jpeg_payload j 0 b) ts mk @ rest"
    and "mj_idle c d" and "jpeg_ok j"
  shows "\<exists>x d'. MJPEG_ReadPacket d = (Inr x, d') \<and>
    mj_added rest (rtpTimestamp (clockRate m) ts) (jpeg_headers j) (jpeg_codec j c) [(0, b)] mk b x d'"
proof -
  have "dj_packets d = []" using assms(4) by (simp add: mj_idle_def)
  from MJPEG_read_frame [OF assms(1-3) this] obtain e where
    e: "MJPEG_ReadPacket d = sbind parseMJPEGPacket (\<lambda>_. MJPEG_pop) e" "unread e (jpeg_payload j 0 b)" "rdr e = rest"
      "e = d\<lparr>rdr := rdr e, payload := payload e, timestamp := rtpTimestamp (clockRate m) ts, offset := offset e,
        fin := fin e, dj_markerBit := mk\<rparr>" by blast
  have z: "(0 :: 32 word) < 2 ^ 24" by simp
  obtain i q r t where p: "unread (e\<lparr>offset := i\<rparr>) b"
    "r = (if restart_type j then j_restart j else dj_restartInterval e)"
    "t = (if j_quality j \<ge> 128 then (j_precision j, j_tables j) else (0, []))"
    "parseMJPEGPacket e = MJPEG_addFragment 0 (MJPEG_start (j_type j) (j_quality j) (j_width j) (j_height j) t
      (e\<lparr>dj_restartInterval := r, offset := i, dj_cachedQTables := q\<rparr>))"
    using parse_headers [OF e(2) z assms(5)] by (simp only: Let_def simp_thms if_True) blast
  let ?e = "MJPEG_start (j_type j) (j_quality j) (j_width j) (j_height j) t
      (e\<lparr>dj_restartInterval := r, offset := i, dj_cachedQTables := q\<rparr>)"
  have idle: "mj_idle c e" "timestamp e = rtpTimestamp (clockRate m) ts" "dj_markerBit e = mk"
    using assms(4) by (subst e(4); simp add: mj_idle_def)+
  then have "mj_within (rtpTimestamp (clockRate m) ts) (jpeg_headers j) (jpeg_codec j c) [] ?e"
    using p(2,3) by (simp add: mj_within_def mj_idle_def MJPEG_start_def jpeg_codec_def jpeg_headers_def)
  moreover have "unread ?e b" using p(1) by (simp add: unread_def MJPEG_start_def)
  moreover have "dj_markerBit ?e = mk" "rdr ?e = rest" using idle(3) e(3) by (simp_all add: MJPEG_start_def)
  ultimately show ?thesis
    using addFragment [of ?e b "rtpTimestamp (clockRate m) ts" "jpeg_headers j" "jpeg_codec j c" "[]" 0 b "[]" b] p(4) e(1)
    by (simp add: sbind_def)
qed

lemma read_next:
  assumes "pt7 m" and "length (jpeg_payload j k b) < 2 ^ 16 - 12" and "rdr d = rtp_frame m (jpeg_payload j k b) ts mk @ rest"
    and "mj_within (rtpTimestamp (clockRate m) ts) hs c fs d" and "jpeg_ok j" and "k \<noteq> 0" and "k < 2 ^ 24"
    and "mk \<Longrightarrow> sort_key fst (fs @ [(k, b)]) = (0, b0) # gs \<and> contiguous 0 ((0, b0) # gs)"
    and "img = b0 @ concat (map snd gs)"
  shows "\<exists>x d'. MJPEG_ReadPacket d = (Inr x, d') \<and>
    mj_added rest (rtpTimestamp (clockRate m) ts) hs c (fs @ [(k, b)]) mk img x d'"
proof -
  have "dj_packets d = []" using assms(4) by (simp add: mj_within_def)
  from MJPEG_read_frame [OF assms(1-3) this] obtain e where
    e: "MJPEG_ReadPacket d = sbind parseMJPEGPacket (\<lambda>_. MJPEG_pop) e" "unread e (jpeg_payload j k b)" "rdr e = rest"
      "e = d\<lparr>rdr := rdr e, payload := payload e, timestamp := rtpTimestamp (clockRate m) ts, offset := offset e,
        fin := fin e, dj_markerBit := mk\<rparr>" by blast
  have w: "mj_within (rtpTimestamp (clockRate m) ts) hs c fs e" "dj_markerBit e = mk"
    using assms(4) by (subst e(4); simp add: mj_within_def)+
  then have "dj_lastTimestamp e = timestamp e" by (simp add: mj_within_def)
  with parse_headers [OF e(2) assms(7,5)] assms(6) obtain i q r where p: "unread (e\<lparr>offset := i\<rparr>) b"
    "parseMJPEGPacket e = MJPEG_addFragment k (e\<lparr>dj_restartInterval := r, offset := i, dj_cachedQTables := q\<rparr>)"
    by (auto simp: Let_def)
  let ?e = "e\<lparr>dj_restartInterval := r, offset := i, dj_cachedQTables := q\<rparr>"
  have "mj_within (rtpTimestamp (clockRate m) ts) hs c fs ?e" "unread ?e b" "dj_markerBit ?e = mk" "rdr ?e = rest"
    using w p(1) e(3) by (simp_all add: mj_within_def unread_def)
  with addFragment [of ?e b "rtpTimestamp (clockRate m) ts" hs c fs k b0 gs img] assms(8,9) p(2) e(1) show ?thesis
    by (simp add: sbind_def)
qed

text \<open>The payloads of a frame, the marker bit on the last one.\<close>

fun jpeg_run :: "jpeg \<Rightarrow> (32 word \<times> bytes) list \<Rightarrow> (bytes \<times> bool) list" where
  "jpeg_run j [] = []"
| "jpeg_run j ((k, b) # fs) = (jpeg_payload j k b, fs = []) # jpeg_run j fs"

lemma length_jpeg_run [simp]: "length (jpeg_run j fs) = length fs"
  by (induction j fs rule: jpeg_run.induct) auto

definition jpeg_small :: "jpeg \<Rightarrow> (32 word \<times> bytes) list \<Rightarrow> bool" where
  "jpeg_small j fs \<longleftrightarrow> (\<forall>(k, b)\<in>set fs. length (jpeg_payload j k b) < 2 ^ 16 - 12)"

lemma read_rest:
  assumes "pt7 m" and "jpeg_ok j" and "length (concat bs) < 2 ^ 24" and "[] \<notin> set bs"
    and "mj_within (rtpTimestamp (clockRate m) ts) hs c fs d" and "rdr d = frames m ts (jpeg_run j gs) @ rest"
    and "mset (fs @ gs) = mset (numbered 0 bs)" and "gs \<noteq> []" and "\<forall>(k, b)\<in>set gs. k \<noteq> 0 \<and> k < 2 ^ 24" and "jpeg_small j gs"
  shows "\<exists>d'. read_times (length gs) MJPEG_ReadPacket d =
      (Inr [jpeg_packet c (rtpTimestamp (clockRate m) ts) hs (concat bs)], d') \<and> rdr d' = rest \<and> mj_idle c d'"
  using assms
proof (induction gs arbitrary: fs d m)
  case (Cons g gs)
  obtain k b where g: "g = (k, b)" by fastforce
  let ?m = "m\<lparr>sequence := sequence m + 1\<rparr>" and ?w = "rtpTimestamp (clockRate m) ts"
  have mk: "sort_key fst (fs @ [(k, b)]) = (0, hd bs) # tl (numbered 0 bs) \<and> contiguous 0 ((0, hd bs) # tl (numbered 0 bs)) \<and>
      concat bs = hd bs @ concat (map snd (tl (numbered 0 bs)))" if "gs = []"
  proof -
    have "bs \<noteq> []" using Cons.prems(7) g by auto
    then obtain b0 bs' where "bs = b0 # bs'" by (cases bs) auto
    moreover have "sort_key fst (fs @ [(k, b)]) = numbered 0 bs"
      using Cons.prems(7) that g by (intro sort_fragments [OF assms(3,4)]) simp
    ultimately show ?thesis using contiguous_numbered [of 0 bs] by simp
  qed
  have "rdr d = rtp_frame m (jpeg_payload j k b) ts (gs = []) @ frames ?m ts (jpeg_run j gs) @ rest"
    using Cons.prems(6) by (simp add: g)
  moreover have "length (jpeg_payload j k b) < 2 ^ 16 - 12" "k \<noteq> 0" "k < 2 ^ 24"
    using Cons.prems(9,10) by (auto simp: g jpeg_small_def)
  ultimately have "\<exists>x d'. MJPEG_ReadPacket d = (Inr x, d') \<and> mj_added (frames ?m ts (jpeg_run j gs) @ rest) ?w hs c
      (fs @ [(k, b)]) (gs = []) (hd bs @ concat (map snd (tl (numbered 0 bs)))) x d'"
    using mk by (intro read_next [OF Cons.prems(1) _ _ Cons.prems(5,2)]) simp_all
  then obtain x d' where x: "MJPEG_ReadPacket d = (Inr x, d')" "mj_added (frames ?m ts (jpeg_run j gs) @ rest) ?w hs c
      (fs @ [(k, b)]) (gs = []) (hd bs @ concat (map snd (tl (numbered 0 bs)))) x d'" by blast
  show ?case
  proof (cases "gs = []")
    case True
    with x mk show ?thesis by (simp add: mj_added_def)
  next
    case False
    have "pt7 ?m" "clockRate ?m = clockRate m" using Cons.prems(1) by (simp_all add: pt7_def pt_ok_def)
    with False x(2) Cons.IH [of ?m "fs @ [(k, b)]" d'] Cons.prems obtain d2 where
      "read_times (length gs) MJPEG_ReadPacket d' = (Inr [jpeg_packet c ?w hs (concat bs)], d2) \<and> rdr d2 = rest \<and> mj_idle c d2"
      by (auto simp: mj_added_def g jpeg_small_def)
    with x False show ?thesis by (simp add: mj_added_def)
  qed
qed simp

section \<open>Properties\<close>

text \<open>C4: A JPEG frame cut into non-empty fragments is put together again.  The fragment at offset 0 has to arrive first
  (it starts the frame) and the marker bit is on the packet that arrives last; the fragments in between, and with them
  the one that carries the marker, may come in any order.  The one packet read is the rebuilt headers, the scan
  data in the order of the offsets and an end-of-image marker where the data has none.  The demuxer is then ready
  for the next frame.  Assumed: no ring, no loss, in-band quantisation tables from quality 128 on, and at most 16 MB of
  scan data, the range of the 24-bit offset.\<close>

theorem jpeg_frame_reassembled:
  assumes "pt7 m" and "jpeg_ok j" and "length (concat (b # bs)) < 2 ^ 24" and "[] \<notin> set (b # bs)"
    and "mset gs = mset (tl (numbered 0 (b # bs)))" and "jpeg_small j ((0, b) # gs)"
    and "mj_idle c d" and "rdr d = frames m ts (jpeg_run j ((0, b) # gs)) @ rest"
  shows "\<exists>d'. read_times (length (b # bs)) MJPEG_ReadPacket d =
      (Inr [\<lparr>pk_key = True, pk_ts = uint (rtpTimestamp (clockRate m) ts) * Second div 90000, pk_dur = 0,
        pk_data = close_image (jpeg_headers j @ concat (b # bs)), pk_codec = jpeg_codec j c, pk_slot = None\<rparr>], d') \<and>
    rdr d' = rest \<and> mj_idle (jpeg_codec j c) d'"
proof -
  let ?m = "m\<lparr>sequence := sequence m + 1\<rparr>" and ?w = "rtpTimestamp (clockRate m) ts" and ?c = "jpeg_codec j c"
  have len: "length gs = length bs"
    using mset_eq_length [OF assms(5)] by simp
  have "rdr d = rtp_frame m (jpeg_payload j 0 b) ts (gs = []) @ frames ?m ts (jpeg_run j gs) @ rest"
    using assms(8) by simp
  moreover have "length (jpeg_payload j 0 b) < 2 ^ 16 - 12" using assms(6) by (simp add: jpeg_small_def)
  ultimately obtain x d' where x: "MJPEG_ReadPacket d = (Inr x, d')"
    "mj_added (frames ?m ts (jpeg_run j gs) @ rest) ?w (jpeg_headers j) ?c [(0, b)] (gs = []) b x d'"
    using read_first [OF assms(1) _ _ assms(7,2)] by blast
  have "\<exists>d2. read_times (Suc (length gs)) MJPEG_ReadPacket d = (Inr [jpeg_packet ?c ?w (jpeg_headers j) (concat (b # bs))], d2) \<and>
    rdr d2 = rest \<and> mj_idle ?c d2"
  proof (cases "gs = []")
    case True
    with len x show ?thesis by (simp add: mj_added_def)
  next
    case False
    have u: "unat (word_of_nat (length b) :: 32 word) = length b" using assms(3) by (simp add: unat_of_nat)
    have "\<forall>(k, b)\<in>set gs. k \<noteq> 0 \<and> k < 2 ^ 24"
    proof (intro ballI, clarify)
      fix k e assume "(k, e) \<in> set gs"
      with mset_eq_setD [OF assms(5)] numbered_above [of "word_of_nat (length b)" bs k e] assms(3,4) u
      have "word_of_nat (length b) \<le> k \<and> k < 2 ^ 24" by simp
      moreover have "(0 :: 32 word) < word_of_nat (length b)" using u assms(4) by (auto simp: word_less_nat_alt)
      ultimately show "k \<noteq> 0 \<and> k < 2 ^ 24" by auto
    qed
    moreover have "pt7 ?m" "clockRate ?m = clockRate m" using assms(1) by (simp_all add: pt7_def pt_ok_def)
    ultimately obtain d2 where
      "read_times (length gs) MJPEG_ReadPacket d' = (Inr [jpeg_packet ?c ?w (jpeg_headers j) (concat (b # bs))], d2) \<and>
        rdr d2 = rest \<and> mj_idle ?c d2"
      using read_rest [of ?m j "b # bs" ts "jpeg_headers j" ?c "[(0, b)]" d' gs rest] assms x(2) False
      by (auto simp: mj_added_def jpeg_small_def)
    with x False show ?thesis by (simp add: mj_added_def)
  qed
  then show ?thesis by (simp add: len jpeg_packet_def)
qed

definition jpeg0 :: jpeg where
  "jpeg0 = \<lparr>j_type = 65, j_quality = 50, j_width = 2, j_height = 2, j_restart = 4, j_precision = 0, j_tables = []\<rparr>"

definition camera0 :: "(32 word \<times> bytes) list \<Rightarrow> mjpeg_demuxer" where
  "camera0 fs = (NewMJPEGDemuxer (frames muxer0 Second (jpeg_run jpeg0 fs) @ [0x24]) None)
     \<lparr>dj_codec := Some (mjpeg_NewCodecParameters 320 240 30)\<rparr>"

theorem jpeg_frame_reassembled_witness:
  "\<exists>d'. read_times 3 MJPEG_ReadPacket (camera0 [(0, [1, 2]), (3, [4, 5]), (2, [3])]) =
      (Inr [\<lparr>pk_key = True, pk_ts = Second, pk_dur = 0, pk_data = close_image (jpeg_headers jpeg0 @ [1, 2, 3, 4, 5]),
        pk_codec = mjpeg_NewCodecParameters 16 16 30, pk_slot = None\<rparr>], d') \<and> rdr d' = [0x24]"
proof -
  let ?c = "mjpeg_NewCodecParameters 320 240 30" and ?gs = "[(3, [4, 5]), (2, [3])]"
  have t: "uint (rtpTimestamp (clockRate muxer0) Second) * Second div 90000 = Second"
    by (simp add: rtpTimestamp_def Second_def muxer0_def newBaseMuxer_def)
  have c: "jpeg_codec jpeg0 ?c = mjpeg_NewCodecParameters 16 16 30"
    by (simp add: jpeg_codec_def jpeg0_def mjpeg_NewCodecParameters_def)
  have "\<exists>d'. read_times (length [[1, 2], [3], [4, 5 :: byte]]) MJPEG_ReadPacket (camera0 ((0, [1, 2]) # ?gs)) =
      (Inr [\<lparr>pk_key = True, pk_ts = uint (rtpTimestamp (clockRate muxer0) Second) * Second div 90000, pk_dur = 0,
        pk_data = close_image (jpeg_headers jpeg0 @ concat [[1, 2], [3], [4, 5]]), pk_codec = jpeg_codec jpeg0 ?c,
        pk_slot = None\<rparr>], d') \<and> rdr d' = [0x24] \<and> mj_idle (jpeg_codec jpeg0 ?c) d'"
  proof (rule jpeg_frame_reassembled)
    show "pt7 muxer0" by (simp add: pt7_def pt_ok_def muxer0_def newBaseMuxer_def)
    show "jpeg_small jpeg0 ((0, [1, 2]) # ?gs)" by (simp add: jpeg_small_def jpeg_payload_def jpeg0_def restart_type_def)
    show "mj_idle ?c (camera0 ((0, [1, 2]) # ?gs))" by (simp add: mj_idle_def camera0_def NewMJPEGDemuxer_def)
    show "rdr (camera0 ((0, [1, 2]) # ?gs)) = frames muxer0 Second (jpeg_run jpeg0 ((0, [1, 2]) # ?gs)) @ [0x24]"
      by (simp only: camera0_def NewMJPEGDemuxer_def) simp
  qed (simp_all add: jpeg_ok_def jpeg0_def)
  then show ?thesis unfolding t c by (auto simp: numeral_3_eq_3)
qed

end
