(* ===== verification/Hls.thy ===== *)
theory Hls
  imports Codec "HOL-Library.Multiset"
begin

text \<open>
  \<open>format/hls\<close>: the low-latency HLS muxer (\<open>muxer.go\<close>) over segments (\<open>segment.go\<close>) and
  fragments (\<open>fragment.go\<close>).

  A packet is what the muxer reads of it and its body.  The calls of \<open>Clone(false)\<close>, which
  retains the slot of a packet, and of \<open>Release\<close> on the clones are logged in order.  A channel
  that is only ever closed is the flag that it is; closing it twice panics.  Playlists are lists
  of lines, one constructor per format string, without the media name, the wall clock stamps and
  the constant attributes of the header.  Durations are nanoseconds; segment numbers and versions
  do not wrap.  The bytes of a fragmented MP4 file are the argument \<open>mp4\<close>.
\<close>

section \<open>Packets and codec parameters\<close>

record 'p hls_packet =
  hk_video :: bool
  hk_key :: bool
  hk_ts :: int
  hk_dur :: int
  hk_body :: 'p

datatype 'p slot_call = Retained "'p hls_packet" | Released "'p hls_packet"

record video_info =
  vi_type :: codec_type
  vi_Width :: "64 word"
  vi_Height :: "64 word"
  vi_FPS :: "64 word"
  vi_Bitrate :: "64 word"
  vi_Tag :: string

record audio_info =
  ai_type :: codec_type
  ai_Tag :: string

record codec_pair =
  cp_source :: string
  cp_audio :: "audio_info option"
  cp_video :: "video_info option"

text \<open>The check of the codec types in \<open>fmp4.Muxer.Mux\<close>.\<close>

definition fmp4_supported :: "codec_type \<Rightarrow> bool" where
  "fmp4_supported t \<longleftrightarrow> t = makeVideoCodecType (avCodecTypeMagic + 1) \<or> t = makeVideoCodecType (avCodecTypeMagic + 2) \<or>
     t = makeAudioCodecType (avCodecTypeMagic + 1)"

definition fmp4_Mux :: "codec_pair \<Rightarrow> unit res" where
  "fmp4_Mux c = (if (\<exists>v\<in>set_option (cp_video c). \<not> fmp4_supported (vi_type v)) \<or>
       (\<exists>a\<in>set_option (cp_audio c). \<not> fmp4_supported (ai_type a))
     then Inl (Error ''fmp4: codec type is not supported'') else Inr ())"

section \<open>fragment.go\<close>

datatype line =
    PreloadHint nat byte
  | Part int bool nat byte
  | ProgramDateTime
  | ExtInf int
  | SegmentUri nat
  | DiscontinuityTag
  | MapTag nat

record 'p fragment =
  fr_independent :: bool
  fr_id :: byte
  fr_segID :: nat
  fr_targetDuration :: int
  fr_duration :: int
  fr_finished :: bool
  fr_entry :: "line list"
  fr_packets :: "'p hls_packet list"
  fr_codecPars :: codec_pair
  fr_mp4 :: "bytes option"

definition newFragment :: "byte \<Rightarrow> nat \<Rightarrow> int \<Rightarrow> codec_pair \<Rightarrow> 'p fragment" where
  "newFragment i seg target pars = \<lparr>fr_independent = False, fr_id = i, fr_segID = seg, fr_targetDuration = target,
     fr_duration = 0, fr_finished = False, fr_entry = [PreloadHint seg i], fr_packets = [], fr_codecPars = pars, fr_mp4 = None\<rparr>"

definition fragment_close :: "'p fragment \<Rightarrow> 'p fragment res" where
  "fragment_close f = (if fr_finished f then Inl Panic
     else Inr (f\<lparr>fr_entry := [Part (fr_duration f) (fr_independent f) (fr_segID f) (fr_id f)], fr_finished := True\<rparr>))"

definition fragment_writePacket :: "'p hls_packet \<Rightarrow> 'p fragment \<Rightarrow> 'p fragment res" where
  "fragment_writePacket p f =
     (let f = f\<lparr>fr_packets := fr_packets f @ [p]\<rparr> in
      if hk_video p
      then let f = f\<lparr>fr_independent := fr_independent f \<or> hk_key p, fr_duration := fr_duration f + hk_dur p\<rparr>
        in if fr_targetDuration f \<le> fr_duration f then fragment_close f else Inr f
      else Inr f)"

type_synonym 'p mp4_writer = "codec_pair \<Rightarrow> 'p hls_packet list \<Rightarrow> nat \<Rightarrow> bytes"

definition generateMp4 :: "'p mp4_writer \<Rightarrow> 'p fragment \<Rightarrow> 'p fragment" where
  "generateMp4 mp4 f = (if fr_mp4 f \<noteq> None \<or> length (fr_packets f) = 0 then f
     else case fmp4_Mux (fr_codecPars f) of Inl e \<Rightarrow> f
       | Inr _ \<Rightarrow> f\<lparr>fr_mp4 := Some (mp4 (fr_codecPars f) (fr_packets f) (unat (fr_id f)))\<rparr>)"

section \<open>segment.go\<close>

text \<open>The current fragment is always the last one of the list.\<close>

record 'p segment =
  sg_id :: nat
  sg_targetFragDuration :: int
  sg_targetDuration :: int
  sg_duration :: int
  sg_finished :: bool
  sg_entry :: "line list"
  sg_codecPars :: codec_pair
  sg_cacheEntry :: "line list"
  sg_fragments :: "'p fragment list"
  sg_mp4 :: "bytes option"
  sg_released :: bool
  sg_discontinuity :: bool
  sg_initVersion :: nat

definition newSegment :: "nat \<Rightarrow> int \<Rightarrow> int \<Rightarrow> codec_pair \<Rightarrow> 'p segment" where
  "newSegment i fragTarget target pars = \<lparr>sg_id = i, sg_targetFragDuration = fragTarget, sg_targetDuration = target,
     sg_duration = 0, sg_finished = False, sg_entry = [PreloadHint i 0], sg_codecPars = pars, sg_cacheEntry = [],
     sg_fragments = [newFragment 0 i fragTarget pars], sg_mp4 = None, sg_released = False, sg_discontinuity = False,
     sg_initVersion = 0\<rparr>"

definition curFragment :: "'p segment \<Rightarrow> 'p fragment" where
  "curFragment s = last (sg_fragments s)"

definition set_curFragment :: "'p fragment \<Rightarrow> 'p segment \<Rightarrow> 'p segment" where
  "set_curFragment f s = s\<lparr>sg_fragments := butlast (sg_fragments s) @ [f]\<rparr>"

text \<open>Count the closed current fragment into the segment.\<close>

definition account :: "'p fragment \<Rightarrow> 'p segment \<Rightarrow> 'p segment" where
  "account f s = s\<lparr>sg_duration := sg_duration s + fr_duration f, sg_cacheEntry := sg_cacheEntry s @ fr_entry f\<rparr>"

definition segment_writePacket :: "'p hls_packet \<Rightarrow> 'p segment \<Rightarrow> ('p segment \<times> bool) res" where
  "segment_writePacket p s = ebind (fragment_writePacket p (curFragment s)) (\<lambda>f.
     let s = set_curFragment f s in
     if fr_finished f
     then let s = account f s; g = newFragment (fr_id f + 1) (sg_id s) (sg_targetFragDuration s) (sg_codecPars s)
       in Inr (s\<lparr>sg_fragments := sg_fragments s @ [g], sg_entry := sg_cacheEntry s @ fr_entry g\<rparr>, True)
     else Inr (s, False))"

definition segment_close :: "'p segment \<Rightarrow> 'p segment res" where
  "segment_close s = (if sg_finished s then Inl Panic else Inr (s\<lparr>sg_finished := True\<rparr>))"

definition full_entry :: "'p segment \<Rightarrow> line list" where
  "full_entry s = sg_cacheEntry s @ [ProgramDateTime, ExtInf (sg_duration s), SegmentUri (sg_id s)]"

definition closeSeg :: "'p segment \<Rightarrow> 'p segment res" where
  "closeSeg s = (let f = curFragment s in
     ebind (if fr_finished f then Inr s
       else if 0 < fr_duration f then ebind (fragment_close f) (\<lambda>f. Inr (account f (set_curFragment f s)))
       else Inr (set_curFragment (f\<lparr>fr_duration := 0, fr_finished := True\<rparr>) s)) (\<lambda>s.
     segment_close (s\<lparr>sg_entry := full_entry s\<rparr>)))"

definition segment_packets :: "'p segment \<Rightarrow> 'p hls_packet list" where
  "segment_packets s = concat (map fr_packets (sg_fragments s))"

text \<open>The segment after its release and the packets whose \<open>Release\<close> is called.\<close>

definition segment_release :: "'p segment \<Rightarrow> 'p segment \<times> 'p hls_packet list" where
  "segment_release s = (if sg_released s then (s, [])
     else (s\<lparr>sg_released := True, sg_fragments := map (\<lambda>f. f\<lparr>fr_packets := []\<rparr>) (sg_fragments s)\<rparr>, segment_packets s))"

definition segment_getMp4Buffer :: "'p mp4_writer \<Rightarrow> 'p segment \<Rightarrow> bytes option \<times> 'p segment" where
  "segment_getMp4Buffer mp4 s = (if sg_mp4 s \<noteq> None then (sg_mp4 s, s)
     else if sg_released s then (None, s)
     else case fmp4_Mux (sg_codecPars s) of Inl e \<Rightarrow> (None, s)
       | Inr _ \<Rightarrow> let b = mp4 (sg_codecPars s) (segment_packets s) (sg_id s) in (Some b, s\<lparr>sg_mp4 := Some b\<rparr>))"

text \<open>A request either is answered or blocks until the state changes (or its time runs out).\<close>

datatype 'a reply = Reply 'a | Blocked

text \<open>The reply is no buffer or a buffer, whose data may be nil.\<close>

definition getFragment :: "'p mp4_writer \<Rightarrow> byte \<Rightarrow> 'p segment \<Rightarrow> bytes option option reply \<times> 'p segment" where
  "getFragment mp4 i s = (if word_of_nat (length (sg_fragments s)) \<le> i then (Reply None, s)
     else let f = sg_fragments s ! unat i in
       if \<not> fr_finished f then (Blocked, s)
       else if fr_mp4 f \<noteq> None then (Reply (Some (fr_mp4 f)), s)
       else if sg_released s then (Reply None, s)
       else let f = generateMp4 mp4 f in (Reply (Some (fr_mp4 f)), s\<lparr>sg_fragments := (sg_fragments s)[unat i := f]\<rparr>))"

text \<open>Whether \<open>waitFragment\<close> returns in this state.\<close>

definition waitFragment :: "byte \<Rightarrow> 'p segment \<Rightarrow> bool" where
  "waitFragment i s \<longleftrightarrow> i \<le> fr_id (curFragment s) \<or> sg_finished s"

section \<open>muxer.go: the state\<close>

record header =
  hd_version :: int
  hd_targetSeconds :: int
  hd_partTarget :: int
  hd_independentSegments :: bool

record playlist =
  pl_header :: header
  pl_mediaSequence :: int
  pl_discontinuitySequence :: int
  pl_lines :: "line list"

record 'p hls_muxer =
  mx_segments :: "nat \<rightharpoonup> 'p segment"
  mx_segIDs :: "nat list"
  mx_segmentCount :: byte
  mx_mediaSequence :: int
  mx_discontinuitySequence :: int
  mx_segmentDuration :: int
  mx_fragmentDuration :: int
  mx_maxTS :: int
  mx_version :: int
  mx_manifest :: "playlist option"
  mx_broadcasts :: nat
  mx_header :: header
  mx_codecPars :: codec_pair
  mx_initVersion :: nat
  mx_initCache :: "nat \<rightharpoonup> codec_pair"
  mx_initBytesCache :: "nat \<rightharpoonup> bytes"
  mx_manifestDirty :: bool
  mx_keyframeSplit :: bool
  mx_minPlaylistDuration :: int
  mx_maxSegmentDuration :: int
  mx_capSplitSeen :: bool
  mx_tsOffset :: int
  mx_gateOpen :: bool
  mx_calls :: "'p slot_call list"

text \<open>The options of the constructor and their defaults.\<close>

record hls_options =
  ho_fragmentDuration :: int
  ho_maxTS :: int
  ho_version :: int
  ho_keyframeSplit :: bool
  ho_maxSegmentDuration :: int
  ho_minPlaylistDuration :: int

definition defaultOptions :: hls_options where
  "defaultOptions = \<lparr>ho_fragmentDuration = 495 * Millisecond, ho_maxTS = 3600000 * Millisecond, ho_version = 7,
     ho_keyframeSplit = False, ho_maxSegmentDuration = 0, ho_minPlaylistDuration = 0\<rparr>"

definition ceil_seconds :: "int \<Rightarrow> int" where
  "ceil_seconds d = - ((- d) div (1000 * Millisecond))"

definition buildHeader :: "'p hls_muxer \<Rightarrow> header" where
  "buildHeader m = \<lparr>hd_version = mx_version m,
     hd_targetSeconds = ceil_seconds (if 0 < mx_maxSegmentDuration m then mx_maxSegmentDuration m else mx_segmentDuration m),
     hd_partTarget = mx_fragmentDuration m,
     hd_independentSegments = (mx_keyframeSplit m \<and> \<not> mx_capSplitSeen m)\<rparr>"

definition NewHLSMuxer :: "int \<Rightarrow> byte \<Rightarrow> hls_options \<Rightarrow> 'p hls_muxer" where
  "NewHLSMuxer segmentDuration segmentCount opts =
     (let mx = ho_maxSegmentDuration opts;
          m = \<lparr>mx_segments = (\<lambda>_. None), mx_segIDs = [], mx_segmentCount = segmentCount, mx_mediaSequence = 0,
            mx_discontinuitySequence = 0, mx_segmentDuration = segmentDuration, mx_fragmentDuration = ho_fragmentDuration opts,
            mx_maxTS = ho_maxTS opts, mx_version = ho_version opts, mx_manifest = None, mx_broadcasts = 0,
            mx_header = \<lparr>hd_version = 0, hd_targetSeconds = 0, hd_partTarget = 0, hd_independentSegments = False\<rparr>,
            mx_codecPars = \<lparr>cp_source = [], cp_audio = None, cp_video = None\<rparr>, mx_initVersion = 0,
            mx_initCache = (\<lambda>_. None), mx_initBytesCache = (\<lambda>_. None), mx_manifestDirty = False,
            mx_keyframeSplit = ho_keyframeSplit opts, mx_minPlaylistDuration = ho_minPlaylistDuration opts,
            mx_maxSegmentDuration = (if mx \<noteq> 0 \<and> mx < segmentDuration then segmentDuration else mx),
            mx_capSplitSeen = False, mx_tsOffset = 0, mx_gateOpen = False, mx_calls = []\<rparr>
      in m\<lparr>mx_header := buildHeader m\<rparr>)"

section \<open>muxer.go: segments\<close>

definition addSegment :: "'p segment \<Rightarrow> 'p hls_muxer \<Rightarrow> 'p hls_muxer" where
  "addSegment s m = m\<lparr>mx_segments := (mx_segments m)(sg_id s \<mapsto> s), mx_segIDs := mx_segIDs m @ [sg_id s]\<rparr>"

definition removeSegment :: "nat \<Rightarrow> 'p hls_muxer \<Rightarrow> 'p hls_muxer" where
  "removeSegment i m = m\<lparr>mx_segments := (mx_segments m)(i := None), mx_segIDs := tl (mx_segIDs m),
     mx_calls := mx_calls m @ (case mx_segments m i of None \<Rightarrow> [] | Some s \<Rightarrow> map Released (snd (segment_release s)))\<rparr>"

definition getCurSegment :: "('p hls_muxer, 'p segment) op" where
  "getCurSegment m = (if mx_segIDs m = [] then Inl Panic
     else case mx_segments m (last (mx_segIDs m)) of None \<Rightarrow> Inl Panic | Some s \<Rightarrow> Inr s, m)"

text \<open>The segments are shared: a change to one is a change of the map.\<close>

definition put_segment :: "'p segment \<Rightarrow> 'p hls_muxer \<Rightarrow> 'p hls_muxer" where
  "put_segment s m = m\<lparr>mx_segments := (mx_segments m)(sg_id s \<mapsto> s)\<rparr>"

definition seg_duration :: "'p hls_muxer \<Rightarrow> nat \<Rightarrow> int" where
  "seg_duration m i = (case mx_segments m i of None \<Rightarrow> 0 | Some s \<Rightarrow> sg_duration s)"

definition evictOldest :: "'p hls_muxer \<Rightarrow> 'p hls_muxer" where
  "evictOldest m = (let i = hd (mx_segIDs m);
       m = (case mx_segments m i of Some s \<Rightarrow> if sg_discontinuity s
         then m\<lparr>mx_discontinuitySequence := mx_discontinuitySequence m + 1\<rparr> else m | None \<Rightarrow> m);
       m = removeSegment i m
     in m\<lparr>mx_mediaSequence := mx_mediaSequence m + 1\<rparr>)"

lemma segIDs_evictOldest [simp]: "mx_segIDs (evictOldest m) = tl (mx_segIDs m)"
  by (simp add: evictOldest_def removeSegment_def Let_def split: option.splits)

function evictByDuration :: "'p hls_muxer \<Rightarrow> 'p hls_muxer" where
  "evictByDuration m =
     (if length (mx_segIDs m) \<le> 2 then m
      else case mx_segments m (hd (mx_segIDs m)) of None \<Rightarrow> m | Some s \<Rightarrow>
        if (\<Sum>i\<leftarrow>butlast (mx_segIDs m). seg_duration m i) - sg_duration s < mx_minPlaylistDuration m then m
        else evictByDuration (evictOldest m))"
  by pat_completeness auto
termination by (relation "measure (\<lambda>m. length (mx_segIDs m))") auto

declare evictByDuration.simps [simp del]

definition count_bound :: "'p hls_muxer \<Rightarrow> int" where
  "count_bound m = max (uint (mx_segmentCount m) * mx_segmentDuration m) (3 * mx_segmentDuration m)"

function evictByCount :: "'p hls_muxer \<Rightarrow> 'p hls_muxer" where
  "evictByCount m =
     (if length (mx_segIDs m) \<le> unat (mx_segmentCount m) then m
      else if (\<Sum>i\<leftarrow>mx_segIDs m. seg_duration m i) \<le> count_bound m then m
      else evictByCount (evictOldest m))"
  by pat_completeness auto
termination by (relation "measure (\<lambda>m. length (mx_segIDs m))") auto

declare evictByCount.simps [simp del]

definition used_version :: "'p hls_muxer \<Rightarrow> nat \<Rightarrow> bool" where
  "used_version m v \<longleftrightarrow> (\<exists>i\<in>set (mx_segIDs m). case mx_segments m i of None \<Rightarrow> False | Some s \<Rightarrow> sg_initVersion s = v)"

definition cleanupInitCache :: "'p hls_muxer \<Rightarrow> 'p hls_muxer" where
  "cleanupInitCache m = m\<lparr>
     mx_initCache := (\<lambda>v. if used_version m v then mx_initCache m v else None),
     mx_initBytesCache := (\<lambda>v. if mx_initCache m v \<noteq> None \<and> \<not> used_version m v then None else mx_initBytesCache m v)\<rparr>"

definition evictOldSegments :: "'p hls_muxer \<Rightarrow> 'p hls_muxer" where
  "evictOldSegments m = cleanupInitCache (if 0 < mx_minPlaylistDuration m then evictByDuration m else evictByCount m)"

section \<open>muxer.go: the playlist\<close>

fun index_lines :: "(nat \<rightharpoonup> 'p segment) \<Rightarrow> nat option \<Rightarrow> nat list \<Rightarrow> line list" where
  "index_lines segs v [] = []"
| "index_lines segs v (i # is) = (case segs i of None \<Rightarrow> index_lines segs v is | Some s \<Rightarrow>
     if sg_entry s = [] then index_lines segs v is
     else (if sg_discontinuity s then [DiscontinuityTag] else []) @
       (if v \<noteq> Some (sg_initVersion s) then [MapTag (sg_initVersion s)] else []) @ sg_entry s @
       index_lines segs (Some (sg_initVersion s)) is)"

definition updateIndexM3u8 :: "'p hls_muxer \<Rightarrow> playlist" where
  "updateIndexM3u8 m = \<lparr>pl_header = mx_header m, pl_mediaSequence = mx_mediaSequence m,
     pl_discontinuitySequence = mx_discontinuitySequence m, pl_lines = index_lines (mx_segments m) None (mx_segIDs m)\<rparr>"

text \<open>Store the playlist and wake the waiting readers.\<close>

definition publish :: "'p hls_muxer \<Rightarrow> 'p hls_muxer" where
  "publish m = m\<lparr>mx_manifest := Some (updateIndexM3u8 m), mx_broadcasts := mx_broadcasts m + 1\<rparr>"

definition HasPlayableSegments :: "'p hls_muxer \<Rightarrow> bool" where
  "HasPlayableSegments m = (case mx_manifest m of None \<Rightarrow> False
     | Some p \<Rightarrow> list_ex (\<lambda>l. case l of ExtInf _ \<Rightarrow> True | _ \<Rightarrow> False) (pl_lines p))"

section \<open>muxer.go: packets\<close>

definition new_segment :: "bool \<Rightarrow> nat \<Rightarrow> 'p hls_muxer \<Rightarrow> 'p hls_muxer" where
  "new_segment disc i m = addSegment ((newSegment i (mx_fragmentDuration m) (mx_segmentDuration m) (mx_codecPars m))
     \<lparr>sg_discontinuity := disc, sg_initVersion := mx_initVersion m\<rparr>) m"

definition no_codecs :: "codec_pair \<Rightarrow> bool" where
  "no_codecs c \<longleftrightarrow> cp_video c = None \<and> cp_audio c = None"

text \<open>The start function of \<open>Mux\<close>, which the lifecycle manager runs once.\<close>

definition HLS_Mux :: "codec_pair \<Rightarrow> ('p hls_muxer, unit) op" where
  "HLS_Mux c m = (if no_codecs c then (Inl (Error ''no codec data''), m)
     else case fmp4_Mux c of Inl e \<Rightarrow> (Inl e, m)
     | Inr _ \<Rightarrow> (Inr (), (new_segment False 0 (m\<lparr>mx_codecPars := c, mx_initVersion := 0, mx_initCache := (mx_initCache m)(0 \<mapsto> c)\<rparr>))
         \<lparr>mx_manifestDirty := True\<rparr>))"

text \<open>The forced end of the current segment: its open fragment is emptied and closed.\<close>

definition force_close :: "'p segment \<Rightarrow> 'p segment" where
  "force_close s = (let f = curFragment s;
       s = (if fr_finished f then s else set_curFragment (f\<lparr>fr_duration := 0, fr_finished := True\<rparr>) s)
     in if sg_finished s then s
        else s\<lparr>sg_entry := (if 0 < sg_duration s then full_entry s else sg_entry s), sg_finished := True\<rparr>)"

definition UpdateCodecParameters :: "codec_pair \<Rightarrow> ('p hls_muxer, unit) op" where
  "UpdateCodecParameters c = (if no_codecs c then sfail (Error ''no codec data'')
     else sbind getCurSegment (\<lambda>s m.
       let m = put_segment (force_close s) m;
           v = mx_initVersion m + 1;
           m = m\<lparr>mx_codecPars := c, mx_initVersion := v, mx_initCache := (mx_initCache m)(v \<mapsto> c)\<rparr>;
           m = new_segment True (sg_id s + 1) m
       in (Inr (), publish (evictOldSegments (m\<lparr>mx_gateOpen := False\<rparr>)))))"

definition canOpenTimelineEpoch :: "'p hls_muxer \<Rightarrow> 'p hls_packet \<Rightarrow> bool" where
  "canOpenTimelineEpoch m p \<longleftrightarrow> cp_video (mx_codecPars m) = None \<or> hk_video p \<and> hk_key p"

text \<open>Close the current segment and open the next one.\<close>

definition next_segment :: "bool \<Rightarrow> ('p hls_muxer, unit) op" where
  "next_segment disc = sbind getCurSegment (\<lambda>s m. case closeSeg s of Inl e \<Rightarrow> (Inl e, m)
     | Inr s' \<Rightarrow> (Inr (), (evictOldSegments (new_segment disc (sg_id s + 1) (put_segment s' m)))\<lparr>mx_manifestDirty := True\<rparr>))"

definition startDiscontinuitySegment :: "('p hls_muxer, unit) op" where
  "startDiscontinuitySegment = next_segment True"

text \<open>The packet with its time in the current epoch.\<close>

definition HLS_epoch :: "'p hls_packet \<Rightarrow> ('p hls_muxer, 'p hls_packet) op" where
  "HLS_epoch p m = (let ts = hk_ts p - mx_tsOffset m in
     if mx_maxTS m \<le> ts \<and> canOpenTimelineEpoch m p
     then sbind startDiscontinuitySegment (\<lambda>_. sret (p\<lparr>hk_ts := 0\<rparr>)) (m\<lparr>mx_tsOffset := mx_tsOffset m + ts\<rparr>)
     else (Inr (p\<lparr>hk_ts := max 0 ts\<rparr>), m))"

definition must_rotate :: "'p hls_muxer \<Rightarrow> 'p segment \<Rightarrow> 'p hls_packet \<Rightarrow> bool \<times> bool" where
  "must_rotate m s p =
     (let projected = sg_duration s + fr_duration (curFragment s) + hk_dur p;
          hasContent = (0 < sg_duration s \<or> 0 < fr_duration (curFragment s))
      in if mx_keyframeSplit m
         then if hk_key p \<and> mx_segmentDuration m \<le> sg_duration s then (True, False)
              else if 0 < mx_maxSegmentDuration m \<and> hasContent \<and> mx_maxSegmentDuration m < projected then (True, True)
              else (False, False)
         else (hasContent \<and> mx_segmentDuration m < projected, False))"

definition see_cap :: "bool \<Rightarrow> 'p hls_muxer \<Rightarrow> 'p hls_muxer" where
  "see_cap cap m = (if cap \<and> \<not> mx_capSplitSeen m
     then let m = m\<lparr>mx_capSplitSeen := True\<rparr> in m\<lparr>mx_header := buildHeader m\<rparr> else m)"

definition HLS_rotate :: "'p hls_packet \<Rightarrow> ('p hls_muxer, unit) op" where
  "HLS_rotate p = (if \<not> hk_video p then sret ()
     else sbind getCurSegment (\<lambda>s m. case must_rotate m s p of (due, cap) \<Rightarrow>
       if due then next_segment False (see_cap cap m) else (Inr (), m)))"

definition HLS_append :: "'p hls_packet \<Rightarrow> ('p hls_muxer, bool) op" where
  "HLS_append p = sbind getCurSegment (\<lambda>s m. case segment_writePacket p s of Inl e \<Rightarrow> (Inl e, m)
     | Inr (s', changed) \<Rightarrow> (Inr changed, (put_segment s' m)\<lparr>mx_calls := mx_calls m @ [Retained p]\<rparr>))"

definition HLS_refresh :: "'p hls_packet \<Rightarrow> bool \<Rightarrow> 'p hls_muxer \<Rightarrow> 'p hls_muxer" where
  "HLS_refresh p changed m =
     (if \<not> hk_video p then m
      else let m = m\<lparr>mx_manifestDirty := mx_manifestDirty m \<or> changed\<rparr> in
        if \<not> mx_manifestDirty m then m else publish (m\<lparr>mx_manifestDirty := False\<rparr>))"

definition HLS_WritePacket :: "'p hls_packet option \<Rightarrow> ('p hls_muxer, unit) op" where
  "HLS_WritePacket inp m = (case inp of None \<Rightarrow> (Inl (Error ''nil packet''), m) | Some p \<Rightarrow>
     if mx_keyframeSplit m \<and> \<not> mx_gateOpen m \<and> \<not> canOpenTimelineEpoch m p then (Inr (), m)
     else sbind (HLS_epoch p) (\<lambda>p. sbind (HLS_rotate p) (\<lambda>_. sbind (HLS_append p) (\<lambda>changed m. (Inr (), HLS_refresh p changed m))))
       (if mx_keyframeSplit m then m\<lparr>mx_gateOpen := True\<rparr> else m))"

text \<open>Which of the segments of a map is released first is not determined; here the oldest.\<close>

definition HLS_Release :: "'p hls_muxer \<Rightarrow> 'p hls_muxer" where
  "HLS_Release m = m\<lparr>mx_segments := (\<lambda>_. None), mx_segIDs := [], mx_calls := mx_calls m @
     concat (map (\<lambda>i. case mx_segments m i of None \<Rightarrow> [] | Some s \<Rightarrow> map Released (snd (segment_release s))) (mx_segIDs m))\<rparr>"

section \<open>muxer.go: requests\<close>

definition HLS_GetSegment :: "'p mp4_writer \<Rightarrow> nat \<Rightarrow> ('p hls_muxer, bytes reply) op" where
  "HLS_GetSegment mp4 i m = (case mx_segments m i of None \<Rightarrow> (Inl (Error ''segment not found''), m)
     | Some s \<Rightarrow> if \<not> sg_finished s then (Inr Blocked, m)
       else (case segment_getMp4Buffer mp4 s of (None, s') \<Rightarrow> (Inl (Error ''segment expired''), put_segment s' m)
         | (Some b, s') \<Rightarrow> (Inr (Reply b), put_segment s' m)))"

definition HLS_GetFragment :: "'p mp4_writer \<Rightarrow> nat \<Rightarrow> byte \<Rightarrow> ('p hls_muxer, bytes reply) op" where
  "HLS_GetFragment mp4 i k m = (case mx_segments m i of None \<Rightarrow> (Inl (Error ''segment not found''), m)
     | Some s \<Rightarrow> if \<not> waitFragment k s then (Inr Blocked, m)
       else (case getFragment mp4 k s of (Blocked, _) \<Rightarrow> (Inr Blocked, m)
         | (Reply None, _) \<Rightarrow> (Inl (Error ''fragment expired''), m)
         | (Reply (Some b), s') \<Rightarrow> (case b of None \<Rightarrow> Inl (Error ''fragment not found'')
             | Some b \<Rightarrow> if b = [] then Inl (Error ''fragment not found'') else Inr (Reply b), put_segment s' m)))"

text \<open>
  Whether \<open>waitForSegmentOrPart\<close> returns; after it \<open>GetIndexM3u8\<close> waits for a broadcast that
  comes after its call, whatever the playlist holds by then.
\<close>

definition waitForSegmentOrPart :: "nat \<Rightarrow> int \<Rightarrow> ('p hls_muxer, unit reply) op" where
  "waitForSegmentOrPart i part = sbind getCurSegment (\<lambda>s. sret
     (if i < sg_id s \<or> sg_id s = i \<and> (part < 0 \<or> waitFragment (word_of_int part) s) then Reply () else Blocked))"

definition GetIndexM3u8 :: "nat \<Rightarrow> int \<Rightarrow> int \<Rightarrow> ('p hls_muxer, playlist option reply) op" where
  "GetIndexM3u8 seen needSeg needPart =
     (if needSeg < 0 then (\<lambda>m. (Inr (Reply (mx_manifest m)), m))
      else sbind (waitForSegmentOrPart (nat needSeg) needPart) (\<lambda>r m. (Inr (case r of Blocked \<Rightarrow> Blocked
        | Reply _ \<Rightarrow> if seen < mx_broadcasts m then Reply (mx_manifest m) else Blocked), m)))"

definition GetInitByVersion :: "(codec_pair \<Rightarrow> bytes) \<Rightarrow> nat \<Rightarrow> ('p hls_muxer, bytes) op" where
  "GetInitByVersion init v m = (case mx_initBytesCache m v of Some b \<Rightarrow> (Inr b, m)
     | None \<Rightarrow> (case mx_initCache m v of None \<Rightarrow> (Inl (Error ''init version not found''), m)
         | Some c \<Rightarrow> (case fmp4_Mux c of Inl e \<Rightarrow> (Inl e, m)
             | Inr _ \<Rightarrow> if init c = [] then (Inl (Error ''empty init buffer''), m)
               else (Inr (init c), m\<lparr>mx_initBytesCache := (mx_initBytesCache m)(v \<mapsto> init c)\<rparr>))))"

text \<open>The bandwidth placeholder is a tenth of a bit per pixel, a float product that truncates to the
  quotient for every real resolution.\<close>

definition masterEntryBandwidth :: "64 word \<Rightarrow> 64 word \<Rightarrow> 64 word \<Rightarrow> 64 word \<Rightarrow> nat" where
  "masterEntryBandwidth bitrate w h fps = (if 0 < bitrate then unat bitrate
     else unat (w * h * (if fps = 0 then 25 else fps)) div 10)"

record master_entry =
  me_bandwidth :: nat
  me_resolution :: "64 word \<times> 64 word"
  me_codecs :: "string list"
  me_frameRate :: "64 word option"

definition GetMasterEntry :: "'p hls_muxer \<Rightarrow> master_entry res" where
  "GetMasterEntry m = (case cp_video (mx_codecPars m) of None \<Rightarrow> Inl (Error ''no video codec'')
     | Some v \<Rightarrow> Inr \<lparr>me_bandwidth = masterEntryBandwidth (vi_Bitrate v) (vi_Width v) (vi_Height v) (vi_FPS v),
         me_resolution = (vi_Width v, vi_Height v),
         me_codecs = vi_Tag v # (case cp_audio (mx_codecPars m) of None \<Rightarrow> [] | Some a \<Rightarrow> [ai_Tag a]),
         me_frameRate = (if 0 < vi_FPS v then Some (vi_FPS v) else None)\<rparr>)"

end
