(* ===== verification/HlsWindow.thy ===== *)
theory HlsWindow
  imports Hls
begin

text \<open>
  The invariants of the HLS muxer and its refinement to a sliding window: the map of segments and
  the list of their numbers are one list of segments, to which the muxer appends and from whose
  front it evicts.
\<close>

section \<open>Segments keep their shape\<close>

definition closed_duration :: "'p fragment list \<Rightarrow> int" where
  "closed_duration fs = (\<Sum>f\<leftarrow>filter fr_finished fs. fr_duration f)"

definition fragments_ok :: "'p segment \<Rightarrow> bool" where
  "fragments_ok s \<longleftrightarrow> sg_fragments s \<noteq> [] \<and> list_all fr_finished (butlast (sg_fragments s)) \<and>
     map fr_id (sg_fragments s) = map word_of_nat [0..<length (sg_fragments s)] \<and>
     sg_duration s = closed_duration (sg_fragments s)"

definition segment_ok :: "'p segment \<Rightarrow> bool" where
  "segment_ok s \<longleftrightarrow> fragments_ok s \<and> \<not> sg_released s \<and> sg_finished s = fr_finished (curFragment s)"

text \<open>What the muxer relies on when a segment changes.\<close>

definition same_segment :: "'p segment \<Rightarrow> 'p segment \<Rightarrow> bool" where
  "same_segment s t \<longleftrightarrow> sg_id t = sg_id s \<and> sg_codecPars t = sg_codecPars s \<and> sg_initVersion t = sg_initVersion s \<and>
     sg_discontinuity t = sg_discontinuity s \<and> segment_ok t"

lemma segment_ok_snoc:
  "segment_ok s \<longleftrightarrow> (\<exists>fs f. sg_fragments s = fs @ [f] \<and> list_all fr_finished fs \<and>
     map fr_id (fs @ [f]) = map word_of_nat [0..<Suc (length fs)] \<and>
     sg_duration s = closed_duration (fs @ [f]) \<and> \<not> sg_released s \<and> sg_finished s = fr_finished f)"
proof (cases "sg_fragments s" rule: rev_cases)
  case Nil
  then show ?thesis by (simp add: segment_ok_def fragments_ok_def)
next
  case (snoc fs f)
  then show ?thesis by (auto simp: segment_ok_def fragments_ok_def curFragment_def)
qed

lemma segment_okE:
  assumes "segment_ok s"
  obtains fs f where "sg_fragments s = fs @ [f]" and "list_all fr_finished fs"
    and "map fr_id (fs @ [f]) = map word_of_nat [0..<Suc (length fs)]"
    and "sg_duration s = closed_duration (fs @ [f])" and "\<not> sg_released s" and "sg_finished s = fr_finished f"
    and "curFragment s = f"
  using assms unfolding segment_ok_snoc by (auto simp: curFragment_def)

lemma closed_duration_snoc: "closed_duration (fs @ [f]) = closed_duration fs + (if fr_finished f then fr_duration f else 0)"
  by (simp add: closed_duration_def)

lemma new_segment_ok [simp]:
  "segment_ok ((newSegment i a b c)\<lparr>sg_discontinuity := d, sg_initVersion := v\<rparr>)"
  "segment_packets ((newSegment i a b c)\<lparr>sg_discontinuity := d, sg_initVersion := v\<rparr>) = []"
  by (simp_all add: segment_ok_def fragments_ok_def newSegment_def newFragment_def curFragment_def closed_duration_def
      segment_packets_def)

lemma new_segment_fields [simp]:
  "sg_id (newSegment i a b c) = i" "sg_finished (newSegment i a b c) = False" "sg_codecPars (newSegment i a b c) = c"
  "sg_duration (newSegment i a b c) = 0"
  by (simp_all add: newSegment_def)

lemma fragment_write:
  assumes "\<not> fr_finished f"
  shows "\<exists>g. fragment_writePacket p f = Inr g \<and> fr_id g = fr_id f \<and> fr_packets g = fr_packets f @ [p]"
  using assms by (auto simp: fragment_writePacket_def fragment_close_def Let_def)

lemma segment_write:
  fixes s :: "'a segment"
  assumes "segment_ok s" and "\<not> sg_finished s"
  shows "\<exists>t ch. segment_writePacket p s = Inr (t, ch) \<and> same_segment s t \<and> \<not> sg_finished t \<and>
    segment_packets t = segment_packets s @ [p]"
proof -
  from assms obtain fs f where s: "sg_fragments s = fs @ [f]" "list_all fr_finished fs"
    "map fr_id (fs @ [f]) = map word_of_nat [0..<Suc (length fs)]"
    "sg_duration s = closed_duration (fs @ [f])" "\<not> sg_released s" "\<not> fr_finished f" "curFragment s = f"
    by (auto elim!: segment_okE)
  from fragment_write [OF s(6), of p] obtain g where
    g: "fragment_writePacket p f = Inr g" "fr_id g = fr_id f" "fr_packets g = fr_packets f @ [p]" by blast
  show ?thesis
  proof (cases "fr_finished g")
    case True
    let ?h = "newFragment (fr_id g + 1) (sg_id s) (sg_targetFragDuration s) (sg_codecPars s) :: 'a fragment"
    let ?t = "s\<lparr>sg_duration := sg_duration s + fr_duration g, sg_cacheEntry := sg_cacheEntry s @ fr_entry g,
      sg_fragments := fs @ [g, ?h], sg_entry := (sg_cacheEntry s @ fr_entry g) @ fr_entry ?h\<rparr>"
    have "fr_id f = word_of_nat (length fs)" using s(3) by simp
    then have "map fr_id (fs @ [g, ?h]) = map word_of_nat [0..<Suc (Suc (length fs))]"
      using s(3) g(2) by (simp add: newFragment_def)
    with True s assms(2) have "segment_ok ?t"
      unfolding segment_ok_snoc by (intro exI [of _ "fs @ [g]"] exI [of _ ?h])
        (simp add: closed_duration_def newFragment_def)
    moreover have "segment_writePacket p s = Inr (?t, True)"
      using True s(1,7) g(1) by (simp add: segment_writePacket_def set_curFragment_def account_def Let_def)
    ultimately show ?thesis
      using assms(2) s(1) g(3) by (auto simp: same_segment_def segment_packets_def newFragment_def)
  next
    case False
    let ?t = "s\<lparr>sg_fragments := fs @ [g]\<rparr>"
    have "segment_ok ?t" unfolding segment_ok_snoc using False s g(2) assms(2)
      by (intro exI [of _ fs] exI [of _ g]) (simp add: closed_duration_def)
    moreover have "segment_writePacket p s = Inr (?t, False)"
      using False s(1,7) g(1) by (simp add: segment_writePacket_def set_curFragment_def Let_def)
    ultimately show ?thesis using assms(2) s(1) g(3) by (auto simp: same_segment_def segment_packets_def)
  qed
qed

lemma segment_closed:
  assumes "segment_ok s" and "\<not> sg_finished s"
  shows "\<exists>t. closeSeg s = Inr t \<and> same_segment s t \<and> sg_finished t \<and> segment_packets t = segment_packets s"
proof -
  from assms obtain fs f where s: "sg_fragments s = fs @ [f]" "list_all fr_finished fs"
    "map fr_id (fs @ [f]) = map word_of_nat [0..<Suc (length fs)]"
    "sg_duration s = closed_duration (fs @ [f])" "\<not> sg_released s" "\<not> fr_finished f" "curFragment s = f"
    by (auto elim!: segment_okE)
  show ?thesis
  proof (cases "0 < fr_duration f")
    case True
    let ?f = "f\<lparr>fr_entry := [Part (fr_duration f) (fr_independent f) (fr_segID f) (fr_id f)], fr_finished := True\<rparr>"
    let ?s = "account ?f (set_curFragment ?f s)"
    let ?t = "?s\<lparr>sg_entry := full_entry ?s, sg_finished := True\<rparr>"
    have "segment_ok ?t" unfolding segment_ok_snoc using s assms(2)
      by (intro exI [of _ fs] exI [of _ ?f]) (simp add: closed_duration_def account_def set_curFragment_def)
    moreover have "closeSeg s = Inr ?t" using True s assms(2)
      by (simp add: closeSeg_def fragment_close_def segment_close_def account_def set_curFragment_def Let_def)
    ultimately show ?thesis using s(1)
      by (simp add: same_segment_def segment_packets_def account_def set_curFragment_def)
  next
    case False
    let ?f = "f\<lparr>fr_duration := 0, fr_finished := True\<rparr>"
    let ?s = "set_curFragment ?f s"
    let ?t = "?s\<lparr>sg_entry := full_entry ?s, sg_finished := True\<rparr>"
    have "segment_ok ?t" unfolding segment_ok_snoc using s assms(2)
      by (intro exI [of _ fs] exI [of _ ?f]) (simp add: closed_duration_def set_curFragment_def)
    moreover have "closeSeg s = Inr ?t" using False s assms(2)
      by (simp add: closeSeg_def segment_close_def set_curFragment_def Let_def)
    ultimately show ?thesis using s(1) by (simp add: same_segment_def segment_packets_def set_curFragment_def)
  qed
qed

lemma segment_forced:
  assumes "segment_ok s"
  shows "same_segment s (force_close s) \<and> sg_finished (force_close s) \<and> segment_packets (force_close s) = segment_packets s"
proof -
  from assms obtain fs f where s: "sg_fragments s = fs @ [f]" "list_all fr_finished fs"
    "map fr_id (fs @ [f]) = map word_of_nat [0..<Suc (length fs)]"
    "sg_duration s = closed_duration (fs @ [f])" "\<not> sg_released s" "sg_finished s = fr_finished f" "curFragment s = f"
    by (auto elim!: segment_okE)
  show ?thesis
  proof (cases "fr_finished f")
    case True
    with s assms show ?thesis by (simp add: force_close_def same_segment_def Let_def)
  next
    case False
    let ?f = "f\<lparr>fr_duration := 0, fr_finished := True\<rparr>"
    have "segment_ok (force_close s)" unfolding segment_ok_snoc using s False
      by (intro exI [of _ fs] exI [of _ ?f]) (simp add: closed_duration_def force_close_def set_curFragment_def Let_def)
    with s False show ?thesis
      by (simp add: same_segment_def segment_packets_def force_close_def set_curFragment_def Let_def)
  qed
qed

lemma segment_mp4:
  assumes "segment_ok s"
  shows "same_segment s (snd (segment_getMp4Buffer mp4 s)) \<and>
    sg_finished (snd (segment_getMp4Buffer mp4 s)) = sg_finished s \<and>
    segment_packets (snd (segment_getMp4Buffer mp4 s)) = segment_packets s"
  using assms
  by (auto simp: segment_getMp4Buffer_def same_segment_def segment_packets_def segment_ok_def fragments_ok_def
      curFragment_def Let_def split: sum.splits)

lemma generateMp4_frame:
  "fr_id (generateMp4 mp4 f) = fr_id f" "fr_packets (generateMp4 mp4 f) = fr_packets f"
  "fr_finished (generateMp4 mp4 f) = fr_finished f" "fr_duration (generateMp4 mp4 f) = fr_duration f"
  by (simp_all add: generateMp4_def split: sum.splits)

lemma list_update_map_id: "k < length xs \<Longrightarrow> g y = g (xs ! k) \<Longrightarrow> map g (xs[k := y]) = map g xs"
  by (metis list_update_id map_update nth_map)

lemma segment_ok_cong:
  assumes "map fr_finished (sg_fragments t) = map fr_finished (sg_fragments s)"
    and "map fr_id (sg_fragments t) = map fr_id (sg_fragments s)"
    and "closed_duration (sg_fragments t) = closed_duration (sg_fragments s)"
    and "sg_duration t = sg_duration s" "sg_released t = sg_released s" "sg_finished t = sg_finished s"
  shows "segment_ok t = segment_ok s"
proof -
  have l: "length (sg_fragments t) = length (sg_fragments s)" using assms(1) by (rule map_eq_imp_length_eq)
  then have n: "sg_fragments t = [] \<longleftrightarrow> sg_fragments s = []" by (metis length_0_conv)
  have "list_all fr_finished (butlast fs) \<longleftrightarrow> list_all id (butlast (map fr_finished fs))" for fs :: "'x fragment list"
    by (simp add: map_butlast [symmetric] list_all_iff)
  then have "list_all fr_finished (butlast (sg_fragments t)) = list_all fr_finished (butlast (sg_fragments s))"
    using assms(1) by metis
  moreover have "fr_finished (curFragment t) = fr_finished (curFragment s)" if "sg_fragments s \<noteq> []"
    using that n assms(1) by (metis curFragment_def last_map)
  ultimately show ?thesis using assms(2-) n l by (auto simp: segment_ok_def fragments_ok_def)
qed

lemma getFragment_change:
  "snd (getFragment mp4 i s) = s \<or> i < word_of_nat (length (sg_fragments s)) \<and> snd (getFragment mp4 i s) =
     s\<lparr>sg_fragments := (sg_fragments s)[unat i := generateMp4 mp4 (sg_fragments s ! unat i)]\<rparr>"
  unfolding getFragment_def Let_def not_less [symmetric] by simp

lemma segment_fragment:
  assumes "segment_ok s"
  shows "same_segment s (snd (getFragment mp4 i s)) \<and> sg_finished (snd (getFragment mp4 i s)) = sg_finished s \<and>
    segment_packets (snd (getFragment mp4 i s)) = segment_packets s"
proof (cases "snd (getFragment mp4 i s) = s")
  case True
  with assms show ?thesis by (simp add: same_segment_def)
next
  case False
  let ?k = "unat i" and ?fs = "sg_fragments s"
  let ?g = "generateMp4 mp4 (?fs ! ?k)"
  have i: "i < word_of_nat (length ?fs)"
    and t: "snd (getFragment mp4 i s) = s\<lparr>sg_fragments := ?fs[?k := ?g]\<rparr>"
    using False getFragment_change [of mp4 i s] by blast+
  have "unat (word_of_nat (length ?fs) :: byte) \<le> length ?fs" by (simp add: unat_of_nat take_bit_eq_mod)
  with i have k: "?k < length ?fs" by (simp add: word_less_nat_alt)
  have d: "map (\<lambda>f. (fr_finished f, fr_duration f)) (?fs[?k := ?g]) = map (\<lambda>f. (fr_finished f, fr_duration f)) ?fs"
    using k by (intro list_update_map_id) (simp_all add: generateMp4_frame)
  have filt: "closed_duration fs = sum_list (map snd (filter fst (map (\<lambda>f. (fr_finished f, fr_duration f)) fs)))"
    for fs :: "'a fragment list"
    by (simp add: closed_duration_def filter_map o_def)
  have m: "map fr_finished (?fs[?k := ?g]) = map fr_finished ?fs" "map fr_id (?fs[?k := ?g]) = map fr_id ?fs"
    "map fr_packets (?fs[?k := ?g]) = map fr_packets ?fs" "closed_duration (?fs[?k := ?g]) = closed_duration ?fs"
    using k by (simp_all add: list_update_map_id generateMp4_frame filt d)
  have "segment_ok (s\<lparr>sg_fragments := ?fs[?k := ?g]\<rparr>) = segment_ok s"
    by (rule segment_ok_cong) (simp_all add: m)
  with assms m(3) show ?thesis unfolding t by (simp add: same_segment_def segment_packets_def)
qed

section \<open>The window of segments\<close>

text \<open>The segments in the order of their numbers, the first of which is the media sequence.\<close>

definition window :: "'p hls_muxer \<Rightarrow> 'p segment list" where
  "window m = map (\<lambda>i. the (mx_segments m i)) (mx_segIDs m)"

fun consecutive :: "nat \<Rightarrow> nat list \<Rightarrow> bool" where
  "consecutive b [] = True"
| "consecutive b (i # is) \<longleftrightarrow> i = b \<and> consecutive (Suc b) is"

lemma consecutive_snoc: "consecutive b (is @ [i]) \<longleftrightarrow> consecutive b is \<and> i = b + length is"
  by (induction b "is" rule: consecutive.induct) auto

lemma consecutive_nth: "consecutive b is \<Longrightarrow> k < length is \<Longrightarrow> is ! k = b + k"
  by (induction b "is" arbitrary: k rule: consecutive.induct) (auto simp: nth_Cons split: nat.splits)

lemma consecutive_mem: "consecutive b is \<Longrightarrow> i \<in> set is \<longleftrightarrow> b \<le> i \<and> i < b + length is"
  by (induction b "is" rule: consecutive.induct) auto

definition window_ok :: "'p hls_muxer \<Rightarrow> bool" where
  "window_ok m \<longleftrightarrow> 0 \<le> mx_mediaSequence m \<and> consecutive (nat (mx_mediaSequence m)) (mx_segIDs m) \<and>
     dom (mx_segments m) = set (mx_segIDs m) \<and> (\<forall>i s. mx_segments m i = Some s \<longrightarrow> sg_id s = i)"

lemma length_window [simp]: "length (window m) = length (mx_segIDs m)"
  by (simp add: window_def)

lemma window_id:
  assumes "window_ok m" and "k < length (window m)"
  shows "mx_segIDs m ! k = nat (mx_mediaSequence m) + k" and "mx_segments m (nat (mx_mediaSequence m) + k) = Some (window m ! k)"
    and "sg_id (window m ! k) = nat (mx_mediaSequence m) + k"
proof -
  let ?i = "nat (mx_mediaSequence m) + k"
  show i: "mx_segIDs m ! k = ?i" using assms by (intro consecutive_nth) (simp_all add: window_ok_def)
  have "?i \<in> dom (mx_segments m)" using assms i by (metis length_window nth_mem window_ok_def)
  then obtain s where s: "mx_segments m ?i = Some s" by blast
  moreover have "window m ! k = the (mx_segments m ?i)" using assms(2) i by (simp add: window_def)
  ultimately show "mx_segments m ?i = Some (window m ! k)" "sg_id (window m ! k) = ?i"
    using assms(1) by (simp_all add: window_ok_def)
qed

lemma window_Nil: "window m = [] \<longleftrightarrow> mx_segIDs m = []"
  by (simp add: window_def)

lemma getCur:
  assumes "window_ok m" and "window m \<noteq> []"
  shows "getCurSegment m = (Inr (last (window m)), m)"
proof -
  let ?k = "length (window m) - 1"
  have "?k < length (window m)" using assms(2) by (cases "window m") simp_all
  from window_id [OF assms(1) this] assms(2) show ?thesis
    by (simp add: getCurSegment_def window_Nil last_conv_nth)
qed

lemma add_window:
  assumes "window_ok m" and "sg_id s = nat (mx_mediaSequence m) + length (window m)"
  shows "window_ok (addSegment s m) \<and> window (addSegment s m) = window m @ [s]"
proof -
  have fresh: "sg_id s \<notin> set (mx_segIDs m)"
    using assms consecutive_mem [of "nat (mx_mediaSequence m)" "mx_segIDs m" "sg_id s"] by (simp add: window_ok_def)
  then have "window (addSegment s m) = window m @ [s]" by (auto simp: window_def addSegment_def)
  with assms show ?thesis by (auto simp: window_ok_def addSegment_def consecutive_snoc)
qed

lemma put_window:
  assumes "window_ok m" and "k < length (window m)" and "sg_id s = nat (mx_mediaSequence m) + k"
  shows "window_ok (put_segment s m) \<and> window (put_segment s m) = (window m)[k := s]"
proof -
  have "window (put_segment s m) = (window m)[k := s]"
  proof (rule nth_equalityI)
    fix j assume "j < length (window (put_segment s m))"
    then have j: "j < length (window m)" by (simp add: put_segment_def)
    with window_id(1) [OF assms(1) j] assms(3) show "window (put_segment s m) ! j = (window m)[k := s] ! j"
      by (auto simp: window_def put_segment_def nth_list_update)
  qed (simp add: put_segment_def)
  moreover have "sg_id s \<in> set (mx_segIDs m)" unfolding assms(3) using window_id(1) [OF assms(1,2)] assms(2)
    by (metis length_window nth_mem)
  ultimately show ?thesis using assms(1) by (auto simp: window_ok_def put_segment_def)
qed

lemma put_cur:
  assumes "window_ok m" and "window m = W @ [s]" and "sg_id t = sg_id s"
  shows "window_ok (put_segment t m) \<and> window (put_segment t m) = W @ [t]"
proof -
  have l: "length W < length (window m)" by (simp add: assms(2) del: length_window)
  have "sg_id t = nat (mx_mediaSequence m) + length W"
    using window_id(3) [OF assms(1) l] assms(2,3) by simp
  with put_window [OF assms(1) l, of t] assms(2) show ?thesis by simp
qed

lemma evict_window:
  assumes "window_ok m" and "window m = s # W"
  shows "window_ok (evictOldest m) \<and> window (evictOldest m) = W \<and> mx_mediaSequence (evictOldest m) = mx_mediaSequence m + 1"
proof -
  let ?b = "nat (mx_mediaSequence m)"
  obtain i "is" where c: "mx_segIDs m = i # is" using assms(2) by (cases "mx_segIDs m") (simp_all add: window_def)
  have ib: "i = ?b" "consecutive (Suc ?b) is" using assms(1) c by (simp_all add: window_ok_def)
  have "i \<notin> set is" using consecutive_mem [OF ib(2), of i] ib(1) by simp
  have s: "mx_segments m i = Some s" "W = map (\<lambda>i. the (mx_segments m i)) is"
    using window_id(2) [OF assms(1), of 0] assms(2) c ib(1) by (simp_all add: window_def)
  then have ms: "mx_mediaSequence (evictOldest m) = mx_mediaSequence m + 1"
    and segs: "mx_segments (evictOldest m) = (mx_segments m)(i := None)"
    using c by (simp_all add: evictOldest_def removeSegment_def Let_def)
  have w: "window (evictOldest m) = W"
    unfolding window_def segIDs_evictOldest c segs s(2) using \<open>i \<notin> set is\<close> by auto
  have pos: "0 \<le> mx_mediaSequence m" "dom (mx_segments m) = insert i (set is)"
    "\<forall>i s. mx_segments m i = Some s \<longrightarrow> sg_id s = i" using assms(1) c by (simp_all add: window_ok_def)
  have "nat (mx_mediaSequence m + 1) = Suc ?b" using pos(1) by simp
  then have "window_ok (evictOldest m)"
    unfolding window_ok_def segIDs_evictOldest ms segs c using pos ib \<open>i \<notin> set is\<close> by auto
  with w ms show ?thesis by simp
qed

text \<open>
  The interface of a queue whose elements are numbered from a base: what the muxer's eviction
  provides and what its callers need of repeated eviction.
\<close>

locale numbered_queue =
  fixes valid :: "'s \<Rightarrow> bool" and items :: "'s \<Rightarrow> 'x list" and base :: "'s \<Rightarrow> int" and evict :: "'s \<Rightarrow> 's"
  assumes evict_first: "valid s \<Longrightarrow> items s = x # xs \<Longrightarrow>
    valid (evict s) \<and> items (evict s) = xs \<and> base (evict s) = base s + 1"
begin

lemma evict_many:
  "valid s \<Longrightarrow> k \<le> length (items s) \<Longrightarrow>
    valid ((evict ^^ k) s) \<and> items ((evict ^^ k) s) = drop k (items s) \<and> base ((evict ^^ k) s) = base s + int k"
proof (induction k)
  case (Suc k)
  then have k: "valid ((evict ^^ k) s)" "items ((evict ^^ k) s) = drop k (items s)" "base ((evict ^^ k) s) = base s + int k"
    by simp_all
  have "drop k (items s) = items s ! k # drop (Suc k) (items s)" using Suc.prems(2) by (simp add: Cons_nth_drop_Suc)
  with evict_first [OF k(1)] k show ?case by simp
qed simp

lemma number_kept:
  assumes "valid s" and "k \<le> i" and "i < length (items s)"
  shows "items ((evict ^^ k) s) ! (i - k) = items s ! i"
  using evict_many [OF assms(1), of k] assms(2,3) by simp

end

interpretation hq: numbered_queue window_ok window mx_mediaSequence evictOldest
  by unfold_locales (rule evict_window)

section \<open>Retained and released packets\<close>

fun retained :: "'p slot_call list \<Rightarrow> 'p hls_packet list" where
  "retained [] = []"
| "retained (Retained p # cs) = p # retained cs"
| "retained (Released p # cs) = retained cs"

fun released :: "'p slot_call list \<Rightarrow> 'p hls_packet list" where
  "released [] = []"
| "released (Retained p # cs) = released cs"
| "released (Released p # cs) = p # released cs"

lemma retained_append [simp]: "retained (cs @ ds) = retained cs @ retained ds"
  by (induction cs rule: retained.induct) simp_all

lemma released_append [simp]: "released (cs @ ds) = released cs @ released ds"
  by (induction cs rule: released.induct) simp_all

lemma calls_released [simp]: "retained (map Released ps) = []" "released (map Released ps) = ps"
  by (induction ps) simp_all

text \<open>Every packet retained and not yet released is held by exactly one segment of the window.\<close>

definition held :: "'p segment list \<Rightarrow> 'p hls_packet list" where
  "held W = concat (map segment_packets W)"

definition balanced :: "'p hls_muxer \<Rightarrow> bool" where
  "balanced m \<longleftrightarrow> mset (retained (mx_calls m)) = mset (released (mx_calls m)) + mset (held (window m))"

lemma held_simps [simp]: "held [] = []" "held (s # W) = segment_packets s @ held W" "held (V @ W) = held V @ held W"
  by (simp_all add: held_def)

section \<open>Eviction\<close>

text \<open>The fields that eviction leaves alone.\<close>

definition settings :: "'p hls_muxer \<Rightarrow> (byte \<times> int \<times> int \<times> int \<times> header \<times> codec_pair \<times> nat) \<times> bool \<times> int \<times> int \<times> bool \<times> int \<times> bool" where
  "settings m = ((mx_segmentCount m, mx_segmentDuration m, mx_fragmentDuration m, mx_maxTS m, mx_header m, mx_codecPars m, mx_initVersion m),
     mx_keyframeSplit m, mx_minPlaylistDuration m, mx_maxSegmentDuration m, mx_capSplitSeen m, mx_tsOffset m, mx_gateOpen m)"

lemma settings_evict [simp]: "settings (evictOldest m) = settings m" "mx_initCache (evictOldest m) = mx_initCache m"
  by (simp_all add: settings_def evictOldest_def removeSegment_def Let_def split: option.splits)

lemma evict_calls:
  assumes "window_ok m" and "window m = s # W" and "\<not> sg_released s"
  shows "mx_calls (evictOldest m) = mx_calls m @ map Released (segment_packets s)"
proof -
  have "mx_segments m (hd (mx_segIDs m)) = Some s"
    using window_id [OF assms(1), of 0] assms(2) by (cases "mx_segIDs m") (simp_all add: window_def)
  with assms(3) show ?thesis by (simp add: evictOldest_def removeSegment_def Let_def segment_release_def)
qed

lemma evict_balanced:
  assumes "window_ok m" and "window m = s # W" and "\<not> sg_released s" and "balanced m"
  shows "balanced (evictOldest m)"
  using assms(2,4) evict_calls [OF assms(1-3)] evict_window [OF assms(1,2)] by (simp add: balanced_def)

lemma evict_many_facts:
  assumes "window_ok m" and "k \<le> length (window m)" and "\<forall>s\<in>set (window m). \<not> sg_released s" and "balanced m"
  shows "balanced ((evictOldest ^^ k) m) \<and> settings ((evictOldest ^^ k) m) = settings m \<and>
    mx_initCache ((evictOldest ^^ k) m) = mx_initCache m"
  using assms(2)
proof (induction k)
  case (Suc k)
  then have k: "k < length (window m)" by simp
  let ?n = "(evictOldest ^^ k) m"
  have w: "window_ok ?n" "window ?n = window m ! k # drop (Suc k) (window m)"
    using hq.evict_many [OF assms(1), of k] k by (simp_all add: Cons_nth_drop_Suc)
  have "\<not> sg_released (window m ! k)" using assms(3) k by simp
  with evict_balanced [OF w] Suc k show ?case by simp
qed (simp add: assms(4))

lemma sum_window: "(\<Sum>i\<leftarrow>mx_segIDs m. seg_duration m i) = (\<Sum>s\<leftarrow>window m. sg_duration s)" if "window_ok m"
proof -
  have "seg_duration m i = sg_duration (the (mx_segments m i))" if "i \<in> set (mx_segIDs m)" for i
  proof -
    have "i \<in> dom (mx_segments m)" using that \<open>window_ok m\<close> by (simp add: window_ok_def)
    then show ?thesis by (auto simp: seg_duration_def)
  qed
  then have "map (seg_duration m) (mx_segIDs m) = map (\<lambda>i. sg_duration (the (mx_segments m i))) (mx_segIDs m)" by simp
  then show ?thesis by (simp only: window_def map_map o_def)
qed

lemma evictByCount_many:
  assumes "window_ok m" and "window m = W @ [s]" and "sg_duration s = 0" and "0 \<le> mx_segmentDuration m"
  shows "\<exists>k\<le>length W. evictByCount m = (evictOldest ^^ k) m"
  using assms
proof (induction m arbitrary: W rule: evictByCount.induct)
  case (1 m)
  let ?go = "unat (mx_segmentCount m) < length (mx_segIDs m) \<and> count_bound m < (\<Sum>i\<leftarrow>mx_segIDs m. seg_duration m i)"
  show ?case
  proof (cases ?go)
    case False
    then have "evictByCount m = m" by (subst evictByCount.simps) auto
    then show ?thesis by (intro exI [of _ 0]) simp
  next
    case True
    have "0 \<le> count_bound m" using "1.prems"(4) by (simp add: count_bound_def)
    with True "1.prems" sum_window [OF "1.prems"(1)] obtain r W' where W: "W = r # W'" by (cases W) auto
    have e: "window_ok (evictOldest m)" "window (evictOldest m) = W' @ [s]"
      using evict_window [OF "1.prems"(1), of r "W' @ [s]"] "1.prems"(2) W by simp_all
    have "mx_segmentDuration (evictOldest m) = mx_segmentDuration m"
      using settings_evict(1) [of m] unfolding settings_def prod.inject by blast
    with "1.IH" [OF _ _ e "1.prems"(3)] True "1.prems"(4) obtain k where
      "k \<le> length W'" "evictByCount (evictOldest m) = (evictOldest ^^ k) (evictOldest m)" by fastforce
    moreover have "evictByCount m = evictByCount (evictOldest m)"
      using True by (subst evictByCount.simps) simp
    ultimately show ?thesis using W by (intro exI [of _ "Suc k"]) (simp add: funpow_swap1)
  qed
qed

lemma evictByDuration_many:
  assumes "window_ok m" and "window m = W @ [s]"
  shows "\<exists>k\<le>length W. evictByDuration m = (evictOldest ^^ k) m"
  using assms
proof (induction m arbitrary: W rule: evictByDuration.induct)
  case (1 m)
  show ?case
  proof (cases "evictByDuration m = m")
    case True
    then show ?thesis by (intro exI [of _ 0]) simp
  next
    case False
    then obtain t where t: "2 < length (mx_segIDs m)" "mx_segments m (hd (mx_segIDs m)) = Some t"
      "\<not> (\<Sum>i\<leftarrow>butlast (mx_segIDs m). seg_duration m i) - sg_duration t < mx_minPlaylistDuration m"
      by (subst (asm) evictByDuration.simps) (auto split: if_splits option.splits)
    then have step: "evictByDuration m = evictByDuration (evictOldest m)"
      by (subst evictByDuration.simps) simp
    have "length (window m) = length (mx_segIDs m)" by simp
    then obtain r W' where W: "W = r # W'" using t(1) "1.prems"(2) by (cases W) auto
    have e: "window_ok (evictOldest m)" "window (evictOldest m) = W' @ [s]"
      using evict_window [OF "1.prems"(1), of r "W' @ [s]"] "1.prems"(2) W by simp_all
    from "1.IH" [OF _ t(2) _ e] t obtain k where
      "k \<le> length W'" "evictByDuration (evictOldest m) = (evictOldest ^^ k) (evictOldest m)" by fastforce
    with step W show ?thesis by (intro exI [of _ "Suc k"]) (simp add: funpow_swap1)
  qed
qed

lemma cleanup_frame:
  "window (cleanupInitCache m) = window m" "window_ok (cleanupInitCache m) = window_ok m"
  "settings (cleanupInitCache m) = settings m" "balanced (cleanupInitCache m) = balanced m"
  "mx_mediaSequence (cleanupInitCache m) = mx_mediaSequence m"
  by (simp_all add: cleanupInitCache_def window_def window_ok_def settings_def balanced_def)

lemma cleanup_keeps:
  assumes "window_ok m" and "s \<in> set (window m)"
  shows "mx_initCache (cleanupInitCache m) (sg_initVersion s) = mx_initCache m (sg_initVersion s)"
proof -
  obtain k where k: "k < length (window m)" "window m ! k = s" using assms(2) by (metis in_set_conv_nth)
  then have "mx_segments m (mx_segIDs m ! k) = Some s" using window_id(1,2) [OF assms(1) k(1)] by simp
  moreover have "mx_segIDs m ! k \<in> set (mx_segIDs m)" using k(1) by (metis length_window nth_mem)
  ultimately have "used_version m (sg_initVersion s)" unfolding used_version_def by force
  then show ?thesis by (simp add: cleanupInitCache_def)
qed

lemma evictOld:
  assumes "window_ok m" and "window m = W @ [s]" and "sg_duration s = 0" and "0 \<le> mx_segmentDuration m"
    and "\<forall>s\<in>set (window m). \<not> sg_released s" and "balanced m"
  shows "\<exists>k. k \<le> length W \<and> window_ok (evictOldSegments m) \<and> window (evictOldSegments m) = drop k W @ [s] \<and>
    settings (evictOldSegments m) = settings m \<and> balanced (evictOldSegments m) \<and>
    mx_mediaSequence (evictOldSegments m) = mx_mediaSequence m + int k \<and>
    (\<forall>t\<in>set (drop k W @ [s]). mx_initCache (evictOldSegments m) (sg_initVersion t) = mx_initCache m (sg_initVersion t))"
proof -
  have "\<exists>k\<le>length W. evictOldSegments m = cleanupInitCache ((evictOldest ^^ k) m)"
    unfolding evictOldSegments_def using evictByCount_many [OF assms(1-4)] evictByDuration_many [OF assms(1,2)]
    by (cases "0 < mx_minPlaylistDuration m") auto
  then obtain k where k: "k \<le> length W" "evictOldSegments m = cleanupInitCache ((evictOldest ^^ k) m)" by blast
  have le: "k \<le> length (window m)" using k(1) by (simp add: assms(2) del: length_window)
  have w: "window_ok ((evictOldest ^^ k) m)" "window ((evictOldest ^^ k) m) = drop k W @ [s]"
    "mx_mediaSequence ((evictOldest ^^ k) m) = mx_mediaSequence m + int k"
    using hq.evict_many [OF assms(1) le] k(1) assms(2) by simp_all
  show ?thesis
    using k(1) w evict_many_facts [OF assms(1) le assms(5,6)] cleanup_keeps [OF w(1)]
    by (intro exI [of _ k]) (simp add: k(2) cleanup_frame)
qed

section \<open>The invariant of the muxer\<close>

text \<open>The first packet of a segment of a stream with video is a key frame.\<close>

definition starts_key :: "'p segment \<Rightarrow> bool" where
  "starts_key s \<longleftrightarrow> cp_video (sg_codecPars s) = None \<or>
     (case segment_packets s of [] \<Rightarrow> True | p # _ \<Rightarrow> hk_video p \<and> hk_key p)"

definition independent :: "'p hls_muxer \<Rightarrow> bool" where
  "independent m \<longleftrightarrow> hd_independentSegments (mx_header m)"

text \<open>What holds of every segment of the playlist, and of the current one.\<close>

definition listed :: "'p hls_muxer \<Rightarrow> 'p segment \<Rightarrow> bool" where
  "listed m s \<longleftrightarrow> segment_ok s \<and> sg_initVersion s \<le> mx_initVersion m \<and>
     mx_initCache m (sg_initVersion s) = Some (sg_codecPars s) \<and> (independent m \<longrightarrow> starts_key s)"

definition current :: "'p hls_muxer \<Rightarrow> 'p segment \<Rightarrow> bool" where
  "current m s \<longleftrightarrow> listed m s \<and> \<not> sg_finished s \<and> sg_initVersion s = mx_initVersion m \<and> sg_codecPars s = mx_codecPars m"

definition base_ok :: "'p hls_muxer \<Rightarrow> bool" where
  "base_ok m \<longleftrightarrow> window_ok m \<and> balanced m \<and> 0 \<le> mx_segmentDuration m \<and>
     independent m = (mx_keyframeSplit m \<and> \<not> mx_capSplitSeen m)"

definition muxer_ok :: "'p hls_muxer \<Rightarrow> bool" where
  "muxer_ok m \<longleftrightarrow> base_ok m \<and> (\<exists>W s. window m = W @ [s] \<and> (\<forall>t\<in>set W. listed m t \<and> sg_finished t) \<and> current m s)"

text \<open>With the gate open the current segment has its key frame already.\<close>

definition opened :: "'p hls_muxer \<Rightarrow> bool" where
  "opened m \<longleftrightarrow> (independent m \<longrightarrow> mx_gateOpen m \<longrightarrow> segment_packets (last (window m)) \<noteq> [])"

definition admits :: "'p hls_muxer \<Rightarrow> 'p hls_packet \<Rightarrow> bool" where
  "admits m p \<longleftrightarrow> (independent m \<longrightarrow> segment_packets (last (window m)) \<noteq> [] \<or> canOpenTimelineEpoch m p)"

lemmas state_defs = base_ok_def window_ok_def balanced_def independent_def listed_def current_def window_def

lemma muxer_ok_update [simp]:
  "muxer_ok (m\<lparr>mx_manifestDirty := b\<rparr>) = muxer_ok m" "muxer_ok (m\<lparr>mx_gateOpen := b\<rparr>) = muxer_ok m"
  "muxer_ok (m\<lparr>mx_tsOffset := t\<rparr>) = muxer_ok m" "muxer_ok (publish m) = muxer_ok m"
  "muxer_ok (m\<lparr>mx_initBytesCache := h\<rparr>) = muxer_ok m"
  by (simp_all add: muxer_ok_def state_defs publish_def)

lemma window_update [simp]:
  "window (m\<lparr>mx_manifestDirty := b\<rparr>) = window m" "window (m\<lparr>mx_gateOpen := b\<rparr>) = window m"
  "window (m\<lparr>mx_tsOffset := t\<rparr>) = window m" "window (publish m) = window m"
  "window (m\<lparr>mx_initBytesCache := h\<rparr>) = window m"
  by (simp_all add: window_def publish_def)

lemma settings_eqD:
  assumes "settings n = settings m"
  shows "mx_segmentDuration n = mx_segmentDuration m" "mx_header n = mx_header m" "mx_codecPars n = mx_codecPars m"
    "mx_initVersion n = mx_initVersion m" "mx_keyframeSplit n = mx_keyframeSplit m" "mx_capSplitSeen n = mx_capSplitSeen m"
    "mx_gateOpen n = mx_gateOpen m" "independent n = independent m" "canOpenTimelineEpoch n p = canOpenTimelineEpoch m p"
  using assms by (simp_all add: settings_def independent_def canOpenTimelineEpoch_def)

lemma listed_cong:
  assumes "settings n = settings m" and "mx_initCache n (sg_initVersion s) = mx_initCache m (sg_initVersion s)"
  shows "listed n s = listed m s" and "current n s = current m s"
  using settings_eqD [OF assms(1)] assms(2) by (simp_all add: current_def listed_def)

lemma evict_ok:
  assumes "muxer_ok m" and "sg_duration (last (window m)) = 0"
  shows "muxer_ok (evictOldSegments m) \<and> settings (evictOldSegments m) = settings m \<and>
    last (window (evictOldSegments m)) = last (window m)"
proof -
  from assms(1) obtain W s where w: "window m = W @ [s]" "\<forall>t\<in>set W. listed m t \<and> sg_finished t" "current m s"
    and b: "base_ok m" by (auto simp: muxer_ok_def)
  let ?n = "evictOldSegments m"
  have "\<forall>t\<in>set (window m). \<not> sg_released t" using w by (auto simp: listed_def current_def segment_ok_def)
  note rel = this
  have d: "window_ok m" "balanced m" "0 \<le> mx_segmentDuration m" "sg_duration s = 0"
    using b w(1) assms(2) by (simp_all add: base_ok_def)
  obtain k where k: "k \<le> length W" "window_ok ?n" "window ?n = drop k W @ [s]" "settings ?n = settings m" "balanced ?n"
    "mx_mediaSequence ?n = mx_mediaSequence m + int k"
    "\<forall>t\<in>set (drop k W @ [s]). mx_initCache ?n (sg_initVersion t) = mx_initCache m (sg_initVersion t)"
    using evictOld [OF d(1) w(1) d(4,3) rel d(2)] by blast
  have "base_ok ?n" using b k(2,5) settings_eqD [OF k(4)] by (simp add: base_ok_def)
  moreover have "listed ?n t \<and> sg_finished t" if "t \<in> set (drop k W)" for t
  proof -
    have "t \<in> set W" using that by (rule in_set_dropD)
    with w(2) listed_cong(1) [OF k(4), of t] k(7) that show ?thesis by simp
  qed
  moreover have "current ?n s" using listed_cong(2) [OF k(4), of s] k(7) w(3) by simp
  ultimately show ?thesis using k(3,4) w(1) unfolding muxer_ok_def by auto
qed

lemma new_ok:
  assumes "base_ok m" and "\<forall>t\<in>set (window m). listed m t \<and> sg_finished t"
    and "mx_initCache m (mx_initVersion m) = Some (mx_codecPars m)"
    and "i = nat (mx_mediaSequence m) + length (window m)"
  shows "muxer_ok (new_segment d i m) \<and> settings (new_segment d i m) = settings m \<and>
    sg_duration (last (window (new_segment d i m))) = 0 \<and> segment_packets (last (window (new_segment d i m))) = []"
proof -
  let ?s = "(newSegment i (mx_fragmentDuration m) (mx_segmentDuration m) (mx_codecPars m))
     \<lparr>sg_discontinuity := d, sg_initVersion := mx_initVersion m\<rparr>"
  let ?n = "new_segment d i m"
  have n: "?n = addSegment ?s m" by (simp add: new_segment_def)
  have id: "sg_id ?s = nat (mx_mediaSequence m) + length (window m)" using assms(4) by simp
  have w: "window_ok ?n" "window ?n = window m @ [?s]"
    using add_window [OF _ id] assms(1) unfolding n by (simp_all add: base_ok_def)
  have conf: "settings ?n = settings m" "mx_initCache ?n = mx_initCache m" "mx_calls ?n = mx_calls m"
    unfolding n by (simp_all add: addSegment_def settings_def)
  have "base_ok ?n" using assms(1) w settings_eqD [OF conf(1)] conf(3)
    by (simp add: base_ok_def balanced_def)
  moreover have "current ?n ?s" using assms(3) settings_eqD [OF conf(1)] conf(2)
    by (simp add: current_def listed_def starts_key_def)
  moreover have "\<forall>t\<in>set (window m). listed ?n t \<and> sg_finished t"
    using assms(2) listed_cong(1) [OF conf(1)] conf(2) by simp
  ultimately show ?thesis using w(2) conf(1) unfolding muxer_ok_def by auto
qed

lemma put_base:
  assumes "base_ok m" and "window m = W @ [s]" and "sg_id t = sg_id s" and "segment_packets t = segment_packets s @ ps"
  shows "base_ok ((put_segment t m)\<lparr>mx_calls := mx_calls m @ map Retained ps\<rparr>)"
    and "window ((put_segment t m)\<lparr>mx_calls := mx_calls m @ map Retained ps\<rparr>) = W @ [t]"
proof -
  let ?n = "(put_segment t m)\<lparr>mx_calls := mx_calls m @ map Retained ps\<rparr>"
  have p: "window_ok (put_segment t m)" "window (put_segment t m) = W @ [t]"
    using put_cur [OF _ assms(2,3)] assms(1) by (simp_all add: base_ok_def)
  then have w: "window_ok ?n" "window ?n = W @ [t]" by (simp_all add: window_ok_def window_def)
  have r: "retained (map Retained ps) = ps" "released (map Retained ps) = []" by (induction ps) simp_all
  have "balanced ?n" using assms(1,2,4) w(2) by (simp add: balanced_def base_ok_def r)
  with assms(1) w show "base_ok ?n" "window ?n = W @ [t]"
    by (simp_all add: base_ok_def independent_def put_segment_def)
qed

lemma put_settings [simp]:
  "settings ((put_segment t m)\<lparr>mx_calls := cs\<rparr>) = settings m" "settings (put_segment t m) = settings m"
  "mx_initCache (put_segment t m) = mx_initCache m" "mx_mediaSequence (put_segment t m) = mx_mediaSequence m"
  by (simp_all add: settings_def put_segment_def)

lemma settings_dirty: "settings (m\<lparr>mx_manifestDirty := b\<rparr>) = settings m"
  by (simp add: settings_def)

lemma put_ok:
  assumes "base_ok m" and "window m = W @ [s]" and "\<forall>r\<in>set W. listed m r \<and> sg_finished r" and "current m s"
    and "same_segment s t" and "\<not> sg_finished t" and "segment_packets t = segment_packets s @ ps"
    and "independent m \<Longrightarrow> starts_key t"
  shows "muxer_ok ((put_segment t m)\<lparr>mx_calls := mx_calls m @ map Retained ps\<rparr>)"
proof -
  let ?n = "(put_segment t m)\<lparr>mx_calls := mx_calls m @ map Retained ps\<rparr>"
  have n: "base_ok ?n" "window ?n = W @ [t]"
    using put_base [OF assms(1,2) _ assms(7)] assms(5) by (simp_all add: same_segment_def)
  have c: "listed ?n r = listed m r" "current ?n r = current m r" for r
    using listed_cong [of ?n m r] by (simp_all add: put_segment_def settings_def)
  have "current ?n t" unfolding c using assms(4-6,8) by (auto simp: current_def listed_def same_segment_def)
  with n c(1) assms(3) show ?thesis unfolding muxer_ok_def by auto
qed

lemma close_ok:
  assumes "base_ok m" and "window m = W @ [s]" and "\<forall>r\<in>set W. listed m r \<and> sg_finished r" and "current m s"
    and "same_segment s t" and "sg_finished t" and "segment_packets t = segment_packets s"
  shows "base_ok (put_segment t m) \<and> window (put_segment t m) = W @ [t] \<and>
    (\<forall>r\<in>set (W @ [t]). listed (put_segment t m) r \<and> sg_finished r)"
proof -
  let ?n = "put_segment t m"
  have "?n = ?n\<lparr>mx_calls := mx_calls m @ map Retained []\<rparr>" by (simp add: put_segment_def)
  with put_base [OF assms(1,2), of t "[]"] assms(5,7) have n: "base_ok ?n" "window ?n = W @ [t]"
    by (simp_all add: same_segment_def)
  have c: "listed ?n r = listed m r" for r using listed_cong(1) [of ?n m r] by simp
  have "listed m t" using assms(4,5,7) by (auto simp: current_def listed_def same_segment_def starts_key_def)
  with n c assms(3,6) show ?thesis by auto
qed

lemma next_ok:
  assumes "muxer_ok m"
  shows "\<exists>n. next_segment d m = (Inr (), n) \<and> muxer_ok n \<and> settings n = settings m \<and> segment_packets (last (window n)) = []"
proof -
  from assms obtain W s where w: "window m = W @ [s]" "\<forall>t\<in>set W. listed m t \<and> sg_finished t" "current m s"
    and b: "base_ok m" by (auto simp: muxer_ok_def)
  have cur: "getCurSegment m = (Inr s, m)" using getCur [of m] b w(1) by (simp add: base_ok_def)
  obtain t where t: "closeSeg s = Inr t" "same_segment s t" "sg_finished t" "segment_packets t = segment_packets s"
    using segment_closed [of s] w(3) by (auto simp: current_def listed_def)
  let ?p = "put_segment t m"
  have p: "base_ok ?p" "window ?p = W @ [t]" "\<forall>r\<in>set (window ?p). listed ?p r \<and> sg_finished r"
    using close_ok [OF b w t(2-4)] by simp_all
  have l: "length W < length (window m)" by (simp add: w(1) del: length_window)
  have "sg_id s = nat (mx_mediaSequence m) + length W"
    using window_id(3) [OF _ l] b w(1) by (simp add: base_ok_def)
  then have i: "sg_id t + 1 = nat (mx_mediaSequence ?p) + length (window ?p)"
    using t(2) p(2) by (simp add: same_segment_def del: length_window)
  have v: "mx_initCache ?p (mx_initVersion ?p) = Some (mx_codecPars ?p)"
    using w(3) settings_eqD(3,4) [OF put_settings(2), of t m] by (auto simp: current_def listed_def)
  let ?n = "new_segment d (sg_id t + 1) ?p"
  have n: "muxer_ok ?n" "settings ?n = settings m" "sg_duration (last (window ?n)) = 0" "segment_packets (last (window ?n)) = []"
    using new_ok [OF p(1,3) v i] by simp_all
  have "sg_id t = sg_id s" using t(2) by (simp add: same_segment_def)
  with evict_ok [OF n(1,3)] n(2,4) show ?thesis
    by (simp add: next_segment_def sbind_def cur t(1) settings_dirty)
qed

lemma see_cap_ok:
  assumes "muxer_ok m"
  shows "muxer_ok (see_cap c m)" and "window (see_cap c m) = window m" and "c \<Longrightarrow> \<not> independent (see_cap c m)"
    and "canOpenTimelineEpoch (see_cap c m) p = canOpenTimelineEpoch m p"
    and "\<not> c \<Longrightarrow> see_cap c m = m"
proof -
  show "window (see_cap c m) = window m" by (simp add: see_cap_def window_def Let_def)
  show "c \<Longrightarrow> \<not> independent (see_cap c m)"
    using assms by (auto simp: see_cap_def independent_def buildHeader_def Let_def muxer_ok_def base_ok_def)
  show "muxer_ok (see_cap c m)"
  proof (cases "c \<and> \<not> mx_capSplitSeen m")
    case True
    then show ?thesis using assms
      by (auto simp: see_cap_def muxer_ok_def state_defs buildHeader_def Let_def)
  qed (use assms in \<open>auto simp: see_cap_def\<close>)
qed (simp_all add: see_cap_def canOpenTimelineEpoch_def Let_def)

section \<open>Writing a packet\<close>

lemma epoch_ok:
  assumes "muxer_ok m" and "admits m p"
  shows "\<exists>q n. HLS_epoch p m = (Inr q, n) \<and> muxer_ok n \<and> admits n q \<and> hk_video q = hk_video p"
proof (cases "mx_maxTS m \<le> hk_ts p - mx_tsOffset m \<and> canOpenTimelineEpoch m p")
  case True
  let ?m = "m\<lparr>mx_tsOffset := hk_ts p\<rparr>"
  obtain n where n: "next_segment True ?m = (Inr (), n)" "muxer_ok n" "settings n = settings ?m"
    using next_ok [of ?m True] assms(1) by auto
  have "canOpenTimelineEpoch n (p\<lparr>hk_ts := 0\<rparr>)"
    using True settings_eqD(9) [OF n(3)] by (simp add: canOpenTimelineEpoch_def)
  with True n show ?thesis by (simp add: HLS_epoch_def startDiscontinuitySegment_def sbind_def admits_def Let_def)
next
  case False
  with assms show ?thesis by (auto simp: HLS_epoch_def Let_def admits_def canOpenTimelineEpoch_def)
qed

lemma rotate_ok:
  assumes "muxer_ok m" and "admits m p"
  shows "\<exists>n. HLS_rotate p m = (Inr (), n) \<and> muxer_ok n \<and> admits n p"
proof (cases "hk_video p")
  case True
  from assms(1) obtain s where s: "getCurSegment m = (Inr s, m)"
    using getCur [of m] by (auto simp: muxer_ok_def base_ok_def)
  obtain due cap where r: "must_rotate m s p = (due, cap)" by fastforce
  show ?thesis
  proof (cases due)
    case True
    obtain n where n: "next_segment False (see_cap cap m) = (Inr (), n)" "muxer_ok n" "settings n = settings (see_cap cap m)"
      using next_ok [OF see_cap_ok(1) [OF assms(1)]] by blast
    have "admits n p"
    proof (cases cap)
      case True
      then show ?thesis using see_cap_ok(3) [OF assms(1)] settings_eqD(8) [OF n(3)] by (simp add: admits_def)
    next
      case False
      have "hk_key p \<or> \<not> mx_keyframeSplit m"
        using r False \<open>due\<close> by (auto simp: must_rotate_def Let_def split: if_splits)
      then show ?thesis
        using \<open>hk_video p\<close> assms(1) settings_eqD(8,9) [OF n(3)] see_cap_ok(4,5) [OF assms(1)] False
        by (auto simp: admits_def canOpenTimelineEpoch_def muxer_ok_def base_ok_def)
    qed
    with n True r s \<open>hk_video p\<close> show ?thesis by (simp add: HLS_rotate_def sbind_def)
  next
    case False
    with r s assms \<open>hk_video p\<close> show ?thesis by (simp add: HLS_rotate_def sbind_def)
  qed
next
  case False
  with assms show ?thesis by (simp add: HLS_rotate_def)
qed

lemma append_ok:
  assumes "muxer_ok m" and "admits m p"
  shows "\<exists>ch n. HLS_append p m = (Inr ch, n) \<and> muxer_ok n \<and> segment_packets (last (window n)) \<noteq> []"
proof -
  from assms(1) obtain W s where w: "window m = W @ [s]" "\<forall>t\<in>set W. listed m t \<and> sg_finished t" "current m s"
    and b: "base_ok m" by (auto simp: muxer_ok_def)
  have cur: "getCurSegment m = (Inr s, m)" using getCur [of m] b w(1) by (simp add: base_ok_def)
  obtain t ch where t: "segment_writePacket p s = Inr (t, ch)" "same_segment s t" "\<not> sg_finished t"
    "segment_packets t = segment_packets s @ [p]"
    using segment_write [of s p] w(3) by (auto simp: current_def listed_def)
  have key: "starts_key t" if "independent m"
  proof (cases "segment_packets s")
    case Nil
    with assms(2) that w(1,3) t(2,4) show ?thesis
      by (auto simp: admits_def canOpenTimelineEpoch_def starts_key_def same_segment_def current_def)
  next
    case (Cons a ps)
    with that w(3) t(2,4) show ?thesis
      by (auto simp: starts_key_def same_segment_def current_def listed_def)
  qed
  let ?n = "(put_segment t m)\<lparr>mx_calls := mx_calls m @ map Retained [p]\<rparr>"
  have "muxer_ok ?n" by (rule put_ok [OF b w t(2-4) key])
  moreover have "window ?n = W @ [t]" using put_base(2) [OF b w(1) _ t(4)] t(2) by (simp add: same_segment_def)
  ultimately show ?thesis using cur t(1,4) by (simp add: HLS_append_def sbind_def)
qed

lemma refresh_ok: "muxer_ok m \<Longrightarrow> muxer_ok (HLS_refresh p ch m)" "window (HLS_refresh p ch m) = window m"
  by (simp_all add: HLS_refresh_def Let_def)

lemma write_ok:
  assumes "muxer_ok m" and "opened m"
  shows "\<exists>n. HLS_WritePacket (Some p) m = (Inr (), n) \<and> muxer_ok n \<and> opened n"
proof (cases "mx_keyframeSplit m \<and> \<not> mx_gateOpen m \<and> \<not> canOpenTimelineEpoch m p")
  case True
  with assms show ?thesis by (simp add: HLS_WritePacket_def)
next
  case False
  let ?m = "if mx_keyframeSplit m then m\<lparr>mx_gateOpen := True\<rparr> else m"
  have "muxer_ok ?m" using assms(1) by simp
  moreover have "admits ?m p" using False assms
    by (auto simp: admits_def opened_def independent_def canOpenTimelineEpoch_def muxer_ok_def base_ok_def)
  ultimately obtain q m1 where e: "HLS_epoch p ?m = (Inr q, m1)" "muxer_ok m1" "admits m1 q" using epoch_ok by blast
  from rotate_ok [OF e(2,3)] obtain m2 where r: "HLS_rotate q m1 = (Inr (), m2)" "muxer_ok m2" "admits m2 q" by blast
  from append_ok [OF r(2,3)] obtain ch m3 where a: "HLS_append q m2 = (Inr ch, m3)" "muxer_ok m3"
    "segment_packets (last (window m3)) \<noteq> []" by blast
  from e(1) r(1) a(1) have "HLS_WritePacket (Some p) m = (Inr (), HLS_refresh q ch m3)"
    unfolding HLS_WritePacket_def option.case if_not_P [OF False] by (simp add: sbind_def)
  with a(2,3) show ?thesis by (simp add: refresh_ok opened_def)
qed

section \<open>Codec changes and requests\<close>

lemma update_ok:
  assumes "muxer_ok m" and "\<not> no_codecs c"
  shows "\<exists>n. UpdateCodecParameters c m = (Inr (), n) \<and> muxer_ok n \<and> opened n"
proof -
  from assms(1) obtain W s where w: "window m = W @ [s]" "\<forall>t\<in>set W. listed m t \<and> sg_finished t" "current m s"
    and b: "base_ok m" by (auto simp: muxer_ok_def)
  have cur: "getCurSegment m = (Inr s, m)" using getCur [of m] b w(1) by (simp add: base_ok_def)
  let ?t = "force_close s"
  have t: "same_segment s ?t" "sg_finished ?t" "segment_packets ?t = segment_packets s"
    using segment_forced [of s] w(3) by (simp_all add: current_def listed_def)
  let ?p = "put_segment ?t m" and ?v = "mx_initVersion m + 1"
  have p: "base_ok ?p" "window ?p = W @ [?t]" "\<forall>r\<in>set (window ?p). listed ?p r \<and> sg_finished r"
    using close_ok [OF b w t] by simp_all
  let ?q = "?p\<lparr>mx_codecPars := c, mx_initVersion := ?v, mx_initCache := (mx_initCache ?p)(?v \<mapsto> c)\<rparr>"
  have q: "base_ok ?q" "window ?q = W @ [?t]" using p(1,2) by (simp_all add: state_defs)
  have ver: "mx_initVersion ?p = mx_initVersion m" using settings_eqD(4) [OF put_settings(2)] .
  have lst: "\<forall>r\<in>set (window ?q). listed ?q r \<and> sg_finished r"
  proof
    fix r assume "r \<in> set (window ?q)"
    then have "listed ?p r \<and> sg_finished r" using p(3) unfolding p(2) q(2) by blast
    then show "listed ?q r \<and> sg_finished r" using ver by (auto simp: listed_def independent_def)
  qed
  have l: "length W < length (window m)" by (simp add: w(1) del: length_window)
  have "sg_id s = nat (mx_mediaSequence m) + length W"
    using window_id(3) [OF _ l] b w(1) by (simp add: base_ok_def)
  then have i: "sg_id s + 1 = nat (mx_mediaSequence ?q) + length (window ?q)" using q(2) by (simp del: length_window)
  let ?n = "new_segment True (sg_id s + 1) ?q"
  have n: "muxer_ok ?n" "sg_duration (last (window ?n)) = 0"
    using new_ok [OF q(1) lst _ i] by simp_all
  then have "muxer_ok (?n\<lparr>mx_gateOpen := False\<rparr>)" "sg_duration (last (window (?n\<lparr>mx_gateOpen := False\<rparr>))) = 0" by simp_all
  note e = evict_ok [OF this]
  have "\<not> mx_gateOpen (evictOldSegments (?n\<lparr>mx_gateOpen := False\<rparr>))"
    using e settings_eqD(7) [of _ "?n\<lparr>mx_gateOpen := False\<rparr>"] by simp
  then have "opened (publish (evictOldSegments (?n\<lparr>mx_gateOpen := False\<rparr>)))" by (simp add: opened_def publish_def)
  moreover have "UpdateCodecParameters c m = (Inr (), publish (evictOldSegments (?n\<lparr>mx_gateOpen := False\<rparr>)))"
    using assms(2) cur ver by (simp add: UpdateCodecParameters_def sbind_def Let_def)
  ultimately show ?thesis using e by simp
qed

text \<open>A request may only cache bytes in the segment it asks for.\<close>

lemma touch_ok:
  assumes "muxer_ok m" and "opened m" and "mx_segments m i = Some s" and "same_segment s t" and "sg_finished t = sg_finished s"
    and "segment_packets t = segment_packets s"
  shows "muxer_ok (put_segment t m) \<and> opened (put_segment t m)"
proof -
  from assms(1) obtain W c where w: "window m = W @ [c]" "\<forall>t\<in>set W. listed m t \<and> sg_finished t" "current m c"
    and b: "base_ok m" by (auto simp: muxer_ok_def)
  have ok: "window_ok m" using b by (simp add: base_ok_def)
  then have "i \<in> set (mx_segIDs m)" using assms(3) by (auto simp: window_ok_def)
  then obtain k where k: "k < length (window m)" "mx_segIDs m ! k = i" by (auto simp: in_set_conv_nth)
  have s: "window m ! k = s" "sg_id s = nat (mx_mediaSequence m) + k"
    using window_id [OF ok k(1)] k(2) assms(3) by simp_all
  have id: "sg_id t = nat (mx_mediaSequence m) + k" using s(2) assms(4) by (simp add: same_segment_def)
  let ?n = "put_segment t m"
  have n: "window_ok ?n" "window ?n = (window m)[k := t]" using put_window [OF ok k(1) id] by simp_all
  have sp: "map segment_packets ((window m)[k := t]) = map segment_packets (window m)"
    using k(1) s(1) assms(6) by (intro list_update_map_id) simp_all
  then have "balanced ?n" using b unfolding balanced_def held_def n(2) sp
    by (simp add: base_ok_def balanced_def held_def put_segment_def)
  with n(1) b have base: "base_ok ?n" by (simp add: base_ok_def independent_def put_segment_def)
  have lst: "listed ?n r = listed m r" "current ?n r = current m r" for r
    using listed_cong [of ?n m r] by (simp_all add: put_segment_def settings_def)
  have t: "listed m s \<Longrightarrow> listed m t" "current m s \<Longrightarrow> current m t"
    using assms(4-6) by (auto simp: listed_def current_def same_segment_def starts_key_def)
  have op: "segment_packets (last (window ?n)) = segment_packets (last (window m))"
    using arg_cong [OF sp, of last] w(1) k(1) by (simp add: n(2) last_map)
  show ?thesis
  proof (cases "k = length W")
    case True
    then have "window ?n = W @ [t]" "s = c" using n(2) w(1) s(1) by simp_all
    with base lst t w(2,3) show ?thesis unfolding muxer_ok_def opened_def op using assms(2)
      by (auto simp: opened_def independent_def put_segment_def)
  next
    case False
    then have kW: "k < length W" using k(1) by (simp add: w(1) del: length_window)
    then have "s \<in> set W" "window ?n = W[k := t] @ [c]" using n(2) w(1) s(1) by (auto simp: list_update_append nth_append)
    moreover have "\<forall>r\<in>set (W[k := t]). listed m r \<and> sg_finished r"
      using w(2) t(1) \<open>s \<in> set W\<close> assms(5) set_update_subset_insert [of W k t] by auto
    ultimately show ?thesis using base lst w(3) assms(2) unfolding muxer_ok_def opened_def op
      by (auto simp: independent_def put_segment_def)
  qed
qed

lemma request_ok:
  assumes "muxer_ok m" and "opened m"
  shows "muxer_ok (snd (HLS_GetSegment mp4 i m)) \<and> opened (snd (HLS_GetSegment mp4 i m))"
    and "muxer_ok (snd (HLS_GetFragment mp4 i k m)) \<and> opened (snd (HLS_GetFragment mp4 i k m))"
    and "muxer_ok (snd (GetInitByVersion init v m)) \<and> opened (snd (GetInitByVersion init v m))"
proof -
  have seg: "segment_ok s" if "mx_segments m i = Some s" for s
  proof -
    from assms(1) obtain W c where w: "window m = W @ [c]" "\<forall>t\<in>set W. listed m t" "listed m c" "window_ok m"
      by (auto simp: muxer_ok_def base_ok_def current_def)
    then have "i \<in> set (mx_segIDs m)" using that by (auto simp: window_ok_def)
    then obtain k where k: "k < length (window m)" "mx_segIDs m ! k = i" by (auto simp: in_set_conv_nth)
    then have "s \<in> set (window m)" using window_id(1,2) [OF w(4) k(1)] that by (metis nth_mem option.inject)
    then show ?thesis using w by (auto simp: listed_def)
  qed
  show "muxer_ok (snd (HLS_GetSegment mp4 i m)) \<and> opened (snd (HLS_GetSegment mp4 i m))"
  proof (cases "mx_segments m i")
    case (Some s)
    obtain b t where t: "segment_getMp4Buffer mp4 s = (b, t)" by fastforce
    with touch_ok [OF assms Some, of t] segment_mp4 [OF seg [OF Some], of mp4] assms Some show ?thesis
      by (auto simp: HLS_GetSegment_def split: option.splits)
  qed (simp add: HLS_GetSegment_def assms)
  show "muxer_ok (snd (HLS_GetFragment mp4 i k m)) \<and> opened (snd (HLS_GetFragment mp4 i k m))"
  proof (cases "mx_segments m i")
    case (Some s)
    obtain b t where t: "getFragment mp4 k s = (b, t)" by fastforce
    with touch_ok [OF assms Some, of t] segment_fragment [OF seg [OF Some], of mp4 k] assms Some show ?thesis
      by (auto simp: HLS_GetFragment_def split: option.splits reply.splits)
  qed (simp add: HLS_GetFragment_def assms)
  show "muxer_ok (snd (GetInitByVersion init v m)) \<and> opened (snd (GetInitByVersion init v m))"
    using assms by (simp add: GetInitByVersion_def opened_def independent_def split: option.split sum.split)
qed

lemma new_muxer_fields [simp]:
  "mx_segments (NewHLSMuxer d n opts) = (\<lambda>_. None)" "mx_segIDs (NewHLSMuxer d n opts) = []"
  "mx_mediaSequence (NewHLSMuxer d n opts) = 0" "mx_segmentDuration (NewHLSMuxer d n opts) = d"
  "mx_calls (NewHLSMuxer d n opts) = []" "mx_gateOpen (NewHLSMuxer d n opts) = False"
  "mx_capSplitSeen (NewHLSMuxer d n opts) = False" "mx_initCache (NewHLSMuxer d n opts) = (\<lambda>_. None)"
  "hd_independentSegments (mx_header (NewHLSMuxer d n opts)) = mx_keyframeSplit (NewHLSMuxer d n opts)"
  by (simp_all add: NewHLSMuxer_def buildHeader_def Let_def)

lemma mux_ok:
  fixes m :: "'p hls_muxer"
  assumes "HLS_Mux c (NewHLSMuxer d n opts) = (Inr (), m)" and "0 \<le> d"
  shows "muxer_ok m \<and> opened m"
proof -
  let ?m = "(NewHLSMuxer d n opts)\<lparr>mx_codecPars := c, mx_initVersion := 0, mx_initCache := [0 \<mapsto> c]\<rparr> :: 'p hls_muxer"
  have m: "m = (new_segment False 0 ?m)\<lparr>mx_manifestDirty := True\<rparr>"
    using assms(1) by (auto simp: HLS_Mux_def split: if_splits sum.splits)
  have "base_ok ?m" "window ?m = []" "\<not> mx_gateOpen ?m"
    using assms(2) by (simp_all add: base_ok_def window_ok_def balanced_def window_def independent_def)
  then have n: "muxer_ok (new_segment False 0 ?m)" "settings (new_segment False 0 ?m) = settings ?m"
    using new_ok [of ?m 0 False] by simp_all
  moreover have "\<not> mx_gateOpen m" using settings_eqD(7) [OF n(2)] \<open>\<not> mx_gateOpen ?m\<close> by (simp add: m)
  ultimately show ?thesis by (simp add: m opened_def)
qed

section \<open>Reachable states\<close>

text \<open>Calls in any order after \<open>Mux\<close>; the playlist requests change nothing.\<close>

inductive hls_step :: "'p mp4_writer \<Rightarrow> (codec_pair \<Rightarrow> bytes) \<Rightarrow> 'p hls_muxer \<Rightarrow> 'p hls_muxer \<Rightarrow> bool" for mp4 init m where
  packet: "hls_step mp4 init m (snd (HLS_WritePacket p m))"
| codec: "hls_step mp4 init m (snd (UpdateCodecParameters c m))"
| get_segment: "hls_step mp4 init m (snd (HLS_GetSegment mp4 i m))"
| get_fragment: "hls_step mp4 init m (snd (HLS_GetFragment mp4 i k m))"
| get_init: "hls_step mp4 init m (snd (GetInitByVersion init v m))"

inductive hls_reach :: "'p mp4_writer \<Rightarrow> (codec_pair \<Rightarrow> bytes) \<Rightarrow> 'p hls_muxer \<Rightarrow> bool" for mp4 init where
  start: "0 \<le> d \<Longrightarrow> HLS_Mux c (NewHLSMuxer d n opts) = (Inr (), m) \<Longrightarrow> hls_reach mp4 init m"
| step: "hls_reach mp4 init m \<Longrightarrow> hls_step mp4 init m n \<Longrightarrow> hls_reach mp4 init n"

lemma hls_step_ok:
  assumes "hls_step mp4 init m n" and "muxer_ok m \<and> opened m"
  shows "muxer_ok n \<and> opened n"
  using assms(1)
proof (cases rule: hls_step.cases)
  case (packet p)
  show ?thesis
  proof (cases p)
    case None
    with packet assms(2) show ?thesis by (simp add: HLS_WritePacket_def)
  next
    case (Some q)
    with packet write_ok [of m q] assms(2) show ?thesis by auto
  qed
next
  case (codec c)
  show ?thesis
  proof (cases "no_codecs c")
    case True
    with codec assms(2) show ?thesis by (simp add: UpdateCodecParameters_def)
  next
    case False
    with codec update_ok [of m c] assms(2) show ?thesis by auto
  qed
qed (use assms(2) request_ok [of m] in auto)

lemma hls_reach_ok: "hls_reach mp4 init m \<Longrightarrow> muxer_ok m \<and> opened m"
proof (induction rule: hls_reach.induct)
  case (start d c n opts m)
  show ?case by (rule mux_ok [OF start(2,1)])
next
  case (step m n)
  from hls_step_ok [OF step(2,3)] show ?case .
qed

lemma consecutive_upt: "consecutive b is \<Longrightarrow> is = [b..<b + length is]"
proof (induction b "is" rule: consecutive.induct)
  case (2 b i "is")
  then have "is = [Suc b..<Suc b + length is]" by simp
  moreover have "[b..<b + length (i # is)] = b # [Suc b..<Suc b + length is]"
    by (subst upt_conv_Cons) simp_all
  ultimately show ?case using 2 by (simp only: consecutive.simps)
qed simp

lemma reach_listed:
  assumes "hls_reach mp4 init m" and "i \<in> set (mx_segIDs m)"
  shows "\<exists>s. mx_segments m i = Some s \<and> listed m s \<and> sg_id s = i \<and> sg_finished s = (i \<noteq> last (mx_segIDs m))"
proof -
  from hls_reach_ok [OF assms(1)] obtain W s where w: "window m = W @ [s]" "\<forall>t\<in>set W. listed m t \<and> sg_finished t" "current m s"
    and ok: "window_ok m" by (auto simp: muxer_ok_def base_ok_def)
  obtain k where k: "k < length (window m)" "mx_segIDs m ! k = i" using assms(2) by (auto simp: in_set_conv_nth)
  note t = window_id [OF ok k(1)]
  have l: "length W < length (window m)" by (simp add: w(1) del: length_window)
  have "last (mx_segIDs m) = mx_segIDs m ! length W" using w(1)
    by (metis length_window length_append_singleton diff_Suc_1 last_conv_nth window_Nil snoc_eq_iff_butlast)
  then have last: "last (mx_segIDs m) = nat (mx_mediaSequence m) + length W" using window_id(1) [OF ok l] by simp
  show ?thesis
  proof (cases "k = length W")
    case True
    with t k(2) last w(1,3) show ?thesis by (simp add: current_def)
  next
    case False
    then have "k < length W" using k(1) by (simp add: w(1) del: length_window)
    with w(1,2) have "listed m (window m ! k)" "sg_finished (window m ! k)" by (simp_all add: nth_append)
    with t k(2) last False show ?thesis by simp
  qed
qed

section \<open>Properties\<close>

text \<open>C6: In every reachable state of the HLS muxer the playlist is a sliding window: the segment
  numbers are consecutive from the media sequence number on, the map holds exactly these segments,
  none of them released, all closed but the last one, each with the sum of its closed parts as
  duration, and the init segment of each can be built from the codec parameters it was written with.\<close>

theorem hls_sliding_window:
  assumes "hls_reach mp4 init m"
  shows "mx_segIDs m \<noteq> [] \<and> 0 \<le> mx_mediaSequence m \<and>
    mx_segIDs m = [nat (mx_mediaSequence m)..<nat (mx_mediaSequence m) + length (mx_segIDs m)] \<and>
    dom (mx_segments m) = set (mx_segIDs m) \<and>
    list_all (\<lambda>i. case mx_segments m i of None \<Rightarrow> False | Some s \<Rightarrow> sg_id s = i \<and> \<not> sg_released s \<and>
      sg_finished s = (i \<noteq> last (mx_segIDs m)) \<and> sg_duration s = closed_duration (sg_fragments s) \<and>
      mx_initCache m (sg_initVersion s) = Some (sg_codecPars s)) (mx_segIDs m)"
proof -
  have ok: "window_ok m" "mx_segIDs m \<noteq> []"
    using hls_reach_ok [OF assms] by (auto simp: muxer_ok_def base_ok_def window_Nil [symmetric])
  let ?P = "\<lambda>i. case mx_segments m i of None \<Rightarrow> False | Some s \<Rightarrow> sg_id s = i \<and> \<not> sg_released s \<and>
      sg_finished s = (i \<noteq> last (mx_segIDs m)) \<and> sg_duration s = closed_duration (sg_fragments s) \<and>
      mx_initCache m (sg_initVersion s) = Some (sg_codecPars s)"
  have "?P i" if "i \<in> set (mx_segIDs m)" for i
    using reach_listed [OF assms that] by (auto simp: listed_def segment_ok_def fragments_ok_def)
  then have "list_all ?P (mx_segIDs m)" by (simp add: list_all_iff)
  moreover have "mx_segIDs m = [nat (mx_mediaSequence m)..<nat (mx_mediaSequence m) + length (mx_segIDs m)]"
    using ok(1) by (intro consecutive_upt) (simp add: window_ok_def)
  moreover have "0 \<le> mx_mediaSequence m" "dom (mx_segments m) = set (mx_segIDs m)"
    using ok(1) by (simp_all add: window_ok_def)
  ultimately show ?thesis using ok(2) by blast
qed

text \<open>C9: Writing a packet to a reachable muxer never fails: no channel is closed twice, no segment
  is missing.\<close>

theorem hls_write_total:
  assumes "hls_reach mp4 init m"
  shows "fst (HLS_WritePacket (Some p) m) = Inr ()"
  using write_ok [of m p] hls_reach_ok [OF assms] by auto

text \<open>C7: Once the muxer is released, every packet it has retained has been released exactly once;
  before, none has been released more often than retained.\<close>

theorem hls_packets_released_once:
  assumes "hls_reach mp4 init m"
  shows "mset (released (mx_calls m)) \<subseteq># mset (retained (mx_calls m)) \<and>
    mset (released (mx_calls (HLS_Release m))) = mset (retained (mx_calls (HLS_Release m)))"
proof -
  have b: "balanced m" using hls_reach_ok [OF assms] by (simp add: muxer_ok_def base_ok_def)
  have "(case mx_segments m i of None \<Rightarrow> [] | Some s \<Rightarrow> map Released (snd (segment_release s))) =
    map Released (segment_packets (the (mx_segments m i)))" if "i \<in> set (mx_segIDs m)" for i
    using reach_listed [OF assms that] by (auto simp: listed_def segment_ok_def segment_release_def)
  then have "map (\<lambda>i. case mx_segments m i of None \<Rightarrow> [] | Some s \<Rightarrow> map Released (snd (segment_release s))) (mx_segIDs m) =
    map (\<lambda>s. map Released (segment_packets s)) (window m)" by (simp add: window_def)
  then have "mx_calls (HLS_Release m) = mx_calls m @ map Released (held (window m))"
    by (simp add: HLS_Release_def held_def map_concat o_def)
  with b show ?thesis by (simp add: balanced_def)
qed

text \<open>C8: As long as the playlist advertises independent segments, every listed segment of a stream
  with video starts with a key frame.\<close>

theorem hls_independent_segments:
  assumes "hls_reach mp4 init m" and "hd_independentSegments (mx_header m)" and "mx_segments m i = Some s"
    and "cp_video (sg_codecPars s) \<noteq> None" and "segment_packets s = p # ps"
  shows "hk_video p \<and> hk_key p"
proof -
  have "window_ok m" using hls_reach_ok [OF assms(1)] by (auto simp: muxer_ok_def base_ok_def)
  with assms(3) have "i \<in> set (mx_segIDs m)" by (auto simp: window_ok_def)
  from reach_listed [OF assms(1) this] assms(3) have "listed m s" by auto
  with assms(2,4,5) show ?thesis by (auto simp: listed_def independent_def starts_key_def)
qed

text \<open>A request for a segment is refused exactly when the number is not listed, waits exactly for
  the segment that is being written, and gets the bytes of every other one whose codecs can be muxed.\<close>

theorem hls_get_segment:
  assumes "hls_reach mp4 init m"
  shows "(fst (HLS_GetSegment mp4 i m) = Inl (Error ''segment not found'') \<longleftrightarrow> i \<notin> set (mx_segIDs m)) \<and>
    (fst (HLS_GetSegment mp4 i m) = Inr Blocked \<longleftrightarrow> i = last (mx_segIDs m)) \<and>
    (\<forall>s. mx_segments m i = Some s \<longrightarrow> sg_finished s \<longrightarrow> fmp4_Mux (sg_codecPars s) = Inr () \<longrightarrow>
      (\<exists>b. fst (HLS_GetSegment mp4 i m) = Inr (Reply b)))"
proof (cases "i \<in> set (mx_segIDs m)")
  case True
  from reach_listed [OF assms True] obtain s where
    "mx_segments m i = Some s" "\<not> sg_released s" "sg_finished s = (i \<noteq> last (mx_segIDs m))"
    by (auto simp: listed_def segment_ok_def)
  with True show ?thesis
    by (auto simp: HLS_GetSegment_def segment_getMp4Buffer_def Let_def split: sum.splits option.splits)
next
  case False
  have "window_ok m" "mx_segIDs m \<noteq> []"
    using hls_reach_ok [OF assms] by (auto simp: muxer_ok_def base_ok_def window_Nil [symmetric])
  with False have "mx_segments m i = None" "i \<noteq> last (mx_segIDs m)" by (auto simp: window_ok_def)
  with False show ?thesis by (simp add: HLS_GetSegment_def)
qed

section \<open>A camera\<close>

definition camera_pars :: codec_pair where
  "camera_pars = \<lparr>cp_source = [], cp_audio = None, cp_video = Some \<lparr>vi_type = makeVideoCodecType (avCodecTypeMagic + 1),
     vi_Width = 640, vi_Height = 480, vi_FPS = 25, vi_Bitrate = 0, vi_Tag = ''avc1''\<rparr>\<rparr>"

definition camera_frame :: "int \<Rightarrow> bool \<Rightarrow> nat hls_packet" where
  "camera_frame ts key = \<lparr>hk_video = True, hk_key = key, hk_ts = ts, hk_dur = 1000 * Millisecond, hk_body = 0\<rparr>"

definition hls0 :: "nat hls_muxer" where
  "hls0 = snd (HLS_Mux camera_pars (NewHLSMuxer (2000 * Millisecond) 3
     (defaultOptions\<lparr>ho_keyframeSplit := True, ho_minPlaylistDuration := 1\<rparr>)))"

definition hls1 :: "nat hls_muxer" where
  "hls1 = snd (HLS_WritePacket (Some (camera_frame 0 True)) hls0)"

lemma hls_reach01: "hls_reach mp4 init hls0" "hls_reach mp4 init hls1"
proof -
  have "fst (HLS_Mux camera_pars (NewHLSMuxer (2000 * Millisecond) 3
     (defaultOptions\<lparr>ho_keyframeSplit := True, ho_minPlaylistDuration := 1\<rparr>) :: nat hls_muxer)) = Inr ()"
    by (simp add: HLS_Mux_def camera_pars_def no_codecs_def fmp4_Mux_def fmp4_supported_def)
  then show a: "hls_reach mp4 init hls0"
    by (intro hls_reach.start [of "2000 * Millisecond" camera_pars 3 "defaultOptions\<lparr>ho_keyframeSplit := True, ho_minPlaylistDuration := 1\<rparr>"])
      (simp_all add: Millisecond_def hls0_def prod_eq_iff)
  show "hls_reach mp4 init hls1" unfolding hls1_def by (rule hls_reach.step [OF a hls_step.packet])
qed

theorem hls_sliding_window_witness: "mx_segIDs hls1 \<noteq> [] \<and> dom (mx_segments hls1) = set (mx_segIDs hls1)"
  using hls_sliding_window [OF hls_reach01(2)] by blast

theorem hls_write_total_witness: "fst (HLS_WritePacket (Some (camera_frame 5 False)) hls1) = Inr ()"
  by (rule hls_write_total [OF hls_reach01(2)])

theorem hls_packets_released_once_witness:
  "mset (released (mx_calls (HLS_Release hls1))) = mset (retained (mx_calls (HLS_Release hls1)))"
  using hls_packets_released_once [OF hls_reach01(2)] by blast

theorem hls_get_segment_witness: "fst (HLS_GetSegment (\<lambda>c ps i. [1]) (last (mx_segIDs hls1)) hls1) = Inr Blocked"
  using hls_get_segment [OF hls_reach01(2)] by blast

lemma hls0_eq: "hls0 = (new_segment False 0 ((NewHLSMuxer (2000 * Millisecond) 3
     (defaultOptions\<lparr>ho_keyframeSplit := True, ho_minPlaylistDuration := 1\<rparr>))\<lparr>mx_codecPars := camera_pars,
     mx_initVersion := 0, mx_initCache := [0 \<mapsto> camera_pars]\<rparr>))\<lparr>mx_manifestDirty := True\<rparr>"
  by (simp add: hls0_def HLS_Mux_def camera_pars_def no_codecs_def fmp4_Mux_def fmp4_supported_def)

theorem hls_independent_segments_witness:
  "\<exists>s. mx_segments hls1 0 = Some s \<and> hk_video (hd (segment_packets s)) \<and> hk_key (hd (segment_packets s))"
proof -
  have "hd_independentSegments (mx_header hls1)" "\<exists>s. mx_segments hls1 0 = Some s \<and> segment_packets s = [camera_frame 0 True] \<and>
    cp_video (sg_codecPars s) \<noteq> None"
    by (simp_all add: hls1_def hls0_eq HLS_WritePacket_def HLS_epoch_def HLS_rotate_def HLS_append_def HLS_refresh_def
        new_segment_def addSegment_def NewHLSMuxer_def canOpenTimelineEpoch_def camera_pars_def camera_frame_def
        defaultOptions_def Millisecond_def getCurSegment_def must_rotate_def newSegment_def newFragment_def
        curFragment_def segment_writePacket_def fragment_writePacket_def fragment_close_def set_curFragment_def account_def
        segment_packets_def publish_def put_segment_def buildHeader_def Let_def sbind_def)
  with hls_independent_segments [OF hls_reach01(2)] show ?thesis by force
qed

end
