(* ===== verification/HlsPlaylist.thy ===== *)
theory HlsPlaylist
  imports HlsWindow
begin

text \<open>
  The length of the playlist under a minimal playlist duration (\<open>evictByDuration\<close>), over every run of the HLS muxer:
  eviction never takes the playlist below the minimum and never leaves more than is needed for it.
\<close>

section \<open>Durations in the window\<close>

definition playable :: "'p hls_muxer \<Rightarrow> int" where
  "playable m = (\<Sum>i\<leftarrow>butlast (mx_segIDs m). seg_duration m i)"

lemma playable_window: "window_ok m \<Longrightarrow> playable m = (\<Sum>s\<leftarrow>butlast (window m). sg_duration s)"
proof -
  assume ok: "window_ok m"
  have "seg_duration m i = sg_duration (the (mx_segments m i))" if "i \<in> set (butlast (mx_segIDs m))" for i
  proof -
    have "i \<in> dom (mx_segments m)" using in_set_butlastD [OF that] ok by (simp add: window_ok_def)
    then show ?thesis by (auto simp: seg_duration_def)
  qed
  then have "map (seg_duration m) (butlast (mx_segIDs m)) = map (\<lambda>i. sg_duration (the (mx_segments m i))) (butlast (mx_segIDs m))"
    by simp
  then show ?thesis by (simp only: playable_def window_def map_butlast [symmetric] map_map o_def)
qed

text \<open>The durations of the segments of the window, the last of which is still growing.\<close>

definition durations :: "'p hls_muxer \<Rightarrow> int list" where
  "durations m = map sg_duration (window m)"

lemma playable_durations: "window_ok m \<Longrightarrow> playable m = sum_list (butlast (durations m))"
  by (simp add: playable_window durations_def map_butlast)

lemma length_durations [simp]: "length (durations m) = length (mx_segIDs m)"
  by (simp add: durations_def)

text \<open>Once something was evicted, the closed segments last at least the minimum.\<close>

definition enough :: "int \<Rightarrow> int \<Rightarrow> int list \<Rightarrow> bool" where
  "enough evicted least ds \<longleftrightarrow> (0 < evicted \<longrightarrow> 2 \<le> length ds \<and> least \<le> sum_list (butlast ds))"

text \<open>Without the oldest segment they would not.\<close>

definition tight :: "int \<Rightarrow> int list \<Rightarrow> bool" where
  "tight least ds \<longleftrightarrow> length ds \<le> 2 \<or> sum_list (butlast (tl ds)) < least"

section \<open>Eviction\<close>

lemma evictByDuration_bound:
  assumes "window_ok m"
  shows "evictByDuration m = m \<or>
    2 \<le> length (mx_segIDs (evictByDuration m)) \<and> mx_minPlaylistDuration m \<le> playable (evictByDuration m)"
  using assms
proof (induction m rule: evictByDuration.induct)
  case (1 m)
  show ?case
  proof (cases "evictByDuration m = m")
    case False
    then obtain t where t: "2 < length (mx_segIDs m)" "mx_segments m (hd (mx_segIDs m)) = Some t"
      "\<not> (\<Sum>i\<leftarrow>butlast (mx_segIDs m). seg_duration m i) - sg_duration t < mx_minPlaylistDuration m"
      by (subst (asm) evictByDuration.simps) (auto split: if_splits option.splits)
    then have step: "evictByDuration m = evictByDuration (evictOldest m)"
      by (subst evictByDuration.simps) simp
    obtain r W where W: "window m = r # W" using t(1) length_window [of m] by (cases "window m") auto
    note e = evict_window [OF "1.prems" W]
    have r: "r = t" using window_id [OF "1.prems", of 0] W t(2) by (cases "mx_segIDs m") (simp_all add: window_def)
    have "W \<noteq> []" using t(1) W length_window [of m] by (cases W) auto
    then have "playable m = sg_duration t + playable (evictOldest m)"
      using e W r playable_window [OF "1.prems"] playable_window [of "evictOldest m"] by simp
    then have p: "mx_minPlaylistDuration m \<le> playable (evictOldest m)" using t(3) by (simp add: playable_def)
    have c: "mx_minPlaylistDuration (evictOldest m) = mx_minPlaylistDuration m"
      using settings_evict(1) [of m] by (simp add: settings_def)
    have "evictByDuration (evictOldest m) = evictOldest m \<or> 2 \<le> length (mx_segIDs (evictByDuration (evictOldest m))) \<and>
      mx_minPlaylistDuration m \<le> playable (evictByDuration (evictOldest m))"
      using "1.IH" [OF _ t(2) _ ] t e c by auto
    then show ?thesis unfolding step using p t(1) by auto
  qed simp
qed

lemma evictByDuration_tight:
  assumes "window_ok m"
  shows "tight (mx_minPlaylistDuration m) (durations (evictByDuration m))"
  using assms
proof (induction m rule: evictByDuration.induct)
  case (1 m)
  show ?case
  proof (cases "2 < length (mx_segIDs m)")
    case False
    then have "evictByDuration m = m" by (subst evictByDuration.simps) simp
    with False show ?thesis by (simp add: tight_def)
  next
    case True
    then obtain r W where W: "window m = r # W" using length_window [of m] by (cases "window m") auto
    have r: "mx_segments m (hd (mx_segIDs m)) = Some r"
      using window_id [OF "1.prems", of 0] W by (cases "mx_segIDs m") (simp_all add: window_def)
    have "W \<noteq> []" using True W length_window [of m] by (cases W) auto
    then have p: "playable m - sg_duration r = sum_list (butlast (tl (durations m)))"
      using playable_window [OF "1.prems"] by (simp add: W durations_def map_butlast)
    note e = evict_window [OF "1.prems" W]
    show ?thesis
    proof (cases "playable m - sg_duration r < mx_minPlaylistDuration m")
      case lt: True
      then have "evictByDuration m = m"
        by (subst evictByDuration.simps) (simp add: r playable_def)
      with lt p show ?thesis by (simp add: tight_def)
    next
      case False
      then have "evictByDuration m = evictByDuration (evictOldest m)"
        using True by (subst evictByDuration.simps) (simp add: r playable_def)
      moreover have "mx_minPlaylistDuration (evictOldest m) = mx_minPlaylistDuration m"
        using settings_evict(1) [of m] by (simp add: settings_def)
      moreover have "tight (mx_minPlaylistDuration (evictOldest m)) (durations (evictByDuration (evictOldest m)))"
        using True False r e by (intro "1.IH") (simp_all add: playable_def)
      ultimately show ?thesis by simp
    qed
  qed
qed

section \<open>Segments never last less than nothing\<close>

definition nonneg :: "'p segment \<Rightarrow> bool" where
  "nonneg s \<longleftrightarrow> 0 \<le> sg_duration s \<and> 0 \<le> sg_targetFragDuration s \<and> 0 \<le> fr_targetDuration (curFragment s)"

lemma nonneg_write:
  assumes "segment_writePacket p s = Inr (t, ch)" "nonneg s" "\<not> fr_finished (curFragment s)"
  shows "nonneg t"
proof -
  obtain g where g: "fragment_writePacket p (curFragment s) = Inr g" using assms(1)
    by (cases "fragment_writePacket p (curFragment s)") (simp_all add: segment_writePacket_def)
  have "fr_targetDuration g = fr_targetDuration (curFragment s)" "fr_finished g \<Longrightarrow> fr_targetDuration g \<le> fr_duration g"
    using g assms(3) by (auto simp: fragment_writePacket_def fragment_close_def Let_def split: if_splits)
  then show ?thesis using assms(1,2) g
    by (auto simp: segment_writePacket_def nonneg_def account_def set_curFragment_def curFragment_def newFragment_def Let_def
        split: if_splits)
qed

lemma nonneg_close: "closeSeg s = Inr t \<Longrightarrow> nonneg s \<Longrightarrow> 0 \<le> sg_duration t"
  by (auto simp: closeSeg_def nonneg_def account_def set_curFragment_def segment_close_def fragment_close_def Let_def split: if_splits)

lemma force_close_duration [simp]: "sg_duration (force_close s) = sg_duration s"
  by (simp add: force_close_def set_curFragment_def Let_def)

lemma nonneg_mp4:
  "sg_duration (snd (segment_getMp4Buffer mp4 s)) = sg_duration s" "nonneg (snd (segment_getMp4Buffer mp4 s)) = nonneg s"
  by (auto simp: segment_getMp4Buffer_def nonneg_def curFragment_def Let_def split: sum.splits)

lemma generateMp4_target: "fr_targetDuration (generateMp4 mp4 f) = fr_targetDuration f"
  by (simp add: generateMp4_def split: sum.splits)

lemma nonneg_fragment:
  "sg_duration (snd (getFragment mp4 i s)) = sg_duration s" "nonneg (snd (getFragment mp4 i s)) = nonneg s"
proof -
  let ?fs = "sg_fragments s"
  let ?gs = "?fs[unat i := generateMp4 mp4 (?fs ! unat i)]"
  have "map fr_targetDuration ?gs = map fr_targetDuration ?fs"
    by (cases "unat i < length ?fs") (simp_all add: list_update_map_id generateMp4_target not_less list_update_beyond)
  then have "?fs \<noteq> [] \<Longrightarrow> fr_targetDuration (last ?gs) = fr_targetDuration (last ?fs)"
    by (metis last_map list_update_nonempty)
  moreover have "?fs = [] \<Longrightarrow> ?gs = []" by simp
  ultimately have t: "fr_targetDuration (last ?gs) = fr_targetDuration (last ?fs)" by (cases "?fs = []") simp_all
  show "sg_duration (snd (getFragment mp4 i s)) = sg_duration s" "nonneg (snd (getFragment mp4 i s)) = nonneg s"
    using getFragment_change [of mp4 i s] t by (auto simp: nonneg_def curFragment_def)
qed

section \<open>The invariant\<close>

definition trimmed :: "'p hls_muxer \<Rightarrow> bool" where
  "trimmed m \<longleftrightarrow> (0 < mx_minPlaylistDuration m \<longrightarrow> 0 \<le> mx_fragmentDuration m \<longrightarrow>
     nonneg (last (window m)) \<and> enough (mx_mediaSequence m) (mx_minPlaylistDuration m) (durations m) \<and>
     tight (mx_minPlaylistDuration m) (durations m))"

lemma limits_eqD:
  "settings n = settings m \<Longrightarrow> mx_minPlaylistDuration n = mx_minPlaylistDuration m"
  "settings n = settings m \<Longrightarrow> mx_fragmentDuration n = mx_fragmentDuration m"
  by (simp_all add: settings_def)

text \<open>It depends on little of the state, and not on what the current segment lasts.\<close>

lemma trimmed_cong:
  assumes "trimmed m" and "mx_minPlaylistDuration n = mx_minPlaylistDuration m" "mx_fragmentDuration n = mx_fragmentDuration m"
    and "mx_mediaSequence n = mx_mediaSequence m" "window m = W @ [s]" "window n = W @ [t]" "nonneg s \<Longrightarrow> nonneg t"
  shows "trimmed n"
proof -
  have "butlast (tl (xs @ [x])) = butlast (tl (xs @ [y]))" for xs and x y :: int by (cases xs) simp_all
  then have "tight k (durations n) = tight k (durations m)" for k
    using assms(5,6) by (simp add: tight_def durations_def) (metis length_append_singleton)
  moreover have "enough b k (durations n) = enough b k (durations m)" for b k
    using assms(5,6) by (simp add: enough_def durations_def)
  ultimately show ?thesis using assms by (simp add: trimmed_def)
qed

lemma trimmed_update [simp]:
  "trimmed (m\<lparr>mx_manifestDirty := b\<rparr>) = trimmed m" "trimmed (m\<lparr>mx_gateOpen := b\<rparr>) = trimmed m"
  "trimmed (m\<lparr>mx_tsOffset := t\<rparr>) = trimmed m" "trimmed (publish m) = trimmed m"
  "trimmed (m\<lparr>mx_initBytesCache := h\<rparr>) = trimmed m"
  by (simp_all add: trimmed_def durations_def window_def publish_def)

text \<open>Eviction after a new segment was opened establishes it.\<close>

lemma evict_trimmed:
  assumes ok: "muxer_ok m" "sg_duration (last (window m)) = 0"
    and c: "0 \<le> mx_fragmentDuration m \<Longrightarrow> nonneg (last (window m))"
    and e: "0 < mx_minPlaylistDuration m \<Longrightarrow> 0 \<le> mx_fragmentDuration m \<Longrightarrow>
      enough (mx_mediaSequence m) (mx_minPlaylistDuration m) (durations m)"
  shows "trimmed (evictOldSegments m)"
  unfolding trimmed_def
proof (intro impI)
  note ev = evict_ok [OF ok]
  let ?n = "evictOldSegments m" and ?d = "evictByDuration m"
  have l: "mx_minPlaylistDuration ?n = mx_minPlaylistDuration m" "mx_fragmentDuration ?n = mx_fragmentDuration m"
    using ev limits_eqD by blast+
  assume "0 < mx_minPlaylistDuration ?n" "0 \<le> mx_fragmentDuration ?n"
  with l have p: "0 < mx_minPlaylistDuration m" "0 \<le> mx_fragmentDuration m" by simp_all
  then have n: "?n = cleanupInitCache ?d" by (simp add: evictOldSegments_def)
  then have d: "durations ?n = durations ?d" "mx_mediaSequence ?n = mx_mediaSequence ?d"
    by (simp_all add: durations_def cleanup_frame)
  have w: "window_ok m" "window_ok ?d"
    using ok(1) ev n by (auto simp: muxer_ok_def base_ok_def cleanup_frame)
  have "enough (mx_mediaSequence ?d) (mx_minPlaylistDuration m) (durations ?d)"
    using evictByDuration_bound [OF w(1)] e [OF p] playable_durations [OF w(2)] by (auto simp: enough_def)
  moreover have "tight (mx_minPlaylistDuration m) (durations ?d)" by (rule evictByDuration_tight [OF w(1)])
  moreover have "nonneg (last (window ?n))" using ev c p by simp
  ultimately show "nonneg (last (window ?n)) \<and> enough (mx_mediaSequence ?n) (mx_minPlaylistDuration ?n) (durations ?n) \<and>
      tight (mx_minPlaylistDuration ?n) (durations ?n)"
    by (simp only: d l)
qed

lemma new_window:
  assumes "window_ok p" "i = nat (mx_mediaSequence p) + length (window p)"
  shows "\<exists>c. window (new_segment d i p) = window p @ [c] \<and> sg_duration c = 0 \<and>
    (0 \<le> mx_fragmentDuration p \<longrightarrow> nonneg c)"
proof -
  let ?s = "(newSegment i (mx_fragmentDuration p) (mx_segmentDuration p) (mx_codecPars p))
     \<lparr>sg_discontinuity := d, sg_initVersion := mx_initVersion p\<rparr>"
  have "window (new_segment d i p) = window p @ [?s]"
    using add_window [OF assms(1), of ?s] assms(2) by (simp add: new_segment_def)
  then show ?thesis by (intro exI [of _ ?s]) (simp add: nonneg_def curFragment_def newSegment_def newFragment_def)
qed

lemma enough_snoc:
  assumes "enough b k (xs @ [x])" "0 \<le> y"
  shows "enough b k ((xs @ [y]) @ [z])"
  using assms by (auto simp: enough_def butlast_append)

lemma next_trimmed:
  assumes "muxer_ok m" "trimmed m"
  shows "\<exists>n. next_segment d m = (Inr (), n) \<and> muxer_ok n \<and> trimmed n \<and> settings n = settings m"
proof -
  from assms(1) obtain W s where w: "window m = W @ [s]" "\<forall>t\<in>set W. listed m t \<and> sg_finished t" "current m s"
    and b: "base_ok m" by (auto simp: muxer_ok_def)
  have cur: "getCurSegment m = (Inr s, m)" using getCur [of m] b w(1) by (simp add: base_ok_def)
  obtain t where t: "closeSeg s = Inr t" "same_segment s t" "sg_finished t" "segment_packets t = segment_packets s"
    using segment_closed [of s] w(3) by (auto simp: current_def listed_def)
  let ?p = "put_segment t m"
  have p: "base_ok ?p" "window ?p = W @ [t]" "\<forall>r\<in>set (window ?p). listed ?p r \<and> sg_finished r"
    using close_ok [OF b w t(2-4)] by simp_all
  have l: "length W < length (window m)" by (simp add: w(1) del: length_window)
  have "sg_id s = nat (mx_mediaSequence m) + length W"
    using window_id(3) [OF _ l] b w(1) by (simp add: base_ok_def)
  then have i: "sg_id t + 1 = nat (mx_mediaSequence ?p) + length (window ?p)"
    using t(2) p(2) by (simp add: same_segment_def del: length_window)
  have v: "mx_initCache ?p (mx_initVersion ?p) = Some (mx_codecPars ?p)"
    using w(3) settings_eqD(3,4) [OF put_settings(2), of t m] by (auto simp: current_def listed_def)
  let ?n = "new_segment d (sg_id t + 1) ?p"
  note n = new_ok [OF p(1,3) v i, of d]
  have lim: "mx_minPlaylistDuration ?n = mx_minPlaylistDuration m" "mx_fragmentDuration ?n = mx_fragmentDuration m"
    "mx_fragmentDuration ?p = mx_fragmentDuration m"
    using n limits_eqD put_settings(2) by metis+
  have "window_ok ?p" using p(1) by (simp add: base_ok_def)
  from new_window [OF this i, of d] obtain c where
    c: "window ?n = W @ [t, c]" "0 \<le> mx_fragmentDuration m \<Longrightarrow> nonneg c" by (auto simp: p(2) lim)
  have seq: "mx_mediaSequence ?n = mx_mediaSequence m" by (simp add: new_segment_def addSegment_def)
  have e: "enough (mx_mediaSequence ?n) (mx_minPlaylistDuration ?n) (durations ?n)"
    if "0 < mx_minPlaylistDuration ?n" "0 \<le> mx_fragmentDuration ?n"
  proof -
    have "enough (mx_mediaSequence m) (mx_minPlaylistDuration m) (map sg_duration W @ [sg_duration s])" "nonneg s"
      using assms(2) that [unfolded lim] w(1) by (simp_all add: trimmed_def durations_def)
    from enough_snoc [OF this(1), of "sg_duration t" "sg_duration c"] nonneg_close [OF t(1) this(2)]
    show ?thesis unfolding seq lim durations_def c(1) by simp
  qed
  have "nonneg (last (window ?n))" if "0 \<le> mx_fragmentDuration ?n" using that c unfolding lim by simp
  with n e have "trimmed (evictOldSegments ?n)" by (intro evict_trimmed) blast+
  moreover have "sg_id t = sg_id s" using t(2) by (simp add: same_segment_def)
  ultimately show ?thesis using evict_ok [of ?n] n
    by (simp add: next_segment_def sbind_def cur t(1) settings_dirty)
qed

section \<open>Every step keeps it\<close>

lemma epoch_trimmed:
  assumes "muxer_ok m" "trimmed m" "HLS_epoch p m = (r, n)"
  shows "trimmed n"
  using next_trimmed [of "m\<lparr>mx_tsOffset := hk_ts p\<rparr>" True] assms
  by (auto simp: HLS_epoch_def startDiscontinuitySegment_def sbind_def Let_def split: if_splits)

lemma see_cap_trimmed: "trimmed (see_cap c m) = trimmed m"
  by (simp add: see_cap_def trimmed_def durations_def window_def Let_def)

lemma rotate_trimmed:
  assumes "muxer_ok m" "trimmed m" "HLS_rotate p m = (r, n)"
  shows "trimmed n"
proof (cases "hk_video p")
  case True
  obtain s where s: "getCurSegment m = (Inr s, m)"
    using assms(1) getCur [of m] by (auto simp: muxer_ok_def base_ok_def)
  obtain due cap where d: "must_rotate m s p = (due, cap)" by fastforce
  obtain k where "next_segment False (see_cap cap m) = (Inr (), k)" "trimmed k"
    using next_trimmed [OF see_cap_ok(1) [OF assms(1)]] assms(2) by (auto simp: see_cap_trimmed)
  with assms True s d show ?thesis by (auto simp: HLS_rotate_def sbind_def split: if_splits)
qed (use assms in \<open>simp add: HLS_rotate_def\<close>)

lemma append_trimmed:
  assumes "muxer_ok m" "trimmed m" "HLS_append p m = (r, n)"
  shows "trimmed n"
proof -
  from assms(1) obtain W s where w: "window m = W @ [s]" "current m s" and b: "base_ok m" by (auto simp: muxer_ok_def)
  have cur: "getCurSegment m = (Inr s, m)" using getCur [of m] b w(1) by (simp add: base_ok_def)
  have s: "segment_ok s" "\<not> fr_finished (curFragment s)" using w(2) by (auto simp: current_def listed_def segment_ok_def)
  obtain t ch where t: "segment_writePacket p s = Inr (t, ch)" "same_segment s t" "segment_packets t = segment_packets s @ [p]"
    using segment_write [of s p] w(2) by (auto simp: current_def listed_def)
  let ?n = "(put_segment t m)\<lparr>mx_calls := mx_calls m @ map Retained [p]\<rparr>"
  have "window ?n = W @ [t]" using put_base(2) [OF b w(1) _ t(3)] t(2) by (simp add: same_segment_def)
  moreover have "n = ?n" using assms(3) cur t(1) by (simp add: HLS_append_def sbind_def)
  ultimately show ?thesis
    using nonneg_write [OF t(1) _ s(2)] by (intro trimmed_cong [OF assms(2) _ _ _ w(1)]) (simp_all add: put_segment_def)
qed

lemma refresh_trimmed: "trimmed (HLS_refresh p ch m) = trimmed m"
  by (simp add: HLS_refresh_def Let_def)

lemma write_trimmed:
  assumes "muxer_ok m" "opened m" "trimmed m"
  shows "trimmed (snd (HLS_WritePacket (Some p) m))"
proof (cases "mx_keyframeSplit m \<and> \<not> mx_gateOpen m \<and> \<not> canOpenTimelineEpoch m p")
  case True
  with assms show ?thesis by (simp add: HLS_WritePacket_def)
next
  case False
  let ?m = "if mx_keyframeSplit m then m\<lparr>mx_gateOpen := True\<rparr> else m"
  have m: "muxer_ok ?m" "trimmed ?m" using assms(1,3) by simp_all
  have "admits ?m p" using False assms(1,2)
    by (auto simp: admits_def opened_def independent_def canOpenTimelineEpoch_def muxer_ok_def base_ok_def)
  then obtain q m1 where e: "HLS_epoch p ?m = (Inr q, m1)" "muxer_ok m1" "admits m1 q" using epoch_ok m(1) by blast
  from rotate_ok [OF e(2,3)] obtain m2 where r: "HLS_rotate q m1 = (Inr (), m2)" "muxer_ok m2" "admits m2 q" by blast
  from append_ok [OF r(2,3)] obtain ch m3 where a: "HLS_append q m2 = (Inr ch, m3)" by blast
  from e(1) r(1) a have "HLS_WritePacket (Some p) m = (Inr (), HLS_refresh q ch m3)"
    unfolding HLS_WritePacket_def option.case if_not_P [OF False] by (simp add: sbind_def)
  moreover have "trimmed m3"
    using append_trimmed [OF r(2) rotate_trimmed [OF e(2) epoch_trimmed [OF m e(1)] r(1)] a] .
  ultimately show ?thesis by (simp add: refresh_trimmed)
qed

lemma update_trimmed:
  assumes "muxer_ok m" "trimmed m" "\<not> no_codecs c"
  shows "trimmed (snd (UpdateCodecParameters c m))"
proof -
  from assms(1) obtain W s where w: "window m = W @ [s]" "\<forall>t\<in>set W. listed m t \<and> sg_finished t" "current m s"
    and b: "base_ok m" by (auto simp: muxer_ok_def)
  have cur: "getCurSegment m = (Inr s, m)" using getCur [of m] b w(1) by (simp add: base_ok_def)
  let ?t = "force_close s" and ?v = "mx_initVersion m + 1"
  have t: "same_segment s ?t" "sg_finished ?t" "segment_packets ?t = segment_packets s"
    using segment_forced [of s] w(3) by (simp_all add: current_def listed_def)
  let ?p = "put_segment ?t m"
  have p: "base_ok ?p" "window ?p = W @ [?t]" "\<forall>r\<in>set (window ?p). listed ?p r \<and> sg_finished r"
    using close_ok [OF b w t] by simp_all
  let ?q = "?p\<lparr>mx_codecPars := c, mx_initVersion := ?v, mx_initCache := (mx_initCache ?p)(?v \<mapsto> c)\<rparr>"
  have q: "base_ok ?q" "window ?q = W @ [?t]" using p(1,2) by (simp_all add: state_defs)
  have ver: "mx_initVersion ?p = mx_initVersion m" using settings_eqD(4) [OF put_settings(2)] .
  have lst: "\<forall>r\<in>set (window ?q). listed ?q r \<and> sg_finished r"
  proof
    fix r assume "r \<in> set (window ?q)"
    then have "listed ?p r \<and> sg_finished r" using p(3) unfolding p(2) q(2) by blast
    then show "listed ?q r \<and> sg_finished r" using ver by (auto simp: listed_def independent_def)
  qed
  have l: "length W < length (window m)" by (simp add: w(1) del: length_window)
  have "sg_id s = nat (mx_mediaSequence m) + length W"
    using window_id(3) [OF _ l] b w(1) by (simp add: base_ok_def)
  then have i: "sg_id s + 1 = nat (mx_mediaSequence ?q) + length (window ?q)" using q(2) by (simp del: length_window)
  let ?n = "(new_segment True (sg_id s + 1) ?q)\<lparr>mx_gateOpen := False\<rparr>"
  have n: "muxer_ok ?n" "sg_duration (last (window ?n)) = 0" using new_ok [OF q(1) lst _ i] by simp_all
  have lim: "mx_minPlaylistDuration ?n = mx_minPlaylistDuration m" "mx_fragmentDuration ?n = mx_fragmentDuration m"
    "mx_mediaSequence ?n = mx_mediaSequence m" "mx_fragmentDuration ?q = mx_fragmentDuration m"
    by (simp_all add: new_segment_def addSegment_def put_segment_def)
  have "window_ok ?q" using q(1) by (simp add: base_ok_def)
  from new_window [OF this i, of True, unfolded q(2) lim(4)] obtain d where
    d0: "window (new_segment True (sg_id s + 1) ?q) = (W @ [?t]) @ [d]" and d1: "0 \<le> mx_fragmentDuration m \<longrightarrow> nonneg d" by blast
  have d: "window ?n = W @ [?t, d]" unfolding window_update d0 by simp
  have "enough (mx_mediaSequence ?n) (mx_minPlaylistDuration ?n) (durations ?n)"
    if "0 < mx_minPlaylistDuration ?n" "0 \<le> mx_fragmentDuration ?n"
  proof -
    have "enough (mx_mediaSequence m) (mx_minPlaylistDuration m) (map sg_duration W @ [sg_duration s])" "nonneg s"
      using assms(2) that [unfolded lim] w(1) by (simp_all add: trimmed_def durations_def)
    from enough_snoc [OF this(1), of "sg_duration ?t" "sg_duration d"] this(2)
    show ?thesis unfolding lim durations_def d by (simp add: nonneg_def)
  qed
  moreover have "nonneg (last (window ?n))" if "0 \<le> mx_fragmentDuration ?n" using that d1 unfolding lim d by simp
  ultimately have "trimmed (evictOldSegments ?n)" using n by (intro evict_trimmed) blast+
  moreover have "UpdateCodecParameters c m = (Inr (), publish (evictOldSegments ?n))"
    using assms(3) cur ver by (simp add: UpdateCodecParameters_def sbind_def Let_def)
  ultimately show ?thesis by simp
qed

lemma touch_trimmed:
  assumes "muxer_ok m" "trimmed m" "mx_segments m i = Some s" "sg_id t = sg_id s" "sg_duration t = sg_duration s" "nonneg t = nonneg s"
  shows "trimmed (put_segment t m)"
proof -
  have ok: "window_ok m" using assms(1) by (auto simp: muxer_ok_def base_ok_def)
  then have "i \<in> set (mx_segIDs m)" using assms(3) by (auto simp: window_ok_def)
  then obtain k where k: "k < length (window m)" "mx_segIDs m ! k = i" by (auto simp: in_set_conv_nth)
  have s: "window m ! k = s" "sg_id s = nat (mx_mediaSequence m) + k"
    using window_id [OF ok k(1)] k(2) assms(3) by simp_all
  have w: "window (put_segment t m) = (window m)[k := t]" using put_window [OF ok k(1)] s(2) assms(4) by simp
  have "durations (put_segment t m) = durations m" unfolding durations_def w
    using k(1) s(1) assms(5) by (intro list_update_map_id) simp_all
  moreover have "nonneg (last (window (put_segment t m))) = nonneg (last (window m))"
  proof -
    have "map nonneg ((window m)[k := t]) = map nonneg (window m)"
      using k(1) s(1) assms(6) by (intro list_update_map_id) simp_all
    moreover have "window m \<noteq> []" "(window m)[k := t] \<noteq> []" using k(1) by (auto simp: window_Nil)
    ultimately show ?thesis unfolding w by (metis last_map)
  qed
  ultimately show ?thesis using assms(2) by (simp add: trimmed_def put_segment_def)
qed

lemma request_trimmed:
  assumes "muxer_ok m" "opened m" "trimmed m"
  shows "trimmed (snd (HLS_GetSegment mp4 i m))" "trimmed (snd (HLS_GetFragment mp4 i k m))"
    "trimmed (snd (GetInitByVersion init v m))"
proof -
  have seg: "segment_ok s" if "mx_segments m i = Some s" for s
  proof -
    have ok: "window_ok m" using assms(1) by (auto simp: muxer_ok_def base_ok_def)
    from assms(1) have all: "\<forall>s\<in>set (window m). segment_ok s" by (auto simp: muxer_ok_def current_def listed_def)
    have "i \<in> set (mx_segIDs m)" using that ok by (auto simp: window_ok_def)
    then obtain j where j: "j < length (window m)" "mx_segIDs m ! j = i" by (auto simp: in_set_conv_nth)
    then have "s \<in> set (window m)" using window_id(1,2) [OF ok j(1)] that by (metis nth_mem option.inject)
    with all show ?thesis by blast
  qed
  show "trimmed (snd (HLS_GetSegment mp4 i m))"
  proof (cases "mx_segments m i")
    case (Some s)
    obtain b t where t: "segment_getMp4Buffer mp4 s = (b, t)" by fastforce
    with touch_trimmed [OF assms(1,3) Some, of t] segment_mp4 [OF seg [OF Some], of mp4] nonneg_mp4 [of mp4 s] assms(3) Some
    show ?thesis by (auto simp: HLS_GetSegment_def same_segment_def split: option.splits)
  qed (simp add: HLS_GetSegment_def assms)
  show "trimmed (snd (HLS_GetFragment mp4 i k m))"
  proof (cases "mx_segments m i")
    case (Some s)
    obtain b t where t: "getFragment mp4 k s = (b, t)" by fastforce
    with touch_trimmed [OF assms(1,3) Some, of t] segment_fragment [OF seg [OF Some], of mp4 k] nonneg_fragment [of mp4 k s]
      assms(3) Some
    show ?thesis by (auto simp: HLS_GetFragment_def same_segment_def split: option.splits reply.splits)
  qed (simp add: HLS_GetFragment_def assms)
  show "trimmed (snd (GetInitByVersion init v m))"
    using assms by (simp add: GetInitByVersion_def split: option.split sum.split)
qed

lemma mux_trimmed:
  fixes m :: "'p hls_muxer"
  assumes "HLS_Mux c (NewHLSMuxer d n opts) = (Inr (), m)"
  shows "trimmed m"
proof -
  let ?m = "(NewHLSMuxer d n opts)\<lparr>mx_codecPars := c, mx_initVersion := 0, mx_initCache := [0 \<mapsto> c]\<rparr> :: 'p hls_muxer"
  have m: "m = (new_segment False 0 ?m)\<lparr>mx_manifestDirty := True\<rparr>"
    using assms by (auto simp: HLS_Mux_def split: if_splits sum.splits)
  have "window_ok ?m" "window ?m = []" by (simp_all add: window_ok_def window_def)
  with new_window [of ?m 0 False] obtain s where
    s: "window (new_segment False 0 ?m) = [s]" "0 \<le> mx_fragmentDuration ?m \<longrightarrow> nonneg s" by auto
  have "mx_mediaSequence m = 0" "mx_fragmentDuration m = mx_fragmentDuration ?m"
    by (simp_all add: m new_segment_def addSegment_def)
  moreover have "window m = [s]" using s(1) by (simp add: m)
  moreover have "durations m = [sg_duration s]" using \<open>window m = [s]\<close> by (simp add: durations_def)
  ultimately show ?thesis using s(2) by (simp add: trimmed_def enough_def tight_def)
qed

lemma hls_step_trimmed:
  assumes "hls_step mp4 init m n" "muxer_ok m" "opened m" "trimmed m"
  shows "trimmed n"
  using assms(1)
proof (cases rule: hls_step.cases)
  case (packet p)
  show ?thesis
  proof (cases p)
    case None
    with packet assms(4) show ?thesis by (simp add: HLS_WritePacket_def)
  next
    case (Some q)
    with packet write_trimmed [OF assms(2-4)] show ?thesis by simp
  qed
next
  case (codec c)
  with update_trimmed [OF assms(2,4), of c] assms(4) show ?thesis
    by (cases "no_codecs c") (simp_all add: UpdateCodecParameters_def)
qed (use request_trimmed [OF assms(2-4)] in auto)

lemma hls_reach_trimmed: "hls_reach mp4 init m \<Longrightarrow> trimmed m"
proof (induction rule: hls_reach.induct)
  case (start d c n opts m)
  then show ?case using mux_trimmed by blast
next
  case (step m n)
  with hls_step_trimmed hls_reach_ok [OF step(1)] show ?case by blast
qed

section \<open>Properties\<close>

text \<open>C10: In every reachable state of a muxer with a minimal playlist duration: once a segment was evicted (the media
  sequence number is no longer 0), a closed segment stays in front of the current one and the closed
  segments of the playlist last at least the minimum; and the oldest of them is needed for that: without it there would be
  less than the minimum, or no more than one closed segment is left.  So eviction takes every segment it may take
  and none it may not.  The fragment duration must not be negative: only then no segment is shorter than nothing.\<close>

theorem hls_min_playlist_duration:
  assumes "hls_reach mp4 init m" and "0 < mx_minPlaylistDuration m" and "0 \<le> mx_fragmentDuration m"
  shows "(0 < mx_mediaSequence m \<longrightarrow> 2 \<le> length (mx_segIDs m) \<and>
      mx_minPlaylistDuration m \<le> (\<Sum>i\<leftarrow>butlast (mx_segIDs m). seg_duration m i)) \<and>
    (length (mx_segIDs m) \<le> 2 \<or> (\<Sum>i\<leftarrow>tl (butlast (mx_segIDs m)). seg_duration m i) < mx_minPlaylistDuration m)"
proof -
  have ok: "window_ok m" using hls_reach_ok [OF assms(1)] by (auto simp: muxer_ok_def base_ok_def)
  have t: "enough (mx_mediaSequence m) (mx_minPlaylistDuration m) (durations m)" "tight (mx_minPlaylistDuration m) (durations m)"
    using hls_reach_trimmed [OF assms(1)] assms(2,3) by (simp_all add: trimmed_def)
  have d: "map (seg_duration m) (mx_segIDs m) = durations m"
    unfolding durations_def window_def map_map using ok by (force simp: window_ok_def seg_duration_def)
  have "map (seg_duration m) (butlast (mx_segIDs m)) = butlast (durations m)"
    "map (seg_duration m) (tl (butlast (mx_segIDs m))) = butlast (tl (durations m))"
    by (simp_all only: d [symmetric] map_butlast map_tl butlast_tl)
  with t show ?thesis by (simp add: enough_def tight_def)
qed

section \<open>A camera that evicts\<close>

text \<open>Key frames of a second each: the fifth opens the third segment, and the first one is evicted.\<close>

definition hls_after :: "nat \<Rightarrow> nat hls_muxer" where
  "hls_after n = fold (\<lambda>k m. snd (HLS_WritePacket (Some (camera_frame (int k * 1000 * Millisecond) True)) m)) [0..<n] hls0"

lemma hls_after_reach: "hls_reach mp4 init (hls_after n)"
  by (induction n) (auto simp: hls_after_def hls_reach01 intro: hls_reach.step hls_step.packet)

lemma hls_after_5: "mx_mediaSequence (hls_after 5) = 1 \<and> mx_segIDs (hls_after 5) = [1, 2] \<and>
    mx_minPlaylistDuration (hls_after 5) = 1 \<and> 0 \<le> mx_fragmentDuration (hls_after 5)"
  by code_simp

theorem hls_min_playlist_duration_witness: "1 \<le> seg_duration (hls_after 5) 1"
  using hls_min_playlist_duration [OF hls_after_reach, of 5] hls_after_5 by simp

end
