(* ===== verification/Mp4Box.thy ===== *)
theory Mp4Box
  imports Complex_Main Wbuf
begin

text \<open>
  The common part of \<open>format/mp4/mp4io\<close> (\<open>mp4io.go\<close>, \<open>parse_error.go\<close>): times and fixed-point
  numbers, the frame of a box, the checked readers every \<open>Unmarshal\<close> is made of, and the loop over
  the children of a container.

  A reader gets the slice from the current offset on, and that offset counted from the start of
  the file (\<open>n+offset\<close> in the code).  The result is \<open>None\<close> when the code never returns.  The
  position an atom was read at (\<open>AtomPos\<close>), which only the printing code reads, and the number
  of bytes read, which every caller drops, are not part of the model.
\<close>

section \<open>Times\<close>

text \<open>
  An instant is the number of nanoseconds since 1904-01-01.  \<open>Time.Sub\<close> saturates at the limits of
  a 64-bit \<open>Duration\<close>; the division truncates towards zero.
\<close>

type_synonym time = int

definition second :: int where
  "second = 1000000000"

definition time_Sub :: "time \<Rightarrow> int" where
  "time_Sub t = max (- (2 ^ 63)) (min (2 ^ 63 - 1) t)"

definition quot :: "int \<Rightarrow> int \<Rightarrow> int" where
  "quot a b = sgn a * (\<bar>a\<bar> div b)"

definition GetTime32 :: "bytes \<Rightarrow> time res" where
  "GetTime32 b = ebind (U32BE b) (\<lambda>sec. Inr (second * uint sec))"

definition PutTime32 :: "time \<Rightarrow> bytes" where
  "PutTime32 t = be32 (word_of_int (quot (time_Sub t) second))"

definition GetTime64 :: "bytes \<Rightarrow> time res" where
  "GetTime64 b = ebind (U64BE b) (\<lambda>sec. Inr (sint (word_of_int second * sec)))"

definition PutTime64 :: "time \<Rightarrow> bytes" where
  "PutTime64 t = be64 (word_of_int (quot (time_Sub t) second))"

section \<open>Fixed-point numbers\<close>

text \<open>
  A \<open>float64\<close> is a rational.  The conversion of a number outside the range of the unsigned type,
  which Go leaves to the implementation, wraps here as it does on amd64.
\<close>

definition Modf_int :: "rat \<Rightarrow> int" where
  "Modf_int f = (if 0 \<le> f then \<lfloor>f\<rfloor> else \<lceil>f\<rceil>)"

definition Modf_frac :: "rat \<Rightarrow> rat" where
  "Modf_frac f = f - of_int (Modf_int f)"

definition PutFixed16 :: "rat \<Rightarrow> bytes" where
  "PutFixed16 f = [word_of_int (Modf_int f), word_of_int (Modf_int (Modf_frac f * 256))]"

definition GetFixed16 :: "bytes \<Rightarrow> rat res" where
  "GetFixed16 b = ebind (U8 b) (\<lambda>x. ebind (U8 (drop 1 b)) (\<lambda>y.
     Inr (of_int (uint x) + of_int (uint y) / 256)))"

definition PutFixed32 :: "rat \<Rightarrow> bytes" where
  "PutFixed32 f = be16 (word_of_int (Modf_int f)) @ be16 (word_of_int (Modf_int (Modf_frac f * 65536)))"

definition GetFixed32 :: "bytes \<Rightarrow> rat res" where
  "GetFixed32 b = ebind (U16BE b) (\<lambda>x. ebind (U16BE (drop 2 b)) (\<lambda>y.
     Inr (of_int (uint x) + of_int (uint y) / 65536)))"

section \<open>Errors\<close>

text \<open>The chain of a \<open>ParseError\<close>, the outermost entry first.\<close>

datatype atom_err = ParseError "(string \<times> nat) list" | AtomPanic

type_synonym 'a outcome = "(atom_err + 'a) option"

fun parseErr :: "string \<Rightarrow> nat \<Rightarrow> atom_err \<Rightarrow> atom_err" where
  "parseErr dbg off (ParseError prev) = ParseError ((dbg, off) # prev)"
| "parseErr dbg off AtomPanic = AtomPanic"

definition parse_error :: "string \<Rightarrow> nat \<Rightarrow> 'a outcome" where
  "parse_error dbg off = Some (Inl (parseErr dbg off (ParseError [])))"

section \<open>Boxes\<close>

type_synonym Tag = "32 word"

definition HeaderSize :: nat where
  "HeaderSize = 8"

text \<open>The frame every \<open>Marshal\<close> writes around its \<open>marshal\<close>: the tag, the body, then the size.\<close>

definition wr_atom :: "Tag \<Rightarrow> wr \<Rightarrow> wr" where
  "wr_atom tag body = (\<lambda>(b, n).
     ebind (wr_put (be32 tag) (b, n + 4)) (\<lambda>(b1, _).
     ebind (body (b1, n + HeaderSize)) (\<lambda>(b2, m).
     ebind (wr_put (be32 (word_of_nat (m - n))) (b2, n)) (\<lambda>(b3, _). Inr (b3, m)))))"

definition wr_opt :: "('a \<Rightarrow> wr) \<Rightarrow> 'a option \<Rightarrow> wr" where
  "wr_opt f x = (case x of None \<Rightarrow> wr_none | Some a \<Rightarrow> f a)"

definition wr_when :: "bool \<Rightarrow> wr \<Rightarrow> wr" where
  "wr_when c w = (if c then w else wr_none)"

text \<open>The fields whose width depends on the version of the box.\<close>

definition put_time :: "byte \<Rightarrow> time \<Rightarrow> bytes" where
  "put_time version t = (if version = 1 then PutTime64 t else PutTime32 t)"

definition put_duration :: "byte \<Rightarrow> 64 word \<Rightarrow> bytes" where
  "put_duration version d = (if version = 1 then be64 d else be32 (ucast d))"

text \<open>What that frame is, as bytes.\<close>

definition box :: "Tag \<Rightarrow> bytes \<Rightarrow> bytes" where
  "box tag body = be32 (word_of_nat (8 + length body)) @ be32 tag @ body"

definition opt_bytes :: "('a \<Rightarrow> bytes) \<Rightarrow> 'a option \<Rightarrow> bytes" where
  "opt_bytes f x = (case x of None \<Rightarrow> [] | Some a \<Rightarrow> f a)"

definition opt_len :: "('a \<Rightarrow> nat) \<Rightarrow> 'a option \<Rightarrow> nat" where
  "opt_len f x = (case x of None \<Rightarrow> 0 | Some a \<Rightarrow> f a)"

definition opt_all :: "('a \<Rightarrow> bool) \<Rightarrow> 'a option \<Rightarrow> bool" where
  "opt_all P x = (case x of None \<Rightarrow> True | Some a \<Rightarrow> P a)"

section \<open>Readers\<close>

type_synonym 'r rd = "bytes \<Rightarrow> nat \<Rightarrow> 'r outcome"

text \<open>\<open>if len(b) < n+k ... parseErr(d); v = get(b[n:]); n += k\<close>\<close>

definition field :: "string \<Rightarrow> nat \<Rightarrow> (bytes \<Rightarrow> 'v res) \<Rightarrow> ('v \<Rightarrow> 'r rd) \<Rightarrow> 'r rd" where
  "field d k get c b p = (if length b < k then parse_error d p
     else case get b of Inl _ \<Rightarrow> Some (Inl AtomPanic) | Inr v \<Rightarrow> c v (drop k b) (p + k))"

text \<open>The same without the check.\<close>

definition bare :: "nat \<Rightarrow> (bytes \<Rightarrow> 'v res) \<Rightarrow> ('v \<Rightarrow> 'r rd) \<Rightarrow> 'r rd" where
  "bare k get c b p = (case get b of Inl _ \<Rightarrow> Some (Inl AtomPanic) | Inr v \<Rightarrow> c v (drop k b) (p + k))"

definition pad :: "nat \<Rightarrow> 'r rd \<Rightarrow> 'r rd" where
  "pad k c b p = c (drop k b) (p + k)"

text \<open>A field that is only there under a condition; the struct keeps its zero value otherwise.\<close>

definition field_if :: "bool \<Rightarrow> string \<Rightarrow> nat \<Rightarrow> (bytes \<Rightarrow> 'v res) \<Rightarrow> 'v \<Rightarrow> ('v \<Rightarrow> 'r rd) \<Rightarrow> 'r rd" where
  "field_if cnd d k get dflt c = (if cnd then field d k get c else c dflt)"

definition bare_if :: "bool \<Rightarrow> nat \<Rightarrow> (bytes \<Rightarrow> 'v res) \<Rightarrow> 'v \<Rightarrow> ('v \<Rightarrow> 'r rd) \<Rightarrow> 'r rd" where
  "bare_if cnd k get dflt c = (if cnd then bare k get c else c dflt)"

definition time_field :: "byte \<Rightarrow> string \<Rightarrow> (time \<Rightarrow> 'r rd) \<Rightarrow> 'r rd" where
  "time_field version d = (if version = 1 then field d 8 GetTime64 else field d 4 GetTime32)"

definition duration_field :: "byte \<Rightarrow> (64 word \<Rightarrow> 'r rd) \<Rightarrow> 'r rd" where
  "duration_field version c = (if version = 1 then field ''Duration'' 8 I64BE c
     else field ''Duration'' 4 I32BE (\<lambda>d. c (scast d)))"

fun many :: "(bytes \<Rightarrow> 'v res) \<Rightarrow> nat \<Rightarrow> nat \<Rightarrow> bytes \<Rightarrow> 'v list res" where
  "many get k 0 b = Inr []"
| "many get k (Suc i) b = ebind (get b) (\<lambda>v. ebind (many get k i (drop k b)) (\<lambda>vs. Inr (v # vs)))"

definition table :: "string \<Rightarrow> nat \<Rightarrow> (bytes \<Rightarrow> 'v res) \<Rightarrow> nat \<Rightarrow> ('v list \<Rightarrow> 'r rd) \<Rightarrow> 'r rd" where
  "table d k get cnt = field d (k * cnt) (many get k cnt)"

text \<open>\<open>copy(arr[:], b[n:])\<close> behind a check, for an array of \<open>k\<close> bytes.\<close>

definition raw :: "nat \<Rightarrow> bytes \<Rightarrow> bytes res" where
  "raw k b = Inr (take k b)"

definition finish :: "'r \<Rightarrow> 'r rd" where
  "finish r b p = Some (Inr r)"

text \<open>\<open>self.Data = b[n:]\<close>, where \<open>n\<close> may lie behind the end of the slice.\<close>

definition tail_from :: "nat \<Rightarrow> bytes \<Rightarrow> (bytes \<Rightarrow> 'r outcome) \<Rightarrow> 'r outcome" where
  "tail_from n b c = (if length b < n then Some (Inl AtomPanic) else c (drop n b))"

text \<open>One child atom of a container: its error gets the name of the box in front.\<close>

definition child :: "string \<Rightarrow> ('a rd) \<Rightarrow> ('a \<Rightarrow> 'm) \<Rightarrow> bytes \<Rightarrow> nat \<Rightarrow> 'm outcome" where
  "child dbg unmarshal upd b p = map_option (\<lambda>r. case r of
     Inl e \<Rightarrow> Inl (parseErr dbg p e) | Inr a \<Rightarrow> Inr (upd a)) (unmarshal b p)"

text \<open>
  The loop \<open>for n+8 < len(b)\<close> over the children.  \<open>known\<close> is the \<open>switch\<close> on the tag.
\<close>

partial_function (option) children ::
    "(Tag \<Rightarrow> bytes \<Rightarrow> nat \<Rightarrow> 'm \<Rightarrow> 'm outcome) \<Rightarrow> 'm \<Rightarrow> bytes \<Rightarrow> nat \<Rightarrow> 'm outcome" where
  "children known m b p =
     (if \<not> 8 < length b then Some (Inr m)
      else case U32BE (drop 4 b) of Inl _ \<Rightarrow> Some (Inl AtomPanic) | Inr tag \<Rightarrow>
        (case U32BE b of Inl _ \<Rightarrow> Some (Inl AtomPanic) | Inr sz \<Rightarrow>
          if length b < unat sz then parse_error ''TagSizeInvalid'' p
          else Option.bind (known tag (take (unat sz) b) p m) (\<lambda>r.
            case r of Inl e \<Rightarrow> Some (Inl e)
            | Inr m' \<Rightarrow> children known m' (drop (unat sz) b) (p + unat sz))))"

section \<open>What can be read back\<close>

definition time32_ok :: "time \<Rightarrow> bool" where
  "time32_ok t \<longleftrightarrow> 0 \<le> t \<and> t < second * 2 ^ 32"

definition time64_ok :: "time \<Rightarrow> bool" where
  "time64_ok t \<longleftrightarrow> 0 \<le> t \<and> t < 2 ^ 63"

text \<open>The boxes store whole seconds: the fraction of a time is lost.\<close>

definition whole_seconds :: "time \<Rightarrow> time" where
  "whole_seconds t = second * (t div second)"

definition fixed32_ok :: "rat \<Rightarrow> bool" where
  "fixed32_ok f \<longleftrightarrow> 0 \<le> f \<and> f < 65536 \<and> of_int \<lfloor>f * 65536\<rfloor> = f * 65536"

definition fixed16_ok :: "rat \<Rightarrow> bool" where
  "fixed16_ok f \<longleftrightarrow> 0 \<le> f \<and> f < 256 \<and> of_int \<lfloor>f * 256\<rfloor> = f * 256"

definition flags_ok :: "32 word \<Rightarrow> bool" where
  "flags_ok f \<longleftrightarrow> f AND mask 24 = f"

lemma stored_seconds:
  assumes "0 \<le> t" "t < 2 ^ 63"
  shows "quot (time_Sub t) second = t div second" "0 \<le> t div second" "whole_seconds t \<le> t" "0 \<le> whole_seconds t"
proof -
  show "quot (time_Sub t) second = t div second"
    using assms by (cases "t = 0") (auto simp: quot_def time_Sub_def)
  show "0 \<le> t div second" "whole_seconds t \<le> t" "0 \<le> whole_seconds t"
    using assms by (auto simp: whole_seconds_def second_def)
qed

lemma GetTime32_Put: "time32_ok t \<Longrightarrow> GetTime32 (PutTime32 t @ r) = Inr (whole_seconds t)"
proof -
  assume ok: "time32_ok t"
  then have t: "0 \<le> t" "t < 2 ^ 63" by (auto simp: time32_ok_def second_def)
  have "t div second < 2 ^ 32" using ok unfolding time32_ok_def second_def by linarith
  with stored_seconds [OF t] show ?thesis
    by (simp add: GetTime32_def PutTime32_def uint_word_of_int whole_seconds_def)
qed

lemma GetTime64_Put: "time64_ok t \<Longrightarrow> GetTime64 (PutTime64 t @ r) = Inr (whole_seconds t)"
proof -
  assume ok: "time64_ok t"
  then have t: "0 \<le> t" "t < 2 ^ 63" by (auto simp: time64_ok_def)
  have "word_of_int second * word_of_int (quot (time_Sub t) second) = (word_of_int (whole_seconds t) :: 64 word)"
    unfolding stored_seconds(1) [OF t] whole_seconds_def by simp
  moreover have "sint (word_of_int (whole_seconds t) :: 64 word) = whole_seconds t"
    using stored_seconds(3,4) [OF t] t by (simp add: signed_of_int signed_take_bit_int_eq_self)
  ultimately show ?thesis by (simp add: GetTime64_def PutTime64_def)
qed

lemma length_put [simp]:
  "length (PutTime32 t) = 4" "length (PutTime64 t) = 8" "length (PutFixed16 f) = 2" "length (PutFixed32 f) = 4"
  by (simp_all add: PutTime32_def PutTime64_def PutFixed16_def PutFixed32_def)

lemma unsigned_word_of_int_small:
  "0 \<le> k \<Longrightarrow> k < 2 ^ LENGTH('a::len) \<Longrightarrow> unsigned (word_of_int k :: 'a word) = (of_int k :: rat)"
  by (simp add: unsigned_of_int take_bit_int_eq_self)

lemma fixed_split:
  fixes f :: rat and k :: int
  assumes "0 \<le> f" "0 < k" "of_int \<lfloor>f * of_int k\<rfloor> = f * of_int k"
  shows "of_int \<lfloor>f\<rfloor> + of_int (Modf_int (Modf_frac f * of_int k)) / of_int k = f"
    and "0 \<le> Modf_int (Modf_frac f * of_int k)" "Modf_int (Modf_frac f * of_int k) < k"
proof -
  define g where "g = \<lfloor>f * of_int k\<rfloor> - \<lfloor>f\<rfloor> * k"
  have m: "Modf_int f = \<lfloor>f\<rfloor>" using assms by (simp add: Modf_int_def)
  have e: "Modf_frac f * of_int k = of_int g"
    unfolding g_def of_int_diff assms(3) by (simp add: Modf_frac_def m left_diff_distrib)
  have "0 \<le> Modf_frac f * of_int k" using assms by (simp add: Modf_frac_def m)
  moreover have "Modf_frac f < 1" by (simp add: Modf_frac_def m) linarith
  then have "Modf_frac f * of_int k < of_int k" using assms(2) by simp
  ultimately have g: "0 \<le> g" "g < k" unfolding e by auto
  then have i: "Modf_int (Modf_frac f * of_int k) = g" by (simp add: Modf_int_def e)
  show "0 \<le> Modf_int (Modf_frac f * of_int k)" "Modf_int (Modf_frac f * of_int k) < k" using g i by simp_all
  have "of_int g / of_int k = Modf_frac f" using e assms(2) by (simp add: field_simps)
  then show "of_int \<lfloor>f\<rfloor> + of_int (Modf_int (Modf_frac f * of_int k)) / of_int k = f"
    unfolding i by (simp add: Modf_frac_def m)
qed

lemma GetFixed32_Put:
  assumes "fixed32_ok f" shows "GetFixed32 (PutFixed32 f @ r) = Inr f"
proof -
  have f: "0 \<le> f" "f < 65536" "of_int \<lfloor>f * of_int 65536\<rfloor> = f * of_int 65536"
    using assms by (simp_all add: fixed32_ok_def)
  note s = fixed_split [OF f(1) _ f(3), simplified]
  have "0 \<le> \<lfloor>f\<rfloor>" "\<lfloor>f\<rfloor> < 65536" using f by (simp_all add: floor_less_iff)
  moreover have "Modf_int f = \<lfloor>f\<rfloor>" using f(1) by (simp add: Modf_int_def)
  ultimately show ?thesis using s by (simp add: GetFixed32_def PutFixed32_def unsigned_word_of_int_small)
qed

lemma GetFixed16_Put:
  assumes "fixed16_ok f" shows "GetFixed16 (PutFixed16 f @ r) = Inr f"
proof -
  have f: "0 \<le> f" "f < 256" "of_int \<lfloor>f * of_int 256\<rfloor> = f * of_int 256"
    using assms by (simp_all add: fixed16_ok_def)
  note s = fixed_split [OF f(1) _ f(3), simplified]
  have "0 \<le> \<lfloor>f\<rfloor>" "\<lfloor>f\<rfloor> < 256" using f by (simp_all add: floor_less_iff)
  moreover have "Modf_int f = \<lfloor>f\<rfloor>" using f(1) by (simp add: Modf_int_def)
  ultimately show ?thesis using s by (simp add: GetFixed16_def PutFixed16_def unsigned_word_of_int_small)
qed

section \<open>Readers on what writers wrote\<close>

named_theorems reader_simps "a reader applied to the bytes of its field"

lemma field_one [reader_simps]: "field d (Suc 0) U8 c (x # r) p = c x r (p + 1)"
  by (simp add: field_def)

lemma field_be [reader_simps]:
  "field d 2 U16BE c2 (be16 v @ r) p = c2 v r (p + 2)"
  "field d 2 I16BE c2 (be16 v @ r) p = c2 v r (p + 2)"
  "field d 4 U32BE c4 (be32 w @ r) p = c4 w r (p + 4)"
  "field d 4 I32BE c4 (be32 w @ r) p = c4 w r (p + 4)"
  "field d 8 U64BE c8 (be64 x @ r) p = c8 x r (p + 8)"
  "field d 8 I64BE c8 (be64 x @ r) p = c8 x r (p + 8)"
  by (simp_all add: field_def)

lemma field_flags [reader_simps]: "flags_ok w \<Longrightarrow> field d 3 U24BE c (be24 w @ r) p = c w r (p + 3)"
  by (simp add: field_def flags_ok_def)

lemma field_time [reader_simps]:
  "time32_ok t \<Longrightarrow> field d 4 GetTime32 c (PutTime32 t @ r) p = c (whole_seconds t) r (p + 4)"
  "time64_ok t \<Longrightarrow> field d 8 GetTime64 c (PutTime64 t @ r) p = c (whole_seconds t) r (p + 8)"
  by (simp_all add: field_def GetTime32_Put GetTime64_Put)

lemma field_fixed [reader_simps]:
  "fixed16_ok f \<Longrightarrow> field d 2 GetFixed16 c (PutFixed16 f @ r) p = c f r (p + 2)"
  "fixed32_ok f \<Longrightarrow> field d 4 GetFixed32 c (PutFixed32 f @ r) p = c f r (p + 4)"
  by (simp_all add: field_def GetFixed16_Put GetFixed32_Put)

lemma field_raw [reader_simps]: "length xs = k \<Longrightarrow> field d k (raw k) c (xs @ r) p = c xs r (p + k)"
  by (auto simp add: field_def raw_def)

lemma bare_be32 [reader_simps]: "bare 4 U32BE c (be32 w @ r) p = c w r (p + 4)"
  by (simp add: bare_def)

lemma pad_zeros [reader_simps]: "pad k c (replicate k 0 @ r) p = c r (p + k)"
  by (simp add: pad_def)

lemma many_map:
  assumes "\<And>x r. x \<in> set xs \<Longrightarrow> get (put x @ r) = Inr x" "\<And>x. length (put x) = k"
  shows "many get k (length xs) (concat (map put xs) @ r) = Inr xs"
  using assms(1) by (induction xs) (simp_all add: assms(2))

lemma table_map:
  assumes "\<And>x r. get (put x @ r) = Inr x" "\<And>x. length (put x) = k" "length xs = cnt"
  shows "table d k get cnt c (concat (map put xs) @ r) p = c xs r (p + k * cnt)"
proof -
  have "length (concat (map put xs)) = k * cnt"
    unfolding assms(3) [symmetric] by (induction xs) (simp_all add: assms(2))
  with many_map [of xs get put k r] show ?thesis
    by (simp add: table_def field_def assms)
qed

lemma table_words [reader_simps]:
  "length vs = cnt \<Longrightarrow> table d 2 I16BE cnt c2 (concat (map be16 vs) @ r) p = c2 vs r (p + 2 * cnt)"
  "length ws = cnt \<Longrightarrow> table d 4 U32BE cnt c4 (concat (map be32 ws) @ r) p = c4 ws r (p + 4 * cnt)"
  "length ws = cnt \<Longrightarrow> table d 4 I32BE cnt c4 (concat (map be32 ws) @ r) p = c4 ws r (p + 4 * cnt)"
  "length xs = cnt \<Longrightarrow> table d 8 U64BE cnt c8 (concat (map be64 xs) @ r) p = c8 xs r (p + 8 * cnt)"
  by (rule table_map; simp)+

lemma table_none [reader_simps]: "table d k get 0 c r p = c [] r p"
  by (simp add: table_def field_def)

lemma finish_apply [reader_simps]: "finish x b p = Some (Inr x)"
  by (simp add: finish_def)

lemma length_box [simp]: "length (box tag body) = 8 + length body"
  by (simp add: box_def)

lemma drop_box [simp]: "drop 8 (box tag body) = body"
  by (simp add: box_def)

lemma pad_box [reader_simps]: "pad 8 c (box tag body) p = c body (p + 8)"
  by (simp add: pad_def box_def)

lemma tail_box [reader_simps]: "tail_from 8 (box tag body) c = c body"
  by (simp add: tail_from_def box_def)

definition if_set :: "bool \<Rightarrow> bytes \<Rightarrow> bytes" where
  "if_set c xs = (if c then xs else [])"

lemma field_when [reader_simps]:
  "c \<or> w = dflt \<Longrightarrow> field_if c d 4 U32BE dflt c4 (if_set c (be32 w) @ r) p = c4 w r (p + (if c then 4 else 0))"
  "c \<or> x = dflt8 \<Longrightarrow> field_if c d 8 U64BE dflt8 c8 (if_set c (be64 x) @ r) p = c8 x r (p + (if c then 8 else 0))"
  "c \<or> w = dflt \<Longrightarrow> bare_if c 4 U32BE dflt c4 (if_set c (be32 w) @ r) p = c4 w r (p + (if c then 4 else 0))"
  by (auto simp: field_if_def bare_if_def if_set_def field_be bare_be32)

definition time_ok :: "byte \<Rightarrow> time \<Rightarrow> bool" where
  "time_ok version t = (if version = 1 then time64_ok t else time32_ok t)"

definition duration_ok :: "byte \<Rightarrow> 64 word \<Rightarrow> bool" where
  "duration_ok version d \<longleftrightarrow> version = 1 \<or> scast (ucast d :: 32 word) = d"

lemma time_field [reader_simps]:
  "time_ok v t \<Longrightarrow> time_field v d c (put_time v t @ r) p = c (whole_seconds t) r (p + (if v = 1 then 8 else 4))"
  by (simp add: time_ok_def time_field_def put_time_def field_time split: if_splits)

lemma duration_field [reader_simps]:
  "duration_ok v t \<Longrightarrow> duration_field v c (put_duration v t @ r) p = c t r (p + (if v = 1 then 8 else 4))"
  by (auto simp add: duration_ok_def duration_field_def put_duration_def field_be)

lemma length_versioned [simp]:
  "length (put_time v t) = (if v = 1 then 8 else 4)" "length (put_duration v d) = (if v = 1 then 8 else 4)"
  "length (if_set c xs) = (if c then length xs else 0)"
  by (simp_all add: put_time_def put_duration_def if_set_def)

lemma length_words [simp]:
  "length (concat (map be16 vs)) = 2 * length vs" "length (concat (map be32 ws)) = 4 * length ws"
  "length (concat (map be64 xs)) = 8 * length xs"
  by (induction vs, simp_all) (induction ws, simp_all, induction xs, simp_all)

text \<open>The last field of a box.\<close>

lemmas reader_last [reader_simps] =
  field_one [where r = "[]", simplified] field_be [where r = "[]", simplified]
  field_flags [where r = "[]", simplified] field_fixed [where r = "[]", simplified]
  table_words [where r = "[]", simplified] field_when [where r = "[]", simplified]
  bare_be32 [where r = "[]", simplified] duration_field [where r = "[]", simplified]

section \<open>Writers of boxes\<close>

lemma writes_when [writes_intros]: "writes w xs \<Longrightarrow> writes (wr_when c w) (if_set c xs)"
  by (simp add: wr_when_def if_set_def writes_none)

lemma writes_atom [writes_intros]:
  assumes "writes w xs" shows "writes (wr_atom tag w) (box tag xs)"
  unfolding writes_def
proof (intro allI impI)
  fix b n assume len: "n + length (box tag xs) \<le> length b" and z: "zero_on n (length (box tag xs)) b"
  let ?b1 = "put_at b (n + 4) (be32 tag)"
  have z1: "zero_on (n + 8) (length xs) ?b1"
    using zero_on_put_at [of "n + 4" "be32 tag" "length xs" b] len z by (simp add: zero_on_def)
  have "w (?b1, n + 8) = Inr (put_at ?b1 (n + 8) xs, n + 8 + length xs)"
    using len by (intro writes_onD [OF assms _ z1]) simp
  then show "wr_atom tag w (b, n) = Inr (put_at b n (box tag xs), n + length (box tag xs))"
    using len by (simp add: wr_atom_def wr_put_def HeaderSize_def put_at_def box_def ac_simps)
qed

lemma writes_opt [writes_intros]: "(\<And>a. writes (f a) (g a)) \<Longrightarrow> writes (wr_opt f x) (opt_bytes g x)"
  by (cases x) (simp_all add: wr_opt_def opt_bytes_def writes_none)

lemma wr_then_none [simp]: "wr_then w wr_none = w"
proof
  show "wr_then w wr_none s = w s" for s by (cases "w s") (simp_all add: wr_then_def wr_none_def)
qed

lemma writes_byte [writes_intros]: "writes w ys \<Longrightarrow> writes (wr_then (wr_put [x]) w) (x # ys)"
  using writes_then [OF writes_put, of w ys "[x]"] by simp

section \<open>Containers\<close>

lemma child_ok: "unmarshal b p = Some (Inr a) \<Longrightarrow> child d unmarshal upd b p = Some (Inr (upd a))"
  by (simp add: child_def)

lemma children_end [reader_simps]: "length b \<le> 8 \<Longrightarrow> children known m b p = Some (Inr m)"
  by (simp add: children.simps)

lemma children_box:
  assumes "xs \<noteq> []" "8 + length xs < 2 ^ 32" "known tag (box tag xs) p m = Some (Inr m')"
  shows "children known m (box tag xs @ r) p = children known m' r (p + length (box tag xs))"
proof -
  define w :: "32 word" where "w = word_of_nat (8 + length xs)"
  have n: "unat w = 8 + length xs"
    using assms(2) unfolding w_def by (simp only: unat_of_nat) simp
  have b: "box tag xs = be32 w @ be32 tag @ xs" by (simp add: box_def w_def)
  have "8 < length (box tag xs @ r)" using assms(1) by (cases xs) simp_all
  then show ?thesis
    using assms(3) by (subst children.simps) (simp add: b n)
qed

text \<open>
  A box that announces no length never lets the loop advance.
\<close>

lemma children_stuck:
  assumes "children known m b p = Some r" "8 < length b" "U32BE b = Inr 0" "U32BE (drop 4 b) = Inr tag"
    and "\<And>m. \<exists>m'. known tag [] p m = Some (Inr m')"
  shows False
proof -
  let ?stuck = "\<lambda>known m b p (r :: atom_err + 'a). 8 < length b \<longrightarrow> U32BE b = Inr 0 \<longrightarrow> U32BE (drop 4 b) = Inr tag \<longrightarrow>
    (\<forall>m. \<exists>m'. known tag [] p m = Some (Inr m')) \<longrightarrow> False"
  have "?stuck known m b p r"
  proof (rule children.raw_induct [of ?stuck, OF _ assms(1)], intro impI)
    fix loop and known :: "Tag \<Rightarrow> bytes \<Rightarrow> nat \<Rightarrow> 'a \<Rightarrow> 'a outcome" and m b p r
    assume IH: "\<And>known m b p r. loop known m b p = Some r \<Longrightarrow> ?stuck known m b p r"
      and h: "8 < length b" "U32BE b = Inr 0" "U32BE (drop 4 b) = Inr tag"
        "\<forall>m. \<exists>m'. known tag [] p m = Some (Inr m')"
      and body: "(if \<not> 8 < length b then Some (Inr m)
      else case U32BE (drop 4 b) of Inl _ \<Rightarrow> Some (Inl AtomPanic) | Inr tag \<Rightarrow>
        (case U32BE b of Inl _ \<Rightarrow> Some (Inl AtomPanic) | Inr sz \<Rightarrow>
          if length b < unat sz then parse_error ''TagSizeInvalid'' p
          else Option.bind (known tag (take (unat sz) b) p m) (\<lambda>r.
            case r of Inl e \<Rightarrow> Some (Inl e)
            | Inr m' \<Rightarrow> loop known m' (drop (unat sz) b) (p + unat sz)))) = Some r"
    obtain m' where "known tag [] p m = Some (Inr m')" using h(4) by blast
    with h body have "loop known m' b p = Some r" by simp
    from IH [OF this] h show False by blast
  qed
  with assms show False by blast
qed

section \<open>The contract of an atom\<close>

text \<open>
  What the containers rely on: \<open>Marshal\<close> writes \<open>layout\<close>, which is \<open>Len\<close> bytes long, for
  every value the Go type has (\<open>arr\<close>: arrays have their length); a value that is \<open>ok\<close> is laid
  out as a box under its tag, and \<open>Unmarshal\<close> on that box gives \<open>norm\<close> of the value: for most
  atoms the value itself, for some without what is not written or not read.
\<close>

locale atom =
  fixes tag :: "'a \<Rightarrow> Tag" and Len :: "'a \<Rightarrow> nat" and marshal :: "'a \<Rightarrow> wr" and unmarshal :: "'a rd"
    and layout :: "'a \<Rightarrow> bytes" and arr :: "'a \<Rightarrow> bool" and ok :: "'a \<Rightarrow> bool" and norm :: "'a \<Rightarrow> 'a"
  assumes marshal_writes: "arr x \<Longrightarrow> writes (marshal x) (layout x)"
    and Len_layout: "arr x \<Longrightarrow> length (layout x) = Len x"
    and ok_arr: "ok x \<Longrightarrow> arr x"
    and layout_box: "ok x \<Longrightarrow> layout x = box (tag x) (drop 8 (layout x))"
    and layout_length: "ok x \<Longrightarrow> 8 < length (layout x) \<and> length (layout x) < 2 ^ 32"
    and reread: "ok x \<Longrightarrow> unmarshal (layout x) p = Some (Inr (norm x))"
begin

lemma marshal_exact:
  assumes "arr x" shows "marshal_fresh (Len x) (marshal x) = Inr (layout x)"
  using marshal_fresh_writes [OF marshal_writes [OF assms], of "Len x"] Len_layout [OF assms] by simp

lemma writes_some: "opt_all arr x \<Longrightarrow> writes (wr_opt marshal x) (opt_bytes layout x)"
  by (cases x) (simp_all add: wr_opt_def opt_bytes_def opt_all_def writes_none marshal_writes)

lemma length_some: "opt_all arr x \<Longrightarrow> length (opt_bytes layout x) = opt_len Len x"
  by (cases x) (simp_all add: opt_bytes_def opt_len_def opt_all_def Len_layout)

lemma writes_all: "list_all arr xs \<Longrightarrow> writes (wr_each marshal xs) (concat (map layout xs))"
  by (intro writes_each) (auto simp: list_all_iff marshal_writes)

lemma length_all: "list_all arr xs \<Longrightarrow> length (concat (map layout xs)) = sum_list (map Len xs)"
  by (induction xs) (simp_all add: Len_layout)

lemma read_one:
  assumes "ok x" "\<And>b p. known (tag x) b p m = child d unmarshal (upd m) b p"
  shows "children known m (layout x @ r) p = children known (upd m (norm x)) r (p + Len x)"
proof -
  define body where "body = drop 8 (layout x)"
  have b: "layout x = box (tag x) body" using layout_box [OF assms(1)] by (simp add: body_def)
  have s: "body \<noteq> []" "8 + length body < 2 ^ 32" using layout_length [OF assms(1)] by (auto simp: b)
  have "known (tag x) (box (tag x) body) p m = Some (Inr (upd m (norm x)))"
    using reread [OF assms(1), of p] by (simp add: assms(2) b child_ok)
  from children_box [where known = known, OF s this] show ?thesis
    using Len_layout [OF ok_arr [OF assms(1)]] by (simp add: b)
qed

lemma read_some:
  assumes "opt_all ok x" "\<And>a b p. x = Some a \<Longrightarrow> known (tag a) b p m = child d unmarshal (upd m) b p"
  shows "children known m (opt_bytes layout x @ r) p =
    children known (case x of None \<Rightarrow> m | Some a \<Rightarrow> upd m (norm a)) r (p + opt_len Len x)"
  using assms by (cases x) (simp_all add: opt_bytes_def opt_len_def opt_all_def read_one [of _ known m d upd])

lemma read_all:
  assumes "list_all ok xs" "\<And>a b p m. a \<in> set xs \<Longrightarrow> known (tag a) b p m = child d unmarshal (upd m) b p"
  shows "children known m (concat (map layout xs) @ r) p =
    children known (foldl upd m (map norm xs)) r (p + sum_list (map Len xs))"
  using assms by (induction xs arbitrary: m p) (simp_all add: read_one [of _ known _ d upd] add.assoc)

lemma read_some_end:
  assumes "opt_all ok x" "\<And>a b p. x = Some a \<Longrightarrow> known (tag a) b p m = child d unmarshal (upd m) b p"
  shows "children known m (opt_bytes layout x) p = Some (Inr (case x of None \<Rightarrow> m | Some a \<Rightarrow> upd m (norm a)))"
  using read_some [of x known m d upd "[]" p] assms by (simp add: children_end)

end

lemma opt_all_True [simp]: "opt_all (\<lambda>_. True) x"
  by (cases x) (simp_all add: opt_all_def)

lemma list_all_True [simp]: "list_all (\<lambda>_. True) xs"
  by (simp add: list_all_iff)

end
