(* ===== verification/Mp4Leaf.thy ===== *)
theory Mp4Leaf
  imports Mp4Box
begin

text \<open>
  The leaf atoms of \<open>format/mp4/mp4io\<close>: one section per file, with the struct as a record, its
  \<open>Marshal\<close>, \<open>Len\<close> and \<open>Unmarshal\<close>, its layout, what can be read back, and the contract
  \<open>atom\<close> discharged for it.
\<close>

section \<open>mvhd.go\<close>

definition MVHD :: Tag where "MVHD = 0x6d766864"

record MovieHeader =
  mvhd_Version :: byte
  mvhd_Flags :: "32 word"
  mvhd_CreateTime :: time
  mvhd_ModifyTime :: time
  mvhd_TimeScale :: "32 word"
  mvhd_Duration :: "64 word"
  mvhd_PreferredRate :: rat
  mvhd_PreferredVolume :: rat
  mvhd_Matrix :: "32 word list"
  mvhd_NextTrackID :: "32 word"

definition NewMovieHeader :: "time \<Rightarrow> MovieHeader" where
  "NewMovieHeader now = \<lparr>mvhd_Version = 0, mvhd_Flags = 0, mvhd_CreateTime = now, mvhd_ModifyTime = now,
     mvhd_TimeScale = 1000, mvhd_Duration = 0, mvhd_PreferredRate = 1, mvhd_PreferredVolume = 1,
     mvhd_Matrix = [0x00010000, 0, 0, 0, 0x00010000, 0, 0, 0, 0x00010000], mvhd_NextTrackID = 0\<rparr>"

definition MovieHeader_Marshal :: "MovieHeader \<Rightarrow> wr" where
  "MovieHeader_Marshal h = wr_atom MVHD (wr_all
     [wr_put [mvhd_Version h], wr_put (be24 (mvhd_Flags h)),
      wr_put (put_time (mvhd_Version h) (mvhd_CreateTime h)),
      wr_put (put_time (mvhd_Version h) (mvhd_ModifyTime h)),
      wr_put (be32 (mvhd_TimeScale h)),
      wr_put (put_duration (mvhd_Version h) (mvhd_Duration h)),
      wr_put (PutFixed32 (mvhd_PreferredRate h)), wr_put (PutFixed16 (mvhd_PreferredVolume h)),
      wr_skip 10, wr_each (\<lambda>e. wr_put (be32 e)) (mvhd_Matrix h), wr_skip 24,
      wr_put (be32 (mvhd_NextTrackID h))])"

definition MovieHeader_Len :: "MovieHeader \<Rightarrow> nat" where
  "MovieHeader_Len h = (if mvhd_Version h = 1 then 120 else 108)"

definition MovieHeader_Unmarshal :: "MovieHeader rd" where
  "MovieHeader_Unmarshal =
     pad 8 (field ''Version'' 1 U8 (\<lambda>v. field ''Flags'' 3 U24BE (\<lambda>fl.
     time_field v ''CreateTime'' (\<lambda>ct. time_field v ''ModifyTime'' (\<lambda>mt.
     field ''TimeScale'' 4 I32BE (\<lambda>ts. duration_field v (\<lambda>d.
     field ''PreferredRate'' 4 GetFixed32 (\<lambda>pr. field ''PreferredVolume'' 2 GetFixed16 (\<lambda>pv.
     pad 10 (table ''Matrix'' 4 I32BE 9 (\<lambda>m. pad 24 (field ''NextTrackID'' 4 I32BE (\<lambda>nt.
     finish \<lparr>mvhd_Version = v, mvhd_Flags = fl, mvhd_CreateTime = ct, mvhd_ModifyTime = mt,
       mvhd_TimeScale = ts, mvhd_Duration = d, mvhd_PreferredRate = pr, mvhd_PreferredVolume = pv,
       mvhd_Matrix = m, mvhd_NextTrackID = nt\<rparr>)))))))))))))"

definition mvhd_layout :: "MovieHeader \<Rightarrow> bytes" where
  "mvhd_layout h = box MVHD (concat
     [[mvhd_Version h], be24 (mvhd_Flags h), put_time (mvhd_Version h) (mvhd_CreateTime h),
      put_time (mvhd_Version h) (mvhd_ModifyTime h), be32 (mvhd_TimeScale h),
      put_duration (mvhd_Version h) (mvhd_Duration h), PutFixed32 (mvhd_PreferredRate h),
      PutFixed16 (mvhd_PreferredVolume h), replicate 10 0, concat (map be32 (mvhd_Matrix h)),
      replicate 24 0, be32 (mvhd_NextTrackID h)])"

definition mvhd_arr :: "MovieHeader \<Rightarrow> bool" where
  "mvhd_arr h \<longleftrightarrow> length (mvhd_Matrix h) = 9"

definition mvhd_ok :: "MovieHeader \<Rightarrow> bool" where
  "mvhd_ok h \<longleftrightarrow> flags_ok (mvhd_Flags h) \<and> time_ok (mvhd_Version h) (mvhd_CreateTime h) \<and>
     time_ok (mvhd_Version h) (mvhd_ModifyTime h) \<and> duration_ok (mvhd_Version h) (mvhd_Duration h) \<and>
     fixed32_ok (mvhd_PreferredRate h) \<and> fixed16_ok (mvhd_PreferredVolume h) \<and> mvhd_arr h"

definition mvhd_norm :: "MovieHeader \<Rightarrow> MovieHeader" where
  "mvhd_norm h = h\<lparr>mvhd_CreateTime := whole_seconds (mvhd_CreateTime h), mvhd_ModifyTime := whole_seconds (mvhd_ModifyTime h)\<rparr>"

lemmas mvhd_defs = mvhd_norm_def MovieHeader_Marshal_def MovieHeader_Len_def MovieHeader_Unmarshal_def mvhd_layout_def
  mvhd_arr_def mvhd_ok_def

interpretation mvhd: atom "\<lambda>_. MVHD" MovieHeader_Len MovieHeader_Marshal MovieHeader_Unmarshal mvhd_layout mvhd_arr mvhd_ok mvhd_norm
  by unfold_locales (auto simp: mvhd_defs reader_simps intro!: writes_intros)

section \<open>tkhd.go\<close>

definition TKHD :: Tag where "TKHD = 0x746b6864"

record TrackHeader =
  tkhd_Version :: byte
  tkhd_Flags :: "32 word"
  tkhd_CreateTime :: time
  tkhd_ModifyTime :: time
  tkhd_TrackId :: "32 word"
  tkhd_Duration :: "64 word"
  tkhd_Layer :: "16 word"
  tkhd_AlternateGroup :: "16 word"
  tkhd_Volume :: rat
  tkhd_Matrix :: "32 word list"
  tkhd_TrackWidth :: rat
  tkhd_TrackHeight :: rat

definition TrackHeader_Marshal :: "TrackHeader \<Rightarrow> wr" where
  "TrackHeader_Marshal h = wr_atom TKHD (wr_all
     [wr_put [tkhd_Version h], wr_put (be24 (tkhd_Flags h)),
      wr_put (put_time (tkhd_Version h) (tkhd_CreateTime h)),
      wr_put (put_time (tkhd_Version h) (tkhd_ModifyTime h)),
      wr_put (be32 (tkhd_TrackId h)), wr_skip 4,
      wr_put (put_duration (tkhd_Version h) (tkhd_Duration h)), wr_skip 8,
      wr_put (be16 (tkhd_Layer h)), wr_put (be16 (tkhd_AlternateGroup h)),
      wr_put (PutFixed16 (tkhd_Volume h)), wr_skip 2,
      wr_each (\<lambda>e. wr_put (be32 e)) (tkhd_Matrix h),
      wr_put (PutFixed32 (tkhd_TrackWidth h)), wr_put (PutFixed32 (tkhd_TrackHeight h))])"

definition TrackHeader_Len :: "TrackHeader \<Rightarrow> nat" where
  "TrackHeader_Len h = 8 + 1 + 3 + (if tkhd_Version h = 1 then 8 + 8 else 4 + 4) + 4 + 4 +
     (if tkhd_Version h = 1 then 8 else 4) + 8 + 2 + 2 + 2 + 2 + 4 * length (tkhd_Matrix h) + 4 + 4"

definition TrackHeader_Unmarshal :: "TrackHeader rd" where
  "TrackHeader_Unmarshal =
     pad 8 (field ''Version'' 1 U8 (\<lambda>v. field ''Flags'' 3 U24BE (\<lambda>fl.
     time_field v ''CreateTime'' (\<lambda>ct. time_field v ''ModifyTime'' (\<lambda>mt.
     field ''TrackId'' 4 I32BE (\<lambda>ti. pad 4 (duration_field v (\<lambda>d. pad 8 (
     field ''Layer'' 2 I16BE (\<lambda>la. field ''AlternateGroup'' 2 I16BE (\<lambda>ag.
     field ''Volume'' 2 GetFixed16 (\<lambda>vo. pad 2 (table ''Matrix'' 4 I32BE 9 (\<lambda>m.
     field ''TrackWidth'' 4 GetFixed32 (\<lambda>tw. field ''TrackHeight'' 4 GetFixed32 (\<lambda>th.
     finish \<lparr>tkhd_Version = v, tkhd_Flags = fl, tkhd_CreateTime = ct, tkhd_ModifyTime = mt,
       tkhd_TrackId = ti, tkhd_Duration = d, tkhd_Layer = la, tkhd_AlternateGroup = ag, tkhd_Volume = vo,
       tkhd_Matrix = m, tkhd_TrackWidth = tw, tkhd_TrackHeight = th\<rparr>))))))))))))))))"

definition tkhd_layout :: "TrackHeader \<Rightarrow> bytes" where
  "tkhd_layout h = box TKHD (concat
     [[tkhd_Version h], be24 (tkhd_Flags h), put_time (tkhd_Version h) (tkhd_CreateTime h),
      put_time (tkhd_Version h) (tkhd_ModifyTime h), be32 (tkhd_TrackId h), replicate 4 0,
      put_duration (tkhd_Version h) (tkhd_Duration h), replicate 8 0, be16 (tkhd_Layer h),
      be16 (tkhd_AlternateGroup h), PutFixed16 (tkhd_Volume h), replicate 2 0,
      concat (map be32 (tkhd_Matrix h)), PutFixed32 (tkhd_TrackWidth h), PutFixed32 (tkhd_TrackHeight h)])"

definition tkhd_ok :: "TrackHeader \<Rightarrow> bool" where
  "tkhd_ok h \<longleftrightarrow> flags_ok (tkhd_Flags h) \<and> time_ok (tkhd_Version h) (tkhd_CreateTime h) \<and>
     time_ok (tkhd_Version h) (tkhd_ModifyTime h) \<and> duration_ok (tkhd_Version h) (tkhd_Duration h) \<and>
     fixed16_ok (tkhd_Volume h) \<and> length (tkhd_Matrix h) = 9 \<and>
     fixed32_ok (tkhd_TrackWidth h) \<and> fixed32_ok (tkhd_TrackHeight h)"

definition tkhd_norm :: "TrackHeader \<Rightarrow> TrackHeader" where
  "tkhd_norm h = h\<lparr>tkhd_CreateTime := whole_seconds (tkhd_CreateTime h), tkhd_ModifyTime := whole_seconds (tkhd_ModifyTime h)\<rparr>"

lemmas tkhd_defs = tkhd_norm_def TrackHeader_Marshal_def TrackHeader_Len_def TrackHeader_Unmarshal_def tkhd_layout_def tkhd_ok_def

interpretation tkhd: atom "\<lambda>_. TKHD" TrackHeader_Len TrackHeader_Marshal TrackHeader_Unmarshal tkhd_layout "\<lambda>_. True" tkhd_ok tkhd_norm
  by unfold_locales (auto simp: tkhd_defs reader_simps intro!: writes_intros)

section \<open>mdhd.go\<close>

definition MDHD :: Tag where "MDHD = 0x6d646864"

record MediaHeader =
  mdhd_Version :: byte
  mdhd_Flags :: "32 word"
  mdhd_CreateTime :: time
  mdhd_ModifyTime :: time
  mdhd_TimeScale :: "32 word"
  mdhd_Duration :: "64 word"
  mdhd_Language :: "16 word"
  mdhd_Quality :: "16 word"

definition MediaHeader_Marshal :: "MediaHeader \<Rightarrow> wr" where
  "MediaHeader_Marshal h = wr_atom MDHD (wr_all
     [wr_put [mdhd_Version h], wr_put (be24 (mdhd_Flags h)),
      wr_put (put_time (mdhd_Version h) (mdhd_CreateTime h)),
      wr_put (put_time (mdhd_Version h) (mdhd_ModifyTime h)),
      wr_put (be32 (mdhd_TimeScale h)),
      wr_put (put_duration (mdhd_Version h) (mdhd_Duration h)),
      wr_put (be16 (mdhd_Language h)), wr_put (be16 (mdhd_Quality h))])"

definition MediaHeader_Len :: "MediaHeader \<Rightarrow> nat" where
  "MediaHeader_Len h = 8 + 1 + 3 + (if mdhd_Version h = 1 then 8 + 8 else 4 + 4) + 4 +
     (if mdhd_Version h = 1 then 8 else 4) + 2 + 2"

definition MediaHeader_Unmarshal :: "MediaHeader rd" where
  "MediaHeader_Unmarshal =
     pad 8 (field ''Version'' 1 U8 (\<lambda>v. field ''Flags'' 3 U24BE (\<lambda>fl.
     time_field v ''CreateTime'' (\<lambda>ct. time_field v ''ModifyTime'' (\<lambda>mt.
     field ''TimeScale'' 4 I32BE (\<lambda>ts. duration_field v (\<lambda>d.
     field ''Language'' 2 I16BE (\<lambda>la. field ''Quality'' 2 I16BE (\<lambda>q.
     finish \<lparr>mdhd_Version = v, mdhd_Flags = fl, mdhd_CreateTime = ct, mdhd_ModifyTime = mt,
       mdhd_TimeScale = ts, mdhd_Duration = d, mdhd_Language = la, mdhd_Quality = q\<rparr>)))))))))"

definition mdhd_layout :: "MediaHeader \<Rightarrow> bytes" where
  "mdhd_layout h = box MDHD (concat
     [[mdhd_Version h], be24 (mdhd_Flags h), put_time (mdhd_Version h) (mdhd_CreateTime h),
      put_time (mdhd_Version h) (mdhd_ModifyTime h), be32 (mdhd_TimeScale h),
      put_duration (mdhd_Version h) (mdhd_Duration h), be16 (mdhd_Language h), be16 (mdhd_Quality h)])"

definition mdhd_ok :: "MediaHeader \<Rightarrow> bool" where
  "mdhd_ok h \<longleftrightarrow> flags_ok (mdhd_Flags h) \<and> time_ok (mdhd_Version h) (mdhd_CreateTime h) \<and>
     time_ok (mdhd_Version h) (mdhd_ModifyTime h) \<and> duration_ok (mdhd_Version h) (mdhd_Duration h)"

definition mdhd_norm :: "MediaHeader \<Rightarrow> MediaHeader" where
  "mdhd_norm h = h\<lparr>mdhd_CreateTime := whole_seconds (mdhd_CreateTime h), mdhd_ModifyTime := whole_seconds (mdhd_ModifyTime h)\<rparr>"

lemmas mdhd_defs = mdhd_norm_def MediaHeader_Marshal_def MediaHeader_Len_def MediaHeader_Unmarshal_def mdhd_layout_def mdhd_ok_def

interpretation mdhd: atom "\<lambda>_. MDHD" MediaHeader_Len MediaHeader_Marshal MediaHeader_Unmarshal mdhd_layout "\<lambda>_. True" mdhd_ok mdhd_norm
  by unfold_locales (auto simp: mdhd_defs reader_simps intro!: writes_intros)

section \<open>vmhd.go, smhd.go, url.go\<close>

definition VMHD :: Tag where "VMHD = 0x766d6864"

record VideoMediaInfo =
  vmhd_Version :: byte
  vmhd_Flags :: "32 word"
  vmhd_GraphicsMode :: "16 word"
  vmhd_Opcolor :: "16 word list"

definition VideoMediaInfo_Marshal :: "VideoMediaInfo \<Rightarrow> wr" where
  "VideoMediaInfo_Marshal h = wr_atom VMHD (wr_all
     [wr_put [vmhd_Version h], wr_put (be24 (vmhd_Flags h)), wr_put (be16 (vmhd_GraphicsMode h)),
      wr_each (\<lambda>e. wr_put (be16 e)) (vmhd_Opcolor h)])"

definition VideoMediaInfo_Len :: "VideoMediaInfo \<Rightarrow> nat" where
  "VideoMediaInfo_Len h = 8 + 1 + 3 + 2 + 2 * length (vmhd_Opcolor h)"

definition VideoMediaInfo_Unmarshal :: "VideoMediaInfo rd" where
  "VideoMediaInfo_Unmarshal =
     pad 8 (field ''Version'' 1 U8 (\<lambda>v. field ''Flags'' 3 U24BE (\<lambda>fl.
     field ''GraphicsMode'' 2 I16BE (\<lambda>g. table ''Opcolor'' 2 I16BE 3 (\<lambda>oc.
     finish \<lparr>vmhd_Version = v, vmhd_Flags = fl, vmhd_GraphicsMode = g, vmhd_Opcolor = oc\<rparr>)))))"

definition vmhd_layout :: "VideoMediaInfo \<Rightarrow> bytes" where
  "vmhd_layout h = box VMHD (concat
     [[vmhd_Version h], be24 (vmhd_Flags h), be16 (vmhd_GraphicsMode h), concat (map be16 (vmhd_Opcolor h))])"

definition vmhd_ok :: "VideoMediaInfo \<Rightarrow> bool" where
  "vmhd_ok h \<longleftrightarrow> flags_ok (vmhd_Flags h) \<and> length (vmhd_Opcolor h) = 3"

lemmas vmhd_defs = VideoMediaInfo_Marshal_def VideoMediaInfo_Len_def VideoMediaInfo_Unmarshal_def vmhd_layout_def vmhd_ok_def

interpretation vmhd: atom "\<lambda>_. VMHD" VideoMediaInfo_Len VideoMediaInfo_Marshal VideoMediaInfo_Unmarshal vmhd_layout "\<lambda>_. True" vmhd_ok "\<lambda>x. x"
  by unfold_locales (auto simp: vmhd_defs reader_simps intro!: writes_intros)

definition SMHD :: Tag where "SMHD = 0x736d6864"

record SoundMediaInfo =
  smhd_Version :: byte
  smhd_Flags :: "32 word"
  smhd_Balance :: "16 word"

definition SoundMediaInfo_Marshal :: "SoundMediaInfo \<Rightarrow> wr" where
  "SoundMediaInfo_Marshal h = wr_atom SMHD (wr_all
     [wr_put [smhd_Version h], wr_put (be24 (smhd_Flags h)), wr_put (be16 (smhd_Balance h)), wr_skip 2])"

definition SoundMediaInfo_Len :: "SoundMediaInfo \<Rightarrow> nat" where
  "SoundMediaInfo_Len h = 8 + 1 + 3 + 2 + 2"

definition SoundMediaInfo_Unmarshal :: "SoundMediaInfo rd" where
  "SoundMediaInfo_Unmarshal =
     pad 8 (field ''Version'' 1 U8 (\<lambda>v. field ''Flags'' 3 U24BE (\<lambda>fl. field ''Balance'' 2 I16BE (\<lambda>ba.
     pad 2 (finish \<lparr>smhd_Version = v, smhd_Flags = fl, smhd_Balance = ba\<rparr>)))))"

definition smhd_layout :: "SoundMediaInfo \<Rightarrow> bytes" where
  "smhd_layout h = box SMHD (concat
     [[smhd_Version h], be24 (smhd_Flags h), be16 (smhd_Balance h), replicate 2 0])"

definition smhd_ok :: "SoundMediaInfo \<Rightarrow> bool" where
  "smhd_ok h \<longleftrightarrow> flags_ok (smhd_Flags h)"

lemmas smhd_defs = SoundMediaInfo_Marshal_def SoundMediaInfo_Len_def SoundMediaInfo_Unmarshal_def smhd_layout_def smhd_ok_def

interpretation smhd: atom "\<lambda>_. SMHD" SoundMediaInfo_Len SoundMediaInfo_Marshal SoundMediaInfo_Unmarshal smhd_layout "\<lambda>_. True" smhd_ok "\<lambda>x. x"
  by unfold_locales (auto simp: smhd_defs pad_def reader_simps intro!: writes_intros)

definition URL :: Tag where "URL = 0x75726c20"

record DataReferUrl =
  url_Version :: byte
  url_Flags :: "32 word"

definition DataReferUrl_Marshal :: "DataReferUrl \<Rightarrow> wr" where
  "DataReferUrl_Marshal h = wr_atom URL (wr_all [wr_put [url_Version h], wr_put (be24 (url_Flags h))])"

definition DataReferUrl_Len :: "DataReferUrl \<Rightarrow> nat" where
  "DataReferUrl_Len h = 8 + 1 + 3"

definition DataReferUrl_Unmarshal :: "DataReferUrl rd" where
  "DataReferUrl_Unmarshal =
     pad 8 (field ''Version'' 1 U8 (\<lambda>v. field ''Flags'' 3 U24BE (\<lambda>fl.
     finish \<lparr>url_Version = v, url_Flags = fl\<rparr>)))"

definition url_layout :: "DataReferUrl \<Rightarrow> bytes" where
  "url_layout h = box URL (concat [[url_Version h], be24 (url_Flags h)])"

definition url_ok :: "DataReferUrl \<Rightarrow> bool" where
  "url_ok h \<longleftrightarrow> flags_ok (url_Flags h)"

lemmas url_defs = DataReferUrl_Marshal_def DataReferUrl_Len_def DataReferUrl_Unmarshal_def url_layout_def url_ok_def

interpretation url: atom "\<lambda>_. URL" DataReferUrl_Len DataReferUrl_Marshal DataReferUrl_Unmarshal url_layout "\<lambda>_. True" url_ok "\<lambda>x. x"
  by unfold_locales (auto simp: url_defs reader_simps intro!: writes_intros)

section \<open>trex.go\<close>

definition TREX :: Tag where "TREX = 0x74726578"

record TrackExtend =
  trex_Version :: byte
  trex_Flags :: "32 word"
  trex_TrackId :: "32 word"
  trex_DefaultSampleDescIdx :: "32 word"
  trex_DefaultSampleDuration :: "32 word"
  trex_DefaultSampleSize :: "32 word"
  trex_DefaultSampleFlags :: "32 word"

definition TrackExtend_Marshal :: "TrackExtend \<Rightarrow> wr" where
  "TrackExtend_Marshal h = wr_atom TREX (wr_all
     [wr_put [trex_Version h], wr_put (be24 (trex_Flags h)), wr_put (be32 (trex_TrackId h)),
      wr_put (be32 (trex_DefaultSampleDescIdx h)), wr_put (be32 (trex_DefaultSampleDuration h)),
      wr_put (be32 (trex_DefaultSampleSize h)), wr_put (be32 (trex_DefaultSampleFlags h))])"

definition TrackExtend_Len :: "TrackExtend \<Rightarrow> nat" where
  "TrackExtend_Len h = 8 + 1 + 3 + 4 + 4 + 4 + 4 + 4"

definition TrackExtend_Unmarshal :: "TrackExtend rd" where
  "TrackExtend_Unmarshal =
     pad 8 (field ''Version'' 1 U8 (\<lambda>v. field ''Flags'' 3 U24BE (\<lambda>fl. field ''TrackId'' 4 U32BE (\<lambda>ti.
     field ''DefaultSampleDescIdx'' 4 U32BE (\<lambda>di. field ''DefaultSampleDuration'' 4 U32BE (\<lambda>dd.
     field ''DefaultSampleSize'' 4 U32BE (\<lambda>ds. field ''DefaultSampleFlags'' 4 U32BE (\<lambda>df.
     finish \<lparr>trex_Version = v, trex_Flags = fl, trex_TrackId = ti, trex_DefaultSampleDescIdx = di,
       trex_DefaultSampleDuration = dd, trex_DefaultSampleSize = ds, trex_DefaultSampleFlags = df\<rparr>))))))))"

definition trex_layout :: "TrackExtend \<Rightarrow> bytes" where
  "trex_layout h = box TREX (concat
     [[trex_Version h], be24 (trex_Flags h), be32 (trex_TrackId h), be32 (trex_DefaultSampleDescIdx h),
      be32 (trex_DefaultSampleDuration h), be32 (trex_DefaultSampleSize h), be32 (trex_DefaultSampleFlags h)])"

definition trex_ok :: "TrackExtend \<Rightarrow> bool" where
  "trex_ok h \<longleftrightarrow> flags_ok (trex_Flags h)"

lemmas trex_defs = TrackExtend_Marshal_def TrackExtend_Len_def TrackExtend_Unmarshal_def trex_layout_def trex_ok_def

interpretation trex: atom "\<lambda>_. TREX" TrackExtend_Len TrackExtend_Marshal TrackExtend_Unmarshal trex_layout "\<lambda>_. True" trex_ok "\<lambda>x. x"
  by unfold_locales (auto simp: trex_defs reader_simps intro!: writes_intros)

section \<open>mfhd.go, tfdt.go\<close>

definition MFHD :: Tag where "MFHD = 0x6d666864"

record MovieFragHeader =
  mfhd_Version :: byte
  mfhd_Flags :: "32 word"
  mfhd_Seqnum :: "32 word"

definition MovieFragHeader_Marshal :: "MovieFragHeader \<Rightarrow> wr" where
  "MovieFragHeader_Marshal h = wr_atom MFHD (wr_all
     [wr_put [mfhd_Version h], wr_put (be24 (mfhd_Flags h)), wr_put (be32 (mfhd_Seqnum h))])"

definition MovieFragHeader_Len :: "MovieFragHeader \<Rightarrow> nat" where
  "MovieFragHeader_Len h = 8 + 1 + 3 + 4"

definition MovieFragHeader_Unmarshal :: "MovieFragHeader rd" where
  "MovieFragHeader_Unmarshal =
     pad 8 (field ''Version'' 1 U8 (\<lambda>v. field ''Flags'' 3 U24BE (\<lambda>fl. field ''Seqnum'' 4 U32BE (\<lambda>s.
     finish \<lparr>mfhd_Version = v, mfhd_Flags = fl, mfhd_Seqnum = s\<rparr>))))"

definition mfhd_layout :: "MovieFragHeader \<Rightarrow> bytes" where
  "mfhd_layout h = box MFHD (concat [[mfhd_Version h], be24 (mfhd_Flags h), be32 (mfhd_Seqnum h)])"

definition mfhd_ok :: "MovieFragHeader \<Rightarrow> bool" where
  "mfhd_ok h \<longleftrightarrow> flags_ok (mfhd_Flags h)"

lemmas mfhd_defs = MovieFragHeader_Marshal_def MovieFragHeader_Len_def MovieFragHeader_Unmarshal_def mfhd_layout_def mfhd_ok_def

interpretation mfhd: atom "\<lambda>_. MFHD" MovieFragHeader_Len MovieFragHeader_Marshal MovieFragHeader_Unmarshal mfhd_layout "\<lambda>_. True" mfhd_ok "\<lambda>x. x"
  by unfold_locales (auto simp: mfhd_defs reader_simps intro!: writes_intros)

definition TFDT :: Tag where "TFDT = 0x74666474"

record TrackFragDecodeTime =
  tfdt_Version :: byte
  tfdt_Flags :: "32 word"
  tfdt_Time :: "64 word"

definition TrackFragDecodeTime_Marshal :: "TrackFragDecodeTime \<Rightarrow> wr" where
  "TrackFragDecodeTime_Marshal h = wr_atom TFDT (wr_all
     [wr_put [tfdt_Version h], wr_put (be24 (tfdt_Flags h)),
      if tfdt_Version h \<noteq> 0 then wr_put (be64 (tfdt_Time h)) else wr_put (be32 (ucast (tfdt_Time h)))])"

definition TrackFragDecodeTime_Len :: "TrackFragDecodeTime \<Rightarrow> nat" where
  "TrackFragDecodeTime_Len h = 8 + 1 + 3 + (if tfdt_Version h \<noteq> 0 then 8 else 4)"

definition TrackFragDecodeTime_Unmarshal :: "TrackFragDecodeTime rd" where
  "TrackFragDecodeTime_Unmarshal =
     pad 8 (field ''Version'' 1 U8 (\<lambda>v. field ''Flags'' 3 U24BE (\<lambda>fl.
     if v \<noteq> 0 then field ''Time'' 8 U64BE (\<lambda>t. finish \<lparr>tfdt_Version = v, tfdt_Flags = fl, tfdt_Time = t\<rparr>)
     else field ''Time'' 4 U32BE (\<lambda>t. finish \<lparr>tfdt_Version = v, tfdt_Flags = fl, tfdt_Time = ucast t\<rparr>))))"

definition tfdt_layout :: "TrackFragDecodeTime \<Rightarrow> bytes" where
  "tfdt_layout h = box TFDT (concat [[tfdt_Version h], be24 (tfdt_Flags h),
     if tfdt_Version h \<noteq> 0 then be64 (tfdt_Time h) else be32 (ucast (tfdt_Time h))])"

definition tfdt_ok :: "TrackFragDecodeTime \<Rightarrow> bool" where
  "tfdt_ok h \<longleftrightarrow> flags_ok (tfdt_Flags h) \<and> (tfdt_Version h \<noteq> 0 \<or> ucast (ucast (tfdt_Time h) :: 32 word) = tfdt_Time h)"

lemmas tfdt_defs = TrackFragDecodeTime_Marshal_def TrackFragDecodeTime_Len_def TrackFragDecodeTime_Unmarshal_def
  tfdt_layout_def tfdt_ok_def

interpretation tfdt: atom "\<lambda>_. TFDT" TrackFragDecodeTime_Len TrackFragDecodeTime_Marshal TrackFragDecodeTime_Unmarshal tfdt_layout
    "\<lambda>_. True" tfdt_ok "\<lambda>x. x"
  by unfold_locales (auto simp: tfdt_defs reader_simps intro!: writes_intros)

end
