(* ===== verification/Mp4Tables.thy ===== *)
theory Mp4Tables
  imports Mp4Leaf
begin

text \<open>
  The sample tables of \<open>format/mp4/mp4io\<close>: stts, ctts, stsc, stss, stsz, stco and co64.  Every
  table is read with a \<open>make\<close> of the announced number of entries before the length is checked;
  that allocation is not part of the model.
\<close>

section \<open>atoms.go\<close>

record TimeToSampleEntry =
  stts_Count :: "32 word"
  stts_Duration :: "32 word"

definition GetTimeToSampleEntry :: "bytes \<Rightarrow> TimeToSampleEntry res" where
  "GetTimeToSampleEntry b = ebind (U32BE b) (\<lambda>c. ebind (U32BE (drop 4 b)) (\<lambda>d.
     Inr \<lparr>stts_Count = c, stts_Duration = d\<rparr>))"

definition PutTimeToSampleEntry :: "TimeToSampleEntry \<Rightarrow> bytes" where
  "PutTimeToSampleEntry e = be32 (stts_Count e) @ be32 (stts_Duration e)"

record SampleToChunkEntry =
  stsc_FirstChunk :: "32 word"
  stsc_SamplesPerChunk :: "32 word"
  stsc_SampleDescId :: "32 word"

definition GetSampleToChunkEntry :: "bytes \<Rightarrow> SampleToChunkEntry res" where
  "GetSampleToChunkEntry b = ebind (U32BE b) (\<lambda>f. ebind (U32BE (drop 4 b)) (\<lambda>s. ebind (U32BE (drop 8 b)) (\<lambda>i.
     Inr \<lparr>stsc_FirstChunk = f, stsc_SamplesPerChunk = s, stsc_SampleDescId = i\<rparr>)))"

definition PutSampleToChunkEntry :: "SampleToChunkEntry \<Rightarrow> bytes" where
  "PutSampleToChunkEntry e = be32 (stsc_FirstChunk e) @ be32 (stsc_SamplesPerChunk e) @ be32 (stsc_SampleDescId e)"

record CompositionOffsetEntry =
  ctts_Count :: "32 word"
  ctts_Offset :: "32 word"

definition GetCompositionOffsetEntry :: "bytes \<Rightarrow> CompositionOffsetEntry res" where
  "GetCompositionOffsetEntry b = ebind (U32BE b) (\<lambda>c. ebind (U32BE (drop 4 b)) (\<lambda>d.
     Inr \<lparr>ctts_Count = c, ctts_Offset = d\<rparr>))"

definition PutCompositionOffsetEntry :: "CompositionOffsetEntry \<Rightarrow> bytes" where
  "PutCompositionOffsetEntry e = be32 (ctts_Count e) @ be32 (ctts_Offset e)"

lemma length_entries [simp]:
  "length (PutTimeToSampleEntry e) = 8" "length (PutSampleToChunkEntry s) = 12" "length (PutCompositionOffsetEntry c) = 8"
  "length (concat (map PutTimeToSampleEntry es)) = 8 * length es"
  "length (concat (map PutSampleToChunkEntry ss)) = 12 * length ss"
  "length (concat (map PutCompositionOffsetEntry cs)) = 8 * length cs"
  by (simp_all add: PutTimeToSampleEntry_def PutSampleToChunkEntry_def PutCompositionOffsetEntry_def
      length_concat sum_list_triv comp_def)

lemma table_entries [reader_simps]:
  "length es = n \<Longrightarrow> table d 8 GetTimeToSampleEntry n c (concat (map PutTimeToSampleEntry es) @ r) p = c es r (p + 8 * n)"
  "length ss = n \<Longrightarrow> table d 12 GetSampleToChunkEntry n c2 (concat (map PutSampleToChunkEntry ss) @ r) p = c2 ss r (p + 12 * n)"
  "length cs = n \<Longrightarrow> table d 8 GetCompositionOffsetEntry n c3 (concat (map PutCompositionOffsetEntry cs) @ r) p = c3 cs r (p + 8 * n)"
  by (rule table_map; simp add: GetTimeToSampleEntry_def PutTimeToSampleEntry_def GetSampleToChunkEntry_def
      PutSampleToChunkEntry_def GetCompositionOffsetEntry_def PutCompositionOffsetEntry_def)+

lemmas table_entries_last [reader_simps] = table_entries [where r = "[]", simplified]

text \<open>An entry count that fits.\<close>

definition len32w :: "'a list \<Rightarrow> 32 word" where
  "len32w xs = word_of_nat (length xs)"

lemma unat_len32w: "length xs < 2 ^ 32 \<Longrightarrow> unat (len32w xs) = length xs"
  by (simp only: len32w_def unat_of_nat) simp

section \<open>stts.go, ctts.go, stsc.go, stss.go\<close>

definition STTS :: Tag where "STTS = 0x73747473"

record TimeToSample =
  stts_Version :: byte
  stts_Flags :: "32 word"
  stts_Entries :: "TimeToSampleEntry list"

definition TimeToSample_Marshal :: "TimeToSample \<Rightarrow> wr" where
  "TimeToSample_Marshal h = wr_atom STTS (wr_all
     [wr_put [stts_Version h], wr_put (be24 (stts_Flags h)), wr_put (be32 (len32w (stts_Entries h))),
      wr_each (\<lambda>e. wr_put (PutTimeToSampleEntry e)) (stts_Entries h)])"

definition TimeToSample_Len :: "TimeToSample \<Rightarrow> nat" where
  "TimeToSample_Len h = 8 + 1 + 3 + 4 + 8 * length (stts_Entries h)"

definition TimeToSample_Unmarshal :: "TimeToSample rd" where
  "TimeToSample_Unmarshal =
     pad 8 (field ''Version'' 1 U8 (\<lambda>v. field ''Flags'' 3 U24BE (\<lambda>fl. bare 4 U32BE (\<lambda>n.
     table ''TimeToSampleEntry'' 8 GetTimeToSampleEntry (unat n) (\<lambda>es.
     finish \<lparr>stts_Version = v, stts_Flags = fl, stts_Entries = es\<rparr>)))))"

definition stts_layout :: "TimeToSample \<Rightarrow> bytes" where
  "stts_layout h = box STTS (concat [[stts_Version h], be24 (stts_Flags h), be32 (len32w (stts_Entries h)),
     concat (map PutTimeToSampleEntry (stts_Entries h))])"

definition stts_ok :: "TimeToSample \<Rightarrow> bool" where
  "stts_ok h \<longleftrightarrow> flags_ok (stts_Flags h) \<and> TimeToSample_Len h < 2 ^ 32"

lemmas stts_defs = TimeToSample_Marshal_def TimeToSample_Len_def TimeToSample_Unmarshal_def stts_layout_def stts_ok_def

interpretation stts: atom "\<lambda>_. STTS" TimeToSample_Len TimeToSample_Marshal TimeToSample_Unmarshal stts_layout "\<lambda>_. True" stts_ok "\<lambda>x. x"
  by unfold_locales (auto simp: stts_defs reader_simps unat_len32w intro!: writes_intros)

definition CTTS :: Tag where "CTTS = 0x63747473"

record CompositionOffset =
  ctts_Version :: byte
  ctts_Flags :: "32 word"
  ctts_Entries :: "CompositionOffsetEntry list"

definition CompositionOffset_Marshal :: "CompositionOffset \<Rightarrow> wr" where
  "CompositionOffset_Marshal h = wr_atom CTTS (wr_all
     [wr_put [ctts_Version h], wr_put (be24 (ctts_Flags h)), wr_put (be32 (len32w (ctts_Entries h))),
      wr_each (\<lambda>e. wr_put (PutCompositionOffsetEntry e)) (ctts_Entries h)])"

definition CompositionOffset_Len :: "CompositionOffset \<Rightarrow> nat" where
  "CompositionOffset_Len h = 8 + 1 + 3 + 4 + 8 * length (ctts_Entries h)"

definition CompositionOffset_Unmarshal :: "CompositionOffset rd" where
  "CompositionOffset_Unmarshal =
     pad 8 (field ''Version'' 1 U8 (\<lambda>v. field ''Flags'' 3 U24BE (\<lambda>fl. bare 4 U32BE (\<lambda>n.
     table ''CompositionOffsetEntry'' 8 GetCompositionOffsetEntry (unat n) (\<lambda>es.
     finish \<lparr>ctts_Version = v, ctts_Flags = fl, ctts_Entries = es\<rparr>)))))"

definition ctts_layout :: "CompositionOffset \<Rightarrow> bytes" where
  "ctts_layout h = box CTTS (concat [[ctts_Version h], be24 (ctts_Flags h), be32 (len32w (ctts_Entries h)),
     concat (map PutCompositionOffsetEntry (ctts_Entries h))])"

definition ctts_ok :: "CompositionOffset \<Rightarrow> bool" where
  "ctts_ok h \<longleftrightarrow> flags_ok (ctts_Flags h) \<and> CompositionOffset_Len h < 2 ^ 32"

lemmas ctts_defs = CompositionOffset_Marshal_def CompositionOffset_Len_def CompositionOffset_Unmarshal_def
  ctts_layout_def ctts_ok_def

interpretation ctts: atom "\<lambda>_. CTTS" CompositionOffset_Len CompositionOffset_Marshal CompositionOffset_Unmarshal ctts_layout
    "\<lambda>_. True" ctts_ok "\<lambda>x. x"
  by unfold_locales (auto simp: ctts_defs reader_simps unat_len32w intro!: writes_intros)

definition STSC :: Tag where "STSC = 0x73747363"

record SampleToChunk =
  stsc_Version :: byte
  stsc_Flags :: "32 word"
  stsc_Entries :: "SampleToChunkEntry list"

definition SampleToChunk_Marshal :: "SampleToChunk \<Rightarrow> wr" where
  "SampleToChunk_Marshal h = wr_atom STSC (wr_all
     [wr_put [stsc_Version h], wr_put (be24 (stsc_Flags h)), wr_put (be32 (len32w (stsc_Entries h))),
      wr_each (\<lambda>e. wr_put (PutSampleToChunkEntry e)) (stsc_Entries h)])"

definition SampleToChunk_Len :: "SampleToChunk \<Rightarrow> nat" where
  "SampleToChunk_Len h = 8 + 1 + 3 + 4 + 12 * length (stsc_Entries h)"

definition SampleToChunk_Unmarshal :: "SampleToChunk rd" where
  "SampleToChunk_Unmarshal =
     pad 8 (field ''Version'' 1 U8 (\<lambda>v. field ''Flags'' 3 U24BE (\<lambda>fl. bare 4 U32BE (\<lambda>n.
     table ''SampleToChunkEntry'' 12 GetSampleToChunkEntry (unat n) (\<lambda>es.
     finish \<lparr>stsc_Version = v, stsc_Flags = fl, stsc_Entries = es\<rparr>)))))"

definition stsc_layout :: "SampleToChunk \<Rightarrow> bytes" where
  "stsc_layout h = box STSC (concat [[stsc_Version h], be24 (stsc_Flags h), be32 (len32w (stsc_Entries h)),
     concat (map PutSampleToChunkEntry (stsc_Entries h))])"

definition stsc_ok :: "SampleToChunk \<Rightarrow> bool" where
  "stsc_ok h \<longleftrightarrow> flags_ok (stsc_Flags h) \<and> SampleToChunk_Len h < 2 ^ 32"

lemmas stsc_defs = SampleToChunk_Marshal_def SampleToChunk_Len_def SampleToChunk_Unmarshal_def stsc_layout_def stsc_ok_def

interpretation stsc: atom "\<lambda>_. STSC" SampleToChunk_Len SampleToChunk_Marshal SampleToChunk_Unmarshal stsc_layout "\<lambda>_. True" stsc_ok "\<lambda>x. x"
  by unfold_locales (auto simp: stsc_defs reader_simps unat_len32w intro!: writes_intros)

definition STSS :: Tag where "STSS = 0x73747373"

record SyncSample =
  stss_Version :: byte
  stss_Flags :: "32 word"
  stss_Entries :: "32 word list"

definition SyncSample_Marshal :: "SyncSample \<Rightarrow> wr" where
  "SyncSample_Marshal h = wr_atom STSS (wr_all
     [wr_put [stss_Version h], wr_put (be24 (stss_Flags h)), wr_put (be32 (len32w (stss_Entries h))),
      wr_each (\<lambda>e. wr_put (be32 e)) (stss_Entries h)])"

definition SyncSample_Len :: "SyncSample \<Rightarrow> nat" where
  "SyncSample_Len h = 8 + 1 + 3 + 4 + 4 * length (stss_Entries h)"

definition SyncSample_Unmarshal :: "SyncSample rd" where
  "SyncSample_Unmarshal =
     pad 8 (field ''Version'' 1 U8 (\<lambda>v. field ''Flags'' 3 U24BE (\<lambda>fl. bare 4 U32BE (\<lambda>n.
     table ''uint32'' 4 U32BE (unat n) (\<lambda>es.
     finish \<lparr>stss_Version = v, stss_Flags = fl, stss_Entries = es\<rparr>)))))"

definition stss_layout :: "SyncSample \<Rightarrow> bytes" where
  "stss_layout h = box STSS (concat [[stss_Version h], be24 (stss_Flags h), be32 (len32w (stss_Entries h)),
     concat (map be32 (stss_Entries h))])"

definition stss_ok :: "SyncSample \<Rightarrow> bool" where
  "stss_ok h \<longleftrightarrow> flags_ok (stss_Flags h) \<and> SyncSample_Len h < 2 ^ 32"

lemmas stss_defs = SyncSample_Marshal_def SyncSample_Len_def SyncSample_Unmarshal_def stss_layout_def stss_ok_def

interpretation stss: atom "\<lambda>_. STSS" SyncSample_Len SyncSample_Marshal SyncSample_Unmarshal stss_layout "\<lambda>_. True" stss_ok "\<lambda>x. x"
  by unfold_locales (auto simp: stss_defs reader_simps unat_len32w intro!: writes_intros)

section \<open>stsz.go, stco.go\<close>

definition STSZ :: Tag where "STSZ = 0x7374737a"

record SampleSize =
  stsz_Version :: byte
  stsz_Flags :: "32 word"
  stsz_SampleSize :: "32 word"
  stsz_Entries :: "32 word list"

definition SampleSize_Marshal :: "SampleSize \<Rightarrow> wr" where
  "SampleSize_Marshal h = wr_atom STSZ (wr_all
     [wr_put [stsz_Version h], wr_put (be24 (stsz_Flags h)), wr_put (be32 (stsz_SampleSize h)),
      if stsz_SampleSize h \<noteq> 0 then wr_none
      else wr_all [wr_put (be32 (len32w (stsz_Entries h))), wr_each (\<lambda>e. wr_put (be32 e)) (stsz_Entries h)]])"

definition SampleSize_Len :: "SampleSize \<Rightarrow> nat" where
  "SampleSize_Len h = 8 + 1 + 3 + 4 + (if stsz_SampleSize h \<noteq> 0 then 0 else 4 + 4 * length (stsz_Entries h))"

definition SampleSize_Unmarshal :: "SampleSize rd" where
  "SampleSize_Unmarshal =
     pad 8 (field ''Version'' 1 U8 (\<lambda>v. field ''Flags'' 3 U24BE (\<lambda>fl. field ''SampleSize'' 4 U32BE (\<lambda>s.
     if s \<noteq> 0 then finish \<lparr>stsz_Version = v, stsz_Flags = fl, stsz_SampleSize = s, stsz_Entries = []\<rparr>
     else bare 4 U32BE (\<lambda>n. table ''uint32'' 4 U32BE (unat n) (\<lambda>es.
     finish \<lparr>stsz_Version = v, stsz_Flags = fl, stsz_SampleSize = s, stsz_Entries = es\<rparr>))))))"

definition stsz_layout :: "SampleSize \<Rightarrow> bytes" where
  "stsz_layout h = box STSZ (concat [[stsz_Version h], be24 (stsz_Flags h), be32 (stsz_SampleSize h),
     if stsz_SampleSize h \<noteq> 0 then [] else be32 (len32w (stsz_Entries h)) @ concat (map be32 (stsz_Entries h))])"

definition stsz_ok :: "SampleSize \<Rightarrow> bool" where
  "stsz_ok h \<longleftrightarrow> flags_ok (stsz_Flags h) \<and> SampleSize_Len h < 2 ^ 32 \<and> (stsz_SampleSize h = 0 \<or> stsz_Entries h = [])"

lemmas stsz_defs = SampleSize_Marshal_def SampleSize_Len_def SampleSize_Unmarshal_def stsz_layout_def stsz_ok_def

interpretation stsz: atom "\<lambda>_. STSZ" SampleSize_Len SampleSize_Marshal SampleSize_Unmarshal stsz_layout "\<lambda>_. True" stsz_ok "\<lambda>x. x"
  by unfold_locales (auto simp: stsz_defs reader_simps unat_len32w intro!: writes_intros)

definition STCO :: Tag where "STCO = 0x7374636f"

definition CO64 :: Tag where "CO64 = 0x636f3634"

record ChunkOffset =
  stco_Version :: byte
  stco_Flags :: "32 word"
  stco_Entries :: "64 word list"

definition needs64 :: "ChunkOffset \<Rightarrow> bool" where
  "needs64 h = list_ex (\<lambda>e. e > 0xFFFFFFFF) (stco_Entries h)"

definition ChunkOffset_Tag :: "ChunkOffset \<Rightarrow> Tag" where
  "ChunkOffset_Tag h = (if needs64 h then CO64 else STCO)"

definition ChunkOffset_Marshal :: "ChunkOffset \<Rightarrow> wr" where
  "ChunkOffset_Marshal h = wr_atom (ChunkOffset_Tag h) (wr_all
     [wr_put [stco_Version h], wr_put (be24 (stco_Flags h)), wr_put (be32 (len32w (stco_Entries h))),
      if needs64 h then wr_each (\<lambda>e. wr_put (be64 e)) (stco_Entries h)
      else wr_each (\<lambda>e. wr_put (be32 (ucast e))) (stco_Entries h)])"

definition ChunkOffset_Len :: "ChunkOffset \<Rightarrow> nat" where
  "ChunkOffset_Len h = 8 + 1 + 3 + 4 + (if needs64 h then 8 * length (stco_Entries h) else 4 * length (stco_Entries h))"

definition ChunkOffset_UnmarshalSTCO :: "ChunkOffset rd" where
  "ChunkOffset_UnmarshalSTCO =
     pad 8 (field ''Version'' 1 U8 (\<lambda>v. field ''Flags'' 3 U24BE (\<lambda>fl. bare 4 U32BE (\<lambda>n.
     table ''uint32'' 4 U32BE (unat n) (\<lambda>es.
     finish \<lparr>stco_Version = v, stco_Flags = fl, stco_Entries = map ucast es\<rparr>)))))"

definition ChunkOffset_UnmarshalCO64 :: "ChunkOffset rd" where
  "ChunkOffset_UnmarshalCO64 =
     pad 8 (field ''Version'' 1 U8 (\<lambda>v. field ''Flags'' 3 U24BE (\<lambda>fl. bare 4 U32BE (\<lambda>n.
     table ''uint64'' 8 U64BE (unat n) (\<lambda>es.
     finish \<lparr>stco_Version = v, stco_Flags = fl, stco_Entries = es\<rparr>)))))"

definition entries32 :: "ChunkOffset \<Rightarrow> 32 word list" where
  "entries32 h = map ucast (stco_Entries h)"

definition stco_layout :: "ChunkOffset \<Rightarrow> bytes" where
  "stco_layout h = box (ChunkOffset_Tag h) (concat [[stco_Version h], be24 (stco_Flags h), be32 (len32w (stco_Entries h)),
     if needs64 h then concat (map be64 (stco_Entries h)) else concat (map be32 (entries32 h))])"

definition stco_ok :: "ChunkOffset \<Rightarrow> bool" where
  "stco_ok h \<longleftrightarrow> flags_ok (stco_Flags h) \<and> ChunkOffset_Len h < 2 ^ 32"

definition stco32_ok :: "ChunkOffset \<Rightarrow> bool" where
  "stco32_ok h \<longleftrightarrow> stco_ok h \<and> \<not> needs64 h"

definition co64_ok :: "ChunkOffset \<Rightarrow> bool" where
  "co64_ok h \<longleftrightarrow> stco_ok h \<and> needs64 h"

lemmas stco_defs = ChunkOffset_Marshal_def ChunkOffset_Len_def ChunkOffset_UnmarshalSTCO_def
  ChunkOffset_UnmarshalCO64_def stco_layout_def stco_ok_def stco32_ok_def co64_ok_def

lemma length_entries32 [simp]: "length (entries32 h) = length (stco_Entries h)"
  by (simp add: entries32_def)

lemma ucast_back: "\<not> needs64 h \<Longrightarrow> map ucast (entries32 h) = stco_Entries h"
  unfolding entries32_def map_map
proof (rule map_idI)
  fix e assume h: "\<not> needs64 h" "e \<in> set (stco_Entries h)"
  then have "unat e < 2 ^ 32" by (auto simp: needs64_def list_ex_iff word_le_nat_alt not_less)
  then show "(ucast \<circ> (ucast :: 64 word \<Rightarrow> 32 word)) e = e"
    by (simp add: word_unat_eq_iff unsigned_ucast_eq unsigned_take_bit_eq take_bit_nat_eq_self)
qed

lemma writes_entries32: "writes (wr_each (\<lambda>e. wr_put (be32 (ucast e))) (stco_Entries h)) (concat (map be32 (entries32 h)))"
  using writes_each [of "map ucast (stco_Entries h)" "\<lambda>e. wr_put (be32 e)" be32]
  by (simp add: entries32_def wr_each_def comp_def writes_put)

interpretation stco: atom ChunkOffset_Tag ChunkOffset_Len ChunkOffset_Marshal ChunkOffset_UnmarshalSTCO stco_layout
    "\<lambda>_. True" stco32_ok "\<lambda>x. x"
  by unfold_locales (auto simp: stco_defs reader_simps unat_len32w ucast_back intro!: writes_entries32 writes_intros)

interpretation co64: atom ChunkOffset_Tag ChunkOffset_Len ChunkOffset_Marshal ChunkOffset_UnmarshalCO64 stco_layout
    "\<lambda>_. True" co64_ok "\<lambda>x. x"
  by unfold_locales (auto simp: stco_defs reader_simps unat_len32w intro!: writes_entries32 writes_intros)

end
