(* ===== verification/Mp4Raw.thy ===== *)
theory Mp4Raw
  imports Mp4Box
begin

text \<open>
  The remaining leaf atoms of \<open>format/mp4/mp4io\<close>: the fragment header and run (tfhd, trun), the
  handler (hdlr), the decoder configurations (avcC, hvcC, esds), the brands (ftyp, styp), free,
  sidx, and the \<open>Dummy\<close> that holds a box of any other tag.
\<close>

section \<open>tfhd.go\<close>

definition TFHD :: Tag where "TFHD = 0x74666864"

definition TFHDBaseDataOffset :: "32 word" where "TFHDBaseDataOffset = 0x01"
definition TFHDStsdID :: "32 word" where "TFHDStsdID = 0x02"
definition TFHDDefaultDuration :: "32 word" where "TFHDDefaultDuration = 0x08"
definition TFHDDefaultSize :: "32 word" where "TFHDDefaultSize = 0x10"
definition TFHDDefaultFlags :: "32 word" where "TFHDDefaultFlags = 0x20"
definition TFHDDefaultBaseIsMOOF :: "32 word" where "TFHDDefaultBaseIsMOOF = 0x20000"

text \<open>The test \<open>flags&f != 0\<close>.\<close>

definition has :: "32 word \<Rightarrow> 32 word \<Rightarrow> bool" where
  "has flags f \<longleftrightarrow> flags AND f \<noteq> 0"

record TrackFragHeader =
  tfhd_Version :: byte
  tfhd_Flags :: "32 word"
  tfhd_TrackID :: "32 word"
  tfhd_BaseDataOffset :: "64 word"
  tfhd_StsdID :: "32 word"
  tfhd_DefaultDuration :: "32 word"
  tfhd_DefaultSize :: "32 word"
  tfhd_DefaultFlags :: "32 word"

definition TrackFragHeader_Marshal :: "TrackFragHeader \<Rightarrow> wr" where
  "TrackFragHeader_Marshal h = wr_atom TFHD (wr_all
     [wr_put [tfhd_Version h], wr_put (be24 (tfhd_Flags h)), wr_put (be32 (tfhd_TrackID h)),
      wr_when (has (tfhd_Flags h) TFHDBaseDataOffset) (wr_put (be64 (tfhd_BaseDataOffset h))),
      wr_when (has (tfhd_Flags h) TFHDStsdID) (wr_put (be32 (tfhd_StsdID h))),
      wr_when (has (tfhd_Flags h) TFHDDefaultDuration) (wr_put (be32 (tfhd_DefaultDuration h))),
      wr_when (has (tfhd_Flags h) TFHDDefaultSize) (wr_put (be32 (tfhd_DefaultSize h))),
      wr_when (has (tfhd_Flags h) TFHDDefaultFlags) (wr_put (be32 (tfhd_DefaultFlags h)))])"

definition TrackFragHeader_Len :: "TrackFragHeader \<Rightarrow> nat" where
  "TrackFragHeader_Len h = 8 + 1 + 3 + 4 + (if has (tfhd_Flags h) TFHDBaseDataOffset then 8 else 0) +
     (if has (tfhd_Flags h) TFHDStsdID then 4 else 0) + (if has (tfhd_Flags h) TFHDDefaultDuration then 4 else 0) +
     (if has (tfhd_Flags h) TFHDDefaultSize then 4 else 0) + (if has (tfhd_Flags h) TFHDDefaultFlags then 4 else 0)"

definition TrackFragHeader_Unmarshal :: "TrackFragHeader rd" where
  "TrackFragHeader_Unmarshal =
     pad 8 (field ''Version'' 1 U8 (\<lambda>v. field ''Flags'' 3 U24BE (\<lambda>fl. field ''TrackID'' 4 U32BE (\<lambda>ti.
     field_if (has fl TFHDBaseDataOffset) ''BaseDataOffset'' 8 U64BE 0 (\<lambda>bo.
     field_if (has fl TFHDStsdID) ''StsdId'' 4 U32BE 0 (\<lambda>si.
     field_if (has fl TFHDDefaultDuration) ''DefaultDuration'' 4 U32BE 0 (\<lambda>dd.
     field_if (has fl TFHDDefaultSize) ''DefaultSize'' 4 U32BE 0 (\<lambda>ds.
     field_if (has fl TFHDDefaultFlags) ''DefaultFlags'' 4 U32BE 0 (\<lambda>df.
     finish \<lparr>tfhd_Version = v, tfhd_Flags = fl, tfhd_TrackID = ti, tfhd_BaseDataOffset = bo, tfhd_StsdID = si,
       tfhd_DefaultDuration = dd, tfhd_DefaultSize = ds, tfhd_DefaultFlags = df\<rparr>)))))))))"

definition tfhd_layout :: "TrackFragHeader \<Rightarrow> bytes" where
  "tfhd_layout h = box TFHD (concat
     [[tfhd_Version h], be24 (tfhd_Flags h), be32 (tfhd_TrackID h),
      if_set (has (tfhd_Flags h) TFHDBaseDataOffset) (be64 (tfhd_BaseDataOffset h)),
      if_set (has (tfhd_Flags h) TFHDStsdID) (be32 (tfhd_StsdID h)),
      if_set (has (tfhd_Flags h) TFHDDefaultDuration) (be32 (tfhd_DefaultDuration h)),
      if_set (has (tfhd_Flags h) TFHDDefaultSize) (be32 (tfhd_DefaultSize h)),
      if_set (has (tfhd_Flags h) TFHDDefaultFlags) (be32 (tfhd_DefaultFlags h))])"

definition tfhd_ok :: "TrackFragHeader \<Rightarrow> bool" where
  "tfhd_ok h \<longleftrightarrow> flags_ok (tfhd_Flags h) \<and>
     (has (tfhd_Flags h) TFHDBaseDataOffset \<or> tfhd_BaseDataOffset h = 0) \<and>
     (has (tfhd_Flags h) TFHDStsdID \<or> tfhd_StsdID h = 0) \<and>
     (has (tfhd_Flags h) TFHDDefaultDuration \<or> tfhd_DefaultDuration h = 0) \<and>
     (has (tfhd_Flags h) TFHDDefaultSize \<or> tfhd_DefaultSize h = 0) \<and>
     (has (tfhd_Flags h) TFHDDefaultFlags \<or> tfhd_DefaultFlags h = 0)"

lemmas tfhd_defs = TrackFragHeader_Marshal_def TrackFragHeader_Len_def TrackFragHeader_Unmarshal_def
  tfhd_layout_def tfhd_ok_def

lemma tfhd_reread: "tfhd_ok x \<Longrightarrow> TrackFragHeader_Unmarshal (tfhd_layout x) p = Some (Inr x)"
  unfolding tfhd_defs by (simp add: reader_simps del: length_versioned split del: if_split)

interpretation tfhd: atom "\<lambda>_. TFHD" TrackFragHeader_Len TrackFragHeader_Marshal TrackFragHeader_Unmarshal tfhd_layout
    "\<lambda>_. True" tfhd_ok "\<lambda>x. x"
  by (unfold_locales; (rule tfhd_reread; assumption)?)
    (auto simp: tfhd_layout_def tfhd_ok_def TrackFragHeader_Marshal_def TrackFragHeader_Len_def intro!: writes_intros)

section \<open>trun.go\<close>

definition TRUN :: Tag where "TRUN = 0x7472756e"

definition TRUNDataOffset :: "32 word" where "TRUNDataOffset = 0x01"
definition TRUNFirstSampleFlags :: "32 word" where "TRUNFirstSampleFlags = 0x04"
definition TRUNSampleDuration :: "32 word" where "TRUNSampleDuration = 0x100"
definition TRUNSampleSize :: "32 word" where "TRUNSampleSize = 0x200"
definition TRUNSampleFlags :: "32 word" where "TRUNSampleFlags = 0x400"
definition TRUNSampleCTS :: "32 word" where "TRUNSampleCTS = 0x800"

record TrackFragRunEntry =
  entry_Duration :: "32 word"
  entry_Size :: "32 word"
  entry_Flags :: "32 word"
  entry_Cts :: "32 word"

record TrackFragRun =
  trun_Version :: byte
  trun_Flags :: "32 word"
  trun_DataOffset :: "32 word"
  trun_FirstSampleFlags :: "32 word"
  trun_Entries :: "TrackFragRunEntry list"

definition wr_entry :: "32 word \<Rightarrow> TrackFragRunEntry \<Rightarrow> wr" where
  "wr_entry flags e = wr_all
     [wr_when (has flags TRUNSampleDuration) (wr_put (be32 (entry_Duration e))),
      wr_when (has flags TRUNSampleSize) (wr_put (be32 (entry_Size e))),
      wr_when (has flags TRUNSampleFlags) (wr_put (be32 (entry_Flags e))),
      wr_when (has flags TRUNSampleCTS) (wr_put (be32 (entry_Cts e)))]"

definition TrackFragRun_Marshal :: "TrackFragRun \<Rightarrow> wr" where
  "TrackFragRun_Marshal h = wr_atom TRUN (wr_all
     [wr_put [trun_Version h], wr_put (be24 (trun_Flags h)), wr_put (be32 (word_of_nat (length (trun_Entries h)))),
      wr_when (has (trun_Flags h) TRUNDataOffset) (wr_put (be32 (trun_DataOffset h))),
      wr_when (has (trun_Flags h) TRUNFirstSampleFlags) (wr_put (be32 (trun_FirstSampleFlags h))),
      wr_each (wr_entry (trun_Flags h)) (trun_Entries h)])"

definition entry_len :: "32 word \<Rightarrow> nat" where
  "entry_len flags = (if has flags TRUNSampleDuration then 4 else 0) + (if has flags TRUNSampleSize then 4 else 0) +
     (if has flags TRUNSampleFlags then 4 else 0) + (if has flags TRUNSampleCTS then 4 else 0)"

definition TrackFragRun_Len :: "TrackFragRun \<Rightarrow> nat" where
  "TrackFragRun_Len h = 8 + 1 + 3 + 4 + (if has (trun_Flags h) TRUNDataOffset then 4 else 0) +
     (if has (trun_Flags h) TRUNFirstSampleFlags then 4 else 0) + (\<Sum>e\<leftarrow>trun_Entries h. entry_len (trun_Flags h))"

text \<open>
  The loop over the entries, from index \<open>i\<close> on.  Without flags of its own, the first sample
  takes \<open>FirstSampleFlags\<close>.
\<close>

fun read_entries :: "32 word \<Rightarrow> 32 word \<Rightarrow> nat \<Rightarrow> nat \<Rightarrow> (TrackFragRunEntry list \<Rightarrow> 'r rd) \<Rightarrow> 'r rd" where
  "read_entries flags first i 0 c = c []"
| "read_entries flags first i (Suc k) c =
     bare_if (has flags TRUNSampleDuration) 4 U32BE 0 (\<lambda>d.
     bare_if (has flags TRUNSampleSize) 4 U32BE 0 (\<lambda>s.
     bare_if (has flags TRUNSampleFlags) 4 U32BE (if i = 0 \<and> has flags TRUNFirstSampleFlags then first else 0) (\<lambda>f.
     bare_if (has flags TRUNSampleCTS) 4 U32BE 0 (\<lambda>ct.
     read_entries flags first (i + 1) k (\<lambda>es.
       c (\<lparr>entry_Duration = d, entry_Size = s, entry_Flags = f, entry_Cts = ct\<rparr> # es))))))"

definition TrackFragRun_Unmarshal :: "TrackFragRun rd" where
  "TrackFragRun_Unmarshal =
     pad 8 (field ''Version'' 1 U8 (\<lambda>v. field ''Flags'' 3 U24BE (\<lambda>fl. bare 4 U32BE (\<lambda>n.
     field_if (has fl TRUNDataOffset) ''DataOffset'' 4 U32BE 0 (\<lambda>o'.
     field_if (has fl TRUNFirstSampleFlags) ''FirstSampleFlags'' 4 U32BE 0 (\<lambda>first.
     read_entries fl first 0 (unat n) (\<lambda>es.
     finish \<lparr>trun_Version = v, trun_Flags = fl, trun_DataOffset = o', trun_FirstSampleFlags = first,
       trun_Entries = es\<rparr>)))))))"

definition entry_layout :: "32 word \<Rightarrow> TrackFragRunEntry \<Rightarrow> bytes" where
  "entry_layout flags e = concat
     [if_set (has flags TRUNSampleDuration) (be32 (entry_Duration e)),
      if_set (has flags TRUNSampleSize) (be32 (entry_Size e)),
      if_set (has flags TRUNSampleFlags) (be32 (entry_Flags e)),
      if_set (has flags TRUNSampleCTS) (be32 (entry_Cts e))]"

definition trun_layout :: "TrackFragRun \<Rightarrow> bytes" where
  "trun_layout h = box TRUN (concat
     [[trun_Version h], be24 (trun_Flags h), be32 (word_of_nat (length (trun_Entries h))),
      if_set (has (trun_Flags h) TRUNDataOffset) (be32 (trun_DataOffset h)),
      if_set (has (trun_Flags h) TRUNFirstSampleFlags) (be32 (trun_FirstSampleFlags h)),
      concat (map (entry_layout (trun_Flags h)) (trun_Entries h))])"

definition trun_ok :: "TrackFragRun \<Rightarrow> bool" where
  "trun_ok h \<longleftrightarrow> flags_ok (trun_Flags h) \<and> TrackFragRun_Len h < 2 ^ 32 \<and> length (trun_Entries h) < 2 ^ 32"

text \<open>What is read back: a field that the flags leave out takes its default.\<close>

fun norm_entries :: "32 word \<Rightarrow> 32 word \<Rightarrow> nat \<Rightarrow> TrackFragRunEntry list \<Rightarrow> TrackFragRunEntry list" where
  "norm_entries flags first i [] = []"
| "norm_entries flags first i (e # es) =
     \<lparr>entry_Duration = (if has flags TRUNSampleDuration then entry_Duration e else 0),
      entry_Size = (if has flags TRUNSampleSize then entry_Size e else 0),
      entry_Flags = (if has flags TRUNSampleFlags then entry_Flags e
        else if i = 0 \<and> has flags TRUNFirstSampleFlags then first else 0),
      entry_Cts = (if has flags TRUNSampleCTS then entry_Cts e else 0)\<rparr> # norm_entries flags first (i + 1) es"

definition trun_norm :: "TrackFragRun \<Rightarrow> TrackFragRun" where
  "trun_norm h = h\<lparr>trun_DataOffset := (if has (trun_Flags h) TRUNDataOffset then trun_DataOffset h else 0),
     trun_FirstSampleFlags := (if has (trun_Flags h) TRUNFirstSampleFlags then trun_FirstSampleFlags h else 0),
     trun_Entries := norm_entries (trun_Flags h) (trun_FirstSampleFlags h) 0 (trun_Entries h)\<rparr>"

lemma length_entry [simp]: "length (entry_layout flags e) = entry_len flags"
  by (simp add: entry_layout_def entry_len_def)

lemma length_run_entries [simp]:
  "length (concat (map (entry_layout flags) es)) = (\<Sum>e\<leftarrow>es. entry_len flags)"
  by (induction es) simp_all

lemma writes_entry [writes_intros]: "writes (wr_entry flags e) (entry_layout flags e)"
  by (auto simp: wr_entry_def entry_layout_def intro!: writes_intros)

lemma read_if_set:
  "field_if c d 4 U32BE dflt k (if_set c (be32 w) @ r) p = k (if c then w else dflt) r (p + (if c then 4 else 0))"
  "bare_if c 4 U32BE dflt k (if_set c (be32 w) @ r) p = k (if c then w else dflt) r (p + (if c then 4 else 0))"
  by (simp_all add: field_if_def bare_if_def if_set_def field_be bare_be32)

lemma read_entries_layout:
  "\<exists>q. read_entries flags first i (length es) c (concat (map (entry_layout flags) es) @ r) p =
    c (norm_entries flags first i es) r q"
proof (induction es arbitrary: i c p)
  case (Cons e es)
  then show ?case
    by (simp add: entry_layout_def read_if_set del: length_versioned split del: if_split)
qed auto

lemma norm_entries_first: "norm_entries flags (if has flags TRUNFirstSampleFlags then first else 0) i es = norm_entries flags first i es"
  by (induction es arbitrary: i) simp_all

lemma trun_reread: "trun_ok x \<Longrightarrow> TrackFragRun_Unmarshal (trun_layout x) p = Some (Inr (trun_norm x))"
proof -
  assume ok: "trun_ok x"
  let ?first = "if has (trun_Flags x) TRUNFirstSampleFlags then trun_FirstSampleFlags x else 0"
  define n :: "32 word" where "n = word_of_nat (length (trun_Entries x))"
  have n: "unat n = length (trun_Entries x)"
    using ok unfolding n_def trun_ok_def by (simp only: unat_of_nat) simp
  have "\<exists>q. read_entries (trun_Flags x) ?first 0 (length (trun_Entries x)) c
      (concat (map (entry_layout (trun_Flags x)) (trun_Entries x))) p =
      c (norm_entries (trun_Flags x) (trun_FirstSampleFlags x) 0 (trun_Entries x)) [] q"
    for c :: "_ \<Rightarrow> TrackFragRun rd" and p
    using read_entries_layout [of "trun_Flags x" ?first 0 "trun_Entries x" c "[]" p]
    by (simp only: norm_entries_first append_Nil2)
  then obtain q where q: "\<And>c p. read_entries (trun_Flags x) ?first 0 (length (trun_Entries x)) c
      (concat (map (entry_layout (trun_Flags x)) (trun_Entries x))) p =
      (c (norm_entries (trun_Flags x) (trun_FirstSampleFlags x) 0 (trun_Entries x)) [] (q c p) :: TrackFragRun outcome)"
    by metis
  show ?thesis
    using ok unfolding TrackFragRun_Unmarshal_def trun_layout_def trun_ok_def n_def [symmetric]
    by (simp add: reader_simps read_if_set n q trun_norm_def del: length_versioned split del: if_split)
qed

interpretation trun: atom "\<lambda>_. TRUN" TrackFragRun_Len TrackFragRun_Marshal TrackFragRun_Unmarshal trun_layout "\<lambda>_. True" trun_ok
    trun_norm
  by (unfold_locales; (rule trun_reread; assumption)?)
    (auto simp: trun_layout_def trun_ok_def TrackFragRun_Marshal_def TrackFragRun_Len_def intro!: writes_intros)

section \<open>hdlr.go\<close>

definition HDLR :: Tag where "HDLR = 0x68646c72"

record HandlerRefer =
  hdlr_Version :: byte
  hdlr_Flags :: "32 word"
  hdlr_Type :: bytes
  hdlr_SubType :: bytes
  hdlr_Name :: bytes

definition hdlrReservedSize :: nat where "hdlrReservedSize = 12"

definition HandlerRefer_Marshal :: "HandlerRefer \<Rightarrow> wr" where
  "HandlerRefer_Marshal h = wr_atom HDLR (wr_all
     [wr_put [hdlr_Version h], wr_put (be24 (hdlr_Flags h)), wr_copy (hdlr_Type h), wr_copy (hdlr_SubType h),
      wr_copy (hdlr_Name h)])"

definition HandlerRefer_Len :: "HandlerRefer \<Rightarrow> nat" where
  "HandlerRefer_Len h = 8 + 1 + 3 + length (hdlr_Type h) + length (hdlr_SubType h) + length (hdlr_Name h)"

definition HandlerRefer_Unmarshal :: "HandlerRefer rd" where
  "HandlerRefer_Unmarshal =
     pad 8 (field ''Version'' 1 U8 (\<lambda>v. field ''Flags'' 3 U24BE (\<lambda>fl.
     field ''Type'' 4 (raw 4) (\<lambda>t. field ''SubType'' 4 (raw 4) (\<lambda>s. \<lambda>b p.
     let name = (if length b \<ge> hdlrReservedSize then drop hdlrReservedSize b else b) in
     finish \<lparr>hdlr_Version = v, hdlr_Flags = fl, hdlr_Type = t, hdlr_SubType = s, hdlr_Name = name\<rparr> b p)))))"

definition hdlr_layout :: "HandlerRefer \<Rightarrow> bytes" where
  "hdlr_layout h = box HDLR (concat [[hdlr_Version h], be24 (hdlr_Flags h), hdlr_Type h, hdlr_SubType h, hdlr_Name h])"

definition hdlr_ok :: "HandlerRefer \<Rightarrow> bool" where
  "hdlr_ok h \<longleftrightarrow> flags_ok (hdlr_Flags h) \<and> length (hdlr_Type h) = 4 \<and> length (hdlr_SubType h) = 4 \<and>
     HandlerRefer_Len h < 2 ^ 32"

text \<open>A name of twelve bytes or more loses its first twelve: \<open>Marshal\<close> writes no reserved block.\<close>

definition hdlr_norm :: "HandlerRefer \<Rightarrow> HandlerRefer" where
  "hdlr_norm h = h\<lparr>hdlr_Name := if length (hdlr_Name h) \<ge> 12 then drop 12 (hdlr_Name h) else hdlr_Name h\<rparr>"

lemmas hdlr_defs = HandlerRefer_Marshal_def HandlerRefer_Len_def HandlerRefer_Unmarshal_def hdlr_layout_def hdlr_ok_def
  hdlr_norm_def hdlrReservedSize_def

interpretation hdlr: atom "\<lambda>_. HDLR" HandlerRefer_Len HandlerRefer_Marshal HandlerRefer_Unmarshal hdlr_layout "\<lambda>_. True" hdlr_ok
    hdlr_norm
  by unfold_locales (auto simp: hdlr_defs reader_simps intro!: writes_intros)

section \<open>avcc.go, hvcc.go\<close>

definition AVCC :: Tag where "AVCC = 0x61766343"

record AVC1Conf =
  avcc_Data :: bytes

definition AVC1Conf_Marshal :: "AVC1Conf \<Rightarrow> wr" where
  "AVC1Conf_Marshal h = wr_atom AVCC (wr_copy (avcc_Data h))"

definition AVC1Conf_Len :: "AVC1Conf \<Rightarrow> nat" where
  "AVC1Conf_Len h = 8 + length (avcc_Data h)"

definition AVC1Conf_Unmarshal :: "AVC1Conf rd" where
  "AVC1Conf_Unmarshal b p = tail_from 8 b (\<lambda>d. Some (Inr \<lparr>avcc_Data = d\<rparr>))"

definition avcc_layout :: "AVC1Conf \<Rightarrow> bytes" where
  "avcc_layout h = box AVCC (avcc_Data h)"

definition avcc_ok :: "AVC1Conf \<Rightarrow> bool" where
  "avcc_ok h \<longleftrightarrow> avcc_Data h \<noteq> [] \<and> AVC1Conf_Len h < 2 ^ 32"

lemmas avcc_defs = AVC1Conf_Marshal_def AVC1Conf_Len_def AVC1Conf_Unmarshal_def avcc_layout_def avcc_ok_def

interpretation avcc: atom "\<lambda>_. AVCC" AVC1Conf_Len AVC1Conf_Marshal AVC1Conf_Unmarshal avcc_layout "\<lambda>_. True" avcc_ok "\<lambda>x. x"
  by unfold_locales (auto simp: avcc_defs reader_simps intro!: writes_intros)

definition HVCC :: Tag where "HVCC = 0x68766343"

record HV1Conf =
  hvcc_Data :: bytes

definition HV1Conf_Marshal :: "HV1Conf \<Rightarrow> wr" where
  "HV1Conf_Marshal h = wr_atom HVCC (wr_copy (hvcc_Data h))"

definition HV1Conf_Len :: "HV1Conf \<Rightarrow> nat" where
  "HV1Conf_Len h = 8 + length (hvcc_Data h)"

definition HV1Conf_Unmarshal :: "HV1Conf rd" where
  "HV1Conf_Unmarshal b p = tail_from 8 b (\<lambda>d. Some (Inr \<lparr>hvcc_Data = d\<rparr>))"

definition hvcc_layout :: "HV1Conf \<Rightarrow> bytes" where
  "hvcc_layout h = box HVCC (hvcc_Data h)"

definition hvcc_ok :: "HV1Conf \<Rightarrow> bool" where
  "hvcc_ok h \<longleftrightarrow> hvcc_Data h \<noteq> [] \<and> HV1Conf_Len h < 2 ^ 32"

lemmas hvcc_defs = HV1Conf_Marshal_def HV1Conf_Len_def HV1Conf_Unmarshal_def hvcc_layout_def hvcc_ok_def

interpretation hvcc: atom "\<lambda>_. HVCC" HV1Conf_Len HV1Conf_Marshal HV1Conf_Unmarshal hvcc_layout "\<lambda>_. True" hvcc_ok "\<lambda>x. x"
  by unfold_locales (auto simp: hvcc_defs reader_simps intro!: writes_intros)

section \<open>esds.go\<close>

definition ESDS :: Tag where "ESDS = 0x65736473"

definition MP4ESDescrTag :: byte where "MP4ESDescrTag = 3"
definition MP4DecConfigDescrTag :: byte where "MP4DecConfigDescrTag = 4"
definition MP4DecSpecificDescrTag :: byte where "MP4DecSpecificDescrTag = 5"

record ElemStreamDesc =
  esds_TrackId :: "16 word"
  esds_MaxBitrate :: "32 word"
  esds_AvgBitrate :: "32 word"
  esds_DecConfig :: bytes

definition ElemStreamDesc_Len :: "ElemStreamDesc \<Rightarrow> nat" where
  "ElemStreamDesc_Len h = 43 + length (esds_DecConfig h)"

definition encodeLength :: "32 word \<Rightarrow> bytes" where
  "encodeLength v = [0x80 OR ucast (drop_bit 21 v AND 0x7F), 0x80 OR ucast (drop_bit 14 v AND 0x7F),
     0x80 OR ucast (drop_bit 7 v AND 0x7F), ucast (v AND 0x7F)]"

definition ElemStreamDesc_Marshal :: "ElemStreamDesc \<Rightarrow> wr" where
  "ElemStreamDesc_Marshal h = wr_atom ESDS (wr_all
     [wr_put (be32 0), wr_put [MP4ESDescrTag],
      wr_copy (encodeLength (word_of_nat (26 + length (esds_DecConfig h)))),
      wr_put (be16 (esds_TrackId h)), wr_skip 1, wr_put [MP4DecConfigDescrTag],
      wr_copy (encodeLength (word_of_nat (18 + length (esds_DecConfig h)))),
      wr_put [0x40], wr_put [0x15], wr_skip 3,
      wr_put (be32 (esds_MaxBitrate h)), wr_put (be32 (esds_AvgBitrate h)), wr_put [MP4DecSpecificDescrTag],
      wr_copy (encodeLength (word_of_nat (length (esds_DecConfig h)))),
      wr_copy (esds_DecConfig h)])"

fun parseLength :: "nat \<Rightarrow> bytes \<Rightarrow> nat \<Rightarrow> nat \<Rightarrow> atom_err + nat \<times> bytes" where
  "parseLength 0 b p len = Inr (len, b)"
| "parseLength (Suc k) b p len = (case b of [] \<Rightarrow> Inl (ParseError [(''len'', p)])
     | c # b' \<Rightarrow> let len' = len * 128 + unat (c AND 0x7f) in
         if c AND 0x80 = 0 then Inr (len', b') else parseLength k b' (p + 1) len')"

lemma parseLength_shorter: "parseLength k b p len = Inr (v, b') \<Longrightarrow> length b' \<le> length b"
  by (induction k b p len arbitrary: v b' rule: parseLength.induct) (fastforce split: list.splits if_splits simp: Let_def)+

text \<open>\<open>parseDescHdr\<close>: the tag, the length, and the slice behind them with its offset.\<close>

definition parseDescHdr :: "bytes \<Rightarrow> nat \<Rightarrow> atom_err + byte \<times> nat \<times> bytes \<times> nat" where
  "parseDescHdr b p = (case b of [] \<Rightarrow> Inl (ParseError [(''tag'', p)])
     | tag # b' \<Rightarrow> (case parseLength 4 b' (p + 1) 0 of Inl e \<Rightarrow> Inl e
         | Inr (datalen, d) \<Rightarrow> Inr (tag, datalen, d, p + (length b - length d))))"

lemma parseDescHdr_shorter: "parseDescHdr b p = Inr (tag, n, d, q) \<Longrightarrow> length d < length b"
  by (auto simp: parseDescHdr_def less_Suc_eq_le dest: parseLength_shorter split: list.splits sum.splits prod.splits)

text \<open>
  \<open>parseDesc\<close>; the argument and result \<open>dc\<close> is the field \<open>DecConfig\<close>.  A descriptor is searched
  for in the whole rest of the box, not only in the \<open>datalen\<close> bytes of its parent.
\<close>

function parseDesc :: "bytes \<Rightarrow> nat \<Rightarrow> bytes \<Rightarrow> atom_err + bytes" where
  "parseDesc b p dc = (case parseDescHdr b p of Inl e \<Rightarrow> Inl e
     | Inr (tag, datalen, d, q) \<Rightarrow>
         if length d < datalen then Inl (ParseError [(''datalen'', q)])
         else if tag = MP4ESDescrTag then
           (if length d < 3 then Inl (ParseError [(''MP4ESDescrTag'', q)]) else parseDesc (drop 3 d) (q + 3) dc)
         else if tag = MP4DecConfigDescrTag then
           (if length d < 13 then Inl (ParseError [(''MP4DecSpecificDescrTag'', q)])
            else parseDesc (drop 13 d) (q + 13) dc)
         else if tag = MP4DecSpecificDescrTag then Inr (take datalen d)
         else Inr dc)"
  by pat_completeness auto
termination
  by (relation "measure (\<lambda>(b, p, dc). length b)") (auto dest!: parseDescHdr_shorter)

declare parseDesc.simps [simp del]

definition ElemStreamDesc_Unmarshal :: "ElemStreamDesc rd" where
  "ElemStreamDesc_Unmarshal b p =
     (if length b < 12 then parse_error ''hdr'' p
      else Some (case parseDesc (drop 12 b) (p + 12) [] of Inl e \<Rightarrow> Inl e
        | Inr dc \<Rightarrow> Inr \<lparr>esds_TrackId = 0, esds_MaxBitrate = 0, esds_AvgBitrate = 0, esds_DecConfig = dc\<rparr>))"

definition esds_layout :: "ElemStreamDesc \<Rightarrow> bytes" where
  "esds_layout h = box ESDS (concat
     [be32 0, [MP4ESDescrTag], encodeLength (word_of_nat (26 + length (esds_DecConfig h))),
      be16 (esds_TrackId h), replicate 1 0, [MP4DecConfigDescrTag],
      encodeLength (word_of_nat (18 + length (esds_DecConfig h))), [0x40], [0x15], replicate 3 0,
      be32 (esds_MaxBitrate h), be32 (esds_AvgBitrate h), [MP4DecSpecificDescrTag],
      encodeLength (word_of_nat (length (esds_DecConfig h))), esds_DecConfig h])"

text \<open>
  The configuration must fit the lengths, which count the fields of this writer; only the
  configuration is read back.
\<close>

definition esds_ok :: "ElemStreamDesc \<Rightarrow> bool" where
  "esds_ok h \<longleftrightarrow> length (esds_DecConfig h) + 26 < 2 ^ 28"

definition esds_norm :: "ElemStreamDesc \<Rightarrow> ElemStreamDesc" where
  "esds_norm h = \<lparr>esds_TrackId = 0, esds_MaxBitrate = 0, esds_AvgBitrate = 0, esds_DecConfig = esds_DecConfig h\<rparr>"

lemma seven_bits:
  "((0x80 :: byte) OR ucast ((w :: 32 word) AND 0x7F)) AND 0x7F = ucast (w AND 0x7F)"
  "((0x80 :: byte) OR ucast (w AND 0x7F)) AND 0x80 = 0x80"
  "(ucast (w AND 0x7F) :: byte) AND 0x7F = ucast (w AND 0x7F)" "(ucast (w AND 0x7F) :: byte) AND 0x80 = 0"
proof -
  define c where "c = (0x80 :: byte)"
  have m: "(0x7F :: byte) = mask 7" "(0x7F :: 32 word) = mask 7" by (simp_all add: mask_eq_exp_minus_1)
  have b: "bit c n \<longleftrightarrow> n = 7" for n using bit_exp_iff [of 7 n, where 'a = "8 word"] by (auto simp: c_def)
  show "((0x80 :: byte) OR ucast (w AND 0x7F)) AND 0x7F = ucast (w AND 0x7F)"
    "((0x80 :: byte) OR ucast (w AND 0x7F)) AND 0x80 = 0x80"
    "(ucast (w AND 0x7F) :: byte) AND 0x7F = ucast (w AND 0x7F)" "(ucast (w AND 0x7F) :: byte) AND 0x80 = 0"
    unfolding m c_def [symmetric] by (rule bit_word_eqI; auto simp: bit_simps b)+
qed

lemma unat_seven_bits: "unat (ucast ((w :: 32 word) AND 0x7F) :: byte) = unat w mod 128"
proof -
  have "w AND 0x7F = take_bit 7 w" by (simp add: take_bit_eq_mask mask_eq_exp_minus_1)
  then show ?thesis
    by (simp add: unsigned_ucast_eq unsigned_take_bit_eq take_bit_take_bit) (simp add: take_bit_eq_mod)
qed

lemma parseLength_encode:
  assumes "unat v < 2 ^ 28" shows "parseLength 4 (encodeLength v @ r) p 0 = Inr (unat v, r)"
proof -
  let ?n = "unat v"
  have "((?n div 2 ^ 21 * 128 + ?n div 2 ^ 14 mod 128) * 128 + ?n div 2 ^ 7 mod 128) * 128 + ?n mod 128 = ?n"
  proof -
    have "?n div 2 ^ 21 * 128 + ?n div 2 ^ 14 mod 128 = ?n div 2 ^ 14"
      using div_mult_mod_eq [of "?n div 2 ^ 14" 128] by (simp add: div_mult2_eq [symmetric])
    moreover have "?n div 2 ^ 14 * 128 + ?n div 2 ^ 7 mod 128 = ?n div 2 ^ 7"
      using div_mult_mod_eq [of "?n div 2 ^ 7" 128] by (simp add: div_mult2_eq [symmetric])
    moreover have "?n div 2 ^ 7 * 128 + ?n mod 128 = ?n"
      using div_mult_mod_eq [of ?n 128] by simp
    ultimately show ?thesis by simp
  qed
  moreover have "?n div 2 ^ 21 mod 128 = ?n div 2 ^ 21" using assms by simp
  moreover have four: "(4 :: nat) = Suc (Suc (Suc (Suc 0)))" by simp
  ultimately show ?thesis
    unfolding four by (simp add: encodeLength_def seven_bits unat_seven_bits unat_drop_bit_eq drop_bit_eq_div unat_div)
qed

lemma parseDescHdr_encode:
  "unat v < 2 ^ 28 \<Longrightarrow> parseDescHdr (tag # encodeLength v @ d) p = Inr (tag, unat v, d, p + 5)"
  by (simp add: parseDescHdr_def parseLength_encode) (simp add: encodeLength_def)

lemma esds_reread:
  assumes "esds_ok x" shows "ElemStreamDesc_Unmarshal (esds_layout x) p = Some (Inr (esds_norm x))"
proof -
  define n where "n = length (esds_DecConfig x)"
  have n: "n + 26 < 2 ^ 28" using assms by (simp add: esds_ok_def n_def)
  define l1 l2 l3 :: "32 word" where "l1 = word_of_nat (26 + n)" and "l2 = word_of_nat (18 + n)" and "l3 = word_of_nat n"
  have l: "unat l1 = 26 + n" "unat l2 = 18 + n" "unat l3 = n"
    using n unfolding l1_def l2_def l3_def by (simp_all only: unat_of_nat) simp_all
  have short: "unat l1 < 2 ^ 28" "unat l2 < 2 ^ 28" "unat l3 < 2 ^ 28" using n l by simp_all
  have h: "parseDescHdr (tag # encodeLength l1 @ d) q = Inr (tag, 26 + n, d, q + 5)"
    "parseDescHdr (tag # encodeLength l2 @ d) q = Inr (tag, 18 + n, d, q + 5)"
    "parseDescHdr (tag # encodeLength l3 @ d) q = Inr (tag, n, d, q + 5)" for tag d q
    using parseDescHdr_encode [of l1] parseDescHdr_encode [of l2] parseDescHdr_encode [of l3] short by (simp_all add: l)
  have e: "length (encodeLength v) = 4" for v by (simp add: encodeLength_def)
  have 3: "parseDesc (MP4DecSpecificDescrTag # encodeLength l3 @ esds_DecConfig x) q dc = Inr (esds_DecConfig x)" for q dc
    by (subst parseDesc.simps)
      (simp add: h n_def MP4ESDescrTag_def MP4DecConfigDescrTag_def MP4DecSpecificDescrTag_def)
  have 2: "parseDesc (MP4DecConfigDescrTag # encodeLength l2 @ 0x40 # 0x15 # replicate 3 0 @ be32 a @ be32 b @
      MP4DecSpecificDescrTag # encodeLength l3 @ esds_DecConfig x) q dc = Inr (esds_DecConfig x)" for a b q dc
    by (subst parseDesc.simps)
      (simp add: h 3 e n_def MP4ESDescrTag_def MP4DecConfigDescrTag_def eval_nat_numeral be32_def)
  have 1: "parseDesc (MP4ESDescrTag # encodeLength l1 @ be16 t @ 0 # MP4DecConfigDescrTag # encodeLength l2 @ 0x40 # 0x15 #
      replicate 3 0 @ be32 a @ be32 b @ MP4DecSpecificDescrTag # encodeLength l3 @ esds_DecConfig x) q dc = Inr (esds_DecConfig x)"
    for t a b q dc
    by (subst parseDesc.simps)
      (simp add: h 2 e n_def [symmetric] be16_def)
  have "drop 12 (esds_layout x) = MP4ESDescrTag # encodeLength l1 @ be16 (esds_TrackId x) @ 0 # MP4DecConfigDescrTag #
      encodeLength l2 @ 0x40 # 0x15 # replicate 3 0 @ be32 (esds_MaxBitrate x) @ be32 (esds_AvgBitrate x) @
      MP4DecSpecificDescrTag # encodeLength l3 @ esds_DecConfig x"
    by (simp add: esds_layout_def box_def n_def [symmetric] l1_def l2_def l3_def)
  moreover have "\<not> length (esds_layout x) < 12" by (simp add: esds_layout_def)
  ultimately show ?thesis
    by (simp add: ElemStreamDesc_Unmarshal_def 1 esds_norm_def)
qed

interpretation esds: atom "\<lambda>_. ESDS" ElemStreamDesc_Len ElemStreamDesc_Marshal ElemStreamDesc_Unmarshal esds_layout
    "\<lambda>_. True" esds_ok esds_norm
proof (unfold_locales; (rule esds_reread; assumption)?)
  fix x
  have e: "length (encodeLength v) = 4" for v by (simp add: encodeLength_def)
  show "writes (ElemStreamDesc_Marshal x) (esds_layout x)"
    by (auto simp: ElemStreamDesc_Marshal_def esds_layout_def simp del: replicate.simps intro!: writes_intros)
  show "length (esds_layout x) = ElemStreamDesc_Len x" by (simp add: esds_layout_def ElemStreamDesc_Len_def e)
  show "esds_ok x \<Longrightarrow> esds_layout x = box ESDS (drop 8 (esds_layout x))" by (simp add: esds_layout_def)
  show "esds_ok x \<Longrightarrow> 8 < length (esds_layout x) \<and> length (esds_layout x) < 2 ^ 32"
    by (simp add: esds_layout_def esds_ok_def e)
qed simp

section \<open>ftyp.go, styp.go, free.go\<close>

definition FTYP :: Tag where "FTYP = 0x66747970"
definition STYP :: Tag where "STYP = 0x73747970"
definition FREE :: Tag where "FREE = 0x66726565"

record FileType =
  MajorBrand :: "32 word"
  MinorVersion :: "32 word"
  CompatibleBrands :: "32 word list"

definition NewFileType :: FileType where
  "NewFileType = \<lparr>MajorBrand = 0x69736F6D, MinorVersion = 0x200,
     CompatibleBrands = [0x69736F36, 0x61766331, 0x6D703431, 0x6D703730]\<rparr>"

definition FileType_Len :: "FileType \<Rightarrow> nat" where
  "FileType_Len f = 16 + 4 * length (CompatibleBrands f)"

definition FileType_Marshal :: "FileType \<Rightarrow> wr" where
  "FileType_Marshal f = wr_all
     [wr_put (be32 (word_of_nat (FileType_Len f))), wr_put (be32 FTYP), wr_put (be32 (MajorBrand f)),
      wr_put (be32 (MinorVersion f)), wr_each (\<lambda>v. wr_put (be32 v)) (CompatibleBrands f)]"

fun read_brands :: "bytes \<Rightarrow> 32 word list" where
  "read_brands (x0 # x1 # x2 # x3 # b) =
     (case U32BE [x0, x1, x2, x3] of Inr v \<Rightarrow> v # read_brands b | Inl _ \<Rightarrow> [])"
| "read_brands _ = []"

definition FileType_Unmarshal :: "FileType rd" where
  "FileType_Unmarshal = pad 8 (\<lambda>b p. if length b < 8 then parse_error ''MajorBrand'' p
     else bare 4 U32BE (\<lambda>ma. bare 4 U32BE (\<lambda>mi. \<lambda>b p.
       finish \<lparr>MajorBrand = ma, MinorVersion = mi, CompatibleBrands = read_brands b\<rparr> b p)) b p)"

definition ftyp_layout :: "FileType \<Rightarrow> bytes" where
  "ftyp_layout f = box FTYP (be32 (MajorBrand f) @ be32 (MinorVersion f) @ concat (map be32 (CompatibleBrands f)))"

definition ftyp_ok :: "FileType \<Rightarrow> bool" where
  "ftyp_ok f \<longleftrightarrow> FileType_Len f < 2 ^ 32"

text \<open>\<open>SegmentType\<close> has the fields of \<open>FileType\<close> under the tag \<open>styp\<close>.\<close>

type_synonym SegmentType = FileType

definition NewSegmentType :: SegmentType where
  "NewSegmentType = \<lparr>MajorBrand = 0x69736F6D, MinorVersion = 0x200,
     CompatibleBrands = [0x69736F36, 0x61766331, 0x6D703431, 0x64617368]\<rparr>"

definition SegmentType_Len :: "SegmentType \<Rightarrow> nat" where
  "SegmentType_Len f = 16 + 4 * length (CompatibleBrands f)"

definition SegmentType_Marshal :: "SegmentType \<Rightarrow> wr" where
  "SegmentType_Marshal f = wr_all
     [wr_put (be32 (word_of_nat (SegmentType_Len f))), wr_put (be32 STYP), wr_put (be32 (MajorBrand f)),
      wr_put (be32 (MinorVersion f)), wr_each (\<lambda>v. wr_put (be32 v)) (CompatibleBrands f)]"

definition SegmentType_Unmarshal :: "SegmentType rd" where
  "SegmentType_Unmarshal = pad 8 (\<lambda>b p. if length b < 8 then parse_error ''MajorBrand'' p
     else bare 4 U32BE (\<lambda>ma. bare 4 U32BE (\<lambda>mi. \<lambda>b p.
       finish \<lparr>MajorBrand = ma, MinorVersion = mi, CompatibleBrands = read_brands b\<rparr> b p)) b p)"

definition styp_layout :: "SegmentType \<Rightarrow> bytes" where
  "styp_layout f = box STYP (be32 (MajorBrand f) @ be32 (MinorVersion f) @ concat (map be32 (CompatibleBrands f)))"

definition styp_ok :: "SegmentType \<Rightarrow> bool" where
  "styp_ok f \<longleftrightarrow> SegmentType_Len f < 2 ^ 32"

definition FreeType_Len :: nat where
  "FreeType_Len = 8"

definition FreeType_Marshal :: wr where
  "FreeType_Marshal = wr_all [wr_put (be32 8), wr_put (be32 FREE)]"

lemma read_brands_words: "read_brands (concat (map be32 ws)) = ws"
proof (induction ws)
  case (Cons w ws)
  have "U32BE (be32 w) = Inr w" using U_be(4) [of w "[]"] by simp
  with Cons show ?case by (simp add: be32_def)
qed simp

lemma brands_box: "be32 (word_of_nat (16 + 4 * length ws)) @ be32 tag @ be32 a @ be32 b @ concat (map be32 ws) =
    box tag (be32 a @ be32 b @ concat (map be32 ws))"
  by (simp add: box_def add.commute)

interpretation ftyp: atom "\<lambda>_. FTYP" FileType_Len FileType_Marshal FileType_Unmarshal ftyp_layout "\<lambda>_. True" ftyp_ok "\<lambda>x. x"
proof
  fix x :: FileType
  have "writes (FileType_Marshal x) (be32 (word_of_nat (FileType_Len x)) @ be32 FTYP @ be32 (MajorBrand x) @
      be32 (MinorVersion x) @ concat (map be32 (CompatibleBrands x)))"
    by (simp add: FileType_Marshal_def) (intro writes_intros)
  then show "writes (FileType_Marshal x) (ftyp_layout x)" by (simp only: FileType_Len_def brands_box ftyp_layout_def)
qed (auto simp: ftyp_layout_def ftyp_ok_def FileType_Len_def FileType_Unmarshal_def reader_simps read_brands_words)

interpretation styp: atom "\<lambda>_. STYP" SegmentType_Len SegmentType_Marshal SegmentType_Unmarshal styp_layout "\<lambda>_. True" styp_ok "\<lambda>x. x"
proof
  fix x :: SegmentType
  have "writes (SegmentType_Marshal x) (be32 (word_of_nat (SegmentType_Len x)) @ be32 STYP @ be32 (MajorBrand x) @
      be32 (MinorVersion x) @ concat (map be32 (CompatibleBrands x)))"
    by (simp add: SegmentType_Marshal_def) (intro writes_intros)
  then show "writes (SegmentType_Marshal x) (styp_layout x)" by (simp only: SegmentType_Len_def brands_box styp_layout_def)
qed (auto simp: styp_layout_def styp_ok_def SegmentType_Len_def SegmentType_Unmarshal_def reader_simps read_brands_words)

lemma writes_free: "writes FreeType_Marshal (box FREE [])"
  using writes_all_Cons [OF writes_put writes_all_Cons [OF writes_put writes_all_Nil], of "be32 8" "be32 FREE"]
  by (simp add: FreeType_Marshal_def box_def)

section \<open>sidx.go\<close>

definition SIDX :: Tag where "SIDX = 0x73696478"

record Reference =
  ReferenceType :: "32 word"
  ReferencedSize :: "32 word"
  SubsegmentDuration :: "32 word"
  StartsWithSAP :: "32 word"
  SAPType :: "32 word"
  SAPDeltaTime :: "32 word"

record SegmentIndex =
  sidx_Version :: byte
  sidx_Flags :: "32 word"
  sidx_ReferenceID :: "32 word"
  sidx_Timescale :: "32 word"
  sidx_EarliestPT :: "64 word"
  sidx_FirstOffset :: "64 word"
  sidx_Entries :: "Reference list"

definition SegmentIndex_Len :: "SegmentIndex \<Rightarrow> nat" where
  "SegmentIndex_Len s = (if sidx_Version s = 1 then 40 else 32) + length (sidx_Entries s) * 12"

definition wr_reference :: "Reference \<Rightarrow> wr" where
  "wr_reference e = wr_all
     [wr_put (be32 (push_bit 31 (ReferenceType e) OR ReferencedSize e)), wr_put (be32 (SubsegmentDuration e)),
      wr_put (be32 (push_bit 31 (StartsWithSAP e) OR push_bit 28 (SAPType e) OR SAPDeltaTime e))]"

definition SegmentIndex_Marshal :: "SegmentIndex \<Rightarrow> wr" where
  "SegmentIndex_Marshal s = wr_atom SIDX (wr_all
     [wr_put [sidx_Version s], wr_put (be24 (sidx_Flags s)), wr_put (be32 (sidx_ReferenceID s)),
      wr_put (be32 (sidx_Timescale s)),
      if sidx_Version s = 0
      then wr_all [wr_put (be32 (ucast (sidx_EarliestPT s))), wr_put (be32 (ucast (sidx_FirstOffset s)))]
      else wr_all [wr_put (be64 (sidx_EarliestPT s)), wr_put (be64 (sidx_FirstOffset s))],
      wr_skip 2, wr_put (be16 (word_of_nat (length (sidx_Entries s)))), wr_each wr_reference (sidx_Entries s)])"

section \<open>Dummy\<close>

record Dummy =
  dummy_Data :: bytes
  dummy_Tag :: Tag

definition Dummy_Len :: "Dummy \<Rightarrow> nat" where
  "Dummy_Len d = length (dummy_Data d)"

definition Dummy_Marshal :: "Dummy \<Rightarrow> wr" where
  "Dummy_Marshal d = wr_copy (dummy_Data d)"

definition Dummy_Unmarshal :: "Tag \<Rightarrow> Dummy rd" where
  "Dummy_Unmarshal tag b p = Some (Inr \<lparr>dummy_Data = b, dummy_Tag = tag\<rparr>)"

definition StringToTag :: "bytes \<Rightarrow> Tag" where
  "StringToTag tag = (case U32BE (take 4 (tag @ replicate 4 0)) of Inr v \<Rightarrow> v | Inl _ \<Rightarrow> 0)"

text \<open>Data that is a whole box of the tag.\<close>

definition dummy_ok :: "Dummy \<Rightarrow> bool" where
  "dummy_ok d \<longleftrightarrow> dummy_Data d = box (dummy_Tag d) (drop 8 (dummy_Data d)) \<and> 8 < length (dummy_Data d) \<and>
     length (dummy_Data d) < 2 ^ 32"

interpretation dummy: atom dummy_Tag Dummy_Len Dummy_Marshal "Dummy_Unmarshal t" dummy_Data "\<lambda>_. True"
    "\<lambda>d. dummy_ok d \<and> dummy_Tag d = t" "\<lambda>x. x" for t
  by unfold_locales (auto simp: dummy_ok_def Dummy_Len_def Dummy_Marshal_def Dummy_Unmarshal_def intro: writes_intros)

text \<open>The boxes a container keeps as they are: whole boxes of none of the tags it knows.\<close>

definition unknowns_ok :: "Tag list \<Rightarrow> Dummy list \<Rightarrow> bool" where
  "unknowns_ok tags ds = list_all (\<lambda>d. dummy_ok d \<and> dummy_Tag d \<notin> set tags) ds"

lemma read_unknowns:
  assumes "unknowns_ok tags ds"
    and "\<And>t b p m. t \<notin> set tags \<Longrightarrow> known t b p m = child [] (Dummy_Unmarshal t) (upd m) b p"
  shows "children known m (concat (map dummy_Data ds)) p = Some (Inr (foldl upd m ds))"
  using assms(1)
proof (induction ds arbitrary: m p)
  case (Cons d ds)
  then have d: "dummy_ok d \<and> dummy_Tag d = dummy_Tag d" and t: "dummy_Tag d \<notin> set tags" and ds: "unknowns_ok tags ds"
    by (simp_all add: unknowns_ok_def)
  have "children known m (dummy_Data d @ r) p = children known (upd m d) r (p + Dummy_Len d)" for r
    by (rule dummy.read_one [OF d]) (rule assms(2) [OF t])
  with Cons.IH [OF ds] show ?case by simp
qed (simp add: reader_simps)

end
