(* ===== verification/Mp4Sample.thy ===== *)
theory Mp4Sample
  imports Mp4Tables Mp4Raw
begin

text \<open>
  The containers at the bottom of a track of \<open>format/mp4/mp4io\<close>: data references, sample
  descriptions and the sample table.  \<open>..._child\<close> is the \<open>switch\<close> of the loop of the container's
  \<open>Unmarshal\<close>; a box of another tag becomes a \<open>Dummy\<close> of \<open>Unknowns\<close>, the only atoms the code
  puts there.
\<close>

section \<open>dref.go, dinf.go\<close>

definition DREF :: Tag where "DREF = 0x64726566"

record DataRefer =
  dref_Version :: byte
  dref_Flags :: "32 word"
  dref_Url :: "DataReferUrl option"

definition count_some :: "'a option \<Rightarrow> nat" where
  "count_some x = (case x of None \<Rightarrow> 0 | Some _ \<Rightarrow> 1)"

definition DataRefer_Marshal :: "DataRefer \<Rightarrow> wr" where
  "DataRefer_Marshal h = wr_atom DREF (wr_all
     [wr_put [dref_Version h], wr_put (be24 (dref_Flags h)), wr_put (be32 (word_of_nat (count_some (dref_Url h)))),
      wr_opt DataReferUrl_Marshal (dref_Url h)])"

definition DataRefer_Len :: "DataRefer \<Rightarrow> nat" where
  "DataRefer_Len h = 8 + 1 + 3 + 4 + opt_len DataReferUrl_Len (dref_Url h)"

definition DataRefer_child :: "Tag \<Rightarrow> bytes \<Rightarrow> nat \<Rightarrow> DataRefer \<Rightarrow> DataRefer outcome" where
  "DataRefer_child tag b p m =
     (if tag = URL then child ''url '' DataReferUrl_Unmarshal (\<lambda>a. m\<lparr>dref_Url := Some a\<rparr>) b p
      else Some (Inr m))"

definition DataRefer_Unmarshal :: "DataRefer rd" where
  "DataRefer_Unmarshal =
     pad 8 (field ''Version'' 1 U8 (\<lambda>v. field ''Flags'' 3 U24BE (\<lambda>fl. pad 4 (
     children DataRefer_child \<lparr>dref_Version = v, dref_Flags = fl, dref_Url = None\<rparr>))))"

definition dref_layout :: "DataRefer \<Rightarrow> bytes" where
  "dref_layout h = box DREF (concat
     [[dref_Version h], be24 (dref_Flags h), be32 (word_of_nat (count_some (dref_Url h))),
      opt_bytes url_layout (dref_Url h)])"

definition dref_ok :: "DataRefer \<Rightarrow> bool" where
  "dref_ok h \<longleftrightarrow> flags_ok (dref_Flags h) \<and> opt_all url_ok (dref_Url h)"

lemma pad_be32 [reader_simps]: "pad 4 c (be32 w @ r) p = c r (p + 4)"
  by (simp add: pad_def)

lemmas dref_read = url.read_some_end [where known = DataRefer_child and d = "''url ''" and
    upd = "\<lambda>m a. m\<lparr>dref_Url := Some a\<rparr>"]

lemma dref_reread: "dref_ok h \<Longrightarrow> DataRefer_Unmarshal (dref_layout h) p = Some (Inr h)"
  unfolding DataRefer_Unmarshal_def dref_layout_def dref_ok_def
  by (simp add: reader_simps dref_read DataRefer_child_def split: option.splits)

interpretation dref: atom "\<lambda>_. DREF" DataRefer_Len DataRefer_Marshal DataRefer_Unmarshal dref_layout "\<lambda>_. True" dref_ok
    "\<lambda>x. x"
proof (unfold_locales; (rule dref_reread; assumption)?)
  fix x
  show "writes (DataRefer_Marshal x) (dref_layout x)"
    unfolding DataRefer_Marshal_def dref_layout_def
    by (auto intro!: writes_intros url.writes_some)
  show "length (dref_layout x) = DataRefer_Len x"
    by (simp add: dref_layout_def DataRefer_Len_def url.length_some)
next
  fix x assume ok: "dref_ok x"
  then show "dref_layout x = box DREF (drop 8 (dref_layout x))" by (simp add: dref_layout_def)
  show "8 < length (dref_layout x) \<and> length (dref_layout x) < 2 ^ 32"
    by (simp add: dref_layout_def url.length_some opt_len_def DataReferUrl_Len_def split: option.splits)
qed simp_all

definition DINF :: Tag where "DINF = 0x64696e66"

record DataInfo =
  dinf_Refer :: "DataRefer option"
  dinf_Unknowns :: "Dummy list"

definition DataInfo_Marshal :: "DataInfo \<Rightarrow> wr" where
  "DataInfo_Marshal h = wr_atom DINF (wr_all
     [wr_opt DataRefer_Marshal (dinf_Refer h),
      wr_each Dummy_Marshal (dinf_Unknowns h)])"

definition DataInfo_Len :: "DataInfo \<Rightarrow> nat" where
  "DataInfo_Len h = 8 +
     opt_len DataRefer_Len (dinf_Refer h) +
     sum_list (map Dummy_Len (dinf_Unknowns h))"

definition DataInfo_child :: "Tag \<Rightarrow> bytes \<Rightarrow> nat \<Rightarrow> DataInfo \<Rightarrow> DataInfo outcome" where
  "DataInfo_child tag b p m =
     (if tag = DREF then child ''dref'' DataRefer_Unmarshal (\<lambda>a. m\<lparr>dinf_Refer := Some a\<rparr>) b p
      else child [] (Dummy_Unmarshal tag) (\<lambda>a. m\<lparr>dinf_Unknowns := dinf_Unknowns m @ [a]\<rparr>) b p)"

definition DataInfo_Unmarshal :: "DataInfo rd" where
  "DataInfo_Unmarshal =
     pad 8 (children DataInfo_child \<lparr>dinf_Refer = None, dinf_Unknowns = []\<rparr>)"

definition dinf_layout :: "DataInfo \<Rightarrow> bytes" where
  "dinf_layout h = box DINF (concat
     [opt_bytes dref_layout (dinf_Refer h),
      concat (map dummy_Data (dinf_Unknowns h))])"

definition dinf_ok :: "DataInfo \<Rightarrow> bool" where
  "dinf_ok h \<longleftrightarrow> opt_all dref_ok (dinf_Refer h) \<and>
     unknowns_ok [DREF] (dinf_Unknowns h) \<and>
     8 < DataInfo_Len h \<and>
     DataInfo_Len h < 2 ^ 32"

lemma fold_dinf_unknowns: "foldl (\<lambda>m a. m\<lparr>dinf_Unknowns := dinf_Unknowns m @ [a]\<rparr>) m xs =
    (m :: DataInfo)\<lparr>dinf_Unknowns := dinf_Unknowns m @ xs\<rparr>"
  by (induction xs arbitrary: m) simp_all

lemma dinf_unknowns: "unknowns_ok [DREF] ds \<Longrightarrow>
    children DataInfo_child m (concat (map dummy_Data ds)) p = Some (Inr (m\<lparr>dinf_Unknowns := dinf_Unknowns m @ ds\<rparr>))"
  using read_unknowns [of "[DREF]" ds DataInfo_child
      "\<lambda>m a. m\<lparr>dinf_Unknowns := dinf_Unknowns m @ [a]\<rparr>" m p]
  by (simp add: DataInfo_child_def fold_dinf_unknowns)

lemmas dinf_read =
  dref.read_some [where known = DataInfo_child and d = "''dref''"
      and upd = "\<lambda>m a. m\<lparr>dinf_Refer := Some a\<rparr>"]
  dinf_unknowns

lemma dinf_reread: "dinf_ok h \<Longrightarrow> DataInfo_Unmarshal (dinf_layout h) p = Some (Inr h)"
  unfolding DataInfo_Unmarshal_def dinf_layout_def dinf_ok_def
  by (simp add: reader_simps dinf_read DataInfo_child_def DREF_def fold_dinf_unknowns split: option.splits)

interpretation dinf: atom "\<lambda>_. DINF" DataInfo_Len DataInfo_Marshal DataInfo_Unmarshal
    dinf_layout "\<lambda>_. True" dinf_ok "\<lambda>x. x"
proof (unfold_locales; (rule dinf_reread; assumption)?)
  fix x
  show "writes (DataInfo_Marshal x) (dinf_layout x)"
    unfolding DataInfo_Marshal_def dinf_layout_def
    by (auto intro!: writes_intros dref.writes_some dummy.writes_all)
  show "length (dinf_layout x) = DataInfo_Len x"
    by (simp add: dinf_layout_def DataInfo_Len_def dref.length_some dummy.length_all)
next
  fix x assume ok: "dinf_ok x"
  then show "dinf_layout x = box DINF (drop 8 (dinf_layout x))" by (simp add: dinf_layout_def)
  show "8 < length (dinf_layout x) \<and> length (dinf_layout x) < 2 ^ 32"
    using ok by (simp add: dinf_layout_def dinf_ok_def DataInfo_Len_def dref.length_some dummy.length_all)
qed simp_all

section \<open>avc1.go, hev1.go, mjpg.go, mp4a.go\<close>

definition AVC1 :: Tag where "AVC1 = 0x61766331"

record AVC1Desc =
  avc1_DataRefIdx :: "16 word"
  avc1_Version :: "16 word"
  avc1_Revision :: "16 word"
  avc1_Vendor :: "32 word"
  avc1_TemporalQuality :: "32 word"
  avc1_SpatialQuality :: "32 word"
  avc1_Width :: "16 word"
  avc1_Height :: "16 word"
  avc1_HorizontalResolution :: rat
  avc1_VerticalResolution :: rat
  avc1_FrameCount :: "16 word"
  avc1_CompressorName :: bytes
  avc1_Depth :: "16 word"
  avc1_ColorTableId :: "16 word"
  avc1_Conf :: "AVC1Conf option"
  avc1_Unknowns :: "Dummy list"

definition AVC1Desc_Marshal :: "AVC1Desc \<Rightarrow> wr" where
  "AVC1Desc_Marshal h = wr_atom AVC1 (wr_all
     [wr_skip 6,
      wr_put (be16 (avc1_DataRefIdx h)),
      wr_put (be16 (avc1_Version h)),
      wr_put (be16 (avc1_Revision h)),
      wr_put (be32 (avc1_Vendor h)),
      wr_put (be32 (avc1_TemporalQuality h)),
      wr_put (be32 (avc1_SpatialQuality h)),
      wr_put (be16 (avc1_Width h)),
      wr_put (be16 (avc1_Height h)),
      wr_put (PutFixed32 (avc1_HorizontalResolution h)),
      wr_put (PutFixed32 (avc1_VerticalResolution h)),
      wr_skip 4,
      wr_put (be16 (avc1_FrameCount h)),
      wr_copy (avc1_CompressorName h),
      wr_put (be16 (avc1_Depth h)),
      wr_put (be16 (avc1_ColorTableId h)),
      wr_opt AVC1Conf_Marshal (avc1_Conf h),
      wr_each Dummy_Marshal (avc1_Unknowns h)])"

definition AVC1Desc_Len :: "AVC1Desc \<Rightarrow> nat" where
  "AVC1Desc_Len h = 8 + 6 + 2 + 2 + 2 + 4 + 4 + 4 + 2 + 2 + 4 + 4 + 4 + 2 + length (avc1_CompressorName h) + 2 + 2 +
     opt_len AVC1Conf_Len (avc1_Conf h) +
     sum_list (map Dummy_Len (avc1_Unknowns h))"

definition AVC1Desc_child :: "Tag \<Rightarrow> bytes \<Rightarrow> nat \<Rightarrow> AVC1Desc \<Rightarrow> AVC1Desc outcome" where
  "AVC1Desc_child tag b p m =
     (if tag = AVCC then child ''avcC'' AVC1Conf_Unmarshal (\<lambda>a. m\<lparr>avc1_Conf := Some a\<rparr>) b p
      else child [] (Dummy_Unmarshal tag) (\<lambda>a. m\<lparr>avc1_Unknowns := avc1_Unknowns m @ [a]\<rparr>) b p)"

definition AVC1Desc_Unmarshal :: "AVC1Desc rd" where
  "AVC1Desc_Unmarshal =
     pad 8 (pad 6 (field ''DataRefIdx'' 2 I16BE (\<lambda>x0. field ''Version'' 2 I16BE (\<lambda>x1. field ''Revision'' 2 I16BE (\<lambda>x2. 
     field ''Vendor'' 4 I32BE (\<lambda>x3. field ''TemporalQuality'' 4 I32BE (\<lambda>x4. field ''SpatialQuality'' 4 I32BE (\<lambda>x5. 
     field ''Width'' 2 I16BE (\<lambda>x6. field ''Height'' 2 I16BE (\<lambda>x7. field ''HorizontalResolution'' 4 GetFixed32 (\<lambda>x8. 
     field ''VerticalResolution'' 4 GetFixed32 (\<lambda>x9. pad 4 (field ''FrameCount'' 2 I16BE (\<lambda>x10. field ''CompressorName'' 32 (raw 32) (\<lambda>x11. 
     field ''Depth'' 2 I16BE (\<lambda>x12. field ''ColorTableId'' 2 I16BE (\<lambda>x13. children AVC1Desc_child \<lparr>avc1_DataRefIdx = x0, avc1_Version = x1, avc1_Revision = x2, avc1_Vendor = x3, avc1_TemporalQuality = x4, avc1_SpatialQuality = x5, avc1_Width = x6,
       avc1_Height = x7, avc1_HorizontalResolution = x8, avc1_VerticalResolution = x9, avc1_FrameCount = x10, avc1_CompressorName = x11, avc1_Depth = x12, avc1_ColorTableId = x13,
       avc1_Conf = None, avc1_Unknowns = []\<rparr>)))))))))))))))))"

definition avc1_layout :: "AVC1Desc \<Rightarrow> bytes" where
  "avc1_layout h = box AVC1 (concat
     [replicate 6 0,
      be16 (avc1_DataRefIdx h),
      be16 (avc1_Version h),
      be16 (avc1_Revision h),
      be32 (avc1_Vendor h),
      be32 (avc1_TemporalQuality h),
      be32 (avc1_SpatialQuality h),
      be16 (avc1_Width h),
      be16 (avc1_Height h),
      PutFixed32 (avc1_HorizontalResolution h),
      PutFixed32 (avc1_VerticalResolution h),
      replicate 4 0,
      be16 (avc1_FrameCount h),
      avc1_CompressorName h,
      be16 (avc1_Depth h),
      be16 (avc1_ColorTableId h),
      opt_bytes avcc_layout (avc1_Conf h),
      concat (map dummy_Data (avc1_Unknowns h))])"

definition avc1_ok :: "AVC1Desc \<Rightarrow> bool" where
  "avc1_ok h \<longleftrightarrow> length (avc1_CompressorName h) = 32 \<and>
     fixed32_ok (avc1_HorizontalResolution h) \<and>
     fixed32_ok (avc1_VerticalResolution h) \<and>
     opt_all avcc_ok (avc1_Conf h) \<and>
     unknowns_ok [AVCC] (avc1_Unknowns h) \<and>
     AVC1Desc_Len h < 2 ^ 32"

lemma fold_avc1_unknowns: "foldl (\<lambda>m a. m\<lparr>avc1_Unknowns := avc1_Unknowns m @ [a]\<rparr>) m xs =
    (m :: AVC1Desc)\<lparr>avc1_Unknowns := avc1_Unknowns m @ xs\<rparr>"
  by (induction xs arbitrary: m) simp_all

lemma avc1_unknowns: "unknowns_ok [AVCC] ds \<Longrightarrow>
    children AVC1Desc_child m (concat (map dummy_Data ds)) p = Some (Inr (m\<lparr>avc1_Unknowns := avc1_Unknowns m @ ds\<rparr>))"
  using read_unknowns [of "[AVCC]" ds AVC1Desc_child
      "\<lambda>m a. m\<lparr>avc1_Unknowns := avc1_Unknowns m @ [a]\<rparr>" m p]
  by (simp add: AVC1Desc_child_def fold_avc1_unknowns)

lemmas avc1_read =
  avcc.read_some [where known = AVC1Desc_child and d = "''avcC''"
      and upd = "\<lambda>m a. m\<lparr>avc1_Conf := Some a\<rparr>"]
  avc1_unknowns

lemma avc1_reread: "avc1_ok h \<Longrightarrow> AVC1Desc_Unmarshal (avc1_layout h) p = Some (Inr h)"
  unfolding AVC1Desc_Unmarshal_def avc1_layout_def avc1_ok_def
  by (simp add: reader_simps avc1_read AVC1Desc_child_def AVCC_def fold_avc1_unknowns split: option.splits)

interpretation avc1: atom "\<lambda>_. AVC1" AVC1Desc_Len AVC1Desc_Marshal AVC1Desc_Unmarshal
    avc1_layout "\<lambda>_. True" avc1_ok "\<lambda>x. x"
proof (unfold_locales; (rule avc1_reread; assumption)?)
  fix x
  show "writes (AVC1Desc_Marshal x) (avc1_layout x)"
    unfolding AVC1Desc_Marshal_def avc1_layout_def
    by (auto intro!: writes_intros avcc.writes_some dummy.writes_all)
  show "length (avc1_layout x) = AVC1Desc_Len x"
    by (simp add: avc1_layout_def AVC1Desc_Len_def avcc.length_some dummy.length_all)
next
  fix x assume ok: "avc1_ok x"
  then show "avc1_layout x = box AVC1 (drop 8 (avc1_layout x))" by (simp add: avc1_layout_def)
  show "8 < length (avc1_layout x) \<and> length (avc1_layout x) < 2 ^ 32"
    using ok by (simp add: avc1_layout_def avc1_ok_def AVC1Desc_Len_def avcc.length_some dummy.length_all)
qed simp_all

definition HEV1 :: Tag where "HEV1 = 0x68657631"

record HV1Desc =
  hev1_DataRefIdx :: "16 word"
  hev1_Version :: "16 word"
  hev1_Revision :: "16 word"
  hev1_Vendor :: "32 word"
  hev1_TemporalQuality :: "32 word"
  hev1_SpatialQuality :: "32 word"
  hev1_Width :: "16 word"
  hev1_Height :: "16 word"
  hev1_HorizontalResolution :: rat
  hev1_VerticalResolution :: rat
  hev1_FrameCount :: "16 word"
  hev1_CompressorName :: bytes
  hev1_Depth :: "16 word"
  hev1_ColorTableId :: "16 word"
  hev1_Conf :: "HV1Conf option"
  hev1_Unknowns :: "Dummy list"

definition HV1Desc_Marshal :: "HV1Desc \<Rightarrow> wr" where
  "HV1Desc_Marshal h = wr_atom HEV1 (wr_all
     [wr_skip 6,
      wr_put (be16 (hev1_DataRefIdx h)),
      wr_put (be16 (hev1_Version h)),
      wr_put (be16 (hev1_Revision h)),
      wr_put (be32 (hev1_Vendor h)),
      wr_put (be32 (hev1_TemporalQuality h)),
      wr_put (be32 (hev1_SpatialQuality h)),
      wr_put (be16 (hev1_Width h)),
      wr_put (be16 (hev1_Height h)),
      wr_put (PutFixed32 (hev1_HorizontalResolution h)),
      wr_put (PutFixed32 (hev1_VerticalResolution h)),
      wr_skip 4,
      wr_put (be16 (hev1_FrameCount h)),
      wr_copy (hev1_CompressorName h),
      wr_put (be16 (hev1_Depth h)),
      wr_put (be16 (hev1_ColorTableId h)),
      wr_opt HV1Conf_Marshal (hev1_Conf h),
      wr_each Dummy_Marshal (hev1_Unknowns h)])"

definition HV1Desc_Len :: "HV1Desc \<Rightarrow> nat" where
  "HV1Desc_Len h = 8 + 6 + 2 + 2 + 2 + 4 + 4 + 4 + 2 + 2 + 4 + 4 + 4 + 2 + length (hev1_CompressorName h) + 2 + 2 +
     opt_len HV1Conf_Len (hev1_Conf h) +
     sum_list (map Dummy_Len (hev1_Unknowns h))"

definition HV1Desc_child :: "Tag \<Rightarrow> bytes \<Rightarrow> nat \<Rightarrow> HV1Desc \<Rightarrow> HV1Desc outcome" where
  "HV1Desc_child tag b p m =
     (if tag = HVCC then child ''hvcC'' HV1Conf_Unmarshal (\<lambda>a. m\<lparr>hev1_Conf := Some a\<rparr>) b p
      else child [] (Dummy_Unmarshal tag) (\<lambda>a. m\<lparr>hev1_Unknowns := hev1_Unknowns m @ [a]\<rparr>) b p)"

definition HV1Desc_Unmarshal :: "HV1Desc rd" where
  "HV1Desc_Unmarshal =
     pad 8 (pad 6 (field ''DataRefIdx'' 2 I16BE (\<lambda>x0. field ''Version'' 2 I16BE (\<lambda>x1. field ''Revision'' 2 I16BE (\<lambda>x2. 
     field ''Vendor'' 4 I32BE (\<lambda>x3. field ''TemporalQuality'' 4 I32BE (\<lambda>x4. field ''SpatialQuality'' 4 I32BE (\<lambda>x5. 
     field ''Width'' 2 I16BE (\<lambda>x6. field ''Height'' 2 I16BE (\<lambda>x7. field ''HorizontalResolution'' 4 GetFixed32 (\<lambda>x8. 
     field ''VerticalResolution'' 4 GetFixed32 (\<lambda>x9. pad 4 (field ''FrameCount'' 2 I16BE (\<lambda>x10. field ''CompressorName'' 32 (raw 32) (\<lambda>x11. 
     field ''Depth'' 2 I16BE (\<lambda>x12. field ''ColorTableId'' 2 I16BE (\<lambda>x13. children HV1Desc_child \<lparr>hev1_DataRefIdx = x0, hev1_Version = x1, hev1_Revision = x2, hev1_Vendor = x3, hev1_TemporalQuality = x4, hev1_SpatialQuality = x5, hev1_Width = x6,
       hev1_Height = x7, hev1_HorizontalResolution = x8, hev1_VerticalResolution = x9, hev1_FrameCount = x10, hev1_CompressorName = x11, hev1_Depth = x12, hev1_ColorTableId = x13,
       hev1_Conf = None, hev1_Unknowns = []\<rparr>)))))))))))))))))"

definition hev1_layout :: "HV1Desc \<Rightarrow> bytes" where
  "hev1_layout h = box HEV1 (concat
     [replicate 6 0,
      be16 (hev1_DataRefIdx h),
      be16 (hev1_Version h),
      be16 (hev1_Revision h),
      be32 (hev1_Vendor h),
      be32 (hev1_TemporalQuality h),
      be32 (hev1_SpatialQuality h),
      be16 (hev1_Width h),
      be16 (hev1_Height h),
      PutFixed32 (hev1_HorizontalResolution h),
      PutFixed32 (hev1_VerticalResolution h),
      replicate 4 0,
      be16 (hev1_FrameCount h),
      hev1_CompressorName h,
      be16 (hev1_Depth h),
      be16 (hev1_ColorTableId h),
      opt_bytes hvcc_layout (hev1_Conf h),
      concat (map dummy_Data (hev1_Unknowns h))])"

definition hev1_ok :: "HV1Desc \<Rightarrow> bool" where
  "hev1_ok h \<longleftrightarrow> length (hev1_CompressorName h) = 32 \<and>
     fixed32_ok (hev1_HorizontalResolution h) \<and>
     fixed32_ok (hev1_VerticalResolution h) \<and>
     opt_all hvcc_ok (hev1_Conf h) \<and>
     unknowns_ok [HVCC] (hev1_Unknowns h) \<and>
     HV1Desc_Len h < 2 ^ 32"

lemma fold_hev1_unknowns: "foldl (\<lambda>m a. m\<lparr>hev1_Unknowns := hev1_Unknowns m @ [a]\<rparr>) m xs =
    (m :: HV1Desc)\<lparr>hev1_Unknowns := hev1_Unknowns m @ xs\<rparr>"
  by (induction xs arbitrary: m) simp_all

lemma hev1_unknowns: "unknowns_ok [HVCC] ds \<Longrightarrow>
    children HV1Desc_child m (concat (map dummy_Data ds)) p = Some (Inr (m\<lparr>hev1_Unknowns := hev1_Unknowns m @ ds\<rparr>))"
  using read_unknowns [of "[HVCC]" ds HV1Desc_child
      "\<lambda>m a. m\<lparr>hev1_Unknowns := hev1_Unknowns m @ [a]\<rparr>" m p]
  by (simp add: HV1Desc_child_def fold_hev1_unknowns)

lemmas hev1_read =
  hvcc.read_some [where known = HV1Desc_child and d = "''hvcC''"
      and upd = "\<lambda>m a. m\<lparr>hev1_Conf := Some a\<rparr>"]
  hev1_unknowns

lemma hev1_reread: "hev1_ok h \<Longrightarrow> HV1Desc_Unmarshal (hev1_layout h) p = Some (Inr h)"
  unfolding HV1Desc_Unmarshal_def hev1_layout_def hev1_ok_def
  by (simp add: reader_simps hev1_read HV1Desc_child_def HVCC_def fold_hev1_unknowns split: option.splits)

interpretation hev1: atom "\<lambda>_. HEV1" HV1Desc_Len HV1Desc_Marshal HV1Desc_Unmarshal
    hev1_layout "\<lambda>_. True" hev1_ok "\<lambda>x. x"
proof (unfold_locales; (rule hev1_reread; assumption)?)
  fix x
  show "writes (HV1Desc_Marshal x) (hev1_layout x)"
    unfolding HV1Desc_Marshal_def hev1_layout_def
    by (auto intro!: writes_intros hvcc.writes_some dummy.writes_all)
  show "length (hev1_layout x) = HV1Desc_Len x"
    by (simp add: hev1_layout_def HV1Desc_Len_def hvcc.length_some dummy.length_all)
next
  fix x assume ok: "hev1_ok x"
  then show "hev1_layout x = box HEV1 (drop 8 (hev1_layout x))" by (simp add: hev1_layout_def)
  show "8 < length (hev1_layout x) \<and> length (hev1_layout x) < 2 ^ 32"
    using ok by (simp add: hev1_layout_def hev1_ok_def HV1Desc_Len_def hvcc.length_some dummy.length_all)
qed simp_all

definition MJPG :: Tag where "MJPG = 0x6d6a7067"

record MJPGDesc =
  mjpg_DataRefIdx :: "16 word"
  mjpg_Version :: "16 word"
  mjpg_Revision :: "16 word"
  mjpg_Vendor :: "32 word"
  mjpg_TemporalQuality :: "32 word"
  mjpg_SpatialQuality :: "32 word"
  mjpg_Width :: "16 word"
  mjpg_Height :: "16 word"
  mjpg_HorizontalResolution :: rat
  mjpg_VerticalResolution :: rat
  mjpg_FrameCount :: "16 word"
  mjpg_CompressorName :: bytes
  mjpg_Depth :: "16 word"
  mjpg_ColorTableId :: "16 word"
  mjpg_Unknowns :: "Dummy list"

definition MJPGDesc_Marshal :: "MJPGDesc \<Rightarrow> wr" where
  "MJPGDesc_Marshal h = wr_atom MJPG (wr_all
     [wr_skip 6,
      wr_put (be16 (mjpg_DataRefIdx h)),
      wr_put (be16 (mjpg_Version h)),
      wr_put (be16 (mjpg_Revision h)),
      wr_put (be32 (mjpg_Vendor h)),
      wr_put (be32 (mjpg_TemporalQuality h)),
      wr_put (be32 (mjpg_SpatialQuality h)),
      wr_put (be16 (mjpg_Width h)),
      wr_put (be16 (mjpg_Height h)),
      wr_put (PutFixed32 (mjpg_HorizontalResolution h)),
      wr_put (PutFixed32 (mjpg_VerticalResolution h)),
      wr_skip 4,
      wr_put (be16 (mjpg_FrameCount h)),
      wr_copy (mjpg_CompressorName h),
      wr_put (be16 (mjpg_Depth h)),
      wr_put (be16 (mjpg_ColorTableId h)),
      wr_each Dummy_Marshal (mjpg_Unknowns h)])"

definition MJPGDesc_Len :: "MJPGDesc \<Rightarrow> nat" where
  "MJPGDesc_Len h = 8 + 6 + 2 + 2 + 2 + 4 + 4 + 4 + 2 + 2 + 4 + 4 + 4 + 2 + length (mjpg_CompressorName h) + 2 + 2 +
     sum_list (map Dummy_Len (mjpg_Unknowns h))"

definition MJPGDesc_child :: "Tag \<Rightarrow> bytes \<Rightarrow> nat \<Rightarrow> MJPGDesc \<Rightarrow> MJPGDesc outcome" where
  "MJPGDesc_child tag b p m =
     (child [] (Dummy_Unmarshal tag) (\<lambda>a. m\<lparr>mjpg_Unknowns := mjpg_Unknowns m @ [a]\<rparr>) b p)"

definition MJPGDesc_Unmarshal :: "MJPGDesc rd" where
  "MJPGDesc_Unmarshal =
     pad 8 (pad 6 (field ''DataRefIdx'' 2 I16BE (\<lambda>x0. field ''Version'' 2 I16BE (\<lambda>x1. field ''Revision'' 2 I16BE (\<lambda>x2. 
     field ''Vendor'' 4 I32BE (\<lambda>x3. field ''TemporalQuality'' 4 I32BE (\<lambda>x4. field ''SpatialQuality'' 4 I32BE (\<lambda>x5. 
     field ''Width'' 2 I16BE (\<lambda>x6. field ''Height'' 2 I16BE (\<lambda>x7. field ''HorizontalResolution'' 4 GetFixed32 (\<lambda>x8. 
     field ''VerticalResolution'' 4 GetFixed32 (\<lambda>x9. pad 4 (field ''FrameCount'' 2 I16BE (\<lambda>x10. field ''CompressorName'' 32 (raw 32) (\<lambda>x11. 
     field ''Depth'' 2 I16BE (\<lambda>x12. field ''ColorTableId'' 2 I16BE (\<lambda>x13. children MJPGDesc_child \<lparr>mjpg_DataRefIdx = x0, mjpg_Version = x1, mjpg_Revision = x2, mjpg_Vendor = x3, mjpg_TemporalQuality = x4, mjpg_SpatialQuality = x5, mjpg_Width = x6,
       mjpg_Height = x7, mjpg_HorizontalResolution = x8, mjpg_VerticalResolution = x9, mjpg_FrameCount = x10, mjpg_CompressorName = x11, mjpg_Depth = x12, mjpg_ColorTableId = x13,
       mjpg_Unknowns = []\<rparr>)))))))))))))))))"

definition mjpg_layout :: "MJPGDesc \<Rightarrow> bytes" where
  "mjpg_layout h = box MJPG (concat
     [replicate 6 0,
      be16 (mjpg_DataRefIdx h),
      be16 (mjpg_Version h),
      be16 (mjpg_Revision h),
      be32 (mjpg_Vendor h),
      be32 (mjpg_TemporalQuality h),
      be32 (mjpg_SpatialQuality h),
      be16 (mjpg_Width h),
      be16 (mjpg_Height h),
      PutFixed32 (mjpg_HorizontalResolution h),
      PutFixed32 (mjpg_VerticalResolution h),
      replicate 4 0,
      be16 (mjpg_FrameCount h),
      mjpg_CompressorName h,
      be16 (mjpg_Depth h),
      be16 (mjpg_ColorTableId h),
      concat (map dummy_Data (mjpg_Unknowns h))])"

definition mjpg_ok :: "MJPGDesc \<Rightarrow> bool" where
  "mjpg_ok h \<longleftrightarrow> length (mjpg_CompressorName h) = 32 \<and>
     fixed32_ok (mjpg_HorizontalResolution h) \<and>
     fixed32_ok (mjpg_VerticalResolution h) \<and>
     unknowns_ok [] (mjpg_Unknowns h) \<and>
     MJPGDesc_Len h < 2 ^ 32"

lemma fold_mjpg_unknowns: "foldl (\<lambda>m a. m\<lparr>mjpg_Unknowns := mjpg_Unknowns m @ [a]\<rparr>) m xs =
    (m :: MJPGDesc)\<lparr>mjpg_Unknowns := mjpg_Unknowns m @ xs\<rparr>"
  by (induction xs arbitrary: m) simp_all

lemma mjpg_unknowns: "unknowns_ok [] ds \<Longrightarrow>
    children MJPGDesc_child m (concat (map dummy_Data ds)) p = Some (Inr (m\<lparr>mjpg_Unknowns := mjpg_Unknowns m @ ds\<rparr>))"
  using read_unknowns [of "[]" ds MJPGDesc_child
      "\<lambda>m a. m\<lparr>mjpg_Unknowns := mjpg_Unknowns m @ [a]\<rparr>" m p]
  by (simp add: MJPGDesc_child_def fold_mjpg_unknowns)

lemmas mjpg_read =
  mjpg_unknowns

lemma mjpg_reread: "mjpg_ok h \<Longrightarrow> MJPGDesc_Unmarshal (mjpg_layout h) p = Some (Inr h)"
  unfolding MJPGDesc_Unmarshal_def mjpg_layout_def mjpg_ok_def
  by (simp add: reader_simps mjpg_read MJPGDesc_child_def  fold_mjpg_unknowns split: option.splits)

interpretation mjpg: atom "\<lambda>_. MJPG" MJPGDesc_Len MJPGDesc_Marshal MJPGDesc_Unmarshal
    mjpg_layout "\<lambda>_. True" mjpg_ok "\<lambda>x. x"
proof (unfold_locales; (rule mjpg_reread; assumption)?)
  fix x
  show "writes (MJPGDesc_Marshal x) (mjpg_layout x)"
    unfolding MJPGDesc_Marshal_def mjpg_layout_def
    by (auto intro!: writes_intros  dummy.writes_all)
  show "length (mjpg_layout x) = MJPGDesc_Len x"
    by (simp add: mjpg_layout_def MJPGDesc_Len_def  dummy.length_all)
next
  fix x assume ok: "mjpg_ok x"
  then show "mjpg_layout x = box MJPG (drop 8 (mjpg_layout x))" by (simp add: mjpg_layout_def)
  show "8 < length (mjpg_layout x) \<and> length (mjpg_layout x) < 2 ^ 32"
    using ok by (simp add: mjpg_layout_def mjpg_ok_def MJPGDesc_Len_def  dummy.length_all)
qed simp_all

definition MP4A :: Tag where "MP4A = 0x6d703461"

record MP4ADesc =
  mp4a_DataRefIdx :: "16 word"
  mp4a_Version :: "16 word"
  mp4a_RevisionLevel :: "16 word"
  mp4a_Vendor :: "32 word"
  mp4a_NumberOfChannels :: "16 word"
  mp4a_SampleSize :: "16 word"
  mp4a_CompressionId :: "16 word"
  mp4a_SampleRate :: rat
  mp4a_Conf :: "ElemStreamDesc option"
  mp4a_Unknowns :: "Dummy list"

definition MP4ADesc_Marshal :: "MP4ADesc \<Rightarrow> wr" where
  "MP4ADesc_Marshal h = wr_atom MP4A (wr_all
     [wr_skip 6,
      wr_put (be16 (mp4a_DataRefIdx h)),
      wr_put (be16 (mp4a_Version h)),
      wr_put (be16 (mp4a_RevisionLevel h)),
      wr_put (be32 (mp4a_Vendor h)),
      wr_put (be16 (mp4a_NumberOfChannels h)),
      wr_put (be16 (mp4a_SampleSize h)),
      wr_put (be16 (mp4a_CompressionId h)),
      wr_skip 2,
      wr_put (PutFixed32 (mp4a_SampleRate h)),
      wr_opt ElemStreamDesc_Marshal (mp4a_Conf h),
      wr_each Dummy_Marshal (mp4a_Unknowns h)])"

definition MP4ADesc_Len :: "MP4ADesc \<Rightarrow> nat" where
  "MP4ADesc_Len h = 8 + 6 + 2 + 2 + 2 + 4 + 2 + 2 + 2 + 2 + 4 +
     opt_len ElemStreamDesc_Len (mp4a_Conf h) +
     sum_list (map Dummy_Len (mp4a_Unknowns h))"

definition MP4ADesc_child :: "Tag \<Rightarrow> bytes \<Rightarrow> nat \<Rightarrow> MP4ADesc \<Rightarrow> MP4ADesc outcome" where
  "MP4ADesc_child tag b p m =
     (if tag = ESDS then child ''esds'' ElemStreamDesc_Unmarshal (\<lambda>a. m\<lparr>mp4a_Conf := Some a\<rparr>) b p
      else child [] (Dummy_Unmarshal tag) (\<lambda>a. m\<lparr>mp4a_Unknowns := mp4a_Unknowns m @ [a]\<rparr>) b p)"

definition MP4ADesc_Unmarshal :: "MP4ADesc rd" where
  "MP4ADesc_Unmarshal =
     pad 8 (pad 6 (field ''DataRefIdx'' 2 I16BE (\<lambda>x0. field ''Version'' 2 I16BE (\<lambda>x1. field ''RevisionLevel'' 2 I16BE (\<lambda>x2. 
     field ''Vendor'' 4 I32BE (\<lambda>x3. field ''NumberOfChannels'' 2 I16BE (\<lambda>x4. field ''SampleSize'' 2 I16BE (\<lambda>x5. 
     field ''CompressionId'' 2 I16BE (\<lambda>x6. pad 2 (field ''SampleRate'' 4 GetFixed32 (\<lambda>x7. children MP4ADesc_child \<lparr>mp4a_DataRefIdx = x0, mp4a_Version = x1, mp4a_RevisionLevel = x2, mp4a_Vendor = x3, mp4a_NumberOfChannels = x4, mp4a_SampleSize = x5, mp4a_CompressionId = x6, mp4a_SampleRate = x7,
       mp4a_Conf = None, mp4a_Unknowns = []\<rparr>)))))))))))"

definition mp4a_layout :: "MP4ADesc \<Rightarrow> bytes" where
  "mp4a_layout h = box MP4A (concat
     [replicate 6 0,
      be16 (mp4a_DataRefIdx h),
      be16 (mp4a_Version h),
      be16 (mp4a_RevisionLevel h),
      be32 (mp4a_Vendor h),
      be16 (mp4a_NumberOfChannels h),
      be16 (mp4a_SampleSize h),
      be16 (mp4a_CompressionId h),
      replicate 2 0,
      PutFixed32 (mp4a_SampleRate h),
      opt_bytes esds_layout (mp4a_Conf h),
      concat (map dummy_Data (mp4a_Unknowns h))])"

definition mp4a_ok :: "MP4ADesc \<Rightarrow> bool" where
  "mp4a_ok h \<longleftrightarrow> fixed32_ok (mp4a_SampleRate h) \<and>
     opt_all esds_ok (mp4a_Conf h) \<and>
     unknowns_ok [ESDS] (mp4a_Unknowns h) \<and>
     MP4ADesc_Len h < 2 ^ 32"

definition mp4a_norm :: "MP4ADesc \<Rightarrow> MP4ADesc" where
  "mp4a_norm h = h\<lparr>mp4a_Conf := map_option esds_norm (mp4a_Conf h)\<rparr>"

lemma fold_mp4a_unknowns: "foldl (\<lambda>m a. m\<lparr>mp4a_Unknowns := mp4a_Unknowns m @ [a]\<rparr>) m xs =
    (m :: MP4ADesc)\<lparr>mp4a_Unknowns := mp4a_Unknowns m @ xs\<rparr>"
  by (induction xs arbitrary: m) simp_all

lemma mp4a_unknowns: "unknowns_ok [ESDS] ds \<Longrightarrow>
    children MP4ADesc_child m (concat (map dummy_Data ds)) p = Some (Inr (m\<lparr>mp4a_Unknowns := mp4a_Unknowns m @ ds\<rparr>))"
  using read_unknowns [of "[ESDS]" ds MP4ADesc_child
      "\<lambda>m a. m\<lparr>mp4a_Unknowns := mp4a_Unknowns m @ [a]\<rparr>" m p]
  by (simp add: MP4ADesc_child_def fold_mp4a_unknowns)

lemmas mp4a_read =
  esds.read_some [where known = MP4ADesc_child and d = "''esds''"
      and upd = "\<lambda>m a. m\<lparr>mp4a_Conf := Some a\<rparr>"]
  mp4a_unknowns

lemma mp4a_reread: "mp4a_ok h \<Longrightarrow> MP4ADesc_Unmarshal (mp4a_layout h) p = Some (Inr (mp4a_norm h))"
  unfolding MP4ADesc_Unmarshal_def mp4a_layout_def mp4a_ok_def
  by (simp add: reader_simps mp4a_read MP4ADesc_child_def ESDS_def fold_mp4a_unknowns mp4a_norm_def split: option.splits)

interpretation mp4a: atom "\<lambda>_. MP4A" MP4ADesc_Len MP4ADesc_Marshal MP4ADesc_Unmarshal
    mp4a_layout "\<lambda>_. True" mp4a_ok mp4a_norm
proof (unfold_locales; (rule mp4a_reread; assumption)?)
  fix x
  show "writes (MP4ADesc_Marshal x) (mp4a_layout x)"
    unfolding MP4ADesc_Marshal_def mp4a_layout_def
    by (auto intro!: writes_intros esds.writes_some dummy.writes_all)
  show "length (mp4a_layout x) = MP4ADesc_Len x"
    by (simp add: mp4a_layout_def MP4ADesc_Len_def esds.length_some dummy.length_all)
next
  fix x assume ok: "mp4a_ok x"
  then show "mp4a_layout x = box MP4A (drop 8 (mp4a_layout x))" by (simp add: mp4a_layout_def)
  show "8 < length (mp4a_layout x) \<and> length (mp4a_layout x) < 2 ^ 32"
    using ok by (simp add: mp4a_layout_def mp4a_ok_def MP4ADesc_Len_def esds.length_some dummy.length_all)
qed simp_all

section \<open>stsd.go\<close>

definition STSD :: Tag where "STSD = 0x73747364"

record SampleDesc =
  stsd_Version :: byte
  stsd_AVC1Desc :: "AVC1Desc option"
  stsd_HV1Desc :: "HV1Desc option"
  stsd_MJPGDesc :: "MJPGDesc option"
  stsd_MP4ADesc :: "MP4ADesc option"
  stsd_Unknowns :: "Dummy list"

definition stsd_children :: "SampleDesc \<Rightarrow> nat" where
  "stsd_children h = count_some (stsd_AVC1Desc h) + count_some (stsd_HV1Desc h) + count_some (stsd_MJPGDesc h) +
     count_some (stsd_MP4ADesc h) + length (stsd_Unknowns h)"

definition SampleDesc_Marshal :: "SampleDesc \<Rightarrow> wr" where
  "SampleDesc_Marshal h = wr_atom STSD (wr_all
     [wr_put [stsd_Version h],
      wr_skip 3,
      wr_put (be32 (word_of_nat (stsd_children h))),
      wr_opt AVC1Desc_Marshal (stsd_AVC1Desc h),
      wr_opt HV1Desc_Marshal (stsd_HV1Desc h),
      wr_opt MJPGDesc_Marshal (stsd_MJPGDesc h),
      wr_opt MP4ADesc_Marshal (stsd_MP4ADesc h),
      wr_each Dummy_Marshal (stsd_Unknowns h)])"

definition SampleDesc_Len :: "SampleDesc \<Rightarrow> nat" where
  "SampleDesc_Len h = 8 + 1 + 3 + 4 +
     opt_len AVC1Desc_Len (stsd_AVC1Desc h) +
     opt_len HV1Desc_Len (stsd_HV1Desc h) +
     opt_len MJPGDesc_Len (stsd_MJPGDesc h) +
     opt_len MP4ADesc_Len (stsd_MP4ADesc h) +
     sum_list (map Dummy_Len (stsd_Unknowns h))"

definition SampleDesc_child :: "Tag \<Rightarrow> bytes \<Rightarrow> nat \<Rightarrow> SampleDesc \<Rightarrow> SampleDesc outcome" where
  "SampleDesc_child tag b p m =
     (if tag = AVC1 then child ''avc1'' AVC1Desc_Unmarshal (\<lambda>a. m\<lparr>stsd_AVC1Desc := Some a\<rparr>) b p
      else if tag = HEV1 then child ''hec1'' HV1Desc_Unmarshal (\<lambda>a. m\<lparr>stsd_HV1Desc := Some a\<rparr>) b p
      else if tag = MJPG then child ''mjpg'' MJPGDesc_Unmarshal (\<lambda>a. m\<lparr>stsd_MJPGDesc := Some a\<rparr>) b p
      else if tag = MP4A then child ''mp4a'' MP4ADesc_Unmarshal (\<lambda>a. m\<lparr>stsd_MP4ADesc := Some a\<rparr>) b p
      else child [] (Dummy_Unmarshal tag) (\<lambda>a. m\<lparr>stsd_Unknowns := stsd_Unknowns m @ [a]\<rparr>) b p)"

definition SampleDesc_Unmarshal :: "SampleDesc rd" where
  "SampleDesc_Unmarshal =
     pad 8 (field ''Version'' 1 U8 (\<lambda>x0. pad 3 (pad 4 (children SampleDesc_child \<lparr>stsd_Version = x0,
       stsd_AVC1Desc = None, stsd_HV1Desc = None, stsd_MJPGDesc = None, stsd_MP4ADesc = None, stsd_Unknowns = []\<rparr>))))"

definition stsd_layout :: "SampleDesc \<Rightarrow> bytes" where
  "stsd_layout h = box STSD (concat
     [[stsd_Version h],
      replicate 3 0,
      be32 (word_of_nat (stsd_children h)),
      opt_bytes avc1_layout (stsd_AVC1Desc h),
      opt_bytes hev1_layout (stsd_HV1Desc h),
      opt_bytes mjpg_layout (stsd_MJPGDesc h),
      opt_bytes mp4a_layout (stsd_MP4ADesc h),
      concat (map dummy_Data (stsd_Unknowns h))])"

definition stsd_ok :: "SampleDesc \<Rightarrow> bool" where
  "stsd_ok h \<longleftrightarrow> opt_all avc1_ok (stsd_AVC1Desc h) \<and>
     opt_all hev1_ok (stsd_HV1Desc h) \<and>
     opt_all mjpg_ok (stsd_MJPGDesc h) \<and>
     opt_all mp4a_ok (stsd_MP4ADesc h) \<and>
     unknowns_ok [AVC1, HEV1, MJPG, MP4A] (stsd_Unknowns h) \<and>
     SampleDesc_Len h < 2 ^ 32"

definition stsd_norm :: "SampleDesc \<Rightarrow> SampleDesc" where
  "stsd_norm h = h\<lparr>stsd_MP4ADesc := map_option mp4a_norm (stsd_MP4ADesc h)\<rparr>"

lemma fold_stsd_unknowns: "foldl (\<lambda>m a. m\<lparr>stsd_Unknowns := stsd_Unknowns m @ [a]\<rparr>) m xs =
    (m :: SampleDesc)\<lparr>stsd_Unknowns := stsd_Unknowns m @ xs\<rparr>"
  by (induction xs arbitrary: m) simp_all

lemma stsd_unknowns: "unknowns_ok [AVC1, HEV1, MJPG, MP4A] ds \<Longrightarrow>
    children SampleDesc_child m (concat (map dummy_Data ds)) p = Some (Inr (m\<lparr>stsd_Unknowns := stsd_Unknowns m @ ds\<rparr>))"
  using read_unknowns [of "[AVC1, HEV1, MJPG, MP4A]" ds SampleDesc_child
      "\<lambda>m a. m\<lparr>stsd_Unknowns := stsd_Unknowns m @ [a]\<rparr>" m p]
  by (simp add: SampleDesc_child_def fold_stsd_unknowns)

lemmas stsd_read =
  avc1.read_some [where known = SampleDesc_child and d = "''avc1''"
      and upd = "\<lambda>m a. m\<lparr>stsd_AVC1Desc := Some a\<rparr>"]
  hev1.read_some [where known = SampleDesc_child and d = "''hec1''"
      and upd = "\<lambda>m a. m\<lparr>stsd_HV1Desc := Some a\<rparr>"]
  mjpg.read_some [where known = SampleDesc_child and d = "''mjpg''"
      and upd = "\<lambda>m a. m\<lparr>stsd_MJPGDesc := Some a\<rparr>"]
  mp4a.read_some [where known = SampleDesc_child and d = "''mp4a''"
      and upd = "\<lambda>m a. m\<lparr>stsd_MP4ADesc := Some a\<rparr>"]
  stsd_unknowns

lemma stsd_reread: "stsd_ok h \<Longrightarrow> SampleDesc_Unmarshal (stsd_layout h) p = Some (Inr (stsd_norm h))"
  unfolding SampleDesc_Unmarshal_def stsd_layout_def stsd_ok_def
  by (simp add: reader_simps stsd_read SampleDesc_child_def AVC1_def HEV1_def MJPG_def MP4A_def fold_stsd_unknowns stsd_norm_def split: option.splits)

interpretation stsd: atom "\<lambda>_. STSD" SampleDesc_Len SampleDesc_Marshal SampleDesc_Unmarshal
    stsd_layout "\<lambda>_. True" stsd_ok stsd_norm
proof (unfold_locales; (rule stsd_reread; assumption)?)
  fix x
  show "writes (SampleDesc_Marshal x) (stsd_layout x)"
    unfolding SampleDesc_Marshal_def stsd_layout_def
    by (auto intro!: writes_intros avc1.writes_some hev1.writes_some mjpg.writes_some mp4a.writes_some dummy.writes_all)
  show "length (stsd_layout x) = SampleDesc_Len x"
    by (simp add: stsd_layout_def SampleDesc_Len_def avc1.length_some hev1.length_some mjpg.length_some mp4a.length_some dummy.length_all)
next
  fix x assume ok: "stsd_ok x"
  then show "stsd_layout x = box STSD (drop 8 (stsd_layout x))" by (simp add: stsd_layout_def)
  show "8 < length (stsd_layout x) \<and> length (stsd_layout x) < 2 ^ 32"
    using ok by (simp add: stsd_layout_def stsd_ok_def SampleDesc_Len_def avc1.length_some hev1.length_some mjpg.length_some mp4a.length_some dummy.length_all)
qed simp_all

section \<open>stbl.go\<close>

definition STBL :: Tag where "STBL = 0x7374626c"

record SampleTable =
  stbl_SampleDesc :: "SampleDesc option"
  stbl_TimeToSample :: "TimeToSample option"
  stbl_CompositionOffset :: "CompositionOffset option"
  stbl_SampleToChunk :: "SampleToChunk option"
  stbl_SyncSample :: "SyncSample option"
  stbl_ChunkOffset :: "ChunkOffset option"
  stbl_SampleSize :: "SampleSize option"

definition SampleTable_Marshal :: "SampleTable \<Rightarrow> wr" where
  "SampleTable_Marshal h = wr_atom STBL (wr_all
     [wr_opt SampleDesc_Marshal (stbl_SampleDesc h),
      wr_opt TimeToSample_Marshal (stbl_TimeToSample h),
      wr_opt CompositionOffset_Marshal (stbl_CompositionOffset h),
      wr_opt SampleToChunk_Marshal (stbl_SampleToChunk h),
      wr_opt SyncSample_Marshal (stbl_SyncSample h),
      wr_opt ChunkOffset_Marshal (stbl_ChunkOffset h),
      wr_opt SampleSize_Marshal (stbl_SampleSize h)])"

definition SampleTable_Len :: "SampleTable \<Rightarrow> nat" where
  "SampleTable_Len h = 8 + opt_len SampleDesc_Len (stbl_SampleDesc h) +
     opt_len TimeToSample_Len (stbl_TimeToSample h) +
     opt_len CompositionOffset_Len (stbl_CompositionOffset h) +
     opt_len SampleToChunk_Len (stbl_SampleToChunk h) +
     opt_len SyncSample_Len (stbl_SyncSample h) +
     opt_len ChunkOffset_Len (stbl_ChunkOffset h) +
     opt_len SampleSize_Len (stbl_SampleSize h)"

definition SampleTable_child :: "Tag \<Rightarrow> bytes \<Rightarrow> nat \<Rightarrow> SampleTable \<Rightarrow> SampleTable outcome" where
  "SampleTable_child tag b p m =
     (if tag = STSD then child ''stsd'' SampleDesc_Unmarshal (\<lambda>a. m\<lparr>stbl_SampleDesc := Some a\<rparr>) b p
      else if tag = STTS then child ''stts'' TimeToSample_Unmarshal (\<lambda>a. m\<lparr>stbl_TimeToSample := Some a\<rparr>) b p
      else if tag = CTTS then child ''ctts'' CompositionOffset_Unmarshal (\<lambda>a. m\<lparr>stbl_CompositionOffset := Some a\<rparr>) b p
      else if tag = STSC then child ''stsc'' SampleToChunk_Unmarshal (\<lambda>a. m\<lparr>stbl_SampleToChunk := Some a\<rparr>) b p
      else if tag = STSS then child ''stss'' SyncSample_Unmarshal (\<lambda>a. m\<lparr>stbl_SyncSample := Some a\<rparr>) b p
      else if tag = STCO then child ''stco'' ChunkOffset_UnmarshalSTCO (\<lambda>a. m\<lparr>stbl_ChunkOffset := Some a\<rparr>) b p
      else if tag = CO64 then child ''co64'' ChunkOffset_UnmarshalCO64 (\<lambda>a. m\<lparr>stbl_ChunkOffset := Some a\<rparr>) b p
      else if tag = STSZ then child ''stsz'' SampleSize_Unmarshal (\<lambda>a. m\<lparr>stbl_SampleSize := Some a\<rparr>) b p
      else Some (Inr m))"

definition SampleTable_Unmarshal :: "SampleTable rd" where
  "SampleTable_Unmarshal = pad 8 (children SampleTable_child
     \<lparr>stbl_SampleDesc = None, stbl_TimeToSample = None, stbl_CompositionOffset = None, stbl_SampleToChunk = None,
      stbl_SyncSample = None, stbl_ChunkOffset = None, stbl_SampleSize = None\<rparr>)"

definition stbl_layout :: "SampleTable \<Rightarrow> bytes" where
  "stbl_layout h = box STBL (concat
     [opt_bytes stsd_layout (stbl_SampleDesc h), opt_bytes stts_layout (stbl_TimeToSample h),
      opt_bytes ctts_layout (stbl_CompositionOffset h), opt_bytes stsc_layout (stbl_SampleToChunk h),
      opt_bytes stss_layout (stbl_SyncSample h), opt_bytes stco_layout (stbl_ChunkOffset h),
      opt_bytes stsz_layout (stbl_SampleSize h)])"

definition stbl_ok :: "SampleTable \<Rightarrow> bool" where
  "stbl_ok h \<longleftrightarrow> opt_all stsd_ok (stbl_SampleDesc h) \<and> opt_all stts_ok (stbl_TimeToSample h) \<and>
     opt_all ctts_ok (stbl_CompositionOffset h) \<and> opt_all stsc_ok (stbl_SampleToChunk h) \<and>
     opt_all stss_ok (stbl_SyncSample h) \<and> opt_all stco_ok (stbl_ChunkOffset h) \<and>
     opt_all stsz_ok (stbl_SampleSize h) \<and> 8 < SampleTable_Len h \<and> SampleTable_Len h < 2 ^ 32"

definition stbl_norm :: "SampleTable \<Rightarrow> SampleTable" where
  "stbl_norm h = h\<lparr>stbl_SampleDesc := map_option stsd_norm (stbl_SampleDesc h)\<rparr>"

lemmas stbl_tags = STSD_def STTS_def CTTS_def STSC_def STSS_def STCO_def CO64_def STSZ_def

text \<open>Both forms of the chunk offsets are read back, each under its own tag.\<close>

lemma stbl_chunk_offset:
  assumes "opt_all stco_ok x"
  shows "children SampleTable_child m (opt_bytes stco_layout x @ r) p = children SampleTable_child
    (case x of None \<Rightarrow> m | Some a \<Rightarrow> m\<lparr>stbl_ChunkOffset := Some a\<rparr>) r (p + opt_len ChunkOffset_Len x)"
proof (cases x)
  case (Some a)
  show ?thesis
  proof (cases "needs64 a")
    case True
    then show ?thesis
      using co64.read_one [of a SampleTable_child m "''co64''" "\<lambda>m a. m\<lparr>stbl_ChunkOffset := Some a\<rparr>"] assms
      by (simp add: Some opt_all_def opt_bytes_def opt_len_def co64_ok_def ChunkOffset_Tag_def SampleTable_child_def stbl_tags)
  next
    case False
    then show ?thesis
      using stco.read_one [of a SampleTable_child m "''stco''" "\<lambda>m a. m\<lparr>stbl_ChunkOffset := Some a\<rparr>"] assms
      by (simp add: Some opt_all_def opt_bytes_def opt_len_def stco32_ok_def ChunkOffset_Tag_def SampleTable_child_def stbl_tags)
  qed
qed (simp add: opt_bytes_def opt_len_def)

lemmas stbl_read =
  stsd.read_some [where known = SampleTable_child and d = "''stsd''" and upd = "\<lambda>m a. m\<lparr>stbl_SampleDesc := Some a\<rparr>"]
  stts.read_some [where known = SampleTable_child and d = "''stts''" and upd = "\<lambda>m a. m\<lparr>stbl_TimeToSample := Some a\<rparr>"]
  ctts.read_some [where known = SampleTable_child and d = "''ctts''" and upd = "\<lambda>m a. m\<lparr>stbl_CompositionOffset := Some a\<rparr>"]
  stsc.read_some [where known = SampleTable_child and d = "''stsc''" and upd = "\<lambda>m a. m\<lparr>stbl_SampleToChunk := Some a\<rparr>"]
  stss.read_some [where known = SampleTable_child and d = "''stss''" and upd = "\<lambda>m a. m\<lparr>stbl_SyncSample := Some a\<rparr>"]
  stbl_chunk_offset
  stsz.read_some_end [where known = SampleTable_child and d = "''stsz''" and upd = "\<lambda>m a. m\<lparr>stbl_SampleSize := Some a\<rparr>"]

lemma case_option_update: "(case x of None \<Rightarrow> m | Some a \<Rightarrow> f (Some (g a))) = f (map_option g x)" if "f None = m"
  using that by (cases x) simp_all

lemma stbl_reread: "stbl_ok h \<Longrightarrow> SampleTable_Unmarshal (stbl_layout h) p = Some (Inr (stbl_norm h))"
  unfolding SampleTable_Unmarshal_def stbl_layout_def stbl_ok_def
  by (simp add: reader_simps stbl_read SampleTable_child_def stbl_tags stbl_norm_def option.map_ident
      case_option_update [where f = "\<lambda>v. m\<lparr>stbl_SampleDesc := v\<rparr>" for m]
      case_option_update [where f = "\<lambda>v. m\<lparr>stbl_TimeToSample := v\<rparr>" for m]
      case_option_update [where f = "\<lambda>v. m\<lparr>stbl_CompositionOffset := v\<rparr>" for m]
      case_option_update [where f = "\<lambda>v. m\<lparr>stbl_SampleToChunk := v\<rparr>" for m]
      case_option_update [where f = "\<lambda>v. m\<lparr>stbl_SyncSample := v\<rparr>" for m]
      case_option_update [where f = "\<lambda>v. m\<lparr>stbl_ChunkOffset := v\<rparr>" for m]
      case_option_update [where f = "\<lambda>v. m\<lparr>stbl_SampleSize := v\<rparr>" for m])

interpretation stbl: atom "\<lambda>_. STBL" SampleTable_Len SampleTable_Marshal SampleTable_Unmarshal stbl_layout "\<lambda>_. True" stbl_ok
    stbl_norm
proof (unfold_locales; (rule stbl_reread; assumption)?)
  fix x
  show "writes (SampleTable_Marshal x) (stbl_layout x)"
    unfolding SampleTable_Marshal_def stbl_layout_def
    by (auto intro!: writes_intros stsd.writes_some stts.writes_some ctts.writes_some stsc.writes_some stss.writes_some
        stco.writes_some stsz.writes_some)
  show "length (stbl_layout x) = SampleTable_Len x"
    by (simp add: stbl_layout_def SampleTable_Len_def stsd.length_some stts.length_some ctts.length_some stsc.length_some
        stss.length_some stco.length_some stsz.length_some)
next
  fix x assume ok: "stbl_ok x"
  then show "stbl_layout x = box STBL (drop 8 (stbl_layout x))" by (simp add: stbl_layout_def)
  show "8 < length (stbl_layout x) \<and> length (stbl_layout x) < 2 ^ 32"
    using ok by (simp add: stbl_layout_def stbl_ok_def SampleTable_Len_def stsd.length_some stts.length_some ctts.length_some
        stsc.length_some stss.length_some stco.length_some stsz.length_some)
qed simp_all

end
