(* ===== verification/Mp4Tree.thy ===== *)
theory Mp4Tree
  imports Mp4Sample
begin

text \<open>
  The trees under \<open>moov\<close> and \<open>moof\<close> of \<open>format/mp4/mp4io\<close>, on the contract of their children.
\<close>

lemma mvhd_some_arr: "opt_all mvhd_ok h \<Longrightarrow> opt_all mvhd_arr h"
  by (cases h) (simp_all add: opt_all_def mvhd_ok_def)

section \<open>minf.go, mdia.go\<close>

definition MINF :: Tag where "MINF = 0x6d696e66"

record MediaInfo =
  minf_Sound :: "SoundMediaInfo option"
  minf_Video :: "VideoMediaInfo option"
  minf_Data :: "DataInfo option"
  minf_Sample :: "SampleTable option"
  minf_Unknowns :: "Dummy list"

definition MediaInfo_Marshal :: "MediaInfo \<Rightarrow> wr" where
  "MediaInfo_Marshal h = wr_atom MINF (wr_all
     [wr_opt SoundMediaInfo_Marshal (minf_Sound h),
      wr_opt VideoMediaInfo_Marshal (minf_Video h),
      wr_opt DataInfo_Marshal (minf_Data h),
      wr_opt SampleTable_Marshal (minf_Sample h),
      wr_each Dummy_Marshal (minf_Unknowns h)])"

definition MediaInfo_Len :: "MediaInfo \<Rightarrow> nat" where
  "MediaInfo_Len h = 8 +
     opt_len SoundMediaInfo_Len (minf_Sound h) +
     opt_len VideoMediaInfo_Len (minf_Video h) +
     opt_len DataInfo_Len (minf_Data h) +
     opt_len SampleTable_Len (minf_Sample h) +
     sum_list (map Dummy_Len (minf_Unknowns h))"

definition MediaInfo_child :: "Tag \<Rightarrow> bytes \<Rightarrow> nat \<Rightarrow> MediaInfo \<Rightarrow> MediaInfo outcome" where
  "MediaInfo_child tag b p m =
     (if tag = SMHD then child ''smhd'' SoundMediaInfo_Unmarshal (\<lambda>a. m\<lparr>minf_Sound := Some a\<rparr>) b p
      else if tag = VMHD then child ''vmhd'' VideoMediaInfo_Unmarshal (\<lambda>a. m\<lparr>minf_Video := Some a\<rparr>) b p
      else if tag = DINF then child ''dinf'' DataInfo_Unmarshal (\<lambda>a. m\<lparr>minf_Data := Some a\<rparr>) b p
      else if tag = STBL then child ''stbl'' SampleTable_Unmarshal (\<lambda>a. m\<lparr>minf_Sample := Some a\<rparr>) b p
      else child [] (Dummy_Unmarshal tag) (\<lambda>a. m\<lparr>minf_Unknowns := minf_Unknowns m @ [a]\<rparr>) b p)"

definition MediaInfo_Unmarshal :: "MediaInfo rd" where
  "MediaInfo_Unmarshal =
     pad 8 (children MediaInfo_child \<lparr>minf_Sound = None, minf_Video = None, minf_Data = None, minf_Sample = None, minf_Unknowns = []\<rparr>)"

definition minf_layout :: "MediaInfo \<Rightarrow> bytes" where
  "minf_layout h = box MINF (concat
     [opt_bytes smhd_layout (minf_Sound h),
      opt_bytes vmhd_layout (minf_Video h),
      opt_bytes dinf_layout (minf_Data h),
      opt_bytes stbl_layout (minf_Sample h),
      concat (map dummy_Data (minf_Unknowns h))])"

definition minf_ok :: "MediaInfo \<Rightarrow> bool" where
  "minf_ok h \<longleftrightarrow> opt_all smhd_ok (minf_Sound h) \<and>
     opt_all vmhd_ok (minf_Video h) \<and>
     opt_all dinf_ok (minf_Data h) \<and>
     opt_all stbl_ok (minf_Sample h) \<and>
     unknowns_ok [SMHD, VMHD, DINF, STBL] (minf_Unknowns h) \<and>
     8 < MediaInfo_Len h \<and>
     MediaInfo_Len h < 2 ^ 32"

definition minf_norm :: "MediaInfo \<Rightarrow> MediaInfo" where
  "minf_norm h = h\<lparr>minf_Sample := map_option stbl_norm (minf_Sample h)\<rparr>"

lemma fold_minf_unknowns: "foldl (\<lambda>m a. m\<lparr>minf_Unknowns := minf_Unknowns m @ [a]\<rparr>) m xs =
    (m :: MediaInfo)\<lparr>minf_Unknowns := minf_Unknowns m @ xs\<rparr>"
  by (induction xs arbitrary: m) simp_all

lemma minf_unknowns: "unknowns_ok [SMHD, VMHD, DINF, STBL] ds \<Longrightarrow>
    children MediaInfo_child m (concat (map dummy_Data ds)) p = Some (Inr (m\<lparr>minf_Unknowns := minf_Unknowns m @ ds\<rparr>))"
  using read_unknowns [of "[SMHD, VMHD, DINF, STBL]" ds MediaInfo_child
      "\<lambda>m a. m\<lparr>minf_Unknowns := minf_Unknowns m @ [a]\<rparr>" m p]
  by (simp add: MediaInfo_child_def fold_minf_unknowns)

lemmas minf_read =
  smhd.read_some [where known = MediaInfo_child and d = "''smhd''"
      and upd = "\<lambda>m a. m\<lparr>minf_Sound := Some a\<rparr>"]
  vmhd.read_some [where known = MediaInfo_child and d = "''vmhd''"
      and upd = "\<lambda>m a. m\<lparr>minf_Video := Some a\<rparr>"]
  dinf.read_some [where known = MediaInfo_child and d = "''dinf''"
      and upd = "\<lambda>m a. m\<lparr>minf_Data := Some a\<rparr>"]
  stbl.read_some [where known = MediaInfo_child and d = "''stbl''"
      and upd = "\<lambda>m a. m\<lparr>minf_Sample := Some a\<rparr>"]
  minf_unknowns

lemma minf_reread: "minf_ok h \<Longrightarrow> MediaInfo_Unmarshal (minf_layout h) p = Some (Inr (minf_norm h))"
  unfolding MediaInfo_Unmarshal_def minf_layout_def minf_ok_def
  by (simp add: reader_simps minf_read MediaInfo_child_def SMHD_def VMHD_def DINF_def STBL_def fold_minf_unknowns minf_norm_def split: option.splits)

interpretation minf: atom "\<lambda>_. MINF" MediaInfo_Len MediaInfo_Marshal MediaInfo_Unmarshal
    minf_layout "\<lambda>_. True" minf_ok minf_norm
proof (unfold_locales; (rule minf_reread; assumption)?)
  fix x
  show "writes (MediaInfo_Marshal x) (minf_layout x)"
    unfolding MediaInfo_Marshal_def minf_layout_def
    by (auto intro!: writes_intros dinf.writes_some smhd.writes_some stbl.writes_some vmhd.writes_some dummy.writes_all)
  show "length (minf_layout x) = MediaInfo_Len x"
    by (simp add: minf_layout_def MediaInfo_Len_def dinf.length_some smhd.length_some stbl.length_some vmhd.length_some dummy.length_all)
next
  fix x assume ok: "minf_ok x"
  then show "minf_layout x = box MINF (drop 8 (minf_layout x))" by (simp add: minf_layout_def)
  show "8 < length (minf_layout x) \<and> length (minf_layout x) < 2 ^ 32"
    using ok by (simp add: minf_layout_def minf_ok_def MediaInfo_Len_def dinf.length_some smhd.length_some stbl.length_some vmhd.length_some dummy.length_all)
qed simp_all

definition MDIA :: Tag where "MDIA = 0x6d646961"

record Media =
  mdia_Header :: "MediaHeader option"
  mdia_Handler :: "HandlerRefer option"
  mdia_Info :: "MediaInfo option"
  mdia_Unknowns :: "Dummy list"

definition Media_Marshal :: "Media \<Rightarrow> wr" where
  "Media_Marshal h = wr_atom MDIA (wr_all
     [wr_opt MediaHeader_Marshal (mdia_Header h),
      wr_opt HandlerRefer_Marshal (mdia_Handler h),
      wr_opt MediaInfo_Marshal (mdia_Info h),
      wr_each Dummy_Marshal (mdia_Unknowns h)])"

definition Media_Len :: "Media \<Rightarrow> nat" where
  "Media_Len h = 8 +
     opt_len MediaHeader_Len (mdia_Header h) +
     opt_len HandlerRefer_Len (mdia_Handler h) +
     opt_len MediaInfo_Len (mdia_Info h) +
     sum_list (map Dummy_Len (mdia_Unknowns h))"

definition Media_child :: "Tag \<Rightarrow> bytes \<Rightarrow> nat \<Rightarrow> Media \<Rightarrow> Media outcome" where
  "Media_child tag b p m =
     (if tag = MDHD then child ''mdhd'' MediaHeader_Unmarshal (\<lambda>a. m\<lparr>mdia_Header := Some a\<rparr>) b p
      else if tag = HDLR then child ''hdlr'' HandlerRefer_Unmarshal (\<lambda>a. m\<lparr>mdia_Handler := Some a\<rparr>) b p
      else if tag = MINF then child ''minf'' MediaInfo_Unmarshal (\<lambda>a. m\<lparr>mdia_Info := Some a\<rparr>) b p
      else child [] (Dummy_Unmarshal tag) (\<lambda>a. m\<lparr>mdia_Unknowns := mdia_Unknowns m @ [a]\<rparr>) b p)"

definition Media_Unmarshal :: "Media rd" where
  "Media_Unmarshal =
     pad 8 (children Media_child \<lparr>mdia_Header = None, mdia_Handler = None, mdia_Info = None, mdia_Unknowns = []\<rparr>)"

definition mdia_layout :: "Media \<Rightarrow> bytes" where
  "mdia_layout h = box MDIA (concat
     [opt_bytes mdhd_layout (mdia_Header h),
      opt_bytes hdlr_layout (mdia_Handler h),
      opt_bytes minf_layout (mdia_Info h),
      concat (map dummy_Data (mdia_Unknowns h))])"

definition mdia_ok :: "Media \<Rightarrow> bool" where
  "mdia_ok h \<longleftrightarrow> opt_all mdhd_ok (mdia_Header h) \<and>
     opt_all hdlr_ok (mdia_Handler h) \<and>
     opt_all minf_ok (mdia_Info h) \<and>
     unknowns_ok [MDHD, HDLR, MINF] (mdia_Unknowns h) \<and>
     8 < Media_Len h \<and>
     Media_Len h < 2 ^ 32"

definition mdia_norm :: "Media \<Rightarrow> Media" where
  "mdia_norm h = h\<lparr>mdia_Header := map_option mdhd_norm (mdia_Header h), mdia_Handler := map_option hdlr_norm (mdia_Handler h),
     mdia_Info := map_option minf_norm (mdia_Info h)\<rparr>"

lemma fold_mdia_unknowns: "foldl (\<lambda>m a. m\<lparr>mdia_Unknowns := mdia_Unknowns m @ [a]\<rparr>) m xs =
    (m :: Media)\<lparr>mdia_Unknowns := mdia_Unknowns m @ xs\<rparr>"
  by (induction xs arbitrary: m) simp_all

lemma mdia_unknowns: "unknowns_ok [MDHD, HDLR, MINF] ds \<Longrightarrow>
    children Media_child m (concat (map dummy_Data ds)) p = Some (Inr (m\<lparr>mdia_Unknowns := mdia_Unknowns m @ ds\<rparr>))"
  using read_unknowns [of "[MDHD, HDLR, MINF]" ds Media_child
      "\<lambda>m a. m\<lparr>mdia_Unknowns := mdia_Unknowns m @ [a]\<rparr>" m p]
  by (simp add: Media_child_def fold_mdia_unknowns)

lemmas mdia_read =
  mdhd.read_some [where known = Media_child and d = "''mdhd''"
      and upd = "\<lambda>m a. m\<lparr>mdia_Header := Some a\<rparr>"]
  hdlr.read_some [where known = Media_child and d = "''hdlr''"
      and upd = "\<lambda>m a. m\<lparr>mdia_Handler := Some a\<rparr>"]
  minf.read_some [where known = Media_child and d = "''minf''"
      and upd = "\<lambda>m a. m\<lparr>mdia_Info := Some a\<rparr>"]
  mdia_unknowns

lemma mdia_reread: "mdia_ok h \<Longrightarrow> Media_Unmarshal (mdia_layout h) p = Some (Inr (mdia_norm h))"
  unfolding Media_Unmarshal_def mdia_layout_def mdia_ok_def
  by (simp add: reader_simps mdia_read Media_child_def MDHD_def HDLR_def MINF_def fold_mdia_unknowns mdia_norm_def split: option.splits)

interpretation mdia: atom "\<lambda>_. MDIA" Media_Len Media_Marshal Media_Unmarshal
    mdia_layout "\<lambda>_. True" mdia_ok mdia_norm
proof (unfold_locales; (rule mdia_reread; assumption)?)
  fix x
  show "writes (Media_Marshal x) (mdia_layout x)"
    unfolding Media_Marshal_def mdia_layout_def
    by (auto intro!: writes_intros hdlr.writes_some mdhd.writes_some minf.writes_some dummy.writes_all)
  show "length (mdia_layout x) = Media_Len x"
    by (simp add: mdia_layout_def Media_Len_def hdlr.length_some mdhd.length_some minf.length_some dummy.length_all)
next
  fix x assume ok: "mdia_ok x"
  then show "mdia_layout x = box MDIA (drop 8 (mdia_layout x))" by (simp add: mdia_layout_def)
  show "8 < length (mdia_layout x) \<and> length (mdia_layout x) < 2 ^ 32"
    using ok by (simp add: mdia_layout_def mdia_ok_def Media_Len_def hdlr.length_some mdhd.length_some minf.length_some dummy.length_all)
qed simp_all

section \<open>trak.go, mvex.go\<close>

definition TRAK :: Tag where "TRAK = 0x7472616b"

record Track =
  trak_Header :: "TrackHeader option"
  trak_Media :: "Media option"
  trak_Unknowns :: "Dummy list"

definition Track_Marshal :: "Track \<Rightarrow> wr" where
  "Track_Marshal h = wr_atom TRAK (wr_all
     [wr_opt TrackHeader_Marshal (trak_Header h),
      wr_opt Media_Marshal (trak_Media h),
      wr_each Dummy_Marshal (trak_Unknowns h)])"

definition Track_Len :: "Track \<Rightarrow> nat" where
  "Track_Len h = 8 +
     opt_len TrackHeader_Len (trak_Header h) +
     opt_len Media_Len (trak_Media h) +
     sum_list (map Dummy_Len (trak_Unknowns h))"

definition Track_child :: "Tag \<Rightarrow> bytes \<Rightarrow> nat \<Rightarrow> Track \<Rightarrow> Track outcome" where
  "Track_child tag b p m =
     (if tag = TKHD then child ''tkhd'' TrackHeader_Unmarshal (\<lambda>a. m\<lparr>trak_Header := Some a\<rparr>) b p
      else if tag = MDIA then child ''mdia'' Media_Unmarshal (\<lambda>a. m\<lparr>trak_Media := Some a\<rparr>) b p
      else child [] (Dummy_Unmarshal tag) (\<lambda>a. m\<lparr>trak_Unknowns := trak_Unknowns m @ [a]\<rparr>) b p)"

definition Track_Unmarshal :: "Track rd" where
  "Track_Unmarshal =
     pad 8 (children Track_child \<lparr>trak_Header = None, trak_Media = None, trak_Unknowns = []\<rparr>)"

definition trak_layout :: "Track \<Rightarrow> bytes" where
  "trak_layout h = box TRAK (concat
     [opt_bytes tkhd_layout (trak_Header h),
      opt_bytes mdia_layout (trak_Media h),
      concat (map dummy_Data (trak_Unknowns h))])"

definition trak_ok :: "Track \<Rightarrow> bool" where
  "trak_ok h \<longleftrightarrow> opt_all tkhd_ok (trak_Header h) \<and>
     opt_all mdia_ok (trak_Media h) \<and>
     unknowns_ok [TKHD, MDIA] (trak_Unknowns h) \<and>
     8 < Track_Len h \<and>
     Track_Len h < 2 ^ 32"

definition trak_norm :: "Track \<Rightarrow> Track" where
  "trak_norm h = h\<lparr>trak_Header := map_option tkhd_norm (trak_Header h), trak_Media := map_option mdia_norm (trak_Media h)\<rparr>"

lemma fold_trak_unknowns: "foldl (\<lambda>m a. m\<lparr>trak_Unknowns := trak_Unknowns m @ [a]\<rparr>) m xs =
    (m :: Track)\<lparr>trak_Unknowns := trak_Unknowns m @ xs\<rparr>"
  by (induction xs arbitrary: m) simp_all

lemma trak_unknowns: "unknowns_ok [TKHD, MDIA] ds \<Longrightarrow>
    children Track_child m (concat (map dummy_Data ds)) p = Some (Inr (m\<lparr>trak_Unknowns := trak_Unknowns m @ ds\<rparr>))"
  using read_unknowns [of "[TKHD, MDIA]" ds Track_child
      "\<lambda>m a. m\<lparr>trak_Unknowns := trak_Unknowns m @ [a]\<rparr>" m p]
  by (simp add: Track_child_def fold_trak_unknowns)

lemmas trak_read =
  tkhd.read_some [where known = Track_child and d = "''tkhd''"
      and upd = "\<lambda>m a. m\<lparr>trak_Header := Some a\<rparr>"]
  mdia.read_some [where known = Track_child and d = "''mdia''"
      and upd = "\<lambda>m a. m\<lparr>trak_Media := Some a\<rparr>"]
  trak_unknowns

lemma trak_reread: "trak_ok h \<Longrightarrow> Track_Unmarshal (trak_layout h) p = Some (Inr (trak_norm h))"
  unfolding Track_Unmarshal_def trak_layout_def trak_ok_def
  by (simp add: reader_simps trak_read Track_child_def TKHD_def MDIA_def fold_trak_unknowns trak_norm_def split: option.splits)

interpretation trak: atom "\<lambda>_. TRAK" Track_Len Track_Marshal Track_Unmarshal
    trak_layout "\<lambda>_. True" trak_ok trak_norm
proof (unfold_locales; (rule trak_reread; assumption)?)
  fix x
  show "writes (Track_Marshal x) (trak_layout x)"
    unfolding Track_Marshal_def trak_layout_def
    by (auto intro!: writes_intros mdia.writes_some tkhd.writes_some dummy.writes_all)
  show "length (trak_layout x) = Track_Len x"
    by (simp add: trak_layout_def Track_Len_def mdia.length_some tkhd.length_some dummy.length_all)
next
  fix x assume ok: "trak_ok x"
  then show "trak_layout x = box TRAK (drop 8 (trak_layout x))" by (simp add: trak_layout_def)
  show "8 < length (trak_layout x) \<and> length (trak_layout x) < 2 ^ 32"
    using ok by (simp add: trak_layout_def trak_ok_def Track_Len_def mdia.length_some tkhd.length_some dummy.length_all)
qed simp_all

definition MVEX :: Tag where "MVEX = 0x6d766578"

record MovieExtend =
  mvex_Tracks :: "TrackExtend list"
  mvex_Unknowns :: "Dummy list"

definition MovieExtend_Marshal :: "MovieExtend \<Rightarrow> wr" where
  "MovieExtend_Marshal h = wr_atom MVEX (wr_all
     [wr_each TrackExtend_Marshal (mvex_Tracks h),
      wr_each Dummy_Marshal (mvex_Unknowns h)])"

definition MovieExtend_Len :: "MovieExtend \<Rightarrow> nat" where
  "MovieExtend_Len h = 8 +
     sum_list (map TrackExtend_Len (mvex_Tracks h)) +
     sum_list (map Dummy_Len (mvex_Unknowns h))"

definition MovieExtend_child :: "Tag \<Rightarrow> bytes \<Rightarrow> nat \<Rightarrow> MovieExtend \<Rightarrow> MovieExtend outcome" where
  "MovieExtend_child tag b p m =
     (if tag = TREX then child ''trex'' TrackExtend_Unmarshal (\<lambda>a. m\<lparr>mvex_Tracks := mvex_Tracks m @ [a]\<rparr>) b p
      else child [] (Dummy_Unmarshal tag) (\<lambda>a. m\<lparr>mvex_Unknowns := mvex_Unknowns m @ [a]\<rparr>) b p)"

definition MovieExtend_Unmarshal :: "MovieExtend rd" where
  "MovieExtend_Unmarshal =
     pad 8 (children MovieExtend_child \<lparr>mvex_Tracks = [], mvex_Unknowns = []\<rparr>)"

definition mvex_layout :: "MovieExtend \<Rightarrow> bytes" where
  "mvex_layout h = box MVEX (concat
     [concat (map trex_layout (mvex_Tracks h)),
      concat (map dummy_Data (mvex_Unknowns h))])"

definition mvex_ok :: "MovieExtend \<Rightarrow> bool" where
  "mvex_ok h \<longleftrightarrow> list_all trex_ok (mvex_Tracks h) \<and>
     unknowns_ok [TREX] (mvex_Unknowns h) \<and>
     8 < MovieExtend_Len h \<and>
     MovieExtend_Len h < 2 ^ 32"

lemma fold_mvex_tracks: "foldl (\<lambda>m a. m\<lparr>mvex_Tracks := mvex_Tracks m @ [a]\<rparr>) m xs =
    (m :: MovieExtend)\<lparr>mvex_Tracks := mvex_Tracks m @ xs\<rparr>"
  by (induction xs arbitrary: m) simp_all

lemma fold_mvex_unknowns: "foldl (\<lambda>m a. m\<lparr>mvex_Unknowns := mvex_Unknowns m @ [a]\<rparr>) m xs =
    (m :: MovieExtend)\<lparr>mvex_Unknowns := mvex_Unknowns m @ xs\<rparr>"
  by (induction xs arbitrary: m) simp_all

lemma mvex_unknowns: "unknowns_ok [TREX] ds \<Longrightarrow>
    children MovieExtend_child m (concat (map dummy_Data ds)) p = Some (Inr (m\<lparr>mvex_Unknowns := mvex_Unknowns m @ ds\<rparr>))"
  using read_unknowns [of "[TREX]" ds MovieExtend_child
      "\<lambda>m a. m\<lparr>mvex_Unknowns := mvex_Unknowns m @ [a]\<rparr>" m p]
  by (simp add: MovieExtend_child_def fold_mvex_unknowns)

lemmas mvex_read =
  trex.read_all [where known = MovieExtend_child and d = "''trex''"
      and upd = "\<lambda>m a. m\<lparr>mvex_Tracks := mvex_Tracks m @ [a]\<rparr>"]
  mvex_unknowns

lemma mvex_reread: "mvex_ok h \<Longrightarrow> MovieExtend_Unmarshal (mvex_layout h) p = Some (Inr h)"
  unfolding MovieExtend_Unmarshal_def mvex_layout_def mvex_ok_def
  by (simp add: reader_simps mvex_read MovieExtend_child_def TREX_def fold_mvex_tracks fold_mvex_unknowns split: option.splits)

interpretation mvex: atom "\<lambda>_. MVEX" MovieExtend_Len MovieExtend_Marshal MovieExtend_Unmarshal
    mvex_layout "\<lambda>_. True" mvex_ok "\<lambda>x. x"
proof (unfold_locales; (rule mvex_reread; assumption)?)
  fix x
  show "writes (MovieExtend_Marshal x) (mvex_layout x)"
    unfolding MovieExtend_Marshal_def mvex_layout_def
    by (auto intro!: writes_intros trex.writes_all dummy.writes_all)
  show "length (mvex_layout x) = MovieExtend_Len x"
    by (simp add: mvex_layout_def MovieExtend_Len_def trex.length_all dummy.length_all)
next
  fix x assume ok: "mvex_ok x"
  then show "mvex_layout x = box MVEX (drop 8 (mvex_layout x))" by (simp add: mvex_layout_def)
  show "8 < length (mvex_layout x) \<and> length (mvex_layout x) < 2 ^ 32"
    using ok by (simp add: mvex_layout_def mvex_ok_def MovieExtend_Len_def trex.length_all dummy.length_all)
qed simp_all

section \<open>moov.go\<close>

definition MOOV :: Tag where "MOOV = 0x6d6f6f76"

record Movie =
  moov_Header :: "MovieHeader option"
  moov_Tracks :: "Track list"
  moov_MovieExtend :: "MovieExtend option"
  moov_Unknowns :: "Dummy list"

definition Movie_Marshal :: "Movie \<Rightarrow> wr" where
  "Movie_Marshal h = wr_atom MOOV (wr_all
     [wr_opt MovieHeader_Marshal (moov_Header h),
      wr_each Track_Marshal (moov_Tracks h),
      wr_opt MovieExtend_Marshal (moov_MovieExtend h),
      wr_each Dummy_Marshal (moov_Unknowns h)])"

definition Movie_Len :: "Movie \<Rightarrow> nat" where
  "Movie_Len h = 8 +
     opt_len MovieHeader_Len (moov_Header h) +
     sum_list (map Track_Len (moov_Tracks h)) +
     opt_len MovieExtend_Len (moov_MovieExtend h) +
     sum_list (map Dummy_Len (moov_Unknowns h))"

definition Movie_child :: "Tag \<Rightarrow> bytes \<Rightarrow> nat \<Rightarrow> Movie \<Rightarrow> Movie outcome" where
  "Movie_child tag b p m =
     (if tag = MVHD then child ''mvhd'' MovieHeader_Unmarshal (\<lambda>a. m\<lparr>moov_Header := Some a\<rparr>) b p
      else if tag = TRAK then child ''trak'' Track_Unmarshal (\<lambda>a. m\<lparr>moov_Tracks := moov_Tracks m @ [a]\<rparr>) b p
      else if tag = MVEX then child ''mvex'' MovieExtend_Unmarshal (\<lambda>a. m\<lparr>moov_MovieExtend := Some a\<rparr>) b p
      else child [] (Dummy_Unmarshal tag) (\<lambda>a. m\<lparr>moov_Unknowns := moov_Unknowns m @ [a]\<rparr>) b p)"

definition Movie_Unmarshal :: "Movie rd" where
  "Movie_Unmarshal =
     pad 8 (children Movie_child \<lparr>moov_Header = None, moov_Tracks = [], moov_MovieExtend = None, moov_Unknowns = []\<rparr>)"

definition moov_layout :: "Movie \<Rightarrow> bytes" where
  "moov_layout h = box MOOV (concat
     [opt_bytes mvhd_layout (moov_Header h),
      concat (map trak_layout (moov_Tracks h)),
      opt_bytes mvex_layout (moov_MovieExtend h),
      concat (map dummy_Data (moov_Unknowns h))])"

definition moov_arr :: "Movie \<Rightarrow> bool" where
  "moov_arr h = opt_all mvhd_arr (moov_Header h)"

definition moov_ok :: "Movie \<Rightarrow> bool" where
  "moov_ok h \<longleftrightarrow> opt_all mvhd_ok (moov_Header h) \<and>
     list_all trak_ok (moov_Tracks h) \<and>
     opt_all mvex_ok (moov_MovieExtend h) \<and>
     unknowns_ok [MVHD, TRAK, MVEX] (moov_Unknowns h) \<and>
     8 < Movie_Len h \<and>
     Movie_Len h < 2 ^ 32"

definition moov_norm :: "Movie \<Rightarrow> Movie" where
  "moov_norm h = h\<lparr>moov_Header := map_option mvhd_norm (moov_Header h), moov_Tracks := map trak_norm (moov_Tracks h)\<rparr>"

lemma fold_moov_tracks: "foldl (\<lambda>m a. m\<lparr>moov_Tracks := moov_Tracks m @ [a]\<rparr>) m xs =
    (m :: Movie)\<lparr>moov_Tracks := moov_Tracks m @ xs\<rparr>"
  by (induction xs arbitrary: m) simp_all

lemma fold_moov_unknowns: "foldl (\<lambda>m a. m\<lparr>moov_Unknowns := moov_Unknowns m @ [a]\<rparr>) m xs =
    (m :: Movie)\<lparr>moov_Unknowns := moov_Unknowns m @ xs\<rparr>"
  by (induction xs arbitrary: m) simp_all

lemma moov_unknowns: "unknowns_ok [MVHD, TRAK, MVEX] ds \<Longrightarrow>
    children Movie_child m (concat (map dummy_Data ds)) p = Some (Inr (m\<lparr>moov_Unknowns := moov_Unknowns m @ ds\<rparr>))"
  using read_unknowns [of "[MVHD, TRAK, MVEX]" ds Movie_child
      "\<lambda>m a. m\<lparr>moov_Unknowns := moov_Unknowns m @ [a]\<rparr>" m p]
  by (simp add: Movie_child_def fold_moov_unknowns)

lemmas moov_read =
  mvhd.read_some [where known = Movie_child and d = "''mvhd''"
      and upd = "\<lambda>m a. m\<lparr>moov_Header := Some a\<rparr>"]
  trak.read_all [where known = Movie_child and d = "''trak''"
      and upd = "\<lambda>m a. m\<lparr>moov_Tracks := moov_Tracks m @ [a]\<rparr>"]
  mvex.read_some [where known = Movie_child and d = "''mvex''"
      and upd = "\<lambda>m a. m\<lparr>moov_MovieExtend := Some a\<rparr>"]
  moov_unknowns

lemma moov_reread: "moov_ok h \<Longrightarrow> Movie_Unmarshal (moov_layout h) p = Some (Inr (moov_norm h))"
  unfolding Movie_Unmarshal_def moov_layout_def moov_ok_def
  by (simp add: reader_simps moov_read Movie_child_def MVHD_def TRAK_def MVEX_def fold_moov_tracks fold_moov_unknowns moov_norm_def split: option.splits)

interpretation moov: atom "\<lambda>_. MOOV" Movie_Len Movie_Marshal Movie_Unmarshal
    moov_layout moov_arr moov_ok moov_norm
proof (unfold_locales; (rule moov_reread; assumption)?)
  fix x
  assume a: "moov_arr x"
  show "writes (Movie_Marshal x) (moov_layout x)"
    unfolding Movie_Marshal_def moov_layout_def
    by (insert a, simp add: moov_arr_def; auto intro!: writes_intros mvex.writes_some mvhd.writes_some trak.writes_all dummy.writes_all)
  show "length (moov_layout x) = Movie_Len x"
    by (simp add: moov_layout_def Movie_Len_def mvex.length_some mvhd.length_some trak.length_all dummy.length_all a [unfolded moov_arr_def])
next
  fix x assume ok: "moov_ok x"
  then show "moov_layout x = box MOOV (drop 8 (moov_layout x))" by (simp add: moov_layout_def)
  show "8 < length (moov_layout x) \<and> length (moov_layout x) < 2 ^ 32"
    using ok by (simp add: moov_layout_def moov_ok_def Movie_Len_def mvex.length_some mvhd.length_some trak.length_all dummy.length_all mvhd_some_arr)
qed (simp add: moov_ok_def moov_arr_def mvhd_some_arr)

section \<open>traf.go, moof.go\<close>

definition TRAF :: Tag where "TRAF = 0x74726166"

record TrackFrag =
  traf_Header :: "TrackFragHeader option"
  traf_DecodeTime :: "TrackFragDecodeTime option"
  traf_Run :: "TrackFragRun option"
  traf_Unknowns :: "Dummy list"

definition TrackFrag_Marshal :: "TrackFrag \<Rightarrow> wr" where
  "TrackFrag_Marshal h = wr_atom TRAF (wr_all
     [wr_opt TrackFragHeader_Marshal (traf_Header h),
      wr_opt TrackFragDecodeTime_Marshal (traf_DecodeTime h),
      wr_opt TrackFragRun_Marshal (traf_Run h),
      wr_each Dummy_Marshal (traf_Unknowns h)])"

definition TrackFrag_Len :: "TrackFrag \<Rightarrow> nat" where
  "TrackFrag_Len h = 8 +
     opt_len TrackFragHeader_Len (traf_Header h) +
     opt_len TrackFragDecodeTime_Len (traf_DecodeTime h) +
     opt_len TrackFragRun_Len (traf_Run h) +
     sum_list (map Dummy_Len (traf_Unknowns h))"

definition TrackFrag_child :: "Tag \<Rightarrow> bytes \<Rightarrow> nat \<Rightarrow> TrackFrag \<Rightarrow> TrackFrag outcome" where
  "TrackFrag_child tag b p m =
     (if tag = TFHD then child ''tfhd'' TrackFragHeader_Unmarshal (\<lambda>a. m\<lparr>traf_Header := Some a\<rparr>) b p
      else if tag = TFDT then child ''tfdt'' TrackFragDecodeTime_Unmarshal (\<lambda>a. m\<lparr>traf_DecodeTime := Some a\<rparr>) b p
      else if tag = TRUN then child ''trun'' TrackFragRun_Unmarshal (\<lambda>a. m\<lparr>traf_Run := Some a\<rparr>) b p
      else child [] (Dummy_Unmarshal tag) (\<lambda>a. m\<lparr>traf_Unknowns := traf_Unknowns m @ [a]\<rparr>) b p)"

definition TrackFrag_Unmarshal :: "TrackFrag rd" where
  "TrackFrag_Unmarshal =
     pad 8 (children TrackFrag_child \<lparr>traf_Header = None, traf_DecodeTime = None, traf_Run = None, traf_Unknowns = []\<rparr>)"

definition traf_layout :: "TrackFrag \<Rightarrow> bytes" where
  "traf_layout h = box TRAF (concat
     [opt_bytes tfhd_layout (traf_Header h),
      opt_bytes tfdt_layout (traf_DecodeTime h),
      opt_bytes trun_layout (traf_Run h),
      concat (map dummy_Data (traf_Unknowns h))])"

definition traf_ok :: "TrackFrag \<Rightarrow> bool" where
  "traf_ok h \<longleftrightarrow> opt_all tfhd_ok (traf_Header h) \<and>
     opt_all tfdt_ok (traf_DecodeTime h) \<and>
     opt_all trun_ok (traf_Run h) \<and>
     unknowns_ok [TFHD, TFDT, TRUN] (traf_Unknowns h) \<and>
     8 < TrackFrag_Len h \<and>
     TrackFrag_Len h < 2 ^ 32"

definition traf_norm :: "TrackFrag \<Rightarrow> TrackFrag" where
  "traf_norm h = h\<lparr>traf_Run := map_option trun_norm (traf_Run h)\<rparr>"

lemma fold_traf_unknowns: "foldl (\<lambda>m a. m\<lparr>traf_Unknowns := traf_Unknowns m @ [a]\<rparr>) m xs =
    (m :: TrackFrag)\<lparr>traf_Unknowns := traf_Unknowns m @ xs\<rparr>"
  by (induction xs arbitrary: m) simp_all

lemma traf_unknowns: "unknowns_ok [TFHD, TFDT, TRUN] ds \<Longrightarrow>
    children TrackFrag_child m (concat (map dummy_Data ds)) p = Some (Inr (m\<lparr>traf_Unknowns := traf_Unknowns m @ ds\<rparr>))"
  using read_unknowns [of "[TFHD, TFDT, TRUN]" ds TrackFrag_child
      "\<lambda>m a. m\<lparr>traf_Unknowns := traf_Unknowns m @ [a]\<rparr>" m p]
  by (simp add: TrackFrag_child_def fold_traf_unknowns)

lemmas traf_read =
  tfhd.read_some [where known = TrackFrag_child and d = "''tfhd''"
      and upd = "\<lambda>m a. m\<lparr>traf_Header := Some a\<rparr>"]
  tfdt.read_some [where known = TrackFrag_child and d = "''tfdt''"
      and upd = "\<lambda>m a. m\<lparr>traf_DecodeTime := Some a\<rparr>"]
  trun.read_some [where known = TrackFrag_child and d = "''trun''"
      and upd = "\<lambda>m a. m\<lparr>traf_Run := Some a\<rparr>"]
  traf_unknowns

lemma traf_reread: "traf_ok h \<Longrightarrow> TrackFrag_Unmarshal (traf_layout h) p = Some (Inr (traf_norm h))"
  unfolding TrackFrag_Unmarshal_def traf_layout_def traf_ok_def
  by (simp add: reader_simps traf_read TrackFrag_child_def TFHD_def TFDT_def TRUN_def fold_traf_unknowns traf_norm_def split: option.splits)

interpretation traf: atom "\<lambda>_. TRAF" TrackFrag_Len TrackFrag_Marshal TrackFrag_Unmarshal
    traf_layout "\<lambda>_. True" traf_ok traf_norm
proof (unfold_locales; (rule traf_reread; assumption)?)
  fix x
  show "writes (TrackFrag_Marshal x) (traf_layout x)"
    unfolding TrackFrag_Marshal_def traf_layout_def
    by (auto intro!: writes_intros tfdt.writes_some tfhd.writes_some trun.writes_some dummy.writes_all)
  show "length (traf_layout x) = TrackFrag_Len x"
    by (simp add: traf_layout_def TrackFrag_Len_def tfdt.length_some tfhd.length_some trun.length_some dummy.length_all)
next
  fix x assume ok: "traf_ok x"
  then show "traf_layout x = box TRAF (drop 8 (traf_layout x))" by (simp add: traf_layout_def)
  show "8 < length (traf_layout x) \<and> length (traf_layout x) < 2 ^ 32"
    using ok by (simp add: traf_layout_def traf_ok_def TrackFrag_Len_def tfdt.length_some tfhd.length_some trun.length_some dummy.length_all)
qed simp_all

definition MOOF :: Tag where "MOOF = 0x6d6f6f66"

record MovieFrag =
  moof_Header :: "MovieFragHeader option"
  moof_Tracks :: "TrackFrag list"
  moof_Unknowns :: "Dummy list"

definition MovieFrag_Marshal :: "MovieFrag \<Rightarrow> wr" where
  "MovieFrag_Marshal h = wr_atom MOOF (wr_all
     [wr_opt MovieFragHeader_Marshal (moof_Header h),
      wr_each TrackFrag_Marshal (moof_Tracks h),
      wr_each Dummy_Marshal (moof_Unknowns h)])"

definition MovieFrag_Len :: "MovieFrag \<Rightarrow> nat" where
  "MovieFrag_Len h = 8 +
     opt_len MovieFragHeader_Len (moof_Header h) +
     sum_list (map TrackFrag_Len (moof_Tracks h)) +
     sum_list (map Dummy_Len (moof_Unknowns h))"

definition MovieFrag_child :: "Tag \<Rightarrow> bytes \<Rightarrow> nat \<Rightarrow> MovieFrag \<Rightarrow> MovieFrag outcome" where
  "MovieFrag_child tag b p m =
     (if tag = MFHD then child ''mfhd'' MovieFragHeader_Unmarshal (\<lambda>a. m\<lparr>moof_Header := Some a\<rparr>) b p
      else if tag = TRAF then child ''traf'' TrackFrag_Unmarshal (\<lambda>a. m\<lparr>moof_Tracks := moof_Tracks m @ [a]\<rparr>) b p
      else child [] (Dummy_Unmarshal tag) (\<lambda>a. m\<lparr>moof_Unknowns := moof_Unknowns m @ [a]\<rparr>) b p)"

definition MovieFrag_Unmarshal :: "MovieFrag rd" where
  "MovieFrag_Unmarshal =
     pad 8 (children MovieFrag_child \<lparr>moof_Header = None, moof_Tracks = [], moof_Unknowns = []\<rparr>)"

definition moof_layout :: "MovieFrag \<Rightarrow> bytes" where
  "moof_layout h = box MOOF (concat
     [opt_bytes mfhd_layout (moof_Header h),
      concat (map traf_layout (moof_Tracks h)),
      concat (map dummy_Data (moof_Unknowns h))])"

definition moof_ok :: "MovieFrag \<Rightarrow> bool" where
  "moof_ok h \<longleftrightarrow> opt_all mfhd_ok (moof_Header h) \<and>
     list_all traf_ok (moof_Tracks h) \<and>
     unknowns_ok [MFHD, TRAF] (moof_Unknowns h) \<and>
     8 < MovieFrag_Len h \<and>
     MovieFrag_Len h < 2 ^ 32"

definition moof_norm :: "MovieFrag \<Rightarrow> MovieFrag" where
  "moof_norm h = h\<lparr>moof_Tracks := map traf_norm (moof_Tracks h)\<rparr>"

lemma fold_moof_tracks: "foldl (\<lambda>m a. m\<lparr>moof_Tracks := moof_Tracks m @ [a]\<rparr>) m xs =
    (m :: MovieFrag)\<lparr>moof_Tracks := moof_Tracks m @ xs\<rparr>"
  by (induction xs arbitrary: m) simp_all

lemma fold_moof_unknowns: "foldl (\<lambda>m a. m\<lparr>moof_Unknowns := moof_Unknowns m @ [a]\<rparr>) m xs =
    (m :: MovieFrag)\<lparr>moof_Unknowns := moof_Unknowns m @ xs\<rparr>"
  by (induction xs arbitrary: m) simp_all

lemma moof_unknowns: "unknowns_ok [MFHD, TRAF] ds \<Longrightarrow>
    children MovieFrag_child m (concat (map dummy_Data ds)) p = Some (Inr (m\<lparr>moof_Unknowns := moof_Unknowns m @ ds\<rparr>))"
  using read_unknowns [of "[MFHD, TRAF]" ds MovieFrag_child
      "\<lambda>m a. m\<lparr>moof_Unknowns := moof_Unknowns m @ [a]\<rparr>" m p]
  by (simp add: MovieFrag_child_def fold_moof_unknowns)

lemmas moof_read =
  mfhd.read_some [where known = MovieFrag_child and d = "''mfhd''"
      and upd = "\<lambda>m a. m\<lparr>moof_Header := Some a\<rparr>"]
  traf.read_all [where known = MovieFrag_child and d = "''traf''"
      and upd = "\<lambda>m a. m\<lparr>moof_Tracks := moof_Tracks m @ [a]\<rparr>"]
  moof_unknowns

lemma moof_reread: "moof_ok h \<Longrightarrow> MovieFrag_Unmarshal (moof_layout h) p = Some (Inr (moof_norm h))"
  unfolding MovieFrag_Unmarshal_def moof_layout_def moof_ok_def
  by (simp add: reader_simps moof_read MovieFrag_child_def MFHD_def TRAF_def fold_moof_tracks fold_moof_unknowns moof_norm_def split: option.splits)

interpretation moof: atom "\<lambda>_. MOOF" MovieFrag_Len MovieFrag_Marshal MovieFrag_Unmarshal
    moof_layout "\<lambda>_. True" moof_ok moof_norm
proof (unfold_locales; (rule moof_reread; assumption)?)
  fix x
  show "writes (MovieFrag_Marshal x) (moof_layout x)"
    unfolding MovieFrag_Marshal_def moof_layout_def
    by (auto intro!: writes_intros mfhd.writes_some traf.writes_all dummy.writes_all)
  show "length (moof_layout x) = MovieFrag_Len x"
    by (simp add: moof_layout_def MovieFrag_Len_def mfhd.length_some traf.length_all dummy.length_all)
next
  fix x assume ok: "moof_ok x"
  then show "moof_layout x = box MOOF (drop 8 (moof_layout x))" by (simp add: moof_layout_def)
  show "8 < length (moof_layout x) \<and> length (moof_layout x) < 2 ^ 32"
    using ok by (simp add: moof_layout_def moof_ok_def MovieFrag_Len_def mfhd.length_some traf.length_all dummy.length_all)
qed simp_all

section \<open>The trees as a whole\<close>

lemma box_header:
  assumes "b = box tag body" "length b = n"
  shows "U32BE b = Inr (word_of_nat n) \<and> U32BE (drop 4 b) = Inr tag"
  unfolding assms(2) [symmetric] assms(1) length_box unfolding box_def by (simp del: of_nat_add)

text \<open>\<open>Movie.Marshal\<close> on a buffer of \<open>Len()\<close> bytes neither panics nor leaves a byte over: the
  result is one box of exactly that size, under the tag moov.\<close>

theorem moov_marshal_exact:
  assumes "moov_arr m"
  shows "\<exists>b. marshal_fresh (Movie_Len m) (Movie_Marshal m) = Inr b \<and> length b = Movie_Len m \<and>
    U32BE b = Inr (word_of_nat (Movie_Len m)) \<and> U32BE (drop 4 b) = Inr MOOV"
  using moov.marshal_exact [OF assms] moov.Len_layout [OF assms] box_header [OF moov_layout_def moov.Len_layout [OF assms]]
  by simp

text \<open>C23: the same for \<open>MovieFrag.Marshal\<close>, for every value of the type: the muxer relies on it when
  it reserves \<open>moof.Len()\<close> bytes in front of the media data.\<close>

theorem moof_marshal_exact:
  "\<exists>b. marshal_fresh (MovieFrag_Len m) (MovieFrag_Marshal m) = Inr b \<and> length b = MovieFrag_Len m \<and>
    U32BE b = Inr (word_of_nat (MovieFrag_Len m)) \<and> U32BE (drop 4 b) = Inr MOOF"
  using moof.marshal_exact [OF TrueI, of m] moof.Len_layout [OF TrueI, of m] box_header [OF moof_layout_def moof.Len_layout [OF TrueI]]
  by simp

text \<open>C21: a movie tree whose values fit their fields is read back by \<open>Movie.Unmarshal\<close> from what
  \<open>Movie.Marshal\<close> wrote, with all its tracks, sample descriptions and sample tables, except for what
  \<open>moov_norm\<close> changes: the creation and modification times of mvhd, tkhd and mdhd come back cut to
  whole seconds, which is all that the boxes store; \<open>Unmarshal\<close> drops the first 12 bytes of a
  handler name that \<open>Marshal\<close> did store, so that the names of the muxers come back empty; and it
  does not read the track id and the two bit rates of an elementary stream descriptor.  The times
  have to lie between 1904 and 2040 (292 years behind 1904 in a box of version 1): the unset ones that
  the fMP4 muxer writes into tkhd and mdhd are not covered.\<close>

theorem moov_roundtrip:
  assumes "moov_ok m"
  shows "\<exists>b. marshal_fresh (Movie_Len m) (Movie_Marshal m) = Inr b \<and> Movie_Unmarshal b off = Some (Inr (moov_norm m))"
  using moov.marshal_exact [OF moov.ok_arr [OF assms]] moov.reread [OF assms] by simp

text \<open>C22: the same for the tree of a fragment; \<open>moof_norm\<close> resets the fields of a run that its flags
  leave out, and a first sample without flags of its own gets \<open>FirstSampleFlags\<close>.\<close>

theorem moof_roundtrip:
  assumes "moof_ok m"
  shows "\<exists>b. marshal_fresh (MovieFrag_Len m) (MovieFrag_Marshal m) = Inr b \<and>
    MovieFrag_Unmarshal b off = Some (Inr (moof_norm m))"
  using moof.marshal_exact [OF TrueI] moof.reread [OF assms] by simp

text \<open>C24: a child box that announces the size 0, of any tag but mvhd, is read for ever: the loop of
  \<open>Movie.Unmarshal\<close> never advances and never returns.\<close>

theorem zero_size_hangs:
  assumes "tag \<noteq> MVHD"
  shows "Movie_Unmarshal (box MOOV (be32 0 @ be32 tag @ x # rest)) off = None"
proof (rule ccontr)
  let ?b = "be32 0 @ be32 tag @ x # rest"
  assume "Movie_Unmarshal (box MOOV ?b) off \<noteq> None"
  then obtain r where "children Movie_child \<lparr>moov_Header = None, moov_Tracks = [], moov_MovieExtend = None,
      moov_Unknowns = []\<rparr> ?b (off + 8) = Some r"
    by (auto simp: Movie_Unmarshal_def pad_box)
  then show False
    by (rule children_stuck [where tag = tag])
      (use assms in \<open>simp_all add: Movie_child_def child_def Dummy_Unmarshal_def Track_Unmarshal_def
        MovieExtend_Unmarshal_def pad_def children_end\<close>)
qed

section \<open>Witnesses\<close>

definition example_video :: AVC1Desc where
  "example_video = \<lparr>avc1_DataRefIdx = 1, avc1_Version = 0, avc1_Revision = 0, avc1_Vendor = 0, avc1_TemporalQuality = 0,
     avc1_SpatialQuality = 0, avc1_Width = 640, avc1_Height = 480, avc1_HorizontalResolution = 72,
     avc1_VerticalResolution = 72, avc1_FrameCount = 1, avc1_CompressorName = replicate 32 0, avc1_Depth = 24,
     avc1_ColorTableId = - 1, avc1_Conf = Some \<lparr>avcc_Data = [1, 100, 0, 30, 255, 225]\<rparr>, avc1_Unknowns = []\<rparr>"

definition example_samples :: SampleTable where
  "example_samples = \<lparr>
     stbl_SampleDesc = Some \<lparr>stsd_Version = 0, stsd_AVC1Desc = Some example_video, stsd_HV1Desc = None,
       stsd_MJPGDesc = None, stsd_MP4ADesc = None, stsd_Unknowns = []\<rparr>,
     stbl_TimeToSample = Some \<lparr>stts_Version = 0, stts_Flags = 0, stts_Entries = [\<lparr>stts_Count = 2, stts_Duration = 3000\<rparr>]\<rparr>,
     stbl_CompositionOffset = None,
     stbl_SampleToChunk = Some \<lparr>stsc_Version = 0, stsc_Flags = 0,
       stsc_Entries = [\<lparr>stsc_FirstChunk = 1, stsc_SamplesPerChunk = 1, stsc_SampleDescId = 1\<rparr>]\<rparr>,
     stbl_SyncSample = Some \<lparr>stss_Version = 0, stss_Flags = 0, stss_Entries = [1]\<rparr>,
     stbl_ChunkOffset = Some \<lparr>stco_Version = 0, stco_Flags = 0, stco_Entries = [56, 0x100000000]\<rparr>,
     stbl_SampleSize = Some \<lparr>stsz_Version = 0, stsz_Flags = 0, stsz_SampleSize = 0, stsz_Entries = [100, 20]\<rparr>\<rparr>"

definition example_movie :: Movie where
  "example_movie = \<lparr>moov_Header = Some (NewMovieHeader 3849984000123456789),
     moov_Tracks = [\<lparr>trak_Header = None,
       trak_Media = Some \<lparr>mdia_Header = Some \<lparr>mdhd_Version = 0, mdhd_Flags = 0, mdhd_CreateTime = 3849984000123456789,
           mdhd_ModifyTime = 3849984000123456789, mdhd_TimeScale = 90000, mdhd_Duration = 6000, mdhd_Language = 21956, mdhd_Quality = 0\<rparr>,
         mdia_Handler = Some \<lparr>hdlr_Version = 0, hdlr_Flags = 0, hdlr_Type = [0, 0, 0, 0],
           hdlr_SubType = [118, 105, 100, 101], hdlr_Name = [86]\<rparr>,
         mdia_Info = Some \<lparr>minf_Sound = None,
           minf_Video = Some \<lparr>vmhd_Version = 0, vmhd_Flags = 0, vmhd_GraphicsMode = 0, vmhd_Opcolor = [0, 0, 0]\<rparr>,
           minf_Data = Some \<lparr>dinf_Refer = Some \<lparr>dref_Version = 0, dref_Flags = 0,
             dref_Url = Some \<lparr>url_Version = 0, url_Flags = 1\<rparr>\<rparr>, dinf_Unknowns = []\<rparr>,
           minf_Sample = Some example_samples, minf_Unknowns = []\<rparr>, mdia_Unknowns = []\<rparr>,
       trak_Unknowns = []\<rparr>],
     moov_MovieExtend = None, moov_Unknowns = [\<lparr>dummy_Data = box 0x75647461 [7], dummy_Tag = 0x75647461\<rparr>]\<rparr>"

definition example_fragment :: MovieFrag where
  "example_fragment = \<lparr>moof_Header = Some \<lparr>mfhd_Version = 0, mfhd_Flags = 0, mfhd_Seqnum = 7\<rparr>,
     moof_Tracks = [\<lparr>
       traf_Header = Some \<lparr>tfhd_Version = 0, tfhd_Flags = 0x20018, tfhd_TrackID = 1, tfhd_BaseDataOffset = 0,
         tfhd_StsdID = 0, tfhd_DefaultDuration = 3000, tfhd_DefaultSize = 4, tfhd_DefaultFlags = 0\<rparr>,
       traf_DecodeTime = Some \<lparr>tfdt_Version = 1, tfdt_Flags = 0, tfdt_Time = 0x100000000\<rparr>,
       traf_Run = Some \<lparr>trun_Version = 0, trun_Flags = 0x205, trun_DataOffset = 120, trun_FirstSampleFlags = 0x2000000,
         trun_Entries = [\<lparr>entry_Duration = 0, entry_Size = 9, entry_Flags = 0x2000000, entry_Cts = 0\<rparr>,
           \<lparr>entry_Duration = 0, entry_Size = 4, entry_Flags = 0, entry_Cts = 0\<rparr>]\<rparr>,
       traf_Unknowns = []\<rparr>],
     moof_Unknowns = []\<rparr>"

lemmas all_len = MovieHeader_Len_def TrackHeader_Len_def MediaHeader_Len_def VideoMediaInfo_Len_def SoundMediaInfo_Len_def
  DataReferUrl_Len_def TrackExtend_Len_def MovieFragHeader_Len_def TrackFragDecodeTime_Len_def TimeToSample_Len_def
  CompositionOffset_Len_def SampleToChunk_Len_def SyncSample_Len_def SampleSize_Len_def ChunkOffset_Len_def
  TrackFragHeader_Len_def TrackFragRun_Len_def HandlerRefer_Len_def AVC1Conf_Len_def HV1Conf_Len_def
  ElemStreamDesc_Len_def Dummy_Len_def DataRefer_Len_def DataInfo_Len_def AVC1Desc_Len_def HV1Desc_Len_def
  MJPGDesc_Len_def MP4ADesc_Len_def SampleDesc_Len_def MediaInfo_Len_def Media_Len_def Track_Len_def
  MovieExtend_Len_def Movie_Len_def TrackFrag_Len_def MovieFrag_Len_def opt_len_def entry_len_def

lemma flags_small: "unat w < 2 ^ 24 \<Longrightarrow> flags_ok w"
  unfolding flags_ok_def take_bit_eq_mask [symmetric] by (simp add: word_unat_eq_iff unsigned_take_bit_eq take_bit_nat_eq_self)

lemma example_samples_ok: "stbl_ok example_samples"
  by (simp add: stbl_ok_def example_samples_def example_video_def stsd_ok_def avc1_ok_def avcc_ok_def stts_ok_def stsc_ok_def
      stss_ok_def stco_ok_def stsz_ok_def opt_all_def all_len SampleTable_Len_def flags_small unknowns_ok_def fixed32_ok_def needs64_def)

lemma example_samples_len: "SampleTable_Len example_samples = 256"
  by (simp add: example_samples_def example_video_def all_len SampleTable_Len_def needs64_def)

lemma example_movie_ok: "moov_ok example_movie"
  using example_samples_ok
  by (simp add: moov_ok_def example_movie_def trak_ok_def mdia_ok_def minf_ok_def dinf_ok_def dref_ok_def vmhd_ok_def mdhd_ok_def
      hdlr_ok_def url_ok_def opt_all_def flags_small unknowns_ok_def dummy_ok_def NewMovieHeader_def mvhd_ok_def mvhd_arr_def
      time_ok_def duration_ok_def time32_ok_def fixed32_ok_def fixed16_ok_def second_def example_samples_len
      all_len MVHD_def TRAK_def MVEX_def)

lemma example_fragment_ok: "moof_ok example_fragment"
  by (simp add: moof_ok_def example_fragment_def traf_ok_def mfhd_ok_def tfhd_ok_def tfdt_ok_def trun_ok_def
      opt_all_def flags_small unknowns_ok_def all_len has_def TFHDBaseDataOffset_def TFHDStsdID_def
      TFHDDefaultDuration_def TFHDDefaultSize_def TFHDDefaultFlags_def TRUNDataOffset_def TRUNFirstSampleFlags_def
      TRUNSampleDuration_def TRUNSampleSize_def TRUNSampleFlags_def TRUNSampleCTS_def)

lemma moov_marshal_exact_witness:
  "\<exists>b. marshal_fresh (Movie_Len example_movie) (Movie_Marshal example_movie) = Inr b \<and> length b = Movie_Len example_movie \<and>
    U32BE b = Inr (word_of_nat (Movie_Len example_movie)) \<and> U32BE (drop 4 b) = Inr MOOV"
  by (rule moov_marshal_exact) (rule moov.ok_arr [OF example_movie_ok])

lemma moov_roundtrip_witness:
  "\<exists>b. marshal_fresh (Movie_Len example_movie) (Movie_Marshal example_movie) = Inr b \<and> Movie_Unmarshal b 40 = Some (Inr (moov_norm example_movie))"
  by (rule moov_roundtrip) (rule example_movie_ok)

lemma moof_roundtrip_witness:
  "\<exists>b. marshal_fresh (MovieFrag_Len example_fragment) (MovieFrag_Marshal example_fragment) = Inr b \<and>
    MovieFrag_Unmarshal b 32 = Some (Inr (moof_norm example_fragment))"
  by (rule moof_roundtrip) (rule example_fragment_ok)

lemma zero_size_hangs_witness: "Movie_Unmarshal (box MOOV (be32 0 @ be32 0x66726565 @ 0 # [])) 0 = None"
  by (rule zero_size_hangs) (simp add: MVHD_def)

text \<open>The names both muxers give their handlers come back empty.\<close>

lemma handler_name_lost: "length (hdlr_Name h) = 12 \<Longrightarrow> hdlr_Name (hdlr_norm h) = []"
  by (simp add: hdlr_norm_def)

end
