(* ===== verification/Mp4File.thy ===== *)
theory Mp4File
  imports Mp4Tree
begin

text \<open>
  \<open>mp4io.go\<close> on whole files: the \<open>Atom\<close> interface with its children, the search for an atom, the
  configuration accessors of \<open>trak.go\<close>, and \<open>ReadFileAtoms\<close>, which walks the top-level boxes.
\<close>

section \<open>Atoms\<close>

datatype Atom =
    AMovie Movie
  | AMovieHeader MovieHeader
  | AMovieExtend MovieExtend
  | ATrackExtend TrackExtend
  | ATrack Track
  | ATrackHeader TrackHeader
  | AMedia Media
  | AMediaHeader MediaHeader
  | AHandlerRefer HandlerRefer
  | AMediaInfo MediaInfo
  | ASoundMediaInfo SoundMediaInfo
  | AVideoMediaInfo VideoMediaInfo
  | ADataInfo DataInfo
  | ADataRefer DataRefer
  | ADataReferUrl DataReferUrl
  | ASampleTable SampleTable
  | ASampleDesc SampleDesc
  | ATimeToSample TimeToSample
  | ACompositionOffset CompositionOffset
  | ASampleToChunk SampleToChunk
  | ASyncSample SyncSample
  | AChunkOffset ChunkOffset
  | ASampleSize SampleSize
  | AAVC1Desc AVC1Desc
  | AAVC1Conf AVC1Conf
  | AHV1Desc HV1Desc
  | AHV1Conf HV1Conf
  | AMJPGDesc MJPGDesc
  | AMP4ADesc MP4ADesc
  | AElemStreamDesc ElemStreamDesc
  | AMovieFrag MovieFrag
  | AMovieFragHeader MovieFragHeader
  | ATrackFrag TrackFrag
  | ATrackFragHeader TrackFragHeader
  | ATrackFragDecodeTime TrackFragDecodeTime
  | ATrackFragRun TrackFragRun
  | AFileType FileType
  | ASegmentType SegmentType
  | AFreeType
  | ADummy Dummy

fun Atom_Tag :: "Atom \<Rightarrow> Tag" where
  "Atom_Tag (AMovie x) = MOOV"
| "Atom_Tag (AMovieHeader x) = MVHD"
| "Atom_Tag (AMovieExtend x) = MVEX"
| "Atom_Tag (ATrackExtend x) = TREX"
| "Atom_Tag (ATrack x) = TRAK"
| "Atom_Tag (ATrackHeader x) = TKHD"
| "Atom_Tag (AMedia x) = MDIA"
| "Atom_Tag (AMediaHeader x) = MDHD"
| "Atom_Tag (AHandlerRefer x) = HDLR"
| "Atom_Tag (AMediaInfo x) = MINF"
| "Atom_Tag (ASoundMediaInfo x) = SMHD"
| "Atom_Tag (AVideoMediaInfo x) = VMHD"
| "Atom_Tag (ADataInfo x) = DINF"
| "Atom_Tag (ADataRefer x) = DREF"
| "Atom_Tag (ADataReferUrl x) = URL"
| "Atom_Tag (ASampleTable x) = STBL"
| "Atom_Tag (ASampleDesc x) = STSD"
| "Atom_Tag (ATimeToSample x) = STTS"
| "Atom_Tag (ACompositionOffset x) = CTTS"
| "Atom_Tag (ASampleToChunk x) = STSC"
| "Atom_Tag (ASyncSample x) = STSS"
| "Atom_Tag (AChunkOffset x) = ChunkOffset_Tag x"
| "Atom_Tag (ASampleSize x) = STSZ"
| "Atom_Tag (AAVC1Desc x) = AVC1"
| "Atom_Tag (AAVC1Conf x) = AVCC"
| "Atom_Tag (AHV1Desc x) = HEV1"
| "Atom_Tag (AHV1Conf x) = HVCC"
| "Atom_Tag (AMJPGDesc x) = MJPG"
| "Atom_Tag (AMP4ADesc x) = MP4A"
| "Atom_Tag (AElemStreamDesc x) = ESDS"
| "Atom_Tag (AMovieFrag x) = MOOF"
| "Atom_Tag (AMovieFragHeader x) = MFHD"
| "Atom_Tag (ATrackFrag x) = TRAF"
| "Atom_Tag (ATrackFragHeader x) = TFHD"
| "Atom_Tag (ATrackFragDecodeTime x) = TFDT"
| "Atom_Tag (ATrackFragRun x) = TRUN"
| "Atom_Tag (AFileType x) = FTYP"
| "Atom_Tag (ASegmentType x) = STYP"
| "Atom_Tag AFreeType = FREE"
| "Atom_Tag (ADummy d) = dummy_Tag d"

definition some :: "('a \<Rightarrow> Atom) \<Rightarrow> 'a option \<Rightarrow> Atom list" where
  "some f x = (case x of None \<Rightarrow> [] | Some a \<Rightarrow> [f a])"

fun Children :: "Atom \<Rightarrow> Atom list" where
  "Children (AMovie x) = some AMovieHeader (moov_Header x) @
     some AMovieExtend (moov_MovieExtend x) @
     map ATrack (moov_Tracks x) @
     map ADummy (moov_Unknowns x)"
| "Children (AMovieExtend x) = map ATrackExtend (mvex_Tracks x) @ map ADummy (mvex_Unknowns x)"
| "Children (ATrack x) = some ATrackHeader (trak_Header x) @
     some AMedia (trak_Media x) @
     map ADummy (trak_Unknowns x)"
| "Children (AMedia x) = some AMediaHeader (mdia_Header x) @
     some AHandlerRefer (mdia_Handler x) @
     some AMediaInfo (mdia_Info x) @
     map ADummy (mdia_Unknowns x)"
| "Children (AMediaInfo x) = some ASoundMediaInfo (minf_Sound x) @
     some AVideoMediaInfo (minf_Video x) @
     some ADataInfo (minf_Data x) @
     some ASampleTable (minf_Sample x) @
     map ADummy (minf_Unknowns x)"
| "Children (ADataInfo x) = some ADataRefer (dinf_Refer x) @ map ADummy (dinf_Unknowns x)"
| "Children (ADataRefer x) = some ADataReferUrl (dref_Url x)"
| "Children (ASampleTable x) = some ASampleDesc (stbl_SampleDesc x) @
     some ATimeToSample (stbl_TimeToSample x) @
     some ACompositionOffset (stbl_CompositionOffset x) @
     some ASampleToChunk (stbl_SampleToChunk x) @
     some ASyncSample (stbl_SyncSample x) @
     some AChunkOffset (stbl_ChunkOffset x) @
     some ASampleSize (stbl_SampleSize x)"
| "Children (ASampleDesc x) = some AAVC1Desc (stsd_AVC1Desc x) @
     some AHV1Desc (stsd_HV1Desc x) @
     some AMJPGDesc (stsd_MJPGDesc x) @
     some AMP4ADesc (stsd_MP4ADesc x) @
     map ADummy (stsd_Unknowns x)"
| "Children (AAVC1Desc x) = some AAVC1Conf (avc1_Conf x) @ map ADummy (avc1_Unknowns x)"
| "Children (AHV1Desc x) = some AHV1Conf (hev1_Conf x) @ map ADummy (hev1_Unknowns x)"
| "Children (AMJPGDesc x) = map ADummy (mjpg_Unknowns x)"
| "Children (AMP4ADesc x) = some AElemStreamDesc (mp4a_Conf x) @ map ADummy (mp4a_Unknowns x)"
| "Children (AMovieFrag x) = some AMovieFragHeader (moof_Header x) @
     map ATrackFrag (moof_Tracks x) @
     map ADummy (moof_Unknowns x)"
| "Children (ATrackFrag x) = some ATrackFragHeader (traf_Header x) @
     some ATrackFragDecodeTime (traf_DecodeTime x) @
     some ATrackFragRun (traf_Run x) @
     map ADummy (traf_Unknowns x)"
| "Children _ = []"

text \<open>How far an atom is above the leaves.\<close>

fun depth :: "Atom \<Rightarrow> nat" where
  "depth (AMovie x) = 8"
| "depth (AMovieExtend x) = 2"
| "depth (ATrack x) = 7"
| "depth (AMedia x) = 6"
| "depth (AMediaInfo x) = 5"
| "depth (ADataInfo x) = 3"
| "depth (ADataRefer x) = 2"
| "depth (ASampleTable x) = 4"
| "depth (ASampleDesc x) = 3"
| "depth (AAVC1Desc x) = 2"
| "depth (AHV1Desc x) = 2"
| "depth (AMJPGDesc x) = 2"
| "depth (AMP4ADesc x) = 2"
| "depth (AMovieFrag x) = 3"
| "depth (ATrackFrag x) = 2"
| "depth (ADummy x) = 0"
| "depth _ = 1"

lemma depth_child: "c \<in> set (Children a) \<Longrightarrow> depth c < depth a"
  by (cases a) (auto simp: some_def split: option.splits)

fun first_some :: "('a \<Rightarrow> 'b option) \<Rightarrow> 'a list \<Rightarrow> 'b option" where
  "first_some f [] = None"
| "first_some f (x # xs) = (case f x of Some y \<Rightarrow> Some y | None \<Rightarrow> first_some f xs)"

lemma first_some_cong [fundef_cong]:
  "xs = ys \<Longrightarrow> (\<And>x. x \<in> set ys \<Longrightarrow> f x = g x) \<Longrightarrow> first_some f xs = first_some g ys"
  by (induction ys arbitrary: xs) (auto split: option.splits)

function FindChildren :: "Atom \<Rightarrow> Tag \<Rightarrow> Atom option" where
  "FindChildren a tag = (if Atom_Tag a = tag then Some a
     else first_some (\<lambda>child. FindChildren child tag) (Children a))"
  by pat_completeness auto
termination by (relation "measure (\<lambda>(a, tag). depth a)") (auto simp: depth_child)

declare FindChildren.simps [simp del]

text \<open>The assertion \<open>atom.(*T)\<close> yields nil for an atom of another type, as a \<open>Dummy\<close> under the tag.\<close>

definition GetAVC1Conf :: "Track \<Rightarrow> AVC1Conf option" where
  "GetAVC1Conf t = (case FindChildren (ATrack t) AVCC of Some (AAVC1Conf c) \<Rightarrow> Some c | _ \<Rightarrow> None)"

definition GetHV1Conf :: "Track \<Rightarrow> HV1Conf option" where
  "GetHV1Conf t = (case FindChildren (ATrack t) HVCC of Some (AHV1Conf c) \<Rightarrow> Some c | _ \<Rightarrow> None)"

definition GetMJPGDesc :: "Track \<Rightarrow> MJPGDesc option" where
  "GetMJPGDesc t = (case FindChildren (ATrack t) MJPG of Some (AMJPGDesc c) \<Rightarrow> Some c | _ \<Rightarrow> None)"

definition GetElemStreamDesc :: "Track \<Rightarrow> ElemStreamDesc option" where
  "GetElemStreamDesc t = (case FindChildren (ATrack t) ESDS of Some (AElemStreamDesc c) \<Rightarrow> Some c | _ \<Rightarrow> None)"

section \<open>ReadFileAtoms\<close>

definition MDAT :: Tag where "MDAT = 0x6d646174"

text \<open>
  A file is its bytes and a position, which may lie behind the end.  \<open>read_full k\<close> is
  \<open>io.ReadFull\<close> into \<open>k\<close> bytes.
\<close>

datatype io_err = IoEOF | IoUnexpectedEOF | IoNegative | IoAtom atom_err | IoPanic

definition read_full_at :: "bytes \<Rightarrow> nat \<Rightarrow> nat \<Rightarrow> io_err + bytes" where
  "read_full_at file pos k = (if k = 0 then Inr [] else if length file \<le> pos then Inl IoEOF
     else if length file < pos + k then Inl IoUnexpectedEOF else Inr (sub file pos (pos + k)))"

text \<open>The top-level atoms; any other box is a \<open>Dummy\<close> that keeps its tag, offset and size.\<close>

datatype top_atom = TopMovie Movie | TopMovieFrag MovieFrag | TopDummy Tag nat int

definition be_value :: "bytes \<Rightarrow> nat \<Rightarrow> 32 word" where
  "be_value b i = (case U32BE (drop i b) of Inr v \<Rightarrow> v | Inl _ \<Rightarrow> 0)"

text \<open>The header at a position: tag, size as an \<open>int\<close>, and whether the size was the 64-bit one.\<close>

definition read_header :: "bytes \<Rightarrow> nat \<Rightarrow> io_err + bytes \<times> Tag \<times> int \<times> bool" where
  "read_header file pos = (case read_full_at file pos 8 of Inl e \<Rightarrow> Inl e | Inr hdr \<Rightarrow>
     let sz = be_value hdr 0; tag = be_value hdr 4 in
     if tag = MDAT \<and> sz = 1
     then (case read_full_at file (pos + 8) 8 of Inl e \<Rightarrow> Inl e
       | Inr sBuf \<Rightarrow> Inr (hdr, tag, (case I64BE sBuf of Inr v \<Rightarrow> sint v | Inl _ \<Rightarrow> 0), True))
     else Inr (hdr, tag, uint sz, False))"

text \<open>The buffer of an atom: \<open>make([]byte, size)\<close> with the rest of the box read behind the header.\<close>

definition read_box :: "bytes \<Rightarrow> bytes \<Rightarrow> nat \<Rightarrow> int \<Rightarrow> io_err + bytes" where
  "read_box file hdr pos sz = (if sz < 8 then Inl IoPanic
     else case read_full_at file (pos + 8) (nat sz - 8) of Inl e \<Rightarrow> Inl e | Inr b \<Rightarrow> Inr (hdr @ b))"

definition as_io :: "('a \<Rightarrow> top_atom) \<Rightarrow> atom_err + 'a \<Rightarrow> io_err + top_atom" where
  "as_io f r = (case r of Inl AtomPanic \<Rightarrow> Inl IoPanic | Inl e \<Rightarrow> Inl (IoAtom e) | Inr a \<Rightarrow> Inr (f a))"

text \<open>
  The loop of \<open>ReadFileAtoms\<close> from a position on; the value is the error, if any, the atoms, and
  the position of the file afterwards.  An end of file is no error when it comes at the start of a header.
\<close>

partial_function (option) read_atoms :: "bytes \<Rightarrow> nat \<Rightarrow> top_atom list \<Rightarrow>
    (io_err option \<times> top_atom list \<times> nat) option" where
  "read_atoms file pos atoms =
     (if length file \<le> pos then Some (None, atoms, pos)
      else case read_header file pos of Inl e \<Rightarrow> Some (Some e, atoms, length file) | Inr h \<Rightarrow>
        (let hdr = fst h; tag = fst (snd h); sz = fst (snd (snd h)); ext = snd (snd (snd h)) in
         if tag = MOOV \<or> tag = MOOF
         then (case read_box file hdr pos sz of Inl e \<Rightarrow> Some (Some e, atoms, length file) | Inr b \<Rightarrow>
           Option.bind (if tag = MOOV then map_option (as_io TopMovie) (Movie_Unmarshal b pos)
             else map_option (as_io TopMovieFrag) (MovieFrag_Unmarshal b pos))
             (\<lambda>r. case r of Inl e \<Rightarrow> Some (Some e, atoms, pos + nat sz)
                | Inr a \<Rightarrow> read_atoms file (pos + nat sz) (atoms @ [a])))
         else
           (let dummy = TopDummy tag pos sz;
                here = int pos + (if ext then 16 else 8);
                pos' = here + (sz - 8 - (if ext then 8 else 0)) in
            if pos' < 0 then Some (Some IoNegative, atoms @ [dummy], nat here)
            else read_atoms file (nat pos') (atoms @ [dummy]))))"

definition ReadFileAtoms :: "bytes \<Rightarrow> nat \<Rightarrow> (io_err option \<times> top_atom list \<times> nat) option" where
  "ReadFileAtoms file pos = read_atoms file pos []"

end
