(* ===== verification/Mp4Stream.thy ===== *)
theory Mp4Stream
  imports Mp4File H264 H265 Aac RtpMjpeg
begin

text \<open>
  What the two MP4 muxers share: the codec parameters of a track as they read them, the packets they
  are given, and 64-bit time arithmetic.  A \<open>time.Duration\<close> is a number of nanoseconds; the places
  where the code can leave the 64-bit range are written with \<open>wrap64\<close>.
\<close>

section \<open>Codec parameters\<close>

definition MJPEG_type :: codec_type where
  "MJPEG_type = makeVideoCodecType (avCodecTypeMagic + 3)"

definition AAC_type :: codec_type where
  "AAC_type = makeAudioCodecType (avCodecTypeMagic + 1)"

datatype media_codec =
    H264_par h264_params
  | H265_par h265_params
  | MJPEG_par mjpeg_params
  | AAC_par aac_params
  | Other_par codec_type

fun codec_Type :: "media_codec \<Rightarrow> codec_type" where
  "codec_Type (H264_par p) = hp_CodecType p"
| "codec_Type (H265_par p) = vp_CodecType p"
| "codec_Type (MJPEG_par p) = MJPEG_type"
| "codec_Type (AAC_par p) = ap_CodecType p"
| "codec_Type (Other_par t) = t"

definition head_or_nil :: "bytes list \<Rightarrow> bytes" where
  "head_or_nil xs = (case xs of [] \<Rightarrow> [] | x # _ \<Rightarrow> x)"

definition H264_SPS :: "h264_params \<Rightarrow> bytes" where
  "H264_SPS p = head_or_nil (SPS (hp_RecordInfo p))"

definition H264_PPS :: "h264_params \<Rightarrow> bytes" where
  "H264_PPS p = head_or_nil (PPS (hp_RecordInfo p))"

definition H265_VPS :: "h265_params \<Rightarrow> bytes" where
  "H265_VPS p = head_or_nil (hv_VPS (vp_RecordInfo p))"

definition H265_SPS :: "h265_params \<Rightarrow> bytes" where
  "H265_SPS p = head_or_nil (hv_SPS (vp_RecordInfo p))"

definition H265_PPS :: "h265_params \<Rightarrow> bytes" where
  "H265_PPS p = head_or_nil (hv_PPS (vp_RecordInfo p))"

text \<open>\<open>Width()\<close> and \<open>Height()\<close> of the video parameters.\<close>

fun par_Width :: "media_codec \<Rightarrow> 64 word" where
  "par_Width (H264_par p) = Width (hp_SPSInfo p)"
| "par_Width (H265_par p) = hs_Width (vp_SPSInfo p)"
| "par_Width (MJPEG_par p) = word_of_nat (mj_width p)"
| "par_Width _ = 0"

fun par_Height :: "media_codec \<Rightarrow> 64 word" where
  "par_Height (H264_par p) = Height (hp_SPSInfo p)"
| "par_Height (H265_par p) = hs_Height (vp_SPSInfo p)"
| "par_Height (MJPEG_par p) = word_of_nat (mj_height p)"
| "par_Height _ = 0"

section \<open>Packets\<close>

text \<open>
  A packet as the muxers see it.  \<open>mk_id\<close> tells two packets apart; \<open>mk_par\<close> is what
  \<open>CodecParameters()\<close> returns.
\<close>

record media_packet =
  mk_id :: nat
  mk_stream :: byte
  mk_video :: bool
  mk_key :: bool
  mk_ts :: int
  mk_dur :: int
  mk_data :: bytes
  mk_par :: media_codec

section \<open>Time\<close>

definition wrap64 :: "int \<Rightarrow> int" where
  "wrap64 n = sint (word_of_int n :: 64 word)"

lemma wrap64_id: "- (2 ^ 63) \<le> n \<Longrightarrow> n < 2 ^ 63 \<Longrightarrow> wrap64 n = n"
  by (simp add: wrap64_def signed_of_int signed_take_bit_int_eq_self)

lemma quot_nonneg: "0 \<le> a \<Longrightarrow> quot a b = a div b"
  by (cases "a = 0") (simp_all add: quot_def)

end
