(* ===== verification/Fmp4.thy ===== *)
theory Fmp4
  imports Mp4Stream
begin

text \<open>
  \<open>format/fmp4\<close>: fragments of an MP4 stream (styp, moof, mdat) and the initialisation segment, and
  \<open>utils/buffer/buffer.go\<close>, the buffers they are returned in.  A saturating conversion logs; the log
  is left out.  The parameters of a track carry the stream index of \<open>BaseParameters\<close>.
\<close>

section \<open>utils/buffer/buffer.go\<close>

text \<open>The backing array, as long as its capacity, and the length of the slice.\<close>

record mem_buffer =
  mb_array :: bytes
  mb_len :: nat

definition buffer_Get :: "nat \<Rightarrow> mem_buffer" where
  "buffer_Get n = \<lparr>mb_array = replicate n 0, mb_len = n\<rparr>"

definition buffer_Data :: "mem_buffer \<Rightarrow> bytes" where
  "buffer_Data b = take (mb_len b) (mb_array b)"

definition buffer_Len :: "mem_buffer \<Rightarrow> nat" where
  "buffer_Len b = mb_len b"

definition buffer_Cap :: "mem_buffer \<Rightarrow> nat" where
  "buffer_Cap b = length (mb_array b)"

definition buffer_Resize :: "nat \<Rightarrow> mem_buffer \<Rightarrow> mem_buffer" where
  "buffer_Resize n b = (if buffer_Cap b < n
     then \<lparr>mb_array = buffer_Data b @ replicate (n - mb_len b) 0, mb_len = n\<rparr>
     else b\<lparr>mb_len := n\<rparr>)"

section \<open>Conversions\<close>

definition SampleNoDependencies :: "32 word" where "SampleNoDependencies = 0x02000000"
definition SampleHasDependencies :: "32 word" where "SampleHasDependencies = 0x01000000"
definition SampleIsNonSync :: "32 word" where "SampleIsNonSync = 0x00010000"
definition SampleNonKeyframe :: "32 word" where "SampleNonKeyframe = SampleHasDependencies OR SampleIsNonSync"

definition safeInt32Conversion :: "int \<Rightarrow> 32 word" where
  "safeInt32Conversion v = (if - (2 ^ 31) \<le> v \<and> v \<le> 2 ^ 31 - 1 then word_of_int v
     else if v < - (2 ^ 31) then word_of_int (- (2 ^ 31)) else word_of_int (2 ^ 31 - 1))"

definition safeUint32Conversion :: "int \<Rightarrow> 32 word" where
  "safeUint32Conversion v = (if v < 0 \<or> 2 ^ 32 - 1 < v then 0 else word_of_int v)"

definition safeInt16Conversion :: "nat \<Rightarrow> 16 word" where
  "safeInt16Conversion v = (if v \<le> 32767 then word_of_nat v else 32767)"

section \<open>Streams\<close>

record frag_stream =
  ff_codec :: media_codec
  ff_index :: byte
  ff_packets :: "media_packet list"
  ff_bufSize :: nat
  ff_firstPacketTime :: int
  ff_trackAtom :: Track
  ff_timeScale :: int
  ff_duration :: int
  ff_sample :: SampleTable
  ff_sampleIndex :: nat

record fmuxer =
  fm_strs :: "frag_stream list"
  fm_video :: "(media_codec \<times> byte) option"
  fm_audio :: "(media_codec \<times> byte) option"

definition NewFmuxer :: fmuxer where
  "NewFmuxer = \<lparr>fm_strs = [], fm_video = None, fm_audio = None\<rparr>"

text \<open>
  Seconds and the rest apart, the rest rounded.  Every product and sum is one of \<open>int64\<close>; the quotient
  and the remainder by a second cannot leave it.
\<close>

definition fmp4_timeToTS :: "int \<Rightarrow> int \<Rightarrow> int" where
  "fmp4_timeToTS timeScale tm = (let sec = quot tm second; rm = tm - second * sec in
     wrap64 (wrap64 (sec * timeScale) + quot (wrap64 (wrap64 (rm * timeScale) + second div 2)) second))"

definition stream_writePacket :: "media_packet \<Rightarrow> frag_stream \<Rightarrow> frag_stream" where
  "stream_writePacket p s = s\<lparr>
     ff_firstPacketTime := (if ff_sampleIndex s = 0 then mk_ts p else ff_firstPacketTime s),
     ff_packets := ff_packets s @ [p], ff_duration := wrap64 (ff_duration s + mk_dur p),
     ff_sampleIndex := ff_sampleIndex s + 1, ff_bufSize := ff_bufSize s + length (mk_data p)\<rparr>"

text \<open>The zero \<open>time.Time\<close>, the start of the year 1, counted from 1904.\<close>

definition zero_time :: time where
  "zero_time = - 60052752000 * second"

definition fmp4_matrix :: "32 word list" where
  "fmp4_matrix = [0x10000, 0, 0, 0, 0x10000, 0, 0, 0, 0x40000000]"

definition fmp4_supports :: "codec_type \<Rightarrow> bool" where
  "fmp4_supports t \<longleftrightarrow> t \<in> {H264_type, H265_type, AAC_type}"

definition fmp4_timeScale :: "media_codec \<Rightarrow> int" where
  "fmp4_timeScale c = (case c of AAC_par p \<Rightarrow> if codec_Type c = AAC_type then Aac.SampleRate (ap_Config p) else 90000
     | _ \<Rightarrow> 90000)"

definition fmp4_handler :: "codec_type \<Rightarrow> HandlerRefer option" where
  "fmp4_handler t = (if t \<in> {H264_type, H265_type}
     then Some \<lparr>hdlr_Version = 0, hdlr_Flags = 0, hdlr_Type = [0, 0, 0, 0], hdlr_SubType = [0x76, 0x69, 0x64, 0x65],
       hdlr_Name = map word_of_nat [86, 105, 100, 101, 111, 72, 97, 110, 100, 108, 101, 114]\<rparr>
     else if t = AAC_type
     then Some \<lparr>hdlr_Version = 0, hdlr_Flags = 0, hdlr_Type = [0, 0, 0, 0], hdlr_SubType = [0x73, 0x6F, 0x75, 0x6E],
       hdlr_Name = map word_of_nat [83, 111, 117, 110, 100, 72, 97, 110, 100, 108, 101, 114]\<rparr>
     else None)"

definition fmp4_track :: "media_codec \<Rightarrow> byte \<Rightarrow> Track" where
  "fmp4_track c idx = (let audio = (codec_Type c = AAC_type) in
     \<lparr>trak_Header = Some \<lparr>tkhd_Version = 0, tkhd_Flags = 3, tkhd_CreateTime = zero_time, tkhd_ModifyTime = zero_time,
        tkhd_TrackId = ucast (idx + 1), tkhd_Duration = 0, tkhd_Layer = 0,
        tkhd_AlternateGroup = (if audio then 1 else 0), tkhd_Volume = (if audio then 1 else 0),
        tkhd_Matrix = fmp4_matrix, tkhd_TrackWidth = 0, tkhd_TrackHeight = 0\<rparr>,
      trak_Media = Some \<lparr>mdia_Header = Some \<lparr>mdhd_Version = 0, mdhd_Flags = 0, mdhd_CreateTime = zero_time,
          mdhd_ModifyTime = zero_time, mdhd_TimeScale = safeInt32Conversion (fmp4_timeScale c), mdhd_Duration = 0,
          mdhd_Language = 21956, mdhd_Quality = 0\<rparr>,
        mdia_Handler = fmp4_handler (codec_Type c),
        mdia_Info = Some \<lparr>minf_Sound = None, minf_Video = None,
          minf_Data = Some \<lparr>dinf_Refer = Some \<lparr>dref_Version = 0, dref_Flags = 0,
            dref_Url = Some \<lparr>url_Version = 0, url_Flags = 1\<rparr>\<rparr>, dinf_Unknowns = []\<rparr>,
          minf_Sample = None, minf_Unknowns = []\<rparr>,
        mdia_Unknowns = []\<rparr>,
      trak_Unknowns = []\<rparr>)"

definition fmp4_sample_table :: "codec_type \<Rightarrow> SampleTable" where
  "fmp4_sample_table t = \<lparr>
     stbl_SampleDesc = Some \<lparr>stsd_Version = 0, stsd_AVC1Desc = None, stsd_HV1Desc = None, stsd_MJPGDesc = None,
       stsd_MP4ADesc = None, stsd_Unknowns = []\<rparr>,
     stbl_TimeToSample = Some \<lparr>stts_Version = 0, stts_Flags = 0, stts_Entries = []\<rparr>,
     stbl_CompositionOffset = None,
     stbl_SampleToChunk = Some \<lparr>stsc_Version = 0, stsc_Flags = 0, stsc_Entries = []\<rparr>,
     stbl_SyncSample = (if t \<in> {H264_type, H265_type} then Some \<lparr>stss_Version = 0, stss_Flags = 0, stss_Entries = []\<rparr> else None),
     stbl_ChunkOffset = Some \<lparr>stco_Version = 0, stco_Flags = 0, stco_Entries = []\<rparr>,
     stbl_SampleSize = Some \<lparr>stsz_Version = 0, stsz_Flags = 0, stsz_SampleSize = 0, stsz_Entries = []\<rparr>\<rparr>"

definition fmp4_newStream :: "media_codec \<times> byte \<Rightarrow> fmuxer \<Rightarrow> fmuxer res" where
  "fmp4_newStream ci m = (let c = fst ci in
     if \<not> fmp4_supports (codec_Type c) then Inl (Error ''fmp4: codec type is not supported'')
     else Inr (m\<lparr>fm_strs := fm_strs m @ [\<lparr>ff_codec = c, ff_index = snd ci, ff_packets = [], ff_bufSize = 0,
       ff_firstPacketTime = 0, ff_trackAtom = fmp4_track c (snd ci), ff_timeScale = fmp4_timeScale c, ff_duration = 0,
       ff_sample = fmp4_sample_table (codec_Type c), ff_sampleIndex = 0\<rparr>]\<rparr>))"

definition fmp4_stream_opt :: "(media_codec \<times> byte) option \<Rightarrow> fmuxer \<Rightarrow> fmuxer res" where
  "fmp4_stream_opt c m = (case c of None \<Rightarrow> Inr m | Some c \<Rightarrow> fmp4_newStream c m)"

definition Fmp4_Mux :: "(media_codec \<times> byte) option \<Rightarrow> (media_codec \<times> byte) option \<Rightarrow> fmuxer \<Rightarrow> fmuxer res" where
  "Fmp4_Mux v a m = ebind (fmp4_stream_opt v (m\<lparr>fm_video := v, fm_audio := a\<rparr>)) (fmp4_stream_opt a)"

definition Fmp4_WritePacket :: "media_packet \<Rightarrow> fmuxer \<Rightarrow> fmuxer res" where
  "Fmp4_WritePacket p m = (let i = unat (mk_stream p) in
     if length (fm_strs m) \<le> i then Inl (Error ''fmp4: stream index out of range'')
     else Inr (m\<lparr>fm_strs := (fm_strs m)[i := stream_writePacket p (fm_strs m ! i)]\<rparr>))"

text \<open>A stream that cannot be made is logged and left out.\<close>

definition keep_going :: "fmuxer res \<Rightarrow> fmuxer \<Rightarrow> fmuxer" where
  "keep_going r m = (case r of Inl _ \<Rightarrow> m | Inr m' \<Rightarrow> m')"

definition processMuxer :: "fmuxer \<Rightarrow> fmuxer" where
  "processMuxer m = (let m = m\<lparr>fm_strs := []\<rparr>; m = keep_going (fmp4_stream_opt (fm_video m) m) m
     in keep_going (fmp4_stream_opt (fm_audio m) m) m)"

section \<open>The initialisation segment\<close>

definition fmp4_describe :: "media_codec \<Rightarrow> byte \<Rightarrow> SampleDesc \<Rightarrow> SampleDesc" where
  "fmp4_describe c idx d = (case c of
       H264_par p \<Rightarrow> d\<lparr>stsd_AVC1Desc := Some \<lparr>avc1_DataRefIdx = 1, avc1_Version = 0, avc1_Revision = 0, avc1_Vendor = 0,
         avc1_TemporalQuality = 0, avc1_SpatialQuality = 0, avc1_Width = safeInt16Conversion (unat (par_Width c)),
         avc1_Height = safeInt16Conversion (unat (par_Height c)), avc1_HorizontalResolution = 72,
         avc1_VerticalResolution = 72, avc1_FrameCount = 1, avc1_CompressorName = replicate 32 0, avc1_Depth = 24,
         avc1_ColorTableId = - 1, avc1_Conf = Some \<lparr>avcc_Data = hp_Record p\<rparr>, avc1_Unknowns = []\<rparr>\<rparr>
     | H265_par p \<Rightarrow> d\<lparr>stsd_HV1Desc := Some \<lparr>hev1_DataRefIdx = 1, hev1_Version = 0, hev1_Revision = 0, hev1_Vendor = 0,
         hev1_TemporalQuality = 0, hev1_SpatialQuality = 0, hev1_Width = safeInt16Conversion (unat (par_Width c)),
         hev1_Height = safeInt16Conversion (unat (par_Height c)), hev1_HorizontalResolution = 72,
         hev1_VerticalResolution = 72, hev1_FrameCount = 1, hev1_CompressorName = replicate 32 0, hev1_Depth = 24,
         hev1_ColorTableId = - 1, hev1_Conf = Some \<lparr>hvcc_Data = vp_Record p\<rparr>, hev1_Unknowns = []\<rparr>\<rparr>
     | AAC_par p \<Rightarrow> d\<lparr>stsd_MP4ADesc := Some \<lparr>mp4a_DataRefIdx = 1, mp4a_Version = 0, mp4a_RevisionLevel = 0, mp4a_Vendor = 0,
         mp4a_NumberOfChannels = safeInt16Conversion (Count (ChannelLayout (ap_Config p))),
         mp4a_SampleSize = safeInt16Conversion (BytesPerSample FLTP * 8), mp4a_CompressionId = 0,
         mp4a_SampleRate = of_int (Aac.SampleRate (ap_Config p)),
         mp4a_Conf = Some \<lparr>esds_TrackId = ucast idx + 1, esds_MaxBitrate = 0, esds_AvgBitrate = 0,
           esds_DecConfig = ap_ConfigBytes p\<rparr>, mp4a_Unknowns = []\<rparr>\<rparr>
     | _ \<Rightarrow> d)"

definition fmp4_info :: "media_codec \<Rightarrow> MediaInfo \<Rightarrow> MediaInfo" where
  "fmp4_info c i = (case c of
       H264_par _ \<Rightarrow> i\<lparr>minf_Video := Some \<lparr>vmhd_Version = 0, vmhd_Flags = 0, vmhd_GraphicsMode = 0, vmhd_Opcolor = [0, 0, 0]\<rparr>\<rparr>
     | H265_par _ \<Rightarrow> i\<lparr>minf_Video := Some \<lparr>vmhd_Version = 0, vmhd_Flags = 0, vmhd_GraphicsMode = 0, vmhd_Opcolor = [0, 0, 0]\<rparr>\<rparr>
     | AAC_par _ \<Rightarrow> i\<lparr>minf_Sound := Some \<lparr>smhd_Version = 0, smhd_Flags = 0, smhd_Balance = 0\<rparr>\<rparr>
     | _ \<Rightarrow> i)"

definition fmp4_fillTrackAtom :: "frag_stream \<Rightarrow> frag_stream" where
  "fmp4_fillTrackAtom s = s\<lparr>
     ff_sample := (ff_sample s)\<lparr>stbl_SampleDesc := map_option (fmp4_describe (ff_codec s) (ff_index s)) (stbl_SampleDesc (ff_sample s))\<rparr>,
     ff_trackAtom := (ff_trackAtom s)\<lparr>trak_Media := map_option (\<lambda>md. md\<lparr>
         mdia_Header := map_option (\<lambda>h. h\<lparr>mdhd_TimeScale := safeInt32Conversion (ff_timeScale s),
           mdhd_Duration := word_of_int (fmp4_timeToTS (ff_timeScale s) (ff_duration s))\<rparr>) (mdia_Header md),
         mdia_Info := map_option (fmp4_info (ff_codec s)) (mdia_Info md)\<rparr>) (trak_Media (ff_trackAtom s))\<rparr>\<rparr>"

definition fmp4_with_table :: "frag_stream \<Rightarrow> Track" where
  "fmp4_with_table s = (ff_trackAtom s)\<lparr>trak_Media := map_option (\<lambda>md. md\<lparr>mdia_Info :=
     map_option (\<lambda>i. i\<lparr>minf_Sample := Some (ff_sample s)\<rparr>) (mdia_Info md)\<rparr>) (trak_Media (ff_trackAtom s))\<rparr>"

definition fmp4_trex :: "nat \<Rightarrow> TrackExtend" where
  "fmp4_trex i = \<lparr>trex_Version = 0, trex_Flags = 0, trex_TrackId = safeUint32Conversion (int i + 1),
     trex_DefaultSampleDescIdx = 1, trex_DefaultSampleDuration = 0, trex_DefaultSampleSize = 0, trex_DefaultSampleFlags = 0\<rparr>"

definition fmp4_movie :: "time \<Rightarrow> frag_stream list \<Rightarrow> Movie" where
  "fmp4_movie now ss = \<lparr>
     moov_Header = Some ((NewMovieHeader now)\<lparr>mvhd_NextTrackID := safeInt32Conversion (int (length ss) + 1)\<rparr>),
     moov_Tracks = map fmp4_with_table ss,
     moov_MovieExtend = Some \<lparr>mvex_Tracks = map fmp4_trex [0..<length ss], mvex_Unknowns = []\<rparr>,
     moov_Unknowns = []\<rparr>"

definition dash_brands :: FileType where
  "dash_brands = NewFileType\<lparr>CompatibleBrands := (CompatibleBrands NewFileType)[3 := 0x64617368]\<rparr>"

definition GetInit :: "time \<Rightarrow> fmuxer \<Rightarrow> bytes res \<times> fmuxer" where
  "GetInit now m = (let ss = map fmp4_fillTrackAtom (fm_strs m); mv = fmp4_movie now ss;
       buf = buffer_Data (buffer_Get (Movie_Len mv + FileType_Len dash_brands))
     in (ebind (FileType_Marshal dash_brands (buf, 0)) (\<lambda>(b, _).
         ebind (Movie_Marshal mv (b, FileType_Len dash_brands)) (\<lambda>(b, _). Inr b)),
       m\<lparr>fm_strs := ss\<rparr>))"

section \<open>Fragments\<close>

definition sample_flags :: "media_packet \<Rightarrow> 32 word" where
  "sample_flags p = (if mk_video p \<and> \<not> mk_key p then SampleNonKeyframe else SampleNoDependencies)"

definition in_uint32 :: "int \<Rightarrow> bool" where
  "in_uint32 v \<longleftrightarrow> 0 \<le> v \<and> v \<le> 2 ^ 32 - 1"

text \<open>\<open>processTrackHeader\<close> and \<open>processPackets\<close> on the tfhd and the trun of a track.\<close>

definition processTrackHeader :: "frag_stream \<Rightarrow> TrackFragHeader \<times> TrackFragRun \<Rightarrow> TrackFragHeader \<times> TrackFragRun" where
  "processTrackHeader s = (\<lambda>(h, r). case ff_packets s of [] \<Rightarrow> (h, r) | p # ps \<Rightarrow>
     let dur = fmp4_timeToTS (ff_timeScale s) (mk_dur p); len = int (length (mk_data p));
         firstFlags = sample_flags p;
         dflt = (case ps of q # _ \<Rightarrow> sample_flags q | [] \<Rightarrow> firstFlags)
     in (h\<lparr>tfhd_DefaultDuration := (if in_uint32 dur then word_of_int dur else 0),
           tfhd_DefaultSize := (if in_uint32 len then word_of_int len else 0),
           tfhd_DefaultFlags := dflt\<rparr>,
         r\<lparr>trun_Flags := trun_Flags r OR (if firstFlags \<noteq> dflt then TRUNFirstSampleFlags else 0)\<rparr>))"

definition process_packet :: "int \<Rightarrow> TrackFragHeader \<Rightarrow> nat \<times> media_packet \<Rightarrow> TrackFragRun \<Rightarrow> TrackFragRun" where
  "process_packet timeScale h = (\<lambda>(j, p) r.
     let len = int (length (mk_data p)); dur = fmp4_timeToTS timeScale (mk_dur p); fl = sample_flags p;
         f = trun_Flags r;
         f = (if len \<noteq> uint (tfhd_DefaultSize h) then f OR TRUNSampleSize else f);
         f = (if in_uint32 dur \<and> word_of_int dur \<noteq> tfhd_DefaultDuration h then f OR TRUNSampleDuration else f);
         f = (if j \<noteq> 0 \<and> fl \<noteq> tfhd_DefaultFlags h then f OR TRUNSampleFlags else f)
     in r\<lparr>trun_Flags := f, trun_Entries := trun_Entries r @
          [\<lparr>entry_Duration = (if in_uint32 dur then word_of_int dur else 0),
            entry_Size = (if in_uint32 len then word_of_int len else 0), entry_Flags = fl, entry_Cts = 0\<rparr>]\<rparr>)"

definition processPackets :: "frag_stream \<Rightarrow> TrackFragHeader \<times> TrackFragRun \<Rightarrow> TrackFragHeader \<times> TrackFragRun" where
  "processPackets s = (\<lambda>(h, r). (h, fold (process_packet (ff_timeScale s) h) (zip [0..<length (ff_packets s)] (ff_packets s)) r))"

definition new_tfhd :: "frag_stream \<Rightarrow> TrackFragHeader" where
  "new_tfhd s = \<lparr>tfhd_Version = 0,
     tfhd_Flags = TFHDDefaultDuration OR TFHDDefaultSize OR TFHDDefaultFlags OR TFHDDefaultBaseIsMOOF,
     tfhd_TrackID = safeUint32Conversion (int (unat (ff_index s)) + 1), tfhd_BaseDataOffset = 0, tfhd_StsdID = 0,
     tfhd_DefaultDuration = 0, tfhd_DefaultSize = 0, tfhd_DefaultFlags = 0\<rparr>"

definition decode_time :: "frag_stream \<Rightarrow> 64 word" where
  "decode_time s = (let t = fmp4_timeToTS (ff_timeScale s) (ff_firstPacketTime s) in if t < 0 then 0 else word_of_int t)"

definition new_trun :: "frag_stream \<Rightarrow> TrackFragRun" where
  "new_trun s = \<lparr>trun_Version = 0, trun_Flags = TRUNDataOffset, trun_DataOffset = 0,
     trun_FirstSampleFlags = (case ff_packets s of [] \<Rightarrow> SampleNoDependencies | p # _ \<Rightarrow> sample_flags p),
     trun_Entries = []\<rparr>"

definition track_frag :: "frag_stream \<Rightarrow> TrackFrag" where
  "track_frag s = (case processPackets s (processTrackHeader s (new_tfhd s, new_trun s)) of (h, r) \<Rightarrow>
     \<lparr>traf_Header = Some h, traf_DecodeTime = Some \<lparr>tfdt_Version = 1, tfdt_Flags = 0, tfdt_Time = decode_time s\<rparr>,
      traf_Run = Some r, traf_Unknowns = []\<rparr>)"

definition movie_frag :: "int \<Rightarrow> frag_stream list \<Rightarrow> MovieFrag" where
  "movie_frag idx ss = \<lparr>moof_Header = Some \<lparr>mfhd_Version = 0, mfhd_Flags = 0, mfhd_Seqnum = safeUint32Conversion idx\<rparr>,
     moof_Tracks = map track_frag ss, moof_Unknowns = []\<rparr>"

text \<open>\<open>n += copy(out[n:], data)\<close>\<close>

definition copy_data :: "bytes \<Rightarrow> wr" where
  "copy_data xs = (\<lambda>(b, n). if length b < n then Inl Panic
     else Inr (put_at b n (take (length b - n) xs), n + min (length b - n) (length xs)))"

definition set_data_offset :: "nat \<Rightarrow> TrackFrag \<Rightarrow> TrackFrag" where
  "set_data_offset off t = t\<lparr>traf_Run := map_option (\<lambda>r. r\<lparr>trun_DataOffset := safeUint32Conversion (int off)\<rparr>) (traf_Run t)\<rparr>"

fun processDataOffsets :: "nat \<Rightarrow> frag_stream list \<Rightarrow> TrackFrag list \<Rightarrow> bytes \<times> nat \<Rightarrow> (TrackFrag list \<times> bytes \<times> nat) res" where
  "processDataOffsets start (s # ss) (t # ts) (b, n) =
     ebind (wr_each copy_data (map mk_data (ff_packets s)) (b, n)) (\<lambda>bn.
     ebind (processDataOffsets start ss ts bn) (\<lambda>(ts', bn'). Inr (set_data_offset (n - start) t # ts', bn')))"
| "processDataOffsets start ss ts bn = Inr (ts, bn)"

definition fragment_bytes :: "int \<Rightarrow> frag_stream list \<Rightarrow> bytes res" where
  "fragment_bytes idx ss = (let moof = movie_frag idx ss; total = sum_list (map ff_bufSize ss);
       buf = buffer_Data (buffer_Get (MovieFrag_Len moof + SegmentType_Len NewSegmentType + 8 + total)) in
     ebind (SegmentType_Marshal NewSegmentType (buf, 0)) (\<lambda>(b, startMOOF).
     let mdatStart = startMOOF + MovieFrag_Len moof in
     ebind (wr_put (be32 MDAT) (b, mdatStart + 4)) (\<lambda>(b, n).
     ebind (processDataOffsets startMOOF ss (moof_Tracks moof) (b, n)) (\<lambda>(ts, b, n).
     ebind (MovieFrag_Marshal (moof\<lparr>moof_Tracks := ts\<rparr>) (b, startMOOF)) (\<lambda>(b, _).
     ebind (wr_put (be32 (safeUint32Conversion (int (n - mdatStart)))) (b, mdatStart)) (\<lambda>(b, _). Inr b))))))"

definition GetMP4Fragment :: "int \<Rightarrow> fmuxer \<Rightarrow> bytes res \<times> fmuxer" where
  "GetMP4Fragment idx m = (fragment_bytes idx (fm_strs m), processMuxer m)"

end
