(* ===== verification/Fmp4Spec.thy ===== *)
theory Fmp4Spec
  imports Fmp4
begin

text \<open>
  What a fragment of \<open>format/fmp4\<close> says of its samples, read the way ISO 14496-12 defines the defaults
  of a track fragment, and the proof that it is what was written.
\<close>

section \<open>The bytes of a fragment\<close>

definition data_of :: "frag_stream \<Rightarrow> bytes" where
  "data_of s = concat (map mk_data (ff_packets s))"

definition all_data :: "frag_stream list \<Rightarrow> bytes" where
  "all_data ss = concat (map data_of ss)"

definition counted :: "frag_stream \<Rightarrow> bool" where
  "counted s \<longleftrightarrow> ff_bufSize s = length (data_of s)"

fun with_offsets :: "nat \<Rightarrow> frag_stream list \<Rightarrow> TrackFrag list" where
  "with_offsets off [] = []"
| "with_offsets off (s # ss) = set_data_offset off (track_frag s) # with_offsets (off + length (data_of s)) ss"

definition final_frag :: "int \<Rightarrow> frag_stream list \<Rightarrow> MovieFrag" where
  "final_frag idx ss = (movie_frag idx ss)\<lparr>moof_Tracks := with_offsets (MovieFrag_Len (movie_frag idx ss) + 8) ss\<rparr>"

lemma writes_copy_data: "writes (copy_data xs) xs"
  by (simp add: writes_def copy_data_def)

lemma data_offsets:
  assumes "n + length (all_data ss) \<le> length b" "zero_from n b" "start \<le> n"
  shows "processDataOffsets start ss (map track_frag ss) (b, n) =
    Inr (with_offsets (n - start) ss, put_at b n (all_data ss), n + length (all_data ss))"
  using assms
proof (induction ss arbitrary: b n)
  case Nil
  then show ?case by (simp add: all_data_def put_at_def)
next
  case (Cons s ss)
  let ?d = "data_of s"
  have len: "n + length ?d + length (all_data ss) \<le> length b" using Cons.prems(1) by (simp add: all_data_def)
  have "writes (wr_each copy_data (map mk_data (ff_packets s))) ?d"
    using writes_each [of "map mk_data (ff_packets s)" copy_data "\<lambda>x. x"] by (simp add: data_of_def writes_copy_data)
  then have "wr_each copy_data (map mk_data (ff_packets s)) (b, n) = Inr (put_at b n ?d, n + length ?d)"
    using len Cons.prems(2) by (intro writesD) auto
  moreover have "zero_from (n + length ?d) (put_at b n ?d)" using len Cons.prems(2) by (intro zero_from_put_at) auto
  then have "processDataOffsets start ss (map track_frag ss) (put_at b n ?d, n + length ?d) =
      Inr (with_offsets (n + length ?d - start) ss, put_at (put_at b n ?d) (n + length ?d) (all_data ss),
        n + length ?d + length (all_data ss))"
    using len Cons.prems(3) by (intro Cons.IH) auto
  ultimately show ?case
    using len Cons.prems(3) by (simp add: put_at_put_at all_data_def add.assoc)
qed

lemma length_with_offsets [simp]: "length (with_offsets off ss) = length ss"
  by (induction ss arbitrary: off) simp_all

lemma set_data_offset_Len: "TrackFrag_Len (set_data_offset off t) = TrackFrag_Len t"
  by (cases "traf_Run t") (simp_all add: TrackFrag_Len_def set_data_offset_def TrackFragRun_Len_def opt_len_def)

lemma with_offsets_Len: "map TrackFrag_Len (with_offsets off ss) = map TrackFrag_Len (map track_frag ss)"
  by (induction ss arbitrary: off) (simp_all add: set_data_offset_Len)

lemma final_frag_Len: "MovieFrag_Len (final_frag idx ss) = MovieFrag_Len (movie_frag idx ss)"
  using with_offsets_Len [of "MovieFrag_Len (movie_frag idx ss) + 8" ss]
  by (simp add: MovieFrag_Len_def final_frag_def) (simp add: movie_frag_def)

lemma fragment_bytes_layout:
  assumes "\<forall>s\<in>set ss. counted s"
  shows "fragment_bytes idx ss = Inr (styp_layout NewSegmentType @ moof_layout (final_frag idx ss) @
    be32 (safeUint32Conversion (int (8 + length (all_data ss)))) @ be32 MDAT @ all_data ss)"
proof -
  define moof where "moof = movie_frag idx ss"
  define k where "k = MovieFrag_Len moof"
  define d where "d = all_data ss"
  define x where "x = styp_layout NewSegmentType"
  have x: "length x = 32" by (simp add: x_def styp_layout_def NewSegmentType_def)
  have total: "sum_list (map ff_bufSize ss) = length d"
    using assms unfolding d_def by (induction ss) (simp_all add: all_data_def counted_def)
  define buf :: bytes where "buf = replicate (k + 32 + 8 + length d) 0"
  have buf: "buffer_Data (buffer_Get (k + SegmentType_Len NewSegmentType + 8 + length d)) = buf"
    by (simp add: buffer_Data_def buffer_Get_def buf_def SegmentType_Len_def NewSegmentType_def)
  have zb: "zero_from n buf" for n by (simp add: zero_from_def buf_def)
  have "SegmentType_Marshal NewSegmentType (buf, 0) = Inr (put_at buf 0 x, 0 + length x)"
    unfolding x_def by (rule writesD [OF styp.marshal_writes [OF TrueI] _ zb]) (simp add: x [unfolded x_def] buf_def)
  then have s1: "SegmentType_Marshal NewSegmentType (buf, 0) = Inr (put_at buf 0 x, 32)" by (simp add: x)
  have sz: "32 + k + 8 + length d - (32 + k) = 8 + length d" by simp
  define b2 where "b2 = x @ replicate (k + 4) 0 @ be32 MDAT @ replicate (length d) 0"
  have s2: "wr_put (be32 MDAT) (put_at buf 0 x, 32 + k + 4) = Inr (b2, 32 + k + 8)"
    by (simp add: wr_put_def x buf_def b2_def put_at_def)
  have "zero_from (32 + k + 8) b2" by (auto simp: zero_from_def b2_def x nth_append)
  then have s3: "processDataOffsets 32 ss (map track_frag ss) (b2, 32 + k + 8) =
      Inr (with_offsets (k + 8) ss, put_at b2 (32 + k + 8) d, 32 + k + 8 + length d)"
    using data_offsets [of "32 + k + 8" ss b2 32] by (simp add: b2_def x d_def add.commute [of 8 k])
  define b3 where "b3 = x @ replicate (k + 4) 0 @ be32 MDAT @ d"
  have b3: "put_at b2 (32 + k + 8) d = b3" by (simp add: put_at_def b2_def b3_def x)
  define y where "y = moof_layout (final_frag idx ss)"
  have y: "length y = k"
    using moof.Len_layout [OF TrueI, of "final_frag idx ss"] by (simp add: y_def final_frag_Len k_def moof_def)
  have tr: "moof\<lparr>moof_Tracks := with_offsets (k + 8) ss\<rparr> = final_frag idx ss"
    by (simp add: final_frag_def k_def moof_def)
  have "zero_on 32 (length y) b3" by (auto simp: zero_on_def b3_def x y nth_append)
  then have s4: "MovieFrag_Marshal (final_frag idx ss) (b3, 32) = Inr (put_at b3 32 y, 32 + length y)"
    unfolding y_def by (rule writes_onD [OF moof.marshal_writes [OF TrueI], rotated]) (simp add: b3_def x y [unfolded y_def])
  have s5: "wr_put (be32 v) (put_at b3 32 y, 32 + k) = Inr (x @ y @ be32 v @ be32 MDAT @ d, 32 + k + 4)" for v
    by (simp add: wr_put_def b3_def put_at_def x y)
  have tracks: "moof_Tracks moof = map track_frag ss" by (simp add: moof_def movie_frag_def)
  have "fragment_bytes idx ss = Inr (x @ y @ be32 (safeUint32Conversion (int (8 + length d))) @ be32 MDAT @ d)"
    unfolding fragment_bytes_def Let_def moof_def [symmetric] k_def [symmetric] total buf
    by (simp only: s1 ebind.simps prod.case s2 tracks s3 b3 tr s4 y s5 sz)
  then show ?thesis by (simp add: x_def y_def d_def)
qed

section \<open>What a reader takes a sample to be\<close>

definition eff_size :: "TrackFragHeader \<Rightarrow> TrackFragRun \<Rightarrow> nat \<Rightarrow> 32 word" where
  "eff_size h r k = (if has (trun_Flags r) TRUNSampleSize then entry_Size (trun_Entries r ! k) else tfhd_DefaultSize h)"

definition eff_duration :: "TrackFragHeader \<Rightarrow> TrackFragRun \<Rightarrow> nat \<Rightarrow> 32 word" where
  "eff_duration h r k = (if has (trun_Flags r) TRUNSampleDuration then entry_Duration (trun_Entries r ! k)
     else tfhd_DefaultDuration h)"

definition eff_flags :: "TrackFragHeader \<Rightarrow> TrackFragRun \<Rightarrow> nat \<Rightarrow> 32 word" where
  "eff_flags h r k = (if k = 0 \<and> has (trun_Flags r) TRUNFirstSampleFlags then trun_FirstSampleFlags r
     else if has (trun_Flags r) TRUNSampleFlags then entry_Flags (trun_Entries r ! k)
     else tfhd_DefaultFlags h)"

lemma has_or: "has (a OR b) c \<longleftrightarrow> has a c \<or> has b c"
proof -
  have "(a OR b) AND c = (a AND c) OR (b AND c)" by (simp add: bit_eq_iff bit_simps) blast
  then show ?thesis by (simp add: has_def or_eq_0_iff)
qed

lemma has_if: "has (if c then a else 0) x \<longleftrightarrow> c \<and> has a x"
  by (simp add: has_def)

definition entry_of :: "int \<Rightarrow> media_packet \<Rightarrow> TrackFragRunEntry" where
  "entry_of timeScale p = (let len = int (length (mk_data p)); dur = fmp4_timeToTS timeScale (mk_dur p)
     in \<lparr>entry_Duration = (if in_uint32 dur then word_of_int dur else 0),
         entry_Size = (if in_uint32 len then word_of_int len else 0), entry_Flags = sample_flags p, entry_Cts = 0\<rparr>)"

lemma trun_bits:
  "has TRUNDataOffset TRUNSampleSize = False" "has TRUNDataOffset TRUNSampleDuration = False"
  "has TRUNDataOffset TRUNSampleFlags = False" "has TRUNDataOffset TRUNFirstSampleFlags = False"
  "has TRUNDataOffset TRUNDataOffset = True" "has TRUNFirstSampleFlags TRUNFirstSampleFlags = True"
  "has TRUNFirstSampleFlags TRUNSampleSize = False" "has TRUNFirstSampleFlags TRUNSampleDuration = False"
  "has TRUNFirstSampleFlags TRUNSampleFlags = False"
  "has TRUNSampleSize TRUNSampleSize = True" "has TRUNSampleSize TRUNSampleDuration = False"
  "has TRUNSampleSize TRUNSampleFlags = False" "has TRUNSampleSize TRUNFirstSampleFlags = False"
  "has TRUNSampleDuration TRUNSampleSize = False" "has TRUNSampleDuration TRUNSampleDuration = True"
  "has TRUNSampleDuration TRUNSampleFlags = False" "has TRUNSampleDuration TRUNFirstSampleFlags = False"
  "has TRUNSampleFlags TRUNSampleSize = False" "has TRUNSampleFlags TRUNSampleDuration = False"
  "has TRUNSampleFlags TRUNSampleFlags = True" "has TRUNSampleFlags TRUNFirstSampleFlags = False"
  by (simp_all add: has_def TRUNDataOffset_def TRUNFirstSampleFlags_def TRUNSampleSize_def TRUNSampleDuration_def
      TRUNSampleFlags_def)

lemma process_run:
  "let r' = fold (process_packet ts h) jps r in
    trun_Entries r' = trun_Entries r @ map (\<lambda>x. entry_of ts (snd x)) jps \<and>
    trun_FirstSampleFlags r' = trun_FirstSampleFlags r \<and> trun_DataOffset r' = trun_DataOffset r \<and>
    (has (trun_Flags r') TRUNFirstSampleFlags \<longleftrightarrow> has (trun_Flags r) TRUNFirstSampleFlags) \<and>
    (has (trun_Flags r') TRUNSampleSize \<longleftrightarrow> has (trun_Flags r) TRUNSampleSize \<or>
       (\<exists>x\<in>set jps. int (length (mk_data (snd x))) \<noteq> uint (tfhd_DefaultSize h))) \<and>
    (has (trun_Flags r') TRUNSampleDuration \<longleftrightarrow> has (trun_Flags r) TRUNSampleDuration \<or>
       (\<exists>x\<in>set jps. in_uint32 (fmp4_timeToTS ts (mk_dur (snd x))) \<and>
          word_of_int (fmp4_timeToTS ts (mk_dur (snd x))) \<noteq> tfhd_DefaultDuration h)) \<and>
    (has (trun_Flags r') TRUNSampleFlags \<longleftrightarrow> has (trun_Flags r) TRUNSampleFlags \<or>
       (\<exists>x\<in>set jps. fst x \<noteq> 0 \<and> sample_flags (snd x) \<noteq> tfhd_DefaultFlags h))"
proof (induction jps arbitrary: r)
  case Nil
  then show ?case by (simp add: Let_def)
next
  case (Cons x jps)
  obtain j p where x: "x = (j, p)" by (cases x)
  show ?case
    using Cons.IH [of "process_packet ts h (j, p) r"]
    by (simp add: x Let_def process_packet_def has_or trun_bits entry_of_def split del: if_split)
      (auto simp: has_or trun_bits)
qed


section \<open>Runs\<close>

text \<open>The packets \<open>ps\<close> written one after the other; an error ends the run.\<close>

definition write_packets :: "media_packet list \<Rightarrow> fmuxer \<Rightarrow> fmuxer res" where
  "write_packets ps m = foldl (\<lambda>r p. ebind r (Fmp4_WritePacket p)) (Inr m) ps"

definition of_stream :: "nat \<Rightarrow> media_packet list \<Rightarrow> media_packet list" where
  "of_stream i = filter (\<lambda>p. unat (mk_stream p) = i)"

lemma counted_write: "counted s \<Longrightarrow> counted (stream_writePacket p s)"
  by (simp add: counted_def stream_writePacket_def data_of_def)

lemma write_packets_ok:
  assumes "\<forall>p\<in>set ps. unat (mk_stream p) < length (fm_strs m)" "\<forall>s\<in>set (fm_strs m). counted s"
  shows "\<exists>m'. write_packets ps m = Inr m' \<and> length (fm_strs m') = length (fm_strs m) \<and>
    (\<forall>s\<in>set (fm_strs m'). counted s) \<and>
    (\<forall>i<length (fm_strs m). ff_packets (fm_strs m' ! i) = ff_packets (fm_strs m ! i) @ of_stream i ps \<and>
       ff_timeScale (fm_strs m' ! i) = ff_timeScale (fm_strs m ! i))"
  using assms
proof (induction ps arbitrary: m)
  case Nil
  then show ?case by (simp add: write_packets_def of_stream_def)
next
  case (Cons p ps)
  let ?i = "unat (mk_stream p)"
  let ?m = "m\<lparr>fm_strs := (fm_strs m)[?i := stream_writePacket p (fm_strs m ! ?i)]\<rparr>"
  have i: "?i < length (fm_strs m)" using Cons.prems(1) by simp
  have w: "Fmp4_WritePacket p m = Inr ?m" using i by (simp add: Fmp4_WritePacket_def Let_def)
  have "\<forall>s\<in>set (fm_strs ?m). counted s"
    using Cons.prems(2) i counted_write by (auto dest!: set_update_subset_insert [THEN subsetD])
  from Cons.IH [OF _ this] Cons.prems(1) obtain m' where
    m': "write_packets ps ?m = Inr m'" "length (fm_strs m') = length (fm_strs ?m)" "\<forall>s\<in>set (fm_strs m'). counted s"
    "\<forall>i<length (fm_strs ?m). ff_packets (fm_strs m' ! i) = ff_packets (fm_strs ?m ! i) @ of_stream i ps \<and>
       ff_timeScale (fm_strs m' ! i) = ff_timeScale (fm_strs ?m ! i)" by auto
  have "write_packets (p # ps) m = Inr m'" using m'(1) w by (simp add: write_packets_def)
  then show ?case
    using m'(2-4) i by (intro exI [of _ m']) (auto simp: stream_writePacket_def of_stream_def nth_list_update)
qed

lemma new_streams_fields:
  assumes "fmp4_stream_opt c m = Inr m'" "\<forall>s\<in>set (fm_strs m). counted s \<and> ff_packets s = []"
  shows "\<forall>s\<in>set (fm_strs m'). counted s \<and> ff_packets s = []"
  using assms
  by (auto simp: fmp4_stream_opt_def fmp4_newStream_def Let_def counted_def data_of_def split: option.splits if_splits)

lemma Mux_streams_empty:
  assumes "Fmp4_Mux v a NewFmuxer = Inr m"
  shows "\<forall>s\<in>set (fm_strs m). counted s \<and> ff_packets s = []"
proof -
  from assms obtain m1 where m1: "fmp4_stream_opt v (NewFmuxer\<lparr>fm_video := v, fm_audio := a\<rparr>) = Inr m1"
    and m: "fmp4_stream_opt a m1 = Inr m" by (auto simp: Fmp4_Mux_def ebind_Inr_iff)
  have "\<forall>s\<in>set (fm_strs m1). counted s \<and> ff_packets s = []" by (rule new_streams_fields [OF m1]) (simp add: NewFmuxer_def)
  from new_streams_fields [OF m this] show ?thesis .
qed

section \<open>Where the samples of a track are\<close>

lemma with_offsets_nth:
  "i < length ss \<Longrightarrow> with_offsets off ss ! i = set_data_offset (off + length (all_data (take i ss))) (track_frag (ss ! i))"
proof (induction ss arbitrary: off i)
  case (Cons s ss)
  then show ?case by (cases i) (simp_all add: all_data_def add.assoc)
qed simp

lemma sub_all_data:
  assumes "i < length ss"
  shows "sub (all_data ss) (length (all_data (take i ss))) (length (all_data (take i ss)) + length (data_of (ss ! i))) = data_of (ss ! i)"
proof -
  have "all_data ss = all_data (take i ss) @ data_of (ss ! i) @ all_data (drop (Suc i) ss)"
    using id_take_nth_drop [OF assms] by (simp add: all_data_def) (metis concat.simps(2) concat_append list.simps(9) map_append)
  then show ?thesis by (simp add: sub_def)
qed

lemma concat_at:
  "k < length xs \<Longrightarrow> take (length (xs ! k)) (drop (sum_list (map length (take k xs))) (concat xs)) = xs ! k"
proof (induction xs arbitrary: k)
  case (Cons x xs)
  then show ?case by (cases k) simp_all
qed simp

lemma sum_take_upt: "k \<le> length xs \<Longrightarrow> sum_list (map length (take k xs)) = (\<Sum>j<k. length (xs ! j))"
proof (induction k)
  case (Suc k)
  then show ?case by (simp add: take_Suc_conv_app_nth)
qed simp

lemma data_at:
  assumes "k < length (ff_packets s)"
  shows "take (length (mk_data (ff_packets s ! k))) (drop (\<Sum>j<k. length (mk_data (ff_packets s ! j))) (data_of s)) =
    mk_data (ff_packets s ! k)"
proof -
  have "sum_list (map length (take k (map mk_data (ff_packets s)))) = (\<Sum>j<k. length (mk_data (ff_packets s ! j)))"
    using assms sum_take_upt [of k "map mk_data (ff_packets s)"] by simp
  with concat_at [of k "map mk_data (ff_packets s)"] assms show ?thesis by (simp add: data_of_def)
qed

text \<open>The tfhd and the trun of a track, against its packets.\<close>

lemma track_frag_reads:
  assumes small: "\<forall>p\<in>set (ff_packets s). length (mk_data p) < 2 ^ 32"
  obtains h r where "traf_Header (track_frag s) = Some h" "traf_Run (track_frag s) = Some r"
    "length (trun_Entries r) = length (ff_packets s)"
    "\<And>k. k < length (ff_packets s) \<Longrightarrow> unat (eff_size h r k) = length (mk_data (ff_packets s ! k))"
    "\<And>k. k < length (ff_packets s) \<Longrightarrow> eff_flags h r k = sample_flags (ff_packets s ! k)"
    "\<And>k. k < length (ff_packets s) \<Longrightarrow> in_uint32 (fmp4_timeToTS (ff_timeScale s) (mk_dur (ff_packets s ! k))) \<Longrightarrow>
       eff_duration h r k = word_of_int (fmp4_timeToTS (ff_timeScale s) (mk_dur (ff_packets s ! k)))"
proof -
  let ?ps = "ff_packets s" and ?ts = "ff_timeScale s"
  obtain h r0 where hr: "processTrackHeader s (new_tfhd s, new_trun s) = (h, r0)" by force
  define jps where "jps = zip [0..<length ?ps] ?ps"
  define r where "r = fold (process_packet ?ts h) jps r0"
  have tf: "traf_Header (track_frag s) = Some h" "traf_Run (track_frag s) = Some r"
    by (simp_all add: track_frag_def hr processPackets_def r_def jps_def)
  have r0: "trun_Entries r0 = []" "\<not> has (trun_Flags r0) TRUNSampleSize" "\<not> has (trun_Flags r0) TRUNSampleDuration"
      "\<not> has (trun_Flags r0) TRUNSampleFlags"
    using hr by (auto simp: processTrackHeader_def new_trun_def Let_def has_or has_if trun_bits split: list.splits)
  note pr = process_run [of ?ts h jps r0, unfolded Let_def r_def [symmetric], simplified r0]
  have jk: "(k, ?ps ! k) \<in> set jps" if "k < length ?ps" for k
    using that by (auto simp: jps_def in_set_zip intro!: exI [of _ k])
  have entries: "trun_Entries r = map (entry_of ?ts) ?ps"
  proof -
    have "map snd jps = ?ps" by (simp add: jps_def)
    moreover have "map (\<lambda>x. entry_of ?ts (snd x)) jps = map (entry_of ?ts) (map snd jps)" by simp
    ultimately show ?thesis using pr by simp
  qed
  have len: "int (length (mk_data (?ps ! k))) < 2 ^ 32" if "k < length ?ps" for k
    using small that nth_mem by fastforce
  have "unat (eff_size h r k) = length (mk_data (?ps ! k))" if k: "k < length ?ps" for k
  proof (cases "has (trun_Flags r) TRUNSampleSize")
    case True
    with k len [OF k] show ?thesis by (simp add: eff_size_def entries entry_of_def Let_def in_uint32_def unat_of_nat)
  next
    case False
    with pr jk [OF k] have "int (length (mk_data (?ps ! k))) = uint (tfhd_DefaultSize h)" by fastforce
    with False show ?thesis by (simp add: eff_size_def) (metis nat_int unat_eq_nat_uint)
  qed
  moreover have "eff_flags h r k = sample_flags (?ps ! k)" if k: "k < length ?ps" for k
  proof (cases "k = 0")
    case True
    then obtain p ps where p: "?ps = p # ps" using k by (cases ?ps) auto
    have "has (trun_Flags r) TRUNFirstSampleFlags \<longleftrightarrow> sample_flags p \<noteq> tfhd_DefaultFlags h"
      using pr hr by (auto simp: processTrackHeader_def p Let_def new_trun_def has_or has_if trun_bits split: list.splits)
    moreover have "trun_FirstSampleFlags r = sample_flags p"
      using pr hr by (auto simp: processTrackHeader_def p Let_def new_trun_def split: list.splits)
    ultimately show ?thesis using True p by (simp add: eff_flags_def entries entry_of_def Let_def)
  next
    case False
    show ?thesis
    proof (cases "has (trun_Flags r) TRUNSampleFlags")
      case True
      with False k show ?thesis by (simp add: eff_flags_def entries entry_of_def Let_def)
    next
      case nf: False
      with pr jk [OF k] False have "sample_flags (?ps ! k) = tfhd_DefaultFlags h" by fastforce
      with nf False show ?thesis by (simp add: eff_flags_def)
    qed
  qed
  moreover have "eff_duration h r k = word_of_int (fmp4_timeToTS ?ts (mk_dur (?ps ! k)))"
    if k: "k < length ?ps" "in_uint32 (fmp4_timeToTS ?ts (mk_dur (?ps ! k)))" for k
  proof (cases "has (trun_Flags r) TRUNSampleDuration")
    case True
    with k show ?thesis by (simp add: eff_duration_def entries entry_of_def Let_def)
  next
    case False
    with pr jk [OF k(1)] k(2) have "word_of_int (fmp4_timeToTS ?ts (mk_dur (?ps ! k))) = tfhd_DefaultDuration h" by fastforce
    with False show ?thesis by (simp add: eff_duration_def)
  qed
  moreover have "length (trun_Entries r) = length ?ps" by (simp add: entries)
  ultimately show ?thesis using that [OF tf] by blast
qed


section \<open>The fragment as a whole\<close>

text \<open>A track of a fragment finds the packets \<open>ps\<close> in the bytes from the moof on.\<close>

definition frag_located :: "bytes \<Rightarrow> TrackFrag \<Rightarrow> int \<Rightarrow> media_packet list \<Rightarrow> bool" where
  "frag_located b t timeScale ps \<longleftrightarrow> (\<exists>h r. traf_Header t = Some h \<and> traf_Run t = Some r \<and> length (trun_Entries r) = length ps \<and>
     (\<forall>k<length ps.
        take (unat (eff_size h r k)) (drop (unat (trun_DataOffset r) + (\<Sum>j<k. unat (eff_size h r j))) b) = mk_data (ps ! k) \<and>
        unat (eff_size h r k) = length (mk_data (ps ! k)) \<and> eff_flags h r k = sample_flags (ps ! k) \<and>
        (in_uint32 (fmp4_timeToTS timeScale (mk_dur (ps ! k))) \<longrightarrow>
           eff_duration h r k = word_of_int (fmp4_timeToTS timeScale (mk_dur (ps ! k))))))"

lemma eff_offset [simp]:
  "eff_size h (r\<lparr>trun_DataOffset := x\<rparr>) k = eff_size h r k" "eff_flags h (r\<lparr>trun_DataOffset := x\<rparr>) k = eff_flags h r k"
  "eff_duration h (r\<lparr>trun_DataOffset := x\<rparr>) k = eff_duration h r k"
  by (simp_all add: eff_size_def eff_flags_def eff_duration_def)

lemma take_drop_within: "n + m \<le> k \<Longrightarrow> take m (drop n (take k xs)) = take m (drop n xs)"
  by (simp add: drop_take min_def)

lemma track_located:
  assumes i: "i < length ss" and size: "MovieFrag_Len (movie_frag idx ss) + 8 + length (all_data ss) < 2 ^ 32"
    and b: "b = y @ be32 sz @ be32 MDAT @ all_data ss" and y: "length y = MovieFrag_Len (movie_frag idx ss)"
  shows "frag_located b (moof_Tracks (final_frag idx ss) ! i) (ff_timeScale (ss ! i)) (ff_packets (ss ! i))"
proof -
  let ?s = "ss ! i" and ?pre = "length (all_data (take i ss))"
  let ?off = "MovieFrag_Len (movie_frag idx ss) + 8 + ?pre"
  have all: "all_data ss = all_data (take i ss) @ data_of ?s @ all_data (drop (Suc i) ss)"
    using id_take_nth_drop [OF i] by (simp add: all_data_def) (metis concat.simps(2) concat_append list.simps(9) map_append)
  have "length (mk_data p) \<le> length (data_of ?s)" if "p \<in> set (ff_packets ?s)" for p
    using that by (auto simp: data_of_def length_concat o_def intro: member_le_sum_list)
  moreover have "length (data_of ?s) < 2 ^ 32" using size unfolding all by simp
  ultimately have "\<forall>p\<in>set (ff_packets ?s). length (mk_data p) < 2 ^ 32" using le_less_trans by blast
  then obtain h r where t: "traf_Header (track_frag ?s) = Some h" "traf_Run (track_frag ?s) = Some r"
    and n: "length (trun_Entries r) = length (ff_packets ?s)"
    and es: "\<And>k. k < length (ff_packets ?s) \<Longrightarrow> unat (eff_size h r k) = length (mk_data (ff_packets ?s ! k))"
    and ef: "\<And>k. k < length (ff_packets ?s) \<Longrightarrow> eff_flags h r k = sample_flags (ff_packets ?s ! k)"
    and ed: "\<And>k. k < length (ff_packets ?s) \<Longrightarrow> in_uint32 (fmp4_timeToTS (ff_timeScale ?s) (mk_dur (ff_packets ?s ! k))) \<Longrightarrow>
       eff_duration h r k = word_of_int (fmp4_timeToTS (ff_timeScale ?s) (mk_dur (ff_packets ?s ! k)))"
    by (rule track_frag_reads) blast
  let ?r = "r\<lparr>trun_DataOffset := safeUint32Conversion (int ?off)\<rparr>"
  have off: "unat (trun_DataOffset ?r) = ?off"
    using size by (simp add: safeUint32Conversion_def all unat_of_nat del: of_nat_add)
  have tr: "moof_Tracks (final_frag idx ss) ! i = set_data_offset ?off (track_frag ?s)"
    using i by (simp add: final_frag_def with_offsets_nth)
  have dropb: "drop ?off b = data_of ?s @ all_data (drop (Suc i) ss)" by (simp add: b y all)
  have at: "take (unat (eff_size h r k)) (drop (?off + (\<Sum>j<k. unat (eff_size h r j))) b) = mk_data (ff_packets ?s ! k)"
    if k: "k < length (ff_packets ?s)" for k
  proof -
    let ?n = "\<Sum>j<k. length (mk_data (ff_packets ?s ! j))"
    have sum: "(\<Sum>j<k. unat (eff_size h r j)) = ?n" using k es by (intro sum.cong) auto
    have d: "take (length (mk_data (ff_packets ?s ! k))) (drop ?n (data_of ?s)) = mk_data (ff_packets ?s ! k)" by (rule data_at [OF k])
    have "min (length (data_of ?s) - ?n) (length (mk_data (ff_packets ?s ! k))) = length (mk_data (ff_packets ?s ! k))"
      using arg_cong [OF d, of length] by (simp del: length_sub)
    then have "length (mk_data (ff_packets ?s ! k)) \<le> length (data_of ?s) - ?n" by linarith
    then have "take (length (mk_data (ff_packets ?s ! k))) (drop ?n (data_of ?s @ all_data (drop (Suc i) ss))) =
        take (length (mk_data (ff_packets ?s ! k))) (drop ?n (data_of ?s))"
      by (cases "?n \<le> length (data_of ?s)") simp_all
    with d show ?thesis
      unfolding sum es [OF k] dropb [symmetric] by (simp add: add.commute)
  qed
  show ?thesis
    unfolding frag_located_def tr
    by (intro exI [of _ h] exI [of _ ?r]) (use t n at off es ef ed in \<open>simp add: set_data_offset_def\<close>)
qed

text \<open>C19: a fragment of at most 4 GB is the styp box, the moof box and one mdat box with the packets of the
  first stream, then those of the second.  A reader that applies the defaults of each track fragment
  finds, in the order they were written, the bytes of every packet of every stream, the flag that
  tells key frames from others, and the rounded duration, whenever that fits its 32 bits.\<close>

theorem fmp4_fragment_located:
  assumes "Fmp4_Mux v a NewFmuxer = Inr m0" "\<forall>p\<in>set ps. unat (mk_stream p) < length (fm_strs m0)"
    and "write_packets ps m0 = Inr m"
    and "MovieFrag_Len (movie_frag idx (fm_strs m)) + 8 + length (all_data (fm_strs m)) < 2 ^ 32"
  shows "\<exists>moof y b. fst (GetMP4Fragment idx m) = Inr (styp_layout NewSegmentType @ b) \<and>
    marshal_fresh (MovieFrag_Len moof) (MovieFrag_Marshal moof) = Inr y \<and>
    b = y @ be32 (word_of_nat (8 + length (all_data (fm_strs m)))) @ be32 MDAT @ all_data (fm_strs m) \<and>
    length (moof_Tracks moof) = length (fm_strs m0) \<and>
    (\<forall>i<length (fm_strs m0). frag_located b (moof_Tracks moof ! i) (ff_timeScale (fm_strs m0 ! i)) (of_stream i ps))"
proof -
  from write_packets_ok [OF assms(2)] Mux_streams_empty [OF assms(1)] assms(3) have
    m: "length (fm_strs m) = length (fm_strs m0)" "\<forall>s\<in>set (fm_strs m). counted s"
    "\<And>i. i < length (fm_strs m0) \<Longrightarrow> ff_packets (fm_strs m ! i) = of_stream i ps \<and> ff_timeScale (fm_strs m ! i) = ff_timeScale (fm_strs m0 ! i)"
    by auto
  let ?moof = "final_frag idx (fm_strs m)" and ?n = "8 + length (all_data (fm_strs m))"
  let ?b = "moof_layout ?moof @ be32 (word_of_nat ?n) @ be32 MDAT @ all_data (fm_strs m)"
  have "safeUint32Conversion (int ?n) = word_of_nat ?n"
    using assms(4) by (simp add: safeUint32Conversion_def of_int_of_nat_eq)
  then have "fst (GetMP4Fragment idx m) = Inr (styp_layout NewSegmentType @ ?b)"
    using fragment_bytes_layout [OF m(2), of idx] by (simp only: GetMP4Fragment_def fst_conv)
  moreover have "marshal_fresh (MovieFrag_Len ?moof) (MovieFrag_Marshal ?moof) = Inr (moof_layout ?moof)"
    by (rule moof.marshal_exact) simp
  moreover have "length (moof_Tracks ?moof) = length (fm_strs m0)" by (simp add: final_frag_def m(1))
  moreover have "frag_located ?b (moof_Tracks ?moof ! i) (ff_timeScale (fm_strs m0 ! i)) (of_stream i ps)"
    if i: "i < length (fm_strs m0)" for i
  proof -
    have "length (moof_layout ?moof) = MovieFrag_Len (movie_frag idx (fm_strs m))"
      using moof.Len_layout [OF TrueI, of ?moof] by (simp add: final_frag_Len)
    from track_located [OF _ assms(4) refl this, of i] i m(1) m(3) [OF i] show ?thesis by simp
  qed
  ultimately show ?thesis by blast
qed

section \<open>Time stamps\<close>

text \<open>With a time scale of at most a nanosecond no product and no sum of \<open>timeToTS\<close> leaves 64 bits.\<close>

lemma fmp4_timeToTS_ticks:
  assumes tm: "0 \<le> tm" "tm < 2 ^ 63" and ts: "0 \<le> timeScale" "timeScale \<le> second"
  shows "fmp4_timeToTS timeScale tm = tm div second * timeScale + (tm mod second * timeScale + second div 2) div second"
proof -
  define q where "q = tm div second"
  define rm where "rm = tm mod second"
  define x where "x = rm * timeScale + second div 2"
  have s: "second = 1000000000" by (simp add: second_def)
  have q: "0 \<le> q" "tm = second * q + rm" using tm(1) by (simp_all add: q_def rm_def s)
  have rm: "0 \<le> rm" "rm < second" by (simp_all add: rm_def s)
  have qt: "q * timeScale \<le> q * second" and rt: "rm * timeScale \<le> rm * second"
    using q(1) rm(1) ts(2) by (simp_all add: mult_left_mono)
  have nn: "0 \<le> q * timeScale" "0 \<le> rm * timeScale" using q(1) rm(1) ts(1) by simp_all
  have x: "0 \<le> x" "x < second * (rm + 1)" using nn(2) rt by (simp_all add: x_def s)
  have "x div second < rm + 1" using x(2) by (simp add: s div_less_iff_less_mult)
  with x(1) have xd: "0 \<le> x div second" "x div second \<le> rm" by (simp_all add: s)
  have w1: "wrap64 (q * timeScale) = q * timeScale" using nn(1) qt q tm(2) rm by (intro wrap64_id) (simp_all add: mult.commute)
  have w2: "wrap64 (rm * timeScale) = rm * timeScale" using nn(2) rt rm by (intro wrap64_id) (simp_all add: s)
  have w3: "wrap64 x = x" using x rm by (intro wrap64_id) (simp_all add: s)
  have w4: "wrap64 (q * timeScale + x div second) = q * timeScale + x div second"
    using nn(1) qt xd q tm(2) by (intro wrap64_id) (simp_all add: mult.commute)
  have "quot tm second = q" using tm(1) by (simp add: quot_nonneg q_def)
  moreover have "tm - second * q = rm" using q(2) by simp
  ultimately show ?thesis
    using x(1) by (simp add: fmp4_timeToTS_def Let_def w1 w2 x_def [symmetric] w3 quot_nonneg w4) (simp add: q_def rm_def x_def)
qed

text \<open>C20: for every time of \<open>time.Duration\<close> that is not negative, the last of its 292 years included, and every time
  scale up to a nanosecond, \<open>timeToTS\<close> computes in 64 bits the time in ticks, rounded to the nearest one: it never
  wraps around and is never off by more than half a tick.  (The plain product of the time and a time scale of 90000
  leaves 64 bits after 28 hours.)\<close>

theorem fmp4_timeToTS_rounds:
  assumes "0 \<le> tm" "tm < 2 ^ 63" "0 \<le> timeScale" "timeScale \<le> second"
  shows "\<bar>2 * (second * fmp4_timeToTS timeScale tm - tm * timeScale)\<bar> \<le> second"
proof -
  define x where "x = tm mod second * timeScale + second div 2"
  have s: "0 < second" "2 * (second div 2) = second" by (simp_all add: second_def)
  have "second * (x div second) = x - x mod second" by (simp add: minus_mod_eq_mult_div)
  moreover have "tm * timeScale = second * (tm div second * timeScale) + tm mod second * timeScale"
    using mult_div_mod_eq [of second tm] by (metis distrib_right mult.assoc)
  ultimately have "second * fmp4_timeToTS timeScale tm - tm * timeScale = second div 2 - x mod second"
    unfolding fmp4_timeToTS_ticks [OF assms] x_def [symmetric] by (simp add: distrib_left) (simp add: x_def)
  moreover have "0 \<le> x mod second" "x mod second < second" using s(1) by simp_all
  moreover have "\<bar>2 * (h - r)\<bar> \<le> n" if "0 \<le> r" "r < n" "2 * h = n" for h r n :: int
    using that by (simp add: abs_le_iff)
  ultimately show ?thesis using s(2) by simp
qed

section \<open>Witnesses\<close>

definition frag_codec :: media_codec where
  "frag_codec = H264_par \<lparr>hp_Record = [1], hp_RecordInfo = \<lparr>AVCProfileIndication = 66, ProfileCompatibility = 0,
     AVCLevelIndication = 30, LengthSizeMinusOne = 3, SPS = [], PPS = []\<rparr>, hp_SPSInfo = empty_sps_info, hp_CodecType = H264_type\<rparr>"

definition frag_packet :: "bool \<Rightarrow> bytes \<Rightarrow> media_packet" where
  "frag_packet key b = \<lparr>mk_id = 0, mk_stream = 0, mk_video = True, mk_key = key, mk_ts = 0, mk_dur = 40000000,
     mk_data = b, mk_par = frag_codec\<rparr>"

definition frag_start :: fmuxer where
  "frag_start = (case Fmp4_Mux (Some (frag_codec, 0)) None NewFmuxer of Inr m \<Rightarrow> m | Inl _ \<Rightarrow> NewFmuxer)"

definition frag_written :: fmuxer where
  "frag_written = (case write_packets [frag_packet True [1, 2], frag_packet False [3]] frag_start of Inr m \<Rightarrow> m | Inl _ \<Rightarrow> NewFmuxer)"

lemma frag_start: "Fmp4_Mux (Some (frag_codec, 0)) None NewFmuxer = Inr frag_start" "length (fm_strs frag_start) = 1"
  by (simp_all add: frag_start_def Fmp4_Mux_def fmp4_stream_opt_def fmp4_newStream_def Let_def fmp4_supports_def frag_codec_def
      NewFmuxer_def)

lemma frag_run: "write_packets [frag_packet True [1, 2], frag_packet False [3]] frag_start = Inr frag_written"
  by (simp add: frag_written_def write_packets_def Fmp4_WritePacket_def frag_start Let_def frag_packet_def)

lemma trun_Len_le: "TrackFragRun_Len r \<le> 24 + 16 * length (trun_Entries r)"
  using sum_list_mono [of "trun_Entries r" "\<lambda>e. entry_len (trun_Flags r)" "\<lambda>e. 16"]
  by (auto simp: TrackFragRun_Len_def entry_len_def sum_list_triv)

lemma tfhd_Len_le: "TrackFragHeader_Len h \<le> 40"
  by (simp add: TrackFragHeader_Len_def)

theorem fmp4_fragment_located_witness:
  "\<exists>y b. fst (GetMP4Fragment 7 frag_written) = Inr (styp_layout NewSegmentType @ y @ b)"
proof -
  have n: "length (fm_strs frag_written) = 1"
    using frag_run write_packets_ok [of "[frag_packet True [1, 2], frag_packet False [3]]" frag_start] Mux_streams_empty [OF frag_start(1)]
    by (simp add: frag_start frag_packet_def)
  then obtain s where s: "fm_strs frag_written = [s]" by (cases "fm_strs frag_written") auto
  have "ff_packets (fm_strs frag_written ! 0) = [frag_packet True [1, 2], frag_packet False [3]]"
    using frag_run write_packets_ok [of "[frag_packet True [1, 2], frag_packet False [3]]" frag_start] Mux_streams_empty [OF frag_start(1)]
    by (simp add: frag_start of_stream_def) (simp add: frag_packet_def)
  then have p: "ff_packets s = [frag_packet True [1, 2], frag_packet False [3]]" by (simp add: s)
  have "length (all_data (fm_strs frag_written)) = 3" by (simp add: s all_data_def data_of_def p frag_packet_def)
  moreover have "MovieFrag_Len (movie_frag 7 [s]) \<le> 1000"
  proof -
    have "\<forall>q\<in>set (ff_packets s). length (mk_data q) < 2 ^ 32" by (simp add: p frag_packet_def)
    then obtain h r where "traf_Header (track_frag s) = Some h" "traf_Run (track_frag s) = Some r"
      "length (trun_Entries r) = length (ff_packets s)" by (rule track_frag_reads) blast
    with trun_Len_le [of r] tfhd_Len_le [of h] have "TrackFrag_Len (track_frag s) \<le> 200"
      by (simp add: TrackFrag_Len_def opt_len_def p TrackFragDecodeTime_Len_def track_frag_def split: prod.splits)
    then show ?thesis by (simp add: movie_frag_def MovieFrag_Len_def opt_len_def MovieFragHeader_Len_def)
  qed
  ultimately show ?thesis
    using fmp4_fragment_located [OF frag_start(1) _ frag_run, of 7] by (auto simp: frag_start s frag_packet_def)
qed

theorem fmp4_timeToTS_rounds_witness: "\<bar>2 * (second * fmp4_timeToTS 90000 (2 ^ 63 - 1) - (2 ^ 63 - 1) * 90000)\<bar> \<le> second"
  by (rule fmp4_timeToTS_rounds) (simp_all add: second_def)

end
