(* ===== verification/Mp4Mux.thy ===== *)
theory Mp4Mux
  imports Mp4Stream "HOL-Library.Multiset"
begin

text \<open>
  \<open>format/mp4/muxer.go\<close> and the writing half of \<open>stream.go\<close>.  Packets are queued by \<open>WritePacket\<close>;
  \<open>Flush\<close> and \<open>WriteTrailer\<close> write them to a file, in one piece or one packet at a time.

  The pointer \<open>stream.sample\<close> and the one inside \<open>trackAtom\<close> are the same table; it is kept once, in
  \<open>ms_sample\<close>, and put into the track when the track is written.  A pointer to the current entry of
  a table is its index.  \<open>mx_released\<close> records the calls of \<open>Release\<close>.
\<close>

section \<open>The file\<close>

text \<open>
  An \<open>io.WriteSeeker\<close>: bytes, a position and what the coming calls do.  \<open>Some k\<close> lets a write
  transfer \<open>k\<close> bytes and fail; a script that has run out never fails.
\<close>

record wfile =
  wf_bytes :: bytes
  wf_pos :: nat
  wf_faults :: "nat option list"

datatype mux_err = WriteFailed | BadIndex | Unsupported | MuxPanic

type_synonym 's step = "'s \<times> mux_err option"

definition then_do :: "'s step \<Rightarrow> ('s \<Rightarrow> 's step) \<Rightarrow> 's step" where
  "then_do r f = (case r of (s, None) \<Rightarrow> f s | (s, Some e) \<Rightarrow> (s, Some e))"

definition overwrite :: "bytes \<Rightarrow> nat \<Rightarrow> bytes \<Rightarrow> bytes" where
  "overwrite b pos xs = take pos (b @ replicate (pos - length b) 0) @ xs @ drop (pos + length xs) b"

definition file_Write :: "bytes \<Rightarrow> wfile \<Rightarrow> wfile step" where
  "file_Write xs f = (case wf_faults f of
       Some k # fs \<Rightarrow> (f\<lparr>wf_bytes := overwrite (wf_bytes f) (wf_pos f) (take k xs),
         wf_pos := wf_pos f + length (take k xs), wf_faults := fs\<rparr>, Some WriteFailed)
     | fs \<Rightarrow> (f\<lparr>wf_bytes := overwrite (wf_bytes f) (wf_pos f) xs,
         wf_pos := wf_pos f + length xs, wf_faults := tl fs\<rparr>, None))"

definition file_Seek :: "nat \<Rightarrow> wfile \<Rightarrow> wfile step" where
  "file_Seek pos f = (case wf_faults f of
       Some k # fs \<Rightarrow> (f\<lparr>wf_faults := fs\<rparr>, Some WriteFailed)
     | fs \<Rightarrow> (f\<lparr>wf_pos := pos, wf_faults := tl fs\<rparr>, None))"

section \<open>Streams\<close>

record mux_stream =
  ms_codec :: media_codec
  ms_trackAtom :: Track
  ms_lastPacket :: "media_packet option"
  ms_timeScale :: int
  ms_duration :: int
  ms_sample :: SampleTable
  ms_sampleIndex :: nat
  ms_sttsEntry :: "nat option"
  ms_cttsEntry :: "nat option"
  ms_lastPacketDataOffset :: nat
  ms_lastPacketDataSize :: nat

definition headerSize :: nat where "headerSize = 56"

definition timeToTS :: "int \<Rightarrow> int \<Rightarrow> int" where
  "timeToTS tm timeScale = quot (wrap64 (tm * timeScale)) second"

definition Stream_timeToTS :: "mux_stream \<Rightarrow> int \<Rightarrow> int" where
  "Stream_timeToTS s tm = quot (wrap64 (tm * ms_timeScale s)) second"

definition tsToTime :: "mux_stream \<Rightarrow> int \<Rightarrow> int" where
  "tsToTime s ts = quot (wrap64 (ts * second)) (ms_timeScale s)"

section \<open>The queue\<close>

record pending_write =
  pw_pkt :: "media_packet option"
  pw_extras :: "bytes list"
  pw_extraSize :: nat
  pw_totalSize :: nat

record muxer =
  mx_writer :: wfile
  mx_writePosition :: nat
  mx_streams :: "mux_stream list"
  mx_batchedDump :: bool
  mx_pending :: "pending_write list"
  mx_pendingSize :: nat
  mx_flushed :: bool
  mx_released :: "nat list"

definition NewMuxer :: "wfile \<Rightarrow> bool \<Rightarrow> muxer" where
  "NewMuxer w batched = \<lparr>mx_writer = w, mx_writePosition = 0, mx_streams = [], mx_batchedDump = batched,
     mx_pending = [], mx_pendingSize = 0, mx_flushed = False, mx_released = []\<rparr>"

definition GetWritePosition :: "muxer \<Rightarrow> nat" where
  "GetWritePosition m = mx_writePosition m"

definition GetPreLastPacket :: "byte \<Rightarrow> muxer \<Rightarrow> media_packet option" where
  "GetPreLastPacket i m = (if length (mx_streams m) \<le> unat i then None else ms_lastPacket (mx_streams m ! unat i))"

definition PendingBytes :: "muxer \<Rightarrow> nat" where
  "PendingBytes m = mx_pendingSize m"

definition on_file :: "(wfile \<Rightarrow> wfile step) \<Rightarrow> muxer \<Rightarrow> muxer step" where
  "on_file f m = (case f (mx_writer m) of (w, e) \<Rightarrow> (m\<lparr>mx_writer := w\<rparr>, e))"

definition held_pending :: "pending_write list \<Rightarrow> nat list" where
  "held_pending pws = concat (map (\<lambda>pw. case pw_pkt pw of None \<Rightarrow> [] | Some p \<Rightarrow> [mk_id p]) pws)"

definition held_last :: "mux_stream list \<Rightarrow> nat list" where
  "held_last ss = concat (map (\<lambda>s. case ms_lastPacket s of None \<Rightarrow> [] | Some p \<Rightarrow> [mk_id p]) ss)"

definition releasePending :: "muxer \<Rightarrow> muxer" where
  "releasePending m = m\<lparr>
     mx_released := mx_released m @ held_pending (mx_pending m) @ held_last (mx_streams m),
     mx_pending := [], mx_pendingSize := 0,
     mx_streams := map (\<lambda>s. s\<lparr>ms_lastPacket := None\<rparr>) (mx_streams m)\<rparr>"

definition ReleasePending :: "muxer \<Rightarrow> muxer" where
  "ReleasePending m = releasePending m"

section \<open>Mux\<close>

definition VideoHandlerName :: bytes where
  "VideoHandlerName = map (\<lambda>n. word_of_nat n) [86, 105, 100, 101, 111, 72, 97, 110, 100, 108, 101, 114]"

definition SoundHandlerName :: bytes where
  "SoundHandlerName = map (\<lambda>n. word_of_nat n) [83, 111, 117, 110, 100, 32, 72, 97, 110, 100, 108, 101, 114]"

definition vide :: bytes where "vide = [0x76, 0x69, 0x64, 0x65]"
definition soun :: bytes where "soun = [0x73, 0x6F, 0x75, 0x6E]"

definition empty_stsd :: SampleDesc where
  "empty_stsd = \<lparr>stsd_Version = 0, stsd_AVC1Desc = None, stsd_HV1Desc = None, stsd_MJPGDesc = None,
     stsd_MP4ADesc = None, stsd_Unknowns = []\<rparr>"

definition new_sample_table :: SampleTable where
  "new_sample_table = \<lparr>stbl_SampleDesc = Some empty_stsd,
     stbl_TimeToSample = Some \<lparr>stts_Version = 0, stts_Flags = 0, stts_Entries = []\<rparr>,
     stbl_CompositionOffset = Some \<lparr>ctts_Version = 0, ctts_Flags = 0, ctts_Entries = []\<rparr>,
     stbl_SampleToChunk = Some \<lparr>stsc_Version = 0, stsc_Flags = 0,
       stsc_Entries = [\<lparr>stsc_FirstChunk = 1, stsc_SamplesPerChunk = 1, stsc_SampleDescId = 1\<rparr>]\<rparr>,
     stbl_SyncSample = Some \<lparr>stss_Version = 0, stss_Flags = 0, stss_Entries = []\<rparr>,
     stbl_ChunkOffset = Some \<lparr>stco_Version = 0, stco_Flags = 0, stco_Entries = []\<rparr>,
     stbl_SampleSize = Some \<lparr>stsz_Version = 0, stsz_Flags = 0, stsz_SampleSize = 0, stsz_Entries = []\<rparr>\<rparr>"

definition unity_matrix :: "32 word list" where
  "unity_matrix = [0x00010000, 0, 0, 0, 0x00010000, 0, 0, 0, 0x00010000]"

definition url_reference :: DataInfo where
  "url_reference = \<lparr>dinf_Refer = Some \<lparr>dref_Version = 0, dref_Flags = 0,
     dref_Url = Some \<lparr>url_Version = 0, url_Flags = 1\<rparr>\<rparr>, dinf_Unknowns = []\<rparr>"

definition new_track :: "time \<Rightarrow> nat \<Rightarrow> media_codec \<Rightarrow> Track" where
  "new_track now n codec = (let video = codec_Type codec \<in> {H264_type, H265_type, MJPEG_type} in
     \<lparr>trak_Header = Some \<lparr>tkhd_Version = 0, tkhd_Flags = 3, tkhd_CreateTime = now, tkhd_ModifyTime = now,
        tkhd_TrackId = word_of_nat (n + 1), tkhd_Duration = 0, tkhd_Layer = 0, tkhd_AlternateGroup = 0,
        tkhd_Volume = 0, tkhd_Matrix = unity_matrix,
        tkhd_TrackWidth = (if video then of_nat (unat (par_Width codec)) else 0),
        tkhd_TrackHeight = (if video then of_nat (unat (par_Height codec)) else 0)\<rparr>,
      trak_Media = Some \<lparr>mdia_Header = Some \<lparr>mdhd_Version = 0, mdhd_Flags = 0, mdhd_CreateTime = now,
          mdhd_ModifyTime = now, mdhd_TimeScale = 90000, mdhd_Duration = 0, mdhd_Language = 21956, mdhd_Quality = 0\<rparr>,
        mdia_Handler = Some \<lparr>hdlr_Version = 0, hdlr_Flags = 0, hdlr_Type = [0, 0, 0, 0], hdlr_SubType = vide,
          hdlr_Name = VideoHandlerName\<rparr>,
        mdia_Info = Some \<lparr>
          minf_Sound = (if video then None else Some \<lparr>smhd_Version = 0, smhd_Flags = 0, smhd_Balance = 0\<rparr>),
          minf_Video = (if video then Some \<lparr>vmhd_Version = 0, vmhd_Flags = 0, vmhd_GraphicsMode = 0,
            vmhd_Opcolor = [0, 0, 0]\<rparr> else None),
          minf_Data = Some url_reference, minf_Sample = None, minf_Unknowns = []\<rparr>,
        mdia_Unknowns = []\<rparr>,
      trak_Unknowns = []\<rparr>)"

definition mp4_supported :: "codec_type \<Rightarrow> bool" where
  "mp4_supported t \<longleftrightarrow> t \<in> {H264_type, H265_type, MJPEG_type, AAC_type}"

definition newStream :: "time \<Rightarrow> media_codec \<Rightarrow> muxer \<Rightarrow> muxer step" where
  "newStream now codec m = (if \<not> mp4_supported (codec_Type codec) then (m, Some Unsupported)
     else (m\<lparr>mx_streams := mx_streams m @ [\<lparr>ms_codec = codec,
         ms_trackAtom = new_track now (length (mx_streams m)) codec, ms_lastPacket = None, ms_timeScale = 90000,
         ms_duration = 0, ms_sample = new_sample_table, ms_sampleIndex = 0, ms_sttsEntry = None,
         ms_cttsEntry = None, ms_lastPacketDataOffset = 0, ms_lastPacketDataSize = 0\<rparr>]\<rparr>, None))"

definition reset_composition :: "mux_stream \<Rightarrow> mux_stream" where
  "reset_composition s = (if IsVideo (codec_Type (ms_codec s))
     then s\<lparr>ms_sample := (ms_sample s)\<lparr>stbl_CompositionOffset :=
       Some \<lparr>ctts_Version = 0, ctts_Flags = 0, ctts_Entries = []\<rparr>\<rparr>\<rparr> else s)"

definition new_stream_opt :: "time \<Rightarrow> media_codec option \<Rightarrow> muxer \<Rightarrow> muxer step" where
  "new_stream_opt now codec m = (case codec of None \<Rightarrow> (m, None) | Some c \<Rightarrow> newStream now c m)"

definition Mux :: "time \<Rightarrow> media_codec option \<Rightarrow> media_codec option \<Rightarrow> muxer \<Rightarrow> muxer step" where
  "Mux now video audio m = then_do (new_stream_opt now video
       ((releasePending m)\<lparr>mx_streams := [], mx_flushed := False, mx_writePosition := headerSize\<rparr>))
     (\<lambda>m. then_do (new_stream_opt now audio m)
     (\<lambda>m. (m\<lparr>mx_streams := map reset_composition (mx_streams m)\<rparr>, None)))"

section \<open>WritePacket\<close>

definition maxSampleDuration :: int where "maxSampleDuration = 5 * second"

definition clamp_duration :: "int \<Rightarrow> int" where
  "clamp_duration dur = (if dur \<le> 0 then Millisecond else if maxSampleDuration < dur then maxSampleDuration else dur)"

text \<open>The parameter sets in front of a key frame.\<close>

definition extras_of :: "media_packet \<Rightarrow> bytes list" where
  "extras_of p = (if mk_video p \<and> mk_key p then (case mk_par p of
       H264_par h \<Rightarrow> [H264_SPS h, H264_PPS h]
     | H265_par h \<Rightarrow> [H265_VPS h, H265_SPS h, H265_PPS h]
     | _ \<Rightarrow> []) else [])"

definition extra_size :: "bytes list \<Rightarrow> nat" where
  "extra_size extras = sum_list (map length extras) + 4 * length extras"

definition pending_of :: "media_packet \<Rightarrow> pending_write" where
  "pending_of p = (let ex = extras_of p in \<lparr>pw_pkt = Some p, pw_extras = ex, pw_extraSize = extra_size ex,
     pw_totalSize = length (mk_data p) + extra_size ex\<rparr>)"

definition add_sync :: "mux_stream \<Rightarrow> media_packet \<Rightarrow> SampleTable \<Rightarrow> SampleTable" where
  "add_sync s p t = (case stbl_SyncSample t of
       Some ss \<Rightarrow> if mk_video p \<and> mk_key p
         then t\<lparr>stbl_SyncSample := Some (ss\<lparr>stss_Entries := stss_Entries ss @ [word_of_nat (ms_sampleIndex s + 1)]\<rparr>)\<rparr>
         else t
     | None \<Rightarrow> t)"

text \<open>One more sample of the given duration: the current entry is counted up, or a new one is opened.\<close>

definition add_stts :: "32 word \<Rightarrow> nat option \<times> TimeToSampleEntry list \<Rightarrow> nat option \<times> TimeToSampleEntry list" where
  "add_stts sDr = (\<lambda>(cur, es).
     let (cur, es) = (case cur of
           Some i \<Rightarrow> if sDr \<noteq> stts_Duration (es ! i)
             then (Some (length es), es @ [\<lparr>stts_Count = 0, stts_Duration = sDr\<rparr>]) else (cur, es)
         | None \<Rightarrow> (Some (length es), es @ [\<lparr>stts_Count = 0, stts_Duration = sDr\<rparr>]))
     in (cur, es[the cur := (es ! the cur)\<lparr>stts_Count := stts_Count (es ! the cur) + 1\<rparr>]))"

definition add_ctts :: "nat option \<times> CompositionOffsetEntry list \<Rightarrow> nat option \<times> CompositionOffsetEntry list" where
  "add_ctts = (\<lambda>(cur, es).
     let (cur, es) = (case cur of
           Some i \<Rightarrow> if 0 \<noteq> ctts_Offset (es ! i)
             then (Some (length es), es @ [\<lparr>ctts_Count = 0, ctts_Offset = 0\<rparr>]) else (cur, es)
         | None \<Rightarrow> (Some (length es), es @ [\<lparr>ctts_Count = 0, ctts_Offset = 0\<rparr>]))
     in (cur, es[the cur := (es ! the cur)\<lparr>ctts_Count := ctts_Count (es ! the cur) + 1\<rparr>]))"

definition update_stts :: "32 word \<Rightarrow> mux_stream \<Rightarrow> mux_stream" where
  "update_stts sDr s = (case stbl_TimeToSample (ms_sample s) of None \<Rightarrow> s | Some t \<Rightarrow>
     (case add_stts sDr (ms_sttsEntry s, stts_Entries t) of (cur, es) \<Rightarrow>
       s\<lparr>ms_sttsEntry := cur, ms_sample := (ms_sample s)\<lparr>stbl_TimeToSample := Some (t\<lparr>stts_Entries := es\<rparr>)\<rparr>\<rparr>))"

definition update_ctts :: "mux_stream \<Rightarrow> mux_stream" where
  "update_ctts s = (case stbl_CompositionOffset (ms_sample s) of None \<Rightarrow> s | Some t \<Rightarrow>
     (case add_ctts (ms_cttsEntry s, ctts_Entries t) of (cur, es) \<Rightarrow>
       s\<lparr>ms_cttsEntry := cur, ms_sample := (ms_sample s)\<lparr>stbl_CompositionOffset := Some (t\<lparr>ctts_Entries := es\<rparr>)\<rparr>\<rparr>))"

definition add_chunk :: "nat \<Rightarrow> nat \<Rightarrow> SampleTable \<Rightarrow> SampleTable" where
  "add_chunk pos sz t = t\<lparr>
     stbl_ChunkOffset := map_option (\<lambda>c. c\<lparr>stco_Entries := stco_Entries c @ [word_of_nat pos]\<rparr>) (stbl_ChunkOffset t),
     stbl_SampleSize := map_option (\<lambda>c. c\<lparr>stsz_Entries := stsz_Entries c @ [word_of_nat sz]\<rparr>) (stbl_SampleSize t)\<rparr>"

text \<open>The sample tables after the packet \<open>p\<close>, queued at \<open>pos\<close>.\<close>

definition commit_sample :: "nat \<Rightarrow> media_packet \<Rightarrow> mux_stream \<Rightarrow> mux_stream" where
  "commit_sample pos p s =
     (let pw = pending_of p;
          s = s\<lparr>ms_lastPacketDataOffset := pos + pw_extraSize pw, ms_lastPacketDataSize := length (mk_data p)\<rparr>;
          s = s\<lparr>ms_sample := add_sync s p (ms_sample s)\<rparr>;
          sDr = word_of_int (Stream_timeToTS s (mk_dur p)) :: 32 word;
          s = update_ctts (update_stts sDr s)
      in s\<lparr>ms_duration := ms_duration s + uint sDr, ms_sampleIndex := ms_sampleIndex s + 1,
           ms_sample := add_chunk pos (pw_totalSize pw) (ms_sample s)\<rparr>)"

definition writePacket :: "nat \<Rightarrow> media_packet \<Rightarrow> muxer \<Rightarrow> muxer" where
  "writePacket i nPkt m = (let s = mx_streams m ! i in
     case ms_lastPacket s of None \<Rightarrow> m\<lparr>mx_streams := (mx_streams m)[i := s\<lparr>ms_lastPacket := Some nPkt\<rparr>]\<rparr>
     | Some l \<Rightarrow>
       let p = l\<lparr>mk_dur := clamp_duration (mk_ts nPkt - mk_ts l)\<rparr>; pw = pending_of p;
           s' = (commit_sample (mx_writePosition m) p s)\<lparr>ms_lastPacket := Some nPkt\<rparr>
       in m\<lparr>mx_pending := mx_pending m @ [pw], mx_pendingSize := mx_pendingSize m + pw_totalSize pw,
            mx_streams := (mx_streams m)[i := s'], mx_writePosition := mx_writePosition m + pw_totalSize pw\<rparr>)"

definition WritePacket :: "media_packet \<Rightarrow> muxer \<Rightarrow> muxer step" where
  "WritePacket p m = (if length (mx_streams m) \<le> unat (mk_stream p) then (m, Some BadIndex)
     else (writePacket (unat (mk_stream p)) p m, None))"

section \<open>Flush\<close>

definition marshalHeader :: bytes where
  "marshalHeader = (case marshal_fresh headerSize (wr_all [FileType_Marshal NewFileType, FreeType_Marshal,
       wr_put (be32 1), wr_put (be32 MDAT)]) of Inr b \<Rightarrow> b | Inl _ \<Rightarrow> [])"

text \<open>One entry of the queue: the parameter sets behind their lengths, then the packet, which may have gone.\<close>

definition write_extra :: "bytes \<Rightarrow> muxer \<Rightarrow> muxer step" where
  "write_extra e m = then_do (on_file (file_Write (be32 (word_of_nat (length e)))) m) (on_file (file_Write e))"

fun write_extras :: "bytes list \<Rightarrow> muxer \<Rightarrow> muxer step" where
  "write_extras [] m = (m, None)"
| "write_extras (e # es) m = then_do (write_extra e m) (write_extras es)"

definition release_entry :: "nat \<Rightarrow> media_packet \<Rightarrow> muxer \<Rightarrow> muxer" where
  "release_entry i p m = m\<lparr>mx_released := mx_released m @ [mk_id p],
     mx_pending := (mx_pending m)[i := (mx_pending m ! i)\<lparr>pw_pkt := None\<rparr>]\<rparr>"

definition write_entry :: "nat \<Rightarrow> muxer \<Rightarrow> muxer step" where
  "write_entry i m = then_do (write_extras (pw_extras (mx_pending m ! i)) m)
     (\<lambda>m. case pw_pkt (mx_pending m ! i) of None \<Rightarrow> (m, Some MuxPanic)
       | Some p \<Rightarrow> then_do (on_file (file_Write (mk_data p)) m) (\<lambda>m. (release_entry i p m, None)))"

fun write_entries :: "nat list \<Rightarrow> muxer \<Rightarrow> muxer step" where
  "write_entries [] m = (m, None)"
| "write_entries (i # is) m = then_do (write_entry i m) (write_entries is)"

definition clear_pending :: "muxer \<Rightarrow> muxer" where
  "clear_pending m = m\<lparr>mx_pending := [], mx_pendingSize := 0\<rparr>"

definition writePendingDirect :: "muxer \<Rightarrow> muxer step" where
  "writePendingDirect m = then_do (write_entries [0..<length (mx_pending m)] m) (\<lambda>m. (clear_pending m, None))"

text \<open>The same into a buffer, at an offset; \<open>wr_put\<close> and \<open>wr_copy\<close> panic where the slices would.\<close>

definition copy_extra :: "bytes \<Rightarrow> wr" where
  "copy_extra e = wr_then (wr_put (be32 (word_of_nat (length e)))) (wr_copy e)"

definition copy_entry :: "pending_write \<Rightarrow> wr" where
  "copy_entry pw = wr_then (wr_each copy_extra (pw_extras pw))
     (case pw_pkt pw of None \<Rightarrow> (\<lambda>s. Inl Panic) | Some p \<Rightarrow> wr_copy (mk_data p))"

fun copyPendingInto :: "nat list \<Rightarrow> bytes \<times> nat \<Rightarrow> muxer \<Rightarrow> (bytes \<times> nat) option \<times> muxer" where
  "copyPendingInto [] b m = (Some b, clear_pending m)"
| "copyPendingInto (i # is) b m = (case copy_entry (mx_pending m ! i) b of Inl _ \<Rightarrow> (None, m)
     | Inr b \<Rightarrow> copyPendingInto is b (release_entry i (the (pw_pkt (mx_pending m ! i))) m))"

definition flushDirect :: "muxer \<Rightarrow> muxer step" where
  "flushDirect m = then_do (if mx_flushed m then (m, None)
       else then_do (on_file (file_Write marshalHeader) m) (\<lambda>m. (m\<lparr>mx_flushed := True\<rparr>, None)))
     writePendingDirect"

definition flushBatched :: "muxer \<Rightarrow> muxer step" where
  "flushBatched m = (let total = mx_pendingSize m + (if mx_flushed m then 0 else headerSize) in
     if total = 0 then (m, None)
     else let buf = replicate total 0;
              start = (if mx_flushed m then (buf, 0) else (put_at buf 0 marshalHeader, headerSize))
       in case copyPendingInto [0..<length (mx_pending m)] start (m\<lparr>mx_flushed := True\<rparr>) of
          (None, m) \<Rightarrow> (m, Some MuxPanic)
        | (Some (buf, off), m) \<Rightarrow> on_file (file_Write (take off buf)) m)"

definition Flush :: "muxer \<Rightarrow> muxer step" where
  "Flush m = (if mx_pending m = [] \<and> mx_flushed m then (m, None)
     else if mx_batchedDump m then flushBatched m else flushDirect m)"

section \<open>The trailer\<close>

definition video_desc :: "media_codec \<Rightarrow> bytes \<Rightarrow> AVC1Desc" where
  "video_desc c conf = \<lparr>avc1_DataRefIdx = 1, avc1_Version = 0, avc1_Revision = 0, avc1_Vendor = 0,
     avc1_TemporalQuality = 0, avc1_SpatialQuality = 0, avc1_Width = ucast (par_Width c),
     avc1_Height = ucast (par_Height c), avc1_HorizontalResolution = 72, avc1_VerticalResolution = 72,
     avc1_FrameCount = 1, avc1_CompressorName = replicate 32 0, avc1_Depth = 24, avc1_ColorTableId = - 1,
     avc1_Conf = Some \<lparr>avcc_Data = conf\<rparr>, avc1_Unknowns = []\<rparr>"

definition hevc_desc :: "media_codec \<Rightarrow> bytes \<Rightarrow> HV1Desc" where
  "hevc_desc c conf = \<lparr>hev1_DataRefIdx = 1, hev1_Version = 0, hev1_Revision = 0, hev1_Vendor = 0,
     hev1_TemporalQuality = 0, hev1_SpatialQuality = 0, hev1_Width = ucast (par_Width c),
     hev1_Height = ucast (par_Height c), hev1_HorizontalResolution = 72, hev1_VerticalResolution = 72,
     hev1_FrameCount = 1, hev1_CompressorName = replicate 32 0, hev1_Depth = 24, hev1_ColorTableId = - 1,
     hev1_Conf = Some \<lparr>hvcc_Data = conf\<rparr>, hev1_Unknowns = []\<rparr>"

definition jpeg_desc :: "media_codec \<Rightarrow> MJPGDesc" where
  "jpeg_desc c = \<lparr>mjpg_DataRefIdx = 1, mjpg_Version = 0, mjpg_Revision = 0, mjpg_Vendor = 0,
     mjpg_TemporalQuality = 0, mjpg_SpatialQuality = 0, mjpg_Width = ucast (par_Width c),
     mjpg_Height = ucast (par_Height c), mjpg_HorizontalResolution = 72, mjpg_VerticalResolution = 72,
     mjpg_FrameCount = 1, mjpg_CompressorName = replicate 32 0, mjpg_Depth = 24, mjpg_ColorTableId = - 1,
     mjpg_Unknowns = []\<rparr>"

definition audio_desc :: "aac_params \<Rightarrow> MP4ADesc" where
  "audio_desc p = \<lparr>mp4a_DataRefIdx = 1, mp4a_Version = 0, mp4a_RevisionLevel = 0, mp4a_Vendor = 0,
     mp4a_NumberOfChannels = word_of_nat (Count (ChannelLayout (ap_Config p))),
     mp4a_SampleSize = word_of_nat (BytesPerSample FLTP) * 8, mp4a_CompressionId = 0,
     mp4a_SampleRate = of_int (SampleRate (ap_Config p)),
     mp4a_Conf = Some \<lparr>esds_TrackId = 0, esds_MaxBitrate = 0, esds_AvgBitrate = 0, esds_DecConfig = ap_ConfigBytes p\<rparr>,
     mp4a_Unknowns = []\<rparr>"

definition describe :: "media_codec \<Rightarrow> SampleDesc \<Rightarrow> SampleDesc" where
  "describe c d = (case c of
       H264_par p \<Rightarrow> d\<lparr>stsd_AVC1Desc := Some (video_desc c (hp_Record p))\<rparr>
     | H265_par p \<Rightarrow> d\<lparr>stsd_HV1Desc := Some (hevc_desc c (vp_Record p))\<rparr>
     | MJPEG_par p \<Rightarrow> d\<lparr>stsd_MJPGDesc := Some (jpeg_desc c)\<rparr>
     | AAC_par p \<Rightarrow> d\<lparr>stsd_MP4ADesc := Some (audio_desc p)\<rparr>
     | Other_par _ \<Rightarrow> d)"

definition with_times :: "mux_stream \<Rightarrow> Media \<Rightarrow> Media" where
  "with_times s md = md\<lparr>mdia_Header := map_option (\<lambda>h. h\<lparr>mdhd_TimeScale := word_of_int (ms_timeScale s),
     mdhd_Duration := word_of_int (ms_duration s)\<rparr>) (mdia_Header md)\<rparr>"

definition with_sound :: "Track \<Rightarrow> Track" where
  "with_sound t = t\<lparr>
     trak_Header := map_option (\<lambda>h. h\<lparr>tkhd_Volume := 1, tkhd_AlternateGroup := 1\<rparr>) (trak_Header t),
     trak_Media := map_option (\<lambda>md. md\<lparr>mdia_Handler := Some \<lparr>hdlr_Version = 0, hdlr_Flags = 0,
         hdlr_Type = [0, 0, 0, 0], hdlr_SubType = soun, hdlr_Name = SoundHandlerName\<rparr>,
       mdia_Info := map_option (\<lambda>i. i\<lparr>minf_Sound := Some \<lparr>smhd_Version = 0, smhd_Flags = 0, smhd_Balance = 0\<rparr>\<rparr>)
         (mdia_Info md)\<rparr>) (trak_Media t)\<rparr>"

definition fillTrackAtom :: "mux_stream \<Rightarrow> mux_stream" where
  "fillTrackAtom s = (let t = (ms_trackAtom s)\<lparr>trak_Media := map_option (with_times s) (trak_Media (ms_trackAtom s))\<rparr>
     in s\<lparr>ms_sample := (ms_sample s)\<lparr>stbl_SampleDesc := map_option (describe (ms_codec s)) (stbl_SampleDesc (ms_sample s))\<rparr>,
          ms_trackAtom := (case ms_codec s of AAC_par _ \<Rightarrow> with_sound t | _ \<Rightarrow> t)\<rparr>)"

definition with_table :: "mux_stream \<Rightarrow> Track" where
  "with_table s = (ms_trackAtom s)\<lparr>trak_Media := map_option (\<lambda>md. md\<lparr>mdia_Info :=
     map_option (\<lambda>i. i\<lparr>minf_Sample := Some (ms_sample s)\<rparr>) (mdia_Info md)\<rparr>) (trak_Media (ms_trackAtom s))\<rparr>"

definition set_track_duration :: "mux_stream \<Rightarrow> mux_stream" where
  "set_track_duration s = s\<lparr>ms_trackAtom := (ms_trackAtom s)\<lparr>trak_Header := map_option
     (\<lambda>h. h\<lparr>tkhd_Duration := word_of_int (timeToTS (tsToTime s (ms_duration s)) 1000)\<rparr>) (trak_Header (ms_trackAtom s))\<rparr>\<rparr>"

definition finish_stream :: "mux_stream \<Rightarrow> mux_stream" where
  "finish_stream s = set_track_duration (fillTrackAtom s)"

definition movie_of :: "time \<Rightarrow> mux_stream list \<Rightarrow> Movie" where
  "movie_of now ss = \<lparr>moov_Header = Some ((NewMovieHeader now)\<lparr>
       mvhd_NextTrackID := word_of_nat (length ss + 1),
       mvhd_Duration := word_of_int (timeToTS (foldl (\<lambda>d s. max d (tsToTime s (ms_duration s))) 0 ss) 1000)\<rparr>),
     moov_Tracks = map with_table ss, moov_MovieExtend = None, moov_Unknowns = []\<rparr>"

definition buildMoov :: "time \<Rightarrow> muxer \<Rightarrow> muxer \<times> bytes res" where
  "buildMoov now m = (let ss = map finish_stream (mx_streams m); mv = movie_of now ss
     in (m\<lparr>mx_streams := ss\<rparr>, marshal_fresh (Movie_Len mv) (Movie_Marshal mv)))"

definition mdatExtSizeOffset :: nat where "mdatExtSizeOffset = 48"

definition sized_header :: "64 word \<Rightarrow> bytes" where
  "sized_header mdatSize = put_at marshalHeader mdatExtSizeOffset (be64 mdatSize)"

definition writeTrailerFastDirect :: "bytes \<Rightarrow> 64 word \<Rightarrow> muxer \<Rightarrow> muxer step" where
  "writeTrailerFastDirect moov mdatSize m =
     then_do (on_file (file_Write (sized_header mdatSize)) m) (\<lambda>m.
     then_do (writePendingDirect m) (on_file (file_Write moov)))"

definition writeTrailerFastBatched :: "bytes \<Rightarrow> 64 word \<Rightarrow> muxer \<Rightarrow> muxer step" where
  "writeTrailerFastBatched moov mdatSize m =
     (let buf = replicate (headerSize + mx_pendingSize m + length moov) 0 in
      case copyPendingInto [0..<length (mx_pending m)] (put_at buf 0 (sized_header mdatSize), headerSize) m of
        (None, m) \<Rightarrow> (m, Some MuxPanic)
      | (Some b, m) \<Rightarrow> (case wr_copy moov b of Inl _ \<Rightarrow> (m, Some MuxPanic)
         | Inr (buf, _) \<Rightarrow> on_file (file_Write buf) m))"

definition writeTrailerFast :: "bytes \<Rightarrow> 64 word \<Rightarrow> muxer \<Rightarrow> muxer step" where
  "writeTrailerFast moov mdatSize m = (if mx_batchedDump m then writeTrailerFastBatched moov mdatSize m
     else writeTrailerFastDirect moov mdatSize m)"

definition writeTrailerSeek :: "bytes \<Rightarrow> 64 word \<Rightarrow> muxer \<Rightarrow> muxer step" where
  "writeTrailerSeek moov mdatSize m =
     then_do (Flush m) (\<lambda>m.
     then_do (on_file (file_Seek mdatExtSizeOffset) m) (\<lambda>m.
     then_do (on_file (file_Write (be64 mdatSize)) m) (\<lambda>m.
     then_do (on_file (file_Seek (mx_writePosition m)) m)
       (on_file (file_Write moov)))))"

text \<open>The last packet of a stream is committed against itself, then forgotten.\<close>

definition commit_last :: "nat \<Rightarrow> muxer \<Rightarrow> muxer" where
  "commit_last i m = (case ms_lastPacket (mx_streams m ! i) of None \<Rightarrow> m
     | Some p \<Rightarrow> let m = writePacket i p m
       in m\<lparr>mx_streams := (mx_streams m)[i := (mx_streams m ! i)\<lparr>ms_lastPacket := None\<rparr>]\<rparr>)"

definition trailer_body :: "time \<Rightarrow> muxer \<Rightarrow> muxer step" where
  "trailer_body now m = (let m = fold commit_last [0..<length (mx_streams m)] m in
     case buildMoov now m of
       (m, Inl _) \<Rightarrow> (m, Some MuxPanic)
     | (m, Inr moov) \<Rightarrow> let mdatSize = word_of_int (int (mx_writePosition m) - 40) in
         if \<not> mx_flushed m then writeTrailerFast moov mdatSize m else writeTrailerSeek moov mdatSize m)"

definition WriteTrailer :: "time \<Rightarrow> muxer \<Rightarrow> muxer step" where
  "WriteTrailer now m = (case trailer_body now m of (m, e) \<Rightarrow> (releasePending m, e))"

end
