(* ===== verification/Mp4MuxSpec.thy ===== *)
theory Mp4MuxSpec
  imports Mp4Mux
begin

text \<open>
  What the MP4 muxer promises, as a machine over the streams and the list of samples committed so
  far, and the proof that \<open>muxer.go\<close> implements it, whichever way and however often it flushes.
\<close>

section \<open>The abstract muxer\<close>

definition sample_bytes :: "media_packet \<Rightarrow> bytes" where
  "sample_bytes p = concat (map avcc_frame (extras_of p)) @ mk_data p"

definition samples_bytes :: "media_packet list \<Rightarrow> bytes" where
  "samples_bytes cs = concat (map sample_bytes cs)"

definition position :: "media_packet list \<Rightarrow> nat" where
  "position cs = headerSize + length (samples_bytes cs)"

type_synonym spec = "mux_stream list \<times> media_packet list"

definition with_duration :: "media_packet \<Rightarrow> int \<Rightarrow> media_packet" where
  "with_duration l ts = l\<lparr>mk_dur := clamp_duration (ts - mk_ts l)\<rparr>"

definition spec_commit :: "nat \<Rightarrow> int \<Rightarrow> media_packet option \<Rightarrow> spec \<Rightarrow> spec" where
  "spec_commit i ts lastp = (\<lambda>(ss, cs). case ms_lastPacket (ss ! i) of
       None \<Rightarrow> (ss[i := (ss ! i)\<lparr>ms_lastPacket := lastp\<rparr>], cs)
     | Some l \<Rightarrow> (ss[i := (commit_sample (position cs) (with_duration l ts) (ss ! i))\<lparr>ms_lastPacket := lastp\<rparr>],
                  cs @ [with_duration l ts]))"

definition spec_write :: "media_packet \<Rightarrow> spec \<Rightarrow> spec" where
  "spec_write p = spec_commit (unat (mk_stream p)) (mk_ts p) (Some p)"

definition spec_last :: "nat \<Rightarrow> spec \<Rightarrow> spec" where
  "spec_last i a = (case ms_lastPacket (fst a ! i) of None \<Rightarrow> a | Some l \<Rightarrow> spec_commit i (mk_ts l) None a)"

definition spec_trailer :: "spec \<Rightarrow> spec" where
  "spec_trailer a = fold spec_last [0..<length (fst a)] a"

definition spec_moov :: "time \<Rightarrow> spec \<Rightarrow> bytes" where
  "spec_moov now a = moov_layout (movie_of now (map finish_stream (fst a)))"

definition spec_file :: "time \<Rightarrow> spec \<Rightarrow> bytes" where
  "spec_file now a = sized_header (word_of_nat (16 + length (samples_bytes (snd a)))) @
     samples_bytes (snd a) @ spec_moov now a"

section \<open>Writing to the end of a file\<close>

definition at_end :: "wfile \<Rightarrow> bytes \<Rightarrow> bool" where
  "at_end w b \<longleftrightarrow> wf_bytes w = b \<and> wf_pos w = length b \<and> (\<forall>f\<in>set (wf_faults w). f = None)"

lemma then_do_None [simp]: "then_do (s, None) f = f s"
  by (simp add: then_do_def)

lemma file_Write_ok:
  assumes "\<forall>f\<in>set (wf_faults w). f = None"
  shows "file_Write xs w = (w\<lparr>wf_bytes := overwrite (wf_bytes w) (wf_pos w) xs, wf_pos := wf_pos w + length xs,
    wf_faults := tl (wf_faults w)\<rparr>, None)"
  using assms by (cases "wf_faults w") (auto simp: file_Write_def)

lemma file_Seek_ok:
  assumes "\<forall>f\<in>set (wf_faults w). f = None"
  shows "file_Seek pos w = (w\<lparr>wf_pos := pos, wf_faults := tl (wf_faults w)\<rparr>, None)"
  using assms by (cases "wf_faults w") (auto simp: file_Seek_def)

lemma overwrite_end [simp]: "overwrite b (length b) xs = b @ xs"
  by (simp add: overwrite_def)

lemma all_tl: "\<forall>f\<in>set xs. P f \<Longrightarrow> \<forall>f\<in>set (tl xs). P f"
  by (cases xs) auto

lemma write_at_end:
  assumes "at_end (mx_writer m) b"
  obtains w where "on_file (file_Write xs) m = (m\<lparr>mx_writer := w\<rparr>, None)" "at_end w (b @ xs)"
proof -
  have ok: "\<forall>f\<in>set (wf_faults (mx_writer m)). f = None" and w: "wf_bytes (mx_writer m) = b" "wf_pos (mx_writer m) = length b"
    using assms by (simp_all add: at_end_def)
  define v where "v = (mx_writer m)\<lparr>wf_bytes := b @ xs, wf_pos := length b + length xs, wf_faults := tl (wf_faults (mx_writer m))\<rparr>"
  have "file_Write xs (mx_writer m) = (v, None)"
    unfolding file_Write_ok [OF ok] w by (simp add: v_def)
  then have "on_file (file_Write xs) m = (m\<lparr>mx_writer := v\<rparr>, None)" by (simp add: on_file_def)
  moreover have "at_end v (b @ xs)" using all_tl [OF ok] by (simp add: at_end_def v_def)
  ultimately show ?thesis by (rule that)
qed

lemma write_extra_ok:
  assumes "at_end (mx_writer m) b"
  obtains w where "write_extra e m = (m\<lparr>mx_writer := w\<rparr>, None)" "at_end w (b @ avcc_frame e)"
proof -
  obtain w1 where w1: "on_file (file_Write (be32 (word_of_nat (length e)))) m = (m\<lparr>mx_writer := w1\<rparr>, None)"
    "at_end w1 (b @ be32 (word_of_nat (length e)))" using write_at_end [OF assms] .
  then have "at_end (mx_writer (m\<lparr>mx_writer := w1\<rparr>)) (b @ be32 (word_of_nat (length e)))" by simp
  then obtain w where w: "on_file (file_Write e) (m\<lparr>mx_writer := w1\<rparr>) = (m\<lparr>mx_writer := w\<rparr>, None)"
    "at_end w ((b @ be32 (word_of_nat (length e))) @ e)" by (rule write_at_end [of _ _ e]) simp
  show ?thesis
    by (rule that [of w]) (use w w1 in \<open>simp_all add: write_extra_def avcc_frame_def len32_def\<close>)
qed

lemma write_extras_ok:
  assumes "at_end (mx_writer m) b"
  shows "\<exists>w. write_extras es m = (m\<lparr>mx_writer := w\<rparr>, None) \<and> at_end w (b @ concat (map avcc_frame es))"
  using assms
proof (induction es arbitrary: m b)
  case Nil
  then show ?case by (auto intro!: exI [of _ "mx_writer m"])
next
  case (Cons e es)
  from write_extra_ok [OF Cons.prems] obtain w where
    w: "write_extra e m = (m\<lparr>mx_writer := w\<rparr>, None)" "at_end w (b @ avcc_frame e)" .
  with Cons.IH [of "m\<lparr>mx_writer := w\<rparr>" "b @ avcc_frame e"] show ?case by auto
qed

lemma write_entry_ok:
  assumes "at_end (mx_writer m) b" "mx_pending m ! i = pending_of p"
  obtains w where "write_entry i m = (release_entry i p (m\<lparr>mx_writer := w\<rparr>), None)" "at_end w (b @ sample_bytes p)"
proof -
  have pw: "pw_extras (pending_of p) = extras_of p" "pw_pkt (pending_of p) = Some p"
    by (simp_all add: pending_of_def Let_def)
  from write_extras_ok [OF assms(1)] obtain w1 where
    w1: "write_extras (extras_of p) m = (m\<lparr>mx_writer := w1\<rparr>, None)" "at_end w1 (b @ concat (map avcc_frame (extras_of p)))"
    by blast
  then have "at_end (mx_writer (m\<lparr>mx_writer := w1\<rparr>)) (b @ concat (map avcc_frame (extras_of p)))" by simp
  then obtain w where w: "on_file (file_Write (mk_data p)) (m\<lparr>mx_writer := w1\<rparr>) = (m\<lparr>mx_writer := w\<rparr>, None)"
    "at_end w ((b @ concat (map avcc_frame (extras_of p))) @ mk_data p)" by (rule write_at_end [of _ _ "mk_data p"]) simp
  show ?thesis
    by (rule that [of w]) (use w w1 assms(2) pw in \<open>simp_all add: write_entry_def sample_bytes_def\<close>)
qed

lemma pending_writer: "mx_pending (m\<lparr>mx_writer := w\<rparr>) = mx_pending m"
  by simp

lemma pending_release: "j \<noteq> i \<Longrightarrow> mx_pending (release_entry i p m) ! j = mx_pending m ! j"
  by (simp add: release_entry_def)

lemma write_entries_ok:
  assumes "at_end (mx_writer m) b" "distinct is" "\<forall>i\<in>set is. mx_pending m ! i = pending_of (f i)"
  shows "\<exists>w pend. write_entries is m = (m\<lparr>mx_writer := w, mx_pending := pend,
      mx_released := mx_released m @ map (\<lambda>j. mk_id (f j)) is\<rparr>, None) \<and> at_end w (b @ samples_bytes (map f is))"
  using assms
proof (induction "is" arbitrary: m b)
  case Nil
  then show ?case by (auto simp: samples_bytes_def intro!: exI [of _ "mx_writer m"] exI [of _ "mx_pending m"])
next
  case (Cons i "is")
  from Cons.prems obtain w where
    w: "write_entry i m = (release_entry i (f i) (m\<lparr>mx_writer := w\<rparr>), None)" "at_end w (b @ sample_bytes (f i))"
    using write_entry_ok by (metis list.set_intros(1))
  let ?m = "release_entry i (f i) (m\<lparr>mx_writer := w\<rparr>)"
  have "\<forall>j\<in>set is. mx_pending ?m ! j = pending_of (f j)"
    using Cons.prems by (metis (no_types, lifting) distinct.simps(2) list.set_intros(2) pending_release pending_writer)
  from Cons.IH [OF _ _ this, of "b @ sample_bytes (f i)"] w Cons.prems
  obtain w' pend where "write_entries is ?m = (?m\<lparr>mx_writer := w', mx_pending := pend,
      mx_released := mx_released ?m @ map (\<lambda>j. mk_id (f j)) is\<rparr>, None)"
    "at_end w' ((b @ sample_bytes (f i)) @ samples_bytes (map f is))"
    by (auto simp: release_entry_def)
  with w show ?case by (auto simp: release_entry_def samples_bytes_def)
qed

text \<open>The same run into a buffer.\<close>

lemma writes_extra [writes_intros]: "writes (copy_extra e) (avcc_frame e)"
  unfolding copy_extra_def avcc_frame_def len32_def by (intro writes_intros)

lemma copy_entry_writes: "writes (copy_entry (pending_of p)) (sample_bytes p)"
  unfolding copy_entry_def sample_bytes_def
  by (auto simp: pending_of_def Let_def intro!: writes_intros)

lemma copyPendingInto_ok:
  assumes "distinct is" "\<forall>i\<in>set is. mx_pending m ! i = pending_of (f i)"
    "n + length (samples_bytes (map f is)) \<le> length b" "zero_from n b"
  shows "copyPendingInto is (b, n) m = (Some (put_at b n (samples_bytes (map f is)), n + length (samples_bytes (map f is))),
    m\<lparr>mx_pending := [], mx_pendingSize := 0, mx_released := mx_released m @ map (\<lambda>j. mk_id (f j)) is\<rparr>)"
  using assms
proof (induction "is" arbitrary: m b n)
  case Nil
  then show ?case by (simp add: samples_bytes_def clear_pending_def put_at_def)
next
  case (Cons i "is")
  let ?x = "sample_bytes (f i)" and ?xs = "samples_bytes (map f is)"
  have len: "n + length ?x + length ?xs \<le> length b" using Cons.prems(3) by (simp add: samples_bytes_def)
  then have w: "copy_entry (mx_pending m ! i) (b, n) = Inr (put_at b n ?x, n + length ?x)"
    using writesD [OF copy_entry_writes, of n "f i" b] Cons.prems by simp
  let ?m = "release_entry i (f i) m"
  have "\<forall>j\<in>set is. mx_pending ?m ! j = pending_of (f j)"
    using Cons.prems by (metis (no_types, lifting) distinct.simps(2) list.set_intros(2) pending_release)
  moreover have "zero_from (n + length ?x) (put_at b n ?x)" using Cons.prems(4) len by (intro zero_from_put_at) auto
  ultimately have "copyPendingInto is (put_at b n ?x, n + length ?x) ?m =
    (Some (put_at (put_at b n ?x) (n + length ?x) ?xs, n + length ?x + length ?xs),
     ?m\<lparr>mx_pending := [], mx_pendingSize := 0, mx_released := mx_released ?m @ map (\<lambda>j. mk_id (f j)) is\<rparr>)"
    using Cons.prems len by (intro Cons.IH) auto
  moreover have "the (pw_pkt (mx_pending m ! i)) = f i" using Cons.prems by (simp add: pending_of_def Let_def)
  ultimately show ?case
    using w len by (simp add: release_entry_def put_at_put_at samples_bytes_def add.assoc)
qed


section \<open>The simulation\<close>

definition sim :: "muxer \<Rightarrow> spec \<Rightarrow> bool" where
  "sim m a \<longleftrightarrow> mx_streams m = fst a \<and> mx_writePosition m = position (snd a) \<and>
     (\<exists>d ps. snd a = d @ ps \<and> mx_pending m = map pending_of ps \<and> mx_pendingSize m = length (samples_bytes ps) \<and>
        (if mx_flushed m then at_end (mx_writer m) (marshalHeader @ samples_bytes d) else d = [] \<and> at_end (mx_writer m) []))"

definition written :: "muxer \<Rightarrow> spec \<Rightarrow> bool" where
  "written m a \<longleftrightarrow> mx_flushed m \<and> at_end (mx_writer m) (marshalHeader @ samples_bytes (snd a))"

lemma simI:
  assumes "mx_streams m = fst a" "mx_writePosition m = position (snd a)" "snd a = d @ ps"
    "mx_pending m = map pending_of ps" "mx_pendingSize m = length (samples_bytes ps)"
    "if mx_flushed m then at_end (mx_writer m) (marshalHeader @ samples_bytes d) else d = [] \<and> at_end (mx_writer m) []"
  shows "sim m a"
  using assms unfolding sim_def by blast

lemma simE:
  assumes "sim m a"
  obtains d ps where "mx_streams m = fst a" "mx_writePosition m = position (snd a)" "snd a = d @ ps"
    "mx_pending m = map pending_of ps" "mx_pendingSize m = length (samples_bytes ps)"
    "if mx_flushed m then at_end (mx_writer m) (marshalHeader @ samples_bytes d) else d = [] \<and> at_end (mx_writer m) []"
  using assms unfolding sim_def by blast

lemma samples_append [simp]: "samples_bytes (xs @ ys) = samples_bytes xs @ samples_bytes ys"
  by (simp add: samples_bytes_def)

lemma samples_Nil [simp]: "samples_bytes [] = []"
  by (simp add: samples_bytes_def)

lemma samples_one [simp]: "samples_bytes [p] = sample_bytes p"
  by (simp add: samples_bytes_def)

lemma entry_size: "pw_totalSize (pending_of p) = length (sample_bytes p)"
  by (simp add: pending_of_def Let_def sample_bytes_def extra_size_def length_concat avcc_frame_def o_def
      sum_list_addf sum_list_triv)

lemma queue_entries:
  assumes "mx_pending m = map pending_of ps"
  shows "\<forall>i\<in>set [0..<length (mx_pending m)]. mx_pending m ! i = pending_of (ps ! i)"
    and "map (\<lambda>j. ps ! j) [0..<length (mx_pending m)] = ps"
    and "map (\<lambda>j. mk_id (ps ! j)) [0..<length (mx_pending m)] = map mk_id ps"
  using assms map_nth [of ps] by (auto simp: map_nth intro!: nth_equalityI)

lemma writePendingDirect_ok:
  assumes "mx_pending m = map pending_of ps" "at_end (mx_writer m) b"
  obtains w where "writePendingDirect m = (m\<lparr>mx_writer := w, mx_pending := [], mx_pendingSize := 0,
      mx_released := mx_released m @ map mk_id ps\<rparr>, None)" "at_end w (b @ samples_bytes ps)"
proof -
  note q = queue_entries [OF assms(1)]
  from write_entries_ok [OF assms(2) distinct_upt q(1)] obtain w pend where
    w: "write_entries [0..<length (mx_pending m)] m = (m\<lparr>mx_writer := w, mx_pending := pend,
      mx_released := mx_released m @ map mk_id ps\<rparr>, None)" "at_end w (b @ samples_bytes ps)"
    unfolding q(2,3) by blast
  then have "writePendingDirect m = (m\<lparr>mx_writer := w, mx_pending := [], mx_pendingSize := 0,
      mx_released := mx_released m @ map mk_id ps\<rparr>, None)"
    by (simp add: writePendingDirect_def clear_pending_def)
  from that [OF this w(2)] show ?thesis .
qed

lemma copyPending_ok:
  assumes "mx_pending m = map pending_of ps" "n + length (samples_bytes ps) \<le> length b" "zero_from n b"
  shows "copyPendingInto [0..<length (mx_pending m)] (b, n) m =
    (Some (put_at b n (samples_bytes ps), n + length (samples_bytes ps)),
     m\<lparr>mx_pending := [], mx_pendingSize := 0, mx_released := mx_released m @ map mk_id ps\<rparr>)"
proof -
  note q = queue_entries [OF assms(1)]
  show ?thesis
    using copyPendingInto_ok [OF distinct_upt q(1), of n b] assms(2,3) unfolding q(2,3) by simp
qed

section \<open>The header\<close>

lemma marshalHeader_bytes: "marshalHeader = ftyp_layout NewFileType @ box FREE [] @ be32 1 @ be32 MDAT @ replicate 8 0"
proof -
  define w where "w = wr_all [FileType_Marshal NewFileType, FreeType_Marshal, wr_put (be32 1), wr_put (be32 MDAT)]"
  define x where "x = ftyp_layout NewFileType @ box FREE [] @ be32 1 @ be32 MDAT"
  have "writes w x"
    unfolding w_def x_def wr_all.simps wr_then_none by (intro writes_intros ftyp.marshal_writes writes_free TrueI)
  moreover have x: "length x = 48" by (simp add: x_def ftyp_layout_def NewFileType_def)
  moreover have "zero_from 0 (replicate headerSize 0)" by (simp add: zero_from_def)
  ultimately have "w (replicate headerSize 0, 0) = Inr (put_at (replicate headerSize 0) 0 x, 0 + length x)"
    by (intro writesD) (simp_all add: headerSize_def)
  then have "marshalHeader = x @ replicate 8 0"
    unfolding marshalHeader_def marshal_fresh_def w_def [symmetric] by (simp add: put_at_def x headerSize_def)
  then show ?thesis by (simp add: x_def)
qed

lemma length_marshalHeader [simp]: "length marshalHeader = headerSize"
  by (simp add: marshalHeader_bytes ftyp_layout_def NewFileType_def headerSize_def)

lemma length_sized_header [simp]: "length (sized_header sz) = headerSize"
  by (simp add: sized_header_def mdatExtSizeOffset_def headerSize_def)


section \<open>Flushing\<close>

text \<open>
  The contract of a way to flush: every sample committed so far is in the file, nothing else changes.
\<close>

locale flusher =
  fixes op :: "muxer \<Rightarrow> muxer step"
  assumes flush_law: "sim m a \<Longrightarrow> \<exists>m'. op m = (m', None) \<and> sim m' a \<and> written m' a"

text \<open>
  The contract of a way to write a whole file that was never flushed.
\<close>

locale finisher =
  fixes op :: "bytes \<Rightarrow> 64 word \<Rightarrow> muxer \<Rightarrow> muxer step"
  assumes finish_law: "sim m a \<Longrightarrow> \<not> mx_flushed m \<Longrightarrow>
    \<exists>m'. op moov sz m = (m', None) \<and> at_end (mx_writer m') (sized_header sz @ samples_bytes (snd a) @ moov)"

lemma written_sim:
  assumes "sim m a" "mx_flushed m" "mx_pendingSize m = 0"
  shows "written m a"
  using assms by (auto simp: sim_def written_def)

lemma drained_sim:
  assumes "sim m a" "at_end w (marshalHeader @ samples_bytes (snd a))" "mx_flushed m"
  shows "sim (m\<lparr>mx_writer := w, mx_pending := [], mx_pendingSize := 0, mx_released := rel\<rparr>) a"
    and "written (m\<lparr>mx_writer := w, mx_pending := [], mx_pendingSize := 0, mx_released := rel\<rparr>) a"
proof -
  show "sim (m\<lparr>mx_writer := w, mx_pending := [], mx_pendingSize := 0, mx_released := rel\<rparr>) a"
    using assms by (elim simE, intro simI [of _ _ "snd a" "[]"]) simp_all
  show "written (m\<lparr>mx_writer := w, mx_pending := [], mx_pendingSize := 0, mx_released := rel\<rparr>) a"
    using assms by (simp add: written_def)
qed

lemma header_first:
  assumes "sim m a" "\<not> mx_flushed m"
  obtains w where "on_file (file_Write marshalHeader) m = (m\<lparr>mx_writer := w\<rparr>, None)"
    "sim (m\<lparr>mx_writer := w, mx_flushed := True\<rparr>) a"
proof -
  from assms obtain ps where ps: "mx_streams m = fst a" "mx_writePosition m = position (snd a)" "snd a = ps"
    "mx_pending m = map pending_of ps" "mx_pendingSize m = length (samples_bytes ps)" "at_end (mx_writer m) []"
    by (auto elim!: simE)
  from write_at_end [OF ps(6), of marshalHeader] obtain w where
    w: "on_file (file_Write marshalHeader) m = (m\<lparr>mx_writer := w\<rparr>, None)" "at_end w marshalHeader"
    by auto
  have "sim (m\<lparr>mx_writer := w, mx_flushed := True\<rparr>) a"
    by (rule simI [of _ _ "[]" ps]) (use ps w in simp_all)
  from that [OF w(1) this] show ?thesis .
qed

lemma pending_direct:
  assumes "sim m a" "mx_flushed m"
  shows "\<exists>m'. writePendingDirect m = (m', None) \<and> sim m' a \<and> written m' a"
proof -
  from assms obtain d ps where ps: "snd a = d @ ps" "mx_pending m = map pending_of ps"
    "at_end (mx_writer m) (marshalHeader @ samples_bytes d)" by (auto elim!: simE)
  from writePendingDirect_ok [OF ps(2,3)] obtain w where
    w: "writePendingDirect m = (m\<lparr>mx_writer := w, mx_pending := [], mx_pendingSize := 0,
      mx_released := mx_released m @ map mk_id ps\<rparr>, None)" "at_end w ((marshalHeader @ samples_bytes d) @ samples_bytes ps)" .
  then have "at_end w (marshalHeader @ samples_bytes (snd a))" by (simp add: ps(1))
  from drained_sim [OF assms(1) this assms(2)] w(1) show ?thesis by blast
qed

lemma flushDirect_ok:
  assumes "sim m a"
  shows "\<exists>m'. flushDirect m = (m', None) \<and> sim m' a \<and> written m' a"
proof (cases "mx_flushed m")
  case True
  then show ?thesis using pending_direct [OF assms] by (simp add: flushDirect_def)
next
  case False
  from header_first [OF assms this] obtain w where
    w: "on_file (file_Write marshalHeader) m = (m\<lparr>mx_writer := w\<rparr>, None)"
      "sim (m\<lparr>mx_writer := w, mx_flushed := True\<rparr>) a" .
  with False pending_direct [OF w(2)] show ?thesis by (simp add: flushDirect_def)
qed

lemma zero_from_header: "zero_from headerSize (put_at (replicate (k + headerSize) 0) 0 marshalHeader)"
  using zero_from_put_at [of 0 "replicate (k + headerSize) 0" marshalHeader]
  by (simp add: zero_from_def)

lemma flushBatched_ok:
  assumes "sim m a"
  shows "\<exists>m'. flushBatched m = (m', None) \<and> sim m' a \<and> written m' a"
proof -
  from assms obtain d ps where ps: "mx_streams m = fst a" "mx_writePosition m = position (snd a)"
    "snd a = d @ ps" "mx_pending m = map pending_of ps" "mx_pendingSize m = length (samples_bytes ps)"
    "if mx_flushed m then at_end (mx_writer m) (marshalHeader @ samples_bytes d) else d = [] \<and> at_end (mx_writer m) []"
    by (elim simE)
  let ?n = "length (samples_bytes ps)"
  let ?m = "m\<lparr>mx_flushed := True, mx_pending := [], mx_pendingSize := 0, mx_released := mx_released m @ map mk_id ps\<rparr>"
  have fin: "\<exists>m'. on_file (file_Write xs) ?m = (m', None) \<and> sim m' a \<and> written m' a"
    if e: "at_end (mx_writer m) b" "b @ xs = marshalHeader @ samples_bytes (snd a)" for b xs
  proof -
    have "at_end (mx_writer ?m) b" using e(1) by simp
    from write_at_end [OF this, of xs] obtain w where
      w: "on_file (file_Write xs) ?m = (?m\<lparr>mx_writer := w\<rparr>, None)" "at_end w (b @ xs)" .
    moreover have "sim (?m\<lparr>mx_writer := w\<rparr>) a"
      by (rule simI [of _ _ "snd a" "[]"]) (use ps w(2) e(2) in simp_all)
    moreover have "written (?m\<lparr>mx_writer := w\<rparr>) a" using w(2) e(2) by (simp add: written_def)
    ultimately show ?thesis by blast
  qed
  show ?thesis
  proof (cases "mx_flushed m")
    case True
    show ?thesis
    proof (cases "?n = 0")
      case True
      with \<open>mx_flushed m\<close> written_sim [OF assms] assms show ?thesis by (simp add: flushBatched_def ps(5))
    next
      case False
      have m: "m\<lparr>mx_flushed := True\<rparr> = m" using True by simp
      have "copyPendingInto [0..<length (mx_pending m)] (replicate ?n 0, 0) m = (Some (samples_bytes ps, ?n), ?m)"
        using copyPending_ok [OF ps(4), of 0 "replicate ?n 0"] True by (simp add: zero_from_def put_at_def)
      with False True fin [of "marshalHeader @ samples_bytes d" "samples_bytes ps"] ps(3,6) show ?thesis
        by (simp add: flushBatched_def ps(5) m Let_def)
    qed
  next
    case False
    let ?b = "put_at (replicate (?n + headerSize) 0) 0 marshalHeader"
    have "copyPendingInto [0..<length (mx_pending m)] (?b, headerSize) (m\<lparr>mx_flushed := True\<rparr>) =
        (Some (marshalHeader @ samples_bytes ps, headerSize + ?n), ?m)"
      using copyPending_ok [of "m\<lparr>mx_flushed := True\<rparr>" ps headerSize ?b] ps(4) zero_from_header [of ?n]
      by (simp add: put_at_def)
    with False fin [of "[]" "marshalHeader @ samples_bytes ps"] ps(3,6) show ?thesis
      by (simp add: flushBatched_def ps(5) headerSize_def Let_def)
  qed
qed

interpretation direct: flusher flushDirect
  by unfold_locales (rule flushDirect_ok)

interpretation batched: flusher flushBatched
  by unfold_locales (rule flushBatched_ok)

lemma Flush_ok:
  assumes "sim m a"
  shows "\<exists>m'. Flush m = (m', None) \<and> sim m' a \<and> written m' a"
  using assms direct.flush_law [OF assms] batched.flush_law [OF assms] written_sim [OF assms]
  by (auto simp: Flush_def sim_def)

interpretation flush: flusher Flush
  by unfold_locales (rule Flush_ok)


section \<open>Packets\<close>

lemma writePacket_sim:
  assumes "sim m a"
  shows "sim (writePacket i p m) (spec_commit i (mk_ts p) (Some p) a)"
proof -
  from assms obtain d ps where ps: "mx_streams m = fst a" "mx_writePosition m = position (snd a)"
    "snd a = d @ ps" "mx_pending m = map pending_of ps" "mx_pendingSize m = length (samples_bytes ps)"
    "if mx_flushed m then at_end (mx_writer m) (marshalHeader @ samples_bytes d) else d = [] \<and> at_end (mx_writer m) []"
    by (elim simE)
  obtain ss cs where a: "a = (ss, cs)" by (cases a)
  show ?thesis
  proof (cases "ms_lastPacket (ss ! i)")
    case None
    show ?thesis
      by (rule simI [of _ _ d ps]) (use None ps a in \<open>simp_all add: writePacket_def spec_commit_def Let_def\<close>)
  next
    case (Some l)
    let ?p = "with_duration l (mk_ts p)"
    have w: "with_duration l (mk_ts p) = l\<lparr>mk_dur := clamp_duration (mk_ts p - mk_ts l)\<rparr>" by (simp add: with_duration_def)
    show ?thesis
      by (rule simI [of _ _ d "ps @ [?p]"])
        (use Some ps a in \<open>simp_all add: writePacket_def spec_commit_def Let_def w [symmetric] entry_size position_def
          add.assoc\<close>)
  qed
qed

lemma WritePacket_sim:
  assumes "sim m a" "unat (mk_stream p) < length (fst a)"
  shows "\<exists>m'. WritePacket p m = (m', None) \<and> sim m' (spec_write p a)"
  using assms writePacket_sim [OF assms(1), of "unat (mk_stream p)" p]
  by (auto simp: WritePacket_def spec_write_def elim!: simE)

lemma sim_streams:
  assumes "sim m a" "snd a = snd b"
  shows "sim (m\<lparr>mx_streams := fst b\<rparr>) b"
proof -
  from assms(1) obtain d ps where ps: "mx_streams m = fst a" "mx_writePosition m = position (snd a)"
    "snd a = d @ ps" "mx_pending m = map pending_of ps" "mx_pendingSize m = length (samples_bytes ps)"
    "if mx_flushed m then at_end (mx_writer m) (marshalHeader @ samples_bytes d) else d = [] \<and> at_end (mx_writer m) []"
    by (elim simE)
  show ?thesis by (rule simI [of _ _ d ps]) (use ps assms(2) in simp_all)
qed

lemma commit_last_sim:
  assumes "sim m a" "i < length (fst a)"
  shows "sim (commit_last i m) (spec_last i a)"
proof -
  obtain ss cs where a: "a = (ss, cs)" by (cases a)
  have ss: "mx_streams m = ss" using assms(1) a by (auto elim: simE)
  show ?thesis
  proof (cases "ms_lastPacket (ss ! i)")
    case None
    then show ?thesis using assms a ss by (simp add: commit_last_def spec_last_def)
  next
    case (Some l)
    let ?b = "spec_commit i (mk_ts l) (Some l) a"
    have s: "sim (writePacket i l m) ?b" by (rule writePacket_sim [OF assms(1)])
    then have st: "mx_streams (writePacket i l m) = fst ?b" by (auto elim: simE)
    have b: "snd ?b = snd (spec_last i a)" "(fst ?b)[i := (fst ?b ! i)\<lparr>ms_lastPacket := None\<rparr>] = fst (spec_last i a)"
      using Some assms(2) by (simp_all add: spec_last_def spec_commit_def a)
    have "commit_last i m = (writePacket i l m)\<lparr>mx_streams := fst (spec_last i a)\<rparr>"
      by (simp only: commit_last_def ss Some option.case Let_def st b)
    moreover have "sim ((writePacket i l m)\<lparr>mx_streams := fst (spec_last i a)\<rparr>) (spec_last i a)"
      by (rule sim_streams [OF s b(1)])
    ultimately show ?thesis by simp
  qed
qed

lemma length_spec_last [simp]: "length (fst (spec_last i a)) = length (fst a)"
  by (cases a) (simp add: spec_last_def spec_commit_def split: option.split)

lemma length_spec_write [simp]: "length (fst (spec_write p a)) = length (fst a)"
  by (cases a) (simp add: spec_write_def spec_commit_def split: option.split)

lemma fold_last_sim:
  "sim m a \<Longrightarrow> \<forall>i\<in>set is. i < length (fst a) \<Longrightarrow> sim (fold commit_last is m) (fold spec_last is a)"
  by (induction "is" arbitrary: m a) (simp_all add: commit_last_sim)

section \<open>The trailer\<close>

lemma sim_unflushed:
  assumes "sim m a" "\<not> mx_flushed m"
  shows "mx_pending m = map pending_of (snd a)" "mx_pendingSize m = length (samples_bytes (snd a))"
    "at_end (mx_writer m) []"
  using assms by (auto elim!: simE)

lemma trailerDirect_ok:
  assumes "sim m a" "\<not> mx_flushed m"
  shows "\<exists>m'. writeTrailerFastDirect moov sz m = (m', None) \<and>
    at_end (mx_writer m') (sized_header sz @ samples_bytes (snd a) @ moov)"
proof -
  note u = sim_unflushed [OF assms]
  from write_at_end [OF u(3), of "sized_header sz"] obtain w where
    w: "on_file (file_Write (sized_header sz)) m = (m\<lparr>mx_writer := w\<rparr>, None)" "at_end w (sized_header sz)" by auto
  let ?m = "m\<lparr>mx_writer := w\<rparr>"
  have "mx_pending ?m = map pending_of (snd a)" "at_end (mx_writer ?m) (sized_header sz)" using u w by simp_all
  from writePendingDirect_ok [OF this] obtain w' where
    w': "writePendingDirect ?m = (?m\<lparr>mx_writer := w', mx_pending := [], mx_pendingSize := 0,
      mx_released := mx_released ?m @ map mk_id (snd a)\<rparr>, None)" "at_end w' (sized_header sz @ samples_bytes (snd a))" .
  let ?n = "?m\<lparr>mx_writer := w', mx_pending := [], mx_pendingSize := 0, mx_released := mx_released ?m @ map mk_id (snd a)\<rparr>"
  have "at_end (mx_writer ?n) (sized_header sz @ samples_bytes (snd a))" using w' by simp
  from write_at_end [OF this, of moov] obtain v where
    v: "on_file (file_Write moov) ?n = (?n\<lparr>mx_writer := v\<rparr>, None)"
      "at_end v ((sized_header sz @ samples_bytes (snd a)) @ moov)" .
  have "writeTrailerFastDirect moov sz m = (?n\<lparr>mx_writer := v\<rparr>, None)"
    by (simp only: writeTrailerFastDirect_def w(1) w'(1) v(1) then_do_None)
  with v(2) show ?thesis by simp
qed

lemma trailerBatched_ok:
  assumes "sim m a" "\<not> mx_flushed m"
  shows "\<exists>m'. writeTrailerFastBatched moov sz m = (m', None) \<and>
    at_end (mx_writer m') (sized_header sz @ samples_bytes (snd a) @ moov)"
proof -
  note u = sim_unflushed [OF assms]
  let ?n = "length (samples_bytes (snd a))"
  define b where "b = put_at (replicate (headerSize + ?n + length moov) 0) 0 (sized_header sz)"
  have lb: "length b = headerSize + ?n + length moov" by (simp add: b_def)
  have b: "b = sized_header sz @ replicate (?n + length moov) 0" by (simp add: b_def put_at_def)
  have z: "zero_from headerSize b"
    using zero_from_put_at [of 0 "replicate (headerSize + ?n + length moov) 0" "sized_header sz"]
    by (simp add: b_def zero_from_def)
  let ?m = "m\<lparr>mx_pending := [], mx_pendingSize := 0, mx_released := mx_released m @ map mk_id (snd a)\<rparr>"
  have c: "copyPendingInto [0..<length (mx_pending m)] (b, headerSize) m =
      (Some (put_at b headerSize (samples_bytes (snd a)), headerSize + ?n), ?m)"
    using copyPending_ok [OF u(1) _ z] lb by simp
  have "wr_copy moov (put_at b headerSize (samples_bytes (snd a)), headerSize + ?n) =
      Inr (sized_header sz @ samples_bytes (snd a) @ moov, headerSize + ?n + length moov)"
    by (simp add: wr_copy_def lb) (simp add: put_at_def b)
  moreover have "at_end (mx_writer ?m) []" using u(3) by simp
  then obtain w where "on_file (file_Write (sized_header sz @ samples_bytes (snd a) @ moov)) ?m = (?m\<lparr>mx_writer := w\<rparr>, None)"
      "at_end w ([] @ sized_header sz @ samples_bytes (snd a) @ moov)"
    by (rule write_at_end)
  ultimately show ?thesis
    by (simp add: writeTrailerFastBatched_def u(2) Let_def b_def [symmetric] c)
qed

interpretation fast_direct: finisher writeTrailerFastDirect
  by unfold_locales (rule trailerDirect_ok)

interpretation fast_batched: finisher writeTrailerFastBatched
  by unfold_locales (rule trailerBatched_ok)

lemma patch_header:
  assumes "b = marshalHeader @ c"
  shows "overwrite b 48 (be64 sz) = sized_header sz @ c"
proof -
  have "length b = 56 + length c" using assms by (simp add: headerSize_def)
  then show ?thesis
    unfolding sized_header_def mdatExtSizeOffset_def put_at_def overwrite_def assms by (simp add: headerSize_def)
qed

lemma trailerSeek_ok:
  assumes "sim m a"
  shows "\<exists>m'. writeTrailerSeek moov sz m = (m', None) \<and>
    at_end (mx_writer m') (sized_header sz @ samples_bytes (snd a) @ moov)"
proof -
  from flush.flush_law [OF assms] obtain m1 where m1: "Flush m = (m1, None)" "sim m1 a" "written m1 a" by blast
  define w where "w = mx_writer m1"
  define fs where "fs = wf_faults w"
  have w: "wf_bytes w = marshalHeader @ samples_bytes (snd a)" and ok: "\<forall>f\<in>set fs. f = None"
    using m1(3) by (auto simp: written_def at_end_def w_def fs_def)
  define v where "v = w\<lparr>wf_bytes := sized_header sz @ samples_bytes (snd a), wf_pos := 56, wf_faults := tl (tl fs)\<rparr>"
  define u where "u = v\<lparr>wf_pos := position (snd a), wf_faults := tl (tl (tl fs))\<rparr>"
  note oks = ok all_tl [OF ok] all_tl [OF all_tl [OF ok]] all_tl [OF all_tl [OF all_tl [OF ok]]]
  have s1: "on_file (file_Seek mdatExtSizeOffset) m1 = (m1\<lparr>mx_writer := w\<lparr>wf_pos := 48, wf_faults := tl fs\<rparr>\<rparr>, None)"
    using oks by (simp add: on_file_def w_def [symmetric] file_Seek_ok fs_def mdatExtSizeOffset_def)
  have "file_Write (be64 sz) (w\<lparr>wf_pos := 48, wf_faults := tl fs\<rparr>) = (v, None)"
    using oks by (simp add: file_Write_ok patch_header [OF w] v_def)
  then have s2: "on_file (file_Write (be64 sz)) (m1\<lparr>mx_writer := w\<lparr>wf_pos := 48, wf_faults := tl fs\<rparr>\<rparr>) = (m1\<lparr>mx_writer := v\<rparr>, None)"
    by (simp add: on_file_def)
  have pos: "mx_writePosition m1 = position (snd a)" using m1(2) by (auto elim: simE)
  have "file_Seek (position (snd a)) v = (u, None)" using oks by (simp add: file_Seek_ok u_def v_def)
  then have s3: "on_file (file_Seek (mx_writePosition (m1\<lparr>mx_writer := v\<rparr>))) (m1\<lparr>mx_writer := v\<rparr>) = (m1\<lparr>mx_writer := u\<rparr>, None)"
    by (simp add: on_file_def pos)
  have "at_end (mx_writer (m1\<lparr>mx_writer := u\<rparr>)) (sized_header sz @ samples_bytes (snd a))"
    using oks by (simp add: u_def v_def at_end_def position_def)
  from write_at_end [OF this, of moov] obtain x where
    x: "on_file (file_Write moov) (m1\<lparr>mx_writer := u\<rparr>) = (m1\<lparr>mx_writer := x\<rparr>, None)"
      "at_end x ((sized_header sz @ samples_bytes (snd a)) @ moov)" by auto
  have "writeTrailerSeek moov sz m = (m1\<lparr>mx_writer := x\<rparr>, None)"
    by (simp only: writeTrailerSeek_def m1(1) then_do_None s1 s2 s3 x(1))
  with x(2) show ?thesis by simp
qed


lemma movie_marshal: "marshal_fresh (Movie_Len (movie_of now ss)) (Movie_Marshal (movie_of now ss)) = Inr (moov_layout (movie_of now ss))"
  by (rule moov.marshal_exact) (simp add: movie_of_def moov_arr_def NewMovieHeader_def mvhd_arr_def opt_all_def)

lemma mdat_size: "word_of_int (int (position cs) - 40) = (word_of_nat (16 + length (samples_bytes cs)) :: 64 word)"
proof -
  have "int (position cs) - 40 = int (16 + length (samples_bytes cs))" by (simp add: position_def headerSize_def)
  then show ?thesis by (simp only: of_int_of_nat_eq)
qed

lemma trailer_body_ok:
  assumes "sim m a"
  shows "\<exists>m'. trailer_body now m = (m', None) \<and> wf_bytes (mx_writer m') = spec_file now (spec_trailer a)"
proof -
  let ?a = "spec_trailer a" and ?m = "fold commit_last [0..<length (mx_streams m)] m"
  have len: "length (mx_streams m) = length (fst a)" using assms by (auto elim: simE)
  then have s: "sim ?m ?a" unfolding spec_trailer_def by (simp add: fold_last_sim [OF assms])
  let ?b = "(map finish_stream (fst ?a), snd ?a)"
  let ?n = "?m\<lparr>mx_streams := fst ?b\<rparr>"
  have n: "sim ?n ?b" by (rule sim_streams [OF s]) simp
  have built: "buildMoov now ?m = (?n, Inr (spec_moov now ?a))"
    using s by (auto simp: buildMoov_def Let_def movie_marshal spec_moov_def elim!: simE)
  have pos: "mx_writePosition ?n = position (snd ?a)" using n by (auto elim: simE)
  let ?sz = "word_of_nat (16 + length (samples_bytes (snd ?a)))"
  have "\<exists>m'. (if \<not> mx_flushed ?n then writeTrailerFast (spec_moov now ?a) ?sz ?n else writeTrailerSeek (spec_moov now ?a) ?sz ?n) =
      (m', None) \<and> at_end (mx_writer m') (sized_header ?sz @ samples_bytes (snd ?b) @ spec_moov now ?a)"
    using fast_direct.finish_law [OF n, of "spec_moov now ?a" ?sz] fast_batched.finish_law [OF n, of "spec_moov now ?a" ?sz]
      trailerSeek_ok [OF n, of "spec_moov now ?a" ?sz]
    unfolding writeTrailerFast_def by (cases "mx_flushed ?n"; cases "mx_batchedDump ?n") simp_all
  moreover have "trailer_body now m = (if \<not> mx_flushed ?n then writeTrailerFast (spec_moov now ?a) ?sz ?n
      else writeTrailerSeek (spec_moov now ?a) ?sz ?n)"
    by (simp only: trailer_body_def Let_def built prod.case sum.case pos mdat_size)
  ultimately show ?thesis by (auto simp only: at_end_def spec_file_def snd_conv)
qed

lemma WriteTrailer_ok:
  assumes "sim m a"
  shows "\<exists>m'. WriteTrailer now m = (m', None) \<and> wf_bytes (mx_writer m') = spec_file now (spec_trailer a)"
  using trailer_body_ok [OF assms, of now] by (auto simp: WriteTrailer_def releasePending_def)

section \<open>Runs\<close>

datatype mux_op = OpWrite media_packet | OpFlush

fun run_op :: "mux_op \<Rightarrow> muxer \<Rightarrow> muxer step" where
  "run_op (OpWrite p) m = WritePacket p m"
| "run_op OpFlush m = Flush m"

fun run_ops :: "mux_op list \<Rightarrow> muxer \<Rightarrow> muxer step" where
  "run_ops [] m = (m, None)"
| "run_ops (op # ops) m = then_do (run_op op m) (run_ops ops)"

definition packets_of :: "mux_op list \<Rightarrow> media_packet list" where
  "packets_of ops = concat (map (\<lambda>op. case op of OpWrite p \<Rightarrow> [p] | OpFlush \<Rightarrow> []) ops)"

definition spec_run :: "media_packet list \<Rightarrow> spec \<Rightarrow> spec" where
  "spec_run = fold spec_write"

lemma run_ops_sim:
  assumes "sim m a" "\<forall>p\<in>set (packets_of ops). unat (mk_stream p) < length (fst a)"
  shows "\<exists>m'. run_ops ops m = (m', None) \<and> sim m' (spec_run (packets_of ops) a)"
  using assms
proof (induction ops arbitrary: m a)
  case Nil
  then show ?case by (simp add: packets_of_def spec_run_def)
next
  case (Cons op ops)
  show ?case
  proof (cases op)
    case (OpWrite p)
    then obtain m1 where "WritePacket p m = (m1, None)" "sim m1 (spec_write p a)"
      using WritePacket_sim [OF Cons.prems(1), of p] Cons.prems(2) by (auto simp: packets_of_def)
    with Cons.IH [of m1 "spec_write p a"] Cons.prems(2) OpWrite show ?thesis
      by (simp add: packets_of_def spec_run_def)
  next
    case OpFlush
    then obtain m1 where "Flush m = (m1, None)" "sim m1 a" using flush.flush_law [OF Cons.prems(1)] by auto
    with Cons.IH [of m1 a] Cons.prems(2) OpFlush show ?thesis
      by (simp add: packets_of_def spec_run_def)
  qed
qed

lemma Mux_sim:
  assumes "Mux now video audio (NewMuxer w batched) = (m, None)" "at_end w []"
  shows "sim m (mx_streams m, [])"
  using assms
  by (auto simp: Mux_def NewMuxer_def releasePending_def new_stream_opt_def newStream_def then_do_def sim_def position_def
      headerSize_def held_pending_def held_last_def split: option.splits if_splits)

definition media_file :: "time \<Rightarrow> mux_op list \<Rightarrow> muxer \<Rightarrow> bytes step" where
  "media_file now ops m = (case then_do (run_ops ops m) (WriteTrailer now) of (m', e) \<Rightarrow> (wf_bytes (mx_writer m'), e))"

lemma media_file_spec:
  assumes "Mux start video audio (NewMuxer w batched) = (m, None)" "at_end w []"
    and "\<forall>p\<in>set (packets_of ops). unat (mk_stream p) < length (mx_streams m)"
  shows "media_file now ops m = (spec_file now (spec_trailer (spec_run (packets_of ops) (mx_streams m, []))), None)"
proof -
  from run_ops_sim [OF Mux_sim [OF assms(1,2)], of ops] assms(3) obtain m1 where
    m1: "run_ops ops m = (m1, None)" "sim m1 (spec_run (packets_of ops) (mx_streams m, []))" by auto
  from WriteTrailer_ok [OF m1(2), of now] m1(1) show ?thesis by (auto simp: media_file_def)
qed

lemma Mux_streams:
  assumes "Mux now video audio (NewMuxer w batched) = (m, None)" "Mux now video audio (NewMuxer w' batched') = (m', None)"
  shows "mx_streams m = mx_streams m'"
  using assms
  by (auto simp: Mux_def NewMuxer_def releasePending_def new_stream_opt_def newStream_def then_do_def
      split: option.splits if_splits)

text \<open>C17: when every write succeeds, the bytes of the file depend on the packets only: neither the calls of
  \<open>Flush\<close> in between, nor whether the muxer writes packet by packet or in one piece, change it.\<close>

theorem mp4_flush_invisible:
  assumes "Mux start video audio (NewMuxer w batched) = (m, None)" "at_end w []"
    and "Mux start video audio (NewMuxer w' batched') = (m', None)" "at_end w' []"
    and "packets_of ops = packets_of ops'"
    and "\<forall>p\<in>set (packets_of ops). unat (mk_stream p) < length (mx_streams m)"
  shows "media_file now ops m = media_file now ops' m' \<and> snd (media_file now ops m) = None"
  using media_file_spec [OF assms(1,2,6)] media_file_spec [OF assms(3,4), of ops'] assms(5,6)
    Mux_streams [OF assms(1,3)] by simp

end
