(* ===== verification/Mp4MuxTables.thy ===== *)
theory Mp4MuxTables
  imports Mp4MuxSpec
begin

text \<open>
  The sample tables of the MP4 muxer: where each packet of each stream lies in the file, which of them
  are key frames, how long they last; and that the muxer gives every packet back exactly once.
\<close>

section \<open>What the tables should hold\<close>

definition on_stream :: "nat \<Rightarrow> media_packet \<Rightarrow> bool" where
  "on_stream i p \<longleftrightarrow> unat (mk_stream p) = i"

definition is_key :: "media_packet \<Rightarrow> bool" where
  "is_key p \<longleftrightarrow> mk_video p \<and> mk_key p"

text \<open>A sample lasts until the next one of its stream; the last one lasts a millisecond.\<close>

fun with_durations :: "media_packet list \<Rightarrow> media_packet list" where
  "with_durations [] = []"
| "with_durations [p] = [p\<lparr>mk_dur := Millisecond\<rparr>]"
| "with_durations (p # q # ps) = with_duration p (mk_ts q) # with_durations (q # ps)"

fun placed :: "nat \<Rightarrow> media_packet list \<Rightarrow> (nat \<times> media_packet) list" where
  "placed n [] = []"
| "placed n (p # ps) = (n, p) # placed (n + length (sample_bytes p)) ps"

definition sync_numbers :: "media_packet list \<Rightarrow> 32 word list" where
  "sync_numbers ps = map (\<lambda>k. word_of_nat (k + 1)) (filter (\<lambda>k. is_key (ps ! k)) [0..<length ps])"

text \<open>A run-length table, expanded: the duration and the composition offset of each sample.\<close>

definition stts_expand :: "TimeToSampleEntry list \<Rightarrow> 32 word list" where
  "stts_expand es = concat (map (\<lambda>e. replicate (unat (stts_Count e)) (stts_Duration e)) es)"

definition ctts_expand :: "CompositionOffsetEntry list \<Rightarrow> 32 word list" where
  "ctts_expand es = concat (map (\<lambda>e. replicate (unat (ctts_Count e)) (ctts_Offset e)) es)"

definition stts_counted :: "TimeToSampleEntry list \<Rightarrow> bool" where
  "stts_counted es \<longleftrightarrow> (\<forall>e\<in>set es. 0 < unat (stts_Count e))"

definition ctts_counted :: "CompositionOffsetEntry list \<Rightarrow> bool" where
  "ctts_counted es \<longleftrightarrow> (\<forall>e\<in>set es. 0 < unat (ctts_Count e))"

definition current_of :: "'a list \<Rightarrow> nat option" where
  "current_of es = (if es = [] then None else Some (length es - 1))"

definition sample_ts :: "media_packet \<Rightarrow> 32 word" where
  "sample_ts p = word_of_int (timeToTS (mk_dur p) 90000)"

definition timed :: "mux_stream \<Rightarrow> media_packet list \<Rightarrow> bool" where
  "timed s ps \<longleftrightarrow>
     (\<exists>t. stbl_TimeToSample (ms_sample s) = Some t \<and> ms_sttsEntry s = current_of (stts_Entries t) \<and>
       stts_counted (stts_Entries t) \<and> stts_expand (stts_Entries t) = map sample_ts ps) \<and>
     (\<exists>t. stbl_CompositionOffset (ms_sample s) = Some t \<and> ms_cttsEntry s = current_of (ctts_Entries t) \<and>
       ctts_counted (ctts_Entries t) \<and> ctts_expand (ctts_Entries t) = replicate (length ps) 0)"

text \<open>The tables of a stream list the given samples.\<close>

definition tabled :: "mux_stream \<Rightarrow> (nat \<times> media_packet) list \<Rightarrow> bool" where
  "tabled s pl \<longleftrightarrow> ms_sampleIndex s = length pl \<and>
     map_option stco_Entries (stbl_ChunkOffset (ms_sample s)) = Some (map (\<lambda>x. word_of_nat (fst x)) pl) \<and>
     map_option stsz_Entries (stbl_SampleSize (ms_sample s)) = Some (map (\<lambda>x. word_of_nat (length (sample_bytes (snd x)))) pl) \<and>
     map_option stss_Entries (stbl_SyncSample (ms_sample s)) = Some (sync_numbers (map snd pl)) \<and>
     map_option stsc_Entries (stbl_SampleToChunk (ms_sample s)) =
       Some [\<lparr>stsc_FirstChunk = 1, stsc_SamplesPerChunk = 1, stsc_SampleDescId = 1\<rparr>] \<and>
     ms_timeScale s = 90000 \<and> (length pl < 2 ^ 32 \<longrightarrow> timed s (map snd pl))"

lemma sync_numbers_snoc: "sync_numbers (ps @ [p]) = sync_numbers ps @ (if is_key p then [word_of_nat (length ps + 1)] else [])"
proof -
  have "filter (\<lambda>k. is_key ((ps @ [p]) ! k)) [0..<length ps] = filter (\<lambda>k. is_key (ps ! k)) [0..<length ps]"
    by (rule filter_cong) (simp_all add: nth_append)
  then show ?thesis by (simp add: sync_numbers_def)
qed

lemma placed_append: "placed n (xs @ ys) = placed n xs @ placed (n + length (samples_bytes xs)) ys"
  by (induction xs arbitrary: n) (simp_all add: samples_bytes_def add.assoc)

lemma snd_placed [simp]: "map snd (placed n xs) = xs"
  by (induction xs arbitrary: n) simp_all

lemma placed_bound: "(off, p) \<in> set (placed n cs) \<Longrightarrow> off + length (sample_bytes p) \<le> n + length (samples_bytes cs)"
  by (induction cs arbitrary: n) (fastforce simp: samples_bytes_def)+

lemma placed_in_file:
  assumes "(off, p) \<in> set (placed n cs)" "length pre = n"
  shows "sub (pre @ samples_bytes cs @ post) off (off + length (sample_bytes p)) = sample_bytes p"
  using assms
proof (induction cs arbitrary: n pre)
  case (Cons c cs)
  show ?case
  proof (cases "(off, p) = (n, c)")
    case True
    then show ?thesis using Cons.prems by (simp add: samples_bytes_def sub_def)
  next
    case False
    with Cons.prems have "(off, p) \<in> set (placed (n + length (sample_bytes c)) cs)" by auto
    from Cons.IH [OF this, of "pre @ sample_bytes c"] Cons.prems(2) show ?thesis by (simp add: samples_bytes_def)
  qed
qed simp

section \<open>One sample\<close>

text \<open>Which part of the stream each step of the commit writes.\<close>

lemma update_stts_frame:
  "ms_lastPacket (update_stts d s) = ms_lastPacket s" "ms_sampleIndex (update_stts d s) = ms_sampleIndex s"
  "stbl_ChunkOffset (ms_sample (update_stts d s)) = stbl_ChunkOffset (ms_sample s)"
  "stbl_SampleSize (ms_sample (update_stts d s)) = stbl_SampleSize (ms_sample s)"
  "stbl_SyncSample (ms_sample (update_stts d s)) = stbl_SyncSample (ms_sample s)"
  "stbl_SampleToChunk (ms_sample (update_stts d s)) = stbl_SampleToChunk (ms_sample s)"
  "stbl_CompositionOffset (ms_sample (update_stts d s)) = stbl_CompositionOffset (ms_sample s)"
  "ms_duration (update_stts d s) = ms_duration s" "ms_timeScale (update_stts d s) = ms_timeScale s"
  by (simp_all add: update_stts_def split: option.split prod.split)

lemma update_ctts_frame:
  "ms_lastPacket (update_ctts s) = ms_lastPacket s" "ms_sampleIndex (update_ctts s) = ms_sampleIndex s"
  "stbl_ChunkOffset (ms_sample (update_ctts s)) = stbl_ChunkOffset (ms_sample s)"
  "stbl_SampleSize (ms_sample (update_ctts s)) = stbl_SampleSize (ms_sample s)"
  "stbl_SyncSample (ms_sample (update_ctts s)) = stbl_SyncSample (ms_sample s)"
  "stbl_SampleToChunk (ms_sample (update_ctts s)) = stbl_SampleToChunk (ms_sample s)"
  "stbl_TimeToSample (ms_sample (update_ctts s)) = stbl_TimeToSample (ms_sample s)"
  "ms_duration (update_ctts s) = ms_duration s" "ms_timeScale (update_ctts s) = ms_timeScale s"
  "ms_sttsEntry (update_ctts s) = ms_sttsEntry s"
  by (simp_all add: update_ctts_def split: option.split prod.split)

lemma add_sync_frame:
  "stbl_ChunkOffset (add_sync s p t) = stbl_ChunkOffset t" "stbl_SampleSize (add_sync s p t) = stbl_SampleSize t"
  "stbl_SampleToChunk (add_sync s p t) = stbl_SampleToChunk t" "stbl_TimeToSample (add_sync s p t) = stbl_TimeToSample t"
  "stbl_CompositionOffset (add_sync s p t) = stbl_CompositionOffset t"
  by (simp_all add: add_sync_def split: option.split)

lemma add_chunk_frame:
  "stbl_SyncSample (add_chunk n k t) = stbl_SyncSample t" "stbl_SampleToChunk (add_chunk n k t) = stbl_SampleToChunk t"
  "stbl_TimeToSample (add_chunk n k t) = stbl_TimeToSample t"
  by (simp_all add: add_chunk_def)

lemmas commit_frames = update_stts_frame update_ctts_frame add_sync_frame add_chunk_frame

lemma add_sync_entries:
  "map_option stss_Entries (stbl_SyncSample t) = Some es \<Longrightarrow>
   map_option stss_Entries (stbl_SyncSample (add_sync s p t)) =
     Some (es @ (if is_key p then [word_of_nat (ms_sampleIndex s + 1)] else []))"
  by (auto simp: add_sync_def is_key_def split: option.split)

lemma add_chunk_entries:
  "map_option stco_Entries (stbl_ChunkOffset t) = Some cs \<Longrightarrow>
   map_option stco_Entries (stbl_ChunkOffset (add_chunk n k t)) = Some (cs @ [word_of_nat n])"
  "map_option stsz_Entries (stbl_SampleSize t) = Some zs \<Longrightarrow>
   map_option stsz_Entries (stbl_SampleSize (add_chunk n k t)) = Some (zs @ [word_of_nat k])"
  by (auto simp: add_chunk_def)

lemma stts_count_le: "e \<in> set es \<Longrightarrow> unat (stts_Count e) \<le> length (stts_expand es)"
  by (auto simp: stts_expand_def length_concat o_def intro: member_le_sum_list)

lemma ctts_count_le: "e \<in> set es \<Longrightarrow> unat (ctts_Count e) \<le> length (ctts_expand es)"
  by (auto simp: ctts_expand_def length_concat o_def intro: member_le_sum_list)

lemma unat_Suc_count: "unat (w :: 32 word) + 1 < 2 ^ 32 \<Longrightarrow> unat (w + 1) = unat w + 1"
  by (simp add: unat_word_ariths)

lemma add_stts_expand:
  assumes "length (stts_expand es) + 1 < 2 ^ 32" "add_stts d (current_of es, es) = (cur, es')"
    and "stts_counted es"
  shows "cur = current_of es' \<and> stts_counted es' \<and> stts_expand es' = stts_expand es @ [d]"
proof (cases es rule: rev_cases)
  case Nil
  then show ?thesis using assms(2) by (auto simp: add_stts_def current_of_def stts_expand_def stts_counted_def)
next
  case (snoc xs e)
  have "unat (stts_Count e + 1) = unat (stts_Count e) + 1"
    using stts_count_le [of e es] assms(1) snoc by (intro unat_Suc_count) simp
  then show ?thesis using assms(2,3) snoc
    by (auto simp: add_stts_def current_of_def stts_expand_def stts_counted_def nth_append list_update_append replicate_append_same
        split: if_splits)
qed

lemma add_ctts_expand:
  assumes "length (ctts_expand es) + 1 < 2 ^ 32" "add_ctts (current_of es, es) = (cur, es')"
    and "ctts_counted es"
  shows "cur = current_of es' \<and> ctts_counted es' \<and> ctts_expand es' = ctts_expand es @ [0]"
proof (cases es rule: rev_cases)
  case Nil
  then show ?thesis using assms(2) by (auto simp: add_ctts_def current_of_def ctts_expand_def ctts_counted_def)
next
  case (snoc xs e)
  have "unat (ctts_Count e + 1) = unat (ctts_Count e) + 1"
    using ctts_count_le [of e es] assms(1) snoc by (intro unat_Suc_count) simp
  then show ?thesis using assms(2,3) snoc
    by (auto simp: add_ctts_def current_of_def ctts_expand_def ctts_counted_def nth_append list_update_append replicate_append_same
        split: if_splits)
qed

lemma update_stts_timed:
  assumes "timed s ps" "length ps + 1 < 2 ^ 32"
  shows "\<exists>t. stbl_TimeToSample (ms_sample (update_stts d s)) = Some t \<and>
    ms_sttsEntry (update_stts d s) = current_of (stts_Entries t) \<and> stts_counted (stts_Entries t) \<and>
    stts_expand (stts_Entries t) = map sample_ts ps @ [d]"
proof -
  from assms(1) obtain t where t: "stbl_TimeToSample (ms_sample s) = Some t" "ms_sttsEntry s = current_of (stts_Entries t)"
    "stts_counted (stts_Entries t)" "stts_expand (stts_Entries t) = map sample_ts ps" by (auto simp: timed_def)
  obtain cur es where a: "add_stts d (current_of (stts_Entries t), stts_Entries t) = (cur, es)" by force
  with add_stts_expand [OF _ a] t assms(2) show ?thesis by (simp add: update_stts_def)
qed

lemma update_ctts_timed:
  assumes "timed s ps" "length ps + 1 < 2 ^ 32" "stbl_CompositionOffset (ms_sample s') = stbl_CompositionOffset (ms_sample s)"
    "ms_cttsEntry s' = ms_cttsEntry s"
  shows "\<exists>t. stbl_CompositionOffset (ms_sample (update_ctts s')) = Some t \<and>
    ms_cttsEntry (update_ctts s') = current_of (ctts_Entries t) \<and> ctts_counted (ctts_Entries t) \<and>
    ctts_expand (ctts_Entries t) = replicate (length ps + 1) 0"
proof -
  from assms obtain t where t: "stbl_CompositionOffset (ms_sample s') = Some t" "ms_cttsEntry s' = current_of (ctts_Entries t)"
    "ctts_counted (ctts_Entries t)" "ctts_expand (ctts_Entries t) = replicate (length ps) 0" by (auto simp: timed_def)
  obtain cur es where a: "add_ctts (current_of (ctts_Entries t), ctts_Entries t) = (cur, es)" by force
  with add_ctts_expand [OF _ a] t assms(2) show ?thesis by (simp add: update_ctts_def replicate_append_same)
qed

lemma commit_timed:
  assumes "timed s ps" "length ps + 1 < 2 ^ 32" "ms_timeScale s = 90000"
  shows "timed (commit_sample pos p s) (ps @ [p])"
proof -
  let ?s = "s\<lparr>ms_lastPacketDataOffset := pos + pw_extraSize (pending_of p), ms_lastPacketDataSize := length (mk_data p)\<rparr>"
  let ?t = "?s\<lparr>ms_sample := add_sync ?s p (ms_sample ?s)\<rparr>"
  let ?u = "update_stts (sample_ts p) ?t"
  have t: "timed ?t ps" using assms(1) by (simp add: timed_def add_sync_frame)
  have d: "word_of_int (Stream_timeToTS ?t (mk_dur p)) = sample_ts p"
    using assms(3) by (simp add: Stream_timeToTS_def sample_ts_def timeToTS_def)
  have c: "ms_cttsEntry ?u = ms_cttsEntry ?t"
    by (simp add: update_stts_def split: option.split prod.split)
  from update_stts_timed [OF t assms(2), of "sample_ts p"] update_ctts_timed [OF t assms(2) update_stts_frame(7) c]
  show ?thesis
    unfolding timed_def commit_sample_def Let_def d by (simp add: update_ctts_frame add_chunk_def)
qed

lemma commit_tabled:
  assumes "tabled s pl"
  shows "tabled (commit_sample pos p s) (pl @ [(pos, p)])"
proof -
  have "ms_timeScale (commit_sample pos p s) = ms_timeScale s"
    by (simp add: commit_sample_def Let_def commit_frames)
  moreover have "timed (commit_sample pos p s) (map snd (pl @ [(pos, p)]))" if "length (pl @ [(pos, p)]) < 2 ^ 32"
    using commit_timed [of s "map snd pl" pos p] assms that by (simp add: tabled_def)
  ultimately show ?thesis
    using assms unfolding tabled_def commit_sample_def Let_def entry_size
    by (simp add: commit_frames add_chunk_entries add_sync_entries sync_numbers_snoc del: map_option_eq_Some)
qed

lemma tabled_last [simp]: "tabled (s\<lparr>ms_lastPacket := x\<rparr>) pl = tabled s pl"
  by (simp add: tabled_def timed_def)

section \<open>All samples\<close>

definition last_opt :: "'a list \<Rightarrow> 'a option" where
  "last_opt xs = (if xs = [] then None else Some (last xs))"

text \<open>
  A stream after the packets \<open>ws\<close>, of which the samples \<open>cs\<close> have been committed: the last packet of
  the stream is held back, unless it has been \<open>over\<close>.
\<close>

definition stream_follows :: "nat \<Rightarrow> bool \<Rightarrow> media_packet list \<Rightarrow> mux_stream \<Rightarrow> media_packet list \<Rightarrow> bool" where
  "stream_follows i over ws s cs \<longleftrightarrow>
     filter (on_stream i) cs = (if over then with_durations (filter (on_stream i) ws)
       else butlast (with_durations (filter (on_stream i) ws))) \<and>
     ms_lastPacket s = (if over then None else last_opt (filter (on_stream i) ws)) \<and>
     tabled s (filter (\<lambda>x. on_stream i (snd x)) (placed headerSize cs))"

definition follows :: "nat \<Rightarrow> media_packet list \<Rightarrow> spec \<Rightarrow> bool" where
  "follows k ws a \<longleftrightarrow> (\<forall>i<length (fst a). stream_follows i (i < k) ws (fst a ! i) (snd a))"

lemma length_with_durations [simp]: "length (with_durations ps) = length ps"
  by (induction ps rule: with_durations.induct) simp_all

lemma with_durations_Nil_iff [simp]: "with_durations ps = [] \<longleftrightarrow> ps = []"
  by (metis length_0_conv length_with_durations)

lemma with_durations_snoc:
  "with_durations (xs @ [p, q]) = butlast (with_durations (xs @ [p])) @ [with_duration p (mk_ts q), q\<lparr>mk_dur := Millisecond\<rparr>]"
proof (induction xs rule: with_durations.induct)
  case (2 x)
  then show ?case by simp
qed simp_all

lemma with_durations_last: "with_durations (xs @ [p]) = butlast (with_durations (xs @ [p])) @ [with_duration p (mk_ts p)]"
  by (induction xs rule: with_durations.induct) (simp_all add: with_duration_def clamp_duration_def)

lemma on_stream_duration [simp]: "on_stream i (with_duration p ts) = on_stream i p"
  by (simp add: on_stream_def with_duration_def)

lemma last_opt_on: "last_opt (filter P ys) = Some l \<Longrightarrow> P l"
  using last_in_set [of "filter P ys"] by (auto simp: last_opt_def split: if_splits)

lemma placed_snoc: "placed headerSize (cs @ [p]) = placed headerSize cs @ [(position cs, p)]"
  by (simp add: placed_append position_def)

text \<open>A commit on stream \<open>j\<close>: its samples grow by the packet it held back, the other streams stay.\<close>

lemma commit_step:
  assumes "ms_lastPacket (ss ! j) = Some l" "on_stream j l" "j < length ss"
    and "tabled (ss ! j) (filter (\<lambda>x. on_stream j (snd x)) (placed headerSize cs))"
    and "spec_commit j ts x (ss, cs) = (ss', cs')"
  shows "filter (on_stream j) cs' = filter (on_stream j) cs @ [with_duration l ts]"
    and "ms_lastPacket (ss' ! j) = x"
    and "tabled (ss' ! j) (filter (\<lambda>x. on_stream j (snd x)) (placed headerSize cs'))"
    and "i \<noteq> j \<Longrightarrow> filter (on_stream i) cs' = filter (on_stream i) cs \<and> ss' ! i = ss ! i \<and>
      filter (\<lambda>x. on_stream i (snd x)) (placed headerSize cs') = filter (\<lambda>x. on_stream i (snd x)) (placed headerSize cs)"
    and "length ss' = length ss"
proof -
  have e: "cs' = cs @ [with_duration l ts]"
    "ss' = ss[j := (commit_sample (position cs) (with_duration l ts) (ss ! j))\<lparr>ms_lastPacket := x\<rparr>]"
    using assms(1,5) by (auto simp: spec_commit_def)
  have on: "on_stream i l \<longleftrightarrow> i = j" for i using assms(2) by (auto simp: on_stream_def)
  show "filter (on_stream j) cs' = filter (on_stream j) cs @ [with_duration l ts]" "ms_lastPacket (ss' ! j) = x"
    "length ss' = length ss"
    using assms(3) by (simp_all add: e on)
  show "tabled (ss' ! j) (filter (\<lambda>x. on_stream j (snd x)) (placed headerSize cs'))"
    using assms(3) commit_tabled [OF assms(4), of "position cs" "with_duration l ts"]
    by (simp add: e placed_snoc on)
  show "filter (on_stream i) cs' = filter (on_stream i) cs \<and> ss' ! i = ss ! i \<and>
      filter (\<lambda>x. on_stream i (snd x)) (placed headerSize cs') = filter (\<lambda>x. on_stream i (snd x)) (placed headerSize cs)"
    if "i \<noteq> j" using that by (simp add: e placed_snoc on)
qed


lemma spec_commit_first:
  assumes "ms_lastPacket (ss ! j) = None"
  shows "spec_commit j ts x (ss, cs) = (ss[j := (ss ! j)\<lparr>ms_lastPacket := x\<rparr>], cs)"
  using assms by (simp add: spec_commit_def)

text \<open>A stream that another stream's commit leaves alone.\<close>

lemma follows_other:
  assumes "stream_follows i over ws s cs" "filter (on_stream i) cs' = filter (on_stream i) cs"
    and "filter (\<lambda>x. on_stream i (snd x)) (placed headerSize cs') = filter (\<lambda>x. on_stream i (snd x)) (placed headerSize cs)"
    and "filter (on_stream i) ws' = filter (on_stream i) ws"
  shows "stream_follows i over ws' s cs'"
  using assms by (simp add: stream_follows_def)

lemma follows_write:
  assumes f: "follows 0 ws (ss, cs)" and p: "unat (mk_stream p) < length ss"
  shows "follows 0 (ws @ [p]) (spec_write p (ss, cs))"
proof -
  let ?j = "unat (mk_stream p)"
  obtain ss' cs' where s': "spec_commit ?j (mk_ts p) (Some p) (ss, cs) = (ss', cs')" by force
  have on: "on_stream ?j p" by (simp add: on_stream_def)
  from f p have "stream_follows ?j False ws (ss ! ?j) cs" by (simp add: follows_def)
  then have j: "filter (on_stream ?j) cs = butlast (with_durations (filter (on_stream ?j) ws))"
    "ms_lastPacket (ss ! ?j) = last_opt (filter (on_stream ?j) ws)"
    "tabled (ss ! ?j) (filter (\<lambda>x. on_stream ?j (snd x)) (placed headerSize cs))"
    by (simp_all add: stream_follows_def)
  have *: "length ss' = length ss \<and> filter (on_stream ?j) cs' = butlast (with_durations (filter (on_stream ?j) ws @ [p])) \<and>
      ms_lastPacket (ss' ! ?j) = Some p \<and> tabled (ss' ! ?j) (filter (\<lambda>x. on_stream ?j (snd x)) (placed headerSize cs')) \<and>
      (\<forall>i. i \<noteq> ?j \<longrightarrow> filter (on_stream i) cs' = filter (on_stream i) cs \<and> ss' ! i = ss ! i \<and>
      filter (\<lambda>x. on_stream i (snd x)) (placed headerSize cs') = filter (\<lambda>x. on_stream i (snd x)) (placed headerSize cs))"
  proof (cases "ms_lastPacket (ss ! ?j)")
    case None
    with j(2) have "filter (on_stream ?j) ws = []" by (auto simp: last_opt_def split: if_splits)
    with j p s' None show ?thesis by (auto simp: spec_commit_first)
  next
    case (Some l)
    with j(2) have l: "last_opt (filter (on_stream ?j) ws) = Some l" by simp
    then obtain xs where xs: "filter (on_stream ?j) ws = xs @ [l]"
      by (auto simp: last_opt_def split: if_splits) (metis append_butlast_last_id)
    note c = commit_step [OF Some last_opt_on [OF l] p j(3) s']
    have "butlast (with_durations (xs @ [l, p])) = butlast (with_durations (xs @ [l])) @ [with_duration l (mk_ts p)]"
      unfolding with_durations_snoc by (simp add: butlast_append)
    with c j(1) show ?thesis by (simp add: xs)
  qed
  have "filter (on_stream i) (ws @ [p]) = filter (on_stream i) ws" if "i \<noteq> ?j" for i
    using that by (simp add: on_stream_def)
  then have "stream_follows i False (ws @ [p]) (ss' ! i) cs'" if "i \<noteq> ?j" "i < length ss" for i
    using * that f follows_other [of i False ws "ss ! i" cs cs' "ws @ [p]"] by (simp add: follows_def)
  moreover have "stream_follows ?j False (ws @ [p]) (ss' ! ?j) cs'"
    using * on by (simp add: stream_follows_def last_opt_def)
  ultimately have "stream_follows i False (ws @ [p]) (ss' ! i) cs'" if "i < length ss" for i
    using that by (cases "i = ?j") simp_all
  with * show ?thesis by (simp add: spec_write_def s' follows_def)
qed

lemma follows_run:
  assumes "follows 0 ws a" "\<forall>p\<in>set ps. unat (mk_stream p) < length (fst a)"
  shows "follows 0 (ws @ ps) (spec_run ps a)"
  using assms
proof (induction ps arbitrary: ws a)
  case (Cons p ps)
  obtain ss cs where a: "a = (ss, cs)" by (cases a)
  have "follows 0 (ws @ [p]) (spec_write p a)" using follows_write Cons.prems unfolding a by simp
  from Cons.IH [OF this] Cons.prems(2) show ?case by (simp add: spec_run_def)
qed (simp add: spec_run_def)

lemma follows_last:
  assumes f: "follows k ws (ss, cs)" and k: "k < length ss"
  shows "follows (Suc k) ws (spec_last k (ss, cs))"
proof -
  have "stream_follows k False ws (ss ! k) cs" using f [unfolded follows_def, rule_format, of k] k by simp
  then have j: "filter (on_stream k) cs = butlast (with_durations (filter (on_stream k) ws))"
    "ms_lastPacket (ss ! k) = last_opt (filter (on_stream k) ws)"
    "tabled (ss ! k) (filter (\<lambda>x. on_stream k (snd x)) (placed headerSize cs))"
    by (simp_all add: stream_follows_def)
  obtain ss' cs' where s': "spec_last k (ss, cs) = (ss', cs')" by force
  have *: "length ss' = length ss \<and> filter (on_stream k) cs' = with_durations (filter (on_stream k) ws) \<and>
      ms_lastPacket (ss' ! k) = None \<and> tabled (ss' ! k) (filter (\<lambda>x. on_stream k (snd x)) (placed headerSize cs')) \<and>
      (\<forall>i. i \<noteq> k \<longrightarrow> filter (on_stream i) cs' = filter (on_stream i) cs \<and> ss' ! i = ss ! i \<and>
      filter (\<lambda>x. on_stream i (snd x)) (placed headerSize cs') = filter (\<lambda>x. on_stream i (snd x)) (placed headerSize cs))"
  proof (cases "ms_lastPacket (ss ! k)")
    case None
    with j(2) have "filter (on_stream k) ws = []" by (auto simp: last_opt_def split: if_splits)
    with j k s' None show ?thesis by (auto simp: spec_last_def)
  next
    case (Some l)
    with j(2) have l: "last_opt (filter (on_stream k) ws) = Some l" by simp
    then obtain xs where xs: "filter (on_stream k) ws = xs @ [l]"
      by (auto simp: last_opt_def split: if_splits) (metis append_butlast_last_id)
    have "spec_commit k (mk_ts l) None (ss, cs) = (ss', cs')" using s' Some by (simp add: spec_last_def)
    note c = commit_step [OF Some last_opt_on [OF l] k j(3) this]
    show ?thesis using c j(1) with_durations_last [of xs l] by (simp add: xs)
  qed
  then have "stream_follows i (i < Suc k) ws (ss' ! i) cs'" if "i \<noteq> k" "i < length ss" for i
  proof -
    have "(i < Suc k) = (i < k)" using that by auto
    with * that f follows_other [of i "i < k" ws "ss ! i" cs cs' ws] show ?thesis by (simp add: follows_def)
  qed
  moreover have "stream_follows k True ws (ss' ! k) cs'" using * by (simp add: stream_follows_def)
  ultimately have "stream_follows i (i < Suc k) ws (ss' ! i) cs'" if "i < length ss" for i
    using that by (cases "i = k") simp_all
  with * show ?thesis by (simp add: s' follows_def)
qed

lemma follows_lasts:
  "follows k ws a \<Longrightarrow> k + n \<le> length (fst a) \<Longrightarrow> follows (k + n) ws (fold spec_last [k..<k + n] a)"
proof (induction n)
  case (Suc n)
  have len: "length (fst (fold spec_last is a)) = length (fst a)" for "is"
    by (induction "is" arbitrary: a) simp_all
  have f: "follows (k + n) ws (fold spec_last [k..<k + n] a)" using Suc by simp
  have "follows (Suc (k + n)) ws (spec_last (k + n) (fold spec_last [k..<k + n] a))"
    using follows_last [of "k + n" ws "fst (fold spec_last [k..<k + n] a)" "snd (fold spec_last [k..<k + n] a)"] f Suc.prems
    by (simp add: len)
  then show ?case by simp
qed simp

lemma follows_trailer:
  assumes "follows 0 ws a" "i < length (fst a)"
  shows "filter (on_stream i) (snd (spec_trailer a)) = with_durations (filter (on_stream i) ws)"
    and "tabled (fst (spec_trailer a) ! i) (filter (\<lambda>x. on_stream i (snd x)) (placed headerSize (snd (spec_trailer a))))"
proof -
  have len: "length (fst (fold spec_last is a)) = length (fst a)" for "is"
    by (induction "is" arbitrary: a) simp_all
  have "follows (length (fst a)) ws (spec_trailer a)"
    using follows_lasts [OF assms(1), of "length (fst a)"] by (simp add: spec_trailer_def)
  then have "stream_follows i True ws (fst (spec_trailer a) ! i) (snd (spec_trailer a))"
    using assms(2) by (simp add: follows_def spec_trailer_def len)
  then show "filter (on_stream i) (snd (spec_trailer a)) = with_durations (filter (on_stream i) ws)"
    "tabled (fst (spec_trailer a) ! i) (filter (\<lambda>x. on_stream i (snd x)) (placed headerSize (snd (spec_trailer a))))"
    by (simp_all add: stream_follows_def)
qed


section \<open>The file as a whole\<close>

text \<open>
  The tables of \<open>s\<close> find every one of \<open>ps\<close> in the file, say which are key frames, and, as long as the
  32-bit counters do not wrap, when each one is due.
\<close>

definition located :: "bytes \<Rightarrow> mux_stream \<Rightarrow> media_packet list \<Rightarrow> bool" where
  "located file s ps \<longleftrightarrow> (\<exists>offs.
     length offs = length ps \<and> (\<forall>off\<in>set offs. off \<le> length file) \<and>
     (\<forall>k<length ps. sub file (offs ! k) (offs ! k + length (sample_bytes (ps ! k))) = sample_bytes (ps ! k)) \<and>
     map_option stco_Entries (stbl_ChunkOffset (ms_sample s)) = Some (map word_of_nat offs) \<and>
     map_option stsz_Entries (stbl_SampleSize (ms_sample s)) = Some (map (\<lambda>p. word_of_nat (length (sample_bytes p))) ps) \<and>
     map_option stss_Entries (stbl_SyncSample (ms_sample s)) = Some (sync_numbers ps) \<and>
     map_option stsc_Entries (stbl_SampleToChunk (ms_sample s)) =
       Some [\<lparr>stsc_FirstChunk = 1, stsc_SamplesPerChunk = 1, stsc_SampleDescId = 1\<rparr>] \<and>
     (length ps < 2 ^ 32 \<longrightarrow>
       (\<exists>t. stbl_TimeToSample (ms_sample s) = Some t \<and> stts_counted (stts_Entries t) \<and>
          stts_expand (stts_Entries t) = map sample_ts ps) \<and>
       (\<exists>t. stbl_CompositionOffset (ms_sample s) = Some t \<and> ctts_counted (ctts_Entries t) \<and>
          ctts_expand (ctts_Entries t) = replicate (length ps) 0)))"

lemma finish_stream_tables:
  "stbl_ChunkOffset (ms_sample (finish_stream s)) = stbl_ChunkOffset (ms_sample s)"
  "stbl_SampleSize (ms_sample (finish_stream s)) = stbl_SampleSize (ms_sample s)"
  "stbl_SyncSample (ms_sample (finish_stream s)) = stbl_SyncSample (ms_sample s)"
  "stbl_SampleToChunk (ms_sample (finish_stream s)) = stbl_SampleToChunk (ms_sample s)"
  "stbl_TimeToSample (ms_sample (finish_stream s)) = stbl_TimeToSample (ms_sample s)"
  "stbl_CompositionOffset (ms_sample (finish_stream s)) = stbl_CompositionOffset (ms_sample s)"
  by (simp_all add: finish_stream_def set_track_duration_def fillTrackAtom_def Let_def)

lemma located_finish: "located file (finish_stream s) ps = located file s ps"
  by (simp add: located_def finish_stream_tables)

lemma tabled_located:
  assumes t: "tabled s pl" and pl: "pl = filter P (placed headerSize cs)" and pre: "length pre = headerSize"
  shows "located (pre @ samples_bytes cs @ post) s (map snd pl)"
proof -
  have "sub (pre @ samples_bytes cs @ post) (fst x) (fst x + length (sample_bytes (snd x))) = sample_bytes (snd x)"
    if "x \<in> set pl" for x
    using that placed_in_file [of "fst x" "snd x" headerSize cs pre post] pre by (simp add: pl)
  then have "\<forall>k<length pl. sub (pre @ samples_bytes cs @ post) (map fst pl ! k) (map fst pl ! k + length (sample_bytes (map snd pl ! k))) =
      sample_bytes (map snd pl ! k)" by simp
  moreover have "\<forall>off\<in>set (map fst pl). off \<le> length (pre @ samples_bytes cs @ post)"
    using placed_bound [of _ _ headerSize cs] pre by (fastforce simp: pl)
  ultimately show ?thesis
    using t unfolding located_def tabled_def timed_def by (intro exI [of _ "map fst pl"]) (auto simp: o_def)
qed

lemma filter_placed: "map snd (filter (\<lambda>x. P (snd x)) (placed n cs)) = filter P cs"
  using filter_map [of P snd "placed n cs"] by (simp add: o_def)

lemma length_spec_run [simp]: "length (fst (spec_run ps a)) = length (fst a)"
  by (induction ps arbitrary: a) (simp_all add: spec_run_def)

lemma length_spec_trailer [simp]: "length (fst (spec_trailer a)) = length (fst a)"
proof -
  have "length (fst (fold spec_last is a)) = length (fst a)" for "is" by (induction "is" arbitrary: a) simp_all
  then show ?thesis by (simp add: spec_trailer_def)
qed

definition fresh :: "mux_stream \<Rightarrow> bool" where
  "fresh s \<longleftrightarrow> tabled s [] \<and> ms_lastPacket s = None"

lemma timed_fresh:
  "stbl_TimeToSample (ms_sample s) = Some t \<Longrightarrow> stts_Entries t = [] \<Longrightarrow> ms_sttsEntry s = None \<Longrightarrow>
   stbl_CompositionOffset (ms_sample s) = Some c \<Longrightarrow> ctts_Entries c = [] \<Longrightarrow> ms_cttsEntry s = None \<Longrightarrow> timed s []"
  by (auto simp: timed_def current_of_def stts_expand_def ctts_expand_def stts_counted_def ctts_counted_def)

lemma new_stream_fresh:
  assumes "new_stream_opt now c m = (m', e)" "\<forall>s\<in>set (mx_streams m). fresh s \<and> ms_cttsEntry s = None"
  shows "\<forall>s\<in>set (mx_streams m'). fresh s \<and> ms_cttsEntry s = None"
proof -
  have "fresh s" if "s = \<lparr>ms_codec = c, ms_trackAtom = t, ms_lastPacket = None, ms_timeScale = 90000,
         ms_duration = 0, ms_sample = new_sample_table, ms_sampleIndex = 0, ms_sttsEntry = None,
         ms_cttsEntry = None, ms_lastPacketDataOffset = 0, ms_lastPacketDataSize = 0\<rparr>" for s c t
    using that timed_fresh [of s] by (simp add: fresh_def tabled_def new_sample_table_def sync_numbers_def)
  with assms show ?thesis by (auto simp: new_stream_opt_def newStream_def split: option.splits if_splits)
qed

lemma reset_fresh:
  assumes "fresh s \<and> ms_cttsEntry s = None" shows "fresh (reset_composition s)"
proof (cases "IsVideo (codec_Type (ms_codec s))")
  case True
  let ?s = "s\<lparr>ms_sample := (ms_sample s)\<lparr>stbl_CompositionOffset := Some \<lparr>ctts_Version = 0, ctts_Flags = 0, ctts_Entries = []\<rparr>\<rparr>\<rparr>"
  have "timed s []" using assms by (simp add: fresh_def tabled_def)
  then have "timed ?s []" using assms by (simp add: timed_def current_of_def ctts_expand_def ctts_counted_def)
  with assms have "fresh ?s" by (simp add: fresh_def tabled_def)
  then show ?thesis using True by (simp add: reset_composition_def)
next
  case False
  then show ?thesis using assms by (simp add: reset_composition_def)
qed

lemma Mux_tables:
  assumes "Mux start video audio (NewMuxer w batched) = (m, None)"
  shows "follows 0 [] (mx_streams m, [])"
proof -
  from assms obtain m1 m2 where
    m1: "new_stream_opt start video ((releasePending (NewMuxer w batched))\<lparr>mx_streams := [], mx_flushed := False,
      mx_writePosition := headerSize\<rparr>) = (m1, None)"
    and m2: "new_stream_opt start audio m1 = (m2, None)" and m: "mx_streams m = map reset_composition (mx_streams m2)"
    by (auto simp: Mux_def then_do_def split: prod.splits option.splits)
  have "\<forall>s\<in>set (mx_streams m1). fresh s \<and> ms_cttsEntry s = None" by (rule new_stream_fresh [OF m1]) simp
  then have "\<forall>s\<in>set (mx_streams m2). fresh s \<and> ms_cttsEntry s = None" by (rule new_stream_fresh [OF m2])
  then have "\<forall>s\<in>set (mx_streams m). fresh s" by (auto simp: m reset_fresh)
  then show ?thesis by (simp add: follows_def stream_follows_def last_opt_def fresh_def)
qed

text \<open>Every stream at the end of a run.\<close>

lemma trailer_located:
  assumes "Mux start video audio (NewMuxer w batched) = (m, None)"
    and "\<forall>p\<in>set ps. unat (mk_stream p) < length (mx_streams m)"
    and a: "a = spec_trailer (spec_run ps (mx_streams m, []))" and i: "i < length (mx_streams m)"
  shows "filter (on_stream i) (snd a) = with_durations (filter (on_stream i) ps)"
    and "located (spec_file now a) (finish_stream (fst a ! i)) (filter (on_stream i) (snd a))"
    and "ms_timeScale (fst a ! i) = 90000"
proof -
  have f: "follows 0 ps (spec_run ps (mx_streams m, []))"
    using follows_run [OF Mux_tables [OF assms(1)], of ps] assms(2) by simp
  have i': "i < length (fst (spec_run ps (mx_streams m, [])))" using i by simp
  note t = follows_trailer [OF f i', folded a]
  show "filter (on_stream i) (snd a) = with_durations (filter (on_stream i) ps)" by (rule t(1))
  show "ms_timeScale (fst a ! i) = 90000" using t(2) by (simp add: tabled_def)
  show "located (spec_file now a) (finish_stream (fst a ! i)) (filter (on_stream i) (snd a))"
    using tabled_located [OF _ refl length_sized_header, of "fst a ! i" "\<lambda>x. on_stream i (snd x)" "snd a"] t(2)
    unfolding spec_file_def by (simp add: located_finish filter_placed)
qed

text \<open>C12: packets queued in any order on any of the streams, flushed at any time, then closed with
  \<open>WriteTrailer\<close>, no write failing: the file is the header with the size of the media data, the
  samples in the order they were committed, and the movie box.  The tables in that box give for every
  stream, in the order of its packets, the place and the size of each sample (its parameter sets behind
  their lengths, then the packet), the numbers of the key frames, and for each sample the time to the
  next packet, at most five seconds and a millisecond where it is not positive.\<close>

theorem mp4_samples_located:
  assumes "Mux start video audio (NewMuxer w batched) = (m, None)" "at_end w []"
    and "\<forall>p\<in>set (packets_of ops). unat (mk_stream p) < length (mx_streams m)"
  shows "\<exists>cs ss moov file. media_file now ops m = (file, None) \<and>
    file = sized_header (word_of_nat (16 + length (samples_bytes cs))) @ samples_bytes cs @ moov \<and>
    marshal_fresh (Movie_Len (movie_of now ss)) (Movie_Marshal (movie_of now ss)) = Inr moov \<and>
    length ss = length (mx_streams m) \<and>
    (\<forall>i<length ss. filter (on_stream i) cs = with_durations (filter (on_stream i) (packets_of ops)) \<and>
       located file (ss ! i) (filter (on_stream i) cs))"
proof -
  define a where "a = spec_trailer (spec_run (packets_of ops) (mx_streams m, []))"
  let ?file = "spec_file now a" and ?ss = "map finish_stream (fst a)"
  have "filter (on_stream i) (snd a) = with_durations (filter (on_stream i) (packets_of ops)) \<and>
      located ?file (?ss ! i) (filter (on_stream i) (snd a))" if i: "i < length ?ss" for i
    using trailer_located [OF assms(1,3) a_def, of i] i by (simp add: a_def)
  moreover have "media_file now ops m = (?file, None)"
    unfolding a_def by (rule media_file_spec [OF assms])
  moreover have "?file = sized_header (word_of_nat (16 + length (samples_bytes (snd a)))) @ samples_bytes (snd a) @ spec_moov now a"
    by (simp only: spec_file_def)
  moreover have "marshal_fresh (Movie_Len (movie_of now ?ss)) (Movie_Marshal (movie_of now ?ss)) = Inr (spec_moov now a)"
    unfolding spec_moov_def by (rule movie_marshal)
  moreover have "length ?ss = length (mx_streams m)" by (simp add: a_def)
  ultimately show ?thesis by blast
qed

end
