(* ===== verification/Mp4MuxRelease.thy ===== *)
theory Mp4MuxRelease
  imports Mp4MuxTables
begin

text \<open>
  The packets of the MP4 muxer: each one is released exactly once, whatever fails; and what a second
  \<open>Flush\<close> does after the first one has failed.
\<close>

section \<open>Accounting\<close>

definition accounted :: "muxer \<Rightarrow> nat multiset" where
  "accounted m = mset (mx_released m) + mset (held_pending (mx_pending m)) + mset (held_last (mx_streams m))"

definition held_entry :: "pending_write \<Rightarrow> nat multiset" where
  "held_entry pw = (case pw_pkt pw of None \<Rightarrow> {#} | Some p \<Rightarrow> {#mk_id p#})"

definition held_stream :: "mux_stream \<Rightarrow> nat multiset" where
  "held_stream s = (case ms_lastPacket s of None \<Rightarrow> {#} | Some p \<Rightarrow> {#mk_id p#})"

lemma held_pending_sum: "mset (held_pending pws) = sum_list (map held_entry pws)"
  by (induction pws) (auto simp: held_pending_def held_entry_def split: option.split)

lemma held_last_sum: "mset (held_last ss) = sum_list (map held_stream ss)"
  by (induction ss) (auto simp: held_last_def held_stream_def split: option.split)

lemma sum_update:
  fixes f :: "'a \<Rightarrow> 'b multiset"
  assumes "i < length xs"
  shows "sum_list (map f (xs[i := x])) + f (xs ! i) = sum_list (map f xs) + f x"
  using assms
proof (induction xs arbitrary: i)
  case (Cons y ys)
  then show ?case by (cases i) (auto simp: ac_simps)
qed simp

lemma accounted_file [simp]: "accounted (m\<lparr>mx_writer := w\<rparr>) = accounted m"
  by (simp add: accounted_def)

lemma on_file_frame: "on_file f m = (m', e) \<Longrightarrow> \<exists>w. m' = m\<lparr>mx_writer := w\<rparr>"
  by (auto simp: on_file_def split: prod.splits)

lemma then_do_cases:
  assumes "then_do r f = (s', e)"
  obtains "r = (s', e)" "e \<noteq> None" | s where "r = (s, None)" "f s = (s', e)"
  using assms by (cases r; cases "snd r") (auto simp: then_do_def)

lemma write_extra_frame: "write_extra x m = (m', e) \<Longrightarrow> \<exists>w. m' = m\<lparr>mx_writer := w\<rparr>"
  by (auto simp: write_extra_def elim!: then_do_cases dest!: on_file_frame)

lemma write_extras_frame: "write_extras es m = (m', e) \<Longrightarrow> \<exists>w. m' = m\<lparr>mx_writer := w\<rparr>"
proof (induction es arbitrary: m)
  case Nil
  then show ?case by (auto intro!: exI [of _ "mx_writer m"])
next
  case (Cons x es)
  from Cons.prems have "then_do (write_extra x m) (write_extras es) = (m', e)" by simp
  then show ?case
  proof (cases rule: then_do_cases)
    case 1
    then show ?thesis by (blast dest: write_extra_frame)
  next
    case (2 s)
    from write_extra_frame [OF 2(1)] Cons.IH [OF 2(2)] show ?thesis by auto
  qed
qed

lemma release_accounted:
  assumes "i < length (mx_pending m)" "pw_pkt (mx_pending m ! i) = Some p"
  shows "accounted (release_entry i p m) = accounted m"
  using sum_update [OF assms(1), of held_entry "(mx_pending m ! i)\<lparr>pw_pkt := None\<rparr>"] assms(2)
  by (simp add: accounted_def release_entry_def held_pending_sum held_entry_def ac_simps)

text \<open>What a loop over the queue keeps, and which entries it has emptied when it succeeds.\<close>

definition queue_step :: "nat set \<Rightarrow> muxer \<Rightarrow> muxer \<Rightarrow> bool" where
  "queue_step done m m' \<longleftrightarrow> accounted m' = accounted m \<and> mx_streams m' = mx_streams m \<and>
     length (mx_pending m') = length (mx_pending m) \<and>
     (\<forall>i<length (mx_pending m). i \<in> done \<or> pw_pkt (mx_pending m ! i) = None \<longrightarrow> pw_pkt (mx_pending m' ! i) = None)"

lemma queue_step_refl: "queue_step {} m m"
  by (simp add: queue_step_def)

lemma queue_step_file: "queue_step {} m (m\<lparr>mx_writer := w\<rparr>)"
  by (simp add: queue_step_def)

lemma queue_step_trans: "queue_step d m m1 \<Longrightarrow> queue_step d' m1 m2 \<Longrightarrow> queue_step (d \<union> d') m m2"
  by (auto simp: queue_step_def)

lemma queue_step_release:
  assumes "i < length (mx_pending m)" "pw_pkt (mx_pending m ! i) = Some p"
  shows "queue_step {i} m (release_entry i p m)"
  using release_accounted [OF assms] assms(1) by (auto simp: queue_step_def release_entry_def nth_list_update)

lemma write_entry_step:
  assumes "write_entry i m = (m', e)" "i < length (mx_pending m)"
  shows "queue_step (if e = None then {i} else {}) m m'"
  using assms(1) unfolding write_entry_def
proof (cases rule: then_do_cases)
  case 1
  then show ?thesis by (auto dest!: write_extras_frame simp: queue_step_file)
next
  case (2 s)
  then obtain w where s: "s = m\<lparr>mx_writer := w\<rparr>" by (auto dest: write_extras_frame)
  show ?thesis
  proof (cases "pw_pkt (mx_pending s ! i)")
    case None
    with 2 s show ?thesis by (auto simp: queue_step_file)
  next
    case (Some p)
    with 2 have "then_do (on_file (file_Write (mk_data p)) s) (\<lambda>m. (release_entry i p m, None)) = (m', e)" by simp
    then show ?thesis
    proof (cases rule: then_do_cases)
      case 1
      then show ?thesis by (auto dest!: on_file_frame simp: s queue_step_file)
    next
      case (2 t)
      then obtain w' where t: "t = m\<lparr>mx_writer := w'\<rparr>" by (auto dest!: on_file_frame simp: s)
      have "queue_step {i} t (release_entry i p t)" using Some assms(2) by (intro queue_step_release) (simp_all add: s t)
      with queue_step_trans [OF queue_step_file [of m w']] 2 t show ?thesis by auto
    qed
  qed
qed

lemma write_entries_step:
  assumes "write_entries is m = (m', e)" "\<forall>i\<in>set is. i < length (mx_pending m)"
  shows "queue_step (if e = None then set is else {}) m m'"
  using assms
proof (induction "is" arbitrary: m)
  case Nil
  then show ?case by (auto simp: queue_step_refl)
next
  case (Cons i "is")
  from Cons.prems(1) have "then_do (write_entry i m) (write_entries is) = (m', e)" by simp
  then show ?case
  proof (cases rule: then_do_cases)
    case 1
    with write_entry_step [OF 1(1)] Cons.prems(2) show ?thesis by auto
  next
    case (2 s)
    have s: "queue_step {i} m s" using write_entry_step [OF 2(1)] Cons.prems(2) by simp
    then have "\<forall>i\<in>set is. i < length (mx_pending s)" using Cons.prems(2) by (simp add: queue_step_def)
    from queue_step_trans [OF s Cons.IH [OF 2(2) this]] show ?thesis
      by (cases "e = None") (auto simp: queue_step_def)
  qed
qed

lemma copy_entry_held: "copy_entry pw b = Inr b' \<Longrightarrow> pw_pkt pw \<noteq> None"
  by (cases "pw_pkt pw") (auto simp: copy_entry_def wr_then_def ebind_Inr_iff)

lemma clear_accounted:
  assumes "\<forall>i<length (mx_pending m). pw_pkt (mx_pending m ! i) = None"
  shows "accounted (clear_pending m) = accounted m"
proof -
  have "held_entry pw = {#}" if "pw \<in> set (mx_pending m)" for pw
    using that assms by (auto simp: in_set_conv_nth held_entry_def)
  then have "sum_list (map held_entry (mx_pending m)) = {#}" by (simp cong: map_cong)
  then show ?thesis by (simp add: accounted_def clear_pending_def held_pending_sum)
qed

lemma writePendingDirect_accounted:
  assumes "writePendingDirect m = (m', e)"
  shows "accounted m' = accounted m \<and> mx_streams m' = mx_streams m"
  using assms unfolding writePendingDirect_def
proof (cases rule: then_do_cases)
  case 1
  with write_entries_step [OF 1(1)] show ?thesis by (simp add: queue_step_def)
next
  case (2 s)
  with write_entries_step [OF 2(1)] clear_accounted [of s] show ?thesis
    by (auto simp: queue_step_def clear_pending_def)
qed

lemma copyPending_accounted:
  assumes "copyPendingInto is b m = (r, m')" "distinct is"
    and "\<forall>i<length (mx_pending m). i \<notin> set is \<longrightarrow> pw_pkt (mx_pending m ! i) = None"
    and "\<forall>i\<in>set is. i < length (mx_pending m)"
  shows "accounted m' = accounted m \<and> mx_streams m' = mx_streams m"
  using assms
proof (induction "is" b m rule: copyPendingInto.induct)
  case (1 b m)
  then show ?case using clear_accounted [of m] by (auto simp: clear_pending_def)
next
  case (2 i "is" b m)
  show ?case
  proof (cases "copy_entry (mx_pending m ! i) b")
    case (Inl e)
    with 2(2) show ?thesis by auto
  next
    case (Inr b')
    from copy_entry_held [OF this] obtain p where p: "pw_pkt (mx_pending m ! i) = Some p" by auto
    let ?m = "release_entry i p m"
    have i: "i < length (mx_pending m)" using 2(5) by simp
    have q: "queue_step {i} m ?m" by (rule queue_step_release [OF i p])
    have "accounted m' = accounted ?m \<and> mx_streams m' = mx_streams ?m"
    proof (rule 2(1) [OF Inr, unfolded p option.sel])
      show "copyPendingInto is b' ?m = (r, m')" using 2(2) Inr p by simp
    next
      show "\<forall>j<length (mx_pending ?m). j \<notin> set is \<longrightarrow> pw_pkt (mx_pending ?m ! j) = None"
        using 2(4) q by (auto simp: queue_step_def)
    qed (use 2(3,5) q in \<open>auto simp: queue_step_def\<close>)
    with q show ?thesis by (simp add: queue_step_def)
  qed
qed

lemma copyPending_all:
  assumes "copyPendingInto [0..<length (mx_pending m)] b m = (r, m')"
  shows "accounted m' = accounted m \<and> mx_streams m' = mx_streams m"
  by (rule copyPending_accounted [OF assms]) auto

section \<open>The operations\<close>

lemma accounted_flushed [simp]: "accounted (m\<lparr>mx_flushed := b\<rparr>) = accounted m"
  by (simp add: accounted_def)

lemma on_file_accounted: "on_file f m = (m', e) \<Longrightarrow> accounted m' = accounted m \<and> mx_streams m' = mx_streams m"
  by (auto dest!: on_file_frame)

lemma flushDirect_accounted:
  assumes "flushDirect m = (m', e)"
  shows "accounted m' = accounted m \<and> mx_streams m' = mx_streams m"
  using assms unfolding flushDirect_def
  by (auto elim!: then_do_cases split: if_splits dest!: on_file_frame writePendingDirect_accounted)

lemma flushBatched_accounted:
  assumes "flushBatched m = (m', e)"
  shows "accounted m' = accounted m \<and> mx_streams m' = mx_streams m"
proof (cases "mx_pendingSize m + (if mx_flushed m then 0 else headerSize) = 0")
  case True
  with assms show ?thesis by (auto simp: flushBatched_def)
next
  case False
  define start :: "bytes \<times> nat" where "start =
    (let buf = replicate (mx_pendingSize m + (if mx_flushed m then 0 else headerSize)) 0
     in if mx_flushed m then (buf, 0) else (put_at buf 0 marshalHeader, headerSize))"
  obtain r m1 where r: "copyPendingInto [0..<length (mx_pending m)] start (m\<lparr>mx_flushed := True\<rparr>) = (r, m1)" by force
  with copyPending_all [of "m\<lparr>mx_flushed := True\<rparr>"] have m1: "accounted m1 = accounted m \<and> mx_streams m1 = mx_streams m" by simp
  have "(case r of None \<Rightarrow> (m1, Some MuxPanic) | Some (buf, off) \<Rightarrow> on_file (file_Write (take off buf)) m1) = (m', e)"
    using assms False r by (auto simp: flushBatched_def Let_def start_def split: option.splits)
  with m1 show ?thesis by (auto split: option.splits dest!: on_file_accounted)
qed

lemma Flush_accounted: "Flush m = (m', e) \<Longrightarrow> accounted m' = accounted m \<and> mx_streams m' = mx_streams m"
  by (auto simp: Flush_def flushDirect_accounted flushBatched_accounted split: if_splits)

lemma held_pending_of [simp]: "held_entry (pending_of p) = {#mk_id p#}"
  by (simp add: held_entry_def pending_of_def Let_def)

lemma accounted_writePacket:
  assumes "i < length (mx_streams m)"
  shows "accounted (writePacket i p m) = accounted m + {#mk_id p#}" "length (mx_streams (writePacket i p m)) = length (mx_streams m)"
  using sum_update [OF assms, of held_stream] assms
  by (auto simp: writePacket_def Let_def accounted_def held_pending_sum held_last_sum held_stream_def ac_simps
      split: option.split)


lemma commit_last_accounted:
  assumes "i < length (mx_streams m)"
  shows "accounted (commit_last i m) = accounted m \<and> length (mx_streams (commit_last i m)) = length (mx_streams m)"
proof (cases "ms_lastPacket (mx_streams m ! i)")
  case None
  then show ?thesis by (simp add: commit_last_def)
next
  case (Some p)
  let ?m = "writePacket i p m"
  note w = accounted_writePacket [OF assms, of p]
  have "ms_lastPacket (mx_streams ?m ! i) = Some p" using Some assms by (simp add: writePacket_def Let_def)
  then have "accounted (commit_last i m) + {#mk_id p#} = accounted ?m"
    using sum_update [of i "mx_streams ?m" held_stream "(mx_streams ?m ! i)\<lparr>ms_lastPacket := None\<rparr>"] w(2) assms Some
    by (simp add: commit_last_def Let_def accounted_def held_last_sum held_stream_def ac_simps)
  with w Some show ?thesis by (simp add: commit_last_def Let_def)
qed

lemma commit_lasts_accounted:
  "\<forall>i\<in>set is. i < length (mx_streams m) \<Longrightarrow> accounted (fold commit_last is m) = accounted m"
  by (induction "is" arbitrary: m) (simp_all add: commit_last_accounted)

lemma held_finish: "held_last (map finish_stream ss) = held_last ss"
  by (induction ss) (simp_all add: held_last_def finish_stream_def set_track_duration_def fillTrackAtom_def Let_def)

lemma trailerFastDirect_accounted: "writeTrailerFastDirect moov sz m = (m', e) \<Longrightarrow> accounted m' = accounted m"
  by (auto simp: writeTrailerFastDirect_def elim!: then_do_cases dest!: on_file_accounted writePendingDirect_accounted)

lemma trailerFastBatched_accounted:
  assumes "writeTrailerFastBatched moov sz m = (m', e)"
  shows "accounted m' = accounted m"
proof -
  define b where "b = (put_at (replicate (headerSize + mx_pendingSize m + length moov) 0) 0 (sized_header sz), headerSize)"
  obtain r m1 where r: "copyPendingInto [0..<length (mx_pending m)] b m = (r, m1)" by force
  from copyPending_all [OF r] assms r show ?thesis
    by (auto simp: writeTrailerFastBatched_def b_def Let_def split: option.splits sum.splits prod.splits dest!: on_file_accounted)
qed

lemma trailerSeek_accounted: "writeTrailerSeek moov sz m = (m', e) \<Longrightarrow> accounted m' = accounted m"
  by (auto simp: writeTrailerSeek_def elim!: then_do_cases dest!: on_file_accounted Flush_accounted)

lemma trailer_body_accounted:
  assumes "trailer_body now m = (m', e)"
  shows "accounted m' = accounted m"
proof -
  let ?m = "fold commit_last [0..<length (mx_streams m)] m"
  have c: "accounted ?m = accounted m" by (rule commit_lasts_accounted) simp
  obtain m1 r where b: "buildMoov now ?m = (m1, r)" by force
  then have m1: "accounted m1 = accounted m"
    using c by (auto simp: buildMoov_def Let_def accounted_def held_finish)
  show ?thesis
  proof (cases r)
    case (Inl x)
    then show ?thesis using assms b m1 by (simp add: trailer_body_def Let_def)
  next
    case (Inr moov)
    have "(if \<not> mx_flushed m1 then writeTrailerFast moov (word_of_int (int (mx_writePosition m1) - 40)) m1
        else writeTrailerSeek moov (word_of_int (int (mx_writePosition m1) - 40)) m1) = (m', e)"
      using assms [unfolded trailer_body_def Let_def b Inr prod.case sum.case] .
    with m1 show ?thesis
      by (auto simp: writeTrailerFast_def trailerFastDirect_accounted trailerFastBatched_accounted trailerSeek_accounted
          split: if_splits)
  qed
qed

section \<open>Runs in which anything may fail\<close>

definition run_through :: "mux_op list \<Rightarrow> muxer \<Rightarrow> muxer" where
  "run_through ops m = fold (\<lambda>op m. fst (run_op op m)) ops m"

lemma run_op_accounted:
  "accounted (fst (run_op op m)) = accounted m + mset (map mk_id (filter (\<lambda>p. unat (mk_stream p) < length (mx_streams m)) (packets_of [op])))
   \<and> length (mx_streams (fst (run_op op m))) = length (mx_streams m)"
proof (cases op)
  case (OpWrite p)
  then show ?thesis
    using accounted_writePacket [of "unat (mk_stream p)" m p] by (simp add: WritePacket_def packets_of_def)
next
  case OpFlush
  then show ?thesis using Flush_accounted [of m "fst (Flush m)" "snd (Flush m)"] by (simp add: packets_of_def)
qed

lemma run_through_accounted:
  "accounted (run_through ops m) = accounted m +
     mset (map mk_id (filter (\<lambda>p. unat (mk_stream p) < length (mx_streams m)) (packets_of ops)))"
proof (induction ops arbitrary: m)
  case Nil
  then show ?case by (simp add: run_through_def packets_of_def)
next
  case (Cons op ops)
  have "packets_of (op # ops) = packets_of [op] @ packets_of ops" by (simp add: packets_of_def)
  with Cons.IH [of "fst (run_op op m)"] run_op_accounted [of op m] show ?case
    by (simp add: run_through_def ac_simps)
qed

lemma Mux_accounted:
  assumes "Mux start video audio (NewMuxer w batched) = (m, None)"
  shows "accounted m = {#}"
proof -
  have ns: "held_last (mx_streams m') = [] \<and> mx_released m' = [] \<and> mx_pending m' = []"
    if "new_stream_opt start c m = (m', e)" "held_last (mx_streams m) = [] \<and> mx_released m = [] \<and> mx_pending m = []" for c m m' e
    using that by (auto simp: new_stream_opt_def newStream_def held_last_def split: option.splits if_splits)
  have reset: "ms_lastPacket (reset_composition s) = ms_lastPacket s" for s
    by (simp add: reset_composition_def)
  from assms obtain m1 m2 where
    m1: "new_stream_opt start video ((releasePending (NewMuxer w batched))\<lparr>mx_streams := [], mx_flushed := False,
      mx_writePosition := headerSize\<rparr>) = (m1, None)"
    and m2: "new_stream_opt start audio m1 = (m2, None)" and m: "m = m2\<lparr>mx_streams := map reset_composition (mx_streams m2)\<rparr>"
    by (auto simp: Mux_def then_do_def split: prod.splits option.splits)
  from ns [OF m2 ns [OF m1]] show ?thesis
    by (simp add: m accounted_def reset held_last_def held_pending_def releasePending_def NewMuxer_def)
qed

text \<open>C18: whatever the file does, whichever calls fail, and even after a call has panicked: once
  \<open>WriteTrailer\<close> returns, every packet that \<open>WritePacket\<close> accepted has been released exactly once.\<close>

theorem mp4_released_once:
  assumes "Mux start video audio (NewMuxer w batched) = (m, None)"
  shows "mset (mx_released (fst (WriteTrailer now (run_through ops m)))) =
    mset (map mk_id (filter (\<lambda>p. unat (mk_stream p) < length (mx_streams m)) (packets_of ops)))"
proof -
  let ?m = "run_through ops m"
  obtain m' e where t: "trailer_body now ?m = (m', e)" by force
  have "accounted m' = mset (map mk_id (filter (\<lambda>p. unat (mk_stream p) < length (mx_streams m)) (packets_of ops)))"
    using trailer_body_accounted [OF t] run_through_accounted [of ops m] Mux_accounted [OF assms] by simp
  then show ?thesis by (simp add: WriteTrailer_def t releasePending_def accounted_def ac_simps)
qed

section \<open>Flushing again after a failed flush\<close>

lemma write_fails:
  "wf_faults (mx_writer m) = Some k # fs \<Longrightarrow> \<exists>v. on_file (file_Write xs) m = (m\<lparr>mx_writer := v\<rparr>, Some WriteFailed)"
  by (auto simp: on_file_def file_Write_def)

lemma flush_fails_behind_first:
  assumes "mx_pending m = pending_of p # pending_of q # rest" "extras_of p = []" "extras_of q = []"
    and "\<not> mx_batchedDump m" "mx_flushed m" "wf_faults (mx_writer m) = [None, Some k]"
  obtains v where "Flush m = ((release_entry 0 p m)\<lparr>mx_writer := v\<rparr>, Some WriteFailed)"
proof -
  have up: "[0..<length (mx_pending m)] = 0 # 1 # [2..<length (mx_pending m)]"
    using assms(1) by (simp add: upt_conv_Cons numeral_2_eq_2 del: upt_Suc)
  have pw: "pw_extras (pending_of x) = extras_of x" "pw_pkt (pending_of x) = Some x" for x
    by (simp_all add: pending_of_def Let_def)
  let ?w = "(mx_writer m)\<lparr>wf_bytes := overwrite (wf_bytes (mx_writer m)) (wf_pos (mx_writer m)) (mk_data p),
    wf_pos := wf_pos (mx_writer m) + length (mk_data p), wf_faults := [Some k]\<rparr>"
  let ?m = "release_entry 0 p (m\<lparr>mx_writer := ?w\<rparr>)"
  have one: "write_entry 0 m = (?m, None)"
    using assms by (simp add: write_entry_def pw on_file_def file_Write_def)
  have p1: "mx_pending ?m ! 1 = pending_of q" using assms(1) by (simp add: release_entry_def)
  have "wf_faults (mx_writer ?m) = [Some k]" by (simp add: release_entry_def)
  then obtain v where "on_file (file_Write (mk_data q)) ?m = (?m\<lparr>mx_writer := v\<rparr>, Some WriteFailed)"
    using write_fails by blast
  then have two: "write_entry 1 ?m = (?m\<lparr>mx_writer := v\<rparr>, Some WriteFailed)"
    by (simp only: write_entry_def p1 pw assms(3) write_extras.simps then_do_None option.case)
      (simp add: then_do_def)
  have "write_entries [0..<length (mx_pending m)] m = (?m\<lparr>mx_writer := v\<rparr>, Some WriteFailed)"
    unfolding up using two by (simp add: one then_do_def)
  moreover have "?m\<lparr>mx_writer := v\<rparr> = (release_entry 0 p m)\<lparr>mx_writer := v\<rparr>" by (simp add: release_entry_def)
  ultimately have "Flush m = ((release_entry 0 p m)\<lparr>mx_writer := v\<rparr>, Some WriteFailed)"
    using assms by (simp add: Flush_def flushDirect_def writePendingDirect_def then_do_def)
  then show ?thesis by (rule that)
qed

lemma flush_gone_panics:
  assumes "mx_pending m = pw # rest" "pw_pkt pw = None" "pw_extras pw = []" "\<not> mx_batchedDump m" "mx_flushed m"
  shows "Flush m = (m, Some MuxPanic)"
proof -
  have up: "[0..<length (mx_pending m)] = 0 # [1..<length (mx_pending m)]"
    using assms(1) by (simp add: upt_conv_Cons del: upt_Suc)
  have "write_entry 0 m = (m, Some MuxPanic)" using assms by (simp add: write_entry_def)
  then have "write_entries [0..<length (mx_pending m)] m = (m, Some MuxPanic)" unfolding up by (simp add: then_do_def)
  then show ?thesis using assms by (simp add: Flush_def flushDirect_def writePendingDirect_def then_do_def)
qed

text \<open>When a direct \<open>Flush\<close> fails behind the first packet of its queue, the packet has been released
  but its entry is still there: the next \<open>Flush\<close>, even if no write fails any more, panics.\<close>

theorem flush_retry_panics:
  assumes "mx_pending m = pending_of p # pending_of q # rest" "extras_of p = []" "extras_of q = []"
    and "\<not> mx_batchedDump m" "mx_flushed m" "wf_faults (mx_writer m) = [None, Some k]"
  shows "snd (Flush m) = Some WriteFailed \<and> snd (Flush (fst (Flush m))) = Some MuxPanic"
proof -
  obtain v where f: "Flush m = ((release_entry 0 p m)\<lparr>mx_writer := v\<rparr>, Some WriteFailed)"
    by (rule flush_fails_behind_first [OF assms])
  let ?n = "(release_entry 0 p m)\<lparr>mx_writer := v\<rparr>"
  have "mx_pending ?n = (pending_of p)\<lparr>pw_pkt := None\<rparr> # pending_of q # rest" using assms(1) by (simp add: release_entry_def)
  then have "Flush ?n = (?n, Some MuxPanic)"
    by (rule flush_gone_panics) (use assms in \<open>simp_all add: pending_of_def Let_def release_entry_def\<close>)
  with f show ?thesis by simp
qed

section \<open>Witnesses\<close>

definition example_video_par :: media_codec where
  "example_video_par = MJPEG_par (mjpeg_NewCodecParameters 64 48 25)"

definition example_packet :: "nat \<Rightarrow> int \<Rightarrow> bytes \<Rightarrow> media_packet" where
  "example_packet i ts b = \<lparr>mk_id = i, mk_stream = 0, mk_video = True, mk_key = True, mk_ts = ts, mk_dur = 0,
     mk_data = b, mk_par = example_video_par\<rparr>"

definition example_wfile :: wfile where
  "example_wfile = \<lparr>wf_bytes = [], wf_pos = 0, wf_faults = []\<rparr>"

definition example_muxer :: "bool \<Rightarrow> muxer" where
  "example_muxer batched = fst (Mux 0 (Some example_video_par) None (NewMuxer example_wfile batched))"

definition example_ops :: "mux_op list" where
  "example_ops = [OpWrite (example_packet 0 0 [1, 2]), OpFlush, OpWrite (example_packet 1 40000000 [3])]"

lemma example_Mux: "Mux 0 (Some example_video_par) None (NewMuxer example_wfile b) = (example_muxer b, None)"
  by (simp add: example_muxer_def Mux_def new_stream_opt_def newStream_def mp4_supported_def example_video_par_def)

lemma example_streams: "length (mx_streams (example_muxer b)) = 1"
  by (simp add: example_muxer_def Mux_def new_stream_opt_def newStream_def mp4_supported_def example_video_par_def)

lemma example_at_end: "at_end example_wfile []"
  by (simp add: at_end_def example_wfile_def)

theorem mp4_flush_invisible_witness:
  "media_file 0 example_ops (example_muxer True) =
   media_file 0 [OpWrite (example_packet 0 0 [1, 2]), OpWrite (example_packet 1 40000000 [3])] (example_muxer False)"
  using mp4_flush_invisible [where now = 0 and ops = example_ops and
      ops' = "[OpWrite (example_packet 0 0 [1, 2]), OpWrite (example_packet 1 40000000 [3])]",
      OF example_Mux [of True] example_at_end example_Mux [of False] example_at_end]
  by (simp add: example_ops_def packets_of_def example_streams example_packet_def)

theorem mp4_samples_located_witness:
  "\<exists>file s. media_file 0 example_ops (example_muxer True) = (file, None) \<and>
     located file s [example_packet 0 0 [1, 2]\<lparr>mk_dur := 40000000\<rparr>, example_packet 1 40000000 [3]\<lparr>mk_dur := Millisecond\<rparr>]"
proof -
  have "\<forall>p\<in>set (packets_of example_ops). unat (mk_stream p) < length (mx_streams (example_muxer True))"
    by (simp add: example_ops_def packets_of_def example_streams example_packet_def)
  from mp4_samples_located [OF example_Mux [of True] example_at_end this, of 0] obtain cs ss out where
    f: "media_file 0 example_ops (example_muxer True) = (out, None)" and len: "length ss = length (mx_streams (example_muxer True))"
    and all: "\<forall>i<length ss. filter (on_stream i) cs = with_durations (filter (on_stream i) (packets_of example_ops)) \<and>
       located out (ss ! i) (filter (on_stream i) cs)" by blast
  have "filter (on_stream 0) (packets_of example_ops) = [example_packet 0 0 [1, 2], example_packet 1 40000000 [3]]"
    by (simp add: example_ops_def packets_of_def on_stream_def example_packet_def)
  then have "with_durations (filter (on_stream 0) (packets_of example_ops)) =
      [example_packet 0 0 [1, 2]\<lparr>mk_dur := 40000000\<rparr>, example_packet 1 40000000 [3]\<lparr>mk_dur := Millisecond\<rparr>]"
    by (simp add: with_duration_def clamp_duration_def maxSampleDuration_def second_def example_packet_def)
  with all [rule_format, of 0] len have "located out (ss ! 0)
      [example_packet 0 0 [1, 2]\<lparr>mk_dur := 40000000\<rparr>, example_packet 1 40000000 [3]\<lparr>mk_dur := Millisecond\<rparr>]"
    by (auto simp: example_streams)
  with f show ?thesis by blast
qed

theorem mp4_released_once_witness:
  "mset (mx_released (fst (WriteTrailer 0 (run_through example_ops (example_muxer False))))) = {#0, 1#}"
  using mp4_released_once [where now = 0 and ops = example_ops, OF example_Mux [of False]]
  by (simp add: example_ops_def packets_of_def example_streams example_packet_def)

theorem flush_retry_panics_witness:
  "\<exists>m. snd (Flush m) = Some WriteFailed \<and> snd (Flush (fst (Flush m))) = Some MuxPanic"
  using flush_retry_panics [of "(example_muxer False)\<lparr>mx_pending := [pending_of (example_packet 0 0 [1]),
      pending_of (example_packet 1 1 [2])], mx_flushed := True,
      mx_writer := \<lparr>wf_bytes = [], wf_pos = 0, wf_faults = [None, Some 0]\<rparr>\<rparr>" "example_packet 0 0 [1]" "example_packet 1 1 [2]" "[]" 0]
  by (auto simp: extras_of_def example_packet_def example_video_par_def example_muxer_def Mux_def new_stream_opt_def
      newStream_def mp4_supported_def NewMuxer_def releasePending_def)

end
