(* ===== verification/SegRing.thy ===== *)
theory SegRing
  imports Mp4MuxRelease "HOL-Library.Sublist"
begin

text \<open>
  \<open>writer/segmenter/segmenter.go\<close>, first part: the byte budgets and the ring buffer that holds the
  packets preceding an event.  An operation that releases packets returns their identities.
\<close>

section \<open>Packets\<close>

text \<open>\<open>sp_parId\<close> is the address of the codec parameters, which the segmenter compares.\<close>

record seg_packet = media_packet +
  sp_start :: int
  sp_source :: string
  sp_parId :: nat

definition key_frame :: "seg_packet \<Rightarrow> bool" where
  "key_frame p \<longleftrightarrow> mk_video p \<and> mk_key p"

definition video_dur :: "seg_packet \<Rightarrow> int" where
  "video_dur p = (if mk_video p then mk_dur p else 0)"

section \<open>Budgets\<close>

text \<open>
  The budgets are computed in floating point.  \<open>rnd\<close> rounds the exact result of an operation to a
  \<open>float64\<close>; the conversion to \<open>int\<close> truncates.
\<close>

definition dur_Seconds :: "(rat \<Rightarrow> rat) \<Rightarrow> int \<Rightarrow> rat" where
  "dur_Seconds rnd d = rnd (rnd (of_int (quot d second)) + rnd (rnd (of_int (d - second * quot d second)) / 10 ^ 9))"

definition float_int :: "rat \<Rightarrow> int" where
  "float_int x = (if 0 \<le> x then \<lfloor>x\<rfloor> else \<lceil>x\<rceil>)"

definition RingBudgetBytes :: "(rat \<Rightarrow> rat) \<Rightarrow> int \<Rightarrow> int \<Rightarrow> int" where
  "RingBudgetBytes rnd target preBuffer =
     (let window = rnd (dur_Seconds rnd target + dur_Seconds rnd preBuffer) in
      if window \<le> 0 then defaultMaxRingSize
      else max (float_int (rnd (rnd (of_int defaultMaxRingSize * window) / 15))) 262144)"

definition ringByteBudgets :: "(rat \<Rightarrow> rat) \<Rightarrow> int \<Rightarrow> int \<Rightarrow> int \<times> int" where
  "ringByteBudgets rnd target preBuffer =
     (let total = RingBudgetBytes rnd target preBuffer;
          window = rnd (dur_Seconds rnd target + dur_Seconds rnd preBuffer) in
      if window \<le> 0 then (quot total 3, total - quot total 3)
      else let n = float_int (rnd (rnd (of_int total * dur_Seconds rnd preBuffer) / window));
               n = max n 262144; n = min n total
        in (n, total - n))"

definition ringPacketsPerSecond :: int where "ringPacketsPerSecond = 60"

definition ringMaxPackets :: "(rat \<Rightarrow> rat) \<Rightarrow> int \<Rightarrow> int \<Rightarrow> int" where
  "ringMaxPackets rnd maxBytes hardCap =
     max (min (quot maxBytes 4096) (float_int (dur_Seconds rnd hardCap) * ringPacketsPerSecond)) 128"

definition ringHardCap :: "int \<Rightarrow> int" where
  "ringHardCap preBuffer = preBuffer * 2"

lemma RingBudgetBytes_ge: "262144 \<le> RingBudgetBytes rnd target preBuffer"
  by (simp add: RingBudgetBytes_def Let_def defaultMaxRingSize_def)

section \<open>The ring buffer\<close>

record ring_buffer =
  rb_packets :: "seg_packet list"
  rb_duration :: int
  rb_bytes :: int
  rb_maxDur :: int
  rb_hardCap :: int
  rb_maxPackets :: int
  rb_maxBytes :: int

type_synonym 'a releasing = "'a \<times> nat list"

definition newRingBuffer :: "(rat \<Rightarrow> rat) \<Rightarrow> int \<Rightarrow> int \<Rightarrow> int \<Rightarrow> ring_buffer" where
  "newRingBuffer rnd maxDur hardCap maxBytes = \<lparr>rb_packets = [], rb_duration = 0, rb_bytes = 0,
     rb_maxDur = maxDur, rb_hardCap = hardCap, rb_maxPackets = ringMaxPackets rnd maxBytes hardCap, rb_maxBytes = maxBytes\<rparr>"

definition dropPacketAt :: "nat \<Rightarrow> ring_buffer \<Rightarrow> ring_buffer releasing" where
  "dropPacketAt idx rb = (let dropped = rb_packets rb ! idx in
     (rb\<lparr>rb_bytes := max (rb_bytes rb - int (length (mk_data dropped))) 0,
         rb_duration := (if mk_video dropped then max (rb_duration rb - mk_dur dropped) 0 else rb_duration rb),
         rb_packets := take idx (rb_packets rb) @ drop (idx + 1) (rb_packets rb)\<rparr>, [mk_id dropped]))"

text \<open>One of the loops of \<open>enforceLimits\<close>: the second packet goes while the limit is exceeded.\<close>

function shed :: "(ring_buffer \<Rightarrow> bool) \<Rightarrow> ring_buffer \<Rightarrow> ring_buffer releasing" where
  "shed over rb = (if over rb \<and> 1 < length (rb_packets rb) then
       (case dropPacketAt 1 rb of (rb, a) \<Rightarrow> case shed over rb of (rb, b) \<Rightarrow> (rb, a @ b))
     else (rb, []))"
  by pat_completeness auto
termination
  by (relation "measure (\<lambda>(over, rb). length (rb_packets rb))") (auto simp: dropPacketAt_def Let_def)

declare shed.simps [simp del]

definition over_bytes :: "ring_buffer \<Rightarrow> bool" where
  "over_bytes rb \<longleftrightarrow> rb_maxBytes rb < rb_bytes rb"

definition over_duration :: "ring_buffer \<Rightarrow> bool" where
  "over_duration rb \<longleftrightarrow> rb_hardCap rb < rb_duration rb"

definition over_count :: "ring_buffer \<Rightarrow> bool" where
  "over_count rb \<longleftrightarrow> rb_maxPackets rb < int (length (rb_packets rb))"

definition enforceLimits :: "ring_buffer \<Rightarrow> ring_buffer releasing" where
  "enforceLimits rb = (case shed over_bytes rb of (rb, a) \<Rightarrow> case shed over_duration rb of (rb, b) \<Rightarrow>
     case shed over_count rb of (rb, c) \<Rightarrow> (rb, a @ b @ c))"

definition ring_add :: "seg_packet \<Rightarrow> ring_buffer \<Rightarrow> ring_buffer releasing" where
  "ring_add p rb = enforceLimits (rb\<lparr>rb_packets := rb_packets rb @ [p],
     rb_bytes := rb_bytes rb + int (length (mk_data p)), rb_duration := rb_duration rb + video_dur p\<rparr>)"

text \<open>The first key frame behind the first packet.\<close>

fun find_key :: "nat \<Rightarrow> seg_packet list \<Rightarrow> nat option" where
  "find_key i [] = None"
| "find_key i (p # ps) = (if key_frame p then Some i else find_key (i + 1) ps)"

definition trim_index :: "ring_buffer \<Rightarrow> nat option" where
  "trim_index rb = find_key 1 (tl (rb_packets rb))"

definition trim_to :: "nat \<Rightarrow> ring_buffer \<Rightarrow> ring_buffer releasing" where
  "trim_to k rb = (let old = take k (rb_packets rb) in
     (rb\<lparr>rb_bytes := rb_bytes rb - (\<Sum>p\<leftarrow>old. int (length (mk_data p))), rb_packets := drop k (rb_packets rb),
         rb_duration := rb_duration rb - (\<Sum>p\<leftarrow>old. video_dur p)\<rparr>, map mk_id old))"

lemma find_key_bounds: "find_key i ps = Some k \<Longrightarrow> i \<le> k \<and> k < i + length ps \<and> key_frame (ps ! (k - i))"
proof (induction ps arbitrary: i)
  case (Cons p ps)
  show ?case
  proof (cases "key_frame p")
    case False
    then have "find_key (i + 1) ps = Some k" using Cons.prems by simp
    from Cons.IH [OF this] show ?thesis by (simp add: nth_Cons')
  qed (use Cons.prems in simp)
qed simp

lemma trim_index_bounds:
  assumes "trim_index rb = Some k"
  shows "0 < k" "k < length (rb_packets rb)" "key_frame (rb_packets rb ! k)"
  using find_key_bounds [OF assms [unfolded trim_index_def]] by (cases "rb_packets rb"; simp add: nth_Cons')+

function trim_loop :: "ring_buffer \<Rightarrow> ring_buffer releasing" where
  "trim_loop rb = (if 1 < length (rb_packets rb) \<and> rb_maxDur rb < rb_duration rb then
       (case trim_index rb of None \<Rightarrow> (rb, [])
        | Some k \<Rightarrow> case trim_to k rb of (rb, a) \<Rightarrow> case trim_loop rb of (rb, b) \<Rightarrow> (rb, a @ b))
     else (rb, []))"
  by pat_completeness auto
termination
  by (relation "measure (\<lambda>rb. length (rb_packets rb))")
    (auto simp: trim_to_def Let_def dest: trim_index_bounds(1,2))

declare trim_loop.simps [simp del]

definition ring_trim :: "ring_buffer \<Rightarrow> ring_buffer releasing" where
  "ring_trim rb = (case trim_loop rb of (rb, a) \<Rightarrow> case enforceLimits rb of (rb, b) \<Rightarrow> (rb, a @ b))"

definition ring_empty :: "ring_buffer \<Rightarrow> ring_buffer" where
  "ring_empty rb = rb\<lparr>rb_packets := [], rb_duration := 0, rb_bytes := 0\<rparr>"

definition ring_clear :: "ring_buffer \<Rightarrow> ring_buffer releasing" where
  "ring_clear rb = (ring_empty rb, map mk_id (rb_packets rb))"

definition ring_drain :: "ring_buffer \<Rightarrow> ring_buffer \<times> seg_packet list" where
  "ring_drain rb = (ring_empty rb, rb_packets rb)"

section \<open>What the buffer keeps\<close>

definition total_bytes :: "seg_packet list \<Rightarrow> int" where
  "total_bytes ps = (\<Sum>p\<leftarrow>ps. int (length (mk_data p)))"

definition total_video :: "seg_packet list \<Rightarrow> int" where
  "total_video ps = (\<Sum>p\<leftarrow>ps. video_dur p)"

definition ring_ok :: "ring_buffer \<Rightarrow> bool" where
  "ring_ok rb \<longleftrightarrow> rb_bytes rb = total_bytes (rb_packets rb) \<and> rb_duration rb = total_video (rb_packets rb) \<and>
     (\<forall>p\<in>set (rb_packets rb). 0 \<le> video_dur p)"

definition ring_within :: "ring_buffer \<Rightarrow> bool" where
  "ring_within rb \<longleftrightarrow> length (rb_packets rb) \<le> 1 \<or> \<not> over_bytes rb \<and> \<not> over_duration rb \<and> \<not> over_count rb"

definition same_limits :: "ring_buffer \<Rightarrow> ring_buffer \<Rightarrow> bool" where
  "same_limits rb rb' \<longleftrightarrow> rb_maxDur rb' = rb_maxDur rb \<and> rb_hardCap rb' = rb_hardCap rb \<and>
     rb_maxPackets rb' = rb_maxPackets rb \<and> rb_maxBytes rb' = rb_maxBytes rb"

text \<open>A step that drops packets: what is left is a subsequence, and every packet is kept or released.\<close>

definition sheds :: "ring_buffer \<Rightarrow> ring_buffer releasing \<Rightarrow> bool" where
  "sheds rb r \<longleftrightarrow> (ring_ok rb \<longrightarrow> ring_ok (fst r)) \<and> same_limits rb (fst r) \<and>
     subseq (rb_packets (fst r)) (rb_packets rb) \<and>
     mset (map mk_id (rb_packets (fst r))) + mset (snd r) = mset (map mk_id (rb_packets rb))"

lemma sheds_refl: "sheds rb (rb, [])"
  by (simp add: sheds_def same_limits_def)

lemma sheds_trans:
  assumes "sheds rb (rb1, a)" "sheds rb1 (rb2, b)"
  shows "sheds rb (rb2, a @ b)"
  using assms by (auto simp: sheds_def same_limits_def ac_simps intro: subseq_order.trans)

lemma total_bytes_simps [simp]:
  "total_bytes [] = 0" "total_bytes (p # ps) = int (length (mk_data p)) + total_bytes ps"
  "total_bytes (ps @ qs) = total_bytes ps + total_bytes qs"
  by (simp_all add: total_bytes_def)

lemma total_video_simps [simp]:
  "total_video [] = 0" "total_video (p # ps) = video_dur p + total_video ps"
  "total_video (ps @ qs) = total_video ps + total_video qs"
  by (simp_all add: total_video_def)

lemma total_bytes_nonneg: "0 \<le> total_bytes ps"
  by (induction ps) simp_all

lemma total_video_nonneg: "\<forall>p\<in>set ps. 0 \<le> video_dur p \<Longrightarrow> 0 \<le> total_video ps"
  by (induction ps) simp_all

lemma drop_sheds:
  assumes "idx < length (rb_packets rb)"
  shows "sheds rb (dropPacketAt idx rb)"
proof -
  define a b x where "a = take idx (rb_packets rb)" and "b = drop (idx + 1) (rb_packets rb)" and "x = rb_packets rb ! idx"
  have ps: "rb_packets rb = a @ x # b" using assms id_take_nth_drop by (simp add: a_def b_def x_def)
  have d: "dropPacketAt idx rb = (rb\<lparr>rb_bytes := max (rb_bytes rb - int (length (mk_data x))) 0,
      rb_duration := (if mk_video x then max (rb_duration rb - mk_dur x) 0 else rb_duration rb),
      rb_packets := a @ b\<rparr>, [mk_id x])"
    by (simp add: dropPacketAt_def Let_def a_def b_def x_def)
  have "ring_ok (fst (dropPacketAt idx rb))" if "ring_ok rb"
    using that total_bytes_nonneg [of a] total_bytes_nonneg [of b] total_video_nonneg [of "a @ b"]
    by (auto simp: ring_ok_def ps d video_dur_def)
  moreover have "subseq (a @ b) (rb_packets rb)" using subseq_order.refl [of a] by (auto simp: ps intro: list_emb_append_mono)
  ultimately show ?thesis by (simp add: sheds_def same_limits_def d ps)
qed

lemma head_drop: "1 < length (rb_packets rb) \<Longrightarrow> take 1 (rb_packets (fst (dropPacketAt 1 rb))) = take 1 (rb_packets rb)"
  by (simp add: dropPacketAt_def Let_def)

text \<open>A loop of \<open>enforceLimits\<close>: it ends below its limit, and it leaves the first packet alone.\<close>

lemma shed_sheds:
  "sheds rb (shed over rb) \<and> (1 < length (rb_packets (fst (shed over rb))) \<longrightarrow> \<not> over (fst (shed over rb))) \<and>
   take 1 (rb_packets (fst (shed over rb))) = take 1 (rb_packets rb)"
proof (induction over rb rule: shed.induct)
  case (1 over rb)
  show ?case
  proof (cases "over rb \<and> 1 < length (rb_packets rb)")
    case False
    then have "shed over rb = (rb, [])" by (simp only: shed.simps [of over rb] if_False)
    with False show ?thesis by (auto simp: sheds_refl)
  next
    case True
    obtain rb1 a where d: "dropPacketAt 1 rb = (rb1, a)" by force
    obtain rb2 b where s: "shed over rb1 = (rb2, b)" by force
    have sh: "shed over rb = (rb2, a @ b)" using True d s by (simp add: shed.simps [of over rb])
    have "sheds rb (rb1, a)" using drop_sheds [of 1 rb] True d by simp
    moreover have "take 1 (rb_packets rb1) = take 1 (rb_packets rb)" using head_drop [of rb] True d by simp
    ultimately show ?thesis using 1 [OF True d [symmetric]] s sh sheds_trans by auto
  qed
qed

lemma over_mono:
  assumes "ring_ok rb" "sheds rb (rb', a)"
  shows "over_bytes rb' \<Longrightarrow> over_bytes rb" "over_duration rb' \<Longrightarrow> over_duration rb" "over_count rb' \<Longrightarrow> over_count rb"
proof -
  have ss: "subseq (rb_packets rb') (rb_packets rb)" and ok: "ring_ok rb'" and lim: "same_limits rb rb'"
    using assms by (simp_all add: sheds_def)
  have bytes: "total_bytes ps \<le> total_bytes qs" if "subseq ps qs" for ps qs
    using that by (induction rule: list_emb.induct) (auto simp: total_bytes_nonneg)
  have video: "total_video ps \<le> total_video qs" if "subseq ps qs" "\<forall>p\<in>set qs. 0 \<le> video_dur p" for ps qs
    using that by (induction rule: list_emb.induct) (auto simp: total_video_nonneg)
  note le = bytes [OF ss] video [OF ss] list_emb_length [OF ss]
  show "over_bytes rb' \<Longrightarrow> over_bytes rb" "over_duration rb' \<Longrightarrow> over_duration rb" "over_count rb' \<Longrightarrow> over_count rb"
    using assms(1) ok lim le by (auto simp: over_bytes_def over_duration_def over_count_def ring_ok_def same_limits_def)
qed

lemma enforce_sheds:
  "sheds rb (enforceLimits rb) \<and> (ring_ok rb \<longrightarrow> ring_within (fst (enforceLimits rb))) \<and>
   take 1 (rb_packets (fst (enforceLimits rb))) = take 1 (rb_packets rb)"
proof -
  obtain rb1 a where 1: "shed over_bytes rb = (rb1, a)" by force
  obtain rb2 b where 2: "shed over_duration rb1 = (rb2, b)" by force
  obtain rb3 c where 3: "shed over_count rb2 = (rb3, c)" by force
  have e: "enforceLimits rb = (rb3, a @ b @ c)" by (simp add: enforceLimits_def 1 2 3)
  note s1 = shed_sheds [of rb over_bytes, unfolded 1 fst_conv]
  note s2 = shed_sheds [of rb1 over_duration, unfolded 2 fst_conv]
  note s3 = shed_sheds [of rb2 over_count, unfolded 3 fst_conv]
  have "ring_within rb3" if ok: "ring_ok rb"
  proof -
    have ok1: "ring_ok rb1" and ok2: "ring_ok rb2" using ok s1 s2 by (auto simp: sheds_def)
    have len: "length (rb_packets rb2) \<le> length (rb_packets rb1)" "length (rb_packets rb3) \<le> length (rb_packets rb2)"
      using s2 s3 by (auto simp: sheds_def dest: list_emb_length)
    show ?thesis
      using s1 s2 s3 len over_mono [OF ok1] over_mono [OF ok2] unfolding ring_within_def by (meson le_trans not_le)
  qed
  moreover have "sheds rb (rb3, (a @ b) @ c)" using s1 s2 s3 sheds_trans by blast
  ultimately show ?thesis using s1 s2 s3 by (simp add: e)
qed

lemma trim_to_sheds:
  "sheds rb (trim_to k rb)"
proof -
  define a b where "a = take k (rb_packets rb)" and "b = drop k (rb_packets rb)"
  have ps: "rb_packets rb = a @ b" by (simp add: a_def b_def)
  have t: "trim_to k rb = (rb\<lparr>rb_bytes := rb_bytes rb - total_bytes a, rb_packets := b,
      rb_duration := rb_duration rb - total_video a\<rparr>, map mk_id a)"
    by (simp add: trim_to_def Let_def a_def b_def total_bytes_def total_video_def)
  have "ring_ok rb \<Longrightarrow> ring_ok (fst (trim_to k rb))" by (auto simp: ring_ok_def t ps)
  moreover have "subseq b (rb_packets rb)" by (simp add: ps list_emb_append2)
  ultimately show ?thesis by (simp add: sheds_def same_limits_def t ps)
qed

text \<open>Trimming: the buffer is left alone, or it now starts at a key frame.\<close>

lemma trim_loop_sheds:
  "sheds rb (trim_loop rb) \<and>
   (rb_packets (fst (trim_loop rb)) = rb_packets rb \<or> key_frame (hd (rb_packets (fst (trim_loop rb))))) \<and>
   (rb_packets rb \<noteq> [] \<longrightarrow> rb_packets (fst (trim_loop rb)) \<noteq> [])"
proof (induction rb rule: trim_loop.induct)
  case (1 rb)
  show ?case
  proof (cases "1 < length (rb_packets rb) \<and> rb_maxDur rb < rb_duration rb \<and> trim_index rb \<noteq> None")
    case False
    then have "trim_loop rb = (rb, [])" by (auto simp: trim_loop.simps [of rb])
    then show ?thesis by (simp add: sheds_refl)
  next
    case True
    then obtain k where k: "trim_index rb = Some k" by auto
    obtain rb1 a where t: "trim_to k rb = (rb1, a)" by force
    obtain rb2 b where l: "trim_loop rb1 = (rb2, b)" by force
    have e: "trim_loop rb = (rb2, a @ b)" using True k t l by (simp add: trim_loop.simps [of rb])
    have "rb_packets rb1 = drop k (rb_packets rb)" using t by (auto simp: trim_to_def Let_def)
    then have key: "rb_packets rb1 \<noteq> []" "key_frame (hd (rb_packets rb1))"
      using trim_index_bounds [OF k] by (simp_all add: hd_drop_conv_nth)
    have "sheds rb (rb1, a)" using trim_to_sheds [of rb k] t by simp
    moreover have "sheds rb1 (rb2, b) \<and> (rb_packets rb2 = rb_packets rb1 \<or> key_frame (hd (rb_packets rb2))) \<and>
        (rb_packets rb1 \<noteq> [] \<longrightarrow> rb_packets rb2 \<noteq> [])"
      using 1 [OF _ k t [symmetric]] True l by simp
    ultimately show ?thesis using key e sheds_trans by auto
  qed
qed

section \<open>The operations\<close>

lemma ring_add_sheds:
  fixes p rb
  defines "rb1 \<equiv> rb\<lparr>rb_packets := rb_packets rb @ [p], rb_bytes := rb_bytes rb + int (length (mk_data p)),
    rb_duration := rb_duration rb + video_dur p\<rparr>"
  shows "sheds rb1 (ring_add p rb)"
    and "ring_ok rb \<Longrightarrow> 0 \<le> video_dur p \<Longrightarrow> ring_ok (fst (ring_add p rb)) \<and> ring_within (fst (ring_add p rb))"
    and "rb_packets rb \<noteq> [] \<Longrightarrow> take 1 (rb_packets (fst (ring_add p rb))) = take 1 (rb_packets rb)"
proof -
  have a: "ring_add p rb = enforceLimits rb1" by (simp add: ring_add_def rb1_def)
  show "sheds rb1 (ring_add p rb)" using enforce_sheds [of rb1] a by simp
  show "ring_ok rb \<Longrightarrow> 0 \<le> video_dur p \<Longrightarrow> ring_ok (fst (ring_add p rb)) \<and> ring_within (fst (ring_add p rb))"
  proof -
    assume "ring_ok rb" "0 \<le> video_dur p"
    then have "ring_ok rb1" by (auto simp: ring_ok_def rb1_def)
    then show ?thesis using enforce_sheds [of rb1] a by (simp add: sheds_def)
  qed
  show "rb_packets rb \<noteq> [] \<Longrightarrow> take 1 (rb_packets (fst (ring_add p rb))) = take 1 (rb_packets rb)"
    using enforce_sheds [of rb1] a by (cases "rb_packets rb") (simp_all add: rb1_def)
qed

lemma ring_add_accounts:
  "mset (map mk_id (rb_packets (fst (ring_add p rb)))) + mset (snd (ring_add p rb)) =
   mset (map mk_id (rb_packets rb)) + {#mk_id p#}"
  using ring_add_sheds(1) [of rb p] by (simp add: sheds_def)

lemma ring_trim_sheds: "sheds rb (ring_trim rb) \<and> (ring_ok rb \<longrightarrow> ring_within (fst (ring_trim rb)))"
proof -
  obtain rb1 a where t: "trim_loop rb = (rb1, a)" by force
  obtain rb2 b where e: "enforceLimits rb1 = (rb2, b)" by force
  have "sheds rb (rb1, a)" using trim_loop_sheds [of rb] t by simp
  moreover have "sheds rb1 (rb2, b)" "ring_ok rb1 \<longrightarrow> ring_within rb2" using enforce_sheds [of rb1] e by simp_all
  ultimately have "sheds rb (rb2, a @ b)" "ring_ok rb \<longrightarrow> ring_within rb2"
    by (blast intro: sheds_trans) (use \<open>sheds rb (rb1, a)\<close> \<open>ring_ok rb1 \<longrightarrow> ring_within rb2\<close> in \<open>simp add: sheds_def\<close>)
  then show ?thesis by (simp add: ring_trim_def t e)
qed

text \<open>A decodable buffer stays decodable.\<close>

lemma ring_trim_key:
  assumes "rb_packets rb \<noteq> []"
  shows "rb_packets (fst (ring_trim rb)) \<noteq> []" "key_frame (hd (rb_packets rb)) \<Longrightarrow> key_frame (hd (rb_packets (fst (ring_trim rb))))"
proof -
  obtain rb1 a where t: "trim_loop rb = (rb1, a)" by force
  have l: "rb_packets rb1 \<noteq> []" "key_frame (hd (rb_packets rb)) \<Longrightarrow> key_frame (hd (rb_packets rb1))"
    using trim_loop_sheds [of rb] t assms by auto
  obtain rb2 b where e: "enforceLimits rb1 = (rb2, b)" by force
  have "take 1 (rb_packets (fst (ring_trim rb))) = take 1 (rb_packets rb1)"
    using enforce_sheds [of rb1] by (simp add: ring_trim_def t e)
  with l show "rb_packets (fst (ring_trim rb)) \<noteq> []"
    "key_frame (hd (rb_packets rb)) \<Longrightarrow> key_frame (hd (rb_packets (fst (ring_trim rb))))"
    by (cases "rb_packets (fst (ring_trim rb))"; cases "rb_packets rb1"; simp)+
qed

datatype ring_op = RAdd seg_packet | RTrim | RClear | RDrain

fun added :: "ring_op \<Rightarrow> seg_packet list" where
  "added (RAdd p) = [p]"
| "added _ = []"

text \<open>The buffer after an operation, and the packets that have left it, released or handed out.\<close>

fun ring_run_op :: "ring_op \<Rightarrow> ring_buffer \<Rightarrow> ring_buffer releasing" where
  "ring_run_op (RAdd p) rb = ring_add p rb"
| "ring_run_op RTrim rb = ring_trim rb"
| "ring_run_op RClear rb = ring_clear rb"
| "ring_run_op RDrain rb = (case ring_drain rb of (rb, ps) \<Rightarrow> (rb, map mk_id ps))"

fun ring_run :: "ring_op list \<Rightarrow> ring_buffer \<Rightarrow> ring_buffer releasing" where
  "ring_run [] rb = (rb, [])"
| "ring_run (x # xs) rb = (case ring_run_op x rb of (rb, a) \<Rightarrow> case ring_run xs rb of (rb, b) \<Rightarrow> (rb, a @ b))"

lemma ring_ok_empty: "rb_packets rb = [] \<Longrightarrow> rb_bytes rb = 0 \<Longrightarrow> rb_duration rb = 0 \<Longrightarrow> ring_ok rb \<and> ring_within rb"
  by (simp add: ring_ok_def ring_within_def)

lemma ring_run_op_ok:
  assumes "ring_run_op x rb = (rb', a)"
  shows "mset (map mk_id (rb_packets rb')) + mset a = mset (map mk_id (rb_packets rb)) + mset (map mk_id (added x))"
    and "same_limits rb rb'"
    and "ring_ok rb \<Longrightarrow> ring_within rb \<Longrightarrow> \<forall>p\<in>set (added x). 0 \<le> video_dur p \<Longrightarrow> ring_ok rb' \<and> ring_within rb'"
proof -
  show "mset (map mk_id (rb_packets rb')) + mset a = mset (map mk_id (rb_packets rb)) + mset (map mk_id (added x))"
  proof (cases x)
    case (RAdd p)
    then show ?thesis using assms ring_add_accounts [of p rb] by simp
  next
    case RTrim
    then show ?thesis using assms ring_trim_sheds [of rb] by (simp add: sheds_def)
  qed (use assms in \<open>auto simp: ring_clear_def ring_drain_def ring_empty_def\<close>)
  show "same_limits rb rb'"
  proof (cases x)
    case (RAdd p)
    then show ?thesis using assms ring_add_sheds(1) [of rb p] by (simp add: sheds_def same_limits_def)
  next
    case RTrim
    then show ?thesis using assms ring_trim_sheds [of rb] by (simp add: sheds_def)
  qed (use assms in \<open>auto simp: ring_clear_def ring_drain_def ring_empty_def same_limits_def\<close>)
  assume ok: "ring_ok rb" "ring_within rb" "\<forall>p\<in>set (added x). 0 \<le> video_dur p"
  show "ring_ok rb' \<and> ring_within rb'"
  proof (cases x)
    case (RAdd p)
    then show ?thesis using assms ok ring_add_sheds(2) [of rb p] by simp
  next
    case RTrim
    then show ?thesis using assms ok ring_trim_sheds [of rb] by (simp add: sheds_def)
  qed (use assms in \<open>auto simp: ring_clear_def ring_drain_def ring_empty_def ring_ok_empty\<close>)
qed

lemma ring_run_ok:
  assumes "ring_run xs rb = (rb', a)"
  shows "mset (map mk_id (rb_packets rb')) + mset a =
      mset (map mk_id (rb_packets rb)) + mset (map mk_id (concat (map added xs))) \<and> same_limits rb rb' \<and>
    (ring_ok rb \<and> ring_within rb \<and> (\<forall>p\<in>set (concat (map added xs)). 0 \<le> video_dur p) \<longrightarrow> ring_ok rb' \<and> ring_within rb')"
  using assms
proof (induction xs arbitrary: rb rb' a)
  case Nil
  then show ?case by (simp add: same_limits_def)
next
  case (Cons x xs)
  obtain rb1 b where x: "ring_run_op x rb = (rb1, b)" by force
  obtain rb2 c where r: "ring_run xs rb1 = (rb2, c)" by force
  from Cons.prems x r have e: "rb' = rb2" "a = b @ c" by simp_all
  from Cons.IH [OF r] ring_run_op_ok [OF x] show ?case by (auto simp: e same_limits_def ac_simps)
qed

text \<open>C16: Whatever packets with video durations that are not negative are added to a new ring buffer, trimmed and
  drained: its counters are the sums over the packets it holds, none of its three limits is exceeded unless a single
  packet is left, and every packet that was added is held, or has been released or handed out exactly once.\<close>

theorem ring_buffer_bounded:
  assumes "ring_run xs (newRingBuffer rnd maxDur hardCap maxBytes) = (rb, gone)"
    and "\<forall>p\<in>set (concat (map added xs)). 0 \<le> video_dur p"
  shows "rb_bytes rb = total_bytes (rb_packets rb) \<and> rb_duration rb = total_video (rb_packets rb) \<and>
    (1 < length (rb_packets rb) \<longrightarrow> rb_bytes rb \<le> maxBytes \<and> rb_duration rb \<le> hardCap \<and>
       int (length (rb_packets rb)) \<le> ringMaxPackets rnd maxBytes hardCap) \<and>
    mset (map mk_id (rb_packets rb)) + mset gone = mset (map mk_id (concat (map added xs)))"
proof -
  let ?rb = "newRingBuffer rnd maxDur hardCap maxBytes"
  have "ring_ok ?rb \<and> ring_within ?rb" by (simp add: newRingBuffer_def ring_ok_def ring_within_def)
  with ring_run_ok [OF assms(1)] assms(2) have "ring_ok rb" "ring_within rb" "same_limits ?rb rb"
    "mset (map mk_id (rb_packets rb)) + mset gone = mset (map mk_id (concat (map added xs)))"
    by (auto simp: newRingBuffer_def)
  then show ?thesis
    by (auto simp: ring_ok_def ring_within_def same_limits_def newRingBuffer_def over_bytes_def over_duration_def over_count_def)
qed

definition ring_example :: "nat \<Rightarrow> bool \<Rightarrow> seg_packet" where
  "ring_example i key = media_packet.extend (example_packet i 0 [1, 2, 3]\<lparr>mk_dur := 10, mk_key := key\<rparr>)
     \<lparr>sp_start = int i, sp_source = ''camera'', sp_parId = 0\<rparr>"

theorem ring_buffer_bounded_witness:
  "\<exists>rb gone. ring_run [RAdd (ring_example 0 True), RAdd (ring_example 1 False), RTrim, RAdd (ring_example 2 True)]
       (newRingBuffer id 15 20 4) = (rb, gone) \<and>
     (1 < length (rb_packets rb) \<longrightarrow> rb_bytes rb \<le> 4 \<and> rb_duration rb \<le> 20) \<and>
     mset (map mk_id (rb_packets rb)) + mset gone = {#0, 1, 2#}"
proof -
  let ?xs = "[RAdd (ring_example 0 True), RAdd (ring_example 1 False), RTrim, RAdd (ring_example 2 True)]"
  obtain rb gone where r: "ring_run ?xs (newRingBuffer id 15 20 4) = (rb, gone)" by force
  have a: "concat (map added ?xs) = [ring_example 0 True, ring_example 1 False, ring_example 2 True]" by simp
  have "\<forall>p\<in>set (concat (map added ?xs)). 0 \<le> video_dur p"
    by (simp add: a ring_example_def video_dur_def media_packet.extend_def example_packet_def)
  from ring_buffer_bounded [OF r this, unfolded a] r show ?thesis
    by (auto simp: ring_example_def media_packet.extend_def example_packet_def)
qed

end
