(* ===== verification/Segmenter.thy ===== *)
theory Segmenter
  imports SegRing Fmp4 "HOL-Library.AList"
begin

text \<open>
  \<open>writer/segmenter/segmenter.go\<close>, second part: the segmenter, which cuts the packets of its sources
  into MP4 files.  An active file is the muxer of \<open>Mp4Mux\<close>, whose \<open>mx_writer\<close> is the open file.

  What the operating system and the consumers do is given by scripts, one entry per call; a script
  that has run out means success.  Times count nanoseconds from 1904, like those of the muxer.  A
  handler works on the stream it was given and on the segmenter; \<open>Step\<close> puts the stream back.
\<close>

section \<open>State\<close>

datatype record_mode = Never | Event | Always

record active_file =
  af_muxer :: muxer
  af_startTime :: int
  af_folder :: string
  af_name :: string
  af_duration :: int
  af_lastFlush :: int
  af_pktCount :: nat

type_synonym codec_ref = "nat \<times> media_codec"

record stream_state =
  ss_source :: string
  ss_active :: "active_file option"
  ss_ring :: ring_buffer
  ss_seenKeyframe :: bool
  ss_eventSaved :: bool
  ss_eventRecordStart :: int
  ss_eventSessionDur :: int
  ss_lastRecordStop :: int
  ss_video :: "codec_ref option"
  ss_audio :: "codec_ref option"

record seg_config =
  c_targetDuration :: int
  c_preBuffer :: int
  c_postEvent :: int
  c_maxEvent :: int
  c_batched :: bool
  c_ringBytes :: int
  c_muxerBytes :: int
  c_path :: "int \<Rightarrow> nat \<Rightarrow> string \<times> string"
  c_round :: "rat \<Rightarrow> rat"

record file_info =
  fi_Name :: string
  fi_Start :: int
  fi_Stop :: int
  fi_Size :: nat
  fi_URL :: string
  fi_Width :: "64 word"
  fi_Height :: "64 word"
  fi_Codec :: codec_type

text \<open>\<open>os.Create\<close> makes an empty file, whose writes then go as scripted, or fails.\<close>

datatype create_result = Created "nat option list" | NotExist | CreateFails

datatype disk_call = Kept string string bytes | Removed string string

record segmenter =
  sg_config :: seg_config
  sg_recordMode :: record_mode
  sg_recordCurStatus :: bool
  sg_lastEvent :: int
  sg_sources :: "string list"
  sg_streams :: "(string \<times> stream_state) list"
  sg_locked :: bool
  sg_released :: "nat list"
  sg_disk :: "disk_call list"
  sg_sent :: "file_info list"
  sg_statuses :: "bool list"
  sg_creates :: "create_result list"
  sg_mkdirs :: "bool list"
  sg_stats :: "bool list"
  sg_infoTaken :: "bool list"
  sg_statusTaken :: "bool list"

text \<open>The readings of the clock in one step, by the place that reads it.\<close>

record ticks =
  t_mux :: int
  t_event :: int
  t_idle :: int
  t_wall :: int
  t_budget :: int
  t_start :: int

datatype seg_err = NoVideoParameters | UnknownSource | CannotCreate | MuxFailed mux_err | NoActiveSegment
  | NilPacket | NeverMode | BreakError

datatype outcome = Ok | Fail seg_err | Panicked | Blocked

definition pop :: "'a \<Rightarrow> 'a list \<Rightarrow> 'a \<times> 'a list" where
  "pop d xs = (case xs of [] \<Rightarrow> (d, []) | x # xs \<Rightarrow> (x, xs))"

text \<open>\<open>time.Since\<close> saturates.\<close>

definition go_Since :: "int \<Rightarrow> int \<Rightarrow> int" where
  "go_Since now t = max (- (2 ^ 63)) (min (2 ^ 63 - 1) (now - t))"

definition Minute :: int where "Minute = 60 * second"

section \<open>Combining the parts of a handler\<close>

type_synonym work = "stream_state \<times> segmenter"
type_synonym seg_op = "work \<Rightarrow> work \<times> file_info list \<times> outcome"

definition seg_done :: seg_op where
  "seg_done w = (w, [], Ok)"

definition seg_fail :: "seg_err \<Rightarrow> seg_op" where
  "seg_fail e w = (w, [], Fail e)"

definition seg_then :: "seg_op \<Rightarrow> seg_op \<Rightarrow> seg_op" where
  "seg_then f g w = (case f w of (w, is, Ok) \<Rightarrow> (case g w of (w, js, r) \<Rightarrow> (w, is @ js, r)) | r \<Rightarrow> r)"

definition seg_when :: "(work \<Rightarrow> bool) \<Rightarrow> seg_op \<Rightarrow> seg_op" where
  "seg_when c f w = (if c w then f w else seg_done w)"

definition seg_update :: "(work \<Rightarrow> work) \<Rightarrow> seg_op" where
  "seg_update f w = (f w, [], Ok)"

text \<open>An error runs the cleanup and is passed on; a panic is not an error.\<close>

definition seg_on_error :: "seg_op \<Rightarrow> (work \<Rightarrow> work) \<Rightarrow> seg_op" where
  "seg_on_error f c w = (case f w of (w, is, Fail e) \<Rightarrow> (c w, is, Fail e) | r \<Rightarrow> r)"

definition mux_outcome :: "mux_err option \<Rightarrow> outcome" where
  "mux_outcome e = (case e of None \<Rightarrow> Ok | Some MuxPanic \<Rightarrow> Panicked | Some e \<Rightarrow> Fail (MuxFailed e))"

definition seg_release :: "nat list \<Rightarrow> work \<Rightarrow> work" where
  "seg_release ids = (\<lambda>(st, s). (st, s\<lparr>sg_released := sg_released s @ ids\<rparr>))"

definition active :: "work \<Rightarrow> bool" where
  "active w \<longleftrightarrow> ss_active (fst w) \<noteq> None"

definition active_duration :: "work \<Rightarrow> int" where
  "active_duration w = (case ss_active (fst w) of None \<Rightarrow> 0 | Some af \<Rightarrow> af_duration af)"

definition config :: "work \<Rightarrow> seg_config" where
  "config w = sg_config (snd w)"

section \<open>Sources\<close>

definition hasSource :: "string \<Rightarrow> segmenter \<Rightarrow> bool" where
  "hasSource url s \<longleftrightarrow> url \<in> set (sg_sources s)"

fun index_of :: "string \<Rightarrow> string list \<Rightarrow> nat option" where
  "index_of url [] = None"
| "index_of url (x # xs) = (if x = url then Some 0 else map_option Suc (index_of url xs))"

definition getSourceIndex :: "string \<Rightarrow> segmenter \<Rightarrow> nat option" where
  "getSourceIndex url s = index_of url (sg_sources s)"

definition addSource :: "string \<Rightarrow> segmenter \<Rightarrow> segmenter" where
  "addSource url s = (if hasSource url s then s else s\<lparr>sg_sources := sg_sources s @ [url]\<rparr>)"

section \<open>Construction\<close>

record seg_options =
  o_preBuffer :: int
  o_postEvent :: int
  o_maxEvent :: int
  o_batched :: bool
  o_path :: "int \<Rightarrow> nat \<Rightarrow> string \<times> string"

definition New_config :: "(rat \<Rightarrow> rat) \<Rightarrow> int \<Rightarrow> record_mode \<Rightarrow> seg_options \<Rightarrow> seg_config" where
  "New_config rnd segSize mode opt =
     (let pre = (if o_preBuffer opt = 0 then quot segSize 2 else o_preBuffer opt);
          mx = (if o_maxEvent opt = 0 then Minute else o_maxEvent opt);
          post = (if o_postEvent opt = 0 then (if mode = Event then mx else quot segSize 2)
                  else if mode = Event \<and> mx < o_postEvent opt then mx else o_postEvent opt);
          caps = ringByteBudgets rnd segSize pre
      in \<lparr>c_targetDuration = segSize, c_preBuffer = pre, c_postEvent = post, c_maxEvent = mx,
          c_batched = o_batched opt, c_ringBytes = fst caps, c_muxerBytes = snd caps, c_path = o_path opt,
          c_round = rnd\<rparr>)"

definition New :: "(rat \<Rightarrow> rat) \<Rightarrow> int \<Rightarrow> record_mode \<Rightarrow> seg_options \<Rightarrow> int \<Rightarrow> segmenter" where
  "New rnd segSize mode opt now = \<lparr>sg_config = New_config rnd segSize mode opt, sg_recordMode = mode,
     sg_recordCurStatus = False, sg_lastEvent = now, sg_sources = [], sg_streams = [], sg_locked = False,
     sg_released = [], sg_disk = [], sg_sent = [], sg_statuses = [], sg_creates = [], sg_mkdirs = [], sg_stats = [],
     sg_infoTaken = [], sg_statusTaken = []\<rparr>"

definition RingAllocatorBudget :: "(rat \<Rightarrow> rat) \<Rightarrow> int \<Rightarrow> int \<Rightarrow> int" where
  "RingAllocatorBudget rnd target preBuffer = RingBudgetBytes rnd target preBuffer"

text \<open>The stream of a source that has sent its first packet.\<close>

definition new_stream_state :: "seg_config \<Rightarrow> string \<Rightarrow> stream_state" where
  "new_stream_state c url = \<lparr>ss_source = url, ss_active = None,
     ss_ring = newRingBuffer (c_round c) (c_preBuffer c) (ringHardCap (c_preBuffer c)) (c_ringBytes c),
     ss_seenKeyframe = False, ss_eventSaved = True, ss_eventRecordStart = zero_time, ss_eventSessionDur = 0,
     ss_lastRecordStop = zero_time, ss_video = None, ss_audio = None\<rparr>"

section \<open>Files\<close>

definition os_Create :: "segmenter \<Rightarrow> create_result \<times> segmenter" where
  "os_Create s = (case pop (Created []) (sg_creates s) of (r, rs) \<Rightarrow> (r, s\<lparr>sg_creates := rs\<rparr>))"

definition os_MkdirAll :: "segmenter \<Rightarrow> bool \<times> segmenter" where
  "os_MkdirAll s = (case pop True (sg_mkdirs s) of (r, rs) \<Rightarrow> (r, s\<lparr>sg_mkdirs := rs\<rparr>))"

definition new_file :: "nat option list \<Rightarrow> wfile" where
  "new_file faults = \<lparr>wf_bytes = [], wf_pos = 0, wf_faults = faults\<rparr>"

definition createFile :: "segmenter \<Rightarrow> wfile option \<times> segmenter" where
  "createFile s = (case os_Create s of
       (Created fs, s) \<Rightarrow> (Some (new_file fs), s)
     | (CreateFails, s) \<Rightarrow> (None, s)
     | (NotExist, s) \<Rightarrow> (case os_MkdirAll s of
           (False, s) \<Rightarrow> (None, s)
         | (True, s) \<Rightarrow> (case os_Create s of (Created fs, s) \<Rightarrow> (Some (new_file fs), s) | (_, s) \<Rightarrow> (None, s))))"

definition openNewSegment :: "ticks \<Rightarrow> string \<Rightarrow> int \<Rightarrow> seg_op" where
  "openNewSegment tk url startTime = (\<lambda>(st, s). case ss_video st of None \<Rightarrow> seg_fail NoVideoParameters (st, s)
     | Some v \<Rightarrow> (case getSourceIndex url s of None \<Rightarrow> seg_fail UnknownSource (st, s)
     | Some idx \<Rightarrow> (case c_path (sg_config s) startTime idx of (folder, name) \<Rightarrow> (case createFile s of
         (None, s) \<Rightarrow> seg_fail CannotCreate (st, s)
       | (Some f, s) \<Rightarrow> (case Mux (t_mux tk) (Some (snd v)) (map_option snd (ss_audio st)) (NewMuxer f (c_batched (sg_config s))) of
           (m, Some e) \<Rightarrow> ((st, s\<lparr>sg_disk := sg_disk s @ [Removed folder name]\<rparr>), [], mux_outcome (Some e))
         | (m, None) \<Rightarrow> ((st\<lparr>ss_active := Some \<lparr>af_muxer = m, af_startTime = startTime, af_folder = folder, af_name = name,
             af_duration = 0, af_lastFlush = 0, af_pktCount = 0\<rparr>\<rparr>, s), [], Ok))))))"

text \<open>A file that is given up: its muxer releases what it holds.\<close>

definition discard_file :: "active_file \<Rightarrow> work \<Rightarrow> work" where
  "discard_file af = (\<lambda>(st, s). (st\<lparr>ss_active := None\<rparr>, s\<lparr>sg_released := sg_released s @ mx_released (ReleasePending (af_muxer af)),
     sg_disk := sg_disk s @ [Removed (af_folder af) (af_name af)]\<rparr>))"

definition info_of :: "stream_state \<Rightarrow> media_codec \<Rightarrow> active_file \<Rightarrow> nat \<Rightarrow> file_info" where
  "info_of st v af n = \<lparr>fi_Name = af_folder af @ af_name af, fi_Start = af_startTime af,
     fi_Stop = af_startTime af + af_duration af, fi_Size = n, fi_URL = ss_source st,
     fi_Width = par_Width v, fi_Height = par_Height v, fi_Codec = codec_Type v\<rparr>"

definition finish_file :: "ticks \<Rightarrow> active_file \<Rightarrow> seg_op" where
  "finish_file tk af = (\<lambda>(st, s). case WriteTrailer (t_mux tk) (af_muxer af) of (m, e) \<Rightarrow>
     (let s = s\<lparr>sg_released := sg_released s @ mx_released m\<rparr>; st = st\<lparr>ss_active := None\<rparr> in
      case mux_outcome e of
        Ok \<Rightarrow> (case pop True (sg_stats s) of (ok, stats) \<Rightarrow>
          let w = (st, s\<lparr>sg_stats := stats, sg_disk := sg_disk s @ [Kept (af_folder af) (af_name af) (wf_bytes (mx_writer m))]\<rparr>)
          in case ss_video st of None \<Rightarrow> (w, [], Panicked)
             | Some v \<Rightarrow> (w, [info_of st (snd v) af (if ok then length (wf_bytes (mx_writer m)) else 0)], Ok))
      | Panicked \<Rightarrow> ((st, s), [], Panicked)
      | r \<Rightarrow> ((st, s\<lparr>sg_disk := sg_disk s @ [Removed (af_folder af) (af_name af)]\<rparr>), [], r)))"

definition closeSegment :: "ticks \<Rightarrow> int \<Rightarrow> seg_op" where
  "closeSegment tk minDuration w = (case ss_active (fst w) of None \<Rightarrow> seg_done w
     | Some af \<Rightarrow> if af_pktCount af = 0 \<or> 0 < minDuration \<and> af_duration af < minDuration
         then seg_update (discard_file af) w else finish_file tk af w)"

section \<open>Packets\<close>

definition set_active :: "(active_file \<Rightarrow> active_file) \<Rightarrow> work \<Rightarrow> work" where
  "set_active f = (\<lambda>(st, s). (st\<lparr>ss_active := map_option f (ss_active st)\<rparr>, s))"

definition seg_writePacket :: "seg_packet \<Rightarrow> seg_op" where
  "seg_writePacket p w = (case ss_active (fst w) of None \<Rightarrow> seg_fail NoActiveSegment w
     | Some af \<Rightarrow> (case WritePacket (media_packet.truncate p) (af_muxer af) of
         (m, Some e) \<Rightarrow> (set_active (\<lambda>af. af\<lparr>af_muxer := m\<rparr>) w, [], mux_outcome (Some e))
       | (m, None) \<Rightarrow> (set_active (\<lambda>af. af\<lparr>af_muxer := m, af_pktCount := af_pktCount af + 1,
           af_duration := af_duration af + video_dur p\<rparr>) w, [], Ok)))"

definition flush_active :: seg_op where
  "flush_active w = (case ss_active (fst w) of None \<Rightarrow> seg_done w
     | Some af \<Rightarrow> (case Flush (af_muxer af) of
         (m, Some e) \<Rightarrow> (set_active (\<lambda>af. af\<lparr>af_muxer := m\<rparr>) w, [], mux_outcome (Some e))
       | (m, None) \<Rightarrow> (set_active (\<lambda>af. af\<lparr>af_muxer := m, af_lastFlush := af_duration af\<rparr>) w, [], Ok)))"

definition eventFlushInterval :: "seg_config \<Rightarrow> int" where
  "eventFlushInterval c = (let interval = quot (c_preBuffer c) 4 in
     if interval < 2 * second then 2 * second else if 8 * second < interval then 8 * second else interval)"

definition flushEventSegment :: seg_op where
  "flushEventSegment = flush_active"

definition maybeFlushEventSegment :: seg_op where
  "maybeFlushEventSegment w = (case ss_active (fst w) of None \<Rightarrow> seg_done w
     | Some af \<Rightarrow> if af_duration af - af_lastFlush af < eventFlushInterval (config w) \<and>
           int (PendingBytes (af_muxer af)) < c_muxerBytes (config w)
         then seg_done w else flushEventSegment w)"

text \<open>A status is sent, or given up after a timeout.\<close>

definition sendRecordStatus :: "bool \<Rightarrow> segmenter \<Rightarrow> segmenter" where
  "sendRecordStatus b s = (case pop True (sg_statusTaken s) of (ok, rest) \<Rightarrow>
     s\<lparr>sg_statusTaken := rest, sg_statuses := sg_statuses s @ (if ok then [b] else [])\<rparr>)"

definition set_recording :: "bool \<Rightarrow> segmenter \<Rightarrow> segmenter" where
  "set_recording b s = (if sg_recordCurStatus s = b then s else sendRecordStatus b (s\<lparr>sg_recordCurStatus := b\<rparr>))"

section \<open>Always mode\<close>

definition due_flush :: "work \<Rightarrow> bool" where
  "due_flush w = (case ss_active (fst w) of None \<Rightarrow> False
     | Some af \<Rightarrow> c_targetDuration (config w) + second \<le> af_duration af - af_lastFlush af)"

definition handleAlwaysMode :: "ticks \<Rightarrow> string \<Rightarrow> seg_packet \<Rightarrow> bool \<Rightarrow> seg_op" where
  "handleAlwaysMode tk url pkt isKeyframe =
     seg_then (seg_when (\<lambda>w. isKeyframe \<and> active w \<and> c_targetDuration (config w) \<le> active_duration w)
       (seg_on_error (closeSegment tk 0) (seg_release [mk_id pkt])))
     (seg_then (seg_when (\<lambda>w. \<not> active w \<and> isKeyframe)
       (seg_then (seg_on_error (openNewSegment tk url (sp_start pkt)) (seg_release [mk_id pkt]))
         (seg_update (\<lambda>(st, s). (st, set_recording True s)))))
     (\<lambda>w. if active w then seg_then (seg_writePacket pkt) (seg_when due_flush flush_active) w
          else seg_update (seg_release [mk_id pkt]) w))"

section \<open>Event mode\<close>

definition on_ring :: "(ring_buffer \<Rightarrow> ring_buffer releasing) \<Rightarrow> work \<Rightarrow> work" where
  "on_ring f = (\<lambda>(st, s). case f (ss_ring st) of (rb, ids) \<Rightarrow> seg_release ids (st\<lparr>ss_ring := rb\<rparr>, s))"

definition buffer_packet :: "seg_packet \<Rightarrow> bool \<Rightarrow> work \<Rightarrow> work" where
  "buffer_packet pkt isKeyframe w =
     (let w = on_ring (ring_add pkt) w in if isKeyframe then on_ring ring_trim w else w)"

definition findFirstKeyframe :: "seg_packet list \<Rightarrow> nat" where
  "findFirstKeyframe ps = (case find_key 0 ps of Some k \<Rightarrow> k | None \<Rightarrow> 0)"

fun find_key_from :: "int \<Rightarrow> nat \<Rightarrow> seg_packet list \<Rightarrow> nat option" where
  "find_key_from stop i [] = None"
| "find_key_from stop i (p # ps) =
     (if key_frame p \<and> \<not> sp_start p < stop then Some i else find_key_from stop (i + 1) ps)"

definition findKeyframeAtOrAfter :: "seg_packet list \<Rightarrow> nat \<Rightarrow> int \<Rightarrow> nat" where
  "findKeyframeAtOrAfter ps start stop =
     (case find_key_from stop start (drop start ps) of Some k \<Rightarrow> k | None \<Rightarrow> start)"

definition eventSegmentBudgetAllowsRotate :: "ticks \<Rightarrow> work \<Rightarrow> bool" where
  "eventSegmentBudgetAllowsRotate tk w \<longleftrightarrow>
     (let remainingToMax = c_maxEvent (config w) - ss_eventSessionDur (fst w);
          wallLeft = c_maxEvent (config w) - go_Since (t_budget tk) (ss_eventRecordStart (fst w))
      in c_targetDuration (config w) \<le> min remainingToMax wallLeft)"

definition shouldCloseEventRecording :: "ticks \<Rightarrow> work \<Rightarrow> bool" where
  "shouldCloseEventRecording tk w = (case ss_active (fst w) of None \<Rightarrow> False
     | Some af \<Rightarrow> c_maxEvent (config w) \<le> af_duration af \<or>
         c_maxEvent (config w) \<le> go_Since (t_wall tk) (ss_eventRecordStart (fst w)) \<or>
         c_postEvent (config w) \<le> go_Since (t_idle tk) (sg_lastEvent (snd w)))"

definition minEventSegmentDuration :: int where "minEventSegmentDuration = 5 * second"

text \<open>The stream the handler works on is idle by now; \<open>url\<close> tells it from the others.\<close>

definition other_active :: "string \<Rightarrow> segmenter \<Rightarrow> bool" where
  "other_active url s \<longleftrightarrow> list_ex (\<lambda>(u, st). u \<noteq> url \<and> ss_active st \<noteq> None) (sg_streams s)"

definition end_session :: "string \<Rightarrow> (stream_state \<Rightarrow> int) \<Rightarrow> work \<Rightarrow> work" where
  "end_session url stop = (\<lambda>(st, s).
     (st\<lparr>ss_lastRecordStop := stop st, ss_eventRecordStart := zero_time, ss_eventSessionDur := 0\<rparr>,
      if other_active url s then s else set_recording False s))"

definition endEventSession :: "ticks \<Rightarrow> string \<Rightarrow> seg_packet \<Rightarrow> bool \<Rightarrow> seg_op" where
  "endEventSession tk url pkt isKeyframe w =
     (case seg_on_error (closeSegment tk 0) (seg_release [mk_id pkt]) w of
        (w, infos, Ok) \<Rightarrow>
          (buffer_packet pkt isKeyframe (end_session url (\<lambda>st. if isKeyframe then sp_start pkt
             else case infos of i # _ \<Rightarrow> fi_Stop i | [] \<Rightarrow> ss_lastRecordStop st) w), infos, Ok)
      | r \<Rightarrow> r)"

text \<open>Close the segment and open the next one at \<open>pkt\<close>; on failure release what is left.\<close>

definition rotate_segment :: "ticks \<Rightarrow> string \<Rightarrow> seg_packet \<Rightarrow> nat list \<Rightarrow> seg_op" where
  "rotate_segment tk url pkt left =
     seg_then (seg_on_error (closeSegment tk 0) (seg_release left))
       (seg_on_error (openNewSegment tk url (sp_start pkt)) (seg_release left))"

definition add_session :: "seg_packet \<Rightarrow> work \<Rightarrow> work" where
  "add_session pkt = (\<lambda>(st, s). (st\<lparr>ss_eventSessionDur := ss_eventSessionDur st + video_dur pkt\<rparr>, s))"

definition idle_reached :: "ticks \<Rightarrow> work \<Rightarrow> bool" where
  "idle_reached tk w \<longleftrightarrow> c_postEvent (config w) \<le> go_Since (t_idle tk) (sg_lastEvent (snd w))"

definition max_reached :: "ticks \<Rightarrow> work \<Rightarrow> bool" where
  "max_reached tk w \<longleftrightarrow> c_maxEvent (config w) \<le> ss_eventSessionDur (fst w) \<or>
     c_maxEvent (config w) \<le> go_Since (t_wall tk) (ss_eventRecordStart (fst w))"

definition session_ends :: "ticks \<Rightarrow> bool \<Rightarrow> work \<Rightarrow> bool" where
  "session_ends tk isKeyframe w \<longleftrightarrow> minEventSegmentDuration \<le> active_duration w \<and>
     (if idle_reached tk w then isKeyframe else max_reached tk w)"

definition handleEventModeActiveFile :: "ticks \<Rightarrow> string \<Rightarrow> seg_packet \<Rightarrow> bool \<Rightarrow> seg_op" where
  "handleEventModeActiveFile tk url pkt isKeyframe w =
     (if session_ends tk isKeyframe w then endEventSession tk url pkt isKeyframe w
      else seg_then (seg_when (\<lambda>w. isKeyframe \<and> \<not> idle_reached tk w \<and> \<not> max_reached tk w \<and>
            c_targetDuration (config w) \<le> active_duration w \<and> eventSegmentBudgetAllowsRotate tk w)
          (rotate_segment tk url pkt [mk_id pkt]))
        (seg_then (seg_writePacket pkt)
        (seg_then (seg_update (add_session pkt)) maybeFlushEventSegment)) w)"

text \<open>The drained packets go into fresh segments, rotating at key frames.\<close>

fun record_buffered :: "ticks \<Rightarrow> string \<Rightarrow> seg_packet list \<Rightarrow> seg_op" where
  "record_buffered tk url [] = seg_done"
| "record_buffered tk url (p # ps) =
     seg_then (seg_when (\<lambda>w. key_frame p \<and> c_targetDuration (config w) \<le> active_duration w)
       (rotate_segment tk url p (map mk_id (p # ps))))
     (seg_then (seg_on_error (seg_writePacket p) (seg_release (map mk_id ps)))
     (seg_then (seg_update (add_session p))
     (seg_then maybeFlushEventSegment
       (record_buffered tk url ps))))"

definition drain_ring :: "work \<Rightarrow> work \<times> seg_packet list" where
  "drain_ring = (\<lambda>(st, s). case ring_drain (ss_ring st) of (rb, ps) \<Rightarrow> ((st\<lparr>ss_ring := rb\<rparr>, s), ps))"

definition start_index :: "stream_state \<Rightarrow> seg_packet list \<Rightarrow> nat" where
  "start_index st ps = (let i = findFirstKeyframe ps in
     if ss_lastRecordStop st = zero_time then i else findKeyframeAtOrAfter ps i (ss_lastRecordStop st))"

definition startEventRecording :: "ticks \<Rightarrow> string \<Rightarrow> seg_op" where
  "startEventRecording tk url w = (case drain_ring w of (w, ps) \<Rightarrow>
     if ps = [] then seg_done w
     else let i = start_index (fst w) ps; rest = drop i ps in
       seg_then (seg_update (seg_release (map mk_id (take i ps))))
       (seg_then (seg_on_error (openNewSegment tk url (sp_start (ps ! i))) (seg_release (map mk_id rest)))
       (seg_then (seg_update (\<lambda>(st, s). (st\<lparr>ss_eventRecordStart := t_start tk, ss_eventSessionDur := 0\<rparr>, set_recording True s)))
       (seg_then (record_buffered tk url rest)
       (seg_then flushEventSegment
         (seg_update (\<lambda>(st, s). (st\<lparr>ss_eventSaved := True\<rparr>, s))))))) w)"

definition handleEventMode :: "ticks \<Rightarrow> string \<Rightarrow> seg_packet \<Rightarrow> bool \<Rightarrow> seg_op" where
  "handleEventMode tk url pkt isKeyframe w =
     (if active w then handleEventModeActiveFile tk url pkt isKeyframe w
      else seg_then (seg_update (buffer_packet pkt isKeyframe))
        (seg_when (\<lambda>w. \<not> ss_eventSaved (fst w) \<and> isKeyframe) (startEventRecording tk url)) w)"

section \<open>Step\<close>

text \<open>\<open>range\<close> over the map of streams visits them in some order, given by \<open>ks\<close>.\<close>

definition range_order :: "string list \<Rightarrow> segmenter \<Rightarrow> string list" where
  "range_order ks s = (if distinct ks \<and> set ks = fst ` set (sg_streams s) then ks else map fst (sg_streams s))"

definition put_stream :: "string \<Rightarrow> work \<Rightarrow> segmenter" where
  "put_stream url = (\<lambda>(st, s). s\<lparr>sg_streams := AList.update url st (sg_streams s)\<rparr>)"

text \<open>A file information is sent, or dropped when the consumer does not take it before the stop.\<close>

definition sendFileInfo :: "file_info \<Rightarrow> segmenter \<Rightarrow> segmenter" where
  "sendFileInfo i s = (case pop True (sg_infoTaken s) of (ok, rest) \<Rightarrow>
     s\<lparr>sg_infoTaken := rest, sg_sent := sg_sent s @ (if ok then [i] else [])\<rparr>)"

definition reset_ring :: "work \<Rightarrow> work" where
  "reset_ring w = (case on_ring ring_clear w of (st, s) \<Rightarrow> (st\<lparr>ss_seenKeyframe := False\<rparr>, s))"

text \<open>A change of mode: the first error ends the loop, and the files closed before it go unreported.\<close>

fun mode_streams :: "ticks \<Rightarrow> string list \<Rightarrow> segmenter \<Rightarrow> segmenter \<times> file_info list \<times> outcome" where
  "mode_streams tk [] s = (s, [], Ok)"
| "mode_streams tk (k # ks) s = (case map_of (sg_streams s) k of None \<Rightarrow> mode_streams tk ks s
     | Some st \<Rightarrow> (case closeSegment tk 0 (st, s) of
         (w, is, Ok) \<Rightarrow> (case mode_streams tk ks (put_stream k (reset_ring w)) of (s, js, r) \<Rightarrow> (s, is @ js, r))
       | (w, is, r) \<Rightarrow> (put_stream k w, is, r)))"

text \<open>What a panic leaves behind: the lock.\<close>

definition unlock :: "outcome \<Rightarrow> segmenter \<Rightarrow> segmenter" where
  "unlock r s = s\<lparr>sg_locked := (r = Panicked)\<rparr>"

definition step_mode :: "ticks \<Rightarrow> string list \<Rightarrow> record_mode \<Rightarrow> segmenter \<Rightarrow> segmenter \<times> outcome" where
  "step_mode tk ks mode s = (if mode = sg_recordMode s then (s, Ok)
     else if sg_locked s then (s, Blocked)
     else case mode_streams tk (range_order ks s) s of
       (s, infos, Ok) \<Rightarrow> (set_recording False ((fold sendFileInfo infos s)\<lparr>sg_recordMode := mode\<rparr>), Ok)
     | (s, infos, r) \<Rightarrow> (unlock r s, r))"

definition step_add :: "string \<Rightarrow> segmenter \<Rightarrow> segmenter \<times> outcome" where
  "step_add url s = (if sg_locked s then (s, Blocked) else (addSource url s, Ok))"

definition removeSource :: "ticks \<Rightarrow> string \<Rightarrow> segmenter \<Rightarrow> segmenter \<times> file_info list \<times> outcome" where
  "removeSource tk url s = (let forget = (\<lambda>s. s\<lparr>sg_sources := remove1 url (sg_sources s)\<rparr>) in
     case map_of (sg_streams s) url of None \<Rightarrow> (forget s, [], Ok)
     | Some st \<Rightarrow> (case closeSegment tk 0 (st, s) of
         (w, is, Panicked) \<Rightarrow> (put_stream url w, is, Panicked)
       | (w, is, r) \<Rightarrow> (case on_ring ring_clear w of (st, s) \<Rightarrow>
           (forget (s\<lparr>sg_streams := AList.delete url (sg_streams s)\<rparr>), is, Ok))))"

definition step_remove :: "ticks \<Rightarrow> string \<Rightarrow> segmenter \<Rightarrow> segmenter \<times> outcome" where
  "step_remove tk url s = (if sg_locked s then (s, Blocked)
     else case removeSource tk url s of
       (s, is, Panicked) \<Rightarrow> (unlock Panicked s, Panicked)
     | (s, is, r) \<Rightarrow> (fold sendFileInfo is s, r))"

text \<open>An event: idle streams will record from their next key frame, recording ones get a new window.\<close>

definition note_event :: "ticks \<Rightarrow> stream_state \<Rightarrow> stream_state" where
  "note_event tk st = (if ss_active st = None then st\<lparr>ss_eventSaved := False\<rparr>
     else st\<lparr>ss_eventRecordStart := t_start tk, ss_eventSessionDur := 0\<rparr>)"

definition step_event :: "ticks \<Rightarrow> segmenter \<Rightarrow> segmenter \<times> outcome" where
  "step_event tk s = (let s = s\<lparr>sg_lastEvent := t_event tk\<rparr> in
     if sg_locked s then (s, Blocked)
     else (s\<lparr>sg_streams := map (\<lambda>(u, st). (u, note_event tk st)) (sg_streams s)\<rparr>, Ok))"

text \<open>New codec parameters close the segment; one shorter than a second is discarded.\<close>

definition packet_codec :: "seg_packet \<Rightarrow> codec_ref" where
  "packet_codec p = (sp_parId p, mk_par p)"

definition new_codec :: "seg_packet \<Rightarrow> stream_state \<Rightarrow> bool" where
  "new_codec p st \<longleftrightarrow> map_option fst (if mk_video p then ss_video st else ss_audio st) \<noteq> Some (sp_parId p)"

definition set_codec :: "seg_packet \<Rightarrow> work \<Rightarrow> work" where
  "set_codec p = (\<lambda>(st, s). (if mk_video p then st\<lparr>ss_video := Some (packet_codec p)\<rparr>
     else st\<lparr>ss_audio := Some (packet_codec p)\<rparr>, s))"

definition update_codec :: "ticks \<Rightarrow> seg_packet \<Rightarrow> seg_op" where
  "update_codec tk p = seg_when (\<lambda>w. new_codec p (fst w))
     (seg_then (seg_update (set_codec p)) (seg_on_error (closeSegment tk second) (seg_release [mk_id p])))"

definition see_keyframe :: "work \<Rightarrow> work" where
  "see_keyframe = (\<lambda>(st, s). (st\<lparr>ss_seenKeyframe := True\<rparr>, s))"

definition dispatch :: "ticks \<Rightarrow> string \<Rightarrow> seg_packet \<Rightarrow> seg_op" where
  "dispatch tk url p w = (case sg_recordMode (snd w) of
       Always \<Rightarrow> handleAlwaysMode tk url p (key_frame p) w
     | Event \<Rightarrow> handleEventMode tk url p (key_frame p) w
     | Never \<Rightarrow> seg_done w)"

definition packet_work :: "ticks \<Rightarrow> string \<Rightarrow> seg_packet \<Rightarrow> seg_op" where
  "packet_work tk url p = seg_then (update_codec tk p)
     (\<lambda>w. if \<not> ss_seenKeyframe (fst w) \<and> \<not> key_frame p then seg_update (seg_release [mk_id p]) w
          else dispatch tk url p (if key_frame p then see_keyframe w else w))"

definition stream_for :: "string \<Rightarrow> segmenter \<Rightarrow> stream_state" where
  "stream_for url s = (case map_of (sg_streams s) url of Some st \<Rightarrow> st | None \<Rightarrow> new_stream_state (sg_config s) url)"

definition step_packet :: "ticks \<Rightarrow> seg_packet option \<Rightarrow> segmenter \<Rightarrow> segmenter \<times> outcome" where
  "step_packet tk pkt s = (case pkt of None \<Rightarrow> (s, Fail NilPacket)
     | Some p \<Rightarrow> if sg_recordMode s = Never then (s\<lparr>sg_released := sg_released s @ [mk_id p]\<rparr>, Fail NeverMode)
       else if sg_locked s then (s, Blocked)
       else if \<not> hasSource (sp_source p) s then (s\<lparr>sg_released := sg_released s @ [mk_id p]\<rparr>, Ok)
       else (case packet_work tk (sp_source p) p (stream_for (sp_source p) s, s) of
           (w, is, Panicked) \<Rightarrow> (unlock Panicked (put_stream (sp_source p) w), Panicked)
         | (w, is, r) \<Rightarrow> (fold sendFileInfo is (put_stream (sp_source p) w), r)))"

datatype input = InStop | InMode record_mode | InAdd string | InRemove string | InEvent
  | InPacket "seg_packet option"

definition Step :: "ticks \<Rightarrow> string list \<Rightarrow> input \<Rightarrow> segmenter \<Rightarrow> segmenter \<times> outcome" where
  "Step tk ks i s = (case i of
       InStop \<Rightarrow> (s, Fail BreakError)
     | InMode mode \<Rightarrow> step_mode tk ks mode s
     | InAdd url \<Rightarrow> step_add url s
     | InRemove url \<Rightarrow> step_remove tk url s
     | InEvent \<Rightarrow> step_event tk s
     | InPacket p \<Rightarrow> step_packet tk p s)"

section \<open>Release\<close>

fun release_streams :: "ticks \<Rightarrow> string list \<Rightarrow> segmenter \<Rightarrow> segmenter \<times> file_info list \<times> outcome" where
  "release_streams tk [] s = (s, [], Ok)"
| "release_streams tk (k # ks) s = (case map_of (sg_streams s) k of None \<Rightarrow> release_streams tk ks s
     | Some st \<Rightarrow> (case closeSegment tk 0 (st, s) of
         (w, is, Panicked) \<Rightarrow> (put_stream k w, is, Panicked)
       | (w, is, r) \<Rightarrow> (case release_streams tk ks (put_stream k (on_ring ring_clear w)) of (s, js, r) \<Rightarrow> (s, is @ js, r))))"

text \<open>\<open>queue\<close> is what is left in the channel of packets.\<close>

definition Segmenter_Release :: "ticks \<Rightarrow> string list \<Rightarrow> seg_packet option list \<Rightarrow> segmenter \<Rightarrow> segmenter \<times> outcome" where
  "Segmenter_Release tk ks queue s = (if sg_locked s then (s, Blocked)
     else case release_streams tk (range_order ks s) s of
       (s, infos, Ok) \<Rightarrow> (let s = fold sendFileInfo infos s; s = (if sg_recordCurStatus s then sendRecordStatus False s else s)
         in (s\<lparr>sg_released := sg_released s @ map mk_id (List.map_filter id queue)\<rparr>, Ok))
     | (s, infos, r) \<Rightarrow> (unlock r s, r))"

end
