(* ===== verification/SegmenterRelease.thy ===== *)
theory SegmenterRelease
  imports Segmenter
begin

text \<open>
  The packets of the segmenter: no packet is released twice, whatever fails, and none is lost as long as
  no muxer fails.
\<close>

section \<open>Accounting\<close>

definition ring_ids :: "ring_buffer \<Rightarrow> nat multiset" where
  "ring_ids rb = mset (map mk_id (rb_packets rb))"

definition held_active :: "active_file option \<Rightarrow> nat multiset" where
  "held_active a = (case a of None \<Rightarrow> {#} | Some af \<Rightarrow> accounted (af_muxer af))"

definition held_stream_state :: "stream_state \<Rightarrow> nat multiset" where
  "held_stream_state st = held_active (ss_active st) + ring_ids (ss_ring st)"

definition work_acct :: "work \<Rightarrow> nat multiset" where
  "work_acct w = mset (sg_released (snd w)) + held_stream_state (fst w)"

definition seg_acct :: "segmenter \<Rightarrow> nat multiset" where
  "seg_acct s = mset (sg_released s) + sum_list (map (\<lambda>x. held_stream_state (snd x)) (sg_streams s))"

definition same_seg :: "segmenter \<Rightarrow> segmenter \<Rightarrow> bool" where
  "same_seg s s' \<longleftrightarrow> sg_streams s' = sg_streams s \<and> sg_config s' = sg_config s \<and> sg_sources s' = sg_sources s \<and>
     sg_recordMode s' = sg_recordMode s \<and> sg_locked s' = sg_locked s"

lemma same_seg_refl [simp]: "same_seg s s"
  by (simp add: same_seg_def)

lemma same_seg_trans: "same_seg a b \<Longrightarrow> same_seg b c \<Longrightarrow> same_seg a c"
  by (simp add: same_seg_def)

text \<open>The outcomes after which every packet is accounted for.\<close>

fun clean :: "outcome \<Rightarrow> bool" where
  "clean Ok = True"
| "clean (Fail (MuxFailed e)) = False"
| "clean (Fail NoActiveSegment) = False"
| "clean (Fail e) = True"
| "clean Panicked = False"
| "clean Blocked = False"

text \<open>
  A part of a handler that is responsible for the packets \<open>X\<close> and leaves \<open>Y\<close> to what comes next: it may
  lose packets when it fails, but never counts one twice.
\<close>

definition moved :: "nat multiset \<Rightarrow> nat multiset \<Rightarrow> work \<Rightarrow> work \<times> file_info list \<times> outcome \<Rightarrow> bool" where
  "moved X Y w res \<longleftrightarrow> (case res of (w', is, r) \<Rightarrow> same_seg (snd w) (snd w') \<and> r \<noteq> Blocked \<and>
     work_acct w' \<subseteq># work_acct w + X \<and> (r = Ok \<longrightarrow> work_acct w' + Y = work_acct w + X) \<and>
     (clean r \<and> r \<noteq> Ok \<longrightarrow> work_acct w' = work_acct w + X))"

definition any_work :: "work \<Rightarrow> bool" where
  "any_work w = True"

definition idle :: "work \<Rightarrow> bool" where
  "idle w \<longleftrightarrow> ss_active (fst w) = None"

definition moves :: "(work \<Rightarrow> bool) \<Rightarrow> nat multiset \<Rightarrow> nat multiset \<Rightarrow> seg_op \<Rightarrow> bool" where
  "moves P X Y f \<longleftrightarrow> (\<forall>w. P w \<longrightarrow> moved X Y w (f w))"

definition kept :: "(work \<Rightarrow> bool) \<Rightarrow> seg_op \<Rightarrow> bool" where
  "kept P f \<longleftrightarrow> (\<forall>w w' is r. P w \<longrightarrow> f w = (w', is, r) \<longrightarrow>
     same_seg (snd w) (snd w') \<and> work_acct w' = work_acct w \<and> r \<noteq> Blocked)"

lemma keptD:
  assumes "kept P f" "P w" "f w = (w', is, r)"
  shows "same_seg (snd w) (snd w')" "work_acct w' = work_acct w" "r \<noteq> Blocked"
  using assms unfolding kept_def by blast+

lemma kept_weaken: "kept Q f \<Longrightarrow> (\<And>w. P w \<Longrightarrow> Q w) \<Longrightarrow> kept P f"
  unfolding kept_def by blast

lemma movesD: "moves P X Y f \<Longrightarrow> P w \<Longrightarrow> moved X Y w (f w)"
  unfolding moves_def by blast

lemma moved_from: "moved X Y v res \<Longrightarrow> work_acct v = work_acct w \<Longrightarrow> snd v = snd w \<Longrightarrow> moved X Y w res"
  by (simp add: moved_def)

lemma moves_pre: "moves Q X Y f \<Longrightarrow> (\<And>w. P w \<Longrightarrow> Q w) \<Longrightarrow> moves P X Y f"
  unfolding moves_def by blast

lemma moves_weaken: "moves any_work X Y f \<Longrightarrow> moves P X Y f"
  by (simp add: moves_def any_work_def)

lemma moves_then_post:
  assumes f: "moves P X Y f" and post: "\<And>w w' is. P w \<Longrightarrow> f w = (w', is, Ok) \<Longrightarrow> Q w'" and g: "moves Q Y Z g"
  shows "moves P X Z (seg_then f g)"
  unfolding moves_def
proof (intro allI impI)
  fix w assume P: "P w"
  obtain w1 is1 r1 where 1: "f w = (w1, is1, r1)" by (metis prod_cases3)
  obtain w2 is2 r2 where 2: "g w1 = (w2, is2, r2)" by (metis prod_cases3)
  have m1: "moved X Y w (w1, is1, r1)" using f 1 P by (metis moves_def)
  show "moved X Z w (seg_then f g w)"
  proof (cases "r1 = Ok")
    case True
    have m2: "moved Y Z w1 (w2, is2, r2)" using g 2 post [OF P] 1 True by (metis moves_def)
    from m1 True have eq: "work_acct w1 + Y = work_acct w + X" by (simp add: moved_def)
    have "moved X Z w (w2, is1 @ is2, r2)"
      using m1 m2 True same_seg_trans unfolding moved_def prod.case eq by blast
    then show ?thesis by (simp add: seg_then_def 1 2 True)
  next
    case False
    then have "seg_then f g w = (w1, is1, r1)" by (cases r1) (simp_all add: seg_then_def 1)
    with m1 False show ?thesis by (simp add: moved_def)
  qed
qed

lemma moves_then: "moves P X Y f \<Longrightarrow> moves any_work Y Z g \<Longrightarrow> moves P X Z (seg_then f g)"
  by (rule moves_then_post [where Q = any_work]) (simp_all add: any_work_def)

lemma moves_cond:
  assumes "moves (\<lambda>w. P w \<and> c w) X Y f" "moves (\<lambda>w. P w \<and> \<not> c w) X Y g"
  shows "moves P X Y (\<lambda>w. if c w then f w else g w)"
  using assms by (simp add: moves_def)

lemma moves_done: "moves P X X seg_done"
  by (simp add: moves_def moved_def seg_done_def)

lemma moves_when: "moves (\<lambda>w. P w \<and> c w) X X f \<Longrightarrow> moves P X X (seg_when c f)"
  by (auto simp: moves_def seg_when_def seg_done_def moved_def)

lemma moves_update:
  assumes "\<And>w. P w \<Longrightarrow> same_seg (snd w) (snd (f w)) \<and> work_acct (f w) + Y = work_acct w + X"
  shows "moves P X Y (seg_update f)"
  unfolding moves_def
proof (intro allI impI)
  fix w assume "P w"
  from assms [OF this] show "moved X Y w (seg_update f w)"
    by (auto simp: moved_def seg_update_def) (metis mset_subset_eq_add_left)
qed

lemma acct_release [simp]: "work_acct (seg_release ids w) = work_acct w + mset ids"
  by (cases w) (simp add: seg_release_def work_acct_def ac_simps)

lemma same_release [simp]: "same_seg s (snd (seg_release ids w)) = same_seg s (snd w)"
  by (cases w) (simp add: seg_release_def same_seg_def)

lemma moves_release: "mset ids = X \<Longrightarrow> moves P X {#} (seg_update (seg_release ids))"
  by (rule moves_update) simp

text \<open>An operation that keeps its packets, with a cleanup that releases the ones in flight.\<close>

lemma moves_on_error:
  assumes "kept P f" "mset ids = X"
  shows "moves P X X (seg_on_error f (seg_release ids))"
  unfolding moves_def
proof (intro allI impI)
  fix w assume P: "P w"
  obtain w1 is1 r1 where 1: "f w = (w1, is1, r1)" by (metis prod_cases3)
  from keptD [OF assms(1) P 1] assms(2) show "moved X X w (seg_on_error f (seg_release ids) w)"
    by (cases r1) (simp_all add: seg_on_error_def 1 moved_def)
qed

lemma moves_kept:
  assumes "kept P f" "\<And>w w' is r. P w \<Longrightarrow> f w = (w', is, r) \<Longrightarrow> clean r \<Longrightarrow> r = Ok"
  shows "moves P X X f"
  unfolding moves_def
proof (intro allI impI)
  fix w assume P: "P w"
  obtain w1 is1 r1 where 1: "f w = (w1, is1, r1)" by (metis prod_cases3)
  from keptD [OF assms(1) P 1] show "moved X X w (f w)" using assms(2) [OF P 1] by (auto simp: 1 moved_def)
qed

section \<open>The operations on files\<close>

lemma WriteTrailer_released: "mset (mx_released (fst (WriteTrailer now m))) = accounted m"
proof -
  obtain m' e where t: "trailer_body now m = (m', e)" by force
  show ?thesis using trailer_body_accounted [OF t]
    by (simp add: WriteTrailer_def t releasePending_def accounted_def ac_simps)
qed

lemma ReleasePending_released: "mset (mx_released (ReleasePending m)) = accounted m"
  by (simp add: ReleasePending_def releasePending_def accounted_def ac_simps)

lemma mux_outcome_not_blocked [simp]: "mux_outcome e \<noteq> Blocked"
  by (auto simp: mux_outcome_def split: option.split mux_err.split)

lemma mux_outcome_clean: "clean (mux_outcome e) \<Longrightarrow> mux_outcome e = Ok"
  by (auto simp: mux_outcome_def split: option.splits mux_err.splits)

lemma mux_outcome_Ok [simp]: "mux_outcome e = Ok \<longleftrightarrow> e = None"
  by (auto simp: mux_outcome_def split: option.split mux_err.split)

lemma finish_kept: 
  assumes "finish_file tk af (st, s) = (w', is, r)" "ss_active st = Some af"
  shows "same_seg s (snd w') \<and> work_acct w' = work_acct (st, s) \<and> r \<noteq> Blocked \<and> ss_active (fst w') = None \<and> (clean r \<longrightarrow> r = Ok)"
proof -
  obtain m e where t: "WriteTrailer (t_mux tk) (af_muxer af) = (m, e)" by force
  have rel: "mset (mx_released m) = accounted (af_muxer af)" using WriteTrailer_released [of "t_mux tk" "af_muxer af"] t by simp
  have acct: "work_acct (st, s) = mset (sg_released s) + (mset (mx_released m) + ring_ids (ss_ring st))"
    by (simp add: work_acct_def held_stream_state_def held_active_def assms(2) rel)
  show ?thesis
    using assms(1) mux_outcome_clean [of e]
    by (cases "mux_outcome e"; cases "ss_video st")
      (auto simp: finish_file_def t rel assms(2) Let_def work_acct_def held_stream_state_def held_active_def same_seg_def
        ac_simps split: prod.splits)
qed

lemma closeSegment_kept:
  assumes "closeSegment tk d w = (w', is, r)"
  shows "same_seg (snd w) (snd w') \<and> work_acct w' = work_acct w \<and> r \<noteq> Blocked \<and> ss_active (fst w') = None \<and> (clean r \<longrightarrow> r = Ok)"
proof (cases "ss_active (fst w)")
  case None
  then show ?thesis using assms by (auto simp: closeSegment_def seg_done_def)
next
  case (Some af)
  show ?thesis
  proof (cases "af_pktCount af = 0 \<or> 0 < d \<and> af_duration af < d")
    case True
    with assms Some have "w' = discard_file af w" "r = Ok" by (simp_all add: closeSegment_def seg_update_def)
    with Some show ?thesis
      by (cases w) (simp add: discard_file_def work_acct_def held_stream_state_def held_active_def same_seg_def
          ReleasePending_released ac_simps)
  next
    case False
    with assms Some have "finish_file tk af (fst w, snd w) = (w', is, r)" by (simp add: closeSegment_def)
    from finish_kept [OF this Some] show ?thesis by simp
  qed
qed

lemma kept_close: "kept P (closeSegment tk d)"
  using closeSegment_kept unfolding kept_def by blast

lemma createFile_frame:
  assumes "createFile s = (f, s')"
  shows "same_seg s s' \<and> sg_released s' = sg_released s"
  using assms
  by (auto simp: createFile_def os_Create_def os_MkdirAll_def same_seg_def split: prod.splits create_result.splits bool.splits)

lemma openNewSegment_kept:
  assumes "openNewSegment tk url t (st, s) = (w', is, r)" "ss_active st = None"
  shows "same_seg s (snd w') \<and> work_acct w' = work_acct (st, s) \<and> r \<noteq> Blocked"
proof (cases "ss_video st = None \<or> getSourceIndex url s = None")
  case True
  then show ?thesis using assms by (auto simp: openNewSegment_def seg_fail_def split: option.splits)
next
  case False
  then obtain v idx where v: "ss_video st = Some v" "getSourceIndex url s = Some idx" by auto
  obtain folder name where p: "c_path (sg_config s) t idx = (folder, name)" by force
  obtain f s1 where c: "createFile s = (f, s1)" by force
  note fr = createFile_frame [OF c]
  show ?thesis
  proof (cases f)
    case None
    then show ?thesis using assms fr by (auto simp: openNewSegment_def v p c seg_fail_def work_acct_def)
  next
    case (Some x)
    obtain m e where m: "Mux (t_mux tk) (Some (snd v)) (map_option snd (ss_audio st)) (NewMuxer x (c_batched (sg_config s1))) = (m, e)"
      by force
    show ?thesis
    proof (cases e)
      case None
      with Mux_accounted m have "accounted m = {#}" by blast
      then show ?thesis using assms fr None
        by (auto simp: openNewSegment_def v p c Some m work_acct_def held_stream_state_def held_active_def)
    next
      case (Some e')
      have "(st, s1\<lparr>sg_disk := sg_disk s1 @ [Removed folder name]\<rparr>) = w'" "r = mux_outcome (Some e')"
        using assms(1) by (simp_all add: openNewSegment_def v p c \<open>f = Some x\<close> m Some)
      then show ?thesis using fr by (auto simp: work_acct_def held_stream_state_def same_seg_def)
    qed
  qed
qed

lemma kept_open: "kept idle (openNewSegment tk url t)"
  using openNewSegment_kept by (auto simp: kept_def idle_def)

section \<open>Packets and flushes\<close>

lemma set_active_acct:
  assumes "ss_active (fst w) = Some af"
  shows "work_acct (set_active f w) + accounted (af_muxer af) = work_acct w + accounted (af_muxer (f af))"
    and "same_seg s (snd (set_active f w)) = same_seg s (snd w)"
  using assms by (cases w; simp add: set_active_def work_acct_def held_stream_state_def held_active_def ac_simps)+

lemma writePacket_acct:
  assumes "seg_writePacket p w = (w', is, r)"
  shows "same_seg (snd w) (snd w') \<and> r \<noteq> Blocked \<and> (clean r \<longrightarrow> r = Ok) \<and>
    work_acct w' = work_acct w + (if r = Ok then {#mk_id p#} else {#})"
proof (cases "ss_active (fst w)")
  case None
  then show ?thesis using assms by (auto simp: seg_writePacket_def seg_fail_def)
next
  case (Some af)
  let ?p = "media_packet.truncate p"
  have id: "mk_id ?p = mk_id p" by (simp add: media_packet.truncate_def)
  show ?thesis
  proof (cases "length (mx_streams (af_muxer af)) \<le> unat (mk_stream ?p)")
    case True
    then have "WritePacket ?p (af_muxer af) = (af_muxer af, Some BadIndex)" by (simp add: WritePacket_def)
    with assms Some show ?thesis
      using set_active_acct [where f = "\<lambda>x. x\<lparr>af_muxer := af_muxer af\<rparr>", OF Some]
      by (auto simp: seg_writePacket_def mux_outcome_def)
  next
    case False
    define m where "m = writePacket (unat (mk_stream ?p)) ?p (af_muxer af)"
    from False have "WritePacket ?p (af_muxer af) = (m, None)" by (simp add: WritePacket_def m_def)
    moreover have "accounted m = accounted (af_muxer af) + {#mk_id p#}"
      using accounted_writePacket [of "unat (mk_stream ?p)" "af_muxer af" ?p] False by (simp add: m_def id)
    ultimately show ?thesis using assms Some
        set_active_acct [where f = "\<lambda>af. af\<lparr>af_muxer := m, af_pktCount := af_pktCount af + 1,
          af_duration := af_duration af + video_dur p\<rparr>", OF Some]
      by (auto simp: seg_writePacket_def)
  qed
qed

lemma moves_write: "moves P {#mk_id p#} {#} (seg_writePacket p)"
  unfolding moves_def
proof (intro allI impI)
  fix w
  obtain w1 is1 r1 where 1: "seg_writePacket p w = (w1, is1, r1)" by (metis prod_cases3)
  from writePacket_acct [OF 1] show "moved {#mk_id p#} {#} w (seg_writePacket p w)" by (auto simp: 1 moved_def)
qed

lemma moves_write_error:
  "moves P (mset (map mk_id (p # ps))) (mset (map mk_id ps)) (seg_on_error (seg_writePacket p) (seg_release (map mk_id ps)))"
  unfolding moves_def
proof (intro allI impI)
  fix w
  obtain w1 is1 r1 where 1: "seg_writePacket p w = (w1, is1, r1)" by (metis prod_cases3)
  from writePacket_acct [OF 1]
  show "moved (mset (map mk_id (p # ps))) (mset (map mk_id ps)) w (seg_on_error (seg_writePacket p) (seg_release (map mk_id ps)) w)"
    by (cases r1) (auto simp: seg_on_error_def 1 moved_def)
qed

lemma flush_acct:
  assumes "flush_active w = (w', is, r)"
  shows "same_seg (snd w) (snd w') \<and> r \<noteq> Blocked \<and> (clean r \<longrightarrow> r = Ok) \<and> work_acct w' = work_acct w"
proof (cases "ss_active (fst w)")
  case None
  then show ?thesis using assms by (auto simp: flush_active_def seg_done_def)
next
  case (Some af)
  obtain m e where f: "Flush (af_muxer af) = (m, e)" by force
  note acct = Flush_accounted [OF f]
  show ?thesis
  proof (cases e)
    case None
    then show ?thesis using assms Some f acct set_active_acct [where f = "\<lambda>af. af\<lparr>af_muxer := m, af_lastFlush := af_duration af\<rparr>", OF Some]
      by (auto simp: flush_active_def)
  next
    case (Some e')
    with assms \<open>ss_active (fst w) = Some af\<close> f
    have r: "r = mux_outcome (Some e')" "w' = set_active (\<lambda>af. af\<lparr>af_muxer := m\<rparr>) w" by (simp_all add: flush_active_def)
    show ?thesis unfolding r
      using acct mux_outcome_clean [of "Some e'"] set_active_acct [where f = "\<lambda>af. af\<lparr>af_muxer := m\<rparr>", OF \<open>ss_active (fst w) = Some af\<close>]
      by auto
  qed
qed

lemma moves_flush: "moves P X X flush_active"
  by (rule moves_kept) (use flush_acct in \<open>unfold kept_def, blast+\<close>)

lemma moves_maybe_flush: "moves P X X maybeFlushEventSegment"
proof -
  have e: "maybeFlushEventSegment = seg_when (\<lambda>w. case ss_active (fst w) of None \<Rightarrow> False | Some af \<Rightarrow>
      \<not> (af_duration af - af_lastFlush af < eventFlushInterval (config w) \<and>
         int (PendingBytes (af_muxer af)) < c_muxerBytes (config w))) flush_active"
    by (rule ext) (simp add: maybeFlushEventSegment_def seg_when_def flushEventSegment_def split: option.split)
  show ?thesis unfolding e by (rule moves_when, rule moves_flush)
qed

lemma set_recording_frame: "same_seg s (set_recording b s) \<and> sg_released (set_recording b s) = sg_released s"
  by (simp add: set_recording_def sendRecordStatus_def same_seg_def split: prod.split)

lemma moves_status: "moves P X X (seg_update (\<lambda>(st, s). (st, set_recording b s)))"
  by (rule moves_update) (auto simp: work_acct_def set_recording_frame split: prod.split)

section \<open>Always mode\<close>

lemma close_idle: "closeSegment tk d w = (w', is, r) \<Longrightarrow> idle w'"
  using closeSegment_kept by (simp add: idle_def)

lemma moves_always: "moves P {#mk_id p#} {#} (handleAlwaysMode tk url p key)"
  unfolding handleAlwaysMode_def
proof (rule moves_then)
  let ?X = "{#mk_id p#}"
  show "moves P ?X ?X (seg_when (\<lambda>w. key \<and> active w \<and> c_targetDuration (config w) \<le> active_duration w)
      (seg_on_error (closeSegment tk 0) (seg_release [mk_id p])))"
    by (intro moves_when moves_on_error kept_close) simp
  have "kept (\<lambda>w. any_work w \<and> \<not> active w \<and> key) (openNewSegment tk url (sp_start p))"
    by (rule kept_weaken [OF kept_open]) (simp add: active_def idle_def)
  then have open_step: "moves any_work ?X ?X (seg_when (\<lambda>w. \<not> active w \<and> key)
      (seg_then (seg_on_error (openNewSegment tk url (sp_start p)) (seg_release [mk_id p]))
        (seg_update (\<lambda>(st, s). (st, set_recording True s)))))"
    by (intro moves_when moves_then [OF moves_on_error] moves_status) simp_all
  have "moves any_work ?X {#} (\<lambda>w. if active w then seg_then (seg_writePacket p) (seg_when due_flush flush_active) w
      else seg_update (seg_release [mk_id p]) w)"
    by (intro moves_cond moves_then [OF moves_write] moves_when moves_flush moves_release) simp
  with open_step show "moves any_work ?X {#} (seg_then (seg_when (\<lambda>w. \<not> active w \<and> key)
      (seg_then (seg_on_error (openNewSegment tk url (sp_start p)) (seg_release [mk_id p]))
        (seg_update (\<lambda>(st, s). (st, set_recording True s)))))
      (\<lambda>w. if active w then seg_then (seg_writePacket p) (seg_when due_flush flush_active) w
        else seg_update (seg_release [mk_id p]) w))"
    by (rule moves_then)
qed

section \<open>Event mode\<close>

lemma on_ring_acct:
  assumes "\<And>rb. ring_ids (fst (f rb)) + mset (snd (f rb)) = ring_ids rb + X"
  shows "work_acct (on_ring f w) = work_acct w + X" "same_seg s (snd (on_ring f w)) = same_seg s (snd w)"
    "ss_active (fst (on_ring f w)) = ss_active (fst w)"
proof -
  obtain st s' where w: "w = (st, s')" by force
  obtain rb ids where r: "f (ss_ring st) = (rb, ids)" by force
  have "ring_ids rb + mset ids = ring_ids (ss_ring st) + X" using assms [of "ss_ring st"] r by simp
  then show "work_acct (on_ring f w) = work_acct w + X"
    by (simp add: w on_ring_def r work_acct_def seg_release_def held_stream_state_def ac_simps)
  show "same_seg s (snd (on_ring f w)) = same_seg s (snd w)" "ss_active (fst (on_ring f w)) = ss_active (fst w)"
    by (simp_all add: w on_ring_def r seg_release_def same_seg_def)
qed

lemma buffer_acct:
  "work_acct (buffer_packet p key w) = work_acct w + {#mk_id p#} \<and> same_seg s (snd (buffer_packet p key w)) = same_seg s (snd w)
   \<and> ss_active (fst (buffer_packet p key w)) = ss_active (fst w)"
proof -
  have a: "ring_ids (fst (ring_add p rb)) + mset (snd (ring_add p rb)) = ring_ids rb + {#mk_id p#}" for rb
    using ring_add_accounts [of p rb] by (simp add: ring_ids_def)
  have t: "ring_ids (fst (ring_trim rb)) + mset (snd (ring_trim rb)) = ring_ids rb + {#}" for rb
    using ring_trim_sheds [of rb] by (simp add: ring_ids_def sheds_def)
  show ?thesis using on_ring_acct [OF a] on_ring_acct [OF t] by (simp add: buffer_packet_def Let_def)
qed

lemma moves_buffer: "moves P {#mk_id p#} {#} (seg_update (buffer_packet p key))"
  by (rule moves_update) (simp add: buffer_acct)

lemma end_session_acct: "work_acct (end_session url stop w) = work_acct w \<and> same_seg s (snd (end_session url stop w)) = same_seg s (snd w)"
  using set_recording_frame [of _ False]
  by (cases w) (auto simp: end_session_def work_acct_def held_stream_state_def same_seg_def)

lemma moves_end: "moves P {#mk_id p#} {#} (endEventSession tk url p key)"
  unfolding moves_def
proof (intro allI impI)
  fix w
  let ?f = "seg_on_error (closeSegment tk 0) (seg_release [mk_id p])"
  obtain w1 is1 r1 where 1: "?f w = (w1, is1, r1)" by (metis prod_cases3)
  have "moves any_work {#mk_id p#} {#mk_id p#} ?f" by (rule moves_on_error [OF kept_close]) simp
  then have m: "moved {#mk_id p#} {#mk_id p#} w (w1, is1, r1)" using 1 by (metis moves_def any_work_def)
  show "moved {#mk_id p#} {#} w (endEventSession tk url p key w)"
    using m by (cases r1) (auto simp: endEventSession_def 1 moved_def buffer_acct end_session_acct)
qed

lemma moves_rotate:
  assumes "mset left = X"
  shows "moves P X X (rotate_segment tk url p left)"
  unfolding rotate_segment_def
proof (rule moves_then_post [where Q = idle])
  show "moves P X X (seg_on_error (closeSegment tk 0) (seg_release left))" by (rule moves_on_error [OF kept_close assms])
  show "moves idle X X (seg_on_error (openNewSegment tk url (sp_start p)) (seg_release left))"
    by (rule moves_on_error [OF kept_open assms])
next
  fix w w' "is" assume "seg_on_error (closeSegment tk 0) (seg_release left) w = (w', is, Ok)"
  then obtain v js where "closeSegment tk 0 w = (v, js, Ok)" "w' = v"
    by (auto simp: seg_on_error_def split: prod.splits outcome.splits)
  then show "idle w'" by (auto dest: close_idle)
qed

lemma moves_session: "moves P X X (seg_update (add_session p))"
  by (rule moves_update) (auto simp: add_session_def work_acct_def held_stream_state_def)

lemma moves_active_file: "moves P {#mk_id p#} {#} (handleEventModeActiveFile tk url p key)"
proof -
  have "handleEventModeActiveFile tk url p key = (\<lambda>w. if session_ends tk key w then endEventSession tk url p key w
      else seg_then (seg_when (\<lambda>w. key \<and> \<not> idle_reached tk w \<and> \<not> max_reached tk w \<and>
            c_targetDuration (config w) \<le> active_duration w \<and> eventSegmentBudgetAllowsRotate tk w)
          (rotate_segment tk url p [mk_id p]))
        (seg_then (seg_writePacket p)
        (seg_then (seg_update (add_session p)) maybeFlushEventSegment)) w)"
    by (rule ext) (rule handleEventModeActiveFile_def)
  then show ?thesis
    by (auto intro!: moves_cond moves_end moves_then moves_when moves_rotate moves_write moves_session moves_maybe_flush)
qed

lemma moves_record: "moves any_work (mset (map mk_id ps)) {#} (record_buffered tk url ps)"
proof (induction ps)
  case Nil
  then show ?case by (simp add: moves_done)
next
  case (Cons p ps)
  show ?case unfolding record_buffered.simps
    by (intro moves_then [OF moves_when [OF moves_rotate]] moves_then [OF moves_write_error] moves_then [OF moves_session]
        moves_then [OF moves_maybe_flush] Cons.IH) simp
qed

lemma moves_start: "moves idle {#} {#} (startEventRecording tk url)"
  unfolding moves_def
proof (intro allI impI)
  fix w :: work assume "idle w"
  obtain st s where w: "w = (st, s)" by force
  let ?ps = "rb_packets (ss_ring st)" and ?w = "(st\<lparr>ss_ring := ring_empty (ss_ring st)\<rparr>, s)"
  have d: "drain_ring w = (?w, ?ps)" by (simp add: drain_ring_def ring_drain_def w)
  have acct: "work_acct ?w + mset (map mk_id ?ps) = work_acct w"
    by (simp add: w work_acct_def held_stream_state_def ring_ids_def ring_empty_def ac_simps)
  show "moved {#} {#} w (startEventRecording tk url w)"
  proof (cases "?ps = []")
    case True
    then show ?thesis using acct by (simp add: startEventRecording_def d seg_done_def moved_def) (simp add: w)
  next
    case False
    define i where "i = start_index (fst ?w) ?ps"
    let ?X = "mset (map mk_id (take i ?ps)) + mset (map mk_id (drop i ?ps))" and ?Y = "mset (map mk_id (drop i ?ps))"
    define f where "f = seg_then (seg_update (seg_release (map mk_id (take i ?ps))))
       (seg_then (seg_on_error (openNewSegment tk url (sp_start (?ps ! i))) (seg_release (map mk_id (drop i ?ps))))
       (seg_then (seg_update (\<lambda>(st, s). (st\<lparr>ss_eventRecordStart := t_start tk, ss_eventSessionDur := 0\<rparr>, set_recording True s)))
       (seg_then (record_buffered tk url (drop i ?ps))
       (seg_then flushEventSegment
         (seg_update (\<lambda>(st, s). (st\<lparr>ss_eventSaved := True\<rparr>, s)))))))"
    have "moves idle ?X {#} f" unfolding f_def
    proof (rule moves_then_post [where Q = idle])
      show "moves idle ?X ?Y (seg_update (seg_release (map mk_id (take i ?ps))))" by (rule moves_update) simp
      show "idle v'" if "idle v" "seg_update (seg_release (map mk_id (take i ?ps))) v = (v', is, Ok)" for v v' "is"
        using that by (cases v) (auto simp: seg_update_def seg_release_def idle_def)
      have "moves any_work ?Y ?Y (seg_update (\<lambda>(st, s).
          (st\<lparr>ss_eventRecordStart := t_start tk, ss_eventSessionDur := 0\<rparr>, set_recording True s)))"
        by (rule moves_update) (auto simp: work_acct_def held_stream_state_def set_recording_frame)
      moreover have "moves any_work {#} {#} (seg_update (\<lambda>(st, s). (st\<lparr>ss_eventSaved := True\<rparr>, s)))"
        by (rule moves_update) (auto simp: work_acct_def held_stream_state_def)
      ultimately show "moves idle ?Y {#}
        (seg_then (seg_on_error (openNewSegment tk url (sp_start (?ps ! i))) (seg_release (map mk_id (drop i ?ps))))
        (seg_then (seg_update (\<lambda>(st, s). (st\<lparr>ss_eventRecordStart := t_start tk, ss_eventSessionDur := 0\<rparr>, set_recording True s)))
        (seg_then (record_buffered tk url (drop i ?ps))
        (seg_then flushEventSegment
          (seg_update (\<lambda>(st, s). (st\<lparr>ss_eventSaved := True\<rparr>, s)))))))"
        unfolding flushEventSegment_def
        by (intro moves_then [OF moves_on_error [OF kept_open]] moves_then [OF _ moves_then [OF moves_record]]
            moves_then [OF moves_flush]) simp_all
    qed
    then have "moved ?X {#} ?w (f ?w)" using \<open>idle w\<close> by (simp add: moves_def idle_def w)
    moreover have "?X = mset (map mk_id ?ps)" by (metis append_take_drop_id map_append mset_append)
    moreover have "startEventRecording tk url w = f ?w"
      using False by (simp add: startEventRecording_def d f_def i_def Let_def)
    ultimately show ?thesis using acct by (simp add: moved_def w split: prod.splits)
  qed
qed

lemma moves_event: "moves P {#mk_id p#} {#} (handleEventMode tk url p key)"
proof -
  have e: "handleEventMode tk url p key = (\<lambda>w. if active w then handleEventModeActiveFile tk url p key w
      else seg_then (seg_update (buffer_packet p key))
        (seg_when (\<lambda>w. \<not> ss_eventSaved (fst w) \<and> key) (startEventRecording tk url)) w)"
    by (rule ext) (rule handleEventMode_def)
  have start: "moves idle {#} {#} (seg_when (\<lambda>w. \<not> ss_eventSaved (fst w) \<and> key) (startEventRecording tk url))"
    by (rule moves_when, rule moves_pre [OF moves_start]) simp
  show ?thesis unfolding e
  proof (rule moves_cond [OF moves_active_file])
    show "moves (\<lambda>w. P w \<and> \<not> active w) {#mk_id p#} {#} (seg_then (seg_update (buffer_packet p key))
        (seg_when (\<lambda>w. \<not> ss_eventSaved (fst w) \<and> key) (startEventRecording tk url)))"
    proof (rule moves_then_post [OF moves_buffer _ start])
      fix w w' "is" assume "P w \<and> \<not> active w" "seg_update (buffer_packet p key) w = (w', is, Ok)"
      then show "idle w'" using buffer_acct [of p key w] by (auto simp: seg_update_def idle_def active_def)
    qed
  qed
qed

section \<open>Packets\<close>

lemma moves_codec: "moves P {#mk_id p#} {#mk_id p#} (update_codec tk p)"
  unfolding update_codec_def
proof (intro moves_when moves_then)
  show "moves (\<lambda>w. P w \<and> new_codec p (fst w)) {#mk_id p#} {#mk_id p#} (seg_update (set_codec p))"
    by (rule moves_update) (auto simp: set_codec_def work_acct_def held_stream_state_def)
  show "moves any_work {#mk_id p#} {#mk_id p#} (seg_on_error (closeSegment tk second) (seg_release [mk_id p]))"
    by (rule moves_on_error [OF kept_close]) simp
qed

text \<open>In mode \<open>Never\<close> the handler is not reached: packets are released before.\<close>

definition recording_mode :: "work \<Rightarrow> bool" where
  "recording_mode w \<longleftrightarrow> sg_recordMode (snd w) \<noteq> Never"

lemma moves_dispatch: "moves recording_mode {#mk_id p#} {#} (dispatch tk url p)"
  using moves_always [of any_work p tk url "key_frame p"] moves_event [of any_work p tk url "key_frame p"]
  by (auto simp: moves_def dispatch_def recording_mode_def any_work_def split: record_mode.split)

lemma moves_packet: "moves recording_mode {#mk_id p#} {#} (packet_work tk url p)"
  unfolding packet_work_def
proof (rule moves_then_post [OF moves_codec])
  fix w w' "is" assume w: "recording_mode w" "update_codec tk p w = (w', is, Ok)"
  have "moved {#mk_id p#} {#mk_id p#} w (update_codec tk p w)" using moves_codec [of any_work p tk] unfolding moves_def any_work_def by blast
  with w show "recording_mode w'" by (simp add: moved_def recording_mode_def same_seg_def)
next
  have seen: "work_acct (see_keyframe w) = work_acct w" "snd (see_keyframe w) = snd w" for w
    by (cases w; simp add: see_keyframe_def work_acct_def held_stream_state_def)+
  have "moves recording_mode {#mk_id p#} {#} (\<lambda>w. dispatch tk url p (if key_frame p then see_keyframe w else w))"
    unfolding moves_def
  proof (intro allI impI)
    fix w assume "recording_mode w"
    then have "recording_mode (if key_frame p then see_keyframe w else w)" by (simp add: recording_mode_def seen)
    from movesD [OF moves_dispatch this]
    show "moved {#mk_id p#} {#} w (dispatch tk url p (if key_frame p then see_keyframe w else w))"
      by (rule moved_from) (simp_all add: seen)
  qed
  then have "moves (\<lambda>w. recording_mode w \<and> \<not> (\<not> ss_seenKeyframe (fst w) \<and> \<not> key_frame p)) {#mk_id p#} {#}
      (\<lambda>w. dispatch tk url p (if key_frame p then see_keyframe w else w))" by (simp add: moves_def)
  moreover have "moves (\<lambda>w. recording_mode w \<and> \<not> ss_seenKeyframe (fst w) \<and> \<not> key_frame p) {#mk_id p#} {#}
      (seg_update (seg_release [mk_id p]))" by (rule moves_release) simp
  ultimately show "moves recording_mode {#mk_id p#} {#} (\<lambda>w. if \<not> ss_seenKeyframe (fst w) \<and> \<not> key_frame p
      then seg_update (seg_release [mk_id p]) w else dispatch tk url p (if key_frame p then see_keyframe w else w))"
    by (rule moves_cond [rotated])
qed

section \<open>Steps\<close>

definition delivered :: "input \<Rightarrow> nat multiset" where
  "delivered i = (case i of InPacket (Some p) \<Rightarrow> {#mk_id p#} | _ \<Rightarrow> {#})"

definition distinct_streams :: "segmenter \<Rightarrow> bool" where
  "distinct_streams s \<longleftrightarrow> distinct (map fst (sg_streams s))"

definition held_in :: "(string \<times> stream_state) list \<Rightarrow> nat multiset" where
  "held_in xs = sum_list (map (\<lambda>x. held_stream_state (snd x)) xs)"

lemma held_in_simps [simp]: "held_in [] = {#}" "held_in (x # xs) = held_stream_state (snd x) + held_in xs"
  by (simp_all add: held_in_def)

lemma seg_acct_held: "seg_acct s = mset (sg_released s) + held_in (sg_streams s)"
  by (simp add: seg_acct_def held_in_def)

lemma held_update:
  "held_in (AList.update k st xs) + (case map_of xs k of None \<Rightarrow> {#} | Some st' \<Rightarrow> held_stream_state st') =
   held_in xs + held_stream_state st"
  by (induction xs) (auto simp: ac_simps)

lemma held_delete:
  "distinct (map fst xs) \<Longrightarrow> held_in (AList.delete k xs) + (case map_of xs k of None \<Rightarrow> {#} | Some st \<Rightarrow> held_stream_state st) = held_in xs"
proof (induction xs)
  case (Cons x xs)
  show ?case
  proof (cases "fst x = k")
    case True
    with Cons.prems have "k \<notin> fst ` set xs" by auto
    then have "AList.delete k xs = xs" "map_of xs k = None" by (simp_all add: AList.delete_id map_of_eq_None_iff)
    with True show ?thesis by (simp add: ac_simps)
  next
    case False
    with Cons show ?thesis by (simp add: ac_simps)
  qed
qed simp

lemma held_new [simp]: "held_stream_state (new_stream_state c url) = {#}"
  by (simp add: held_stream_state_def new_stream_state_def held_active_def ring_ids_def newRingBuffer_def)

lemma put_acct:
  assumes "sg_streams s' = sg_streams s"
  shows "seg_acct (put_stream url (st, s')) + work_acct (stream_for url s, s) = seg_acct s + work_acct (st, s')"
  using held_update [of url st "sg_streams s"] assms
  by (simp add: seg_acct_held put_stream_def stream_for_def work_acct_def ac_simps split: option.splits)

lemma distinct_put: "distinct_streams s \<Longrightarrow> distinct_streams (put_stream url (st, s))"
  by (simp add: distinct_streams_def put_stream_def distinct_update)

lemma send_frame:
  "seg_acct (fold sendFileInfo is s) = seg_acct s \<and> sg_streams (fold sendFileInfo is s) = sg_streams s \<and>
   sg_released (fold sendFileInfo is s) = sg_released s"
proof (induction "is" arbitrary: s)
  case (Cons i "is")
  show ?case using Cons.IH [of "sendFileInfo i s"] by (simp add: sendFileInfo_def seg_acct_def split: prod.split)
qed simp

lemma unlock_frame: "seg_acct (unlock r s) = seg_acct s" "sg_streams (unlock r s) = sg_streams s"
  by (simp_all add: unlock_def seg_acct_def)

lemma recording_frame: "seg_acct (set_recording b s) = seg_acct s" "sg_streams (set_recording b s) = sg_streams s"
  using set_recording_frame [of s b] by (simp_all add: seg_acct_def same_seg_def)

lemma step_packet_acct:
  assumes "step_packet tk (Some p) s = (s', r)" "distinct_streams s"
  shows "distinct_streams s' \<and> seg_acct s' \<subseteq># seg_acct s + {#mk_id p#} \<and> (clean r \<longrightarrow> seg_acct s' = seg_acct s + {#mk_id p#})"
proof (cases "sg_recordMode s = Never \<or> sg_locked s \<or> \<not> hasSource (sp_source p) s")
  case True
  then show ?thesis using assms
    by (auto simp: step_packet_def seg_acct_def distinct_streams_def split: if_splits)
next
  case False
  let ?url = "sp_source p"
  let ?w0 = "(stream_for ?url s, s)"
  obtain w "is" r1 where 1: "packet_work tk ?url p ?w0 = (w, is, r1)" by (metis prod_cases3)
  obtain st s1 where w: "w = (st, s1)" by force
  have "moved {#mk_id p#} {#} ?w0 (w, is, r1)"
    using movesD [OF moves_packet, of ?w0 p tk ?url] False 1 by (simp add: recording_mode_def)
  then have m: "sg_streams s1 = sg_streams s" "work_acct w \<subseteq># work_acct ?w0 + {#mk_id p#}" "r1 \<noteq> Blocked"
    "clean r1 \<Longrightarrow> work_acct w = work_acct ?w0 + {#mk_id p#}"
    by (auto simp: moved_def w same_seg_def)
  note put = put_acct [OF m(1), of ?url st, folded w]
  have sub: "seg_acct (put_stream ?url w) \<subseteq># seg_acct s + {#mk_id p#}"
  proof -
    have "seg_acct (put_stream ?url w) + work_acct ?w0 \<subseteq># seg_acct s + (work_acct ?w0 + {#mk_id p#})"
      using m(2) unfolding put by (rule subset_mset.add_left_mono)
    then show ?thesis by (simp add: ac_simps)
  qed
  have eq: "seg_acct (put_stream ?url w) = seg_acct s + {#mk_id p#}" if "clean r1"
    using put m(4) [OF that] by (simp add: ac_simps)
  have dist: "distinct_streams (put_stream ?url w)"
    using assms(2) m(1) distinct_put [of s1 ?url st] by (simp add: w distinct_streams_def)
  have res: "r = r1 \<and> seg_acct s' = seg_acct (put_stream ?url w) \<and> sg_streams s' = sg_streams (put_stream ?url w)"
    using assms(1) False 1 m(3) send_frame [of "is" "put_stream ?url w"] unlock_frame
    by (cases r1) (auto simp: step_packet_def)
  show ?thesis using res sub eq dist by (simp add: distinct_streams_def)
qed

lemma put_kept:
  assumes "map_of (sg_streams s) k = Some st" "sg_streams (snd w) = sg_streams s" "work_acct w = work_acct (st, s)"
  shows "seg_acct (put_stream k w) = seg_acct s"
  using put_acct [of "snd w" s k "fst w"] assms by (simp add: stream_for_def)

lemma distinct_put_same: "distinct_streams s \<Longrightarrow> sg_streams (snd w) = sg_streams s \<Longrightarrow> distinct_streams (put_stream k w)"
  using distinct_put [of "snd w" k "fst w"] by (simp add: distinct_streams_def)

lemma close_in_place:
  assumes "closeSegment tk d (st, s) = (w, is, r)"
  shows "sg_streams (snd w) = sg_streams s" "work_acct w = work_acct (st, s)" "r \<noteq> Blocked"
    "clean r \<Longrightarrow> r = Ok" "ss_active (fst w) = None"
  using closeSegment_kept [OF assms] by (auto simp: same_seg_def)

lemma ring_clear_ids: "ring_ids (fst (ring_clear rb)) + mset (snd (ring_clear rb)) = ring_ids rb + {#}"
  by (simp add: ring_clear_def ring_empty_def ring_ids_def)

lemma clear_acct:
  "work_acct (on_ring ring_clear w) = work_acct w" "sg_streams (snd (on_ring ring_clear w)) = sg_streams (snd w)"
  "ss_active (fst w) = None \<Longrightarrow> held_stream_state (fst (on_ring ring_clear w)) = {#}"
  using on_ring_acct [where w = w, OF ring_clear_ids]
  by (cases w; auto simp: on_ring_def ring_clear_def ring_empty_def seg_release_def held_stream_state_def held_active_def ring_ids_def)+

lemma reset_acct: "work_acct (reset_ring w) = work_acct w" "sg_streams (snd (reset_ring w)) = sg_streams (snd w)"
proof -
  obtain st s where c: "on_ring ring_clear w = (st, s)" by force
  show "work_acct (reset_ring w) = work_acct w" "sg_streams (snd (reset_ring w)) = sg_streams (snd w)"
    using clear_acct [of w] by (simp_all add: reset_ring_def c work_acct_def held_stream_state_def)
qed

lemma mode_streams_acct:
  assumes "mode_streams tk ks s = (s', is, r)" "distinct_streams s"
  shows "distinct_streams s' \<and> seg_acct s' = seg_acct s \<and> r \<noteq> Blocked \<and> (clean r \<longrightarrow> r = Ok)"
  using assms
proof (induction ks arbitrary: s s' "is" r)
  case (Cons k ks)
  show ?case
  proof (cases "map_of (sg_streams s) k")
    case None
    then show ?thesis using Cons by simp
  next
    case (Some st)
    obtain w js r1 where c: "closeSegment tk 0 (st, s) = (w, js, r1)" by (metis prod_cases3)
    note cl = close_in_place [OF c]
    show ?thesis
    proof (cases "r1 = Ok")
      case True
      let ?s = "put_stream k (reset_ring w)"
      obtain s2 js2 r2 where m: "mode_streams tk ks ?s = (s2, js2, r2)" by (metis prod_cases3)
      have "seg_acct ?s = seg_acct s" using put_kept [OF Some, of "reset_ring w"] cl by (simp add: reset_acct)
      moreover have "distinct_streams ?s" using distinct_put_same [of s "reset_ring w" k] Cons.prems(2) cl by (simp add: reset_acct)
      ultimately show ?thesis using Cons.IH [OF m] Cons.prems(1) Some c True m by auto
    next
      case False
      then have "s' = put_stream k w" "r = r1" using Cons.prems(1) Some c by (auto split: outcome.splits)
      then show ?thesis using put_kept [OF Some, of w] distinct_put_same [of s w k] Cons.prems(2) cl by simp
    qed
  qed
qed auto

lemma step_mode_acct:
  assumes "step_mode tk ks mode s = (s', r)" "distinct_streams s"
  shows "distinct_streams s' \<and> seg_acct s' = seg_acct s"
proof (cases "mode = sg_recordMode s \<or> sg_locked s")
  case True
  then show ?thesis using assms by (auto simp: step_mode_def split: if_splits)
next
  case False
  obtain s1 "is" r1 where m: "mode_streams tk (range_order ks s) s = (s1, is, r1)" by (metis prod_cases3)
  from mode_streams_acct [OF m assms(2)] have s1: "distinct_streams s1" "seg_acct s1 = seg_acct s" by simp_all
  have set_mode: "seg_acct (s\<lparr>sg_recordMode := mode\<rparr>) = seg_acct s" "sg_streams (s\<lparr>sg_recordMode := mode\<rparr>) = sg_streams s" for s
    by (simp_all add: seg_acct_def)
  show ?thesis
    using assms(1) False m s1 send_frame [of "is" s1]
    by (cases r1) (auto simp: step_mode_def distinct_streams_def unlock_frame recording_frame set_mode)
qed

lemma removeSource_acct:
  assumes "removeSource tk url s = (s', is, r)" "distinct_streams s"
  shows "distinct_streams s' \<and> seg_acct s' = seg_acct s"
proof (cases "map_of (sg_streams s) url")
  case None
  then show ?thesis using assms by (auto simp: removeSource_def distinct_streams_def seg_acct_def)
next
  case (Some st)
  obtain w js r1 where c: "closeSegment tk 0 (st, s) = (w, js, r1)" by (metis prod_cases3)
  note cl = close_in_place [OF c]
  obtain st1 s1 where o: "on_ring ring_clear w = (st1, s1)" by force
  have st1: "held_stream_state st1 = {#}" "sg_streams s1 = sg_streams s" "work_acct (st1, s1) = work_acct (st, s)"
    using clear_acct [of w] cl by (simp_all add: o)
  have del: "seg_acct (s1\<lparr>sg_streams := AList.delete url (sg_streams s1), sg_sources := xs\<rparr>) = seg_acct s" for xs
    using held_delete [of "sg_streams s" url] assms(2) Some st1
    by (simp add: seg_acct_held work_acct_def distinct_streams_def ac_simps)
  show ?thesis
  proof (cases "r1 = Panicked")
    case True
    then show ?thesis using assms Some c put_kept [OF Some, of w] distinct_put_same [of s w url] cl
      by (auto simp: removeSource_def)
  next
    case False
    then have "s' = s1\<lparr>sg_streams := AList.delete url (sg_streams s1), sg_sources := remove1 url (sg_sources s1)\<rparr>"
      using assms(1) Some c o by (cases r1) (auto simp: removeSource_def)
    then show ?thesis using del assms(2) st1(2) by (simp add: distinct_streams_def distinct_delete)
  qed
qed

lemma note_events:
  "held_in (map (\<lambda>(u, st). (u, note_event tk st)) xs) = held_in xs \<and>
   map fst (map (\<lambda>(u, st). (u, note_event tk st)) xs) = map fst xs"
  by (induction xs) (auto simp: note_event_def held_stream_state_def)

lemma Step_acct:
  assumes "Step tk ks i s = (s', r)" "distinct_streams s"
  shows "distinct_streams s' \<and> seg_acct s' \<subseteq># seg_acct s + delivered i \<and> (clean r \<longrightarrow> seg_acct s' = seg_acct s + delivered i)"
proof (cases i)
  case InStop
  then show ?thesis using assms by (simp add: Step_def delivered_def)
next
  case (InMode mode)
  then show ?thesis using step_mode_acct [of tk ks mode s s' r] assms by (simp add: Step_def delivered_def)
next
  case (InAdd url)
  then show ?thesis using assms by (auto simp: Step_def delivered_def step_add_def addSource_def distinct_streams_def seg_acct_def
      split: if_splits)
next
  case (InRemove url)
  obtain s1 "is" r1 where m: "removeSource tk url s = (s1, is, r1)" by (metis prod_cases3)
  show ?thesis using InRemove assms removeSource_acct [OF m] m send_frame [of "is" s1]
    by (cases r1) (auto simp: Step_def delivered_def step_remove_def distinct_streams_def unlock_frame split: if_splits)
next
  case InEvent
  show ?thesis using InEvent assms note_events [of tk "sg_streams s"]
    by (auto simp: Step_def delivered_def step_event_def Let_def distinct_streams_def seg_acct_held simp del: map_map
        split: if_splits)
next
  case (InPacket p)
  show ?thesis
  proof (cases p)
    case None
    then show ?thesis using InPacket assms by (simp add: Step_def delivered_def step_packet_def)
  next
    case (Some q)
    then show ?thesis using InPacket assms step_packet_acct [of tk q s s' r] by (simp add: Step_def delivered_def)
  qed
qed

section \<open>Release\<close>

definition emptied :: "string set \<Rightarrow> segmenter \<Rightarrow> bool" where
  "emptied ks s \<longleftrightarrow> (\<forall>(u, st)\<in>set (sg_streams s). u \<in> ks \<longrightarrow> held_stream_state st = {#})"

lemma emptied_put:
  assumes "emptied E s" "distinct_streams s" "sg_streams (snd w) = sg_streams s" "held_stream_state (fst w) = {#}"
  shows "emptied (insert k E) (put_stream k w)"
proof -
  have "\<forall>(u, st)\<in>set (AList.update k (fst w) xs). u = k \<or> u \<in> E \<longrightarrow> held_stream_state st = {#}"
    if "\<forall>(u, st)\<in>set xs. u \<in> E \<longrightarrow> held_stream_state st = {#}" "distinct (map fst xs)" for xs
    using that assms(4) by (induction xs) (auto split: if_splits intro: rev_image_eqI)
  with assms show ?thesis by (cases w) (auto simp: emptied_def put_stream_def distinct_streams_def)
qed

lemma keys_put: "map_of (sg_streams s) k = Some st \<Longrightarrow> sg_streams (snd w) = sg_streams s \<Longrightarrow>
  fst ` set (sg_streams (put_stream k w)) = fst ` set (sg_streams s)"
  by (cases w) (force simp: put_stream_def dom_update dest: map_of_SomeD)

lemma release_streams_acct:
  assumes "release_streams tk ks s = (s', is, r)" "distinct_streams s" "emptied E s"
  shows "distinct_streams s' \<and> seg_acct s' = seg_acct s \<and> r \<in> {Ok, Panicked} \<and>
    (r = Ok \<longrightarrow> emptied (E \<union> set ks) s' \<and> fst ` set (sg_streams s') = fst ` set (sg_streams s))"
  using assms
proof (induction ks arbitrary: s s' "is" r E)
  case (Cons k ks)
  show ?case
  proof (cases "map_of (sg_streams s) k")
    case None
    then have "emptied (insert k E) s" using Cons.prems(3) by (force simp: emptied_def map_of_eq_None_iff image_iff)
    with Cons.IH [of s s' "is" r "insert k E"] Cons.prems None show ?thesis by simp
  next
    case (Some st)
    obtain w js r1 where c: "closeSegment tk 0 (st, s) = (w, js, r1)" by (metis prod_cases3)
    note cl = close_in_place [OF c]
    show ?thesis
    proof (cases "r1 = Panicked")
      case True
      then have "s' = put_stream k w" "r = Panicked" using Cons.prems(1) Some c by auto
      then show ?thesis using put_kept [OF Some, of w] distinct_put_same [of s w k] Cons.prems(2) cl by simp
    next
      case False
      let ?w = "on_ring ring_clear w"
      let ?s = "put_stream k ?w"
      obtain s2 js2 r2 where m: "release_streams tk ks ?s = (s2, js2, r2)" by (metis prod_cases3)
      have fr: "sg_streams (snd ?w) = sg_streams s" "work_acct ?w = work_acct (st, s)" "held_stream_state (fst ?w) = {#}"
        using clear_acct [of w] cl by simp_all
      have a: "seg_acct ?s = seg_acct s" using put_kept [OF Some, of ?w] fr by simp
      have d: "distinct_streams ?s" using distinct_put_same [of s ?w k] Cons.prems(2) fr by simp
      have e: "emptied (insert k E) ?s" using emptied_put [of E s ?w k] Cons.prems(2,3) fr by simp
      have "s' = s2" "r = r2" using Cons.prems(1) Some c False m by (cases r1; simp)+
      then show ?thesis using Cons.IH [OF m d e] a keys_put [OF Some fr(1)] by simp
    qed
  qed
qed simp

lemma emptied_all: "emptied E s \<Longrightarrow> fst ` set (sg_streams s) \<subseteq> E \<Longrightarrow> held_in (sg_streams s) = {#}"
proof -
  have "held_in xs = {#}" if "\<forall>(u, st)\<in>set xs. u \<in> E \<longrightarrow> held_stream_state st = {#}" "fst ` set xs \<subseteq> E" for xs
    using that by (induction xs) auto
  then show "emptied E s \<Longrightarrow> fst ` set (sg_streams s) \<subseteq> E \<Longrightarrow> held_in (sg_streams s) = {#}" by (simp add: emptied_def)
qed

definition queued :: "seg_packet option list \<Rightarrow> nat multiset" where
  "queued q = mset (map mk_id (List.map_filter id q))"

lemma Release_acct:
  assumes "Segmenter_Release tk ks queue s = (s', r)" "distinct_streams s"
  shows "mset (sg_released s') \<subseteq># seg_acct s + queued queue" "r = Ok \<Longrightarrow> mset (sg_released s') = seg_acct s + queued queue"
proof -
  have "mset (sg_released s') \<subseteq># seg_acct s + queued queue \<and> (r = Ok \<longrightarrow> mset (sg_released s') = seg_acct s + queued queue)"
  proof (cases "sg_locked s")
    case True
    then show ?thesis using assms by (auto simp: Segmenter_Release_def seg_acct_def)
  next
    case False
    obtain s1 "is" r1 where m: "release_streams tk (range_order ks s) s = (s1, is, r1)" by (metis prod_cases3)
    have "emptied {} s" by (simp add: emptied_def)
    note rs = release_streams_acct [OF m assms(2) this]
    have order: "fst ` set (sg_streams s) \<subseteq> set (range_order ks s)" by (simp add: range_order_def)
    show ?thesis
    proof (cases "r1 = Ok")
      case True
      with rs order have "held_in (sg_streams s1) = {#}" by (intro emptied_all [of "set (range_order ks s)"]) auto
      then have rel: "mset (sg_released s1) = seg_acct s" using rs by (simp add: seg_acct_held)
      have st: "sg_released (sendRecordStatus b x) = sg_released x" for b x by (simp add: sendRecordStatus_def split: prod.split)
      show ?thesis using assms(1) False m True send_frame [of "is" s1] rel
        by (auto simp: Segmenter_Release_def Let_def queued_def st)
    next
      case False
      with rs have p: "r1 = Panicked" by simp
      with assms(1) m \<open>\<not> sg_locked s\<close> have "s' = unlock Panicked s1" "r = Panicked" by (auto simp: Segmenter_Release_def)
      moreover have "mset (sg_released s1) \<subseteq># seg_acct s1" by (simp add: seg_acct_def)
      ultimately show ?thesis using rs by (auto simp: unlock_def intro: subset_mset.order_trans)
    qed
  qed
  then show "mset (sg_released s') \<subseteq># seg_acct s + queued queue" "r = Ok \<Longrightarrow> mset (sg_released s') = seg_acct s + queued queue"
    by simp_all
qed

section \<open>Whole lives\<close>

fun run_steps :: "(ticks \<times> string list \<times> input) list \<Rightarrow> segmenter \<Rightarrow> segmenter \<times> outcome list" where
  "run_steps [] s = (s, [])"
| "run_steps ((tk, ks, i) # xs) s = (case Step tk ks i s of (s, r) \<Rightarrow> case run_steps xs s of (s, rs) \<Rightarrow> (s, r # rs))"

definition all_delivered :: "(ticks \<times> string list \<times> input) list \<Rightarrow> nat multiset" where
  "all_delivered xs = sum_list (map (\<lambda>x. delivered (snd (snd x))) xs)"

lemma run_steps_acct:
  assumes "run_steps xs s = (s', rs)" "distinct_streams s"
  shows "distinct_streams s' \<and> seg_acct s' \<subseteq># seg_acct s + all_delivered xs \<and>
    ((\<forall>r\<in>set rs. clean r) \<longrightarrow> seg_acct s' = seg_acct s + all_delivered xs)"
  using assms
proof (induction xs arbitrary: s s' rs)
  case Nil
  then show ?case by (simp add: all_delivered_def)
next
  case (Cons x xs)
  obtain tk ks i where x: "x = (tk, ks, i)" by (metis prod_cases3)
  obtain s1 r where 1: "Step tk ks i s = (s1, r)" by force
  obtain s2 rs2 where 2: "run_steps xs s1 = (s2, rs2)" by force
  have e: "s' = s2" "rs = r # rs2" using Cons.prems(1) by (simp_all add: x 1 2)
  have all: "all_delivered (x # xs) = delivered i + all_delivered xs" by (simp add: all_delivered_def x)
  note a = Step_acct [OF 1 Cons.prems(2)]
  then have "distinct_streams s1" by simp
  note b = Cons.IH [OF 2 this]
  have "seg_acct s1 + all_delivered xs \<subseteq># (seg_acct s + delivered i) + all_delivered xs" using a by simp
  with b have "seg_acct s2 \<subseteq># (seg_acct s + delivered i) + all_delivered xs" by (blast intro: subset_mset.order_trans)
  then show ?case using a b by (auto simp: e all ac_simps)
qed

text \<open>What the environment will do: creating files and directories, writing, asking for a size, and the
  consumers of the two output channels.\<close>

record scripts =
  e_creates :: "create_result list"
  e_mkdirs :: "bool list"
  e_stats :: "bool list"
  e_infos :: "bool list"
  e_statuses :: "bool list"

definition in_environment :: "scripts \<Rightarrow> segmenter \<Rightarrow> segmenter" where
  "in_environment e s = s\<lparr>sg_creates := e_creates e, sg_mkdirs := e_mkdirs e, sg_stats := e_stats e,
     sg_infoTaken := e_infos e, sg_statusTaken := e_statuses e\<rparr>"

text \<open>C14: over the whole life of a segmenter, in every mode and whatever the disk and the consumers do, no
  packet is released more often than it was delivered; and if no muxer failed and nothing panicked, then
  once \<open>Release\<close> returns every packet has been released exactly once.\<close>

theorem segmenter_releases_once:
  assumes "run_steps xs (in_environment e (New rnd segSize mode opt now)) = (s, rs)"
    and "Segmenter_Release tk ks queue s = (s', r)"
  shows "mset (sg_released s') \<subseteq># all_delivered xs + queued queue \<and>
    (r = Ok \<and> (\<forall>x\<in>set rs. clean x) \<longrightarrow> mset (sg_released s') = all_delivered xs + queued queue)"
proof -
  let ?s = "in_environment e (New rnd segSize mode opt now)"
  have "distinct_streams ?s" and z: "seg_acct ?s = {#}" by (simp_all add: distinct_streams_def seg_acct_def in_environment_def New_def)
  note run = run_steps_acct [OF assms(1) this(1), unfolded z]
  then have d: "distinct_streams s" by simp
  have "seg_acct s + queued queue \<subseteq># all_delivered xs + queued queue" using run by simp
  with Release_acct(1) [OF assms(2) d] have "mset (sg_released s') \<subseteq># all_delivered xs + queued queue"
    by (rule subset_mset.order_trans)
  then show ?thesis using Release_acct(2) [OF assms(2) d] run by auto
qed

definition no_ticks :: ticks where
  "no_ticks = \<lparr>t_mux = 0, t_event = 0, t_idle = 0, t_wall = 0, t_budget = 0, t_start = 0\<rparr>"

definition example_options :: seg_options where
  "example_options = \<lparr>o_preBuffer = 0, o_postEvent = 0, o_maxEvent = 0, o_batched = False,
     o_path = (\<lambda>t i. (''day'', ''name''))\<rparr>"

definition no_scripts :: scripts where
  "no_scripts = \<lparr>e_creates = [], e_mkdirs = [], e_stats = [], e_infos = [], e_statuses = []\<rparr>"

lemma ring_example_fields:
  "mk_id (ring_example i k) = i" "sp_source (ring_example i k) = ''camera''" "mk_video (ring_example i k)"
  "mk_key (ring_example i k) = k"
  by (simp_all add: ring_example_def media_packet.extend_def example_packet_def)

lemma buffer_saved: "ss_eventSaved (fst (buffer_packet p key w)) = ss_eventSaved (fst w)"
  by (cases w) (simp add: buffer_packet_def on_ring_def seg_release_def Let_def split: prod.split)

theorem segmenter_releases_once_witness:
  "\<exists>s rs s'. run_steps [(no_ticks, [], InAdd ''camera''), (no_ticks, [], InPacket (Some (ring_example 0 True)))]
      (in_environment no_scripts (New id 10 Event example_options 0)) = (s, rs) \<and>
    Segmenter_Release no_ticks [] [Some (ring_example 1 False)] s = (s', Ok) \<and> mset (sg_released s') = {#0, 1#}"
proof -
  let ?p = "ring_example 0 True" and ?xs = "[(no_ticks, [], InAdd ''camera''), (no_ticks, [], InPacket (Some (ring_example 0 True)))]"
  let ?s0 = "in_environment no_scripts (New id 10 Event example_options 0)"
  note p = ring_example_fields
  obtain s rs where run: "run_steps ?xs ?s0 = (s, rs)" by force
  let ?s1 = "addSource ''camera'' ?s0"
  define st where "st = (fst (set_codec ?p (new_stream_state (sg_config ?s1) ''camera'', ?s1)))\<lparr>ss_seenKeyframe := True\<rparr>"
  have pw: "packet_work no_ticks ''camera'' ?p (stream_for ''camera'' ?s1, ?s1) = (buffer_packet ?p True (st, ?s1), [], Ok)"
    by (simp add: packet_work_def update_codec_def seg_when_def seg_then_def seg_update_def new_codec_def set_codec_def
        seg_on_error_def closeSegment_def seg_done_def stream_for_def addSource_def hasSource_def in_environment_def New_def
        new_stream_state_def p key_frame_def dispatch_def see_keyframe_def handleEventMode_def active_def buffer_saved st_def)
  have idle: "ss_active (fst (buffer_packet ?p True (st, ?s1))) = None"
    using buffer_acct [of ?p True "(st, ?s1)"] by (simp add: st_def set_codec_def new_stream_state_def p)
  have fr: "same_seg ?s1 (snd (buffer_packet ?p True (st, ?s1)))" using buffer_acct [of ?p True "(st, ?s1)"] by simp
  have s: "s = put_stream ''camera'' (buffer_packet ?p True (st, ?s1))" "rs = [Ok, Ok]"
    using run pw by (simp_all add: Step_def step_add_def step_packet_def in_environment_def New_def p hasSource_def addSource_def)
  then have str: "sg_streams s = [(''camera'', fst (buffer_packet ?p True (st, ?s1)))]" "\<not> sg_locked s"
    using fr by (auto simp: put_stream_def same_seg_def addSource_def hasSource_def in_environment_def New_def split: prod.splits)
  obtain s' r where rel: "Segmenter_Release no_ticks [] [Some (ring_example 1 False)] s = (s', r)" by force
  have "r = Ok" using rel str idle
    by (auto simp: Segmenter_Release_def range_order_def closeSegment_def seg_done_def Let_def)
  moreover have "all_delivered ?xs + queued [Some (ring_example 1 False)] = {#0, 1#}"
    by (simp add: all_delivered_def delivered_def queued_def p List.map_filter_def)
  ultimately show ?thesis using segmenter_releases_once [OF run rel] run rel s by auto
qed
end
