(* ===== verification/SegmenterHang.thy ===== *)
theory SegmenterHang
  imports SegmenterRelease
begin

text \<open>
  What a failed write does to the segmenter: the flush that follows panics with the lock of the streams
  held, the lifecycle manager recovers, and nothing moves any more.
\<close>

section \<open>The lock\<close>

lemma locked_blocks:
  assumes "sg_locked s"
  shows "sg_recordMode s \<noteq> Never \<Longrightarrow> snd (Step tk ks (InPacket (Some p)) s) = Blocked"
    "snd (Step tk ks (InRemove url) s) = Blocked" "snd (Step tk ks InEvent s) = Blocked"
    "snd (Step tk ks (InAdd url) s) = Blocked" "mode \<noteq> sg_recordMode s \<Longrightarrow> snd (Step tk ks (InMode mode) s) = Blocked"
    "snd (Segmenter_Release tk ks queue s) = Blocked"
  using assms
  by (simp_all add: Step_def step_packet_def step_remove_def step_event_def step_add_def step_mode_def Segmenter_Release_def)

section \<open>A packet for an open file\<close>

text \<open>A packet that neither opens nor closes a file, in mode \<open>Always\<close>.\<close>

definition plain_packet :: "seg_packet \<Rightarrow> stream_state \<Rightarrow> active_file \<Rightarrow> bool" where
  "plain_packet p st af \<longleftrightarrow> \<not> key_frame p \<and> \<not> new_codec p st \<and> ss_seenKeyframe st \<and> ss_active st = Some af \<and>
     unat (mk_stream p) < length (mx_streams (af_muxer af)) \<and> 0 \<le> video_dur p"

definition file_with :: "seg_packet \<Rightarrow> active_file \<Rightarrow> active_file" where
  "file_with p af = af\<lparr>af_muxer := writePacket (unat (mk_stream p)) (media_packet.truncate p) (af_muxer af),
     af_pktCount := af_pktCount af + 1, af_duration := af_duration af + video_dur p\<rparr>"

lemma plain_write:
  assumes "plain_packet p st af"
  shows "seg_writePacket p (st, s) = ((st\<lparr>ss_active := Some (file_with p af)\<rparr>, s), [], Ok)"
  using assms by (simp add: seg_writePacket_def plain_packet_def WritePacket_def set_active_def file_with_def media_packet.truncate_def)

lemma plain_always:
  assumes "plain_packet p st af" "sg_recordMode s = Always"
    and "c_targetDuration (sg_config s) + second \<le> af_duration af - af_lastFlush af"
    and "Flush (af_muxer (file_with p af)) = (m, Some e)"
  shows "packet_work tk url p (st, s) =
    ((st\<lparr>ss_active := Some ((file_with p af)\<lparr>af_muxer := m\<rparr>)\<rparr>, s), [], mux_outcome (Some e))"
proof -
  have due: "c_targetDuration (sg_config s) + second \<le> af_duration (file_with p af) - af_lastFlush (file_with p af)"
    using assms(1,3) by (simp add: file_with_def plain_packet_def)
  have "packet_work tk url p (st, s) = seg_then (seg_writePacket p) (seg_when due_flush flush_active) (st, s)"
    using assms(1,2)
    by (simp add: packet_work_def update_codec_def seg_when_def seg_then_def seg_update_def seg_done_def plain_packet_def
        dispatch_def handleAlwaysMode_def active_def split: prod.split)
  also have "\<dots> = ((st\<lparr>ss_active := Some ((file_with p af)\<lparr>af_muxer := m\<rparr>)\<rparr>, s), [], mux_outcome (Some e))"
    using due assms(4) by (simp add: seg_then_def plain_write [OF assms(1)] seg_when_def due_flush_def config_def flush_active_def
        set_active_def split: outcome.split)
  finally show ?thesis .
qed

lemma plain_step:
  assumes "packet_work tk (sp_source p) p (st, s) = (w, [], r)" "map_of (sg_streams s) (sp_source p) = Some st"
    and "sg_recordMode s = Always" "\<not> sg_locked s" "hasSource (sp_source p) s"
  shows "Step tk ks (InPacket (Some p)) s =
    (if r = Panicked then unlock Panicked (put_stream (sp_source p) w) else put_stream (sp_source p) w, r)"
  using assms by (cases r) (simp_all add: Step_def step_packet_def stream_for_def)

lemma writePacket_queue:
  assumes "i < length (mx_streams m)"
  shows "\<exists>pws. mx_pending (writePacket i p m) = mx_pending m @ pws \<and> mx_batchedDump (writePacket i p m) = mx_batchedDump m \<and>
    mx_flushed (writePacket i p m) = mx_flushed m \<and> mx_writer (writePacket i p m) = mx_writer m \<and>
    length (mx_streams (writePacket i p m)) = length (mx_streams m)"
  by (auto simp: writePacket_def Let_def split: option.split)

text \<open>C15: in mode \<open>Always\<close>, when a periodic flush fails behind the first packet of the queue, the step reports
  the error; the next packet flushes again and panics; and from then on every step that touches the streams,
  and \<open>Release\<close>, waits for a lock that nobody holds any more.\<close>

theorem failed_flush_hangs:
  assumes st: "map_of (sg_streams s) url = Some st" "plain_packet p st af" "plain_packet q st af"
    and s: "sg_recordMode s = Always" "\<not> sg_locked s" "hasSource url s" "sp_source p = url" "sp_source q = url"
    and due: "c_targetDuration (sg_config s) + second \<le> af_duration af - af_lastFlush af"
    and m: "mx_pending (af_muxer af) = pending_of a # pending_of b # rest" "extras_of a = []" "extras_of b = []"
      "\<not> mx_batchedDump (af_muxer af)" "mx_flushed (af_muxer af)" "wf_faults (mx_writer (af_muxer af)) = [None, Some k]"
  shows "\<exists>s1 s2. Step tk ks (InPacket (Some p)) s = (s1, Fail (MuxFailed WriteFailed)) \<and>
    Step tk' ks (InPacket (Some q)) s1 = (s2, Panicked) \<and>
    (\<forall>tk ks x. snd (Step tk ks (InPacket (Some x)) s2) = Blocked) \<and>
    (\<forall>tk ks queue. snd (Segmenter_Release tk ks queue s2) = Blocked)"
proof -
  let ?af1 = "file_with p af"
  have ip: "unat (mk_stream p) < length (mx_streams (af_muxer af))" using st(2) by (simp add: plain_packet_def)
  from writePacket_queue [OF ip] obtain pws where pws: "mx_pending (af_muxer ?af1) = mx_pending (af_muxer af) @ pws"
    "mx_batchedDump (af_muxer ?af1) = mx_batchedDump (af_muxer af)" "mx_flushed (af_muxer ?af1) = mx_flushed (af_muxer af)"
    "mx_writer (af_muxer ?af1) = mx_writer (af_muxer af)" "length (mx_streams (af_muxer ?af1)) = length (mx_streams (af_muxer af))"
    unfolding file_with_def by auto
  have q1: "mx_pending (af_muxer ?af1) = pending_of a # pending_of b # (rest @ pws)" using pws(1) m(1) by simp
  obtain v where f: "Flush (af_muxer ?af1) = ((release_entry 0 a (af_muxer ?af1))\<lparr>mx_writer := v\<rparr>, Some WriteFailed)"
    using flush_fails_behind_first [OF q1 m(2,3)] pws(2,3,4) m(4,5,6) by auto
  let ?m1 = "(release_entry 0 a (af_muxer ?af1))\<lparr>mx_writer := v\<rparr>"
  let ?af2 = "?af1\<lparr>af_muxer := ?m1\<rparr>"
  let ?st2 = "st\<lparr>ss_active := Some ?af2\<rparr>"
  let ?s1 = "put_stream url (?st2, s)"
  have step1: "Step tk ks (InPacket (Some p)) s = (?s1, Fail (MuxFailed WriteFailed))"
    using plain_step [OF plain_always [OF st(2) s(1) due f]] st(1) s by (simp add: mux_outcome_def)
  have pl: "plain_packet q ?st2 ?af2"
    using st(3) pws(5) by (auto simp: plain_packet_def new_codec_def release_entry_def split: if_splits)
  have s1: "map_of (sg_streams ?s1) url = Some ?st2" "sg_recordMode ?s1 = Always" "\<not> sg_locked ?s1" "hasSource url ?s1"
    "c_targetDuration (sg_config ?s1) + second \<le> af_duration ?af2 - af_lastFlush ?af2"
    using s due st(2) by (simp_all add: put_stream_def hasSource_def update_conv' file_with_def plain_packet_def)
  have iq: "unat (mk_stream q) < length (mx_streams ?m1)" using pl by (simp add: plain_packet_def)
  from writePacket_queue [OF iq] obtain pws2 where
    q2: "mx_pending (af_muxer (file_with q ?af2)) = mx_pending ?m1 @ pws2"
    "mx_batchedDump (af_muxer (file_with q ?af2)) = mx_batchedDump ?m1" "mx_flushed (af_muxer (file_with q ?af2)) = mx_flushed ?m1"
    unfolding file_with_def by auto
  have "mx_pending ?m1 = (pending_of a)\<lparr>pw_pkt := None\<rparr> # pending_of b # (rest @ pws)"
    using q1 by (simp add: release_entry_def)
  then have "Flush (af_muxer (file_with q ?af2)) = (af_muxer (file_with q ?af2), Some MuxPanic)"
    using q2 pws(2,3) m(2,4,5) by (intro flush_gone_panics) (auto simp: release_entry_def pending_of_def Let_def)
  note work = plain_always [OF pl s1(2,5) this]
  obtain s2 where step2: "Step tk' ks (InPacket (Some q)) ?s1 = (s2, Panicked)" "sg_locked s2" "sg_recordMode s2 = Always"
    using plain_step [OF work] s1 s(5) by (auto simp: mux_outcome_def unlock_def put_stream_def)
  with step1 show ?thesis using locked_blocks [OF step2(2)] by auto
qed

section \<open>An instance\<close>

definition hang_file :: active_file where
  "hang_file = \<lparr>af_muxer = (example_muxer False)\<lparr>mx_pending := [pending_of (example_packet 0 0 [1]),
       pending_of (example_packet 1 1 [2])], mx_flushed := True,
       mx_writer := \<lparr>wf_bytes = [], wf_pos = 0, wf_faults = [None, Some 0]\<rparr>\<rparr>,
     af_startTime = 0, af_folder = ''day'', af_name = ''name'', af_duration = 2 * second, af_lastFlush = 0, af_pktCount = 3\<rparr>"

definition hang_stream :: stream_state where
  "hang_stream = (new_stream_state (New_config id 10 Always example_options) ''camera'')\<lparr>ss_active := Some hang_file,
     ss_seenKeyframe := True, ss_video := Some (0, example_video_par)\<rparr>"

definition hang_segmenter :: segmenter where
  "hang_segmenter = (New id 10 Always example_options 0)\<lparr>sg_sources := [''camera''], sg_streams := [(''camera'', hang_stream)]\<rparr>"

lemma hang_plain: "plain_packet (ring_example i False) hang_stream hang_file"
  by (simp add: plain_packet_def ring_example_fields key_frame_def new_codec_def hang_stream_def hang_file_def example_streams
      video_dur_def) (simp add: ring_example_def media_packet.extend_def example_packet_def)

theorem failed_flush_hangs_witness:
  "\<exists>s1 s2. Step no_ticks [] (InPacket (Some (ring_example 2 False))) hang_segmenter = (s1, Fail (MuxFailed WriteFailed)) \<and>
    Step no_ticks [] (InPacket (Some (ring_example 3 False))) s1 = (s2, Panicked) \<and>
    snd (Segmenter_Release no_ticks [] [] s2) = Blocked"
proof -
  have "map_of (sg_streams hang_segmenter) ''camera'' = Some hang_stream" by (simp add: hang_segmenter_def)
  moreover have "sg_recordMode hang_segmenter = Always" "\<not> sg_locked hang_segmenter" "hasSource ''camera'' hang_segmenter"
    "c_targetDuration (sg_config hang_segmenter) + second \<le> af_duration hang_file - af_lastFlush hang_file"
    by (simp_all add: hang_segmenter_def New_def hasSource_def New_config_def Let_def hang_file_def second_def)
  moreover have "extras_of (example_packet i t b) = []" for i t b by (simp add: extras_of_def example_packet_def example_video_par_def)
  moreover have "mx_pending (af_muxer hang_file) = pending_of (example_packet 0 0 [1]) # pending_of (example_packet 1 1 [2]) # []"
    "\<not> mx_batchedDump (af_muxer hang_file)" "mx_flushed (af_muxer hang_file)"
    "wf_faults (mx_writer (af_muxer hang_file)) = [None, Some 0]"
    by (simp_all add: hang_file_def example_muxer_def Mux_def new_stream_opt_def newStream_def mp4_supported_def NewMuxer_def
        releasePending_def example_video_par_def)
  ultimately show ?thesis
    using failed_flush_hangs [where url = "''camera''" and st = hang_stream and af = hang_file and s = hang_segmenter and
        p = "ring_example 2 False" and q = "ring_example 3 False" and tk = no_ticks and tk' = no_ticks and ks = "[]",
        OF _ hang_plain hang_plain] ring_example_fields(2)
    by blast
qed

end
