(* ===== verification/SegmenterFiles.thy ===== *)
theory SegmenterFiles
  imports SegmenterHang
begin

text \<open>
  What mode \<open>Always\<close> records when nothing fails: the packets of a source, from its first key frame on,
  cut at the key frames behind the target duration, each piece in a file of its own.
\<close>

section \<open>The cut\<close>

fun cut_at :: "int \<Rightarrow> seg_packet list option \<Rightarrow> seg_packet list \<Rightarrow> seg_packet list list" where
  "cut_at target cur [] = (case cur of None \<Rightarrow> [] | Some c \<Rightarrow> [c])"
| "cut_at target cur (p # ps) = (case cur of
       None \<Rightarrow> cut_at target (if key_frame p then Some [p] else None) ps
     | Some c \<Rightarrow> if key_frame p \<and> target \<le> total_video c then c # cut_at target (Some [p]) ps
         else cut_at target (Some (c @ [p])) ps)"

lemma concat_cut:
  "concat (cut_at target cur ps) = (case cur of None \<Rightarrow> dropWhile (\<lambda>p. \<not> key_frame p) ps | Some c \<Rightarrow> c @ ps)"
  by (induction target cur ps rule: cut_at.induct) (auto split: option.split)

lemma cut_keys:
  "pred_option (\<lambda>c. c \<noteq> [] \<and> key_frame (hd c)) cur \<Longrightarrow> \<forall>c\<in>set (cut_at target cur ps). c \<noteq> [] \<and> key_frame (hd c)"
proof (induction ps arbitrary: cur)
  case (Cons p ps)
  have one: "\<forall>c\<in>set (cut_at target (Some [p]) ps). c \<noteq> [] \<and> key_frame (hd c)" if "key_frame p"
    by (rule Cons.IH) (simp add: that)
  show ?case
  proof (cases cur)
    case None
    have "\<forall>c\<in>set (cut_at target None ps). c \<noteq> [] \<and> key_frame (hd c)" by (rule Cons.IH) simp
    with None one show ?thesis by simp
  next
    case (Some c)
    then have c: "c \<noteq> []" "key_frame (hd c)" using Cons.prems by simp_all
    then have "\<forall>c\<in>set (cut_at target (Some (c @ [p])) ps). c \<noteq> [] \<and> key_frame (hd c)" by (intro Cons.IH) simp
    with Some one c show ?thesis by simp
  qed
qed (auto split: option.split)

lemma cut_long: "\<forall>c\<in>set (butlast (cut_at target cur ps)). target \<le> total_video c"
proof (induction ps arbitrary: cur)
  case (Cons p ps)
  show ?case
  proof (cases cur)
    case None
    with Cons.IH show ?thesis by simp
  next
    case (Some c)
    with Cons.IH [of "Some [p]"] Cons.IH [of "Some (c @ [p])"] show ?thesis by simp
  qed
qed (simp split: option.split)

lemma truncate_stream [simp]: "mk_stream (media_packet.truncate p) = mk_stream p"
  by (simp add: media_packet.truncate_def)

section \<open>Fresh muxers\<close>

definition fresh_muxer :: "media_codec \<Rightarrow> media_codec option \<Rightarrow> muxer \<Rightarrow> bool" where
  "fresh_muxer v a m \<longleftrightarrow> (\<exists>start batched. Mux start (Some v) a (NewMuxer (new_file []) batched) = (m, None))"

definition codecs_ok :: "media_codec \<Rightarrow> media_codec option \<Rightarrow> bool" where
  "codecs_ok v a \<longleftrightarrow> mp4_supported (codec_Type v) \<and> (case a of None \<Rightarrow> True | Some c \<Rightarrow> mp4_supported (codec_Type c))"

definition stream_count :: "'a option \<Rightarrow> nat" where
  "stream_count a = (case a of None \<Rightarrow> 1 | Some _ \<Rightarrow> 2)"

lemma Mux_ok:
  assumes "codecs_ok v a"
  obtains m where "Mux start (Some v) a (NewMuxer f batched) = (m, None)" "length (mx_streams m) = stream_count a"
  using assms that
  by (cases a) (auto simp: codecs_ok_def Mux_def new_stream_opt_def newStream_def then_do_def stream_count_def)

lemma fresh_count:
  assumes "fresh_muxer v a m" "codecs_ok v a"
  shows "length (mx_streams m) = stream_count a"
proof -
  from assms(1) obtain start batched where "Mux start (Some v) a (NewMuxer (new_file []) batched) = (m, None)"
    by (auto simp: fresh_muxer_def)
  with Mux_ok [OF assms(2)] show ?thesis by (metis prod.inject)
qed

lemma fresh_sim: "fresh_muxer v a m \<Longrightarrow> sim m (mx_streams m, [])"
  by (auto simp: fresh_muxer_def at_end_def new_file_def intro: Mux_sim)

section \<open>The open file\<close>

definition chunk_spec :: "seg_packet list \<Rightarrow> muxer \<Rightarrow> spec" where
  "chunk_spec c m0 = spec_run (map media_packet.truncate c) (mx_streams m0, [])"

definition chunk_bytes :: "time \<Rightarrow> seg_packet list \<Rightarrow> muxer \<Rightarrow> bytes" where
  "chunk_bytes now c m0 = fst (media_file now (map (\<lambda>p. OpWrite (media_packet.truncate p)) c) m0)"

lemma chunk_spec_snoc: "chunk_spec (c @ [p]) m0 = spec_write (media_packet.truncate p) (chunk_spec c m0)"
  by (simp add: chunk_spec_def spec_run_def)

lemma chunk_spec_Nil: "chunk_spec [] m0 = (mx_streams m0, [])"
  by (simp add: chunk_spec_def spec_run_def)

text \<open>What the theorem is about: the codecs, the number of the source, and packets that fit them.\<close>

record recording =
  r_video :: codec_ref
  r_audio :: "codec_ref option"
  r_config :: seg_config
  r_index :: nat
  r_url :: string

definition r_codecs :: "recording \<Rightarrow> muxer \<Rightarrow> bool" where
  "r_codecs R m \<longleftrightarrow> fresh_muxer (snd (r_video R)) (map_option snd (r_audio R)) m"

definition recording_ok :: "recording \<Rightarrow> bool" where
  "recording_ok R \<longleftrightarrow> codecs_ok (snd (r_video R)) (map_option snd (r_audio R))"

definition fits :: "recording \<Rightarrow> seg_packet \<Rightarrow> bool" where
  "fits R p \<longleftrightarrow> sp_source p = r_url R \<and> unat (mk_stream p) < stream_count (r_audio R) \<and>
     (if mk_video p then packet_codec p = r_video R else r_audio R = Some (packet_codec p))"

definition file_holds :: "recording \<Rightarrow> seg_packet list \<Rightarrow> active_file \<Rightarrow> bool" where
  "file_holds R c af \<longleftrightarrow> (\<exists>m0. r_codecs R m0 \<and> sim (af_muxer af) (chunk_spec c m0)) \<and>
     (c \<noteq> [] \<longrightarrow> af_startTime af = sp_start (hd c) \<and> c_path (r_config R) (sp_start (hd c)) (r_index R) = (af_folder af, af_name af)) \<and>
     af_duration af = total_video c \<and> af_pktCount af = length c"

lemma r_codecs_count:
  assumes "r_codecs R m0" "recording_ok R"
  shows "length (mx_streams m0) = stream_count (r_audio R)"
proof -
  have "stream_count (map_option snd (r_audio R)) = stream_count (r_audio R)" by (cases "r_audio R") (simp_all add: stream_count_def)
  with fresh_count assms show ?thesis unfolding r_codecs_def recording_ok_def by metis
qed

lemma chunk_streams: "length (fst (chunk_spec c m0)) = length (mx_streams m0)"
  by (simp add: chunk_spec_def)

lemma write_holds:
  assumes "file_holds R c af" "fits R p" "recording_ok R"
    and "c = [] \<Longrightarrow> af_startTime af = sp_start p \<and> c_path (r_config R) (sp_start p) (r_index R) = (af_folder af, af_name af)"
  obtains m where "WritePacket (media_packet.truncate p) (af_muxer af) = (m, None)"
    "file_holds R (c @ [p]) (af\<lparr>af_muxer := m, af_pktCount := af_pktCount af + 1, af_duration := af_duration af + video_dur p\<rparr>)"
proof -
  from assms(1) obtain m0 where m0: "r_codecs R m0" "sim (af_muxer af) (chunk_spec c m0)" by (auto simp: file_holds_def)
  have "unat (mk_stream (media_packet.truncate p)) < length (fst (chunk_spec c m0))"
    using assms(2) r_codecs_count [OF m0(1) assms(3)] by (simp add: chunk_streams fits_def media_packet.truncate_def)
  from WritePacket_sim [OF m0(2) this] obtain m where
    m: "WritePacket (media_packet.truncate p) (af_muxer af) = (m, None)" "sim m (chunk_spec (c @ [p]) m0)"
    by (auto simp: chunk_spec_snoc)
  show ?thesis
    by (rule that [OF m(1)]) (use m0 m assms in \<open>auto simp: file_holds_def hd_append\<close>)
qed

lemma flush_holds:
  assumes "file_holds R c af"
  obtains m where "Flush (af_muxer af) = (m, None)" "file_holds R c (af\<lparr>af_muxer := m, af_lastFlush := x\<rparr>)"
proof -
  from assms obtain m0 where m0: "r_codecs R m0" "sim (af_muxer af) (chunk_spec c m0)" by (auto simp: file_holds_def)
  from Flush_ok [OF m0(2)] obtain m where "Flush (af_muxer af) = (m, None)" "sim m (chunk_spec c m0)" by blast
  with m0(1) assms that show ?thesis by (auto simp: file_holds_def)
qed

section \<open>The files that are kept\<close>

definition recorded :: "recording \<Rightarrow> seg_packet list \<Rightarrow> disk_call \<times> file_info \<Rightarrow> bool" where
  "recorded R c = (\<lambda>(d, i). \<exists>now m0 folder name. r_codecs R m0 \<and>
     c_path (r_config R) (sp_start (hd c)) (r_index R) = (folder, name) \<and>
     d = Kept folder name (chunk_bytes now c m0) \<and>
     i = \<lparr>fi_Name = folder @ name, fi_Start = sp_start (hd c), fi_Stop = sp_start (hd c) + total_video c,
       fi_Size = length (chunk_bytes now c m0), fi_URL = r_url R, fi_Width = par_Width (snd (r_video R)),
       fi_Height = par_Height (snd (r_video R)), fi_Codec = codec_Type (snd (r_video R))\<rparr>)"

lemma close_holds:
  assumes "file_holds R c af" "c \<noteq> []" "recording_ok R" "\<forall>p\<in>set c. fits R p"
    and "ss_active st = Some af" "ss_source st = r_url R" "ss_video st = Some (r_video R)" "sg_stats s = []"
  obtains d i ids where "recorded R c (d, i)"
    "closeSegment tk 0 (st, s) = ((st\<lparr>ss_active := None\<rparr>, s\<lparr>sg_released := ids, sg_disk := sg_disk s @ [d]\<rparr>), [i], Ok)"
proof -
  from assms(1) obtain m0 where m0: "r_codecs R m0" "sim (af_muxer af) (chunk_spec c m0)" by (auto simp: file_holds_def)
  from m0(1) obtain start batched where mux: "Mux start (Some (snd (r_video R))) (map_option snd (r_audio R)) (NewMuxer (new_file []) batched) = (m0, None)"
    by (auto simp: r_codecs_def fresh_muxer_def)
  let ?ops = "map (\<lambda>p. OpWrite (media_packet.truncate p)) c"
  have ops: "packets_of ?ops = map media_packet.truncate c" by (induction c) (simp_all add: packets_of_def)
  have "\<forall>p\<in>set (packets_of ?ops). unat (mk_stream p) < length (mx_streams m0)"
    using assms(4) r_codecs_count [OF m0(1) assms(3)] by (auto simp: ops fits_def)
  from media_file_spec [OF mux _ this] have bytes: "chunk_bytes now c m0 = spec_file now (spec_trailer (chunk_spec c m0))" for now
    by (simp add: chunk_bytes_def ops chunk_spec_def at_end_def new_file_def)
  from WriteTrailer_ok [OF m0(2), of "t_mux tk"] obtain m where
    m: "WriteTrailer (t_mux tk) (af_muxer af) = (m, None)" "wf_bytes (mx_writer m) = chunk_bytes (t_mux tk) c m0"
    by (auto simp: bytes)
  let ?d = "Kept (af_folder af) (af_name af) (chunk_bytes (t_mux tk) c m0)"
  let ?i = "info_of st (snd (r_video R)) af (length (chunk_bytes (t_mux tk) c m0))"
  have "recorded R c (?d, ?i)"
    using assms(1,2,6) m0(1) unfolding recorded_def prod.case
    by (intro exI [of _ "t_mux tk"] exI [of _ m0] exI [of _ "af_folder af"] exI [of _ "af_name af"])
      (simp add: file_holds_def info_of_def)
  moreover have "closeSegment tk 0 (st, s) = ((st\<lparr>ss_active := None\<rparr>, s\<lparr>sg_released := sg_released s @ mx_released m,
      sg_disk := sg_disk s @ [?d]\<rparr>), [?i], Ok)"
    using assms m by (simp add: closeSegment_def file_holds_def finish_file_def mux_outcome_def pop_def Let_def info_of_def)
  ultimately show ?thesis by (rule that)
qed

section \<open>One packet\<close>

text \<open>What stays the same outside of the disk and of the log of releases.\<close>

definition quiet :: "segmenter \<Rightarrow> segmenter \<Rightarrow> bool" where
  "quiet s s' \<longleftrightarrow> same_seg s s' \<and> sg_creates s' = sg_creates s \<and> sg_stats s' = sg_stats s \<and>
     sg_infoTaken s' = sg_infoTaken s \<and> sg_sent s' = sg_sent s"

definition no_faults :: "segmenter \<Rightarrow> bool" where
  "no_faults s \<longleftrightarrow> sg_creates s = [] \<and> sg_stats s = [] \<and> sg_infoTaken s = []"

definition stream_fits :: "recording \<Rightarrow> stream_state \<Rightarrow> bool" where
  "stream_fits R st \<longleftrightarrow> ss_source st = r_url R \<and> ss_audio st = r_audio R"

definition seg_fits :: "recording \<Rightarrow> segmenter \<Rightarrow> bool" where
  "seg_fits R s \<longleftrightarrow> sg_config s = r_config R \<and> sg_recordMode s = Always \<and> \<not> sg_locked s \<and>
     getSourceIndex (r_url R) s = Some (r_index R) \<and> no_faults s"

definition holds :: "recording \<Rightarrow> seg_packet list option \<Rightarrow> stream_state \<Rightarrow> bool" where
  "holds R cur st \<longleftrightarrow> (case cur of None \<Rightarrow> ss_active st = None \<and> ss_video st \<in> {None, Some (r_video R)}
     | Some c \<Rightarrow> c \<noteq> [] \<and> (\<forall>p\<in>set c. fits R p) \<and> ss_seenKeyframe st \<and> ss_video st = Some (r_video R) \<and>
         (\<exists>af. ss_active st = Some af \<and> file_holds R c af))"

definition emits :: "recording \<Rightarrow> seg_packet list option \<Rightarrow> seg_packet \<Rightarrow> seg_packet list list" where
  "emits R cur p = (case cur of None \<Rightarrow> []
     | Some c \<Rightarrow> if key_frame p \<and> c_targetDuration (r_config R) \<le> total_video c then [c] else [])"

definition next_chunk :: "recording \<Rightarrow> seg_packet list option \<Rightarrow> seg_packet \<Rightarrow> seg_packet list option" where
  "next_chunk R cur p = (case cur of None \<Rightarrow> if key_frame p then Some [p] else None
     | Some c \<Rightarrow> if emits R cur p = [] then Some (c @ [p]) else Some [p])"

lemma cut_step: "cut_at (c_targetDuration (r_config R)) cur (p # ps) =
  emits R cur p @ cut_at (c_targetDuration (r_config R)) (next_chunk R cur p) ps"
  by (simp add: emits_def next_chunk_def split: option.split)

lemma quiet_refl [simp]: "quiet s s"
  by (simp add: quiet_def)

lemma quiet_trans: "quiet a b \<Longrightarrow> quiet b c \<Longrightarrow> quiet a c"
  by (simp add: quiet_def same_seg_def)

lemma quiet_fits: "quiet s s' \<Longrightarrow> seg_fits R s' = seg_fits R s"
  by (simp add: quiet_def same_seg_def seg_fits_def getSourceIndex_def no_faults_def)

lemma quiet_recording: "quiet s (set_recording b s)" "sg_disk (set_recording b s) = sg_disk s"
  by (simp_all add: set_recording_def sendRecordStatus_def quiet_def same_seg_def split: prod.split)

lemma part_close:
  assumes "recording_ok R" "holds R cur st" "stream_fits R st" "seg_fits R s" "ss_video st = Some (r_video R)"
  obtains st1 s1 ds where
    "seg_when (\<lambda>w. key_frame p \<and> active w \<and> c_targetDuration (config w) \<le> active_duration w)
       (seg_on_error (closeSegment tk 0) (seg_release [mk_id p])) (st, s) = ((st1, s1), map snd ds, Ok)"
    "list_all2 (recorded R) (emits R cur p) ds" "sg_disk s1 = sg_disk s @ map fst ds" "quiet s s1" "stream_fits R st1"
    "ss_seenKeyframe st1 = ss_seenKeyframe st" "ss_video st1 = Some (r_video R)"
    "holds R (if emits R cur p = [] then cur else None) st1"
proof (cases "emits R cur p = []")
  case True
  have n: "\<not> (key_frame p \<and> active (st, s) \<and> c_targetDuration (config (st, s)) \<le> active_duration (st, s))"
    using True assms(2,4) by (cases cur) (auto simp: holds_def active_def emits_def config_def seg_fits_def active_duration_def
        file_holds_def split: if_splits)
  show ?thesis by (rule that [of st s "[]"]) (use True assms in \<open>simp_all add: seg_when_def if_not_P [OF n] seg_done_def\<close>)
next
  case False
  then obtain c where c: "cur = Some c" "key_frame p" "c_targetDuration (r_config R) \<le> total_video c" "emits R cur p = [c]"
    by (auto simp: emits_def split: option.splits if_splits)
  then obtain af where h: "c \<noteq> []" "\<forall>p\<in>set c. fits R p" "ss_active st = Some af" "file_holds R c af"
    using assms(2) by (auto simp: holds_def)
  have "sg_stats s = []" "ss_source st = r_url R" using assms(3,4) by (simp_all add: seg_fits_def no_faults_def stream_fits_def)
  then obtain d i ids where d: "recorded R c (d, i)"
    "closeSegment tk 0 (st, s) = ((st\<lparr>ss_active := None\<rparr>, s\<lparr>sg_released := ids, sg_disk := sg_disk s @ [d]\<rparr>), [i], Ok)"
    using close_holds [OF h(4,1) assms(1) h(2,3) _ assms(5)] by blast
  have "active (st, s)" "c_targetDuration (config (st, s)) \<le> active_duration (st, s)"
    using h c(3) assms(4) by (simp_all add: active_def config_def active_duration_def file_holds_def seg_fits_def)
  then show ?thesis
    using c d assms(3,5) by (intro that [of "st\<lparr>ss_active := None\<rparr>" "s\<lparr>sg_released := ids, sg_disk := sg_disk s @ [d]\<rparr>" "[(d, i)]"])
      (simp_all add: seg_when_def seg_on_error_def quiet_def same_seg_def stream_fits_def holds_def)
qed

lemma part_open:
  assumes "recording_ok R" "ss_active st = None" "seg_fits R s" "ss_video st = Some (r_video R)" "stream_fits R st" "fits R p"
  obtains af s1 where
    "seg_then (seg_on_error (openNewSegment tk (r_url R) (sp_start p)) (seg_release [mk_id p]))
       (seg_update (\<lambda>(st, s). (st, set_recording True s))) (st, s) = ((st\<lparr>ss_active := Some af\<rparr>, s1), [], Ok)"
    "quiet s s1" "sg_disk s1 = sg_disk s" "file_holds R [] af"
    "af_startTime af = sp_start p" "c_path (r_config R) (sp_start p) (r_index R) = (af_folder af, af_name af)"
proof -
  obtain m where m: "Mux (t_mux tk) (Some (snd (r_video R))) (map_option snd (r_audio R))
      (NewMuxer (new_file []) (c_batched (r_config R))) = (m, None)"
    using Mux_ok assms(1) unfolding recording_ok_def by blast
  obtain folder name where f: "c_path (r_config R) (sp_start p) (r_index R) = (folder, name)" by force
  define af where "af = \<lparr>af_muxer = m, af_startTime = sp_start p, af_folder = folder, af_name = name, af_duration = 0,
    af_lastFlush = 0, af_pktCount = 0\<rparr>"
  have "r_codecs R m" using m by (auto simp: r_codecs_def fresh_muxer_def)
  moreover from this have "sim m (chunk_spec [] m)" by (simp add: chunk_spec_Nil r_codecs_def fresh_sim)
  ultimately have h: "file_holds R [] af" by (auto simp: file_holds_def af_def)
  have "openNewSegment tk (r_url R) (sp_start p) (st, s) = ((st\<lparr>ss_active := Some af\<rparr>, s), [], Ok)"
    using assms(3,4,5) m f
    by (simp add: openNewSegment_def seg_fits_def stream_fits_def createFile_def os_Create_def pop_def no_faults_def af_def)
  then show ?thesis using f h quiet_recording [where s = s and b = True]
    by (intro that [of af "set_recording True s"]) (simp_all add: seg_then_def seg_on_error_def seg_update_def af_def)
qed

lemma part_write:
  assumes "recording_ok R" "ss_active st = Some af" "file_holds R c af" "fits R p"
    and "c = [] \<Longrightarrow> af_startTime af = sp_start p \<and> c_path (r_config R) (sp_start p) (r_index R) = (af_folder af, af_name af)"
  obtains af' where "seg_then (seg_writePacket p) (seg_when due_flush flush_active) (st, s) =
      ((st\<lparr>ss_active := Some af'\<rparr>, s), [], Ok)" "file_holds R (c @ [p]) af'"
proof -
  obtain m where m: "WritePacket (media_packet.truncate p) (af_muxer af) = (m, None)"
    "file_holds R (c @ [p]) (af\<lparr>af_muxer := m, af_pktCount := af_pktCount af + 1, af_duration := af_duration af + video_dur p\<rparr>)"
    by (rule write_holds [OF assms(3,4,1,5)])
  let ?af = "af\<lparr>af_muxer := m, af_pktCount := af_pktCount af + 1, af_duration := af_duration af + video_dur p\<rparr>"
  have w: "seg_writePacket p (st, s) = ((st\<lparr>ss_active := Some ?af\<rparr>, s), [], Ok)"
    using assms(2) m(1) by (simp add: seg_writePacket_def set_active_def)
  show ?thesis
  proof (cases "due_flush (st\<lparr>ss_active := Some ?af\<rparr>, s)")
    case False
    then show ?thesis using that [of ?af] m(2) by (simp add: seg_then_def w seg_when_def seg_done_def)
  next
    case True
    obtain m' where m': "Flush (af_muxer ?af) = (m', None)" "file_holds R (c @ [p]) (?af\<lparr>af_muxer := m', af_lastFlush := af_duration ?af\<rparr>)"
      by (rule flush_holds [OF m(2)])
    then have "flush_active (st\<lparr>ss_active := Some ?af\<rparr>, s) =
        ((st\<lparr>ss_active := Some (?af\<lparr>af_muxer := m', af_lastFlush := af_duration ?af\<rparr>)\<rparr>, s), [], Ok)"
      by (simp add: flush_active_def set_active_def)
    with True m'(2) show ?thesis
      by (intro that [of "?af\<lparr>af_muxer := m', af_lastFlush := af_duration ?af\<rparr>"]) (simp_all add: seg_then_def w seg_when_def)
  qed
qed

lemma seg_then_Ok: "f w = (w1, is, Ok) \<Longrightarrow> g w1 = (w2, js, Ok) \<Longrightarrow> seg_then f g w = (w2, is @ js, Ok)"
  by (simp add: seg_then_def)

lemma always_step:
  assumes "recording_ok R" "holds R cur st" "stream_fits R st" "seg_fits R s" "ss_video st = Some (r_video R)"
    and "fits R p" "key_frame p \<or> cur \<noteq> None" "ss_seenKeyframe st"
  obtains st' s' ds where "handleAlwaysMode tk (r_url R) p (key_frame p) (st, s) = ((st', s'), map snd ds, Ok)"
    "list_all2 (recorded R) (emits R cur p) ds" "sg_disk s' = sg_disk s @ map fst ds" "quiet s s'" "stream_fits R st'"
    "holds R (next_chunk R cur p) st'"
proof -
  let ?close = "seg_when (\<lambda>w. key_frame p \<and> active w \<and> c_targetDuration (config w) \<le> active_duration w)
    (seg_on_error (closeSegment tk 0) (seg_release [mk_id p]))"
  let ?open = "seg_when (\<lambda>w. \<not> active w \<and> key_frame p)
    (seg_then (seg_on_error (openNewSegment tk (r_url R) (sp_start p)) (seg_release [mk_id p]))
      (seg_update (\<lambda>(st, s). (st, set_recording True s))))"
  let ?put = "\<lambda>w. if active w then seg_then (seg_writePacket p) (seg_when due_flush flush_active) w
    else seg_update (seg_release [mk_id p]) w"
  obtain st1 s1 ds where 1: "?close (st, s) = ((st1, s1), map snd ds, Ok)"
    "list_all2 (recorded R) (emits R cur p) ds" "sg_disk s1 = sg_disk s @ map fst ds" "quiet s s1" "stream_fits R st1"
    "ss_seenKeyframe st1 = ss_seenKeyframe st" "ss_video st1 = Some (r_video R)"
    "holds R (if emits R cur p = [] then cur else None) st1"
    by (rule part_close [OF assms(1-5)])
  have fits1: "seg_fits R s1" using quiet_fits [OF 1(4)] assms(4) by simp
  have all: "handleAlwaysMode tk (r_url R) p (key_frame p) = seg_then ?close (seg_then ?open ?put)"
    by (simp add: handleAlwaysMode_def)
  show ?thesis
  proof (cases "if emits R cur p = [] then cur else None")
    case None
    then have key: "key_frame p" using assms(7) by (auto simp: emits_def split: if_splits option.splits)
    have idle: "ss_active st1 = None" using 1(8) None by (simp add: holds_def split: if_splits)
    obtain af s2 where 2: "seg_then (seg_on_error (openNewSegment tk (r_url R) (sp_start p)) (seg_release [mk_id p]))
       (seg_update (\<lambda>(st, s). (st, set_recording True s))) (st1, s1) = ((st1\<lparr>ss_active := Some af\<rparr>, s2), [], Ok)"
      "quiet s1 s2" "sg_disk s2 = sg_disk s1" "file_holds R [] af" "af_startTime af = sp_start p"
      "c_path (r_config R) (sp_start p) (r_index R) = (af_folder af, af_name af)"
      by (rule part_open [OF assms(1) idle fits1 1(7,5) assms(6)])
    have op: "?open (st1, s1) = ((st1\<lparr>ss_active := Some af\<rparr>, s2), [], Ok)"
      using 2(1) key idle by (simp add: seg_when_def active_def)
    obtain af' where 3: "seg_then (seg_writePacket p) (seg_when due_flush flush_active) (st1\<lparr>ss_active := Some af\<rparr>, s2) =
        ((st1\<lparr>ss_active := Some af, ss_active := Some af'\<rparr>, s2), [], Ok)" "file_holds R ([] @ [p]) af'"
      using part_write [OF assms(1) _ 2(4) assms(6), of "st1\<lparr>ss_active := Some af\<rparr>" s2] 2(5,6) by auto
    have "?put (st1\<lparr>ss_active := Some af\<rparr>, s2) = ((st1\<lparr>ss_active := Some af'\<rparr>, s2), [], Ok)" using 3(1) by (simp add: active_def)
    from seg_then_Ok [where f = ?close and g = "seg_then ?open ?put", OF 1(1) seg_then_Ok [where f = ?open and g = ?put, OF op this]]
    have "handleAlwaysMode tk (r_url R) p (key_frame p) (st, s) = ((st1\<lparr>ss_active := Some af'\<rparr>, s2), map snd ds, Ok)"
      by (simp add: all)
    moreover have "holds R (next_chunk R cur p) (st1\<lparr>ss_active := Some af'\<rparr>)"
      using None key 3(2) 1(6,7) assms(6,8) by (auto simp: holds_def next_chunk_def emits_def split: option.splits if_splits)
    ultimately show ?thesis
      using 1 2(2,3) quiet_trans [OF 1(4) 2(2)] by (intro that [of "st1\<lparr>ss_active := Some af'\<rparr>" s2 ds]) (simp_all add: stream_fits_def)
  next
    case (Some c)
    then have e: "emits R cur p = []" "cur = Some c" by (auto split: if_splits)
    then obtain af where h: "c \<noteq> []" "\<forall>p\<in>set c. fits R p" "ss_active st1 = Some af" "file_holds R c af"
      using 1(8) by (auto simp: holds_def)
    have op: "?open (st1, s1) = ((st1, s1), [], Ok)" using h(3) by (simp add: seg_when_def seg_done_def active_def)
    obtain af' where 3: "seg_then (seg_writePacket p) (seg_when due_flush flush_active) (st1, s1) =
        ((st1\<lparr>ss_active := Some af'\<rparr>, s1), [], Ok)" "file_holds R (c @ [p]) af'"
      using part_write [OF assms(1) h(3,4) assms(6), of s1] h(1) by auto
    have "?put (st1, s1) = ((st1\<lparr>ss_active := Some af'\<rparr>, s1), [], Ok)" using 3(1) h(3) by (simp add: active_def)
    from seg_then_Ok [where f = ?close and g = "seg_then ?open ?put", OF 1(1) seg_then_Ok [where f = ?open and g = ?put, OF op this]]
    have "handleAlwaysMode tk (r_url R) p (key_frame p) (st, s) = ((st1\<lparr>ss_active := Some af'\<rparr>, s1), map snd ds, Ok)"
      by (simp add: all)
    moreover have "holds R (next_chunk R cur p) (st1\<lparr>ss_active := Some af'\<rparr>)"
      using e h 3(2) 1(6,7) assms(6,8) by (auto simp: holds_def next_chunk_def)
    ultimately show ?thesis
      using 1 by (intro that [of "st1\<lparr>ss_active := Some af'\<rparr>" s1 ds]) (simp_all add: stream_fits_def)
  qed
qed

lemma packet_step:
  assumes "recording_ok R" "holds R cur st" "stream_fits R st" "seg_fits R s" "fits R p"
  obtains st' s' ds where "packet_work tk (r_url R) p (st, s) = ((st', s'), map snd ds, Ok)"
    "list_all2 (recorded R) (emits R cur p) ds" "sg_disk s' = sg_disk s @ map fst ds" "quiet s s'" "stream_fits R st'"
    "holds R (next_chunk R cur p) st'"
proof -
  define st0 where "st0 = (if mk_video p then st\<lparr>ss_video := Some (r_video R)\<rparr> else st)"
  have vid: "ss_video st \<in> {None, Some (r_video R)}" using assms(2) by (auto simp: holds_def split: option.splits)
  have codec: "packet_codec p = r_video R" if "mk_video p" using assms(5) that by (simp add: fits_def)
  have up: "update_codec tk p (st, s) = ((st0, s), [], Ok)"
  proof (cases "new_codec p st")
    case True
    then have v: "mk_video p" "ss_video st = None"
      using assms(3,5) vid by (cases "r_video R"; auto simp: new_codec_def fits_def stream_fits_def packet_codec_def split: if_splits)+
    then have "ss_active st = None" using assms(2) by (auto simp: holds_def split: option.splits)
    with v True codec show ?thesis
      by (simp add: update_codec_def seg_when_def seg_then_def seg_update_def set_codec_def seg_on_error_def closeSegment_def
          seg_done_def st0_def)
  next
    case False
    then have "st0 = st" using vid by (auto simp: st0_def new_codec_def split: if_splits)
    with False show ?thesis by (simp add: update_codec_def seg_when_def seg_done_def)
  qed
  have h0: "holds R cur st0" "stream_fits R st0" "ss_seenKeyframe st0 = ss_seenKeyframe st" "ss_active st0 = ss_active st"
    using assms(2,3) by (auto simp: holds_def st0_def stream_fits_def split: option.splits)
  define st1 where "st1 = (if key_frame p then st0\<lparr>ss_seenKeyframe := True\<rparr> else st0)"
  have mode: "sg_recordMode s = Always" using assms(4) by (simp add: seg_fits_def)
  have seen: "(if key_frame p then see_keyframe (st0, s) else (st0, s)) = (st1, s)" by (simp add: see_keyframe_def st1_def)
  show ?thesis
  proof (cases "key_frame p \<or> cur \<noteq> None")
    case True
    have "holds R cur st1" "stream_fits R st1" using h0 by (auto simp: st1_def holds_def stream_fits_def split: option.splits)
    moreover have v1: "ss_video st1 = Some (r_video R)" "ss_seenKeyframe st1"
      using True h0 assms(2) by (auto simp: st1_def st0_def key_frame_def holds_def split: option.splits)
    ultimately obtain st' s' ds where d: "handleAlwaysMode tk (r_url R) p (key_frame p) (st1, s) = ((st', s'), map snd ds, Ok)"
      "list_all2 (recorded R) (emits R cur p) ds" "sg_disk s' = sg_disk s @ map fst ds" "quiet s s'" "stream_fits R st'"
      "holds R (next_chunk R cur p) st'"
      using always_step [OF assms(1) _ _ assms(4) _ assms(5) True] by blast
    have "ss_seenKeyframe st0 \<or> key_frame p" using v1(2) by (auto simp: st1_def split: if_splits)
    then have "packet_work tk (r_url R) p (st, s) = ((st', s'), map snd ds, Ok)"
      using d(1) mode seen by (auto simp: packet_work_def seg_then_def up dispatch_def)
    then show ?thesis using d by (intro that)
  next
    case False
    then have n: "\<not> key_frame p" "cur = None" "ss_active st0 = None" using h0 by (auto simp: holds_def)
    let ?s = "s\<lparr>sg_released := sg_released s @ [mk_id p]\<rparr>"
    have "packet_work tk (r_url R) p (st, s) = ((st0, ?s), [], Ok)"
      using n mode by (simp add: packet_work_def seg_then_def up dispatch_def handleAlwaysMode_def seg_when_def seg_done_def
          active_def seg_update_def seg_release_def)
    then show ?thesis using n h0
      by (intro that [of st0 ?s "[]"]) (simp_all add: emits_def next_chunk_def quiet_def same_seg_def)
  qed
qed

section \<open>Many packets\<close>

definition alive :: "recording \<Rightarrow> seg_packet list option \<Rightarrow> segmenter \<Rightarrow> bool" where
  "alive R cur s \<longleftrightarrow> seg_fits R s \<and> (sg_streams s = [] \<or> sg_streams s = [(r_url R, stream_for (r_url R) s)]) \<and>
     holds R cur (stream_for (r_url R) s) \<and> stream_fits R (stream_for (r_url R) s)"

lemma index_of_mem: "index_of url xs = Some i \<Longrightarrow> url \<in> set xs"
  by (induction xs arbitrary: i) (auto split: if_splits)

lemma send_all: "sg_infoTaken s = [] \<Longrightarrow> fold sendFileInfo is s = s\<lparr>sg_sent := sg_sent s @ is\<rparr>"
  by (induction "is" arbitrary: s) (simp_all add: sendFileInfo_def pop_def)

lemma alive_source: "alive R cur s \<Longrightarrow> hasSource (r_url R) s"
  by (auto simp: alive_def seg_fits_def getSourceIndex_def hasSource_def dest: index_of_mem)

lemma alive_step:
  assumes "recording_ok R" "alive R cur s" "fits R p"
  obtains s' ds where "Step tk ks (InPacket (Some p)) s = (s', Ok)" "alive R (next_chunk R cur p) s'"
    "list_all2 (recorded R) (emits R cur p) ds" "sg_disk s' = sg_disk s @ map fst ds" "sg_sent s' = sg_sent s @ map snd ds"
proof -
  let ?url = "r_url R" and ?st = "stream_for (r_url R) s"
  have a: "holds R cur ?st" "stream_fits R ?st" "seg_fits R s" "sg_streams s = [] \<or> sg_streams s = [(?url, ?st)]"
    using assms(2) by (simp_all add: alive_def)
  obtain st' s' ds where d: "packet_work tk ?url p (?st, s) = ((st', s'), map snd ds, Ok)"
    "list_all2 (recorded R) (emits R cur p) ds" "sg_disk s' = sg_disk s @ map fst ds" "quiet s s'" "stream_fits R st'"
    "holds R (next_chunk R cur p) st'"
    by (rule packet_step [OF assms(1) a(1,2,3) assms(3)])
  have fits': "seg_fits R s'" using quiet_fits [OF d(4)] a(3) by simp
  then have taken: "sg_infoTaken (put_stream ?url (st', s')) = []" by (simp add: seg_fits_def no_faults_def put_stream_def)
  let ?s = "(put_stream ?url (st', s'))\<lparr>sg_sent := sg_sent s' @ map snd ds\<rparr>"
  have "Step tk ks (InPacket (Some p)) s = (?s, Ok)"
    using d(1) a(3) alive_source [OF assms(2)] assms(3) send_all [OF taken]
    by (simp add: Step_def step_packet_def seg_fits_def fits_def) (simp add: put_stream_def)
  moreover have str: "sg_streams ?s = [(?url, st')]" using a(4) d(4) by (auto simp: put_stream_def quiet_def same_seg_def)
  then have "stream_for ?url ?s = st'" by (simp add: stream_for_def)
  with str d(5,6) fits' have "alive R (next_chunk R cur p) ?s"
    by (simp add: alive_def seg_fits_def getSourceIndex_def no_faults_def put_stream_def)
  moreover have "sg_disk ?s = sg_disk s @ map fst ds" "sg_sent ?s = sg_sent s @ map snd ds"
    using d(3,4) by (simp_all add: put_stream_def quiet_def)
  ultimately show ?thesis using d(2) by (intro that)
qed

definition packet_steps :: "(ticks \<times> string list \<times> seg_packet) list \<Rightarrow> (ticks \<times> string list \<times> input) list" where
  "packet_steps = map (\<lambda>(tk, ks, p). (tk, ks, InPacket (Some p)))"

abbreviation packets_in :: "(ticks \<times> string list \<times> seg_packet) list \<Rightarrow> seg_packet list" where
  "packets_in \<equiv> map (\<lambda>(tk, ks, p). p)"

lemma alive_run:
  assumes "recording_ok R" "alive R cur s" "\<forall>p\<in>set (packets_in ts). fits R p"
  shows "\<exists>s' rs cs cur' ds. run_steps (packet_steps ts) s = (s', rs) \<and> set rs \<subseteq> {Ok} \<and> alive R cur' s' \<and>
    sg_disk s' = sg_disk s @ map fst ds \<and> sg_sent s' = sg_sent s @ map snd ds \<and> list_all2 (recorded R) cs ds \<and>
    cut_at (c_targetDuration (r_config R)) cur (packets_in ts) = cs @ cut_at (c_targetDuration (r_config R)) cur' []"
  using assms(2,3)
proof (induction ts arbitrary: s cur)
  case Nil
  then show ?case by (intro exI [of _ s] exI [of _ "[]"] exI [of _ "[]"] exI [of _ cur]) (auto simp: packet_steps_def)
next
  case (Cons x ts)
  obtain tk ks p where x: "x = (tk, ks, p)" by (metis prod_cases3)
  have fp: "fits R p" "\<forall>p\<in>set (packets_in ts). fits R p" using Cons.prems(2) by (simp_all add: x)
  obtain s1 ds where 1: "Step tk ks (InPacket (Some p)) s = (s1, Ok)" "alive R (next_chunk R cur p) s1"
    "list_all2 (recorded R) (emits R cur p) ds" "sg_disk s1 = sg_disk s @ map fst ds" "sg_sent s1 = sg_sent s @ map snd ds"
    by (rule alive_step [OF assms(1) Cons.prems(1) fp(1)])
  from Cons.IH [OF 1(2) fp(2)] obtain s' rs cs cur' es where 2: "run_steps (packet_steps ts) s1 = (s', rs)" "set rs \<subseteq> {Ok}"
    "alive R cur' s'" "sg_disk s' = sg_disk s1 @ map fst es" "sg_sent s' = sg_sent s1 @ map snd es" "list_all2 (recorded R) cs es"
    "cut_at (c_targetDuration (r_config R)) (next_chunk R cur p) (packets_in ts) = cs @ cut_at (c_targetDuration (r_config R)) cur' []"
    by blast
  have "run_steps (packet_steps (x # ts)) s = (s', Ok # rs)" using 1(1) 2(1) by (simp add: packet_steps_def x)
  moreover have "cut_at (c_targetDuration (r_config R)) cur (packets_in (x # ts)) =
      (emits R cur p @ cs) @ cut_at (c_targetDuration (r_config R)) cur' []"
    using 2(7) cut_step [of R cur p "packets_in ts"] by (simp add: x)
  moreover have "list_all2 (recorded R) (emits R cur p @ cs) (ds @ es)" using 1(3) 2(6) by (rule list_all2_appendI)
  ultimately show ?case using 1 2
    by (intro exI [of _ s'] exI [of _ "Ok # rs"] exI [of _ "emits R cur p @ cs"] exI [of _ cur'] exI [of _ "ds @ es"]) simp
qed

section \<open>Before the first key frame\<close>

text \<open>Nothing is recorded; the codecs are learned from the packets that are dropped.\<close>

definition ready :: "recording \<Rightarrow> segmenter \<Rightarrow> bool" where
  "ready R s \<longleftrightarrow> seg_fits R s \<and> (sg_streams s = [] \<or> sg_streams s = [(r_url R, stream_for (r_url R) s)]) \<and>
     (let st = stream_for (r_url R) s in ss_source st = r_url R \<and> ss_active st = None \<and>
        ss_video st \<in> {None, Some (r_video R)} \<and> ss_audio st \<in> {None, r_audio R})"

text \<open>The audio codec, where there is one, is known from before or by a packet in front of the first key frame.\<close>

definition audio_known :: "recording \<Rightarrow> segmenter \<Rightarrow> seg_packet list \<Rightarrow> bool" where
  "audio_known R s ps \<longleftrightarrow> ss_audio (stream_for (r_url R) s) = r_audio R \<or>
     (\<exists>p\<in>set (takeWhile (\<lambda>p. \<not> key_frame p) ps). \<not> mk_video p)"

lemma ready_alive: "ready R s \<Longrightarrow> ss_audio (stream_for (r_url R) s) = r_audio R \<Longrightarrow> alive R None s"
  by (simp add: ready_def alive_def holds_def stream_fits_def Let_def)

lemma ready_source: "ready R s \<Longrightarrow> hasSource (r_url R) s"
  by (auto simp: ready_def seg_fits_def getSourceIndex_def hasSource_def dest: index_of_mem)

lemma ready_step:
  assumes "ready R s" "fits R p" "\<not> key_frame p"
  obtains s' where "Step tk ks (InPacket (Some p)) s = (s', Ok)" "ready R s'" "sg_disk s' = sg_disk s" "sg_sent s' = sg_sent s"
    "ss_audio (stream_for (r_url R) s') = (if mk_video p then ss_audio (stream_for (r_url R) s) else r_audio R)"
proof -
  let ?url = "r_url R"
  define st where "st = stream_for ?url s"
  define st' where "st' = (if mk_video p then st\<lparr>ss_video := Some (r_video R)\<rparr> else st\<lparr>ss_audio := r_audio R\<rparr>)"
  let ?s = "s\<lparr>sg_released := sg_released s @ [mk_id p]\<rparr>"
  have st: "ss_source st = ?url" "ss_active st = None" "ss_video st \<in> {None, Some (r_video R)}" "ss_audio st \<in> {None, r_audio R}"
    and sf: "seg_fits R s" and str: "sg_streams s = [] \<or> sg_streams s = [(?url, st)]"
    using assms(1) by (simp_all add: ready_def st_def Let_def)
  have c: "set_codec p (st, s) = (st', s)" using assms(2) by (simp add: set_codec_def st'_def fits_def)
  have same: "st' = st" if "\<not> new_codec p st"
  proof -
    have "if mk_video p then ss_video st = Some (r_video R) else ss_audio st = r_audio R"
      using that st(3,4) by (auto simp: new_codec_def)
    then show ?thesis by (cases "mk_video p") (simp_all add: st'_def)
  qed
  have act: "ss_active st' = None" using st(2) by (simp add: st'_def)
  have up: "update_codec tk p (st, s) = ((st', s), [], Ok)"
  proof (cases "new_codec p st")
    case True
    then show ?thesis using act
      by (simp add: update_codec_def seg_when_def seg_then_def seg_update_def c seg_on_error_def closeSegment_def seg_done_def)
  next
    case False
    then show ?thesis using same by (simp add: update_codec_def seg_when_def seg_done_def)
  qed
  have "packet_work tk ?url p (st, s) = ((st', ?s), [], Ok)"
    using assms(3) act sf by (simp add: packet_work_def seg_then_def up dispatch_def handleAlwaysMode_def seg_when_def seg_done_def
        active_def seg_update_def seg_release_def seg_fits_def)
  then have step: "Step tk ks (InPacket (Some p)) s = (put_stream ?url (st', ?s), Ok)"
    using assms(2) sf ready_source [OF assms(1)] by (simp add: Step_def step_packet_def seg_fits_def fits_def st_def)
  have streams: "sg_streams (put_stream ?url (st', ?s)) = [(?url, st')]" using str by (auto simp: put_stream_def)
  then have sf': "stream_for ?url (put_stream ?url (st', ?s)) = st'" by (simp add: stream_for_def)
  have "seg_fits R (put_stream ?url (st', ?s))"
    using sf by (simp add: seg_fits_def put_stream_def getSourceIndex_def no_faults_def)
  with streams sf' act st have "ready R (put_stream ?url (st', ?s))" by (simp add: ready_def Let_def) (simp add: st'_def)
  then show ?thesis using sf' by (intro that [OF step]) (simp_all add: put_stream_def st_def [symmetric] st'_def)
qed

lemma ready_run:
  assumes "recording_ok R" "ready R s" "\<forall>p\<in>set (packets_in ts). fits R p" "audio_known R s (packets_in ts)"
  shows "\<exists>s' rs cs cur' ds. run_steps (packet_steps ts) s = (s', rs) \<and> set rs \<subseteq> {Ok} \<and> alive R cur' s' \<and>
    sg_disk s' = sg_disk s @ map fst ds \<and> sg_sent s' = sg_sent s @ map snd ds \<and> list_all2 (recorded R) cs ds \<and>
    cut_at (c_targetDuration (r_config R)) None (packets_in ts) = cs @ cut_at (c_targetDuration (r_config R)) cur' []"
  using assms(2-)
proof (induction ts arbitrary: s)
  case Nil
  then have "alive R None s" by (intro ready_alive) (simp_all add: audio_known_def)
  with alive_run [OF assms(1) this, of "[]"] show ?case by simp
next
  case (Cons x ts)
  show ?case
  proof (cases "ss_audio (stream_for (r_url R) s) = r_audio R")
    case True
    with alive_run [OF assms(1) ready_alive [OF Cons.prems(1)] Cons.prems(2)] show ?thesis by blast
  next
    case False
    obtain tk ks p where x: "x = (tk, ks, p)" by (metis prod_cases3)
    have fp: "fits R p" "\<forall>p\<in>set (packets_in ts). fits R p" and np: "\<not> key_frame p"
      using Cons.prems(2,3) False by (auto simp: x audio_known_def split: if_splits)
    obtain s1 where 1: "Step tk ks (InPacket (Some p)) s = (s1, Ok)" "ready R s1" "sg_disk s1 = sg_disk s" "sg_sent s1 = sg_sent s"
      "ss_audio (stream_for (r_url R) s1) = (if mk_video p then ss_audio (stream_for (r_url R) s) else r_audio R)"
      by (rule ready_step [OF Cons.prems(1) fp(1) np])
    have "audio_known R s1 (packets_in ts)" using Cons.prems(3) False np 1(5) by (auto simp: x audio_known_def)
    from Cons.IH [OF 1(2) fp(2) this] obtain s' rs cs cur' es where 2: "run_steps (packet_steps ts) s1 = (s', rs)" "set rs \<subseteq> {Ok}"
      "alive R cur' s'" "sg_disk s' = sg_disk s1 @ map fst es" "sg_sent s' = sg_sent s1 @ map snd es" "list_all2 (recorded R) cs es"
      "cut_at (c_targetDuration (r_config R)) None (packets_in ts) = cs @ cut_at (c_targetDuration (r_config R)) cur' []"
      by blast
    have "run_steps (packet_steps (x # ts)) s = (s', Ok # rs)" using 1(1) 2(1) by (simp add: packet_steps_def x)
    then show ?thesis using 1 2 np
      by (intro exI [of _ s'] exI [of _ "Ok # rs"] exI [of _ cs] exI [of _ cur'] exI [of _ es]) (simp add: x)
  qed
qed

section \<open>The end\<close>

lemma alive_release:
  assumes "recording_ok R" "alive R cur s"
  obtains s' ds where "Segmenter_Release tk ks queue s = (s', Ok)"
    "list_all2 (recorded R) (cut_at (c_targetDuration (r_config R)) cur []) ds"
    "sg_disk s' = sg_disk s @ map fst ds" "sg_sent s' = sg_sent s @ map snd ds"
proof -
  let ?url = "r_url R" and ?st = "stream_for (r_url R) s"
  have a: "holds R cur ?st" "stream_fits R ?st" "seg_fits R s" "sg_streams s = [] \<or> sg_streams s = [(?url, ?st)]"
    using assms(2) by (simp_all add: alive_def)
  have rec: "sg_disk (sendRecordStatus b x) = sg_disk x \<and> sg_sent (sendRecordStatus b x) = sg_sent x" for b x
    by (simp add: sendRecordStatus_def split: prod.split)
  have fin: "\<exists>s'. Segmenter_Release tk ks queue s = (s', Ok) \<and> sg_disk s' = sg_disk s1 \<and> sg_sent s' = sg_sent s1 @ is"
    if "release_streams tk (range_order ks s) s = (s1, is, Ok)" "sg_infoTaken s1 = []" for s1 "is"
    using that a(3) rec by (auto simp: Segmenter_Release_def seg_fits_def send_all Let_def)
  show ?thesis
  proof (cases "sg_streams s = []")
    case True
    then have "?st = new_stream_state (sg_config s) ?url" by (simp add: stream_for_def)
    with a(1) have "cur = None" by (auto simp: holds_def new_stream_state_def split: option.splits)
    moreover have "release_streams tk (range_order ks s) s = (s, [], Ok)" using True by (simp add: range_order_def)
    ultimately show ?thesis using fin [of s "[]"] a(3) that [of _ "[]"] by (auto simp: seg_fits_def no_faults_def)
  next
    case False
    then have str: "sg_streams s = [(?url, ?st)]" using a(4) by simp
    have order: "range_order ks s = [?url]"
    proof -
      have "ks = [?url]" if "distinct ks" "set ks = {?url}" using that by (cases ks; cases "tl ks"; auto)
      then show ?thesis by (auto simp: range_order_def str)
    qed
    obtain st1 s1 ds where c: "closeSegment tk 0 (?st, s) = ((st1, s1), map snd ds, Ok)"
      "list_all2 (recorded R) (cut_at (c_targetDuration (r_config R)) cur []) ds" "sg_disk s1 = sg_disk s @ map fst ds"
      "sg_sent s1 = sg_sent s" "sg_infoTaken s1 = []"
    proof (cases cur)
      case None
      then have "closeSegment tk 0 (?st, s) = ((?st, s), [], Ok)" using a(1) by (simp add: holds_def closeSegment_def seg_done_def)
      then show ?thesis using None a(3) by (intro that [of _ _ "[]"]) (auto simp: seg_fits_def no_faults_def)
    next
      case (Some c)
      then obtain af where h: "c \<noteq> []" "\<forall>p\<in>set c. fits R p" "ss_video ?st = Some (r_video R)" "ss_active ?st = Some af" "file_holds R c af"
        using a(1) by (auto simp: holds_def)
      have "ss_source ?st = r_url R" "sg_stats s = []" using a(2,3) by (simp_all add: stream_fits_def seg_fits_def no_faults_def)
      then obtain d i ids where "recorded R c (d, i)" "closeSegment tk 0 (?st, s) =
          ((?st\<lparr>ss_active := None\<rparr>, s\<lparr>sg_released := ids, sg_disk := sg_disk s @ [d]\<rparr>), [i], Ok)"
        using close_holds [OF h(5,1) assms(1) h(2,4) _ h(3)] by blast
      then show ?thesis using Some a(3)
        by (intro that [of "?st\<lparr>ss_active := None\<rparr>" "s\<lparr>sg_released := ids, sg_disk := sg_disk s @ [d]\<rparr>" "[(d, i)]"])
          (auto simp: seg_fits_def no_faults_def)
    qed
    obtain st2 s2 where o: "on_ring ring_clear (st1, s1) = (st2, s2)" by force
    then have s2: "sg_disk s2 = sg_disk s1" "sg_sent s2 = sg_sent s1" "sg_infoTaken s2 = sg_infoTaken s1"
      by (auto simp: on_ring_def ring_clear_def seg_release_def)
    have "release_streams tk (range_order ks s) s = (put_stream ?url (st2, s2), map snd ds, Ok)"
      by (simp add: order str c(1) o)
    from fin [OF this] c s2 show ?thesis using that by (auto simp: put_stream_def)
  qed
qed

text \<open>C13: in mode \<open>Always\<close>, as long as nothing fails, the packets of a source from its first key frame
  on go, in order and without a gap, into a sequence of files, each of which begins with a key frame and, but
  for the last, lasts for the target duration at least; each file is what the MP4 muxer makes of its packets,
  whenever it was flushed, and its file information says where it is, when it starts and ends, and how long it is.
  The source may be fresh, but its codecs do not change, and the audio codec, where there is audio, has to be known
  when the first key frame comes, from an earlier packet or from the state: an audio packet with new parameters closes
  the open file, and discards it when it is shorter than a second.  It is the only source, no input but packets
  arrives, and neither the disk nor the muxer nor the consumer of the file information fails.\<close>

theorem always_mode_files:
  assumes "recording_ok R" "ready R s" "\<forall>p\<in>set (packets_in ts). fits R p" "audio_known R s (packets_in ts)"
    and "run_steps (packet_steps ts) s = (s1, rs)" "Segmenter_Release tk ks queue s1 = (s2, r)"
  shows "set rs \<subseteq> {Ok} \<and> r = Ok \<and> (\<exists>cs ds. concat cs = dropWhile (\<lambda>p. \<not> key_frame p) (packets_in ts) \<and>
    (\<forall>c\<in>set cs. c \<noteq> [] \<and> key_frame (hd c)) \<and> (\<forall>c\<in>set (butlast cs). c_targetDuration (r_config R) \<le> total_video c) \<and>
    list_all2 (recorded R) cs ds \<and> sg_disk s2 = sg_disk s @ map fst ds \<and> sg_sent s2 = sg_sent s @ map snd ds)"
proof -
  let ?cut = "cut_at (c_targetDuration (r_config R))"
  from ready_run [OF assms(1-4)] assms(5) obtain cs cur ds where 1: "set rs \<subseteq> {Ok}" "alive R cur s1"
    "sg_disk s1 = sg_disk s @ map fst ds" "sg_sent s1 = sg_sent s @ map snd ds" "list_all2 (recorded R) cs ds"
    "?cut None (packets_in ts) = cs @ ?cut cur []" by auto
  obtain s' es where 2: "Segmenter_Release tk ks queue s1 = (s', Ok)" "list_all2 (recorded R) (?cut cur []) es"
    "sg_disk s' = sg_disk s1 @ map fst es" "sg_sent s' = sg_sent s1 @ map snd es"
    by (rule alive_release [OF assms(1) 1(2)])
  have "list_all2 (recorded R) (?cut None (packets_in ts)) (ds @ es)" unfolding 1(6) by (rule list_all2_appendI [OF 1(5) 2(2)])
  moreover have "s2 = s'" "r = Ok" using assms(6) 2(1) by simp_all
  moreover have "concat (?cut None (packets_in ts)) = dropWhile (\<lambda>p. \<not> key_frame p) (packets_in ts)" by (simp add: concat_cut)
  moreover have "\<forall>c\<in>set (?cut None (packets_in ts)). c \<noteq> [] \<and> key_frame (hd c)" by (rule cut_keys) simp
  ultimately show ?thesis using 1 2 cut_long [of _ None "packets_in ts"]
    by (intro conjI exI [of _ "?cut None (packets_in ts)"] exI [of _ "ds @ es"]) simp_all
qed

section \<open>An instance\<close>

definition example_recording :: recording where
  "example_recording = \<lparr>r_video = (0, example_video_par), r_audio = None, r_config = New_config id 10 Always example_options,
     r_index = 0, r_url = ''camera''\<rparr>"

definition example_segmenter :: segmenter where
  "example_segmenter = addSource ''camera'' (New id 10 Always example_options 0)"

theorem always_mode_files_witness:
  "\<exists>s1 rs s2 cs ds. run_steps (packet_steps [(no_ticks, [], ring_example 0 False), (no_ticks, [], ring_example 1 True),
      (no_ticks, [], ring_example 2 True)]) example_segmenter = (s1, rs) \<and>
    Segmenter_Release no_ticks [] [] s1 = (s2, Ok) \<and> concat cs = [ring_example 1 True, ring_example 2 True] \<and>
    list_all2 (recorded example_recording) cs ds \<and> sg_disk s2 = map fst ds"
proof -
  let ?ts = "[(no_ticks, [], ring_example 0 False), (no_ticks, [], ring_example 1 True), (no_ticks, [], ring_example 2 True)]"
  obtain s1 rs where 1: "run_steps (packet_steps ?ts) example_segmenter = (s1, rs)" by force
  obtain s2 r where 2: "Segmenter_Release no_ticks [] [] s1 = (s2, r)" by force
  have ok: "recording_ok example_recording"
    by (simp add: recording_ok_def example_recording_def codecs_ok_def mp4_supported_def example_video_par_def)
  have al: "ready example_recording example_segmenter" "audio_known example_recording example_segmenter (packets_in ?ts)"
    by (simp_all add: ready_def audio_known_def Let_def seg_fits_def example_segmenter_def example_recording_def addSource_def hasSource_def New_def
        getSourceIndex_def no_faults_def stream_for_def holds_def stream_fits_def new_stream_state_def)
  have fi: "\<forall>p\<in>set (packets_in ?ts). fits example_recording p"
    by (simp add: fits_def ring_example_fields example_recording_def stream_count_def)
      (simp add: ring_example_def media_packet.extend_def example_packet_def packet_codec_def)
  have dw: "dropWhile (\<lambda>p. \<not> key_frame p) (packets_in ?ts) = [ring_example 1 True, ring_example 2 True]"
    by (simp add: key_frame_def ring_example_fields)
  have dk: "sg_disk example_segmenter = []" by (simp add: example_segmenter_def addSource_def New_def)
  from always_mode_files [OF ok al(1) fi al(2) 1 2] have "r = Ok" and "\<exists>cs ds. concat cs = [ring_example 1 True, ring_example 2 True] \<and>
      list_all2 (recorded example_recording) cs ds \<and> sg_disk s2 = map fst ds"
    unfolding dw dk by auto
  with 1 2 show ?thesis by blast
qed

end
