(* ===== verification/Mp4Demux.thy ===== *)
theory Mp4Demux
  imports Mp4Mux
begin

text \<open>
  \<open>format/mp4/demuxer.go\<close> and the reading half of \<open>stream.go\<close>.  The demuxer reads the sample tables
  of a file once and then delivers its samples, each time from the stream whose next sample is the
  earliest.

  The files there are, by name, are an argument of \<open>Demux\<close>.  Of a packet, the wall-clock time at which it
  was made and the source it names, the demuxer's \<open>url\<close>, are left out.  An error of the file is a value
  of \<open>err\<close>; a parse error of an atom keeps no path.
\<close>

section \<open>The file\<close>

datatype dx_file = NoFile | OpenFile bytes nat | ClosedFile

definition io_error :: "io_err \<Rightarrow> err" where
  "io_error e = (case e of IoEOF \<Rightarrow> EOF | IoUnexpectedEOF \<Rightarrow> UnexpectedEOF | IoNegative \<Rightarrow> Error ''negative position''
     | IoAtom _ \<Rightarrow> Error ''mp4io: parse error'' | IoPanic \<Rightarrow> Panic)"

definition readat :: "dx_file \<Rightarrow> int \<Rightarrow> nat \<Rightarrow> bytes res" where
  "readat f pos n = (case f of NoFile \<Rightarrow> Inl (Error ''invalid argument'') | ClosedFile \<Rightarrow> Inl (Error ''file already closed'')
     | OpenFile b _ \<Rightarrow> if pos < 0 then Inl (io_error IoNegative)
         else (case read_full_at b (nat pos) n of Inl e \<Rightarrow> Inl (io_error e) | Inr x \<Rightarrow> Inr x))"

section \<open>Streams\<close>

record dx_pkt =
  dp_stream :: byte
  dp_key :: bool
  dp_ts :: int
  dp_dur :: int
  dp_data :: bytes
  dp_par :: media_codec

record demux_stream =
  dx_codec :: media_codec
  dx_index :: nat
  dx_timeScale :: int
  dx_sample :: SampleTable
  dx_sampleIndex :: nat
  dx_sampleOffsetInChunk :: int
  dx_syncSampleIndex :: nat
  dx_dts :: int
  dx_sttsEntryIndex :: nat
  dx_sampleIndexInSttsEntry :: nat
  dx_cttsEntryIndex :: nat
  dx_sampleIndexInCttsEntry :: nat
  dx_chunkGroupIndex :: nat
  dx_chunkIndex :: nat
  dx_sampleIndexInChunk :: nat
  dx_h265SlicedPacket :: "dx_pkt option"
  dx_h265BufferHasKey :: bool

definition new_demux_stream :: "nat \<Rightarrow> int \<Rightarrow> SampleTable \<Rightarrow> media_codec \<Rightarrow> demux_stream" where
  "new_demux_stream i scale t codec = \<lparr>dx_codec = codec, dx_index = i, dx_timeScale = scale, dx_sample = t,
     dx_sampleIndex = 0, dx_sampleOffsetInChunk = 0, dx_syncSampleIndex = 0, dx_dts = 0, dx_sttsEntryIndex = 0,
     dx_sampleIndexInSttsEntry = 0, dx_cttsEntryIndex = 0, dx_sampleIndexInCttsEntry = 0, dx_chunkGroupIndex = 0,
     dx_chunkIndex = 0, dx_sampleIndexInChunk = 0, dx_h265SlicedPacket = None, dx_h265BufferHasKey = False\<rparr>"

text \<open>A nil pointer and an index out of range panic.\<close>

definition deref :: "'a option \<Rightarrow> 'a res" where
  "deref x = (case x of None \<Rightarrow> Inl Panic | Some a \<Rightarrow> Inr a)"

definition elem_at :: "'a list \<Rightarrow> nat \<Rightarrow> 'a res" where
  "elem_at xs i = (if i < length xs then Inr (xs ! i) else Inl Panic)"

definition dx_tsToTime :: "demux_stream \<Rightarrow> int \<Rightarrow> int res" where
  "dx_tsToTime s ts = (if dx_timeScale s = 0 then Inl Panic else Inr (quot (wrap64 (ts * second)) (dx_timeScale s)))"

definition h265MinNALUSize :: nat where "h265MinNALUSize = 3"

definition isH265Slice :: "bytes \<Rightarrow> bool" where
  "isH265Slice nal \<longleftrightarrow> \<not> length nal < h265MinNALUSize \<and> 1 \<le> h265_nal_type (nal ! 0) \<and> h265_nal_type (nal ! 0) \<le> 31"

definition isH265FirstSliceInPicture :: "bytes \<Rightarrow> bool" where
  "isH265FirstSliceInPicture nal \<longleftrightarrow>
     (if length nal < h265MinNALUSize \<or> \<not> isH265Slice nal then False else drop_bit 7 (nal ! 2) AND 1 = 1)"

text \<open>The tests of \<open>isSampleValid\<close>, in order; a test that fails ends it.\<close>

definition offsets_left :: "demux_stream \<Rightarrow> bool" where
  "offsets_left s = (case stbl_CompositionOffset (dx_sample s) of None \<Rightarrow> True
     | Some ct \<Rightarrow> if 0 < length (ctts_Entries ct) then dx_cttsEntryIndex s < length (ctts_Entries ct) else True)"

definition sync_left :: "demux_stream \<Rightarrow> bool" where
  "sync_left s = (case stbl_SyncSample (dx_sample s) of None \<Rightarrow> True
     | Some ss \<Rightarrow> dx_syncSampleIndex s < length (stss_Entries ss))"

definition and_then :: "bool res \<Rightarrow> bool res \<Rightarrow> bool res" where
  "and_then a b = ebind a (\<lambda>v. if v then b else Inr False)"

definition isSampleValid :: "demux_stream \<Rightarrow> bool res" where
  "isSampleValid s = (let t = dx_sample s in
     and_then (ebind (deref (stbl_ChunkOffset t)) (\<lambda>co. Inr (dx_chunkIndex s < length (stco_Entries co))))
    (and_then (ebind (deref (stbl_SampleToChunk t)) (\<lambda>sc. Inr (dx_chunkGroupIndex s < length (stsc_Entries sc))))
    (and_then (ebind (deref (stbl_TimeToSample t)) (\<lambda>tt. Inr (dx_sttsEntryIndex s < length (stts_Entries tt))))
    (and_then (Inr (offsets_left s))
    (and_then (Inr (sync_left s))
    (ebind (deref (stbl_SampleSize t)) (\<lambda>sz.
       Inr (stsz_SampleSize sz = 0 \<longrightarrow> dx_sampleIndex s < length (stsz_Entries sz)))))))))"

text \<open>The size of the current sample, from the table or the same for all.\<close>

definition sample_size :: "demux_stream \<Rightarrow> 32 word res" where
  "sample_size s = ebind (deref (stbl_SampleSize (dx_sample s))) (\<lambda>sz.
     if stsz_SampleSize sz \<noteq> 0 then Inr (stsz_SampleSize sz) else elem_at (stsz_Entries sz) (dx_sampleIndex s))"

text \<open>\<open>incSampleIndex\<close>, part by part: the place in the chunks, the times, the offsets, the sync samples.\<close>

definition step_in_chunk :: "SampleToChunk \<Rightarrow> demux_stream \<Rightarrow> demux_stream res" where
  "step_in_chunk sc s = (let s = s\<lparr>dx_sampleIndexInChunk := dx_sampleIndexInChunk s + 1\<rparr> in
     ebind (elem_at (stsc_Entries sc) (dx_chunkGroupIndex s)) (\<lambda>e.
     if word_of_nat (dx_sampleIndexInChunk s) = stsc_SamplesPerChunk e
     then Inr (s\<lparr>dx_chunkIndex := dx_chunkIndex s + 1, dx_sampleIndexInChunk := 0, dx_sampleOffsetInChunk := 0\<rparr>)
     else ebind (sample_size s) (\<lambda>n. Inr (s\<lparr>dx_sampleOffsetInChunk := wrap64 (dx_sampleOffsetInChunk s + uint n)\<rparr>))))"

definition next_group :: "SampleToChunk \<Rightarrow> demux_stream \<Rightarrow> demux_stream" where
  "next_group sc s = (if dx_chunkGroupIndex s + 1 < length (stsc_Entries sc) \<and>
       word_of_nat (dx_chunkIndex s + 1) = stsc_FirstChunk (stsc_Entries sc ! (dx_chunkGroupIndex s + 1))
     then s\<lparr>dx_chunkGroupIndex := dx_chunkGroupIndex s + 1\<rparr> else s)"

definition next_in_chunk :: "demux_stream \<Rightarrow> demux_stream res" where
  "next_in_chunk s = ebind (deref (stbl_SampleToChunk (dx_sample s))) (\<lambda>sc.
     ebind (step_in_chunk sc s) (\<lambda>s. Inr (next_group sc s)))"

definition next_time :: "demux_stream \<Rightarrow> (int \<times> demux_stream) res" where
  "next_time s = ebind (deref (stbl_TimeToSample (dx_sample s))) (\<lambda>tt.
     ebind (elem_at (stts_Entries tt) (dx_sttsEntryIndex s)) (\<lambda>e.
     let s = s\<lparr>dx_sampleIndexInSttsEntry := dx_sampleIndexInSttsEntry s + 1, dx_dts := wrap64 (dx_dts s + uint (stts_Duration e))\<rparr> in
     Inr (uint (stts_Duration e), if word_of_nat (dx_sampleIndexInSttsEntry s) = stts_Count e
        then s\<lparr>dx_sampleIndexInSttsEntry := 0, dx_sttsEntryIndex := dx_sttsEntryIndex s + 1\<rparr> else s)))"

definition next_offset :: "demux_stream \<Rightarrow> demux_stream res" where
  "next_offset s = (case stbl_CompositionOffset (dx_sample s) of None \<Rightarrow> Inr s | Some ct \<Rightarrow>
     if 0 < length (ctts_Entries ct)
     then let s = s\<lparr>dx_sampleIndexInCttsEntry := dx_sampleIndexInCttsEntry s + 1\<rparr> in
       ebind (elem_at (ctts_Entries ct) (dx_cttsEntryIndex s)) (\<lambda>e. Inr (if word_of_nat (dx_sampleIndexInCttsEntry s) = ctts_Count e
         then s\<lparr>dx_sampleIndexInCttsEntry := 0, dx_cttsEntryIndex := dx_cttsEntryIndex s + 1\<rparr> else s))
     else Inr s)"

definition next_sync :: "demux_stream \<Rightarrow> demux_stream" where
  "next_sync s = (case stbl_SyncSample (dx_sample s) of None \<Rightarrow> s | Some ss \<Rightarrow>
     if dx_syncSampleIndex s + 1 < length (stss_Entries ss) \<and>
        word_of_nat (dx_sampleIndex s + 1) = stss_Entries ss ! (dx_syncSampleIndex s + 1) - 1
     then s\<lparr>dx_syncSampleIndex := dx_syncSampleIndex s + 1\<rparr> else s)"

definition incSampleIndex :: "demux_stream \<Rightarrow> (int \<times> demux_stream) res" where
  "incSampleIndex s = ebind (next_in_chunk s) (\<lambda>s. ebind (next_time s) (\<lambda>(dur, s). ebind (next_offset s) (\<lambda>s.
     let s = next_sync s in Inr (dur, s\<lparr>dx_sampleIndex := dx_sampleIndex s + 1\<rparr>))))"

section \<open>Packets\<close>

definition dx_packet :: "demux_stream \<Rightarrow> bool \<Rightarrow> int \<Rightarrow> int \<Rightarrow> bytes \<Rightarrow> dx_pkt" where
  "dx_packet s key tm dur data = \<lparr>dp_stream = word_of_nat (dx_index s), dp_key = key, dp_ts = tm, dp_dur = dur,
     dp_data = data, dp_par = dx_codec s\<rparr>"

definition is_key_sample :: "demux_stream \<Rightarrow> bool res" where
  "is_key_sample s = (case stbl_SyncSample (dx_sample s) of None \<Rightarrow> Inr False | Some ss \<Rightarrow>
     ebind (elem_at (stss_Entries ss) (dx_syncSampleIndex s)) (\<lambda>e. Inr (word_of_nat (dx_sampleIndex s) = e - 1)))"

text \<open>H.264: each slice replaces the packet made before; the others are dropped.\<close>

fun h264_sample :: "(bytes \<Rightarrow> dx_pkt) \<Rightarrow> bytes list \<Rightarrow> dx_pkt option \<Rightarrow> dx_pkt option res" where
  "h264_sample mk [] pkt = Inr pkt"
| "h264_sample mk (nal # nalus) pkt = ebind (elem_at nal 0) (\<lambda>b. let t = b AND 0x1f in
     h264_sample mk nalus (if 1 \<le> t \<and> t \<le> 5 then Some (mk (avcc_frame nal)) else pkt))"

definition attaches :: "byte \<Rightarrow> bool" where
  "attaches t \<longleftrightarrow> t = 32 \<or> t = 33 \<or> t = 34 \<or> t = 35 \<or> t = 39 \<or> t = 40"

definition h265_slice :: "(bool \<Rightarrow> bytes \<Rightarrow> dx_pkt) \<Rightarrow> bool \<Rightarrow> bytes \<Rightarrow>
    dx_pkt option \<times> dx_pkt option \<times> bool \<Rightarrow> dx_pkt option \<times> dx_pkt option \<times> bool" where
  "h265_slice mk key nal = (\<lambda>(pkt, sliced, hasKey).
     if isH265FirstSliceInPicture nal
     then (case sliced of Some p \<Rightarrow> Some p | None \<Rightarrow> pkt, Some (mk key (avcc_frame nal)), key)
     else case sliced of
         Some p \<Rightarrow> (pkt, Some (p\<lparr>dp_data := dp_data p @ avcc_frame nal, dp_key := dp_key p \<or> key\<rparr>), hasKey \<or> key)
       | None \<Rightarrow> (pkt, Some (mk key (avcc_frame nal)), key))"

text \<open>H.265: the state is the packet to return, the picture being collected and its flag.\<close>

definition dx_h265_unit :: "(bool \<Rightarrow> bytes \<Rightarrow> dx_pkt) \<Rightarrow> bool \<Rightarrow> bytes \<Rightarrow>
    dx_pkt option \<times> dx_pkt option \<times> bool \<Rightarrow> (dx_pkt option \<times> dx_pkt option \<times> bool) res" where
  "dx_h265_unit mk isKeyFrame nal = (\<lambda>(pkt, sliced, hasKey). ebind (elem_at nal 0) (\<lambda>b. let t = h265_nal_type b in
     Inr (if attaches t
       then (case sliced of
           Some p \<Rightarrow> (pkt, Some (p\<lparr>dp_data := dp_data p @ avcc_frame nal\<rparr>), hasKey)
         | None \<Rightarrow> (Some (mk False (avcc_frame nal)), sliced, hasKey))
       else if isH265Slice nal then h265_slice mk (isKeyFrame \<or> IsKey t) nal (pkt, sliced, hasKey)
       else (pkt, sliced, hasKey))))"

fun h265_units :: "(bool \<Rightarrow> bytes \<Rightarrow> dx_pkt) \<Rightarrow> bool \<Rightarrow> bytes list \<Rightarrow>
    dx_pkt option \<times> dx_pkt option \<times> bool \<Rightarrow> (dx_pkt option \<times> dx_pkt option \<times> bool) res" where
  "h265_units mk key [] st = Inr st"
| "h265_units mk key (nal # nalus) st = ebind (dx_h265_unit mk key nal st) (h265_units mk key nalus)"

definition h265_sample :: "(bool \<Rightarrow> bytes \<Rightarrow> dx_pkt) \<Rightarrow> bool \<Rightarrow> bytes list \<Rightarrow> demux_stream \<Rightarrow> (dx_pkt option \<times> demux_stream) res" where
  "h265_sample mk key nalus s = ebind (h265_units mk key nalus (None, dx_h265SlicedPacket s, dx_h265BufferHasKey s))
     (\<lambda>(pkt, sliced, hasKey). case (pkt, sliced) of
         (None, Some p) \<Rightarrow> Inr (Some p, s\<lparr>dx_h265SlicedPacket := None, dx_h265BufferHasKey := False\<rparr>)
       | _ \<Rightarrow> Inr (pkt, s\<lparr>dx_h265SlicedPacket := sliced, dx_h265BufferHasKey := hasKey\<rparr>))"

text \<open>A frame of 1024 samples; the rate, an unsigned number, becomes a \<open>time.Duration\<close>.\<close>

definition aac_frame_time :: "aac_params \<Rightarrow> int res" where
  "aac_frame_time p = (let r = wrap64 (SampleRate (ap_Config p)) in
     if r = 0 then Inl Panic else Inr (quot (1024 * second) r))"

definition sample_packet :: "int \<Rightarrow> bool \<Rightarrow> bytes \<Rightarrow> demux_stream \<Rightarrow> (dx_pkt option \<times> demux_stream) res" where
  "sample_packet tm key data s = (case dx_codec s of
       H264_par _ \<Rightarrow> ebind (SplitNALUs data) (\<lambda>(nalus, _).
         ebind (h264_sample (dx_packet s key tm 0) nalus None) (\<lambda>pkt. Inr (pkt, s)))
     | H265_par _ \<Rightarrow> ebind (SplitNALUs data) (\<lambda>(nalus, _). h265_sample (\<lambda>k. dx_packet s k tm 0) key nalus s)
     | AAC_par p \<Rightarrow> ebind (aac_frame_time p) (\<lambda>dur. Inr (Some (dx_packet s False tm dur data), s))
     | MJPEG_par _ \<Rightarrow> Inr (Some (dx_packet s key tm 0 data), s)
     | Other_par _ \<Rightarrow> Inr (None, s))"

definition read_sample :: "dx_file \<Rightarrow> demux_stream \<Rightarrow> bytes res" where
  "read_sample f s = ebind (deref (stbl_ChunkOffset (dx_sample s))) (\<lambda>co.
     ebind (elem_at (stco_Entries co) (dx_chunkIndex s)) (\<lambda>chunkOffset.
     ebind (sample_size s) (\<lambda>n. readat f (wrap64 (uint chunkOffset + dx_sampleOffsetInChunk s)) (unat n))))"

definition is_H265 :: "media_codec \<Rightarrow> bool" where
  "is_H265 c = (case c of H265_par _ \<Rightarrow> True | _ \<Rightarrow> False)"

text \<open>
  The loop of \<open>readPacket\<close>: the packet, nil where there is none, or an error, and the stream.  A
  picture under construction when the samples are over is returned first.
\<close>

definition one_sample :: "dx_file \<Rightarrow> int \<Rightarrow> demux_stream \<Rightarrow> (dx_pkt option \<times> demux_stream) res" where
  "one_sample f tm s = ebind (read_sample f s) (\<lambda>data. ebind (is_key_sample s) (\<lambda>key. ebind (sample_packet tm key data s)
     (\<lambda>(pkt, s'). ebind (incSampleIndex s') (\<lambda>(_, s'). Inr (pkt, s')))))"

partial_function (option) readPacket :: "dx_file \<Rightarrow> int \<Rightarrow> demux_stream \<Rightarrow> (dx_pkt option res \<times> demux_stream) option" where
  "readPacket f tm s = (case isSampleValid s of Inl e \<Rightarrow> Some (Inl e, s) | Inr valid \<Rightarrow>
     if dx_h265SlicedPacket s \<noteq> None \<and> \<not> valid
     then Some (Inr (dx_h265SlicedPacket s), s\<lparr>dx_h265SlicedPacket := None, dx_h265BufferHasKey := False\<rparr>)
     else if \<not> valid then Some (Inl EOF, s)
     else case one_sample f tm s of Inl e \<Rightarrow> Some (Inl e, s)
       | Inr r \<Rightarrow> if fst r = None \<and> is_H265 (dx_codec (snd r)) \<and> dx_h265SlicedPacket (snd r) \<noteq> None
           then readPacket f tm (snd r) else Some (Inr (fst r), snd r))"

section \<open>Demuxer\<close>

record demuxer =
  dm_url :: string
  dm_r :: dx_file
  dm_streams :: "demux_stream list"
  dm_movieAtom :: "Movie option"
  dm_videoCodecData :: "media_codec option"
  dm_audioCodecData :: "media_codec option"

definition NewDemuxer :: "string \<Rightarrow> demuxer" where
  "NewDemuxer url = \<lparr>dm_url = url, dm_r = NoFile, dm_streams = [], dm_movieAtom = None,
     dm_videoCodecData = None, dm_audioCodecData = None\<rparr>"

definition Demuxer_Close :: "demuxer \<Rightarrow> demuxer" where
  "Demuxer_Close d = d\<lparr>dm_r := (case dm_r d of NoFile \<Rightarrow> NoFile | _ \<Rightarrow> ClosedFile)\<rparr>"

definition VideoParameters :: "demuxer \<Rightarrow> media_codec option" where
  "VideoParameters d = dm_videoCodecData d"

definition AudioParameters :: "demuxer \<Rightarrow> media_codec option" where
  "AudioParameters d = dm_audioCodecData d"

text \<open>The last \<open>moov\<close> counts.\<close>

definition last_movie :: "top_atom list \<Rightarrow> Movie option" where
  "last_movie atoms = foldl (\<lambda>m a. case a of TopMovie x \<Rightarrow> Some x | _ \<Rightarrow> m) None atoms"

text \<open>A track without sample tables is an error; an empty \<open>stss\<close> counts as absent.\<close>

definition track_table :: "Track \<Rightarrow> SampleTable res" where
  "track_table t = (case Option.bind (Option.bind (trak_Media t) mdia_Info) minf_Sample of
       None \<Rightarrow> Inl (Error ''mp4: sample table not found'')
     | Some tab \<Rightarrow> Inr (case stbl_SyncSample tab of None \<Rightarrow> tab
         | Some ss \<Rightarrow> if length (stss_Entries ss) = 0 then tab\<lparr>stbl_SyncSample := None\<rparr> else tab))"

definition track_scale :: "Track \<Rightarrow> int res" where
  "track_scale t = ebind (deref (Option.bind (trak_Media t) mdia_Header)) (\<lambda>h. Inr (uint (mdhd_TimeScale h)))"

text \<open>The codec of a track: the first description there is.\<close>

definition track_codec :: "Track \<Rightarrow> media_codec option res" where
  "track_codec t = (case GetAVC1Conf t of
       Some c \<Rightarrow> ebind (NewCodecDataFromAVCDecoderConfRecord (avcc_Data c)) (\<lambda>p. Inr (Some (H264_par p)))
     | None \<Rightarrow> (case GetHV1Conf t of
       Some c \<Rightarrow> ebind (NewCodecDataFromHEVCDecoderConfRecord (hvcc_Data c)) (\<lambda>p. Inr (Some (H265_par p)))
     | None \<Rightarrow> (case GetMJPGDesc t of
       Some c \<Rightarrow> Inr (Some (MJPEG_par (mjpeg_NewCodecParameters (unat (scast (mjpg_Width c) :: 64 word)) (unat (scast (mjpg_Height c) :: 64 word)) 25)))
     | None \<Rightarrow> (case GetElemStreamDesc t of
       Some c \<Rightarrow> ebind (NewCodecDataFromMPEG4AudioConfigBytes (esds_DecConfig c)) (\<lambda>p. Inr (Some (AAC_par p)))
     | None \<Rightarrow> Inr None))))"

definition note_codec :: "media_codec \<Rightarrow> demuxer \<Rightarrow> demuxer" where
  "note_codec c d = (case c of AAC_par _ \<Rightarrow> d\<lparr>dm_audioCodecData := Some c\<rparr> | _ \<Rightarrow> d\<lparr>dm_videoCodecData := Some c\<rparr>)"

definition probe_track :: "nat \<Rightarrow> Track \<Rightarrow> demuxer \<Rightarrow> unit res \<times> demuxer" where
  "probe_track i t d = (case ebind (track_table t) (\<lambda>tab. ebind (track_scale t) (\<lambda>scale. ebind (track_codec t) (\<lambda>c.
         Inr (map_option (\<lambda>c. (c, new_demux_stream i scale tab c)) c)))) of
       Inl e \<Rightarrow> (Inl e, d)
     | Inr None \<Rightarrow> (Inr (), d)
     | Inr (Some (c, s)) \<Rightarrow> (Inr (), (note_codec c d)\<lparr>dm_streams := dm_streams d @ [s]\<rparr>))"

fun probe_tracks :: "nat \<Rightarrow> Track list \<Rightarrow> demuxer \<Rightarrow> unit res \<times> demuxer" where
  "probe_tracks i [] d = (Inr (), d)"
| "probe_tracks i (t # ts) d = (case probe_track i t d of (Inl e, d) \<Rightarrow> (Inl e, d) | (Inr _, d) \<Rightarrow> probe_tracks (i + 1) ts d)"

definition probe_atoms :: "top_atom list \<Rightarrow> demuxer \<Rightarrow> unit res \<times> demuxer" where
  "probe_atoms atoms d = (case last_movie atoms of None \<Rightarrow> (Inl (Error ''mp4: moov atom not found''), d)
     | Some moov \<Rightarrow> (case probe_tracks 0 (moov_Tracks moov) (d\<lparr>dm_streams := []\<rparr>) of
         (Inl e, d) \<Rightarrow> (Inl e, d) | (Inr _, d) \<Rightarrow> (Inr (), d\<lparr>dm_movieAtom := Some moov\<rparr>)))"

text \<open>The reading of the atoms may not end; \<open>None\<close> is that.\<close>

definition probe :: "demuxer \<Rightarrow> (unit res \<times> demuxer) option" where
  "probe d = (if dm_movieAtom d \<noteq> None then Some (Inr (), d)
     else case dm_r d of
       NoFile \<Rightarrow> Some (Inl (Error ''invalid argument''), d)
     | ClosedFile \<Rightarrow> Some (Inl (Error ''file already closed''), d)
     | OpenFile b pos \<Rightarrow> map_option (\<lambda>(e, atoms, pos'). case e of
           Some e \<Rightarrow> (Inl (io_error e), d\<lparr>dm_r := OpenFile b pos'\<rparr>)
         | None \<Rightarrow> probe_atoms atoms (d\<lparr>dm_r := OpenFile b 0\<rparr>)) (ReadFileAtoms b pos))"

definition Demux :: "(string \<Rightarrow> bytes option) \<Rightarrow> demuxer \<Rightarrow> ((media_codec option \<times> media_codec option) res \<times> demuxer) option" where
  "Demux fs d = (case fs (dm_url d) of
       None \<Rightarrow> Some (Inl (Error ''open''), d\<lparr>dm_r := NoFile\<rparr>)
     | Some b \<Rightarrow> map_option (\<lambda>(r, d). (ebind r (\<lambda>_. Inr (dm_videoCodecData d, dm_audioCodecData d)), d))
         (probe (d\<lparr>dm_r := OpenFile b 0\<rparr>)))"

text \<open>The streams, by index, that have a sample left.\<close>

fun valid_streams :: "demux_stream list \<Rightarrow> nat \<Rightarrow> nat list res" where
  "valid_streams [] i = Inr []"
| "valid_streams (s # ss) i = ebind (isSampleValid s) (\<lambda>v. ebind (valid_streams ss (i + 1)) (\<lambda>js.
     Inr (if v then i # js else js)))"

text \<open>The first of those whose next sample is the earliest.\<close>

fun choose_stream :: "demux_stream list \<Rightarrow> nat list \<Rightarrow> nat option \<Rightarrow> nat option res" where
  "choose_stream ss [] chosen = Inr chosen"
| "choose_stream ss (i # js) chosen = (case chosen of None \<Rightarrow> choose_stream ss js (Some i)
     | Some c \<Rightarrow> ebind (dx_tsToTime (ss ! i) (dx_dts (ss ! i))) (\<lambda>a. ebind (dx_tsToTime (ss ! c) (dx_dts (ss ! c))) (\<lambda>b.
         choose_stream ss js (Some (if a < b then i else c)))))"

definition next_stream :: "demux_stream list \<Rightarrow> (nat \<times> int) res" where
  "next_stream ss = (if ss = [] then Inl (Error ''mp4: no streams available while trying to read a packet'')
     else ebind (valid_streams ss 0) (\<lambda>js. if js = [] then Inl EOF
     else ebind (choose_stream ss js None) (\<lambda>c. ebind (deref c) (\<lambda>c.
       ebind (dx_tsToTime (ss ! c) (dx_dts (ss ! c))) (\<lambda>tm. Inr (c, tm))))))"

definition ReadPacket :: "demuxer \<Rightarrow> (dx_pkt option res \<times> demuxer) option" where
  "ReadPacket d = Option.bind (probe d) (\<lambda>(r, d). case r of Inl e \<Rightarrow> Some (Inl e, d)
     | Inr _ \<Rightarrow> (case next_stream (dm_streams d) of Inl e \<Rightarrow> Some (Inl e, d)
       | Inr (c, tm) \<Rightarrow> map_option (\<lambda>(r, s). (r, d\<lparr>dm_streams := (dm_streams d)[c := s]\<rparr>))
           (readPacket (dm_r d) tm (dm_streams d ! c))))"

end
