(* ===== verification/Mp4Read.thy ===== *)
theory Mp4Read
  imports Mp4Demux Mp4MuxTables
begin

text \<open>
  What the demuxer reads.  A cursor in a run-length table moves one sample at a time; over tables with
  one sample to a chunk, as the muxer writes them, the \<open>k\<close>-th packet of a stream is its \<open>k\<close>-th sample.
  Together with the tables of the muxer this gives back what was written.
\<close>

section \<open>Run-length tables\<close>

text \<open>The cursor \<open>(i, j)\<close>, in the entry \<open>i\<close> behind \<open>j\<close> of its samples, stands at the sample \<open>k\<close>.\<close>

definition run_at :: "nat list \<Rightarrow> nat \<Rightarrow> nat \<Rightarrow> nat \<Rightarrow> bool" where
  "run_at cs i j k \<longleftrightarrow> i \<le> length cs \<and> k = sum_list (take i cs) + j \<and> (if i < length cs then j < cs ! i else j = 0)"

lemma run_at_0: "\<forall>c\<in>set cs. 0 < c \<Longrightarrow> run_at cs 0 0 0"
  by (simp add: run_at_def)

lemma run_at_left:
  assumes "run_at cs i j k" shows "i < length cs \<longleftrightarrow> k < sum_list cs"
proof
  assume i: "i < length cs"
  have "sum_list cs = sum_list (take i cs) + sum_list (drop i cs)"
    by (metis append_take_drop_id sum_list_append)
  moreover have "drop i cs = cs ! i # drop (Suc i) cs" using i by (simp add: Cons_nth_drop_Suc)
  ultimately have "sum_list cs = sum_list (take i cs) + cs ! i + sum_list (drop (Suc i) cs)" by simp
  then show "k < sum_list cs" using assms i by (simp add: run_at_def)
next
  assume "k < sum_list cs"
  then show "i < length cs" using assms by (auto simp: run_at_def split: if_splits)
qed

lemma run_at_step:
  assumes "run_at cs i j k" "k < sum_list cs" "\<forall>c\<in>set cs. 0 < c"
  shows "if Suc j = cs ! i then run_at cs (Suc i) 0 (Suc k) else run_at cs i (Suc j) (Suc k)"
  using assms run_at_left [OF assms(1)]
  by (auto simp: run_at_def take_Suc_conv_app_nth)

lemma run_at_value:
  assumes "run_at (map cnt es) i j k" "k < sum_list (map cnt es)"
  shows "concat (map (\<lambda>e. replicate (cnt e) (val e)) es) ! k = val (es ! i)"
  using assms
proof (induction es arbitrary: i k)
  case (Cons e es)
  show ?case
  proof (cases i)
    case 0
    then show ?thesis using Cons.prems by (simp add: run_at_def nth_append)
  next
    case (Suc m)
    then have "run_at (map cnt es) m j (k - cnt e)" "cnt e \<le> k"
      using Cons.prems(1) by (auto simp: run_at_def split: if_splits)
    moreover from this Cons.prems(2) have "k - cnt e < sum_list (map cnt es)" by simp
    ultimately show ?thesis using Cons.IH Suc by (simp add: nth_append)
  qed
qed (simp add: run_at_def)

definition stts_counts :: "TimeToSampleEntry list \<Rightarrow> nat list" where
  "stts_counts es = map (\<lambda>e. unat (stts_Count e)) es"

definition ctts_counts :: "CompositionOffsetEntry list \<Rightarrow> nat list" where
  "ctts_counts es = map (\<lambda>e. unat (ctts_Count e)) es"

lemma stts_counts_sum: "length (stts_expand es) = sum_list (stts_counts es)"
  by (simp add: stts_expand_def stts_counts_def length_concat o_def)

lemma ctts_counts_sum: "length (ctts_expand es) = sum_list (ctts_counts es)"
  by (simp add: ctts_expand_def ctts_counts_def length_concat o_def)

lemma counted_pos:
  "stts_counted es \<Longrightarrow> \<forall>c\<in>set (stts_counts es). 0 < c"
  "ctts_counted cts \<Longrightarrow> \<forall>c\<in>set (ctts_counts cts). 0 < c"
  by (auto simp: stts_counted_def stts_counts_def ctts_counted_def ctts_counts_def)

lemma unat32: "n < 2 ^ 32 \<Longrightarrow> unat (word_of_nat n :: 32 word) = n"
  by (simp add: unsigned_of_nat take_bit_nat_eq_self)

lemma count_word: "j < unat (c :: 32 word) \<Longrightarrow> (word_of_nat (Suc j) = c) = (Suc j = unat c)"
proof -
  assume j: "j < unat c"
  moreover have "unat c < 2 ^ LENGTH(32)" by (rule unsigned_less)
  ultimately have "unat (word_of_nat (Suc j) :: 32 word) = Suc j" by (intro unat32) simp
  then show ?thesis by (simp only: word_unat_eq_iff)
qed

lemma word32_eq: "i < 2 ^ 32 \<Longrightarrow> j < 2 ^ 32 \<Longrightarrow> (word_of_nat i = (word_of_nat j :: 32 word)) = (i = j)"
  by (simp add: word_unat_eq_iff unsigned_of_nat take_bit_nat_eq_self)

section \<open>Tables with one sample to a chunk\<close>

text \<open>
  \<open>offs\<close>, \<open>szs\<close> and \<open>durs\<close> list the places, sizes and durations of the samples; \<open>ks\<close> are the key samples, and
  no table lists them where it is \<open>None\<close>.
\<close>

definition flat_table :: "SampleTable \<Rightarrow> nat list \<Rightarrow> nat list \<Rightarrow> 32 word list \<Rightarrow> nat list option \<Rightarrow> bool" where
  "flat_table t offs szs durs ks \<longleftrightarrow>
     length offs = length durs \<and> length szs = length durs \<and> length durs < 2 ^ 32 - 1 \<and>
     map_option stco_Entries (stbl_ChunkOffset t) = Some (map word_of_nat offs) \<and>
     map_option (\<lambda>z. (stsz_SampleSize z, stsz_Entries z)) (stbl_SampleSize t) = Some (0, map word_of_nat szs) \<and>
     map_option stsc_Entries (stbl_SampleToChunk t) =
       Some [\<lparr>stsc_FirstChunk = 1, stsc_SamplesPerChunk = 1, stsc_SampleDescId = 1\<rparr>] \<and>
     (\<exists>tt. stbl_TimeToSample t = Some tt \<and> stts_counted (stts_Entries tt) \<and> stts_expand (stts_Entries tt) = durs) \<and>
     (\<exists>ct. stbl_CompositionOffset t = Some ct \<and> ctts_counted (ctts_Entries ct) \<and>
       length (ctts_expand (ctts_Entries ct)) = length durs) \<and>
     map_option stss_Entries (stbl_SyncSample t) = map_option (map (\<lambda>k. word_of_nat (k + 1))) ks \<and>
     (case ks of None \<Rightarrow> True | Some ks \<Rightarrow> ks \<noteq> [] \<and> sorted_wrt (<) ks \<and> (\<forall>k\<in>set ks. k < length durs))"

text \<open>The key sample the cursor points to: the last one up to the current sample, or the first one.\<close>

definition sync_at :: "nat list \<Rightarrow> nat \<Rightarrow> nat \<Rightarrow> bool" where
  "sync_at ks i k \<longleftrightarrow> i < length ks \<and> (0 < i \<longrightarrow> ks ! i \<le> k) \<and> (Suc i < length ks \<longrightarrow> k < ks ! Suc i)"

lemma sync_at_mem:
  assumes "sync_at ks i k" "sorted_wrt (<) ks"
  shows "ks ! i = k \<longleftrightarrow> k \<in> set ks"
proof
  assume "k \<in> set ks"
  then obtain j where j: "j < length ks" "ks ! j = k" by (auto simp: in_set_conv_nth)
  have i: "i < length ks" using assms(1) by (simp add: sync_at_def)
  consider "j < i" | "j = i" | "i < j" by linarith
  then show "ks ! i = k"
  proof cases
    case 1
    then have "ks ! j < ks ! i" using assms(2) i by (simp add: sorted_wrt_iff_nth_less)
    then show ?thesis using assms(1) 1 j by (simp add: sync_at_def)
  next
    case 3
    then have "k < ks ! Suc i" using assms(1) j by (simp add: sync_at_def)
    moreover have "ks ! Suc i \<le> ks ! j"
      using assms(2) 3 j by (cases "Suc i = j") (auto simp: sorted_wrt_iff_nth_less intro: less_imp_le)
    ultimately show ?thesis using j by simp
  qed (use j in simp)
qed (use assms(1) in \<open>auto simp: sync_at_def\<close>)

lemma sync_at_0: "sorted_wrt (<) ks \<Longrightarrow> ks \<noteq> [] \<Longrightarrow> sync_at ks 0 0"
  by (auto simp: sync_at_def sorted_wrt_iff_nth_less Suc_lessD intro!: gr_implies_not_zero [THEN neq0_conv [THEN iffD1]])

lemma sync_at_step:
  assumes "sync_at ks i k" "sorted_wrt (<) ks"
  shows "sync_at ks (if Suc i < length ks \<and> Suc k = ks ! Suc i then Suc i else i) (Suc k)"
  using assms by (auto simp: sync_at_def sorted_wrt_iff_nth_less Suc_lessI)

definition keys_at :: "nat list option \<Rightarrow> nat \<Rightarrow> nat \<Rightarrow> bool" where
  "keys_at ks i k \<longleftrightarrow> (case ks of None \<Rightarrow> True | Some l \<Rightarrow> sync_at l i k)"

definition at_sample :: "demux_stream \<Rightarrow> nat list option \<Rightarrow> 32 word list \<Rightarrow> nat \<Rightarrow> bool" where
  "at_sample s ks durs k \<longleftrightarrow> dx_sampleIndex s = k \<and> dx_chunkIndex s = k \<and> dx_sampleIndexInChunk s = 0 \<and>
     dx_sampleOffsetInChunk s = 0 \<and> dx_chunkGroupIndex s = 0 \<and>
     dx_dts s = wrap64 (\<Sum>d\<leftarrow>take k durs. uint d) \<and>
     run_at (stts_counts (stts_Entries (the (stbl_TimeToSample (dx_sample s))))) (dx_sttsEntryIndex s) (dx_sampleIndexInSttsEntry s) k \<and>
     run_at (ctts_counts (ctts_Entries (the (stbl_CompositionOffset (dx_sample s))))) (dx_cttsEntryIndex s) (dx_sampleIndexInCttsEntry s) k \<and>
     keys_at ks (dx_syncSampleIndex s) k"

lemma wrap64_add [simp]: "wrap64 (wrap64 a + b) = wrap64 (a + b)"
  by (simp add: wrap64_def)

lemma wrap64_mult [simp]: "wrap64 (wrap64 a * b) = wrap64 (a * b)"
  by (simp add: wrap64_def)

text \<open>What reading a sample leaves alone.\<close>

definition same_track :: "demux_stream \<Rightarrow> demux_stream \<Rightarrow> bool" where
  "same_track s s' \<longleftrightarrow> dx_codec s' = dx_codec s \<and> dx_index s' = dx_index s \<and> dx_timeScale s' = dx_timeScale s \<and>
     dx_sample s' = dx_sample s \<and> dx_h265SlicedPacket s' = dx_h265SlicedPacket s \<and> dx_h265BufferHasKey s' = dx_h265BufferHasKey s"

lemma flat_tableE:
  assumes "flat_table t offs szs durs ks"
  obtains co sz sc tt ct where "length offs = length durs" "length szs = length durs" "length durs < 2 ^ 32 - 1"
    "stbl_ChunkOffset t = Some co" "stco_Entries co = map word_of_nat offs"
    "stbl_SampleSize t = Some sz" "stsz_SampleSize sz = 0" "stsz_Entries sz = map word_of_nat szs"
    "stbl_SampleToChunk t = Some sc" "stsc_Entries sc = [\<lparr>stsc_FirstChunk = 1, stsc_SamplesPerChunk = 1, stsc_SampleDescId = 1\<rparr>]"
    "stbl_TimeToSample t = Some tt" "stts_counted (stts_Entries tt)" "stts_expand (stts_Entries tt) = durs"
    "stbl_CompositionOffset t = Some ct" "ctts_counted (ctts_Entries ct)" "length (ctts_expand (ctts_Entries ct)) = length durs"
  using assms unfolding flat_table_def by (auto simp del: One_nat_def)

lemma flat_sync:
  assumes "flat_table t offs szs durs ks"
  obtains (None) "ks = None" "stbl_SyncSample t = None"
  | (Some) l ss where "ks = Some l" "stbl_SyncSample t = Some ss" "stss_Entries ss = map (\<lambda>k. word_of_nat (k + 1)) l"
      "l \<noteq> []" "sorted_wrt (<) l" "\<forall>k\<in>set l. k < length durs" "length durs < 2 ^ 32 - 1"
  using assms unfolding flat_table_def by (cases ks) auto

lemma valid_sample:
  assumes "flat_table (dx_sample s) offs szs durs ks" "at_sample s ks durs k"
  shows "isSampleValid s = Inr (k < length durs)"
proof -
  from assms(1) obtain co sz sc tt ct where f: "length offs = length durs" "length szs = length durs"
    "stbl_ChunkOffset (dx_sample s) = Some co" "stco_Entries co = map word_of_nat offs"
    "stbl_SampleSize (dx_sample s) = Some sz" "stsz_SampleSize sz = 0" "stsz_Entries sz = map word_of_nat szs"
    "stbl_SampleToChunk (dx_sample s) = Some sc" "length (stsc_Entries sc) = 1"
    "stbl_TimeToSample (dx_sample s) = Some tt" "stts_expand (stts_Entries tt) = durs"
    "stbl_CompositionOffset (dx_sample s) = Some ct" "length (ctts_expand (ctts_Entries ct)) = length durs"
    by (rule flat_tableE) simp_all
  have a: "dx_sampleIndex s = k" "dx_chunkIndex s = k" "dx_chunkGroupIndex s = 0"
    "run_at (stts_counts (stts_Entries tt)) (dx_sttsEntryIndex s) (dx_sampleIndexInSttsEntry s) k"
    "run_at (ctts_counts (ctts_Entries ct)) (dx_cttsEntryIndex s) (dx_sampleIndexInCttsEntry s) k"
    using assms(2) f by (simp_all add: at_sample_def)
  have t: "dx_sttsEntryIndex s < length (stts_Entries tt) \<longleftrightarrow> k < length durs"
    using run_at_left [OF a(4)] f(11) stts_counts_sum [of "stts_Entries tt"] by (simp add: stts_counts_def)
  have c: "dx_cttsEntryIndex s < length (ctts_Entries ct) \<longleftrightarrow> k < length durs"
    using run_at_left [OF a(5)] f(13) ctts_counts_sum [of "ctts_Entries ct"] by (simp add: ctts_counts_def)
  have o: "offsets_left s" if "k < length durs" using that c f by (auto simp: offsets_left_def)
  have y: "sync_left s" by (rule flat_sync [OF assms(1)])
      (use assms(2) in \<open>auto simp: sync_left_def at_sample_def keys_at_def sync_at_def\<close>)
  have sc: "stsc_Entries sc \<noteq> []" using f(9) by auto
  show ?thesis
  proof (cases "k < length durs")
    case True
    then show ?thesis using f a t o y sc by (simp add: isSampleValid_def and_then_def deref_def Let_def)
  next
    case False
    then show ?thesis using f a by (simp add: isSampleValid_def and_then_def deref_def Let_def)
  qed
qed

lemma next_in_chunk_flat:
  assumes "flat_table (dx_sample s) offs szs durs ks" "at_sample s ks durs k"
  shows "next_in_chunk s = Inr (s\<lparr>dx_chunkIndex := k + 1, dx_sampleIndexInChunk := 0, dx_sampleOffsetInChunk := 0\<rparr>)"
proof -
  from assms(1) obtain sc where f: "stbl_SampleToChunk (dx_sample s) = Some sc"
    "stsc_Entries sc = [\<lparr>stsc_FirstChunk = 1, stsc_SamplesPerChunk = 1, stsc_SampleDescId = 1\<rparr>]" by (rule flat_tableE) simp_all
  then show ?thesis using assms(2) by (simp add: next_in_chunk_def step_in_chunk_def next_group_def deref_def elem_at_def at_sample_def Let_def)
qed

lemma next_time_flat:
  assumes "stbl_TimeToSample (dx_sample s) = Some tt" "stts_counted (stts_Entries tt)" "k < length (stts_expand (stts_Entries tt))"
    and "run_at (stts_counts (stts_Entries tt)) (dx_sttsEntryIndex s) (dx_sampleIndexInSttsEntry s) k"
  obtains i j where "next_time s = Inr (uint (stts_expand (stts_Entries tt) ! k), s\<lparr>dx_sttsEntryIndex := i,
      dx_sampleIndexInSttsEntry := j, dx_dts := wrap64 (dx_dts s + uint (stts_expand (stts_Entries tt) ! k))\<rparr>)"
    "run_at (stts_counts (stts_Entries tt)) i j (k + 1)"
proof -
  let ?es = "stts_Entries tt" and ?i = "dx_sttsEntryIndex s" and ?j = "dx_sampleIndexInSttsEntry s"
  have k: "k < sum_list (stts_counts ?es)" using assms(3) by (simp add: stts_counts_sum)
  have i: "?i < length ?es" using run_at_left [OF assms(4)] k by (simp add: stts_counts_def)
  have j: "?j < unat (stts_Count (?es ! ?i))" using assms(4) i by (simp add: run_at_def stts_counts_def)
  have v: "stts_expand ?es ! k = stts_Duration (?es ! ?i)"
    unfolding stts_expand_def by (rule run_at_value) (use assms(4) k in \<open>simp_all add: stts_counts_def\<close>)
  note st = run_at_step [OF assms(4) k counted_pos(1) [OF assms(2)]]
  have c: "stts_counts ?es ! ?i = unat (stts_Count (?es ! ?i))" using i by (simp add: stts_counts_def)
  note w = count_word [OF j]
  show ?thesis
  proof (cases "Suc ?j = unat (stts_Count (?es ! ?i))")
    case True
    show ?thesis
      by (rule that [where i = "Suc ?i" and j = 0])
        (use True st w i in \<open>simp_all add: next_time_def deref_def elem_at_def assms(1) c v Let_def del: of_nat_Suc\<close>)
  next
    case False
    show ?thesis
      by (rule that [where i = ?i and j = "Suc ?j"])
        (use False st w i in \<open>simp_all add: next_time_def deref_def elem_at_def assms(1) c v Let_def del: of_nat_Suc\<close>)
  qed
qed

lemma next_offset_flat:
  assumes "stbl_CompositionOffset (dx_sample s) = Some ct" "ctts_counted (ctts_Entries ct)" "k < length (ctts_expand (ctts_Entries ct))"
    and "run_at (ctts_counts (ctts_Entries ct)) (dx_cttsEntryIndex s) (dx_sampleIndexInCttsEntry s) k"
  obtains i j where "next_offset s = Inr (s\<lparr>dx_cttsEntryIndex := i, dx_sampleIndexInCttsEntry := j\<rparr>)"
    "run_at (ctts_counts (ctts_Entries ct)) i j (k + 1)"
proof -
  let ?es = "ctts_Entries ct" and ?i = "dx_cttsEntryIndex s" and ?j = "dx_sampleIndexInCttsEntry s"
  have k: "k < sum_list (ctts_counts ?es)" using assms(3) by (simp add: ctts_counts_sum)
  have i: "?i < length ?es" using run_at_left [OF assms(4)] k by (simp add: ctts_counts_def)
  have j: "?j < unat (ctts_Count (?es ! ?i))" using assms(4) i by (simp add: run_at_def ctts_counts_def)
  note st = run_at_step [OF assms(4) k counted_pos(2) [OF assms(2)]]
  have c: "ctts_counts ?es ! ?i = unat (ctts_Count (?es ! ?i))" using i by (simp add: ctts_counts_def)
  have ne: "?es \<noteq> []" using i by auto
  note w = count_word [OF j]
  show ?thesis
  proof (cases "Suc ?j = unat (ctts_Count (?es ! ?i))")
    case True
    show ?thesis
      by (rule that [where i = "Suc ?i" and j = 0])
        (use True st w i ne in \<open>simp_all add: next_offset_def elem_at_def assms(1) c Let_def del: of_nat_Suc\<close>)
  next
    case False
    show ?thesis
      by (rule that [where i = ?i and j = "Suc ?j"])
        (use False st w i ne in \<open>simp_all add: next_offset_def elem_at_def assms(1) c Let_def del: of_nat_Suc\<close>)
  qed
qed

lemma next_sync_flat:
  assumes "flat_table (dx_sample s) offs szs durs ks" "dx_sampleIndex s = k" "k < length durs"
    "keys_at ks (dx_syncSampleIndex s) k"
  obtains i where "next_sync s = s\<lparr>dx_syncSampleIndex := i\<rparr>" "keys_at ks i (k + 1)"
  using assms(1)
proof (cases rule: flat_sync)
  case None
  then show ?thesis by (intro that [of "dx_syncSampleIndex s"]) (simp_all add: next_sync_def keys_at_def)
next
  case (Some l ss)
  let ?i = "dx_syncSampleIndex s"
  have "(word_of_nat (k + 1) = (stss_Entries ss ! Suc ?i - 1)) \<longleftrightarrow> Suc k = l ! Suc ?i" if i: "Suc ?i < length l"
  proof -
    have "l ! Suc ?i < length durs" using Some(6) i by simp
    then have "l ! Suc ?i < 2 ^ 32" "k + 1 < 2 ^ 32" using Some(7) assms(3) by simp_all
    then have "(word_of_nat (k + 1) = (word_of_nat (l ! Suc ?i) :: 32 word)) \<longleftrightarrow> k + 1 = l ! Suc ?i" by (simp only: word32_eq)
    then show ?thesis using i Some(3) by simp
  qed
  moreover note sync_at_step [of l ?i k] Some(5) assms(4)
  ultimately show ?thesis
    using Some by (intro that [of "if Suc ?i < length l \<and> Suc k = l ! Suc ?i then Suc ?i else ?i"])
      (auto simp: next_sync_def keys_at_def assms(2))
qed

lemma inc_sample:
  assumes f: "flat_table (dx_sample s) offs szs durs ks" and a: "at_sample s ks durs k" and k: "k < length durs"
  obtains s' where "incSampleIndex s = Inr (uint (durs ! k), s')" "at_sample s' ks durs (k + 1)" "same_track s s'"
proof -
  from f obtain tt ct where t: "stbl_TimeToSample (dx_sample s) = Some tt" "stts_counted (stts_Entries tt)"
    "stts_expand (stts_Entries tt) = durs" "stbl_CompositionOffset (dx_sample s) = Some ct" "ctts_counted (ctts_Entries ct)"
    "length (ctts_expand (ctts_Entries ct)) = length durs" by (rule flat_tableE)
  define s1 where "s1 = s\<lparr>dx_chunkIndex := k + 1, dx_sampleIndexInChunk := 0, dx_sampleOffsetInChunk := 0\<rparr>"
  have s1: "next_in_chunk s = Inr s1" using next_in_chunk_flat [OF f a] by (simp add: s1_def)
  obtain i j where i: "next_time s1 = Inr (uint (durs ! k), s1\<lparr>dx_sttsEntryIndex := i,
      dx_sampleIndexInSttsEntry := j, dx_dts := wrap64 (dx_dts s1 + uint (durs ! k))\<rparr>)" "run_at (stts_counts (stts_Entries tt)) i j (k + 1)"
    by (rule next_time_flat [of s1 tt k]) (use a t k in \<open>simp_all add: s1_def at_sample_def\<close>)
  define s2 where "s2 = s1\<lparr>dx_sttsEntryIndex := i, dx_sampleIndexInSttsEntry := j, dx_dts := wrap64 (dx_dts s1 + uint (durs ! k))\<rparr>"
  obtain i' j' where i': "next_offset s2 = Inr (s2\<lparr>dx_cttsEntryIndex := i', dx_sampleIndexInCttsEntry := j'\<rparr>)"
    "run_at (ctts_counts (ctts_Entries ct)) i' j' (k + 1)"
    by (rule next_offset_flat [of s2 ct k]) (use a t k in \<open>simp_all add: s1_def s2_def at_sample_def\<close>)
  define s3 where "s3 = s2\<lparr>dx_cttsEntryIndex := i', dx_sampleIndexInCttsEntry := j'\<rparr>"
  have y: "keys_at ks (dx_syncSampleIndex s3) k"
    using a by (simp add: at_sample_def s1_def s2_def s3_def)
  obtain l where l: "next_sync s3 = s3\<lparr>dx_syncSampleIndex := l\<rparr>" "keys_at ks l (k + 1)"
    by (rule next_sync_flat [of s3 offs szs durs ks k, OF _ _ _ y]) (use a f k in \<open>simp_all add: s1_def s2_def s3_def at_sample_def\<close>)
  have "incSampleIndex s = Inr (uint (durs ! k), s3\<lparr>dx_syncSampleIndex := l, dx_sampleIndex := k + 1\<rparr>)"
    using s1 i(1) i'(1) l(1) a by (simp add: incSampleIndex_def s3_def [symmetric] s2_def [symmetric] Let_def)
      (simp add: s3_def s2_def s1_def at_sample_def)
  moreover have "at_sample (s3\<lparr>dx_syncSampleIndex := l, dx_sampleIndex := k + 1\<rparr>) ks durs (k + 1)"
    using a i(2) i'(2) l(2) t k by (simp add: at_sample_def s3_def s2_def s1_def take_Suc_conv_app_nth)
  moreover have "same_track s (s3\<lparr>dx_syncSampleIndex := l, dx_sampleIndex := k + 1\<rparr>)"
    by (simp add: same_track_def s3_def s2_def s1_def)
  ultimately show ?thesis by (rule that)
qed

text \<open>The current sample: its bytes, and whether it is a key sample.\<close>

lemma flat_read:
  assumes f: "flat_table (dx_sample s) offs szs durs ks" and a: "at_sample s ks durs k" and k: "k < length durs"
    and r: "r = OpenFile file pos" and b: "length file < 2 ^ 63" "szs ! k < 2 ^ 32" "offs ! k \<le> length file"
    and x: "sub file (offs ! k) (offs ! k + szs ! k) = x" "length x = szs ! k"
  shows "read_sample r s = Inr x"
proof -
  from f obtain co sz where t: "length offs = length durs" "length szs = length durs"
    "stbl_ChunkOffset (dx_sample s) = Some co" "stco_Entries co = map word_of_nat offs"
    "stbl_SampleSize (dx_sample s) = Some sz" "stsz_SampleSize sz = 0" "stsz_Entries sz = map word_of_nat szs"
    by (rule flat_tableE)
  have o: "uint (word_of_nat (offs ! k) :: 64 word) = int (offs ! k)"
    using b by (simp add: unsigned_of_nat take_bit_nat_eq_self)
  have w: "wrap64 (int (offs ! k)) = int (offs ! k)" using b by (intro wrap64_id) simp_all
  have n: "unat (word_of_nat (szs ! k) :: 32 word) = szs ! k" using b(2) by (rule unat32)
  have "read_full_at file (offs ! k) (szs ! k) = Inr x"
    using x b(3) by (auto simp: read_full_at_def sub_def)
  then show ?thesis
    using t a k r o w n by (simp add: read_sample_def deref_def elem_at_def sample_size_def at_sample_def readat_def)
qed

lemma flat_key:
  assumes f: "flat_table (dx_sample s) offs szs durs ks" and a: "at_sample s ks durs k" and k: "k < length durs"
  shows "is_key_sample s = Inr (case ks of None \<Rightarrow> False | Some l \<Rightarrow> k \<in> set l)"
  using f
proof (cases rule: flat_sync)
  case (Some l ss)
  let ?i = "dx_syncSampleIndex s"
  have s: "sync_at l ?i k" "dx_sampleIndex s = k" using a Some(1) by (simp_all add: at_sample_def keys_at_def)
  then have i: "?i < length l" by (simp add: sync_at_def)
  then have "l ! ?i < length durs" using Some(6) by simp
  then have "l ! ?i < 2 ^ 32" "k < 2 ^ 32" using Some(7) k by simp_all
  then have "(word_of_nat k = (word_of_nat (l ! ?i) :: 32 word)) \<longleftrightarrow> k = l ! ?i" by (simp only: word32_eq)
  with sync_at_mem [OF s(1) Some(5)] show ?thesis
    using Some s i by (auto simp: is_key_sample_def elem_at_def)
qed (simp add: is_key_sample_def)

section \<open>One packet\<close>

text \<open>The loop of \<open>readPacket\<close> never goes round: a picture still open is returned in the same turn.\<close>

lemma h265_sample_closed:
  "h265_sample mk key nalus s = Inr (None, s') \<Longrightarrow> dx_h265SlicedPacket s' = None"
  by (auto simp: h265_sample_def ebind_Inr_iff split: option.splits)

lemma h265_sample_codec:
  assumes "h265_sample mk key nalus s = Inr (pkt, s')" shows "dx_codec s' = dx_codec s"
proof (cases "h265_units mk key nalus (None, dx_h265SlicedPacket s, dx_h265BufferHasKey s)")
  case (Inr r)
  obtain q l h where "r = (q, l, h)" by (cases r)
  then show ?thesis using assms Inr by (cases q; cases l) (auto simp: h265_sample_def)
qed (use assms in \<open>simp add: h265_sample_def\<close>)

lemma sample_packet_closed:
  assumes "sample_packet tm key data s = Inr (None, s')" "is_H265 (dx_codec s)"
  shows "dx_h265SlicedPacket s' = None"
proof -
  obtain p where p: "dx_codec s = H265_par p" using assms(2) by (cases "dx_codec s") (simp_all add: is_H265_def)
  obtain x where "h265_sample (\<lambda>k. dx_packet s k tm 0) key (fst x) s = Inr (None, s')"
    using assms(1) unfolding sample_packet_def p by (cases "SplitNALUs data") (auto split: prod.splits)
  then show ?thesis by (rule h265_sample_closed)
qed

lemma sample_packet_codec:
  assumes "sample_packet tm key data s = Inr (pkt, s')" shows "dx_codec s' = dx_codec s"
proof (cases "dx_codec s")
  case (H264_par p)
  then show ?thesis using assms unfolding sample_packet_def
    by (cases "SplitNALUs data") (auto simp: ebind_Inr_iff split: prod.splits)
next
  case (H265_par p)
  obtain x where "h265_sample (\<lambda>k. dx_packet s k tm 0) key (fst x) s = Inr (pkt, s')"
    using assms unfolding sample_packet_def H265_par by (cases "SplitNALUs data") (auto split: prod.splits)
  then show ?thesis by (rule h265_sample_codec)
next
  case (AAC_par p)
  then show ?thesis using assms unfolding sample_packet_def by (cases "aac_frame_time p") auto
qed (use assms in \<open>simp_all add: sample_packet_def\<close>)

definition same_picture :: "demux_stream \<Rightarrow> demux_stream \<Rightarrow> bool" where
  "same_picture s s' \<longleftrightarrow> dx_h265SlicedPacket s' = dx_h265SlicedPacket s \<and> dx_codec s' = dx_codec s"

lemma same_picture_trans: "same_picture s t \<Longrightarrow> same_picture t u \<Longrightarrow> same_picture s u"
  by (simp add: same_picture_def)

lemma step_in_chunk_picture: "step_in_chunk sc s = Inr t \<Longrightarrow> same_picture s t"
  by (cases "sample_size (s\<lparr>dx_sampleIndexInChunk := dx_sampleIndexInChunk s + 1\<rparr>)")
    (auto simp: step_in_chunk_def elem_at_def same_picture_def Let_def split: if_split_asm)

lemma next_group_picture: "same_picture s (next_group sc s)"
  by (simp add: next_group_def same_picture_def)

lemma next_in_chunk_picture:
  assumes "next_in_chunk s = Inr t" shows "same_picture s t"
proof -
  obtain sc u where u: "step_in_chunk sc s = Inr u" "t = next_group sc u"
    using assms by (auto simp: next_in_chunk_def ebind_Inr_iff)
  show ?thesis unfolding u(2) by (rule same_picture_trans [OF step_in_chunk_picture [OF u(1)] next_group_picture])
qed

lemma next_time_picture: "next_time s = Inr (d, t) \<Longrightarrow> same_picture s t"
  unfolding next_time_def
  by (cases "stbl_TimeToSample (dx_sample s)") (auto simp: deref_def Let_def elem_at_def same_picture_def split: if_splits)

lemma next_offset_picture: "next_offset s = Inr t \<Longrightarrow> same_picture s t"
  unfolding next_offset_def
  by (cases "stbl_CompositionOffset (dx_sample s)") (auto simp: Let_def elem_at_def same_picture_def split: if_splits)

lemma next_sync_picture: "same_picture s (next_sync s)"
  by (simp add: next_sync_def same_picture_def split: option.split)

lemma inc_picture:
  assumes "incSampleIndex s = Inr (d, t)" shows "same_picture s t"
proof -
  obtain s1 where 1: "next_in_chunk s = Inr s1" using assms by (cases "next_in_chunk s") (simp_all add: incSampleIndex_def)
  obtain e s2 where 2: "next_time s1 = Inr (e, s2)" using assms 1 by (cases "next_time s1") (auto simp: incSampleIndex_def)
  obtain s3 where 3: "next_offset s2 = Inr s3" using assms 1 2 by (cases "next_offset s2") (simp_all add: incSampleIndex_def)
  have "t = (next_sync s3)\<lparr>dx_sampleIndex := dx_sampleIndex (next_sync s3) + 1\<rparr>"
    using assms 1 2 3 by (simp add: incSampleIndex_def Let_def)
  then have "same_picture s3 t" using next_sync_picture [of s3] by (simp add: same_picture_def)
  with next_in_chunk_picture [OF 1] next_time_picture [OF 2] next_offset_picture [OF 3] show ?thesis
    by (blast intro: same_picture_trans)
qed

lemmas inc_frame = inc_picture [unfolded same_picture_def, THEN conjunct1] inc_picture [unfolded same_picture_def, THEN conjunct2]

lemma one_sample_closed:
  assumes "one_sample f tm s = Inr (None, s')" "is_H265 (dx_codec s')"
  shows "dx_h265SlicedPacket s' = None"
proof -
  from assms(1) obtain data key s1 d where s1: "sample_packet tm key data s = Inr (None, s1)" "incSampleIndex s1 = Inr (d, s')"
    by (auto simp: one_sample_def ebind_Inr_iff)
  have "is_H265 (dx_codec s)" using assms(2) inc_frame(2) [OF s1(2)] sample_packet_codec [OF s1(1)] by simp
  from sample_packet_closed [OF s1(1) this] show ?thesis using inc_frame(1) [OF s1(2)] by simp
qed

lemma readPacket_once:
  "readPacket f tm s = (case isSampleValid s of Inl e \<Rightarrow> Some (Inl e, s) | Inr valid \<Rightarrow>
     if valid then (case one_sample f tm s of Inl e \<Rightarrow> Some (Inl e, s) | Inr (pkt, s') \<Rightarrow> Some (Inr pkt, s'))
     else if dx_h265SlicedPacket s = None then Some (Inl EOF, s)
     else Some (Inr (dx_h265SlicedPacket s), s\<lparr>dx_h265SlicedPacket := None, dx_h265BufferHasKey := False\<rparr>))"
  using one_sample_closed [of f tm s]
  by (subst readPacket.simps) (auto split: sum.split)

text \<open>What a sample \<open>x\<close> becomes: the duration and the data of its packet.  Of an H.264 sample the last slice is kept.\<close>

definition plays :: "media_codec \<Rightarrow> bytes \<Rightarrow> int \<times> bytes \<Rightarrow> bool" where
  "plays c x r = (case c of
       MJPEG_par _ \<Rightarrow> r = (0, x)
     | AAC_par p \<Rightarrow> aac_frame_time p = Inr (fst r) \<and> snd r = x
     | H264_par _ \<Rightarrow> (\<exists>pre n. x = put_table avcc_frame (pre @ [n]) \<and> (\<forall>m\<in>set (pre @ [n]). m \<noteq> []) \<and> length x < 2 ^ 32 \<and>
         1 \<le> n ! 0 AND 0x1f \<and> n ! 0 AND 0x1f \<le> 5 \<and> r = (0, avcc_frame n))
     | _ \<Rightarrow> False)"

lemma h264_last_slice:
  assumes "\<forall>m\<in>set (pre @ [n]). m \<noteq> []" "1 \<le> n ! 0 AND 0x1f" "n ! 0 AND 0x1f \<le> 5"
  shows "h264_sample mk (pre @ [n]) q = Inr (Some (mk (avcc_frame n)))"
  using assms by (induction pre arbitrary: q) (simp_all add: elem_at_def Let_def)

lemma plays_packet:
  assumes "plays (dx_codec s) x r"
  shows "sample_packet tm key x s = Inr (Some (dx_packet s (case dx_codec s of AAC_par _ \<Rightarrow> False | _ \<Rightarrow> key) tm (fst r) (snd r)), s)"
  using assms
proof (cases "dx_codec s")
  case (H264_par p)
  with assms obtain pre n where x: "x = put_table avcc_frame (pre @ [n])" "\<forall>m\<in>set (pre @ [n]). m \<noteq> []"
    "length x < 2 ^ 32" "1 \<le> n ! 0 AND 0x1f" "n ! 0 AND 0x1f \<le> 5" "r = (0, avcc_frame n)"
    by (auto simp: plays_def)
  have "SplitNALUs x = Inr (pre @ [n], naluAVCC)" unfolding x(1) by (rule split_avcc) (use x in simp_all)
  with h264_last_slice [OF x(2,4,5)] x(6) H264_par show ?thesis by (simp add: sample_packet_def)
qed (auto simp: plays_def sample_packet_def)

end
