(* ===== verification/Mp4Playback.thy ===== *)
theory Mp4Playback
  imports Mp4Read
begin

text \<open>
  \<open>ReadPacket\<close> over several streams: the contract of a stream that has a known list of packets left,
  the merge of such streams by time, and the files of the muxer read back.
\<close>

section \<open>Reading to the end\<close>

text \<open>The next \<open>n\<close> calls of \<open>ReadPacket\<close>, all of which return a packet.\<close>

fun read_run :: "nat \<Rightarrow> demuxer \<Rightarrow> (dx_pkt list \<times> demuxer) option" where
  "read_run 0 d = Some ([], d)"
| "read_run (Suc n) d = (case ReadPacket d of
       Some (Inr (Some p), d') \<Rightarrow> map_option (\<lambda>(ps, e). (p # ps, e)) (read_run n d')
     | _ \<Rightarrow> None)"

lemma probe_done: "dm_movieAtom d \<noteq> None \<Longrightarrow> probe d = Some (Inr (), d)"
  by (simp add: probe_def)

lemma list_all2_update:
  "list_all2 P xs ys \<Longrightarrow> P x y \<Longrightarrow> list_all2 P (xs[i := x]) (ys[i := y])"
  by (rule list_all2_update_cong)

lemma empty_lengths: "\<forall>xs\<in>set xss. xs = [] \<Longrightarrow> sum_list (map length xss) = 0"
  by (induction xss) simp_all

lemma sum_length_update:
  "c < length xss \<Longrightarrow> xss ! c = x # ys \<Longrightarrow> sum_list (map length xss) = Suc (sum_list (map length (xss[c := ys])))"
proof (induction xss arbitrary: c)
  case (Cons zs xss)
  then show ?case by (cases c) simp_all
qed simp

section \<open>Merging streams\<close>

text \<open>
  \<open>left f s xs\<close>: reading from \<open>f\<close>, the stream \<open>s\<close> will deliver the packets \<open>xs\<close> and then end.
\<close>

locale packet_source =
  fixes left :: "dx_file \<Rightarrow> demux_stream \<Rightarrow> dx_pkt list \<Rightarrow> bool"
  assumes valid_law: "left f s xs \<Longrightarrow> isSampleValid s = Inr (xs \<noteq> [])"
    and time_law: "left f s (x # xs) \<Longrightarrow> dx_tsToTime s (dx_dts s) = Inr (dp_ts x)"
    and read_law: "left f s (x # xs) \<Longrightarrow> \<exists>s'. readPacket f (dp_ts x) s = Some (Inr (Some x), s') \<and> left f s' xs"
    and order_law: "left f s xs \<Longrightarrow> sorted (map dp_ts xs)"
begin

lemma valid_streams_left:
  "list_all2 (left f) ss xss \<Longrightarrow>
   \<exists>js. valid_streams ss i = Inr js \<and> (\<forall>c. c \<in> set js \<longleftrightarrow> i \<le> c \<and> c < i + length ss \<and> xss ! (c - i) \<noteq> [])"
proof (induction ss xss arbitrary: i rule: list_all2_induct)
  case (Cons s ss xs xss)
  from Cons.IH [of "i + 1"] obtain js where js: "valid_streams ss (i + 1) = Inr js"
    "\<And>c. c \<in> set js \<longleftrightarrow> i + 1 \<le> c \<and> c < i + 1 + length ss \<and> xss ! (c - (i + 1)) \<noteq> []" by blast
  have m: "c \<in> set (if xs \<noteq> [] then i # js else js) \<longleftrightarrow>
      i \<le> c \<and> c < i + length (s # ss) \<and> (xs # xss) ! (c - i) \<noteq> []" for c
    using js(2) [of c] by (cases "c = i") (auto simp: nth_Cons')
  have "valid_streams (s # ss) i = Inr (if xs \<noteq> [] then i # js else js)"
    using js(1) valid_law [OF Cons.hyps(1)] by simp
  with m show ?case by blast
qed simp

lemma choose_left:
  assumes l: "list_all2 (left f) ss xss" and js: "\<forall>j\<in>set js. j < length ss \<and> xss ! j \<noteq> []"
    and c: "c < length ss" "xss ! c \<noteq> []"
  obtains c' where "choose_stream ss js (Some c) = Inr (Some c')" "c' < length ss" "xss ! c' \<noteq> []"
    "\<forall>j\<in>insert c (set js). dp_ts (hd (xss ! c')) \<le> dp_ts (hd (xss ! j))"
  using js c
proof (induction js arbitrary: c thesis)
  case Nil
  then show ?case by (intro Nil(1) [of c]) simp_all
next
  case (Cons j js)
  have t: "dx_tsToTime (ss ! i) (dx_dts (ss ! i)) = Inr (dp_ts (hd (xss ! i)))" if "i < length ss" "xss ! i \<noteq> []" for i
  proof -
    have "left f (ss ! i) (hd (xss ! i) # tl (xss ! i))" using list_all2_nthD [OF l that(1)] that(2) by simp
    then show ?thesis by (rule time_law)
  qed
  define d where "d = (if dp_ts (hd (xss ! j)) < dp_ts (hd (xss ! c)) then j else c)"
  have st: "choose_stream ss (j # js) (Some c) = choose_stream ss js (Some d)"
    using t [of j] t [of c] Cons.prems(2-4) by (simp add: d_def)
  have d: "d < length ss" "xss ! d \<noteq> []" using Cons.prems(2-4) by (auto simp: d_def)
  obtain c' where c': "choose_stream ss js (Some d) = Inr (Some c')" "c' < length ss" "xss ! c' \<noteq> []"
    "\<forall>j\<in>insert d (set js). dp_ts (hd (xss ! c')) \<le> dp_ts (hd (xss ! j))"
    using Cons.IH [of d] Cons.prems(2) d by auto
  moreover have "dp_ts (hd (xss ! d)) \<le> dp_ts (hd (xss ! j))" "dp_ts (hd (xss ! d)) \<le> dp_ts (hd (xss ! c))" by (auto simp: d_def)
  ultimately show ?case by (intro Cons.prems(1) [of c']) (auto simp: st simp del: choose_stream.simps)
qed

lemma next_left:
  assumes l: "list_all2 (left f) ss xss" and ne: "\<exists>j<length ss. xss ! j \<noteq> []"
  obtains c x ys where "next_stream ss = Inr (c, dp_ts x)" "c < length ss" "xss ! c = x # ys"
    "\<forall>j<length ss. \<forall>y\<in>set (xss ! j). dp_ts x \<le> dp_ts y"
proof -
  obtain js where js: "valid_streams ss 0 = Inr js" "\<And>c. c \<in> set js \<longleftrightarrow> c < length ss \<and> xss ! c \<noteq> []"
    using valid_streams_left [OF l, of 0] by auto
  obtain b bs where b: "js = b # bs" using ne js(2) by (cases js) auto
  have m: "\<forall>j\<in>insert b (set bs). j < length ss \<and> xss ! j \<noteq> []" using js(2) b by auto
  obtain c where c: "choose_stream ss bs (Some b) = Inr (Some c)" "c < length ss" "xss ! c \<noteq> []"
    "\<forall>j\<in>insert b (set bs). dp_ts (hd (xss ! c)) \<le> dp_ts (hd (xss ! j))"
    using choose_left [OF l, of bs b] m by auto
  obtain x ys where x: "xss ! c = x # ys" using c(3) by (cases "xss ! c") auto
  have t: "dx_tsToTime (ss ! c) (dx_dts (ss ! c)) = Inr (dp_ts x)"
    using list_all2_nthD [OF l c(2)] x time_law by simp
  have "ss \<noteq> []" using c(2) by auto
  then have n: "next_stream ss = Inr (c, dp_ts x)" using js(1) b c(1) t by (simp add: next_stream_def deref_def)
  have "dp_ts x \<le> dp_ts y" if "j < length ss" "y \<in> set (xss ! j)" for j y
  proof -
    have "xss ! j \<noteq> []" using that(2) by auto
    then have "j \<in> insert b (set bs)" using js(2) [of j] that(1) b by simp
    then have "dp_ts x \<le> dp_ts (hd (xss ! j))" using c(4) x by auto
    moreover have "sorted (map dp_ts (xss ! j))" using list_all2_nthD [OF l that(1)] by (rule order_law)
    ultimately show ?thesis using that(2) by (cases "xss ! j") auto
  qed
  with n c(2) x show ?thesis by (intro that) auto
qed

lemma ReadPacket_end:
  assumes "dm_movieAtom d \<noteq> None" "dm_streams d \<noteq> []" "list_all2 (left f) (dm_streams d) xss" "\<forall>xs\<in>set xss. xs = []"
  shows "ReadPacket d = Some (Inl EOF, d)"
proof -
  obtain js where js: "valid_streams (dm_streams d) 0 = Inr js"
    "\<And>c. c \<in> set js \<longleftrightarrow> c < length (dm_streams d) \<and> xss ! c \<noteq> []"
    using valid_streams_left [OF assms(3), of 0] by auto
  have "c \<notin> set js" for c using js(2) [of c] assms(4) list_all2_lengthD [OF assms(3)] nth_mem [of c xss] by auto
  then have "js = []" by (cases js) auto
  then have "next_stream (dm_streams d) = Inl EOF" using js(1) assms(2) by (simp add: next_stream_def)
  then show ?thesis using probe_done [OF assms(1)] by (simp add: ReadPacket_def)
qed

lemma ReadPacket_next:
  assumes "dm_movieAtom d \<noteq> None" "list_all2 (left (dm_r d)) (dm_streams d) xss" "\<exists>j<length xss. xss ! j \<noteq> []"
  obtains c x ys s' where "ReadPacket d = Some (Inr (Some x), d\<lparr>dm_streams := (dm_streams d)[c := s']\<rparr>)"
    "c < length xss" "xss ! c = x # ys" "list_all2 (left (dm_r d)) ((dm_streams d)[c := s']) (xss[c := ys])"
    "\<forall>xs\<in>set xss. \<forall>y\<in>set xs. dp_ts x \<le> dp_ts y"
proof -
  have len: "length (dm_streams d) = length xss" by (rule list_all2_lengthD [OF assms(2)])
  obtain c x ys where c: "next_stream (dm_streams d) = Inr (c, dp_ts x)" "c < length xss" "xss ! c = x # ys"
    "\<forall>j<length xss. \<forall>y\<in>set (xss ! j). dp_ts x \<le> dp_ts y"
    using next_left [OF assms(2)] assms(3) len by auto
  have "left (dm_r d) (dm_streams d ! c) (x # ys)" using list_all2_nthD2 [OF assms(2) c(2)] c(3) by simp
  from read_law [OF this] obtain s' where s': "readPacket (dm_r d) (dp_ts x) (dm_streams d ! c) = Some (Inr (Some x), s')"
    "left (dm_r d) s' ys" by blast
  have "ReadPacket d = Some (Inr (Some x), d\<lparr>dm_streams := (dm_streams d)[c := s']\<rparr>)"
    using probe_done [OF assms(1)] c(1) s'(1) by (simp add: ReadPacket_def)
  moreover have "\<forall>xs\<in>set xss. \<forall>y\<in>set xs. dp_ts x \<le> dp_ts y" using c(4) by (metis in_set_conv_nth)
  ultimately show ?thesis using that c(2,3) list_all2_update [OF assms(2) s'(2)] by blast
qed

lemma run_merge:
  assumes "dm_movieAtom d \<noteq> None" "dm_streams d \<noteq> []" "list_all2 (left (dm_r d)) (dm_streams d) xss"
    and "\<forall>i<length xss. \<forall>x\<in>set (xss ! i). tag x = i"
  shows "\<exists>ps d'. read_run (sum_list (map length xss)) d = Some (ps, d') \<and> ReadPacket d' = Some (Inl EOF, d') \<and>
    sorted (map dp_ts ps) \<and> set ps \<subseteq> \<Union> (set (map set xss)) \<and> (\<forall>i<length xss. filter (\<lambda>x. tag x = i) ps = xss ! i)"
  using assms
proof (induction "sum_list (map length xss)" arbitrary: d xss)
  case 0
  then have "\<forall>xs\<in>set xss. xs = []" by (auto simp: sum_list_eq_0_iff)
  then have "\<forall>i<length xss. filter (\<lambda>x. tag x = i) [] = xss ! i" by (metis filter.simps(1) nth_mem)
  moreover have "read_run (sum_list (map length xss)) d = Some ([], d)" using 0(1) by (simp flip: 0(1))
  ultimately show ?case using ReadPacket_end [OF 0(2-4) \<open>\<forall>xs\<in>set xss. xs = []\<close>] by (intro exI [of _ "[]"] exI [of _ d]) simp
next
  case (Suc n)
  have "\<exists>j<length xss. xss ! j \<noteq> []"
  proof (rule ccontr)
    assume "\<not> (\<exists>j<length xss. xss ! j \<noteq> [])"
    then have "\<forall>xs\<in>set xss. length xs = 0" by (auto simp: in_set_conv_nth)
    then have "sum_list (map length xss) = 0" by (intro empty_lengths) simp
    then show False using Suc(2) by linarith
  qed
  then obtain c x ys s' where
    r: "ReadPacket d = Some (Inr (Some x), d\<lparr>dm_streams := (dm_streams d)[c := s']\<rparr>)"
    "c < length xss" "xss ! c = x # ys" "list_all2 (left (dm_r d)) ((dm_streams d)[c := s']) (xss[c := ys])"
    "\<forall>xs\<in>set xss. \<forall>y\<in>set xs. dp_ts x \<le> dp_ts y"
    by (rule ReadPacket_next [OF Suc.prems(1,3)])
  let ?d = "d\<lparr>dm_streams := (dm_streams d)[c := s']\<rparr>" and ?xss = "xss[c := ys]"
  have n: "n = sum_list (map length ?xss)" using sum_length_update [OF r(2,3)] Suc(2) by simp
  have sub: "set (?xss ! i) \<subseteq> set (xss ! i)" if "i < length xss" for i
    using that r(3) by (cases "i = c") auto
  then have "\<forall>i<length ?xss. \<forall>y\<in>set (?xss ! i). tag y = i" using Suc.prems(4) by fastforce
  with Suc(1) [OF n, of ?d] Suc.prems(1,2) r(4) obtain ps d' where
    ps: "read_run n ?d = Some (ps, d')" "ReadPacket d' = Some (Inl EOF, d')" "sorted (map dp_ts ps)"
    "set ps \<subseteq> \<Union> (set (map set ?xss))" "\<forall>i<length ?xss. filter (\<lambda>x. tag x = i) ps = ?xss ! i"
    using n by auto
  have mem: "set ps \<subseteq> \<Union> (set (map set xss))"
  proof
    fix y assume "y \<in> set ps"
    then obtain zs where zs: "zs \<in> set ?xss" "y \<in> set zs" using ps(4) by auto
    then obtain i where i: "i < length xss" "zs = ?xss ! i" by (metis in_set_conv_nth length_list_update)
    then have "y \<in> set (xss ! i)" using sub [of i] zs(2) by auto
    then show "y \<in> \<Union> (set (map set xss))" using nth_mem [OF i(1)] by auto
  qed
  have tx: "tag x = c" using Suc.prems(4) r(2,3) by simp
  have x: "x \<in> \<Union> (set (map set xss))" using r(2,3) by (auto simp: in_set_conv_nth intro!: bexI [of _ "xss ! c"])
  have "\<forall>i<length xss. filter (\<lambda>y. tag y = i) (x # ps) = xss ! i"
    using ps(5) r(2,3) tx by auto
  moreover have "sorted (map dp_ts (x # ps))" using ps(3) mem r(5) by auto
  ultimately show ?case
    using r(1) ps(1,2) mem x by (intro exI [of _ "x # ps"] exI [of _ d']) (simp add: Suc(2) [symmetric])
qed

end

section \<open>A stream over a flat table\<close>

text \<open>The time at which the \<open>k\<close>-th sample is due.\<close>

definition due :: "int \<Rightarrow> 32 word list \<Rightarrow> nat \<Rightarrow> int" where
  "due scale durs k = (\<Sum>d\<leftarrow>take k durs. uint d) * second div scale"

definition nth_packet :: "nat \<Rightarrow> media_codec \<Rightarrow> int \<Rightarrow> nat list option \<Rightarrow> 32 word list \<Rightarrow> (int \<times> bytes) list \<Rightarrow> nat \<Rightarrow> dx_pkt" where
  "nth_packet i c scale ks durs rs k = \<lparr>dp_stream = word_of_nat i,
     dp_key = (case c of AAC_par _ \<Rightarrow> False | _ \<Rightarrow> (case ks of None \<Rightarrow> False | Some l \<Rightarrow> k \<in> set l)),
     dp_ts = due scale durs k, dp_dur = fst (rs ! k), dp_data = snd (rs ! k), dp_par = c\<rparr>"

text \<open>The bytes \<open>x\<close> are \<open>sz\<close> bytes of the file at \<open>off\<close>.\<close>

definition sample_in :: "bytes \<Rightarrow> nat \<Rightarrow> nat \<Rightarrow> bytes \<Rightarrow> bool" where
  "sample_in file off sz x \<longleftrightarrow> off \<le> length file \<and> sz < 2 ^ 32 \<and> length x = sz \<and> sub file off (off + sz) = x"

definition flat_left :: "dx_file \<Rightarrow> demux_stream \<Rightarrow> dx_pkt list \<Rightarrow> bool" where
  "flat_left f s xs \<longleftrightarrow> (\<exists>file pos offs szs durs ks rs k.
     f = OpenFile file pos \<and> length file < 2 ^ 63 \<and> flat_table (dx_sample s) offs szs durs ks \<and> at_sample s ks durs k \<and>
     k \<le> length durs \<and> dx_h265SlicedPacket s = None \<and> 0 < dx_timeScale s \<and>
     (\<Sum>d\<leftarrow>durs. uint d) * second < 2 ^ 63 \<and>
     (\<forall>j<length durs. \<exists>x. sample_in file (offs ! j) (szs ! j) x \<and> plays (dx_codec s) x (rs ! j)) \<and>
     xs = map (nth_packet (dx_index s) (dx_codec s) (dx_timeScale s) ks durs rs) [k..<length durs])"

lemma flat_leftE:
  assumes "flat_left f s xs"
  obtains fl pos offs szs durs ks rs k where "f = OpenFile fl pos" "length fl < 2 ^ 63"
    "flat_table (dx_sample s) offs szs durs ks" "at_sample s ks durs k" "k \<le> length durs" "dx_h265SlicedPacket s = None"
    "0 < dx_timeScale s" "(\<Sum>d\<leftarrow>durs. uint d) * second < 2 ^ 63"
    "\<forall>j<length durs. \<exists>x. sample_in fl (offs ! j) (szs ! j) x \<and> plays (dx_codec s) x (rs ! j)"
    "xs = map (nth_packet (dx_index s) (dx_codec s) (dx_timeScale s) ks durs rs) [k..<length durs]"
  using assms unfolding flat_left_def by (elim exE conjE) (rule that)

lemma due_bounds: "0 \<le> (\<Sum>d\<leftarrow>take k durs. uint d)" "(\<Sum>d\<leftarrow>take k durs. uint d) \<le> (\<Sum>d\<leftarrow>durs. uint d)"
proof -
  show "0 \<le> (\<Sum>d\<leftarrow>take k durs. uint d)" by (rule sum_list_nonneg) auto
  have "(\<Sum>d\<leftarrow>durs. uint d) = (\<Sum>d\<leftarrow>take k durs. uint d) + (\<Sum>d\<leftarrow>drop k durs. uint d)"
    by (metis append_take_drop_id map_append sum_list_append)
  moreover have "0 \<le> (\<Sum>d\<leftarrow>drop k durs. uint d)" by (rule sum_list_nonneg) auto
  ultimately show "(\<Sum>d\<leftarrow>take k durs. uint d) \<le> (\<Sum>d\<leftarrow>durs. uint d)" by simp
qed

lemma due_mono: "j \<le> k \<Longrightarrow> 0 < scale \<Longrightarrow> due scale durs j \<le> due scale durs k"
  unfolding due_def
  using due_bounds(2) [of j "take k durs"]
  by (intro zdiv_mono1 mult_right_mono) (simp_all add: min_def second_def split: if_splits)

lemma due_time:
  assumes "at_sample s ks durs k" "0 < dx_timeScale s" "(\<Sum>d\<leftarrow>durs. uint d) * second < 2 ^ 63"
  shows "dx_tsToTime s (dx_dts s) = Inr (due (dx_timeScale s) durs k)"
proof -
  let ?d = "\<Sum>d\<leftarrow>take k durs. uint d"
  have b: "0 \<le> ?d * second" "?d * second < 2 ^ 63"
    using due_bounds [of k durs] assms(3) mult_right_mono [OF due_bounds(2), of second] by (auto simp: second_def)
  then have "wrap64 (?d * second) = ?d * second" by (intro wrap64_id) simp_all
  then show ?thesis
    using assms(1,2) b by (simp add: dx_tsToTime_def at_sample_def due_def quot_nonneg)
qed

lemma flat_read_law:
  assumes f: "flat_table (dx_sample s) offs szs durs ks" and a: "at_sample s ks durs k" and k: "k < length durs"
    and r: "f = OpenFile file pos" and b: "length file < 2 ^ 63"
    and x: "sample_in file (offs ! k) (szs ! k) x" "plays (dx_codec s) x (rs ! k)" and h: "dx_h265SlicedPacket s = None"
  obtains s' where "readPacket f (due (dx_timeScale s) durs k) s =
      Some (Inr (Some (nth_packet (dx_index s) (dx_codec s) (dx_timeScale s) ks durs rs k)), s')"
    "at_sample s' ks durs (k + 1)" "same_track s s'"
proof -
  obtain s' where s': "incSampleIndex s = Inr (uint (durs ! k), s')" "at_sample s' ks durs (k + 1)" "same_track s s'"
    using inc_sample [OF f a k] by blast
  have "read_sample f s = Inr x" by (rule flat_read [OF f a k r b]) (use x(1) in \<open>simp_all add: sample_in_def\<close>)
  with plays_packet [OF x(2)] flat_key [OF f a k] s'(1)
  have "one_sample f (due (dx_timeScale s) durs k) s =
      Inr (Some (nth_packet (dx_index s) (dx_codec s) (dx_timeScale s) ks durs rs k), s')"
    by (simp add: one_sample_def nth_packet_def dx_packet_def)
  then have "readPacket f (due (dx_timeScale s) durs k) s =
      Some (Inr (Some (nth_packet (dx_index s) (dx_codec s) (dx_timeScale s) ks durs rs k)), s')"
    using valid_sample [OF f a] k by (simp add: readPacket_once)
  then show ?thesis using s'(2,3) by (rule that)
qed

interpretation flat: packet_source flat_left
proof
  fix f s xs
  assume "flat_left f s xs"
  then obtain fl pos offs szs durs ks rs k where l: "flat_table (dx_sample s) offs szs durs ks" "at_sample s ks durs k"
    "k \<le> length durs" "0 < dx_timeScale s"
    "xs = map (nth_packet (dx_index s) (dx_codec s) (dx_timeScale s) ks durs rs) [k..<length durs]"
    by (rule flat_leftE)
  show "isSampleValid s = Inr (xs \<noteq> [])" using valid_sample [OF l(1,2)] l(5) by auto
  show "sorted (map dp_ts xs)"
    using l(4,5) due_mono by (auto simp: sorted_iff_nth_mono nth_packet_def)
next
  fix f s x xs
  assume "flat_left f s (x # xs)"
  then obtain fl pos offs szs durs ks rs k where l: "f = OpenFile fl pos" "length fl < 2 ^ 63"
    "flat_table (dx_sample s) offs szs durs ks" "at_sample s ks durs k" "dx_h265SlicedPacket s = None" "0 < dx_timeScale s"
    "(\<Sum>d\<leftarrow>durs. uint d) * second < 2 ^ 63"
    "\<forall>j<length durs. \<exists>x. sample_in fl (offs ! j) (szs ! j) x \<and> plays (dx_codec s) x (rs ! j)"
    "x # xs = map (nth_packet (dx_index s) (dx_codec s) (dx_timeScale s) ks durs rs) [k..<length durs]"
    by (rule flat_leftE)
  have "length (x # xs) = length durs - k" using arg_cong [OF l(9), of length] by (simp only: length_map length_upt)
  then have k: "k < length durs" by (simp only: list.size)
  then have "[k..<length durs] = k # [k + 1..<length durs]" by (simp add: upt_conv_Cons)
  then have x: "x = nth_packet (dx_index s) (dx_codec s) (dx_timeScale s) ks durs rs k"
    "xs = map (nth_packet (dx_index s) (dx_codec s) (dx_timeScale s) ks durs rs) [k + 1..<length durs]"
    using l(9) by simp_all
  show "dx_tsToTime s (dx_dts s) = Inr (dp_ts x)" using due_time [OF l(4,6,7)] by (simp add: x(1) nth_packet_def)
  obtain y where y: "sample_in fl (offs ! k) (szs ! k) y" "plays (dx_codec s) y (rs ! k)" using l(8) k by blast
  obtain s' where s': "readPacket f (due (dx_timeScale s) durs k) s = Some (Inr (Some x), s')"
    "at_sample s' ks durs (k + 1)" "same_track s s'"
    using flat_read_law [OF l(3,4) k l(1,2) y l(5)] x(1) by metis
  have "flat_left f s' xs"
    unfolding flat_left_def using l s'(2,3) k
    by (intro exI [of _ fl] exI [of _ pos] exI [of _ offs] exI [of _ szs] exI [of _ durs] exI [of _ ks] exI [of _ rs] exI [of _ "k + 1"])
      (simp add: same_track_def x(2))
  then show "\<exists>s'. readPacket f (dp_ts x) s = Some (Inr (Some x), s') \<and> flat_left f s' xs"
    using s'(1) by (auto simp: x(1) nth_packet_def)
qed

end
