(* ===== verification/Mp4Written.thy ===== *)
theory Mp4Written
  imports Mp4Playback
begin

text \<open>
  The muxer and the demuxer together: a file that \<open>WriteTrailer\<close> completed is opened by \<open>Demux\<close>, which
  finds the streams that were written, and \<open>ReadPacket\<close> returns their packets.
\<close>

section \<open>What writing does not change\<close>

definition same_kind :: "mux_stream \<Rightarrow> mux_stream \<Rightarrow> bool" where
  "same_kind s s' \<longleftrightarrow> ms_codec s' = ms_codec s \<and> ms_trackAtom s' = ms_trackAtom s \<and>
     stbl_SampleDesc (ms_sample s') = stbl_SampleDesc (ms_sample s) \<and>
     map_option stsz_SampleSize (stbl_SampleSize (ms_sample s')) = map_option stsz_SampleSize (stbl_SampleSize (ms_sample s))"

lemma same_kind_refl [simp]: "same_kind s s"
  by (simp add: same_kind_def)

lemma same_kind_trans: "same_kind s t \<Longrightarrow> same_kind t u \<Longrightarrow> same_kind s u"
  by (simp add: same_kind_def)

lemma update_kind: "same_kind s (update_stts d s)" "same_kind s (update_ctts s)"
  by (simp_all add: same_kind_def update_stts_def update_ctts_def split: option.split prod.split)

lemma commit_kind: "same_kind s (commit_sample pos p s)"
proof -
  let ?s = "s\<lparr>ms_lastPacketDataOffset := pos + pw_extraSize (pending_of p), ms_lastPacketDataSize := length (mk_data p)\<rparr>"
  let ?t = "?s\<lparr>ms_sample := add_sync ?s p (ms_sample ?s)\<rparr>"
  let ?u = "update_ctts (update_stts (word_of_int (Stream_timeToTS ?t (mk_dur p))) ?t)"
  have "same_kind s ?t" by (simp add: same_kind_def add_sync_def split: option.split)
  also have "same_kind ?t ?u" for P by (rule same_kind_trans [OF update_kind])
  finally (same_kind_trans) have "same_kind s ?u" .
  then show ?thesis by (simp add: commit_sample_def Let_def same_kind_def add_chunk_def option.map_comp o_def)
qed

lemma spec_commit_kind:
  "i < length (fst a) \<Longrightarrow> same_kind (fst a ! i) (fst (spec_commit j ts x a) ! i)"
  using commit_kind [of "fst a ! j" "position (snd a)"]
  by (cases a; cases "i = j") (auto simp: spec_commit_def same_kind_def split: option.split)

lemma spec_run_kind: "i < length (fst a) \<Longrightarrow> same_kind (fst a ! i) (fst (spec_run ps a) ! i)"
proof (induction ps arbitrary: a)
  case (Cons p ps)
  have "same_kind (fst a ! i) (fst (spec_write p a) ! i)" unfolding spec_write_def by (rule spec_commit_kind [OF Cons.prems])
  also have "same_kind (fst (spec_write p a) ! i) (fst (spec_run ps (spec_write p a)) ! i)"
    using Cons.prems by (intro Cons.IH) simp
  finally (same_kind_trans) show ?case by (simp add: spec_run_def)
qed (simp add: spec_run_def)

lemma spec_trailer_kind: "i < length (fst a) \<Longrightarrow> same_kind (fst a ! i) (fst (spec_trailer a) ! i)"
proof -
  have "same_kind (fst a ! i) (fst (fold spec_last is a) ! i)" if "i < length (fst a)" for "is" and a :: spec
    using that
  proof (induction "is" arbitrary: a)
    case (Cons j js)
    have "same_kind (fst a ! i) (fst (spec_last j a) ! i)"
      using Cons.prems spec_commit_kind [of i a j] by (auto simp: spec_last_def split: option.split)
    also have "same_kind (fst (spec_last j a) ! i) (fst (fold spec_last js (spec_last j a)) ! i)"
      using Cons.prems by (intro Cons.IH) simp
    finally (same_kind_trans) show ?case by simp
  qed simp
  then show "i < length (fst a) \<Longrightarrow> ?thesis" by (simp add: spec_trailer_def)
qed

text \<open>A stream as \<open>newStream\<close> makes it, at index \<open>i\<close>.\<close>

definition new_kind :: "time \<Rightarrow> nat \<Rightarrow> mux_stream \<Rightarrow> bool" where
  "new_kind now i s \<longleftrightarrow> ms_trackAtom s = new_track now i (ms_codec s) \<and> stbl_SampleDesc (ms_sample s) = Some empty_stsd \<and>
     map_option stsz_SampleSize (stbl_SampleSize (ms_sample s)) = Some 0"

lemma same_new_kind: "same_kind s s' \<Longrightarrow> new_kind now i s \<Longrightarrow> new_kind now i s'"
  by (simp add: same_kind_def new_kind_def)

lemma new_stream_kind:
  assumes "new_stream_opt now c m = (m', e)" "\<forall>i<length (mx_streams m). new_kind now i (mx_streams m ! i)"
  shows "\<forall>i<length (mx_streams m'). new_kind now i (mx_streams m' ! i)"
  using assms
  by (auto simp: new_stream_opt_def newStream_def nth_append new_kind_def new_sample_table_def less_Suc_eq split: option.splits if_splits)

lemma reset_kind: "same_kind s (reset_composition s)"
  by (simp add: reset_composition_def same_kind_def)

lemma Mux_kind:
  assumes "Mux now video audio (NewMuxer w batched) = (m, None)" "i < length (mx_streams m)"
  shows "new_kind now i (mx_streams m ! i)"
proof -
  from assms(1) obtain m1 m2 where
    m1: "new_stream_opt now video ((releasePending (NewMuxer w batched))\<lparr>mx_streams := [], mx_flushed := False,
      mx_writePosition := headerSize\<rparr>) = (m1, None)"
    and m2: "new_stream_opt now audio m1 = (m2, None)" and m: "mx_streams m = map reset_composition (mx_streams m2)"
    by (auto simp: Mux_def then_do_def split: prod.splits option.splits)
  have "\<forall>i<length (mx_streams m1). new_kind now i (mx_streams m1 ! i)" by (rule new_stream_kind [OF m1]) simp
  then have "\<forall>i<length (mx_streams m2). new_kind now i (mx_streams m2 ! i)" by (rule new_stream_kind [OF m2])
  then show ?thesis using assms(2) same_new_kind [OF reset_kind] by (simp add: m)
qed

section \<open>The codec of a track\<close>

lemma FindChildren_other: "Atom_Tag a \<noteq> tag \<Longrightarrow> FindChildren a tag = first_some (\<lambda>c. FindChildren c tag) (Children a)"
  by (subst FindChildren.simps) simp

lemma FindChildren_same: "Atom_Tag a = tag \<Longrightarrow> FindChildren a tag = Some a"
  by (subst FindChildren.simps) simp

text \<open>The codec the demuxer makes of what the muxer stored.\<close>

fun reread_codec :: "media_codec \<Rightarrow> media_codec res" where
  "reread_codec (H264_par p) = ebind (NewCodecDataFromAVCDecoderConfRecord (hp_Record p)) (\<lambda>p. Inr (H264_par p))"
| "reread_codec (H265_par p) = ebind (NewCodecDataFromHEVCDecoderConfRecord (vp_Record p)) (\<lambda>p. Inr (H265_par p))"
| "reread_codec (MJPEG_par p) = Inr (MJPEG_par (mjpeg_NewCodecParameters
     (unat (scast (ucast (par_Width (MJPEG_par p)) :: 16 word) :: 64 word))
     (unat (scast (ucast (par_Height (MJPEG_par p)) :: 16 word) :: 64 word)) 25))"
| "reread_codec (AAC_par p) = ebind (NewCodecDataFromMPEG4AudioConfigBytes (ap_ConfigBytes p)) (\<lambda>p. Inr (AAC_par p))"
| "reread_codec (Other_par t) = Inl Panic"

definition stored_track :: "mux_stream \<Rightarrow> Track" where
  "stored_track s = trak_norm (with_table (finish_stream s))"

lemmas all_tags = TRAK_def TKHD_def MDIA_def MDHD_def HDLR_def MINF_def SMHD_def VMHD_def DINF_def DREF_def URL_def
  STBL_def STSD_def STTS_def CTTS_def STSC_def STSS_def STCO_def CO64_def STSZ_def AVC1_def AVCC_def HEV1_def HVCC_def MJPG_def
  MP4A_def ESDS_def

definition conf_tag :: "Tag \<Rightarrow> bool" where
  "conf_tag tag \<longleftrightarrow> tag = AVCC \<or> tag = HVCC \<or> tag = MJPG \<or> tag = ESDS"

lemma first_some_append: "first_some f (xs @ ys) = (case first_some f xs of None \<Rightarrow> first_some f ys | Some y \<Rightarrow> Some y)"
  by (induction xs) (auto split: option.split)

lemma first_some_none: "\<forall>x\<in>set xs. f x = None \<Longrightarrow> first_some f xs = None"
  by (induction xs) auto

lemma leaf_none: "Children a = [] \<Longrightarrow> Atom_Tag a \<noteq> tag \<Longrightarrow> FindChildren a tag = None"
  by (simp add: FindChildren_other)

lemma find_stbl:
  assumes "conf_tag tag" shows "FindChildren (ASampleTable t) tag =
    (case stbl_SampleDesc t of None \<Rightarrow> None | Some d \<Rightarrow> FindChildren (ASampleDesc d) tag)"
proof -
  have n: "FindChildren (ATimeToSample a) tag = None" "FindChildren (ACompositionOffset b) tag = None"
    "FindChildren (ASampleToChunk c) tag = None" "FindChildren (ASyncSample d) tag = None" "FindChildren (AChunkOffset e) tag = None"
    "FindChildren (ASampleSize z) tag = None" for a b c d e z
    using assms by (auto intro!: leaf_none simp: conf_tag_def all_tags ChunkOffset_Tag_def split: if_splits)
  have "STBL \<noteq> tag" using assms by (auto simp: conf_tag_def all_tags)
  then show ?thesis
    by (subst FindChildren_other) (auto simp: n some_def first_some_append split: option.split)
qed

lemma find_minf:
  assumes "conf_tag tag" "minf_Data i = Some url_reference" "minf_Unknowns i = []"
  shows "FindChildren (AMediaInfo i) tag = (case minf_Sample i of None \<Rightarrow> None | Some t \<Rightarrow> FindChildren (ASampleTable t) tag)"
proof -
  have u: "FindChildren (ADataReferUrl x) tag = None" for x
    using assms(1) by (auto intro!: leaf_none simp: conf_tag_def all_tags)
  have "DREF \<noteq> tag" "DINF \<noteq> tag" using assms(1) by (auto simp: conf_tag_def all_tags)
  then have n: "FindChildren (ADataInfo url_reference) tag = None"
    by (simp add: FindChildren_other url_reference_def some_def u)
  have l: "FindChildren (ASoundMediaInfo a) tag = None" "FindChildren (AVideoMediaInfo b) tag = None" for a b
    using assms(1) by (auto intro!: leaf_none simp: conf_tag_def all_tags)
  have "MINF \<noteq> tag" using assms(1) by (auto simp: conf_tag_def all_tags)
  then show ?thesis
    by (subst FindChildren_other) (auto simp: l n assms(2,3) some_def first_some_append split: option.split)
qed

lemma find_trak:
  assumes "conf_tag tag" "trak_Media t = Some d" "mdia_Info d = Some i" "mdia_Unknowns d = []" "trak_Unknowns t = []"
  shows "FindChildren (ATrack t) tag = FindChildren (AMediaInfo i) tag"
proof -
  have l: "FindChildren (ATrackHeader a) tag = None" "FindChildren (AMediaHeader b) tag = None"
    "FindChildren (AHandlerRefer c) tag = None" for a b c
    using assms(1) by (auto intro!: leaf_none simp: conf_tag_def all_tags)
  have "TRAK \<noteq> tag" "MDIA \<noteq> tag" using assms(1) by (auto simp: conf_tag_def all_tags)
  then show ?thesis
    by (simp add: FindChildren_other assms some_def first_some_append l split: option.split)
qed

text \<open>The track of a finished stream: its tables, its time scale and the description of its codec.\<close>

lemma stored_track_parts:
  assumes "new_kind now i s"
  obtains d f where "trak_Media (stored_track s) = Some d" "mdia_Info d = Some f" "mdia_Unknowns d = []"
    "trak_Unknowns (stored_track s) = []" "minf_Data f = Some url_reference" "minf_Unknowns f = []"
    "minf_Sample f = Some ((ms_sample s)\<lparr>stbl_SampleDesc := Some (stsd_norm (describe (ms_codec s) empty_stsd))\<rparr>)"
    "\<exists>h. mdia_Header d = Some h \<and> mdhd_TimeScale h = word_of_int (ms_timeScale s)"
proof -
  have k: "ms_trackAtom s = new_track now i (ms_codec s)" "stbl_SampleDesc (ms_sample s) = Some empty_stsd"
    using assms by (simp_all add: new_kind_def)
  have "\<exists>d f. trak_Media (stored_track s) = Some d \<and> mdia_Info d = Some f \<and> mdia_Unknowns d = [] \<and>
    trak_Unknowns (stored_track s) = [] \<and> minf_Data f = Some url_reference \<and> minf_Unknowns f = [] \<and>
    minf_Sample f = Some ((ms_sample s)\<lparr>stbl_SampleDesc := Some (stsd_norm (describe (ms_codec s) empty_stsd))\<rparr>) \<and>
    (\<exists>h. mdia_Header d = Some h \<and> mdhd_TimeScale h = word_of_int (ms_timeScale s))"
    by (cases "ms_codec s") (simp_all add: stored_track_def trak_norm_def mdia_norm_def mdhd_norm_def minf_norm_def stbl_norm_def
        with_table_def finish_stream_def set_track_duration_def fillTrackAtom_def Let_def with_times_def with_sound_def k new_track_def)
  then show ?thesis by (elim exE conjE) (rule that; (assumption | blast))
qed

lemma find_stored:
  assumes "new_kind now i s" "conf_tag tag"
  shows "FindChildren (ATrack (stored_track s)) tag = FindChildren (ASampleDesc (stsd_norm (describe (ms_codec s) empty_stsd))) tag"
  by (rule stored_track_parts [OF assms(1)])
    (simp add: find_trak [OF assms(2)] find_minf [OF assms(2)] find_stbl [OF assms(2)])

lemmas find_simps = FindChildren_other FindChildren_same describe_def empty_stsd_def stsd_norm_def some_def all_tags
  video_desc_def hevc_desc_def jpeg_desc_def audio_desc_def mp4a_norm_def esds_norm_def

lemma conf_tags: "conf_tag AVCC" "conf_tag HVCC" "conf_tag MJPG" "conf_tag ESDS"
  by (simp_all add: conf_tag_def)

lemma stored_codec:
  assumes "new_kind now i s" "reread_codec (ms_codec s) = Inr c"
  shows "track_codec (stored_track s) = Inr (Some c)"
proof -
  note f = find_stored [OF assms(1) conf_tags(1)] find_stored [OF assms(1) conf_tags(2)]
    find_stored [OF assms(1) conf_tags(3)] find_stored [OF assms(1) conf_tags(4)]
  show ?thesis
  proof (cases "ms_codec s")
    case (H264_par p)
    have "GetAVC1Conf (stored_track s) = Some \<lparr>avcc_Data = hp_Record p\<rparr>"
      unfolding GetAVC1Conf_def f H264_par by (simp add: find_simps)
    then show ?thesis using assms(2) H264_par by (auto simp: track_codec_def ebind_Inr_iff)
  next
    case (H265_par p)
    have "GetAVC1Conf (stored_track s) = None" "GetHV1Conf (stored_track s) = Some \<lparr>hvcc_Data = vp_Record p\<rparr>"
      unfolding GetAVC1Conf_def GetHV1Conf_def f H265_par by (simp_all add: find_simps)
    then show ?thesis using assms(2) H265_par by (auto simp: track_codec_def ebind_Inr_iff)
  next
    case (MJPEG_par p)
    have "GetAVC1Conf (stored_track s) = None" "GetHV1Conf (stored_track s) = None"
      "GetMJPGDesc (stored_track s) = Some (jpeg_desc (MJPEG_par p))"
      unfolding GetAVC1Conf_def GetHV1Conf_def GetMJPGDesc_def f MJPEG_par by (simp_all add: find_simps)
    then show ?thesis using assms(2) MJPEG_par by (auto simp: track_codec_def jpeg_desc_def)
  next
    case (AAC_par p)
    have "GetAVC1Conf (stored_track s) = None" "GetHV1Conf (stored_track s) = None" "GetMJPGDesc (stored_track s) = None"
      "map_option esds_DecConfig (GetElemStreamDesc (stored_track s)) = Some (ap_ConfigBytes p)"
      unfolding GetAVC1Conf_def GetHV1Conf_def GetMJPGDesc_def GetElemStreamDesc_def f AAC_par by (simp_all add: find_simps)
    then show ?thesis using assms(2) AAC_par by (auto simp: track_codec_def ebind_Inr_iff)
  qed (use assms(2) in simp)
qed

section \<open>The tables of a track\<close>

definition key_numbers :: "media_packet list \<Rightarrow> nat list" where
  "key_numbers ps = filter (\<lambda>k. is_key (ps ! k)) [0..<length ps]"

definition keys_of :: "media_packet list \<Rightarrow> nat list option" where
  "keys_of ps = (if key_numbers ps = [] then None else Some (key_numbers ps))"

definition dropped_sync :: "SampleTable \<Rightarrow> SampleTable" where
  "dropped_sync t = (case stbl_SyncSample t of None \<Rightarrow> t
     | Some ss \<Rightarrow> if length (stss_Entries ss) = 0 then t\<lparr>stbl_SyncSample := None\<rparr> else t)"

lemma stored_table:
  assumes "new_kind now i s"
  shows "track_table (stored_track s) = Inr (dropped_sync ((ms_sample s)\<lparr>stbl_SampleDesc :=
      Some (stsd_norm (describe (ms_codec s) empty_stsd))\<rparr>))"
    and "track_scale (stored_track s) = Inr (uint (word_of_int (ms_timeScale s) :: 32 word))"
  by (rule stored_track_parts [OF assms]; auto simp: track_table_def dropped_sync_def track_scale_def deref_def)+

lemma key_numbers_sorted: "sorted_wrt (<) (key_numbers ps)" "\<forall>k\<in>set (key_numbers ps). k < length ps"
  by (auto simp: key_numbers_def sorted_wrt_filter)

lemma sync_key_numbers: "sync_numbers ps = map (\<lambda>k. word_of_nat (k + 1)) (key_numbers ps)"
  by (simp add: sync_numbers_def key_numbers_def)

text \<open>A sample of the muxer takes up less than \<open>2 ^ 32\<close> bytes.\<close>

lemma located_flat:
  assumes l: "located fl s ps" and n: "length ps < 2 ^ 32 - 1"
    and z: "\<exists>z. stbl_SampleSize (ms_sample s) = Some z \<and> stsz_SampleSize z = 0"
  obtains offs where "flat_table (dropped_sync ((ms_sample s)\<lparr>stbl_SampleDesc := d\<rparr>)) offs
      (map (\<lambda>p. length (sample_bytes p)) ps) (map sample_ts ps) (keys_of ps)"
    "\<forall>k<length ps. offs ! k \<le> length fl \<and> sub fl (offs ! k) (offs ! k + length (sample_bytes (ps ! k))) = sample_bytes (ps ! k)"
proof -
  from l obtain offs where o: "length offs = length ps" "\<forall>off\<in>set offs. off \<le> length fl"
    "\<forall>k<length ps. sub fl (offs ! k) (offs ! k + length (sample_bytes (ps ! k))) = sample_bytes (ps ! k)"
    "map_option stco_Entries (stbl_ChunkOffset (ms_sample s)) = Some (map word_of_nat offs)"
    "map_option stsz_Entries (stbl_SampleSize (ms_sample s)) = Some (map (\<lambda>p. word_of_nat (length (sample_bytes p))) ps)"
    "map_option stss_Entries (stbl_SyncSample (ms_sample s)) = Some (sync_numbers ps)"
    "map_option stsc_Entries (stbl_SampleToChunk (ms_sample s)) =
       Some [\<lparr>stsc_FirstChunk = 1, stsc_SamplesPerChunk = 1, stsc_SampleDescId = 1\<rparr>]"
    and t: "length ps < 2 ^ 32 \<longrightarrow>
       (\<exists>t. stbl_TimeToSample (ms_sample s) = Some t \<and> stts_counted (stts_Entries t) \<and>
          stts_expand (stts_Entries t) = map sample_ts ps) \<and>
       (\<exists>t. stbl_CompositionOffset (ms_sample s) = Some t \<and> ctts_counted (ctts_Entries t) \<and>
          ctts_expand (ctts_Entries t) = replicate (length ps) 0)"
    unfolding located_def by (elim exE conjE) (rule that)
  let ?t = "dropped_sync ((ms_sample s)\<lparr>stbl_SampleDesc := d\<rparr>)"
  obtain ss where ss: "stbl_SyncSample (ms_sample s) = Some ss" "stss_Entries ss = sync_numbers ps" using o(6) by auto
  have e: "sync_numbers ps = [] \<longleftrightarrow> key_numbers ps = []" by (simp add: sync_key_numbers)
  have fr: "stbl_ChunkOffset ?t = stbl_ChunkOffset (ms_sample s)" "stbl_SampleSize ?t = stbl_SampleSize (ms_sample s)"
    "stbl_SampleToChunk ?t = stbl_SampleToChunk (ms_sample s)" "stbl_TimeToSample ?t = stbl_TimeToSample (ms_sample s)"
    "stbl_CompositionOffset ?t = stbl_CompositionOffset (ms_sample s)"
    "stbl_SyncSample ?t = (if key_numbers ps = [] then None else Some ss)"
    by (simp_all add: dropped_sync_def ss e)
  have "map_option stss_Entries (stbl_SyncSample ?t) = map_option (map (\<lambda>k. word_of_nat (k + 1))) (keys_of ps)"
    by (simp add: fr keys_of_def ss sync_key_numbers)
  moreover have "map_option (\<lambda>z. (stsz_SampleSize z, stsz_Entries z)) (stbl_SampleSize ?t) =
      Some (0, map word_of_nat (map (\<lambda>p. length (sample_bytes p)) ps))"
    using o(5) z by (auto simp: fr)
  moreover have "case keys_of ps of None \<Rightarrow> True | Some ks \<Rightarrow> ks \<noteq> [] \<and> sorted_wrt (<) ks \<and> (\<forall>k\<in>set ks. k < length (map sample_ts ps))"
    using key_numbers_sorted [of ps] by (simp add: keys_of_def)
  moreover have "\<exists>tt. stbl_TimeToSample ?t = Some tt \<and> stts_counted (stts_Entries tt) \<and> stts_expand (stts_Entries tt) = map sample_ts ps"
    "\<exists>ct. stbl_CompositionOffset ?t = Some ct \<and> ctts_counted (ctts_Entries ct) \<and>
       length (ctts_expand (ctts_Entries ct)) = length (map sample_ts ps)"
    using t n by (auto simp: fr)
  ultimately have "flat_table ?t offs (map (\<lambda>p. length (sample_bytes p)) ps) (map sample_ts ps) (keys_of ps)"
    using o(1,4,7) n unfolding flat_table_def by (simp only: fr length_map)
  then show ?thesis using that o(1,2,3) by (metis nth_mem)
qed

section \<open>The boxes of the file\<close>

lemma read_full_sub:
  assumes "drop pos fl = x @ r" "pos \<le> length fl" shows "read_full_at fl pos (length x) = Inr x"
proof -
  have "length fl - pos = length x + length r" using arg_cong [OF assms(1), of length] by simp
  then show ?thesis using assms by (auto simp: read_full_at_def sub_def)
qed

lemma exact_reads: "U32BE (be32 w) = Inr w" "I64BE (be64 x) = Inr x"
  using U_be(4) [of w "[]"] I_be(2) [of x "[]"] by simp_all

lemma read_header_small:
  assumes "drop pos fl = be32 n @ be32 tag @ r" "pos \<le> length fl" "\<not> (tag = MDAT \<and> n = 1)"
  shows "read_header fl pos = Inr (be32 n @ be32 tag, tag, uint n, False)"
proof -
  have "read_full_at fl pos 8 = Inr (be32 n @ be32 tag)"
    using read_full_sub [of pos fl "be32 n @ be32 tag" r] assms by simp
  then show ?thesis using assms(3) by (auto simp: read_header_def be_value_def Let_def exact_reads)
qed

lemma read_header_large:
  assumes "drop pos fl = be32 1 @ be32 MDAT @ be64 n @ r" "pos \<le> length fl"
  shows "read_header fl pos = Inr (be32 1 @ be32 MDAT, MDAT, sint n, True)"
proof -
  have "read_full_at fl pos 8 = Inr (be32 1 @ be32 MDAT)"
    using read_full_sub [of pos fl "be32 1 @ be32 MDAT"] assms by simp
  moreover have d: "drop (pos + 8) fl = be64 n @ r" using arg_cong [OF assms(1), of "drop 8"] by (simp add: add.commute)
  have "pos + 8 \<le> length fl" using arg_cong [OF assms(1), of length] by simp
  then have "read_full_at fl (pos + 8) 8 = Inr (be64 n)" using read_full_sub [OF d] by simp
  ultimately show ?thesis by (simp add: read_header_def be_value_def Let_def exact_reads)
qed

lemma read_atoms_end: "length fl \<le> pos \<Longrightarrow> read_atoms fl pos as = Some (None, as, pos)"
  by (subst read_atoms.simps) simp

lemma read_atoms_skip:
  assumes "read_header fl pos = Inr (h, tag, sz, ext)" "pos < length fl" "tag \<noteq> MOOV" "tag \<noteq> MOOF" "0 \<le> sz"
    and "ext \<Longrightarrow> 16 \<le> sz" "8 \<le> sz"
  shows "read_atoms fl pos as = read_atoms fl (pos + nat sz) (as @ [TopDummy tag pos sz])"
proof -
  have "int pos + (if ext then 16 else 8) + (sz - 8 - (if ext then 8 else 0)) = int (pos + nat sz)" using assms(5) by simp
  then show ?thesis
    using assms(1-4) by (subst read_atoms.simps) (simp only: Let_def fst_conv snd_conv sum.case nat_int not_le, simp)
qed

lemma read_atoms_movie:
  assumes "drop pos fl = box MOOV body" "pos < length fl" "8 + length body < 2 ^ 32"
    and "Movie_Unmarshal (box MOOV body) pos = Some (Inr mv)"
  shows "read_atoms fl pos as = Some (None, as @ [TopMovie mv], length fl)"
proof -
  define n where "n = (word_of_nat (8 + length body) :: 32 word)"
  have n: "nat (uint n) = 8 + length body" "uint n = int (8 + length body)"
    using unat32 [OF assms(3)] by (simp_all only: n_def uint_nat nat_int)
  have bx: "box MOOV body = be32 n @ be32 MOOV @ body" by (simp only: box_def n_def)
  have h: "read_header fl pos = Inr (be32 n @ be32 MOOV, MOOV, uint n, False)"
    by (rule read_header_small [where r = body]) (use assms(1,2) bx in \<open>simp_all, simp add: MOOV_def MDAT_def\<close>)
  have l: "length fl = pos + 8 + length body" using arg_cong [OF assms(1), of length] assms(2) by (simp add: bx)
  have d: "drop (pos + 8) fl = body @ []" using arg_cong [OF assms(1), of "drop 8"] by (simp add: bx add.commute)
  have "read_full_at fl (pos + 8) (length body) = Inr body" using d l by (intro read_full_sub) simp_all
  then have b: "read_box fl (be32 n @ be32 MOOV) pos (uint n) = Inr (box MOOV body)"
    unfolding read_box_def n(1) by (simp add: n(2) bx)
  have "read_atoms fl pos as = read_atoms fl (pos + nat (uint n)) (as @ [TopMovie mv])"
    using assms(2,4) by (subst read_atoms.simps) (simp add: h b as_io_def)
  then show ?thesis using l n read_atoms_end [of fl "length fl"] by (simp add: add.assoc)
qed

lemma ftyp_box: "ftyp_layout NewFileType = be32 32 @ be32 FTYP @ drop 8 (ftyp_layout NewFileType)"
  "length (ftyp_layout NewFileType) = 32"
  by (simp_all add: ftyp_layout_def NewFileType_def box_def)

lemma sized_header_bytes:
  "sized_header sz = ftyp_layout NewFileType @ be32 8 @ be32 FREE @ be32 1 @ be32 MDAT @ be64 sz"
  by (simp add: sized_header_def mdatExtSizeOffset_def marshalHeader_bytes put_at_def ftyp_box(2) box_def)

text \<open>The four boxes of a file of the muxer.\<close>

lemma read_written:
  assumes "fl = sized_header (word_of_nat (16 + length body)) @ body @ moov_layout mv" "length fl < 2 ^ 63" "moov_ok mv"
  obtains as where "ReadFileAtoms fl 0 = Some (None, as, length fl)" "last_movie as = Some (moov_norm mv)"
proof -
  let ?sz = "word_of_nat (16 + length body) :: 64 word"
  have len: "length fl = 56 + length body + length (moov_layout mv)" by (simp add: assms(1) headerSize_def)
  have sz: "sint ?sz = int (16 + length body)"
  proof -
    have "sint ?sz = wrap64 (int (16 + length body))" by (simp only: wrap64_def of_int_of_nat_eq)
    then show ?thesis using wrap64_id [of "int (16 + length body)"] assms(2) len by simp
  qed
  have d0: "drop 0 fl = be32 32 @ be32 FTYP @ drop 8 (ftyp_layout NewFileType) @ be32 8 @ be32 FREE @ be32 1 @ be32 MDAT @ be64 ?sz @ body @ moov_layout mv"
    using assms(1) ftyp_box(1) by (simp add: sized_header_bytes)
  have f: "length (be32 32 @ be32 FTYP @ drop 8 (ftyp_layout NewFileType)) = 32" by (simp add: ftyp_box(2))
  have d1: "drop 32 fl = be32 8 @ be32 FREE @ be32 1 @ be32 MDAT @ be64 ?sz @ body @ moov_layout mv"
    using assms(1) ftyp_box(2) by (simp add: sized_header_bytes)
  have d2: "drop 40 fl = be32 1 @ be32 MDAT @ be64 ?sz @ body @ moov_layout mv"
    using arg_cong [OF d1, of "drop 8"] by simp
  have d3: "drop (40 + (16 + length body)) fl = moov_layout mv"
    using arg_cong [OF d2, of "drop (16 + length body)"] by (simp add: add.commute)
  define a1 where "a1 = [TopDummy FTYP 0 32]"
  have s1: "read_atoms fl 0 [] = read_atoms fl 32 a1"
    using read_atoms_skip [OF read_header_small [OF d0], of "[]"] len by (simp add: FTYP_def MDAT_def MOOV_def MOOF_def a1_def)
  define a2 where "a2 = a1 @ [TopDummy FREE 32 8]"
  have s2: "read_atoms fl 32 a1 = read_atoms fl 40 a2"
    using read_atoms_skip [OF read_header_small [OF d1], of a1] len by (simp add: FREE_def MDAT_def MOOV_def MOOF_def a2_def)
  define a3 where "a3 = a2 @ [TopDummy MDAT 40 (int (16 + length body))]"
  have s3: "read_atoms fl 40 a2 = read_atoms fl (40 + (16 + length body)) a3"
    using read_atoms_skip [OF read_header_large [OF d2], of a2] len unfolding sz
    by (simp add: MDAT_def MOOV_def MOOF_def a3_def nat_add_distrib)
  have mb: "moov_layout mv = box MOOV (drop 8 (moov_layout mv))" "8 < length (moov_layout mv) \<and> length (moov_layout mv) < 2 ^ 32"
    using moov.layout_box [OF assms(3)] moov.layout_length [OF assms(3)] by simp_all
  have ne: "moov_layout mv \<noteq> []" using mb(2) by auto
  have "read_atoms fl (40 + (16 + length body)) a3 = Some (None, a3 @ [TopMovie (moov_norm mv)], length fl)"
    by (rule read_atoms_movie [where body = "drop 8 (moov_layout mv)"])
      (use d3 mb len ne moov_reread [OF assms(3)] in \<open>simp_all flip: mb(1)\<close>)
  moreover have "last_movie (a3 @ [TopMovie (moov_norm mv)]) = Some (moov_norm mv)" by (simp add: last_movie_def)
  ultimately show ?thesis using that s1 s2 s3 by (simp add: ReadFileAtoms_def)
qed

section \<open>Probing\<close>

definition probed :: "nat \<times> SampleTable \<times> int \<times> media_codec \<Rightarrow> demux_stream" where
  "probed = (\<lambda>(i, tab, scale, c). new_demux_stream i scale tab c)"

definition track_gives :: "Track \<Rightarrow> SampleTable \<times> int \<times> media_codec \<Rightarrow> bool" where
  "track_gives t = (\<lambda>(tab, scale, c). track_table t = Inr tab \<and> track_scale t = Inr scale \<and> track_codec t = Inr (Some c))"

lemma probe_tracks_gives:
  "list_all2 track_gives ts xs \<Longrightarrow>
   \<exists>v a. probe_tracks i ts d = (Inr (), d\<lparr>dm_videoCodecData := v, dm_audioCodecData := a,
     dm_streams := dm_streams d @ map probed (List.enumerate i xs)\<rparr>)"
proof (induction ts xs arbitrary: i d rule: list_all2_induct)
  case Nil
  then show ?case by (intro exI [of _ "dm_videoCodecData d"] exI [of _ "dm_audioCodecData d"]) simp
next
  case (Cons t ts x xs)
  obtain tab scale c where x: "x = (tab, scale, c)" by (cases x)
  let ?d = "(note_codec c d)\<lparr>dm_streams := dm_streams d @ [new_demux_stream i scale tab c]\<rparr>"
  have p: "probe_track i t d = (Inr (), ?d)"
    using Cons.hyps(1) by (simp add: x track_gives_def probe_track_def)
  from Cons.IH [of "i + 1" ?d] obtain v a where
    "probe_tracks (i + 1) ts ?d = (Inr (), ?d\<lparr>dm_videoCodecData := v, dm_audioCodecData := a,
      dm_streams := dm_streams ?d @ map probed (List.enumerate (i + 1) xs)\<rparr>)" by blast
  then show ?case
    using p by (intro exI [of _ v] exI [of _ a]) (simp add: x probed_def note_codec_def split: media_codec.split)
qed

lemma Demux_gives:
  assumes "ReadFileAtoms fl 0 = Some (None, as, pos)" "last_movie as = Some mv" "list_all2 track_gives (moov_Tracks mv) xs"
  obtains pars d where "Demux (\<lambda>_. Some fl) (NewDemuxer url) = Some (Inr pars, d)" "dm_movieAtom d = Some mv"
    "dm_r d = OpenFile fl 0" "dm_streams d = map probed (List.enumerate 0 xs)"
proof -
  let ?d = "(NewDemuxer url)\<lparr>dm_r := OpenFile fl 0, dm_streams := []\<rparr>"
  from probe_tracks_gives [OF assms(3), of 0 ?d] obtain v a where
    t: "probe_tracks 0 (moov_Tracks mv) ?d = (Inr (), ?d\<lparr>dm_videoCodecData := v, dm_audioCodecData := a,
      dm_streams := map probed (List.enumerate 0 xs)\<rparr>)" by auto
  let ?e = "?d\<lparr>dm_videoCodecData := v, dm_audioCodecData := a, dm_streams := map probed (List.enumerate 0 xs),
      dm_movieAtom := Some mv\<rparr>"
  have "Demux (\<lambda>_. Some fl) (NewDemuxer url) = Some (Inr (v, a), ?e)"
    using t assms(1,2) by (simp add: Demux_def probe_def probe_atoms_def NewDemuxer_def)
  then show ?thesis by (rule that) simp_all
qed

section \<open>Durations\<close>

definition lasting :: "media_packet \<Rightarrow> bool" where
  "lasting p \<longleftrightarrow> 0 < mk_dur p \<and> mk_dur p \<le> maxSampleDuration"

lemma with_durations_lasting: "p \<in> set (with_durations ps) \<Longrightarrow> lasting p"
proof (induction ps rule: with_durations.induct)
  case (3 p q ps)
  then show ?case
    by (auto simp: lasting_def with_duration_def clamp_duration_def Millisecond_def maxSampleDuration_def second_def)
qed (auto simp: lasting_def Millisecond_def maxSampleDuration_def second_def)

lemma sample_bytes_dur [simp]: "sample_bytes (p\<lparr>mk_dur := d\<rparr>) = sample_bytes p"
proof -
  have "extras_of (p\<lparr>mk_dur := d\<rparr>) = extras_of p" by (simp add: extras_of_def)
  then show ?thesis by (simp add: sample_bytes_def)
qed

lemma with_durations_bytes: "map sample_bytes (with_durations ps) = map sample_bytes ps"
  by (induction ps rule: with_durations.induct) (simp_all add: with_duration_def)

lemma sample_ts_le:
  assumes "lasting p" shows "uint (sample_ts p) * second \<le> mk_dur p * 90000"
proof -
  have b: "0 < mk_dur p" "mk_dur p \<le> 5 * second"
    using assms by (auto simp: lasting_def Millisecond_def maxSampleDuration_def second_def)
  then have "wrap64 (mk_dur p * 90000) = mk_dur p * 90000" by (intro wrap64_id) (simp_all add: second_def)
  then have t: "timeToTS (mk_dur p) 90000 = mk_dur p * 90000 div second" using b by (simp add: timeToTS_def quot_nonneg)
  have "mk_dur p * 90000 div second \<le> 450000" using b by (simp add: second_def)
  moreover have "0 \<le> mk_dur p * 90000 div second" using b by (simp add: second_def)
  ultimately have "uint (sample_ts p) = mk_dur p * 90000 div second"
    by (simp add: sample_ts_def t unsigned_of_int take_bit_int_eq_self)
  then show ?thesis by (simp add: second_def)
qed

lemma total_ts:
  assumes "\<forall>p\<in>set ps. lasting p" "(\<Sum>p\<leftarrow>ps. mk_dur p) \<le> 10 ^ 14"
  shows "(\<Sum>d\<leftarrow>map sample_ts ps. uint d) * second < 2 ^ 63"
proof -
  have "(\<Sum>d\<leftarrow>map sample_ts ps. uint d) * second \<le> (\<Sum>p\<leftarrow>ps. mk_dur p) * 90000"
    using assms(1) by (induction ps) (auto simp: algebra_simps dest!: sample_ts_le)
  then show ?thesis using assms(2) by simp
qed

section \<open>Reading back what was written\<close>

text \<open>The streams and the samples of a finished file.\<close>

definition written_streams :: "mux_op list \<Rightarrow> muxer \<Rightarrow> mux_stream list" where
  "written_streams ops m = map finish_stream (fst (spec_trailer (spec_run (packets_of ops) (mx_streams m, []))))"

definition written_samples :: "mux_op list \<Rightarrow> nat \<Rightarrow> media_packet list" where
  "written_samples ops i = with_durations (filter (on_stream i) (packets_of ops))"

text \<open>
  The packet read for the sample \<open>k\<close> of \<open>ps\<close>, on stream \<open>i\<close>: \<open>r\<close> gives the duration and the data that
  come of the bytes of a sample.
\<close>

definition read_back :: "nat \<Rightarrow> media_codec \<Rightarrow> (bytes \<Rightarrow> int \<times> bytes) \<Rightarrow> media_packet list \<Rightarrow> nat \<Rightarrow> dx_pkt" where
  "read_back i c r ps k = \<lparr>dp_stream = word_of_nat i,
     dp_key = (case c of AAC_par _ \<Rightarrow> False | _ \<Rightarrow> is_key (ps ! k)),
     dp_ts = due 90000 (map sample_ts ps) k, dp_dur = fst (r (sample_bytes (ps ! k))),
     dp_data = snd (r (sample_bytes (ps ! k))), dp_par = c\<rparr>"

lemma Mux_length:
  "Mux now video audio (NewMuxer w batched) = (m, None) \<Longrightarrow> length (mx_streams m) \<le> 2"
  by (auto simp: Mux_def NewMuxer_def releasePending_def new_stream_opt_def newStream_def then_do_def split: option.splits if_splits)

lemma sum_filter_lengths:
  "\<forall>x\<in>set xs. f x < n \<Longrightarrow> (\<Sum>i\<leftarrow>[0..<n]. length (filter (\<lambda>x. f x = i) xs)) = length xs"
proof (induction xs)
  case (Cons x xs)
  have "(\<Sum>i\<leftarrow>[0..<n]. length (filter (\<lambda>x. f x = i) (x # xs))) =
      (\<Sum>i\<leftarrow>[0..<n]. if i = f x then 1 else 0) + (\<Sum>i\<leftarrow>[0..<n]. length (filter (\<lambda>x. f x = i) xs))"
    unfolding sum_list_addf [symmetric] by (intro arg_cong [where f = sum_list] map_cong) auto
  moreover have "(\<Sum>i\<leftarrow>[0..<n]. if i = f x then 1 else 0) = (1 :: nat)"
    using Cons.prems by (simp add: interv_sum_list_conv_sum_set_nat)
  ultimately show ?case using Cons by simp
qed simp

lemma new_stream_left:
  assumes l: "located fl s ps" and k: "new_kind now i s" and z: "ms_timeScale s = 90000"
    and d: "\<forall>p\<in>set ps. lasting p" "(\<Sum>p\<leftarrow>ps. mk_dur p) \<le> 10 ^ 14" and n: "length ps < 2 ^ 32 - 1" and b: "length fl < 2 ^ 63"
    and r: "\<forall>p\<in>set ps. plays c (sample_bytes p) (r (sample_bytes p)) \<and> length (sample_bytes p) < 2 ^ 32"
  shows "flat_left (OpenFile fl 0) (new_demux_stream i 90000 (dropped_sync ((ms_sample s)\<lparr>stbl_SampleDesc := desc\<rparr>)) c)
    (map (read_back i c r ps) [0..<length ps])"
proof -
  let ?tab = "dropped_sync ((ms_sample s)\<lparr>stbl_SampleDesc := desc\<rparr>)"
  let ?s = "new_demux_stream i 90000 ?tab c"
  have "\<exists>z. stbl_SampleSize (ms_sample s) = Some z \<and> stsz_SampleSize z = 0" using k by (auto simp: new_kind_def)
  from located_flat [OF l n this, of desc] obtain offs where
    f: "flat_table ?tab offs (map (\<lambda>p. length (sample_bytes p)) ps) (map sample_ts ps) (keys_of ps)"
    "\<forall>k<length ps. offs ! k \<le> length fl \<and> sub fl (offs ! k) (offs ! k + length (sample_bytes (ps ! k))) = sample_bytes (ps ! k)" .
  have t: "stts_counted (stts_Entries (the (stbl_TimeToSample ?tab)))" "ctts_counted (ctts_Entries (the (stbl_CompositionOffset ?tab)))"
    using f(1) by (auto simp: flat_table_def)
  have y: "keys_at (keys_of ps) 0 0"
    using key_numbers_sorted(1) [of ps] sync_at_0 [of "key_numbers ps"] by (simp add: keys_of_def keys_at_def)
  have a: "at_sample ?s (keys_of ps) (map sample_ts ps) 0"
    using run_at_0 [OF counted_pos(1) [OF t(1)]] run_at_0 [OF counted_pos(2) [OF t(2)]] y
    by (simp add: at_sample_def new_demux_stream_def wrap64_def)
  have key: "(case keys_of ps of None \<Rightarrow> False | Some l \<Rightarrow> k \<in> set l) = is_key (ps ! k)" if "k < length ps" for k
  proof -
    have "k \<in> set (key_numbers ps) \<longleftrightarrow> is_key (ps ! k)" using that by (simp add: key_numbers_def)
    then show ?thesis by (auto simp: keys_of_def)
  qed
  have x: "map (read_back i c r ps) [0..<length ps] =
      map (nth_packet i c 90000 (keys_of ps) (map sample_ts ps) (map (\<lambda>p. r (sample_bytes p)) ps)) [0..<length ps]"
    by (rule map_cong) (auto simp: read_back_def nth_packet_def key split: media_codec.split)
  have sm: "\<forall>j<length (map sample_ts ps). \<exists>x. sample_in fl (offs ! j) (map (\<lambda>p. length (sample_bytes p)) ps ! j) x \<and>
      plays c x (map (\<lambda>p. r (sample_bytes p)) ps ! j)"
    using f(2) r by (auto simp: sample_in_def intro!: exI [of _ "sample_bytes (ps ! _)"])
  show ?thesis
    unfolding flat_left_def
    by (intro exI [of _ fl] exI [of _ 0] exI [of _ offs] exI [of _ "map (\<lambda>p. length (sample_bytes p)) ps"]
        exI [of _ "map sample_ts ps"] exI [of _ "keys_of ps"] exI [of _ "map (\<lambda>p. r (sample_bytes p)) ps"] exI [of _ 0])
      (use f(1) a b sm x total_ts [OF d] in \<open>simp add: new_demux_stream_def\<close>)
qed

text \<open>What \<open>Demux\<close> finds in a file that was written.\<close>

lemma written_probed:
  assumes "Mux start video audio (NewMuxer w batched) = (m, None)" "at_end w []"
    and "\<forall>p\<in>set (packets_of ops). unat (mk_stream p) < length (mx_streams m)" "length (packets_of ops) < 2 ^ 32 - 1"
    and "media_file now ops m = (fl, None)" "length fl < 2 ^ 63" "moov_ok (movie_of now (written_streams ops m))"
    and "\<forall>i<length (mx_streams m). reread_codec (ms_codec (mx_streams m ! i)) = Inr (c i)"
    and "\<forall>i<length (mx_streams m). (\<Sum>p\<leftarrow>written_samples ops i. mk_dur p) \<le> 10 ^ 14"
    and "\<forall>p\<in>set (packets_of ops). plays (c (unat (mk_stream p))) (sample_bytes p) (r (unat (mk_stream p)) (sample_bytes p)) \<and>
      length (sample_bytes p) < 2 ^ 32"
  obtains pars d where "Demux (\<lambda>_. Some fl) (NewDemuxer url) = Some (Inr pars, d)" "dm_movieAtom d \<noteq> None"
    "list_all2 (flat_left (dm_r d)) (dm_streams d)
      (map (\<lambda>i. map (read_back i (c i) (r i) (written_samples ops i)) [0..<length (written_samples ops i)]) [0..<length (mx_streams m)])"
proof -
  define a where "a = spec_trailer (spec_run (packets_of ops) (mx_streams m, []))"
  let ?n = "length (mx_streams m)" and ?cs = "written_samples ops" and ?s = "\<lambda>i. fst a ! i"
  let ?mv = "movie_of now (written_streams ops m)"
  have ss: "written_streams ops m = map finish_stream (fst a)" "length (fst a) = ?n" by (simp_all add: written_streams_def a_def)
  have fl: "fl = spec_file now a" using media_file_spec [OF assms(1-3), of now] assms(5) by (simp add: a_def)
  obtain as where as: "ReadFileAtoms fl 0 = Some (None, as, length fl)" "last_movie as = Some (moov_norm ?mv)"
    by (rule read_written [OF _ assms(6,7), of "samples_bytes (snd a)"]) (simp_all add: fl spec_file_def spec_moov_def ss(1))
  have kind: "new_kind start i (?s i)" "ms_codec (?s i) = ms_codec (mx_streams m ! i)" if "i < ?n" for i
  proof -
    have "same_kind (mx_streams m ! i) (?s i)"
      using same_kind_trans [OF spec_run_kind spec_trailer_kind, of i "(mx_streams m, [])" "packets_of ops"] that
      by (simp add: a_def)
    then show "new_kind start i (?s i)" "ms_codec (?s i) = ms_codec (mx_streams m ! i)"
      using same_new_kind Mux_kind [OF assms(1) that] by (auto simp: same_kind_def)
  qed
  define tab where "tab = (\<lambda>i. dropped_sync ((ms_sample (?s i))\<lparr>stbl_SampleDesc :=
      Some (stsd_norm (describe (ms_codec (?s i)) empty_stsd))\<rparr>))"
  have gives: "track_gives (stored_track (?s i)) (tab i, 90000, c i)" if i: "i < ?n" for i
    using stored_table [OF kind(1) [OF i]] stored_codec [OF kind(1) [OF i], of "c i"] assms(8) i
      trailer_located(3) [OF assms(1,3) a_def i]
    by (simp add: track_gives_def tab_def kind(2))
  have "moov_Tracks (moov_norm ?mv) = map stored_track (fst a)"
    by (simp add: moov_norm_def movie_of_def ss(1) stored_track_def)
  then have "list_all2 track_gives (moov_Tracks (moov_norm ?mv)) (map (\<lambda>i. (tab i, 90000, c i)) [0..<?n])"
    using gives by (simp add: list_all2_conv_all_nth ss(2))
  from Demux_gives [OF as this, of url] obtain pars d where d: "Demux (\<lambda>_. Some fl) (NewDemuxer url) = Some (Inr pars, d)"
    "dm_movieAtom d = Some (moov_norm ?mv)" "dm_r d = OpenFile fl 0"
    "dm_streams d = map probed (List.enumerate 0 (map (\<lambda>i. (tab i, 90000, c i)) [0..<?n]))" by blast
  have "flat_left (dm_r d) (new_demux_stream i 90000 (tab i) (c i)) (map (read_back i (c i) (r i) (?cs i)) [0..<length (?cs i)])"
    if i: "i < ?n" for i
    unfolding d(3) tab_def
  proof (rule new_stream_left [OF _ kind(1) [OF i] trailer_located(3) [OF assms(1,3) a_def i]])
    show "located fl (?s i) (?cs i)"
      using trailer_located(1,2) [OF assms(1,3) a_def i] by (simp add: fl written_samples_def located_finish)
    show "\<forall>p\<in>set (?cs i). lasting p" by (auto simp: written_samples_def with_durations_lasting)
    show "(\<Sum>p\<leftarrow>?cs i. mk_dur p) \<le> 10 ^ 14" using assms(9) i by blast
    show "length (?cs i) < 2 ^ 32 - 1"
      using assms(4) le_less_trans [OF length_filter_le] by (simp add: written_samples_def)
    show "length fl < 2 ^ 63" by (rule assms(6))
    show "\<forall>p\<in>set (?cs i). plays (c i) (sample_bytes p) (r i (sample_bytes p)) \<and> length (sample_bytes p) < 2 ^ 32"
    proof
      fix p assume "p \<in> set (?cs i)"
      then have "sample_bytes p \<in> set (map sample_bytes (?cs i))" by simp
      then have "sample_bytes p \<in> set (map sample_bytes (filter (on_stream i) (packets_of ops)))"
        by (simp only: written_samples_def with_durations_bytes)
      then obtain q where "q \<in> set (packets_of ops)" "unat (mk_stream q) = i" "sample_bytes q = sample_bytes p"
        by (auto simp: on_stream_def)
      then show "plays (c i) (sample_bytes p) (r i (sample_bytes p)) \<and> length (sample_bytes p) < 2 ^ 32"
        using assms(10) by metis
    qed
  qed
  then have "list_all2 (flat_left (dm_r d)) (dm_streams d) (map (\<lambda>i. map (read_back i (c i) (r i) (?cs i)) [0..<length (?cs i)]) [0..<?n])"
    by (simp add: d(4) list_all2_conv_all_nth nth_enumerate_eq probed_def)
  with d(1,2) show ?thesis by (intro that) simp_all
qed

text \<open>C11: The packets of a recording come back.  A file of at most two streams (H.264 or MJPEG video, AAC audio) is
  written packet by packet with flushes at any time and closed with \<open>WriteTrailer\<close>, no write failing, its movie
  box fitting the fields of its atoms (sizes below 4 GiB, creation times before 2040 on a clock of any precision).
  Then \<open>Demux\<close> opens it, \<open>ReadPacket\<close> returns as many packets as were
  written, in the order of their times, and \<open>io.EOF\<close> behind them; and those of each stream are its packets in the
  order they were written, with their key frame flags, at the sum of the durations before them in ticks of
  1/90000 s.  The data of a packet is the sample it was written as; of an H.264 sample, which holds the parameter
  sets of a key frame and may hold several units, it is only the last unit, which \<open>plays\<close> takes to be a slice.  The
  codec is what the demuxer parses out of the configuration of the stream.  Each stream is taken to last no longer
  than 27 hours, before which the products of \<open>tsToTime\<close> do not overflow.  H.265 is not covered.\<close>

theorem mp4_written_read:
  assumes "Mux start video audio (NewMuxer w batched) = (m, None)" "at_end w []" "mx_streams m \<noteq> []"
    and "\<forall>p\<in>set (packets_of ops). unat (mk_stream p) < length (mx_streams m)" "length (packets_of ops) < 2 ^ 32 - 1"
    and "media_file now ops m = (fl, None)" "length fl < 2 ^ 63" "moov_ok (movie_of now (written_streams ops m))"
    and "\<forall>i<length (mx_streams m). reread_codec (ms_codec (mx_streams m ! i)) = Inr (c i)"
    and "\<forall>i<length (mx_streams m). (\<Sum>p\<leftarrow>written_samples ops i. mk_dur p) \<le> 10 ^ 14"
    and "\<forall>p\<in>set (packets_of ops). plays (c (unat (mk_stream p))) (sample_bytes p) (r (unat (mk_stream p)) (sample_bytes p)) \<and>
      length (sample_bytes p) < 2 ^ 32"
  shows "\<exists>pars d ps d'. Demux (\<lambda>_. Some fl) (NewDemuxer url) = Some (Inr pars, d) \<and>
    read_run (length (packets_of ops)) d = Some (ps, d') \<and> ReadPacket d' = Some (Inl EOF, d') \<and> sorted (map dp_ts ps) \<and>
    (\<forall>i<length (mx_streams m). filter (\<lambda>x. unat (dp_stream x) = i) ps =
       map (read_back i (c i) (r i) (written_samples ops i)) [0..<length (written_samples ops i)])"
proof -
  let ?n = "length (mx_streams m)" and ?cs = "written_samples ops"
  let ?xss = "map (\<lambda>i. map (read_back i (c i) (r i) (?cs i)) [0..<length (?cs i)]) [0..<?n]"
  obtain pars d where d: "Demux (\<lambda>_. Some fl) (NewDemuxer url) = Some (Inr pars, d)" "dm_movieAtom d \<noteq> None"
    "list_all2 (flat_left (dm_r d)) (dm_streams d) ?xss"
    by (rule written_probed [OF assms(1,2,4-11)])
  have le: "?n \<le> 2" by (rule Mux_length [OF assms(1)])
  have tags: "\<forall>i<length ?xss. \<forall>x\<in>set (?xss ! i). unat (dp_stream x) = i"
    using le by (auto simp: read_back_def unsigned_of_nat take_bit_nat_eq_self)
  have ne: "dm_streams d \<noteq> []" using list_all2_lengthD [OF d(3)] assms(3) by auto
  have "sum_list (map length ?xss) = (\<Sum>i\<leftarrow>[0..<?n]. length (filter (\<lambda>p. unat (mk_stream p) = i) (packets_of ops)))"
    by (simp add: o_def written_samples_def on_stream_def [abs_def])
  also have "\<dots> = length (packets_of ops)" by (rule sum_filter_lengths [OF assms(4)])
  finally have "sum_list (map length ?xss) = length (packets_of ops)" .
  with flat.run_merge [OF d(2) ne d(3) tags] d(1) show ?thesis by auto
qed

section \<open>An example\<close>

text \<open>Two pictures of MJPEG, the second 40 ms behind the first and the queue flushed between them.\<close>

definition ex_picture :: "nat \<Rightarrow> bool \<Rightarrow> int \<Rightarrow> bytes \<Rightarrow> media_packet" where
  "ex_picture i key ts b = \<lparr>mk_id = i, mk_stream = 0, mk_video = True, mk_key = key, mk_ts = ts, mk_dur = 0, mk_data = b,
     mk_par = MJPEG_par \<lparr>mj_width = 16, mj_height = 8, mj_fps = 25, mj_BRate = 0\<rparr>\<rparr>"

definition ex_recording :: "mux_op list" where
  "ex_recording = [OpWrite (ex_picture 0 True 0 [1, 2, 3]), OpFlush, OpWrite (ex_picture 1 False 40000000 [4])]"

text \<open>A time in December 2025, not a whole second.\<close>

definition ex_now :: time where "ex_now = 3849984000123456789"

definition ex_file :: wfile where "ex_file = \<lparr>wf_bytes = [], wf_pos = 0, wf_faults = []\<rparr>"

definition ex_muxer :: muxer where
  "ex_muxer = fst (Mux ex_now (Some (mk_par (ex_picture 0 True 0 []))) None (NewMuxer ex_file True))"

lemma ex_types: "MJPEG_type \<in> {H264_type, H265_type, MJPEG_type}" "IsVideo MJPEG_type" "mp4_supported MJPEG_type"
  by (simp_all add: mp4_supported_def MJPEG_type_def IsVideo_def makeVideoCodecType_def avCodecTypeMagic_def codecTypeOtherBits_def codecTypeAudioBit_def)

lemma ex_mux: "Mux ex_now (Some (mk_par (ex_picture 0 True 0 []))) None (NewMuxer ex_file True) = (ex_muxer, None)"
  by (simp add: ex_muxer_def Mux_def NewMuxer_def releasePending_def new_stream_opt_def newStream_def then_do_def ex_types ex_picture_def)

lemma ex_streams: "mx_streams ex_muxer = [\<lparr>ms_codec = mk_par (ex_picture 0 True 0 []),
         ms_trackAtom = new_track ex_now 0 (mk_par (ex_picture 0 True 0 [])), ms_lastPacket = None, ms_timeScale = 90000,
         ms_duration = 0, ms_sample = new_sample_table, ms_sampleIndex = 0, ms_sttsEntry = None,
         ms_cttsEntry = None, ms_lastPacketDataOffset = 0, ms_lastPacketDataSize = 0\<rparr>]"
  by (simp add: ex_muxer_def Mux_def NewMuxer_def releasePending_def new_stream_opt_def newStream_def then_do_def ex_types ex_picture_def
   reset_composition_def new_sample_table_def)

lemma ex_written: "written_streams ex_recording ex_muxer = [finish_stream \<lparr>ms_codec = mk_par (ex_picture 0 True 0 []),
    ms_trackAtom = new_track ex_now 0 (mk_par (ex_picture 0 True 0 [])), ms_lastPacket = None, ms_timeScale = 90000,
    ms_duration = 3690, ms_sample = new_sample_table\<lparr>
      stbl_TimeToSample := Some \<lparr>stts_Version = 0, stts_Flags = 0,
        stts_Entries = [\<lparr>stts_Count = 1, stts_Duration = 3600\<rparr>, \<lparr>stts_Count = 1, stts_Duration = 90\<rparr>]\<rparr>,
      stbl_CompositionOffset := Some \<lparr>ctts_Version = 0, ctts_Flags = 0, ctts_Entries = [\<lparr>ctts_Count = 2, ctts_Offset = 0\<rparr>]\<rparr>,
      stbl_SyncSample := Some \<lparr>stss_Version = 0, stss_Flags = 0, stss_Entries = [1]\<rparr>,
      stbl_ChunkOffset := Some \<lparr>stco_Version = 0, stco_Flags = 0, stco_Entries = [56, 59]\<rparr>,
      stbl_SampleSize := Some \<lparr>stsz_Version = 0, stsz_Flags = 0, stsz_SampleSize = 0, stsz_Entries = [3, 1]\<rparr>\<rparr>,
    ms_sampleIndex = 2, ms_sttsEntry = Some 1, ms_cttsEntry = Some 0, ms_lastPacketDataOffset = 59, ms_lastPacketDataSize = 1\<rparr>]"
  apply (simp add: written_streams_def packets_of_def ex_recording_def ex_streams spec_run_def spec_write_def spec_commit_def)
  apply (simp add: ex_picture_def spec_trailer_def spec_last_def spec_commit_def with_duration_def clamp_duration_def maxSampleDuration_def
    second_def Millisecond_def)
  apply (simp add: commit_sample_def Let_def pending_of_def extras_of_def add_sync_def new_sample_table_def update_stts_def update_ctts_def
     add_stts_def add_ctts_def add_chunk_def Stream_timeToTS_def wrap64_id second_def quot_nonneg position_def samples_bytes_def sample_bytes_def
     headerSize_def extra_size_def)
  apply (rule arg_cong [where f = finish_stream])
  apply simp
  done

definition ex_stream :: mux_stream where "ex_stream = hd (written_streams ex_recording ex_muxer)"

lemmas ex_stream_defs = ex_stream_def ex_written finish_stream_def set_track_duration_def fillTrackAtom_def Let_def ex_picture_def

lemma ex_table: "stbl_ok (ms_sample ex_stream)" "SampleTable_Len (ms_sample ex_stream) = 266"
  by (simp_all add: ex_stream_defs describe_def jpeg_desc_def empty_stsd_def new_sample_table_def)
    (simp_all add: stbl_ok_def stsd_ok_def mjpg_ok_def stts_ok_def ctts_ok_def stsc_ok_def
      stss_ok_def stco_ok_def stsz_ok_def opt_all_def all_len SampleTable_Len_def flags_small unknowns_ok_def fixed32_ok_def needs64_def)

lemma ex_atom: "ms_trackAtom ex_stream = (let t = new_track ex_now 0 (mk_par (ex_picture 0 True 0 [])) in
    t\<lparr>trak_Header := map_option (\<lambda>h. h\<lparr>tkhd_Duration := 41\<rparr>) (trak_Header t),
      trak_Media := map_option (\<lambda>md. md\<lparr>mdia_Header := map_option (\<lambda>h. h\<lparr>mdhd_TimeScale := 90000, mdhd_Duration := 3690\<rparr>) (mdia_Header md)\<rparr>)
        (trak_Media t)\<rparr>)" "tsToTime ex_stream (ms_duration ex_stream) = 41000000"
  apply (simp_all add: ex_stream_defs with_times_def tsToTime_def quot_nonneg wrap64_id second_def new_track_def timeToTS_def)
  done

lemma ex_streams_written: "written_streams ex_recording ex_muxer = [ex_stream]"
  by (simp add: ex_stream_def ex_written)

lemma ex_timescale: "timeToTS 41000000 1000 = 41"
  by (simp add: timeToTS_def quot_nonneg wrap64_id second_def)

lemma ex_movie_ok: "moov_ok (movie_of ex_now (written_streams ex_recording ex_muxer))"
  using ex_table
  apply (simp add: ex_streams_written movie_of_def with_table_def ex_atom ex_timescale Let_def)
  apply (simp add: ex_picture_def new_track_def ex_types url_reference_def)
  apply (simp add: moov_ok_def trak_ok_def mdia_ok_def minf_ok_def dinf_ok_def dref_ok_def vmhd_ok_def mdhd_ok_def tkhd_ok_def
      hdlr_ok_def url_ok_def opt_all_def flags_small unknowns_ok_def dummy_ok_def NewMovieHeader_def mvhd_ok_def mvhd_arr_def
      time_ok_def duration_ok_def time32_ok_def fixed32_ok_def fixed16_ok_def second_def ex_now_def
      all_len MVHD_def TRAK_def MVEX_def unity_matrix_def vide_def VideoHandlerName_def)
  done
lemma ex_samples: "written_samples ex_recording 0 = [(ex_picture 0 True 0 [1, 2, 3])\<lparr>mk_dur := 40000000\<rparr>,
    (ex_picture 1 False 40000000 [4])\<lparr>mk_dur := 1000000\<rparr>]"
  by (simp add: written_samples_def ex_recording_def packets_of_def on_stream_def ex_picture_def with_duration_def
      clamp_duration_def maxSampleDuration_def second_def Millisecond_def)

lemma ex_due: "due 90000 (map sample_ts (written_samples ex_recording 0)) (Suc 0) = 40000000"
  by (simp add: due_def ex_samples sample_ts_def timeToTS_def ex_picture_def second_def quot_nonneg wrap64_id)

lemma ex_count: "length (packets_of ex_recording) = 2"
  by (simp add: packets_of_def ex_recording_def)

lemma ex_media_file:
  "\<exists>fl. media_file ex_now ex_recording ex_muxer = (fl, None) \<and> length fl < 2 ^ 63"
proof -
  let ?mv = "movie_of ex_now (written_streams ex_recording ex_muxer)"
  have fl: "media_file ex_now ex_recording ex_muxer = (spec_file ex_now (spec_trailer (spec_run (packets_of ex_recording) (mx_streams ex_muxer, []))), None)"
    by (rule media_file_spec [OF ex_mux]) (simp_all add: at_end_def ex_file_def ex_recording_def packets_of_def ex_streams ex_picture_def)
  have "length (moov_layout ?mv) = Movie_Len ?mv" by (rule moov.Len_layout [OF moov.ok_arr [OF ex_movie_ok]])
  moreover have "Movie_Len ?mv < 2 ^ 32" using ex_movie_ok by (simp add: moov_ok_def)
  moreover have "length (samples_bytes (snd (spec_trailer (spec_run (packets_of ex_recording) (mx_streams ex_muxer, []))))) \<le> 4"
    by (simp add: packets_of_def ex_recording_def ex_streams spec_run_def spec_write_def spec_commit_def spec_trailer_def spec_last_def
      ex_picture_def with_duration_def samples_bytes_def sample_bytes_def extras_of_def)
  ultimately show ?thesis
    by (simp add: fl spec_file_def spec_moov_def sized_header_bytes written_streams_def ftyp_layout_def box_def NewFileType_def)
qed

lemma mp4_written_read_witness:
  "\<exists>fl pars d ps d'. media_file ex_now ex_recording ex_muxer = (fl, None) \<and> Demux (\<lambda>_. Some fl) (NewDemuxer []) = Some (Inr pars, d) \<and>
    read_run 2 d = Some (ps, d') \<and> ReadPacket d' = Some (Inl EOF, d') \<and>
    map (\<lambda>p. (dp_key p, dp_ts p, dp_data p)) (filter (\<lambda>p. unat (dp_stream p) = 0) ps) = [(True, 0, [1, 2, 3]), (False, 40000000, [4])]"
proof -
  obtain fl where fl: "media_file ex_now ex_recording ex_muxer = (fl, None)" "length fl < 2 ^ 63" using ex_media_file by blast
  let ?c = "\<lambda>_ :: nat. MJPEG_par (mjpeg_NewCodecParameters 16 8 25)" and ?r = "\<lambda>(_ :: nat) x. (0 :: int, x :: bytes)"
  have "\<exists>pars d ps d'. Demux (\<lambda>_. Some fl) (NewDemuxer []) = Some (Inr pars, d) \<and>
    read_run (length (packets_of ex_recording)) d = Some (ps, d') \<and> ReadPacket d' = Some (Inl EOF, d') \<and> sorted (map dp_ts ps) \<and>
    (\<forall>i<length (mx_streams ex_muxer). filter (\<lambda>x. unat (dp_stream x) = i) ps =
       map (read_back i (?c i) (?r i) (written_samples ex_recording i)) [0..<length (written_samples ex_recording i)])"
    by (rule mp4_written_read [where c = ?c and r = ?r, OF ex_mux _ _ _ _ fl(1,2) ex_movie_ok])
      (simp_all add: ex_streams ex_samples at_end_def ex_file_def, simp_all add: ex_picture_def ex_recording_def packets_of_def sample_bytes_def plays_def extras_of_def)
  then obtain pars d ps d' where d: "Demux (\<lambda>_. Some fl) (NewDemuxer []) = Some (Inr pars, d)" "read_run 2 d = Some (ps, d')"
      "ReadPacket d' = Some (Inl EOF, d')"
    and "\<forall>i<length (mx_streams ex_muxer). filter (\<lambda>x. unat (dp_stream x) = i) ps =
       map (read_back i (?c i) (?r i) (written_samples ex_recording i)) [0..<length (written_samples ex_recording i)]"
    unfolding ex_count by (elim exE conjE) (rule that)
  then have "filter (\<lambda>x. unat (dp_stream x) = 0) ps = map (read_back 0 (?c 0) (?r 0) (written_samples ex_recording 0)) [0..<2]"
    by (simp add: ex_streams ex_samples numeral_2_eq_2)
  moreover have "due 90000 (map sample_ts (written_samples ex_recording 0)) 0 = 0" by (simp add: due_def)
  ultimately have "map (\<lambda>p. (dp_key p, dp_ts p, dp_data p)) (filter (\<lambda>p. unat (dp_stream p) = 0) ps) = [(True, 0, [1, 2, 3]), (False, 40000000, [4])]"
    by (simp add: numeral_2_eq_2 read_back_def ex_due)
      (simp add: ex_samples is_key_def ex_picture_def sample_bytes_def extras_of_def)
  with fl(1) d show ?thesis by (intro exI conjI)
qed

end
